(* ===== verification/Iroh_Prelude.thy ===== *)
theory Iroh_Prelude
  imports Main "HOL-Library.Word"
begin

text \<open>
  Shared vocabulary of the development: machine integers and byte strings, results
  (\<open>Inl\<close> an error, \<open>Inr\<close> a value), association lists standing for Rust's
  \<open>HashMap\<close>, saturating counters at the width of \<open>usize\<close>, the decimal rendering used
  by \<open>format!\<close>, and the polling discipline of Rust futures.  The collections declared
  here (\<open>alist_simps\<close>, \<open>poll_simps\<close>) carry the component proofs.
\<close>

named_theorems alist_simps \<open>lookup, update and deletion on association lists\<close>
named_theorems poll_simps \<open>evaluation of awaited futures\<close>

section \<open>Machine types\<close>

type_synonym u8 = "8 word"
type_synonym u16 = "16 word"
type_synonym u32 = "32 word"
type_synonym u64 = "64 word"
type_synonym bytes = "u8 list"
type_synonym millis = nat

text \<open>\<open>usize\<close> values are natural numbers; where the source saturates, the width is
  written out.\<close>

definition usize_max :: nat where
  "usize_max = 2 ^ 64 - 1"

definition sat_add :: "nat \<Rightarrow> nat \<Rightarrow> nat" where
  "sat_add a b = min (a + b) usize_max"

lemma sat_add_exact [simp]: "a + b \<le> usize_max \<Longrightarrow> sat_add a b = a + b"
  by (simp add: sat_add_def)

lemma sat_add_le: "sat_add a b \<le> a + b"
  by (simp add: sat_add_def)

lemma sat_add_bound: "sat_add a b \<le> usize_max"
  by (simp add: sat_add_def)

lemma word_less_succ_iff:
  fixes n :: "'a :: len word"
  assumes "n \<noteq> - 1"
  shows "x < n + 1 \<longleftrightarrow> x < n \<or> x = n"
proof -
  have "1 + n \<noteq> 0" using assms by (metis add.commute add_eq_0_iff)
  then have "unat (n + 1) = Suc (unat n)" using unatSuc [of n] by (simp add: add.commute)
  then show ?thesis by (auto simp: word_less_nat_alt less_Suc_eq word_unat_eq_iff)
qed

text \<open>\<open>AtomicUsize::fetch_add(1)\<close> and \<open>fetch_sub(1)\<close> wrap around.\<close>

definition atomic_inc :: "nat \<Rightarrow> nat" where
  "atomic_inc n = (if n = usize_max then 0 else Suc n)"

definition atomic_dec :: "nat \<Rightarrow> nat" where
  "atomic_dec n = (if n = 0 then usize_max else n - 1)"

lemma atomic_inc_exact [simp]: "n < usize_max \<Longrightarrow> atomic_inc n = Suc n"
  by (simp add: atomic_inc_def)

lemma atomic_dec_exact [simp]: "0 < n \<Longrightarrow> atomic_dec n = n - 1"
  by (simp add: atomic_dec_def)

section \<open>Decimal rendering of unsigned integers\<close>

definition digit_char :: "nat \<Rightarrow> char" where
  "digit_char d = char_of (48 + d)"

fun show_nat :: "nat \<Rightarrow> string" where
  "show_nat n = (if n < 10 then [digit_char n]
     else show_nat (n div 10) @ [digit_char (n mod 10)])"

declare show_nat.simps [simp del]

lemma show_nat_not_Nil [simp]: "show_nat n \<noteq> []"
  by (subst show_nat.simps) simp

section \<open>Association lists for hash maps\<close>

text \<open>\<open>HashMap::insert\<close>, \<open>remove\<close> and \<open>get\<close>.  The invariant is that the
  keys are distinct; iteration order is not observed by any modelled operation.\<close>

definition keys :: "('k \<times> 'v) list \<Rightarrow> 'k list" where
  "keys m = map fst m"

definition al_del :: "'k \<Rightarrow> ('k \<times> 'v) list \<Rightarrow> ('k \<times> 'v) list" where
  "al_del k m = filter (\<lambda>(k', v). k' \<noteq> k) m"

definition al_put :: "'k \<Rightarrow> 'v \<Rightarrow> ('k \<times> 'v) list \<Rightarrow> ('k \<times> 'v) list" where
  "al_put k v m = (k, v) # al_del k m"

definition al_upd :: "'k \<Rightarrow> ('v \<Rightarrow> 'v) \<Rightarrow> ('k \<times> 'v) list \<Rightarrow> ('k \<times> 'v) list" where
  "al_upd k f m = map (\<lambda>(k', v). (k', if k' = k then f v else v)) m"

lemma al_del_Nil [simp]: "al_del k [] = []"
  by (simp add: al_del_def)

lemma al_del_Cons [simp]:
  "al_del k ((k', v) # m) = (if k' = k then al_del k m else (k', v) # al_del k m)"
  by (simp add: al_del_def)

lemma map_of_al_del [simp, alist_simps]:
  "map_of (al_del k m) k' = (if k' = k then None else map_of m k')"
  by (induction m) auto

lemma map_of_al_put [simp, alist_simps]:
  "map_of (al_put k v m) k' = (if k' = k then Some v else map_of m k')"
  by (simp add: al_put_def)

lemma map_of_al_upd [simp, alist_simps]:
  "map_of (al_upd k f m) k' = (if k' = k then map_option f (map_of m k) else map_of m k')"
  by (induction m) (auto simp: al_upd_def)

lemma keys_al_upd [simp, alist_simps]: "keys (al_upd k f m) = keys m"
  by (induction m) (auto simp: al_upd_def keys_def)

lemma length_al_upd [simp]: "length (al_upd k f m) = length m"
  by (simp add: al_upd_def)

lemma keys_Nil [simp]: "keys [] = []"
  by (simp add: keys_def)

lemma keys_Cons [simp]: "keys (p # m) = fst p # keys m"
  by (simp add: keys_def)

lemma keys_append [simp]: "keys (m @ m') = keys m @ keys m'"
  by (simp add: keys_def)

lemma keys_al_del [alist_simps]: "keys (al_del k m) = filter (\<lambda>k'. k' \<noteq> k) (keys m)"
  by (induction m) auto

lemma set_keys_al_del [simp]: "set (keys (al_del k m)) = set (keys m) - {k}"
  by (auto simp: keys_al_del)

lemma distinct_keys_al_del [simp]: "distinct (keys m) \<Longrightarrow> distinct (keys (al_del k m))"
  by (simp add: keys_al_del)

lemma al_del_fresh [simp]: "k \<notin> set (keys m) \<Longrightarrow> al_del k m = m"
  by (induction m) auto

lemma map_of_None_keys [alist_simps]: "map_of m k = None \<longleftrightarrow> k \<notin> set (keys m)"
  by (simp add: keys_def map_of_eq_None_iff)

lemma length_al_del_le: "length (al_del k m) \<le> length m"
  by (simp add: al_del_def)

lemma length_al_del_mem:
  assumes "distinct (keys m)" and "k \<in> set (keys m)"
  shows "length (al_del k m) = length m - 1"
  using assms
proof (induction m)
  case Nil
  then show ?case by simp
next
  case (Cons p m)
  then show ?case
    by (cases p; cases m) auto
qed

lemma distinct_keys_filter: "distinct (keys m) \<Longrightarrow> distinct (keys (filter P m))"
  unfolding keys_def by (induction m) auto

lemma map_of_filter_keep:
  "distinct (keys m) \<Longrightarrow>
   map_of (filter (\<lambda>(k, v). P k v) m) k
     = (case map_of m k of None \<Rightarrow> None | Some v \<Rightarrow> if P k v then Some v else None)"
proof (induction m)
  case Nil
  then show ?case by simp
next
  case (Cons a m)
  then show ?case
    by (cases a) (auto simp: keys_def map_of_eq_None_iff split: option.splits
        dest: map_of_SomeD intro: rev_image_eqI)
qed

section \<open>Polling\<close>

text \<open>
  A future is driven by repeated polls.  A poll acts on the shared state and returns
  \<open>Pending\<close> or \<open>Ready\<close>.  Between two polls other tasks run: \<open>env\<close> lists those
  atomic steps in their order.  \<open>await_fut\<close> polls, lets the next environment step run
  after each \<open>Pending\<close>, and returns \<open>None\<close> if the environment is exhausted while
  the future is still pending (the call has not returned).  The local state \<open>'l\<close> is what
  the future owns between polls.
\<close>

datatype 'a poll = Pending | Ready 'a

fun await_fut :: "('l \<Rightarrow> 's \<Rightarrow> ('a poll \<times> 'l \<times> 's)) \<Rightarrow> ('s \<Rightarrow> 's) list \<Rightarrow> 'l \<Rightarrow> 's
    \<Rightarrow> 'a option \<times> 'l \<times> 's" where
  "await_fut p [] l s = (case p l s of (Ready a, l', s') \<Rightarrow> (Some a, l', s')
       | (Pending, l', s') \<Rightarrow> (None, l', s'))"
| "await_fut p (e # es) l s = (case p l s of (Ready a, l', s') \<Rightarrow> (Some a, l', s')
       | (Pending, l', s') \<Rightarrow> await_fut p es l' (e s'))"

lemma await_fut_ready [poll_simps]:
  "p l s = (Ready a, l', s') \<Longrightarrow> await_fut p env l s = (Some a, l', s')"
  by (cases env) auto

lemma await_fut_pending [poll_simps]:
  "p l s = (Pending, l', s') \<Longrightarrow> await_fut p (e # es) l s = await_fut p es l' (e s')"
  by simp

text \<open>An invariant of the polls and of every environment step holds when the await
  ends.\<close>

lemma await_fut_inv:
  assumes "\<And>l s r l' s'. I s \<Longrightarrow> p l s = (r, l', s') \<Longrightarrow> I s'"
    and "\<And>e s. e \<in> set env \<Longrightarrow> I s \<Longrightarrow> I (e s)"
    and "I s" and "await_fut p env l s = (r, l', s')"
  shows "I s'"
  using assms(2-4)
proof (induction env arbitrary: l s)
  case Nil
  then show ?case
    by (auto split: prod.splits poll.splits intro: assms(1))
next
  case (Cons e es)
  obtain q l1 s1 where q: "p l s = (q, l1, s1)" by (cases "p l s") auto
  have I1: "I s1" using assms(1) q Cons.prems(2) by blast
  show ?case
  proof (cases q)
    case Pending
    have "I (e s1)" using Cons.prems(1) I1 by simp
    moreover have "await_fut p es l1 (e s1) = (r, l', s')"
      using Cons.prems(3) q Pending by simp
    ultimately show ?thesis using Cons.IH Cons.prems(1) by auto
  next
    case (Ready a)
    with Cons.prems(3) q I1 show ?thesis by simp
  qed
qed

end
