(* ===== verification/Slot_Map.thy ===== *)
theory Slot_Map
  imports Iroh_Prelude
begin

text \<open>
  The interface of the \<open>slotmap\<close> crate as the registries use it.  The crate's key
  allocation is not part of this repository, so it is a parameter: a \<open>slot_lib\<close> gives,
  for the history of operations performed on one map since it was created, the FFI form
  (\<open>KeyData::as_ffi\<close>, a \<open>u64\<close>) of the key the next insertion returns, and the
  capacity the map reports.  What the crate documents is \<open>slot_lib_ok\<close>: below the
  version wrap-around (\<open>2^31\<close> uses of a slot) no key is handed out twice by one map.

  The locale \<open>keyed_registry\<close> is the contract the registries rely on; it is interpreted
  on \<open>slot_insert\<close>, \<open>slot_get\<close> and \<open>slot_remove\<close>.
\<close>

datatype slot_op = SlotInsert | SlotRemove u64

record slot_lib =
  next_key :: "slot_op list \<Rightarrow> u64"
  slot_capacity :: "slot_op list \<Rightarrow> nat"

record 'v slot_map =
  slots :: "(u64 \<times> 'v) list"
  history :: "slot_op list"

definition slot_new :: "'v slot_map" where
  "slot_new = \<lparr>slots = [], history = []\<rparr>"

definition slot_insert :: "slot_lib \<Rightarrow> 'v \<Rightarrow> 'v slot_map \<Rightarrow> u64 \<times> 'v slot_map" where
  "slot_insert L v m = (let k = next_key L (history m) in
     (k, \<lparr>slots = (k, v) # slots m, history = SlotInsert # history m\<rparr>))"

definition slot_get :: "u64 \<Rightarrow> 'v slot_map \<Rightarrow> 'v option" where
  "slot_get k m = map_of (slots m) k"

definition slot_upd :: "u64 \<Rightarrow> ('v \<Rightarrow> 'v) \<Rightarrow> 'v slot_map \<Rightarrow> 'v slot_map" where
  "slot_upd k f m = m\<lparr>slots := al_upd k f (slots m)\<rparr>"

definition slot_remove :: "u64 \<Rightarrow> 'v slot_map \<Rightarrow> 'v option \<times> 'v slot_map" where
  "slot_remove k m = (case slot_get k m of
       None \<Rightarrow> (None, m)
     | Some v \<Rightarrow> (Some v, \<lparr>slots = al_del k (slots m), history = SlotRemove k # history m\<rparr>))"

definition slot_len :: "'v slot_map \<Rightarrow> nat" where
  "slot_len m = length (slots m)"

text \<open>The keys issued along a history, newest first.\<close>

fun issued :: "slot_lib \<Rightarrow> slot_op list \<Rightarrow> u64 list" where
  "issued L [] = []"
| "issued L (SlotInsert # h) = next_key L h # issued L h"
| "issued L (SlotRemove k # h) = issued L h"

definition slot_version_limit :: nat where
  "slot_version_limit = 2 ^ 31"

definition slot_lib_ok :: "slot_lib \<Rightarrow> bool" where
  "slot_lib_ok L \<longleftrightarrow> (\<forall>h. length h < slot_version_limit \<longrightarrow> next_key L h \<notin> set (issued L h))"

definition slot_inv :: "slot_lib \<Rightarrow> 'v slot_map \<Rightarrow> bool" where
  "slot_inv L m \<longleftrightarrow> slot_lib_ok L \<and> distinct (keys (slots m))
     \<and> set (keys (slots m)) \<subseteq> set (issued L (history m))"

definition slot_room :: "'v slot_map \<Rightarrow> bool" where
  "slot_room m \<longleftrightarrow> length (history m) < slot_version_limit"

section \<open>Basic facts\<close>

lemma slot_new_simps [simp]:
  "slots slot_new = []" "history slot_new = []" "slot_get k slot_new = None" "slot_len slot_new = 0"
  by (simp_all add: slot_new_def slot_get_def slot_len_def)

lemma slot_get_upd [simp]:
  "slot_get k (slot_upd k' f m) = (if k = k' then map_option f (slot_get k' m) else slot_get k m)"
  by (simp add: slot_get_def slot_upd_def)

lemma slot_len_upd [simp]: "slot_len (slot_upd k f m) = slot_len m"
  by (simp add: slot_len_def slot_upd_def)

lemma history_upd [simp]: "history (slot_upd k f m) = history m"
  by (simp add: slot_upd_def)

lemma slot_inv_upd [simp]: "slot_inv L (slot_upd k f m) = slot_inv L m"
  by (simp add: slot_inv_def slot_upd_def)

lemma slot_room_upd [simp]: "slot_room (slot_upd k f m) = slot_room m"
  by (simp add: slot_room_def)

lemma slot_inv_new: "slot_lib_ok L \<Longrightarrow> slot_inv L slot_new"
  by (simp add: slot_inv_def)

lemma slot_get_insert:
  "slot_get k (snd (slot_insert L v m))
     = (if k = next_key L (history m) then Some v else slot_get k m)"
  by (simp add: slot_insert_def slot_get_def Let_def)

lemma slot_get_remove [simp]:
  "slot_get k (snd (slot_remove k' m)) = (if k = k' then None else slot_get k m)"
  by (auto simp: slot_remove_def slot_get_def split: option.splits)

lemma fst_slot_remove [simp]: "fst (slot_remove k m) = slot_get k m"
  by (simp add: slot_remove_def split: option.splits)

lemma slot_fresh:
  assumes "slot_inv L m" and "slot_room m"
  shows "slot_get (next_key L (history m)) m = None"
  using assms
  by (auto simp: slot_inv_def slot_room_def slot_lib_ok_def slot_get_def map_of_eq_None_iff keys_def)

lemma slot_inv_insert:
  assumes "slot_inv L m" and "slot_room m"
  shows "slot_inv L (snd (slot_insert L v m))"
  using assms
  by (auto simp: slot_inv_def slot_room_def slot_lib_ok_def slot_insert_def Let_def)

lemma slot_inv_remove:
  assumes "slot_inv L m"
  shows "slot_inv L (snd (slot_remove k m))"
  using assms by (auto simp: slot_inv_def slot_remove_def split: option.splits)

lemma slot_len_insert [simp]: "slot_len (snd (slot_insert L v m)) = Suc (slot_len m)"
  by (simp add: slot_len_def slot_insert_def Let_def)

lemma slot_len_remove_le: "slot_len (snd (slot_remove k m)) \<le> slot_len m"
  by (auto simp: slot_len_def slot_remove_def length_al_del_le split: option.splits)

lemma slot_len_remove:
  assumes "slot_inv L m" and "slot_get k m = Some v"
  shows "slot_len (snd (slot_remove k m)) = slot_len m - 1"
proof -
  have "k \<in> set (keys (slots m))"
    using assms(2) by (metis map_of_None_keys option.distinct(1) slot_get_def)
  then show ?thesis
    using assms by (simp add: slot_remove_def slot_len_def slot_inv_def length_al_del_mem)
qed

section \<open>The registry contract\<close>

locale keyed_registry =
  fixes ins :: "'v \<Rightarrow> 'm \<Rightarrow> 'k \<times> 'm"
    and get :: "'k \<Rightarrow> 'm \<Rightarrow> 'v option"
    and del :: "'k \<Rightarrow> 'm \<Rightarrow> 'v option \<times> 'm"
    and size :: "'m \<Rightarrow> nat"
    and invar :: "'m \<Rightarrow> bool"
    and room :: "'m \<Rightarrow> bool"
  assumes ins_fresh: "invar m \<Longrightarrow> room m \<Longrightarrow> get (fst (ins v m)) m = None"
    and ins_get: "invar m \<Longrightarrow> room m \<Longrightarrow>
      get k (snd (ins v m)) = (if k = fst (ins v m) then Some v else get k m)"
    and ins_invar: "invar m \<Longrightarrow> room m \<Longrightarrow> invar (snd (ins v m))"
    and ins_size: "invar m \<Longrightarrow> room m \<Longrightarrow> size (snd (ins v m)) = Suc (size m)"
    and del_fst: "fst (del k m) = get k m"
    and del_get: "get k' (snd (del k m)) = (if k' = k then None else get k' m)"
    and del_invar: "invar m \<Longrightarrow> invar (snd (del k m))"
    and del_size: "invar m \<Longrightarrow> get k m = Some v \<Longrightarrow> size (snd (del k m)) = size m - 1"
begin

lemma ins_then_get: "invar m \<Longrightarrow> room m \<Longrightarrow> get (fst (ins v m)) (snd (ins v m)) = Some v"
  by (simp add: ins_get)

lemma ins_keeps: "invar m \<Longrightarrow> room m \<Longrightarrow> get k m = Some w \<Longrightarrow> get k (snd (ins v m)) = Some w"
  using ins_fresh [of m v] by (auto simp: ins_get)

lemma ins_del_restores:
  assumes "invar m" and "room m"
  shows "get k (snd (del (fst (ins v m)) (snd (ins v m)))) = get k m"
  using assms ins_fresh [of m v] by (simp add: del_get ins_get)

lemma ins_del_size:
  assumes "invar m" and "room m"
  shows "size (snd (del (fst (ins v m)) (snd (ins v m)))) = size m"
  using assms del_size [OF ins_invar ins_then_get] by (simp add: ins_size)

lemma ins_twice_distinct:
  assumes "invar m" and "room m" and "room (snd (ins v m))"
  shows "fst (ins w (snd (ins v m))) \<noteq> fst (ins v m)"
proof
  assume eq: "fst (ins w (snd (ins v m))) = fst (ins v m)"
  have "get (fst (ins w (snd (ins v m)))) (snd (ins v m)) = None"
    using assms by (intro ins_fresh ins_invar)
  then show False using eq ins_then_get [OF assms(1,2), of v] by simp
qed

lemma del_twice: "get k (snd (del k m)) = None"
  by (simp add: del_get)

end

interpretation slotmap: keyed_registry "slot_insert L" slot_get slot_remove slot_len
    "slot_inv L" slot_room for L
proof (unfold_locales, goal_cases)
  case (1 m v)
  then show ?case by (simp add: slot_insert_def Let_def slot_fresh)
next
  case (2 m k v)
  then show ?case by (simp add: slot_insert_def Let_def slot_get_def)
qed (simp_all add: slot_inv_insert slot_inv_remove slot_len_remove)

section \<open>Handles that are never reused\<close>

text \<open>A registry that remembers the keys it has handed out.  A run of operations has room when every insertion in it
  has.\<close>

datatype ('k, 'v) reg_op = RegIns 'v | RegDel 'k

fun reg_run :: "('v \<Rightarrow> 'm \<Rightarrow> 'k \<times> 'm) \<Rightarrow> ('k \<Rightarrow> 'm \<Rightarrow> 'v option \<times> 'm) \<Rightarrow> ('k, 'v) reg_op list \<Rightarrow> 'm \<Rightarrow> 'm" where
  "reg_run ins del [] m = m"
| "reg_run ins del (RegIns v # os) m = reg_run ins del os (snd (ins v m))"
| "reg_run ins del (RegDel k # os) m = reg_run ins del os (snd (del k m))"

fun reg_run_room :: "('v \<Rightarrow> 'm \<Rightarrow> 'k \<times> 'm) \<Rightarrow> ('k \<Rightarrow> 'm \<Rightarrow> 'v option \<times> 'm) \<Rightarrow> ('m \<Rightarrow> bool) \<Rightarrow> ('k, 'v) reg_op list \<Rightarrow> 'm \<Rightarrow> bool" where
  "reg_run_room ins del room [] m \<longleftrightarrow> True"
| "reg_run_room ins del room (RegIns v # os) m \<longleftrightarrow> room m \<and> reg_run_room ins del room os (snd (ins v m))"
| "reg_run_room ins del room (RegDel k # os) m \<longleftrightarrow> reg_run_room ins del room os (snd (del k m))"

locale retiring_registry = keyed_registry +
  fixes spent :: "'b \<Rightarrow> 'c set"
  assumes ins_spent: "invar m \<Longrightarrow> room m \<Longrightarrow> spent (snd (ins v m)) = insert (fst (ins v m)) (spent m)"
    and ins_unspent: "invar m \<Longrightarrow> room m \<Longrightarrow> fst (ins v m) \<notin> spent m"
    and del_spent: "spent (snd (del k m)) = spent m"
begin

lemma stale_stays_dead:
  assumes "invar m" "k \<in> spent m" "get k m = None" "reg_run_room ins del room os m"
  shows "get k (reg_run ins del os m) = None"
  using assms
proof (induction os arbitrary: m)
  case Nil
  then show ?case by simp
next
  case (Cons o1 os)
  show ?case
  proof (cases o1)
    case (RegIns v)
    then have r: "room m" "reg_run_room ins del room os (snd (ins v m))" using Cons.prems(4) by simp_all
    have "get k (snd (ins v m)) = None"
      using Cons.prems(1-3) r(1) ins_unspent [of m v] by (auto simp: ins_get)
    moreover have "k \<in> spent (snd (ins v m))" using Cons.prems(1,2) r(1) by (simp add: ins_spent)
    ultimately show ?thesis using Cons.IH [OF ins_invar] Cons.prems(1) r RegIns by simp
  next
    case (RegDel j)
    have "get k (snd (del j m)) = None" using Cons.prems(3) by (simp add: del_get)
    moreover have "k \<in> spent (snd (del j m))" using Cons.prems(2) by (simp add: del_spent)
    ultimately show ?thesis using Cons.IH [OF del_invar] Cons.prems(1,4) RegDel by simp
  qed
qed

end

interpretation slotmap: retiring_registry "slot_insert L" slot_get slot_remove slot_len
    "slot_inv L" slot_room "\<lambda>m. set (issued L (history m))" for L
proof (unfold_locales, goal_cases)
  case (1 m v)
  then show ?case by (simp add: slot_insert_def Let_def)
next
  case (2 m v)
  then show ?case by (simp add: slot_insert_def Let_def slot_inv_def slot_lib_ok_def slot_room_def)
next
  case (3 k m)
  then show ?case by (simp add: slot_remove_def split: option.splits)
qed

section \<open>A key source that meets the documented behaviour\<close>

text \<open>Used by witnesses only: keys count the insertions from 1, and the capacity is
  the number of insertions.\<close>

fun inserts :: "slot_op list \<Rightarrow> nat" where
  "inserts [] = 0"
| "inserts (SlotInsert # h) = Suc (inserts h)"
| "inserts (SlotRemove k # h) = inserts h"

definition counting_lib :: slot_lib where
  "counting_lib = \<lparr>next_key = (\<lambda>h. of_nat (Suc (inserts h))), slot_capacity = inserts\<rparr>"

lemma counting_lib_simps [simp]:
  "next_key counting_lib h = of_nat (Suc (inserts h))" "slot_capacity counting_lib h = inserts h"
  by (simp_all add: counting_lib_def)

lemma inserts_le: "inserts h \<le> length h"
  by (induction h rule: inserts.induct) auto

lemma issued_counting:
  "set (issued counting_lib h) = (\<lambda>n. of_nat n) ` {1..inserts h}"
proof (induction h rule: inserts.induct)
  case (2 h)
  have "{1..Suc (inserts h)} = insert (Suc (inserts h)) {1..inserts h}" by auto
  then show ?case using 2 by (simp del: of_nat_Suc)
qed simp_all

lemma counting_lib_ok: "slot_lib_ok counting_lib"
  unfolding slot_lib_ok_def
proof (intro allI impI notI)
  fix h :: "slot_op list"
  assume len: "length h < slot_version_limit"
    and "next_key counting_lib h \<in> set (issued counting_lib h)"
  then obtain n where n: "1 \<le> n" "n \<le> inserts h"
    and eq: "(of_nat (Suc (inserts h)) :: u64) = of_nat n"
    by (auto simp: issued_counting simp del: of_nat_Suc)
  have lim: "Suc (inserts h) < 2 ^ 64"
    using inserts_le [of h] len by (simp add: slot_version_limit_def)
  have "unat (of_nat (Suc (inserts h)) :: u64) = Suc (inserts h)"
    using lim by (simp add: unat_of_nat take_bit_nat_eq_self del: of_nat_Suc)
  moreover have "unat (of_nat n :: u64) = n"
    using lim n by (simp add: unat_of_nat take_bit_nat_eq_self)
  ultimately show False using eq n by simp
qed

end
