(* ===== verification/Core_Error.thy ===== *)
theory Core_Error
  imports Iroh_Prelude
begin

text \<open>
  \<^verbatim>\<open>src/crates/iroh-http-core/src/error.rs\<close>: the machine-readable code, the structured
  error and its constructors.  Details are already rendered strings
  (\<open>impl Display\<close> in the source).
\<close>

datatype error_code = InvalidInput | ConnectionFailed | Timeout | BodyTooLarge
  | HeaderTooLarge | PeerRejected | Cancelled | Internal

record core_error =
  code :: error_code
  message :: string

definition invalid_input :: "string \<Rightarrow> core_error" where
  "invalid_input detail = \<lparr>code = InvalidInput, message = detail\<rparr>"

definition connection_failed :: "string \<Rightarrow> core_error" where
  "connection_failed detail = \<lparr>code = ConnectionFailed, message = detail\<rparr>"

definition timeout_error :: "string \<Rightarrow> core_error" where
  "timeout_error detail = \<lparr>code = Timeout, message = detail\<rparr>"

definition body_too_large :: "string \<Rightarrow> core_error" where
  "body_too_large detail = \<lparr>code = BodyTooLarge, message = detail\<rparr>"

definition header_too_large :: "string \<Rightarrow> core_error" where
  "header_too_large detail = \<lparr>code = HeaderTooLarge, message = detail\<rparr>"

definition peer_rejected :: "string \<Rightarrow> core_error" where
  "peer_rejected detail = \<lparr>code = PeerRejected, message = detail\<rparr>"

definition internal :: "string \<Rightarrow> core_error" where
  "internal detail = \<lparr>code = Internal, message = detail\<rparr>"

definition invalid_handle :: "u64 \<Rightarrow> core_error" where
  "invalid_handle handle =
     \<lparr>code = InvalidInput, message = ''unknown handle: '' @ show_nat (unat handle)\<rparr>"

definition cancelled :: core_error where
  "cancelled = \<lparr>code = Cancelled, message = ''aborted''\<rparr>"

lemmas core_error_defs = invalid_input_def connection_failed_def timeout_error_def
  body_too_large_def header_too_large_def peer_rejected_def internal_def
  invalid_handle_def cancelled_def

end
