(* ===== verification/Body_Channel.thy ===== *)
theory Body_Channel
  imports Core_Error
begin

text \<open>
  \<^verbatim>\<open>src/crates/iroh-http-core/src/ffi/handles.rs\<close>, first half: the body channel between a
  producer (\<open>BodyWriter\<close>) and a consumer (\<open>BodyReader\<close>).

  Both ends share a heap cell: the bounded channel itself, the number of live
  \<open>Arc\<close>s to its receiver, the receiver's async mutex, the terminal error slot and the
  number of \<open>notify_waiters\<close> calls on the cancel signal.  The channel and the wake-up
  rule belong to the async runtime and are parameters (\<open>mpsc_ops\<close>); the locale
  \<open>mpsc\<close> states the documented behaviour used, as agreement with a bounded FIFO
  (\<open>fifo\<close>) through a view function.
\<close>

section \<open>The runtime's channel interface\<close>

datatype try_send_result = SendOk | SendFull | SendClosed
datatype try_recv_result = Got bytes | RecvEmpty | RecvDisconnected

record 'c mpsc_ops =
  mp_channel :: "nat \<Rightarrow> 'c option" \<comment> \<open>\<open>None\<close>: the constructor panics\<close>
  mp_try_send :: "'c \<Rightarrow> bytes \<Rightarrow> try_send_result \<times> 'c"
  mp_try_recv :: "'c \<Rightarrow> try_recv_result \<times> 'c"
  mp_clone_tx :: "'c \<Rightarrow> 'c"
  mp_drop_tx :: "'c \<Rightarrow> 'c"
  mp_drop_rx :: "'c \<Rightarrow> 'c"
  rt_wakes :: "nat \<Rightarrow> nat \<Rightarrow> bool" \<comment> \<open>calls when \<open>notified()\<close> was created, calls now\<close>

record fifo =
  queue :: "bytes list"
  capacity :: nat
  senders :: nat
  receiver :: bool

definition fifo_new :: "nat \<Rightarrow> fifo" where
  "fifo_new n = \<lparr>queue = [], capacity = n, senders = 1, receiver = True\<rparr>"

definition fifo_try_send :: "fifo \<Rightarrow> bytes \<Rightarrow> try_send_result \<times> fifo" where
  "fifo_try_send f b =
     (if \<not> receiver f then (SendClosed, f)
      else if length (queue f) < capacity f then (SendOk, f\<lparr>queue := queue f @ [b]\<rparr>)
      else (SendFull, f))"

definition fifo_try_recv :: "fifo \<Rightarrow> try_recv_result \<times> fifo" where
  "fifo_try_recv f = (case queue f of
       x # xs \<Rightarrow> (Got x, f\<lparr>queue := xs\<rparr>)
     | [] \<Rightarrow> (if senders f = 0 then RecvDisconnected else RecvEmpty, f))"

locale mpsc =
  fixes ops :: "'c mpsc_ops" and view :: "'c \<Rightarrow> fifo"
  assumes channel_law: "0 < n \<Longrightarrow> \<exists>c. mp_channel ops n = Some c \<and> view c = fifo_new n"
    and try_send_law: "fst (mp_try_send ops c b) = fst (fifo_try_send (view c) b)"
      "view (snd (mp_try_send ops c b)) = snd (fifo_try_send (view c) b)"
    and try_recv_law: "fst (mp_try_recv ops c) = fst (fifo_try_recv (view c))"
      "view (snd (mp_try_recv ops c)) = snd (fifo_try_recv (view c))"
    and clone_tx_law: "view (mp_clone_tx ops c) = (view c)\<lparr>senders := Suc (senders (view c))\<rparr>"
    and drop_tx_law: "view (mp_drop_tx ops c) = (view c)\<lparr>senders := senders (view c) - 1\<rparr>"
    and drop_rx_law: "view (mp_drop_rx ops c) = (view c)\<lparr>receiver := False, queue := []\<rparr>"
    and wakes_law: "rt_wakes ops t t' \<longleftrightarrow> t < t'"

section \<open>Shared cells\<close>

record 'c cell =
  chan :: 'c
  rx_refs :: nat
  rx_locked :: bool
  terminal_error :: "core_error option"
  cancel_calls :: nat

record 'c heap =
  cells :: "nat \<Rightarrow> 'c cell"
  next_cell :: nat
  clock :: millis

definition upd_cell :: "nat \<Rightarrow> ('c cell \<Rightarrow> 'c cell) \<Rightarrow> 'c heap \<Rightarrow> 'c heap" where
  "upd_cell i f H = H\<lparr>cells := (cells H)(i := f (cells H i))\<rparr>"

lemma upd_cell_simps [simp]:
  "cells (upd_cell i f H) j = (if j = i then f (cells H i) else cells H j)"
  "next_cell (upd_cell i f H) = next_cell H"
  "clock (upd_cell i f H) = clock H"
  by (simp_all add: upd_cell_def)

text \<open>Cloning and dropping the \<open>Arc\<close> around the receiver; the last drop closes it.\<close>

definition rx_clone :: "nat \<Rightarrow> 'c heap \<Rightarrow> 'c heap" where
  "rx_clone i H = upd_cell i (\<lambda>c. c\<lparr>rx_refs := Suc (rx_refs c)\<rparr>) H"

definition rx_drop :: "'c mpsc_ops \<Rightarrow> nat \<Rightarrow> 'c heap \<Rightarrow> 'c heap" where
  "rx_drop ops i H = upd_cell i (\<lambda>c. if rx_refs c \<le> 1
       then c\<lparr>rx_refs := 0, chan := mp_drop_rx ops (chan c)\<rparr>
       else c\<lparr>rx_refs := rx_refs c - 1\<rparr>) H"

definition tx_clone :: "'c mpsc_ops \<Rightarrow> nat \<Rightarrow> 'c heap \<Rightarrow> 'c heap" where
  "tx_clone ops i H = upd_cell i (\<lambda>c. c\<lparr>chan := mp_clone_tx ops (chan c)\<rparr>) H"

definition tx_drop :: "'c mpsc_ops \<Rightarrow> nat \<Rightarrow> 'c heap \<Rightarrow> 'c heap" where
  "tx_drop ops i H = upd_cell i (\<lambda>c. c\<lparr>chan := mp_drop_tx ops (chan c)\<rparr>) H"

definition notify_cancel :: "nat \<Rightarrow> 'c heap \<Rightarrow> 'c heap" where
  "notify_cancel i H = upd_cell i (\<lambda>c. c\<lparr>cancel_calls := Suc (cancel_calls c)\<rparr>) H"

section \<open>Reader and writer ends\<close>

text \<open>A receive future owns the \<open>notified()\<close> future (created at its first poll: the
  number of \<open>notify_waiters\<close> calls seen then) and possibly the receiver's mutex.\<close>

type_synonym recv_fut = "nat option \<times> bool"

record body_reader =
  rd_cell :: nat
  rd_pending :: "recv_fut option"

record body_writer =
  wr_cell :: nat
  drain_timeout :: millis
  wr_sending :: "(bytes \<times> millis option) option"

definition DEFAULT_CHANNEL_CAPACITY :: nat where "DEFAULT_CHANNEL_CAPACITY = 32"
definition DEFAULT_MAX_CHUNK_SIZE :: nat where "DEFAULT_MAX_CHUNK_SIZE = 64 * 1024"
definition DEFAULT_DRAIN_TIMEOUT_MS :: nat where "DEFAULT_DRAIN_TIMEOUT_MS = 30000"
definition DEFAULT_SLAB_TTL_MS :: nat where "DEFAULT_SLAB_TTL_MS = 300000"
definition DEFAULT_SWEEP_INTERVAL_MS :: nat where "DEFAULT_SWEEP_INTERVAL_MS = 60000"
definition DEFAULT_MAX_HANDLES :: nat where "DEFAULT_MAX_HANDLES = 65536"

definition make_body_channel_with :: "'c mpsc_ops \<Rightarrow> nat \<Rightarrow> millis \<Rightarrow> 'c heap
    \<Rightarrow> (body_writer \<times> body_reader \<times> 'c heap) option" where
  "make_body_channel_with ops cap drain H = (case mp_channel ops cap of
       None \<Rightarrow> None
     | Some ch \<Rightarrow> (let i = next_cell H in Some
        (\<lparr>wr_cell = i, drain_timeout = drain, wr_sending = None\<rparr>,
         \<lparr>rd_cell = i, rd_pending = None\<rparr>,
         H\<lparr>cells := (cells H)(i := \<lparr>chan = ch, rx_refs = 1, rx_locked = False,
              terminal_error = None, cancel_calls = 0\<rparr>),
           next_cell := Suc i\<rparr>)))"

definition make_body_channel :: "'c mpsc_ops \<Rightarrow> 'c heap
    \<Rightarrow> (body_writer \<times> body_reader \<times> 'c heap) option" where
  "make_body_channel ops H =
     make_body_channel_with ops DEFAULT_CHANNEL_CAPACITY DEFAULT_DRAIN_TIMEOUT_MS H"

subsection \<open>Receiving\<close>

text \<open>One poll of \<open>recv_with_cancel\<close>: the select is biased, so the cancel branch is
  polled first; the receive branch takes the mutex, then polls the channel.\<close>

definition recv_poll :: "'c mpsc_ops \<Rightarrow> nat \<Rightarrow> recv_fut \<Rightarrow> 'c heap
    \<Rightarrow> bytes option poll \<times> recv_fut \<times> 'c heap" where
  "recv_poll ops i fut H = (case fut of (tok, lk) \<Rightarrow>
     let c = cells H i;
         t = (case tok of None \<Rightarrow> cancel_calls c | Some t \<Rightarrow> t);
         unlock = (\<lambda>c. c\<lparr>rx_locked := False\<rparr>)
     in if rt_wakes ops t (cancel_calls c)
        then (Ready None, (Some t, False), if lk then upd_cell i unlock H else H)
        else if \<not> lk \<and> rx_locked c then (Pending, (Some t, False), H)
        else (case mp_try_recv ops (chan c) of
            (Got b, ch) \<Rightarrow> (Ready (Some b), (Some t, False),
               upd_cell i (\<lambda>c. unlock (c\<lparr>chan := ch\<rparr>)) H)
          | (RecvDisconnected, ch) \<Rightarrow> (Ready None, (Some t, False),
               upd_cell i (\<lambda>c. unlock (c\<lparr>chan := ch\<rparr>)) H)
          | (RecvEmpty, ch) \<Rightarrow> (Pending, (Some t, True),
               upd_cell i (\<lambda>c. c\<lparr>chan := ch, rx_locked := True\<rparr>) H)))"

definition recv_with_cancel :: "'c mpsc_ops \<Rightarrow> nat \<Rightarrow> ('c heap \<Rightarrow> 'c heap) list \<Rightarrow> 'c heap
    \<Rightarrow> bytes option option \<times> 'c heap" where
  "recv_with_cancel ops i env H =
     (case await_fut (recv_poll ops i) env (None, False) H of (r, _, H') \<Rightarrow> (r, H'))"

definition reader_next_chunk :: "'c mpsc_ops \<Rightarrow> body_reader \<Rightarrow> ('c heap \<Rightarrow> 'c heap) list \<Rightarrow> 'c heap
    \<Rightarrow> bytes option option \<times> 'c heap" where
  "reader_next_chunk ops r env H =
     (case recv_with_cancel ops (rd_cell r) env (rx_clone (rd_cell r) H) of
        (None, H') \<Rightarrow> (None, H')
      | (Some x, H') \<Rightarrow> (Some x, rx_drop ops (rd_cell r) H'))"

definition poll_frame :: "'c mpsc_ops \<Rightarrow> body_reader \<Rightarrow> 'c heap
    \<Rightarrow> bytes option poll \<times> body_reader \<times> 'c heap" where
  "poll_frame ops r H =
     (let i = rd_cell r;
          slow = (\<lambda>H. (let (fut, H1) = (case rd_pending r of
                     Some fut \<Rightarrow> (fut, H)
                   | None \<Rightarrow> ((None, False), rx_clone i H))
               in case recv_poll ops i fut H1 of
                    (Pending, fut', H2) \<Rightarrow> (Pending, r\<lparr>rd_pending := Some fut'\<rparr>, H2)
                  | (Ready x, _, H2) \<Rightarrow> (Ready x, r\<lparr>rd_pending := None\<rparr>, rx_drop ops i H2)))
      in if rd_pending r = None \<and> \<not> rx_locked (cells H i)
         then (case mp_try_recv ops (chan (cells H i)) of
             (Got b, ch) \<Rightarrow> (Ready (Some b), r, upd_cell i (\<lambda>c. c\<lparr>chan := ch\<rparr>) H)
           | (RecvDisconnected, ch) \<Rightarrow> (Ready None, r, upd_cell i (\<lambda>c. c\<lparr>chan := ch\<rparr>) H)
           | (RecvEmpty, ch) \<Rightarrow> slow (upd_cell i (\<lambda>c. c\<lparr>chan := ch\<rparr>) H))
         else slow H)"

subsection \<open>Sending\<close>

datatype send_outcome = Sent | ReaderDropped | DrainElapsed

text \<open>One poll of \<open>timeout(deadline, tx.send(chunk))\<close>: the send is polled first, then
  the timer.\<close>

definition send_poll :: "'c mpsc_ops \<Rightarrow> nat \<Rightarrow> bytes \<Rightarrow> millis \<Rightarrow> 'c heap
    \<Rightarrow> send_outcome poll \<times> millis \<times> 'c heap" where
  "send_poll ops i b deadline H = (case mp_try_send ops (chan (cells H i)) b of
       (SendOk, ch) \<Rightarrow> (Ready Sent, deadline, upd_cell i (\<lambda>c. c\<lparr>chan := ch\<rparr>) H)
     | (SendClosed, ch) \<Rightarrow> (Ready ReaderDropped, deadline, upd_cell i (\<lambda>c. c\<lparr>chan := ch\<rparr>) H)
     | (SendFull, ch) \<Rightarrow> (if deadline \<le> clock H then Ready DrainElapsed else Pending, deadline,
          upd_cell i (\<lambda>c. c\<lparr>chan := ch\<rparr>) H))"

definition send_timeout :: "'c mpsc_ops \<Rightarrow> nat \<Rightarrow> bytes \<Rightarrow> millis \<Rightarrow> ('c heap \<Rightarrow> 'c heap) list \<Rightarrow> 'c heap
    \<Rightarrow> send_outcome option \<times> 'c heap" where
  "send_timeout ops i b drain env H =
     (case await_fut (send_poll ops i b) env (clock H + drain) H of (r, _, H') \<Rightarrow> (r, H'))"

fun send_error_string :: "send_outcome \<Rightarrow> string + unit" where
  "send_error_string Sent = Inr ()"
| "send_error_string ReaderDropped = Inl ''body reader dropped''"
| "send_error_string DrainElapsed = Inl ''drain timeout: body reader is too slow''"

fun send_core_error :: "send_outcome \<Rightarrow> core_error + unit" where
  "send_core_error Sent = Inr ()"
| "send_core_error ReaderDropped = Inl (internal ''body reader dropped'')"
| "send_core_error DrainElapsed = Inl (timeout_error ''drain timeout: body reader is too slow'')"

definition writer_send_chunk :: "'c mpsc_ops \<Rightarrow> body_writer \<Rightarrow> bytes \<Rightarrow> ('c heap \<Rightarrow> 'c heap) list
    \<Rightarrow> 'c heap \<Rightarrow> (string + unit) option \<times> 'c heap" where
  "writer_send_chunk ops w b env H =
     (let i = wr_cell w in case mp_try_send ops (chan (cells H i)) b of
       (SendOk, ch) \<Rightarrow> (Some (Inr ()), upd_cell i (\<lambda>c. c\<lparr>chan := ch\<rparr>) H)
     | (SendClosed, ch) \<Rightarrow> (Some (send_error_string ReaderDropped), upd_cell i (\<lambda>c. c\<lparr>chan := ch\<rparr>) H)
     | (SendFull, ch) \<Rightarrow>
         (case send_timeout ops i b (drain_timeout w) env (upd_cell i (\<lambda>c. c\<lparr>chan := ch\<rparr>) H) of
            (r, H') \<Rightarrow> (map_option send_error_string r, H')))"

definition send_chunk_with_fast_path :: "'c mpsc_ops \<Rightarrow> nat \<Rightarrow> bytes \<Rightarrow> millis
    \<Rightarrow> ('c heap \<Rightarrow> 'c heap) list \<Rightarrow> 'c heap \<Rightarrow> (core_error + unit) option \<times> 'c heap" where
  "send_chunk_with_fast_path ops i b drain env H = (case mp_try_send ops (chan (cells H i)) b of
       (SendOk, ch) \<Rightarrow> (Some (Inr ()), upd_cell i (\<lambda>c. c\<lparr>chan := ch\<rparr>) H)
     | (SendClosed, ch) \<Rightarrow> (Some (send_core_error ReaderDropped), upd_cell i (\<lambda>c. c\<lparr>chan := ch\<rparr>) H)
     | (SendFull, ch) \<Rightarrow>
         (case send_timeout ops i b drain env (upd_cell i (\<lambda>c. c\<lparr>chan := ch\<rparr>) H) of
            (r, H') \<Rightarrow> (map_option send_core_error r, H')))"

definition writer_abort :: "body_writer \<Rightarrow> core_error \<Rightarrow> 'c heap \<Rightarrow> 'c heap" where
  "writer_abort w e H = upd_cell (wr_cell w) (\<lambda>c. c\<lparr>terminal_error := Some e\<rparr>) H"

definition writer_drop :: "'c mpsc_ops \<Rightarrow> body_writer \<Rightarrow> 'c heap \<Rightarrow> 'c heap" where
  "writer_drop ops w H =
     (let H1 = (case wr_sending w of None \<Rightarrow> H | Some _ \<Rightarrow> tx_drop ops (wr_cell w) H)
      in tx_drop ops (wr_cell w) H1)"

definition reader_drop :: "'c mpsc_ops \<Rightarrow> body_reader \<Rightarrow> 'c heap \<Rightarrow> 'c heap" where
  "reader_drop ops r H = (let i = rd_cell r;
       H1 = (case rd_pending r of None \<Rightarrow> H
             | Some (_, lk) \<Rightarrow> rx_drop ops i (if lk then upd_cell i (\<lambda>c. c\<lparr>rx_locked := False\<rparr>) H else H))
     in rx_drop ops i H1)"

subsection \<open>The Sink surface\<close>

text \<open>The in-flight send is an async block: its timer starts at the first poll.\<close>

definition poll_ready :: "'c mpsc_ops \<Rightarrow> body_writer \<Rightarrow> 'c heap
    \<Rightarrow> (string + unit) poll \<times> body_writer \<times> 'c heap" where
  "poll_ready ops w H = (case wr_sending w of
       None \<Rightarrow> (Ready (Inr ()), w, H)
     | Some (item, dl) \<Rightarrow>
         (let d = (case dl of None \<Rightarrow> clock H + drain_timeout w | Some d \<Rightarrow> d)
          in case send_poll ops (wr_cell w) item d H of
            (Pending, _, H') \<Rightarrow> (Pending, w\<lparr>wr_sending := Some (item, Some d)\<rparr>, H')
          | (Ready res, _, H') \<Rightarrow> (Ready (send_error_string res), w\<lparr>wr_sending := None\<rparr>,
               tx_drop ops (wr_cell w) H')))"

definition start_send :: "'c mpsc_ops \<Rightarrow> body_writer \<Rightarrow> bytes \<Rightarrow> 'c heap
    \<Rightarrow> (string + unit) \<times> body_writer \<times> 'c heap" where
  "start_send ops w item H =
     (let H1 = tx_clone ops (wr_cell w) H;
          H2 = (case wr_sending w of None \<Rightarrow> H1 | Some _ \<Rightarrow> tx_drop ops (wr_cell w) H1)
      in (Inr (), w\<lparr>wr_sending := Some (item, None)\<rparr>, H2))"

definition poll_flush :: "'c mpsc_ops \<Rightarrow> body_writer \<Rightarrow> 'c heap
    \<Rightarrow> (string + unit) poll \<times> body_writer \<times> 'c heap" where
  "poll_flush ops w H = poll_ready ops w H"

definition poll_close :: "'c mpsc_ops \<Rightarrow> body_writer \<Rightarrow> 'c heap
    \<Rightarrow> (string + unit) poll \<times> body_writer \<times> 'c heap" where
  "poll_close ops w H = poll_flush ops w H"

section \<open>Facts under the channel contract\<close>

text \<open>Every operation changes at most its own cell; what it does to the view of the channel is
  given by the FIFO operations.\<close>

lemmas heap_op_defs = rx_clone_def rx_drop_def tx_clone_def tx_drop_def notify_cancel_def

lemma heap_op_other [simp]:
  "j \<noteq> i \<Longrightarrow> cells (rx_clone i H) j = cells H j"
  "j \<noteq> i \<Longrightarrow> cells (rx_drop ops i H) j = cells H j"
  "j \<noteq> i \<Longrightarrow> cells (tx_clone ops i H) j = cells H j"
  "j \<noteq> i \<Longrightarrow> cells (tx_drop ops i H) j = cells H j"
  "j \<noteq> i \<Longrightarrow> cells (notify_cancel i H) j = cells H j"
  by (simp_all add: heap_op_defs)

lemma heap_op_next [simp]:
  "next_cell (rx_clone i H) = next_cell H" "next_cell (rx_drop ops i H) = next_cell H"
  "next_cell (tx_clone ops i H) = next_cell H" "next_cell (tx_drop ops i H) = next_cell H"
  "next_cell (notify_cancel i H) = next_cell H"
  "clock (rx_clone i H) = clock H" "clock (rx_drop ops i H) = clock H"
  "clock (tx_clone ops i H) = clock H" "clock (tx_drop ops i H) = clock H"
  "clock (notify_cancel i H) = clock H"
  by (simp_all add: heap_op_defs)

lemma heap_op_cell [simp]:
  "chan (cells (rx_clone i H) i) = chan (cells H i)"
  "cancel_calls (cells (rx_clone i H) j) = cancel_calls (cells H j)"
  "rx_locked (cells (rx_clone i H) j) = rx_locked (cells H j)"
  "terminal_error (cells (rx_clone i H) j) = terminal_error (cells H j)"
  "rx_refs (cells (rx_clone i H) i) = Suc (rx_refs (cells H i))"
  "cancel_calls (cells (rx_drop ops i H) j) = cancel_calls (cells H j)"
  "rx_locked (cells (rx_drop ops i H) j) = rx_locked (cells H j)"
  "terminal_error (cells (rx_drop ops i H) j) = terminal_error (cells H j)"
  "rx_refs (cells (rx_drop ops i H) i) = rx_refs (cells H i) - 1"
  by (simp_all add: heap_op_defs)

context mpsc
begin

text \<open>A receive that finds a chunk delivers the oldest one, whatever the environment.\<close>

lemma recv_poll_chunk:
  assumes "queue (view (chan (cells H i))) = x # xs"
    and "rx_locked (cells H i) \<longrightarrow> lk"
    and "tok = None \<or> tok = Some (cancel_calls (cells H i))"
  shows "\<exists>fut ch. recv_poll ops i (tok, lk) H
      = (Ready (Some x), fut, upd_cell i (\<lambda>c. c\<lparr>chan := ch, rx_locked := False\<rparr>) H)
      \<and> view ch = (view (chan (cells H i)))\<lparr>queue := xs\<rparr>"
proof -
  obtain r ch where rc: "mp_try_recv ops (chan (cells H i)) = (r, ch)" by fastforce
  have "r = Got x" and v: "view ch = (view (chan (cells H i)))\<lparr>queue := xs\<rparr>"
    using try_recv_law [of "chan (cells H i)"] assms(1) rc by (simp_all add: fifo_try_recv_def)
  then show ?thesis
    using assms(2,3) rc
    by (auto simp: recv_poll_def Let_def wakes_law split: option.splits)
qed

lemma recv_chunk:
  assumes "queue (view (chan (cells H i))) = x # xs" and "\<not> rx_locked (cells H i)"
  shows "\<exists>ch. recv_with_cancel ops i env H
      = (Some (Some x), upd_cell i (\<lambda>c. c\<lparr>chan := ch, rx_locked := False\<rparr>) H)
      \<and> view ch = (view (chan (cells H i)))\<lparr>queue := xs\<rparr>"
proof -
  obtain fut ch where
    "recv_poll ops i (None, False) H
      = (Ready (Some x), fut, upd_cell i (\<lambda>c. c\<lparr>chan := ch, rx_locked := False\<rparr>) H)"
    and "view ch = (view (chan (cells H i)))\<lparr>queue := xs\<rparr>"
    using recv_poll_chunk [of H i x xs False None] assms by auto
  then show ?thesis by (auto simp: recv_with_cancel_def poll_simps)
qed

text \<open>A receive on a drained channel whose senders are gone reports end of stream.\<close>

lemma recv_eof:
  assumes "queue (view (chan (cells H i))) = []" and "senders (view (chan (cells H i))) = 0"
    and "\<not> rx_locked (cells H i)"
  shows "\<exists>ch. recv_with_cancel ops i env H
      = (Some None, upd_cell i (\<lambda>c. c\<lparr>chan := ch, rx_locked := False\<rparr>) H)
      \<and> view ch = view (chan (cells H i))"
proof -
  obtain r ch where rc: "mp_try_recv ops (chan (cells H i)) = (r, ch)" by fastforce
  have "r = RecvDisconnected" and v: "view ch = view (chan (cells H i))"
    using try_recv_law [of "chan (cells H i)"] assms(1,2) rc by (simp_all add: fifo_try_recv_def)
  then have "recv_poll ops i (None, False) H
      = (Ready None, (Some (cancel_calls (cells H i)), False),
         upd_cell i (\<lambda>c. c\<lparr>chan := ch, rx_locked := False\<rparr>) H)"
    using assms(3) rc by (simp add: recv_poll_def Let_def wakes_law)
  then show ?thesis using v by (auto simp: recv_with_cancel_def poll_simps)
qed

text \<open>A receive that finds the channel empty waits holding the mutex.\<close>

lemma recv_poll_empty:
  assumes "queue (view (chan (cells H i))) = []" and "senders (view (chan (cells H i))) \<noteq> 0"
    and "\<not> rx_locked (cells H i)"
  shows "\<exists>ch. recv_poll ops i (None, False) H
      = (Pending, (Some (cancel_calls (cells H i)), True),
         upd_cell i (\<lambda>c. c\<lparr>chan := ch, rx_locked := True\<rparr>) H)
      \<and> view ch = view (chan (cells H i))"
proof -
  obtain r ch where rc: "mp_try_recv ops (chan (cells H i)) = (r, ch)" by fastforce
  have "r = RecvEmpty" and "view ch = view (chan (cells H i))"
    using try_recv_law [of "chan (cells H i)"] assms(1,2) rc by (simp_all add: fifo_try_recv_def)
  then show ?thesis
    using assms(3) rc by (auto simp: recv_poll_def Let_def wakes_law)
qed

text \<open>Cancellation wakes a receive that is already waiting, and it releases the mutex.\<close>

lemma recv_cancelled:
  assumes "queue (view (chan (cells H i))) = []" and "senders (view (chan (cells H i))) \<noteq> 0"
    and "\<not> rx_locked (cells H i)"
    and e: "\<And>H. cancel_calls (cells H i) < cancel_calls (cells (e H) i)"
  shows "\<exists>H'. recv_with_cancel ops i (e # env) H = (Some None, H') \<and> \<not> rx_locked (cells H' i)"
proof -
  obtain ch where p: "recv_poll ops i (None, False) H
      = (Pending, (Some (cancel_calls (cells H i)), True),
         upd_cell i (\<lambda>c. c\<lparr>chan := ch, rx_locked := True\<rparr>) H)"
    using recv_poll_empty assms(1-3) by blast
  let ?H1 = "upd_cell i (\<lambda>c. c\<lparr>chan := ch, rx_locked := True\<rparr>) H"
  have "cancel_calls (cells H i) < cancel_calls (cells (e ?H1) i)"
    using e [of ?H1] by simp
  then have "recv_poll ops i (Some (cancel_calls (cells H i)), True) (e ?H1)
      = (Ready None, (Some (cancel_calls (cells H i)), False),
         upd_cell i (\<lambda>c. c\<lparr>rx_locked := False\<rparr>) (e ?H1))"
    by (simp add: recv_poll_def Let_def wakes_law)
  then show ?thesis
    using p by (simp add: recv_with_cancel_def poll_simps)
qed

text \<open>A send with room appends; with the receiver gone it fails; neither waits.\<close>

lemma send_fast_ok:
  assumes "receiver (view (chan (cells H i)))"
    and "length (queue (view (chan (cells H i)))) < capacity (view (chan (cells H i)))"
  shows "\<exists>ch. send_chunk_with_fast_path ops i b drain env H
      = (Some (Inr ()), upd_cell i (\<lambda>c. c\<lparr>chan := ch\<rparr>) H)
      \<and> view ch = (view (chan (cells H i)))\<lparr>queue := queue (view (chan (cells H i))) @ [b]\<rparr>"
proof -
  obtain r ch where rc: "mp_try_send ops (chan (cells H i)) b = (r, ch)" by fastforce
  have "r = SendOk"
    "view ch = (view (chan (cells H i)))\<lparr>queue := queue (view (chan (cells H i))) @ [b]\<rparr>"
    using try_send_law [of "chan (cells H i)" b] assms rc by (simp_all add: fifo_try_send_def)
  then show ?thesis using rc by (auto simp: send_chunk_with_fast_path_def)
qed

lemma send_fast_closed:
  assumes "\<not> receiver (view (chan (cells H i)))"
  shows "fst (send_chunk_with_fast_path ops i b drain env H)
      = Some (Inl (internal ''body reader dropped''))"
proof -
  obtain r ch where rc: "mp_try_send ops (chan (cells H i)) b = (r, ch)" by fastforce
  have "r = SendClosed"
    using try_send_law [of "chan (cells H i)" b] assms rc by (simp add: fifo_try_send_def)
  then show ?thesis using rc by (simp add: send_chunk_with_fast_path_def)
qed

lemma send_poll_full:
  assumes "receiver (view (chan (cells H i)))"
    and "capacity (view (chan (cells H i))) \<le> length (queue (view (chan (cells H i))))"
  shows "\<exists>ch. send_poll ops i b d H
     = (if d \<le> clock H then Ready DrainElapsed else Pending, d, upd_cell i (\<lambda>c. c\<lparr>chan := ch\<rparr>) H)
     \<and> view ch = view (chan (cells H i))"
proof -
  obtain r ch where rc: "mp_try_send ops (chan (cells H i)) b = (r, ch)" by fastforce
  have "r = SendFull" "view ch = view (chan (cells H i))"
    using try_send_law [of "chan (cells H i)" b] assms rc by (simp_all add: fifo_try_send_def)
  then show ?thesis using rc by (auto simp: send_poll_def)
qed

text \<open>A full channel that nobody drains makes the send fail once the drain timeout has passed.\<close>

lemma send_fast_full:
  assumes "receiver (view (chan (cells H i)))"
    and "capacity (view (chan (cells H i))) \<le> length (queue (view (chan (cells H i))))"
    and e: "\<And>H. chan (cells (e H) i) = chan (cells H i)"
    and t: "\<And>H. clock (e H) = clock H + dt" and dt: "drain \<le> dt"
  shows "fst (send_chunk_with_fast_path ops i b drain (e # env) H)
      = Some (Inl (timeout_error ''drain timeout: body reader is too slow''))"
proof -
  obtain r ch where rc: "mp_try_send ops (chan (cells H i)) b = (r, ch)" by fastforce
  have r: "r = SendFull" and v: "view ch = view (chan (cells H i))"
    using try_send_law [of "chan (cells H i)" b] assms(1,2) rc by (simp_all add: fifo_try_send_def)
  let ?H1 = "upd_cell i (\<lambda>c. c\<lparr>chan := ch\<rparr>) H"
  obtain ch1 where p1: "send_poll ops i b (clock H + drain) ?H1
     = (if clock H + drain \<le> clock ?H1 then Ready DrainElapsed else Pending, clock H + drain,
        upd_cell i (\<lambda>c. c\<lparr>chan := ch1\<rparr>) ?H1)" and v1: "view ch1 = view (chan (cells ?H1 i))"
    using send_poll_full [of ?H1 i b "clock H + drain"] assms(1,2) v by auto
  let ?H2 = "upd_cell i (\<lambda>c. c\<lparr>chan := ch1\<rparr>) ?H1"
  obtain ch2 where p2: "send_poll ops i b (clock H + drain) (e ?H2)
     = (if clock H + drain \<le> clock (e ?H2) then Ready DrainElapsed else Pending, clock H + drain,
        upd_cell i (\<lambda>c. c\<lparr>chan := ch2\<rparr>) (e ?H2))"
    using send_poll_full [of "e ?H2" i b "clock H + drain"] assms(1,2) v v1 e by auto
  show ?thesis
    using rc r p1 p2 t [of ?H2] dt
    by (simp add: send_chunk_with_fast_path_def send_timeout_def poll_simps)
qed

end

section \<open>A channel that meets the contract\<close>

text \<open>The FIFO itself, with the wake-up rule of the runtime; used to instantiate the
  parameter in witnesses.\<close>

definition fifo_ops :: "fifo mpsc_ops" where
  "fifo_ops = \<lparr>mp_channel = (\<lambda>n. if n = 0 then None else Some (fifo_new n)),
     mp_try_send = fifo_try_send, mp_try_recv = fifo_try_recv,
     mp_clone_tx = (\<lambda>f. f\<lparr>senders := Suc (senders f)\<rparr>),
     mp_drop_tx = (\<lambda>f. f\<lparr>senders := senders f - 1\<rparr>),
     mp_drop_rx = (\<lambda>f. f\<lparr>receiver := False, queue := []\<rparr>),
     rt_wakes = (<)\<rparr>"

lemma fifo_ops_simps [simp]:
  "mp_channel fifo_ops n = (if n = 0 then None else Some (fifo_new n))"
  "mp_try_send fifo_ops = fifo_try_send" "mp_try_recv fifo_ops = fifo_try_recv"
  "mp_clone_tx fifo_ops f = f\<lparr>senders := Suc (senders f)\<rparr>"
  "mp_drop_tx fifo_ops f = f\<lparr>senders := senders f - 1\<rparr>"
  "mp_drop_rx fifo_ops f = f\<lparr>receiver := False, queue := []\<rparr>"
  "rt_wakes fifo_ops = (<)"
  by (simp_all add: fifo_ops_def)

interpretation fifo: mpsc fifo_ops "\<lambda>f. f"
  by unfold_locales simp_all

end
