(* ===== verification/Handle_Store.thy ===== *)
theory Handle_Store
  imports Slot_Map Body_Channel
begin

text \<open>
  \<^verbatim>\<open>src/crates/iroh-http-core/src/ffi/handles.rs\<close>, second half: the per-endpoint handle store.
  Five slot maps of time-stamped entries, the map of pending readers, and the bridge operations
  the FFI adapters call.  Each operation that runs under one registry lock is one state
  transformer; the operations that await (\<open>next_chunk\<close>, \<open>send_chunk\<close>) take the steps
  other tasks perform meanwhile and return \<open>None\<close> while still pending.

  Connections, response-head senders and fetch notifiers are opaque and named by numbers.
\<close>

section \<open>State\<close>

record store_config =
  channel_capacity :: nat
  max_chunk_size :: nat
  cfg_drain_timeout :: millis
  max_handles :: nat
  ttl :: millis

definition default_store_config :: store_config where
  "default_store_config = \<lparr>channel_capacity = DEFAULT_CHANNEL_CAPACITY,
     max_chunk_size = DEFAULT_MAX_CHUNK_SIZE, cfg_drain_timeout = DEFAULT_DRAIN_TIMEOUT_MS,
     max_handles = DEFAULT_MAX_HANDLES, ttl = DEFAULT_SLAB_TTL_MS\<rparr>"

record 'v timed =
  timed_value :: 'v
  last_accessed :: millis

definition timed_new :: "millis \<Rightarrow> 'v \<Rightarrow> 'v timed" where
  "timed_new now v = \<lparr>timed_value = v, last_accessed = now\<rparr>"

definition touch :: "millis \<Rightarrow> 'v timed \<Rightarrow> 'v timed" where
  "touch now t = t\<lparr>last_accessed := now\<rparr>"

definition is_expired :: "millis \<Rightarrow> millis \<Rightarrow> 'v timed \<Rightarrow> bool" where
  "is_expired now lim t \<longleftrightarrow> lim < now - last_accessed t"

record pending_reader_entry =
  pending_reader :: body_reader
  created :: millis

record 'c store =
  readers :: "body_reader timed slot_map"
  writers :: "body_writer timed slot_map"
  sessions :: "nat timed slot_map"
  request_heads :: "nat timed slot_map"
  fetch_cancels :: "nat timed slot_map"
  pending_readers :: "(u64 \<times> pending_reader_entry) list"
  config :: store_config
  mem :: "'c heap"
  next_notify :: nat
  notify_ones :: "nat list"

text \<open>A new store; the heap is the process's, shared by all stores.\<close>

definition store_new :: "store_config \<Rightarrow> 'c heap \<Rightarrow> 'c store" where
  "store_new cfg H = \<lparr>readers = slot_new, writers = slot_new, sessions = slot_new,
     request_heads = slot_new, fetch_cancels = slot_new, pending_readers = [], config = cfg,
     mem = H, next_notify = 0, notify_ones = []\<rparr>"

abbreviation now :: "'c store \<Rightarrow> millis" where
  "now s \<equiv> clock (mem s)"

definition on_mem :: "('c heap \<Rightarrow> 'c heap) \<Rightarrow> 'c store \<Rightarrow> 'c store" where
  "on_mem f s = s\<lparr>mem := f (mem s)\<rparr>"

section \<open>Capacity-checked insertion\<close>

definition insert_checked :: "slot_lib \<Rightarrow> millis \<Rightarrow> 'v \<Rightarrow> nat \<Rightarrow> 'v timed slot_map
    \<Rightarrow> (core_error + u64) \<times> 'v timed slot_map" where
  "insert_checked L t v mx reg =
     (if mx \<le> slot_len reg then (Inl (internal ''handle registry at capacity''), reg)
      else (case slot_insert L (timed_new t v) reg of (k, reg') \<Rightarrow> (Inr k, reg')))"

text \<open>A value whose insertion is refused is dropped by the callee.\<close>

definition insert_reader :: "slot_lib \<Rightarrow> 'c mpsc_ops \<Rightarrow> body_reader \<Rightarrow> 'c store
    \<Rightarrow> (core_error + u64) \<times> 'c store" where
  "insert_reader L ops r s =
     (case insert_checked L (now s) r (max_handles (config s)) (readers s) of
        (Inl e, _) \<Rightarrow> (Inl e, on_mem (reader_drop ops r) s)
      | (Inr h, reg) \<Rightarrow> (Inr h, s\<lparr>readers := reg\<rparr>))"

definition insert_writer :: "slot_lib \<Rightarrow> 'c mpsc_ops \<Rightarrow> body_writer \<Rightarrow> 'c store
    \<Rightarrow> (core_error + u64) \<times> 'c store" where
  "insert_writer L ops w s =
     (case insert_checked L (now s) w (max_handles (config s)) (writers s) of
        (Inl e, _) \<Rightarrow> (Inl e, on_mem (writer_drop ops w) s)
      | (Inr h, reg) \<Rightarrow> (Inr h, s\<lparr>writers := reg\<rparr>))"

definition store_make_body_channel :: "'c mpsc_ops \<Rightarrow> 'c store
    \<Rightarrow> (body_writer \<times> body_reader \<times> 'c store) option" where
  "store_make_body_channel ops s =
     (case make_body_channel_with ops (channel_capacity (config s)) (cfg_drain_timeout (config s)) (mem s)
      of None \<Rightarrow> None | Some (w, r, H) \<Rightarrow> Some (w, r, s\<lparr>mem := H\<rparr>))"

text \<open>\<open>None\<close> is the panic of the channel constructor at capacity 0.\<close>

definition alloc_body_writer :: "slot_lib \<Rightarrow> 'c mpsc_ops \<Rightarrow> 'c store
    \<Rightarrow> ((core_error + (u64 \<times> body_reader)) \<times> 'c store) option" where
  "alloc_body_writer L ops s = (case store_make_body_channel ops s of
       None \<Rightarrow> None
     | Some (w, r, s1) \<Rightarrow> Some (case insert_writer L ops w s1 of
          (Inl e, s2) \<Rightarrow> (Inl e, on_mem (reader_drop ops r) s2)
        | (Inr h, s2) \<Rightarrow> (Inr (h, r), s2)))"

text \<open>\<open>HashMap::insert\<close> drops the entry it replaces.\<close>

definition store_pending_reader :: "'c mpsc_ops \<Rightarrow> u64 \<Rightarrow> body_reader \<Rightarrow> 'c store \<Rightarrow> 'c store" where
  "store_pending_reader ops h r s =
     (let s1 = (case map_of (pending_readers s) h of
                  None \<Rightarrow> s | Some e \<Rightarrow> on_mem (reader_drop ops (pending_reader e)) s)
      in s1\<lparr>pending_readers :=
            al_put h \<lparr>pending_reader = r, created = now s\<rparr> (pending_readers s)\<rparr>)"

definition claim_pending_reader :: "u64 \<Rightarrow> 'c store \<Rightarrow> body_reader option \<times> 'c store" where
  "claim_pending_reader h s =
     (map_option pending_reader (map_of (pending_readers s) h),
      s\<lparr>pending_readers := al_del h (pending_readers s)\<rparr>)"

definition count_handles :: "'c store \<Rightarrow> nat \<times> nat \<times> nat \<times> nat" where
  "count_handles s =
     (let rs = slot_len (readers s); ws = slot_len (writers s); ss = slot_len (sessions s);
          total = sat_add (sat_add (sat_add (sat_add rs ws) ss) (slot_len (request_heads s)))
                    (slot_len (fetch_cancels s))
      in (rs, ws, ss, total))"

section \<open>Bridge operations\<close>

definition finish_body :: "'c mpsc_ops \<Rightarrow> u64 \<Rightarrow> 'c store \<Rightarrow> (core_error + unit) \<times> 'c store" where
  "finish_body ops h s = (case slot_remove h (writers s) of
       (None, _) \<Rightarrow> (Inl (invalid_handle h), s)
     | (Some e, reg) \<Rightarrow> (Inr (), on_mem (writer_drop ops (timed_value e)) (s\<lparr>writers := reg\<rparr>)))"

definition cancel_reader :: "'c mpsc_ops \<Rightarrow> u64 \<Rightarrow> 'c store \<Rightarrow> 'c store" where
  "cancel_reader ops h s = (case slot_remove h (readers s) of
       (None, _) \<Rightarrow> s
     | (Some e, reg) \<Rightarrow> on_mem (\<lambda>H. reader_drop ops (timed_value e)
            (notify_cancel (rd_cell (timed_value e)) H)) (s\<lparr>readers := reg\<rparr>))"

text \<open>Removing a reader's slot on end of stream drops the stored reader.\<close>

definition release_reader :: "'c mpsc_ops \<Rightarrow> u64 \<Rightarrow> 'c store \<Rightarrow> 'c store" where
  "release_reader ops h s = (case slot_remove h (readers s) of
       (None, _) \<Rightarrow> s
     | (Some e, reg) \<Rightarrow> on_mem (reader_drop ops (timed_value e)) (s\<lparr>readers := reg\<rparr>))"

definition take_terminal_error :: "nat \<Rightarrow> 'c store \<Rightarrow> core_error option \<times> 'c store" where
  "take_terminal_error i s = (terminal_error (cells (mem s) i),
     on_mem (upd_cell i (\<lambda>c. c\<lparr>terminal_error := None\<rparr>)) s)"

definition eof_cleanup :: "'c mpsc_ops \<Rightarrow> u64 \<Rightarrow> nat \<Rightarrow> 'c store
    \<Rightarrow> (core_error + bytes option) \<times> 'c store" where
  "eof_cleanup ops h i s = (case take_terminal_error i (release_reader ops h s) of
       (Some e, s') \<Rightarrow> (Inl e, s')
     | (None, s') \<Rightarrow> (Inr None, s'))"

definition lift_recv :: "'c mpsc_ops \<Rightarrow> nat \<Rightarrow> recv_fut \<Rightarrow> 'c store
    \<Rightarrow> bytes option poll \<times> recv_fut \<times> 'c store" where
  "lift_recv ops i fut s =
     (case recv_poll ops i fut (mem s) of (r, fut', H) \<Rightarrow> (r, fut', s\<lparr>mem := H\<rparr>))"

text \<open>The part of \<open>next_chunk\<close> under the registry lock: look up, refresh the time stamp,
  clone the receiver.\<close>

definition next_chunk_begin :: "u64 \<Rightarrow> 'c store \<Rightarrow> (nat \<times> 'c store) option" where
  "next_chunk_begin h s = (case slot_get h (readers s) of
       None \<Rightarrow> None
     | Some e \<Rightarrow> (let i = rd_cell (timed_value e) in
         Some (i, on_mem (rx_clone i) (s\<lparr>readers := slot_upd h (touch (now s)) (readers s)\<rparr>))))"

text \<open>\<open>pre\<close> are the steps of other threads between the release of the registry lock and
  the first poll of the receive; \<open>env\<close> those between later polls.\<close>

definition next_chunk :: "'c mpsc_ops \<Rightarrow> ('c store \<Rightarrow> 'c store) list \<Rightarrow> ('c store \<Rightarrow> 'c store) list
    \<Rightarrow> u64 \<Rightarrow> 'c store \<Rightarrow> ((core_error + bytes option) \<times> 'c store) option" where
  "next_chunk ops pre env h s = (case next_chunk_begin h s of
       None \<Rightarrow> Some (Inl (invalid_handle h), s)
     | Some (i, s1) \<Rightarrow>
        (case await_fut (lift_recv ops i) env (None, False) (fold (\<lambda>f. f) pre s1) of
              (None, _, _) \<Rightarrow> None
            | (Some (Some b), _, s3) \<Rightarrow> Some (Inr (Some b), on_mem (rx_drop ops i) s3)
            | (Some None, _, s3) \<Rightarrow> Some (eof_cleanup ops h i (on_mem (rx_drop ops i) s3))))"

definition try_next_chunk :: "'c mpsc_ops \<Rightarrow> u64 \<Rightarrow> 'c store
    \<Rightarrow> (core_error + bytes option) \<times> 'c store" where
  "try_next_chunk ops h s = (case slot_get h (readers s) of
       None \<Rightarrow> (Inl (invalid_handle h), s)
     | Some e \<Rightarrow>
        (let i = rd_cell (timed_value e);
             s1 = s\<lparr>readers := slot_upd h (touch (now s)) (readers s)\<rparr>
         in if rx_locked (cells (mem s1) i)
            then (Inl (internal ''try_next_chunk: lock contended''), s1)
            else (case mp_try_recv ops (chan (cells (mem s1) i)) of
                (Got b, ch) \<Rightarrow> (Inr (Some b), on_mem (upd_cell i (\<lambda>c. c\<lparr>chan := ch\<rparr>)) s1)
              | (RecvEmpty, ch) \<Rightarrow> (Inl (internal ''try_next_chunk: channel empty''),
                   on_mem (upd_cell i (\<lambda>c. c\<lparr>chan := ch\<rparr>)) s1)
              | (RecvDisconnected, ch) \<Rightarrow>
                   eof_cleanup ops h i (on_mem (upd_cell i (\<lambda>c. c\<lparr>chan := ch\<rparr>)) s1))))"

text \<open>Sending on a cloned sender; \<open>None\<close> while the send is pending.\<close>

definition lift_send :: "'c mpsc_ops \<Rightarrow> nat \<Rightarrow> bytes \<Rightarrow> millis \<Rightarrow> ('c heap \<Rightarrow> 'c heap) list \<Rightarrow> 'c store
    \<Rightarrow> ((core_error + unit) \<times> 'c store) option" where
  "lift_send ops i b drain env s = (case send_chunk_with_fast_path ops i b drain env (mem s) of
       (None, _) \<Rightarrow> None
     | (Some r, H) \<Rightarrow> Some (r, s\<lparr>mem := H\<rparr>))"

text \<open>The loop of \<open>send_chunk\<close>: \<open>envs\<close> holds the environment of each successive send.
  With a zero chunk size the loop makes no progress, so it is a partial function.\<close>

partial_function (option) send_pieces :: "'c mpsc_ops \<Rightarrow> nat \<Rightarrow> nat \<Rightarrow> millis \<Rightarrow> bytes \<Rightarrow> nat
    \<Rightarrow> ('c heap \<Rightarrow> 'c heap) list list \<Rightarrow> 'c store \<Rightarrow> ((core_error + unit) \<times> 'c store) option" where
  "send_pieces ops i mx drain chunk offset envs s =
     (if offset < length chunk then
        (let e = min (sat_add offset mx) (length chunk);
             env = (case envs of [] \<Rightarrow> [] | x # _ \<Rightarrow> x)
         in Option.bind (lift_send ops i (take (e - offset) (drop offset chunk)) drain env s)
              (\<lambda>rs. case rs of (Inl err, s') \<Rightarrow> Some (Inl err, s')
                 | (Inr _, s') \<Rightarrow> send_pieces ops i mx drain chunk e (drop 1 envs) s'))
      else Some (Inr (), s))"

definition send_chunk_begin :: "'c mpsc_ops \<Rightarrow> u64 \<Rightarrow> 'c store \<Rightarrow> (nat \<times> millis \<times> 'c store) option" where
  "send_chunk_begin ops h s = (case slot_get h (writers s) of
       None \<Rightarrow> None
     | Some e \<Rightarrow> (let i = wr_cell (timed_value e) in
         Some (i, drain_timeout (timed_value e),
           on_mem (tx_clone ops i) (s\<lparr>writers := slot_upd h (touch (now s)) (writers s)\<rparr>))))"

definition send_chunk :: "'c mpsc_ops \<Rightarrow> ('c heap \<Rightarrow> 'c heap) list list \<Rightarrow> u64 \<Rightarrow> bytes \<Rightarrow> 'c store
    \<Rightarrow> ((core_error + unit) \<times> 'c store) option" where
  "send_chunk ops envs h chunk s = (case send_chunk_begin ops h s of
       None \<Rightarrow> Some (Inl (invalid_handle h), s)
     | Some (i, drain, s1) \<Rightarrow>
        (let mx = max_chunk_size (config s)
         in map_option (\<lambda>(r, s2). (r, on_mem (tx_drop ops i) s2))
              (if length chunk \<le> mx
               then lift_send ops i chunk drain (case envs of [] \<Rightarrow> [] | x # _ \<Rightarrow> x) s1
               else send_pieces ops i mx drain chunk 0 envs s1)))"

section \<open>Sessions, request heads, fetch tokens\<close>

definition insert_session :: "slot_lib \<Rightarrow> nat \<Rightarrow> 'c store \<Rightarrow> (core_error + u64) \<times> 'c store" where
  "insert_session L conn s =
     (case insert_checked L (now s) conn (max_handles (config s)) (sessions s) of
        (r, reg) \<Rightarrow> (r, s\<lparr>sessions := reg\<rparr>))"

definition lookup_session :: "u64 \<Rightarrow> 'c store \<Rightarrow> nat option" where
  "lookup_session h s = map_option timed_value (slot_get h (sessions s))"

definition remove_session :: "u64 \<Rightarrow> 'c store \<Rightarrow> nat option \<times> 'c store" where
  "remove_session h s = (case slot_remove h (sessions s) of
       (e, reg) \<Rightarrow> (map_option timed_value e, s\<lparr>sessions := reg\<rparr>))"

definition allocate_req_handle :: "slot_lib \<Rightarrow> nat \<Rightarrow> 'c store \<Rightarrow> (core_error + u64) \<times> 'c store" where
  "allocate_req_handle L sender s =
     (case insert_checked L (now s) sender (max_handles (config s)) (request_heads s) of
        (r, reg) \<Rightarrow> (r, s\<lparr>request_heads := reg\<rparr>))"

definition take_req_sender :: "u64 \<Rightarrow> 'c store \<Rightarrow> nat option \<times> 'c store" where
  "take_req_sender h s = (case slot_remove h (request_heads s) of
       (e, reg) \<Rightarrow> (map_option timed_value e, s\<lparr>request_heads := reg\<rparr>))"

definition alloc_fetch_token :: "slot_lib \<Rightarrow> 'c store \<Rightarrow> (core_error + u64) \<times> 'c store" where
  "alloc_fetch_token L s =
     (case insert_checked L (now s) (next_notify s) (max_handles (config s)) (fetch_cancels s) of
        (r, reg) \<Rightarrow> (r, s\<lparr>fetch_cancels := reg, next_notify := Suc (next_notify s)\<rparr>))"

definition cancel_in_flight :: "u64 \<Rightarrow> 'c store \<Rightarrow> 'c store" where
  "cancel_in_flight token s = (case slot_get token (fetch_cancels s) of
       None \<Rightarrow> s
     | Some e \<Rightarrow> s\<lparr>notify_ones := timed_value e # notify_ones s\<rparr>)"

definition get_fetch_cancel_notify :: "u64 \<Rightarrow> 'c store \<Rightarrow> nat option" where
  "get_fetch_cancel_notify token s = map_option timed_value (slot_get token (fetch_cancels s))"

definition remove_fetch_token :: "u64 \<Rightarrow> 'c store \<Rightarrow> 'c store" where
  "remove_fetch_token token s = s\<lparr>fetch_cancels := snd (slot_remove token (fetch_cancels s))\<rparr>"

section \<open>TTL sweep\<close>

definition remove_keys :: "u64 list \<Rightarrow> 'v slot_map \<Rightarrow> 'v slot_map" where
  "remove_keys ks m = fold (\<lambda>k m. snd (slot_remove k m)) ks m"

definition expired_entries :: "millis \<Rightarrow> millis \<Rightarrow> 'v timed slot_map \<Rightarrow> (u64 \<times> 'v timed) list" where
  "expired_entries t lim reg = filter (\<lambda>(k, e). is_expired t lim e) (slots reg)"

text \<open>Compaction: an emptied map with a large backing store is replaced by a new one.\<close>

definition compact :: "slot_lib \<Rightarrow> 'v slot_map \<Rightarrow> 'v slot_map" where
  "compact L reg = (if slot_len reg = 0 \<and> 128 < slot_capacity L (history reg) then slot_new else reg)"

definition sweep_registry :: "slot_lib \<Rightarrow> millis \<Rightarrow> millis \<Rightarrow> 'v timed slot_map
    \<Rightarrow> 'v list \<times> 'v timed slot_map" where
  "sweep_registry L t lim reg =
     (let expired = expired_entries t lim reg
      in if expired = [] then ([], reg)
         else (map (timed_value \<circ> snd) expired, compact L (remove_keys (keys expired) reg)))"

definition sweep_readers :: "slot_lib \<Rightarrow> 'c mpsc_ops \<Rightarrow> millis \<Rightarrow> 'c store \<Rightarrow> 'c store" where
  "sweep_readers L ops lim s = (let expired = expired_entries (now s) lim (readers s)
     in if expired = [] then s
        else on_mem (fold (\<lambda>(k, e) H. reader_drop ops (timed_value e)
                 (notify_cancel (rd_cell (timed_value e)) H)) expired)
               (s\<lparr>readers := compact L (remove_keys (keys expired) (readers s))\<rparr>))"

definition sweep_pending_readers :: "'c mpsc_ops \<Rightarrow> millis \<Rightarrow> 'c store \<Rightarrow> 'c store" where
  "sweep_pending_readers ops lim s =
     (let stale = filter (\<lambda>(k, e). \<not> now s - created e < lim) (pending_readers s)
      in on_mem (fold (\<lambda>(k, e). reader_drop ops (pending_reader e)) stale)
           (s\<lparr>pending_readers := filter (\<lambda>(k, e). now s - created e < lim) (pending_readers s)\<rparr>))"

definition sweep :: "slot_lib \<Rightarrow> 'c mpsc_ops \<Rightarrow> millis \<Rightarrow> 'c store \<Rightarrow> 'c store" where
  "sweep L ops lim s =
     (let s1 = sweep_readers L ops lim s;
          (dropped, ws) = sweep_registry L (now s1) lim (writers s1);
          s2 = on_mem (fold (writer_drop ops) dropped) (s1\<lparr>writers := ws\<rparr>);
          s3 = s2\<lparr>request_heads := snd (sweep_registry L (now s2) lim (request_heads s2))\<rparr>;
          s4 = s3\<lparr>sessions := snd (sweep_registry L (now s3) lim (sessions s3))\<rparr>;
          s5 = s4\<lparr>fetch_cancels := snd (sweep_registry L (now s4) lim (fetch_cancels s4))\<rparr>
      in sweep_pending_readers ops lim s5)"

section \<open>Guarded multi-handle allocation\<close>

datatype tracked_handle = TrackedReader u64 | TrackedWriter u64 | TrackedReqHead u64

record insert_guard =
  tracked :: "tracked_handle list"
  committed :: bool

definition guard_new :: insert_guard where
  "guard_new = \<lparr>tracked = [], committed = False\<rparr>"

definition guard_insert_reader :: "slot_lib \<Rightarrow> 'c mpsc_ops \<Rightarrow> body_reader \<Rightarrow> insert_guard \<times> 'c store
    \<Rightarrow> (core_error + u64) \<times> insert_guard \<times> 'c store" where
  "guard_insert_reader L ops r gs = (case gs of (g, s) \<Rightarrow> (case insert_reader L ops r s of
       (Inl e, s') \<Rightarrow> (Inl e, g, s')
     | (Inr h, s') \<Rightarrow> (Inr h, g\<lparr>tracked := tracked g @ [TrackedReader h]\<rparr>, s')))"

definition guard_insert_writer :: "slot_lib \<Rightarrow> 'c mpsc_ops \<Rightarrow> body_writer \<Rightarrow> insert_guard \<times> 'c store
    \<Rightarrow> (core_error + u64) \<times> insert_guard \<times> 'c store" where
  "guard_insert_writer L ops w gs = (case gs of (g, s) \<Rightarrow> (case insert_writer L ops w s of
       (Inl e, s') \<Rightarrow> (Inl e, g, s')
     | (Inr h, s') \<Rightarrow> (Inr h, g\<lparr>tracked := tracked g @ [TrackedWriter h]\<rparr>, s')))"

definition guard_allocate_req_handle :: "slot_lib \<Rightarrow> nat \<Rightarrow> insert_guard \<times> 'c store
    \<Rightarrow> (core_error + u64) \<times> insert_guard \<times> 'c store" where
  "guard_allocate_req_handle L sender gs = (case gs of (g, s) \<Rightarrow>
     (case allocate_req_handle L sender s of
       (Inl e, s') \<Rightarrow> (Inl e, g, s')
     | (Inr h, s') \<Rightarrow> (Inr h, g\<lparr>tracked := tracked g @ [TrackedReqHead h]\<rparr>, s')))"

definition guard_commit :: "insert_guard \<Rightarrow> insert_guard" where
  "guard_commit g = g\<lparr>committed := True\<rparr>"

fun rollback :: "'c mpsc_ops \<Rightarrow> tracked_handle \<Rightarrow> 'c store \<Rightarrow> 'c store" where
  "rollback ops (TrackedReader h) s = cancel_reader ops h s"
| "rollback ops (TrackedWriter h) s = snd (finish_body ops h s)"
| "rollback ops (TrackedReqHead h) s = s\<lparr>request_heads := snd (slot_remove h (request_heads s))\<rparr>"

definition guard_drop :: "'c mpsc_ops \<Rightarrow> insert_guard \<Rightarrow> 'c store \<Rightarrow> 'c store" where
  "guard_drop ops g s = (if committed g then s else fold (rollback ops) (tracked g) s)"

end
