(* ===== verification/Handle_Streams.thy ===== *)
theory Handle_Streams
  imports Handle_Store
begin

text \<open>
  Streaming through the handle store: what \<open>send_chunk\<close> puts on the channel, what
  \<open>next_chunk\<close> and \<open>try_next_chunk\<close> deliver, end of stream, terminal errors and
  cancellation.  The facts are proved under the channel contract \<open>mpsc\<close>.
\<close>

section \<open>Splitting into pieces\<close>

text \<open>Reference for the loop of \<open>send_chunk\<close>.\<close>

function chunks_of :: "nat \<Rightarrow> 'a list \<Rightarrow> 'a list list" where
  "chunks_of n xs = (if n = 0 \<or> xs = [] then [] else take n xs # chunks_of n (drop n xs))"
  by pat_completeness auto
termination
  by (relation "measure (\<lambda>(n, xs). length xs)") auto

declare chunks_of.simps [simp del]

lemma chunks_of_Nil [simp]: "chunks_of n [] = []"
  by (simp add: chunks_of.simps)

lemma chunks_of_step: "0 < n \<Longrightarrow> xs \<noteq> [] \<Longrightarrow> chunks_of n xs = take n xs # chunks_of n (drop n xs)"
  by (simp add: chunks_of.simps [of n xs])

lemma concat_chunks_of: "0 < n \<Longrightarrow> concat (chunks_of n xs) = xs"
proof (induction n xs rule: chunks_of.induct)
  case (1 n xs)
  then show ?case by (cases "xs = []") (simp_all add: chunks_of_step)
qed

lemma chunks_of_size: "p \<in> set (chunks_of n xs) \<Longrightarrow> p \<noteq> [] \<and> length p \<le> n"
proof (induction n xs rule: chunks_of.induct)
  case (1 n xs)
  then show ?case
    by (cases "n = 0 \<or> xs = []") (auto simp: chunks_of.simps [of n xs])
qed

text \<open>The messages one \<open>send_chunk\<close> call produces.\<close>

definition sent_pieces :: "nat \<Rightarrow> bytes \<Rightarrow> bytes list" where
  "sent_pieces mx chunk = (if length chunk \<le> mx then [chunk] else chunks_of mx chunk)"

lemma concat_sent_pieces: "0 < mx \<Longrightarrow> concat (sent_pieces mx chunk) = chunk"
  by (simp add: sent_pieces_def concat_chunks_of)

lemma sent_pieces_size: "p \<in> set (sent_pieces mx chunk) \<Longrightarrow> length p \<le> mx"
  by (auto simp: sent_pieces_def dest: chunks_of_size split: if_splits)

lemma on_mem_simps [simp]:
  "readers (on_mem f s) = readers s" "writers (on_mem f s) = writers s"
  "sessions (on_mem f s) = sessions s" "request_heads (on_mem f s) = request_heads s"
  "fetch_cancels (on_mem f s) = fetch_cancels s" "pending_readers (on_mem f s) = pending_readers s"
  "config (on_mem f s) = config s" "mem (on_mem f s) = f (mem s)"
  "next_notify (on_mem f s) = next_notify s" "notify_ones (on_mem f s) = notify_ones s"
  by (simp_all add: on_mem_def)

lemma on_mem_on_mem [simp]: "on_mem f (on_mem g s) = on_mem (f \<circ> g) s"
  by (simp add: on_mem_def)

lemma upd_cell_upd_cell [simp]: "upd_cell i f (upd_cell i g H) = upd_cell i (f \<circ> g) H"
  by (simp add: upd_cell_def)

section \<open>Streams\<close>

text \<open>A reader handle \<open>h\<close> on cell \<open>i\<close>: idle, registered, sole owner of the receiver,
  with \<open>q\<close> queued, \<open>n\<close> live senders and terminal error \<open>te\<close>.\<close>

definition stream_at :: "('c \<Rightarrow> fifo) \<Rightarrow> u64 \<Rightarrow> nat \<Rightarrow> nat \<Rightarrow> nat \<Rightarrow> core_error option \<Rightarrow> bytes list
    \<Rightarrow> 'c store \<Rightarrow> bool" where
  "stream_at view h i cap n te q s \<longleftrightarrow>
     (\<exists>e. slot_get h (readers s) = Some e \<and> timed_value e = \<lparr>rd_cell = i, rd_pending = None\<rparr>)
     \<and> \<not> rx_locked (cells (mem s) i) \<and> rx_refs (cells (mem s) i) = 1
     \<and> terminal_error (cells (mem s) i) = te
     \<and> view (chan (cells (mem s) i)) = \<lparr>queue = q, capacity = cap, senders = n, receiver = True\<rparr>"

text \<open>Reading \<open>n\<close> chunks in a row.\<close>

fun read_n :: "'c mpsc_ops \<Rightarrow> nat \<Rightarrow> u64 \<Rightarrow> 'c store \<Rightarrow> (bytes list \<times> 'c store) option" where
  "read_n ops 0 h s = Some ([], s)"
| "read_n ops (Suc n) h s = (case next_chunk ops [] [] h s of
       Some (Inr (Some b), s') \<Rightarrow> map_option (\<lambda>(bs, s''). (b # bs, s'')) (read_n ops n h s')
     | _ \<Rightarrow> None)"

context mpsc
begin

lemma lift_send_fit:
  assumes "receiver (view (chan (cells (mem s) i)))"
    and "length (queue (view (chan (cells (mem s) i)))) < capacity (view (chan (cells (mem s) i)))"
  shows "\<exists>ch. lift_send ops i b drain env s = Some (Inr (), on_mem (upd_cell i (\<lambda>c. c\<lparr>chan := ch\<rparr>)) s)
     \<and> view ch = (view (chan (cells (mem s) i)))\<lparr>queue := queue (view (chan (cells (mem s) i))) @ [b]\<rparr>"
  using send_fast_ok [OF assms, of b drain env] by (auto simp: lift_send_def on_mem_def)

lemma send_pieces_fit:
  assumes "0 < mx" and "length chunk \<le> usize_max" and "offset \<le> length chunk"
    and "receiver (view (chan (cells (mem s) i)))"
    and "length (queue (view (chan (cells (mem s) i)))) + length (chunks_of mx (drop offset chunk))
           \<le> capacity (view (chan (cells (mem s) i)))"
  shows "\<exists>ch. send_pieces ops i mx drain chunk offset envs s
           = Some (Inr (), on_mem (upd_cell i (\<lambda>c. c\<lparr>chan := ch\<rparr>)) s)
         \<and> view ch = (view (chan (cells (mem s) i)))
             \<lparr>queue := queue (view (chan (cells (mem s) i))) @ chunks_of mx (drop offset chunk)\<rparr>"
  using assms(3-5)
proof (induction "length chunk - offset" arbitrary: offset envs s rule: less_induct)
  case less
  let ?v = "view (chan (cells (mem s) i))"
  show ?case
  proof (cases "offset < length chunk")
    case False
    then have "send_pieces ops i mx drain chunk offset envs s = Some (Inr (), s)"
      by (simp add: send_pieces.simps)
    moreover have "s = on_mem (upd_cell i (\<lambda>c. c\<lparr>chan := chan (cells (mem s) i)\<rparr>)) s"
      by (simp add: on_mem_def upd_cell_def)
    ultimately show ?thesis using False by (intro exI [of _ "chan (cells (mem s) i)"]) auto
  next
    case True
    define e where "e = min (sat_add offset mx) (length chunk)"
    have e: "e = min (offset + mx) (length chunk)"
      using assms(2) by (auto simp: e_def sat_add_def min_def)
    define p where "p = take (e - offset) (drop offset chunk)"
    have p: "p = take mx (drop offset chunk)" using e True by (auto simp: p_def min_def)
    have step: "chunks_of mx (drop offset chunk) = p # chunks_of mx (drop e chunk)"
      using True assms(1) e p
      by (auto simp: chunks_of_step drop_drop min_def add.commute)
    define env where "env = (case envs of [] \<Rightarrow> [] | x # _ \<Rightarrow> x)"
    obtain ch where ls: "lift_send ops i p drain env s
        = Some (Inr (), on_mem (upd_cell i (\<lambda>c. c\<lparr>chan := ch\<rparr>)) s)"
      and vch: "view ch = ?v\<lparr>queue := queue ?v @ [p]\<rparr>"
      using lift_send_fit [of s i p drain env] less.prems step by auto
    let ?s1 = "on_mem (upd_cell i (\<lambda>c. c\<lparr>chan := ch\<rparr>)) s"
    have "send_pieces ops i mx drain chunk offset envs s
        = send_pieces ops i mx drain chunk e (drop 1 envs) ?s1"
      using True ls by (subst send_pieces.simps) (simp add: Let_def e_def p_def env_def)
    moreover have "length chunk - e < length chunk - offset" using True e assms(1) by auto
    moreover have "e \<le> length chunk" using e by simp
    moreover have "\<exists>ch'. send_pieces ops i mx drain chunk e (drop 1 envs) ?s1
           = Some (Inr (), on_mem (upd_cell i (\<lambda>c. c\<lparr>chan := ch'\<rparr>)) ?s1)
         \<and> view ch' = (view (chan (cells (mem ?s1) i)))
             \<lparr>queue := queue (view (chan (cells (mem ?s1) i))) @ chunks_of mx (drop e chunk)\<rparr>"
      using calculation(2,3) less.prems step vch by (intro less.hyps) auto
    ultimately show ?thesis using vch step by (auto simp: comp_def)
  qed
qed

text \<open>A \<open>send_chunk\<close> whose pieces fit in the channel queues exactly \<open>sent_pieces\<close>.\<close>

lemma send_chunk_fit:
  assumes w: "slot_get hw (writers s) = Some ew" and c: "wr_cell (timed_value ew) = i"
    and mx: "0 < max_chunk_size (config s)" and len: "length chunk \<le> usize_max"
    and v: "view (chan (cells (mem s) i)) = \<lparr>queue = q, capacity = cap, senders = n, receiver = True\<rparr>"
    and fit: "length q + length (sent_pieces (max_chunk_size (config s)) chunk) \<le> cap"
  shows "\<exists>ch. send_chunk ops envs hw chunk s
           = Some (Inr (), on_mem (upd_cell i (\<lambda>c. c\<lparr>chan := ch\<rparr>))
                (s\<lparr>writers := slot_upd hw (touch (now s)) (writers s)\<rparr>))
         \<and> view ch = \<lparr>queue = q @ sent_pieces (max_chunk_size (config s)) chunk, capacity = cap,
                 senders = n, receiver = True\<rparr>"
proof -
  let ?mx = "max_chunk_size (config s)"
  let ?sw = "s\<lparr>writers := slot_upd hw (touch (now s)) (writers s)\<rparr>"
  define s1 where "s1 = on_mem (tx_clone ops i) ?sw"
  let ?d = "drain_timeout (timed_value ew)"
  let ?send = "if length chunk \<le> ?mx
       then lift_send ops i chunk ?d (case envs of [] \<Rightarrow> [] | x # _ \<Rightarrow> x) s1
       else send_pieces ops i ?mx ?d chunk 0 envs s1"
  have v1: "view (chan (cells (mem s1) i))
      = \<lparr>queue = q, capacity = cap, senders = Suc n, receiver = True\<rparr>"
    using v by (simp add: s1_def tx_clone_def clone_tx_law)
  have "\<exists>ch. ?send = Some (Inr (), on_mem (upd_cell i (\<lambda>c. c\<lparr>chan := ch\<rparr>)) s1)
     \<and> view ch = \<lparr>queue = q @ sent_pieces ?mx chunk, capacity = cap, senders = Suc n, receiver = True\<rparr>"
  proof (cases "length chunk \<le> ?mx")
    case True
    with lift_send_fit [of s1 i chunk ?d "case envs of [] \<Rightarrow> [] | x # _ \<Rightarrow> x"] v1 fit show ?thesis
      by (simp add: sent_pieces_def)
  next
    case False
    with send_pieces_fit [of ?mx chunk 0 s1 i ?d envs] v1 fit mx len
    show ?thesis by (simp add: sent_pieces_def)
  qed
  then obtain ch where send: "?send = Some (Inr (), on_mem (upd_cell i (\<lambda>c. c\<lparr>chan := ch\<rparr>)) s1)"
    and vch: "view ch = \<lparr>queue = q @ sent_pieces ?mx chunk, capacity = cap, senders = Suc n, receiver = True\<rparr>"
    by auto
  have "send_chunk ops envs hw chunk s
      = Some (Inr (), on_mem (tx_drop ops i) (on_mem (upd_cell i (\<lambda>c. c\<lparr>chan := ch\<rparr>)) s1))"
    using w c send by (auto simp: send_chunk_def send_chunk_begin_def Let_def s1_def [symmetric] split: if_splits)
  moreover have "on_mem (tx_drop ops i) (on_mem (upd_cell i (\<lambda>c. c\<lparr>chan := ch\<rparr>)) s1)
      = on_mem (upd_cell i (\<lambda>c. c\<lparr>chan := mp_drop_tx ops ch\<rparr>)) ?sw"
    by (simp add: s1_def on_mem_def tx_drop_def tx_clone_def comp_def)
  moreover have "view (mp_drop_tx ops ch)
      = \<lparr>queue = q @ sent_pieces ?mx chunk, capacity = cap, senders = n, receiver = True\<rparr>"
    using vch by (simp add: drop_tx_law)
  ultimately show ?thesis by auto
qed

text \<open>\<open>next_chunk\<close> on a stream with a queued chunk delivers it and keeps the rest, without
  waiting.\<close>

lemma next_chunk_deliver:
  assumes "stream_at view h i cap n te (x # xs) s"
  shows "\<exists>s'. next_chunk ops [] env h s = Some (Inr (Some x), s')
     \<and> stream_at view h i cap n te xs s' \<and> writers s' = writers s \<and> config s' = config s"
proof -
  obtain e where e: "slot_get h (readers s) = Some e"
    "timed_value e = \<lparr>rd_cell = i, rd_pending = None\<rparr>"
    using assms by (auto simp: stream_at_def)
  define s1 where
    "s1 = on_mem (rx_clone i) (s\<lparr>readers := slot_upd h (touch (now s)) (readers s)\<rparr>)"
  have c: "queue (view (chan (cells (mem s1) i))) = x # xs" "\<not> rx_locked (cells (mem s1) i)"
    using assms by (simp_all add: s1_def stream_at_def)
  obtain fut ch where p: "recv_poll ops i (None, False) (mem s1)
      = (Ready (Some x), fut, upd_cell i (\<lambda>c. c\<lparr>chan := ch, rx_locked := False\<rparr>) (mem s1))"
    and v: "view ch = (view (chan (cells (mem s1) i)))\<lparr>queue := xs\<rparr>"
    using recv_poll_chunk [of "mem s1" i x xs False None] c by auto
  let ?s3 = "s1\<lparr>mem := upd_cell i (\<lambda>c. c\<lparr>chan := ch, rx_locked := False\<rparr>) (mem s1)\<rparr>"
  have "lift_recv ops i (None, False) s1 = (Ready (Some x), fut, ?s3)"
    using p by (simp add: lift_recv_def)
  then have aw: "await_fut (lift_recv ops i) env (None, False) s1 = (Some (Some x), fut, ?s3)"
    by (simp add: poll_simps)
  have "next_chunk ops [] env h s = Some (Inr (Some x), on_mem (rx_drop ops i) ?s3)"
    using e aw by (simp add: next_chunk_def next_chunk_begin_def Let_def s1_def [symmetric])
  moreover have "stream_at view h i cap n te xs (on_mem (rx_drop ops i) ?s3)"
    using assms e v by (auto simp: stream_at_def s1_def rx_drop_def rx_clone_def touch_def)
  ultimately show ?thesis by (auto simp: s1_def)
qed

text \<open>End of stream: the handle is released; a terminal error replaces the clean end and is
  taken from the channel.\<close>

lemma next_chunk_eof:
  assumes "stream_at view h i cap 0 te [] s"
  shows "\<exists>s'. next_chunk ops [] env h s
      = Some (case te of None \<Rightarrow> Inr None | Some e \<Rightarrow> Inl e, s')
     \<and> slot_get h (readers s') = None \<and> terminal_error (cells (mem s') i) = None"
proof -
  obtain e where e: "slot_get h (readers s) = Some e"
    "timed_value e = \<lparr>rd_cell = i, rd_pending = None\<rparr>"
    using assms by (auto simp: stream_at_def)
  define s1 where
    "s1 = on_mem (rx_clone i) (s\<lparr>readers := slot_upd h (touch (now s)) (readers s)\<rparr>)"
  have c: "queue (view (chan (cells (mem s1) i))) = []"
    "senders (view (chan (cells (mem s1) i))) = 0" "\<not> rx_locked (cells (mem s1) i)"
    "terminal_error (cells (mem s1) i) = te"
    using assms by (simp_all add: s1_def stream_at_def)
  obtain H3 where rw: "recv_with_cancel ops i [] (mem s1) = (Some None, H3)"
    and te3: "terminal_error (cells H3 i) = te"
    using recv_eof [of "mem s1" i "[]"] c by auto
  obtain fut where "recv_poll ops i (None, False) (mem s1) = (Ready None, fut, H3)"
    using rw by (auto simp: recv_with_cancel_def split: prod.splits poll.splits)
  then have "lift_recv ops i (None, False) s1 = (Ready None, fut, s1\<lparr>mem := H3\<rparr>)"
    by (simp add: lift_recv_def)
  then have aw: "await_fut (lift_recv ops i) env (None, False) s1
      = (Some None, fut, s1\<lparr>mem := H3\<rparr>)"
    by (simp add: poll_simps)
  let ?s4 = "on_mem (rx_drop ops i) (s1\<lparr>mem := H3\<rparr>)"
  have nc: "next_chunk ops [] env h s = Some (eof_cleanup ops h i ?s4)"
    using e aw by (simp add: next_chunk_def next_chunk_begin_def Let_def s1_def [symmetric])
  have "slot_get h (readers ?s4) = Some (touch (now s) e)"
    using e by (simp add: s1_def)
  then show ?thesis
    using nc te3 e
    by (auto simp: eof_cleanup_def release_reader_def take_terminal_error_def slot_remove_def
        slot_get_def reader_drop_def touch_def split: option.splits)
qed

text \<open>Reading a stream to its end yields the queued chunks in order.\<close>

lemma read_all:
  assumes "stream_at view h i cap n te q s"
  shows "\<exists>s'. read_n ops (length q) h s = Some (q, s') \<and> stream_at view h i cap n te [] s'
     \<and> writers s' = writers s \<and> config s' = config s"
  using assms
proof (induction q arbitrary: s)
  case Nil
  then show ?case by simp
next
  case (Cons x xs)
  obtain s1 where nc: "next_chunk ops [] [] h s = Some (Inr (Some x), s1)"
    and st: "stream_at view h i cap n te xs s1" and fr: "writers s1 = writers s" "config s1 = config s"
    using next_chunk_deliver [OF Cons.prems, of "[]"] by auto
  obtain s' where "read_n ops (length xs) h s1 = Some (xs, s')" "stream_at view h i cap n te [] s'"
    "writers s' = writers s1" "config s' = config s1"
    using Cons.IH [OF st] by auto
  with nc fr show ?case by simp
qed

end

end
