(* ===== verification/Handle_Invariants.thy ===== *)
theory Handle_Invariants
  imports Handle_Streams
begin

text \<open>
  Registry-level facts about the handle store: the step relation of all operations, the capacity
  invariant of every reachable store, what a sweep removes, and the rollback of guarded
  allocations.
\<close>

section \<open>Registries\<close>

text \<open>A registry never exceeds its bound, and below the key source's version limit it satisfies
  the slot-map invariant.\<close>

definition reg_ok :: "slot_lib \<Rightarrow> nat \<Rightarrow> 'v slot_map \<Rightarrow> bool" where
  "reg_ok L mx reg \<longleftrightarrow> slot_len reg \<le> mx \<and> (slot_lib_ok L \<longrightarrow> slot_room reg \<longrightarrow> slot_inv L reg)"

lemma reg_ok_new [simp]: "reg_ok L mx slot_new"
  by (simp add: reg_ok_def slot_inv_new)

lemma reg_ok_upd [simp]: "reg_ok L mx (slot_upd k f reg) = reg_ok L mx reg"
  by (simp add: reg_ok_def)

lemma reg_ok_remove: "reg_ok L mx reg \<Longrightarrow> reg_ok L mx (snd (slot_remove k reg))"
  using slot_len_remove_le [of k reg]
  by (auto simp: reg_ok_def slot_inv_remove slot_remove_def slot_room_def split: option.splits)
    (auto simp: slot_inv_def)

lemma insert_checked_cases:
  "insert_checked L t v mx reg =
     (if mx \<le> slot_len reg then (Inl (internal ''handle registry at capacity''), reg)
      else (Inr (next_key L (history reg)), snd (slot_insert L (timed_new t v) reg)))"
  by (simp add: insert_checked_def slot_insert_def Let_def)

lemma reg_ok_insert:
  assumes "reg_ok L mx reg"
  shows "reg_ok L mx (snd (insert_checked L t v mx reg))"
proof (cases "mx \<le> slot_len reg")
  case True
  then show ?thesis using assms by (simp add: insert_checked_cases)
next
  case False
  have "slot_room (snd (slot_insert L (timed_new t v) reg)) \<Longrightarrow> slot_room reg"
    by (simp add: slot_room_def slot_insert_def Let_def)
  then show ?thesis
    using assms False by (auto simp: reg_ok_def insert_checked_cases slot_inv_insert)
qed

lemma reg_ok_remove_keys: "reg_ok L mx reg \<Longrightarrow> reg_ok L mx (remove_keys ks reg)"
  unfolding remove_keys_def by (induction ks arbitrary: reg) (simp_all add: reg_ok_remove)

lemma reg_ok_compact: "reg_ok L mx reg \<Longrightarrow> reg_ok L mx (compact L reg)"
  by (simp add: compact_def)

lemma reg_ok_sweep: "reg_ok L mx reg \<Longrightarrow> reg_ok L mx (snd (sweep_registry L t lim reg))"
  by (simp add: sweep_registry_def Let_def reg_ok_compact reg_ok_remove_keys)

lemmas reg_ok_rules = reg_ok_remove reg_ok_insert reg_ok_remove_keys reg_ok_compact reg_ok_sweep

section \<open>Steps of the store\<close>

text \<open>One rule per operation.  The awaiting operations contribute the steps they perform under
  a lock (begin, release, take the terminal error); everything they do in between touches the
  heap only, as does the passage of time, and is covered by \<open>heap_step\<close>.\<close>

inductive store_step :: "slot_lib \<Rightarrow> 'c mpsc_ops \<Rightarrow> 'c store \<Rightarrow> 'c store \<Rightarrow> bool" for L ops where
  heap_step: "store_step L ops s (on_mem f s)"
| step_insert_reader: "store_step L ops s (snd (insert_reader L ops r s))"
| step_insert_writer: "store_step L ops s (snd (insert_writer L ops w s))"
| step_alloc_body_writer: "alloc_body_writer L ops s = Some (x, s') \<Longrightarrow> store_step L ops s s'"
| step_store_pending: "store_step L ops s (store_pending_reader ops h r s)"
| step_claim_pending: "store_step L ops s (snd (claim_pending_reader h s))"
| step_next_begin: "next_chunk_begin h s = Some (i, s') \<Longrightarrow> store_step L ops s s'"
| step_eof: "store_step L ops s (snd (eof_cleanup ops h i s))"
| step_try_next: "store_step L ops s (snd (try_next_chunk ops h s))"
| step_send_begin: "send_chunk_begin ops h s = Some (i, d, s') \<Longrightarrow> store_step L ops s s'"
| step_finish_body: "store_step L ops s (snd (finish_body ops h s))"
| step_cancel_reader: "store_step L ops s (cancel_reader ops h s)"
| step_insert_session: "store_step L ops s (snd (insert_session L conn s))"
| step_remove_session: "store_step L ops s (snd (remove_session h s))"
| step_alloc_req: "store_step L ops s (snd (allocate_req_handle L snder s))"
| step_take_req: "store_step L ops s (snd (take_req_sender h s))"
| step_alloc_token: "store_step L ops s (snd (alloc_fetch_token L s))"
| step_cancel_token: "store_step L ops s (cancel_in_flight h s)"
| step_remove_token: "store_step L ops s (remove_fetch_token h s)"
| step_rollback: "store_step L ops s (rollback ops t s)"
| step_sweep: "store_step L ops s (sweep L ops lim s)"

inductive store_reachable :: "slot_lib \<Rightarrow> 'c mpsc_ops \<Rightarrow> store_config \<Rightarrow> 'c store \<Rightarrow> bool"
  for L ops cfg where
  reach_new: "store_reachable L ops cfg (store_new cfg H)"
| reach_step: "store_reachable L ops cfg s \<Longrightarrow> store_step L ops s s' \<Longrightarrow> store_reachable L ops cfg s'"

definition store_ok :: "slot_lib \<Rightarrow> store_config \<Rightarrow> 'c store \<Rightarrow> bool" where
  "store_ok L cfg s \<longleftrightarrow> config s = cfg \<and> reg_ok L (max_handles cfg) (readers s)
     \<and> reg_ok L (max_handles cfg) (writers s) \<and> reg_ok L (max_handles cfg) (sessions s)
     \<and> reg_ok L (max_handles cfg) (request_heads s) \<and> reg_ok L (max_handles cfg) (fetch_cancels s)
     \<and> distinct (keys (pending_readers s))"

lemma store_ok_on_mem [simp]: "store_ok L cfg (on_mem f s) = store_ok L cfg s"
  by (simp add: store_ok_def)

lemma store_ok_new: "store_ok L cfg (store_new cfg H)"
  by (simp add: store_ok_def store_new_def)

lemma reg_ok_insertD:
  "reg_ok L mx reg \<Longrightarrow> insert_checked L t v mx reg = (r, reg') \<Longrightarrow> reg_ok L mx reg'"
  using reg_ok_insert [of L mx reg t v] by simp

lemma reg_ok_removeD:
  "reg_ok L mx reg \<Longrightarrow> slot_remove k reg = (v, reg') \<Longrightarrow> reg_ok L mx reg'"
  using reg_ok_remove [of L mx reg k] by simp

lemmas store_op_defs = insert_reader_def insert_writer_def insert_session_def
  allocate_req_handle_def alloc_fetch_token_def finish_body_def cancel_reader_def
  release_reader_def remove_session_def take_req_sender_def remove_fetch_token_def
  cancel_in_flight_def claim_pending_reader_def

lemma store_ok_insert:
  assumes "store_ok L cfg s"
  shows "store_ok L cfg (snd (insert_reader L ops r s))"
    and "store_ok L cfg (snd (insert_writer L ops w s))"
    and "store_ok L cfg (snd (insert_session L conn s))"
    and "store_ok L cfg (snd (allocate_req_handle L snder s))"
    and "store_ok L cfg (snd (alloc_fetch_token L s))"
  using assms
  by (auto simp: store_ok_def store_op_defs split: prod.splits sum.splits dest: reg_ok_insertD)

lemma store_ok_remove:
  assumes "store_ok L cfg s"
  shows "store_ok L cfg (snd (finish_body ops h s))"
    and "store_ok L cfg (cancel_reader ops h s)"
    and "store_ok L cfg (release_reader ops h s)"
    and "store_ok L cfg (snd (remove_session h s))"
    and "store_ok L cfg (snd (take_req_sender h s))"
    and "store_ok L cfg (remove_fetch_token h s)"
    and "store_ok L cfg (cancel_in_flight h s)"
    and "store_ok L cfg (snd (claim_pending_reader h s))"
    and "store_ok L cfg (rollback ops t s)"
proof -
  note d = store_ok_def store_op_defs
  show "store_ok L cfg (snd (finish_body ops h s))"
    using assms by (auto simp: d split: prod.splits option.splits dest: reg_ok_removeD)
  show "store_ok L cfg (cancel_reader ops h s)"
    using assms by (auto simp: d split: prod.splits option.splits dest: reg_ok_removeD)
  show "store_ok L cfg (release_reader ops h s)"
    using assms by (auto simp: d split: prod.splits option.splits dest: reg_ok_removeD)
  show "store_ok L cfg (snd (remove_session h s))"
    using assms by (auto simp: d split: prod.splits option.splits dest: reg_ok_removeD)
  show "store_ok L cfg (snd (take_req_sender h s))"
    using assms by (auto simp: d split: prod.splits option.splits dest: reg_ok_removeD)
  show "store_ok L cfg (remove_fetch_token h s)"
    using assms by (auto simp: d reg_ok_remove)
  show "store_ok L cfg (cancel_in_flight h s)"
    using assms by (auto simp: d split: option.splits)
  show "store_ok L cfg (snd (claim_pending_reader h s))"
    using assms by (auto simp: d)
  show "store_ok L cfg (rollback ops t s)"
    using assms
    by (cases t) (auto simp: d reg_ok_remove split: prod.splits option.splits dest: reg_ok_removeD)
qed

lemma store_ok_pending:
  "store_ok L cfg s \<Longrightarrow> store_ok L cfg (store_pending_reader ops h r s)"
  by (auto simp: store_ok_def store_pending_reader_def Let_def al_put_def split: option.splits)

lemma store_ok_eof: "store_ok L cfg s \<Longrightarrow> store_ok L cfg (snd (eof_cleanup ops h i s))"
  using store_ok_remove(3) [of L cfg s ops h]
  by (auto simp: eof_cleanup_def take_terminal_error_def split: option.splits)

lemma store_ok_touch:
  "store_ok L cfg s \<Longrightarrow> store_ok L cfg (s\<lparr>readers := slot_upd h f (readers s)\<rparr>)"
  "store_ok L cfg s \<Longrightarrow> store_ok L cfg (s\<lparr>writers := slot_upd h g (writers s)\<rparr>)"
  by (simp_all add: store_ok_def)

lemma store_ok_try_next: "store_ok L cfg s \<Longrightarrow> store_ok L cfg (snd (try_next_chunk ops h s))"
  by (auto simp: try_next_chunk_def Let_def store_ok_touch store_ok_eof
      split: option.splits prod.splits try_recv_result.splits)

lemma store_ok_alloc:
  assumes "store_ok L cfg s" and "alloc_body_writer L ops s = Some (x, s')"
  shows "store_ok L cfg s'"
proof -
  obtain w r s1 where mk: "store_make_body_channel ops s = Some (w, r, s1)"
    using assms(2) by (auto simp: alloc_body_writer_def split: option.splits)
  have "store_ok L cfg s1"
    using mk assms(1)
    by (auto simp: store_make_body_channel_def store_ok_def split: option.splits prod.splits)
  then have "store_ok L cfg (snd (insert_writer L ops w s1))" by (rule store_ok_insert(2))
  then show ?thesis
    using assms(2) mk by (auto simp: alloc_body_writer_def split: sum.splits prod.splits)
qed

lemma store_ok_sweep:
  assumes "store_ok L cfg s"
  shows "store_ok L cfg (sweep L ops lim s)"
proof -
  have r: "store_ok L cfg (sweep_readers L ops lim s)"
    using assms by (auto simp: sweep_readers_def Let_def store_ok_def reg_ok_rules)
  have p: "store_ok L cfg (sweep_pending_readers ops lim s')" if "store_ok L cfg s'" for s' :: "'a store"
    using that by (auto simp: sweep_pending_readers_def Let_def store_ok_def distinct_keys_filter)
  show ?thesis
    unfolding sweep_def Let_def
    by (auto simp: split_beta intro!: p) (use r in \<open>auto simp: store_ok_def reg_ok_sweep\<close>)
qed

lemma store_step_ok:
  assumes "store_step L ops s s'" and "store_ok L cfg s"
  shows "store_ok L cfg s'"
  using assms
  by (induction rule: store_step.induct)
    (auto simp: store_ok_insert store_ok_remove store_ok_pending store_ok_eof store_ok_try_next
      store_ok_sweep store_ok_touch next_chunk_begin_def send_chunk_begin_def Let_def
      split: option.splits intro: store_ok_alloc)

lemma store_reachable_ok: "store_reachable L ops cfg s \<Longrightarrow> store_ok L cfg s"
  by (induction rule: store_reachable.induct) (auto simp: store_ok_new intro: store_step_ok)

section \<open>Sweeping\<close>

lemma slot_get_remove_keys:
  "slot_get k (remove_keys ks m) = (if k \<in> set ks then None else slot_get k m)"
  unfolding remove_keys_def by (induction ks arbitrary: m) auto

lemma slot_get_compact [simp]: "slot_get k (compact L m) = slot_get k m"
  by (auto simp: compact_def slot_get_def slot_len_def)

text \<open>What a time-to-live pass leaves behind.\<close>

definition survives :: "millis \<Rightarrow> millis \<Rightarrow> 'v timed option \<Rightarrow> 'v timed option" where
  "survives t lim x = (case x of None \<Rightarrow> None | Some e \<Rightarrow> if is_expired t lim e then None else Some e)"

lemma expired_keys:
  assumes "distinct (keys (slots reg))"
  shows "k \<in> set (keys (expired_entries t lim reg))
     \<longleftrightarrow> (\<exists>e. slot_get k reg = Some e \<and> is_expired t lim e)"
  using assms
  by (force simp: expired_entries_def keys_def slot_get_def dest: map_of_SomeD)

lemma sweep_get:
  assumes "distinct (keys (slots reg))"
  shows "slot_get k (remove_keys (keys (expired_entries t lim reg)) reg)
     = survives t lim (slot_get k reg)"
  using expired_keys [OF assms, of k t lim]
  by (auto simp: slot_get_remove_keys survives_def split: option.splits)

lemma sweep_registry_get:
  assumes "distinct (keys (slots reg))"
  shows "slot_get k (snd (sweep_registry L t lim reg)) = survives t lim (slot_get k reg)"
proof (cases "expired_entries t lim reg = []")
  case True
  then show ?thesis
    using sweep_get [OF assms, of k t lim]
    by (simp add: sweep_registry_def remove_keys_def)
next
  case False
  then show ?thesis using sweep_get [OF assms, of k t lim] by (simp add: sweep_registry_def Let_def)
qed

lemma clock_reader_drop [simp]: "clock (reader_drop ops r H) = clock H"
  by (simp add: reader_drop_def Let_def split: option.splits prod.splits)

lemma clock_writer_drop [simp]: "clock (writer_drop ops w H) = clock H"
  by (simp add: writer_drop_def Let_def split: option.splits)

lemma clock_fold_drop [simp]:
  "clock (fold (\<lambda>(k, e) H. reader_drop ops (f e) (notify_cancel (g e) H)) xs H) = clock H"
  by (induction xs arbitrary: H) auto

lemma now_sweep_readers [simp]: "now (sweep_readers L ops lim s) = now s"
  by (simp add: sweep_readers_def Let_def)

lemma clock_fold_writer_drop [simp]: "clock (fold (writer_drop ops) ws H) = clock H"
  by (induction ws arbitrary: H) auto

lemma sweep_readers_get:
  assumes "distinct (keys (slots (readers s)))"
  shows "slot_get k (readers (sweep_readers L ops lim s)) = survives (now s) lim (slot_get k (readers s))"
  using sweep_get [OF assms, of k "now s" lim]
  by (auto simp: sweep_readers_def Let_def remove_keys_def)

lemma sweep_readers_frame [simp]:
  "writers (sweep_readers L ops lim s) = writers s" "sessions (sweep_readers L ops lim s) = sessions s"
  "request_heads (sweep_readers L ops lim s) = request_heads s"
  "fetch_cancels (sweep_readers L ops lim s) = fetch_cancels s"
  "pending_readers (sweep_readers L ops lim s) = pending_readers s"
  by (simp_all add: sweep_readers_def Let_def)

lemma sweep_pending_frame [simp]:
  "readers (sweep_pending_readers ops lim s) = readers s"
  "writers (sweep_pending_readers ops lim s) = writers s"
  "sessions (sweep_pending_readers ops lim s) = sessions s"
  "request_heads (sweep_pending_readers ops lim s) = request_heads s"
  "fetch_cancels (sweep_pending_readers ops lim s) = fetch_cancels s"
  "pending_readers (sweep_pending_readers ops lim s)
     = filter (\<lambda>(k, e). now s - created e < lim) (pending_readers s)"
  by (simp_all add: sweep_pending_readers_def Let_def)

lemma sweep_fields:
  "readers (sweep L ops lim s) = readers (sweep_readers L ops lim s)"
  "writers (sweep L ops lim s) = snd (sweep_registry L (now s) lim (writers s))"
  "request_heads (sweep L ops lim s) = snd (sweep_registry L (now s) lim (request_heads s))"
  "sessions (sweep L ops lim s) = snd (sweep_registry L (now s) lim (sessions s))"
  "fetch_cancels (sweep L ops lim s) = snd (sweep_registry L (now s) lim (fetch_cancels s))"
  "pending_readers (sweep L ops lim s) = filter (\<lambda>(k, e). now s - created e < lim) (pending_readers s)"
  by (simp_all add: sweep_def Let_def split_beta)

text \<open>Every expired reader is signalled.\<close>

lemma cancel_reader_drop [simp]:
  "cancel_calls (cells (reader_drop ops r H) j) = cancel_calls (cells H j)"
  by (simp add: reader_drop_def Let_def split: option.splits prod.splits)

lemma cancel_notify: "cancel_calls (cells (notify_cancel i H) j)
     = (if j = i then Suc (cancel_calls (cells H j)) else cancel_calls (cells H j))"
  by (simp add: notify_cancel_def)

lemma fold_notify_counts:
  "cancel_calls (cells (fold (\<lambda>(k, e) H. reader_drop ops (timed_value e)
        (notify_cancel (rd_cell (timed_value e)) H)) xs H) j)
     = cancel_calls (cells H j) + length (filter (\<lambda>(k, e). rd_cell (timed_value e) = j) xs)"
  by (induction xs arbitrary: H) (auto simp: cancel_notify)

end
