(* ===== verification/Handle_Guard.thy ===== *)
theory Handle_Guard
  imports Handle_Invariants
begin

text \<open>
  \<open>InsertGuard\<close>: a sequence of guarded allocations that is dropped without \<open>commit\<close>
  leaves no handle behind.
\<close>

text \<open>A sequence of guarded allocations, stopping at the first refusal as \<open>?\<close> does.\<close>

datatype guard_op = GuardReader body_reader | GuardWriter body_writer | GuardReqHead nat

fun guard_step :: "slot_lib \<Rightarrow> 'c mpsc_ops \<Rightarrow> guard_op \<Rightarrow> insert_guard \<times> 'c store
    \<Rightarrow> (core_error + u64) \<times> insert_guard \<times> 'c store" where
  "guard_step L ops (GuardReader r) gs = guard_insert_reader L ops r gs"
| "guard_step L ops (GuardWriter w) gs = guard_insert_writer L ops w gs"
| "guard_step L ops (GuardReqHead n) gs = guard_allocate_req_handle L n gs"

fun guard_run :: "slot_lib \<Rightarrow> 'c mpsc_ops \<Rightarrow> guard_op list \<Rightarrow> insert_guard \<times> 'c store
    \<Rightarrow> (core_error + u64 list) \<times> insert_guard \<times> 'c store" where
  "guard_run L ops [] gs = (Inr [], gs)"
| "guard_run L ops (a # as) gs = (case guard_step L ops a gs of
       (Inl e, gs') \<Rightarrow> (Inl e, gs')
     | (Inr h, gs') \<Rightarrow> (case guard_run L ops as gs' of
          (Inl e, gs'') \<Rightarrow> (Inl e, gs'')
        | (Inr hs, gs'') \<Rightarrow> (Inr (h # hs), gs'')))"

text \<open>The lookups a client can make through the three registries a guard touches.\<close>

definition handle_view :: "'c store \<Rightarrow> (u64 \<Rightarrow> body_reader timed option)
    \<times> (u64 \<Rightarrow> body_writer timed option) \<times> (u64 \<Rightarrow> nat timed option)" where
  "handle_view s = (\<lambda>k. slot_get k (readers s), \<lambda>k. slot_get k (writers s),
     \<lambda>k. slot_get k (request_heads s))"

definition masked_view :: "tracked_handle set \<Rightarrow> 'c store \<Rightarrow> (u64 \<Rightarrow> body_reader timed option)
    \<times> (u64 \<Rightarrow> body_writer timed option) \<times> (u64 \<Rightarrow> nat timed option)" where
  "masked_view T s =
     (\<lambda>k. if TrackedReader k \<in> T then None else slot_get k (readers s),
      \<lambda>k. if TrackedWriter k \<in> T then None else slot_get k (writers s),
      \<lambda>k. if TrackedReqHead k \<in> T then None else slot_get k (request_heads s))"

lemma rollback_masked: "masked_view T (rollback ops t s) = masked_view (insert t T) s"
  by (cases t) (auto simp: masked_view_def fun_eq_iff cancel_reader_def finish_body_def slot_remove_def
      slot_get_def split: option.splits)

lemma fold_rollback_masked:
  "masked_view T (fold (rollback ops) ts s) = masked_view (set ts \<union> T) s"
proof (induction ts arbitrary: s T)
  case Nil
  then show ?case by simp
next
  case (Cons t ts)
  have "set (t # ts) \<union> T = insert t (set ts \<union> T)" by simp
  with Cons show ?case by (simp add: rollback_masked)
qed

lemma fold_rollback_view: "handle_view (fold (rollback ops) ts s) = masked_view (set ts) s"
  using fold_rollback_masked [of "{}" ops ts s] by (simp add: masked_view_def handle_view_def)

definition guard_room :: "slot_lib \<Rightarrow> nat \<Rightarrow> 'c store \<Rightarrow> bool" where
  "guard_room L n s \<longleftrightarrow> slot_inv L (readers s) \<and> slot_inv L (writers s) \<and> slot_inv L (request_heads s)
     \<and> length (history (readers s)) + n \<le> slot_version_limit
     \<and> length (history (writers s)) + n \<le> slot_version_limit
     \<and> length (history (request_heads s)) + n \<le> slot_version_limit"

lemma guard_room_mono: "guard_room L (Suc n) s \<Longrightarrow> guard_room L n s"
  by (simp add: guard_room_def)

lemma guard_room_on_mem [simp]: "guard_room L n (on_mem f s) = guard_room L n s"
  by (simp add: guard_room_def)

lemma masked_view_on_mem [simp]: "masked_view T (on_mem f s) = masked_view T s"
  by (simp add: masked_view_def fun_eq_iff)

text \<open>One guarded allocation changes nothing outside the handles the guard tracks.\<close>

lemma insert_room:
  assumes "slot_inv L reg" and "length (history reg) + Suc n \<le> slot_version_limit"
  shows "slot_inv L (snd (slot_insert L v reg))"
    and "length (history (snd (slot_insert L v reg))) + n \<le> slot_version_limit"
    and "slot_get (next_key L (history reg)) reg = None"
proof -
  have room: "slot_room reg" using assms(2) by (simp add: slot_room_def)
  show "slot_inv L (snd (slot_insert L v reg))" using assms(1) room by (rule slot_inv_insert)
  show "slot_get (next_key L (history reg)) reg = None" using assms(1) room by (rule slot_fresh)
  show "length (history (snd (slot_insert L v reg))) + n \<le> slot_version_limit"
    using assms(2) by (simp add: slot_insert_def Let_def)
qed

lemma guard_step_view:
  assumes "guard_room L (Suc n) s" and "guard_step L ops a (g, s) = (r, g', s')"
  shows "masked_view (set (tracked g')) s' = masked_view (set (tracked g)) s
     \<and> guard_room L n s' \<and> committed g' = committed g"
proof (cases a)
  case (GuardReader x)
  with assms insert_room [of L "readers s" n] show ?thesis
    by (auto simp: guard_insert_reader_def insert_reader_def insert_checked_cases guard_room_def
        masked_view_def fun_eq_iff slot_get_insert split: if_splits)
next
  case (GuardWriter x)
  with assms insert_room [of L "writers s" n] show ?thesis
    by (auto simp: guard_insert_writer_def insert_writer_def insert_checked_cases guard_room_def
        masked_view_def fun_eq_iff slot_get_insert split: if_splits)
next
  case (GuardReqHead x)
  with assms insert_room [of L "request_heads s" n] show ?thesis
    by (auto simp: guard_allocate_req_handle_def allocate_req_handle_def insert_checked_cases
        guard_room_def masked_view_def fun_eq_iff slot_get_insert split: if_splits)
qed

lemma guard_run_view:
  assumes "guard_room L (length as) s" and "guard_run L ops as (g, s) = (r, g', s')"
  shows "masked_view (set (tracked g')) s' = masked_view (set (tracked g)) s
     \<and> committed g' = committed g"
  using assms
proof (induction as arbitrary: g s r g' s')
  case Nil
  then show ?case by simp
next
  case (Cons a as)
  obtain r1 g1 s1 where st: "guard_step L ops a (g, s) = (r1, g1, s1)"
    by (cases "guard_step L ops a (g, s)") auto
  have s1: "masked_view (set (tracked g1)) s1 = masked_view (set (tracked g)) s"
    "guard_room L (length as) s1" "committed g1 = committed g"
    using guard_step_view [OF _ st, of "length as"] Cons.prems(1) by simp_all
  show ?case
  proof (cases r1)
    case (Inl e)
    with st s1 Cons.prems(2) show ?thesis by simp
  next
    case (Inr h)
    obtain r2 g2 s2 where rn: "guard_run L ops as (g1, s1) = (r2, g2, s2)"
      by (cases "guard_run L ops as (g1, s1)") auto
    have "g' = g2 \<and> s' = s2"
      using Cons.prems(2) st Inr rn by (auto split: sum.splits)
    then show ?thesis using Cons.IH [OF s1(2) rn] s1 by simp
  qed
qed

end
