(* ===== verification/Handle_Props.thy ===== *)
theory Handle_Props
  imports Handle_Guard
begin

text \<open>
  The properties of the handle store and of the body channels, each with a concrete instance of
  its hypotheses.  \<open>demo_store\<close> is a store over a heap whose channels are the reference FIFO.
\<close>

definition demo_heap :: "fifo heap" where
  "demo_heap = \<lparr>cells = (\<lambda>_. \<lparr>chan = fifo_new 1, rx_refs = 0, rx_locked = False,
     terminal_error = None, cancel_calls = 0\<rparr>), next_cell = 0, clock = 0\<rparr>"

definition demo_config :: store_config where
  "demo_config = \<lparr>channel_capacity = 4, max_chunk_size = 2, cfg_drain_timeout = 10,
     max_handles = 2, ttl = 5\<rparr>"

definition demo_store :: "fifo store" where
  "demo_store = store_new demo_config demo_heap"

lemmas demo_defs = demo_store_def demo_config_def demo_heap_def store_new_def

text \<open>A stream on cell 0: one reader, one live sender, nothing queued.\<close>

definition demo_stream :: "nat \<Rightarrow> core_error option \<Rightarrow> fifo store" where
  "demo_stream n te = demo_store\<lparr>
     readers := \<lparr>slots = [(1, \<lparr>timed_value = \<lparr>rd_cell = 0, rd_pending = None\<rparr>, last_accessed = 0\<rparr>)],
       history = [SlotInsert]\<rparr>,
     mem := demo_heap\<lparr>cells := (cells demo_heap)(0 := \<lparr>chan = (fifo_new 4)\<lparr>senders := n\<rparr>,
       rx_refs = 1, rx_locked = False, terminal_error = te, cancel_calls = 0\<rparr>)\<rparr>\<rparr>"

lemma demo_stream_at: "stream_at (\<lambda>f. f) 1 0 4 n te [] (demo_stream n te)"
  by (simp add: stream_at_def demo_stream_def demo_defs slot_get_def fifo_new_def)

section \<open>Streaming\<close>

lemma slot_insert_handle:
  "insert_checked L t v mx reg = (Inr h, reg') \<Longrightarrow>
     slot_get h reg' = Some (timed_new t v) \<and> h = next_key L (history reg)"
  by (auto simp: insert_checked_cases slot_get_insert split: if_splits)

lemma fresh_stream:
  assumes "mpsc ops view" and cap: "0 < channel_capacity (config s)"
    and mk: "store_make_body_channel ops s = Some (w, r, s0)"
    and ir: "insert_reader L ops r s0 = (Inr hr, s1)"
    and iw: "insert_writer L ops w s1 = (Inr hw, s2)"
  shows "stream_at view hr (next_cell (mem s)) (channel_capacity (config s)) 1 None [] s2
     \<and> slot_get hw (writers s2) = Some (timed_new (now s1) w)
     \<and> w = \<lparr>wr_cell = next_cell (mem s), drain_timeout = cfg_drain_timeout (config s), wr_sending = None\<rparr>
     \<and> config s2 = config s"
proof -
  obtain c where c: "mp_channel ops (channel_capacity (config s)) = Some c"
      "view c = fifo_new (channel_capacity (config s))"
    using mpsc.channel_law [OF assms(1) cap] by auto
  have s0: "s0 = s\<lparr>mem := (mem s)\<lparr>cells := (cells (mem s))(next_cell (mem s) :=
       \<lparr>chan = c, rx_refs = 1, rx_locked = False, terminal_error = None, cancel_calls = 0\<rparr>),
       next_cell := Suc (next_cell (mem s))\<rparr>\<rparr>"
    and w: "w = \<lparr>wr_cell = next_cell (mem s), drain_timeout = cfg_drain_timeout (config s), wr_sending = None\<rparr>"
    and r: "r = \<lparr>rd_cell = next_cell (mem s), rd_pending = None\<rparr>"
    using mk c by (auto simp: store_make_body_channel_def make_body_channel_with_def Let_def)
  obtain reg where reg: "insert_checked L (now s0) r (max_handles (config s0)) (readers s0) = (Inr hr, reg)"
    and s1: "s1 = s0\<lparr>readers := reg\<rparr>"
    using ir by (auto simp: insert_reader_def split: prod.splits sum.splits)
  obtain reg' where reg': "insert_checked L (now s1) w (max_handles (config s1)) (writers s1) = (Inr hw, reg')"
    and s2: "s2 = s1\<lparr>writers := reg'\<rparr>"
    using iw by (auto simp: insert_writer_def split: prod.splits sum.splits)
  show ?thesis
    using slot_insert_handle [OF reg, THEN conjunct1] slot_insert_handle [OF reg', THEN conjunct1]
      s0 s1 s2 w r c(2)
    by (simp add: stream_at_def timed_new_def fifo_new_def)
qed

text \<open>Property C11.  End of stream: a reader whose producers are gone first delivers every queued
  chunk in order; the next read returns the terminal error if the producer aborted and a clean end
  otherwise; and every later read on that handle is refused as an unknown handle, so the terminal
  error is reported exactly once.\<close>

theorem stream_drains_then_ends_once:
  assumes "mpsc ops view" and "stream_at view h i cap 0 te q s"
  shows "\<exists>s1 s2. read_n ops (length q) h s = Some (q, s1)
     \<and> next_chunk ops [] env h s1 = Some (case te of None \<Rightarrow> Inr None | Some e \<Rightarrow> Inl e, s2)
     \<and> next_chunk ops pre env' h s2 = Some (Inl (invalid_handle h), s2)
     \<and> try_next_chunk ops h s2 = (Inl (invalid_handle h), s2)"
proof -
  obtain s1 where "read_n ops (length q) h s = Some (q, s1)" and st: "stream_at view h i cap 0 te [] s1"
    using mpsc.read_all [OF assms] by auto
  moreover obtain s2 where
    "next_chunk ops [] env h s1 = Some (case te of None \<Rightarrow> Inr None | Some e \<Rightarrow> Inl e, s2)"
    and g: "slot_get h (readers s2) = None"
    using mpsc.next_chunk_eof [OF assms(1) st, of env] by auto
  moreover have "next_chunk ops pre env' h s2 = Some (Inl (invalid_handle h), s2)"
    "try_next_chunk ops h s2 = (Inl (invalid_handle h), s2)"
    using g by (simp_all add: next_chunk_def next_chunk_begin_def try_next_chunk_def)
  ultimately show ?thesis by blast
qed

theorem stream_drains_then_ends_once_witness:
  "\<exists>s1 s2. read_n fifo_ops 0 1 (demo_stream 0 (Some cancelled)) = Some ([], s1)
     \<and> next_chunk fifo_ops [] [] 1 s1 = Some (Inl cancelled, s2)
     \<and> next_chunk fifo_ops [] [] 1 s2 = Some (Inl (invalid_handle 1), s2)"
  using stream_drains_then_ends_once [OF fifo.mpsc_axioms demo_stream_at [of 0 "Some cancelled"],
      of "[]" "[]" "[]"] by auto

section \<open>Cancellation\<close>

text \<open>A read that is already waiting when its handle is cancelled returns at its next
  poll: with the end of the stream, or with the terminal error if one was set; the handle is gone.\<close>

theorem cancel_wakes_waiting_read:
  assumes "mpsc ops view" and "stream_at view h i cap (Suc n) te [] s"
  shows "\<exists>s'. next_chunk ops [] (cancel_reader ops h # env) h s
       = Some (case te of None \<Rightarrow> Inr None | Some e \<Rightarrow> Inl e, s')
     \<and> slot_get h (readers s') = None"
proof -
  obtain e where e: "slot_get h (readers s) = Some e"
    "timed_value e = \<lparr>rd_cell = i, rd_pending = None\<rparr>"
    using assms(2) by (auto simp: stream_at_def)
  define s1 where
    "s1 = on_mem (rx_clone i) (s\<lparr>readers := slot_upd h (touch (now s)) (readers s)\<rparr>)"
  have c: "queue (view (chan (cells (mem s1) i))) = []" "senders (view (chan (cells (mem s1) i))) \<noteq> 0"
    "\<not> rx_locked (cells (mem s1) i)" "terminal_error (cells (mem s1) i) = te"
    using assms(2) by (simp_all add: s1_def stream_at_def)
  let ?t = "cancel_calls (cells (mem s1) i)"
  obtain ch where p1: "recv_poll ops i (None, False) (mem s1) = (Pending, (Some ?t, True),
         upd_cell i (\<lambda>c. c\<lparr>chan := ch, rx_locked := True\<rparr>) (mem s1))"
    using mpsc.recv_poll_empty [OF assms(1), of "mem s1" i] c by auto
  define s2 where "s2 = s1\<lparr>mem := upd_cell i (\<lambda>c. c\<lparr>chan := ch, rx_locked := True\<rparr>) (mem s1)\<rparr>"
  define s3 where "s3 = cancel_reader ops h s2"
  have g2: "slot_get h (readers s2) = Some (touch (now s) e)" using e by (simp add: s2_def s1_def)
  have g3: "slot_get h (readers s3) = None"
    and c3: "cancel_calls (cells (mem s3) i) = Suc ?t" "terminal_error (cells (mem s3) i) = te"
    using g2 e c(4)
    by (auto simp: s3_def s2_def cancel_reader_def slot_remove_def touch_def reader_drop_def
        slot_get_def notify_cancel_def)
  have p2: "recv_poll ops i (Some ?t, True) (mem s3) = (Ready None, (Some ?t, False),
      upd_cell i (\<lambda>c. c\<lparr>rx_locked := False\<rparr>) (mem s3))"
    using c3 by (simp add: recv_poll_def mpsc.wakes_law [OF assms(1)])
  have l1: "lift_recv ops i (None, False) s1 = (Pending, (Some ?t, True), s2)"
    using p1 by (simp add: lift_recv_def s2_def)
  have l2: "lift_recv ops i (Some ?t, True) (cancel_reader ops h s2) = (Ready None, (Some ?t, False),
      s3\<lparr>mem := upd_cell i (\<lambda>c. c\<lparr>rx_locked := False\<rparr>) (mem s3)\<rparr>)"
    using p2 by (simp add: lift_recv_def s3_def)
  have "next_chunk ops [] (cancel_reader ops h # env) h s = Some (eof_cleanup ops h i
      (on_mem (rx_drop ops i) (s3\<lparr>mem := upd_cell i (\<lambda>c. c\<lparr>rx_locked := False\<rparr>) (mem s3)\<rparr>)))"
    using e l1 l2 by (simp add: next_chunk_def next_chunk_begin_def Let_def s1_def [symmetric] poll_simps)
  then show ?thesis
    using g3 c3 by (auto simp: eof_cleanup_def release_reader_def slot_remove_def
        take_terminal_error_def split: option.splits)
qed

theorem cancel_wakes_waiting_read_witness:
  "\<exists>s'. next_chunk fifo_ops [] [cancel_reader fifo_ops 1] 1 (demo_stream 1 None) = Some (Inr None, s')
     \<and> slot_get 1 (readers s') = None"
  using cancel_wakes_waiting_read [OF fifo.mpsc_axioms, of 1 0 4 0 None "demo_stream 1 None" "[]"]
    demo_stream_at [of 1 None] by simp

text \<open>A read whose receive finds an empty channel stays pending as long as nothing touches its
  cell.\<close>

lemma idle_read_pending:
  assumes m: "mpsc ops view"
    and "\<forall>e \<in> set env. \<forall>s. cells (mem (e s)) i = cells (mem s) i"
    and "queue (view (chan (cells (mem s) i))) = []" and "senders (view (chan (cells (mem s) i))) \<noteq> 0"
    and "fut = (None, False) \<and> \<not> rx_locked (cells (mem s) i)
         \<or> fut = (Some (cancel_calls (cells (mem s) i)), True)"
  shows "fst (await_fut (lift_recv ops i) env fut s) = None"
  using assms(2-)
proof (induction env arbitrary: s fut)
  case Nil
  then show ?case
    using mpsc.try_recv_law [OF m, of "chan (cells (mem s) i)"]
    by (auto simp: lift_recv_def recv_poll_def Let_def mpsc.wakes_law [OF m] fifo_try_recv_def
        split: prod.splits try_recv_result.splits poll.splits)
next
  case (Cons e es)
  obtain r ch where rc: "mp_try_recv ops (chan (cells (mem s) i)) = (r, ch)" by fastforce
  have r: "r = RecvEmpty" and v: "view ch = view (chan (cells (mem s) i))"
    using mpsc.try_recv_law [OF m, of "chan (cells (mem s) i)"] Cons.prems(2,3) rc
    by (simp_all add: fifo_try_recv_def)
  let ?t = "cancel_calls (cells (mem s) i)"
  define s1 where "s1 = s\<lparr>mem := upd_cell i (\<lambda>c. c\<lparr>chan := ch, rx_locked := True\<rparr>) (mem s)\<rparr>"
  have "lift_recv ops i fut s = (Pending, (Some ?t, True), s1)"
    using Cons.prems(4) rc r
    by (auto simp: lift_recv_def recv_poll_def Let_def mpsc.wakes_law [OF m] s1_def)
  moreover have "cells (mem (e s1)) i = cells (mem s1) i" using Cons.prems(1) by simp
  then have "fst (await_fut (lift_recv ops i) es (Some ?t, True) (e s1)) = None"
    using Cons.prems v by (intro Cons.IH) (auto simp: s1_def)
  ultimately show ?case by simp
qed

text \<open>A cancellation that falls between the registry lookup of a read and the first
  poll of its receive is lost: the handle is gone, but the read neither returns end of stream nor an
  error; it stays pending for as long as no other step touches its channel.\<close>

theorem cancel_before_first_poll_is_lost:
  assumes "mpsc ops view" and "stream_at view h i cap (Suc n) te [] s"
    and "\<forall>e \<in> set env. \<forall>s. cells (mem (e s)) i = cells (mem s) i"
  shows "next_chunk ops [cancel_reader ops h] env h s = None"
proof -
  obtain e where e: "slot_get h (readers s) = Some e"
    "timed_value e = \<lparr>rd_cell = i, rd_pending = None\<rparr>"
    using assms(2) by (auto simp: stream_at_def)
  define s1 where
    "s1 = on_mem (rx_clone i) (s\<lparr>readers := slot_upd h (touch (now s)) (readers s)\<rparr>)"
  define s2 where "s2 = cancel_reader ops h s1"
  have "slot_get h (readers s1) = Some (touch (now s) e)" using e by (simp add: s1_def)
  then have c2: "chan (cells (mem s2) i) = chan (cells (mem s) i)" "\<not> rx_locked (cells (mem s2) i)"
    using assms(2) e
    by (auto simp: s2_def s1_def cancel_reader_def slot_remove_def touch_def reader_drop_def
        slot_get_def heap_op_defs stream_at_def)
  have "fst (await_fut (lift_recv ops i) env (None, False) s2) = None"
    using assms(2) c2 by (intro idle_read_pending [OF assms(1) assms(3)]) (auto simp: stream_at_def)
  then show ?thesis
    using e by (auto simp: next_chunk_def next_chunk_begin_def Let_def s1_def [symmetric] s2_def
        split: prod.splits)
qed

theorem cancel_before_first_poll_is_lost_witness:
  "next_chunk fifo_ops [cancel_reader fifo_ops 1] [\<lambda>s. s] 1 (demo_stream 1 None) = None"
  using cancel_before_first_poll_is_lost [OF fifo.mpsc_axioms, of 1 0 4 0 None "demo_stream 1 None"
      "[\<lambda>s. s]"] demo_stream_at [of 1 None] by simp

section \<open>Registries\<close>

text \<open>In every reachable store, whatever operations ran and however reads, sends and
  sweeps interleaved, each of the five registries holds at most \<open>max_handles\<close> entries and the
  configuration is the one the store was created with.\<close>

theorem registries_stay_bounded:
  assumes "store_reachable L ops cfg s"
  shows "config s = cfg \<and> slot_len (readers s) \<le> max_handles cfg \<and> slot_len (writers s) \<le> max_handles cfg
     \<and> slot_len (sessions s) \<le> max_handles cfg \<and> slot_len (request_heads s) \<le> max_handles cfg
     \<and> slot_len (fetch_cancels s) \<le> max_handles cfg"
  using store_reachable_ok [OF assms] by (simp add: store_ok_def reg_ok_def)

theorem registries_stay_bounded_witness:
  "\<exists>s :: fifo store. store_reachable counting_lib fifo_ops demo_config s \<and> slot_len (sessions s) = 1
     \<and> slot_len (sessions s) \<le> max_handles demo_config"
proof -
  let ?s = "snd (insert_session counting_lib 7 demo_store)"
  have "store_reachable counting_lib fifo_ops demo_config ?s"
    unfolding demo_store_def by (rule reach_step [OF reach_new step_insert_session])
  moreover have "slot_len (sessions ?s) = 1"
    by (simp add: insert_session_def insert_checked_cases demo_defs)
  ultimately show ?thesis using registries_stay_bounded by blast
qed

text \<open>A handle issued by a successful insertion was unused, resolves to the inserted
  reader stamped with the current time, and leaves every other handle untouched; a full registry
  refuses the insertion with an internal error and keeps its entries.\<close>

theorem insert_reader_issues_fresh_handle:
  assumes "slot_inv L (readers s)" and "slot_room (readers s)"
    and "insert_reader L ops r s = (res, s')"
  shows "case res of
      Inl e \<Rightarrow> max_handles (config s) \<le> slot_len (readers s) \<and> readers s' = readers s
         \<and> e = internal ''handle registry at capacity''
    | Inr h \<Rightarrow> slot_len (readers s) < max_handles (config s) \<and> slot_get h (readers s) = None
         \<and> slot_get h (readers s') = Some (timed_new (now s) r)
         \<and> (\<forall>k. k \<noteq> h \<longrightarrow> slot_get k (readers s') = slot_get k (readers s))
         \<and> slot_inv L (readers s')"
proof -
  have keep: "k \<noteq> next_key L (history (readers s)) \<Longrightarrow>
      slot_get k (snd (slot_insert L v (readers s))) = slot_get k (readers s)" for k v
    by (simp add: slot_get_insert)
  show ?thesis
    using assms slotmap.ins_then_get [OF assms(1,2)] slotmap.ins_fresh [OF assms(1,2)] keep
      slotmap.ins_invar [OF assms(1,2)]
    by (auto simp: insert_reader_def insert_checked_cases slot_insert_def Let_def split: if_splits)
qed

theorem insert_reader_issues_fresh_handle_witness:
  "slot_inv counting_lib (readers demo_store) \<and>
   (\<exists>s'. insert_reader counting_lib fifo_ops \<lparr>rd_cell = 0, rd_pending = None\<rparr> demo_store = (Inr 1, s')
      \<and> slot_get 1 (readers s') = Some (timed_new 0 \<lparr>rd_cell = 0, rd_pending = None\<rparr>))"
proof -
  have i: "slot_inv counting_lib (readers demo_store)" "slot_room (readers demo_store)"
    by (simp_all add: demo_defs slot_inv_new counting_lib_ok slot_room_def slot_version_limit_def)
  obtain s' where ins: "insert_reader counting_lib fifo_ops \<lparr>rd_cell = 0, rd_pending = None\<rparr> demo_store
      = (Inr 1, s')"
    by (simp add: insert_reader_def insert_checked_cases demo_defs)
  show ?thesis
    using insert_reader_issues_fresh_handle [OF i ins] i ins by (auto simp: demo_defs)
qed

text \<open>Property C5.  Guarded allocation is all or nothing: if a sequence of guarded insertions is
  abandoned (at the first refusal or later) and its guard is dropped without a commit, every lookup
  of a reader, writer or request head gives what it gave before the sequence; a committed guard
  removes nothing.\<close>

theorem guard_drop_rolls_back:
  assumes "guard_room L (length as) s" and "guard_run L ops as (guard_new, s) = (res, g, s')"
  shows "handle_view (guard_drop ops g s') = handle_view s
     \<and> guard_drop ops (guard_commit g) s' = s'"
proof -
  have "masked_view (set (tracked g)) s' = masked_view {} s" "\<not> committed g"
    using guard_run_view [OF assms] by (simp_all add: guard_new_def)
  moreover have "masked_view {} s = handle_view s"
    by (simp add: masked_view_def handle_view_def)
  ultimately show ?thesis
    by (simp add: guard_drop_def guard_commit_def fold_rollback_view)
qed

theorem guard_drop_rolls_back_witness:
  "\<exists>g s'. guard_run counting_lib fifo_ops [GuardReqHead 5, GuardReqHead 6, GuardReqHead 7]
        (guard_new, demo_store) = (Inl (internal ''handle registry at capacity''), g, s')
     \<and> tracked g = [TrackedReqHead 1, TrackedReqHead 2]
     \<and> handle_view (guard_drop fifo_ops g s') = handle_view demo_store"
proof -
  let ?ops = "[GuardReqHead 5, GuardReqHead 6, GuardReqHead 7]"
  have room: "guard_room counting_lib (length ?ops) demo_store"
    by (simp add: guard_room_def demo_defs slot_inv_new counting_lib_ok slot_version_limit_def)
  obtain g s' where run: "guard_run counting_lib fifo_ops ?ops (guard_new, demo_store)
      = (Inl (internal ''handle registry at capacity''), g, s')"
    and t: "tracked g = [TrackedReqHead 1, TrackedReqHead 2]"
    by (simp add: guard_allocate_req_handle_def allocate_req_handle_def insert_checked_cases
        demo_defs guard_new_def slot_insert_def slot_len_def Let_def)
  show ?thesis using guard_drop_rolls_back [OF room run] run t by blast
qed

text \<open>A sweep with time-to-live \<open>lim\<close> removes from each registry exactly the entries
  last used more than \<open>lim\<close> ago and keeps the others unchanged; among pending readers it keeps
  exactly those created less than \<open>lim\<close> ago.\<close>

theorem sweep_removes_exactly_expired:
  assumes "distinct (keys (slots (readers s)))" and "distinct (keys (slots (writers s)))"
    and "distinct (keys (slots (sessions s)))" and "distinct (keys (slots (request_heads s)))"
    and "distinct (keys (slots (fetch_cancels s)))" and "distinct (keys (pending_readers s))"
  shows "slot_get k (readers (sweep L ops lim s)) = survives (now s) lim (slot_get k (readers s))
     \<and> slot_get k (writers (sweep L ops lim s)) = survives (now s) lim (slot_get k (writers s))
     \<and> slot_get k (sessions (sweep L ops lim s)) = survives (now s) lim (slot_get k (sessions s))
     \<and> slot_get k (request_heads (sweep L ops lim s)) = survives (now s) lim (slot_get k (request_heads s))
     \<and> slot_get k (fetch_cancels (sweep L ops lim s)) = survives (now s) lim (slot_get k (fetch_cancels s))
     \<and> map_of (pending_readers (sweep L ops lim s)) k
         = (case map_of (pending_readers s) k of None \<Rightarrow> None
            | Some e \<Rightarrow> if now s - created e < lim then Some e else None)"
  using assms by (simp add: sweep_fields sweep_registry_get sweep_readers_get map_of_filter_keep)

theorem sweep_removes_exactly_expired_witness:
  "slot_get 1 (readers (sweep counting_lib fifo_ops 3 (on_mem (\<lambda>H. H\<lparr>clock := 4\<rparr>) (demo_stream 1 None)))) = None
   \<and> slot_get 1 (readers (sweep counting_lib fifo_ops 4 (on_mem (\<lambda>H. H\<lparr>clock := 4\<rparr>) (demo_stream 1 None)))) \<noteq> None"
  using sweep_removes_exactly_expired [of "on_mem (\<lambda>H. H\<lparr>clock := 4\<rparr>) (demo_stream 1 None)" 1
      counting_lib fifo_ops 3]
    sweep_removes_exactly_expired [of "on_mem (\<lambda>H. H\<lparr>clock := 4\<rparr>) (demo_stream 1 None)" 1
      counting_lib fifo_ops 4]
  by (simp add: demo_stream_def demo_defs survives_def is_expired_def slot_get_def)

text \<open>Handle uniqueness ends at compaction: when a sweep empties the reader registry of
  a store whose backing capacity exceeds 128, the next reader is issued the very handle the first
  reader of the store was issued, so a stale handle kept by the client resolves to a new reader.\<close>

theorem compaction_reissues_first_handle:
  assumes "readers s0 = slot_new" and "insert_reader L ops r0 s0 = (Inr h, s1)"
    and "slots (readers s) \<noteq> []"
    and "list_all (\<lambda>(k, e). is_expired (now s) lim e) (slots (readers s))"
    and "128 < slot_capacity L (history (remove_keys (keys (slots (readers s))) (readers s)))"
    and "0 < max_handles (config s)"
    and "insert_reader L ops r (sweep L ops lim s) = (res, s')"
  shows "res = Inr h \<and> slot_get h (readers s') = Some (timed_new (now (sweep L ops lim s)) r)"
proof -
  have ex: "expired_entries (now s) lim (readers s) = slots (readers s)"
    using assms(4) by (simp add: expired_entries_def list_all_iff)
  let ?m = "remove_keys (keys (slots (readers s))) (readers s)"
  have none: "slot_get k ?m = None" for k
    using map_of_None_keys [of "slots (readers s)" k]
    by (auto simp: slot_get_remove_keys) (simp add: slot_get_def)
  have "slots ?m = []"
  proof (cases "slots ?m")
    case (Cons p ps)
    then show ?thesis using none [of "fst p"] by (simp add: slot_get_def)
  qed
  then have "readers (sweep L ops lim s) = slot_new"
    using assms(3,5) ex by (simp add: sweep_fields sweep_readers_def Let_def compact_def slot_len_def)
  moreover have "config (sweep L ops lim s) = config s"
    by (simp add: sweep_def Let_def sweep_pending_readers_def sweep_readers_def split_beta)
  moreover have "h = next_key L []"
    using assms(1,2) by (auto simp: insert_reader_def insert_checked_cases split: if_splits)
  ultimately show ?thesis
    using assms(6,7) by (auto simp: insert_reader_def insert_checked_cases slot_get_insert)
qed

text \<open>A key source whose maps allocate room for 256 slots at once.\<close>

definition roomy_lib :: slot_lib where
  "roomy_lib = counting_lib\<lparr>slot_capacity := (\<lambda>h. if inserts h = 0 then 0 else 256)\<rparr>"

theorem compaction_reissues_first_handle_witness:
  "fst (insert_reader roomy_lib fifo_ops \<lparr>rd_cell = 0, rd_pending = None\<rparr> demo_store) = Inr 1
   \<and> fst (insert_reader roomy_lib fifo_ops \<lparr>rd_cell = 9, rd_pending = None\<rparr>
        (sweep roomy_lib fifo_ops 3 (on_mem (\<lambda>H. H\<lparr>clock := 4\<rparr>) (demo_stream 1 None)))) = Inr 1"
proof -
  let ?s = "on_mem (\<lambda>H. H\<lparr>clock := 4\<rparr>) (demo_stream 1 None)"
  obtain s1 where a: "insert_reader roomy_lib fifo_ops \<lparr>rd_cell = 0, rd_pending = None\<rparr> demo_store = (Inr 1, s1)"
    by (simp add: insert_reader_def insert_checked_cases demo_defs roomy_lib_def counting_lib_def)
  obtain res s' where b: "insert_reader roomy_lib fifo_ops \<lparr>rd_cell = 9, rd_pending = None\<rparr>
        (sweep roomy_lib fifo_ops 3 ?s) = (res, s')" by fastforce
  have "res = Inr 1"
    using compaction_reissues_first_handle [OF _ a _ _ _ _ b]
    by (simp add: demo_stream_def demo_defs is_expired_def roomy_lib_def counting_lib_def
        remove_keys_def slot_remove_def slot_get_def slot_new_def)
  then show ?thesis using a b by simp
qed

text \<open>A stored pending reader can be claimed exactly once: the claim returns the reader
  stored last for that writer handle, a second claim returns nothing, and other handles' pending
  readers are not affected.\<close>

lemma pending_reader_claimed_once:
  "(let s1 = store_pending_reader ops h r s; (x, s2) = claim_pending_reader h s1
    in x = Some r \<and> fst (claim_pending_reader h s2) = None
       \<and> (k \<noteq> h \<longrightarrow> map_of (pending_readers s2) k = map_of (pending_readers s) k))"
  by (simp add: store_pending_reader_def claim_pending_reader_def Let_def split: option.splits)

end
