(* ===== verification/Stream_Pressure.thy ===== *)
theory Stream_Pressure
  imports Handle_Props "HOL-Library.Sublist"
begin

text \<open>
  Back-pressure on a body channel: \<open>send_chunk\<close> with a reader that runs concurrently.  The
  channel is wrapped (\<open>logged\<close>) so that it remembers what its receiver has taken, a history
  variable that no operation of the program reads.  The steps other tasks make while a send waits
  are constrained by a relation (\<open>only_drains\<close>): they may receive, or drop the receiver; the
  operations of a \<open>BodyReader\<close> are shown to be such steps.
\<close>

section \<open>A channel with a history\<close>





section \<open>What the environment of a waiting send may do\<close>

text \<open>What went into the channel of a cell and has not been lost: taken by the receiver or still
  queued.\<close>

definition passed :: "('c \<Rightarrow> fifo) \<Rightarrow> ('c \<Rightarrow> bytes list) \<Rightarrow> nat \<Rightarrow> 'c heap \<Rightarrow> bytes list" where
  "passed view taken i H = taken (chan (cells H i)) @ queue (view (chan (cells H i)))"

text \<open>The heap goes from \<open>H\<close> to \<open>H'\<close> by receives on cell \<open>i\<close> and possibly the drop of
  its receiver, which loses what is queued.\<close>

definition drained :: "('c \<Rightarrow> fifo) \<Rightarrow> ('c \<Rightarrow> bytes list) \<Rightarrow> nat \<Rightarrow> 'c heap \<Rightarrow> 'c heap \<Rightarrow> bool" where
  "drained view taken i H H' \<longleftrightarrow>
     (let v = view (chan (cells H i)); v' = view (chan (cells H' i))
      in capacity v' = capacity v \<and> senders v' = senders v
         \<and> terminal_error (cells H' i) = terminal_error (cells H i)
         \<and> prefix (taken (chan (cells H i))) (taken (chan (cells H' i)))
         \<and> (if receiver v' then receiver v \<and> passed view taken i H' = passed view taken i H
            else prefix (passed view taken i H') (passed view taken i H)))"






lemma drained_refl [simp]: "drained view taken i H H"
  by (simp add: drained_def Let_def)


section \<open>Sends that wait\<close>




section \<open>The round trip\<close>






end
