(* ===== verification/Conn_Admission.thy ===== *)
theory Conn_Admission
  imports Iroh_Prelude
begin

text \<open>
  \<^verbatim>\<open>src/crates/iroh-http-core/src/http/server/lifecycle.rs\<close>: runtime-wide connection admission
  and the three Drop-owned trackers.  Peers (\<open>iroh::PublicKey\<close>) are their key bytes.  The
  connection callback runs after the lock is released, so \<open>acquire\<close> and the tracker's drop
  return the event still to be delivered.
\<close>

type_synonym public_key = bytes

datatype connection_admission_error = AdmissionTotal | AdmissionPeer

record connection_event =
  event_peer_id :: string
  event_connected :: bool

record connection_admission =
  counts :: "(public_key \<times> nat) list"
  adm_total :: nat
  max_per_peer :: nat
  max_total :: nat
  has_on_event :: bool
  released :: nat

definition admission_new :: "nat \<Rightarrow> nat \<Rightarrow> nat \<Rightarrow> bool \<Rightarrow> connection_admission" where
  "admission_new mpp mt tot cb = \<lparr>counts = [], adm_total = tot, max_per_peer = mpp, max_total = mt,
     has_on_event = cb, released = 0\<rparr>"

record connection_tracker =
  tracker_peer :: public_key
  tracker_peer_id :: string

text \<open>\<open>counts.entry(peer).or_insert(0)\<close> creates the entry before the per-peer check.\<close>

definition acquire :: "public_key \<Rightarrow> string \<Rightarrow> connection_admission
    \<Rightarrow> (connection_admission_error + connection_tracker) \<times> connection_event option \<times> connection_admission" where
  "acquire peer pid a =
     (if max_total a \<le> adm_total a then (Inl AdmissionTotal, None, a)
      else (let count = (case map_of (counts a) peer of None \<Rightarrow> 0 | Some c \<Rightarrow> c);
                a1 = a\<lparr>counts := (case map_of (counts a) peer of None \<Rightarrow> al_put peer 0 (counts a)
                        | Some _ \<Rightarrow> counts a)\<rparr>
            in if max_per_peer a \<le> count then (Inl AdmissionPeer, None, a1)
               else (Inr \<lparr>tracker_peer = peer, tracker_peer_id = pid\<rparr>,
                 if count = 0 \<and> has_on_event a
                   then Some \<lparr>event_peer_id = pid, event_connected = True\<rparr> else None,
                 a1\<lparr>counts := al_put peer (sat_add count 1) (counts a1), adm_total := atomic_inc (adm_total a)\<rparr>)))"

definition tracker_drop :: "connection_tracker \<Rightarrow> connection_admission
    \<Rightarrow> connection_event option \<times> connection_admission" where
  "tracker_drop t a =
     (let (disconnected, cs) = (case map_of (counts a) (tracker_peer t) of
            None \<Rightarrow> (False, counts a)
          | Some c \<Rightarrow> if c - 1 = 0 then (True, al_del (tracker_peer t) (counts a))
                      else (False, al_put (tracker_peer t) (c - 1) (counts a)))
      in (if disconnected \<and> has_on_event a
            then Some \<lparr>event_peer_id = tracker_peer_id t, event_connected = False\<rparr> else None,
          a\<lparr>counts := cs, adm_total := atomic_dec (adm_total a), released := Suc (released a)\<rparr>))"

text \<open>Request and delivery trackers own one unit of a shared counter.\<close>

definition request_tracker_drop :: "nat \<Rightarrow> nat" where
  "request_tracker_drop counter = atomic_dec counter"

text \<open>The flag says whether the drain waiters are notified.\<close>

definition delivery_tracker_drop :: "nat \<Rightarrow> nat \<times> bool" where
  "delivery_tracker_drop in_flight = (atomic_dec in_flight, in_flight = 1)"

section \<open>Counting\<close>

definition count_of :: "public_key \<Rightarrow> connection_admission \<Rightarrow> nat" where
  "count_of p a = (case map_of (counts a) p of None \<Rightarrow> 0 | Some c \<Rightarrow> c)"

text \<open>The admission state agrees with the connections that are alive.\<close>

definition admission_inv :: "connection_admission \<Rightarrow> connection_tracker list \<Rightarrow> bool" where
  "admission_inv a ts \<longleftrightarrow> adm_total a = length ts \<and> length ts \<le> max_total a
     \<and> max_total a \<le> usize_max \<and> 0 < max_per_peer a
     \<and> (\<forall>p. count_of p a = length (filter (\<lambda>t. tracker_peer t = p) ts))
     \<and> (\<forall>p. count_of p a \<le> max_per_peer a)
     \<and> (\<forall>p c. map_of (counts a) p = Some c \<longrightarrow> 0 < c)"

lemma admission_inv_new:
  "0 < mpp \<Longrightarrow> mt \<le> usize_max \<Longrightarrow> admission_inv (admission_new mpp mt 0 cb) []"
  by (simp add: admission_inv_def admission_new_def count_of_def)

lemma filter_peer_le: "length (filter (\<lambda>t. tracker_peer t = p) ts) \<le> length ts"
  by simp

lemma admission_invD:
  assumes "admission_inv a ts"
  shows "count_of p a = length (filter (\<lambda>t. tracker_peer t = p) ts)"
    and "length (filter (\<lambda>t. tracker_peer t = p) ts) \<le> max_per_peer a"
    and "adm_total a = length ts" and "length ts \<le> max_total a"
    and "map_of (counts a) p = Some c \<Longrightarrow> 0 < c"
proof -
  have c: "\<forall>p. count_of p a = length (filter (\<lambda>t. tracker_peer t = p) ts)"
    "\<forall>p. count_of p a \<le> max_per_peer a"
    using assms unfolding admission_inv_def by blast+
  show "count_of p a = length (filter (\<lambda>t. tracker_peer t = p) ts)" using c by blast
  show "length (filter (\<lambda>t. tracker_peer t = p) ts) \<le> max_per_peer a" using c by metis
  show "adm_total a = length ts" "length ts \<le> max_total a" "map_of (counts a) p = Some c \<Longrightarrow> 0 < c"
    using assms unfolding admission_inv_def by blast+
qed

lemma acquire_ok:
  assumes inv: "admission_inv a ts" and ok: "acquire p pid a = (Inr t, ev, a')"
  shows "admission_inv a' (t # ts) \<and> t = \<lparr>tracker_peer = p, tracker_peer_id = pid\<rparr>
     \<and> max_per_peer a' = max_per_peer a \<and> max_total a' = max_total a
     \<and> has_on_event a' = has_on_event a"
proof -
  define c where "c = count_of p a"
  have lim: "adm_total a < max_total a" "c < max_per_peer a"
    and t: "t = \<lparr>tracker_peer = p, tracker_peer_id = pid\<rparr>"
    and tot: "adm_total a' = atomic_inc (adm_total a)" "max_per_peer a' = max_per_peer a"
      "max_total a' = max_total a" "has_on_event a' = has_on_event a"
    and cnt: "\<And>q. map_of (counts a') q = (if q = p then Some (sat_add c 1) else map_of (counts a) q)"
    using ok by (auto simp: acquire_def Let_def c_def count_of_def split: if_splits option.splits)
  have "c \<le> length ts"
    using inv filter_peer_le [of p ts] by (simp add: admission_inv_def c_def)
  then have sc: "sat_add c 1 = Suc c" using lim inv by (simp add: admission_inv_def)
  then have co: "count_of q a' = (if q = p then Suc c else count_of q a)" for q
    using cnt by (simp add: count_of_def)
  have tot': "adm_total a' = Suc (adm_total a)" using tot lim inv by (simp add: admission_inv_def)
  show ?thesis
    unfolding admission_inv_def co tot'
    using inv lim t tot cnt sc by (auto simp: admission_inv_def c_def split: if_splits)
qed

lemma acquire_refused:
  assumes inv: "admission_inv a ts" and ok: "acquire p pid a = (Inl e, ev, a')"
  shows "a' = a \<and> ev = None
     \<and> (case e of AdmissionTotal \<Rightarrow> length ts = max_total a
        | AdmissionPeer \<Rightarrow> length (filter (\<lambda>t. tracker_peer t = p) ts) = max_per_peer a)"
proof (cases "max_total a \<le> adm_total a")
  case True
  then show ?thesis using assms by (auto simp: acquire_def admission_inv_def)
next
  case False
  obtain c where "map_of (counts a) p = Some c" and c: "max_per_peer a \<le> c"
    using False assms by (auto simp: acquire_def Let_def admission_inv_def split: if_splits option.splits)
  moreover have "count_of p a = length (filter (\<lambda>t. tracker_peer t = p) ts)"
    "length (filter (\<lambda>t. tracker_peer t = p) ts) \<le> max_per_peer a"
    using admission_invD(1,2) [OF inv, of p] by simp_all
  ultimately have "length (filter (\<lambda>t. tracker_peer t = p) ts) = max_per_peer a"
    by (simp add: count_of_def)
  then show ?thesis
    using ok False \<open>map_of (counts a) p = Some c\<close> by (auto simp: acquire_def Let_def split: if_splits)
qed

lemma drop_counts:
  assumes inv: "admission_inv a ts" and mem: "t \<in> set ts" and d: "tracker_drop t a = (ev, a')"
  shows "adm_total a' = length ts - 1"
    and "\<And>q. map_of (counts a') q = (if q = tracker_peer t
          then (if count_of q a = 1 then None else Some (count_of q a - 1)) else map_of (counts a) q)"
    and "max_per_peer a' = max_per_peer a" "max_total a' = max_total a"
      "has_on_event a' = has_on_event a" "1 \<le> count_of (tracker_peer t) a"
proof -
  have len: "0 < length ts" using mem by (cases ts) auto
  have "t \<in> set (filter (\<lambda>u. tracker_peer u = tracker_peer t) ts)" using mem by simp
  then have pos: "1 \<le> length (filter (\<lambda>u. tracker_peer u = tracker_peer t) ts)"
    by (cases "filter (\<lambda>u. tracker_peer u = tracker_peer t) ts") auto
  then show c1: "1 \<le> count_of (tracker_peer t) a" using inv by (simp add: admission_inv_def)
  show "adm_total a' = length ts - 1"
    using d inv len by (auto simp: tracker_drop_def Let_def admission_inv_def split: prod.splits)
  show "max_per_peer a' = max_per_peer a" "max_total a' = max_total a" "has_on_event a' = has_on_event a"
    using d by (auto simp: tracker_drop_def Let_def split: prod.splits)
  fix q
  show "map_of (counts a') q = (if q = tracker_peer t
          then (if count_of q a = 1 then None else Some (count_of q a - 1)) else map_of (counts a) q)"
    using d c1 by (auto simp: tracker_drop_def Let_def count_of_def split: prod.splits option.splits if_splits)
qed

lemma length_filter_remove1:
  assumes "t \<in> set ts"
  shows "length (filter P (remove1 t ts)) = length (filter P ts) - (if P t then 1 else 0)"
  using assms
proof (induction ts)
  case Nil
  then show ?case by simp
next
  case (Cons u ts)
  show ?case
  proof (cases "u = t")
    case True
    then show ?thesis by simp
  next
    case False
    have "P t \<Longrightarrow> filter P ts \<noteq> []" using Cons.prems False by (auto simp: filter_empty_conv)
    then have "P t \<Longrightarrow> 0 < length (filter P ts)" by simp
    then show ?thesis using Cons False by (auto simp: Suc_pred)
  qed
qed

lemma drop_ok:
  assumes inv: "admission_inv a ts" and mem: "t \<in> set ts" and d: "tracker_drop t a = (ev, a')"
  shows "admission_inv a' (remove1 t ts)"
proof -
  note dc = drop_counts [OF assms]
  have co: "count_of q a' = (if q = tracker_peer t then count_of q a - 1 else count_of q a)" for q
    using dc(2) [of q] dc(6) by (auto simp: count_of_def split: if_splits option.splits)
  show ?thesis
    unfolding admission_inv_def co dc(1,3,4)
    using inv mem dc(2,6)
    by (auto simp: admission_inv_def length_remove1 length_filter_remove1 split: if_splits
        intro: le_trans [OF diff_le_self])
qed

section \<open>The admission system\<close>

text \<open>Connections come and go in any order; a callback that a thread still has to run after
  releasing the lock is pending, and pending callbacks are delivered in any order.\<close>

record admission_sys =
  adm :: connection_admission
  live :: "connection_tracker list"
  pending_events :: "connection_event list"
  delivered :: "connection_event list"

definition queue_event :: "connection_event option \<Rightarrow> admission_sys \<Rightarrow> admission_sys" where
  "queue_event ev s = (case ev of None \<Rightarrow> s | Some e \<Rightarrow> s\<lparr>pending_events := e # pending_events s\<rparr>)"

inductive adm_step :: "admission_sys \<Rightarrow> admission_sys \<Rightarrow> bool" where
  adm_admit: "acquire p pid (adm s) = (Inr t, ev, a) \<Longrightarrow>
     adm_step s (queue_event ev (s\<lparr>adm := a, live := t # live s\<rparr>))"
| adm_refuse: "acquire p pid (adm s) = (Inl e, ev, a) \<Longrightarrow> adm_step s (queue_event ev (s\<lparr>adm := a\<rparr>))"
| adm_close: "t \<in> set (live s) \<Longrightarrow> tracker_drop t (adm s) = (ev, a) \<Longrightarrow>
     adm_step s (queue_event ev (s\<lparr>adm := a, live := remove1 t (live s)\<rparr>))"
| adm_deliver: "e \<in> set (pending_events s) \<Longrightarrow>
     adm_step s (s\<lparr>pending_events := remove1 e (pending_events s), delivered := e # delivered s\<rparr>)"

definition adm_init :: "nat \<Rightarrow> nat \<Rightarrow> bool \<Rightarrow> admission_sys" where
  "adm_init mpp mt cb = \<lparr>adm = admission_new mpp mt 0 cb, live = [], pending_events = [], delivered = []\<rparr>"

inductive adm_reachable :: "nat \<Rightarrow> nat \<Rightarrow> bool \<Rightarrow> admission_sys \<Rightarrow> bool" for mpp mt cb where
  adm_start: "adm_reachable mpp mt cb (adm_init mpp mt cb)"
| adm_next: "adm_reachable mpp mt cb s \<Longrightarrow> adm_step s s' \<Longrightarrow> adm_reachable mpp mt cb s'"

lemma queue_event_simps [simp]:
  "adm (queue_event ev s) = adm s" "live (queue_event ev s) = live s"
  "delivered (queue_event ev s) = delivered s"
  by (simp_all add: queue_event_def split: option.splits)

lemma adm_step_inv:
  assumes "adm_step s s'" and "admission_inv (adm s) (live s)"
  shows "admission_inv (adm s') (live s') \<and> max_per_peer (adm s') = max_per_peer (adm s)
     \<and> max_total (adm s') = max_total (adm s)"
  using assms
proof (induction rule: adm_step.induct)
  case (adm_admit p pid s t ev a)
  then show ?case using acquire_ok by simp
next
  case (adm_refuse p pid s e ev a)
  then show ?case using acquire_refused [of "adm s" "live s" p pid e ev a] by simp
next
  case (adm_close t s ev a)
  then show ?case using drop_ok drop_counts(3,4) by simp
qed simp

lemma adm_reachable_inv:
  assumes "adm_reachable mpp mt cb s" and "0 < mpp" and "mt \<le> usize_max"
  shows "admission_inv (adm s) (live s) \<and> max_per_peer (adm s) = mpp \<and> max_total (adm s) = mt"
  using assms
proof (induction rule: adm_reachable.induct)
  case adm_start
  then show ?case by (simp add: adm_init_def admission_inv_new) (simp add: admission_new_def)
next
  case (adm_next s s')
  then show ?case using adm_step_inv by metis
qed

section \<open>Properties\<close>

text \<open>Property C4.  Connection limits: in every reachable state of the server, for positive limits,
  at most \<open>max_total\<close> connections are alive and at most \<open>max_per_peer\<close> from any one peer; the
  total and per-peer counters equal the numbers of live connections, and no counter entry is left for
  a peer without connections.\<close>

theorem connection_limits_hold:
  assumes "adm_reachable mpp mt cb s" and "0 < mpp" and "mt \<le> usize_max"
  shows "adm_total (adm s) = length (live s) \<and> length (live s) \<le> mt
     \<and> count_of p (adm s) = length (filter (\<lambda>t. tracker_peer t = p) (live s))
     \<and> length (filter (\<lambda>t. tracker_peer t = p) (live s)) \<le> mpp
     \<and> (map_of (counts (adm s)) p = None \<longleftrightarrow> filter (\<lambda>t. tracker_peer t = p) (live s) = [])"
proof -
  have inv: "admission_inv (adm s) (live s)" and m: "max_per_peer (adm s) = mpp" "max_total (adm s) = mt"
    using adm_reachable_inv [OF assms] by simp_all
  note d = admission_invD(1,2) [OF inv, where p = p] admission_invD(3-5) [OF inv]
  have "map_of (counts (adm s)) p = None \<longleftrightarrow> count_of p (adm s) = 0"
    using d(5) by (auto simp: count_of_def split: option.splits)
  then show ?thesis using d m by simp
qed

theorem connection_limits_hold_witness:
  "\<exists>s. adm_reachable 1 2 True s \<and> length (live s) = 1 \<and> adm_total (adm s) = 1
     \<and> length (filter (\<lambda>t. tracker_peer t = [7]) (live s)) \<le> 1"
proof -
  let ?a = "adm_init 1 2 True"
  obtain t ev a where acq: "acquire [7] ''p'' (adm ?a) = (Inr t, ev, a)"
    by (simp add: acquire_def adm_init_def admission_new_def)
  let ?s = "queue_event ev (?a\<lparr>adm := a, live := t # live ?a\<rparr>)"
  have r: "adm_reachable 1 2 True ?s"
    by (rule adm_next [OF adm_start adm_admit [OF acq]])
  moreover have "length (live ?s) = 1" by (simp add: adm_init_def)
  ultimately show ?thesis
    using connection_limits_hold [OF r, of "[7]"] by (auto simp: usize_max_def)
qed

text \<open>Admission decides exactly by the limits: it refuses with \<open>Total\<close> when the server
  is full, with \<open>Peer\<close> when only the peer is at its bound, changing nothing, and admits otherwise; the
  connected callback is due exactly when this is the peer's first live connection.\<close>

theorem acquire_decision:
  assumes "admission_inv a ts" and "acquire p pid a = (res, ev, a')"
  shows "case res of
      Inl AdmissionTotal \<Rightarrow> length ts = max_total a \<and> a' = a \<and> ev = None
    | Inl AdmissionPeer \<Rightarrow> length ts < max_total a
        \<and> length (filter (\<lambda>t. tracker_peer t = p) ts) = max_per_peer a \<and> a' = a \<and> ev = None
    | Inr t \<Rightarrow> length ts < max_total a \<and> length (filter (\<lambda>t. tracker_peer t = p) ts) < max_per_peer a
        \<and> (ev = (if has_on_event a \<and> filter (\<lambda>t. tracker_peer t = p) ts = []
                 then Some \<lparr>event_peer_id = pid, event_connected = True\<rparr> else None))"
proof -
  have c: "count_of p a = length (filter (\<lambda>t. tracker_peer t = p) ts)" "adm_total a = length ts"
    using assms(1) by (simp_all add: admission_inv_def)
  show ?thesis
  proof (cases res)
    case (Inl e)
    then show ?thesis
      using acquire_refused [of a ts p pid e ev a'] assms c
      by (cases e) (auto simp: acquire_def Let_def split: if_splits)
  next
    case (Inr t)
    then show ?thesis
      using assms(2) c
      by (auto simp: acquire_def Let_def count_of_def split: if_splits option.splits)
  qed
qed

theorem acquire_decision_witness:
  "admission_inv (admission_new 1 1 0 True) []
   \<and> fst (acquire [7] ''p'' (admission_new 1 1 0 True)) = Inr \<lparr>tracker_peer = [7], tracker_peer_id = ''p''\<rparr>
   \<and> length ([] :: connection_tracker list) < max_total (admission_new 1 1 0 True)"
proof -
  have i: "admission_inv (admission_new 1 1 0 True) []"
    by (rule admission_inv_new) (simp_all add: usize_max_def)
  obtain ev a' where acq: "acquire [7] ''p'' (admission_new 1 1 0 True)
      = (Inr \<lparr>tracker_peer = [7], tracker_peer_id = ''p''\<rparr>, ev, a')"
    by (simp add: acquire_def admission_new_def)
  show ?thesis using acquire_decision [OF i acq] i acq by simp
qed

text \<open>Callbacks run outside the lock, so they can be observed out of order: a peer that
  disconnects and at once reconnects can leave the application with \<open>connected = False\<close> as the last
  event delivered for it, with no callback pending, while one of its connections is alive.\<close>

theorem reconnect_event_can_be_overtaken:
  "\<exists>s. adm_reachable 1 1 True s \<and> length (live s) = 1 \<and> pending_events s = []
     \<and> hd (delivered s) = \<lparr>event_peer_id = ''p'', event_connected = False\<rparr>"
proof -
  let ?up = "\<lparr>event_peer_id = ''p'', event_connected = True\<rparr>"
  let ?down = "\<lparr>event_peer_id = ''p'', event_connected = False\<rparr>"
  let ?t = "\<lparr>tracker_peer = [7], tracker_peer_id = ''p''\<rparr>"
  let ?on = "\<lambda>r. \<lparr>counts = [([7], 1)], adm_total = 1, max_per_peer = 1, max_total = 1, has_on_event = True, released = r\<rparr>"
  let ?off = "\<lambda>r. \<lparr>counts = [], adm_total = 0, max_per_peer = 1, max_total = 1, has_on_event = True, released = r\<rparr>"
  let ?st = "\<lambda>a l p d. \<lparr>adm = a, live = l, pending_events = p, delivered = d\<rparr>"
  have acq: "acquire [7] ''p'' (?off r) = (Inr ?t, Some ?up, ?on r)" for r
    by (simp add: acquire_def sat_add_def usize_max_def atomic_inc_def al_put_def)
  have drp: "tracker_drop ?t (?on r) = (Some ?down, ?off (Suc r))" for r
    by (simp add: tracker_drop_def atomic_dec_def)
  have s0: "adm_reachable 1 1 True (?st (?off 0) [] [] [])"
    using adm_start [of 1 1 True] by (simp add: adm_init_def admission_new_def)
  have s1: "adm_reachable 1 1 True (?st (?on 0) [?t] [?up] [])"
    using adm_next [OF s0 adm_admit [of "[7]" "''p''" _ ?t "Some ?up" "?on 0"]] acq
    by (simp add: queue_event_def)
  have s2: "adm_reachable 1 1 True (?st (?on 0) [?t] [] [?up])"
    using adm_next [OF s1 adm_deliver [of ?up]] by simp
  have s3: "adm_reachable 1 1 True (?st (?off 1) [] [?down] [?up])"
    using adm_next [OF s2 adm_close [of ?t _ "Some ?down" "?off 1"]] drp [of 0]
    by (simp add: queue_event_def)
  have s4: "adm_reachable 1 1 True (?st (?on 1) [?t] [?up, ?down] [?up])"
    using adm_next [OF s3 adm_admit [of "[7]" "''p''" _ ?t "Some ?up" "?on 1"]] acq
    by (simp add: queue_event_def)
  have s5: "adm_reachable 1 1 True (?st (?on 1) [?t] [?down] [?up, ?up])"
    using adm_next [OF s4 adm_deliver [of ?up]] by simp
  have "adm_reachable 1 1 True (?st (?on 1) [?t] [] [?down, ?up, ?up])"
    using adm_next [OF s5 adm_deliver [of ?down]] by simp
  then show ?thesis by (intro exI conjI) auto
qed

end
