(* ===== verification/Serve_Runtime.thy ===== *)
theory Serve_Runtime
  imports Conn_Admission
begin

text \<open>
  \<^verbatim>\<open>src/crates/iroh-http-core/src/http/server/\<close> (\<open>options.rs\<close>, \<open>connection.rs\<close>, the option
  mapping of \<open>mod.rs\<close> and \<open>BodyIdleTimeout\<close> of \<open>stack.rs\<close>): the serving runtime shared by all
  connections, its stream-admission barrier, the per-connection loop and the graceful shutdown.

  The outcome of each \<open>select!\<close> of the connection loop, and what other tasks do to the shared state
  meanwhile, are inputs of the loop.  Tokio's permit limit is the parameter \<open>max_permits\<close>.
\<close>

section \<open>Options\<close>

definition DEFAULT_CONCURRENCY :: nat where "DEFAULT_CONCURRENCY = 1024"
definition DEFAULT_REQUEST_HEAD_TIMEOUT_MS :: nat where "DEFAULT_REQUEST_HEAD_TIMEOUT_MS = 15000"
definition DEFAULT_BODY_IDLE_TIMEOUT_MS :: nat where "DEFAULT_BODY_IDLE_TIMEOUT_MS = 30000"
definition DEFAULT_CONNECTION_IDLE_TIMEOUT_MS :: nat where "DEFAULT_CONNECTION_IDLE_TIMEOUT_MS = 60000"
definition DEFAULT_MAX_CONNECTIONS_PER_PEER :: nat where "DEFAULT_MAX_CONNECTIONS_PER_PEER = 8"
definition DEFAULT_MAX_TOTAL_CONNECTIONS :: nat where "DEFAULT_MAX_TOTAL_CONNECTIONS = 1024"
definition SERVE_DRAIN_TIMEOUT_MS :: nat where "SERVE_DRAIN_TIMEOUT_MS = 30000"

record compression_options =
  min_body_bytes :: nat
  comp_level :: "u32 option"

record serve_options =
  so_max_concurrency :: "nat option"
  so_request_timeout_ms :: "nat option"
  so_request_head_timeout_ms :: "nat option"
  so_body_idle_timeout_ms :: "nat option"
  so_connection_idle_timeout_ms :: "nat option"
  so_max_connections_per_peer :: "nat option"
  so_max_request_body_wire_bytes :: "nat option"
  so_max_request_body_decoded_bytes :: "nat option"
  so_drain_timeout_ms :: "nat option"
  so_max_total_connections :: "nat option"
  so_load_shed :: "bool option"
  so_decompression :: "bool option"

record connection_serve_options =
  max_connections_per_peer :: nat
  max_total_connections :: nat
  connection_idle_timeout :: millis
  max_concurrency :: nat
  request_timeout :: "millis option"
  request_head_timeout :: "millis option"
  body_idle_timeout :: "millis option"
  max_request_body_wire_bytes :: "nat option"
  max_request_body_decoded_bytes :: "nat option"
  serve_drain_timeout :: millis
  load_shed :: bool
  max_header_size :: nat
  compression :: "compression_options option"
  decompression :: bool

definition unwrap_or :: "'a option \<Rightarrow> 'a \<Rightarrow> 'a" where
  "unwrap_or x d = (case x of None \<Rightarrow> d | Some v \<Rightarrow> v)"

definition default_connection_serve_options :: connection_serve_options where
  "default_connection_serve_options = \<lparr>
     max_connections_per_peer = DEFAULT_MAX_CONNECTIONS_PER_PEER,
     max_total_connections = DEFAULT_MAX_TOTAL_CONNECTIONS,
     connection_idle_timeout = DEFAULT_CONNECTION_IDLE_TIMEOUT_MS,
     max_concurrency = DEFAULT_CONCURRENCY, request_timeout = None,
     request_head_timeout = Some DEFAULT_REQUEST_HEAD_TIMEOUT_MS,
     body_idle_timeout = Some DEFAULT_BODY_IDLE_TIMEOUT_MS,
     max_request_body_wire_bytes = None, max_request_body_decoded_bytes = None,
     serve_drain_timeout = SERVE_DRAIN_TIMEOUT_MS, load_shed = True, max_header_size = 64 * 1024,
     compression = None, decompression = True\<rparr>"

text \<open>Zero milliseconds disables a timeout of the endpoint API.\<close>

definition zero_disables :: "nat option \<Rightarrow> nat option \<Rightarrow> nat option" where
  "zero_disables x d = (case x of Some n \<Rightarrow> (if n = 0 then None else Some n) | None \<Rightarrow> d)"

definition accept_config :: "serve_options \<Rightarrow> nat \<Rightarrow> compression_options option
    \<Rightarrow> connection_serve_options" where
  "accept_config o1 ep_max_header_size ep_compression = \<lparr>
     max_connections_per_peer = unwrap_or (so_max_connections_per_peer o1) DEFAULT_MAX_CONNECTIONS_PER_PEER,
     max_total_connections = unwrap_or (so_max_total_connections o1) DEFAULT_MAX_TOTAL_CONNECTIONS,
     connection_idle_timeout = unwrap_or (so_connection_idle_timeout_ms o1) DEFAULT_CONNECTION_IDLE_TIMEOUT_MS,
     max_concurrency = unwrap_or (so_max_concurrency o1) DEFAULT_CONCURRENCY,
     request_timeout = zero_disables (so_request_timeout_ms o1) None,
     request_head_timeout = zero_disables (so_request_head_timeout_ms o1) (Some DEFAULT_REQUEST_HEAD_TIMEOUT_MS),
     body_idle_timeout = zero_disables (so_body_idle_timeout_ms o1) (Some DEFAULT_BODY_IDLE_TIMEOUT_MS),
     max_request_body_wire_bytes = so_max_request_body_wire_bytes o1,
     max_request_body_decoded_bytes = so_max_request_body_decoded_bytes o1,
     serve_drain_timeout = unwrap_or (so_drain_timeout_ms o1) SERVE_DRAIN_TIMEOUT_MS,
     load_shed = unwrap_or (so_load_shed o1) True,
     max_header_size = max ep_max_header_size 8192,
     compression = ep_compression,
     decompression = unwrap_or (so_decompression o1) True\<rparr>"

datatype connection_serve_error = InvalidOptions string string | UnexpectedAlpn bytes
  | TotalConnectionLimitReached nat | PeerConnectionLimitReached nat

fun check_timeouts :: "(string \<times> millis option) list \<Rightarrow> connection_serve_error option" where
  "check_timeouts [] = None"
| "check_timeouts ((name, t) # ts) =
     (if t = Some 0 then Some (InvalidOptions name ''must be greater than zero when enabled'')
      else check_timeouts ts)"

definition validate_options :: "nat \<Rightarrow> connection_serve_options \<Rightarrow> connection_serve_error + unit" where
  "validate_options max_permits opt =
     (if max_connections_per_peer opt = 0
        then Inl (InvalidOptions ''max_connections_per_peer'' ''must be greater than zero'')
      else if max_total_connections opt = 0
        then Inl (InvalidOptions ''max_total_connections'' ''must be greater than zero'')
      else if max_permits < max_connections_per_peer opt
        then Inl (InvalidOptions ''max_connections_per_peer'' ''exceeds Tokio's supported admission limit'')
      else if max_permits < max_total_connections opt
        then Inl (InvalidOptions ''max_total_connections'' ''exceeds Tokio's supported admission limit'')
      else if connection_idle_timeout opt = 0
        then Inl (InvalidOptions ''connection_idle_timeout'' ''must be greater than zero'')
      else (case check_timeouts [(''request_timeout'', request_timeout opt),
               (''request_head_timeout'', request_head_timeout opt),
               (''body_idle_timeout'', body_idle_timeout opt)] of
          Some e \<Rightarrow> Inl e
        | None \<Rightarrow>
            if max_concurrency opt = 0
              then Inl (InvalidOptions ''max_concurrency'' ''must be greater than zero'')
            else if max_permits < max_concurrency opt
              then Inl (InvalidOptions ''max_concurrency'' ''exceeds Tokio's semaphore permit limit'')
            else if max_header_size opt \<noteq> 0 \<and> max_header_size opt < 8192
              then Inl (InvalidOptions ''max_header_size'' ''must be zero or at least Hyper's 8192-byte floor'')
            else Inr ()))"

section \<open>The runtime\<close>

record serve_inner =
  sv_options :: connection_serve_options
  sv_admission :: connection_admission
  requests :: nat
  deliveries :: nat
  drain_notifies :: nat
  stopped :: bool
  close_flag :: bool
  close_notifies :: nat
  drained :: bool
  shutdown_cell :: "bool option"
  sv_now :: millis

definition with_runtime_state :: "nat \<Rightarrow> connection_serve_options \<Rightarrow> nat \<Rightarrow> nat \<Rightarrow> bool \<Rightarrow> bool \<Rightarrow> millis
    \<Rightarrow> connection_serve_error + serve_inner" where
  "with_runtime_state max_permits opt reqs conns cb cf t = (case validate_options max_permits opt of
       Inl e \<Rightarrow> Inl e
     | Inr _ \<Rightarrow> Inr \<lparr>sv_options = opt,
         sv_admission = admission_new (max_connections_per_peer opt) (max_total_connections opt) conns cb,
         requests = reqs, deliveries = 0, drain_notifies = 0, stopped = False, close_flag = cf,
         close_notifies = 0, drained = False, shutdown_cell = None, sv_now = t\<rparr>)"

definition runtime_new :: "nat \<Rightarrow> connection_serve_options \<Rightarrow> millis \<Rightarrow> connection_serve_error + serve_inner" where
  "runtime_new max_permits opt t = with_runtime_state max_permits opt 0 0 False False t"

text \<open>The stream-admission barrier: both counters are incremented under the gate, unless stopped.\<close>

definition try_admit :: "serve_inner \<Rightarrow> serve_inner option" where
  "try_admit v = (if stopped v then None
     else Some (v\<lparr>requests := atomic_inc (requests v), deliveries := atomic_inc (deliveries v)\<rparr>))"

definition barrier_stop :: "serve_inner \<Rightarrow> serve_inner" where
  "barrier_stop v = v\<lparr>stopped := True\<rparr>"

definition request_done :: "serve_inner \<Rightarrow> serve_inner" where
  "request_done v = v\<lparr>requests := request_tracker_drop (requests v)\<rparr>"

definition delivery_done :: "serve_inner \<Rightarrow> serve_inner" where
  "delivery_done v = (case delivery_tracker_drop (deliveries v) of (n, notify) \<Rightarrow>
     v\<lparr>deliveries := n, drain_notifies := drain_notifies v + (if notify then 1 else 0)\<rparr>)"

text \<open>\<open>checked_add\<close> on instants fails beyond the platform's last instant.\<close>

definition drain_deadline :: "millis \<Rightarrow> millis \<Rightarrow> millis \<Rightarrow> millis" where
  "drain_deadline last_instant timeout t = (if t + timeout \<le> last_instant then t + timeout else t)"

text \<open>\<open>None\<close> while still waiting; each environment step may wake the waiter.\<close>

fun wait_for_zero_until :: "(serve_inner \<Rightarrow> nat) \<Rightarrow> millis \<Rightarrow> (serve_inner \<Rightarrow> serve_inner) list
    \<Rightarrow> serve_inner \<Rightarrow> bool option \<times> serve_inner" where
  "wait_for_zero_until get deadline env v =
     (if get v = 0 then (Some True, v)
      else if deadline \<le> sv_now v then (Some False, v)
      else (case env of [] \<Rightarrow> (None, v) | e # es \<Rightarrow> wait_for_zero_until get deadline es (e v)))"

declare wait_for_zero_until.simps [simp del]

definition shutdown_close :: "bool \<Rightarrow> serve_inner \<Rightarrow> serve_inner" where
  "shutdown_close dr v = v\<lparr>drained := dr, close_flag := True, close_notifies := Suc (close_notifies v)\<rparr>"

definition runtime_shutdown :: "millis \<Rightarrow> (serve_inner \<Rightarrow> serve_inner) list
    \<Rightarrow> (serve_inner \<Rightarrow> serve_inner) list \<Rightarrow> serve_inner \<Rightarrow> bool option \<times> serve_inner" where
  "runtime_shutdown last_instant env1 env2 v = (case shutdown_cell v of
       Some r \<Rightarrow> (Some r, v)
     | None \<Rightarrow>
        (let v1 = barrier_stop v;
             deadline = drain_deadline last_instant (serve_drain_timeout (sv_options v)) (sv_now v1)
         in case wait_for_zero_until deliveries deadline env1 v1 of
              (None, v2) \<Rightarrow> (None, v2)
            | (Some dr, v2) \<Rightarrow>
               (case wait_for_zero_until (adm_total \<circ> sv_admission) deadline env2 (shutdown_close dr v2) of
                  (None, v3) \<Rightarrow> (None, v3)
                | (Some closed, v3) \<Rightarrow>
                    (Some (dr \<and> closed), v3\<lparr>shutdown_cell := Some (dr \<and> closed)\<rparr>))))"

section \<open>One connection\<close>

definition ALPN :: bytes where
  "ALPN = map (\<lambda>c. of_nat (of_char c)) ''iroh-http/2''"

text \<open>What the transport reports of a connection.\<close>

record quic_connection =
  conn_alpn :: bytes
  conn_remote :: public_key
  conn_closed :: "string option"

definition conn_close :: "string \<Rightarrow> quic_connection \<Rightarrow> quic_connection" where
  "conn_close reason c = c\<lparr>conn_closed := (case conn_closed c of None \<Rightarrow> Some reason | Some r \<Rightarrow> Some r)\<rparr>"

definition validate_http_connection :: "(bytes \<Rightarrow> string) \<Rightarrow> quic_connection
    \<Rightarrow> (connection_serve_error + (public_key \<times> string)) \<times> quic_connection" where
  "validate_http_connection base32_encode c =
     (if conn_alpn c \<noteq> ALPN then (Inl (UnexpectedAlpn (conn_alpn c)), conn_close ''unexpected ALPN'' c)
      else (Inr (conn_remote c, base32_encode (conn_remote c)), c))"

datatype connection_serve_end = PeerClosed | IdleTimeout | EndShutdown

record connection_serve_result =
  result_end :: connection_serve_end
  result_drained :: bool

datatype select_outcome = SelClose | SelJoined | SelStream | SelStreamError | SelIdle

record conn_task =
  in_flight :: nat
  task_end :: connection_serve_end
  task_conn :: quic_connection

text \<open>One iteration: \<open>Inl\<close> leaves the loop, \<open>Inr\<close> continues.  \<open>None\<close> marks an outcome that the
  select cannot produce in this state (a disabled branch).\<close>

definition conn_iteration :: "select_outcome \<Rightarrow> serve_inner \<times> conn_task
    \<Rightarrow> ((serve_inner \<times> conn_task) + (serve_inner \<times> conn_task)) option" where
  "conn_iteration out vt = (case vt of (v, t) \<Rightarrow>
     if close_flag v
       then Some (Inl (v, t\<lparr>task_conn := conn_close ''HTTP serve runtime stopped'' (task_conn t)\<rparr>))
     else if stopped v then (if out = SelClose then Some (Inr (v, t)) else None)
     else (case out of
         SelClose \<Rightarrow> Some (Inr (v, t))
       | SelJoined \<Rightarrow> (if in_flight t = 0 then None else Some (Inr (v, t\<lparr>in_flight := in_flight t - 1\<rparr>)))
       | SelStream \<Rightarrow> (case try_admit v of
            None \<Rightarrow> Some (Inr (v, t))
          | Some v' \<Rightarrow> Some (Inr (v', t\<lparr>in_flight := Suc (in_flight t)\<rparr>)))
       | SelStreamError \<Rightarrow> Some (Inl (v, t))
       | SelIdle \<Rightarrow> (if in_flight t = 0
            then Some (Inl (v, t\<lparr>task_end := IdleTimeout,
                 task_conn := conn_close ''HTTP connection idle timeout'' (task_conn t)\<rparr>))
            else None)))"

text \<open>The loop over the steps of the other tasks and the select outcomes; \<open>None\<close> when it is still
  running at the end of the trace.\<close>

fun conn_loop :: "((serve_inner \<Rightarrow> serve_inner) \<times> select_outcome) list \<Rightarrow> serve_inner \<times> conn_task
    \<Rightarrow> (serve_inner \<times> conn_task) option" where
  "conn_loop [] vt = None"
| "conn_loop ((e, out) # tr) vt = (case conn_iteration out (e (fst vt), snd vt) of
       None \<Rightarrow> None
     | Some (Inl vt') \<Rightarrow> Some vt'
     | Some (Inr vt') \<Rightarrow> conn_loop tr vt')"

text \<open>After the loop: outstanding request tasks are aborted when the runtime closed without draining,
  and joined otherwise; \<open>joins\<close> is what happens to the shared state until all have ended.\<close>

definition serve_validated :: "((serve_inner \<Rightarrow> serve_inner) \<times> select_outcome) list
    \<Rightarrow> (serve_inner \<Rightarrow> serve_inner) \<Rightarrow> public_key \<Rightarrow> string \<Rightarrow> quic_connection \<Rightarrow> serve_inner
    \<Rightarrow> ((connection_serve_error + connection_serve_result) \<times> nat \<times> quic_connection \<times> serve_inner) option" where
  "serve_validated tr joins peer pid conn v = (case acquire peer pid (sv_admission v) of
       (Inl AdmissionTotal, _, a) \<Rightarrow>
          Some (Inl (TotalConnectionLimitReached (max_total_connections (sv_options v))), 0,
            conn_close ''server at capacity'' conn, v\<lparr>sv_admission := a\<rparr>)
     | (Inl AdmissionPeer, _, a) \<Rightarrow>
          Some (Inl (PeerConnectionLimitReached (max_connections_per_peer (sv_options v))), 0,
            conn_close ''too many peer connections'' conn, v\<lparr>sv_admission := a\<rparr>)
     | (Inr tracker, _, a) \<Rightarrow>
         (case conn_loop tr (v\<lparr>sv_admission := a\<rparr>, \<lparr>in_flight = 0, task_end = PeerClosed, task_conn = conn\<rparr>) of
            None \<Rightarrow> None
          | Some (v1, t) \<Rightarrow>
             (let aborted = (if close_flag v1 \<and> \<not> drained v1 then in_flight t else 0);
                  v2 = joins v1;
                  shut = close_flag v2;
                  res = \<lparr>result_end = (if shut then EndShutdown else task_end t),
                         result_drained = (\<not> shut \<or> drained v2)\<rparr>;
                  v3 = v2\<lparr>sv_admission := snd (tracker_drop tracker (sv_admission v2))\<rparr>
              in Some (Inr res, aborted, task_conn t, v3))))"

definition serve_connection :: "(bytes \<Rightarrow> string) \<Rightarrow> ((serve_inner \<Rightarrow> serve_inner) \<times> select_outcome) list
    \<Rightarrow> (serve_inner \<Rightarrow> serve_inner) \<Rightarrow> quic_connection \<Rightarrow> serve_inner
    \<Rightarrow> ((connection_serve_error + connection_serve_result) \<times> nat \<times> quic_connection \<times> serve_inner) option" where
  "serve_connection base32_encode tr joins conn v = (case validate_http_connection base32_encode conn of
       (Inl e, c) \<Rightarrow> Some (Inl e, 0, c, v)
     | (Inr (peer, pid), c) \<Rightarrow> serve_validated tr joins peer pid c v)"

section \<open>Body idle timeout\<close>

text \<open>\<open>BodyIdleTimeout::poll_frame\<close> over the inner body's poll result; the timer runs only while the
  inner body is pending.\<close>

record body_idle =
  idle_timeout :: millis
  idle_timer :: "millis option"
  idle_done :: bool

definition body_idle_new :: "millis \<Rightarrow> body_idle" where
  "body_idle_new t = \<lparr>idle_timeout = t, idle_timer = None, idle_done = False\<rparr>"

datatype idle_error = InnerError | BodyIdleTimeoutError

definition body_idle_poll :: "millis \<Rightarrow> (unit + bytes) option poll \<Rightarrow> body_idle
    \<Rightarrow> (idle_error + bytes) option poll \<times> body_idle" where
  "body_idle_poll t inner b =
     (if idle_done b then (Ready None, b)
      else (case inner of
          Ready (Some (Inr frame)) \<Rightarrow> (Ready (Some (Inr frame)), b\<lparr>idle_timer := None\<rparr>)
        | Ready (Some (Inl _)) \<Rightarrow> (Ready (Some (Inl InnerError)), b\<lparr>idle_done := True\<rparr>)
        | Ready None \<Rightarrow> (Ready None, b\<lparr>idle_done := True\<rparr>)
        | Pending \<Rightarrow>
            (let fire = (case idle_timer b of None \<Rightarrow> t + idle_timeout b | Some d \<Rightarrow> d);
                 b1 = b\<lparr>idle_timer := Some fire\<rparr>
             in if fire \<le> t then (Ready (Some (Inl BodyIdleTimeoutError)), b1\<lparr>idle_done := True\<rparr>)
                else (Pending, b1))))"

end
