(* ===== verification/Serve_Props.thy ===== *)
theory Serve_Props
  imports Serve_Runtime
begin

text \<open>
  Graceful shutdown as a transition system over the runtime's operations, the release of connection
  slots on every path of the connection task, option validation and the body idle timeout.
\<close>

section \<open>Draining\<close>

datatype shutdown_phase = Serving | Draining millis | Closing millis | Finished bool

record srv_sys =
  inner :: serve_inner
  live_requests :: nat
  live_deliveries :: nat
  phase :: shutdown_phase

text \<open>One rule per atomic step of the tasks sharing the runtime.  A machine cannot hold
  \<open>usize_max\<close> live trackers, so admission is bounded by it.\<close>

inductive srv_step :: "millis \<Rightarrow> srv_sys \<Rightarrow> srv_sys \<Rightarrow> bool" for last_instant where
  srv_admit: "try_admit (inner s) = Some v \<Longrightarrow> live_deliveries s < usize_max \<Longrightarrow>
     srv_step last_instant s (s\<lparr>inner := v, live_requests := Suc (live_requests s),
       live_deliveries := Suc (live_deliveries s)\<rparr>)"
| srv_request_done: "0 < live_requests s \<Longrightarrow>
     srv_step last_instant s (s\<lparr>inner := request_done (inner s), live_requests := live_requests s - 1\<rparr>)"
| srv_delivery_done: "live_requests s < live_deliveries s \<Longrightarrow>
     srv_step last_instant s (s\<lparr>inner := delivery_done (inner s), live_deliveries := live_deliveries s - 1\<rparr>)"
| srv_time: "t \<ge> sv_now (inner s) \<Longrightarrow> srv_step last_instant s (s\<lparr>inner := (inner s)\<lparr>sv_now := t\<rparr>\<rparr>)"
| srv_connections: "srv_step last_instant s (s\<lparr>inner := (inner s)\<lparr>sv_admission := a\<rparr>\<rparr>)"
| srv_force_close: "srv_step last_instant s (s\<lparr>inner := (inner s)\<lparr>close_flag := True\<rparr>\<rparr>)"
| srv_stop: "phase s = Serving \<Longrightarrow>
     srv_step last_instant s (s\<lparr>inner := barrier_stop (inner s),
       phase := Draining (drain_deadline last_instant (serve_drain_timeout (sv_options (inner s))) (sv_now (inner s)))\<rparr>)"
| srv_drained: "phase s = Draining d \<Longrightarrow> deliveries (inner s) = 0 \<Longrightarrow>
     srv_step last_instant s (s\<lparr>inner := shutdown_close True (inner s), phase := Closing d\<rparr>)"
| srv_drain_timeout: "phase s = Draining d \<Longrightarrow> deliveries (inner s) \<noteq> 0 \<Longrightarrow> d \<le> sv_now (inner s) \<Longrightarrow>
     srv_step last_instant s (s\<lparr>inner := shutdown_close False (inner s), phase := Closing d\<rparr>)"
| srv_finish: "phase s = Closing d \<Longrightarrow> (adm_total (sv_admission (inner s)) = 0 \<or> d \<le> sv_now (inner s)) \<Longrightarrow>
     srv_step last_instant s (s\<lparr>phase := Finished (drained (inner s) \<and> adm_total (sv_admission (inner s)) = 0)\<rparr>)"

inductive_simps srv_step_iff: "srv_step last_instant s s'"

inductive srv_reachable :: "millis \<Rightarrow> srv_sys \<Rightarrow> bool" for last_instant where
  srv_start: "runtime_new mp opt t = Inr v \<Longrightarrow> srv_reachable last_instant
     \<lparr>inner = v, live_requests = 0, live_deliveries = 0, phase = Serving\<rparr>"
| srv_next: "srv_reachable last_instant s \<Longrightarrow> srv_step last_instant s s' \<Longrightarrow> srv_reachable last_instant s'"

definition srv_inv :: "srv_sys \<Rightarrow> bool" where
  "srv_inv s \<longleftrightarrow> requests (inner s) = live_requests s \<and> deliveries (inner s) = live_deliveries s
     \<and> live_requests s \<le> live_deliveries s \<and> live_deliveries s \<le> usize_max
     \<and> (phase s \<noteq> Serving \<longrightarrow> stopped (inner s))
     \<and> (case phase s of Serving \<Rightarrow> \<not> drained (inner s) | Draining _ \<Rightarrow> \<not> drained (inner s)
        | Closing _ \<Rightarrow> drained (inner s) \<longrightarrow> live_deliveries s = 0
        | Finished r \<Rightarrow> (r \<longrightarrow> drained (inner s)) \<and> (drained (inner s) \<longrightarrow> live_deliveries s = 0))"

lemma srv_step_inv: "srv_step l s s' \<Longrightarrow> srv_inv s \<Longrightarrow> srv_inv s'"
proof (induction rule: srv_step.induct)
  case (srv_admit s v)
  then show ?case by (cases "phase s") (auto simp: srv_inv_def try_admit_def split: if_splits)
next
  case (srv_request_done s)
  then show ?case
    by (cases "phase s") (auto simp: srv_inv_def request_done_def request_tracker_drop_def)
next
  case (srv_delivery_done s)
  then show ?case
    by (cases "phase s") (auto simp: srv_inv_def delivery_done_def delivery_tracker_drop_def)
qed (auto simp: srv_inv_def barrier_stop_def shutdown_close_def split: shutdown_phase.splits)

lemma srv_reachable_inv: "srv_reachable l s \<Longrightarrow> srv_inv s"
proof (induction rule: srv_reachable.induct)
  case (srv_start mp opt t v)
  then show ?case
    by (auto simp: srv_inv_def runtime_new_def with_runtime_state_def split: sum.splits)
next
  case (srv_next s s')
  then show ?case using srv_step_inv by blast
qed

text \<open>Property C3.  Graceful shutdown is complete: in every reachable state the request and delivery
  counters equal the live trackers; once shutdown has recorded a successful drain no response delivery
  is in flight, none can be admitted any more, and a shutdown that returns \<open>true\<close> has drained.\<close>

theorem shutdown_drains_completely:
  assumes "srv_reachable last_instant s"
  shows "requests (inner s) = live_requests s \<and> deliveries (inner s) = live_deliveries s
     \<and> (drained (inner s) \<longrightarrow> live_deliveries s = 0 \<and> live_requests s = 0 \<and> try_admit (inner s) = None)
     \<and> (phase s = Finished True \<longrightarrow> drained (inner s))"
  using srv_reachable_inv [OF assms]
  by (auto simp: srv_inv_def try_admit_def split: shutdown_phase.splits)

theorem shutdown_drains_completely_witness:
  "\<exists>s. srv_reachable 100000 s \<and> drained (inner s) \<and> try_admit (inner s) = None"
proof -
  obtain v where v: "runtime_new 2000 default_connection_serve_options 0 = Inr v"
    and st: "deliveries v = 0"
    by (simp add: runtime_new_def with_runtime_state_def validate_options_def
        default_connection_serve_options_def DEFAULT_MAX_CONNECTIONS_PER_PEER_def
        DEFAULT_MAX_TOTAL_CONNECTIONS_def DEFAULT_CONNECTION_IDLE_TIMEOUT_MS_def
        DEFAULT_REQUEST_HEAD_TIMEOUT_MS_def DEFAULT_BODY_IDLE_TIMEOUT_MS_def DEFAULT_CONCURRENCY_def)
  let ?s0 = "\<lparr>inner = v, live_requests = 0, live_deliveries = 0, phase = Serving\<rparr>"
  let ?d = "drain_deadline 100000 (serve_drain_timeout (sv_options v)) (sv_now v)"
  let ?s1 = "?s0\<lparr>inner := barrier_stop v, phase := Draining ?d\<rparr>"
  let ?s2 = "?s1\<lparr>inner := shutdown_close True (barrier_stop v), phase := Closing ?d\<rparr>"
  have "srv_reachable 100000 ?s0" by (rule srv_start [OF v])
  then have "srv_reachable 100000 ?s1"
    using srv_next srv_stop [of ?s0 100000] by fastforce
  then have "srv_reachable 100000 ?s2"
    using srv_next srv_drained [of ?s1 ?d 100000] st by (fastforce simp: barrier_stop_def)
  moreover have "drained (inner ?s2)" by (simp add: shutdown_close_def)
  ultimately show ?thesis using shutdown_drains_completely by blast
qed

section \<open>Waiting for a counter\<close>

lemma wait_for_zero_result:
  "wait_for_zero_until get d env v = (r, v') \<Longrightarrow>
     (r = Some True \<longrightarrow> get v' = 0) \<and> (r = Some False \<longrightarrow> get v' \<noteq> 0 \<and> d \<le> sv_now v')
     \<and> (r = None \<longrightarrow> get v' \<noteq> 0 \<and> sv_now v' < d)"
proof (induction get d env v rule: wait_for_zero_until.induct)
  case (1 get d env v)
  then show ?case
    by (subst (asm) wait_for_zero_until.simps) (auto split: if_splits list.splits)
qed

lemma wait_for_zero_Nil: "wait_for_zero_until get d [] v =
     (if get v = 0 then Some True else if d \<le> sv_now v then Some False else None, v)"
  by (simp add: wait_for_zero_until.simps)

lemma wait_for_zero_Cons: "wait_for_zero_until get d (e # es) v =
     (if get v = 0 then (Some True, v) else if d \<le> sv_now v then (Some False, v)
      else wait_for_zero_until get d es (e v))"
  by (subst wait_for_zero_until.simps) simp

text \<open>The drain wait ends: over any sequence of steps by other tasks it returns exactly
  when, after some prefix of them, the counter is zero or the deadline has passed; it returns
  \<open>true\<close> only with the counter at zero and \<open>false\<close> only past the deadline with the counter positive.\<close>

theorem drain_wait_returns:
  "(fst (wait_for_zero_until get d env v) \<noteq> None
     \<longleftrightarrow> (\<exists>k \<le> length env. let w = fold (\<lambda>f. f) (take k env) v in get w = 0 \<or> d \<le> sv_now w))
   \<and> (case wait_for_zero_until get d env v of (r, w) \<Rightarrow>
        (r = Some True \<longrightarrow> get w = 0) \<and> (r = Some False \<longrightarrow> get w \<noteq> 0 \<and> d \<le> sv_now w))"
proof
  show "fst (wait_for_zero_until get d env v) \<noteq> None
     \<longleftrightarrow> (\<exists>k \<le> length env. let w = fold (\<lambda>f. f) (take k env) v in get w = 0 \<or> d \<le> sv_now w)"
  proof (induction env arbitrary: v)
    case Nil
    then show ?case by (auto simp: wait_for_zero_Nil)
  next
    case (Cons e es)
    have "(\<exists>k \<le> length (e # es). let w = fold (\<lambda>f. f) (take k (e # es)) v in get w = 0 \<or> d \<le> sv_now w)
       \<longleftrightarrow> (get v = 0 \<or> d \<le> sv_now v)
         \<or> (\<exists>k \<le> length es. let w = fold (\<lambda>f. f) (take k es) (e v) in get w = 0 \<or> d \<le> sv_now w)"
      (is "?L \<longleftrightarrow> ?now \<or> ?R")
    proof
      assume ?L
      then obtain k where k: "k \<le> length (e # es)"
        "let w = fold (\<lambda>f. f) (take k (e # es)) v in get w = 0 \<or> d \<le> sv_now w" by blast
      then show "?now \<or> ?R" by (cases k) (auto simp: Let_def)
    next
      assume "?now \<or> ?R"
      then show ?L
      proof
        assume ?now
        then show ?L by (intro exI [of _ 0]) (simp add: Let_def)
      next
        assume ?R
        then obtain k where "k \<le> length es"
          "let w = fold (\<lambda>f. f) (take k es) (e v) in get w = 0 \<or> d \<le> sv_now w" by blast
        then show ?L by (intro exI [of _ "Suc k"]) (simp add: Let_def)
      qed
    qed
    then show ?case using Cons.IH [of "e v"] by (auto simp: wait_for_zero_Cons)
  qed
  show "case wait_for_zero_until get d env v of (r, w) \<Rightarrow>
        (r = Some True \<longrightarrow> get w = 0) \<and> (r = Some False \<longrightarrow> get w \<noteq> 0 \<and> d \<le> sv_now w)"
    using wait_for_zero_result [of get d env v] by (auto split: prod.splits)
qed

theorem drain_wait_returns_witness:
  "\<exists>v w. runtime_new 2000 default_connection_serve_options 0 = Inr v
     \<and> wait_for_zero_until deliveries 5 [\<lambda>v. v\<lparr>sv_now := 9\<rparr>] (v\<lparr>deliveries := 1\<rparr>) = (Some False, w)
     \<and> 5 \<le> sv_now w"
proof -
  obtain v where v: "runtime_new 2000 default_connection_serve_options 0 = Inr v" and n: "sv_now v = 0"
    by (simp add: runtime_new_def with_runtime_state_def validate_options_def
        default_connection_serve_options_def DEFAULT_MAX_CONNECTIONS_PER_PEER_def
        DEFAULT_MAX_TOTAL_CONNECTIONS_def DEFAULT_CONNECTION_IDLE_TIMEOUT_MS_def
        DEFAULT_REQUEST_HEAD_TIMEOUT_MS_def DEFAULT_BODY_IDLE_TIMEOUT_MS_def DEFAULT_CONCURRENCY_def)
  obtain w where "wait_for_zero_until deliveries 5 [\<lambda>v. v\<lparr>sv_now := 9\<rparr>] (v\<lparr>deliveries := 1\<rparr>) = (Some False, w)"
    using n by (simp add: wait_for_zero_Cons wait_for_zero_Nil)
  then show ?thesis
    using v drain_wait_returns [of deliveries 5 "[\<lambda>v. v\<lparr>sv_now := 9\<rparr>]" "v\<lparr>deliveries := 1\<rparr>"]
    by auto
qed

section \<open>Connection tasks\<close>

lemma conn_iteration_admission:
  assumes "conn_iteration out (v, t) = Some (Inl (v', t')) \<or> conn_iteration out (v, t) = Some (Inr (v', t'))"
  shows "sv_admission v' = sv_admission v \<and> sv_options v' = sv_options v"
  using assms
  by (auto simp: conn_iteration_def try_admit_def split: if_splits select_outcome.splits option.splits)

text \<open>What the other tasks of the server do is a function on the shared state; \<open>\<delta>\<close> says which
  connections are alive after it, and \<open>keeps_admission\<close> that it respects the admission state while the
  connection \<open>t\<close> is alive.\<close>

definition keeps_admission :: "connection_tracker \<Rightarrow> (connection_tracker list \<Rightarrow> connection_tracker list)
    \<Rightarrow> (serve_inner \<Rightarrow> serve_inner) \<Rightarrow> bool" where
  "keeps_admission t d e \<longleftrightarrow> (\<forall>v ts. admission_inv (sv_admission v) (t # ts)
     \<longrightarrow> admission_inv (sv_admission (e v)) (t # d ts))"

lemma keeps_admissionD:
  "keeps_admission t d e \<Longrightarrow> admission_inv (sv_admission v) (t # ts)
     \<Longrightarrow> admission_inv (sv_admission (e v)) (t # d ts)"
  by (simp add: keeps_admission_def)

lemma conn_loop_admission:
  assumes "\<forall>(e, out) \<in> set tr. keeps_admission u (\<delta> e) e"
    and "admission_inv (sv_admission v) (u # ts)"
    and "conn_loop tr (v, t) = Some (v', t')"
  shows "\<exists>k \<le> length tr. admission_inv (sv_admission v') (u # fold \<delta> (map fst (take k tr)) ts)"
  using assms
proof (induction tr arbitrary: v t ts)
  case Nil
  then show ?case by simp
next
  case (Cons a tr)
  obtain e out where a: "a = (e, out)" by fastforce
  have ea: "admission_inv (sv_admission (e v)) (u # \<delta> e ts)"
    using Cons.prems(1,2) a keeps_admissionD by auto
  show ?case
  proof (cases "conn_iteration out (e v, t)")
    case None
    then show ?thesis using Cons.prems(3) a by simp
  next
    case (Some r)
    show ?thesis
    proof (cases r)
      case (Inl w)
      then have "admission_inv (sv_admission v') (u # \<delta> e ts)"
        using Cons.prems(3) Some a ea conn_iteration_admission [of out "e v" t v' t'] by simp
      then show ?thesis using a by (intro exI [of _ 1]) simp
    next
      case (Inr w)
      obtain v1 t1 where w: "w = (v1, t1)" by fastforce
      have "sv_admission v1 = sv_admission (e v)"
        using Some Inr w conn_iteration_admission [of out "e v" t v1 t1] by simp
      moreover have "conn_loop tr (v1, t1) = Some (v', t')"
        using Cons.prems(3) Some Inr w a by simp
      ultimately obtain k where "k \<le> length tr"
        "admission_inv (sv_admission v') (u # fold \<delta> (map fst (take k tr)) (\<delta> e ts))"
        using Cons.IH [of v1 "\<delta> e ts" t1] Cons.prems(1) ea by auto
      then show ?thesis using a by (intro exI [of _ "Suc k"]) simp
    qed
  qed
qed

text \<open>Property C19.  A connection task releases its slot on every path: while other connections come
  and go, when the task returns (idle, closed by the peer, stopped or aborted) the admission state
  counts exactly the other connections alive at that moment; when it is rejected the admission state
  is unchanged and the connection has been closed.\<close>

theorem connection_slot_released:
  assumes "admission_inv (sv_admission v) ts"
    and "\<forall>(e, out) \<in> set tr. keeps_admission \<lparr>tracker_peer = peer, tracker_peer_id = pid\<rparr> (\<delta> e) e"
    and "keeps_admission \<lparr>tracker_peer = peer, tracker_peer_id = pid\<rparr> (\<delta> joins) joins"
    and "serve_validated tr joins peer pid conn v = Some (res, aborted, conn', v')"
  shows "case res of
       Inl _ \<Rightarrow> conn_closed conn' \<noteq> None \<and> sv_admission v' = sv_admission v
     | Inr _ \<Rightarrow> \<exists>k \<le> length tr. admission_inv (sv_admission v') (\<delta> joins (fold \<delta> (map fst (take k tr)) ts))"
proof -
  obtain r ev a where acq: "acquire peer pid (sv_admission v) = (r, ev, a)" by (metis prod_cases3)
  show ?thesis
  proof (cases r)
    case (Inl e)
    then have "a = sv_admission v" using acquire_refused [OF assms(1)] acq by blast
    then show ?thesis
      using assms(1,4) acq Inl
      by (cases e) (auto simp: serve_validated_def conn_close_def split: option.splits)
  next
    case (Inr t)
    have ia: "admission_inv (sv_admission (v\<lparr>sv_admission := a\<rparr>)) (t # ts)"
      and t: "t = \<lparr>tracker_peer = peer, tracker_peer_id = pid\<rparr>"
      using acquire_ok [OF assms(1)] acq Inr by auto
    obtain v1 t1 where lp: "conn_loop tr (v\<lparr>sv_admission := a\<rparr>,
        \<lparr>in_flight = 0, task_end = PeerClosed, task_conn = conn\<rparr>) = Some (v1, t1)"
      using assms(4) acq Inr by (auto simp: serve_validated_def split: option.splits)
    obtain k where k: "k \<le> length tr"
      "admission_inv (sv_admission v1) (t # fold \<delta> (map fst (take k tr)) ts)"
      using conn_loop_admission [OF assms(2) [folded t] ia lp] by blast
    have j: "admission_inv (sv_admission (joins v1)) (t # \<delta> joins (fold \<delta> (map fst (take k tr)) ts))"
      by (rule keeps_admissionD [OF assms(3) [folded t] k(2)])
    have "sv_admission v' = snd (tracker_drop t (sv_admission (joins v1)))" "\<exists>x. res = Inr x"
      using assms(4) acq Inr lp by (auto simp: serve_validated_def Let_def)
    then show ?thesis
      using k(1) drop_ok [OF j, of t] by (cases "tracker_drop t (sv_admission (joins v1))") auto
  qed
qed

lemma fold_keep: "fold (\<lambda>_ a. a) xs b = b"
  by (induction xs) auto

theorem connection_slot_released_witness:
  "\<exists>v conn' v'. runtime_new 2000 default_connection_serve_options 0 = Inr v
     \<and> serve_validated [(\<lambda>v. v, SelIdle)] (\<lambda>v. v) [7] ''p''
          \<lparr>conn_alpn = ALPN, conn_remote = [7], conn_closed = None\<rparr> v
        = Some (Inr \<lparr>result_end = IdleTimeout, result_drained = True\<rparr>, 0, conn', v')
     \<and> admission_inv (sv_admission v') []"
proof -
  obtain v where v: "runtime_new 2000 default_connection_serve_options 0 = Inr v"
    and f: "sv_admission v = admission_new 8 1024 0 False" "close_flag v = False" "stopped v = False"
    by (simp add: runtime_new_def with_runtime_state_def validate_options_def
        default_connection_serve_options_def DEFAULT_MAX_CONNECTIONS_PER_PEER_def
        DEFAULT_MAX_TOTAL_CONNECTIONS_def DEFAULT_CONNECTION_IDLE_TIMEOUT_MS_def
        DEFAULT_REQUEST_HEAD_TIMEOUT_MS_def DEFAULT_BODY_IDLE_TIMEOUT_MS_def DEFAULT_CONCURRENCY_def)
  have i: "admission_inv (sv_admission v) []"
    unfolding f by (rule admission_inv_new) (simp_all add: usize_max_def)
  obtain conn' v' where sv: "serve_validated [(\<lambda>v. v, SelIdle)] (\<lambda>v. v) [7] ''p''
          \<lparr>conn_alpn = ALPN, conn_remote = [7], conn_closed = None\<rparr> v
        = Some (Inr \<lparr>result_end = IdleTimeout, result_drained = True\<rparr>, 0, conn', v')"
    using f by (simp add: serve_validated_def acquire_def admission_new_def conn_iteration_def Let_def)
  have "admission_inv (sv_admission v') []"
    using connection_slot_released [OF i _ _ sv, of "\<lambda>_ ts. ts"] by (auto simp: keeps_admission_def fold_keep)
  then show ?thesis using v sv by blast
qed

section \<open>Options\<close>

text \<open>The options accepted by the runtime are exactly those with positive connection,
  concurrency and idle limits within the permit bound, no enabled timeout of zero, and a header limit
  of zero or at least 8192.\<close>

lemma options_accepted_iff:
  "validate_options max_permits opt = Inr () \<longleftrightarrow>
     0 < max_connections_per_peer opt \<and> max_connections_per_peer opt \<le> max_permits
     \<and> 0 < max_total_connections opt \<and> max_total_connections opt \<le> max_permits
     \<and> 0 < connection_idle_timeout opt
     \<and> request_timeout opt \<noteq> Some 0 \<and> request_head_timeout opt \<noteq> Some 0 \<and> body_idle_timeout opt \<noteq> Some 0
     \<and> 0 < max_concurrency opt \<and> max_concurrency opt \<le> max_permits
     \<and> (max_header_size opt = 0 \<or> 8192 \<le> max_header_size opt)"
  by (auto simp: validate_options_def)

section \<open>Body idle timeout\<close>

text \<open>Polling a body at given times with given results of the inner body.\<close>

fun idle_run :: "body_idle \<Rightarrow> (millis \<times> (unit + bytes) option poll) list
    \<Rightarrow> (idle_error + bytes) option poll list \<times> body_idle" where
  "idle_run b [] = ([], b)"
| "idle_run b ((t, x) # ps) = (case body_idle_poll t x b of (r, b') \<Rightarrow>
     (case idle_run b' ps of (rs, b'') \<Rightarrow> (r # rs, b'')))"

text \<open>An armed timer was armed at a poll that started the current run of pending polls.\<close>

definition armed_by :: "(millis \<times> (unit + bytes) option poll) list \<Rightarrow> body_idle \<Rightarrow> bool" where
  "armed_by ps b \<longleftrightarrow> (\<forall>d. idle_timer b = Some d \<longrightarrow> \<not> idle_done b \<longrightarrow>
     (\<exists>us t vs. ps = us @ (t, Pending) # vs \<and> (\<forall>(t', x) \<in> set vs. x = Pending) \<and> d = t + idle_timeout b))"

lemma body_idle_poll_timeout [simp]: "idle_timeout (snd (body_idle_poll t x b)) = idle_timeout b"
  by (simp add: body_idle_poll_def Let_def split: poll.splits option.splits sum.splits)

lemma armed_by_poll:
  assumes "armed_by ps b"
  shows "armed_by (ps @ [(t, x)]) (snd (body_idle_poll t x b))"
proof (cases "idle_done b \<or> x \<noteq> Pending")
  case True
  then show ?thesis
    by (auto simp: armed_by_def body_idle_poll_def split: poll.splits option.splits sum.splits)
next
  case False
  show ?thesis
  proof (cases "idle_timer b")
    case None
    then have "idle_timer (snd (body_idle_poll t x b)) = Some (t + idle_timeout b)"
      using False by (simp add: body_idle_poll_def Let_def)
    then show ?thesis using False unfolding armed_by_def
      by (intro allI impI exI [of _ ps] exI [of _ t] exI [of _ "[]"]) auto
  next
    case (Some d)
    obtain us t0 vs where ps: "ps = us @ (t0, Pending) # vs" "\<forall>(t', x) \<in> set vs. x = Pending"
      and d: "d = t0 + idle_timeout b"
      using assms Some False by (auto simp: armed_by_def)
    have "ps @ [(t, x)] = us @ (t0, Pending) # (vs @ [(t, x)])" "\<forall>(t', y) \<in> set (vs @ [(t, x)]). y = Pending"
      using ps False by auto
    moreover have "idle_timer (snd (body_idle_poll t x b)) = Some d"
      using Some False by (simp add: body_idle_poll_def Let_def)
    ultimately show ?thesis
      unfolding armed_by_def using d by (metis body_idle_poll_timeout option.inject)
  qed
qed

lemma armed_by_run:
  "armed_by ps b \<Longrightarrow> armed_by (ps @ qs) (snd (idle_run b qs))"
proof (induction qs arbitrary: ps b)
  case Nil
  then show ?case by simp
next
  case (Cons q qs)
  obtain t x where q: "q = (t, x)" by fastforce
  have "armed_by (ps @ [q]) (snd (body_idle_poll t x b))" using Cons.prems q armed_by_poll by simp
  from Cons.IH [OF this] show ?case using q by (simp add: split_beta)
qed

text \<open>The idle timeout punishes only a stalled body: if a poll fails with the idle
  timeout, the inner body has been pending at every poll since one made at least the timeout earlier,
  whatever frames were delivered before; afterwards the body has ended.\<close>

theorem idle_timeout_needs_stall:
  assumes "idle_run (body_idle_new tmo) ps = (rs, b)"
    and "body_idle_poll t x b = (Ready (Some (Inl BodyIdleTimeoutError)), b')"
  shows "x = Pending \<and> (tmo = 0 \<or> (\<exists>us t0 vs. ps = us @ (t0, Pending) # vs
       \<and> list_all (\<lambda>(t', y). y = Pending) vs \<and> t0 + tmo \<le> t))
     \<and> fst (body_idle_poll t2 y2 b') = Ready None"
proof -
  have tmo: "idle_timeout b = tmo"
  proof -
    have "idle_timeout (snd (idle_run b0 ps)) = idle_timeout b0" for b0
      by (induction ps arbitrary: b0) (auto simp: split_beta)
    then show ?thesis using assms(1) by (metis body_idle.select_convs(1) body_idle_new_def snd_conv)
  qed
  have "armed_by ([] @ ps) (snd (idle_run (body_idle_new tmo) ps))"
    by (rule armed_by_run) (simp add: armed_by_def body_idle_new_def)
  then have arm: "armed_by ps b" using assms(1) by simp
  have x: "x = Pending" and nd: "\<not> idle_done b" and dn: "idle_done b'"
    using assms(2) by (auto simp: body_idle_poll_def Let_def split: if_splits poll.splits option.splits sum.splits)
  have "tmo = 0 \<or> (\<exists>us t0 vs. ps = us @ (t0, Pending) # vs
       \<and> list_all (\<lambda>(t', y). y = Pending) vs \<and> t0 + tmo \<le> t)"
  proof (cases "idle_timer b")
    case None
    then show ?thesis using assms(2) x nd tmo by (auto simp: body_idle_poll_def Let_def split: if_splits)
  next
    case (Some d)
    then have "d \<le> t" using assms(2) x nd by (auto simp: body_idle_poll_def Let_def split: if_splits)
    then show ?thesis using arm Some nd tmo unfolding armed_by_def list_all_iff by blast
  qed
  then show ?thesis using x dn by (simp add: body_idle_poll_def)
qed

theorem idle_timeout_needs_stall_witness:
  "\<exists>rs b b'. idle_run (body_idle_new 10) [(0, Ready (Some (Inr [1]))), (3, Pending)] = (rs, b)
     \<and> body_idle_poll 13 Pending b = (Ready (Some (Inl BodyIdleTimeoutError)), b')
     \<and> fst (body_idle_poll 14 Pending b') = Ready None"
proof -
  obtain rs b where r: "idle_run (body_idle_new 10) [(0, Ready (Some (Inr [1]))), (3, Pending)] = (rs, b)"
    and b: "b = \<lparr>idle_timeout = 10, idle_timer = Some 13, idle_done = False\<rparr>"
    by (simp add: body_idle_poll_def body_idle_new_def Let_def)
  obtain b' where p: "body_idle_poll 13 Pending b = (Ready (Some (Inl BodyIdleTimeoutError)), b')"
    using b by (simp add: body_idle_poll_def Let_def)
  show ?thesis using idle_timeout_needs_stall [OF r p, of 14 Pending] r p by blast
qed

end
