(* ===== verification/Serve_Cycle.thy ===== *)
theory Serve_Cycle
  imports Serve_Runtime
begin

text \<open>
  Serve cycles of one endpoint: \<^verbatim>\<open>http/server/handle.rs\<close> (\<open>ServeToken\<close>, \<open>ServeHandle\<close>),
  \<^verbatim>\<open>endpoint/lifecycle.rs\<close> (closing, registering, stopping), \<^verbatim>\<open>endpoint/session_runtime.rs\<close>,
  the local service slot of \<^verbatim>\<open>endpoint/mod.rs\<close>, the hand-off of \<open>serve_with_events\<close>
  (\<^verbatim>\<open>http/server/mod.rs\<close>) and the accept loop (\<^verbatim>\<open>http/server/accept.rs\<close>).

  A handle is an \<open>Arc\<close>: all its clones denote one entry of \<open>cycles\<close>, the list of all cycles ever
  created, and a handle is the position of its cycle.  Every operation is split at the points where
  another thread can run: around its lock regions and at its awaits.
\<close>

section \<open>State\<close>

text \<open>The accept task of a cycle.  \<open>TaskAborted\<close> is a task dropped by \<open>JoinHandle::abort\<close>, which also
  drops the sender of its completion signal.\<close>

datatype accept_task = NotSpawned | Selecting | Handshaking | ShuttingDown | Exited | TaskAborted

text \<open>How far the \<open>serve_with_events\<close> call that owns the cycle has come.\<close>

datatype serve_call = Minted | Registered | Spawned | Attached

datatype join_slot = JoinNone | JoinHeld | JoinTaken

record serve_cycle =
  cyc_token :: u64
  cyc_join :: join_slot
  abort_requested :: bool
  shutdown_requested :: bool
  shutdown_permit :: bool
  cyc_close_flag :: bool
  cyc_close_notifies :: nat
  cyc_drain_timeout :: millis
  cyc_done :: bool
  cyc_task :: accept_task
  cyc_pc :: serve_call

text \<open>A \<open>close\<close> or \<open>close_force\<close> call between two of its atomic steps.\<close>

datatype closer = DrainShutdown nat | DrainTake nat | DrainWait nat bool | AbortStore nat | AbortLock nat
  | FinishClose

record session_runtime =
  serve_slot :: "nat option"
  serve_started_gen :: u64
  serve_stopped_gen :: u64
  serve_done_rx :: "nat option"
  ep_closed :: bool
  transport_closed :: bool
  event_rx_there :: bool
  local_service :: "nat option"
  cycles :: "serve_cycle list"
  closers :: "closer list"

definition session_new :: session_runtime where
  "session_new = \<lparr>serve_slot = None, serve_started_gen = 0, serve_stopped_gen = 0, serve_done_rx = None,
     ep_closed = False, transport_closed = False, event_rx_there = True, local_service = None,
     cycles = [], closers = []\<rparr>"

definition upd_cycle :: "nat \<Rightarrow> (serve_cycle \<Rightarrow> serve_cycle) \<Rightarrow> session_runtime \<Rightarrow> session_runtime" where
  "upd_cycle h f s = s\<lparr>cycles := (cycles s)[h := f (cycles s ! h)]\<rparr>"

section \<open>Handles\<close>

definition next_serve_token :: "session_runtime \<Rightarrow> u64 \<times> session_runtime" where
  "next_serve_token s = (serve_started_gen s + 1, s\<lparr>serve_started_gen := serve_started_gen s + 1\<rparr>)"

definition record_stopped_token :: "u64 \<Rightarrow> session_runtime \<Rightarrow> session_runtime" where
  "record_stopped_token t s = s\<lparr>serve_stopped_gen := t\<rparr>"

definition pending_cycle :: "u64 \<Rightarrow> millis \<Rightarrow> serve_cycle" where
  "pending_cycle tok dt = \<lparr>cyc_token = tok, cyc_join = JoinNone, abort_requested = False,
     shutdown_requested = False, shutdown_permit = False, cyc_close_flag = False, cyc_close_notifies = 0,
     cyc_drain_timeout = dt, cyc_done = False, cyc_task = NotSpawned, cyc_pc = Minted\<rparr>"

text \<open>\<open>JoinHandle::abort\<close>: no effect on a task that has already ended.\<close>

definition task_abort :: "accept_task \<Rightarrow> accept_task" where
  "task_abort t = (if t = Exited then Exited else TaskAborted)"

definition attach_join :: "serve_cycle \<Rightarrow> serve_cycle" where
  "attach_join c = (if abort_requested c then c\<lparr>cyc_task := task_abort (cyc_task c)\<rparr>
     else c\<lparr>cyc_join := JoinHeld\<rparr>)"

definition is_same_cycle :: "serve_cycle \<Rightarrow> serve_cycle \<Rightarrow> bool" where
  "is_same_cycle a b \<longleftrightarrow> cyc_token a = cyc_token b"

definition handle_shutdown :: "serve_cycle \<Rightarrow> serve_cycle" where
  "handle_shutdown c = c\<lparr>shutdown_requested := True, shutdown_permit := True\<rparr>"

definition shutdown_and_close :: "serve_cycle \<Rightarrow> serve_cycle" where
  "shutdown_and_close c = c\<lparr>shutdown_requested := True, cyc_close_flag := True, shutdown_permit := True,
     cyc_close_notifies := Suc (cyc_close_notifies c)\<rparr>"

definition take_join :: "serve_cycle \<Rightarrow> bool \<times> serve_cycle" where
  "take_join c = (if cyc_join c = JoinHeld then (True, c\<lparr>cyc_join := JoinTaken\<rparr>) else (False, c))"

definition abort_store :: "serve_cycle \<Rightarrow> serve_cycle" where
  "abort_store c = c\<lparr>abort_requested := True\<rparr>"

definition abort_lock :: "serve_cycle \<Rightarrow> serve_cycle" where
  "abort_lock c = (if cyc_join c = JoinHeld then c\<lparr>cyc_task := task_abort (cyc_task c)\<rparr> else c)"

definition task_ended :: "serve_cycle \<Rightarrow> bool" where
  "task_ended c \<longleftrightarrow> cyc_task c = Exited \<or> cyc_task c = TaskAborted"

text \<open>Waiting on the completion signal returns on its value \<open>true\<close> and when its sender is gone.\<close>

definition done_observed :: "serve_cycle \<Rightarrow> bool" where
  "done_observed c \<longleftrightarrow> cyc_done c \<or> task_ended c"

section \<open>Endpoint operations\<close>

definition clear_local_service :: "session_runtime \<Rightarrow> session_runtime" where
  "clear_local_service s = s\<lparr>local_service := None\<rparr>"

definition is_current :: "nat \<Rightarrow> session_runtime \<Rightarrow> bool" where
  "is_current h s = (case serve_slot s of None \<Rightarrow> False
     | Some cur \<Rightarrow> is_same_cycle (cycles s ! cur) (cycles s ! h))"

definition register_serve_handle :: "nat \<Rightarrow> session_runtime \<Rightarrow> session_runtime" where
  "register_serve_handle h s =
     (if is_current h s then s
      else let s1 = (case serve_slot s of None \<Rightarrow> s | Some prev \<Rightarrow> upd_cycle prev shutdown_and_close s)
           in (clear_local_service s1)\<lparr>serve_done_rx := Some h, serve_slot := Some h\<rparr>)"

definition set_serve_handle :: "nat \<Rightarrow> session_runtime \<Rightarrow> session_runtime" where
  "set_serve_handle h s = (if is_current h s then s else upd_cycle h shutdown_and_close s)"

definition stop_serve :: "session_runtime \<Rightarrow> session_runtime" where
  "stop_serve s = (case serve_slot s of
       None \<Rightarrow> clear_local_service s
     | Some h \<Rightarrow> upd_cycle h handle_shutdown
                  (record_stopped_token (cyc_token (cycles s ! h)) (clear_local_service s)))"

definition set_local_service_for :: "nat \<Rightarrow> nat \<Rightarrow> session_runtime \<Rightarrow> session_runtime" where
  "set_local_service_for h svc s =
     (if is_current h s \<and> \<not> shutdown_requested (cycles s ! h) then s\<lparr>local_service := Some svc\<rparr> else s)"

text \<open>\<open>upgrade\<close> of the weak reference: the dispatcher lives as long as its serve task.\<close>

definition local_service_lookup :: "(nat \<Rightarrow> bool) \<Rightarrow> session_runtime \<Rightarrow> nat option" where
  "local_service_lookup alive s = (case local_service s of None \<Rightarrow> None
     | Some d \<Rightarrow> if alive d then Some d else None)"

definition wait_closed_ready :: "session_runtime \<Rightarrow> bool" where
  "wait_closed_ready s = ep_closed s"

definition wait_serve_stop_ready :: "nat option \<Rightarrow> session_runtime \<Rightarrow> bool" where
  "wait_serve_stop_ready rx s = (case rx of None \<Rightarrow> True | Some h \<Rightarrow> done_observed (cycles s ! h))"

definition subscribe_events :: "session_runtime \<Rightarrow> bool \<times> session_runtime" where
  "subscribe_events s = (event_rx_there s, s\<lparr>event_rx_there := False\<rparr>)"

text \<open>\<open>close\<close> and \<open>close_force\<close> first take the slot; the rest runs as a closer.\<close>

definition close_begin :: "bool \<Rightarrow> session_runtime \<Rightarrow> session_runtime" where
  "close_begin force s = s\<lparr>serve_slot := None,
     closers := (case serve_slot s of None \<Rightarrow> FinishClose
                 | Some h \<Rightarrow> if force then AbortStore h else DrainShutdown h) # closers s\<rparr>"

text \<open>One step of a closer; \<open>None\<close> while it waits.  The last step clears the local service, closes the
  transport and publishes the closed signal.\<close>

fun closer_step :: "closer \<Rightarrow> session_runtime \<Rightarrow> (closer option \<times> session_runtime) option" where
  "closer_step (DrainShutdown h) s = Some (Some (DrainTake h), upd_cycle h handle_shutdown s)"
| "closer_step (DrainTake h) s = (case take_join (cycles s ! h) of
     (got, c) \<Rightarrow> Some (Some (DrainWait h got), upd_cycle h (\<lambda>_. c) s))"
| "closer_step (DrainWait h got) s =
     (if (if got then task_ended (cycles s ! h) else done_observed (cycles s ! h))
      then Some (Some FinishClose, s) else None)"
| "closer_step (AbortStore h) s = Some (Some (AbortLock h), upd_cycle h abort_store s)"
| "closer_step (AbortLock h) s = Some (Some FinishClose, upd_cycle h abort_lock s)"
| "closer_step FinishClose s = Some (None, (clear_local_service s)\<lparr>transport_closed := True, ep_closed := True\<rparr>)"

section \<open>Starting a cycle\<close>

definition serve_begin :: "millis \<Rightarrow> session_runtime \<Rightarrow> nat \<times> session_runtime" where
  "serve_begin dt s = (case next_serve_token s of (tok, s1) \<Rightarrow>
     (length (cycles s1), s1\<lparr>cycles := cycles s1 @ [pending_cycle tok dt]\<rparr>))"

definition serve_register :: "nat \<Rightarrow> session_runtime \<Rightarrow> session_runtime" where
  "serve_register h s = upd_cycle h (\<lambda>c. c\<lparr>cyc_pc := Registered\<rparr>) (register_serve_handle h s)"

text \<open>The spawned accept task; a configuration that the runtime refuses ends it at once.\<close>

definition serve_spawn :: "bool \<Rightarrow> nat \<Rightarrow> session_runtime \<Rightarrow> session_runtime" where
  "serve_spawn valid h s = upd_cycle h (\<lambda>c. if valid then c\<lparr>cyc_task := Selecting, cyc_pc := Spawned\<rparr>
     else c\<lparr>cyc_task := Exited, cyc_done := True, cyc_pc := Spawned\<rparr>) s"

definition serve_attach :: "nat \<Rightarrow> session_runtime \<Rightarrow> session_runtime" where
  "serve_attach h s = upd_cycle h (\<lambda>c. (attach_join c)\<lparr>cyc_pc := Attached\<rparr>) s"

definition serve_with_events :: "nat \<Rightarrow> serve_options \<Rightarrow> nat \<Rightarrow> compression_options option
    \<Rightarrow> session_runtime \<Rightarrow> nat \<times> session_runtime" where
  "serve_with_events max_permits opt hdr cmp s =
     (let cfg = accept_config opt hdr cmp
      in case serve_begin (serve_drain_timeout cfg) s of (h, s1) \<Rightarrow>
           (h, serve_attach h (serve_spawn (validate_options max_permits cfg = Inr ()) h (serve_register h s1))))"

section \<open>The accept loop\<close>

datatype accept_event = AccShutdown | AccClosed | AccIncoming | AccHandshake | AccDrained

text \<open>The select is biased: a stored shutdown permit wins over an incoming connection.  Ending the loop
  runs the graceful shutdown of the runtime, which sets the shared close flag, and then signals
  completion.\<close>

definition accept_step :: "accept_event \<Rightarrow> nat \<Rightarrow> session_runtime \<Rightarrow> session_runtime option" where
  "accept_step e h s = (let c = cycles s ! h in case e of
       AccShutdown \<Rightarrow> if cyc_task c = Selecting \<and> shutdown_permit c
         then Some (upd_cycle h (\<lambda>c. c\<lparr>shutdown_permit := False, cyc_task := ShuttingDown\<rparr>) s) else None
     | AccClosed \<Rightarrow> if cyc_task c = Selecting \<and> \<not> shutdown_permit c \<and> transport_closed s
         then Some ((upd_cycle h (\<lambda>c. c\<lparr>cyc_task := ShuttingDown\<rparr>) s)\<lparr>ep_closed := True\<rparr>) else None
     | AccIncoming \<Rightarrow> if cyc_task c = Selecting \<and> \<not> shutdown_permit c \<and> \<not> transport_closed s
         then Some (upd_cycle h (\<lambda>c. c\<lparr>cyc_task := Handshaking\<rparr>) s) else None
     | AccHandshake \<Rightarrow> if cyc_task c = Handshaking
         then Some (upd_cycle h (\<lambda>c. c\<lparr>cyc_task := Selecting\<rparr>) s) else None
     | AccDrained \<Rightarrow> if cyc_task c = ShuttingDown
         then Some (upd_cycle h (\<lambda>c. c\<lparr>cyc_close_flag := True, cyc_done := True, cyc_task := Exited\<rparr>) s)
         else None)"

section \<open>Interleavings\<close>

inductive cyc_step :: "session_runtime \<Rightarrow> session_runtime \<Rightarrow> bool" where
  st_begin: "cyc_step s (snd (serve_begin dt s))"
| st_register: "h < length (cycles s) \<Longrightarrow> cyc_pc (cycles s ! h) = Minted \<Longrightarrow> cyc_step s (serve_register h s)"
| st_spawn: "h < length (cycles s) \<Longrightarrow> cyc_pc (cycles s ! h) = Registered \<Longrightarrow> cyc_step s (serve_spawn valid h s)"
| st_attach: "h < length (cycles s) \<Longrightarrow> cyc_pc (cycles s ! h) = Spawned \<Longrightarrow> cyc_step s (serve_attach h s)"
| st_confirm: "h < length (cycles s) \<Longrightarrow> cyc_pc (cycles s ! h) = Attached \<Longrightarrow> cyc_step s (set_serve_handle h s)"
| st_local: "h < length (cycles s) \<Longrightarrow> cyc_pc (cycles s ! h) = Attached
     \<Longrightarrow> cyc_step s (set_local_service_for h svc s)"
| st_stop: "cyc_step s (stop_serve s)"
| st_close: "cyc_step s (close_begin force s)"
| st_closer: "closers s = xs @ c # ys \<Longrightarrow> closer_step c s = Some (c', s')
     \<Longrightarrow> cyc_step s (s'\<lparr>closers := xs @ (case c' of None \<Rightarrow> [] | Some d \<Rightarrow> [d]) @ ys\<rparr>)"
| st_accept: "h < length (cycles s) \<Longrightarrow> accept_step e h s = Some s' \<Longrightarrow> cyc_step s s'"

inductive cyc_reachable :: "session_runtime \<Rightarrow> bool" where
  cyc_start: "cyc_reachable session_new"
| cyc_next: "cyc_reachable s \<Longrightarrow> cyc_step s s' \<Longrightarrow> cyc_reachable s'"

end
