(* ===== verification/Cycle_Props.thy ===== *)
theory Cycle_Props
  imports Serve_Cycle
begin

text \<open>Invariants of the serve cycles of an endpoint over all interleavings of serving, confirming,
  stopping and closing calls and of the accept tasks.\<close>

section \<open>Invariant\<close>

definition cycle_ok :: "closer set \<Rightarrow> nat \<Rightarrow> serve_cycle \<Rightarrow> bool" where
  "cycle_ok cl h c \<longleftrightarrow> cyc_token c = of_nat (Suc h)
     \<and> (cyc_task c = NotSpawned \<longleftrightarrow> cyc_pc c = Minted \<or> cyc_pc c = Registered)
     \<and> (shutdown_requested c \<and> cyc_task c \<in> {NotSpawned, Selecting, Handshaking} \<longrightarrow> shutdown_permit c)
     \<and> (cyc_pc c \<noteq> Attached \<longrightarrow> cyc_join c = JoinNone)
     \<and> (cyc_pc c = Attached \<and> cyc_join c = JoinNone \<longrightarrow> task_ended c)
     \<and> (cyc_pc c = Attached \<and> abort_requested c \<and> AbortLock h \<notin> cl \<and> cyc_join c \<noteq> JoinTaken \<longrightarrow> task_ended c)"

definition cells_ok :: "session_runtime \<Rightarrow> bool" where
  "cells_ok s \<longleftrightarrow> serve_started_gen s = of_nat (length (cycles s))
     \<and> (\<forall>h < length (cycles s). cycle_ok (set (closers s)) h (cycles s ! h))"

definition slot_ok :: "session_runtime \<Rightarrow> bool" where
  "slot_ok s \<longleftrightarrow> (\<forall>h. serve_slot s = Some h \<longrightarrow> h < length (cycles s) \<and> cyc_pc (cycles s ! h) \<noteq> Minted)"

text \<open>A cycle is being ended: stopped, aborted, or about to be by a closer that has taken it.\<close>

definition ending :: "session_runtime \<Rightarrow> nat \<Rightarrow> bool" where
  "ending s h \<longleftrightarrow> shutdown_requested (cycles s ! h) \<or> abort_requested (cycles s ! h)
     \<or> DrainShutdown h \<in> set (closers s) \<or> AbortStore h \<in> set (closers s)"

definition others_ok :: "session_runtime \<Rightarrow> bool" where
  "others_ok s \<longleftrightarrow> (\<forall>h < length (cycles s). cyc_pc (cycles s ! h) \<noteq> Minted \<longrightarrow> serve_slot s \<noteq> Some h
     \<longrightarrow> ending s h)"

definition local_ok :: "session_runtime \<Rightarrow> bool" where
  "local_ok s \<longleftrightarrow> local_service s \<noteq> None
     \<longrightarrow> (\<exists>h. serve_slot s = Some h \<and> \<not> shutdown_requested (cycles s ! h)) \<or> closers s \<noteq> []"

lemmas cell_updates = handle_shutdown_def shutdown_and_close_def abort_store_def abort_lock_def
  attach_join_def take_join_def task_abort_def task_ended_def

lemma upd_cycle_simps [simp]:
  "length (cycles (upd_cycle h f s)) = length (cycles s)"
  "closers (upd_cycle h f s) = closers s" "serve_slot (upd_cycle h f s) = serve_slot s"
  "local_service (upd_cycle h f s) = local_service s" "serve_started_gen (upd_cycle h f s) = serve_started_gen s"
  "transport_closed (upd_cycle h f s) = transport_closed s" "ep_closed (upd_cycle h f s) = ep_closed s"
  by (simp_all add: upd_cycle_def)

lemma upd_cycle_nth:
  "k < length (cycles s) \<Longrightarrow> cycles (upd_cycle h f s) ! k = (if k = h then f (cycles s ! h) else cycles s ! k)"
  by (simp add: upd_cycle_def nth_list_update)

lemma nth_upd: "k < length xs \<Longrightarrow> xs[i := v] ! k = (if i = k then v else xs ! k)"
  by (simp add: nth_list_update)

lemma cycle_ok_mono:
  "cycle_ok cl h c \<Longrightarrow> (AbortLock h \<in> cl \<Longrightarrow> AbortLock h \<in> cl') \<Longrightarrow> cycle_ok cl' h c"
  unfolding cycle_ok_def by blast

text \<open>Updating one cycle, with closers that lose no obligation.\<close>

lemma cells_upd:
  assumes "cells_ok s" "cycles s' = cycles (upd_cycle h f s)" "serve_started_gen s' = serve_started_gen s"
    and "\<And>k. k \<noteq> h \<Longrightarrow> AbortLock k \<in> set (closers s) \<Longrightarrow> AbortLock k \<in> set (closers s')"
    and "h < length (cycles s) \<Longrightarrow> cycle_ok (set (closers s)) h (cycles s ! h)
       \<Longrightarrow> cycle_ok (set (closers s')) h (f (cycles s ! h))"
  shows "cells_ok s'"
proof -
  have "cycle_ok (set (closers s')) k (cycles s' ! k)" if k: "k < length (cycles s)" for k
  proof (cases "k = h")
    case True
    then show ?thesis using assms k by (simp add: upd_cycle_nth cells_ok_def)
  next
    case False
    then have "cycle_ok (set (closers s)) k (cycles s' ! k)"
      using assms k by (simp add: upd_cycle_nth cells_ok_def)
    then show ?thesis using assms(4) [OF False] cycle_ok_mono by blast
  qed
  then show ?thesis using assms unfolding cells_ok_def by simp
qed

lemma cells_same:
  assumes "cells_ok s" "cycles s' = cycles s" "serve_started_gen s' = serve_started_gen s"
    and "\<And>k. AbortLock k \<in> set (closers s) \<Longrightarrow> AbortLock k \<in> set (closers s')"
  shows "cells_ok s'"
  using assms cycle_ok_mono [of "set (closers s)" _ _ "set (closers s')"] unfolding cells_ok_def by auto

lemma abort_lock_ok: "cycle_ok cl h c \<Longrightarrow> cycle_ok cl' h (abort_lock c)"
  by (cases "cyc_join c") (auto simp: cycle_ok_def cell_updates)

lemma closer_cells:
  assumes "cells_ok s" "closers s = xs @ c # ys" "closer_step c s = Some (c', s')"
  shows "cells_ok (s'\<lparr>closers := xs @ (case c' of None \<Rightarrow> [] | Some d \<Rightarrow> [d]) @ ys\<rparr>)"
proof (cases c)
  case (DrainShutdown h)
  show ?thesis
    by (rule cells_upd [OF assms(1), of _ h handle_shutdown])
      (use DrainShutdown assms in \<open>auto simp: cycle_ok_def cell_updates\<close>)
next
  case (DrainTake h)
  show ?thesis
    by (rule cells_upd [OF assms(1), of _ h "\<lambda>c. snd (take_join c)"])
      (use DrainTake assms in \<open>auto simp: cycle_ok_def cell_updates upd_cycle_def split: if_splits\<close>)
next
  case (DrainWait h got)
  show ?thesis
    by (rule cells_same [OF assms(1)]) (use DrainWait assms in \<open>auto split: if_splits\<close>)
next
  case (AbortStore h)
  show ?thesis
    by (rule cells_upd [OF assms(1), of _ h abort_store])
      (use AbortStore assms in \<open>auto simp: cycle_ok_def cell_updates\<close>)
next
  case (AbortLock h)
  show ?thesis
    by (rule cells_upd [OF assms(1), of _ h abort_lock])
      (use AbortLock assms in \<open>auto intro: abort_lock_ok\<close>)
next
  case FinishClose
  show ?thesis
    by (rule cells_same [OF assms(1)]) (use FinishClose assms in \<open>auto simp: clear_local_service_def\<close>)
qed

lemma accept_cells:
  assumes "cells_ok s" "accept_step e h s = Some s'" "h < length (cycles s)"
  shows "cells_ok s'"
  using assms(2)
  by (cases e)
    (auto simp: accept_step_def Let_def split: if_splits intro!: cells_upd [OF assms(1)],
     auto simp: cycle_ok_def task_ended_def)

lemma token_inj:
  assumes "cells_ok s" "length (cycles s) < 2 ^ 64" "i < length (cycles s)" "j < length (cycles s)"
    and "is_same_cycle (cycles s ! i) (cycles s ! j)"
  shows "i = j"
proof -
  have "(of_nat (Suc i) :: u64) = of_nat (Suc j)"
    using assms unfolding cells_ok_def cycle_ok_def is_same_cycle_def by metis
  then show ?thesis
    using assms(2-4) by (simp only: word_of_nat_eq_iff) (simp add: take_bit_nat_eq_self)
qed

lemma step_cells:
  assumes "cyc_step s s'" "cells_ok s"
  shows "cells_ok s'"
  using assms(1)
proof cases
  case (st_begin dt)
  have "cycles s' = cycles s @ [pending_cycle (of_nat (Suc (length (cycles s)))) dt]"
    "closers s' = closers s" "serve_started_gen s' = of_nat (Suc (length (cycles s)))"
    using st_begin assms(2) by (simp_all add: serve_begin_def next_serve_token_def cells_ok_def add.commute)
  then show ?thesis
    using assms(2) by (auto simp: cells_ok_def nth_append less_Suc_eq cycle_ok_def pending_cycle_def)
next
  case (st_register h)
  define r where "r = register_serve_handle h s"
  have r: "cells_ok r"
  proof (cases "is_current h s \<or> serve_slot s = None")
    case True
    then show ?thesis unfolding r_def
      by (intro cells_same [OF assms(2)]) (auto simp: register_serve_handle_def clear_local_service_def)
  next
    case False
    then obtain prev where "serve_slot s = Some prev" by auto
    then show ?thesis unfolding r_def
      by (intro cells_upd [OF assms(2), of _ prev shutdown_and_close])
        (use False in \<open>auto simp: register_serve_handle_def clear_local_service_def Let_def
           cycle_ok_def cell_updates\<close>)
  qed
  have m: "cyc_pc (cycles r ! h) = Minted" "h < length (cycles r)"
    using st_register unfolding r_def
    by (auto simp: register_serve_handle_def clear_local_service_def upd_cycle_nth Let_def
        shutdown_and_close_def split: option.splits)
  show ?thesis
    unfolding st_register(1) serve_register_def r_def [symmetric]
    by (rule cells_upd [OF r, of _ h "\<lambda>c. c\<lparr>cyc_pc := Registered\<rparr>"])
      (use m in \<open>auto simp: cycle_ok_def\<close>)
next
  case (st_spawn h valid)
  show ?thesis unfolding st_spawn(1) serve_spawn_def
    by (rule cells_upd [OF assms(2) refl]) (use st_spawn in \<open>auto simp: cycle_ok_def task_ended_def\<close>)
next
  case (st_attach h)
  show ?thesis unfolding st_attach(1) serve_attach_def
    by (rule cells_upd [OF assms(2) refl]) (use st_attach in \<open>auto simp: cycle_ok_def cell_updates\<close>)
next
  case (st_confirm h)
  show ?thesis unfolding st_confirm(1) set_serve_handle_def
    by (auto intro!: assms(2) cells_upd [OF assms(2), of _ h shutdown_and_close]
        simp: cycle_ok_def cell_updates)
next
  case (st_local h svc)
  show ?thesis by (rule cells_same [OF assms(2)]) (auto simp: st_local(1) set_local_service_for_def)
next
  case st_stop
  show ?thesis
  proof (cases "serve_slot s")
    case None
    then show ?thesis
      by (intro cells_same [OF assms(2)]) (auto simp: st_stop stop_serve_def clear_local_service_def)
  next
    case (Some h)
    then show ?thesis
      by (intro cells_upd [OF assms(2), of _ h handle_shutdown])
        (auto simp: st_stop stop_serve_def clear_local_service_def record_stopped_token_def upd_cycle_def
          cycle_ok_def cell_updates)
  qed
next
  case (st_close force)
  show ?thesis
    by (rule cells_same [OF assms(2)]) (auto simp: st_close close_begin_def split: option.splits)
next
  case (st_closer xs c ys c' t)
  show ?thesis unfolding st_closer(1) by (rule closer_cells [OF assms(2) st_closer(2,3)])
next
  case (st_accept h e)
  then show ?thesis using accept_cells [OF assms(2)] by blast
qed

text \<open>Requests are never withdrawn, and only its own registration makes a cycle leave \<open>Minted\<close>.\<close>

definition cell_mono :: "serve_cycle \<Rightarrow> serve_cycle \<Rightarrow> bool" where
  "cell_mono c c' \<longleftrightarrow> (shutdown_requested c \<longrightarrow> shutdown_requested c') \<and> (abort_requested c \<longrightarrow> abort_requested c')
     \<and> (cyc_pc c \<noteq> Minted \<longrightarrow> cyc_pc c' \<noteq> Minted)"

lemma cell_mono_refl [simp]: "cell_mono c c"
  by (simp add: cell_mono_def)

lemma closer_mono:
  "closer_step c s = Some (c', s') \<Longrightarrow>
     length (cycles s') = length (cycles s) \<and> serve_slot s' = serve_slot s \<and> closers s' = closers s
     \<and> (\<forall>k < length (cycles s). cell_mono (cycles s ! k) (cycles s' ! k)
          \<and> cyc_pc (cycles s' ! k) = cyc_pc (cycles s ! k))"
  by (cases c) (auto simp: cell_mono_def cell_updates upd_cycle_nth clear_local_service_def
      split: if_splits prod.splits)

lemma accept_mono:
  "accept_step e h s = Some s' \<Longrightarrow>
     length (cycles s') = length (cycles s) \<and> serve_slot s' = serve_slot s \<and> closers s' = closers s
     \<and> local_service s' = local_service s
     \<and> (\<forall>k < length (cycles s). cell_mono (cycles s ! k) (cycles s' ! k)
          \<and> cyc_pc (cycles s' ! k) = cyc_pc (cycles s ! k)
          \<and> shutdown_requested (cycles s' ! k) = shutdown_requested (cycles s ! k))"
  by (cases e) (auto simp: accept_step_def Let_def cell_mono_def upd_cycle_nth split: if_splits)

lemma register_other:
  assumes "slot_ok s" "cells_ok s" "length (cycles s) < 2 ^ 64"
    and "h < length (cycles s)" "cyc_pc (cycles s ! h) = Minted"
  shows "serve_slot (serve_register h s) = Some h" "local_service (serve_register h s) = None"
    and "closers (serve_register h s) = closers s" "length (cycles (serve_register h s)) = length (cycles s)"
    and "cyc_pc (cycles (serve_register h s) ! h) = Registered"
    and "k < length (cycles s) \<Longrightarrow> k \<noteq> h \<Longrightarrow> cycles (serve_register h s) ! k
           = (if serve_slot s = Some k then shutdown_and_close (cycles s ! k) else cycles s ! k)"
proof -
  have "\<not> is_current h s"
    using assms token_inj [OF assms(2,3)]
    by (auto simp: is_current_def slot_ok_def split: option.splits)
  then show "serve_slot (serve_register h s) = Some h" "local_service (serve_register h s) = None"
    "closers (serve_register h s) = closers s" "length (cycles (serve_register h s)) = length (cycles s)"
    "cyc_pc (cycles (serve_register h s) ! h) = Registered"
    "k < length (cycles s) \<Longrightarrow> k \<noteq> h \<Longrightarrow> cycles (serve_register h s) ! k
       = (if serve_slot s = Some k then shutdown_and_close (cycles s ! k) else cycles s ! k)"
    using assms(1,4,5)
    by (auto simp: serve_register_def register_serve_handle_def Let_def clear_local_service_def upd_cycle_def
        nth_list_update slot_ok_def split: option.splits)
qed

lemma register_self:
  assumes "slot_ok s" "cells_ok s" "length (cycles s) < 2 ^ 64"
    and "h < length (cycles s)" "cyc_pc (cycles s ! h) = Minted"
  shows "cycles (serve_register h s) ! h = (cycles s ! h)\<lparr>cyc_pc := Registered\<rparr>"
proof -
  have "\<not> is_current h s"
    using assms token_inj [OF assms(2,3)]
    by (auto simp: is_current_def slot_ok_def split: option.splits)
  then show ?thesis
    using assms(1,4,5)
    by (auto simp: serve_register_def register_serve_handle_def Let_def clear_local_service_def upd_cycle_def
        nth_list_update slot_ok_def split: option.splits)
qed

lemma step_slot:
  assumes "cyc_step s s'" "slot_ok s" "cells_ok s" "length (cycles s) < 2 ^ 64"
  shows "slot_ok s'"
  using assms(1)
proof cases
  case (st_register h)
  then show ?thesis
    using register_other [OF assms(2-4)] by (auto simp: slot_ok_def)
next
  case (st_closer xs c ys c' t)
  show ?thesis
    using assms(2) closer_mono [OF st_closer(3)] unfolding st_closer(1) slot_ok_def by auto
next
  case (st_accept h e)
  show ?thesis using assms(2) accept_mono [OF st_accept(2)] unfolding slot_ok_def by auto
qed (use assms(2) in \<open>auto simp: slot_ok_def serve_begin_def next_serve_token_def nth_append serve_spawn_def
      serve_attach_def attach_join_def upd_cycle_nth set_serve_handle_def shutdown_and_close_def
      set_local_service_for_def stop_serve_def clear_local_service_def record_stopped_token_def
      handle_shutdown_def close_begin_def upd_cycle_def nth_list_update split: option.splits if_splits\<close>)

lemma others_keep:
  assumes "others_ok s" "length (cycles s') = length (cycles s)" "serve_slot s' = serve_slot s"
    and "\<And>k. k < length (cycles s) \<Longrightarrow> cell_mono (cycles s ! k) (cycles s' ! k)"
    and "\<And>k. k < length (cycles s) \<Longrightarrow> cyc_pc (cycles s ! k) = Minted \<Longrightarrow> cyc_pc (cycles s' ! k) = Minted"
    and "\<And>k. k < length (cycles s) \<Longrightarrow> DrainShutdown k \<in> set (closers s) \<or> AbortStore k \<in> set (closers s)
       \<Longrightarrow> ending s' k"
  shows "others_ok s'"
  unfolding others_ok_def
proof (intro allI impI)
  fix k assume k: "k < length (cycles s')" "cyc_pc (cycles s' ! k) \<noteq> Minted" "serve_slot s' \<noteq> Some k"
  then have "ending s k" using assms(1,2,3,5) unfolding others_ok_def by metis
  then show "ending s' k" using assms(4,6) [of k] k(1) assms(2) unfolding ending_def cell_mono_def by auto
qed

lemma closer_others:
  assumes "others_ok s" "closers s = xs @ c # ys" "closer_step c s = Some (c', t)"
  shows "others_ok (t\<lparr>closers := xs @ (case c' of None \<Rightarrow> [] | Some d \<Rightarrow> [d]) @ ys\<rparr>)" (is "others_ok ?t")
proof (rule others_keep [OF assms(1)])
  fix k assume k: "k < length (cycles s)"
    and "DrainShutdown k \<in> set (closers s) \<or> AbortStore k \<in> set (closers s)"
  then have "c = DrainShutdown k \<or> c = AbortStore k
      \<or> DrainShutdown k \<in> set (closers ?t) \<or> AbortStore k \<in> set (closers ?t)"
    using assms(2) by auto
  then show "ending ?t k"
    using assms(3) k by (auto simp: ending_def upd_cycle_nth handle_shutdown_def abort_store_def)
qed (use closer_mono [OF assms(3)] in auto)

lemma step_others:
  assumes "cyc_step s s'" "others_ok s" "slot_ok s" "cells_ok s" "length (cycles s) < 2 ^ 64"
  shows "others_ok s'"
  using assms(1)
proof cases
  case (st_begin dt)
  then show ?thesis
    using assms(2) by (auto simp: others_ok_def ending_def serve_begin_def next_serve_token_def nth_append
        pending_cycle_def less_Suc_eq)
next
  case (st_register h)
  note ro = register_other [OF assms(3,4,5) st_register(2,3)]
  show ?thesis
    unfolding others_ok_def st_register(1)
  proof (intro allI impI)
    fix k assume "k < length (cycles (serve_register h s))" "cyc_pc (cycles (serve_register h s) ! k) \<noteq> Minted"
      "serve_slot (serve_register h s) \<noteq> Some k"
    then have k: "k < length (cycles s)" "k \<noteq> h" "serve_slot s = Some k \<or> cyc_pc (cycles s ! k) \<noteq> Minted"
      using ro by (auto split: if_splits)
    then show "ending (serve_register h s) k"
      using ro(3,6) assms(2) by (auto simp: ending_def shutdown_and_close_def others_ok_def)
  qed
next
  case (st_close force)
  then show ?thesis
    using assms(2,3) by (auto simp: others_ok_def ending_def close_begin_def slot_ok_def split: option.splits if_splits)
next
  case (st_closer xs c ys c' t)
  show ?thesis unfolding st_closer(1) by (rule closer_others [OF assms(2) st_closer(2,3)])
next
  case (st_accept h e)
  show ?thesis
    by (rule others_keep [OF assms(2)])
      (use accept_mono [OF st_accept(2)] in \<open>auto simp: ending_def\<close>)
qed ((rule others_keep [OF assms(2)],
      auto simp: serve_spawn_def serve_attach_def attach_join_def upd_cycle_nth set_serve_handle_def
      shutdown_and_close_def set_local_service_for_def stop_serve_def clear_local_service_def
      record_stopped_token_def handle_shutdown_def upd_cycle_def nth_upd cell_mono_def ending_def
      split: option.splits if_splits)[1])+

lemma local_keep:
  assumes "local_ok s" "serve_slot s' = serve_slot s" "local_service s' = local_service s"
    and "closers s \<noteq> [] \<longrightarrow> closers s' \<noteq> []"
    and "\<And>h. serve_slot s = Some h \<Longrightarrow> shutdown_requested (cycles s' ! h) \<Longrightarrow> shutdown_requested (cycles s ! h)"
  shows "local_ok s'"
  using assms unfolding local_ok_def by auto

lemma step_local:
  assumes "cyc_step s s'" "local_ok s" "slot_ok s" "cells_ok s" "length (cycles s) < 2 ^ 64"
  shows "local_ok s'"
  using assms(1)
proof cases
  case (st_register h)
  then show ?thesis using register_other [OF assms(3,4,5) st_register(2,3)] by (simp add: local_ok_def)
next
  case (st_confirm h)
  have "h \<noteq> k" if "serve_slot s = Some k" "\<not> is_current h s" for k
    using that by (auto simp: is_current_def is_same_cycle_def)
  then show ?thesis
    using assms(2) by (auto simp: st_confirm(1) set_serve_handle_def local_ok_def upd_cycle_def)
next
  case (st_local h svc)
  have "is_current h s \<Longrightarrow> \<not> shutdown_requested (cycles s ! h) \<Longrightarrow>
      \<exists>k. serve_slot s = Some k \<and> \<not> shutdown_requested (cycles s ! k)"
    using assms(3) token_inj [OF assms(4,5)] st_local(2)
    by (auto simp: is_current_def slot_ok_def split: option.splits)
  then show ?thesis using assms(2) by (auto simp: st_local(1) set_local_service_for_def local_ok_def)
next
  case (st_closer xs c ys c' t)
  show ?thesis
  proof (cases "c = FinishClose")
    case True
    then show ?thesis using st_closer by (auto simp: local_ok_def clear_local_service_def)
  next
    case False
    then have "c' \<noteq> None" using st_closer(3) by (cases c) (auto split: if_splits prod.splits)
    then show ?thesis by (auto simp: st_closer(1) local_ok_def)
  qed
next
  case (st_accept h e)
  show ?thesis
    by (rule local_keep [OF assms(2)])
      (use accept_mono [OF st_accept(2)] assms(3) in \<open>auto simp: slot_ok_def\<close>)
next
  case (st_begin dt)
  show ?thesis
    by (rule local_keep [OF assms(2)])
      (use assms(3) in \<open>auto simp: st_begin serve_begin_def next_serve_token_def slot_ok_def nth_append\<close>)
next
  case (st_spawn h valid)
  show ?thesis
    by (rule local_keep [OF assms(2)])
      (use assms(3) in \<open>auto simp: st_spawn serve_spawn_def slot_ok_def upd_cycle_nth split: if_splits\<close>)
next
  case (st_attach h)
  show ?thesis
    by (rule local_keep [OF assms(2)])
      (use assms(3) in \<open>auto simp: st_attach serve_attach_def attach_join_def slot_ok_def upd_cycle_nth
         split: if_splits\<close>)
next
  case st_stop
  then show ?thesis
    by (simp add: local_ok_def stop_serve_def clear_local_service_def record_stopped_token_def split: option.splits)
next
  case (st_close force)
  then show ?thesis by (simp add: local_ok_def close_begin_def)
qed

lemma step_length: "cyc_step s s' \<Longrightarrow> length (cycles s) \<le> length (cycles s')"
proof (induction rule: cyc_step.induct)
  case (st_closer s xs c ys c' s')
  then show ?case using closer_mono [OF st_closer(2)] by simp
next
  case (st_accept h s e s')
  then show ?case using accept_mono [OF st_accept(2)] by simp
qed (auto simp: serve_begin_def next_serve_token_def serve_register_def register_serve_handle_def Let_def
      clear_local_service_def serve_spawn_def serve_attach_def set_serve_handle_def set_local_service_for_def
      stop_serve_def record_stopped_token_def close_begin_def split: option.splits)

lemma cyc_reachable_inv:
  "cyc_reachable s \<Longrightarrow> length (cycles s) < 2 ^ 64 \<Longrightarrow> cells_ok s \<and> slot_ok s \<and> others_ok s \<and> local_ok s"
proof (induction rule: cyc_reachable.induct)
  case cyc_start
  then show ?case
    by (simp add: session_new_def cells_ok_def slot_ok_def others_ok_def local_ok_def)
next
  case (cyc_next s s')
  then have "length (cycles s) < 2 ^ 64" using step_length [OF cyc_next(2)] by simp
  then show ?case
    using cyc_next step_cells step_slot step_others step_local by blast
qed

lemma steps_reachable: "cyc_step\<^sup>*\<^sup>* s s' \<Longrightarrow> cyc_reachable s \<Longrightarrow> cyc_reachable s'"
  by (induction rule: rtranclp_induct) (auto intro: cyc_next)

lemma step_requested:
  assumes "cyc_step s s'" "h < length (cycles s)" "shutdown_requested (cycles s ! h)"
  shows "h < length (cycles s') \<and> shutdown_requested (cycles s' ! h)"
  using assms
proof (induction rule: cyc_step.induct)
  case (st_closer s xs c ys c' s')
  then show ?case using closer_mono [OF st_closer(2)] by (simp add: cell_mono_def)
next
  case (st_accept k s e s')
  then show ?case using accept_mono [OF st_accept(2)] by simp
qed (auto simp: serve_begin_def next_serve_token_def serve_register_def register_serve_handle_def Let_def
      clear_local_service_def serve_spawn_def serve_attach_def set_serve_handle_def set_local_service_for_def
      stop_serve_def record_stopped_token_def close_begin_def nth_append upd_cycle_def nth_upd attach_join_def
      shutdown_and_close_def handle_shutdown_def split: option.splits)

lemma steps_requested:
  "cyc_step\<^sup>*\<^sup>* s s' \<Longrightarrow> h < length (cycles s) \<Longrightarrow> shutdown_requested (cycles s ! h)
     \<Longrightarrow> h < length (cycles s') \<and> shutdown_requested (cycles s' ! h)"
  by (induction rule: rtranclp_induct) (auto dest: step_requested)

section \<open>Properties\<close>

text \<open>Property C2.  At most one live serve cycle: in every reachable state of an endpoint (below
  \<open>2^64\<close> cycles), two registered cycles that are not being ended are the same one, and it is the one
  in the endpoint's slot, which stopping and closing reach.\<close>

theorem at_most_one_live_cycle:
  assumes "cyc_reachable s" and "length (cycles s) < 2 ^ 64"
    and "i < length (cycles s)" "cyc_pc (cycles s ! i) \<noteq> Minted" "\<not> ending s i"
    and "j < length (cycles s)" "cyc_pc (cycles s ! j) \<noteq> Minted" "\<not> ending s j"
  shows "i = j \<and> serve_slot s = Some i"
  using cyc_reachable_inv [OF assms(1,2)] assms(3-8) unfolding others_ok_def by (metis option.inject)

theorem at_most_one_live_cycle_witness:
  "\<exists>s. cyc_reachable s \<and> length (cycles s) = 2 \<and> shutdown_requested (cycles s ! 0)
     \<and> \<not> ending s 1 \<and> serve_slot s = Some 1"
proof -
  define s where "s = serve_register 1 (snd (serve_begin 5 (serve_register 0 (snd (serve_begin 5 session_new)))))"
  have r: "cyc_reachable s"
    unfolding s_def
    by (intro cyc_next [OF _ st_register] cyc_next [OF _ st_begin] cyc_start)
      (simp_all add: serve_begin_def next_serve_token_def session_new_def pending_cycle_def serve_register_def
        register_serve_handle_def is_current_def clear_local_service_def upd_cycle_def)
  have f: "length (cycles s) = 2" "shutdown_requested (cycles s ! 0)" "\<not> ending s 1"
    "cyc_pc (cycles s ! 1) \<noteq> Minted"
    by (simp_all add: s_def serve_begin_def next_serve_token_def session_new_def pending_cycle_def ending_def
        serve_register_def register_serve_handle_def is_current_def is_same_cycle_def clear_local_service_def
        upd_cycle_def shutdown_and_close_def)
  have "serve_slot s = Some 1"
    using at_most_one_live_cycle [OF r, of 1 1] f by simp
  then show ?thesis using r f by blast
qed

text \<open>Property C8.  A stop is never lost, whether it arrives before the accept task is spawned, while it
  waits or during a handshake: from then on, whatever else happens, the cycle's task accepts no further
  connection, and whenever it is at its select it takes the shutdown branch.\<close>

theorem stop_is_never_lost:
  assumes "cyc_reachable s" "serve_slot s = Some h" "cyc_step\<^sup>*\<^sup>* (stop_serve s) s'"
    and "length (cycles s') < 2 ^ 64"
  shows "shutdown_requested (cycles s' ! h) \<and> accept_step AccIncoming h s' = None
     \<and> (cyc_task (cycles s' ! h) = Selecting \<longrightarrow> accept_step AccShutdown h s' \<noteq> None)"
proof -
  have r: "cyc_reachable s'"
    using steps_reachable [OF assms(3)] cyc_next [OF assms(1) st_stop] by blast
  have l: "length (cycles s) \<le> length (cycles s')"
    using assms(3)
  proof (induction rule: rtranclp_induct)
    case base
    then show ?case using step_length [OF st_stop] by simp
  next
    case (step y z)
    then show ?case using step_length [OF step(2)] by simp
  qed
  then have h: "h < length (cycles s)"
    using cyc_reachable_inv [OF assms(1)] assms(2,4) by (auto simp: slot_ok_def)
  have "h < length (cycles (stop_serve s))" "shutdown_requested (cycles (stop_serve s) ! h)"
    using h assms(2) by (simp_all add: stop_serve_def upd_cycle_nth clear_local_service_def
        record_stopped_token_def handle_shutdown_def)
  then have q: "h < length (cycles s')" "shutdown_requested (cycles s' ! h)"
    using steps_requested [OF assms(3)] by blast+
  then have "cycle_ok (set (closers s')) h (cycles s' ! h)"
    using cyc_reachable_inv [OF r assms(4)] by (simp add: cells_ok_def)
  then show ?thesis
    using q by (auto simp: cycle_ok_def accept_step_def Let_def)
qed

theorem stop_is_never_lost_witness:
  "\<exists>s s'. cyc_reachable s \<and> cyc_step\<^sup>*\<^sup>* (stop_serve s) s' \<and> cyc_task (cycles s' ! 0) = Selecting
     \<and> accept_step AccShutdown 0 s' \<noteq> None"
proof -
  define s where "s = serve_register 0 (snd (serve_begin 5 session_new))"
  define s' where "s' = serve_spawn True 0 (stop_serve s)"
  have r: "cyc_reachable s"
    unfolding s_def
    by (intro cyc_next [OF _ st_register] cyc_next [OF _ st_begin] cyc_start)
      (simp_all add: serve_begin_def next_serve_token_def session_new_def pending_cycle_def)
  have f: "serve_slot s = Some 0" "cyc_task (cycles s' ! 0) = Selecting" "length (cycles s') < 2 ^ 64"
    "0 < length (cycles (stop_serve s))" "cyc_pc (cycles (stop_serve s) ! 0) = Registered"
    by (simp_all add: s_def s'_def serve_begin_def next_serve_token_def session_new_def pending_cycle_def
        serve_register_def register_serve_handle_def is_current_def clear_local_service_def upd_cycle_def
        stop_serve_def record_stopped_token_def handle_shutdown_def serve_spawn_def)
  have st: "cyc_step\<^sup>*\<^sup>* (stop_serve s) s'"
    unfolding s'_def by (rule r_into_rtranclp) (rule st_spawn [OF f(4,5)])
  show ?thesis using stop_is_never_lost [OF r f(1) st f(3)] r f(2) st by blast
qed

text \<open>An abort is never lost: once a forced close has finished with a cycle whose join handle
  no drain has taken, the cycle's task is ended as soon as the serving call has attached it, also when
  the abort overtook the attachment.\<close>

theorem abort_is_never_lost:
  assumes "cyc_reachable s" "length (cycles s) < 2 ^ 64" "h < length (cycles s)"
    and "abort_requested (cycles s ! h)" "AbortLock h \<notin> set (closers s)"
    and "cyc_pc (cycles s ! h) = Attached" "cyc_join (cycles s ! h) \<noteq> JoinTaken"
  shows "task_ended (cycles s ! h) \<and> done_observed (cycles s ! h)"
  using cyc_reachable_inv [OF assms(1,2)] assms(3-7)
  by (auto simp: cells_ok_def cycle_ok_def done_observed_def)

lemmas cycle_eval = serve_begin_def next_serve_token_def session_new_def pending_cycle_def serve_register_def
  register_serve_handle_def is_current_def is_same_cycle_def clear_local_service_def upd_cycle_def
  serve_spawn_def serve_attach_def close_begin_def

theorem abort_is_never_lost_witness:
  "\<exists>s. cyc_reachable s \<and> abort_requested (cycles s ! 0) \<and> task_ended (cycles s ! 0)"
proof -
  define s0 where "s0 = serve_spawn True 0 (serve_register 0 (snd (serve_begin 5 session_new)))"
  define s1 where "s1 = close_begin True s0"
  define s2 where "s2 = (upd_cycle 0 abort_store s1)\<lparr>closers := [AbortLock 0]\<rparr>"
  define s3 where "s3 = (upd_cycle 0 abort_lock s2)\<lparr>closers := [FinishClose]\<rparr>"
  define s4 where "s4 = serve_attach 0 s3"
  have r0: "cyc_reachable s0"
    unfolding s0_def
    by (intro cyc_next [OF _ st_register] cyc_next [OF _ st_begin] cyc_next [OF _ st_spawn] cyc_start)
      (simp_all add: cycle_eval)
  have c1: "closers s1 = [AbortStore 0]" by (simp add: s1_def s0_def cycle_eval)
  have r1: "cyc_reachable s1" unfolding s1_def by (rule cyc_next [OF r0 st_close])
  have r2: "cyc_reachable s2"
    using cyc_next [OF r1 st_closer [of s1 "[]" "AbortStore 0" "[]"]] c1 by (simp add: s2_def)
  have r3: "cyc_reachable s3"
    using cyc_next [OF r2 st_closer [of s2 "[]" "AbortLock 0" "[]"]] by (simp add: s2_def s3_def)
  have f: "0 < length (cycles s3)" "cyc_pc (cycles s3 ! 0) = Spawned"
    by (simp_all add: s3_def s2_def s1_def s0_def cycle_eval abort_store_def abort_lock_def)
  have r4: "cyc_reachable s4" unfolding s4_def by (rule cyc_next [OF r3 st_attach [OF f]])
  have g: "length (cycles s4) < 2 ^ 64" "0 < length (cycles s4)" "abort_requested (cycles s4 ! 0)"
    "AbortLock 0 \<notin> set (closers s4)" "cyc_pc (cycles s4 ! 0) = Attached" "cyc_join (cycles s4 ! 0) \<noteq> JoinTaken"
    by (simp_all add: s4_def s3_def s2_def s1_def s0_def cycle_eval abort_store_def abort_lock_def attach_join_def)
  show ?thesis using abort_is_never_lost [OF r4 g] r4 g(3) by blast
qed

text \<open>Self-requests reach only a serving handler: whenever no close is in progress, a
  registered local service means that the endpoint has a current cycle with no stop requested; a stop
  clears it, and a late installation for a stopped or replaced cycle changes nothing.\<close>

theorem local_service_only_while_serving:
  assumes "cyc_reachable s" "length (cycles s) < 2 ^ 64" "closers s = []"
  shows "(local_service_lookup alive s = Some d
           \<longrightarrow> (\<exists>h. serve_slot s = Some h \<and> \<not> shutdown_requested (cycles s ! h)))
     \<and> local_service_lookup alive (stop_serve s) = None
     \<and> (serve_slot s \<noteq> Some h \<and> h < length (cycles s) \<longrightarrow> set_local_service_for h d s = s)"
proof -
  note inv = cyc_reachable_inv [OF assms(1,2)]
  have "\<not> is_current h s" if "serve_slot s \<noteq> Some h" "h < length (cycles s)"
    using that inv token_inj [of s _ h] assms(2) by (auto simp: is_current_def slot_ok_def split: option.splits)
  then show ?thesis
    using inv assms(3)
    by (auto simp: local_ok_def local_service_lookup_def stop_serve_def clear_local_service_def
        record_stopped_token_def set_local_service_for_def split: option.splits if_splits)
qed

theorem local_service_only_while_serving_witness:
  "\<exists>s. cyc_reachable s \<and> local_service_lookup (\<lambda>_. True) s = Some 7 \<and> serve_slot s = Some 0
     \<and> local_service_lookup (\<lambda>_. True) (stop_serve s) = None"
proof -
  define s0 where "s0 = serve_attach 0 (serve_spawn True 0 (serve_register 0 (snd (serve_begin 5 session_new))))"
  define s where "s = set_local_service_for 0 7 s0"
  have r0: "cyc_reachable s0"
    unfolding s0_def
    by (intro cyc_next [OF _ st_register] cyc_next [OF _ st_begin] cyc_next [OF _ st_spawn]
        cyc_next [OF _ st_attach] cyc_start)
      (simp_all add: cycle_eval attach_join_def)
  have f: "0 < length (cycles s0)" "cyc_pc (cycles s0 ! 0) = Attached"
    by (simp_all add: s0_def cycle_eval attach_join_def)
  have r: "cyc_reachable s" unfolding s_def by (rule cyc_next [OF r0 st_local [OF f]])
  have g: "length (cycles s) < 2 ^ 64" "closers s = []" "local_service s = Some 7" "serve_slot s = Some 0"
    by (simp_all add: s_def s0_def set_local_service_for_def cycle_eval attach_join_def)
  show ?thesis
    using local_service_only_while_serving [OF r g(1,2), of "\<lambda>_. True"] r g(3,4)
    by (auto simp: local_service_lookup_def)
qed

text \<open>Confirming a handle acts on its own cycle only: for the current cycle it does nothing,
  and a late confirmation of a replaced cycle leaves the slot and every other cycle as they are and
  shuts the confirmed one down and closes its connections.\<close>

theorem late_confirmation_is_harmless:
  assumes "cyc_reachable s" "length (cycles s) < 2 ^ 64" "h < length (cycles s)"
  shows "serve_slot (set_serve_handle h s) = serve_slot s
     \<and> (\<forall>k < length (cycles s). k \<noteq> h \<longrightarrow> cycles (set_serve_handle h s) ! k = cycles s ! k)
     \<and> (if serve_slot s = Some h then set_serve_handle h s = s
        else shutdown_requested (cycles (set_serve_handle h s) ! h)
          \<and> cyc_close_flag (cycles (set_serve_handle h s) ! h))"
proof -
  note inv = cyc_reachable_inv [OF assms(1,2)]
  have "is_current h s \<longleftrightarrow> serve_slot s = Some h"
    using assms(2,3) inv token_inj [of s _ h]
    by (auto simp: is_current_def is_same_cycle_def slot_ok_def split: option.splits)
  then show ?thesis
    using assms(3) by (auto simp: set_serve_handle_def upd_cycle_nth shutdown_and_close_def)
qed

theorem late_confirmation_is_harmless_witness:
  "\<exists>s. cyc_reachable s \<and> serve_slot s = Some 1 \<and> serve_slot (set_serve_handle 0 s) = Some 1
     \<and> cycles (set_serve_handle 0 s) ! 1 = cycles s ! 1"
proof -
  define s where "s = serve_register 1 (snd (serve_begin 5 (serve_register 0 (snd (serve_begin 5 session_new)))))"
  have r: "cyc_reachable s"
    unfolding s_def
    by (intro cyc_next [OF _ st_register] cyc_next [OF _ st_begin] cyc_start) (simp_all add: cycle_eval)
  have f: "length (cycles s) = 2" "serve_slot s = Some 1"
    by (simp_all add: s_def cycle_eval shutdown_and_close_def)
  show ?thesis using late_confirmation_is_harmless [OF r, of 0] r f by (intro exI [of _ s]) auto
qed

end
