(* ===== verification/Conn_Pool.thy ===== *)
theory Conn_Pool
  imports Serve_Runtime
begin

text \<open>
  \<^verbatim>\<open>src/crates/iroh-http-core/src/http/transport/pool.rs\<close>: the pool of outgoing connections, with
  the events of \<^verbatim>\<open>http/events.rs\<close> it emits.

  The cache is library code and a parameter (\<open>cache_ops\<close>); the locale \<open>entry_cache\<close> states the
  documented behaviour used: per-key atomic operations on a map, from which the cache may drop
  entries of its own when something is inserted.  \<open>get_or_connect\<close> is a program of atomic steps, one
  per await, so that other callers can run between any two of them.
\<close>

section \<open>State\<close>

datatype transport_event = PoolHit string millis | PoolMiss string millis | PoolEvict string millis
  | PathChange string string bool millis | HandleSweep nat millis

record pool_key =
  key_node :: public_key
  key_alpn :: bytes

text \<open>A connection is known by an identity of the transport.\<close>

record pooled_connection =
  pooled_conn :: nat
  remote_id_str :: string
  dial_seq :: u64

record 'c cache_ops =
  cache_get :: "pool_key \<Rightarrow> 'c \<Rightarrow> pooled_connection option \<times> 'c"
  cache_remove_if :: "pool_key \<Rightarrow> (pooled_connection \<Rightarrow> bool) \<Rightarrow> 'c \<Rightarrow> pooled_connection option \<times> 'c"
  cache_insert :: "pool_key \<Rightarrow> pooled_connection \<Rightarrow> 'c \<Rightarrow> 'c"

locale entry_cache =
  fixes ops :: "'c cache_ops" and view :: "'c \<Rightarrow> pool_key \<Rightarrow> pooled_connection option"
  assumes get_law: "cache_get ops k c = (r, c') \<Longrightarrow> r = view c k \<and> view c' = view c"
    and remove_law: "cache_remove_if ops k P c = (r, c') \<Longrightarrow>
       r = (case view c k of None \<Rightarrow> None | Some v \<Rightarrow> if P v then Some v else None)
       \<and> view c' = (if r = None then view c else (view c)(k := None))"
    and insert_law: "view (cache_insert ops k v c) k' = None
       \<or> view (cache_insert ops k v c) k' = (if k' = k then Some v else view c k')"

record 'c pool =
  cache :: 'c
  dial_counter :: u64 \<comment> \<open>\<open>DIAL_SEQ\<close>\<close>
  closed_conns :: "(nat \<times> string) list" \<comment> \<open>connections with a close reason\<close>
  event_queue :: "transport_event list"
  event_capacity :: "nat option" \<comment> \<open>\<open>None\<close>: no event channel\<close>
  pool_now :: millis

definition pool_new :: "'c \<Rightarrow> u64 \<Rightarrow> nat option \<Rightarrow> 'c pool" where
  "pool_new c0 seq cap = \<lparr>cache = c0, dial_counter = seq, closed_conns = [], event_queue = [],
     event_capacity = cap, pool_now = 0\<rparr>"

definition close_reason :: "nat \<Rightarrow> 'c pool \<Rightarrow> string option" where
  "close_reason n p = map_of (closed_conns p) n"

definition close_conn :: "nat \<Rightarrow> string \<Rightarrow> 'c pool \<Rightarrow> 'c pool" where
  "close_conn n reason p = (if close_reason n p = None
     then p\<lparr>closed_conns := (n, reason) # closed_conns p\<rparr> else p)"

text \<open>\<open>try_send\<close>: an event is dropped when the bounded channel is full.\<close>

definition emit :: "(millis \<Rightarrow> transport_event) \<Rightarrow> 'c pool \<Rightarrow> 'c pool" where
  "emit ev p = (case event_capacity p of None \<Rightarrow> p
     | Some cap \<Rightarrow> if length (event_queue p) < cap
         then p\<lparr>event_queue := event_queue p @ [ev (pool_now p)]\<rparr> else p)"

definition pooled_new :: "(bytes \<Rightarrow> string) \<Rightarrow> public_key \<Rightarrow> nat \<Rightarrow> 'c pool \<Rightarrow> pooled_connection \<times> 'c pool" where
  "pooled_new base32 remote n p =
     (\<lparr>pooled_conn = n, remote_id_str = base32 remote, dial_seq = dial_counter p\<rparr>,
      p\<lparr>dial_counter := dial_counter p + 1\<rparr>)"

section \<open>Operations\<close>

definition compare_and_remove :: "'c cache_ops \<Rightarrow> pool_key \<Rightarrow> u64 \<Rightarrow> 'c pool
    \<Rightarrow> pooled_connection option \<times> 'c pool" where
  "compare_and_remove ops key seq p =
     (case cache_remove_if ops key (\<lambda>v. dial_seq v = seq) (cache p) of (r, c) \<Rightarrow> (r, p\<lparr>cache := c\<rparr>))"

definition get_existing :: "'c cache_ops \<Rightarrow> pool_key \<Rightarrow> 'c pool \<Rightarrow> pooled_connection option \<times> 'c pool" where
  "get_existing ops key p = (case cache_get ops key (cache p) of (r, c) \<Rightarrow>
     (case r of None \<Rightarrow> None
      | Some v \<Rightarrow> if close_reason (pooled_conn v) p = None then Some v else None, p\<lparr>cache := c\<rparr>))"

definition evict_and_close :: "'c cache_ops \<Rightarrow> pool_key \<Rightarrow> string \<Rightarrow> u64 option \<Rightarrow> 'c pool \<Rightarrow> 'c pool" where
  "evict_and_close ops key reason expected p = (case expected of None \<Rightarrow> p
     | Some seq \<Rightarrow> (case compare_and_remove ops key seq p of
          (None, p1) \<Rightarrow> p1
        | (Some v, p1) \<Rightarrow> close_conn (pooled_conn v) reason (emit (PoolEvict (remote_id_str v)) p1)))"

definition evict_only :: "'c cache_ops \<Rightarrow> pool_key \<Rightarrow> u64 option \<Rightarrow> 'c pool \<Rightarrow> 'c pool" where
  "evict_only ops key expected p = (case expected of None \<Rightarrow> p
     | Some seq \<Rightarrow> (case compare_and_remove ops key seq p of
          (None, p1) \<Rightarrow> p1
        | (Some v, p1) \<Rightarrow> emit (PoolEvict (remote_id_str v)) p1))"

subsection \<open>\<open>get_or_connect\<close>\<close>

text \<open>How the single-flight entry ends when the key is absent: with this caller's dial, or with the
  outcome of the dial of another caller.\<close>

datatype flight = OwnDial "string + (public_key \<times> nat)" | OtherFailed string | OtherDialed pooled_connection

datatype goc_pc = GLookup | GCompareStale pooled_connection | GFlight | GCheckFresh pooled_connection
  | GCompareFresh pooled_connection | GReplacement | GDone "string + (pooled_connection \<times> bool)"

definition ERR_CLOSED_IMMEDIATELY :: string where
  "ERR_CLOSED_IMMEDIATELY = ''pooled connection closed immediately after connect''"

text \<open>Phase 1 is \<open>GLookup\<close>/\<open>GCompareStale\<close>, the loop; phase 2 starts with the miss event.\<close>

definition enter_phase2 :: "(bytes \<Rightarrow> string) \<Rightarrow> pool_key \<Rightarrow> 'c pool \<Rightarrow> goc_pc \<times> 'c pool" where
  "enter_phase2 base32 key p = (GFlight, emit (PoolMiss (base32 (key_node key))) p)"

definition try_get_with :: "'c cache_ops \<Rightarrow> (bytes \<Rightarrow> string) \<Rightarrow> pool_key \<Rightarrow> flight \<Rightarrow> 'c pool
    \<Rightarrow> (string + pooled_connection) \<times> 'c pool" where
  "try_get_with ops base32 key fl p = (case cache_get ops key (cache p) of (r, c) \<Rightarrow>
     let p1 = p\<lparr>cache := c\<rparr> in
     (case r of
        Some v \<Rightarrow> (Inr v, p1)
      | None \<Rightarrow> (case fl of
           OwnDial (Inl e) \<Rightarrow> (Inl e, p1)
         | OwnDial (Inr (remote, n)) \<Rightarrow> (case pooled_new base32 remote n p1 of (v, p2) \<Rightarrow>
              (Inr v, p2\<lparr>cache := cache_insert ops key v (cache p2)\<rparr>))
         | OtherFailed e \<Rightarrow> (Inl e, p1)
         | OtherDialed v \<Rightarrow> (Inr v, p1))))"

definition goc_step :: "'c cache_ops \<Rightarrow> (bytes \<Rightarrow> string) \<Rightarrow> pool_key \<Rightarrow> flight \<Rightarrow> goc_pc \<Rightarrow> 'c pool
    \<Rightarrow> goc_pc \<times> 'c pool" where
  "goc_step ops base32 key fl pc p = (case pc of
       GLookup \<Rightarrow> (case cache_get ops key (cache p) of (r, c) \<Rightarrow>
          let p1 = p\<lparr>cache := c\<rparr> in
          (case r of
             None \<Rightarrow> enter_phase2 base32 key p1
           | Some v \<Rightarrow> if close_reason (pooled_conn v) p1 = None
               then (GDone (Inr (v, True)), emit (PoolHit (remote_id_str v)) p1)
               else (GCompareStale v, p1)))
     | GCompareStale v \<Rightarrow> (case compare_and_remove ops key (dial_seq v) p of
          (None, p1) \<Rightarrow> (GLookup, p1)
        | (Some w, p1) \<Rightarrow> enter_phase2 base32 key (emit (PoolEvict (remote_id_str w)) p1))
     | GFlight \<Rightarrow> (case try_get_with ops base32 key fl p of
          (Inl e, p1) \<Rightarrow> (GDone (Inl e), p1)
        | (Inr v, p1) \<Rightarrow> (GCheckFresh v, p1))
     | GCheckFresh v \<Rightarrow> if close_reason (pooled_conn v) p = None then (GDone (Inr (v, False)), p)
          else (GCompareFresh v, p)
     | GCompareFresh v \<Rightarrow> (case compare_and_remove ops key (dial_seq v) p of
          (None, p1) \<Rightarrow> (GReplacement, p1)
        | (Some _, p1) \<Rightarrow> (GDone (Inl ERR_CLOSED_IMMEDIATELY), p1))
     | GReplacement \<Rightarrow> (case cache_get ops key (cache p) of (r, c) \<Rightarrow>
          let p1 = p\<lparr>cache := c\<rparr> in
          (case r of
             None \<Rightarrow> (GDone (Inl ERR_CLOSED_IMMEDIATELY), p1)
           | Some w \<Rightarrow> if close_reason (pooled_conn w) p1 = None
               then (GDone (Inr (w, True)), emit (PoolHit (remote_id_str w)) p1)
               else (GDone (Inl ERR_CLOSED_IMMEDIATELY), p1)))
     | GDone r \<Rightarrow> (GDone r, p))"

text \<open>A call with what the other tasks do before each of its steps; \<open>None\<close> while it is running.\<close>

fun get_or_connect_from :: "'c cache_ops \<Rightarrow> (bytes \<Rightarrow> string) \<Rightarrow> pool_key \<Rightarrow> flight \<Rightarrow> goc_pc
    \<Rightarrow> ('c pool \<Rightarrow> 'c pool) list \<Rightarrow> 'c pool \<Rightarrow> (string + (pooled_connection \<times> bool)) option \<times> 'c pool" where
  "get_or_connect_from ops base32 key fl (GDone r) env p = (Some r, p)"
| "get_or_connect_from ops base32 key fl pc [] p = (None, p)"
| "get_or_connect_from ops base32 key fl pc (e # es) p = (case goc_step ops base32 key fl pc (e p) of
     (pc', p') \<Rightarrow> get_or_connect_from ops base32 key fl pc' es p')"

definition get_or_connect :: "'c cache_ops \<Rightarrow> (bytes \<Rightarrow> string) \<Rightarrow> pool_key \<Rightarrow> flight
    \<Rightarrow> ('c pool \<Rightarrow> 'c pool) list \<Rightarrow> 'c pool \<Rightarrow> (string + (pooled_connection \<times> bool)) option \<times> 'c pool" where
  "get_or_connect ops base32 key fl env p = get_or_connect_from ops base32 key fl GLookup env p"

section \<open>A cache that meets the contract\<close>

definition alist_cache :: "(pool_key \<times> pooled_connection) list cache_ops" where
  "alist_cache = \<lparr>cache_get = (\<lambda>k c. (map_of c k, c)),
     cache_remove_if = (\<lambda>k P c. case map_of c k of
        Some v \<Rightarrow> if P v then (Some v, filter (\<lambda>(k', _). k' \<noteq> k) c) else (None, c)
      | None \<Rightarrow> (None, c)),
     cache_insert = (\<lambda>k v c. (k, v) # c)\<rparr>"

interpretation alist_pool: entry_cache alist_cache map_of
proof (unfold_locales, goal_cases)
  case (1 k c r c')
  then show ?case by (auto simp: alist_cache_def)
next
  case (2 k P c r c')
  have f: "map_of (filter (\<lambda>(k', _). k' \<noteq> k) c) = (map_of c)(k := None)"
    by (induction c) (auto simp: fun_eq_iff)
  show ?case
  proof (cases "\<exists>v. map_of c k = Some v \<and> P v")
    case True
    then obtain v where v: "map_of c k = Some v" "P v" by blast
    then have "r = Some v" "c' = filter (\<lambda>(k', _). k' \<noteq> k) c" using 2 by (simp_all add: alist_cache_def)
    then show ?thesis using v f by simp
  next
    case False
    then have "r = None" "c' = c" using 2 by (auto simp: alist_cache_def split: option.splits if_splits)
    then show ?thesis using False by (simp split: option.splits)
  qed
next
  case (3 k v c k')
  then show ?case by (simp add: alist_cache_def)
qed

section \<open>Consequences of the contract\<close>

context entry_cache
begin

lemma compare_and_remove_spec:
  assumes "compare_and_remove ops key seq p = (r, p')"
  shows "r = (case view (cache p) key of None \<Rightarrow> None | Some v \<Rightarrow> if dial_seq v = seq then Some v else None)"
    and "view (cache p') = (if r = None then view (cache p) else (view (cache p))(key := None))"
    and "p' = p\<lparr>cache := cache p'\<rparr>"
  using assms remove_law [of key "\<lambda>v. dial_seq v = seq" "cache p"]
  by (auto simp: compare_and_remove_def split: prod.splits)

lemma cache_get_spec:
  assumes "cache_get ops k (cache p) = (r, c)"
  shows "view (cache p) k = r" "view c = view (cache p)" "view c k = r"
  using get_law [OF assms] by simp_all

end

lemma emit_simps [simp]:
  "cache (emit e p) = cache p" "closed_conns (emit e p) = closed_conns p"
  "dial_counter (emit e p) = dial_counter p" "close_reason n (emit e p) = close_reason n p"
  by (auto simp: emit_def close_reason_def split: option.splits)

lemma close_conn_simps [simp]:
  "cache (close_conn n r p) = cache p" "dial_counter (close_conn n r p) = dial_counter p"
  by (simp_all add: close_conn_def)

lemma close_reason_cache [simp]: "close_reason n (p\<lparr>cache := c\<rparr>) = close_reason n p"
  by (simp add: close_reason_def)

end
