(* ===== verification/Pool_Props.thy ===== *)
theory Pool_Props
  imports Conn_Pool
begin

text \<open>Properties of the connection pool: scoped eviction, liveness of what it returns, and a system of
  concurrent callers in which stale clean-up never removes a healthy connection.\<close>

section \<open>Eviction\<close>

text \<open>Eviction is scoped to one dialled connection: it removes the entry of the key only if
  that entry carries the expected dial number, touches no other key, closes exactly the removed
  connection (or none, for \<open>evict_only\<close>), and without a captured identity does nothing.\<close>

theorem eviction_is_scoped:
  assumes "entry_cache ops view"
  shows "evict_and_close ops key reason None p = p \<and> evict_only ops key None p = p
     \<and> (\<forall>k. k \<noteq> key \<longrightarrow> view (cache (evict_and_close ops key reason (Some seq) p)) k = view (cache p) k
                  \<and> view (cache (evict_only ops key (Some seq) p)) k = view (cache p) k)
     \<and> (\<forall>n. close_reason n (evict_only ops key (Some seq) p) = close_reason n p)
     \<and> (case view (cache p) key of
          Some v \<Rightarrow> if dial_seq v = seq
            then view (cache (evict_and_close ops key reason (Some seq) p)) key = None
              \<and> view (cache (evict_only ops key (Some seq) p)) key = None
              \<and> close_reason (pooled_conn v) (evict_and_close ops key reason (Some seq) p) \<noteq> None
              \<and> (\<forall>n. n \<noteq> pooled_conn v \<longrightarrow>
                   close_reason n (evict_and_close ops key reason (Some seq) p) = close_reason n p)
            else view (cache (evict_and_close ops key reason (Some seq) p)) = view (cache p)
              \<and> closed_conns (evict_and_close ops key reason (Some seq) p) = closed_conns p
        | None \<Rightarrow> view (cache (evict_and_close ops key reason (Some seq) p)) = view (cache p)
              \<and> closed_conns (evict_and_close ops key reason (Some seq) p) = closed_conns p)"
proof -
  obtain r p1 where c: "compare_and_remove ops key seq p = (r, p1)" by fastforce
  note sp = entry_cache.compare_and_remove_spec [OF assms c]
  have cl: "closed_conns p1 = closed_conns p" "\<And>n. close_reason n p1 = close_reason n p"
    using arg_cong [OF sp(3), of closed_conns] by (simp_all add: close_reason_def)
  have e: "evict_and_close ops key reason (Some seq) p = (case r of None \<Rightarrow> p1
       | Some v \<Rightarrow> close_conn (pooled_conn v) reason (emit (PoolEvict (remote_id_str v)) p1))"
    "evict_only ops key (Some seq) p = (case r of None \<Rightarrow> p1 | Some v \<Rightarrow> emit (PoolEvict (remote_id_str v)) p1)"
    by (simp_all add: evict_and_close_def evict_only_def c split: option.splits)
  have n: "evict_and_close ops key reason None p = p" "evict_only ops key None p = p"
    by (simp_all add: evict_and_close_def evict_only_def)
  show ?thesis
  proof (cases r)
    case None
    then show ?thesis unfolding e n using sp(1,2) cl by (simp split: option.splits if_splits)
  next
    case (Some v)
    then have v: "view (cache p) key = Some v" "dial_seq v = seq"
      using sp(1) by (auto split: option.splits if_splits)
    have "view (cache p1) = (view (cache p))(key := None)" using sp(2) Some by simp
    moreover have "close_reason (pooled_conn v) (close_conn (pooled_conn v) reason q) \<noteq> None"
      "n \<noteq> pooled_conn v \<Longrightarrow> close_reason n (close_conn (pooled_conn v) reason q) = close_reason n q" for n and q :: "'a pool"
      by (auto simp: close_conn_def close_reason_def)
    ultimately show ?thesis unfolding e n using Some v cl by simp
  qed
qed

theorem eviction_is_scoped_witness:
  "entry_cache alist_cache map_of
     \<and> (let key = \<lparr>key_node = [1], key_alpn = ALPN\<rparr>;
            v = \<lparr>pooled_conn = 4, remote_id_str = ''p'', dial_seq = 9\<rparr>;
            p = (pool_new [(key, v)] 10 None)
        in map_of (cache (evict_and_close alist_cache key ''x'' (Some 8) p)) key = Some v
         \<and> close_reason 4 (evict_and_close alist_cache key ''x'' (Some 9) p) \<noteq> None)"
proof -
  define key where "key = \<lparr>key_node = [1], key_alpn = ALPN\<rparr>"
  define v where "v = \<lparr>pooled_conn = 4, remote_id_str = ''p'', dial_seq = (9 :: u64)\<rparr>"
  define p where "p = pool_new [(key, v)] 10 None"
  have f: "map_of (cache p) key = Some v" "dial_seq v = 9" "pooled_conn v = 4"
    by (simp_all add: p_def pool_new_def v_def)
  have a: "map_of (cache (evict_and_close alist_cache key ''x'' (Some 8) p)) key = Some v"
    using eviction_is_scoped [OF alist_pool.entry_cache_axioms, of key "''x''" p 8] f by simp
  have "close_reason 4 (evict_and_close alist_cache key ''x'' (Some 9) p) \<noteq> None"
    using eviction_is_scoped [OF alist_pool.entry_cache_axioms, of key "''x''" p 9] f by simp
  then show ?thesis using a alist_pool.entry_cache_axioms unfolding key_def v_def p_def Let_def by blast
qed

section \<open>Results of \<open>get_or_connect\<close>\<close>

lemma goc_step_done:
  assumes "entry_cache ops view" "goc_step ops base32 key fl pc p = (GDone (Inr (v, reused)), p')"
    and "\<And>r. pc \<noteq> GDone r"
  shows "close_reason (pooled_conn v) p' = None \<and> (reused \<longrightarrow> view (cache p') key = Some v)"
proof -
  obtain r c where g: "cache_get ops key (cache p) = (r, c)" by fastforce
  show ?thesis
    using assms(2,3) entry_cache.cache_get_spec [OF assms(1) g] g
    by (auto simp: goc_step_def enter_phase2_def Let_def split: goc_pc.splits prod.splits option.splits
        if_splits sum.splits)
qed

lemma goc_from_done:
  assumes "entry_cache ops view"
  shows "get_or_connect_from ops base32 key fl pc env p = (Some (Inr (v, reused)), p') \<Longrightarrow> (\<And>r. pc \<noteq> GDone r)
    \<Longrightarrow> close_reason (pooled_conn v) p' = None \<and> (reused \<longrightarrow> view (cache p') key = Some v)"
proof (induction env arbitrary: pc p)
  case Nil
  then show ?case by (cases pc) auto
next
  case (Cons e es)
  obtain pc' p1 where s: "goc_step ops base32 key fl pc (e p) = (pc', p1)" by fastforce
  then have r: "get_or_connect_from ops base32 key fl pc' es p1 = (Some (Inr (v, reused)), p')"
    using Cons.prems by (cases pc) auto
  show ?case
  proof (cases "\<exists>r. pc' = GDone r")
    case True
    then have "pc' = GDone (Inr (v, reused))" "p1 = p'" using r by auto
    then show ?thesis using goc_step_done [OF assms] s Cons.prems(2) by blast
  next
    case False
    then show ?thesis using Cons.IH [OF r] by blast
  qed
qed

text \<open>The pool never hands out a connection known to be closed: whatever other callers do
  between its steps, a connection returned by \<open>get_or_connect\<close> had no close reason at that moment,
  and one reported as reused was the cached one of its key.\<close>

theorem returned_connection_is_live:
  assumes "entry_cache ops view"
    and "get_or_connect ops base32 key fl env p = (Some (Inr (v, reused)), p')"
  shows "close_reason (pooled_conn v) p' = None \<and> (reused \<longrightarrow> view (cache p') key = Some v)"
  using goc_from_done [OF assms(1)] assms(2) unfolding get_or_connect_def by blast

theorem returned_connection_is_live_witness:
  "\<exists>v p'. get_or_connect alist_cache (\<lambda>_. ''p'') \<lparr>key_node = [1], key_alpn = ALPN\<rparr> (OwnDial (Inr ([1], 4)))
       [id, id, id] (pool_new [] 7 None) = (Some (Inr (v, False)), p')
     \<and> close_reason (pooled_conn v) p' = None"
proof -
  obtain v p' where g: "get_or_connect alist_cache (\<lambda>_. ''p'') \<lparr>key_node = [1], key_alpn = ALPN\<rparr>
      (OwnDial (Inr ([1], 4))) [id, id, id] (pool_new [] 7 None) = (Some (Inr (v, False)), p')"
    by (simp add: get_or_connect_def goc_step_def alist_cache_def pool_new_def enter_phase2_def emit_def
        try_get_with_def pooled_new_def close_reason_def)
  then show ?thesis using returned_connection_is_live [OF alist_pool.entry_cache_axioms g] by blast
qed

definition keeps_entry :: "('c \<Rightarrow> pool_key \<Rightarrow> pooled_connection option) \<Rightarrow> pool_key \<Rightarrow> ('c pool \<Rightarrow> 'c pool) \<Rightarrow> bool" where
  "keeps_entry view key e \<longleftrightarrow> (\<forall>p. view (cache (e p)) key = view (cache p) key)"

text \<open>The steps that are left, when the entry of the key is not replaced by others.\<close>

fun goc_left :: "pooled_connection option \<Rightarrow> goc_pc \<Rightarrow> nat" where
  "goc_left _ GLookup = 6"
| "goc_left e (GCompareStale v) = (if (\<exists>w. e = Some w \<and> dial_seq w = dial_seq v) then 5 else 7)"
| "goc_left _ GFlight = 4"
| "goc_left _ (GCheckFresh v) = 3"
| "goc_left _ (GCompareFresh v) = 2"
| "goc_left _ GReplacement = 1"
| "goc_left _ (GDone r) = 0"

lemma goc_step_left:
  assumes "entry_cache ops view" "goc_step ops base32 key fl pc p = (pc', p')"
    and "goc_left (view (cache p) key) pc = Suc n"
  shows "goc_left (view (cache p') key) pc' \<le> n"
proof -
  obtain r c where g: "cache_get ops key (cache p) = (r, c)" by fastforce
  note gs = entry_cache.cache_get_spec [OF assms(1) g]
  show ?thesis
  proof (cases pc)
    case (GCompareStale v)
    obtain w p1 where c: "compare_and_remove ops key (dial_seq v) p = (w, p1)" by fastforce
    show ?thesis
      using assms(2,3) GCompareStale c entry_cache.compare_and_remove_spec(1) [OF assms(1) c]
      by (auto simp: goc_step_def enter_phase2_def split: option.splits if_splits)
  next
    case (GCompareFresh v)
    then show ?thesis
      using assms(2,3) by (auto simp: goc_step_def split: option.splits prod.splits)
  qed (use assms(2,3) g gs in \<open>auto simp: goc_step_def enter_phase2_def Let_def split: option.splits
      prod.splits sum.splits if_splits\<close>)
qed

lemma goc_from_returns:
  assumes "entry_cache ops view" "\<forall>e \<in> set env. keeps_entry view key e"
    and "goc_left (view (cache p) key) pc \<le> length env"
  shows "\<exists>r p'. get_or_connect_from ops base32 key fl pc env p = (Some r, p')"
  using assms(2,3)
proof (induction env arbitrary: pc p)
  case Nil
  then show ?case by (cases pc) (auto split: if_splits)
next
  case (Cons e es)
  show ?case
  proof (cases "goc_left (view (cache p) key) pc")
    case 0
    then obtain r where "pc = GDone r" by (cases pc) (auto split: if_splits)
    then show ?thesis by simp
  next
    case (Suc n)
    obtain pc' p' where s: "goc_step ops base32 key fl pc (e p) = (pc', p')" by fastforce
    have "view (cache (e p)) key = view (cache p) key" using Cons.prems(1) by (simp add: keeps_entry_def)
    then have "goc_left (view (cache p') key) pc' \<le> length es"
      using goc_step_left [OF assms(1) s, of n] Suc Cons.prems(2) by simp
    then obtain r q where "get_or_connect_from ops base32 key fl pc' es p' = (Some r, q)"
      using Cons.IH [of p' pc'] Cons.prems(1) by auto
    moreover have "\<not> (\<exists>r. pc = GDone r)" using Suc by auto
    ultimately show ?thesis using s by (cases pc) auto
  qed
qed

text \<open>\<open>get_or_connect\<close> returns: when no other task replaces the entry of its key, six of its
  steps suffice, whatever the cached entry, the dial and the other tasks do; in particular the stale
  loop of phase 1 is left after one removal.\<close>

theorem get_or_connect_returns:
  assumes "entry_cache ops view" "\<forall>e \<in> set env. keeps_entry view key e" "6 \<le> length env"
  shows "\<exists>r p'. get_or_connect ops base32 key fl env p = (Some r, p')"
  unfolding get_or_connect_def by (rule goc_from_returns [OF assms(1,2)]) (use assms(3) in simp)

theorem get_or_connect_returns_witness:
  "\<exists>r p'. get_or_connect alist_cache (\<lambda>_. ''p'') \<lparr>key_node = [1], key_alpn = ALPN\<rparr> (OwnDial (Inl ''no route''))
     (replicate 6 id) (pool_new [] 7 None) = (Some r, p')"
  by (rule get_or_connect_returns [OF alist_pool.entry_cache_axioms]) (simp_all add: keeps_entry_def)

section \<open>Concurrent callers\<close>

text \<open>All callers of one pool, all evictions, connections closed by peers, and entries dropped by the
  cache (idle or over capacity).  \<open>dialed\<close> records every connection that the pool ever created.\<close>

record 'c pool_sys =
  sys_pool :: "'c pool"
  callers :: "(pool_key \<times> goc_pc) list"
  dialed :: "pooled_connection list"

definition new_dial :: "'c pool \<Rightarrow> 'c pool \<Rightarrow> goc_pc \<Rightarrow> pooled_connection list" where
  "new_dial p p' pc' = (if dial_counter p' = dial_counter p then [] else (case pc' of GCheckFresh v \<Rightarrow> [v] | _ \<Rightarrow> []))"

inductive pool_step :: "'c cache_ops \<Rightarrow> ('c \<Rightarrow> pool_key \<Rightarrow> pooled_connection option) \<Rightarrow> (bytes \<Rightarrow> string)
    \<Rightarrow> 'c pool_sys \<Rightarrow> 'c pool_sys \<Rightarrow> bool" for ops view base32 where
  ps_call: "pool_step ops view base32 s (s\<lparr>callers := (key, GLookup) # callers s\<rparr>)"
| ps_caller: "callers s = xs @ (key, pc) # ys \<Longrightarrow> goc_step ops base32 key fl pc (sys_pool s) = (pc', p')
     \<Longrightarrow> (\<And>v. fl = OtherDialed v \<Longrightarrow> v \<in> set (dialed s))
     \<Longrightarrow> pool_step ops view base32 s
           (s\<lparr>sys_pool := p', callers := xs @ (key, pc') # ys, dialed := dialed s @ new_dial (sys_pool s) p' pc'\<rparr>)"
| ps_evict: "pool_step ops view base32 s (s\<lparr>sys_pool := evict_and_close ops key reason expected (sys_pool s)\<rparr>)"
| ps_evict_only: "pool_step ops view base32 s (s\<lparr>sys_pool := evict_only ops key expected (sys_pool s)\<rparr>)"
| ps_close: "pool_step ops view base32 s (s\<lparr>sys_pool := close_conn n reason (sys_pool s)\<rparr>)"
| ps_drop: "(\<And>k. view c k = None \<or> view c k = view (cache (sys_pool s)) k)
     \<Longrightarrow> pool_step ops view base32 s (s\<lparr>sys_pool := (sys_pool s)\<lparr>cache := c\<rparr>\<rparr>)"

inductive pool_reachable :: "'c cache_ops \<Rightarrow> ('c \<Rightarrow> pool_key \<Rightarrow> pooled_connection option) \<Rightarrow> (bytes \<Rightarrow> string)
    \<Rightarrow> 'c pool_sys \<Rightarrow> bool" for ops view base32 where
  pool_start: "(\<And>k. view c0 k = None)
     \<Longrightarrow> pool_reachable ops view base32 \<lparr>sys_pool = pool_new c0 0 cap, callers = [], dialed = []\<rparr>"
| pool_next: "pool_reachable ops view base32 s \<Longrightarrow> pool_step ops view base32 s s'
     \<Longrightarrow> pool_reachable ops view base32 s'"

fun pc_conns :: "goc_pc \<Rightarrow> pooled_connection set" where
  "pc_conns (GCompareStale v) = {v}"
| "pc_conns (GCheckFresh v) = {v}"
| "pc_conns (GCompareFresh v) = {v}"
| "pc_conns _ = {}"

fun pc_stale :: "goc_pc \<Rightarrow> pooled_connection set" where
  "pc_stale (GCompareStale v) = {v}"
| "pc_stale (GCompareFresh v) = {v}"
| "pc_stale _ = {}"

text \<open>Every connection in sight was dialled by the pool, dial numbers are the positions in \<open>dialed\<close>, and
  a caller that is about to clean a connection up has seen it closed.\<close>

definition pool_inv :: "('c \<Rightarrow> pool_key \<Rightarrow> pooled_connection option) \<Rightarrow> 'c pool_sys \<Rightarrow> bool" where
  "pool_inv view s \<longleftrightarrow> dial_counter (sys_pool s) = of_nat (length (dialed s))
     \<and> (\<forall>i < length (dialed s). dial_seq (dialed s ! i) = of_nat i)
     \<and> (\<forall>k v. view (cache (sys_pool s)) k = Some v \<longrightarrow> v \<in> set (dialed s))
     \<and> (\<forall>(k, pc) \<in> set (callers s). pc_conns pc \<subseteq> set (dialed s)
          \<and> (\<forall>v \<in> pc_stale pc. close_reason (pooled_conn v) (sys_pool s) \<noteq> None))"

lemma pool_inv_callerD:
  assumes "pool_inv view s" "(k, q) \<in> set (callers s)"
  shows "u \<in> pc_conns q \<Longrightarrow> u \<in> set (dialed s)"
    and "u \<in> pc_stale q \<Longrightarrow> close_reason (pooled_conn u) (sys_pool s) \<noteq> None"
proof -
  have "pc_conns q \<subseteq> set (dialed s) \<and> (\<forall>v \<in> pc_stale q. close_reason (pooled_conn v) (sys_pool s) \<noteq> None)"
    using assms unfolding pool_inv_def by blast
  then show "u \<in> pc_conns q \<Longrightarrow> u \<in> set (dialed s)"
    "u \<in> pc_stale q \<Longrightarrow> close_reason (pooled_conn u) (sys_pool s) \<noteq> None" by blast+
qed

lemma dial_seq_inj:
  assumes "pool_inv view s" "length (dialed s) < 2 ^ 64" "v \<in> set (dialed s)" "w \<in> set (dialed s)"
    and "dial_seq v = dial_seq w"
  shows "v = w"
proof -
  obtain i j where ij: "i < length (dialed s)" "v = dialed s ! i" "j < length (dialed s)" "w = dialed s ! j"
    using assms(3,4) by (metis in_set_conv_nth)
  then have "(of_nat i :: u64) = of_nat j" using assms(1,5) unfolding pool_inv_def by metis
  then have "i = j"
    using ij(1,3) assms(2) by (simp only: word_of_nat_eq_iff) (simp add: take_bit_nat_eq_self)
  then show ?thesis using ij by simp
qed

definition only_drops :: "(pool_key \<Rightarrow> pooled_connection option) \<Rightarrow> (pool_key \<Rightarrow> pooled_connection option) \<Rightarrow> bool" where
  "only_drops m m' \<longleftrightarrow> (\<forall>k. m' k = None \<or> m' k = m k)"

lemma compare_effect:
  assumes "entry_cache ops view" "compare_and_remove ops key seq p = (r, p')"
  shows "close_reason n p' = close_reason n p \<and> dial_counter p' = dial_counter p
     \<and> only_drops (view (cache p)) (view (cache p'))"
  using entry_cache.compare_and_remove_spec(2) [OF assms]
    arg_cong [OF entry_cache.compare_and_remove_spec(3) [OF assms], of closed_conns]
    arg_cong [OF entry_cache.compare_and_remove_spec(3) [OF assms], of dial_counter]
  by (auto simp: only_drops_def close_reason_def)

lemma goc_step_effect:
  assumes "entry_cache ops view" "goc_step ops base32 key fl pc p = (pc', p')"
  shows "close_reason n p' = close_reason n p
     \<and> (dial_counter p' = dial_counter p \<and> only_drops (view (cache p)) (view (cache p'))
          \<and> pc_conns pc' \<subseteq> pc_conns pc \<union> ran (view (cache p)) \<union> {v. fl = OtherDialed v}
        \<or> (\<exists>v. pc' = GCheckFresh v \<and> dial_seq v = dial_counter p \<and> dial_counter p' = dial_counter p + 1
            \<and> view (cache p) key = None
            \<and> (\<forall>k. view (cache p') k = None \<or> view (cache p') k = (if k = key then Some v else view (cache p) k))))
     \<and> (\<forall>v \<in> pc_stale pc'. close_reason (pooled_conn v) p' \<noteq> None)"
proof -
  obtain r c where g: "cache_get ops key (cache p) = (r, c)" by fastforce
  note gs = entry_cache.cache_get_spec [OF assms(1) g]
  show ?thesis
  proof (cases pc)
    case GLookup
    then show ?thesis
      using assms(2) g gs
      by (auto simp: goc_step_def enter_phase2_def Let_def only_drops_def ranI split: option.splits if_splits)
  next
    case (GCompareStale v)
    obtain w p1 where c: "compare_and_remove ops key (dial_seq v) p = (w, p1)" by fastforce
    show ?thesis
      using assms(2) GCompareStale c compare_effect [OF assms(1) c]
      by (cases w) (auto simp: goc_step_def enter_phase2_def)
  next
    case (GCompareFresh v)
    obtain w p1 where c: "compare_and_remove ops key (dial_seq v) p = (w, p1)" by fastforce
    show ?thesis
      using assms(2) GCompareFresh c compare_effect [OF assms(1) c]
      by (cases w) (auto simp: goc_step_def)
  next
    case GFlight
    show ?thesis
    proof (cases r)
      case None
      show ?thesis
      proof (cases "\<exists>remote m. fl = OwnDial (Inr (remote, m))")
        case True
        then obtain remote m where fl: "fl = OwnDial (Inr (remote, m))" by blast
        define v where "v = \<lparr>pooled_conn = m, remote_id_str = base32 remote, dial_seq = dial_counter p\<rparr>"
        have s: "pc' = GCheckFresh v" "p' = p\<lparr>dial_counter := dial_counter p + 1, cache := cache_insert ops key v c\<rparr>"
          using assms(2) GFlight g None fl by (auto simp: goc_step_def try_get_with_def pooled_new_def Let_def v_def)
        have "view (cache p') k = None \<or> view (cache p') k = (if k = key then Some v else view (cache p) k)" for k
          using entry_cache.insert_law [OF assms(1), of key v c k] gs s by (cases "k = key") auto
        then have "\<forall>k. view (cache p') k = None \<or> view (cache p') k = (if k = key then Some v else view (cache p) k)"
          by blast
        moreover have "dial_seq v = dial_counter p" "dial_counter p' = dial_counter p + 1"
          "close_reason n p' = close_reason n p" "pc_stale pc' = {}" "view (cache p) key = None"
          using s gs None by (simp_all add: v_def close_reason_def)
        ultimately show ?thesis using s(1) by blast
      next
        case False
        then show ?thesis
          using assms(2) GFlight g gs None
          by (cases fl) (auto simp: goc_step_def try_get_with_def only_drops_def Let_def split: sum.splits)
      qed
    next
      case (Some v)
      then show ?thesis
        using assms(2) GFlight g gs
        by (auto simp: goc_step_def try_get_with_def only_drops_def ranI)
    qed
  next
    case (GCheckFresh v)
    then show ?thesis using assms(2) by (auto simp: goc_step_def only_drops_def split: if_splits)
  next
    case GReplacement
    then show ?thesis
      using assms(2) g gs
      by (auto simp: goc_step_def Let_def only_drops_def split: option.splits if_splits)
  next
    case (GDone x)
    then show ?thesis using assms(2) by (auto simp: goc_step_def only_drops_def)
  qed
qed

lemma evict_effect:
  assumes "entry_cache ops view"
  shows "dial_counter (evict_and_close ops key reason e p) = dial_counter p"
    "dial_counter (evict_only ops key e p) = dial_counter p"
    "only_drops (view (cache p)) (view (cache (evict_and_close ops key reason e p)))"
    "only_drops (view (cache p)) (view (cache (evict_only ops key e p)))"
    "close_reason n p \<noteq> None \<Longrightarrow> close_reason n (evict_and_close ops key reason e p) \<noteq> None"
    "close_reason n p \<noteq> None \<Longrightarrow> close_reason n (evict_only ops key e p) \<noteq> None"
proof -
  have d: "dial_counter (evict_and_close ops key reason e p) = dial_counter p
     \<and> dial_counter (evict_only ops key e p) = dial_counter p
     \<and> only_drops (view (cache p)) (view (cache (evict_and_close ops key reason e p)))
     \<and> only_drops (view (cache p)) (view (cache (evict_only ops key e p)))
     \<and> (close_reason n p \<noteq> None \<longrightarrow> close_reason n (evict_and_close ops key reason e p) \<noteq> None)
     \<and> (close_reason n p \<noteq> None \<longrightarrow> close_reason n (evict_only ops key e p) \<noteq> None)"
  proof (cases e)
    case None
    then show ?thesis by (simp add: evict_and_close_def evict_only_def only_drops_def)
  next
    case (Some seq)
    obtain r p1 where c: "compare_and_remove ops key seq p = (r, p1)" by fastforce
    have "close_reason n q \<noteq> None \<Longrightarrow> close_reason n (close_conn m reason q) \<noteq> None" for m and q :: "'a pool"
      by (simp add: close_conn_def close_reason_def)
    then show ?thesis
      using compare_effect [OF assms c] c Some
      by (cases r) (auto simp: evict_and_close_def evict_only_def)
  qed
  then show "dial_counter (evict_and_close ops key reason e p) = dial_counter p"
    "dial_counter (evict_only ops key e p) = dial_counter p"
    "only_drops (view (cache p)) (view (cache (evict_and_close ops key reason e p)))"
    "only_drops (view (cache p)) (view (cache (evict_only ops key e p)))"
    "close_reason n p \<noteq> None \<Longrightarrow> close_reason n (evict_and_close ops key reason e p) \<noteq> None"
    "close_reason n p \<noteq> None \<Longrightarrow> close_reason n (evict_only ops key e p) \<noteq> None"
    by blast+
qed

lemma only_dropsD: "only_drops m m' \<Longrightarrow> m' k = Some v \<Longrightarrow> m k = Some v"
  unfolding only_drops_def by (metis option.distinct(1))

text \<open>A step that neither dials nor adds an entry nor moves a caller keeps the invariant.\<close>

lemma pool_inv_shrink:
  assumes "pool_inv view s" "dial_counter p' = dial_counter (sys_pool s)"
    and "only_drops (view (cache (sys_pool s))) (view (cache p'))"
    and "\<And>n. close_reason n (sys_pool s) \<noteq> None \<Longrightarrow> close_reason n p' \<noteq> None"
  shows "pool_inv view (s\<lparr>sys_pool := p'\<rparr>)"
  using assms only_dropsD [OF assms(3)] unfolding pool_inv_def by fastforce

lemma pool_inv_caller:
  assumes inv: "pool_inv view s" and ec: "entry_cache ops view" and cs: "callers s = xs @ (key, pc) # ys"
    and st: "goc_step ops base32 key fl pc (sys_pool s) = (pc', p')"
    and fl: "\<And>v. fl = OtherDialed v \<Longrightarrow> v \<in> set (dialed s)"
  shows "pool_inv view (s\<lparr>sys_pool := p', callers := xs @ (key, pc') # ys,
     dialed := dialed s @ new_dial (sys_pool s) p' pc'\<rparr>)"
proof -
  note eff = goc_step_effect [OF ec st]
  have cl: "close_reason n p' = close_reason n (sys_pool s)" for n using eff by blast
  have st': "\<forall>v \<in> pc_stale pc'. close_reason (pooled_conn v) p' \<noteq> None" using eff by blast
  have pcs: "pc_conns pc \<subseteq> set (dialed s)" and rn: "ran (view (cache (sys_pool s))) \<subseteq> set (dialed s)"
    using inv cs by (auto simp: pool_inv_def ran_def)
  have old: "u \<in> pc_conns q \<Longrightarrow> u \<in> set (dialed s)"
      "u \<in> pc_stale q \<Longrightarrow> \<exists>y. close_reason (pooled_conn u) p' = Some y"
    if "(k, q) \<in> set xs \<or> (k, q) \<in> set ys" for k q u
    using that pool_inv_callerD [OF inv, of k q u] cs cl by auto
  consider
    (same) "dial_counter p' = dial_counter (sys_pool s)" "only_drops (view (cache (sys_pool s))) (view (cache p'))"
      "pc_conns pc' \<subseteq> pc_conns pc \<union> ran (view (cache (sys_pool s))) \<union> {v. fl = OtherDialed v}"
  | (dial) v where "pc' = GCheckFresh v" "dial_seq v = dial_counter (sys_pool s)"
      "dial_counter p' = dial_counter (sys_pool s) + 1"
      "\<forall>k. view (cache p') k = None \<or> view (cache p') k = (if k = key then Some v else view (cache (sys_pool s)) k)"
    using eff by blast
  then show ?thesis
  proof cases
    case same
    have "pc_conns pc' \<subseteq> set (dialed s)" using same(3) pcs rn fl by blast
    moreover have "view (cache p') k = Some w \<Longrightarrow> w \<in> set (dialed s)" for k w
      using only_dropsD [OF same(2)] rn by (blast intro: ranI)
    ultimately show ?thesis
      using inv st' same(1) by (auto simp: pool_inv_def new_dial_def dest: old(1) [OF disjI1] old(1) [OF disjI2]
          old(2) [OF disjI1] old(2) [OF disjI2])
  next
    case dial
    have "view (cache p') k = Some w \<Longrightarrow> w = v \<or> view (cache (sys_pool s)) k = Some w" for k w
      using dial(4) by (metis option.distinct(1) option.inject)
    then have "view (cache p') k = Some w \<Longrightarrow> w = v \<or> w \<in> set (dialed s)" for k w
      using rn by (auto intro: ranI)
    moreover have "\<forall>i < length (dialed s @ [v]). dial_seq ((dialed s @ [v]) ! i) = of_nat i"
      using inv dial(2) by (auto simp: pool_inv_def nth_append less_Suc_eq)
    moreover have "new_dial (sys_pool s) p' pc' = [v]" using dial(1,3) by (simp add: new_dial_def)
    ultimately show ?thesis
      using inv st' dial(1,3) by (auto simp: pool_inv_def add.commute dest: old(1) [OF disjI1] old(1) [OF disjI2]
          old(2) [OF disjI1] old(2) [OF disjI2])
  qed
qed

lemma pool_reachable_inv:
  assumes "entry_cache ops view" "pool_reachable ops view base32 s"
  shows "pool_inv view s"
  using assms(2)
proof (induction rule: pool_reachable.induct)
  case (pool_start c0 cap)
  then show ?case by (simp add: pool_inv_def pool_new_def)
next
  case (pool_next s s')
  from pool_next(2) show ?case
  proof cases
    case (ps_call key)
    then show ?thesis using pool_next(3) by (simp add: pool_inv_def)
  next
    case (ps_caller xs key pc ys fl pc' p')
    then show ?thesis using pool_inv_caller [OF pool_next(3) assms(1)] by blast
  next
    case (ps_evict key reason e)
    then show ?thesis using pool_inv_shrink [OF pool_next(3)] evict_effect [OF assms(1)] by metis
  next
    case (ps_evict_only key e)
    then show ?thesis using pool_inv_shrink [OF pool_next(3)] evict_effect [OF assms(1)] by metis
  next
    case (ps_close n reason)
    show ?thesis unfolding ps_close
      by (rule pool_inv_shrink [OF pool_next(3)]) (auto simp: only_drops_def close_conn_def close_reason_def)
  next
    case (ps_drop c)
    show ?thesis unfolding ps_drop(1)
      by (rule pool_inv_shrink [OF pool_next(3)]) (use ps_drop(2) in \<open>auto simp: only_drops_def\<close>)
  qed
qed

text \<open>Property C6.  Stale clean-up never removes a healthy connection: in every reachable state of
  concurrent callers, evictions, closing peers and cache drops (below \<open>2^64\<close> dials), a step of a
  caller keeps the cached connection of its key if that connection is alive; and dial numbers identify
  connections: two cached connections with the same number are the same.\<close>

theorem healthy_connection_survives_cleanup:
  assumes "entry_cache ops view" "pool_reachable ops view base32 s" "length (dialed s) < 2 ^ 64"
    and "(key, pc) \<in> set (callers s)" "goc_step ops base32 key fl pc (sys_pool s) = (pc', p')"
    and "view (cache (sys_pool s)) key = Some w" "close_reason (pooled_conn w) (sys_pool s) = None"
  shows "view (cache p') key = Some w
     \<and> (\<forall>k v. view (cache (sys_pool s)) k = Some v \<and> dial_seq v = dial_seq w \<longrightarrow> v = w)"
proof
  note inv = pool_reachable_inv [OF assms(1,2)]
  have wd: "w \<in> set (dialed s)" using inv assms(6) by (auto simp: pool_inv_def)
  show "\<forall>k v. view (cache (sys_pool s)) k = Some v \<and> dial_seq v = dial_seq w \<longrightarrow> v = w"
    using dial_seq_inj [OF inv assms(3) _ wd] inv by (auto simp: pool_inv_def)
  obtain r c where g: "cache_get ops key (cache (sys_pool s)) = (r, c)" by fastforce
  note gs = entry_cache.cache_get_spec [OF assms(1) g]
  have keep: "dial_seq v \<noteq> dial_seq w" if "v \<in> pc_stale pc" for v
  proof
    assume "dial_seq v = dial_seq w"
    moreover have "v \<in> set (dialed s)" "close_reason (pooled_conn v) (sys_pool s) \<noteq> None"
      using that pool_inv_callerD [OF inv assms(4), of v] by (cases pc; simp)+
    ultimately have "v = w" using dial_seq_inj [OF inv assms(3) _ wd] by blast
    then show False using \<open>close_reason (pooled_conn v) (sys_pool s) \<noteq> None\<close> assms(7) by simp
  qed
  have cmp: "view (cache p1) key = Some w" "x = None"
    if "v \<in> pc_stale pc" "compare_and_remove ops key (dial_seq v) (sys_pool s) = (x, p1)" for v x p1
    using entry_cache.compare_and_remove_spec(1,2) [OF assms(1) that(2)] keep [OF that(1)] assms(6)
    by (auto split: if_splits)
  show "view (cache p') key = Some w"
  proof (cases pc)
    case (GCompareStale v)
    obtain x p1 where c: "compare_and_remove ops key (dial_seq v) (sys_pool s) = (x, p1)" by fastforce
    show ?thesis using assms(5) GCompareStale c cmp [OF _ c] by (simp add: goc_step_def)
  next
    case (GCompareFresh v)
    obtain x p1 where c: "compare_and_remove ops key (dial_seq v) (sys_pool s) = (x, p1)" by fastforce
    show ?thesis using assms(5) GCompareFresh c cmp [OF _ c] by (simp add: goc_step_def)
  qed (use assms(5,6) g gs in \<open>auto simp: goc_step_def enter_phase2_def try_get_with_def Let_def
      split: option.splits if_splits\<close>)
qed

theorem healthy_connection_survives_cleanup_witness:
  "\<exists>s w. pool_reachable alist_cache map_of (\<lambda>_. ''p'') s
     \<and> map_of (cache (sys_pool s)) \<lparr>key_node = [1], key_alpn = ALPN\<rparr> = Some w
     \<and> close_reason (pooled_conn w) (sys_pool s) = None \<and> dialed s = [w]
     \<and> (case goc_step alist_cache (\<lambda>_. ''p'') \<lparr>key_node = [1], key_alpn = ALPN\<rparr> (OtherFailed []) GLookup (sys_pool s) of
          (pc', p') \<Rightarrow> map_of (cache p') \<lparr>key_node = [1], key_alpn = ALPN\<rparr> = Some w)"
proof -
  define key where "key = \<lparr>key_node = [1], key_alpn = ALPN\<rparr>"
  define w where "w = \<lparr>pooled_conn = 4, remote_id_str = ''p'', dial_seq = (0 :: u64)\<rparr>"
  define s0 where "s0 = \<lparr>sys_pool = pool_new ([] :: (pool_key \<times> pooled_connection) list) 0 None, callers = [], dialed = []\<rparr>"
  define s1 where "s1 = s0\<lparr>callers := [(key, GFlight)]\<rparr>"
  define s2 where "s2 = s0\<lparr>sys_pool := (sys_pool s0)\<lparr>cache := [(key, w)], dial_counter := 1\<rparr>,
     callers := [(key, GCheckFresh w)], dialed := [w]\<rparr>"
  define s3 where "s3 = s2\<lparr>callers := (key, GLookup) # callers s2\<rparr>"
  have a: "pool_reachable alist_cache map_of (\<lambda>_. ''p'') s0"
    unfolding s0_def by (rule pool_start) simp
  have b: "pool_reachable alist_cache map_of (\<lambda>_. ''p'') (s0\<lparr>callers := [(key, GLookup)]\<rparr>)"
    using pool_next [OF a ps_call [of _ _ _ _ key]] by (simp add: s0_def)
  have "pool_step alist_cache map_of (\<lambda>_. ''p'') (s0\<lparr>callers := [(key, GLookup)]\<rparr>) s1"
    using ps_caller [of "s0\<lparr>callers := [(key, GLookup)]\<rparr>" "[]" key GLookup "[]" alist_cache "\<lambda>_. ''p''"
        "OtherFailed []" GFlight "sys_pool s0" map_of]
    by (simp add: s0_def s1_def goc_step_def alist_cache_def pool_new_def enter_phase2_def emit_def new_dial_def)
  then have c: "pool_reachable alist_cache map_of (\<lambda>_. ''p'') s1" by (rule pool_next [OF b])
  have "pool_step alist_cache map_of (\<lambda>_. ''p'') s1 s2"
    using ps_caller [of s1 "[]" key GFlight "[]" alist_cache "\<lambda>_. ''p''"
        "OwnDial (Inr ([1], 4))" "GCheckFresh w" "sys_pool s2" map_of]
    by (simp add: s0_def s1_def s2_def w_def goc_step_def alist_cache_def pool_new_def try_get_with_def
        pooled_new_def new_dial_def)
  then have d: "pool_reachable alist_cache map_of (\<lambda>_. ''p'') s2" by (rule pool_next [OF c])
  have e: "pool_reachable alist_cache map_of (\<lambda>_. ''p'') s3"
    unfolding s3_def by (rule pool_next [OF d ps_call])
  have f: "length (dialed s3) < 2 ^ 64" "(key, GLookup) \<in> set (callers s3)" "dialed s3 = [w]"
    "map_of (cache (sys_pool s3)) key = Some w" "close_reason (pooled_conn w) (sys_pool s3) = None"
    by (simp_all add: s3_def s2_def s0_def pool_new_def close_reason_def)
  obtain pc' p' where g: "goc_step alist_cache (\<lambda>_. ''p'') key (OtherFailed []) GLookup (sys_pool s3) = (pc', p')"
    by fastforce
  have "map_of (cache p') key = Some w"
    using healthy_connection_survives_cleanup [OF alist_pool.entry_cache_axioms e f(1,2) g f(4,5)] by blast
  then show ?thesis using e f g unfolding key_def by (intro exI [of _ s3] exI [of _ w]) auto
qed

text \<open>The reuse flag is not exact: a caller that misses, and whose key another caller fills
  before its single-flight entry, receives the cached connection flagged as freshly dialled, and no
  hit event is emitted.\<close>

theorem raced_hit_is_reported_fresh:
  "let key = \<lparr>key_node = [1], key_alpn = ALPN\<rparr>;
       v = \<lparr>pooled_conn = 4, remote_id_str = ''p'', dial_seq = 0\<rparr>;
       p0 = pool_new ([] :: (pool_key \<times> pooled_connection) list) 0 (Some 8);
       other = (\<lambda>p. p\<lparr>cache := [(key, v)], dial_counter := 1\<rparr>)
   in case get_or_connect alist_cache (\<lambda>_. ''p'') key (OwnDial (Inr ([1], 5))) [id, other, id] p0 of
        (r, p') \<Rightarrow> r = Some (Inr (v, False)) \<and> dial_counter p' = 1 \<and> event_queue p' = [PoolMiss ''p'' 0]"
  by (simp add: get_or_connect_def goc_step_def alist_cache_def pool_new_def enter_phase2_def emit_def
      try_get_with_def close_reason_def Let_def)

end
