(* ===== verification/Std_Net.thy ===== *)
theory Std_Net
  imports Iroh_Prelude
begin

text \<open>
  The part of the standard library's network types that the endpoint code uses: IP and socket
  addresses, their textual parser (decimal octets without leading zeros, IPv6 groups with one
  \<open>::\<close> and a trailing dotted part, bracketed IPv6 socket addresses with an optional numeric scope),
  integer parsing, and the address predicates.  A parser takes the remaining characters and returns
  the value and the rest.
\<close>

section \<open>Addresses\<close>

datatype ip_addr = IpV4 u8 u8 u8 u8 | IpV6 "u16 list" \<comment> \<open>eight segments\<close>

record sock_addr =
  sa_ip :: ip_addr
  sa_port :: u16
  sa_scope :: u32

definition sock :: "ip_addr \<Rightarrow> u16 \<Rightarrow> sock_addr" where
  "sock ip port = \<lparr>sa_ip = ip, sa_port = port, sa_scope = 0\<rparr>"

definition is_ipv6 :: "sock_addr \<Rightarrow> bool" where
  "is_ipv6 a = (case sa_ip a of IpV4 _ _ _ _ \<Rightarrow> False | IpV6 _ \<Rightarrow> True)"

definition set_port :: "u16 \<Rightarrow> sock_addr \<Rightarrow> sock_addr" where
  "set_port p a = a\<lparr>sa_port := p\<rparr>"

definition segment0 :: "u16 list \<Rightarrow> u16" where
  "segment0 g = (case g of [] \<Rightarrow> 0 | x # _ \<Rightarrow> x)"

definition is_loopback :: "ip_addr \<Rightarrow> bool" where
  "is_loopback ip = (case ip of IpV4 a _ _ _ \<Rightarrow> a = 127 | IpV6 g \<Rightarrow> g = [0, 0, 0, 0, 0, 0, 0, 1])"

definition is_unspecified :: "ip_addr \<Rightarrow> bool" where
  "is_unspecified ip = (case ip of IpV4 a b c d \<Rightarrow> a = 0 \<and> b = 0 \<and> c = 0 \<and> d = 0 | IpV6 g \<Rightarrow> g = [0, 0, 0, 0, 0, 0, 0, 0])"

definition v4_is_link_local :: "u8 \<Rightarrow> u8 \<Rightarrow> bool" where
  "v4_is_link_local a b \<longleftrightarrow> a = 169 \<and> b = 254"

section \<open>Parsing\<close>

fun digit_of :: "int \<Rightarrow> char \<Rightarrow> int option" where
  "digit_of radix c = (let n = of_char c :: int in
     if 48 \<le> n \<and> n \<le> 57 then (if n - 48 < radix then Some (n - 48) else None)
     else if radix = 16 \<and> 97 \<le> n \<and> n \<le> 102 then Some (n - 87)
     else if radix = 16 \<and> 65 \<le> n \<and> n \<le> 70 then Some (n - 55)
     else None)"

declare digit_of.simps [simp del]

fun read_digits :: "int \<Rightarrow> string \<Rightarrow> int list \<times> string" where
  "read_digits radix [] = ([], [])"
| "read_digits radix (c # cs) = (case digit_of radix c of
     None \<Rightarrow> ([], c # cs)
   | Some d \<Rightarrow> (case read_digits radix cs of (ds, rest) \<Rightarrow> (d # ds, rest)))"

definition digits_value :: "int \<Rightarrow> int list \<Rightarrow> int" where
  "digits_value radix ds = foldl (\<lambda>n d. n * radix + d) 0 ds"

text \<open>\<open>bound\<close> is the first value that does not fit the integer type.\<close>

definition read_number :: "int \<Rightarrow> nat option \<Rightarrow> bool \<Rightarrow> int \<Rightarrow> string \<Rightarrow> (int \<times> string) option" where
  "read_number radix max_digits allow_zero_prefix bound cs = (case read_digits radix cs of (ds, rest) \<Rightarrow>
     if ds = [] then None
     else if (case max_digits of None \<Rightarrow> False | Some m \<Rightarrow> m < length ds) then None
     else if \<not> allow_zero_prefix \<and> hd ds = 0 \<and> 1 < length ds then None
     else if digits_value radix ds < bound then Some (digits_value radix ds, rest) else None)"

definition read_char :: "char \<Rightarrow> string \<Rightarrow> string option" where
  "read_char c cs = (case cs of [] \<Rightarrow> None | d # ds \<Rightarrow> if d = c then Some ds else None)"

definition read_separator :: "char \<Rightarrow> nat \<Rightarrow> (string \<Rightarrow> 'a option) \<Rightarrow> string \<Rightarrow> 'a option" where
  "read_separator sep i p cs = (if i = 0 then p cs else Option.bind (read_char sep cs) p)"

definition read_octet :: "nat \<Rightarrow> string \<Rightarrow> (int \<times> string) option" where
  "read_octet i cs = read_separator (CHR ''.'') i (read_number 10 (Some 3) False 256) cs"

definition read_ipv4 :: "string \<Rightarrow> (ip_addr \<times> string) option" where
  "read_ipv4 cs =
     Option.bind (read_octet 0 cs) (\<lambda>(a, cs1). Option.bind (read_octet 1 cs1) (\<lambda>(b, cs2).
     Option.bind (read_octet 2 cs2) (\<lambda>(c, cs3). Option.bind (read_octet 3 cs3) (\<lambda>(d, cs4).
       Some (IpV4 (of_int a) (of_int b) (of_int c) (of_int d), cs4)))))"

text \<open>Up to \<open>left\<close> groups starting with group \<open>i\<close>, and whether a trailing dotted part was read.\<close>

fun read_groups :: "nat \<Rightarrow> nat \<Rightarrow> string \<Rightarrow> u16 list \<times> bool \<times> string" where
  "read_groups 0 i cs = ([], False, cs)"
| "read_groups (Suc left) i cs =
     (case (if 0 < left then read_separator (CHR '':'') i read_ipv4 cs else None) of
        Some (IpV4 a b c d, rest) \<Rightarrow> ([ucast a * 256 + ucast b, ucast c * 256 + ucast d], True, rest)
      | _ \<Rightarrow> (case read_separator (CHR '':'') i (read_number 16 (Some 4) True 65536) cs of
           None \<Rightarrow> ([], False, cs)
         | Some (g, rest) \<Rightarrow> (case read_groups left (Suc i) rest of
              (gs, v4, rest') \<Rightarrow> (of_int g # gs, v4, rest'))))"

definition read_ipv6 :: "string \<Rightarrow> (ip_addr \<times> string) option" where
  "read_ipv6 cs = (case read_groups 8 0 cs of (hd_gs, v4, rest) \<Rightarrow>
     if length hd_gs = 8 then Some (IpV6 hd_gs, rest)
     else if v4 then None
     else Option.bind (read_char (CHR '':'') rest) (\<lambda>r1. Option.bind (read_char (CHR '':'') r1) (\<lambda>r2.
       case read_groups (7 - length hd_gs) 0 r2 of (tl_gs, _, r3) \<Rightarrow>
         Some (IpV6 (hd_gs @ replicate (8 - length hd_gs - length tl_gs) 0 @ tl_gs), r3))))"

text \<open>A parse must consume the whole string.\<close>

definition parse_all :: "(string \<Rightarrow> ('a \<times> string) option) \<Rightarrow> string \<Rightarrow> 'a option" where
  "parse_all p cs = (case p cs of Some (v, []) \<Rightarrow> Some v | _ \<Rightarrow> None)"

definition parse_ipv6 :: "string \<Rightarrow> ip_addr option" where
  "parse_ipv6 cs = parse_all read_ipv6 cs"

definition parse_ip :: "string \<Rightarrow> ip_addr option" where
  "parse_ip cs = parse_all (\<lambda>s. case read_ipv4 s of Some r \<Rightarrow> Some r | None \<Rightarrow> read_ipv6 s) cs"

definition read_port :: "string \<Rightarrow> (int \<times> string) option" where
  "read_port cs = Option.bind (read_char (CHR '':'') cs) (read_number 10 None True 65536)"

definition read_scope :: "string \<Rightarrow> int \<times> string" where
  "read_scope cs = (case Option.bind (read_char (CHR ''%'') cs) (read_number 10 None True (2 ^ 32)) of
     None \<Rightarrow> (0, cs) | Some r \<Rightarrow> r)"

definition read_sock_v4 :: "string \<Rightarrow> (sock_addr \<times> string) option" where
  "read_sock_v4 cs = Option.bind (read_ipv4 cs) (\<lambda>(ip, r). Option.bind (read_port r) (\<lambda>(p, r').
     Some (sock ip (of_int p), r')))"

definition read_sock_v6 :: "string \<Rightarrow> (sock_addr \<times> string) option" where
  "read_sock_v6 cs = Option.bind (read_char (CHR ''['') cs) (\<lambda>r0. Option.bind (read_ipv6 r0) (\<lambda>(ip, r1).
     case read_scope r1 of (scope, r2) \<Rightarrow>
       Option.bind (read_char (CHR '']'') r2) (\<lambda>r3. Option.bind (read_port r3) (\<lambda>(p, r4).
         Some (\<lparr>sa_ip = ip, sa_port = of_int p, sa_scope = of_int scope\<rparr>, r4)))))"

definition parse_sock_addr :: "string \<Rightarrow> sock_addr option" where
  "parse_sock_addr cs = parse_all (\<lambda>s. case read_sock_v4 s of Some r \<Rightarrow> Some r | None \<Rightarrow> read_sock_v6 s) cs"

text \<open>\<open>u32::from_str\<close>: an optional plus sign and at least one digit.\<close>

definition parse_u32 :: "string \<Rightarrow> u32 option" where
  "parse_u32 cs = (let ds = (case cs of [] \<Rightarrow> [] | c # r \<Rightarrow> if c = CHR ''+'' then r else cs)
     in map_option of_int (parse_all (read_number 10 None True (2 ^ 32)) ds))"

definition split_once :: "char \<Rightarrow> string \<Rightarrow> (string \<times> string) option" where
  "split_once c s = (if c \<in> set s then Some (takeWhile (\<lambda>x. x \<noteq> c) s, tl (dropWhile (\<lambda>x. x \<noteq> c) s)) else None)"

fun contains_str :: "string \<Rightarrow> string \<Rightarrow> bool" where
  "contains_str pat [] = (pat = [])"
| "contains_str pat (c # cs) = (take (length pat) (c # cs) = pat \<or> contains_str pat cs)"

end
