(* ===== verification/Node_Addr.thy ===== *)
theory Node_Addr
  imports Std_Net Core_Error "HOL-Library.Sublist"
begin

text \<open>
  Node addresses: \<^verbatim>\<open>encoding.rs\<close>, \<^verbatim>\<open>addr.rs\<close>, the direct-address functions of
  \<^verbatim>\<open>endpoint/bind.rs\<close> and the address selection of \<^verbatim>\<open>endpoint/observe.rs\<close>.

  Base32, public keys, JSON and relay URLs belong to other crates and are parameters (\<open>addr_lib\<close>);
  socket addresses are those of \<open>Std_Net\<close>.  A relay URL is represented by its canonical text.
\<close>

record node_addr_info =
  nai_id :: string
  nai_addrs :: "string list"

record addr_lib =
  b32_encode :: "bytes \<Rightarrow> string"
  b32_decode :: "string \<Rightarrow> bytes option"
  key_from_bytes :: "bytes \<Rightarrow> string + bytes" \<comment> \<open>\<open>PublicKey::from_bytes\<close>, with its error text\<close>
  json_to_info :: "string \<Rightarrow> node_addr_info option"
  json_of_info :: "node_addr_info \<Rightarrow> string + string"
  relay_parse :: "string \<Rightarrow> string option"
  sock_show :: "sock_addr \<Rightarrow> string"

section \<open>Encoding\<close>

definition base32_encode :: "addr_lib \<Rightarrow> bytes \<Rightarrow> string" where
  "base32_encode L b = b32_encode L b"

definition base32_decode :: "addr_lib \<Rightarrow> string \<Rightarrow> string + bytes" where
  "base32_decode L s = (case b32_decode L s of
     None \<Rightarrow> Inl (''invalid base32 string: '' @ s) | Some b \<Rightarrow> Inr b)"

definition parse_node_id :: "addr_lib \<Rightarrow> string \<Rightarrow> core_error + bytes" where
  "parse_node_id L s = (case base32_decode L s of
     Inl e \<Rightarrow> Inl (invalid_input e)
   | Inr b \<Rightarrow> if length b \<noteq> 32 then Inl (invalid_input ''node-id must be 32 bytes'')
       else (case key_from_bytes L b of Inl e \<Rightarrow> Inl (invalid_input e) | Inr k \<Rightarrow> Inr k))"

section \<open>Parsing node addresses\<close>

record parsed_node_addr =
  pna_node_id :: bytes
  pna_relay_urls :: "string list"
  pna_direct_addrs :: "sock_addr list"

fun parse_addr_entries :: "addr_lib \<Rightarrow> string list \<Rightarrow> string list \<Rightarrow> sock_addr list
    \<Rightarrow> core_error + (string list \<times> sock_addr list)" where
  "parse_addr_entries L [] relays directs = Inr (relays, directs)"
| "parse_addr_entries L (a # rest) relays directs =
     (if contains_str ''://'' a then
        (case relay_parse L a of
           None \<Rightarrow> Inl (invalid_input (''malformed relay URL: '' @ a))
         | Some u \<Rightarrow> parse_addr_entries L rest (relays @ [u]) directs)
      else (case parse_sock_addr a of
           None \<Rightarrow> Inl (invalid_input (''malformed address: '' @ a))
         | Some sa \<Rightarrow>
             if sa_port sa = 0 then Inl (invalid_input (''direct address '' @ a @ '' has no port (port 0)''))
             else parse_addr_entries L rest relays (directs @ [sa])))"

definition parse_node_addr :: "addr_lib \<Rightarrow> string \<Rightarrow> core_error + parsed_node_addr" where
  "parse_node_addr L s = (case json_to_info L s of
     Some info \<Rightarrow> (case parse_node_id L (nai_id info) of
        Inl e \<Rightarrow> Inl e
      | Inr k \<Rightarrow> (case parse_addr_entries L (nai_addrs info) [] [] of
           Inl e \<Rightarrow> Inl e
         | Inr (rs, ds) \<Rightarrow> Inr \<lparr>pna_node_id = k, pna_relay_urls = rs, pna_direct_addrs = ds\<rparr>))
   | None \<Rightarrow> (case parse_node_id L s of
        Inl e \<Rightarrow> Inl e
      | Inr k \<Rightarrow> Inr \<lparr>pna_node_id = k, pna_relay_urls = [], pna_direct_addrs = []\<rparr>))"

datatype direct_addr_error = DirectMalformed string | DirectPortZero string

fun parse_direct_list :: "string list \<Rightarrow> sock_addr list \<Rightarrow> direct_addr_error + sock_addr list" where
  "parse_direct_list [] out = Inr out"
| "parse_direct_list (s # rest) out = (case parse_sock_addr s of
     None \<Rightarrow> Inl (DirectMalformed s)
   | Some a \<Rightarrow> if sa_port a = 0 then Inl (DirectPortZero s) else parse_direct_list rest (out @ [a]))"

definition parse_direct_addrs :: "string list option \<Rightarrow> direct_addr_error + sock_addr list option" where
  "parse_direct_addrs addrs = (case addrs of
     None \<Rightarrow> Inr None
   | Some v \<Rightarrow> (case parse_direct_list v [] of Inl e \<Rightarrow> Inl e | Inr out \<Rightarrow> Inr (Some out)))"

section \<open>Advertised addresses\<close>

definition is_placeholder_port :: "u16 \<Rightarrow> bool" where
  "is_placeholder_port p \<longleftrightarrow> p = 0 \<or> p = 1"

definition borrow_port :: "sock_addr list \<Rightarrow> bool \<Rightarrow> u16 option" where
  "borrow_port bound v6 = map_option sa_port
     (find (\<lambda>s. is_ipv6 s = v6 \<and> \<not> is_placeholder_port (sa_port s)) bound)"

fun reconcile_direct_addr_ports :: "sock_addr list \<Rightarrow> sock_addr list \<Rightarrow> sock_addr list" where
  "reconcile_direct_addr_ports [] bound = []"
| "reconcile_direct_addr_ports (a # rest) bound =
     (if \<not> is_placeholder_port (sa_port a) then a # reconcile_direct_addr_ports rest bound
      else (case borrow_port bound (is_ipv6 a) of
         Some p \<Rightarrow> set_port p a # reconcile_direct_addr_ports rest bound
       | None \<Rightarrow> reconcile_direct_addr_ports rest bound))"

text \<open>What the transport reports about this endpoint.\<close>

record ep_addr =
  ep_relays :: "string list"
  ep_ip_addrs :: "sock_addr list"
  ep_bound :: "sock_addr list"
  ep_is_closed :: bool

definition transport_alive :: "ep_addr \<Rightarrow> bool" where
  "transport_alive e \<longleftrightarrow> \<not> ep_is_closed e \<and> ep_bound e \<noteq> []"

definition direct_socket_addrs :: "ep_addr \<Rightarrow> sock_addr list" where
  "direct_socket_addrs e = reconcile_direct_addr_ports (ep_ip_addrs e) (ep_bound e)"

definition node_addr :: "addr_lib \<Rightarrow> bytes \<Rightarrow> ep_addr \<Rightarrow> node_addr_info" where
  "node_addr L k e = \<lparr>nai_id = base32_encode L k,
     nai_addrs = ep_relays e @ map (sock_show L) (direct_socket_addrs e)\<rparr>"

definition node_ticket :: "addr_lib \<Rightarrow> bytes \<Rightarrow> ep_addr \<Rightarrow> core_error + string" where
  "node_ticket L k e = (case json_of_info L (node_addr L k e) of
     Inl err \<Rightarrow> Inl (internal (''failed to serialize node ticket: '' @ err)) | Inr s \<Rightarrow> Inr s)"

definition home_relay :: "ep_addr \<Rightarrow> string option" where
  "home_relay e = (case ep_relays e of [] \<Rightarrow> None | r # _ \<Rightarrow> Some r)"

definition is_routable_ip :: "ip_addr \<Rightarrow> bool" where
  "is_routable_ip ip = (if is_loopback ip \<or> is_unspecified ip then False
     else (case ip of IpV4 a b _ _ \<Rightarrow> \<not> v4_is_link_local a b
           | IpV6 g \<Rightarrow> and (segment0 g) 0xffc0 \<noteq> 0xfe80))"

definition select_dialable_direct :: "addr_lib \<Rightarrow> sock_addr list \<Rightarrow> string option" where
  "select_dialable_direct L addrs = map_option (sock_show L)
     (find (\<lambda>a. is_routable_ip (sa_ip a) \<and> \<not> is_placeholder_port (sa_port a)) addrs)"

fun select_dialable_directs_from :: "addr_lib \<Rightarrow> string list \<Rightarrow> sock_addr list \<Rightarrow> string list" where
  "select_dialable_directs_from L out [] = out"
| "select_dialable_directs_from L out (a # rest) =
     (if is_routable_ip (sa_ip a) \<and> \<not> is_placeholder_port (sa_port a) \<and> sock_show L a \<notin> set out
      then select_dialable_directs_from L (out @ [sock_show L a]) rest
      else select_dialable_directs_from L out rest)"

definition select_dialable_directs :: "addr_lib \<Rightarrow> sock_addr list \<Rightarrow> string list" where
  "select_dialable_directs L addrs = select_dialable_directs_from L [] addrs"

definition dialable_direct_address :: "addr_lib \<Rightarrow> ep_addr \<Rightarrow> string option" where
  "dialable_direct_address L e = select_dialable_direct L (direct_socket_addrs e)"

definition dialable_direct_addresses :: "addr_lib \<Rightarrow> ep_addr \<Rightarrow> string list" where
  "dialable_direct_addresses L e = select_dialable_directs L (direct_socket_addrs e)"

section \<open>Properties\<close>

lemma reconcile_ports_real:
  "a \<in> set (reconcile_direct_addr_ports cands bound) \<Longrightarrow> \<not> is_placeholder_port (sa_port a)"
  by (induction cands bound rule: reconcile_direct_addr_ports.induct)
    (auto simp: borrow_port_def set_port_def find_Some_iff split: if_splits option.splits)

lemma borrowed_from_bound:
  "borrow_port bound v6 = Some p \<Longrightarrow> \<exists>b \<in> set bound. is_ipv6 b = v6 \<and> sa_port b = p \<and> \<not> is_placeholder_port p"
  by (auto simp: borrow_port_def find_Some_iff)

text \<open>Port reconciliation: every advertised direct address has a real port and the address of
  a candidate; a candidate with a real port is kept as it is, in order; a placeholder is advertised
  only with the port of a bound socket of the same family, and dropped exactly when there is none.\<close>

theorem reconcile_is_sound:
  "(\<forall>a \<in> set (reconcile_direct_addr_ports cands bound). \<not> is_placeholder_port (sa_port a)
      \<and> (a \<in> set cands \<or> (\<exists>c \<in> set cands. \<exists>b \<in> set bound. is_placeholder_port (sa_port c)
           \<and> a = set_port (sa_port b) c \<and> is_ipv6 b = is_ipv6 c)))
   \<and> subseq (filter (\<lambda>c. \<not> is_placeholder_port (sa_port c)) cands) (reconcile_direct_addr_ports cands bound)
   \<and> length (reconcile_direct_addr_ports cands bound)
       = length (filter (\<lambda>c. \<not> is_placeholder_port (sa_port c)
            \<or> (\<exists>b \<in> set bound. is_ipv6 b = is_ipv6 c \<and> \<not> is_placeholder_port (sa_port b))) cands)"
proof (intro conjI ballI)
  fix a assume a: "a \<in> set (reconcile_direct_addr_ports cands bound)"
  then show "\<not> is_placeholder_port (sa_port a)" by (rule reconcile_ports_real)
  show "a \<in> set cands \<or> (\<exists>c \<in> set cands. \<exists>b \<in> set bound. is_placeholder_port (sa_port c)
           \<and> a = set_port (sa_port b) c \<and> is_ipv6 b = is_ipv6 c)"
    using a
    by (induction cands bound rule: reconcile_direct_addr_ports.induct)
      (auto split: if_splits option.splits dest!: borrowed_from_bound)
next
  show "subseq (filter (\<lambda>c. \<not> is_placeholder_port (sa_port c)) cands) (reconcile_direct_addr_ports cands bound)"
    by (induction cands bound rule: reconcile_direct_addr_ports.induct) (auto split: option.splits)
next
  have "borrow_port bound v6 = None \<longleftrightarrow> \<not> (\<exists>b \<in> set bound. is_ipv6 b = v6 \<and> \<not> is_placeholder_port (sa_port b))" for v6
    by (auto simp: borrow_port_def find_None_iff)
  then show "length (reconcile_direct_addr_ports cands bound)
       = length (filter (\<lambda>c. \<not> is_placeholder_port (sa_port c)
            \<or> (\<exists>b \<in> set bound. is_ipv6 b = is_ipv6 c \<and> \<not> is_placeholder_port (sa_port b))) cands)"
    by (induction cands bound rule: reconcile_direct_addr_ports.induct)
      (auto split: option.splits dest: borrowed_from_bound)
qed

theorem reconcile_is_sound_witness:
  "length (reconcile_direct_addr_ports [sock (IpV4 10 0 0 7) 1, sock (IpV4 1 2 3 4) 40349] [sock (IpV4 0 0 0 0) 62546]) = 2
   \<and> subseq [sock (IpV4 1 2 3 4) 40349]
       (reconcile_direct_addr_ports [sock (IpV4 10 0 0 7) 1, sock (IpV4 1 2 3 4) 40349] [sock (IpV4 0 0 0 0) 62546])"
  using reconcile_is_sound [of "[sock (IpV4 10 0 0 7) 1, sock (IpV4 1 2 3 4) 40349]" "[sock (IpV4 0 0 0 0) 62546]"]
  by (simp add: sock_def is_placeholder_port_def is_ipv6_def)

lemma parse_direct_list_spec:
  "parse_direct_list v out = Inr res \<longleftrightarrow>
     (\<exists>as. res = out @ as \<and> map parse_sock_addr v = map Some as \<and> (\<forall>a \<in> set as. sa_port a \<noteq> 0))"
proof (induction v arbitrary: out)
  case Nil
  then show ?case by auto
next
  case (Cons s v)
  show ?case
  proof (cases "parse_sock_addr s")
    case None
    then show ?thesis by (auto simp: Cons_eq_map_conv)
  next
    case (Some a)
    then show ?thesis using Cons.IH [of "out @ [a]"] by (auto simp: Cons_eq_map_conv)
  qed
qed

text \<open>Direct addresses are parsed all or nothing: the list is accepted exactly when every
  entry is a well-formed socket address with a port other than zero, and then yields them all in
  order; otherwise an offending entry is reported, which is malformed or has port zero.\<close>

theorem direct_addrs_all_or_nothing:
  "(parse_direct_addrs (Some v) = Inr (Some as)
      \<longleftrightarrow> map parse_sock_addr v = map Some as \<and> (\<forall>a \<in> set as. sa_port a \<noteq> 0))
   \<and> (case parse_direct_addrs (Some v) of
        Inr r \<Rightarrow> \<exists>as. r = Some as
      | Inl (DirectMalformed s) \<Rightarrow> s \<in> set v \<and> parse_sock_addr s = None
      | Inl (DirectPortZero s) \<Rightarrow> s \<in> set v \<and> map_option sa_port (parse_sock_addr s) = Some 0)"
proof
  show "parse_direct_addrs (Some v) = Inr (Some as)
      \<longleftrightarrow> map parse_sock_addr v = map Some as \<and> (\<forall>a \<in> set as. sa_port a \<noteq> 0)"
    using parse_direct_list_spec [of v "[]" as]
    by (auto simp: parse_direct_addrs_def split: sum.splits)
  have "case parse_direct_list v out of Inr r \<Rightarrow> True
      | Inl (DirectMalformed s) \<Rightarrow> s \<in> set v \<and> parse_sock_addr s = None
      | Inl (DirectPortZero s) \<Rightarrow> s \<in> set v \<and> map_option sa_port (parse_sock_addr s) = Some 0" for out
    by (induction v out rule: parse_direct_list.induct)
      (auto split: option.splits sum.splits direct_addr_error.splits)
  from this [of "[]"] show "case parse_direct_addrs (Some v) of
        Inr r \<Rightarrow> \<exists>as. r = Some as
      | Inl (DirectMalformed s) \<Rightarrow> s \<in> set v \<and> parse_sock_addr s = None
      | Inl (DirectPortZero s) \<Rightarrow> s \<in> set v \<and> map_option sa_port (parse_sock_addr s) = Some 0"
    by (auto simp: parse_direct_addrs_def split: sum.splits)
qed

theorem direct_addrs_all_or_nothing_witness:
  "parse_direct_addrs (Some [''192.168.50.227:59234'', ''[2001:db8::1]:443''])
     = Inr (Some [sock (IpV4 192 168 50 227) 59234, sock (IpV6 [0x2001, 0xdb8, 0, 0, 0, 0, 0, 1]) 443])"
proof -
  have "parse_sock_addr ''192.168.50.227:59234'' = Some (sock (IpV4 192 168 50 227) 59234)" by code_simp
  moreover have "parse_sock_addr ''[2001:db8::1]:443'' = Some (sock (IpV6 [0x2001, 0xdb8, 0, 0, 0, 0, 0, 1]) 443)"
    by code_simp
  ultimately show ?thesis
    using direct_addrs_all_or_nothing [of "[''192.168.50.227:59234'', ''[2001:db8::1]:443'']"
        "[sock (IpV4 192 168 50 227) 59234, sock (IpV6 [0x2001, 0xdb8, 0, 0, 0, 0, 0, 1]) 443]"]
    by (simp add: sock_def)
qed

subsection \<open>Tickets\<close>

lemma parse_entries_relays:
  assumes "\<forall>u \<in> set us. contains_str ''://'' u \<and> relay_parse L u = Some u"
  shows "parse_addr_entries L (us @ xs) rs ds = parse_addr_entries L xs (rs @ us) ds"
  using assms by (induction us arbitrary: rs) auto

lemma parse_entries_directs:
  assumes "\<forall>a \<in> set as. \<not> contains_str ''://'' (sock_show L a) \<and> parse_sock_addr (sock_show L a) = Some a
     \<and> sa_port a \<noteq> 0"
  shows "parse_addr_entries L (map (sock_show L) as) rs ds = Inr (rs, ds @ as)"
  using assms by (induction as arbitrary: ds) auto

text \<open>Property C9.  A node's own ticket is always accepted by the parser and denotes the node: it yields the
  node's key, its relays and its reconciled direct addresses in order.  In particular no advertised
  address is ever rejected for a missing port.  The parameters are used only through the round trips
  of their formats on the values at hand.\<close>

theorem ticket_roundtrip:
  assumes "json_of_info L (node_addr L k e) = Inr t" and "json_to_info L t = Some (node_addr L k e)"
    and "b32_decode L (b32_encode L k) = Some k" and "length k = 32" and "key_from_bytes L k = Inr k"
    and "\<forall>u \<in> set (ep_relays e). contains_str ''://'' u \<and> relay_parse L u = Some u"
    and "\<forall>a \<in> set (direct_socket_addrs e). \<not> contains_str ''://'' (sock_show L a)
           \<and> parse_sock_addr (sock_show L a) = Some a"
  shows "node_ticket L k e = Inr t
     \<and> parse_node_addr L t = Inr \<lparr>pna_node_id = k, pna_relay_urls = ep_relays e,
          pna_direct_addrs = direct_socket_addrs e\<rparr>"
proof -
  have "\<forall>a \<in> set (direct_socket_addrs e). sa_port a \<noteq> 0"
    using reconcile_ports_real by (fastforce simp: direct_socket_addrs_def is_placeholder_port_def)
  then have "parse_addr_entries L (nai_addrs (node_addr L k e)) [] [] = Inr (ep_relays e, direct_socket_addrs e)"
    using assms(6,7) by (simp add: node_addr_def parse_entries_relays parse_entries_directs)
  moreover have "parse_node_id L (nai_id (node_addr L k e)) = Inr k"
    using assms(3-5) by (simp add: node_addr_def base32_encode_def parse_node_id_def base32_decode_def)
  ultimately show ?thesis using assms(1,2) by (simp add: node_ticket_def parse_node_addr_def)
qed

theorem ticket_roundtrip_witness:
  "\<exists>L e t. ep_ip_addrs e = [sock (IpV4 10 0 0 7) 0] \<and> node_ticket L (replicate 32 5) e = Inr t
     \<and> parse_node_addr L t = Inr \<lparr>pna_node_id = replicate 32 5, pna_relay_urls = [''https://r''],
          pna_direct_addrs = [sock (IpV4 10 0 0 7) 443]\<rparr>"
proof -
  define a where "a = sock (IpV4 10 0 0 7) 443"
  define e where "e = \<lparr>ep_relays = [''https://r''], ep_ip_addrs = [sock (IpV4 10 0 0 7) 0],
     ep_bound = [sock (IpV4 0 0 0 0) 443], ep_is_closed = False\<rparr>"
  define info where "info = \<lparr>nai_id = ''k'', nai_addrs = [''https://r'', ''10.0.0.7:443'']\<rparr>"
  define L where "L = \<lparr>b32_encode = \<lambda>_. ''k'', b32_decode = \<lambda>_. Some (replicate 32 (5 :: u8)),
     key_from_bytes = Inr, json_to_info = \<lambda>_. Some info, json_of_info = \<lambda>_. Inr ''t'',
     relay_parse = Some, sock_show = \<lambda>_. ''10.0.0.7:443''\<rparr>"
  have d: "direct_socket_addrs e = [a]"
    by (simp add: direct_socket_addrs_def e_def a_def sock_def is_placeholder_port_def borrow_port_def
        is_ipv6_def set_port_def)
  have n: "node_addr L (replicate 32 5) e = info"
    unfolding node_addr_def d by (simp add: base32_encode_def L_def e_def info_def)
  have p: "parse_sock_addr ''10.0.0.7:443'' = Some a" unfolding a_def by code_simp
  have r: "node_ticket L (replicate 32 5) e = Inr ''t''
     \<and> parse_node_addr L ''t'' = Inr \<lparr>pna_node_id = replicate 32 5, pna_relay_urls = ep_relays e,
          pna_direct_addrs = direct_socket_addrs e\<rparr>"
  proof (rule ticket_roundtrip)
    show "\<forall>x \<in> set (direct_socket_addrs e). \<not> contains_str ''://'' (sock_show L x)
           \<and> parse_sock_addr (sock_show L x) = Some x"
      using p by (simp add: d L_def)
  qed (simp_all add: n, simp_all add: L_def e_def)
  then show ?thesis unfolding d by (intro exI [of _ L] exI [of _ e] exI [of _ "''t''"]) (simp add: e_def a_def)
qed

subsection \<open>Selection for advertisement\<close>

lemma select_from_spec:
  "distinct out \<Longrightarrow> distinct (select_dialable_directs_from L out addrs)
     \<and> set (select_dialable_directs_from L out addrs) = set out \<union> sock_show L `
         {a \<in> set addrs. is_routable_ip (sa_ip a) \<and> \<not> is_placeholder_port (sa_port a)}
     \<and> (\<exists>more. select_dialable_directs_from L out addrs = out @ more)"
  by (induction L out addrs rule: select_dialable_directs_from.induct) auto

text \<open>The addresses selected for advertisement are distinct and are exactly those of the
  routable direct addresses with a real port, and the single selected address is the first of them;
  loopback, unspecified and link-local addresses are never advertised.\<close>

theorem advertised_addresses_are_routable:
  "distinct (dialable_direct_addresses L e)
   \<and> set (dialable_direct_addresses L e) = sock_show L ` {a \<in> set (direct_socket_addrs e). is_routable_ip (sa_ip a)}
   \<and> dialable_direct_address L e = (case dialable_direct_addresses L e of [] \<Rightarrow> None | s # _ \<Rightarrow> Some s)"
proof (intro conjI)
  have real: "a \<in> set (direct_socket_addrs e) \<Longrightarrow> \<not> is_placeholder_port (sa_port a)" for a
    using reconcile_ports_real by (simp add: direct_socket_addrs_def)
  note sp = select_from_spec [of "[]" L "direct_socket_addrs e"]
  show "distinct (dialable_direct_addresses L e)"
    using sp by (simp add: dialable_direct_addresses_def select_dialable_directs_def)
  show "set (dialable_direct_addresses L e) = sock_show L ` {a \<in> set (direct_socket_addrs e). is_routable_ip (sa_ip a)}"
    using sp real by (auto simp: dialable_direct_addresses_def select_dialable_directs_def)
  have "select_dialable_direct L addrs
      = (case select_dialable_directs L addrs of [] \<Rightarrow> None | s # _ \<Rightarrow> Some s)" for addrs
  proof (induction addrs)
    case Nil
    then show ?case by (simp add: select_dialable_direct_def select_dialable_directs_def)
  next
    case (Cons a addrs)
    show ?case
    proof (cases "is_routable_ip (sa_ip a) \<and> \<not> is_placeholder_port (sa_port a)")
      case True
      then obtain more where "select_dialable_directs L (a # addrs) = [sock_show L a] @ more"
        using select_from_spec [of "[sock_show L a]" L addrs] by (auto simp: select_dialable_directs_def)
      then show ?thesis using True by (simp add: select_dialable_direct_def)
    next
      case False
      then show ?thesis using Cons by (auto simp: select_dialable_direct_def select_dialable_directs_def)
    qed
  qed
  then show "dialable_direct_address L e = (case dialable_direct_addresses L e of [] \<Rightarrow> None | s # _ \<Rightarrow> Some s)"
    by (simp add: dialable_direct_address_def dialable_direct_addresses_def)
qed

end
