(* ===== verification/Node_Bind.thy ===== *)
theory Node_Bind
  imports Node_Addr Handle_Store Serve_Runtime
begin

text \<open>
  Binding an endpoint: the options of \<^verbatim>\<open>endpoint/config.rs\<close>, \<open>IrohEndpoint::bind\<close> of
  \<^verbatim>\<open>endpoint/bind.rs\<close>, the nameserver configuration of \<^verbatim>\<open>endpoint/dns_nameservers.rs\<close> and
  the scoped-nameserver proxies of \<^verbatim>\<open>endpoint/scoped_dns_compat.rs\<close>.

  URL parsers, the transport's own checks and binding sockets are parameters (\<open>bind_lib\<close>).
\<close>

section \<open>Options\<close>

record networking_options =
  no_relay_mode :: "string option"
  no_relays :: "string list"
  no_bind_addrs :: "string list"
  no_idle_timeout_ms :: "nat option"
  no_proxy_url :: "string option"
  no_proxy_from_env :: bool
  no_disabled :: bool

record discovery_options =
  do_dns_server :: "string option"
  do_enabled :: bool
  do_dns_nameservers :: "string list"

definition discovery_options_new :: "string option \<Rightarrow> bool \<Rightarrow> discovery_options" where
  "discovery_options_new server en = \<lparr>do_dns_server = server, do_enabled = en, do_dns_nameservers = []\<rparr>"

definition default_discovery_options :: discovery_options where
  "default_discovery_options = \<lparr>do_dns_server = None, do_enabled = True, do_dns_nameservers = []\<rparr>"

record pool_options =
  po_max_connections :: "nat option"
  po_idle_timeout_ms :: "nat option"

record streaming_options =
  st_channel_capacity :: "nat option"
  st_max_chunk_size_bytes :: "nat option"
  st_drain_timeout_ms :: "nat option"
  st_handle_ttl_ms :: "nat option"
  st_sweep_interval_ms :: "nat option"

record node_options =
  nd_key :: "bytes option"
  nd_networking :: networking_options
  nd_discovery :: discovery_options
  nd_pool :: pool_options
  nd_streaming :: streaming_options
  nd_capabilities :: "string list"
  nd_keylog :: bool
  nd_max_header_size :: "nat option"
  nd_max_response_body_bytes :: "nat option"
  nd_compression :: "compression_options option"

record bind_lib =
  relay_url_parse :: "string \<Rightarrow> string + string"
  url_parse :: "string \<Rightarrow> string + string"
  idle_timeout_check :: "nat \<Rightarrow> string option" \<comment> \<open>\<open>Some\<close>: out of range\<close>
  bind_addr_check :: "sock_addr \<Rightarrow> string option"
  proxy_bind :: "sock_addr \<Rightarrow> string + sock_addr" \<comment> \<open>the loopback listener of a scoped proxy\<close>
  transport_bind :: "string + bytes" \<comment> \<open>the bound endpoint's identity\<close>
  lib_b32 :: "bytes \<Rightarrow> string"

section \<open>Nameservers\<close>

datatype nameserver_error = ScopedIpInvalid string | ScopeNotNumeric string | ScopeZero string
  | IpInvalid string | LinkLocalUnscoped string

definition v6_link_local :: "ip_addr \<Rightarrow> bool" where
  "v6_link_local ip = (case ip of IpV4 _ _ _ _ \<Rightarrow> False | IpV6 g \<Rightarrow> and (segment0 g) 0xffc0 = 0xfe80)"

definition parse_dns_nameserver :: "string \<Rightarrow> nameserver_error + sock_addr" where
  "parse_dns_nameserver v = (case split_once (CHR ''%'') v of
     Some (host, scope) \<Rightarrow> (case parse_ipv6 host of
        None \<Rightarrow> Inl (ScopedIpInvalid v)
      | Some ip \<Rightarrow> (case parse_u32 scope of
           None \<Rightarrow> Inl (ScopeNotNumeric v)
         | Some n \<Rightarrow> if n = 0 then Inl (ScopeZero v) else Inr \<lparr>sa_ip = ip, sa_port = 53, sa_scope = n\<rparr>))
   | None \<Rightarrow> (case parse_ip v of
        None \<Rightarrow> Inl (IpInvalid v)
      | Some ip \<Rightarrow> if v6_link_local ip then Inl (LinkLocalUnscoped v) else Inr (sock ip 53)))"

record scoped_proxy =
  local_addr :: sock_addr
  upstream :: sock_addr

text \<open>\<open>start_scoped_dns_proxy\<close>: refuses anything but a scoped IPv6 upstream.\<close>

definition start_scoped_dns_proxy :: "bind_lib \<Rightarrow> sock_addr \<Rightarrow> string + scoped_proxy" where
  "start_scoped_dns_proxy B up =
     (if \<not> is_ipv6 up then Inl ''scoped DNS proxy requires an IPv6 upstream''
      else if sa_scope up = 0 then Inl ''scoped DNS proxy requires a non-zero IPv6 scope ID''
      else (case proxy_bind B up of Inl e \<Rightarrow> Inl e | Inr l \<Rightarrow> Inr \<lparr>local_addr = l, upstream = up\<rparr>))"

definition resolver_addr :: "bind_lib \<Rightarrow> string \<Rightarrow> sock_addr \<Rightarrow> scoped_proxy list
    \<Rightarrow> core_error + (sock_addr \<times> scoped_proxy list)" where
  "resolver_addr B ns a proxies =
     (if \<not> is_ipv6 a then Inr (a, proxies)
      else if sa_scope a = 0 then Inr (a, proxies)
      else (case start_scoped_dns_proxy B a of
          Inl e \<Rightarrow> Inl (connection_failed (''failed to start scoped DNS proxy for '' @ ns @ '': '' @ e))
        | Inr p \<Rightarrow> Inr (local_addr p, proxies @ [p])))"

record configured_dns =
  cd_resolver :: "sock_addr list option" \<comment> \<open>the nameservers of a configured resolver\<close>
  cd_proxies :: "scoped_proxy list"

fun configure_loop :: "bind_lib \<Rightarrow> string list \<Rightarrow> sock_addr list \<Rightarrow> scoped_proxy list \<Rightarrow> nameserver_error list
    \<Rightarrow> core_error + (sock_addr list \<times> scoped_proxy list \<times> nameserver_error list)" where
  "configure_loop B [] added proxies rejected = Inr (added, proxies, rejected)"
| "configure_loop B (ns # rest) added proxies rejected = (case parse_dns_nameserver ns of
     Inl e \<Rightarrow> configure_loop B rest added proxies (rejected @ [e])
   | Inr a \<Rightarrow> (case resolver_addr B ns a proxies of
        Inl e \<Rightarrow> Inl e
      | Inr (r, proxies') \<Rightarrow> configure_loop B rest (added @ [r]) proxies' rejected))"

definition dns_configure :: "bind_lib \<Rightarrow> (nameserver_error list \<Rightarrow> string) \<Rightarrow> string list \<Rightarrow> core_error + configured_dns" where
  "dns_configure B join_reasons ns =
     (if ns = [] then Inr \<lparr>cd_resolver = None, cd_proxies = []\<rparr>
      else (case configure_loop B ns [] [] [] of
          Inl e \<Rightarrow> Inl e
        | Inr (added, proxies, rejected) \<Rightarrow>
            if added = [] then Inl (invalid_input (''all '' @ show_nat (length rejected)
              @ '' supplied dns_nameservers were invalid (expected IP addresses): '' @ join_reasons rejected))
            else Inr \<lparr>cd_resolver = Some added, cd_proxies = proxies\<rparr>))"

subsection \<open>Load of one scoped proxy\<close>

definition MAX_SCOPED_DNS_IN_FLIGHT :: nat where "MAX_SCOPED_DNS_IN_FLIGHT = 32"
definition MAX_SCOPED_DNS_UDP_PAYLOAD :: nat where "MAX_SCOPED_DNS_UDP_PAYLOAD = 4096"

record proxy_load =
  px_in_flight :: nat
  px_dropped :: nat
  px_forwards :: nat \<comment> \<open>entries of the join set, reaped or not\<close>
  px_finished :: nat \<comment> \<open>finished entries that are not yet reaped\<close>
  px_stopped :: bool

datatype proxy_event = PxShutdown | PxRecvError | PxQuery nat | PxChildDone | PxJoin

text \<open>One iteration of \<open>run_scoped_dns_proxy\<close>, or the end of a forwarding task, which releases its
  in-flight guard.\<close>

definition proxy_step :: "proxy_event \<Rightarrow> proxy_load \<Rightarrow> proxy_load option" where
  "proxy_step e l = (case e of
       PxChildDone \<Rightarrow> if px_in_flight l = 0 then None
         else Some (l\<lparr>px_in_flight := px_in_flight l - 1, px_finished := Suc (px_finished l)\<rparr>)
     | PxShutdown \<Rightarrow> if px_stopped l then None else Some (l\<lparr>px_stopped := True\<rparr>)
     | PxRecvError \<Rightarrow> if px_stopped l then None else Some (l\<lparr>px_stopped := True\<rparr>)
     | PxJoin \<Rightarrow> if px_stopped l \<or> px_finished l = 0 then None
         else Some (l\<lparr>px_finished := px_finished l - 1, px_forwards := px_forwards l - 1\<rparr>)
     | PxQuery len \<Rightarrow> if px_stopped l then None
         else if MAX_SCOPED_DNS_UDP_PAYLOAD < len then Some (l\<lparr>px_dropped := Suc (px_dropped l)\<rparr>)
         else (let l1 = l\<lparr>px_forwards := px_forwards l - px_finished l, px_finished := 0\<rparr> in
           if MAX_SCOPED_DNS_IN_FLIGHT \<le> px_in_flight l1 then Some (l1\<lparr>px_dropped := Suc (px_dropped l1)\<rparr>)
           else Some (l1\<lparr>px_in_flight := Suc (px_in_flight l1), px_forwards := Suc (px_forwards l1)\<rparr>)))"

section \<open>Binding\<close>

datatype relay_mode = RelayDefault | RelayStaging | RelayDisabled | RelayCustom "string list"

definition ALPN_DUPLEX :: bytes where "ALPN_DUPLEX = map (\<lambda>c. of_nat (of_char c)) ''iroh-http/2-duplex''"
definition KNOWN_ALPNS :: "string list" where "KNOWN_ALPNS = [''iroh-http/2'', ''iroh-http/2-duplex'']"
definition DEFAULT_MAX_RESPONSE_BODY_BYTES :: nat where "DEFAULT_MAX_RESPONSE_BODY_BYTES = 256 * 1024 * 1024"

definition str_bytes :: "string \<Rightarrow> bytes" where "str_bytes s = map (\<lambda>c. of_nat (of_char c)) s"

definition segmentation_offload_enabled :: "string \<Rightarrow> bool" where
  "segmentation_offload_enabled target_os \<longleftrightarrow> target_os \<noteq> ''android''"

definition check_disabled_relay :: "networking_options \<Rightarrow> core_error option" where
  "check_disabled_relay n = (if no_disabled n \<and> (case no_relay_mode n of None \<Rightarrow> False | Some m \<Rightarrow> m \<noteq> ''disabled'')
     then Some (invalid_input (''networking.disabled is true but relay_mode is set to a non-disabled value; ''
       @ ''set relay_mode to \"disabled\" or omit it when networking.disabled is true'')) else None)"

fun collect_urls :: "bind_lib \<Rightarrow> string list \<Rightarrow> core_error + string list" where
  "collect_urls B [] = Inr []"
| "collect_urls B (u # us) = (case relay_url_parse B u of
     Inl e \<Rightarrow> Inl (invalid_input e)
   | Inr r \<Rightarrow> (case collect_urls B us of Inl e \<Rightarrow> Inl e | Inr rs \<Rightarrow> Inr (r # rs)))"

definition resolve_relay_mode :: "bind_lib \<Rightarrow> networking_options \<Rightarrow> core_error + relay_mode" where
  "resolve_relay_mode B n = (if no_disabled n then Inr RelayDisabled
     else (case no_relay_mode n of
         None \<Rightarrow> Inr RelayDefault
       | Some m \<Rightarrow>
           if m = ''default'' then Inr RelayDefault
           else if m = ''staging'' then Inr RelayStaging
           else if m = ''disabled'' then Inr RelayDisabled
           else if m = ''custom'' then
             (if no_relays n = [] then Inl (invalid_input ''relay_mode \"custom\" requires at least one URL in `relays`'')
              else (case collect_urls B (no_relays n) of Inl e \<Rightarrow> Inl e | Inr us \<Rightarrow> Inr (RelayCustom us)))
           else Inl (invalid_input (''unknown relay_mode: '' @ m))))"

fun check_capabilities :: "string list \<Rightarrow> core_error option" where
  "check_capabilities [] = None"
| "check_capabilities (c # cs) = (if c \<notin> set KNOWN_ALPNS
     then Some (invalid_input (''unknown ALPN capability: \"'' @ c
        @ ''\"; valid values are [\"iroh-http/2\", \"iroh-http/2-duplex\"]''))
     else check_capabilities cs)"

definition check_compression_level :: "compression_options option \<Rightarrow> core_error option" where
  "check_compression_level co = (case co of None \<Rightarrow> None
     | Some c \<Rightarrow> (case comp_level c of None \<Rightarrow> None
        | Some l \<Rightarrow> if 1 \<le> l \<and> l \<le> 22 then None
            else Some (invalid_input (''compression level must be 1-22, got '' @ show_nat (unat l)))))"

definition resolve_alpns :: "string list \<Rightarrow> bytes list" where
  "resolve_alpns caps = (if caps = [] then [ALPN_DUPLEX, ALPN]
     else let l = map str_bytes caps in if ALPN \<in> set l then l else l @ [ALPN])"

definition store_config_of :: "streaming_options \<Rightarrow> store_config" where
  "store_config_of s = \<lparr>channel_capacity = max (unwrap_or (st_channel_capacity s) DEFAULT_CHANNEL_CAPACITY) 1,
     max_chunk_size = max (unwrap_or (st_max_chunk_size_bytes s) DEFAULT_MAX_CHUNK_SIZE) 1,
     cfg_drain_timeout = unwrap_or (st_drain_timeout_ms s) DEFAULT_DRAIN_TIMEOUT_MS,
     max_handles = DEFAULT_MAX_HANDLES,
     ttl = unwrap_or (st_handle_ttl_ms s) DEFAULT_SLAB_TTL_MS\<rparr>"

text \<open>The sweep task: none for a zero time-to-live; the runtime's interval constructor panics on a zero
  period, which ends the task.\<close>

datatype sweep_task = SweepOff | SweepEvery millis | SweepPanicked

definition start_sweep :: "streaming_options \<Rightarrow> sweep_task" where
  "start_sweep s = (if ttl (store_config_of s) = 0 then SweepOff
     else let i = unwrap_or (st_sweep_interval_ms s) DEFAULT_SWEEP_INTERVAL_MS in
       if i = 0 then SweepPanicked else SweepEvery i)"

definition resolve_max_header_size :: "nat option \<Rightarrow> core_error + nat" where
  "resolve_max_header_size m = (case m of
     None \<Rightarrow> Inr (64 * 1024)
   | Some n \<Rightarrow> if n = 0 then Inl (invalid_input ''max_header_size must be > 0; use None for the default (65536)'')
       else Inr n)"

datatype lookup_config = LookupNone | LookupN0 | LookupServer string

definition resolve_lookup :: "bind_lib \<Rightarrow> node_options \<Rightarrow> core_error + lookup_config" where
  "resolve_lookup B opt = (if \<not> no_disabled (nd_networking opt) \<and> do_enabled (nd_discovery opt)
     then (case do_dns_server (nd_discovery opt) of
         None \<Rightarrow> Inr LookupN0
       | Some u \<Rightarrow> (case url_parse B u of Inl e \<Rightarrow> Inl (invalid_input (''invalid dns_discovery URL: '' @ e))
            | Inr r \<Rightarrow> Inr (LookupServer r)))
     else Inr LookupNone)"

definition check_idle_timeout :: "bind_lib \<Rightarrow> nat option \<Rightarrow> core_error option" where
  "check_idle_timeout B t = (case t of None \<Rightarrow> None
     | Some ms \<Rightarrow> map_option (\<lambda>e. invalid_input (''idle_timeout_ms out of range: '' @ e)) (idle_timeout_check B ms))"

fun check_bind_addrs :: "bind_lib \<Rightarrow> string list \<Rightarrow> core_error + sock_addr list" where
  "check_bind_addrs B [] = Inr []"
| "check_bind_addrs B (a # rest) = (case parse_sock_addr a of
     None \<Rightarrow> Inl (invalid_input (''invalid bind address \"'' @ a @ ''\"''))
   | Some sa \<Rightarrow> (case bind_addr_check B sa of
        Some e \<Rightarrow> Inl (invalid_input (''bind address \"'' @ a @ ''\": '' @ e))
      | None \<Rightarrow> (case check_bind_addrs B rest of Inl e \<Rightarrow> Inl e | Inr r \<Rightarrow> Inr (sa # r))))"

definition check_proxy :: "bind_lib \<Rightarrow> networking_options \<Rightarrow> core_error + string option" where
  "check_proxy B n = (case no_proxy_url n of None \<Rightarrow> Inr None
     | Some u \<Rightarrow> (case url_parse B u of Inl e \<Rightarrow> Inl (invalid_input (''invalid proxy URL: '' @ e)) | Inr r \<Rightarrow> Inr (Some r)))"

definition classify_bind_error :: "string \<Rightarrow> core_error" where
  "classify_bind_error e = connection_failed e"

record bound_endpoint =
  be_node_id :: bytes
  be_node_id_str :: string
  be_relay :: relay_mode
  be_alpns :: "bytes list"
  be_dns :: configured_dns
  be_lookup :: lookup_config
  be_sockets :: "sock_addr list"
  be_proxy :: "string option"
  be_store_config :: store_config
  be_sweep :: sweep_task
  be_pool_capacity :: nat
  be_event_capacity :: nat
  be_max_header_size :: nat
  be_max_response_body_bytes :: nat
  be_compression :: "compression_options option"

text \<open>Sequencing of fallible steps (\<open>?\<close>).\<close>

definition guard_err :: "core_error option \<Rightarrow> (core_error + 'a) \<Rightarrow> core_error + 'a" where
  "guard_err c k = (case c of Some e \<Rightarrow> Inl e | None \<Rightarrow> k)"

definition try_bind :: "core_error + 'b \<Rightarrow> ('b \<Rightarrow> core_error + 'a) \<Rightarrow> core_error + 'a" where
  "try_bind r k = (case r of Inl e \<Rightarrow> Inl e | Inr v \<Rightarrow> k v)"

definition bind_endpoint :: "bind_lib \<Rightarrow> (nameserver_error list \<Rightarrow> string) \<Rightarrow> node_options \<Rightarrow> core_error + bound_endpoint" where
  "bind_endpoint B join_reasons opt = (let n = nd_networking opt in
     guard_err (check_disabled_relay n) (
     try_bind (resolve_relay_mode B n) (\<lambda>relay.
     guard_err (check_capabilities (nd_capabilities opt)) (
     guard_err (check_compression_level (nd_compression opt)) (
     try_bind (dns_configure B join_reasons (do_dns_nameservers (nd_discovery opt))) (\<lambda>dns.
     try_bind (resolve_lookup B opt) (\<lambda>lookup.
     guard_err (check_idle_timeout B (no_idle_timeout_ms n)) (
     try_bind (check_bind_addrs B (no_bind_addrs n)) (\<lambda>socks.
     try_bind (check_proxy B n) (\<lambda>proxy.
     try_bind (case transport_bind B of Inl e \<Rightarrow> Inl (classify_bind_error e) | Inr k \<Rightarrow> Inr k) (\<lambda>k.
     try_bind (resolve_max_header_size (nd_max_header_size opt)) (\<lambda>hdr.
       Inr \<lparr>be_node_id = k, be_node_id_str = lib_b32 B k, be_relay = relay,
         be_alpns = resolve_alpns (nd_capabilities opt), be_dns = dns, be_lookup = lookup, be_sockets = socks,
         be_proxy = proxy, be_store_config = store_config_of (nd_streaming opt),
         be_sweep = start_sweep (nd_streaming opt),
         be_pool_capacity = unwrap_or (po_max_connections (nd_pool opt)) 512, be_event_capacity = 256,
         be_max_header_size = hdr,
         be_max_response_body_bytes = unwrap_or (nd_max_response_body_bytes opt) DEFAULT_MAX_RESPONSE_BODY_BYTES,
         be_compression = nd_compression opt\<rparr>))))))))))))"

end
