(* ===== verification/Bind_Props.thy ===== *)
theory Bind_Props
  imports Node_Bind
begin

text \<open>Properties of binding an endpoint, of its nameserver configuration and of the scoped proxies.\<close>

section \<open>Bound endpoints\<close>

lemma guard_err_Inr [simp]: "guard_err c k = Inr v \<longleftrightarrow> c = None \<and> k = Inr v"
  by (simp add: guard_err_def split: option.splits)

lemma try_bind_Inr [simp]: "try_bind r k = Inr v \<longleftrightarrow> (\<exists>x. r = Inr x \<and> k x = Inr v)"
  by (simp add: try_bind_def split: sum.splits)

lemma check_capabilities_None: "check_capabilities cs = None \<longleftrightarrow> set cs \<subseteq> set KNOWN_ALPNS"
  by (induction cs) auto

lemma resolve_alpns_spec:
  assumes "set caps \<subseteq> set KNOWN_ALPNS"
  shows "ALPN \<in> set (resolve_alpns caps) \<and> set (resolve_alpns caps) \<subseteq> str_bytes ` set KNOWN_ALPNS"
  using assms
  by (auto simp: resolve_alpns_def Let_def ALPN_def ALPN_DUPLEX_def str_bytes_def KNOWN_ALPNS_def)

lemma bound_store_config:
  assumes "bind_endpoint B join_reasons opt = Inr b"
  shows "be_store_config b = store_config_of (nd_streaming opt)"
  using assms unfolding bind_endpoint_def Let_def by (simp only: guard_err_Inr try_bind_Inr) fastforce

text \<open>A bound endpoint is usable: its body channels and chunks have positive sizes (so that
  streaming through its handle store is well defined), its header limit is positive, it always offers
  the base protocol and only known ones, its compression level is in range, and with networking
  disabled it uses neither relays nor discovery.\<close>

theorem bound_endpoint_is_usable:
  assumes "bind_endpoint B join_reasons opt = Inr b"
  shows "0 < channel_capacity (be_store_config b) \<and> 0 < max_chunk_size (be_store_config b)
     \<and> 0 < be_max_header_size b
     \<and> ALPN \<in> set (be_alpns b) \<and> set (be_alpns b) \<subseteq> str_bytes ` set KNOWN_ALPNS
     \<and> (\<forall>c l. be_compression b = Some c \<longrightarrow> comp_level c = Some l \<longrightarrow> 1 \<le> l \<and> l \<le> 22)
     \<and> (no_disabled (nd_networking opt) \<longrightarrow> be_relay b = RelayDisabled \<and> be_lookup b = LookupNone)"
proof -
  obtain relay dns lookup socks proxy k hdr where
    f: "resolve_relay_mode B (nd_networking opt) = Inr relay" "check_capabilities (nd_capabilities opt) = None"
      "check_compression_level (nd_compression opt) = None" "resolve_lookup B opt = Inr lookup"
      "resolve_max_header_size (nd_max_header_size opt) = Inr hdr"
    and b: "be_store_config b = store_config_of (nd_streaming opt)" "be_max_header_size b = hdr"
      "be_alpns b = resolve_alpns (nd_capabilities opt)" "be_compression b = nd_compression opt"
      "be_relay b = relay" "be_lookup b = lookup"
    using assms unfolding bind_endpoint_def Let_def by (simp only: guard_err_Inr try_bind_Inr) fastforce
  have "0 < hdr" using f(5) by (auto simp: resolve_max_header_size_def split: option.splits if_splits)
  moreover have "1 \<le> l \<and> l \<le> 22" if "be_compression b = Some c" "comp_level c = Some l" for c l
    using f(3) that b(4) by (simp add: check_compression_level_def split: if_splits)
  moreover have "relay = RelayDisabled \<and> lookup = LookupNone" if "no_disabled (nd_networking opt)"
    using f(1,4) that by (simp add: resolve_relay_mode_def resolve_lookup_def)
  moreover have "0 < channel_capacity (be_store_config b)" "0 < max_chunk_size (be_store_config b)"
    by (simp_all add: b(1) store_config_of_def)
  moreover have "set (nd_capabilities opt) \<subseteq> set KNOWN_ALPNS" using f(2) by (simp add: check_capabilities_None)
  ultimately show ?thesis using b resolve_alpns_spec by simp
qed

definition example_options :: node_options where
  "example_options = \<lparr>nd_key = None, nd_networking = \<lparr>no_relay_mode = None, no_relays = [],
       no_bind_addrs = [''127.0.0.1:0''], no_idle_timeout_ms = None, no_proxy_url = None,
       no_proxy_from_env = False, no_disabled = True\<rparr>,
     nd_discovery = default_discovery_options, nd_pool = \<lparr>po_max_connections = None, po_idle_timeout_ms = None\<rparr>,
     nd_streaming = \<lparr>st_channel_capacity = Some 0, st_max_chunk_size_bytes = None, st_drain_timeout_ms = None,
       st_handle_ttl_ms = None, st_sweep_interval_ms = Some 0\<rparr>,
     nd_capabilities = [''iroh-http/2-duplex''], nd_keylog = False, nd_max_header_size = None,
     nd_max_response_body_bytes = None, nd_compression = None\<rparr>"

definition example_bind_lib :: bind_lib where
  "example_bind_lib = \<lparr>relay_url_parse = Inr, url_parse = Inr, idle_timeout_check = \<lambda>_. None,
     bind_addr_check = \<lambda>_. None, proxy_bind = \<lambda>_. Inr (sock (IpV4 127 0 0 1) 40000), transport_bind = Inr [1],
     lib_b32 = \<lambda>_. ''k''\<rparr>"

lemma example_binds: "\<exists>b. bind_endpoint example_bind_lib (\<lambda>_. []) example_options = Inr b \<and> be_sweep b = SweepPanicked"
proof -
  have p: "parse_sock_addr ''127.0.0.1:0'' = Some (sock (IpV4 127 0 0 1) 0)" by code_simp
  show ?thesis
    by (simp add: bind_endpoint_def example_options_def example_bind_lib_def check_disabled_relay_def
        resolve_relay_mode_def KNOWN_ALPNS_def check_compression_level_def dns_configure_def
        default_discovery_options_def resolve_lookup_def check_idle_timeout_def p check_proxy_def
        resolve_max_header_size_def start_sweep_def store_config_of_def unwrap_or_def DEFAULT_SLAB_TTL_MS_def Let_def)
qed

theorem bound_endpoint_is_usable_witness:
  "\<exists>b. bind_endpoint example_bind_lib (\<lambda>_. []) example_options = Inr b
     \<and> 0 < channel_capacity (be_store_config b) \<and> ALPN \<in> set (be_alpns b) \<and> be_relay b = RelayDisabled"
proof -
  obtain b where b: "bind_endpoint example_bind_lib (\<lambda>_. []) example_options = Inr b" using example_binds by blast
  have "no_disabled (nd_networking example_options)" by (simp add: example_options_def)
  then show ?thesis using bound_endpoint_is_usable [OF b] b by blast
qed

text \<open>A sweep interval of zero is accepted by \<open>bind\<close> but ends the sweep task at once: the
  task panics exactly for a zero interval with a positive time-to-live, so that expired handles are
  never swept.\<close>

theorem zero_sweep_interval_is_accepted:
  "(start_sweep s = SweepPanicked \<longleftrightarrow> st_sweep_interval_ms s = Some 0 \<and> st_handle_ttl_ms s \<noteq> Some 0)
   \<and> (\<exists>b. bind_endpoint example_bind_lib (\<lambda>_. []) example_options = Inr b \<and> be_sweep b = SweepPanicked)"
  using example_binds
  by (auto simp: start_sweep_def store_config_of_def unwrap_or_def Let_def DEFAULT_SWEEP_INTERVAL_MS_def
      DEFAULT_SLAB_TTL_MS_def split: option.splits)

section \<open>Nameservers\<close>

lemma parse_nameserver_scope:
  assumes "parse_dns_nameserver v = Inr a"
  shows "sa_port a = 53 \<and> (v6_link_local (sa_ip a) \<longrightarrow> sa_scope a \<noteq> 0)"
  using assms
  by (auto simp: parse_dns_nameserver_def sock_def split: option.splits if_splits)

definition routed :: "scoped_proxy list \<Rightarrow> sock_addr \<Rightarrow> sock_addr \<Rightarrow> bool" where
  "routed proxies a r \<longleftrightarrow> (if is_ipv6 a \<and> sa_scope a \<noteq> 0
     then \<exists>p \<in> set proxies. upstream p = a \<and> local_addr p = r else r = a)"

lemma resolver_addr_routed:
  assumes "resolver_addr B ns a proxies = Inr (r, proxies')"
  shows "set proxies \<subseteq> set proxies' \<and> routed proxies' a r"
  using assms
  by (auto simp: resolver_addr_def start_scoped_dns_proxy_def routed_def split: if_splits sum.splits)

lemma configure_loop_spec:
  assumes "configure_loop B ns added proxies rejected = Inr (added', proxies', rejected')"
  shows "set proxies \<subseteq> set proxies'
     \<and> (\<exists>rs. added' = added @ rs \<and> length rs = length (filter (\<lambda>n. \<not> isl (parse_dns_nameserver n)) ns)
        \<and> (\<forall>r \<in> set rs. \<exists>n \<in> set ns. \<exists>a. parse_dns_nameserver n = Inr a \<and> routed proxies' a r))"
  using assms
proof (induction B ns added proxies rejected rule: configure_loop.induct)
  case (1 B added proxies rejected)
  then show ?case by simp
next
  case (2 B ns rest added proxies rejected)
  show ?case
  proof (cases "parse_dns_nameserver ns")
    case (Inl e)
    then have "configure_loop B rest added proxies (rejected @ [e]) = Inr (added', proxies', rejected')"
      using 2(3) by simp
    from 2(1) [OF Inl this] show ?thesis using Inl by auto
  next
    case (Inr a)
    then obtain r px where r: "resolver_addr B ns a proxies = Inr (r, px)"
      and rest: "configure_loop B rest (added @ [r]) px rejected = Inr (added', proxies', rejected')"
      using 2(3) by (auto split: sum.splits prod.splits)
    obtain rs where rs: "added' = (added @ [r]) @ rs" "set px \<subseteq> set proxies'"
      "length rs = length (filter (\<lambda>n. \<not> isl (parse_dns_nameserver n)) rest)"
      "\<forall>r \<in> set rs. \<exists>n \<in> set rest. \<exists>a. parse_dns_nameserver n = Inr a \<and> routed proxies' a r"
      using 2(2) [OF Inr r refl rest] by blast
    have "routed proxies' a r" "set proxies \<subseteq> set proxies'"
      using resolver_addr_routed [OF r] rs(2) by (auto simp: routed_def split: if_splits)
    then show ?thesis using rs Inr by (intro conjI exI [of _ "r # rs"]) auto
  qed
qed

text \<open>Scoped nameservers keep their scope: when the nameserver configuration succeeds, either
  none was supplied, or the resolver has one nameserver per well-formed entry and each is reached at
  the exact parsed address on port 53, directly when it needs no scope and through a proxy whose
  upstream carries the scope otherwise; a link-local address without a scope is never used.\<close>

theorem nameserver_scope_is_preserved:
  assumes "dns_configure B join_reasons ns = Inr d"
  shows "case cd_resolver d of None \<Rightarrow> ns = []
     | Some rs \<Rightarrow> rs \<noteq> [] \<and> length rs = length (filter (\<lambda>n. \<not> isl (parse_dns_nameserver n)) ns)
         \<and> (\<forall>r \<in> set rs. \<exists>n \<in> set ns. \<exists>a. parse_dns_nameserver n = Inr a \<and> sa_port a = 53
              \<and> (v6_link_local (sa_ip a) \<longrightarrow> sa_scope a \<noteq> 0) \<and> routed (cd_proxies d) a r)"
proof (cases "ns = []")
  case True
  then show ?thesis using assms by (auto simp: dns_configure_def)
next
  case False
  obtain rs px rej where "configure_loop B ns [] [] [] = Inr (rs, px, rej)" "rs \<noteq> []"
    "d = \<lparr>cd_resolver = Some rs, cd_proxies = px\<rparr>"
    using assms False by (auto simp: dns_configure_def split: sum.splits prod.splits if_splits)
  then show ?thesis
    using configure_loop_spec [of B ns "[]" "[]" "[]" rs px rej] parse_nameserver_scope by fastforce
qed

theorem nameserver_scope_is_preserved_witness:
  "\<exists>d. dns_configure example_bind_lib (\<lambda>_. []) [''bogus'', ''fe80::1%17''] = Inr d
     \<and> (case cd_resolver d of None \<Rightarrow> False | Some rs \<Rightarrow> length rs = 1)"
proof -
  have p: "parse_dns_nameserver ''bogus'' = Inl (IpInvalid ''bogus'')"
    "parse_dns_nameserver ''fe80::1%17''
       = Inr \<lparr>sa_ip = IpV6 [0xfe80, 0, 0, 0, 0, 0, 0, 1], sa_port = 53, sa_scope = 17\<rparr>"
    by code_simp+
  obtain d where d: "dns_configure example_bind_lib (\<lambda>_. []) [''bogus'', ''fe80::1%17''] = Inr d"
    and "cd_resolver d \<noteq> None"
    by (simp add: dns_configure_def p resolver_addr_def is_ipv6_def start_scoped_dns_proxy_def example_bind_lib_def)
  then show ?thesis using nameserver_scope_is_preserved [OF d] p by (auto split: option.splits)
qed

section \<open>Proxy load\<close>

fun proxy_run :: "proxy_event list \<Rightarrow> proxy_load \<Rightarrow> proxy_load option" where
  "proxy_run [] l = Some l"
| "proxy_run (e # es) l = (case proxy_step e l of None \<Rightarrow> None | Some l' \<Rightarrow> proxy_run es l')"

definition proxy_idle :: proxy_load where
  "proxy_idle = \<lparr>px_in_flight = 0, px_dropped = 0, px_forwards = 0, px_finished = 0, px_stopped = False\<rparr>"

lemma proxy_step_bounded:
  assumes "proxy_step e l = Some l'" "px_forwards l = px_in_flight l + px_finished l"
    "px_forwards l \<le> MAX_SCOPED_DNS_IN_FLIGHT"
  shows "px_forwards l' = px_in_flight l' + px_finished l' \<and> px_forwards l' \<le> MAX_SCOPED_DNS_IN_FLIGHT"
  using assms by (auto simp: proxy_step_def Let_def split: proxy_event.splits if_splits)

text \<open>A scoped proxy's work is bounded: whatever datagrams arrive and however its forwarding
  tasks end, at most 32 queries are in flight, and at most 32 entries, finished ones included, are
  retained.\<close>

theorem scoped_proxy_is_bounded:
  assumes "proxy_run es proxy_idle = Some l"
  shows "px_in_flight l \<le> MAX_SCOPED_DNS_IN_FLIGHT \<and> px_forwards l = px_in_flight l + px_finished l
     \<and> px_forwards l \<le> MAX_SCOPED_DNS_IN_FLIGHT"
proof -
  have "proxy_run es k = Some l \<Longrightarrow> px_forwards k = px_in_flight k + px_finished k
      \<Longrightarrow> px_forwards k \<le> MAX_SCOPED_DNS_IN_FLIGHT
      \<Longrightarrow> px_forwards l = px_in_flight l + px_finished l \<and> px_forwards l \<le> MAX_SCOPED_DNS_IN_FLIGHT" for k
    by (induction es k rule: proxy_run.induct) (auto split: option.splits dest: proxy_step_bounded)
  from this [OF assms] show ?thesis by (simp add: proxy_idle_def)
qed

theorem scoped_proxy_is_bounded_witness:
  "\<exists>l. proxy_run [PxQuery 100, PxQuery 5000, PxChildDone, PxQuery 40] proxy_idle = Some l
     \<and> px_dropped l = 1 \<and> px_forwards l = px_in_flight l + px_finished l"
proof -
  obtain l where l: "proxy_run [PxQuery 100, PxQuery 5000, PxChildDone, PxQuery 40] proxy_idle = Some l" "px_dropped l = 1"
    by (simp add: proxy_step_def proxy_idle_def MAX_SCOPED_DNS_UDP_PAYLOAD_def MAX_SCOPED_DNS_IN_FLIGHT_def)
  then show ?thesis using scoped_proxy_is_bounded [OF l(1)] by blast
qed

end
