(* ===== verification/Scoped_Lookup.thy ===== *)
theory Scoped_Lookup
  imports Std_Net
begin

text \<open>
  \<^verbatim>\<open>src/crates/iroh-http-core/src/endpoint/source_scoped_lookup.rs\<close>: address contributions of
  browse sessions (sources), keyed by source and service instance, and the effective addresses per
  endpoint that the transport resolves.

  Endpoint ids, relay URLs, base32 and the address collection of the transport (\<open>EndpointData\<close>, a set
  in some order) are parameters (\<open>lookup_lib\<close>).  The contributions are an association list; a retiring
  source first sets its flag and then takes the lock to clean up.
\<close>

section \<open>State\<close>

type_synonym endpoint_id = bytes

datatype transport_addr = TIp sock_addr | TRelay string

record lookup_lib =
  parse_endpoint_id :: "string \<Rightarrow> string + endpoint_id"
  id_base32 :: "endpoint_id \<Rightarrow> string"
  parse_relay :: "string \<Rightarrow> string option"
  data_norm :: "transport_addr list \<Rightarrow> transport_addr list" \<comment> \<open>\<open>EndpointData::from_iter\<close>\<close>
  show_taddr :: "transport_addr \<Rightarrow> string"

record contribution =
  ct_endpoint :: endpoint_id
  ct_node_id :: string
  ct_data :: "transport_addr list"

record lookup_state =
  next_source_id :: u64
  contributions :: "((u64 \<times> string) \<times> contribution) list"
  effective :: "(endpoint_id \<times> transport_addr list) list"
  retired :: "u64 list" \<comment> \<open>sources whose retired flag is set\<close>
  cleaning :: "u64 list" \<comment> \<open>retiring sources that have not yet taken the lock\<close>

record lookup_removal =
  rm_node_id :: string
  has_remaining_contributions :: bool
  remaining_addrs :: "string list"

record lookup_upsert =
  up_node_id :: string
  up_effective_addrs :: "string list"
  up_replaced :: "lookup_removal option"

record upsert_error =
  ue_message :: string
  ue_removal :: "lookup_removal option"

definition lookup_new :: lookup_state where
  "lookup_new = \<lparr>next_source_id = 1, contributions = [], effective = [], retired = [], cleaning = []\<rparr>"

section \<open>Operations\<close>

text \<open>\<open>None\<close>: the source id space is exhausted and the call panics.\<close>

definition new_source :: "lookup_state \<Rightarrow> (u64 \<times> lookup_state) option" where
  "new_source st = (if next_source_id st = - 1 then None
     else Some (next_source_id st, st\<lparr>next_source_id := next_source_id st + 1\<rparr>))"

definition is_space :: "char \<Rightarrow> bool" where
  "is_space c \<longleftrightarrow> (let n = of_char c :: nat in n = 32 \<or> (9 \<le> n \<and> n \<le> 13))"

definition trim_str :: "string \<Rightarrow> string" where
  "trim_str s = rev (dropWhile is_space (rev (dropWhile is_space s)))"

text \<open>An address that is neither a socket address nor a relay URL is skipped, as is a direct address with
  port 0 or 1.\<close>

definition taddr_of :: "lookup_lib \<Rightarrow> string \<Rightarrow> transport_addr list" where
  "taddr_of L s = (let a = trim_str s in case parse_sock_addr a of
     Some sa \<Rightarrow> if sa_port sa \<le> 1 then [] else [TIp sa]
   | None \<Rightarrow> (case parse_relay L a of Some u \<Rightarrow> [TRelay u] | None \<Rightarrow> []))"

definition endpoint_data :: "lookup_lib \<Rightarrow> string list \<Rightarrow> transport_addr list" where
  "endpoint_data L addrs = data_norm L (concat (map (taddr_of L) addrs))"

definition addrs_where :: "(u64 \<times> string \<Rightarrow> contribution \<Rightarrow> bool) \<Rightarrow> lookup_state \<Rightarrow> transport_addr list" where
  "addrs_where P st = concat (map (\<lambda>(k, c). ct_data c) (filter (\<lambda>(k, c). P k c) (contributions st)))"

definition recompute_endpoint :: "lookup_lib \<Rightarrow> endpoint_id \<Rightarrow> lookup_state \<Rightarrow> lookup_state" where
  "recompute_endpoint L e st = (let d = data_norm L (addrs_where (\<lambda>_ c. ct_endpoint c = e) st) in
     if d \<noteq> [] then st\<lparr>effective := al_put e d (effective st)\<rparr> else st\<lparr>effective := al_del e (effective st)\<rparr>)"

definition source_effective_addrs :: "lookup_lib \<Rightarrow> u64 \<Rightarrow> endpoint_id \<Rightarrow> lookup_state \<Rightarrow> string list" where
  "source_effective_addrs L sid e st = map (show_taddr L)
     (data_norm L (addrs_where (\<lambda>k c. fst k = sid \<and> ct_endpoint c = e) st))"

definition removal_snapshot :: "lookup_lib \<Rightarrow> u64 \<Rightarrow> endpoint_id \<Rightarrow> string \<Rightarrow> lookup_state \<Rightarrow> lookup_removal" where
  "removal_snapshot L sid e nid st = \<lparr>rm_node_id = nid,
     has_remaining_contributions = list_ex (\<lambda>(k, c). fst k = sid \<and> ct_endpoint c = e) (contributions st),
     remaining_addrs = source_effective_addrs L sid e st\<rparr>"

definition remove_contribution :: "lookup_lib \<Rightarrow> u64 \<times> string \<Rightarrow> lookup_state \<Rightarrow> lookup_removal option \<times> lookup_state" where
  "remove_contribution L key st = (case map_of (contributions st) key of
     None \<Rightarrow> (None, st)
   | Some c \<Rightarrow> (let st' = recompute_endpoint L (ct_endpoint c) (st\<lparr>contributions := al_del key (contributions st)\<rparr>)
       in (Some (removal_snapshot L (fst key) (ct_endpoint c) (ct_node_id c) st'), st')))"

definition upsert :: "lookup_lib \<Rightarrow> u64 \<Rightarrow> string \<Rightarrow> string \<Rightarrow> string list \<Rightarrow> lookup_state
    \<Rightarrow> (upsert_error + lookup_upsert) \<times> lookup_state" where
  "upsert L sid inst node addrs st =
     (if sid \<in> set (retired st)
      then (Inl \<lparr>ue_message = ''address-lookup source has been retired'', ue_removal = None\<rparr>, st)
      else (case parse_endpoint_id L node of
          Inl e \<Rightarrow> (case remove_contribution L (sid, inst) st of
             (r, st') \<Rightarrow> (Inl \<lparr>ue_message = ''invalid node id '' @ node @ '': '' @ e, ue_removal = r\<rparr>, st'))
        | Inr e \<Rightarrow>
            (let old = map_of (contributions st) (sid, inst);
                 c = \<lparr>ct_endpoint = e, ct_node_id = id_base32 L e, ct_data = endpoint_data L addrs\<rparr>;
                 st1 = st\<lparr>contributions := al_put (sid, inst) c (contributions st)\<rparr>;
                 st2 = (case old of Some p \<Rightarrow> if ct_endpoint p \<noteq> e then recompute_endpoint L (ct_endpoint p) st1 else st1
                        | None \<Rightarrow> st1);
                 st3 = recompute_endpoint L e st2
             in (Inr \<lparr>up_node_id = id_base32 L e, up_effective_addrs = source_effective_addrs L sid e st3,
                   up_replaced = (case old of None \<Rightarrow> None
                      | Some p \<Rightarrow> if ct_endpoint p \<noteq> e
                          then Some (removal_snapshot L sid (ct_endpoint p) (ct_node_id p) st3) else None)\<rparr>, st3))))"

definition remove_with_snapshot :: "lookup_lib \<Rightarrow> u64 \<Rightarrow> string \<Rightarrow> lookup_state \<Rightarrow> lookup_removal option \<times> lookup_state" where
  "remove_with_snapshot L sid inst st =
     (if sid \<in> set (retired st) then (None, st) else remove_contribution L (sid, inst) st)"

definition lookup_remove :: "lookup_lib \<Rightarrow> u64 \<Rightarrow> string \<Rightarrow> lookup_state \<Rightarrow> string option \<times> lookup_state" where
  "lookup_remove L sid inst st = (case remove_with_snapshot L sid inst st of (r, st') \<Rightarrow> (map_option rm_node_id r, st'))"

text \<open>\<open>SourceLease::retire\<close>: the flag first, then the clean-up under the lock.\<close>

definition retire_flag :: "u64 \<Rightarrow> lookup_state \<Rightarrow> lookup_state" where
  "retire_flag sid st = (if sid \<in> set (retired st) then st
     else st\<lparr>retired := sid # retired st, cleaning := sid # cleaning st\<rparr>)"

definition retire_clean :: "lookup_lib \<Rightarrow> u64 \<Rightarrow> lookup_state \<Rightarrow> lookup_state" where
  "retire_clean L sid st =
     (let affected = remdups (map (\<lambda>(k, c). ct_endpoint c) (filter (\<lambda>(k, c). fst k = sid) (contributions st)));
          st1 = st\<lparr>contributions := filter (\<lambda>(k, c). fst k \<noteq> sid) (contributions st), cleaning := removeAll sid (cleaning st)\<rparr>
      in fold (recompute_endpoint L) affected st1)"

definition lookup_resolve :: "endpoint_id \<Rightarrow> lookup_state \<Rightarrow> transport_addr list option" where
  "lookup_resolve e st = map_of (effective st) e"

section \<open>Reachable states\<close>

inductive lookup_step :: "lookup_lib \<Rightarrow> lookup_state \<Rightarrow> lookup_state \<Rightarrow> bool" for L where
  lk_source: "new_source st = Some (sid, st') \<Longrightarrow> lookup_step L st st'"
| lk_upsert: "lookup_step L st (snd (upsert L sid inst node addrs st))"
| lk_remove: "lookup_step L st (snd (lookup_remove L sid inst st))"
| lk_flag: "lookup_step L st (retire_flag sid st)"
| lk_clean: "sid \<in> set (cleaning st) \<Longrightarrow> lookup_step L st (retire_clean L sid st)"

inductive lookup_reachable :: "lookup_lib \<Rightarrow> lookup_state \<Rightarrow> bool" for L where
  lk_start: "lookup_reachable L lookup_new"
| lk_next: "lookup_reachable L st \<Longrightarrow> lookup_step L st st' \<Longrightarrow> lookup_reachable L st'"

section \<open>Invariants\<close>

text \<open>The address collection represents the set of its addresses.\<close>

definition norm_law :: "lookup_lib \<Rightarrow> bool" where
  "norm_law L \<longleftrightarrow> (\<forall>xs. set (data_norm L xs) = set xs)"

definition entry_ok :: "lookup_lib \<Rightarrow> lookup_state \<Rightarrow> endpoint_id \<Rightarrow> bool" where
  "entry_ok L st e \<longleftrightarrow> map_of (effective st) e
     = (let d = data_norm L (addrs_where (\<lambda>_ c. ct_endpoint c = e) st) in if d = [] then None else Some d)"

lemma recompute_frame [simp]:
  "contributions (recompute_endpoint L e st) = contributions st" "retired (recompute_endpoint L e st) = retired st"
  "cleaning (recompute_endpoint L e st) = cleaning st"
  by (simp_all add: recompute_endpoint_def Let_def)

lemma addrs_where_recompute [simp]: "addrs_where P (recompute_endpoint L e st) = addrs_where P st"
  by (simp add: addrs_where_def)

lemma recompute_entry: "entry_ok L (recompute_endpoint L e st) e"
  by (simp add: entry_ok_def recompute_endpoint_def Let_def addrs_where_def)

lemma recompute_other: "e' \<noteq> e \<Longrightarrow> entry_ok L (recompute_endpoint L e st) e' = entry_ok L st e'"
  by (simp add: entry_ok_def recompute_endpoint_def Let_def addrs_where_def)

lemma recompute_keeps: "entry_ok L st e' \<Longrightarrow> entry_ok L (recompute_endpoint L e st) e'"
  using recompute_entry recompute_other by (cases "e' = e") auto

lemma fold_recompute:
  "(\<forall>e. e \<in> set es \<or> entry_ok L st e) \<Longrightarrow> (\<forall>e. entry_ok L (fold (recompute_endpoint L) es st) e)"
proof (induction es arbitrary: st)
  case Nil
  then show ?case by simp
next
  case (Cons e es)
  have "\<forall>e'. e' \<in> set es \<or> entry_ok L (recompute_endpoint L e st) e'"
    using Cons.prems recompute_entry recompute_keeps by (metis set_ConsD)
  then show ?case using Cons.IH by simp
qed

lemma fold_recompute_frame [simp]:
  "contributions (fold (recompute_endpoint L) es st) = contributions st"
  "retired (fold (recompute_endpoint L) es st) = retired st"
  "cleaning (fold (recompute_endpoint L) es st) = cleaning st"
  by (induction es arbitrary: st) simp_all

text \<open>Changing contributions keeps the entry of every endpoint that they do not mention.\<close>

lemma entry_frame:
  assumes "entry_ok L st e" "effective st' = effective st"
    and "filter (\<lambda>(k, c). ct_endpoint c = e) (contributions st') = filter (\<lambda>(k, c). ct_endpoint c = e) (contributions st)"
  shows "entry_ok L st' e"
  using assms by (simp add: entry_ok_def addrs_where_def)

lemma filter_al_del_other:
  assumes "distinct (keys m)" "\<forall>c. map_of m k = Some c \<longrightarrow> ct_endpoint c \<noteq> e"
  shows "filter (\<lambda>(k, c). ct_endpoint c = e) (al_del k m) = filter (\<lambda>(k, c). ct_endpoint c = e) m"
  using assms
proof (induction m)
  case Nil
  then show ?case by (simp add: al_del_def)
next
  case (Cons p m)
  obtain k' c where p: "p = (k', c)" by fastforce
  show ?case
  proof (cases "k' = k")
    case True
    then have "k \<notin> set (keys m)" using Cons.prems p by (simp add: keys_def)
    then show ?thesis using Cons.prems(2) p True by simp
  next
    case False
    then show ?thesis using Cons p by simp
  qed
qed

definition lookup_inv :: "lookup_lib \<Rightarrow> lookup_state \<Rightarrow> bool" where
  "lookup_inv L st \<longleftrightarrow> (\<forall>e. entry_ok L st e) \<and> distinct (keys (contributions st))
     \<and> (\<forall>k c. (k, c) \<in> set (contributions st) \<longrightarrow> fst k \<in> set (retired st) \<longrightarrow> fst k \<in> set (cleaning st))
     \<and> (\<forall>k c. (k, c) \<in> set (contributions st) \<longrightarrow> (\<exists>addrs. ct_data c = endpoint_data L addrs))"

lemma lookup_invD:
  assumes "lookup_inv L st"
  shows "entry_ok L st e" "distinct (keys (contributions st))"
    "(k, c) \<in> set (contributions st) \<Longrightarrow> fst k \<in> set (retired st) \<Longrightarrow> fst k \<in> set (cleaning st)"
    "(k, c) \<in> set (contributions st) \<Longrightarrow> \<exists>addrs. ct_data c = endpoint_data L addrs"
  using assms unfolding lookup_inv_def by blast+

lemma set_al_del: "(x, y) \<in> set (al_del k m) \<longleftrightarrow> (x, y) \<in> set m \<and> x \<noteq> k"
  by (auto simp: al_del_def)

lemma remove_contribution_inv:
  assumes "lookup_inv L st"
  shows "lookup_inv L (snd (remove_contribution L key st))"
proof (cases "map_of (contributions st) key")
  case None
  then show ?thesis using assms by (simp add: remove_contribution_def)
next
  case (Some c)
  define st1 where "st1 = st\<lparr>contributions := al_del key (contributions st)\<rparr>"
  define st2 where "st2 = recompute_endpoint L (ct_endpoint c) st1"
  have r: "snd (remove_contribution L key st) = st2"
    using Some by (simp add: remove_contribution_def Let_def st1_def st2_def)
  have "entry_ok L st1 e" if "e \<noteq> ct_endpoint c" for e
    by (rule entry_frame [OF lookup_invD(1) [OF assms]])
      (use filter_al_del_other [OF lookup_invD(2) [OF assms], of key e] Some that in \<open>simp_all add: st1_def\<close>)
  then have "\<forall>e. entry_ok L st2 e"
    using recompute_entry recompute_keeps unfolding st2_def by metis
  then show ?thesis
    unfolding r using lookup_invD(2-4) [OF assms]
    by (auto simp: lookup_inv_def st2_def st1_def set_al_del)
qed

lemma upsert_inv:
  assumes "lookup_inv L st"
  shows "lookup_inv L (snd (upsert L sid inst node addrs st))"
proof (cases "sid \<in> set (retired st) \<or> isl (parse_endpoint_id L node)")
  case True
  then show ?thesis
    using assms remove_contribution_inv [OF assms, of "(sid, inst)"]
    by (auto simp: upsert_def split: sum.splits prod.splits)
next
  case False
  then obtain e where e: "parse_endpoint_id L node = Inr e" and nr: "sid \<notin> set (retired st)"
    by (cases "parse_endpoint_id L node") auto
  define old where "old = map_of (contributions st) (sid, inst)"
  define c where "c = \<lparr>ct_endpoint = e, ct_node_id = id_base32 L e, ct_data = endpoint_data L addrs\<rparr>"
  define st1 where "st1 = st\<lparr>contributions := al_put (sid, inst) c (contributions st)\<rparr>"
  define st2 where "st2 = (case old of Some p \<Rightarrow> if ct_endpoint p \<noteq> e then recompute_endpoint L (ct_endpoint p) st1 else st1
     | None \<Rightarrow> st1)"
  define st3 where "st3 = recompute_endpoint L e st2"
  have r: "snd (upsert L sid inst node addrs st) = st3"
    unfolding st3_def st2_def st1_def c_def old_def using e nr by (simp add: upsert_def Let_def)
  have k: "entry_ok L st1 e'" if "e' \<noteq> e" "\<forall>p. old = Some p \<longrightarrow> ct_endpoint p \<noteq> e'" for e'
  proof (rule entry_frame [OF lookup_invD(1) [OF assms]])
    show "filter (\<lambda>(k, c). ct_endpoint c = e') (contributions st1)
        = filter (\<lambda>(k, c). ct_endpoint c = e') (contributions st)"
      using filter_al_del_other [OF lookup_invD(2) [OF assms], of "(sid, inst)" e'] that
      by (simp add: st1_def al_put_def c_def old_def)
  qed (simp add: st1_def)
  have "entry_ok L st2 e'" if "e' \<noteq> e" for e'
  proof (cases "\<exists>p. old = Some p \<and> ct_endpoint p = e'")
    case True
    then show ?thesis using that recompute_entry by (auto simp: st2_def)
  next
    case False
    then have "entry_ok L st1 e'" using k [OF that] by blast
    then show ?thesis using recompute_keeps by (auto simp: st2_def split: option.splits)
  qed
  then have "\<forall>e'. entry_ok L st3 e'" using recompute_entry recompute_keeps unfolding st3_def by metis
  moreover have "contributions st3 = al_put (sid, inst) c (contributions st)" "retired st3 = retired st"
    "cleaning st3 = cleaning st"
    by (auto simp: st3_def st2_def st1_def split: option.splits)
  ultimately show ?thesis
    unfolding r using lookup_invD(2-4) [OF assms] nr
    by (auto simp: lookup_inv_def al_put_def set_al_del c_def)
qed

lemma retire_clean_inv:
  assumes "lookup_inv L st"
  shows "lookup_inv L (retire_clean L sid st)"
proof -
  define aff where "aff = remdups (map (\<lambda>(k, c). ct_endpoint c) (filter (\<lambda>(k, c). fst k = sid) (contributions st)))"
  define st1 where "st1 = st\<lparr>contributions := filter (\<lambda>(k, c). fst k \<noteq> sid) (contributions st),
     cleaning := removeAll sid (cleaning st)\<rparr>"
  have r: "retire_clean L sid st = fold (recompute_endpoint L) aff st1"
    by (simp add: retire_clean_def Let_def aff_def st1_def)
  have "entry_ok L st1 e" if "e \<notin> set aff" for e
  proof (rule entry_frame [OF lookup_invD(1) [OF assms]])
    have "\<And>k c. (k, c) \<in> set (contributions st) \<Longrightarrow> ct_endpoint c = e \<Longrightarrow> fst k \<noteq> sid"
      using that by (force simp: aff_def)
    then show "filter (\<lambda>(k, c). ct_endpoint c = e) (contributions st1)
        = filter (\<lambda>(k, c). ct_endpoint c = e) (contributions st)"
      by (auto simp: st1_def intro!: filter_cong)
  qed (simp add: st1_def)
  then have "\<forall>e. entry_ok L (retire_clean L sid st) e"
    unfolding r by (intro fold_recompute) blast
  then show ?thesis
    using lookup_invD(2-4) [OF assms] unfolding lookup_inv_def r
    by (auto simp: st1_def intro: distinct_keys_filter)
qed

lemma lookup_step_inv:
  assumes "lookup_step L st st'" and inv: "lookup_inv L st"
  shows "lookup_inv L st'"
  using assms(1)
proof cases
  case (lk_source sid)
  then have "st' = st\<lparr>next_source_id := next_source_id st + 1\<rparr>" by (auto simp: new_source_def split: if_splits)
  then show ?thesis using inv by (simp add: lookup_inv_def entry_ok_def addrs_where_def)
next
  case (lk_upsert sid inst node addrs)
  then show ?thesis using upsert_inv [OF inv] by simp
next
  case (lk_remove sid inst)
  then show ?thesis
    using inv remove_contribution_inv [OF inv, of "(sid, inst)"]
    by (auto simp: lookup_remove_def remove_with_snapshot_def split: prod.splits)
next
  case (lk_flag sid)
  then show ?thesis using inv by (auto simp: lookup_inv_def entry_ok_def addrs_where_def retire_flag_def)
next
  case (lk_clean sid)
  then show ?thesis using retire_clean_inv [OF inv] by simp
qed

lemma lookup_reachable_inv: "lookup_reachable L st \<Longrightarrow> norm_law L \<Longrightarrow> lookup_inv L st"
proof (induction rule: lookup_reachable.induct)
  case lk_start
  have "set (data_norm L []) = {}" using lk_start by (simp add: norm_law_def)
  then show ?case by (simp add: lookup_inv_def lookup_new_def entry_ok_def addrs_where_def)
next
  case (lk_next st st')
  then show ?case using lookup_step_inv by blast
qed

section \<open>Properties\<close>

lemma endpoint_data_ports:
  assumes "norm_law L" "TIp a \<in> set (endpoint_data L addrs)"
  shows "1 < sa_port a"
  using assms
  by (auto simp: endpoint_data_def norm_law_def taddr_of_def Let_def split: option.splits if_splits)

text \<open>Property C7.  Lookup returns exactly the live contributions: in every reachable state, after any
  interleaving of updates, removals and retirements, resolving an endpoint yields the union of the
  addresses that the current contributions of all sources give for it, nothing when there is none, and
  never a direct address with a placeholder port.\<close>

theorem lookup_is_union_of_contributions:
  assumes "lookup_reachable L st" "norm_law L"
  shows "(case lookup_resolve e st of
       None \<Rightarrow> \<forall>k c. (k, c) \<in> set (contributions st) \<and> ct_endpoint c = e \<longrightarrow> ct_data c = []
     | Some d \<Rightarrow> d \<noteq> [] \<and> set d = (\<Union>(k, c) \<in> {(k, c) \<in> set (contributions st). ct_endpoint c = e}. set (ct_data c))
         \<and> (\<forall>a. TIp a \<in> set d \<longrightarrow> 1 < sa_port a))"
proof -
  note inv = lookup_reachable_inv [OF assms]
  define xs where "xs = addrs_where (\<lambda>_ c. ct_endpoint c = e) st"
  have s: "set xs = (\<Union>(k, c) \<in> {(k, c) \<in> set (contributions st). ct_endpoint c = e}. set (ct_data c))"
    by (auto simp: xs_def addrs_where_def)
  have n: "set (data_norm L xs) = set xs" using assms(2) by (simp add: norm_law_def)
  have p: "TIp a \<in> set xs \<Longrightarrow> 1 < sa_port a" for a
    using lookup_invD(4) [OF inv] endpoint_data_ports [OF assms(2)] by (fastforce simp: s)
  have "lookup_resolve e st = (if data_norm L xs = [] then None else Some (data_norm L xs))"
    using lookup_invD(1) [OF inv, of e] by (simp add: lookup_resolve_def entry_ok_def xs_def Let_def)
  then show ?thesis using s n p by (auto simp flip: set_empty)
qed

definition example_lookup_lib :: lookup_lib where
  "example_lookup_lib = \<lparr>parse_endpoint_id = \<lambda>s. if s = [] then Inl ''empty'' else Inr [of_nat (length s)],
     id_base32 = \<lambda>_. ''k'', parse_relay = Some, data_norm = remdups, show_taddr = \<lambda>_. ''a''\<rparr>"

lemma example_norm_law: "norm_law example_lookup_lib"
  by (simp add: norm_law_def example_lookup_lib_def)

theorem lookup_is_union_of_contributions_witness:
  "\<exists>st d. lookup_reachable example_lookup_lib st \<and> lookup_resolve [3] st = Some d
     \<and> (\<forall>a. TIp a \<in> set d \<longrightarrow> 1 < sa_port a)"
proof -
  define st where "st = snd (upsert example_lookup_lib 1 ''i'' ''abc'' [''https://r''] lookup_new)"
  have r: "lookup_reachable example_lookup_lib st" unfolding st_def by (rule lk_next [OF lk_start lk_upsert])
  have q: "parse_sock_addr (trim_str ''https://r'') = None" by code_simp
  have "lookup_resolve [3] st \<noteq> None"
    by (simp add: st_def upsert_def lookup_new_def example_lookup_lib_def lookup_resolve_def recompute_endpoint_def
        addrs_where_def endpoint_data_def taddr_of_def q Let_def al_put_def)
  then obtain d where "lookup_resolve [3] st = Some d" by blast
  then show ?thesis using lookup_is_union_of_contributions [OF r example_norm_law, of "[3]"] r by auto
qed

text \<open>A retired source is gone for good: once its retirement has cleaned up, no contribution of
  it exists, further updates are rejected without any effect, and further removals do nothing, also
  when updates raced the retirement.\<close>

theorem retired_source_contributes_nothing:
  assumes "lookup_reachable L st" "norm_law L" "sid \<in> set (retired st)" "sid \<notin> set (cleaning st)"
  shows "(\<forall>inst. map_of (contributions st) (sid, inst) = None)
     \<and> (\<exists>err. upsert L sid inst node addrs st = (Inl err, st) \<and> ue_removal err = None)
     \<and> lookup_remove L sid inst st = (None, st)"
proof -
  have "(k, c) \<in> set (contributions st) \<Longrightarrow> fst k \<noteq> sid" for k c
    using lookup_invD(3) [OF lookup_reachable_inv [OF assms(1,2)]] assms(3,4) by blast
  then have "map_of (contributions st) (sid, i) = None" for i
    by (metis fst_conv map_of_SomeD not_None_eq)
  then show ?thesis
    using assms(3) by (simp add: upsert_def lookup_remove_def remove_with_snapshot_def)
qed

theorem retired_source_contributes_nothing_witness:
  "\<exists>st. lookup_reachable example_lookup_lib st \<and> 1 \<in> set (retired st)
     \<and> map_of (contributions st) (1, ''i'') = None"
proof -
  define s1 where "s1 = snd (upsert example_lookup_lib 1 ''i'' ''abc'' [] lookup_new)"
  define s2 where "s2 = retire_flag 1 s1"
  define s3 where "s3 = retire_clean example_lookup_lib 1 s2"
  have c1: "retired s1 = []" "cleaning s1 = []"
    by (simp_all add: s1_def upsert_def lookup_new_def example_lookup_lib_def Let_def)
  then have c2: "retired s2 = [1]" "cleaning s2 = [1]" by (simp_all add: s2_def retire_flag_def)
  have c3: "retired s3 = [1]" "cleaning s3 = []"
    using c2 by (simp_all add: s3_def retire_clean_def Let_def)
  have "lookup_reachable example_lookup_lib s2"
    unfolding s2_def s1_def by (intro lk_next [OF _ lk_flag] lk_next [OF _ lk_upsert] lk_start)
  then have r: "lookup_reachable example_lookup_lib s3"
    unfolding s3_def by (rule lk_next) (rule lk_clean, simp add: c2)
  show ?thesis using retired_source_contributes_nothing [OF r example_norm_law, of 1] r c3 by auto
qed

end
