(* ===== verification/Path_Watch.thy ===== *)
theory Path_Watch
  imports Iroh_Prelude
begin

text \<open>
  Path-change subscriptions of \<^verbatim>\<open>src/crates/iroh-http-core/src/endpoint/observe.rs\<close>: one watcher task
  per peer, shared by all its subscriptions.  \<open>PathSubscriptions\<close> is an \<open>Arc\<close> compared by pointer; it is
  known here by a number.  Every lock region and every await is one step, so that subscribing,
  unsubscribing, dropping receivers and closing can happen between any two steps of a watcher.
\<close>

section \<open>State\<close>

record path_info =
  pi_relay :: bool
  pi_addr :: string
  pi_active :: bool

datatype watcher_pc = WTop | WCheck | WPoll | WSleep | WExit

record watcher =
  w_nid :: string
  w_ptr :: nat
  w_last :: "(bool \<times> string) option"
  w_pc :: watcher_pc

record path_sys =
  path_subs :: "(string \<times> nat) list"
  sender_sets :: "(nat \<times> (u32 \<times> nat) list) list" \<comment> \<open>per pointer: subscription id and receiver\<close>
  dropped_rx :: "nat list"
  spawning :: "(string \<times> nat) list" \<comment> \<open>subscribed, watcher not yet spawned\<close>
  watchers :: "watcher list"
  active_path_watchers :: nat
  path_closed :: bool
  delivered :: "(nat \<times> path_info) list"
  path_events :: "(string \<times> string \<times> bool) list"
  next_ptr :: nat
  next_rx :: nat

definition path_sys_new :: path_sys where
  "path_sys_new = \<lparr>path_subs = [], sender_sets = [], dropped_rx = [], spawning = [], watchers = [],
     active_path_watchers = 0, path_closed = False, delivered = [], path_events = [], next_ptr = 0, next_rx = 0\<rparr>"

definition senders_of :: "nat \<Rightarrow> path_sys \<Rightarrow> (u32 \<times> nat) list" where
  "senders_of p s = (case map_of (sender_sets s) p of None \<Rightarrow> [] | Some xs \<Rightarrow> xs)"

section \<open>Operations\<close>

text \<open>The lock region of \<open>subscribe_path_changes\<close>; the receiver returned is the new number.\<close>

definition subscribe_lock :: "string \<Rightarrow> u32 \<Rightarrow> path_sys \<Rightarrow> path_sys" where
  "subscribe_lock nid sid s = (let rx = next_rx s in
     case map_of (path_subs s) nid of
       Some p \<Rightarrow> s\<lparr>sender_sets := al_put p (al_put sid rx (senders_of p s)) (sender_sets s), next_rx := Suc rx\<rparr>
     | None \<Rightarrow> (let p = next_ptr s in
         s\<lparr>path_subs := al_put nid p (path_subs s), sender_sets := al_put p [(sid, rx)] (sender_sets s),
           spawning := (nid, p) # spawning s, next_ptr := Suc p, next_rx := Suc rx\<rparr>))"

definition subscribe_spawn :: "string \<times> nat \<Rightarrow> path_sys \<Rightarrow> path_sys" where
  "subscribe_spawn np s = s\<lparr>spawning := removeAll np (spawning s),
     active_path_watchers := atomic_inc (active_path_watchers s),
     watchers := \<lparr>w_nid = fst np, w_ptr = snd np, w_last = None, w_pc = WTop\<rparr> # watchers s\<rparr>"

definition unsubscribe_path_changes :: "string \<Rightarrow> u32 \<Rightarrow> path_sys \<Rightarrow> path_sys" where
  "unsubscribe_path_changes nid sid s = (case map_of (path_subs s) nid of
     None \<Rightarrow> s
   | Some p \<Rightarrow> s\<lparr>sender_sets := al_put p (al_del sid (senders_of p s)) (sender_sets s)\<rparr>)"

definition owns_entry :: "watcher \<Rightarrow> path_sys \<Rightarrow> bool" where
  "owns_entry w s \<longleftrightarrow> map_of (path_subs s) (w_nid w) = Some (w_ptr w)"

definition remove_own :: "watcher \<Rightarrow> path_sys \<Rightarrow> path_sys" where
  "remove_own w s = (if owns_entry w s then s\<lparr>path_subs := al_del (w_nid w) (path_subs s)\<rparr> else s)"

definition prune :: "watcher \<Rightarrow> path_sys \<Rightarrow> path_sys" where
  "prune w s = s\<lparr>sender_sets := al_put (w_ptr w)
     (filter (\<lambda>(_, rx). rx \<notin> set (dropped_rx s)) (senders_of (w_ptr w) s)) (sender_sets s)\<rparr>"

text \<open>One step of a watcher; \<open>stats\<close> is the active path reported by \<open>peer_stats\<close> and \<open>woken\<close> says that the
  sleep ended because the endpoint closed.  \<open>None\<close> in the first component ends the task.\<close>

definition watcher_step :: "path_info option \<Rightarrow> bool \<Rightarrow> watcher \<Rightarrow> path_sys \<Rightarrow> watcher option \<times> path_sys" where
  "watcher_step stats woken w s = (case w_pc w of
       WTop \<Rightarrow> if path_closed s then (Some (w\<lparr>w_pc := WExit\<rparr>), remove_own w s) else (Some (w\<lparr>w_pc := WCheck\<rparr>), s)
     | WCheck \<Rightarrow> if \<not> owns_entry w s then (Some (w\<lparr>w_pc := WExit\<rparr>), s)
         else (let s1 = prune w s in
           if senders_of (w_ptr w) s1 = []
           then (Some (w\<lparr>w_pc := WExit\<rparr>), s1\<lparr>path_subs := al_del (w_nid w) (path_subs s1)\<rparr>)
           else (Some (w\<lparr>w_pc := WPoll\<rparr>), s1))
     | WPoll \<Rightarrow> (case stats of
          None \<Rightarrow> (Some (w\<lparr>w_pc := WSleep\<rparr>), s)
        | Some a \<Rightarrow> if w_last w = Some (pi_relay a, pi_addr a) then (Some (w\<lparr>w_pc := WSleep\<rparr>), s)
            else (Some (w\<lparr>w_pc := WSleep, w_last := Some (pi_relay a, pi_addr a)\<rparr>),
              s\<lparr>delivered := delivered s @ (if owns_entry w s then map (\<lambda>(_, rx). (rx, a)) (senders_of (w_ptr w) s) else []),
                path_events := path_events s @ [(w_nid w, pi_addr a, pi_relay a)]\<rparr>))
     | WSleep \<Rightarrow> if woken \<and> path_closed s then (Some (w\<lparr>w_pc := WExit\<rparr>), remove_own w s)
         else (Some (w\<lparr>w_pc := WTop\<rparr>), s)
     | WExit \<Rightarrow> (None, s\<lparr>active_path_watchers := atomic_dec (active_path_watchers s)\<rparr>))"

definition active_path_subscriptions :: "path_sys \<Rightarrow> nat" where
  "active_path_subscriptions s = length (path_subs s)"

section \<open>Interleavings\<close>

inductive path_step :: "path_sys \<Rightarrow> path_sys \<Rightarrow> bool" where
  pw_subscribe: "path_step s (subscribe_lock nid sid s)"
| pw_spawn: "np \<in> set (spawning s) \<Longrightarrow> path_step s (subscribe_spawn np s)"
| pw_unsubscribe: "path_step s (unsubscribe_path_changes nid sid s)"
| pw_drop: "path_step s (s\<lparr>dropped_rx := rx # dropped_rx s\<rparr>)"
| pw_close: "path_step s (s\<lparr>path_closed := True\<rparr>)"
| pw_watch: "watchers s = xs @ w # ys \<Longrightarrow> watcher_step stats woken w s = (w', s')
     \<Longrightarrow> path_step s (s'\<lparr>watchers := xs @ (case w' of None \<Rightarrow> [] | Some v \<Rightarrow> [v]) @ ys\<rparr>)"

inductive path_reachable :: "path_sys \<Rightarrow> bool" where
  pw_start: "path_reachable path_sys_new"
| pw_next: "path_reachable s \<Longrightarrow> path_step s s' \<Longrightarrow> path_reachable s'"

section \<open>Invariant\<close>

text \<open>Pointers in use, with the peer they belong to.\<close>

definition owners :: "path_sys \<Rightarrow> (string \<times> nat) list" where
  "owners s = spawning s @ map (\<lambda>w. (w_nid w, w_ptr w)) (watchers s)"

definition live_owners :: "path_sys \<Rightarrow> (string \<times> nat) list" where
  "live_owners s = spawning s @ map (\<lambda>w. (w_nid w, w_ptr w)) (filter (\<lambda>w. w_pc w \<noteq> WExit) (watchers s))"

definition path_inv :: "path_sys \<Rightarrow> bool" where
  "path_inv s \<longleftrightarrow> distinct (map snd (owners s)) \<and> (\<forall>np \<in> set (owners s). snd np < next_ptr s)
     \<and> (\<forall>nid p. map_of (path_subs s) nid = Some p \<longrightarrow> (nid, p) \<in> set (live_owners s))
     \<and> active_path_watchers s = length (watchers s) mod 2 ^ 64"

lemma atomic_inc_mod: "atomic_inc (n mod 2 ^ 64) = Suc n mod 2 ^ 64"
  by (auto simp: atomic_inc_def usize_max_def mod_Suc)

lemma atomic_dec_mod: "atomic_dec (Suc n mod 2 ^ 64) = n mod 2 ^ 64"
  by (auto simp: atomic_dec_def usize_max_def mod_Suc)

lemma owners_step_simps [simp]:
  "owners (s\<lparr>sender_sets := x\<rparr>) = owners s" "live_owners (s\<lparr>sender_sets := x\<rparr>) = live_owners s"
  by (simp_all add: owners_def live_owners_def)

lemma watcher_step_frame:
  assumes "watcher_step stats woken w s = (w', s')"
  shows "spawning s' = spawning s" "next_ptr s' = next_ptr s" "watchers s' = watchers s"
    "w' = Some v \<Longrightarrow> w_nid v = w_nid w \<and> w_ptr v = w_ptr w"
    "w' = None \<longleftrightarrow> w_pc w = WExit"
    "active_path_watchers s' = (if w' = None then atomic_dec (active_path_watchers s) else active_path_watchers s)"
    "map_of (path_subs s') nid = Some p \<Longrightarrow> map_of (path_subs s) nid = Some p
       \<and> ((w_pc w = WExit \<or> (\<exists>v. w' = Some v \<and> w_pc v \<noteq> WExit) \<or> (nid, p) \<noteq> (w_nid w, w_ptr w)))"
  using assms
  by (auto simp: watcher_step_def remove_own_def owns_entry_def prune_def Let_def
      split: watcher_pc.splits if_splits option.splits)

lemma path_inv_watch:
  assumes "path_inv s" "watchers s = xs @ w # ys" "watcher_step stats woken w s = (w', s')"
  shows "path_inv (s'\<lparr>watchers := xs @ (case w' of None \<Rightarrow> [] | Some v \<Rightarrow> [v]) @ ys\<rparr>)" (is "path_inv ?t")
proof -
  note fr = watcher_step_frame [OF assms(3)]
  define as bs where "as = spawning s @ map (\<lambda>w. (w_nid w, w_ptr w)) xs"
    and "bs = map (\<lambda>w. (w_nid w, w_ptr w)) ys"
  have os: "owners s = as @ (w_nid w, w_ptr w) # bs"
    using assms(2) by (simp add: owners_def as_def bs_def)
  have ot: "owners ?t = as @ (if w' = None then [] else [(w_nid w, w_ptr w)]) @ bs"
    using fr(1) fr(4) [of "the w'"] by (cases w') (simp_all add: owners_def as_def bs_def)
  have "distinct (map snd (owners s))" using assms(1) unfolding path_inv_def by blast
  then have o: "set (owners ?t) \<subseteq> set (owners s)" "distinct (map snd (owners ?t))"
    unfolding os ot by (auto simp del: set_map)
  have "(nid, p) \<in> set (live_owners ?t)" if "map_of (path_subs ?t) nid = Some p" for nid p
  proof -
    have m: "map_of (path_subs s) nid = Some p"
      and c: "w_pc w = WExit \<or> (\<exists>v. w' = Some v \<and> w_pc v \<noteq> WExit) \<or> (nid, p) \<noteq> (w_nid w, w_ptr w)"
      using fr(7) that by simp_all
    have "(nid, p) \<in> set (live_owners s)" using assms(1) m by (simp add: path_inv_def)
    then show ?thesis using c assms(2) fr(1,5) fr(4) [of "the w'"] by (cases w') (auto simp: live_owners_def)
  qed
  moreover have "active_path_watchers ?t = length (watchers ?t) mod 2 ^ 64"
    using assms(1,2) fr(6) atomic_dec_mod by (cases w') (auto simp: path_inv_def)
  ultimately show ?thesis
    using o assms(1) fr(2) unfolding path_inv_def by auto
qed

lemma path_inv_spawn:
  assumes "path_inv s" "np \<in> set (spawning s)"
  shows "path_inv (subscribe_spawn np s)"
proof -
  have "set (owners (subscribe_spawn np s)) = set (owners s)"
    "set (live_owners (subscribe_spawn np s)) = set (live_owners s)"
    using assms(2) by (auto simp: owners_def live_owners_def subscribe_spawn_def)
  moreover have "distinct (map snd (owners (subscribe_spawn np s)))"
    using assms by (auto simp: path_inv_def owners_def subscribe_spawn_def distinct_map inj_on_def
        distinct_removeAll)
  ultimately show ?thesis
    using assms(1) by (simp add: path_inv_def) (simp add: subscribe_spawn_def atomic_inc_mod [simplified])
qed

lemma path_reachable_inv: "path_reachable s \<Longrightarrow> path_inv s"
proof (induction rule: path_reachable.induct)
  case pw_start
  then show ?case by (simp add: path_inv_def path_sys_new_def owners_def)
next
  case (pw_next s s')
  from pw_next(2) show ?case
  proof cases
    case (pw_subscribe nid sid)
    show ?thesis
    proof (cases "map_of (path_subs s) nid")
      case None
      have "next_ptr s \<notin> snd ` set (owners s)" using pw_next(3) unfolding path_inv_def by fastforce
      moreover have "owners s' = (nid, next_ptr s) # owners s" "live_owners s' = (nid, next_ptr s) # live_owners s"
        "next_ptr s' = Suc (next_ptr s)" "path_subs s' = al_put nid (next_ptr s) (path_subs s)"
        "watchers s' = watchers s" "active_path_watchers s' = active_path_watchers s"
        using None unfolding pw_subscribe
        by (simp_all add: subscribe_lock_def Let_def owners_def live_owners_def)
      ultimately show ?thesis
        using pw_next(3) unfolding path_inv_def by (auto simp: less_Suc_eq)
    next
      case (Some p)
      then show ?thesis
        using pw_next(3) unfolding pw_subscribe
        by (auto simp: path_inv_def subscribe_lock_def Let_def owners_def live_owners_def)
    qed
  next
    case (pw_spawn np)
    then show ?thesis using path_inv_spawn pw_next(3) by blast
  next
    case (pw_watch xs w ys stats woken w' t)
    then show ?thesis using path_inv_watch pw_next(3) by blast
  qed (use pw_next(3) in \<open>auto simp: path_inv_def owners_def live_owners_def unsubscribe_path_changes_def
        split: option.splits\<close>)
qed

section \<open>Live subscriptions\<close>

definition subscribed :: "path_sys \<Rightarrow> string \<Rightarrow> u32 \<Rightarrow> nat \<Rightarrow> bool" where
  "subscribed s nid sid rx \<longleftrightarrow> (\<exists>p. map_of (path_subs s) nid = Some p \<and> map_of (senders_of p s) sid = Some rx)"

lemma path_inv_owner:
  assumes "path_inv s" "map_of (path_subs s) n = Some p"
  shows "(n, p) \<in> set (owners s)"
proof -
  have "set (live_owners s) \<subseteq> set (owners s)" by (auto simp: owners_def live_owners_def)
  then show ?thesis using assms by (auto simp: path_inv_def)
qed

text \<open>Two peers never share a set of subscriptions.\<close>

lemma path_inv_ptr_inj:
  assumes "path_inv s" "map_of (path_subs s) m = Some p" "map_of (path_subs s) n = Some p"
  shows "m = n"
proof -
  have "inj_on snd (set (owners s))" using assms(1) by (simp add: path_inv_def distinct_map)
  from inj_onD [OF this _ path_inv_owner [OF assms(1,2)] path_inv_owner [OF assms(1,3)]] show ?thesis by simp
qed

lemma map_of_filter_val:
  "map_of xs k = Some v \<Longrightarrow> P v \<Longrightarrow> map_of (filter (\<lambda>(_, x). P x) xs) k = Some v"
  by (induction xs) (auto split: if_splits)

lemma senders_of_update [simp]:
  "senders_of q (s\<lparr>sender_sets := al_put p xs (sender_sets s)\<rparr>) = (if q = p then xs else senders_of q s)"
  by (simp add: senders_of_def)

lemma senders_of_frame [simp]:
  "senders_of p (s\<lparr>path_subs := a\<rparr>) = senders_of p s" "senders_of p (s\<lparr>watchers := b\<rparr>) = senders_of p s"
  "senders_of p (s\<lparr>delivered := c\<rparr>) = senders_of p s"
  "senders_of p (s\<lparr>path_events := d\<rparr>) = senders_of p s"
  "senders_of p (s\<lparr>active_path_watchers := e\<rparr>) = senders_of p s"
  by (simp_all add: senders_of_def)

lemma prune_keeps_live:
  "map_of (senders_of p s) sid = Some rx \<Longrightarrow> rx \<notin> set (dropped_rx s) \<Longrightarrow> map_of (senders_of p (prune w s)) sid = Some rx"
  by (auto simp: prune_def intro: map_of_filter_val)

text \<open>A watcher removes an entry of the open endpoint only when no live subscription is left in it.\<close>

lemma watcher_keeps_live:
  assumes "watcher_step stats woken w s = (w', s')" "\<not> path_closed s" "rx \<notin> set (dropped_rx s)"
    and "map_of (path_subs s) nid = Some p" "map_of (senders_of p s) sid = Some rx"
  shows "map_of (path_subs s') nid = Some p \<and> map_of (senders_of p s') sid = Some rx"
proof (cases "w_pc w = WCheck \<and> owns_entry w s")
  case True
  have "senders_of (w_ptr w) (prune w s) \<noteq> []" if "w_nid w = nid"
    using True that assms(4,5) prune_keeps_live [OF assms(5,3), of w] by (auto simp: owns_entry_def)
  moreover have "path_subs (prune w s) = path_subs s" by (simp add: prune_def)
  ultimately show ?thesis
    using True assms(1,4) prune_keeps_live [OF assms(5,3), of w]
    by (auto simp: watcher_step_def Let_def split: if_splits)
next
  case False
  then show ?thesis
    using assms by (auto simp: watcher_step_def split: watcher_pc.splits if_splits option.splits)
qed

lemma live_subscription_step:
  assumes "path_inv s" "path_step s s'" "\<not> path_closed s" "subscribed s nid sid rx" "rx \<notin> set (dropped_rx s)"
  shows "subscribed s' nid sid rx \<or> s' = unsubscribe_path_changes nid sid s \<or> s' = subscribe_lock nid sid s"
proof -
  obtain p where p: "map_of (path_subs s) nid = Some p" "map_of (senders_of p s) sid = Some rx"
    using assms(4) by (auto simp: subscribed_def)
  note inj = path_inv_ptr_inj [OF assms(1) _ p(1)]
  from assms(2) show ?thesis
  proof cases
    case (pw_subscribe n i)
    have "p < next_ptr s" using assms(1) p(1) path_inv_owner by (fastforce simp: path_inv_def)
    moreover have "q \<noteq> p" if "map_of (path_subs s) n = Some q" "n \<noteq> nid" for q using inj that by blast
    ultimately have "subscribed s' nid sid rx" if "n \<noteq> nid \<or> i \<noteq> sid"
      using p that unfolding pw_subscribe
      by (cases "n = nid"; cases "map_of (path_subs s) n")
        (auto simp: subscribed_def subscribe_lock_def senders_of_def Let_def)
    then show ?thesis using pw_subscribe by blast
  next
    case (pw_unsubscribe n i)
    moreover have "q \<noteq> p" if "map_of (path_subs s) n = Some q" "n \<noteq> nid" for q using inj that by blast
    ultimately have "subscribed s' nid sid rx" if "n \<noteq> nid \<or> i \<noteq> sid"
      using p that
      by (cases "n = nid"; cases "map_of (path_subs s) n") (auto simp: subscribed_def unsubscribe_path_changes_def)
    then show ?thesis using pw_unsubscribe by blast
  next
    case (pw_watch xs w ys stats woken w' t)
    then show ?thesis
      using watcher_keeps_live [OF pw_watch(3) assms(3,5) p] by (auto simp: subscribed_def)
  qed (use p in \<open>auto simp: subscribed_def subscribe_spawn_def senders_of_def\<close>)
qed

section \<open>Properties\<close>

text \<open>Property C10.  No subscription is stranded or lost and no watcher is duplicated: in every reachable state
  each registered peer entry has a watcher that is running (or about to be spawned by the subscribing
  call), no two watchers share an entry, the watcher statistic counts the watcher tasks, and while the
  endpoint is open every step of every party keeps a subscription whose receiver is alive, except
  unsubscribing it or subscribing again under its id.\<close>

theorem subscriptions_are_watched:
  assumes "path_reachable s"
  shows "(\<forall>nid p. map_of (path_subs s) nid = Some p \<longrightarrow>
            (nid, p) \<in> set (spawning s)
            \<or> (\<exists>w \<in> set (watchers s). w_nid w = nid \<and> w_ptr w = p \<and> w_pc w \<noteq> WExit))
     \<and> distinct (map w_ptr (watchers s))
     \<and> active_path_watchers s = length (watchers s) mod 2 ^ 64
     \<and> (\<forall>s' nid sid rx. path_step s s' \<longrightarrow> \<not> path_closed s \<longrightarrow> subscribed s nid sid rx \<longrightarrow> rx \<notin> set (dropped_rx s)
          \<longrightarrow> subscribed s' nid sid rx \<or> s' = unsubscribe_path_changes nid sid s \<or> s' = subscribe_lock nid sid s)"
proof -
  note inv = path_reachable_inv [OF assms]
  have "distinct (map w_ptr (watchers s))" "active_path_watchers s = length (watchers s) mod 2 ^ 64"
    using inv by (simp_all add: path_inv_def owners_def comp_def)
  moreover have "\<forall>nid p. map_of (path_subs s) nid = Some p \<longrightarrow> (nid, p) \<in> set (spawning s)
      \<or> (\<exists>w \<in> set (watchers s). w_nid w = nid \<and> w_ptr w = p \<and> w_pc w \<noteq> WExit)"
    using inv by (fastforce simp: path_inv_def live_owners_def)
  ultimately show ?thesis using live_subscription_step [OF inv] by blast
qed

theorem subscriptions_are_watched_witness:
  "\<exists>s. path_reachable s \<and> map_of (path_subs s) ''n'' = Some 0 \<and> spawning s = []
     \<and> (\<exists>w \<in> set (watchers s). w_nid w = ''n'' \<and> w_pc w \<noteq> WExit) \<and> active_path_subscriptions s = 1
     \<and> length (senders_of 0 s) = 2"
proof -
  define s where "s = subscribe_spawn (''n'', 0) (subscribe_lock ''n'' 2 (subscribe_lock ''n'' 1 path_sys_new))"
  have r: "path_reachable s"
    unfolding s_def
    by (intro pw_next [OF _ pw_spawn] pw_next [OF _ pw_subscribe] pw_start)
      (simp add: subscribe_lock_def path_sys_new_def senders_of_def)
  have f: "map_of (path_subs s) ''n'' = Some 0" "spawning s = []" "active_path_subscriptions s = 1"
    "length (senders_of 0 s) = 2"
    by (simp_all add: s_def subscribe_spawn_def subscribe_lock_def path_sys_new_def senders_of_def
        active_path_subscriptions_def al_put_def)
  have "\<exists>w \<in> set (watchers s). w_nid w = ''n'' \<and> w_pc w \<noteq> WExit"
    using subscriptions_are_watched [OF r, THEN conjunct1] f by auto
  then show ?thesis using r f by blast
qed

end
