(* ===== verification/Endpoint_Registry.thy ===== *)
theory Endpoint_Registry
  imports Slot_Map
begin

text \<open>
  \<^verbatim>\<open>src/crates/iroh-http-core/src/ffi/registry.rs\<close>: the process-wide registry of endpoints shared by
  the adapters.  It is a slot map that is never replaced; closing all endpoints removes every entry
  under the lock and hands the removed endpoints to a background thread, which force-closes them.
\<close>

type_synonym 'e registry = "'e slot_map"

definition insert_endpoint :: "slot_lib \<Rightarrow> 'e \<Rightarrow> 'e registry \<Rightarrow> u64 \<times> 'e registry" where
  "insert_endpoint L ep r = slot_insert L ep r"

definition get_endpoint :: "u64 \<Rightarrow> 'e registry \<Rightarrow> 'e option" where
  "get_endpoint h r = slot_get h r"

definition remove_endpoint :: "u64 \<Rightarrow> 'e registry \<Rightarrow> 'e option \<times> 'e registry" where
  "remove_endpoint h r = slot_remove h r"

fun remove_each :: "u64 list \<Rightarrow> 'e registry \<Rightarrow> 'e list \<times> 'e registry" where
  "remove_each [] r = ([], r)"
| "remove_each (k # ks) r = (case slot_remove k r of (v, r1) \<Rightarrow> (case remove_each ks r1 of (vs, r2) \<Rightarrow>
     ((case v of None \<Rightarrow> vs | Some e \<Rightarrow> e # vs), r2)))"

text \<open>The removed endpoints, which the background thread closes one after the other.\<close>

definition close_all_endpoints :: "'e registry \<Rightarrow> 'e list \<times> 'e registry" where
  "close_all_endpoints r = remove_each (keys (slots r)) r"

datatype 'e registry_op = RegInsert 'e | RegRemove u64 | RegCloseAll

fun registry_run :: "slot_lib \<Rightarrow> 'e registry_op list \<Rightarrow> 'e registry \<Rightarrow> 'e registry" where
  "registry_run L [] r = r"
| "registry_run L (RegInsert e # ops) r = registry_run L ops (snd (insert_endpoint L e r))"
| "registry_run L (RegRemove h # ops) r = registry_run L ops (snd (remove_endpoint h r))"
| "registry_run L (RegCloseAll # ops) r = registry_run L ops (snd (close_all_endpoints r))"

lemma remove_each_spec:
  "distinct ks \<Longrightarrow> slot_get k (snd (remove_each ks r)) = (if k \<in> set ks then None else slot_get k r)
     \<and> fst (remove_each ks r) = List.map_filter (\<lambda>k. slot_get k r) ks"
proof (induction ks arbitrary: r)
  case Nil
  then show ?case by (simp add: List.map_filter_def)
next
  case (Cons j ks)
  obtain v r1 where v: "slot_remove j r = (v, r1)" by fastforce
  obtain vs r2 where vs: "remove_each ks r1 = (vs, r2)" by fastforce
  have g: "slot_get k r1 = (if k = j then None else slot_get k r)" "v = slot_get j r" for k
    using slot_get_remove [of k j r] fst_slot_remove [of j r] v by simp_all
  have "List.map_filter (\<lambda>k. slot_get k r1) ks = List.map_filter (\<lambda>k. slot_get k r) ks"
    using Cons.prems g by (auto simp: List.map_filter_def intro!: map_cong filter_cong)
  then show ?case
    using Cons.IH [of r1] Cons.prems v vs g by (auto simp: List.map_filter_def split: option.splits)
qed

lemma issued_mono:
  "set (issued L (history r)) \<subseteq> set (issued L (history (snd (slot_remove k r))))"
  "length (history r) \<le> length (history (snd (slot_remove k r)))"
  by (simp_all add: slot_remove_def split: option.splits)

lemma remove_each_frame:
  "slot_inv L r \<Longrightarrow> slot_inv L (snd (remove_each ks r))
     \<and> set (issued L (history r)) \<subseteq> set (issued L (history (snd (remove_each ks r))))
     \<and> length (history r) \<le> length (history (snd (remove_each ks r)))"
proof (induction ks arbitrary: r)
  case Nil
  then show ?case by simp
next
  case (Cons k ks)
  have "slot_inv L (snd (slot_remove k r))" using slot_inv_remove Cons.prems by blast
  from Cons.IH [OF this] show ?case
    using issued_mono(1) [of L r k] issued_mono(2) [of r k] by (auto split: prod.splits)
qed

lemma registry_run_length: "length (history r) \<le> length (history (registry_run L ops r))"
proof (induction L ops r rule: registry_run.induct)
  case (4 L ops r)
  have "length (history r) \<le> length (history (snd (remove_each ks r)))" for ks
  proof (induction ks arbitrary: r)
    case (Cons k ks)
    show ?case using Cons.IH [of "snd (slot_remove k r)"] issued_mono(2) [of r k] by (auto split: prod.splits)
  qed simp
  then show ?case using 4 by (simp add: close_all_endpoints_def) (meson le_trans)
qed (auto simp: insert_endpoint_def slot_insert_def Let_def remove_endpoint_def
      intro: le_trans [OF issued_mono(2)] Suc_leD)

text \<open>Endpoint handles are never reused: a handle that the registry has issued and that no
  longer resolves (its endpoint was removed or all endpoints were closed) stays dead through every
  later sequence of operations within the library's version limit.\<close>

theorem stale_endpoint_handle_never_resolves:
  assumes "slot_inv L r" "h \<in> set (issued L (history r))" "get_endpoint h r = None"
    and "length (history (registry_run L ops r)) \<le> slot_version_limit"
  shows "get_endpoint h (registry_run L ops r) = None"
  using assms
proof (induction L ops r rule: registry_run.induct)
  case (1 L r)
  then show ?case by simp
next
  case (2 L e ops r)
  have len: "length (history (snd (insert_endpoint L e r))) \<le> slot_version_limit"
    using registry_run_length [of "snd (insert_endpoint L e r)" L ops] 2(5) by simp
  then have room: "slot_room r" by (simp add: slot_room_def insert_endpoint_def slot_insert_def Let_def)
  have "slot_inv L (snd (insert_endpoint L e r))"
    unfolding insert_endpoint_def by (rule slotmap.ins_invar [OF 2(2) room])
  moreover have "h \<in> set (issued L (history (snd (insert_endpoint L e r))))"
    using 2(3) by (simp add: insert_endpoint_def slot_insert_def Let_def)
  moreover have "h \<noteq> next_key L (history r)"
    using 2(2,3) room by (auto simp: slot_inv_def slot_lib_ok_def slot_room_def)
  then have "get_endpoint h (snd (insert_endpoint L e r)) = None"
    using 2(4) by (simp add: get_endpoint_def insert_endpoint_def slot_get_insert)
  ultimately show ?case using 2(1,5) by simp
next
  case (3 L k ops r)
  have "slot_inv L (snd (remove_endpoint k r))" using slot_inv_remove 3(2) by (simp add: remove_endpoint_def)
  moreover have "h \<in> set (issued L (history (snd (remove_endpoint k r))))"
    using 3(3) issued_mono(1) [of L r k] by (auto simp: remove_endpoint_def)
  ultimately show ?case using 3 by (simp add: get_endpoint_def remove_endpoint_def)
next
  case (4 L ops r)
  have d: "distinct (keys (slots r))" using 4(2) by (simp add: slot_inv_def)
  have "slot_inv L (snd (close_all_endpoints r))" "h \<in> set (issued L (history (snd (close_all_endpoints r))))"
    using remove_each_frame [OF 4(2), of "keys (slots r)"] 4(3) by (auto simp: close_all_endpoints_def)
  moreover have "get_endpoint h (snd (close_all_endpoints r)) = None"
    using remove_each_spec [OF d, of h r] 4(4) by (simp add: close_all_endpoints_def get_endpoint_def)
  ultimately show ?case using 4(1,5) by simp
qed

theorem stale_endpoint_handle_never_resolves_witness:
  "let r = snd (remove_endpoint 1 (snd (insert_endpoint counting_lib ''a'' slot_new)))
   in get_endpoint 1 r = None
    \<and> get_endpoint 1 (registry_run counting_lib [RegInsert ''b'', RegCloseAll, RegInsert ''c''] r) = None"
proof -
  define r where "r = snd (remove_endpoint 1 (snd (insert_endpoint counting_lib ''a'' slot_new)))"
  have i: "slot_inv counting_lib r"
    unfolding r_def remove_endpoint_def insert_endpoint_def
    by (intro slot_inv_remove slot_inv_insert slot_inv_new counting_lib_ok) (simp add: slot_room_def slot_version_limit_def)
  have f: "1 \<in> set (issued counting_lib (history r))" "get_endpoint 1 r = None"
    "length (history (registry_run counting_lib [RegInsert ''b'', RegCloseAll, RegInsert ''c''] r)) \<le> slot_version_limit"
    by (simp_all add: r_def remove_endpoint_def insert_endpoint_def slot_insert_def slot_remove_def slot_get_def
        slot_new_def get_endpoint_def close_all_endpoints_def slot_version_limit_def Let_def)
  show ?thesis
    using stale_endpoint_handle_never_resolves [OF i f(1,2,3)] f(2) unfolding r_def Let_def by blast
qed

end
