(* ===== verification/Http_Client.thy ===== *)
theory Http_Client
  imports Pool_Props
begin

text \<open>
  \<^verbatim>\<open>src/crates/iroh-http-core/src/http/client.rs\<close>: \<open>fetch_request\<close>, the outgoing request with its one
  transparent retry, on top of the connection pool.

  What the network and hyper answer to each attempt is an input (\<open>attempt_io\<close>), and so is what other
  tasks do to the pool before each step; the timeout may strike between any two steps.  Errors of hyper
  carry the chain of their sources.
\<close>

section \<open>Requests and errors\<close>

datatype body_err = PlainErr string | CallerRequestBodyError string

fun body_err_text :: "body_err \<Rightarrow> string" where
  "body_err_text (PlainErr t) = t"
| "body_err_text (CallerRequestBodyError t) = ''caller request body failed: '' @ t"

datatype body_frame = DataFrame bytes | TrailersFrame

text \<open>A request body: what \<open>is_end_stream\<close> and the exact size hint report, and the frames still to come.\<close>

record req_body =
  bd_at_end :: bool
  bd_exact :: "nat option"
  bd_frames :: "(body_err + body_frame) list"

definition body_empty :: req_body where
  "body_empty = \<lparr>bd_at_end = True, bd_exact = Some 0, bd_frames = []\<rparr>"

record http_request =
  rq_method :: string
  rq_uri :: string
  rq_version :: string
  rq_headers :: "(string \<times> bytes) list"
  rq_body :: req_body

record hyper_error =
  he_text :: string
  he_sources :: "body_err list"

datatype fetch_error = FeConnectionFailed string "hyper_error option" | FeRequestBodyFailed string hyper_error
  | FeHeaderTooLarge string | FeBodyTooLarge | FeTimeout | FeCancelled | FeInternal string

fun is_connection_failed :: "fetch_error \<Rightarrow> bool" where
  "is_connection_failed (FeConnectionFailed _ _) = True"
| "is_connection_failed _ = False"

text \<open>The marker around a body that has not ended.\<close>

fun mark_frame :: "(body_err + body_frame) \<Rightarrow> (body_err + body_frame)" where
  "mark_frame (Inl e) = Inl (CallerRequestBodyError (body_err_text e))"
| "mark_frame (Inr f) = Inr f"

definition mark_caller_request_body :: "bool \<Rightarrow> req_body \<Rightarrow> req_body" where
  "mark_caller_request_body mask_zero_data_hint b = b\<lparr>bd_frames := map mark_frame (bd_frames b),
     bd_exact := (if mask_zero_data_hint then None else bd_exact b)\<rparr>"

fun find_caller_error :: "body_err list \<Rightarrow> string option" where
  "find_caller_error [] = None"
| "find_caller_error (CallerRequestBodyError t # _) = Some t"
| "find_caller_error (PlainErr _ # es) = find_caller_error es"

definition caller_request_body_error_detail :: "hyper_error \<Rightarrow> string option" where
  "caller_request_body_error_detail e = find_caller_error (he_sources e)"

section \<open>Attempts\<close>

record 'r attempt_io =
  ai_flight :: flight
  ai_open_bi :: "string + unit"
  ai_handshake :: "hyper_error + unit"
  ai_send :: "hyper_error + 'r"

record fetch_plan =
  fp_first :: http_request
  fp_retry :: http_request
  fp_retry_safe :: bool

text \<open>\<open>idem\<close> is \<open>Method::is_idempotent\<close>.\<close>

definition fetch_plan_of :: "(string \<Rightarrow> bool) \<Rightarrow> http_request \<Rightarrow> fetch_plan" where
  "fetch_plan_of idem req =
     (let b = rq_body req;
          body_resendable = (bd_at_end b \<and> bd_exact b = Some 0);
          b' = (if bd_at_end b then b else mark_caller_request_body (bd_exact b = Some 0) b)
      in \<lparr>fp_first = req\<lparr>rq_body := b'\<rparr>, fp_retry = req\<lparr>rq_body := body_empty\<rparr>,
          fp_retry_safe = (body_resendable \<and> idem (rq_method req))\<rparr>)"

text \<open>Where a call stands; the first argument tells the retry from the first attempt.\<close>

datatype 'r fetch_pc = FConnect bool goc_pc | FOpen bool bool | FShake bool bool | FSend bool bool
  | FAwait bool bool | FEvict bool fetch_error bool | FDone "fetch_error + 'r"

record 'c fetch_state =
  fs_pool :: "'c pool"
  last_dial_seq :: "u64 option"
  fs_sent :: "http_request list" \<comment> \<open>requests handed to a connection\<close>

text \<open>What follows the result of an attempt.\<close>

fun after_attempt :: "bool \<Rightarrow> fetch_error + 'r \<Rightarrow> bool \<Rightarrow> 'r fetch_pc" where
  "after_attempt r (Inr resp) reused = FDone (Inr resp)"
| "after_attempt r (Inl e) reused = (if is_connection_failed e then FEvict r e reused else FDone (Inl e))"

definition send_result :: "hyper_error + 'r \<Rightarrow> fetch_error + 'r" where
  "send_result res = (case res of
       Inr resp \<Rightarrow> Inr resp
     | Inl e \<Rightarrow> Inl (case caller_request_body_error_detail e of
          Some d \<Rightarrow> FeRequestBodyFailed d e
        | None \<Rightarrow> FeConnectionFailed (''send_request: '' @ he_text e) (Some e)))"

definition evict_reason :: "bool \<Rightarrow> string" where
  "evict_reason retry = (if retry then ''iroh-http fetch retry failed'' else ''iroh-http fetch failed'')"

definition fetch_step :: "'c cache_ops \<Rightarrow> (bytes \<Rightarrow> string) \<Rightarrow> pool_key \<Rightarrow> fetch_plan \<Rightarrow> (bool \<Rightarrow> 'r attempt_io)
    \<Rightarrow> 'r fetch_pc \<Rightarrow> 'c fetch_state \<Rightarrow> 'r fetch_pc \<times> 'c fetch_state" where
  "fetch_step ops base32 key plan io pc st = (case pc of
       FConnect r g \<Rightarrow> (case goc_step ops base32 key (ai_flight (io r)) g (fs_pool st) of
          (GDone (Inl e), p) \<Rightarrow> (after_attempt r (Inl (FeConnectionFailed e None)) False,
             st\<lparr>fs_pool := p, last_dial_seq := None\<rparr>)
        | (GDone (Inr (v, reused)), p) \<Rightarrow> (FOpen r reused, st\<lparr>fs_pool := p, last_dial_seq := Some (dial_seq v)\<rparr>)
        | (g', p) \<Rightarrow> (FConnect r g', st\<lparr>fs_pool := p\<rparr>))
     | FOpen r reused \<Rightarrow> (case ai_open_bi (io r) of
          Inl e \<Rightarrow> (after_attempt r (Inl (FeConnectionFailed (''open_bi: '' @ e) None)) reused, st)
        | Inr _ \<Rightarrow> (FShake r reused, st))
     | FShake r reused \<Rightarrow> (case ai_handshake (io r) of
          Inl e \<Rightarrow> (after_attempt r (Inl (FeConnectionFailed (''hyper handshake: '' @ he_text e) (Some e))) reused, st)
        | Inr _ \<Rightarrow> (FSend r reused, st))
     | FSend r reused \<Rightarrow> (FAwait r reused, st\<lparr>fs_sent := fs_sent st @ [if r then fp_retry plan else fp_first plan]\<rparr>)
     | FAwait r reused \<Rightarrow> (after_attempt r (send_result (ai_send (io r))) reused, st)
     | FEvict r e reused \<Rightarrow>
         (if \<not> r \<and> reused \<and> fp_retry_safe plan then FConnect True GLookup else FDone (Inl e),
          st\<lparr>fs_pool := evict_and_close ops key (evict_reason r) (last_dial_seq st) (fs_pool st)\<rparr>)
     | FDone res \<Rightarrow> (FDone res, st))"

fun fetch_run :: "'c cache_ops \<Rightarrow> (bytes \<Rightarrow> string) \<Rightarrow> pool_key \<Rightarrow> fetch_plan \<Rightarrow> (bool \<Rightarrow> 'r attempt_io)
    \<Rightarrow> 'r fetch_pc \<Rightarrow> ('c pool \<Rightarrow> 'c pool) list \<Rightarrow> 'c fetch_state \<Rightarrow> (fetch_error + 'r) option \<times> 'c fetch_state" where
  "fetch_run ops base32 key plan io (FDone res) env st = (Some res, st)"
| "fetch_run ops base32 key plan io pc [] st = (None, st)"
| "fetch_run ops base32 key plan io pc (e # es) st =
     (case fetch_step ops base32 key plan io pc (st\<lparr>fs_pool := e (fs_pool st)\<rparr>) of
        (pc', st') \<Rightarrow> fetch_run ops base32 key plan io pc' es st')"

text \<open>The whole call.  With a timeout, a sequence that has not ended when the given steps are over is cut
  off; without one the call is still running, which is \<open>None\<close>.\<close>

definition fetch_request :: "'c cache_ops \<Rightarrow> (bytes \<Rightarrow> string) \<Rightarrow> (string \<Rightarrow> bool) \<Rightarrow> public_key \<Rightarrow> http_request
    \<Rightarrow> millis option \<Rightarrow> (bool \<Rightarrow> 'r attempt_io) \<Rightarrow> ('c pool \<Rightarrow> 'c pool) list \<Rightarrow> 'c pool
    \<Rightarrow> (fetch_error + 'r) option \<times> 'c fetch_state" where
  "fetch_request ops base32 idem node req tmo io env p =
     (let key = \<lparr>key_node = node, key_alpn = ALPN\<rparr>;
          st0 = \<lparr>fs_pool = p, last_dial_seq = None, fs_sent = []\<rparr>
      in case fetch_run ops base32 key (fetch_plan_of idem req) io (FConnect False GLookup) env st0 of
          (Some res, st) \<Rightarrow> (Some res, st)
        | (None, st) \<Rightarrow> (case tmo of
             None \<Rightarrow> (None, st)
           | Some _ \<Rightarrow> (Some (Inl FeTimeout),
               st\<lparr>fs_pool := evict_only ops key (last_dial_seq st) (fs_pool st)\<rparr>)))"

section \<open>What is sent\<close>

text \<open>The requests a call may have handed to connections when it stands at a given point.\<close>

definition sent_first :: "fetch_plan \<Rightarrow> http_request list set" where
  "sent_first plan = {[], [fp_first plan]}"

definition sent_any :: "fetch_plan \<Rightarrow> http_request list set" where
  "sent_any plan = {[], [fp_first plan]}
     \<union> (if fp_retry_safe plan then {[fp_retry plan], [fp_first plan, fp_retry plan]} else {})"

fun sent_at :: "fetch_plan \<Rightarrow> 'r fetch_pc \<Rightarrow> http_request list set" where
  "sent_at plan (FConnect r _) = (if r then if fp_retry_safe plan then sent_first plan else {} else {[]})"
| "sent_at plan (FOpen r _) = (if r then if fp_retry_safe plan then sent_first plan else {} else {[]})"
| "sent_at plan (FShake r _) = (if r then if fp_retry_safe plan then sent_first plan else {} else {[]})"
| "sent_at plan (FSend r _) = (if r then if fp_retry_safe plan then sent_first plan else {} else {[]})"
| "sent_at plan (FAwait r _) = (if r then if fp_retry_safe plan then sent_any plan else {} else {[fp_first plan]})"
| "sent_at plan (FEvict r _ _) = (if r then if fp_retry_safe plan then sent_any plan else {} else sent_first plan)"
| "sent_at plan (FDone _) = sent_any plan"

lemma sent_at_any: "xs \<in> sent_at plan pc \<Longrightarrow> xs \<in> sent_any plan"
  by (cases pc) (auto simp: sent_any_def sent_first_def split: if_splits)

lemmas sent_sets = sent_first_def sent_any_def

lemma fetch_step_sent:
  assumes "fetch_step ops base32 key plan io pc st = (pc', st')" "fs_sent st \<in> sent_at plan pc"
  shows "fs_sent st' \<in> sent_at plan pc'"
proof (cases pc)
  case (FConnect r g)
  then show ?thesis
    using assms by (auto simp: fetch_step_def sent_sets split: prod.splits goc_pc.splits sum.splits if_splits)
next
  case (FAwait r ru)
  then show ?thesis
    using assms by (cases "send_result (ai_send (io r))") (auto simp: fetch_step_def sent_sets split: if_splits)
qed (use assms in \<open>auto simp: fetch_step_def sent_sets split: sum.splits if_splits\<close>)

lemma fetch_run_sent:
  assumes "fetch_run ops base32 key plan io pc env st = (res, st')" "fs_sent st \<in> sent_at plan pc"
  shows "fs_sent st' \<in> sent_any plan"
  using assms
proof (induction env arbitrary: pc st)
  case Nil
  then have "st' = st" by (cases pc) simp_all
  then show ?case using sent_at_any Nil.prems(2) by blast
next
  case (Cons e es)
  show ?case
  proof (cases "\<exists>res. pc = FDone res")
    case True
    then have "st' = st" using Cons.prems(1) by auto
    then show ?thesis using sent_at_any Cons.prems(2) by blast
  next
    case False
    obtain pc1 st1 where s: "fetch_step ops base32 key plan io pc (st\<lparr>fs_pool := e (fs_pool st)\<rparr>) = (pc1, st1)"
      by fastforce
    have "fs_sent st1 \<in> sent_at plan pc1" using fetch_step_sent [OF s] Cons.prems(2) by simp
    moreover have "fetch_run ops base32 key plan io pc1 es st1 = (res, st')"
      using Cons.prems(1) False s by (cases pc) auto
    ultimately show ?thesis using Cons.IH by blast
  qed
qed

text \<open>Property C14.  Requests are replayed only when that is safe: whatever the network, the pool, the other tasks
  and the timeout do, a call hands at most two requests to connections; every one of them has the
  caller's method, target, version and headers; and it hands over a second one, or one without the
  caller's body, only if the method is idempotent and the caller's body had already ended empty.\<close>

theorem fetch_replays_only_safe_requests:
  assumes "fetch_request ops base32 idem node req tmo io env p = (res, st)"
  shows "length (fs_sent st) \<le> 2
     \<and> (\<forall>q \<in> set (fs_sent st). rq_method q = rq_method req \<and> rq_uri q = rq_uri req
           \<and> rq_version q = rq_version req \<and> rq_headers q = rq_headers req)
     \<and> (length (fs_sent st) = 2 \<or> (\<exists>q \<in> set (fs_sent st). q \<noteq> fp_first (fetch_plan_of idem req))
         \<longrightarrow> idem (rq_method req) \<and> bd_at_end (rq_body req) \<and> bd_exact (rq_body req) = Some 0)"
proof -
  define key where "key = \<lparr>key_node = node, key_alpn = ALPN\<rparr>"
  obtain r0 st0 where run: "fetch_run ops base32 key (fetch_plan_of idem req) io (FConnect False GLookup) env
      \<lparr>fs_pool = p, last_dial_seq = None, fs_sent = []\<rparr> = (r0, st0)" by fastforce
  have "fs_sent st = fs_sent st0"
    using assms run by (auto simp: fetch_request_def key_def Let_def split: option.splits)
  moreover have "fs_sent st0 \<in> sent_any (fetch_plan_of idem req)"
    by (rule fetch_run_sent [OF run]) simp
  ultimately show ?thesis
    by (auto simp: sent_any_def fetch_plan_of_def Let_def split: if_splits)
qed

definition demo_request :: "string \<Rightarrow> http_request" where
  "demo_request m = \<lparr>rq_method = m, rq_uri = ''/'', rq_version = ''HTTP/1.1'', rq_headers = [], rq_body = body_empty\<rparr>"

definition demo_pool :: "(pool_key \<times> pooled_connection) list pool" where
  "demo_pool = pool_new [(\<lparr>key_node = [1], key_alpn = ALPN\<rparr>, \<lparr>pooled_conn = 4, remote_id_str = ''p'', dial_seq = 6\<rparr>)] 7 None"

text \<open>The cached connection is dead and the fresh one answers.\<close>

definition demo_io :: "bool \<Rightarrow> nat attempt_io" where
  "demo_io r = \<lparr>ai_flight = OwnDial (Inr ([1], 5)), ai_open_bi = Inr (), ai_handshake = Inr (),
     ai_send = (if r then Inr 200 else Inl \<lparr>he_text = ''closed'', he_sources = []\<rparr>)\<rparr>"

lemmas demo_fetch_defs = demo_request_def demo_pool_def demo_io_def fetch_request_def fetch_plan_of_def
  fetch_step_def goc_step_def alist_cache_def pool_new_def enter_phase2_def emit_def try_get_with_def
  pooled_new_def close_reason_def body_empty_def send_result_def caller_request_body_error_detail_def
  evict_and_close_def compare_and_remove_def close_conn_def Let_def

lemma demo_get_replayed:
  "\<exists>st. fetch_request alist_cache (\<lambda>_. ''p'') (\<lambda>m. m = ''GET'') [1] (demo_request ''GET'') None demo_io
      (replicate 22 id) demo_pool = (Some (Inr 200), st) \<and> length (fs_sent st) = 2"
  by (simp add: demo_fetch_defs numeral_eq_Suc)

theorem fetch_replays_only_safe_requests_witness:
  "\<exists>st. fetch_request alist_cache (\<lambda>_. ''p'') (\<lambda>m. m = ''GET'') [1] (demo_request ''GET'') None demo_io
      (replicate 22 id) demo_pool = (Some (Inr 200), st) \<and> length (fs_sent st) = 2
     \<and> (\<forall>q \<in> set (fs_sent st). rq_method q = ''GET'') \<and> bd_at_end (rq_body (demo_request ''GET''))"
proof -
  obtain st where r: "fetch_request alist_cache (\<lambda>_. ''p'') (\<lambda>m. m = ''GET'') [1] (demo_request ''GET'') None demo_io
      (replicate 22 id) demo_pool = (Some (Inr 200), st)" "length (fs_sent st) = 2"
    using demo_get_replayed by blast
  then show ?thesis
    using fetch_replays_only_safe_requests [OF r(1)] by (auto simp: demo_request_def)
qed

section \<open>Which connections are closed\<close>

inductive fetch_reachable :: "'c cache_ops \<Rightarrow> (bytes \<Rightarrow> string) \<Rightarrow> pool_key \<Rightarrow> fetch_plan \<Rightarrow> (bool \<Rightarrow> 'r attempt_io)
    \<Rightarrow> 'r fetch_pc \<Rightarrow> 'c fetch_state \<Rightarrow> bool" for ops base32 key plan io where
  fr_start: "fetch_reachable ops base32 key plan io (FConnect False GLookup)
     \<lparr>fs_pool = p, last_dial_seq = None, fs_sent = []\<rparr>"
| fr_env: "fetch_reachable ops base32 key plan io pc st
     \<Longrightarrow> fetch_reachable ops base32 key plan io pc (st\<lparr>fs_pool := p\<rparr>)"
| fr_step: "fetch_reachable ops base32 key plan io pc st \<Longrightarrow> fetch_step ops base32 key plan io pc st = (pc', st')
     \<Longrightarrow> fetch_reachable ops base32 key plan io pc' st'"

lemma after_attempt_evict: "after_attempt r res ru = FEvict r' e ru' \<Longrightarrow> is_connection_failed e"
  by (cases "(r, res, ru)" rule: after_attempt.cases) (auto split: if_splits)

lemma evict_after_failure:
  "fetch_reachable ops base32 key plan io pc st \<Longrightarrow> pc = FEvict r e ru \<Longrightarrow> is_connection_failed e"
proof (induction arbitrary: r e ru rule: fetch_reachable.induct)
  case (fr_step pc st pc' st')
  then show ?case
    by (cases pc) (auto simp: fetch_step_def split: prod.splits goc_pc.splits sum.splits if_splits
        dest: after_attempt_evict)
qed auto

lemma goc_step_closes_nothing:
  assumes "entry_cache ops view" "goc_step ops base32 key fl pc p = (pc', p')"
  shows "closed_conns p' = closed_conns p"
proof -
  have c: "closed_conns p1 = closed_conns p" if "compare_and_remove ops key seq p = (w, p1)" for seq w p1
    using arg_cong [OF entry_cache.compare_and_remove_spec(3) [OF assms(1) that], of closed_conns] by simp
  show ?thesis
    using assms(2) by (auto simp: goc_step_def enter_phase2_def try_get_with_def pooled_new_def Let_def
        split: goc_pc.splits prod.splits option.splits sum.splits if_splits flight.splits dest: c)
qed

lemma after_attempt_not_connect: "after_attempt r res ru \<noteq> FConnect a b"
  by (cases "(r, res, ru)" rule: after_attempt.cases) auto

lemma evict_closes:
  assumes "entry_cache ops view"
    and "close_reason n (evict_and_close ops key reason seq p) \<noteq> close_reason n p"
  shows "\<exists>v. view (cache p) key = Some v \<and> seq = Some (dial_seq v) \<and> pooled_conn v = n"
proof (cases seq)
  case None
  then show ?thesis using assms(2) by (simp add: evict_and_close_def)
next
  case (Some q)
  obtain w p1 where c: "compare_and_remove ops key q p = (w, p1)" by fastforce
  note sp = entry_cache.compare_and_remove_spec [OF assms(1) c]
  have "closed_conns p1 = closed_conns p" using arg_cong [OF sp(3), of closed_conns] by simp
  then show ?thesis
    using assms(2) Some c sp(1)
    by (auto simp: evict_and_close_def close_conn_def close_reason_def split: option.splits if_splits)
qed

text \<open>A call closes only the connection that failed it: in every reachable situation a step
  that closes a connection follows an attempt that failed at the connection level (never a failure of
  the caller's body), and what it closes is the pooled connection with the dial number that this
  attempt had obtained; being cut off by the timeout closes nothing.\<close>

theorem fetch_closes_only_its_failed_connection:
  assumes "entry_cache ops view" and "fetch_reachable ops base32 key plan io pc st"
  shows "close_reason n (evict_only ops key (last_dial_seq st) (fs_pool st)) = close_reason n (fs_pool st)
    \<and> (close_reason n (fs_pool (snd (fetch_step ops base32 key plan io pc st))) \<noteq> close_reason n (fs_pool st)
       \<longrightarrow> (\<exists>r d src reused v. pc = FEvict r (FeConnectionFailed d src) reused
              \<and> view (cache (fs_pool st)) key = Some v \<and> last_dial_seq st = Some (dial_seq v) \<and> pooled_conn v = n))"
proof -
  obtain pc' st' where s: "fetch_step ops base32 key plan io pc st = (pc', st')" by fastforce
  have other: "close_reason n (fs_pool st') = close_reason n (fs_pool st)" if "\<nexists>r e ru. pc = FEvict r e ru"
  proof (cases pc)
    case (FConnect r g)
    then show ?thesis
      using s by (auto simp: fetch_step_def close_reason_def split: prod.splits goc_pc.splits sum.splits
          dest!: goc_step_closes_nothing [OF assms(1)])
  qed (use s that in \<open>auto simp: fetch_step_def split: sum.splits\<close>)
  have evict: "\<exists>d src v. e = FeConnectionFailed d src \<and> view (cache (fs_pool st)) key = Some v
      \<and> last_dial_seq st = Some (dial_seq v) \<and> pooled_conn v = n"
    if "pc = FEvict r e ru" "close_reason n (fs_pool st') \<noteq> close_reason n (fs_pool st)" for r e ru
    using evict_closes [OF assms(1), of n key "evict_reason r" "last_dial_seq st" "fs_pool st"]
      evict_after_failure [OF assms(2) that(1)] that s by (cases e) (auto simp: fetch_step_def)
  have cut: "close_reason n (evict_only ops key (last_dial_seq st) (fs_pool st)) = close_reason n (fs_pool st)"
  proof (cases "last_dial_seq st")
    case None
    then show ?thesis by (simp add: evict_only_def)
  next
    case (Some q)
    obtain w p1 where c: "compare_and_remove ops key q (fs_pool st) = (w, p1)" by fastforce
    have "closed_conns p1 = closed_conns (fs_pool st)"
      using arg_cong [OF entry_cache.compare_and_remove_spec(3) [OF assms(1) c], of closed_conns] by simp
    then show ?thesis using Some c by (auto simp: evict_only_def close_reason_def split: option.splits)
  qed
  show ?thesis
  proof (cases "\<exists>r e ru. pc = FEvict r e ru")
    case True
    then obtain r e ru where pc: "pc = FEvict r e ru" by blast
    show ?thesis using cut evict [OF pc] pc unfolding s snd_conv by blast
  next
    case False
    then show ?thesis using cut other unfolding s snd_conv by simp
  qed
qed

fun fetch_iter :: "'c cache_ops \<Rightarrow> (bytes \<Rightarrow> string) \<Rightarrow> pool_key \<Rightarrow> fetch_plan \<Rightarrow> (bool \<Rightarrow> 'r attempt_io)
    \<Rightarrow> nat \<Rightarrow> 'r fetch_pc \<times> 'c fetch_state \<Rightarrow> 'r fetch_pc \<times> 'c fetch_state" where
  "fetch_iter ops base32 key plan io 0 x = x"
| "fetch_iter ops base32 key plan io (Suc n) x = fetch_iter ops base32 key plan io n (fetch_step ops base32 key plan io (fst x) (snd x))"

lemma fetch_reachable_iter:
  "fetch_reachable ops base32 key plan io (fst x) (snd x) \<Longrightarrow> fetch_iter ops base32 key plan io n x = (pc, st)
     \<Longrightarrow> fetch_reachable ops base32 key plan io pc st"
proof (induction n arbitrary: x)
  case (Suc n)
  have "fetch_reachable ops base32 key plan io (fst (fetch_step ops base32 key plan io (fst x) (snd x)))
      (snd (fetch_step ops base32 key plan io (fst x) (snd x)))"
    by (rule fr_step [OF Suc.prems(1)]) simp
  then show ?case using Suc.IH Suc.prems(2) by simp
qed simp

theorem fetch_closes_only_its_failed_connection_witness:
  "\<exists>key plan st e. fetch_reachable alist_cache (\<lambda>_. ''p'') key plan demo_io (FEvict False e True) st
     \<and> close_reason 4 (fs_pool st) = None
     \<and> close_reason 4 (fs_pool (snd (fetch_step alist_cache (\<lambda>_. ''p'') key plan demo_io (FEvict False e True) st))) \<noteq> None
     \<and> last_dial_seq st = Some 6"
proof -
  define key where "key = \<lparr>key_node = [1], key_alpn = ALPN\<rparr>"
  define plan where "plan = fetch_plan_of (\<lambda>m. m = ''GET'') (demo_request ''GET'')"
  define x where "x = (FConnect False GLookup :: nat fetch_pc, \<lparr>fs_pool = demo_pool, last_dial_seq = None, fs_sent = []\<rparr>)"
  obtain e st where it: "fetch_iter alist_cache (\<lambda>_. ''p'') key plan demo_io 5 x = (FEvict False e True, st)"
    "close_reason 4 (fs_pool st) = None"
    "close_reason 4 (fs_pool (snd (fetch_step alist_cache (\<lambda>_. ''p'') key plan demo_io (FEvict False e True) st))) \<noteq> None"
    by (simp add: x_def key_def plan_def demo_fetch_defs numeral_eq_Suc)
  have r: "fetch_reachable alist_cache (\<lambda>_. ''p'') key plan demo_io (FEvict False e True) st"
    by (rule fetch_reachable_iter [OF _ it(1)]) (simp add: x_def fr_start)
  have "last_dial_seq st = Some 6"
    using fetch_closes_only_its_failed_connection [OF alist_pool.entry_cache_axioms r, of 4] it(2,3)
      it(1) by (auto simp: x_def key_def plan_def demo_fetch_defs numeral_eq_Suc)
  then show ?thesis using r it(2,3) by blast
qed

section \<open>Termination\<close>

text \<open>An upper bound of the steps that are left.\<close>

fun fetch_left :: "pooled_connection option \<Rightarrow> 'r fetch_pc \<Rightarrow> nat" where
  "fetch_left e (FConnect r g) = goc_left e g + (if r then 6 else 18)"
| "fetch_left e (FOpen r _) = (if r then 5 else 17)"
| "fetch_left e (FShake r _) = (if r then 4 else 16)"
| "fetch_left e (FSend r _) = (if r then 3 else 15)"
| "fetch_left e (FAwait r _) = (if r then 2 else 14)"
| "fetch_left e (FEvict r _ _) = (if r then 1 else 13)"
| "fetch_left e (FDone _) = 0"

lemma after_attempt_left: "fetch_left v (after_attempt r res ru) \<le> (if r then 1 else 13)"
  by (cases "(r, res, ru)" rule: after_attempt.cases) auto

lemma connect_left:
  assumes "entry_cache ops view" "goc_step ops base32 key fl g p = (g', p')"
  shows "goc_left (view (cache p') key) g' \<le> goc_left (view (cache p) key) g - 1"
proof (cases "goc_left (view (cache p) key) g")
  case 0
  then obtain r where "g = GDone r" by (cases g) (auto split: if_splits)
  then show ?thesis using assms(2) by (auto simp: goc_step_def)
next
  case (Suc n)
  then show ?thesis using goc_step_left [OF assms] by simp
qed

lemma fetch_step_left:
  assumes "entry_cache ops view" "fetch_step ops base32 key plan io pc st = (pc', st')"
    and "fetch_left (view (cache (fs_pool st)) key) pc \<le> Suc n"
  shows "fetch_left (view (cache (fs_pool st')) key) pc' \<le> n"
proof (cases pc)
  case (FConnect r g)
  obtain g' p' where g: "goc_step ops base32 key (ai_flight (io r)) g (fs_pool st) = (g', p')" by fastforce
  show ?thesis
    using assms(2,3) FConnect g connect_left [OF assms(1) g]
    by (cases g') (auto simp: fetch_step_def split: sum.splits if_splits)
next
  case (FAwait r ru)
  then show ?thesis
    using assms(2,3) after_attempt_left [of _ r "send_result (ai_send (io r))" ru]
    by (auto simp: fetch_step_def intro: le_trans split: if_splits)
qed (use assms(2,3) in \<open>auto simp: fetch_step_def split: sum.splits if_splits\<close>)

text \<open>A step of another task that touches the entry of the key costs at most two steps: the call
  may have to look the entry up again.\<close>

lemma fetch_left_interference: "fetch_left e' pc \<le> fetch_left e pc + 2"
proof (cases pc)
  case (FConnect r g)
  have "goc_left e' g \<le> goc_left e g + 2" by (cases g) auto
  then show ?thesis using FConnect by simp
qed auto

lemma fetch_run_returns:
  assumes "entry_cache ops view"
    and "fetch_left (view (cache (fs_pool st)) key) pc
       + 2 * length (filter (\<lambda>e. \<not> keeps_entry view key e) env) \<le> length env"
  shows "\<exists>res st'. fetch_run ops base32 key plan io pc env st = (Some res, st')"
  using assms(2)
proof (induction env arbitrary: pc st)
  case Nil
  then show ?case by (cases pc) (auto split: if_splits)
next
  case (Cons e es)
  let ?st = "st\<lparr>fs_pool := e (fs_pool st)\<rparr>"
  let ?d = "2 * length (filter (\<lambda>e. \<not> keeps_entry view key e) es)"
  let ?left = "\<lambda>s. fetch_left (view (cache (fs_pool s)) key)"
  obtain pc1 st1 where s: "fetch_step ops base32 key plan io pc ?st = (pc1, st1)" by fastforce
  have "?left ?st pc + ?d \<le> Suc (length es)"
  proof (cases "keeps_entry view key e")
    case True
    then have "view (cache (fs_pool ?st)) key = view (cache (fs_pool st)) key" by (simp add: keeps_entry_def)
    then show ?thesis using Cons.prems True by simp
  next
    case False
    then show ?thesis
      using Cons.prems fetch_left_interference [of "view (cache (fs_pool ?st)) key" pc "view (cache (fs_pool st)) key"]
      by simp
  qed
  show ?case
  proof (cases "\<exists>r. pc = FDone r")
    case False
    then have "0 < ?left ?st pc" by (cases pc) auto
    with \<open>?left ?st pc + ?d \<le> Suc (length es)\<close> have d: "?d \<le> length es" "?left ?st pc \<le> Suc (length es - ?d)"
      by linarith+
    have "?left st1 pc1 \<le> length es - ?d" using fetch_step_left [OF assms(1) s d(2)] .
    with d(1) have "?left st1 pc1 + ?d \<le> length es" by linarith
    then obtain res st' where "fetch_run ops base32 key plan io pc1 es st1 = (Some res, st')"
      using Cons.IH by blast
    then show ?thesis using s by (cases pc) auto
  qed auto
qed

text \<open>Property C20.  A request ends by itself: it needs twenty-four of its own steps for both attempts together,
  and two more for every step by which another task touches the pool entry of its peer in between (such a step can send
  the call back to the lookup), whatever the dial, the streams and the connection answer.  The
  result is then the same with and without a timeout, so the ending does not rest on the timer.\<close>

theorem fetch_request_returns:
  assumes "entry_cache ops view"
    and "24 + 2 * length (filter (\<lambda>e. \<not> keeps_entry view \<lparr>key_node = node, key_alpn = ALPN\<rparr> e) env) \<le> length env"
  shows "\<exists>res st. \<forall>tmo. fetch_request ops base32 idem node req tmo io env p = (Some res, st)"
proof -
  obtain res st where "fetch_run ops base32 \<lparr>key_node = node, key_alpn = ALPN\<rparr> (fetch_plan_of idem req) io
      (FConnect False GLookup) env \<lparr>fs_pool = p, last_dial_seq = None, fs_sent = []\<rparr> = (Some res, st)"
    using fetch_run_returns [OF assms(1), of "\<lparr>fs_pool = p, last_dial_seq = None, fs_sent = []\<rparr>"
        "\<lparr>key_node = node, key_alpn = ALPN\<rparr>" "FConnect False GLookup" env] assms(2)
    by fastforce
  then show ?thesis by (simp add: fetch_request_def Let_def)
qed

text \<open>Witness: while the call runs, another task once drops the cached connection.\<close>

theorem fetch_request_returns_witness:
  "\<exists>res st. \<forall>tmo. fetch_request alist_cache (\<lambda>_. ''p'') (\<lambda>m. m = ''GET'') [1] (demo_request ''GET'') tmo demo_io
      (id # (\<lambda>p. p\<lparr>cache := []\<rparr>) # replicate 24 id) demo_pool = (Some res, st)"
proof (rule fetch_request_returns [OF alist_pool.entry_cache_axioms])
  show "24 + 2 * length (filter (\<lambda>e. \<not> keeps_entry map_of \<lparr>key_node = [1], key_alpn = ALPN\<rparr> e)
      (id # (\<lambda>p. p\<lparr>cache := []\<rparr>) # replicate 24 id)) \<le> length (id # (\<lambda>p. p\<lparr>cache := []\<rparr>) # replicate 24 id)"
    by (auto simp: keeps_entry_def)
qed

end
