(* ===== verification/Body_Pump.thy ===== *)
theory Body_Pump
  imports Body_Channel "HOL-Library.Sublist"
begin

text \<open>
  \<^verbatim>\<open>src/crates/iroh-http-core/src/ffi/pumps.rs\<close>: the copy loops between transport streams, HTTP bodies
  and body channels.

  The arriving frames, with the time each takes to arrive (\<open>None\<close>: never), are inputs; so are the steps
  of other tasks while a loop waits for a frame and while it waits for room in the channel.  A loop
  whose input is used up is still waiting.  \<open>pm_sent\<close> records the chunks the channel accepted.
\<close>

section \<open>Errors of a body\<close>

datatype err_node = LengthLimitError | OtherError

text \<open>An error with the chain of its sources, itself first.\<close>

record stream_error =
  se_chain :: "err_node list"
  se_text :: string

fun chain_has_length_limit :: "err_node list \<Rightarrow> bool" where
  "chain_has_length_limit [] = False"
| "chain_has_length_limit (e # es) = (if e = LengthLimitError then True else chain_has_length_limit es)"

definition is_length_limit_error :: "stream_error \<Rightarrow> bool" where
  "is_length_limit_error e = chain_has_length_limit (se_chain e)"

lemma chain_has_length_limit_iff: "chain_has_length_limit es \<longleftrightarrow> LengthLimitError \<in> set es"
  by (induction es) auto

section \<open>From an HTTP body to a channel\<close>

datatype frame_result = FrEnd | FrErr stream_error | FrData bytes | FrOther

record 'c frame_input =
  fi_pre :: "('c heap \<Rightarrow> 'c heap) list"
  fi_delay :: "millis option"
  fi_frame :: frame_result
  fi_send_env :: "('c heap \<Rightarrow> 'c heap) list"

text \<open>\<open>timeout(frame_timeout, body.frame())\<close>; \<open>None\<close> is the elapsed timer.\<close>

definition timed_frame :: "millis \<Rightarrow> 'c frame_input \<Rightarrow> frame_result option" where
  "timed_frame frame_timeout x = (case fi_delay x of
       None \<Rightarrow> None
     | Some d \<Rightarrow> if d \<le> frame_timeout then Some (fi_frame x) else None)"

record pump_state =
  pm_total :: nat
  pm_overflowed :: bool
  pm_tx :: bool \<comment> \<open>the overflow sender is still there\<close>
  pm_fired :: nat
  pm_sent :: "bytes list"

definition frame_error :: "stream_error \<Rightarrow> core_error" where
  "frame_error e = (if is_length_limit_error e then body_too_large ''body exceeded configured size limit''
     else internal (''body stream error: '' @ se_text e))"

definition limit_error :: "nat \<Rightarrow> core_error" where
  "limit_error limit = body_too_large (''body exceeded configured size limit of '' @ show_nat limit @ '' bytes'')"

definition exceeds :: "nat option \<Rightarrow> nat \<Rightarrow> bool" where
  "exceeds max_bytes tot = (case max_bytes of None \<Rightarrow> False | Some limit \<Rightarrow> limit < tot)"

text \<open>The loop.  It is still waiting, or it has left the loop, or it has returned because a send failed;
  the last two drop the writer.\<close>

datatype pump_exit = PumpWaiting | PumpLeft | PumpSendFailed

fun pump_hyper_body_to_channel_limited :: "'c mpsc_ops \<Rightarrow> body_writer \<Rightarrow> nat option \<Rightarrow> millis
    \<Rightarrow> 'c frame_input list \<Rightarrow> pump_state \<Rightarrow> 'c heap \<Rightarrow> pump_exit \<times> pump_state \<times> 'c heap" where
  "pump_hyper_body_to_channel_limited ops w max_bytes ft [] st H = (PumpWaiting, st, H)"
| "pump_hyper_body_to_channel_limited ops w max_bytes ft (x # xs) st H =
     (let H = fold (\<lambda>f. f) (fi_pre x) H in
      case timed_frame ft x of
        None \<Rightarrow> (PumpLeft, st, writer_drop ops w (writer_abort w (timeout_error ''body frame read timed out'') H))
      | Some FrEnd \<Rightarrow> (PumpLeft, st, writer_drop ops w H)
      | Some (FrErr e) \<Rightarrow> (PumpLeft, st, writer_drop ops w
           (if pm_overflowed st then H else writer_abort w (frame_error e) H))
      | Some FrOther \<Rightarrow> pump_hyper_body_to_channel_limited ops w max_bytes ft xs st H
      | Some (FrData d) \<Rightarrow>
          if pm_overflowed st then pump_hyper_body_to_channel_limited ops w max_bytes ft xs st H
          else (let tot = sat_add (pm_total st) (length d) in
            if exceeds max_bytes tot
            then pump_hyper_body_to_channel_limited ops w max_bytes ft xs
                   (st\<lparr>pm_total := tot, pm_overflowed := True, pm_tx := False,
                      pm_fired := (if pm_tx st then Suc (pm_fired st) else pm_fired st)\<rparr>)
                   (writer_abort w (limit_error (the max_bytes)) H)
            else (case writer_send_chunk ops w d (fi_send_env x) H of
                (None, H1) \<Rightarrow> (PumpWaiting, st\<lparr>pm_total := tot\<rparr>, H1)
              | (Some (Inl _), H1) \<Rightarrow> (PumpSendFailed, st\<lparr>pm_total := tot\<rparr>, writer_drop ops w H1)
              | (Some (Inr _), H1) \<Rightarrow> pump_hyper_body_to_channel_limited ops w max_bytes ft xs
                   (st\<lparr>pm_total := tot, pm_sent := pm_sent st @ [d]\<rparr>) H1)))"

definition pump_start :: "bool \<Rightarrow> pump_state" where
  "pump_start tx = \<lparr>pm_total = 0, pm_overflowed = False, pm_tx = tx, pm_fired = 0, pm_sent = []\<rparr>"

definition pump_hyper_body_to_channel :: "'c mpsc_ops \<Rightarrow> body_writer \<Rightarrow> 'c frame_input list \<Rightarrow> 'c heap
    \<Rightarrow> pump_exit \<times> pump_state \<times> 'c heap" where
  "pump_hyper_body_to_channel ops w xs H =
     pump_hyper_body_to_channel_limited ops w None (drain_timeout w) xs (pump_start False) H"

section \<open>Between transport streams and channels\<close>

definition PUMP_READ_BUF :: nat where "PUMP_READ_BUF = 64 * 1024"

text \<open>Each read gives a chunk, the end, or an error; the last two end the loop alike.\<close>

fun pump_quic_recv_to_body :: "'c mpsc_ops \<Rightarrow> body_writer
    \<Rightarrow> (('c heap \<Rightarrow> 'c heap) list \<times> (string + bytes option) \<times> ('c heap \<Rightarrow> 'c heap) list) list
    \<Rightarrow> bytes list \<Rightarrow> 'c heap \<Rightarrow> bool \<times> bytes list \<times> 'c heap" where
  "pump_quic_recv_to_body ops w [] sent H = (False, sent, H)"
| "pump_quic_recv_to_body ops w ((pre, rd, env) # xs) sent H =
     (let H = fold (\<lambda>f. f) pre H in
      case rd of
        Inr (Some chunk) \<Rightarrow> (case writer_send_chunk ops w chunk env H of
            (None, H1) \<Rightarrow> (False, sent, H1)
          | (Some (Inl _), H1) \<Rightarrow> (True, sent, writer_drop ops w H1)
          | (Some (Inr _), H1) \<Rightarrow> pump_quic_recv_to_body ops w xs (sent @ [chunk]) H1)
      | _ \<Rightarrow> (True, sent, writer_drop ops w H))"

text \<open>Each round: what others do while the reader waits, and whether \<open>write_all\<close> succeeds.  The written
  data are returned; an ended loop has finished the stream and dropped the reader.\<close>

fun pump_body_to_quic_send :: "'c mpsc_ops \<Rightarrow> body_reader \<Rightarrow> (('c heap \<Rightarrow> 'c heap) list \<times> bool) list
    \<Rightarrow> bytes list \<Rightarrow> 'c heap \<Rightarrow> bool \<times> bytes list \<times> 'c heap" where
  "pump_body_to_quic_send ops r [] written H = (False, written, H)"
| "pump_body_to_quic_send ops r ((env, wrote) # xs) written H =
     (case reader_next_chunk ops r env H of
        (None, H1) \<Rightarrow> (False, written, H1)
      | (Some None, H1) \<Rightarrow> (True, written, reader_drop ops r H1)
      | (Some (Some d), H1) \<Rightarrow>
          if wrote then pump_body_to_quic_send ops r xs (written @ [d]) H1
          else (True, written, reader_drop ops r H1))"

section \<open>What the limited pump forwards\<close>

text \<open>The data of the frames that arrive in time, in order.\<close>

fun timely_data :: "millis \<Rightarrow> 'c frame_input list \<Rightarrow> bytes list" where
  "timely_data ft [] = []"
| "timely_data ft (x # xs) = (case timed_frame ft x of
     Some (FrData d) \<Rightarrow> d # timely_data ft xs | _ \<Rightarrow> timely_data ft xs)"

definition bytes_of :: "bytes list \<Rightarrow> nat" where
  "bytes_of ds = sum_list (map length ds)"

lemma bytes_of_simps [simp]: "bytes_of [] = 0" "bytes_of (d # ds) = length d + bytes_of ds"
  "bytes_of (ds @ es) = bytes_of ds + bytes_of es"
  by (simp_all add: bytes_of_def)

text \<open>The loop invariant: the running total is the size of what was accepted until the limit is passed.\<close>

definition pump_inv :: "nat option \<Rightarrow> pump_state \<Rightarrow> bool" where
  "pump_inv mb st \<longleftrightarrow> (\<not> pm_overflowed st \<longrightarrow> pm_total st = min usize_max (bytes_of (pm_sent st)))
     \<and> (\<forall>l. mb = Some l \<longrightarrow> l < usize_max \<longrightarrow> bytes_of (pm_sent st) \<le> l)
     \<and> pm_fired st \<le> 1 \<and> (pm_fired st = 1 \<longrightarrow> pm_overflowed st \<and> \<not> pm_tx st)"

lemma exceeds_mono: "exceeds mb m \<Longrightarrow> m \<le> n \<Longrightarrow> exceeds mb n"
  by (auto simp: exceeds_def split: option.splits)

lemma pump_inv_accept:
  assumes "pump_inv mb st" "\<not> pm_overflowed st" "\<not> exceeds mb (sat_add (pm_total st) (length d))"
  shows "pump_inv mb (st\<lparr>pm_total := sat_add (pm_total st) (length d), pm_sent := pm_sent st @ [d]\<rparr>)"
  using assms by (auto simp: pump_inv_def exceeds_def sat_add_def)

lemma pump_overflowed_fixed:
  "pm_overflowed st \<Longrightarrow> pump_hyper_body_to_channel_limited ops w mb ft xs st H = (fin, st', H') \<Longrightarrow> st' = st"
  by (induction ops w mb ft xs st H rule: pump_hyper_body_to_channel_limited.induct)
    (auto simp: Let_def split: option.splits frame_result.splits)

lemma pump_forwarded:
  assumes "pump_hyper_body_to_channel_limited ops w mb ft xs st H = (fin, st', H')" "pump_inv mb st"
    and "\<not> pm_overflowed st"
  shows "(\<forall>l. mb = Some l \<longrightarrow> l < usize_max \<longrightarrow> bytes_of (pm_sent st') \<le> l) \<and> (\<exists>ds. pm_sent st' = pm_sent st @ ds \<and> prefix ds (timely_data ft xs))
    \<and> (pm_overflowed st' \<longrightarrow> exceeds mb (bytes_of (pm_sent st @ timely_data ft xs))
         \<and> pm_fired st' = pm_fired st + (if pm_tx st then 1 else 0))
    \<and> (\<not> pm_overflowed st' \<longrightarrow> pm_fired st' = pm_fired st)"
  using assms
proof (induction xs arbitrary: st H)
  case Nil
  then show ?case by (auto simp: pump_inv_def)
next
  case (Cons x xs)
  note run = Cons.prems(1) and inv = Cons.prems(2) and no = Cons.prems(3)
  let ?H = "fold (\<lambda>f. f) (fi_pre x) H" and ?tot = "\<lambda>d. sat_add (pm_total st) (length d)"
  show ?case
  proof (cases "timed_frame ft x")
    case None
    with run inv no show ?thesis by (auto simp: Let_def pump_inv_def)
  next
    case (Some fr)
    show ?thesis
    proof (cases fr)
      case (FrData d)
      note fr = Some FrData
      show ?thesis
      proof (cases "exceeds mb (?tot d)")
        case True
        let ?st = "st\<lparr>pm_total := ?tot d, pm_overflowed := True, pm_tx := False,
          pm_fired := (if pm_tx st then Suc (pm_fired st) else pm_fired st)\<rparr>"
        have "st' = ?st"
          by (rule pump_overflowed_fixed [of ?st]) (use run no fr True in \<open>auto simp: Let_def pump_inv_def\<close>)
        moreover have "?tot d \<le> bytes_of (pm_sent st @ d # timely_data ft xs)"
          using inv no by (auto simp: pump_inv_def sat_add_def)
        ultimately show ?thesis
          using inv fr exceeds_mono [OF True] by (auto simp: pump_inv_def)
      next
        case False
        obtain r H1 where s: "writer_send_chunk ops w d (fi_send_env x) ?H = (r, H1)" by fastforce
        show ?thesis
        proof (cases "r = Some (Inr ())")
          case True
          have "pump_hyper_body_to_channel_limited ops w mb ft xs
              (st\<lparr>pm_total := ?tot d, pm_sent := pm_sent st @ [d]\<rparr>) H1 = (fin, st', H')"
            using run no fr False s True by (simp add: Let_def)
          from Cons.IH [OF this pump_inv_accept [OF inv no False]] show ?thesis
            using no fr by (auto simp: prefix_def)
        next
          case bad: False
          then have "st' = st\<lparr>pm_total := ?tot d\<rparr>"
            using run no fr False s by (auto simp: Let_def split: option.splits sum.splits)
          then show ?thesis using inv no fr by (auto simp: pump_inv_def)
        qed
      qed
    next
      case FrOther
      then show ?thesis using Cons Some by (auto simp: Let_def)
    qed (use run inv no Some in \<open>auto simp: Let_def pump_inv_def\<close>)
  qed
qed

section \<open>How the limited pump ends\<close>

text \<open>The first frame that ends the loop: an elapsed timer (\<open>None\<close>), the end of the body, or an error.\<close>

fun first_end :: "millis \<Rightarrow> 'c frame_input list \<Rightarrow> frame_result option option" where
  "first_end ft [] = None"
| "first_end ft (x # xs) = (case timed_frame ft x of
     None \<Rightarrow> Some None | Some FrEnd \<Rightarrow> Some (Some FrEnd) | Some (FrErr e) \<Rightarrow> Some (Some (FrErr e))
   | _ \<Rightarrow> first_end ft xs)"

text \<open>What the terminal error slot holds when the loop has been left.\<close>

definition pump_verdict :: "nat option \<Rightarrow> bool \<Rightarrow> frame_result option \<Rightarrow> core_error option" where
  "pump_verdict mb overflowed end = (case end of
       None \<Rightarrow> Some (timeout_error ''body frame read timed out'')
     | Some fr \<Rightarrow> if overflowed then Some (limit_error (the mb))
         else (case fr of FrErr e \<Rightarrow> Some (frame_error e) | _ \<Rightarrow> None))"

definition keeps_terminal :: "nat \<Rightarrow> ('c heap \<Rightarrow> 'c heap) \<Rightarrow> bool" where
  "keeps_terminal i f \<longleftrightarrow> (\<forall>H. terminal_error (cells (f H) i) = terminal_error (cells H i))"

definition quiet_inputs :: "nat \<Rightarrow> 'c frame_input list \<Rightarrow> bool" where
  "quiet_inputs i xs \<longleftrightarrow> (\<forall>x \<in> set xs. \<forall>f \<in> set (fi_pre x) \<union> set (fi_send_env x). keeps_terminal i f)"

lemma fold_keeps_terminal:
  "\<forall>f \<in> set fs. keeps_terminal i f \<Longrightarrow> terminal_error (cells (fold (\<lambda>f. f) fs H) i) = terminal_error (cells H i)"
  by (induction fs arbitrary: H) (auto simp: keeps_terminal_def)

lemma send_poll_terminal:
  "send_poll ops i b d H = (r, d', H') \<Longrightarrow> terminal_error (cells H' i) = terminal_error (cells H i)"
  by (auto simp: send_poll_def split: prod.splits try_send_result.splits)

lemma send_timeout_terminal:
  assumes "send_timeout ops i b drain env H = (r, H')" "\<forall>f \<in> set env. keeps_terminal i f"
  shows "terminal_error (cells H' i) = terminal_error (cells H i)"
proof -
  obtain l where aw: "await_fut (send_poll ops i b) env (clock H + drain) H = (r, l, H')"
    using assms(1) by (auto simp: send_timeout_def split: prod.splits)
  show ?thesis
    by (rule await_fut_inv [where I = "\<lambda>K. terminal_error (cells K i) = terminal_error (cells H i)", OF _ _ _ aw])
      (use assms(2) send_poll_terminal in \<open>fastforce simp: keeps_terminal_def\<close>)+
qed

lemma writer_send_terminal:
  assumes "writer_send_chunk ops w b env H = (r, H')" "\<forall>f \<in> set env. keeps_terminal (wr_cell w) f"
  shows "terminal_error (cells H' (wr_cell w)) = terminal_error (cells H (wr_cell w))"
  using assms by (auto simp: writer_send_chunk_def Let_def split: prod.splits try_send_result.splits
      dest!: send_timeout_terminal)

lemma writer_drop_terminal [simp]:
  "terminal_error (cells (writer_drop ops w H) i) = terminal_error (cells H i)"
  by (simp add: writer_drop_def tx_drop_def split: option.splits)

lemma writer_abort_terminal [simp]:
  "terminal_error (cells (writer_abort w e H) (wr_cell w)) = Some e"
  by (simp add: writer_abort_def)

lemma pump_left_verdict:
  assumes "pump_hyper_body_to_channel_limited ops w mb ft xs st H = (PumpLeft, st', H')"
    and "quiet_inputs (wr_cell w) xs"
    and "terminal_error (cells H (wr_cell w)) = (if pm_overflowed st then Some (limit_error (the mb)) else None)"
  shows "\<exists>e. first_end ft xs = Some e
    \<and> terminal_error (cells H' (wr_cell w)) = pump_verdict mb (pm_overflowed st') e"
  using assms
proof (induction xs arbitrary: st H)
  case Nil
  then show ?case by simp
next
  case (Cons x xs)
  let ?H = "fold (\<lambda>f. f) (fi_pre x) H"
  have q: "quiet_inputs (wr_cell w) xs" and qs: "\<forall>f \<in> set (fi_send_env x). keeps_terminal (wr_cell w) f"
    and t: "terminal_error (cells ?H (wr_cell w)) = terminal_error (cells H (wr_cell w))"
    using Cons.prems(2) fold_keeps_terminal [of "fi_pre x"] by (auto simp: quiet_inputs_def)
  note run = Cons.prems(1) and te = Cons.prems(3)
  show ?case
  proof (cases "timed_frame ft x")
    case None
    then show ?thesis using run by (auto simp: Let_def pump_verdict_def)
  next
    case (Some fr)
    show ?thesis
    proof (cases fr)
      case (FrData d)
      note fr = Some FrData
      show ?thesis
      proof (cases "pm_overflowed st")
        case True
        then show ?thesis using run fr Cons.IH [OF _ q] te t by (simp add: Let_def)
      next
        case no: False
        show ?thesis
        proof (cases "exceeds mb (sat_add (pm_total st) (length d))")
          case True
          then show ?thesis using run fr no Cons.IH [OF _ q] by (simp add: Let_def)
        next
          case False
          obtain r H1 where s: "writer_send_chunk ops w d (fi_send_env x) ?H = (r, H1)" by fastforce
          have "terminal_error (cells H1 (wr_cell w)) = None"
            using writer_send_terminal [OF s qs] t te no by simp
          then show ?thesis
            using run fr no False s Cons.IH [OF _ q] by (auto simp: Let_def split: option.splits sum.splits)
        qed
      qed
    next
      case FrOther
      then show ?thesis using run Some Cons.IH [OF _ q] te t by (simp add: Let_def)
    qed (use run Some te t in \<open>auto simp: Let_def pump_verdict_def\<close>)
  qed
qed

section \<open>Properties\<close>

text \<open>Property C21.  A limited pump respects its limit: whatever the other tasks do, the channel has accepted a
  prefix of the timely data of the body, in order and of at most the limit's size; the overflow signal
  is sent at most once, and only if the body really is larger than the limit.\<close>

theorem pump_respects_limit:
  assumes "pump_hyper_body_to_channel_limited ops w (Some limit) ft xs (pump_start tx) H = (fin, st, H')"
    and "limit < usize_max"
  shows "prefix (pm_sent st) (timely_data ft xs) \<and> bytes_of (pm_sent st) \<le> limit
    \<and> (pm_overflowed st \<longrightarrow> limit < bytes_of (timely_data ft xs))
    \<and> pm_fired st = (if pm_overflowed st \<and> tx then 1 else 0)"
proof -
  have i: "pump_inv (Some limit) (pump_start tx)" "\<not> pm_overflowed (pump_start tx)"
    "pm_sent (pump_start tx) = []" "pm_fired (pump_start tx) = 0" "pm_tx (pump_start tx) = tx"
    by (simp_all add: pump_inv_def pump_start_def usize_max_def)
  show ?thesis
    using pump_forwarded [OF assms(1) i(1,2)] assms(2) i(3-5) by (auto simp: exceeds_def)
qed

definition data_input :: "bytes \<Rightarrow> 'c frame_input" where
  "data_input d = \<lparr>fi_pre = [], fi_delay = Some 0, fi_frame = FrData d, fi_send_env = []\<rparr>"

definition end_input :: "millis option \<Rightarrow> frame_result \<Rightarrow> 'c frame_input" where
  "end_input delay fr = \<lparr>fi_pre = [], fi_delay = delay, fi_frame = fr, fi_send_env = []\<rparr>"

definition pump_heap :: "bytes list \<Rightarrow> fifo heap" where
  "pump_heap q = \<lparr>cells = (\<lambda>_. \<lparr>chan = \<lparr>queue = q, capacity = 2, senders = 1, receiver = True\<rparr>, rx_refs = 1,
     rx_locked = False, terminal_error = None, cancel_calls = 0\<rparr>), next_cell = 1, clock = 0\<rparr>"

definition pump_writer :: body_writer where
  "pump_writer = \<lparr>wr_cell = 0, drain_timeout = 5, wr_sending = None\<rparr>"

lemmas pump_demo_defs = data_input_def end_input_def pump_heap_def pump_writer_def pump_start_def timed_frame_def
  writer_send_chunk_def fifo_try_send_def sat_add_def exceeds_def usize_max_def Let_def

theorem pump_respects_limit_witness:
  "\<exists>st H'. pump_hyper_body_to_channel_limited fifo_ops pump_writer (Some 3) 5
      [data_input [1, 2], data_input [3, 4], data_input [5], end_input (Some 1) FrEnd] (pump_start True) (pump_heap [])
      = (PumpLeft, st, H')
    \<and> pm_sent st = [[1, 2]] \<and> pm_fired st = 1 \<and> bytes_of (pm_sent st) \<le> 3"
proof -
  obtain st H' where r: "pump_hyper_body_to_channel_limited fifo_ops pump_writer (Some 3) 5
      [data_input [1, 2], data_input [3, 4], data_input [5], end_input (Some 1) FrEnd] (pump_start True) (pump_heap [])
      = (PumpLeft, st, H')" "pm_sent st = [[1, 2]]" "pm_overflowed st"
    by (simp add: pump_demo_defs)
  show ?thesis using pump_respects_limit [OF r(1)] r by (simp add: usize_max_def)
qed

text \<open>A pump that leaves its loop tells the reader why: the terminal error is the size violation
  if the limit was passed, else the classification of the body's error (too large exactly if a length
  limit is in its source chain), and none after a complete body.  There is one exception to the first
  clause: an elapsed frame timer is always reported as a timeout, even after the limit was passed.\<close>

theorem pump_reports_how_it_ended:
  assumes "pump_hyper_body_to_channel_limited ops w mb ft xs (pump_start tx) H = (PumpLeft, st, H')"
    and "quiet_inputs (wr_cell w) xs" and "terminal_error (cells H (wr_cell w)) = None"
  shows "(case first_end ft xs of
      Some None \<Rightarrow> map_option code (terminal_error (cells H' (wr_cell w))) = Some Timeout
    | Some (Some fr) \<Rightarrow> if pm_overflowed st then terminal_error (cells H' (wr_cell w)) = Some (limit_error (the mb))
        else (case fr of
            FrErr e \<Rightarrow> map_option code (terminal_error (cells H' (wr_cell w)))
              = Some (if LengthLimitError \<in> set (se_chain e) then BodyTooLarge else Internal)
          | _ \<Rightarrow> terminal_error (cells H' (wr_cell w)) = None)
    | None \<Rightarrow> False)"
proof -
  obtain e where "first_end ft xs = Some e"
    "terminal_error (cells H' (wr_cell w)) = pump_verdict mb (pm_overflowed st) e"
    using pump_left_verdict [OF assms(1,2)] assms(3) by (auto simp: pump_start_def)
  then show ?thesis
    by (simp add: pump_verdict_def frame_error_def is_length_limit_error_def
        chain_has_length_limit_iff core_error_defs split: option.split frame_result.split)
qed

theorem pump_reports_how_it_ended_witness:
  "\<exists>st H'. pump_hyper_body_to_channel_limited fifo_ops pump_writer (Some 3) 5
      [data_input [1, 2, 3, 4], end_input None FrEnd] (pump_start True) (pump_heap []) = (PumpLeft, st, H')
    \<and> pm_overflowed st \<and> map_option code (terminal_error (cells H' 0)) = Some Timeout"
proof -
  obtain st H' where r: "pump_hyper_body_to_channel_limited fifo_ops pump_writer (Some 3) 5
      [data_input [1, 2, 3, 4], end_input None FrEnd] (pump_start True) (pump_heap []) = (PumpLeft, st, H')"
    "pm_overflowed st"
    by (simp add: pump_demo_defs)
  have "first_end 5 [data_input [1, 2, 3, 4], end_input None FrEnd] = Some None" by (simp add: pump_demo_defs)
  then show ?thesis
    using pump_reports_how_it_ended [OF r(1)] r by (simp add: pump_demo_defs quiet_inputs_def)
qed

text \<open>A slow reader sees a truncated body as complete: when the channel stays full for the drain
  timeout, the pump drops the writer without a terminal error although the body has more data, so the
  reader, which is still there, gets the queued chunks and then a clean end.\<close>

theorem slow_reader_sees_clean_end:
  assumes "length q = 2" and "5 \<le> dt" and "\<not> exceeds mb (sat_add 0 (length d))"
  shows "\<exists>st H'. pump_hyper_body_to_channel_limited fifo_ops pump_writer mb 5
      [(data_input d)\<lparr>fi_send_env := [\<lambda>H. H\<lparr>clock := clock H + dt\<rparr>]\<rparr>, end_input (Some 0) FrEnd]
      (pump_start tx) (pump_heap q) = (PumpSendFailed, st, H')
    \<and> pm_sent st = [] \<and> terminal_error (cells H' 0) = None
    \<and> chan (cells H' 0) = \<lparr>queue = q, capacity = 2, senders = 0, receiver = True\<rparr>"
  using assms
  by (simp add: data_input_def end_input_def pump_heap_def pump_writer_def pump_start_def timed_frame_def
      writer_send_chunk_def fifo_try_send_def Let_def send_timeout_def send_poll_def writer_drop_def tx_drop_def
      upd_cell_def)

theorem slow_reader_sees_clean_end_witness:
  "\<exists>st H'. pump_hyper_body_to_channel_limited fifo_ops pump_writer None 5
      [(data_input [9])\<lparr>fi_send_env := [\<lambda>H. H\<lparr>clock := clock H + 7\<rparr>]\<rparr>, end_input (Some 0) FrEnd]
      (pump_start False) (pump_heap [[1], [2]]) = (PumpSendFailed, st, H')
    \<and> terminal_error (cells H' 0) = None"
proof -
  have "\<not> exceeds None (sat_add 0 (length ([9] :: bytes)))" by (simp add: exceeds_def)
  from slow_reader_sees_clean_end [OF _ _ this, of "[[1], [2]]" 7 False] show ?thesis
    by (simp del: pump_hyper_body_to_channel_limited.simps) blast
qed

end
