(* ===== verification/Ffi_Types.thy ===== *)
theory Ffi_Types
  imports Handle_Guard Std_Net
begin

text \<open>
  Requests, responses and the records of \<^verbatim>\<open>src/crates/iroh-http-core/src/ffi/types.rs\<close> that cross the
  foreign boundary.  The checks of the HTTP library on methods, header names, header values and status
  codes, and the debug rendering of strings, are parameters (\<open>http_lib\<close>).  Header names of received
  messages are the library's lower-case names; the comparisons of the source ignore case all the same.
\<close>

record http_lib =
  method_valid :: "string \<Rightarrow> bool"
  name_valid :: "string \<Rightarrow> bool"
  value_valid :: "string \<Rightarrow> bool"
  status_valid :: "u16 \<Rightarrow> bool"
  header_to_str :: "bytes \<Rightarrow> string option"
  debug_str :: "string \<Rightarrow> string"

record ffi_response =
  fr_status :: u16
  fr_headers :: "(string \<times> string) list"
  fr_body_handle :: u64
  fr_url :: string

record request_payload =
  rp_req_handle :: u64
  rp_req_body_handle :: u64
  rp_res_body_handle :: u64
  rp_method :: string
  rp_url :: string
  rp_headers :: "(string \<times> string) list"
  rp_remote_node_id :: string
  rp_is_bidi :: bool

record ffi_duplex_stream =
  read_handle :: u64
  write_handle :: u64

text \<open>\<open>eq_ignore_ascii_case\<close> and \<open>to_ascii_lowercase\<close>.\<close>

definition ascii_lower_char :: "char \<Rightarrow> char" where
  "ascii_lower_char c = (let n = of_char c :: nat in if 65 \<le> n \<and> n \<le> 90 then char_of (n + 32) else c)"

definition to_ascii_lowercase :: "string \<Rightarrow> string" where
  "to_ascii_lowercase s = map ascii_lower_char s"

definition eq_ignore_ascii_case :: "string \<Rightarrow> string \<Rightarrow> bool" where
  "eq_ignore_ascii_case a b \<longleftrightarrow> to_ascii_lowercase a = to_ascii_lowercase b"

text \<open>\<open>u64::from_str\<close>, as \<open>parse_u32\<close>.\<close>

definition parse_u64 :: "string \<Rightarrow> int option" where
  "parse_u64 cs = (let ds = (case cs of [] \<Rightarrow> [] | c # r \<Rightarrow> if c = CHR ''+'' then r else cs)
     in parse_all (read_number 10 None True (2 ^ 64)) ds)"

text \<open>The bytes a header takes: name, value and four separators, summed with saturation.\<close>

definition header_cost :: "(string \<times> bytes) \<Rightarrow> nat" where
  "header_cost kv = sat_add (sat_add (length (fst kv)) (length (snd kv))) 4"

definition sum_saturating :: "nat \<Rightarrow> nat list \<Rightarrow> nat" where
  "sum_saturating n xs = foldl sat_add n xs"

lemma sum_saturating_simps [simp]:
  "sum_saturating n [] = n" "sum_saturating n (x # xs) = sum_saturating (sat_add n x) xs"
  by (simp_all add: sum_saturating_def)

lemma sum_saturating_exact: "n \<le> usize_max \<Longrightarrow> sum_saturating n xs = min usize_max (n + sum_list xs)"
  by (induction xs arbitrary: n) (auto simp: sat_add_def)

text \<open>A header list without the name \<open>peer-id\<close>, as strings; \<open>None\<close> if a value is no string.\<close>

fun header_strings :: "http_lib \<Rightarrow> (string \<times> bytes) list \<Rightarrow> (string \<times> string) list option" where
  "header_strings lib [] = Some []"
| "header_strings lib ((k, v) # hs) = (case header_to_str lib v of
     None \<Rightarrow> None
   | Some t \<Rightarrow> map_option (Cons (k, t)) (header_strings lib hs))"

lemma header_strings_names: "header_strings lib hs = Some ts \<Longrightarrow> map fst ts = map fst hs"
  by (induction hs arbitrary: ts) (auto split: option.splits)

lemma header_strings_None: "header_strings lib hs = None \<longleftrightarrow> (\<exists>(k, v) \<in> set hs. header_to_str lib v = None)"
  by (induction hs) (auto split: option.splits)

end
