(* ===== verification/Ffi_Dispatch.thy ===== *)
theory Ffi_Dispatch
  imports Ffi_Types Handle_Streams
begin

text \<open>
  \<^verbatim>\<open>src/crates/iroh-http-core/src/ffi/dispatcher.rs\<close>: a request is registered in the handle store and
  announced to the foreign callback; the handler answers with \<open>respond\<close>, and the waiting dispatch call
  builds the response.

  The state adds to the store the response heads sent so far, the dropped head receivers, the
  announced payloads and the spawned request-body pumps.  A head receiver learns that its sender is gone
  when the sender is no longer registered and nothing was sent.
\<close>

section \<open>State\<close>

record response_head =
  rh_status :: u16
  rh_headers :: "(string \<times> string) list"

datatype resp_body = EmptyBody | FullBody string | ReaderBody body_reader

record http_response =
  rs_status :: u16
  rs_headers :: "(string \<times> string) list"
  rs_body :: resp_body

record incoming_request =
  ir_method :: string
  ir_uri :: string
  ir_path_and_query :: "string option"
  ir_headers :: "(string \<times> bytes) list"
  ir_body :: nat
  ir_remote :: "string option" \<comment> \<open>the extension set by the connection\<close>

record ffi_dispatcher =
  fd_own_node_id :: string
  fd_max_header_size :: "nat option"
  fd_max_request_body_wire_bytes :: "nat option"

record 'c disp_sys =
  dsp_store :: "'c store"
  dsp_heads :: "(nat \<times> response_head) list"
  dsp_dead_rx :: "nat list"
  dsp_next :: nat
  dsp_callbacks :: "request_payload list"
  dsp_pumps :: "(nat \<times> body_writer) list"

definition on_store :: "('c store \<Rightarrow> 'c store) \<Rightarrow> 'c disp_sys \<Rightarrow> 'c disp_sys" where
  "on_store f d = d\<lparr>dsp_store := f (dsp_store d)\<rparr>"

definition internal_error :: "string \<Rightarrow> http_response" where
  "internal_error detail = \<lparr>rs_status = 500, rs_headers = [], rs_body = FullBody detail\<rparr>"

definition service_unavailable :: "string \<Rightarrow> http_response" where
  "service_unavailable detail = \<lparr>rs_status = 503, rs_headers = [], rs_body = FullBody detail\<rparr>"

section \<open>Answering\<close>

fun check_response_headers :: "http_lib \<Rightarrow> (string \<times> string) list \<Rightarrow> core_error option" where
  "check_response_headers lib [] = None"
| "check_response_headers lib ((n, v) # hs) =
     (if \<not> name_valid lib n then Some (invalid_input (''invalid response header name '' @ debug_str lib n))
      else if \<not> value_valid lib v then Some (invalid_input (''invalid response header value for '' @ debug_str lib n))
      else check_response_headers lib hs)"

definition respond :: "http_lib \<Rightarrow> u64 \<Rightarrow> u16 \<Rightarrow> (string \<times> string) list \<Rightarrow> 'c disp_sys
    \<Rightarrow> (core_error + unit) \<times> 'c disp_sys" where
  "respond lib req_handle status headers d =
     (if \<not> status_valid lib status
      then (Inl (invalid_input (''invalid HTTP status code: '' @ show_nat (unat status))), d)
      else (case check_response_headers lib headers of
          Some e \<Rightarrow> (Inl e, d)
        | None \<Rightarrow> (case take_req_sender req_handle (dsp_store d) of
             (None, _) \<Rightarrow> (Inl (invalid_handle req_handle), d)
           | (Some sid, s) \<Rightarrow>
               if sid \<in> set (dsp_dead_rx d)
               then (Inl (internal ''serve task dropped before respond''), d\<lparr>dsp_store := s\<rparr>)
               else (Inr (), d\<lparr>dsp_store := s,
                  dsp_heads := (sid, \<lparr>rh_status = status, rh_headers = headers\<rparr>) # dsp_heads d\<rparr>))))"

section \<open>Dispatching\<close>

definition is_peer_id :: "(string \<times> 'v) \<Rightarrow> bool" where
  "is_peer_id kv \<longleftrightarrow> eq_ignore_ascii_case (fst kv) ''peer-id''"

definition request_header_bytes :: "string \<Rightarrow> incoming_request \<Rightarrow> nat" where
  "request_header_bytes remote req =
     sum_saturating (sum_saturating 0 (map header_cost (filter (\<lambda>kv. \<not> is_peer_id kv) (ir_headers req))))
       [length ''peer-id'', length remote, 4, length (ir_uri req), length (ir_method req), 12]"

definition content_length_exceeds :: "http_lib \<Rightarrow> nat \<Rightarrow> incoming_request \<Rightarrow> bool" where
  "content_length_exceeds lib limit req = (case map_of (ir_headers req) ''content-length'' of
       None \<Rightarrow> False
     | Some v \<Rightarrow> (case Option.bind (header_to_str lib v) parse_u64 of
          None \<Rightarrow> False
        | Some n \<Rightarrow> int limit < n))"

text \<open>The checks before anything is allocated, in order; the headers for the payload otherwise.\<close>

definition check_request :: "http_lib \<Rightarrow> ffi_dispatcher \<Rightarrow> string \<Rightarrow> incoming_request
    \<Rightarrow> http_response + (string \<times> string) list" where
  "check_request lib fd remote req =
     (if (case fd_max_header_size fd of None \<Rightarrow> False | Some limit \<Rightarrow> limit < request_header_bytes remote req)
      then Inl \<lparr>rs_status = 431, rs_headers = [], rs_body = EmptyBody\<rparr>
      else (case header_strings lib (filter (\<lambda>kv. \<not> is_peer_id kv) (ir_headers req)) of
          None \<Rightarrow> Inl \<lparr>rs_status = 400, rs_headers = [], rs_body = FullBody ''non-UTF8 header value''\<rparr>
        | Some hs \<Rightarrow>
            if (case fd_max_request_body_wire_bytes fd of None \<Rightarrow> False | Some limit \<Rightarrow> content_length_exceeds lib limit req)
            then Inl \<lparr>rs_status = 413, rs_headers = [], rs_body = EmptyBody\<rparr>
            else Inr (hs @ [(''peer-id'', remote)])))"

text \<open>A dispatch call that waits for its head.\<close>

record waiting =
  wt_req :: u64
  wt_head :: nat
  wt_reader :: body_reader

definition TABLE_FULL :: string where "TABLE_FULL = ''server handle table full''"

text \<open>Registration.  A refusal drops the ends still held and then the guard; \<open>None\<close> is the panic of the
  channel constructor.\<close>

definition register_request :: "slot_lib \<Rightarrow> 'c mpsc_ops \<Rightarrow> nat \<Rightarrow> 'c store
    \<Rightarrow> ((unit + (u64 \<times> u64 \<times> u64 \<times> body_writer \<times> body_reader)) \<times> 'c store) option" where
  "register_request L ops head s =
     (case store_make_body_channel ops s of None \<Rightarrow> None | Some (req_w, req_r, s1) \<Rightarrow>
       (case guard_insert_reader L ops req_r (guard_new, s1) of
          (Inl _, g, s2) \<Rightarrow> Some (Inl (), guard_drop ops g (on_mem (writer_drop ops req_w) s2))
        | (Inr hq, g, s2) \<Rightarrow>
          (case store_make_body_channel ops s2 of None \<Rightarrow> None | Some (res_w, res_r, s3) \<Rightarrow>
            (case guard_insert_writer L ops res_w (g, s3) of
               (Inl _, g, s4) \<Rightarrow> Some (Inl (), guard_drop ops g
                  (on_mem (writer_drop ops req_w) (on_mem (reader_drop ops res_r) s4)))
             | (Inr hs, g, s4) \<Rightarrow>
               (case guard_allocate_req_handle L head (g, s4) of
                  (Inl _, g, s5) \<Rightarrow> Some (Inl (), guard_drop ops g
                     (on_mem (writer_drop ops req_w) (on_mem (reader_drop ops res_r) s5)))
                | (Inr hh, g, s5) \<Rightarrow> Some (Inr (hq, hs, hh, req_w, res_r), guard_drop ops (guard_commit g) s5))))))"

definition dispatch_begin :: "http_lib \<Rightarrow> slot_lib \<Rightarrow> 'c mpsc_ops \<Rightarrow> ffi_dispatcher \<Rightarrow> incoming_request \<Rightarrow> string
    \<Rightarrow> 'c disp_sys \<Rightarrow> ((http_response + waiting) \<times> 'c disp_sys) option" where
  "dispatch_begin lib L ops fd req remote d = (case check_request lib fd remote req of
       Inl resp \<Rightarrow> Some (Inl resp, d)
     | Inr hs \<Rightarrow> (let head = dsp_next d; d1 = d\<lparr>dsp_next := Suc head\<rparr> in
        case register_request L ops head (dsp_store d) of
          None \<Rightarrow> None
        | Some (Inl _, s) \<Rightarrow> Some (Inl (service_unavailable TABLE_FULL), d1\<lparr>dsp_store := s\<rparr>)
        | Some (Inr (hq, hr, hh, req_w, res_r), s) \<Rightarrow>
            Some (Inr \<lparr>wt_req = hh, wt_head = head, wt_reader = res_r\<rparr>,
              d1\<lparr>dsp_store := s, dsp_pumps := (ir_body req, req_w) # dsp_pumps d,
                dsp_callbacks := dsp_callbacks d @ [\<lparr>rp_req_handle = hh, rp_req_body_handle = hq,
                   rp_res_body_handle = hr, rp_method = ir_method req,
                   rp_url = ''httpi://'' @ fd_own_node_id fd @ (case ir_path_and_query req of None \<Rightarrow> ''/'' | Some p \<Rightarrow> p),
                   rp_headers = hs, rp_remote_node_id = remote, rp_is_bidi = False\<rparr>]\<rparr>)))"

text \<open>Polling the head receiver.\<close>

definition head_sender_alive :: "nat \<Rightarrow> 'c store \<Rightarrow> bool" where
  "head_sender_alive sid s \<longleftrightarrow> list_ex (\<lambda>(_, e). timed_value e = sid) (slots (request_heads s))"

definition head_poll :: "nat \<Rightarrow> unit \<Rightarrow> 'c disp_sys \<Rightarrow> response_head option poll \<times> unit \<times> 'c disp_sys" where
  "head_poll sid l d = ((case map_of (dsp_heads d) sid of
       Some h \<Rightarrow> Ready (Some h)
     | None \<Rightarrow> if head_sender_alive sid (dsp_store d) then Pending else Ready None), l, d)"

text \<open>\<open>ReqHeadGuard::drop\<close> and the end of the receiver.\<close>

definition req_head_guard_drop :: "waiting \<Rightarrow> 'c disp_sys \<Rightarrow> 'c disp_sys" where
  "req_head_guard_drop w d = d\<lparr>dsp_store := snd (take_req_sender (wt_req w) (dsp_store d)),
     dsp_dead_rx := wt_head w # dsp_dead_rx d\<rparr>"

definition head_builds :: "http_lib \<Rightarrow> response_head \<Rightarrow> bool" where
  "head_builds lib h \<longleftrightarrow> status_valid lib (rh_status h)
     \<and> list_all (\<lambda>(n, v). name_valid lib n \<and> value_valid lib v) (rh_headers h)"

definition dispatch_finish :: "http_lib \<Rightarrow> 'c mpsc_ops \<Rightarrow> waiting \<Rightarrow> response_head option \<Rightarrow> 'c disp_sys
    \<Rightarrow> http_response \<times> 'c disp_sys" where
  "dispatch_finish lib ops w r d =
     (let dropped = on_store (on_mem (reader_drop ops (wt_reader w))) d in
      case r of
        None \<Rightarrow> (internal_error ''JS handler dropped without responding'', req_head_guard_drop w dropped)
      | Some h \<Rightarrow> if head_builds lib h
          then (\<lparr>rs_status = rh_status h, rs_headers = rh_headers h, rs_body = ReaderBody (wt_reader w)\<rparr>,
                req_head_guard_drop w d)
          else (internal_error ''failed to build response head from JS'', req_head_guard_drop w dropped))"

text \<open>The whole call, with the steps of other tasks while it waits for the head.\<close>

definition dispatch :: "http_lib \<Rightarrow> slot_lib \<Rightarrow> 'c mpsc_ops \<Rightarrow> ffi_dispatcher \<Rightarrow> incoming_request
    \<Rightarrow> ('c disp_sys \<Rightarrow> 'c disp_sys) list \<Rightarrow> string \<Rightarrow> 'c disp_sys \<Rightarrow> (http_response option \<times> 'c disp_sys) option" where
  "dispatch lib L ops fd req env remote d = (case dispatch_begin lib L ops fd req remote d of
       None \<Rightarrow> None
     | Some (Inl resp, d1) \<Rightarrow> Some (Some resp, d1)
     | Some (Inr w, d1) \<Rightarrow> (case await_fut (head_poll (wt_head w)) env () d1 of
          (None, _, d2) \<Rightarrow> Some (None, d2)
        | (Some r, _, d2) \<Rightarrow> (case dispatch_finish lib ops w r d2 of (resp, d3) \<Rightarrow> Some (Some resp, d3))))"

text \<open>\<open>Service::call\<close>: the peer comes from the connection's extension.\<close>

definition service_call :: "http_lib \<Rightarrow> slot_lib \<Rightarrow> 'c mpsc_ops \<Rightarrow> ffi_dispatcher \<Rightarrow> incoming_request
    \<Rightarrow> ('c disp_sys \<Rightarrow> 'c disp_sys) list \<Rightarrow> 'c disp_sys \<Rightarrow> (http_response option \<times> 'c disp_sys) option" where
  "service_call lib L ops fd req env d =
     dispatch lib L ops fd req env (case ir_remote req of None \<Rightarrow> [] | Some r \<Rightarrow> r) d"

text \<open>Dropping the future of a waiting call.\<close>

definition dispatch_dropped :: "'c mpsc_ops \<Rightarrow> waiting \<Rightarrow> 'c disp_sys \<Rightarrow> 'c disp_sys" where
  "dispatch_dropped ops w d = req_head_guard_drop w (on_store (on_mem (reader_drop ops (wt_reader w))) d)"

definition dispatcher_of :: "string \<Rightarrow> nat \<Rightarrow> nat option \<Rightarrow> ffi_dispatcher" where
  "dispatcher_of own max_header_size wire = \<lparr>fd_own_node_id = own,
     fd_max_header_size = (if max_header_size = 0 then None else Some max_header_size),
     fd_max_request_body_wire_bytes = wire\<rparr>"

section \<open>Registration is all or nothing\<close>

lemma make_channel_view:
  assumes "store_make_body_channel ops s = Some (w, r, s')"
  shows "masked_view T s' = masked_view T s" "guard_room L n s' = guard_room L n s"
    "request_heads s' = request_heads s" "readers s' = readers s" "writers s' = writers s"
  using assms
  by (auto simp: store_make_body_channel_def masked_view_def guard_room_def split: option.splits)

lemma guard_drop_uncommitted:
  assumes "masked_view (set (tracked g)) s' = masked_view {} s" "\<not> committed g"
  shows "handle_view (guard_drop ops g s') = handle_view s"
  using assms by (simp add: guard_drop_def fold_rollback_view) (simp add: masked_view_def handle_view_def)

lemma register_refused:
  assumes "register_request L ops head s = Some (Inl u, s')" "guard_room L 3 s"
  shows "handle_view s' = handle_view s"
proof -
  obtain qw qr s1 where c1: "store_make_body_channel ops s = Some (qw, qr, s1)"
    using assms(1) by (auto simp: register_request_def split: option.splits)
  note v1 = make_channel_view [OF c1]
  have r1: "guard_room L (Suc 2) s1" using assms(2) v1(2) by (simp add: numeral_3_eq_3 numeral_2_eq_2)
  obtain x1 g1 s2 where i1: "guard_step L ops (GuardReader qr) (guard_new, s1) = (x1, g1, s2)" by (metis prod_cases3)
  note v2 = guard_step_view [OF r1 i1]
  have g1: "masked_view (set (tracked g1)) s2 = masked_view {} s" "\<not> committed g1"
    using v2 v1(1) by (simp_all add: guard_new_def)
  show ?thesis
  proof (cases x1)
    case (Inl e)
    then have "s' = guard_drop ops g1 (on_mem (writer_drop ops qw) s2)"
      using assms(1) c1 i1 by (simp add: register_request_def)
    then show ?thesis using g1 by (simp add: guard_drop_uncommitted [where s = s])
  next
    case (Inr hq)
    obtain rw rr s3 where c2: "store_make_body_channel ops s2 = Some (rw, rr, s3)"
      using assms(1) c1 i1 Inr by (auto simp: register_request_def split: option.splits)
    note v3 = make_channel_view [OF c2]
    have r3: "guard_room L (Suc 1) s3" using v2 v3(2) by (simp add: numeral_2_eq_2)
    obtain x2 g2 s4 where i2: "guard_step L ops (GuardWriter rw) (g1, s3) = (x2, g2, s4)" by (metis prod_cases3)
    note v4 = guard_step_view [OF r3 i2]
    have g2: "masked_view (set (tracked g2)) s4 = masked_view {} s" "\<not> committed g2"
      using v4 v3(1) g1 by simp_all
    show ?thesis
    proof (cases x2)
      case (Inl e)
      then have "s' = guard_drop ops g2 (on_mem (writer_drop ops qw) (on_mem (reader_drop ops rr) s4))"
        using assms(1) c1 i1 Inr c2 i2 by (simp add: register_request_def)
      then show ?thesis using g2 by (simp add: guard_drop_uncommitted [where s = s])
    next
      case hs: (Inr hs)
      obtain x3 g3 s5 where i3: "guard_step L ops (GuardReqHead head) (g2, s4) = (x3, g3, s5)" by (metis prod_cases3)
      have "masked_view (set (tracked g3)) s5 = masked_view {} s" "\<not> committed g3"
        using guard_step_view [of L 0 s4, OF _ i3] v4 g2 by simp_all
      moreover have "s' = guard_drop ops g3 (on_mem (writer_drop ops qw) (on_mem (reader_drop ops rr) s5))"
        using assms(1) c1 i1 Inr c2 i2 hs i3 by (auto simp: register_request_def split: sum.splits)
      ultimately show ?thesis by (simp add: guard_drop_uncommitted [where s = s])
    qed
  qed
qed

text \<open>A successful registration issues three handles that resolve to the new ends and to the head sender.\<close>

lemma register_ok:
  assumes "register_request L ops head s = Some (Inr (hq, hr, hh, qw, rr), s')"
  shows "\<exists>t. slot_get hh (request_heads s') = Some (timed_new t head)"
    and "\<exists>t. slot_get hr (writers s') = Some (timed_new t \<lparr>wr_cell = rd_cell rr,
        drain_timeout = cfg_drain_timeout (config s'), wr_sending = None\<rparr>)"
    and "\<exists>t. slot_get hq (readers s') = Some (timed_new t \<lparr>rd_cell = wr_cell qw, rd_pending = None\<rparr>)"
  using assms
  by (auto simp: register_request_def guard_drop_def guard_commit_def store_make_body_channel_def
      make_body_channel_with_def guard_insert_reader_def insert_reader_def guard_insert_writer_def insert_writer_def
      guard_allocate_req_handle_def allocate_req_handle_def insert_checked_cases slot_get_insert Let_def
      split: option.splits prod.splits sum.splits if_splits)

lemma check_request_Inl:
  "check_request lib fd remote req = Inl resp \<Longrightarrow> rs_status resp \<in> {431, 400, 413}"
  by (auto simp: check_request_def split: option.splits if_splits)

lemma check_request_Inr:
  "check_request lib fd remote req = Inr hs \<Longrightarrow>
     \<exists>ts. header_strings lib (filter (\<lambda>kv. \<not> is_peer_id kv) (ir_headers req)) = Some ts \<and> hs = ts @ [(''peer-id'', remote)]"
  by (auto simp: check_request_def split: option.splits if_splits)

section \<open>Fresh heads\<close>

text \<open>The numbers of head channels in use are below the next one.\<close>

definition head_ids :: "'c store \<Rightarrow> nat set" where
  "head_ids s = (\<lambda>e. timed_value (snd e)) ` set (slots (request_heads s))"

definition disp_ok :: "'c disp_sys \<Rightarrow> bool" where
  "disp_ok d \<longleftrightarrow> fst ` set (dsp_heads d) \<subseteq> {..<dsp_next d} \<and> set (dsp_dead_rx d) \<subseteq> {..<dsp_next d}
     \<and> head_ids (dsp_store d) \<subseteq> {..<dsp_next d}"

text \<open>Operations of other components on the store: they allocate no request head.\<close>

definition no_new_heads :: "'c store \<Rightarrow> 'c store \<Rightarrow> bool" where
  "no_new_heads s s' \<longleftrightarrow> head_ids s' \<subseteq> head_ids s"

inductive disp_reachable :: "http_lib \<Rightarrow> slot_lib \<Rightarrow> 'c mpsc_ops \<Rightarrow> 'c disp_sys \<Rightarrow> bool" for lib L ops where
  dr_start: "slots (request_heads s) = [] \<Longrightarrow> disp_reachable lib L ops \<lparr>dsp_store = s, dsp_heads = [],
     dsp_dead_rx = [], dsp_next = 0, dsp_callbacks = [], dsp_pumps = []\<rparr>"
| dr_begin: "disp_reachable lib L ops d \<Longrightarrow> dispatch_begin lib L ops fd req remote d = Some (x, d')
     \<Longrightarrow> disp_reachable lib L ops d'"
| dr_respond: "disp_reachable lib L ops d \<Longrightarrow> disp_reachable lib L ops (snd (respond lib h status hs d))"
| dr_finish: "disp_reachable lib L ops d \<Longrightarrow> wt_head w < dsp_next d
     \<Longrightarrow> disp_reachable lib L ops (snd (dispatch_finish lib ops w r d))"
| dr_dropped: "disp_reachable lib L ops d \<Longrightarrow> wt_head w < dsp_next d
     \<Longrightarrow> disp_reachable lib L ops (dispatch_dropped ops w d)"
| dr_store: "disp_reachable lib L ops d \<Longrightarrow> no_new_heads (dsp_store d) s
     \<Longrightarrow> disp_reachable lib L ops (d\<lparr>dsp_store := s\<rparr>)"

lemma take_req_no_new: "no_new_heads s (snd (take_req_sender h s))"
  by (auto simp: no_new_heads_def head_ids_def take_req_sender_def slot_remove_def al_del_def split: option.splits)

lemma head_ids_on_mem [simp]: "head_ids (on_mem f s) = head_ids s"
  by (simp add: head_ids_def)

lemma head_id_registered: "slot_get h (request_heads s) = Some e \<Longrightarrow> timed_value e \<in> head_ids s"
  by (force simp: head_ids_def slot_get_def dest: map_of_SomeD)

lemma disp_ok_respond:
  assumes "disp_ok d"
  shows "disp_ok (snd (respond lib h status hs d))"
  using assms take_req_no_new [of "dsp_store d" h] head_id_registered [of h "dsp_store d"]
  by (auto simp: respond_def take_req_sender_def slot_remove_def disp_ok_def no_new_heads_def split: option.splits)

lemma disp_ok_guard:
  assumes "disp_ok d" "wt_head w < dsp_next d"
  shows "disp_ok (req_head_guard_drop w d)"
  using assms take_req_no_new [of "dsp_store d" "wt_req w"]
  by (auto simp: req_head_guard_drop_def disp_ok_def no_new_heads_def)

lemma disp_ok_on_mem: "disp_ok (on_store (on_mem f) d) = disp_ok d"
  by (simp add: disp_ok_def on_store_def)

lemma rollback_heads: "head_ids (rollback ops x s) \<subseteq> head_ids s"
  by (cases x) (auto simp: cancel_reader_def finish_body_def head_ids_def slot_remove_def al_del_def
      split: option.splits)

lemma guard_drop_heads: "head_ids (guard_drop ops g s) \<subseteq> head_ids s"
proof -
  have "head_ids (fold (rollback ops) ts s) \<subseteq> head_ids s" for ts
  proof (induction ts arbitrary: s)
    case (Cons a ts)
    then show ?case using rollback_heads [of ops a s] by fastforce
  qed simp
  then show ?thesis by (simp add: guard_drop_def)
qed

lemma head_ids_cong: "request_heads s' = request_heads s \<Longrightarrow> head_ids s' = head_ids s"
  by (simp add: head_ids_def)

lemma guard_inserts_heads:
  "guard_insert_reader L ops r (g, s) = (x, g', s') \<Longrightarrow> head_ids s' = head_ids s"
  "guard_insert_writer L ops w (g, s) = (x, g', s') \<Longrightarrow> head_ids s' = head_ids s"
  "store_make_body_channel ops s = Some (cw, cr, s') \<Longrightarrow> head_ids s' = head_ids s"
  by (auto simp: guard_insert_reader_def insert_reader_def guard_insert_writer_def insert_writer_def
      insert_checked_cases store_make_body_channel_def split: if_splits option.splits intro!: head_ids_cong)

lemma guard_allocate_heads:
  "guard_allocate_req_handle L n (g, s) = (x, g', s') \<Longrightarrow> head_ids s' \<subseteq> insert n (head_ids s)"
  by (force simp: guard_allocate_req_handle_def allocate_req_handle_def insert_checked_cases slot_insert_def
      timed_new_def head_ids_def Let_def split: if_splits)

lemma register_heads:
  assumes "register_request L ops head s = Some (x, s')"
  shows "head_ids s' \<subseteq> insert head (head_ids s)"
  using assms
  by (auto simp: register_request_def split: option.splits prod.splits sum.splits
      dest!: guard_inserts_heads guard_allocate_heads subsetD [OF guard_drop_heads])

lemma disp_ok_begin:
  assumes "disp_ok d" "dispatch_begin lib L ops fd req remote d = Some (x, d')"
  shows "disp_ok d'"
proof -
  have "d' = d \<or> dsp_next d' = Suc (dsp_next d) \<and> dsp_heads d' = dsp_heads d \<and> dsp_dead_rx d' = dsp_dead_rx d
     \<and> (\<exists>y. register_request L ops (dsp_next d) (dsp_store d) = Some (y, dsp_store d'))"
    using assms(2) by (auto simp: dispatch_begin_def Let_def split: sum.splits option.splits)
  then show ?thesis
    using assms(1) register_heads by (fastforce simp: disp_ok_def less_Suc_eq)
qed

lemma disp_reachable_ok: "disp_reachable lib L ops d \<Longrightarrow> disp_ok d"
proof (induction rule: disp_reachable.induct)
  case (dr_start s)
  then show ?case by (simp add: disp_ok_def head_ids_def)
next
  case (dr_begin d fd req remote x d')
  then show ?case by (blast intro: disp_ok_begin)
next
  case (dr_respond d h status hs)
  then show ?case by (simp add: disp_ok_respond)
next
  case (dr_finish d w r)
  then show ?case
    by (auto simp: dispatch_finish_def disp_ok_guard disp_ok_on_mem on_store_def Let_def split: option.splits
        intro!: disp_ok_guard) (simp_all add: disp_ok_def)
next
  case (dr_dropped d w)
  then show ?case by (auto simp: dispatch_dropped_def disp_ok_on_mem on_store_def intro!: disp_ok_guard) (simp add: disp_ok_def)
next
  case (dr_store d s)
  then show ?case by (auto simp: disp_ok_def no_new_heads_def)
qed

end
