(* ===== verification/Dispatch_Props.thy ===== *)
theory Dispatch_Props
  imports Ffi_Dispatch Handle_Props
begin

text \<open>Properties of the request dispatcher: refused requests leave no trace, the announced identity is the
  connection's, and a request is answered exactly once.\<close>

section \<open>Refusals\<close>

lemma some_header_is_no_string:
  "header_strings lib (filter (\<lambda>kv. \<not> is_peer_id kv) hs) = None
     \<longleftrightarrow> (\<exists>(k, v) \<in> set hs. \<not> is_peer_id (k, v) \<and> header_to_str lib v = None)"
  by (auto simp: header_strings_None)

text \<open>Property C22.  A refused request leaves no trace: if a request is answered without reaching the foreign
  handler, the handler was not called, no pump was started, and every lookup of a reader, writer or
  request head gives what it gave before; the answer is 431 exactly if the accounted header bytes exceed
  the limit, else 400 exactly if a header value is no string, else 413 or (table full) 503.\<close>

theorem refused_requests_leave_no_trace:
  assumes "dispatch_begin lib L ops fd req remote d = Some (Inl resp, d')" and "guard_room L 3 (dsp_store d)"
  shows "handle_view (dsp_store d') = handle_view (dsp_store d) \<and> dsp_callbacks d' = dsp_callbacks d
    \<and> dsp_pumps d' = dsp_pumps d
    \<and> rs_status resp = (if \<exists>l. fd_max_header_size fd = Some l \<and> l < request_header_bytes remote req then 431
        else if \<exists>(k, v) \<in> set (ir_headers req). \<not> is_peer_id (k, v) \<and> header_to_str lib v = None then 400
        else if \<exists>l. fd_max_request_body_wire_bytes fd = Some l \<and> content_length_exceeds lib l req then 413
        else 503)"
proof (cases "check_request lib fd remote req")
  case (Inl r)
  then have "d' = d" "resp = r" using assms(1) by (simp_all add: dispatch_begin_def)
  then show ?thesis
    using Inl some_header_is_no_string [of lib "ir_headers req"] by (auto simp: check_request_def split: option.splits if_splits)
next
  case (Inr hs)
  then obtain s u where r: "register_request L ops (dsp_next d) (dsp_store d) = Some (Inl u, s)"
    and d': "dsp_store d' = s" "dsp_callbacks d' = dsp_callbacks d" "dsp_pumps d' = dsp_pumps d"
    and resp: "resp = service_unavailable TABLE_FULL"
    using assms(1) by (auto simp: dispatch_begin_def Let_def split: option.splits sum.splits)
  have "\<not> (\<exists>(k, v) \<in> set (ir_headers req). \<not> is_peer_id (k, v) \<and> header_to_str lib v = None)"
    unfolding some_header_is_no_string [symmetric] using check_request_Inr [OF Inr] by auto
  then show ?thesis
    using register_refused [OF r assms(2)] d' resp Inr
    by (auto simp: service_unavailable_def check_request_def split: option.splits if_splits)
qed

definition demo_http :: http_lib where
  "demo_http = \<lparr>method_valid = (\<lambda>m. m \<noteq> []), name_valid = (\<lambda>n. n \<noteq> []), value_valid = (\<lambda>v. CHR 0x0A \<notin> set v),
     status_valid = (\<lambda>s. 100 \<le> s \<and> s < 1000), header_to_str = (\<lambda>b. Some (map (\<lambda>x. char_of (unat x)) b)), debug_str = (\<lambda>s. s)\<rparr>"

definition demo_incoming :: incoming_request where
  "demo_incoming = \<lparr>ir_method = ''GET'', ir_uri = ''/a'', ir_path_and_query = Some ''/a'',
     ir_headers = [(''Peer-Id'', [120]), (''x'', [121])], ir_body = 7, ir_remote = Some ''alice''\<rparr>"

definition demo_dispatch :: "nat \<Rightarrow> fifo disp_sys" where
  "demo_dispatch cap = \<lparr>dsp_store = store_new (demo_config\<lparr>max_handles := cap\<rparr>) demo_heap, dsp_heads = [],
     dsp_dead_rx = [], dsp_next = 0, dsp_callbacks = [], dsp_pumps = []\<rparr>"

lemma demo_checked:
  "check_request demo_http (dispatcher_of ''me'' 0 None) ''alice'' demo_incoming = Inr [(''x'', ''y''), (''peer-id'', ''alice'')]"
  by code_simp

lemmas demo_dispatch_defs = demo_dispatch_def demo_defs demo_checked
  dispatch_begin_def register_request_def store_make_body_channel_def make_body_channel_with_def
  guard_insert_reader_def insert_reader_def guard_insert_writer_def insert_writer_def guard_allocate_req_handle_def
  allocate_req_handle_def insert_checked_cases guard_new_def guard_drop_def guard_commit_def Let_def

theorem refused_requests_leave_no_trace_witness:
  "\<exists>d'. dispatch_begin demo_http counting_lib fifo_ops (dispatcher_of ''me'' 0 None) demo_incoming ''alice'' (demo_dispatch 0)
       = Some (Inl (service_unavailable TABLE_FULL), d')
     \<and> handle_view (dsp_store d') = handle_view (dsp_store (demo_dispatch 0)) \<and> dsp_callbacks d' = []"
proof -
  obtain d' where r: "dispatch_begin demo_http counting_lib fifo_ops (dispatcher_of ''me'' 0 None) demo_incoming ''alice''
      (demo_dispatch 0) = Some (Inl (service_unavailable TABLE_FULL), d')"
    by (simp add: demo_dispatch_defs)
  have "guard_room counting_lib 3 (dsp_store (demo_dispatch 0))"
    by (simp add: demo_dispatch_def guard_room_def store_new_def slot_inv_new counting_lib_ok slot_version_limit_def)
  from refused_requests_leave_no_trace [OF r this] r show ?thesis by (auto simp: demo_dispatch_def)
qed

section \<open>Identity\<close>

text \<open>Property C13.  The announced identity is the connection's: every announced request carries exactly one
  \<open>peer-id\<close> header in any spelling, the last one, with the authenticated id whatever the client sent;
  the other headers keep their names and order; and the three handles of the payload resolve.\<close>

theorem peer_identity_is_authentic:
  assumes "dispatch_begin lib L ops fd req remote d = Some (Inr w, d')"
  shows "\<exists>p. dsp_callbacks d' = dsp_callbacks d @ [p] \<and> rp_remote_node_id p = remote
    \<and> filter is_peer_id (rp_headers p) = [(''peer-id'', remote)] \<and> last (rp_headers p) = (''peer-id'', remote)
    \<and> map fst (butlast (rp_headers p)) = map fst (filter (\<lambda>kv. \<not> is_peer_id kv) (ir_headers req))
    \<and> rp_req_handle p = wt_req w
    \<and> slot_get (wt_req w) (request_heads (dsp_store d')) \<noteq> None
    \<and> slot_get (rp_req_body_handle p) (readers (dsp_store d')) \<noteq> None
    \<and> slot_get (rp_res_body_handle p) (writers (dsp_store d')) \<noteq> None"
proof -
  obtain hs hq hr hh qw rr s where c: "check_request lib fd remote req = Inr hs"
    and r: "register_request L ops (dsp_next d) (dsp_store d) = Some (Inr (hq, hr, hh, qw, rr), s)"
    and d': "dsp_store d' = s" "w = \<lparr>wt_req = hh, wt_head = dsp_next d, wt_reader = rr\<rparr>"
    and p: "\<exists>p. dsp_callbacks d' = dsp_callbacks d @ [p] \<and> rp_remote_node_id p = remote \<and> rp_headers p = hs
      \<and> rp_req_handle p = hh \<and> rp_req_body_handle p = hq \<and> rp_res_body_handle p = hr"
    using assms by (auto simp: dispatch_begin_def Let_def split: option.splits sum.splits)
  obtain ts where ts: "header_strings lib (filter (\<lambda>kv. \<not> is_peer_id kv) (ir_headers req)) = Some ts"
    "hs = ts @ [(''peer-id'', remote)]" using check_request_Inr [OF c] by blast
  have "\<not> is_peer_id kv" if "kv \<in> set ts" for kv
  proof -
    have "fst kv \<in> set (map fst (filter (\<lambda>kv. \<not> is_peer_id kv) (ir_headers req)))"
      using that header_strings_names [OF ts(1)] by (metis image_eqI list.set_map)
    then show ?thesis by (auto simp: is_peer_id_def)
  qed
  then have "filter is_peer_id hs = [(''peer-id'', remote)]"
    unfolding ts(2) by (auto simp: is_peer_id_def eq_ignore_ascii_case_def filter_empty_conv)
  then show ?thesis
    using p register_ok [OF r] d' header_strings_names [OF ts(1)] ts(2) by fastforce
qed

theorem peer_identity_is_authentic_witness:
  "\<exists>w d' p. dispatch_begin demo_http counting_lib fifo_ops (dispatcher_of ''me'' 0 None) demo_incoming ''alice'' (demo_dispatch 4)
       = Some (Inr w, d')
     \<and> dsp_callbacks d' = [p] \<and> filter is_peer_id (rp_headers p) = [(''peer-id'', ''alice'')]
     \<and> ''Peer-Id'' \<in> fst ` set (ir_headers demo_incoming)"
proof -
  obtain w d' where r: "dispatch_begin demo_http counting_lib fifo_ops (dispatcher_of ''me'' 0 None) demo_incoming ''alice''
      (demo_dispatch 4) = Some (Inr w, d')"
    by (simp add: demo_dispatch_defs)
  from peer_identity_is_authentic [OF r] r show ?thesis
    by (auto simp: demo_dispatch_def demo_incoming_def)
qed

section \<open>Answers\<close>

lemma check_response_headers_None:
  "check_response_headers lib hs = None \<longleftrightarrow> list_all (\<lambda>(n, v). name_valid lib n \<and> value_valid lib v) hs"
  by (induction hs) (auto split: if_splits)

text \<open>A waiting call: its sender is registered under its handle only, and nothing was sent or dropped.\<close>

definition awaiting :: "waiting \<Rightarrow> 'c disp_sys \<Rightarrow> bool" where
  "awaiting w d \<longleftrightarrow> (\<exists>t. slot_get (wt_req w) (request_heads (dsp_store d)) = Some (timed_new t (wt_head w)))
     \<and> map_of (dsp_heads d) (wt_head w) = None \<and> wt_head w \<notin> set (dsp_dead_rx d)
     \<and> (\<forall>(k, e) \<in> set (slots (request_heads (dsp_store d))). timed_value e = wt_head w \<longrightarrow> k = wt_req w)"

lemma register_sole_head:
  assumes "register_request L ops head s = Some (Inr (hq, hr, hh, qw, rr), s')" "head \<notin> head_ids s"
  shows "\<forall>(k, e) \<in> set (slots (request_heads s')). timed_value e = head \<longrightarrow> k = hh"
proof -
  have n: "timed_value e \<noteq> head" if "(k, e) \<in> set (slots (request_heads s))" for k e
    using assms(2) that by (force simp: head_ids_def)
  show ?thesis
    using assms(1)
    by (auto simp: register_request_def guard_drop_def guard_commit_def store_make_body_channel_def
        guard_insert_reader_def insert_reader_def guard_insert_writer_def insert_writer_def
        guard_allocate_req_handle_def allocate_req_handle_def insert_checked_cases slot_insert_def Let_def
        split: option.splits prod.splits sum.splits if_splits dest: n)
qed

lemma begin_awaiting:
  assumes "disp_ok d" "dispatch_begin lib L ops fd req remote d = Some (Inr w, d1)"
  shows "awaiting w d1"
proof -
  obtain hq hr hh qw rr s where r: "register_request L ops (dsp_next d) (dsp_store d) = Some (Inr (hq, hr, hh, qw, rr), s)"
    and d1: "dsp_store d1 = s" "dsp_heads d1 = dsp_heads d" "dsp_dead_rx d1 = dsp_dead_rx d"
      "w = \<lparr>wt_req = hh, wt_head = dsp_next d, wt_reader = rr\<rparr>"
    using assms(2) by (auto simp: dispatch_begin_def Let_def split: option.splits sum.splits)
  have "dsp_next d \<notin> head_ids (dsp_store d)" "dsp_next d \<notin> set (dsp_dead_rx d)" "dsp_next d \<notin> fst ` set (dsp_heads d)"
    using assms(1) by (auto simp: disp_ok_def)
  then show ?thesis
    using register_ok(1) [OF r] register_sole_head [OF r] d1 by (auto simp: awaiting_def map_of_eq_None_iff)
qed

lemma awaiting_alive: "awaiting w d \<Longrightarrow> head_poll (wt_head w) l d = (Pending, l, d)"
  by (force simp: awaiting_def head_poll_def head_sender_alive_def slot_get_def timed_new_def list_ex_iff dest: map_of_SomeD)

lemma awaiting_respond:
  assumes "awaiting w d" "status_valid lib status" "check_response_headers lib hs = None"
  shows "respond lib (wt_req w) status hs d = (Inr (), d\<lparr>dsp_store := snd (take_req_sender (wt_req w) (dsp_store d)),
      dsp_heads := (wt_head w, \<lparr>rh_status = status, rh_headers = hs\<rparr>) # dsp_heads d\<rparr>)"
  using assms by (auto simp: awaiting_def respond_def take_req_sender_def slot_remove_def timed_new_def)

lemma take_req_gone: "slot_get h (request_heads (snd (take_req_sender h s))) = None"
  by (simp add: take_req_sender_def split: prod.splits) (metis slot_get_remove snd_conv)

lemma awaiting_abandoned:
  assumes "awaiting w d"
  shows "head_poll (wt_head w) l (on_store (\<lambda>s. snd (take_req_sender (wt_req w) s)) d)
     = (Ready None, l, on_store (\<lambda>s. snd (take_req_sender (wt_req w) s)) d)"
  using assms
  by (auto simp: awaiting_def head_poll_def head_sender_alive_def on_store_def take_req_sender_def slot_remove_def
      al_del_def list_ex_iff split: option.splits)

text \<open>Property C23.  A request is answered exactly once: in every reachable state, a dispatched request waits; a
  valid \<open>respond\<close> on its handle is accepted, the waiting call then returns exactly that status and those
  headers with the response body channel, and the handle is gone; a second \<open>respond\<close> is refused as an
  unknown handle.  If the handle is removed unanswered, the call returns 500 instead of waiting on.\<close>

theorem request_is_answered_once:
  assumes "disp_reachable lib L ops d" and "dispatch_begin lib L ops fd req remote d = Some (Inr w, d1)"
    and "status_valid lib status" and "check_response_headers lib hs = None"
  shows "fst (respond lib (wt_req w) status hs d1) = Inr ()
    \<and> fst (respond lib (wt_req w) status' hs' (snd (respond lib (wt_req w) status hs d1))) \<noteq> Inr ()
    \<and> dispatch lib L ops fd req [] remote d = Some (None, d1)
    \<and> (\<exists>d3. dispatch lib L ops fd req [\<lambda>x. snd (respond lib (wt_req w) status hs x)] remote d
          = Some (Some \<lparr>rs_status = status, rs_headers = hs, rs_body = ReaderBody (wt_reader w)\<rparr>, d3)
        \<and> slot_get (wt_req w) (request_heads (dsp_store d3)) = None)
    \<and> (\<exists>d4. dispatch lib L ops fd req [on_store (\<lambda>s. snd (take_req_sender (wt_req w) s))] remote d
          = Some (Some (internal_error ''JS handler dropped without responding''), d4)
        \<and> slot_get (wt_req w) (request_heads (dsp_store d4)) = None)"
proof -
  have a: "awaiting w d1" by (rule begin_awaiting [OF disp_reachable_ok [OF assms(1)] assms(2)])
  note re = awaiting_respond [OF a assms(3,4)]
  have "slot_get (wt_req w) (request_heads (snd (take_req_sender (wt_req w) (dsp_store d1)))) = None"
    by (rule take_req_gone)
  then have again: "fst (respond lib (wt_req w) status' hs' (snd (respond lib (wt_req w) status hs d1))) \<noteq> Inr ()"
    unfolding re by (simp add: respond_def take_req_sender_def slot_remove_def split: option.splits)
  have "head_builds lib \<lparr>rh_status = status, rh_headers = hs\<rparr>"
    using assms(3,4) by (simp add: head_builds_def check_response_headers_None)
  then have answered: "\<exists>d3. dispatch lib L ops fd req [\<lambda>x. snd (respond lib (wt_req w) status hs x)] remote d
          = Some (Some \<lparr>rs_status = status, rs_headers = hs, rs_body = ReaderBody (wt_reader w)\<rparr>, d3)
        \<and> slot_get (wt_req w) (request_heads (dsp_store d3)) = None"
    using assms(2) re by (simp add: dispatch_def awaiting_alive [OF a] head_poll_def [of _ _ "_\<lparr>dsp_store := _, dsp_heads := _\<rparr>"]
        dispatch_finish_def req_head_guard_drop_def take_req_gone)
  have abandoned: "\<exists>d4. dispatch lib L ops fd req [on_store (\<lambda>s. snd (take_req_sender (wt_req w) s))] remote d
          = Some (Some (internal_error ''JS handler dropped without responding''), d4)
        \<and> slot_get (wt_req w) (request_heads (dsp_store d4)) = None"
    using assms(2) by (simp add: dispatch_def awaiting_alive [OF a] awaiting_abandoned [OF a] dispatch_finish_def
        req_head_guard_drop_def take_req_gone Let_def)
  have waits: "dispatch lib L ops fd req [] remote d = Some (None, d1)"
    using assms(2) by (simp add: dispatch_def awaiting_alive [OF a])
  show ?thesis using re again answered abandoned waits by simp
qed

theorem request_is_answered_once_witness:
  "\<exists>w d1 d3. disp_reachable demo_http counting_lib fifo_ops (demo_dispatch 4)
     \<and> dispatch_begin demo_http counting_lib fifo_ops (dispatcher_of ''me'' 0 None) demo_incoming ''alice'' (demo_dispatch 4)
       = Some (Inr w, d1)
     \<and> dispatch demo_http counting_lib fifo_ops (dispatcher_of ''me'' 0 None) demo_incoming
         [\<lambda>x. snd (respond demo_http (wt_req w) 204 [(''a'', ''b'')] x)] ''alice'' (demo_dispatch 4)
       = Some (Some \<lparr>rs_status = 204, rs_headers = [(''a'', ''b'')], rs_body = ReaderBody (wt_reader w)\<rparr>, d3)"
proof -
  obtain w d1 where r: "dispatch_begin demo_http counting_lib fifo_ops (dispatcher_of ''me'' 0 None) demo_incoming ''alice''
      (demo_dispatch 4) = Some (Inr w, d1)"
    by (simp add: demo_dispatch_defs)
  have "disp_reachable demo_http counting_lib fifo_ops (demo_dispatch 4)"
    unfolding demo_dispatch_def by (rule dr_start) (simp add: store_new_def)
  moreover have "status_valid demo_http 204" "check_response_headers demo_http [(''a'', ''b'')] = None"
    by (simp_all add: demo_http_def)
  ultimately show ?thesis using request_is_answered_once [OF _ r] r by blast
qed

end
