(* ===== verification/Ffi_Fetch.thy ===== *)
theory Ffi_Fetch
  imports Ffi_Types Http_Client Node_Addr Body_Pump
begin

text \<open>
  \<^verbatim>\<open>src/crates/iroh-http-core/src/ffi/fetch.rs\<close>: the foreign \<open>fetch\<close>.  It validates the flat arguments,
  builds the request, sends it to the own server or over the wire under a cancellation token and an
  optional timeout, and packages the response.

  Building a request target and the answers of the wire and of the own server are parameters: a future is a
  poll function on the handle store.
\<close>

section \<open>Request\<close>

definition str_to_bytes :: "string \<Rightarrow> bytes" where
  "str_to_bytes s = map (\<lambda>c. of_nat (of_char c)) s"

definition starts_with :: "string \<Rightarrow> string \<Rightarrow> bool" where
  "starts_with p s \<longleftrightarrow> take (length p) s = p"

definition extract_path :: "string \<Rightarrow> string" where
  "extract_path url0 =
     (let url = takeWhile (\<lambda>c. c \<noteq> CHR ''#'') url0 in
      if starts_with ''httpi://'' url
      then (let rest = drop (length ''httpi://'') url in
            if CHR ''/'' \<in> set rest then dropWhile (\<lambda>c. c \<noteq> CHR ''/'') rest else ''/'')
      else if starts_with ''/'' url then url
      else CHR ''/'' # url)"

text \<open>The scheme up to and including the separator, for the message.\<close>

fun find_str :: "string \<Rightarrow> string \<Rightarrow> nat option" where
  "find_str p [] = (if p = [] then Some 0 else None)"
| "find_str p (c # cs) = (if starts_with p (c # cs) then Some 0 else map_option Suc (find_str p cs))"

definition check_scheme :: "string \<Rightarrow> core_error option" where
  "check_scheme url = (let lower = to_ascii_lowercase url in
     if starts_with ''https://'' lower \<or> starts_with ''http://'' lower
     then (let scheme_end = (case find_str ''://'' lower of None \<Rightarrow> length lower | Some i \<Rightarrow> sat_add i 3)
           in Some (invalid_input (''iroh-http URLs must use the \"httpi://\" scheme, not \"'' @ take scheme_end url
             @ ''\". Example: httpi://nodeId/path'')))
     else None)"

fun check_headers :: "http_lib \<Rightarrow> (string \<times> string) list \<Rightarrow> core_error option" where
  "check_headers lib [] = None"
| "check_headers lib ((n, v) # hs) =
     (if \<not> name_valid lib n then Some (invalid_input (''invalid header name '' @ debug_str lib n))
      else if \<not> value_valid lib v then Some (invalid_input (''invalid header value for '' @ debug_str lib n))
      else check_headers lib hs)"

record fetch_args =
  fa_remote :: string
  fa_url :: string
  fa_method :: string
  fa_headers :: "(string \<times> string) list"
  fa_body :: "req_body option"
  fa_token :: "u64 option"
  fa_direct_addrs :: "sock_addr list option"
  fa_timeout :: "millis option"
  fa_decompress :: bool
  fa_max_response_body_bytes :: "nat option"

record endpoint_addr =
  ea_id :: bytes
  ea_relays :: "string list"
  ea_ips :: "sock_addr list"

definition request_headers :: "string \<Rightarrow> (string \<times> string) list \<Rightarrow> (string \<times> bytes) list" where
  "request_headers remote hs =
     (''host'', str_to_bytes remote)
     # (if list_ex (\<lambda>(k, _). eq_ignore_ascii_case k ''accept-encoding'') hs then []
        else [(''accept-encoding'', str_to_bytes ''zstd'')])
     @ map (\<lambda>(k, v). (k, str_to_bytes v)) hs"

datatype route = RouteSelf | RouteWire endpoint_addr

record routed =
  ro_route :: route
  ro_request :: http_request
  ro_remote :: string
  ro_path :: string

text \<open>Everything before the first await; \<open>target_err\<close> is the library's verdict on a request target.\<close>

definition fetch_prepare :: "http_lib \<Rightarrow> addr_lib \<Rightarrow> (string \<Rightarrow> string option) \<Rightarrow> string \<Rightarrow> fetch_args
    \<Rightarrow> core_error + routed" where
  "fetch_prepare lib A target_err own a = (case check_scheme (fa_url a) of
       Some e \<Rightarrow> Inl e
     | None \<Rightarrow> if \<not> method_valid lib (fa_method a)
         then Inl (invalid_input (''invalid HTTP method '' @ debug_str lib (fa_method a)))
         else (case check_headers lib (fa_headers a) of
            Some e \<Rightarrow> Inl e
          | None \<Rightarrow> (case parse_node_addr A (fa_remote a) of
               Inl e \<Rightarrow> Inl e
             | Inr p \<Rightarrow>
                 (let addr = \<lparr>ea_id = pna_node_id p, ea_relays = pna_relay_urls p,
                        ea_ips = pna_direct_addrs p @ (case fa_direct_addrs a of None \<Rightarrow> [] | Some ds \<Rightarrow> ds)\<rparr>;
                      remote = base32_encode A (pna_node_id p);
                      path = extract_path (fa_url a)
                  in case target_err path of
                       Some e \<Rightarrow> Inl (internal (''build request: '' @ e))
                     | None \<Rightarrow> Inr \<lparr>ro_route = (if remote = own then RouteSelf else RouteWire addr),
                         ro_request = \<lparr>rq_method = fa_method a, rq_uri = path, rq_version = ''HTTP/1.1'',
                           rq_headers = request_headers remote (fa_headers a),
                           rq_body = (case fa_body a of None \<Rightarrow> body_empty | Some b \<Rightarrow> b)\<rparr>,
                         ro_remote = remote, ro_path = path\<rparr>))))"

fun fetch_error_to_core :: "fetch_error \<Rightarrow> core_error" where
  "fetch_error_to_core (FeConnectionFailed d _) = connection_failed d"
| "fetch_error_to_core (FeRequestBodyFailed d _) = internal (''request body failed: '' @ d)"
| "fetch_error_to_core (FeHeaderTooLarge d) = header_too_large d"
| "fetch_error_to_core FeBodyTooLarge = body_too_large ''response body too large''"
| "fetch_error_to_core FeTimeout = timeout_error ''request timed out''"
| "fetch_error_to_core FeCancelled = cancelled"
| "fetch_error_to_core (FeInternal m) = internal m"

section \<open>Cancellation and timeout\<close>

text \<open>One poll of the two branches.  \<open>select!\<close> starts with a branch of its choice (\<open>cancel_first\<close>); a stored
  permit of \<open>notify_one\<close> is consumed by the branch that takes it.\<close>

definition cancel_ready :: "nat option \<Rightarrow> 'c store \<Rightarrow> bool" where
  "cancel_ready n s \<longleftrightarrow> (case n of None \<Rightarrow> False | Some i \<Rightarrow> i \<in> set (notify_ones s))"

definition take_permit :: "nat option \<Rightarrow> 'c store \<Rightarrow> 'c store" where
  "take_permit n s = (case n of None \<Rightarrow> s | Some i \<Rightarrow> s\<lparr>notify_ones := removeAll i (notify_ones s)\<rparr>)"

definition timed_poll :: "('l \<Rightarrow> 'c store \<Rightarrow> (core_error + 'a) poll \<times> 'l \<times> 'c store) \<Rightarrow> millis option \<Rightarrow> 'l
    \<Rightarrow> 'c store \<Rightarrow> (core_error + 'a) poll \<times> 'l \<times> 'c store" where
  "timed_poll fut deadline l s = (case fut l s of
       (Ready r, l', s') \<Rightarrow> (Ready r, l', s')
     | (Pending, l', s') \<Rightarrow> (case deadline of
          Some t \<Rightarrow> if t \<le> now s' then (Ready (Inl (timeout_error ''request timed out'')), l', s') else (Pending, l', s')
        | None \<Rightarrow> (Pending, l', s')))"

definition select_poll :: "('l \<Rightarrow> 'c store \<Rightarrow> (core_error + 'a) poll \<times> 'l \<times> 'c store) \<Rightarrow> nat option \<Rightarrow> millis option
    \<Rightarrow> bool \<Rightarrow> 'l \<Rightarrow> 'c store \<Rightarrow> (core_error + 'a) poll \<times> 'l \<times> 'c store" where
  "select_poll fut notify deadline cancel_first l s =
     (if cancel_first \<and> cancel_ready notify s then (Ready (Inl cancelled), l, take_permit notify s)
      else (case timed_poll fut deadline l s of
          (Ready r, l', s') \<Rightarrow> (Ready r, l', s')
        | (Pending, l', s') \<Rightarrow> if \<not> cancel_first \<and> cancel_ready notify s'
             then (Ready (Inl cancelled), l', take_permit notify s') else (Pending, l', s')))"

text \<open>The polls, each with its branch choice and followed by the steps of other tasks.\<close>

fun select_run :: "('l \<Rightarrow> 'c store \<Rightarrow> (core_error + 'a) poll \<times> 'l \<times> 'c store) \<Rightarrow> nat option \<Rightarrow> millis option
    \<Rightarrow> (bool \<times> ('c store \<Rightarrow> 'c store)) list \<Rightarrow> 'l \<Rightarrow> 'c store \<Rightarrow> (core_error + 'a) option \<times> 'c store" where
  "select_run fut notify deadline [] l s = (None, s)"
| "select_run fut notify deadline ((c, e) # rest) l s = (case select_poll fut notify deadline c l s of
       (Ready r, _, s') \<Rightarrow> (Some r, s')
     | (Pending, l', s') \<Rightarrow> select_run fut notify deadline rest l' (e s'))"

definition run_with_cancel_and_timeout :: "u64 option \<Rightarrow> millis option
    \<Rightarrow> ('l \<Rightarrow> 'c store \<Rightarrow> (core_error + 'a) poll \<times> 'l \<times> 'c store) \<Rightarrow> (bool \<times> ('c store \<Rightarrow> 'c store)) list \<Rightarrow> 'l
    \<Rightarrow> 'c store \<Rightarrow> (core_error + 'a) option \<times> 'c store" where
  "run_with_cancel_and_timeout tok tmo fut env l s =
     (let notify = Option.bind tok (\<lambda>t. get_fetch_cancel_notify t s);
          deadline = map_option (\<lambda>t. now s + t) tmo
      in case select_run fut notify deadline env l s of
          (None, s') \<Rightarrow> (None, s')
        | (Some r, s') \<Rightarrow> (Some r, case tok of None \<Rightarrow> s' | Some t \<Rightarrow> remove_fetch_token t s'))"

section \<open>Packaging the response\<close>

record wire_response =
  wr_status :: u16
  wr_headers :: "(string \<times> bytes) list"
  wr_body :: nat

record pump_task =
  pt_body :: nat
  pt_writer :: body_writer
  pt_limit :: nat
  pt_frame_timeout :: millis

fun first_non_string :: "http_lib \<Rightarrow> (string \<times> bytes) list \<Rightarrow> string option" where
  "first_non_string lib [] = None"
| "first_non_string lib ((k, v) # hs) = (case header_to_str lib v of None \<Rightarrow> Some k | Some _ \<Rightarrow> first_non_string lib hs)"

definition response_header_bytes :: "wire_response \<Rightarrow> nat" where
  "response_header_bytes r = sum_saturating 16 (map header_cost (wr_headers r))"

definition null_body_status :: "u16 \<Rightarrow> bool" where
  "null_body_status s \<longleftrightarrow> s = 204 \<or> s = 205 \<or> s = 304"

text \<open>The result, the pump that was started, and the store; \<open>None\<close> is the panic of the channel
  constructor.\<close>

definition package_response :: "http_lib \<Rightarrow> slot_lib \<Rightarrow> 'c mpsc_ops \<Rightarrow> nat \<Rightarrow> nat \<Rightarrow> wire_response \<Rightarrow> string \<Rightarrow> string
    \<Rightarrow> nat option \<Rightarrow> 'c store \<Rightarrow> ((core_error + ffi_response) \<times> pump_task option \<times> 'c store) option" where
  "package_response lib L ops hmax ep_max_body r remote path per_call s =
     (let limit = (case per_call of None \<Rightarrow> ep_max_body | Some n \<Rightarrow> n);
          url = ''httpi://'' @ remote @ path in
      if hmax < response_header_bytes r
      then Some (Inl (header_too_large (''response header size '' @ show_nat (response_header_bytes r)
             @ '' exceeds limit '' @ show_nat hmax)), None, s)
      else (case header_strings lib (wr_headers r) of
          None \<Rightarrow> Some (Inl (invalid_input (''non-UTF8 response header value for '' @ CHR 0x27
                    # the (first_non_string lib (wr_headers r)) @ [CHR 0x27])), None, s)
        | Some hs \<Rightarrow>
            if null_body_status (wr_status r)
            then Some (Inr \<lparr>fr_status = wr_status r, fr_headers = hs, fr_body_handle = 0, fr_url = url\<rparr>, None, s)
            else (case store_make_body_channel ops s of
                None \<Rightarrow> None
              | Some (w, rd, s1) \<Rightarrow>
                  (let pump = \<lparr>pt_body = wr_body r, pt_writer = w, pt_limit = limit, pt_frame_timeout = drain_timeout w\<rparr>
                   in case guard_insert_reader L ops rd (guard_new, s1) of
                        (Inl e, g, s2) \<Rightarrow> Some (Inl e, Some pump, guard_drop ops g s2)
                      | (Inr h, g, s2) \<Rightarrow> Some (Inr \<lparr>fr_status = wr_status r, fr_headers = hs, fr_body_handle = h, fr_url = url\<rparr>,
                           Some pump, guard_drop ops (guard_commit g) s2)))))"

section \<open>The whole call\<close>

record fetch_endpoint =
  fe_node_id :: string
  fe_max_header_size :: nat
  fe_max_response_body_bytes :: nat
  fe_has_local_service :: bool

definition NO_LOCAL_SERVER :: string where
  "NO_LOCAL_SERVER = ''self-request: this node has no active server to handle a request to its own node id. ''
     @ ''Call serve() before fetching httpi://<your-own-node-id>/...''"

text \<open>\<open>fut\<close> gives the future of the wire request (with its typed errors already translated) or of the own
  server.  The timeout of a wire request acts inside that future.  The result is \<open>None\<close> for a panic; the
  first component is \<open>None\<close> while the call is running.\<close>

definition ffi_fetch :: "http_lib \<Rightarrow> addr_lib \<Rightarrow> (string \<Rightarrow> string option) \<Rightarrow> slot_lib \<Rightarrow> 'c mpsc_ops \<Rightarrow> fetch_endpoint
    \<Rightarrow> fetch_args \<Rightarrow> (routed \<Rightarrow> 'l \<Rightarrow> 'c store \<Rightarrow> (core_error + wire_response) poll \<times> 'l \<times> 'c store)
    \<Rightarrow> (bool \<times> ('c store \<Rightarrow> 'c store)) list \<Rightarrow> 'l \<Rightarrow> 'c store
    \<Rightarrow> ((core_error + ffi_response) option \<times> pump_task option \<times> 'c store) option" where
  "ffi_fetch lib A target_err L ops ep a fut env l s = (case fetch_prepare lib A target_err (fe_node_id ep) a of
       Inl e \<Rightarrow> Some (Some (Inl e), None, s)
     | Inr ro \<Rightarrow>
        if ro_route ro = RouteSelf \<and> \<not> fe_has_local_service ep
        then Some (Some (Inl (connection_failed NO_LOCAL_SERVER)), None, s)
        else (case run_with_cancel_and_timeout (fa_token a) (if ro_route ro = RouteSelf then fa_timeout a else None)
                     (fut ro) env l s of
            (None, s1) \<Rightarrow> Some (None, None, s1)
          | (Some (Inl e), s1) \<Rightarrow> Some (Some (Inl e), None, s1)
          | (Some (Inr r), s1) \<Rightarrow> (case package_response lib L ops (fe_max_header_size ep) (fe_max_response_body_bytes ep)
                 r (ro_remote ro) (ro_path ro) (fa_max_response_body_bytes a) s1 of
               None \<Rightarrow> None
             | Some (x, pump, s2) \<Rightarrow> Some (Some x, pump, s2))))"

end
