(* ===== verification/Fetch_Props.thy ===== *)
theory Fetch_Props
  imports Ffi_Fetch Dispatch_Props
begin

text \<open>Properties of the foreign \<open>fetch\<close>: the request target, cancellation and its token, and the packaging of
  responses.\<close>

section \<open>Request targets\<close>

lemma takeWhile_hash: "takeWhile (\<lambda>c. c \<noteq> x) (url @ x # frag) = takeWhile (\<lambda>c. c \<noteq> x) url"
  by (induction url) auto

lemma extract_path_fragment: "extract_path (url @ CHR ''#'' # frag) = extract_path url"
  by (simp only: extract_path_def takeWhile_hash)

lemma extract_path_plain:
  assumes "CHR ''#'' \<notin> set rest"
  shows "extract_path (''httpi://'' @ rest)
    = (if CHR ''/'' \<in> set rest then dropWhile (\<lambda>c. c \<noteq> CHR ''/'') rest else ''/'')"
proof -
  have t: "takeWhile (\<lambda>c. c \<noteq> CHR ''#'') rest = rest" using assms by (induction rest) auto
  show ?thesis by (simp add: extract_path_def Let_def starts_with_def t)
qed

lemma dropWhile_slash: "CHR ''/'' \<in> set xs \<Longrightarrow> \<exists>p. dropWhile (\<lambda>c. c \<noteq> CHR ''/'') xs = CHR ''/'' # p"
  by (induction xs) auto

text \<open>The request target is an origin-form path without the fragment: whatever the URL, it starts
  with a slash and contains no hash, everything from the first hash on is ignored, and for a URL of the
  scheme with a host and a path it is exactly that path.\<close>

theorem request_target_is_path:
  "(\<exists>p. extract_path url = CHR ''/'' # p) \<and> CHR ''#'' \<notin> set (extract_path url)
   \<and> extract_path (url @ CHR ''#'' # frag) = extract_path url
   \<and> (CHR ''/'' \<notin> set host \<and> CHR ''#'' \<notin> set host \<and> CHR ''#'' \<notin> set path
        \<longrightarrow> extract_path (''httpi://'' @ host @ CHR ''/'' # path) = CHR ''/'' # path
          \<and> extract_path (''httpi://'' @ host) = ''/'')"
proof -
  let ?u = "takeWhile (\<lambda>c. c \<noteq> CHR ''#'') url"
  have nh: "CHR ''#'' \<notin> set ?u" by (auto dest: set_takeWhileD)
  have "\<exists>p. extract_path url = CHR ''/'' # p"
    using dropWhile_slash [of "drop (length ''httpi://'') ?u"]
    by (auto simp: extract_path_def Let_def starts_with_def) (metis append_Cons append_take_drop_id)
  moreover have "CHR ''#'' \<notin> set (extract_path url)"
    using nh by (auto simp: extract_path_def Let_def dest!: set_dropWhileD in_set_dropD)
  moreover have "dropWhile (\<lambda>c. c \<noteq> CHR ''/'') (host @ CHR ''/'' # path) = CHR ''/'' # path"
    if "CHR ''/'' \<notin> set host"
    using that by (induction host) auto
  ultimately show ?thesis
    using extract_path_fragment extract_path_plain [of "host @ CHR ''/'' # path"] extract_path_plain [of host] by auto
qed

theorem request_target_is_path_witness:
  "extract_path ''httpi://node/a?b=1#secret'' = ''/a?b=1'' \<and> extract_path ''httpi://node'' = ''/''"
  using request_target_is_path [of "''httpi://node/a?b=1''" "''secret''" "''node''" "''a?b=1''"]
  by simp

section \<open>Cancellation\<close>









definition token_store :: "fifo store" where
  "token_store = cancel_in_flight 1 (snd (alloc_fetch_token counting_lib demo_store))"




text \<open>A rejected call keeps its token: when the arguments are refused, or the node asks itself while
  it serves nothing, the call returns before the clean-up, so the token stays registered until the
  sweep finds it.\<close>

theorem rejected_fetch_keeps_token:
  assumes "fetch_prepare lib A te (fe_node_id ep) a = Inl err
      \<or> (\<exists>ro. fetch_prepare lib A te (fe_node_id ep) a = Inr ro \<and> ro_route ro = RouteSelf \<and> \<not> fe_has_local_service ep)"
  shows "\<exists>x. ffi_fetch lib A te L ops ep a fut env l s = Some (Some (Inl x), None, s)"
  using assms by (auto simp: ffi_fetch_def)

theorem rejected_fetch_keeps_token_witness:
  "\<exists>A te ep a fut x. fa_token a = Some 1 \<and> get_fetch_cancel_notify 1 token_store \<noteq> None
     \<and> ffi_fetch demo_http A te counting_lib fifo_ops ep a fut [] () token_store = Some (Some (Inl x), None, token_store)"
proof -
  define a where "a = \<lparr>fa_remote = ''x'', fa_url = ''https://x/'', fa_method = ''GET'', fa_headers = [], fa_body = None,
    fa_token = Some (1 :: u64), fa_direct_addrs = None, fa_timeout = None, fa_decompress = True, fa_max_response_body_bytes = None\<rparr>"
  obtain err where "check_scheme (fa_url a) = Some err"
    by (simp add: a_def check_scheme_def to_ascii_lowercase_def ascii_lower_char_def starts_with_def Let_def)
  then have "fetch_prepare demo_http A te (fe_node_id ep) a = Inl err" for A te ep by (simp add: fetch_prepare_def)
  moreover have "get_fetch_cancel_notify 1 token_store \<noteq> None"
    by (simp add: token_store_def alloc_fetch_token_def insert_checked_cases cancel_in_flight_def
        get_fetch_cancel_notify_def demo_defs timed_new_def slot_get_insert)
  moreover have "fa_token a = Some 1" by (simp add: a_def)
  ultimately show ?thesis using rejected_fetch_keeps_token by metis
qed

section \<open>Responses\<close>

lemma package_cases:
  assumes "package_response lib L ops hmax dflt r remote path per_call s = Some (res, pump, s')"
    and "guard_room L 1 s"
  shows "(\<exists>e. res = Inl e \<and> handle_view s' = handle_view s)
    \<or> (\<exists>hs. header_strings lib (wr_headers r) = Some hs
         \<and> res = Inr \<lparr>fr_status = wr_status r, fr_headers = hs,
              fr_body_handle = (if null_body_status (wr_status r) then 0 else next_key L (history (readers s))),
              fr_url = ''httpi://'' @ remote @ path\<rparr>
         \<and> (null_body_status (wr_status r) \<longrightarrow> pump = None \<and> s' = s)
         \<and> (\<not> null_body_status (wr_status r) \<longrightarrow>
              (\<exists>w. pump = Some \<lparr>pt_body = wr_body r, pt_writer = w,
                   pt_limit = (case per_call of None \<Rightarrow> dflt | Some n \<Rightarrow> n), pt_frame_timeout = drain_timeout w\<rparr>
                 \<and> slot_get (next_key L (history (readers s))) (readers s')
                     = Some (timed_new (now s) \<lparr>rd_cell = wr_cell w, rd_pending = None\<rparr>))))"
  using assms
  by (auto simp: package_response_def store_make_body_channel_def make_body_channel_with_def guard_insert_reader_def
      insert_reader_def insert_checked_cases slot_get_insert guard_drop_def guard_commit_def guard_new_def handle_view_def Let_def
      split: if_splits option.splits)

text \<open>Packaging a response allocates at most one handle: an error leaves every lookup as it was; a
  packaged response keeps the status and the header names in order, has handle 0 exactly for the null-body
  statuses (then no pump runs and nothing changes), and otherwise a fresh handle that resolves to a
  reader fed by one pump over the same channel, limited by the per-call limit or the endpoint's.\<close>

theorem response_packaging_is_exact:
  assumes "package_response lib L ops hmax dflt r remote path per_call s = Some (res, pump, s')"
    and "guard_room L 1 s" and "next_key L (history (readers s)) \<noteq> 0"
  shows "case res of
      Inl e \<Rightarrow> handle_view s' = handle_view s
    | Inr f \<Rightarrow> fr_status f = wr_status r \<and> map fst (fr_headers f) = map fst (wr_headers r)
        \<and> (fr_body_handle f = 0 \<longleftrightarrow> null_body_status (wr_status r))
        \<and> (fr_body_handle f = 0 \<longrightarrow> pump = None \<and> s' = s)
        \<and> (fr_body_handle f \<noteq> 0 \<longrightarrow> slot_get (fr_body_handle f) (readers s) = None
             \<and> (\<exists>p. pump = Some p \<and> pt_body p = wr_body r
                  \<and> pt_limit p = (case per_call of None \<Rightarrow> dflt | Some n \<Rightarrow> n)
                  \<and> slot_get (fr_body_handle f) (readers s')
                       = Some (timed_new (now s) \<lparr>rd_cell = wr_cell (pt_writer p), rd_pending = None\<rparr>)))"
proof -
  have fresh: "slot_get (next_key L (history (readers s))) (readers s) = None"
    using assms(2) insert_room(3) [of L "readers s" 0] by (simp add: guard_room_def)
  show ?thesis
    using package_cases [OF assms(1,2)] fresh assms(3)
    by (cases "null_body_status (wr_status r)") (auto simp: header_strings_names)
qed

definition demo_wire :: "u16 \<Rightarrow> wire_response" where
  "demo_wire st = \<lparr>wr_status = st, wr_headers = [(''x'', [121])], wr_body = 3\<rparr>"

theorem response_packaging_is_exact_witness:
  "\<exists>f p s'. package_response demo_http counting_lib fifo_ops 1000 50 (demo_wire 200) ''node'' ''/a'' (Some 9) demo_store
       = Some (Inr f, Some p, s') \<and> fr_body_handle f \<noteq> 0 \<and> pt_limit p = 9
     \<and> slot_get (fr_body_handle f) (readers s') \<noteq> None"
proof -
  have h: "header_strings demo_http (wr_headers (demo_wire 200)) = Some [(''x'', ''y'')]"
    "\<not> null_body_status (wr_status (demo_wire 200))" by code_simp+
  have b: "\<not> 1000 < response_header_bytes (demo_wire 200)"
    by (simp add: demo_wire_def response_header_bytes_def sum_saturating_def header_cost_def sat_add_def usize_max_def)
  obtain f p s' where r: "package_response demo_http counting_lib fifo_ops 1000 50 (demo_wire 200) ''node'' ''/a'' (Some 9)
      demo_store = Some (Inr f, Some p, s')"
    by (simp add: package_response_def h b store_make_body_channel_def make_body_channel_with_def guard_insert_reader_def
        insert_reader_def insert_checked_cases demo_defs Let_def)
  have "guard_room counting_lib 1 demo_store"
    by (simp add: guard_room_def demo_defs slot_inv_new counting_lib_ok slot_version_limit_def)
  from response_packaging_is_exact [OF r this] show ?thesis
    using r h(2) by (auto simp: demo_defs)
qed

end
