(* ===== verification/Disc_Ownership.thy ===== *)
theory Disc_Ownership
  imports Iroh_Prelude "HOL-Library.Char_ord" "HOL-Library.List_Lexorder"
begin

text \<open>
  \<^verbatim>\<open>src/packages/iroh-http-tauri/src/discovery_ownership.rs\<close>: which page and which endpoint owns a browse or
  advertisement session.  Owners have generations; a start captures the current ones before it creates
  its resource and may attach the resource only while they are still current.  Closing an endpoint,
  navigating or destroying a page advances a generation and drains what it owned.

  The state has the fields of all build configurations (those of the test build); the completion cells
  that starts and clean-ups share are two heaps of outcomes.  Every function takes the lock once and is one
  state transformer; \<open>None\<close> is the panic of an exhausted counter.  The order of drained entries is that of
  a hash map and carries no meaning.
\<close>

section \<open>State\<close>

datatype discovery_kind = BrowsePeers | AdvertisePeer | GenericAdvertise | GenericBrowse

datatype discovery_owner = PeerOwner u64 u64 string u64 | WebviewOwner string u64

record tracked_discovery =
  td_kind :: discovery_kind
  td_handle :: u64
  td_owner :: discovery_owner

record peer_owner_token =
  pt_endpoint_handle :: u64
  pt_endpoint_generation :: u64
  pt_webview_label :: string
  pt_webview_generation :: u64

record webview_owner_token =
  wt_webview_label :: string
  wt_webview_generation :: u64

record owner_generation =
  og_generation :: u64
  og_active :: bool

type_synonym outcome = "string + unit"

record pending_start =
  ps_owner :: discovery_owner
  ps_completion :: nat

record ownership_state =
  os_sessions :: "((discovery_kind \<times> u64) \<times> tracked_discovery) list"
  os_starts :: "(u64 \<times> pending_start) list"
  os_next_start :: u64
  os_endpoints :: "(u64 \<times> owner_generation) list"
  os_webviews :: "(string \<times> owner_generation) list"
  os_webview_cleanups :: "(string \<times> nat) list"
  os_start_fences :: "outcome option list"
  os_cleanup_fences :: "outcome option list"

definition ownership_default :: ownership_state where
  "ownership_default = \<lparr>os_sessions = [], os_starts = [], os_next_start = 0, os_endpoints = [], os_webviews = [],
     os_webview_cleanups = [], os_start_fences = [], os_cleanup_fences = []\<rparr>"

section \<open>Completion cells\<close>

text \<open>\<open>StartCompletion\<close> and \<open>WebviewCleanup\<close>: the first outcome stays.\<close>

definition fence_finish :: "nat \<Rightarrow> outcome \<Rightarrow> outcome option list \<Rightarrow> outcome option list" where
  "fence_finish i r fs = (if i < length fs \<and> fs ! i = None then fs[i := Some r] else fs)"

definition fence_poll :: "nat \<Rightarrow> outcome option list \<Rightarrow> outcome poll" where
  "fence_poll i fs = (if i < length fs then (case fs ! i of None \<Rightarrow> Pending | Some r \<Rightarrow> Ready r) else Pending)"

definition start_finish :: "nat \<Rightarrow> outcome \<Rightarrow> ownership_state \<Rightarrow> ownership_state" where
  "start_finish i r s = s\<lparr>os_start_fences := fence_finish i r (os_start_fences s)\<rparr>"

definition start_wait :: "nat \<Rightarrow> unit \<Rightarrow> ownership_state \<Rightarrow> outcome poll \<times> unit \<times> ownership_state" where
  "start_wait i l s = (fence_poll i (os_start_fences s), l, s)"

definition cleanup_new :: "ownership_state \<Rightarrow> nat \<times> ownership_state" where
  "cleanup_new s = (length (os_cleanup_fences s), s\<lparr>os_cleanup_fences := os_cleanup_fences s @ [None]\<rparr>)"

definition cleanup_finish :: "nat \<Rightarrow> outcome \<Rightarrow> ownership_state \<Rightarrow> ownership_state" where
  "cleanup_finish i r s = s\<lparr>os_cleanup_fences := fence_finish i r (os_cleanup_fences s)\<rparr>"

definition cleanup_wait :: "nat \<Rightarrow> unit \<Rightarrow> ownership_state \<Rightarrow> outcome poll \<times> unit \<times> ownership_state" where
  "cleanup_wait i l s = (fence_poll i (os_cleanup_fences s), l, s)"

text \<open>A clean-up in progress: the label it fences, its own cell and the one it replaced.\<close>

record webview_cleanup_retirement =
  wr_label :: string
  wr_current :: nat
  wr_previous :: "nat option"

text \<open>The entry is removed only if it is still this clean-up's.\<close>

definition cleanup_retract :: "webview_cleanup_retirement \<Rightarrow> ownership_state \<Rightarrow> ownership_state" where
  "cleanup_retract c s = (if map_of (os_webview_cleanups s) (wr_label c) = Some (wr_current c)
     then s\<lparr>os_webview_cleanups := al_del (wr_label c) (os_webview_cleanups s)\<rparr> else s)"

text \<open>\<open>WebviewCleanupRetirement::finish\<close>: the outcome is published before the lock is taken for the removal, so
  another task may act in between (\<open>mid\<close>).\<close>

definition retirement_finish :: "webview_cleanup_retirement \<Rightarrow> outcome \<Rightarrow> (ownership_state \<Rightarrow> ownership_state)
    \<Rightarrow> ownership_state \<Rightarrow> ownership_state" where
  "retirement_finish c r mid s = (let s1 = cleanup_finish (wr_current c) r s in
     case r of Inl _ \<Rightarrow> s1 | Inr _ \<Rightarrow> cleanup_retract c (mid s1))"

definition wait_for_previous :: "webview_cleanup_retirement \<Rightarrow> unit \<Rightarrow> ownership_state
    \<Rightarrow> outcome poll \<times> unit \<times> ownership_state" where
  "wait_for_previous c l s = (case wr_previous c of None \<Rightarrow> (Ready (Inr ()), l, s) | Some p \<Rightarrow> cleanup_wait p l s)"

text \<open>\<open>SessionCleanup::finish\<close>: it waits for the clean-up it replaced, whose error wins, and then publishes and
  removes in the same way.\<close>

definition session_cleanup_finish :: "webview_cleanup_retirement \<Rightarrow> outcome \<Rightarrow> (ownership_state \<Rightarrow> ownership_state) list
    \<Rightarrow> (ownership_state \<Rightarrow> ownership_state) \<Rightarrow> ownership_state \<Rightarrow> outcome option \<times> ownership_state" where
  "session_cleanup_finish c native env mid s = (case await_fut (wait_for_previous c) env () s of
       (None, _, s1) \<Rightarrow> (None, s1)
     | (Some prev, _, s1) \<Rightarrow>
        (let r = (case prev of Inr _ \<Rightarrow> native | Inl e \<Rightarrow> Inl e)
         in (Some r, retirement_finish c r mid s1)))"

section \<open>Generations\<close>

definition next_generation :: "u64 \<Rightarrow> u64 option" where
  "next_generation g = (if g = - 1 then None else Some (g + 1))"

definition bump :: "bool \<Rightarrow> 'k \<Rightarrow> ('k \<times> owner_generation) list \<Rightarrow> ('k \<times> owner_generation) list option" where
  "bump active k m = (let o' = (case map_of m k of None \<Rightarrow> \<lparr>og_generation = 0, og_active = False\<rparr> | Some x \<Rightarrow> x) in
     map_option (\<lambda>g. al_put k \<lparr>og_generation = g, og_active = active\<rparr> m) (next_generation (og_generation o')))"

definition bump_all :: "('k \<times> owner_generation) list \<Rightarrow> ('k \<times> owner_generation) list option" where
  "bump_all m = those (map (\<lambda>(k, x). map_option (\<lambda>g. (k, \<lparr>og_generation = g, og_active = False\<rparr>))
     (next_generation (og_generation x))) m)"

definition generation_is_current :: "('k \<times> owner_generation) list \<Rightarrow> 'k \<Rightarrow> u64 \<Rightarrow> bool" where
  "generation_is_current m k g = (case map_of m k of None \<Rightarrow> False | Some x \<Rightarrow> og_active x \<and> og_generation x = g)"

fun owner_is_current :: "ownership_state \<Rightarrow> discovery_owner \<Rightarrow> bool" where
  "owner_is_current s (PeerOwner e eg w wg) = (generation_is_current (os_endpoints s) e eg \<and> generation_is_current (os_webviews s) w wg)"
| "owner_is_current s (WebviewOwner w wg) = generation_is_current (os_webviews s) w wg"

fun kind_matches_owner :: "discovery_kind \<Rightarrow> discovery_owner \<Rightarrow> bool" where
  "kind_matches_owner k (PeerOwner _ _ _ _) = (k = BrowsePeers \<or> k = AdvertisePeer)"
| "kind_matches_owner k (WebviewOwner _ _) = (k = GenericAdvertise \<or> k = GenericBrowse)"

fun owner_label :: "discovery_owner \<Rightarrow> string" where
  "owner_label (PeerOwner _ _ w _) = w"
| "owner_label (WebviewOwner w _) = w"

fun owner_endpoint :: "discovery_owner \<Rightarrow> u64 option" where
  "owner_endpoint (PeerOwner e _ _ _) = Some e"
| "owner_endpoint (WebviewOwner _ _) = None"

definition activate_endpoint :: "u64 \<Rightarrow> ownership_state \<Rightarrow> ownership_state option" where
  "activate_endpoint e s = map_option (\<lambda>m. s\<lparr>os_endpoints := m\<rparr>) (bump True e (os_endpoints s))"

text \<open>\<open>entry(label).or_insert\<close> with generation 1: only a page that was never seen is created here.\<close>

definition seen_webview :: "string \<Rightarrow> ownership_state \<Rightarrow> owner_generation \<times> ownership_state" where
  "seen_webview w s = (case map_of (os_webviews s) w of
       Some x \<Rightarrow> (x, s)
     | None \<Rightarrow> (let x = \<lparr>og_generation = 1, og_active = True\<rparr> in (x, s\<lparr>os_webviews := (w, x) # os_webviews s\<rparr>)))"

section \<open>Captured tokens\<close>

definition begin_peer :: "u64 \<Rightarrow> string \<Rightarrow> ownership_state \<Rightarrow> peer_owner_token option \<times> ownership_state" where
  "begin_peer e w s = (case map_of (os_endpoints s) e of
       None \<Rightarrow> (None, s)
     | Some ep \<Rightarrow> if \<not> og_active ep then (None, s)
         else (case seen_webview w s of (x, s1) \<Rightarrow>
            (if \<not> og_active x then None
             else Some \<lparr>pt_endpoint_handle = e, pt_endpoint_generation = og_generation ep,
                pt_webview_label = w, pt_webview_generation = og_generation x\<rparr>, s1)))"

definition begin_webview :: "string \<Rightarrow> ownership_state \<Rightarrow> webview_owner_token option \<times> ownership_state" where
  "begin_webview w s = (case seen_webview w s of (x, s1) \<Rightarrow>
     (if \<not> og_active x then None
      else Some \<lparr>wt_webview_label = w, wt_webview_generation = og_generation x\<rparr>, s1))"

definition peer_owner_is_current :: "ownership_state \<Rightarrow> peer_owner_token \<Rightarrow> bool" where
  "peer_owner_is_current s t \<longleftrightarrow> generation_is_current (os_endpoints s) (pt_endpoint_handle t) (pt_endpoint_generation t)
     \<and> generation_is_current (os_webviews s) (pt_webview_label t) (pt_webview_generation t)"

definition webview_owner_is_current :: "ownership_state \<Rightarrow> webview_owner_token \<Rightarrow> bool" where
  "webview_owner_is_current s t \<longleftrightarrow> generation_is_current (os_webviews s) (wt_webview_label t) (wt_webview_generation t)"

definition put_session :: "discovery_kind \<Rightarrow> u64 \<Rightarrow> discovery_owner \<Rightarrow> ownership_state \<Rightarrow> ownership_state" where
  "put_session kind h ow s =
     s\<lparr>os_sessions := al_put (kind, h) \<lparr>td_kind = kind, td_handle = h, td_owner = ow\<rparr> (os_sessions s)\<rparr>"

definition track_peer :: "peer_owner_token \<Rightarrow> discovery_kind \<Rightarrow> u64 \<Rightarrow> ownership_state \<Rightarrow> (unit + unit) \<times> ownership_state" where
  "track_peer t kind h s = (if \<not> peer_owner_is_current s t then (Inl (), s)
     else (Inr (), put_session kind h (PeerOwner (pt_endpoint_handle t) (pt_endpoint_generation t)
        (pt_webview_label t) (pt_webview_generation t)) s))"

definition track_generic :: "webview_owner_token \<Rightarrow> discovery_kind \<Rightarrow> u64 \<Rightarrow> ownership_state \<Rightarrow> (unit + unit) \<times> ownership_state" where
  "track_generic t kind h s = (if \<not> webview_owner_is_current s t then (Inl (), s)
     else (Inr (), put_session kind h (WebviewOwner (wt_webview_label t) (wt_webview_generation t)) s))"

definition untrack :: "discovery_kind \<Rightarrow> u64 \<Rightarrow> ownership_state \<Rightarrow> tracked_discovery option \<times> ownership_state" where
  "untrack kind h s = (map_of (os_sessions s) (kind, h), s\<lparr>os_sessions := al_del (kind, h) (os_sessions s)\<rparr>)"

section \<open>Start leases\<close>

record start_lease =
  ls_id :: u64
  ls_owner :: discovery_owner
  ls_completion :: nat
  ls_active :: bool
  ls_native_started :: bool
  ls_prior_cleanup :: "nat option"

definition next_start :: "ownership_state \<Rightarrow> (u64 \<times> ownership_state) option" where
  "next_start s = map_option (\<lambda>n. (os_next_start s, s\<lparr>os_next_start := n\<rparr>)) (next_generation (os_next_start s))"

definition insert_start :: "discovery_owner \<Rightarrow> nat option \<Rightarrow> ownership_state \<Rightarrow> (start_lease \<times> ownership_state) option" where
  "insert_start ow prior s = (case next_start s of
       None \<Rightarrow> None
     | Some (i, s1) \<Rightarrow> (let c = length (os_start_fences s1) in
         Some (\<lparr>ls_id = i, ls_owner = ow, ls_completion = c, ls_active = True, ls_native_started = False, ls_prior_cleanup = prior\<rparr>,
           s1\<lparr>os_start_fences := os_start_fences s1 @ [None],
              os_starts := al_put i \<lparr>ps_owner = ow, ps_completion = c\<rparr> (os_starts s1)\<rparr>)))"

text \<open>The outer \<open>None\<close> is the panic, the inner one the refusal.\<close>

definition begin_peer_start :: "u64 \<Rightarrow> string \<Rightarrow> ownership_state \<Rightarrow> (start_lease option \<times> ownership_state) option" where
  "begin_peer_start e w s = (case map_of (os_endpoints s) e of
       None \<Rightarrow> Some (None, s)
     | Some ep \<Rightarrow> (case seen_webview w s of (x, s1) \<Rightarrow>
         if \<not> og_active ep \<or> \<not> og_active x then Some (None, s1)
         else map_option (\<lambda>(l, s2). (Some l, s2))
           (insert_start (PeerOwner e (og_generation ep) w (og_generation x)) (map_of (os_webview_cleanups s1) w) s1)))"

definition begin_webview_start :: "string \<Rightarrow> ownership_state \<Rightarrow> (start_lease option \<times> ownership_state) option" where
  "begin_webview_start w s = (case seen_webview w s of (x, s1) \<Rightarrow>
     if \<not> og_active x then Some (None, s1)
     else map_option (\<lambda>(l, s2). (Some l, s2))
       (insert_start (WebviewOwner w (og_generation x)) (map_of (os_webview_cleanups s1) w) s1))"

definition wait_for_cleanup :: "start_lease \<Rightarrow> unit \<Rightarrow> ownership_state \<Rightarrow> outcome poll \<times> unit \<times> ownership_state" where
  "wait_for_cleanup l u s = (case ls_prior_cleanup l of None \<Rightarrow> (Ready (Inr ()), u, s) | Some c \<Rightarrow> cleanup_wait c u s)"

definition arm_native_cleanup :: "start_lease \<Rightarrow> start_lease" where
  "arm_native_cleanup l = l\<lparr>ls_native_started := True\<rparr>"

definition lease_is_current :: "start_lease \<Rightarrow> ownership_state \<Rightarrow> bool" where
  "lease_is_current l s = owner_is_current s (ls_owner l)"

text \<open>The common end of a lease: the pending start goes and its cell gets an outcome.\<close>

definition lease_release :: "start_lease \<Rightarrow> outcome \<Rightarrow> ownership_state \<Rightarrow> ownership_state" where
  "lease_release l r s = start_finish (ls_completion l) r (s\<lparr>os_starts := al_del (ls_id l) (os_starts s)\<rparr>)"

definition lease_track :: "start_lease \<Rightarrow> discovery_kind \<Rightarrow> u64 \<Rightarrow> ownership_state
    \<Rightarrow> (unit + unit) \<times> start_lease \<times> ownership_state" where
  "lease_track l kind h s = (if \<not> owner_is_current s (ls_owner l) then (Inl (), l, s)
     else (Inr (), l\<lparr>ls_active := False\<rparr>, lease_release l (Inr ()) (put_session kind h (ls_owner l) s)))"

definition finish_cleanup :: "start_lease \<Rightarrow> outcome \<Rightarrow> ownership_state \<Rightarrow> ownership_state" where
  "finish_cleanup l r s = lease_release l r s"

text \<open>The detached task owns the lease; \<open>env\<close> is what happens while the native clean-up runs.\<close>

definition reconcile_cleanup :: "start_lease \<Rightarrow> outcome \<Rightarrow> (ownership_state \<Rightarrow> ownership_state) list
    \<Rightarrow> ownership_state \<Rightarrow> outcome \<times> ownership_state" where
  "reconcile_cleanup l r env s = (r, finish_cleanup l r (fold (\<lambda>f. f) env s))"

definition ABANDONED :: string where
  "ABANDONED = ''native discovery start was abandoned before cleanup completed''"

definition lease_drop :: "start_lease \<Rightarrow> ownership_state \<Rightarrow> ownership_state" where
  "lease_drop l s = (if \<not> ls_active l then s
     else lease_release l (if ls_native_started l then Inl ABANDONED else Inr ()) s)"

section \<open>Retirement\<close>

record discovery_retirement =
  rt_sessions :: "tracked_discovery list"
  rt_starts :: "nat list"
  rt_webview_cleanup :: "webview_cleanup_retirement option"
  rt_owner_cleanups :: "webview_cleanup_retirement list"

definition take_matching :: "(tracked_discovery \<Rightarrow> bool) \<Rightarrow> ownership_state \<Rightarrow> tracked_discovery list \<times> ownership_state" where
  "take_matching P s = (map snd (filter (\<lambda>(k, t). P t) (os_sessions s)),
     s\<lparr>os_sessions := filter (\<lambda>(k, t). \<not> P t) (os_sessions s)\<rparr>)"

definition take_retirement :: "(discovery_owner \<Rightarrow> bool) \<Rightarrow> ownership_state \<Rightarrow> discovery_retirement \<times> ownership_state" where
  "take_retirement P s = (case take_matching (\<lambda>t. P (td_owner t)) s of (ts, s1) \<Rightarrow>
     (\<lparr>rt_sessions = ts,
       rt_starts = map (\<lambda>(_, p). ps_completion p) (filter (\<lambda>(_, p). P (ps_owner p)) (os_starts s1)),
       rt_webview_cleanup = None, rt_owner_cleanups = []\<rparr>, s1))"

definition matching_owner_labels :: "(discovery_owner \<Rightarrow> bool) \<Rightarrow> ownership_state \<Rightarrow> string list" where
  "matching_owner_labels P s = remdups_adj (sort
     (map (\<lambda>(_, t). owner_label (td_owner t)) (filter (\<lambda>(_, t). P (td_owner t)) (os_sessions s))
      @ map (\<lambda>(_, p). owner_label (ps_owner p)) (filter (\<lambda>(_, p). P (ps_owner p)) (os_starts s))))"

definition install_cleanup :: "string \<Rightarrow> ownership_state \<Rightarrow> webview_cleanup_retirement \<times> ownership_state" where
  "install_cleanup w s = (case cleanup_new s of (c, s1) \<Rightarrow>
     (\<lparr>wr_label = w, wr_current = c, wr_previous = map_of (os_webview_cleanups s1) w\<rparr>,
      s1\<lparr>os_webview_cleanups := al_put w c (os_webview_cleanups s1)\<rparr>))"

fun install_owner_cleanups :: "string list \<Rightarrow> ownership_state \<Rightarrow> webview_cleanup_retirement list \<times> ownership_state" where
  "install_owner_cleanups [] s = ([], s)"
| "install_owner_cleanups (w # ws) s = (case install_cleanup w s of (c, s1) \<Rightarrow>
     (case install_owner_cleanups ws s1 of (cs, s2) \<Rightarrow> (c # cs, s2)))"

definition begin_session_cleanup :: "discovery_kind \<Rightarrow> u64 \<Rightarrow> ownership_state
    \<Rightarrow> webview_cleanup_retirement option \<times> ownership_state" where
  "begin_session_cleanup kind h s = (case map_of (os_sessions s) (kind, h) of
       None \<Rightarrow> (None, s)
     | Some t \<Rightarrow> (case install_cleanup (owner_label (td_owner t)) (s\<lparr>os_sessions := al_del (kind, h) (os_sessions s)\<rparr>) of
         (c, s1) \<Rightarrow> (Some c, s1)))"

definition retire_endpoint :: "u64 \<Rightarrow> ownership_state \<Rightarrow> (discovery_retirement \<times> ownership_state) option" where
  "retire_endpoint e s = (case bump False e (os_endpoints s) of
       None \<Rightarrow> None
     | Some m \<Rightarrow>
        (let s1 = s\<lparr>os_endpoints := m\<rparr>;
             P = (\<lambda>ow. owner_endpoint ow = Some e);
             labels = matching_owner_labels P s1
         in case take_retirement P s1 of (r, s2) \<Rightarrow>
             (case install_owner_cleanups labels s2 of (cs, s3) \<Rightarrow> Some (r\<lparr>rt_owner_cleanups := cs\<rparr>, s3))))"

text \<open>\<open>advance_webview\<close> and \<open>retire_webview\<close> differ in the new activity only.\<close>

definition webview_transition :: "bool \<Rightarrow> string \<Rightarrow> ownership_state \<Rightarrow> (discovery_retirement \<times> ownership_state) option" where
  "webview_transition active w s = (case install_cleanup w s of (c, s1) \<Rightarrow>
     (case bump active w (os_webviews s1) of
        None \<Rightarrow> None
      | Some m \<Rightarrow> (case take_retirement (\<lambda>ow. owner_label ow = w) (s1\<lparr>os_webviews := m\<rparr>) of
          (r, s2) \<Rightarrow> Some (r\<lparr>rt_webview_cleanup := Some c\<rparr>, s2))))"

definition advance_webview :: "string \<Rightarrow> ownership_state \<Rightarrow> (discovery_retirement \<times> ownership_state) option" where
  "advance_webview w s = webview_transition True w s"

definition retire_webview :: "string \<Rightarrow> ownership_state \<Rightarrow> (discovery_retirement \<times> ownership_state) option" where
  "retire_webview w s = webview_transition False w s"

definition retire_all :: "ownership_state \<Rightarrow> (discovery_retirement \<times> ownership_state) option" where
  "retire_all s = (case bump_all (os_endpoints s) of
       None \<Rightarrow> None
     | Some es \<Rightarrow> (case bump_all (os_webviews s) of
         None \<Rightarrow> None
       | Some ws \<Rightarrow>
          (let s1 = s\<lparr>os_endpoints := es, os_webviews := ws\<rparr>;
               labels = matching_owner_labels (\<lambda>_. True) s1;
               r = \<lparr>rt_sessions = map snd (os_sessions s1), rt_starts = map (\<lambda>(_, p). ps_completion p) (os_starts s1),
                    rt_webview_cleanup = None, rt_owner_cleanups = []\<rparr>
           in case install_owner_cleanups labels (s1\<lparr>os_sessions := []\<rparr>) of
               (cs, s2) \<Rightarrow> Some (r\<lparr>rt_owner_cleanups := cs\<rparr>, s2))))"

end
