(* ===== verification/Disc_Owner_Props.thy ===== *)
theory Disc_Owner_Props
  imports Disc_Ownership
begin

text \<open>Ownership of discovery sessions: in every reachable state each tracked session belongs to current
  generations, and what was captured before a retirement can never attach after it.  The capture
  contract is the locale \<open>captured_owner\<close>, interpreted on peer tokens, page tokens and start leases.\<close>

section \<open>Steps\<close>

definition lease_ok :: "ownership_state \<Rightarrow> start_lease \<Rightarrow> bool" where
  "lease_ok s l \<longleftrightarrow> ls_active l
     \<and> map_of (os_starts s) (ls_id l) = Some \<lparr>ps_owner = ls_owner l, ps_completion = ls_completion l\<rparr>"

definition endpoint_active :: "u64 \<Rightarrow> ownership_state \<Rightarrow> bool" where
  "endpoint_active e s \<longleftrightarrow> (\<exists>x. map_of (os_endpoints s) e = Some x \<and> og_active x)"

text \<open>The operations that touch no clean-up fence.  Callers activate a handle that is not in use (endpoint
  handles are never re-issued) and pass kinds that fit the owner, as the debug assertions demand.\<close>

inductive plain_step :: "ownership_state \<Rightarrow> ownership_state \<Rightarrow> bool" where
  pl_activate: "\<not> endpoint_active e s \<Longrightarrow> activate_endpoint e s = Some s' \<Longrightarrow> plain_step s s'"
| pl_begin_peer: "plain_step s (snd (begin_peer e w s))"
| pl_begin_webview: "plain_step s (snd (begin_webview w s))"
| pl_peer_start: "begin_peer_start e w s = Some (r, s') \<Longrightarrow> plain_step s s'"
| pl_webview_start: "begin_webview_start w s = Some (r, s') \<Longrightarrow> plain_step s s'"
| pl_track_peer: "k = BrowsePeers \<or> k = AdvertisePeer \<Longrightarrow> plain_step s (snd (track_peer t k h s))"
| pl_track_generic: "k = GenericAdvertise \<or> k = GenericBrowse \<Longrightarrow> plain_step s (snd (track_generic u k h s))"
| pl_lease_track: "lease_ok s l \<Longrightarrow> kind_matches_owner k (ls_owner l) \<Longrightarrow> plain_step s (snd (snd (lease_track l k h s)))"
| pl_finish: "lease_ok s l \<Longrightarrow> plain_step s (finish_cleanup l r s)"
| pl_drop: "lease_ok s l \<Longrightarrow> plain_step s (lease_drop l s)"
| pl_untrack: "plain_step s (snd (untrack k h s))"

inductive own_step :: "ownership_state \<Rightarrow> ownership_state \<Rightarrow> bool" where
  os_plain: "plain_step s s' \<Longrightarrow> own_step s s'"
| os_session: "own_step s (snd (begin_session_cleanup k h s))"
| os_endpoint: "retire_endpoint e s = Some (r, s') \<Longrightarrow> own_step s s'"
| os_advance: "advance_webview w s = Some (r, s') \<Longrightarrow> own_step s s'"
| os_retire: "retire_webview w s = Some (r, s') \<Longrightarrow> own_step s s'"
| os_all: "retire_all s = Some (r, s') \<Longrightarrow> own_step s s'"
| os_publish: "own_step s (cleanup_finish i r s)"
| os_retract: "own_step s (cleanup_retract c s)"

definition own_steps :: "ownership_state \<Rightarrow> ownership_state \<Rightarrow> bool" where
  "own_steps = own_step\<^sup>*\<^sup>*"

definition own_reachable :: "ownership_state \<Rightarrow> bool" where
  "own_reachable s \<longleftrightarrow> own_steps ownership_default s"

section \<open>What the operations change\<close>

lemma seen_webview_frame:
  assumes "seen_webview w s = (x, s')"
  shows "os_sessions s' = os_sessions s" "os_starts s' = os_starts s" "os_next_start s' = os_next_start s"
    "os_endpoints s' = os_endpoints s" "os_webview_cleanups s' = os_webview_cleanups s"
    "os_start_fences s' = os_start_fences s" "os_cleanup_fences s' = os_cleanup_fences s"
    "map_of (os_webviews s') w = Some x"
    "map_of (os_webviews s') w' = (if w' = w then Some x else map_of (os_webviews s) w')"
    "map_of (os_webviews s) w = None \<or> map_of (os_webviews s) w = Some x"
  using assms by (auto simp: seen_webview_def Let_def split: option.splits)

lemma put_session_frame [simp]:
  "os_starts (put_session k h ow s) = os_starts s" "os_next_start (put_session k h ow s) = os_next_start s"
  "os_endpoints (put_session k h ow s) = os_endpoints s" "os_webviews (put_session k h ow s) = os_webviews s"
  "os_webview_cleanups (put_session k h ow s) = os_webview_cleanups s"
  "os_start_fences (put_session k h ow s) = os_start_fences s"
  "os_cleanup_fences (put_session k h ow s) = os_cleanup_fences s"
  by (simp_all add: put_session_def)

lemma lease_release_frame [simp]:
  "os_sessions (lease_release l r s) = os_sessions s" "os_next_start (lease_release l r s) = os_next_start s"
  "os_endpoints (lease_release l r s) = os_endpoints s" "os_webviews (lease_release l r s) = os_webviews s"
  "os_webview_cleanups (lease_release l r s) = os_webview_cleanups s"
  "os_cleanup_fences (lease_release l r s) = os_cleanup_fences s"
  "os_starts (lease_release l r s) = al_del (ls_id l) (os_starts s)"
  "os_start_fences (lease_release l r s) = fence_finish (ls_completion l) r (os_start_fences s)"
  by (simp_all add: lease_release_def start_finish_def)

lemma insert_start_frame:
  assumes "insert_start ow prior s = Some (l, s')"
  shows "os_sessions s' = os_sessions s" "os_endpoints s' = os_endpoints s" "os_webviews s' = os_webviews s"
    "os_webview_cleanups s' = os_webview_cleanups s" "os_cleanup_fences s' = os_cleanup_fences s"
    "os_start_fences s' = os_start_fences s @ [None]"
    "os_starts s' = al_put (os_next_start s) \<lparr>ps_owner = ow, ps_completion = length (os_start_fences s)\<rparr> (os_starts s)"
    "os_next_start s' = os_next_start s + 1" "os_next_start s \<noteq> - 1"
    "l = \<lparr>ls_id = os_next_start s, ls_owner = ow, ls_completion = length (os_start_fences s), ls_active = True,
       ls_native_started = False, ls_prior_cleanup = prior\<rparr>"
  using assms by (auto simp: insert_start_def next_start_def next_generation_def Let_def split: option.splits if_splits)

lemma install_cleanup_frame [simp]:
  "os_sessions (snd (install_cleanup w s)) = os_sessions s" "os_starts (snd (install_cleanup w s)) = os_starts s"
  "os_next_start (snd (install_cleanup w s)) = os_next_start s" "os_endpoints (snd (install_cleanup w s)) = os_endpoints s"
  "os_webviews (snd (install_cleanup w s)) = os_webviews s" "os_start_fences (snd (install_cleanup w s)) = os_start_fences s"
  by (simp_all add: install_cleanup_def cleanup_new_def)

lemma install_owner_cleanups_frame [simp]:
  "os_sessions (snd (install_owner_cleanups ws s)) = os_sessions s"
  "os_starts (snd (install_owner_cleanups ws s)) = os_starts s"
  "os_next_start (snd (install_owner_cleanups ws s)) = os_next_start s"
  "os_endpoints (snd (install_owner_cleanups ws s)) = os_endpoints s"
  "os_webviews (snd (install_owner_cleanups ws s)) = os_webviews s"
  "os_start_fences (snd (install_owner_cleanups ws s)) = os_start_fences s"
proof (induction ws arbitrary: s)
  case (Cons w ws)
  case 1 show ?case using Cons(1) [of "snd (install_cleanup w s)"] by (simp add: case_prod_beta)
  case 2 show ?case using Cons(2) [of "snd (install_cleanup w s)"] by (simp add: case_prod_beta)
  case 3 show ?case using Cons(3) [of "snd (install_cleanup w s)"] by (simp add: case_prod_beta)
  case 4 show ?case using Cons(4) [of "snd (install_cleanup w s)"] by (simp add: case_prod_beta)
  case 5 show ?case using Cons(5) [of "snd (install_cleanup w s)"] by (simp add: case_prod_beta)
  case 6 show ?case using Cons(6) [of "snd (install_cleanup w s)"] by (simp add: case_prod_beta)
qed simp_all

lemma cleanup_frame [simp]:
  "os_sessions (cleanup_finish i r s) = os_sessions s" "os_starts (cleanup_finish i r s) = os_starts s"
  "os_next_start (cleanup_finish i r s) = os_next_start s" "os_endpoints (cleanup_finish i r s) = os_endpoints s"
  "os_webviews (cleanup_finish i r s) = os_webviews s" "os_start_fences (cleanup_finish i r s) = os_start_fences s"
  "os_webview_cleanups (cleanup_finish i r s) = os_webview_cleanups s"
  "os_sessions (cleanup_retract c s) = os_sessions s" "os_starts (cleanup_retract c s) = os_starts s"
  "os_next_start (cleanup_retract c s) = os_next_start s" "os_endpoints (cleanup_retract c s) = os_endpoints s"
  "os_webviews (cleanup_retract c s) = os_webviews s" "os_start_fences (cleanup_retract c s) = os_start_fences s"
  "os_cleanup_fences (cleanup_retract c s) = os_cleanup_fences s"
  by (simp_all add: cleanup_finish_def cleanup_retract_def)

text \<open>The shared shape of the three drains.\<close>

lemma retire_endpoint_cases:
  assumes "retire_endpoint e s = Some (r, s')"
  obtains m where "bump False e (os_endpoints s) = Some m" "os_endpoints s' = m" "os_webviews s' = os_webviews s"
    "os_sessions s' = filter (\<lambda>(_, t). owner_endpoint (td_owner t) \<noteq> Some e) (os_sessions s)"
    "os_starts s' = os_starts s" "os_next_start s' = os_next_start s" "os_start_fences s' = os_start_fences s"
    "rt_sessions r = map snd (filter (\<lambda>(_, t). owner_endpoint (td_owner t) = Some e) (os_sessions s))"
    "rt_starts r = map (\<lambda>(_, p). ps_completion p) (filter (\<lambda>(_, p). owner_endpoint (ps_owner p) = Some e) (os_starts s))"
  using assms
  by (auto simp: retire_endpoint_def take_retirement_def take_matching_def case_prod_beta Let_def split: option.splits)

lemma webview_transition_cases:
  assumes "webview_transition a w s = Some (r, s')"
  obtains m where "bump a w (os_webviews s) = Some m" "os_webviews s' = m" "os_endpoints s' = os_endpoints s"
    "os_sessions s' = filter (\<lambda>(_, t). owner_label (td_owner t) \<noteq> w) (os_sessions s)"
    "os_starts s' = os_starts s" "os_next_start s' = os_next_start s" "os_start_fences s' = os_start_fences s"
    "rt_sessions r = map snd (filter (\<lambda>(_, t). owner_label (td_owner t) = w) (os_sessions s))"
    "rt_starts r = map (\<lambda>(_, p). ps_completion p) (filter (\<lambda>(_, p). owner_label (ps_owner p) = w) (os_starts s))"
  using assms
  by (auto simp: webview_transition_def take_retirement_def take_matching_def case_prod_beta split: option.splits)

lemma retire_all_cases:
  assumes "retire_all s = Some (r, s')"
  obtains "bump_all (os_endpoints s) = Some (os_endpoints s')" "bump_all (os_webviews s) = Some (os_webviews s')"
    "os_sessions s' = []" "os_starts s' = os_starts s" "os_next_start s' = os_next_start s"
    "os_start_fences s' = os_start_fences s"
    "rt_sessions r = map snd (os_sessions s)" "rt_starts r = map (\<lambda>(_, p). ps_completion p) (os_starts s)"
  using assms by (auto simp: retire_all_def case_prod_beta Let_def split: option.splits)


section \<open>Generations only grow\<close>

definition stale :: "('k \<times> owner_generation) list \<Rightarrow> 'k \<Rightarrow> u64 \<Rightarrow> bool" where
  "stale m k g \<longleftrightarrow> (\<exists>x. map_of m k = Some x \<and> (g < og_generation x \<or> g = og_generation x \<and> \<not> og_active x))"

definition captured :: "('k \<times> owner_generation) list \<Rightarrow> 'k \<Rightarrow> u64 \<Rightarrow> bool" where
  "captured m k g \<longleftrightarrow> generation_is_current m k g \<or> stale m k g"

definition gens_le :: "('k \<times> owner_generation) list \<Rightarrow> ('k \<times> owner_generation) list \<Rightarrow> bool" where
  "gens_le m m' \<longleftrightarrow> (\<forall>k g. (stale m k g \<longrightarrow> stale m' k g) \<and> (captured m k g \<longrightarrow> captured m' k g))"

lemma gens_le_refl [simp]: "gens_le m m"
  by (simp add: gens_le_def)

lemma gens_le_trans: "gens_le m m' \<Longrightarrow> gens_le m' m'' \<Longrightarrow> gens_le m m''"
  by (simp add: gens_le_def)

lemma stale_not_current: "stale m k g \<Longrightarrow> \<not> generation_is_current m k g"
  by (auto simp: stale_def generation_is_current_def)

lemma succ_greater: "g \<noteq> - 1 \<Longrightarrow> g < g + 1" for g :: u64
proof -
  assume "g \<noteq> - 1"
  then have "1 + g \<noteq> 0" by (metis add.commute add_eq_0_iff)
  then have "unat (1 + g) = Suc (unat g)" by (rule unatSuc)
  then show ?thesis by (simp add: word_less_nat_alt add.commute)
qed

lemma bump_lookup:
  assumes "bump a k m = Some m'"
  shows "map_of m' k' = (if k' = k then Some \<lparr>og_generation = (case map_of m k of None \<Rightarrow> 0 | Some x \<Rightarrow> og_generation x) + 1,
      og_active = a\<rparr> else map_of m k')"
    and "(case map_of m k of None \<Rightarrow> 0 | Some x \<Rightarrow> og_generation x) \<noteq> - 1"
  using assms by (auto simp: bump_def next_generation_def Let_def split: option.splits if_splits)

lemma bump_captured_stale:
  assumes "bump a k m = Some m'" "captured m k g"
  shows "stale m' k g"
proof -
  obtain x where x: "map_of m k = Some x" "g \<le> og_generation x" "og_generation x \<noteq> - 1"
    using assms(2) bump_lookup(2) [OF assms(1)] by (auto simp: captured_def stale_def generation_is_current_def split: option.splits)
  then have "g < og_generation x + 1" using succ_greater by (metis order.strict_trans1)
  then show ?thesis using x(1) by (auto simp: stale_def bump_lookup(1) [OF assms(1)])
qed

lemma bump_other: "bump a k m = Some m' \<Longrightarrow> k' \<noteq> k \<Longrightarrow> map_of m' k' = map_of m k'"
  by (simp add: bump_lookup(1))

lemma gens_le_bump:
  assumes "bump a k m = Some m'"
  shows "gens_le m m'"
  unfolding gens_le_def
proof (intro allI conjI impI)
  fix k' g
  show "stale m' k' g" if "stale m k' g"
    using that bump_captured_stale [OF assms] bump_other [OF assms] by (cases "k' = k") (auto simp: captured_def stale_def)
  show "captured m' k' g" if "captured m k' g"
    using that bump_captured_stale [OF assms] bump_other [OF assms]
    by (cases "k' = k") (auto simp: captured_def stale_def generation_is_current_def)
qed

lemma bump_all_lookup:
  assumes "bump_all m = Some m'"
  shows "map_of m' k = map_option (\<lambda>x. \<lparr>og_generation = og_generation x + 1, og_active = False\<rparr>) (map_of m k)
    \<and> (\<forall>x. map_of m k = Some x \<longrightarrow> og_generation x \<noteq> - 1)"
  using assms
  by (induction m arbitrary: m') (auto simp: bump_all_def next_generation_def split: if_splits option.splits)

lemma bump_all_captured_stale:
  assumes "bump_all m = Some m'" "captured m k g"
  shows "stale m' k g"
proof -
  obtain x where x: "map_of m k = Some x" "g \<le> og_generation x"
    using assms(2) by (auto simp: captured_def stale_def generation_is_current_def split: option.splits)
  then have "og_generation x \<noteq> - 1" using bump_all_lookup [OF assms(1), of k] by blast
  then have "g < og_generation x + 1" using x(2) succ_greater by (metis order.strict_trans1)
  then show ?thesis using x(1) bump_all_lookup [OF assms(1), of k] by (auto simp: stale_def)
qed

lemma gens_le_bump_all: "bump_all m = Some m' \<Longrightarrow> gens_le m m'"
  unfolding gens_le_def using bump_all_captured_stale captured_def by metis

lemma gens_le_extend: "(\<And>k y. map_of m k = Some y \<Longrightarrow> map_of m' k = Some y) \<Longrightarrow> gens_le m m'"
  by (fastforce simp: gens_le_def captured_def stale_def generation_is_current_def split: option.splits)

lemma gens_le_seen: "seen_webview w s = (x, s') \<Longrightarrow> gens_le (os_webviews s) (os_webviews s')"
  by (rule gens_le_extend) (auto simp: seen_webview_def Let_def split: option.splits if_splits)

lemma insert_start_maps:
  "insert_start ow prior s = Some (l, s') \<Longrightarrow> os_endpoints s' = os_endpoints s \<and> os_webviews s' = os_webviews s"
  by (simp add: insert_start_frame)

lemma plain_gens:
  assumes "plain_step s s'"
  shows "gens_le (os_endpoints s) (os_endpoints s') \<and> gens_le (os_webviews s) (os_webviews s')"
  using assms
proof cases
  case (pl_activate e)
  then show ?thesis using gens_le_bump by (auto simp: activate_endpoint_def)
next
  case (pl_begin_peer e w)
  then show ?thesis
    using gens_le_seen [of w s] seen_webview_frame(4) [of w s]
    by (auto simp: begin_peer_def split: option.splits prod.splits)
next
  case (pl_begin_webview w)
  then show ?thesis
    using gens_le_seen [of w s] seen_webview_frame(4) [of w s] by (auto simp: begin_webview_def split: prod.splits)
next
  case (pl_peer_start e w r)
  then show ?thesis
    using gens_le_seen [of w s] seen_webview_frame(4) [of w s]
    by (auto simp: begin_peer_start_def split: option.splits prod.splits if_splits dest!: insert_start_maps)
next
  case (pl_webview_start w r)
  then show ?thesis
    using gens_le_seen [of w s] seen_webview_frame(4) [of w s]
    by (auto simp: begin_webview_start_def split: prod.splits if_splits dest!: insert_start_maps)
qed (auto simp: track_peer_def track_generic_def lease_track_def finish_cleanup_def lease_drop_def untrack_def)

lemma own_step_gens:
  assumes "own_step s s'"
  shows "gens_le (os_endpoints s) (os_endpoints s') \<and> gens_le (os_webviews s) (os_webviews s')"
  using assms
proof cases
  case (os_session k h)
  then show ?thesis by (auto simp: begin_session_cleanup_def case_prod_beta split: option.splits)
next
  case (os_endpoint e r)
  then show ?thesis using gens_le_bump by (auto elim!: retire_endpoint_cases)
next
  case (os_advance w r)
  then show ?thesis using gens_le_bump by (auto simp: advance_webview_def elim!: webview_transition_cases)
next
  case (os_retire w r)
  then show ?thesis using gens_le_bump by (auto simp: retire_webview_def elim!: webview_transition_cases)
next
  case (os_all r)
  then show ?thesis by (auto elim!: retire_all_cases intro: gens_le_bump_all)
qed (auto simp: plain_gens)

lemma own_steps_gens:
  assumes "own_steps s s'"
  shows "gens_le (os_endpoints s) (os_endpoints s') \<and> gens_le (os_webviews s) (os_webviews s')"
  using assms unfolding own_steps_def
  by (induction rule: rtranclp_induct) (auto dest: own_step_gens intro: gens_le_trans)


section \<open>Tracked sessions belong to current owners\<close>

definition session_ok :: "ownership_state \<Rightarrow> (discovery_kind \<times> u64) \<times> tracked_discovery \<Rightarrow> bool" where
  "session_ok s = (\<lambda>(kh, t). kh = (td_kind t, td_handle t) \<and> kind_matches_owner (td_kind t) (td_owner t)
     \<and> owner_is_current s (td_owner t))"

definition own_inv :: "ownership_state \<Rightarrow> bool" where
  "own_inv s \<longleftrightarrow> list_all (session_ok s) (os_sessions s) \<and> distinct (keys (os_sessions s))"

text \<open>A lookup that stays keeps an owner current.\<close>

definition keeps_current :: "ownership_state \<Rightarrow> ownership_state \<Rightarrow> discovery_owner \<Rightarrow> bool" where
  "keeps_current s s' ow \<longleftrightarrow> (owner_is_current s ow \<longrightarrow> owner_is_current s' ow)"

lemma keeps_current_same:
  "os_endpoints s' = os_endpoints s \<Longrightarrow> os_webviews s' = os_webviews s \<Longrightarrow> keeps_current s s' ow"
  by (cases ow) (simp_all add: keeps_current_def)

lemma keeps_current_seen:
  assumes "seen_webview w s = (x, s1)" "os_endpoints s' = os_endpoints s1" "os_webviews s' = os_webviews s1"
  shows "keeps_current s s' ow"
  using assms by (cases ow) (auto simp: keeps_current_def generation_is_current_def seen_webview_def Let_def split: option.splits if_splits)

lemma keeps_current_endpoint:
  assumes "bump a e (os_endpoints s) = Some (os_endpoints s')" "os_webviews s' = os_webviews s"
    and "owner_endpoint ow \<noteq> Some e \<or> \<not> endpoint_active e s"
  shows "keeps_current s s' ow"
  using assms
  by (cases ow) (auto simp: keeps_current_def generation_is_current_def bump_lookup(1) [OF assms(1)] endpoint_active_def split: option.splits)

lemma keeps_current_webview:
  assumes "bump a w (os_webviews s) = Some (os_webviews s')" "os_endpoints s' = os_endpoints s" "owner_label ow \<noteq> w"
  shows "keeps_current s s' ow"
  using assms by (cases ow) (auto simp: keeps_current_def generation_is_current_def bump_lookup(1) [OF assms(1)])

lemma own_inv_sub:
  assumes "own_inv s" "set (os_sessions s') \<subseteq> set (os_sessions s)" "distinct (keys (os_sessions s'))"
    and "\<And>kh t. (kh, t) \<in> set (os_sessions s') \<Longrightarrow> keeps_current s s' (td_owner t)"
  shows "own_inv s'"
  using assms by (fastforce simp: own_inv_def session_ok_def list_all_iff keeps_current_def)

lemma own_inv_put:
  assumes "own_inv s" "kind_matches_owner k ow" "owner_is_current s ow"
    and "os_sessions s' = os_sessions (put_session k h ow s)" "os_endpoints s' = os_endpoints s" "os_webviews s' = os_webviews s"
  shows "own_inv s'"
proof -
  have c: "owner_is_current s' o' = owner_is_current s o'" for o' using assms(5,6) by (cases o') simp_all
  have "distinct (keys (os_sessions s'))" using assms(1,4) by (auto simp: own_inv_def put_session_def al_put_def)
  moreover have "list_all (session_ok s') (os_sessions s')"
    using assms(1-4) by (auto simp: own_inv_def put_session_def al_put_def list_all_iff session_ok_def c al_del_def)
  ultimately show ?thesis by (simp add: own_inv_def)
qed

lemma begin_peer_state: "snd (begin_peer e w s) = s \<or> snd (begin_peer e w s) = snd (seen_webview w s)"
  by (simp add: begin_peer_def case_prod_beta split: option.splits)

lemma begin_start_state:
  assumes "begin_peer_start e w s = Some (r, s') \<or> begin_webview_start w s = Some (r, s')"
  shows "s' = s \<or> (os_endpoints s' = os_endpoints s \<and> os_webviews s' = os_webviews (snd (seen_webview w s))
     \<and> os_sessions s' = os_sessions s)"
proof -
  obtain x s1 where x: "seen_webview w s = (x, s1)" by fastforce
  show ?thesis
    using assms seen_webview_frame(1,4) [OF x]
    by (auto simp: begin_peer_start_def begin_webview_start_def x split: option.splits if_splits
        dest: insert_start_frame(1) insert_start_maps)
qed

lemma own_inv_seen:
  assumes "own_inv s" "os_endpoints s' = os_endpoints s" "os_webviews s' = os_webviews (snd (seen_webview w s))"
    "os_sessions s' = os_sessions s"
  shows "own_inv s'"
proof -
  obtain x s1 where x: "seen_webview w s = (x, s1)" by fastforce
  show ?thesis
    using assms by (intro own_inv_sub [OF assms(1)] keeps_current_seen [OF x]) (simp_all add: x seen_webview_frame [OF x] own_inv_def)
qed

lemma own_inv_seen_webview: "own_inv s \<Longrightarrow> own_inv (snd (seen_webview w s))"
  by (rule own_inv_seen [of s _ w]) (auto simp: seen_webview_def Let_def split: option.splits)

lemma distinct_al_del: "own_inv s \<Longrightarrow> distinct (keys (al_del k (os_sessions s)))"
  by (simp add: own_inv_def)

lemma own_inv_plain:
  assumes "own_inv s" "plain_step s s'"
  shows "own_inv s'"
  using assms(2)
proof cases
  case (pl_activate e)
  then have "bump True e (os_endpoints s) = Some (os_endpoints s')" "os_webviews s' = os_webviews s" "os_sessions s' = os_sessions s"
    by (auto simp: activate_endpoint_def)
  then show ?thesis
    using assms(1) pl_activate(1) by (intro own_inv_sub [OF assms(1)] keeps_current_endpoint) (auto simp: own_inv_def)
next
  case (pl_begin_peer e w)
  then show ?thesis using begin_peer_state [of e w s] own_inv_seen_webview [OF assms(1), of w] assms(1) by auto
next
  case (pl_begin_webview w)
  then show ?thesis using own_inv_seen_webview [OF assms(1), of w] by (simp add: begin_webview_def case_prod_beta)
next
  case (pl_peer_start e w r)
  then show ?thesis using begin_start_state [of e w s r s'] own_inv_seen [OF assms(1), of s' w] assms(1) by auto
next
  case (pl_webview_start w r)
  then show ?thesis using begin_start_state [of _ w s r s'] own_inv_seen [OF assms(1), of s' w] assms(1) by auto
next
  case (pl_track_peer k t h)
  then show ?thesis
    using assms(1) own_inv_put [OF assms(1), where s' = "put_session k h ow s" and ow = ow for ow]
    by (auto simp: track_peer_def peer_owner_is_current_def)
next
  case (pl_track_generic k u h)
  then show ?thesis
    using assms(1) own_inv_put [OF assms(1), where s' = "put_session k h ow s" and ow = ow for ow]
    by (auto simp: track_generic_def webview_owner_is_current_def)
next
  case (pl_lease_track l k h)
  then show ?thesis using assms(1) own_inv_put [OF assms(1), of k "ls_owner l" s' h] by (auto simp: lease_track_def)
next
  case (pl_untrack k h)
  then show ?thesis
    using assms(1) distinct_al_del [OF assms(1), of "(k, h)"]
    by (intro own_inv_sub [OF assms(1)] keeps_current_same) (auto simp: untrack_def al_del_def)
qed (use assms(1) in \<open>auto simp: finish_cleanup_def lease_drop_def intro!: own_inv_sub [OF assms(1)] keeps_current_same, auto simp: own_inv_def\<close>)

lemma own_inv_step:
  assumes "own_inv s" "own_step s s'"
  shows "own_inv s'"
  using assms(2)
proof cases
  case os_plain
  then show ?thesis using own_inv_plain assms(1) by blast
next
  case (os_session k h)
  then have "os_sessions s' = os_sessions s \<or> os_sessions s' = al_del (k, h) (os_sessions s)"
    "os_endpoints s' = os_endpoints s" "os_webviews s' = os_webviews s"
    by (auto simp: begin_session_cleanup_def case_prod_beta split: option.splits)
  then show ?thesis
    using assms(1) distinct_al_del [OF assms(1), of "(k, h)"]
    by (intro own_inv_sub [OF assms(1)] keeps_current_same) (auto simp: own_inv_def al_del_def)
next
  case (os_endpoint e r)
  then show ?thesis
    using assms(1)
    by (elim retire_endpoint_cases) (rule own_inv_sub [OF assms(1)], auto simp: own_inv_def intro!: distinct_keys_filter keeps_current_endpoint [of False e])
next
  case (os_advance w r)
  then show ?thesis
    unfolding advance_webview_def using assms(1)
    by (elim webview_transition_cases) (rule own_inv_sub [OF assms(1)], auto simp: own_inv_def intro!: distinct_keys_filter keeps_current_webview [of True w])
next
  case (os_retire w r)
  then show ?thesis
    unfolding retire_webview_def using assms(1)
    by (elim webview_transition_cases) (rule own_inv_sub [OF assms(1)], auto simp: own_inv_def intro!: distinct_keys_filter keeps_current_webview [of False w])
next
  case (os_all r)
  then show ?thesis by (auto simp: own_inv_def elim: retire_all_cases)
qed (use assms(1) in \<open>auto intro!: own_inv_sub [OF assms(1)] keeps_current_same, auto simp: own_inv_def\<close>)

lemma own_inv_steps: "own_steps s s' \<Longrightarrow> own_inv s \<Longrightarrow> own_inv s'"
  unfolding own_steps_def by (induction rule: rtranclp_induct) (auto intro: own_inv_step)

lemma own_inv_default: "own_inv ownership_default"
  by (simp add: own_inv_def ownership_default_def)


section \<open>Capture and retirement\<close>

definition peer_owner_of :: "peer_owner_token \<Rightarrow> discovery_owner" where
  "peer_owner_of t = PeerOwner (pt_endpoint_handle t) (pt_endpoint_generation t) (pt_webview_label t) (pt_webview_generation t)"

definition webview_owner_of :: "webview_owner_token \<Rightarrow> discovery_owner" where
  "webview_owner_of t = WebviewOwner (wt_webview_label t) (wt_webview_generation t)"

fun owner_stale :: "ownership_state \<Rightarrow> discovery_owner \<Rightarrow> bool" where
  "owner_stale s (PeerOwner e eg w wg) = (stale (os_endpoints s) e eg \<or> stale (os_webviews s) w wg)"
| "owner_stale s (WebviewOwner w wg) = stale (os_webviews s) w wg"

fun owner_captured :: "ownership_state \<Rightarrow> discovery_owner \<Rightarrow> bool" where
  "owner_captured s (PeerOwner e eg w wg) = (captured (os_endpoints s) e eg \<and> captured (os_webviews s) w wg)"
| "owner_captured s (WebviewOwner w wg) = captured (os_webviews s) w wg"

lemma current_captured: "owner_is_current s ow \<Longrightarrow> owner_captured s ow"
  by (cases ow) (simp_all add: captured_def)

lemma owner_stale_not_current: "owner_stale s ow \<Longrightarrow> \<not> owner_is_current s ow"
  by (cases ow) (auto dest: stale_not_current)

lemma owner_captured_steps: "own_steps s s' \<Longrightarrow> owner_captured s ow \<Longrightarrow> owner_captured s' ow"
  using own_steps_gens [of s s'] by (cases ow) (auto simp: gens_le_def)

lemma owner_stale_steps: "own_steps s s' \<Longrightarrow> owner_stale s ow \<Longrightarrow> owner_stale s' ow"
  using own_steps_gens [of s s'] by (cases ow) (auto simp: gens_le_def)

text \<open>The transitions that retire an owner.\<close>

definition retires_owner :: "discovery_owner \<Rightarrow> ownership_state \<Rightarrow> discovery_retirement \<Rightarrow> ownership_state \<Rightarrow> bool" where
  "retires_owner ow s r s' \<longleftrightarrow> (\<exists>e. owner_endpoint ow = Some e \<and> retire_endpoint e s = Some (r, s'))
     \<or> advance_webview (owner_label ow) s = Some (r, s') \<or> retire_webview (owner_label ow) s = Some (r, s')
     \<or> retire_all s = Some (r, s')"

lemma retires_step: "retires_owner ow s r s' \<Longrightarrow> own_step s s'"
  by (auto simp: retires_owner_def intro: own_step.intros)

lemma retires_stale:
  assumes "retires_owner ow s r s'" "owner_captured s ow"
  shows "owner_stale s' ow"
proof -
  have w: "stale (os_webviews s') k g"
    if "webview_transition a k s = Some (r, s')" "captured (os_webviews s) k g" for a k g
    using that by (elim webview_transition_cases) (auto dest: bump_captured_stale)
  have e: "stale (os_endpoints s') e g" if "retire_endpoint e s = Some (r, s')" "captured (os_endpoints s) e g" for e g
    using that by (elim retire_endpoint_cases) (auto dest: bump_captured_stale)
  have a: "stale (os_webviews s') k g" if "retire_all s = Some (r, s')" "captured (os_webviews s) k g" for k g
    using that by (elim retire_all_cases) (auto dest: bump_all_captured_stale)
  show ?thesis
    using assms by (cases ow) (auto simp: retires_owner_def advance_webview_def retire_webview_def dest: w e a)
qed

lemma retires_drains:
  assumes "retires_owner ow s r s'"
  shows "(kh, t) \<in> set (os_sessions s) \<Longrightarrow> td_owner t = ow \<Longrightarrow> t \<in> set (rt_sessions r)"
    and "(i, p) \<in> set (os_starts s) \<Longrightarrow> ps_owner p = ow \<Longrightarrow> ps_completion p \<in> set (rt_starts r)"
  using assms
  by (force simp: retires_owner_def advance_webview_def retire_webview_def
      elim: retire_endpoint_cases webview_transition_cases retire_all_cases)+

text \<open>What captures an owner may attach a session exactly while the owner is current.\<close>

locale captured_owner =
  fixes owner_of :: "'t \<Rightarrow> discovery_owner"
    and attach :: "'t \<Rightarrow> discovery_kind \<Rightarrow> u64 \<Rightarrow> ownership_state \<Rightarrow> (unit + unit) \<times> ownership_state"
  assumes attach_stale: "\<not> owner_is_current s (owner_of t) \<Longrightarrow> attach t k h s = (Inl (), s)"
    and attach_current: "owner_is_current s (owner_of t) \<Longrightarrow> fst (attach t k h s) = Inr ()
      \<and> os_sessions (snd (attach t k h s)) = os_sessions (put_session k h (owner_of t) s)"
begin

lemma late_attach_refused:
  assumes "owner_captured s (owner_of t)" "own_steps s s1" "retires_owner (owner_of t) s1 r s2" "own_steps s2 s3"
  shows "attach t k h s3 = (Inl (), s3)"
  using assms by (meson attach_stale owner_captured_steps owner_stale_not_current owner_stale_steps retires_stale)

lemma attach_then_tracked:
  assumes "fst (attach t k h s) = Inr ()"
  shows "map_of (os_sessions (snd (attach t k h s))) (k, h) = Some \<lparr>td_kind = k, td_handle = h, td_owner = owner_of t\<rparr>"
proof -
  have "owner_is_current s (owner_of t)" using assms attach_stale [of s t k h] by fastforce
  then show ?thesis using attach_current by (simp add: put_session_def)
qed

end

interpretation peer_token: captured_owner peer_owner_of track_peer
  by unfold_locales (auto simp: track_peer_def peer_owner_of_def peer_owner_is_current_def)

interpretation webview_token: captured_owner webview_owner_of track_generic
  by unfold_locales (auto simp: track_generic_def webview_owner_of_def webview_owner_is_current_def)

interpretation lease: captured_owner ls_owner "\<lambda>l k h s. map_prod id snd (lease_track l k h s)"
  by unfold_locales (auto simp: lease_track_def)

lemma begin_peer_captures:
  assumes "begin_peer e w s = (Some t, s')"
  shows "owner_is_current s' (peer_owner_of t)"
proof -
  obtain x s1 where x: "seen_webview w s = (x, s1)" by fastforce
  show ?thesis
    using assms seen_webview_frame(4,8) [OF x]
    by (auto simp: begin_peer_def x peer_owner_of_def generation_is_current_def split: option.splits if_splits)
qed

text \<open>Every tracked discovery session is owned by the living: in every reachable state, a tracked
  session is filed under its own kind and handle, the kind fits the owner, and the endpoint and page
  generations of the owner are the current ones and active.\<close>

theorem tracked_sessions_have_current_owner:
  assumes "own_reachable s" and "map_of (os_sessions s) (k, h) = Some t"
  shows "td_kind t = k \<and> td_handle t = h \<and> kind_matches_owner k (td_owner t) \<and> owner_is_current s (td_owner t)"
  using own_inv_steps [OF assms(1) [unfolded own_reachable_def] own_inv_default] map_of_SomeD [OF assms(2)]
  by (auto simp: own_inv_def list_all_iff session_ok_def)

definition demo_owned :: ownership_state where
  "demo_owned = snd (begin_peer 7 ''main'' (the (activate_endpoint 7 ownership_default)))"

definition demo_token :: peer_owner_token where
  "demo_token = \<lparr>pt_endpoint_handle = 7, pt_endpoint_generation = 1, pt_webview_label = ''main'', pt_webview_generation = 1\<rparr>"

lemma demo_owned_reachable: "own_reachable demo_owned"
proof -
  have "own_step ownership_default (the (activate_endpoint 7 ownership_default))"
    by (rule os_plain [OF pl_activate [where e = 7]])
      (simp_all add: endpoint_active_def activate_endpoint_def ownership_default_def bump_def next_generation_def)
  moreover have "own_step (the (activate_endpoint 7 ownership_default)) demo_owned"
    unfolding demo_owned_def by (rule os_plain [OF pl_begin_peer])
  ultimately show ?thesis unfolding own_reachable_def own_steps_def by (meson rtranclp.rtrancl_into_rtrancl rtranclp.rtrancl_refl)
qed

lemma demo_owned_eval:
  "demo_owned = ownership_default\<lparr>os_endpoints := [(7, \<lparr>og_generation = 1, og_active = True\<rparr>)],
     os_webviews := [(''main'', \<lparr>og_generation = 1, og_active = True\<rparr>)]\<rparr>"
  by (simp add: demo_owned_def begin_peer_def activate_endpoint_def ownership_default_def bump_def next_generation_def
      seen_webview_def al_put_def Let_def)

theorem tracked_sessions_have_current_owner_witness:
  "\<exists>s t. own_reachable s \<and> map_of (os_sessions s) (BrowsePeers, 3) = Some t \<and> owner_is_current s (td_owner t)"
proof -
  let ?s = "snd (track_peer demo_token BrowsePeers 3 demo_owned)"
  have "own_step demo_owned ?s" by (rule os_plain [OF pl_track_peer]) simp
  then have r: "own_reachable ?s"
    using demo_owned_reachable unfolding own_reachable_def own_steps_def by (meson rtranclp.rtrancl_into_rtrancl)
  obtain t where t: "map_of (os_sessions ?s) (BrowsePeers, 3) = Some t"
    by (simp add: track_peer_def peer_owner_is_current_def generation_is_current_def demo_owned_eval demo_token_def put_session_def)
  show ?thesis using tracked_sessions_have_current_owner [OF r t] r t by blast
qed

text \<open>Property C15.  A late start never attaches: once the owner that a token or lease captured is retired, by
  closing its endpoint, by navigating or destroying its page or by shutting down, no later attempt to
  attach a session for it succeeds or changes anything, whatever happened in between; the retirement hands
  over every session and every running start of that owner, and no session of it is tracked afterwards.\<close>

theorem late_start_never_attaches:
  assumes "own_reachable s" and "owner_is_current s ow" and "own_steps s s1" and "retires_owner ow s1 r s2"
    and "own_steps s2 s3"
  shows "(\<forall>t k h. peer_owner_of t = ow \<longrightarrow> track_peer t k h s3 = (Inl (), s3))
    \<and> (\<forall>t k h. webview_owner_of t = ow \<longrightarrow> track_generic t k h s3 = (Inl (), s3))
    \<and> (\<forall>l k h. ls_owner l = ow \<longrightarrow> lease_track l k h s3 = (Inl (), l, s3))
    \<and> (\<forall>kh t. (kh, t) \<in> set (os_sessions s1) \<and> td_owner t = ow \<longrightarrow> t \<in> set (rt_sessions r))
    \<and> (\<forall>i p. (i, p) \<in> set (os_starts s1) \<and> ps_owner p = ow \<longrightarrow> ps_completion p \<in> set (rt_starts r))
    \<and> (\<forall>kh t. (kh, t) \<in> set (os_sessions s3) \<longrightarrow> td_owner t \<noteq> ow)"
proof -
  note cap = current_captured [OF assms(2)]
  have "owner_stale s3 ow"
    using owner_stale_steps [OF assms(5)] retires_stale [OF assms(4)] owner_captured_steps [OF assms(3) cap] by blast
  then have nc: "\<not> owner_is_current s3 ow" by (rule owner_stale_not_current)
  have "own_steps ownership_default s3"
    using assms(1,3,5) retires_step [OF assms(4)] unfolding own_reachable_def own_steps_def by (meson rtranclp.rtrancl_into_rtrancl rtranclp_trans)
  from own_inv_steps [OF this own_inv_default] have gone: "td_owner t \<noteq> ow" if "(kh, t) \<in> set (os_sessions s3)" for kh t
    using that nc by (auto simp: own_inv_def list_all_iff session_ok_def)
  have "lease_track l k h s3 = (Inl (), l, s3)" if "ls_owner l = ow" for l k h using that nc by (simp add: lease_track_def)
  then show ?thesis
    using peer_token.late_attach_refused [of s _ s1 r s2 s3] webview_token.late_attach_refused [of s _ s1 r s2 s3]
      cap assms(3-5) gone retires_drains [OF assms(4)] by blast
qed


theorem late_start_never_attaches_witness:
  "\<exists>s2 r. own_reachable demo_owned \<and> retire_webview ''main'' demo_owned = Some (r, s2)
     \<and> track_peer demo_token BrowsePeers 3 s2 = (Inl (), s2)"
proof -
  have c: "owner_is_current demo_owned (peer_owner_of demo_token)"
    by (simp add: peer_owner_of_def demo_token_def generation_is_current_def demo_owned_eval)
  obtain r s2 where r: "retire_webview ''main'' demo_owned = Some (r, s2)"
    by (simp add: retire_webview_def webview_transition_def install_cleanup_def cleanup_new_def demo_owned_eval
        ownership_default_def bump_def next_generation_def take_retirement_def take_matching_def)
  then have "retires_owner (peer_owner_of demo_token) demo_owned r s2"
    by (simp add: retires_owner_def peer_owner_of_def demo_token_def)
  from late_start_never_attaches [OF demo_owned_reachable c _ this]
  show ?thesis using r demo_owned_reachable by (auto simp: own_steps_def)
qed

end
