(* ===== verification/Disc_Retirement.thy ===== *)
theory Disc_Retirement
  imports Disc_Owner_Props
begin

text \<open>
  The clean-up tasks of \<^verbatim>\<open>src/packages/iroh-http-tauri/src/commands.rs\<close> on mobile: after a retirement a task
  waits for the clean-ups it replaced, for the native resources it closes and for the starts still
  running, and then publishes the first error, or success, to the fences it installed.

  How closing a native resource ends is an input.  A task acts in steps: it passes one wait, publishes one
  outcome, or removes one entry.
\<close>

section \<open>Tasks\<close>

datatype task_wait = WPrev nat | WNative outcome | WStart nat

record cleanup_task =
  ck_waits :: "task_wait list"
  ck_outcome :: outcome
  ck_publish :: "webview_cleanup_retirement list"
  ck_retract :: "webview_cleanup_retirement option"

fun wait_poll :: "ownership_state \<Rightarrow> task_wait \<Rightarrow> outcome poll" where
  "wait_poll s (WPrev i) = fence_poll i (os_cleanup_fences s)"
| "wait_poll s (WNative r) = Ready r"
| "wait_poll s (WStart i) = fence_poll i (os_start_fences s)"

definition first_error :: "outcome \<Rightarrow> outcome \<Rightarrow> outcome" where
  "first_error old r = (case old of Inl e \<Rightarrow> Inl e | Inr _ \<Rightarrow> r)"

text \<open>\<open>None\<close>: the task waits or has ended.\<close>

definition task_step :: "cleanup_task \<Rightarrow> ownership_state \<Rightarrow> (cleanup_task \<times> ownership_state) option" where
  "task_step t s = (case ck_waits t of
       w # ws \<Rightarrow> (case wait_poll s w of
          Pending \<Rightarrow> None
        | Ready r \<Rightarrow> Some (t\<lparr>ck_waits := ws, ck_outcome := first_error (ck_outcome t) r\<rparr>, s))
     | [] \<Rightarrow> (case ck_retract t of
          Some c \<Rightarrow> Some (t\<lparr>ck_retract := None\<rparr>, cleanup_retract c s)
        | None \<Rightarrow> (case ck_publish t of
             [] \<Rightarrow> None
           | c # cs \<Rightarrow> Some (t\<lparr>ck_publish := cs, ck_retract := (case ck_outcome t of Inr _ \<Rightarrow> Some c | Inl _ \<Rightarrow> None)\<rparr>,
               cleanup_finish (wr_current c) (ck_outcome t) s))))"

definition prev_waits :: "webview_cleanup_retirement list \<Rightarrow> task_wait list" where
  "prev_waits cs = concat (map (\<lambda>c. case wr_previous c of None \<Rightarrow> [] | Some p \<Rightarrow> [WPrev p]) cs)"

text \<open>\<open>retire_discovery_sessions\<close>, \<open>retire_endpoint_discovery_sessions\<close> and
  \<open>retire_mobile_webview_generation\<close>; then \<open>finish_terminal_mobile_browse_cleanup\<close>.\<close>

definition retirement_task :: "discovery_retirement \<Rightarrow> outcome list \<Rightarrow> cleanup_task" where
  "retirement_task r natives = (let cs = (case rt_webview_cleanup r of Some c \<Rightarrow> [c] | None \<Rightarrow> rt_owner_cleanups r) in
     \<lparr>ck_waits = prev_waits cs @ map WNative natives @ map WStart (rt_starts r), ck_outcome = Inr (),
      ck_publish = cs, ck_retract = None\<rparr>)"

definition session_task :: "webview_cleanup_retirement \<Rightarrow> outcome \<Rightarrow> cleanup_task" where
  "session_task c native = \<lparr>ck_waits = prev_waits [c] @ [WNative native], ck_outcome = Inr (), ck_publish = [c], ck_retract = None\<rparr>"

section \<open>The system\<close>

text \<open>\<open>sy_issued\<close> records every fence installed so far, with the starts its clean-up waits for.\<close>

record own_sys =
  sy_state :: ownership_state
  sy_tasks :: "cleanup_task list"
  sy_issued :: "(webview_cleanup_retirement \<times> nat list) list"

definition sys_issue :: "ownership_state \<Rightarrow> cleanup_task \<Rightarrow> nat list \<Rightarrow> own_sys \<Rightarrow> own_sys" where
  "sys_issue s' t sts S = \<lparr>sy_state = s', sy_tasks = sy_tasks S @ [t], sy_issued = sy_issued S @ map (\<lambda>c. (c, sts)) (ck_publish t)\<rparr>"

inductive sys_step :: "own_sys \<Rightarrow> own_sys \<Rightarrow> bool" where
  sy_plain: "plain_step (sy_state S) s' \<Longrightarrow> sys_step S (S\<lparr>sy_state := s'\<rparr>)"
| sy_endpoint: "retire_endpoint e (sy_state S) = Some (r, s') \<Longrightarrow> sys_step S (sys_issue s' (retirement_task r ns) (rt_starts r) S)"
| sy_webview: "webview_transition a w (sy_state S) = Some (r, s') \<Longrightarrow> sys_step S (sys_issue s' (retirement_task r ns) (rt_starts r) S)"
| sy_all: "retire_all (sy_state S) = Some (r, s') \<Longrightarrow> sys_step S (sys_issue s' (retirement_task r ns) (rt_starts r) S)"
| sy_session: "begin_session_cleanup k h (sy_state S) = (Some c, s') \<Longrightarrow> sys_step S (sys_issue s' (session_task c r') [] S)"
| sy_task: "i < length (sy_tasks S) \<Longrightarrow> task_step (sy_tasks S ! i) (sy_state S) = Some (t', s')
    \<Longrightarrow> sys_step S (S\<lparr>sy_state := s', sy_tasks := (sy_tasks S)[i := t']\<rparr>)"

definition sys_init :: own_sys where
  "sys_init = \<lparr>sy_state = ownership_default, sy_tasks = [], sy_issued = []\<rparr>"

definition sys_steps :: "own_sys \<Rightarrow> own_sys \<Rightarrow> bool" where
  "sys_steps = sys_step\<^sup>*\<^sup>*"

definition sys_reachable :: "own_sys \<Rightarrow> bool" where
  "sys_reachable S \<longleftrightarrow> sys_steps sys_init S"

section \<open>Fences\<close>

definition resolved_ok :: "outcome option list \<Rightarrow> nat \<Rightarrow> bool" where
  "resolved_ok F i \<longleftrightarrow> i < length F \<and> F ! i = Some (Inr ())"

definition fences_le :: "outcome option list \<Rightarrow> outcome option list \<Rightarrow> bool" where
  "fences_le F F' \<longleftrightarrow> length F \<le> length F' \<and> (\<forall>i < length F. F ! i \<noteq> None \<longrightarrow> F' ! i = F ! i)"

lemma fences_le_refl [simp]: "fences_le F F"
  by (simp add: fences_le_def)

lemma fences_le_trans: "fences_le F G \<Longrightarrow> fences_le G H \<Longrightarrow> fences_le F H"
  by (fastforce simp: fences_le_def)

lemma fences_le_append [simp]: "fences_le F (F @ G)"
  by (simp add: fences_le_def nth_append)

lemma fences_le_finish [simp]: "fences_le F (fence_finish i r F)"
  by (auto simp: fences_le_def fence_finish_def nth_list_update)

lemma resolved_ok_mono: "fences_le F F' \<Longrightarrow> resolved_ok F i \<Longrightarrow> resolved_ok F' i"
  by (auto simp: fences_le_def resolved_ok_def)

lemma fence_poll_ok: "fence_poll i F = Ready (Inr ()) \<longleftrightarrow> resolved_ok F i"
  by (auto simp: fence_poll_def resolved_ok_def split: option.splits)

lemma fence_poll_pending: "i < length F \<Longrightarrow> fence_poll i F = Pending \<longleftrightarrow> F ! i = None"
  by (auto simp: fence_poll_def split: option.splits)

lemma plain_fences:
  assumes "plain_step s s'"
  shows "os_webview_cleanups s' = os_webview_cleanups s \<and> os_cleanup_fences s' = os_cleanup_fences s
    \<and> fences_le (os_start_fences s) (os_start_fences s')"
  using assms
proof cases
  case (pl_activate e)
  then show ?thesis by (auto simp: activate_endpoint_def)
next
  case (pl_begin_peer e w)
  have "os_webview_cleanups (snd (seen_webview w s)) = os_webview_cleanups s"
    "os_cleanup_fences (snd (seen_webview w s)) = os_cleanup_fences s"
    "os_start_fences (snd (seen_webview w s)) = os_start_fences s"
    by (auto simp: seen_webview_def Let_def split: option.splits)
  then show ?thesis using pl_begin_peer begin_peer_state [of e w s] by auto
next
  case (pl_begin_webview w)
  then show ?thesis by (auto simp: begin_webview_def seen_webview_def Let_def split: option.splits)
next
  case (pl_peer_start e w r)
  obtain x s1 where x: "seen_webview w s = (x, s1)" by fastforce
  show ?thesis
    using pl_peer_start seen_webview_frame(5-7) [OF x]
    by (auto simp: begin_peer_start_def x split: option.splits if_splits dest: insert_start_frame(4,5,6) [simplified])
next
  case (pl_webview_start w r)
  obtain x s1 where x: "seen_webview w s = (x, s1)" by fastforce
  show ?thesis
    using pl_webview_start seen_webview_frame(5-7) [OF x]
    by (auto simp: begin_webview_start_def x split: if_splits dest: insert_start_frame(4,5,6) [simplified])
qed (auto simp: track_peer_def track_generic_def lease_track_def finish_cleanup_def lease_drop_def untrack_def)


section \<open>The chain of fences of one page\<close>

text \<open>The entry of a page is its newest fence; without an entry every fence of the page succeeded; a fence that
  succeeded has only succeeded fences before it, and so have the starts it waited for.\<close>

type_synonym issued = "(webview_cleanup_retirement \<times> nat list) set"

definition iv_bound :: "outcome option list \<Rightarrow> issued \<Rightarrow> bool" where
  "iv_bound F I \<longleftrightarrow> (\<forall>c st. (c, st) \<in> I \<longrightarrow> wr_current c < length F)"

definition iv_entry :: "(string \<Rightarrow> nat option) \<Rightarrow> issued \<Rightarrow> bool" where
  "iv_entry M I \<longleftrightarrow> (\<forall>w i. M w = Some i \<longrightarrow> (\<exists>c st. (c, st) \<in> I \<and> wr_label c = w \<and> wr_current c = i)
     \<and> (\<forall>c st. (c, st) \<in> I \<longrightarrow> wr_label c = w \<longrightarrow> wr_current c \<le> i))"

definition iv_clear :: "outcome option list \<Rightarrow> (string \<Rightarrow> nat option) \<Rightarrow> issued \<Rightarrow> bool" where
  "iv_clear F M I \<longleftrightarrow> (\<forall>c st. (c, st) \<in> I \<longrightarrow> M (wr_label c) = None \<longrightarrow> resolved_ok F (wr_current c))"

definition iv_ok :: "outcome option list \<Rightarrow> outcome option list \<Rightarrow> issued \<Rightarrow> bool" where
  "iv_ok F SF I \<longleftrightarrow> (\<forall>c st. (c, st) \<in> I \<longrightarrow> resolved_ok F (wr_current c) \<longrightarrow> (\<forall>x \<in> set st. resolved_ok SF x)
     \<and> (\<forall>c' st'. (c', st') \<in> I \<longrightarrow> wr_label c' = wr_label c \<longrightarrow> wr_current c' \<le> wr_current c \<longrightarrow> resolved_ok F (wr_current c')))"

definition iv_prev :: "outcome option list \<Rightarrow> issued \<Rightarrow> bool" where
  "iv_prev F I \<longleftrightarrow> (\<forall>c st c' st'. (c, st) \<in> I \<longrightarrow> (c', st') \<in> I \<longrightarrow> wr_label c' = wr_label c \<longrightarrow> wr_current c' < wr_current c
     \<longrightarrow> (case wr_previous c of None \<Rightarrow> resolved_ok F (wr_current c') | Some p \<Rightarrow> wr_current c' \<le> p))"

definition iv_link :: "issued \<Rightarrow> bool" where
  "iv_link I \<longleftrightarrow> (\<forall>c st p. (c, st) \<in> I \<longrightarrow> wr_previous c = Some p
     \<longrightarrow> (\<exists>d st'. (d, st') \<in> I \<and> wr_label d = wr_label c \<and> wr_current d = p))"

definition iv_inj :: "issued \<Rightarrow> bool" where
  "iv_inj I \<longleftrightarrow> (\<forall>c st c' st'. (c, st) \<in> I \<longrightarrow> (c', st') \<in> I \<longrightarrow> wr_current c = wr_current c' \<longrightarrow> c = c' \<and> st = st')"

definition issued_inv :: "outcome option list \<Rightarrow> outcome option list \<Rightarrow> (string \<Rightarrow> nat option) \<Rightarrow> issued \<Rightarrow> bool" where
  "issued_inv F SF M I \<longleftrightarrow> iv_bound F I \<and> iv_entry M I \<and> iv_clear F M I \<and> iv_ok F SF I \<and> iv_prev F I \<and> iv_link I \<and> iv_inj I"

lemmas iv_defs = iv_bound_def iv_entry_def iv_clear_def iv_ok_def iv_prev_def iv_link_def iv_inj_def

lemma issued_bound: "issued_inv F SF M I \<Longrightarrow> (c, st) \<in> I \<Longrightarrow> wr_current c < length F"
  unfolding issued_inv_def iv_bound_def by blast

lemma issued_entry: "issued_inv F SF M I \<Longrightarrow> M w = Some i \<Longrightarrow> \<exists>c st. (c, st) \<in> I \<and> wr_label c = w \<and> wr_current c = i"
  unfolding issued_inv_def iv_entry_def by blast

lemma issued_newest: "issued_inv F SF M I \<Longrightarrow> M w = Some i \<Longrightarrow> (c, st) \<in> I \<Longrightarrow> wr_label c = w \<Longrightarrow> wr_current c \<le> i"
  unfolding issued_inv_def iv_entry_def by blast

lemma issued_clear: "issued_inv F SF M I \<Longrightarrow> M (wr_label c) = None \<Longrightarrow> (c, st) \<in> I \<Longrightarrow> resolved_ok F (wr_current c)"
  unfolding issued_inv_def iv_clear_def by blast

lemma issued_starts: "issued_inv F SF M I \<Longrightarrow> (c, st) \<in> I \<Longrightarrow> resolved_ok F (wr_current c) \<Longrightarrow> x \<in> set st \<Longrightarrow> resolved_ok SF x"
  unfolding issued_inv_def iv_ok_def by blast

lemma issued_earlier:
  "issued_inv F SF M I \<Longrightarrow> (c, st) \<in> I \<Longrightarrow> resolved_ok F (wr_current c) \<Longrightarrow> (c', st') \<in> I \<Longrightarrow> wr_label c' = wr_label c
     \<Longrightarrow> wr_current c' \<le> wr_current c \<Longrightarrow> resolved_ok F (wr_current c')"
  unfolding issued_inv_def iv_ok_def by blast

lemma issued_prev:
  "issued_inv F SF M I \<Longrightarrow> (c, st) \<in> I \<Longrightarrow> (c', st') \<in> I \<Longrightarrow> wr_label c' = wr_label c \<Longrightarrow> wr_current c' < wr_current c
     \<Longrightarrow> (case wr_previous c of None \<Rightarrow> resolved_ok F (wr_current c') | Some p \<Rightarrow> wr_current c' \<le> p)"
  unfolding issued_inv_def iv_prev_def by blast

lemma issued_link:
  "issued_inv F SF M I \<Longrightarrow> (c, st) \<in> I \<Longrightarrow> wr_previous c = Some p \<Longrightarrow> \<exists>d st'. (d, st') \<in> I \<and> wr_label d = wr_label c \<and> wr_current d = p"
  unfolding issued_inv_def iv_link_def by blast

lemma issued_inj: "issued_inv F SF M I \<Longrightarrow> (c, st) \<in> I \<Longrightarrow> (c', st') \<in> I \<Longrightarrow> wr_current c = wr_current c' \<Longrightarrow> c = c' \<and> st = st'"
  unfolding issued_inv_def iv_inj_def by blast

lemmas issued_invD = issued_bound issued_entry issued_newest issued_clear issued_starts issued_earlier issued_prev issued_link
  issued_inj

lemma issued_inv_starts: "issued_inv F SF M I \<Longrightarrow> fences_le SF SF' \<Longrightarrow> issued_inv F SF' M I"
  by (simp add: issued_inv_def iv_ok_def resolved_ok_mono)

lemma resolved_ok_append: "resolved_ok (F @ [None]) i \<longleftrightarrow> resolved_ok F i"
  by (auto simp: resolved_ok_def nth_append)

lemma issued_inv_issue:
  assumes "issued_inv F SF M I" "c = \<lparr>wr_label = w, wr_current = length F, wr_previous = M w\<rparr>"
  shows "issued_inv (F @ [None]) SF (M(w \<mapsto> length F)) (insert (c, st) I)"
proof -
  note D = issued_invD [OF assms(1)]
  have c: "wr_label c = w" "wr_current c = length F" "wr_previous c = M w" using assms(2) by simp_all
  have lt: "wr_current d < length F" if "(d, st') \<in> I" for d st' using D(1) that by blast
  have le: "wr_current d \<le> length F" if "(d, st') \<in> I" for d st' using lt [OF that] by simp
  have new: "\<not> resolved_ok F (length F)" by (simp add: resolved_ok_def)
  have prev: "case M w of None \<Rightarrow> resolved_ok F (wr_current d) | Some p \<Rightarrow> wr_current d \<le> p"
    if "(d, st') \<in> I" "wr_label d = w" for d st'
    using D(3) [of w _ d st'] D(4) [of d st'] that by (auto split: option.splits)
  have "iv_bound (F @ [None]) (insert (c, st) I)" using lt c by (auto simp: iv_bound_def intro: less_SucI)
  moreover have "iv_entry (M(w \<mapsto> length F)) (insert (c, st) I)"
    unfolding iv_entry_def using D(2,3) le c by (auto split: if_splits) blast+
  moreover have "iv_clear (F @ [None]) (M(w \<mapsto> length F)) (insert (c, st) I)"
    using D(4) c by (auto simp: iv_clear_def resolved_ok_append split: if_splits)
  moreover have "iv_ok (F @ [None]) SF (insert (c, st) I)"
    unfolding iv_ok_def resolved_ok_append
  proof (intro allI impI conjI)
    fix d st' assume "(d, st') \<in> insert (c, st) I" and ok: "resolved_ok F (wr_current d)"
    then have d: "(d, st') \<in> I" using new c by auto
    show "\<forall>x\<in>set st'. resolved_ok SF x" using D(5) [OF d ok] by blast
    fix d' st'' assume "(d', st'') \<in> insert (c, st) I" "wr_label d' = wr_label d" "wr_current d' \<le> wr_current d"
    then show "resolved_ok F (wr_current d')" using D(6) [OF d ok] lt [OF d] c(2) by auto
  qed
  moreover have "iv_prev (F @ [None]) (insert (c, st) I)"
    unfolding iv_prev_def resolved_ok_append
  proof (intro allI impI)
    fix d st' d' st'' assume a: "(d, st') \<in> insert (c, st) I" "(d', st'') \<in> insert (c, st) I"
      "wr_label d' = wr_label d" "wr_current d' < wr_current d"
    have d': "(d', st'') \<in> I" using a(1,2,4) c(2) lt [of d st'] by auto
    show "case wr_previous d of None \<Rightarrow> resolved_ok F (wr_current d') | Some p \<Rightarrow> wr_current d' \<le> p"
    proof (cases "(d, st') \<in> I")
      case True
      then show ?thesis using D(7) [OF True d'] a(3,4) by blast
    next
      case False
      then have "d = c" using a(1) by simp
      then show ?thesis using prev [OF d'] a(3) c by simp
    qed
  qed
  moreover have "iv_link (insert (c, st) I)" using D(2,8) c by (auto simp: iv_link_def) blast+
  moreover have "iv_inj (insert (c, st) I)" unfolding iv_inj_def
  proof (intro allI impI)
    fix d st' d' st'' assume a: "(d, st') \<in> insert (c, st) I" "(d', st'') \<in> insert (c, st) I" "wr_current d = wr_current d'"
    show "d = d' \<and> st' = st''"
      using a c(2) lt [of d st'] lt [of d' st''] D(9) [of d st' d' st''] by auto
  qed
  ultimately show ?thesis by (simp add: issued_inv_def)
qed

lemma issued_inv_publish:
  assumes "issued_inv F SF M I" "(c, st) \<in> I" "F ! wr_current c = None"
    and "r = Inr () \<Longrightarrow> (\<forall>p. wr_previous c = Some p \<longrightarrow> resolved_ok F p) \<and> (\<forall>x \<in> set st. resolved_ok SF x)"
  shows "issued_inv (fence_finish (wr_current c) r F) SF M I"
proof -
  note D = issued_invD [OF assms(1)]
  let ?F = "fence_finish (wr_current c) r F"
  have lc: "wr_current c < length F" using D(1) assms(2) by blast
  have ok: "resolved_ok ?F i \<longleftrightarrow> (if i = wr_current c then r = Inr () else resolved_ok F i)" for i
    using lc assms(3) by (auto simp: resolved_ok_def fence_finish_def nth_list_update)
  have len: "length ?F = length F" by (simp add: fence_finish_def)
  have mono: "resolved_ok ?F i" if "resolved_ok F i" for i using resolved_ok_mono [OF fences_le_finish that] .
  have before: "resolved_ok F (wr_current d)"
    if r: "r = Inr ()" and d: "(d, st') \<in> I" "wr_label d = wr_label c" "wr_current d < wr_current c" for d st'
  proof (cases "wr_previous c")
    case None
    then show ?thesis using D(7) [OF assms(2) d] by simp
  next
    case (Some p)
    then obtain e st'' where e: "(e, st'') \<in> I" "wr_label e = wr_label c" "wr_current e = p" using D(8) assms(2) by blast
    have "resolved_ok F (wr_current e)" "wr_current d \<le> wr_current e"
      using assms(4) r Some e(3) D(7) [OF assms(2) d] by auto
    then show ?thesis using D(6) [OF e(1)] d e(2) by auto
  qed
  have "iv_ok ?F SF I"
    unfolding iv_ok_def
  proof (intro allI impI conjI)
    fix d st' assume d: "(d, st') \<in> I" "resolved_ok ?F (wr_current d)"
    show "\<forall>x\<in>set st'. resolved_ok SF x"
      using d assms(2,4) D(5) [OF d(1)] D(9) [OF d(1) assms(2)] by (auto simp: ok split: if_splits)
    fix d' st'' assume d': "(d', st'') \<in> I" "wr_label d' = wr_label d" "wr_current d' \<le> wr_current d"
    show "resolved_ok ?F (wr_current d')"
    proof (cases "wr_current d = wr_current c")
      case True
      then have "r = Inr ()" "d = c" using d ok D(9) [OF d(1) assms(2)] by auto
      then show ?thesis unfolding ok using before d' by auto
    next
      case False
      then have "resolved_ok F (wr_current d)" using d(2) by (simp add: ok)
      then show ?thesis using D(6) [OF d(1) _ d'] mono by blast
    qed
  qed
  moreover have "iv_prev ?F I"
    unfolding iv_prev_def
  proof (intro allI impI)
    fix d st' d' st'' assume "(d, st') \<in> I" "(d', st'') \<in> I" "wr_label d' = wr_label d" "wr_current d' < wr_current d"
    from D(7) [OF this] show "case wr_previous d of None \<Rightarrow> resolved_ok ?F (wr_current d') | Some p \<Rightarrow> wr_current d' \<le> p"
      using mono by (simp split: option.splits)
  qed
  moreover have "iv_clear ?F M I" using D(4) mono by (simp add: iv_clear_def)
  ultimately show ?thesis using assms(1) by (simp add: issued_inv_def iv_bound_def len)
qed

lemma issued_inv_retract:
  assumes "issued_inv F SF M I" "M w = Some i" "resolved_ok F i"
  shows "issued_inv F SF (M(w := None)) I"
proof -
  note D = issued_invD [OF assms(1)]
  obtain c st where c: "(c, st) \<in> I" "wr_label c = w" "wr_current c = i" using D(2) assms(2) by blast
  have "resolved_ok F (wr_current d)" if "(d, st') \<in> I" "wr_label d = w" for d st'
    using D(6) [OF c(1) _ that(1)] D(3) [OF assms(2) that] c that assms(3) by simp
  then show ?thesis
    using assms(1) by (auto simp: issued_inv_def iv_entry_def iv_clear_def)
qed


section \<open>Installing fences\<close>

definition issues :: "outcome option list \<Rightarrow> (string \<Rightarrow> nat option) \<Rightarrow> webview_cleanup_retirement list
    \<Rightarrow> outcome option list \<Rightarrow> (string \<Rightarrow> nat option) \<Rightarrow> bool" where
  "issues F M cs F' M' \<longleftrightarrow> F' = F @ replicate (length cs) None \<and> map wr_current cs = [length F ..< length F + length cs]
     \<and> (\<forall>c \<in> set cs. wr_previous c = M (wr_label c))
     \<and> (\<forall>SF I st. issued_inv F SF M I \<longrightarrow> issued_inv F' SF M' (I \<union> (\<lambda>c. (c, st)) ` set cs))"

abbreviation cleanups_of :: "ownership_state \<Rightarrow> string \<Rightarrow> nat option" where
  "cleanups_of s \<equiv> map_of (os_webview_cleanups s)"

lemma install_cleanup_eq:
  "install_cleanup w s = (\<lparr>wr_label = w, wr_current = length (os_cleanup_fences s), wr_previous = cleanups_of s w\<rparr>,
     s\<lparr>os_cleanup_fences := os_cleanup_fences s @ [None],
       os_webview_cleanups := al_put w (length (os_cleanup_fences s)) (os_webview_cleanups s)\<rparr>)"
  by (simp add: install_cleanup_def cleanup_new_def)

lemma map_of_al_put_fun: "map_of (al_put w v m) = (map_of m)(w \<mapsto> v)"
  by (simp add: fun_eq_iff)

lemma map_of_al_del_fun: "map_of (al_del w m) = (map_of m)(w := None)"
  by (simp add: fun_eq_iff)

lemma issues_many:
  assumes "distinct ws" "install_owner_cleanups ws s = (cs, s')"
  shows "issues (os_cleanup_fences s) (cleanups_of s) cs (os_cleanup_fences s') (cleanups_of s')
    \<and> map wr_label cs = ws"
  using assms
proof (induction ws arbitrary: s cs)
  case Nil
  then show ?case by (simp add: issues_def)
next
  case (Cons w ws)
  let ?c = "\<lparr>wr_label = w, wr_current = length (os_cleanup_fences s), wr_previous = cleanups_of s w\<rparr>"
  let ?s1 = "s\<lparr>os_cleanup_fences := os_cleanup_fences s @ [None],
       os_webview_cleanups := al_put w (length (os_cleanup_fences s)) (os_webview_cleanups s)\<rparr>"
  obtain cs1 where cs: "cs = ?c # cs1" and r: "install_owner_cleanups ws ?s1 = (cs1, s')"
    using Cons.prems(2) by (auto simp: install_cleanup_eq split: prod.splits)
  have IH: "issues (os_cleanup_fences ?s1) (cleanups_of ?s1) cs1 (os_cleanup_fences s') (cleanups_of s')" "map wr_label cs1 = ws"
    using Cons.IH [OF _ r] Cons.prems(1) by (simp_all add: map_of_al_put_fun fun_upd_def del: map_of_al_put)
  have "wr_previous c = cleanups_of s (wr_label c)" if "c \<in> set cs1" for c
  proof -
    have "wr_label c \<in> set ws" using that IH(2) by auto
    then show ?thesis using that IH(1) Cons.prems(1) by (auto simp: issues_def)
  qed
  moreover have "issued_inv (os_cleanup_fences s') SF (cleanups_of s') (I \<union> (\<lambda>c. (c, st)) ` set cs)"
    if "issued_inv (os_cleanup_fences s) SF (cleanups_of s) I" for SF I st
  proof -
    have "issued_inv (os_cleanup_fences ?s1) SF (cleanups_of ?s1) (insert (?c, st) I)"
      using issued_inv_issue [OF that refl, of w st] by (simp add: map_of_al_put_fun fun_upd_def del: map_of_al_put)
    then have "issued_inv (os_cleanup_fences s') SF (cleanups_of s') (insert (?c, st) I \<union> (\<lambda>c. (c, st)) ` set cs1)"
      using IH(1) unfolding issues_def by blast
    then show ?thesis by (simp add: cs)
  qed
  moreover have "map wr_current cs = [length (os_cleanup_fences s) ..< length (os_cleanup_fences s) + length cs]"
  proof -
    have "map wr_current cs1 = [Suc (length (os_cleanup_fences s)) ..< Suc (length (os_cleanup_fences s)) + length cs1]"
      using IH(1) unfolding issues_def by simp
    then show ?thesis unfolding cs by (simp add: upt_conv_Cons del: upt_Suc)
  qed
  ultimately show ?case using IH cs by (simp add: issues_def)
qed

lemma issues_single:
  assumes "install_cleanup w s = (c, s')"
  shows "issues (os_cleanup_fences s) (cleanups_of s) [c] (os_cleanup_fences s') (cleanups_of s')"
  using issues_many [of "[w]" s "[c]" s'] assms by simp

lemma distinct_remdups_adj_sort: "distinct (remdups_adj (sort xs))" for xs :: "'a :: linorder list"
proof -
  have "sorted ys \<Longrightarrow> distinct (remdups_adj ys)" for ys :: "'a list"
    by (induction ys rule: remdups_adj.induct) (auto simp: less_le)
  then show ?thesis by simp
qed

lemma retire_endpoint_issues:
  assumes "retire_endpoint e s = Some (r, s')"
  shows "issues (os_cleanup_fences s) (cleanups_of s) (rt_owner_cleanups r) (os_cleanup_fences s') (cleanups_of s')
    \<and> rt_webview_cleanup r = None"
  using assms issues_many [OF distinct_remdups_adj_sort]
  by (fastforce simp: retire_endpoint_def take_retirement_def take_matching_def matching_owner_labels_def Let_def
      split: option.splits prod.splits)

lemma webview_transition_issues:
  assumes "webview_transition a w s = Some (r, s')"
  shows "\<exists>c. rt_webview_cleanup r = Some c \<and> issues (os_cleanup_fences s) (cleanups_of s) [c] (os_cleanup_fences s') (cleanups_of s')"
  using assms issues_single [of w s]
  by (auto simp: webview_transition_def take_retirement_def take_matching_def split: option.splits prod.splits)

lemma retire_all_issues:
  assumes "retire_all s = Some (r, s')"
  shows "issues (os_cleanup_fences s) (cleanups_of s) (rt_owner_cleanups r) (os_cleanup_fences s') (cleanups_of s')
    \<and> rt_webview_cleanup r = None"
  using assms issues_many [OF distinct_remdups_adj_sort]
  by (fastforce simp: retire_all_def matching_owner_labels_def Let_def split: option.splits prod.splits)

lemma session_cleanup_issues:
  assumes "begin_session_cleanup k h s = (Some c, s')"
  shows "issues (os_cleanup_fences s) (cleanups_of s) [c] (os_cleanup_fences s') (cleanups_of s')
    \<and> os_starts s' = os_starts s \<and> os_next_start s' = os_next_start s \<and> os_start_fences s' = os_start_fences s"
  using assms issues_single by (fastforce simp: begin_session_cleanup_def install_cleanup_eq split: option.splits prod.splits)


section \<open>Invariant of the system\<close>

definition completions :: "ownership_state \<Rightarrow> nat set" where
  "completions s = (\<lambda>(_, p). ps_completion p) ` set (os_starts s)"

definition start_inv :: "ownership_state \<Rightarrow> bool" where
  "start_inv s \<longleftrightarrow> (\<forall>i \<in> set (keys (os_starts s)). i < os_next_start s) \<and> (\<forall>x \<in> completions s. x < length (os_start_fences s))
     \<and> distinct (keys (os_starts s))
     \<and> (\<forall>x < length (os_start_fences s). os_start_fences s ! x = None \<longrightarrow> x \<in> completions s)"

lemma start_inv_same:
  "os_starts s' = os_starts s \<Longrightarrow> os_next_start s' = os_next_start s \<Longrightarrow> os_start_fences s' = os_start_fences s
    \<Longrightarrow> start_inv s' = start_inv s"
  by (simp add: start_inv_def completions_def)

lemma start_inv_insert:
  assumes "start_inv s" "insert_start ow prior s = Some (l, s')"
  shows "start_inv s'"
proof -
  note f = insert_start_frame [OF assms(2)]
  have n: "os_next_start s < os_next_start s + 1" using succ_greater f(9) by blast
  have fresh: "os_next_start s \<notin> set (keys (os_starts s))" using assms(1) by (auto simp: start_inv_def)
  have "i < os_next_start s + 1" if "i \<in> set (keys (os_starts s))" for i
    using assms(1) that n by (meson start_inv_def order.strict_trans)
  moreover have "completions s' = insert (length (os_start_fences s)) (completions s)"
    unfolding completions_def f al_put_def using fresh by simp
  ultimately show ?thesis
    using assms(1) fresh n by (auto simp: start_inv_def f al_put_def nth_append less_Suc_eq)
qed

lemma start_inv_release:
  assumes "start_inv s" "lease_ok s l"
  shows "start_inv (lease_release l r s)"
proof -
  have e: "ps_completion p = ls_completion l" if "(ls_id l, p) \<in> set (os_starts s)" for p
  proof -
    have "map_of (os_starts s) (ls_id l) = Some p" using that assms(1) by (auto simp: start_inv_def keys_def intro: map_of_is_SomeI)
    then show ?thesis using assms(2) by (auto simp: lease_ok_def)
  qed
  have len: "length (fence_finish (ls_completion l) r (os_start_fences s)) = length (os_start_fences s)"
    by (simp add: fence_finish_def)
  have "x \<in> completions (lease_release l r s)"
    if x: "x < length (os_start_fences s)" "fence_finish (ls_completion l) r (os_start_fences s) ! x = None" for x
  proof -
    have "x \<noteq> ls_completion l" "os_start_fences s ! x = None"
      using x by (auto simp: fence_finish_def nth_list_update split: if_splits)
    moreover obtain i p where "(i, p) \<in> set (os_starts s)" "ps_completion p = x"
      using assms(1) x(1) calculation(2) by (auto simp: start_inv_def completions_def)
    ultimately show ?thesis using e by (force simp: completions_def al_del_def)
  qed
  moreover have "completions (lease_release l r s) \<subseteq> completions s" by (auto simp: completions_def al_del_def)
  ultimately show ?thesis using assms(1) len by (auto simp: start_inv_def)
qed

lemma start_inv_plain:
  assumes "start_inv s" "plain_step s s'"
  shows "start_inv s'"
  using assms(2)
proof cases
  case (pl_activate e)
  then show ?thesis using assms(1) by (auto simp: activate_endpoint_def start_inv_def completions_def)
next
  case (pl_begin_peer e w)
  have "start_inv (snd (seen_webview w s))"
    using assms(1) by (auto simp: start_inv_def completions_def seen_webview_def Let_def split: option.splits)
  then show ?thesis using pl_begin_peer begin_peer_state [of e w s] assms(1) by auto
next
  case (pl_begin_webview w)
  then show ?thesis using assms(1) by (auto simp: begin_webview_def start_inv_def completions_def seen_webview_def Let_def split: option.splits)
next
  case (pl_peer_start e w r)
  obtain x s1 where x: "seen_webview w s = (x, s1)" by fastforce
  have "start_inv s1" using assms(1) start_inv_same [OF seen_webview_frame(2,3,6) [OF x]] by simp
  then show ?thesis
    using pl_peer_start assms(1) start_inv_insert by (auto simp: begin_peer_start_def x split: option.splits if_splits)
next
  case (pl_webview_start w r)
  obtain x s1 where x: "seen_webview w s = (x, s1)" by fastforce
  have "start_inv s1" using assms(1) start_inv_same [OF seen_webview_frame(2,3,6) [OF x]] by simp
  then show ?thesis
    using pl_webview_start start_inv_insert by (auto simp: begin_webview_start_def x split: if_splits)
next
  case (pl_lease_track l k h)
  have "lease_ok (put_session k h (ls_owner l) s) l" "start_inv (put_session k h (ls_owner l) s)"
    using pl_lease_track assms(1) by (simp_all add: lease_ok_def start_inv_def completions_def)
  then show ?thesis using pl_lease_track assms(1) start_inv_release by (simp add: lease_track_def)
next
  case (pl_finish l r)
  then show ?thesis using start_inv_release [OF assms(1)] by (simp add: finish_cleanup_def)
next
  case (pl_drop l)
  then show ?thesis using start_inv_release [OF assms(1)] assms(1) by (simp add: lease_drop_def)
qed (use assms(1) in \<open>auto simp: track_peer_def track_generic_def untrack_def start_inv_def completions_def\<close>)

definition pubs :: "cleanup_task \<Rightarrow> nat set" where
  "pubs t = wr_current ` set (ck_publish t)"

definition task_ok :: "outcome option list \<Rightarrow> outcome option list \<Rightarrow> issued \<Rightarrow> cleanup_task \<Rightarrow> bool" where
  "task_ok F SF I t \<longleftrightarrow>
     (\<forall>c \<in> set (ck_publish t). F ! wr_current c = None \<and> (\<exists>st. (c, st) \<in> I \<and> (ck_outcome t = Inr () \<longrightarrow>
         (\<forall>p. wr_previous c = Some p \<longrightarrow> WPrev p \<in> set (ck_waits t) \<or> resolved_ok F p)
       \<and> (\<forall>x \<in> set st. WStart x \<in> set (ck_waits t) \<or> resolved_ok SF x))))
   \<and> (\<forall>c. ck_retract t = Some c \<longrightarrow> resolved_ok F (wr_current c))
   \<and> (\<forall>p. WPrev p \<in> set (ck_waits t) \<longrightarrow> p < length F \<and> (\<forall>c \<in> set (ck_publish t). p < wr_current c))
   \<and> (\<forall>x. WStart x \<in> set (ck_waits t) \<longrightarrow> x < length SF)
   \<and> distinct (map wr_current (ck_publish t))"

definition sys_inv :: "own_sys \<Rightarrow> bool" where
  "sys_inv S \<longleftrightarrow> issued_inv (os_cleanup_fences (sy_state S)) (os_start_fences (sy_state S)) (cleanups_of (sy_state S)) (set (sy_issued S))
   \<and> start_inv (sy_state S)
   \<and> (\<forall>t \<in> set (sy_tasks S). task_ok (os_cleanup_fences (sy_state S)) (os_start_fences (sy_state S)) (set (sy_issued S)) t)
   \<and> (\<forall>i < length (sy_tasks S). \<forall>j < length (sy_tasks S). i \<noteq> j \<longrightarrow> pubs (sy_tasks S ! i) \<inter> pubs (sy_tasks S ! j) = {})
   \<and> (\<forall>i < length (os_cleanup_fences (sy_state S)). os_cleanup_fences (sy_state S) ! i = None
        \<longrightarrow> (\<exists>t \<in> set (sy_tasks S). i \<in> pubs t))"

lemma sys_cover:
  "sys_inv S \<Longrightarrow> i < length (os_cleanup_fences (sy_state S)) \<Longrightarrow> os_cleanup_fences (sy_state S) ! i = None
    \<Longrightarrow> \<exists>t \<in> set (sy_tasks S). i \<in> pubs t"
  unfolding sys_inv_def by blast

lemma sys_task_ok:
  "sys_inv S \<Longrightarrow> t \<in> set (sy_tasks S) \<Longrightarrow> task_ok (os_cleanup_fences (sy_state S)) (os_start_fences (sy_state S)) (set (sy_issued S)) t"
  unfolding sys_inv_def by blast

lemma sys_disj:
  "sys_inv S \<Longrightarrow> i < length (sy_tasks S) \<Longrightarrow> j < length (sy_tasks S) \<Longrightarrow> i \<noteq> j \<Longrightarrow> pubs (sy_tasks S ! i) \<inter> pubs (sy_tasks S ! j) = {}"
  unfolding sys_inv_def by blast

lemma sys_issued_inv:
  "sys_inv S \<Longrightarrow> issued_inv (os_cleanup_fences (sy_state S)) (os_start_fences (sy_state S)) (cleanups_of (sy_state S)) (set (sy_issued S))"
  unfolding sys_inv_def by blast

lemma sys_starts: "sys_inv S \<Longrightarrow> start_inv (sy_state S)"
  unfolding sys_inv_def by blast

lemma sys_invI:
  assumes "issued_inv (os_cleanup_fences (sy_state S)) (os_start_fences (sy_state S)) (cleanups_of (sy_state S)) (set (sy_issued S))"
    and "start_inv (sy_state S)"
    and "\<And>t. t \<in> set (sy_tasks S) \<Longrightarrow> task_ok (os_cleanup_fences (sy_state S)) (os_start_fences (sy_state S)) (set (sy_issued S)) t"
    and "\<And>i j. i < length (sy_tasks S) \<Longrightarrow> j < length (sy_tasks S) \<Longrightarrow> i \<noteq> j \<Longrightarrow> pubs (sy_tasks S ! i) \<inter> pubs (sy_tasks S ! j) = {}"
    and "\<And>i. i < length (os_cleanup_fences (sy_state S)) \<Longrightarrow> os_cleanup_fences (sy_state S) ! i = None \<Longrightarrow> \<exists>t \<in> set (sy_tasks S). i \<in> pubs t"
  shows "sys_inv S"
  using assms unfolding sys_inv_def by blast

lemma task_ok_mono:
  assumes "task_ok F SF I t" "fences_le F F'" "fences_le SF SF'" "I \<subseteq> I'"
    and "\<And>c. c \<in> set (ck_publish t) \<Longrightarrow> F' ! wr_current c = F ! wr_current c"
  shows "task_ok F' SF' I' t"
proof -
  have le: "length F \<le> length F'" "length SF \<le> length SF'" using assms(2,3) by (simp_all add: fences_le_def)
  show ?thesis
    unfolding task_ok_def
  proof (intro conjI ballI allI impI)
    fix c assume c: "c \<in> set (ck_publish t)"
    show "F' ! wr_current c = None" using assms(1,5) c by (simp add: task_ok_def)
    obtain st where "(c, st) \<in> I" "ck_outcome t = Inr () \<longrightarrow>
         (\<forall>p. wr_previous c = Some p \<longrightarrow> WPrev p \<in> set (ck_waits t) \<or> resolved_ok F p)
       \<and> (\<forall>x \<in> set st. WStart x \<in> set (ck_waits t) \<or> resolved_ok SF x)"
      using assms(1) c unfolding task_ok_def by blast
    then show "\<exists>st. (c, st) \<in> I' \<and> (ck_outcome t = Inr () \<longrightarrow>
         (\<forall>p. wr_previous c = Some p \<longrightarrow> WPrev p \<in> set (ck_waits t) \<or> resolved_ok F' p)
       \<and> (\<forall>x \<in> set st. WStart x \<in> set (ck_waits t) \<or> resolved_ok SF' x))"
      using assms(4) resolved_ok_mono [OF assms(2)] resolved_ok_mono [OF assms(3)] by blast
  next
    fix c assume "ck_retract t = Some c"
    then show "resolved_ok F' (wr_current c)" using assms(1) resolved_ok_mono [OF assms(2)] by (simp add: task_ok_def)
  next
    fix p assume p: "WPrev p \<in> set (ck_waits t)"
    then show "p < length F'" using assms(1) le by (force simp: task_ok_def)
    fix c assume "c \<in> set (ck_publish t)"
    then show "p < wr_current c" using assms(1) p by (simp add: task_ok_def)
  next
    fix x assume "WStart x \<in> set (ck_waits t)"
    then show "x < length SF'" using assms(1) le by (force simp: task_ok_def)
  qed (use assms(1) in \<open>simp add: task_ok_def\<close>)
qed


lemma sys_inv_plain:
  assumes "sys_inv S" "plain_step (sy_state S) s'"
  shows "sys_inv (S\<lparr>sy_state := s'\<rparr>)"
proof -
  note f = plain_fences [OF assms(2)]
  have "task_ok (os_cleanup_fences s') (os_start_fences s') (set (sy_issued S)) t" if "t \<in> set (sy_tasks S)" for t
  proof (rule task_ok_mono)
    show "task_ok (os_cleanup_fences (sy_state S)) (os_start_fences (sy_state S)) (set (sy_issued S)) t"
      using assms(1) that by (simp add: sys_inv_def)
  qed (simp_all add: f)
  moreover have "start_inv s'" using start_inv_plain [OF _ assms(2)] assms(1) by (simp add: sys_inv_def)
  moreover have "issued_inv (os_cleanup_fences s') (os_start_fences s') (cleanups_of s') (set (sy_issued S))"
    using issued_inv_starts assms(1) f by (auto simp: sys_inv_def)
  ultimately show ?thesis using assms(1) f by (simp add: sys_inv_def)
qed

lemma WPrev_waits: "WPrev p \<in> set (prev_waits cs) \<longleftrightarrow> (\<exists>c \<in> set cs. wr_previous c = Some p)"
  by (induction cs) (auto simp: prev_waits_def split: option.splits)

lemma WStart_waits: "WStart x \<notin> set (prev_waits cs)"
  by (auto simp: prev_waits_def split: option.splits)

lemma sys_inv_issue:
  assumes "sys_inv S" "issues (os_cleanup_fences (sy_state S)) (cleanups_of (sy_state S)) cs (os_cleanup_fences s') (cleanups_of s')"
    and "os_starts s' = os_starts (sy_state S)" "os_next_start s' = os_next_start (sy_state S)"
    and "os_start_fences s' = os_start_fences (sy_state S)"
    and "set sts \<subseteq> completions (sy_state S)"
    and "t = \<lparr>ck_waits = prev_waits cs @ map WNative ns @ map WStart sts, ck_outcome = Inr (), ck_publish = cs, ck_retract = None\<rparr>"
  shows "sys_inv (sys_issue s' t sts S)"
proof -
  let ?F = "os_cleanup_fences (sy_state S)" and ?I = "set (sy_issued S)" and ?SF = "os_start_fences (sy_state S)"
  let ?I' = "?I \<union> (\<lambda>c. (c, sts)) ` set cs"
  have inv: "issued_inv ?F ?SF (cleanups_of (sy_state S)) ?I" using assms(1) by (simp add: sys_inv_def)
  have F': "os_cleanup_fences s' = ?F @ replicate (length cs) None" using assms(2) by (simp add: issues_def)
  have cur: "map wr_current cs = [length ?F ..< length ?F + length cs]" using assms(2) by (simp add: issues_def)
  have rng: "length ?F \<le> wr_current c \<and> wr_current c < length ?F + length cs" if "c \<in> set cs" for c
  proof -
    have "wr_current c \<in> set (map wr_current cs)" using that by simp
    then show ?thesis unfolding cur by simp
  qed
  have issued: "issued_inv (os_cleanup_fences s') ?SF (cleanups_of s') ?I'"
    using assms(2) inv unfolding issues_def by blast
  have old: "task_ok (os_cleanup_fences s') ?SF ?I' u" if "u \<in> set (sy_tasks S)" for u
  proof (rule task_ok_mono)
    show u: "task_ok ?F ?SF ?I u" using assms(1) that by (simp add: sys_inv_def)
    fix c assume "c \<in> set (ck_publish u)"
    then have "wr_current c < length ?F" using u issued_bound [OF inv] unfolding task_ok_def by blast
    then show "os_cleanup_fences s' ! wr_current c = ?F ! wr_current c" by (simp add: F' nth_append)
  qed (simp_all add: F')
  have prev: "p < length ?F" if "c \<in> set cs" "wr_previous c = Some p" for c p
  proof -
    have "cleanups_of (sy_state S) (wr_label c) = Some p" using assms(2) that unfolding issues_def by metis
    then show ?thesis using issued_entry [OF inv] issued_bound [OF inv] by metis
  qed
  have sts: "x < length ?SF" if "x \<in> set sts" for x
    using assms(1,6) that unfolding sys_inv_def start_inv_def by blast
  have lt: "p < wr_current c" if "c \<in> set cs" "d \<in> set cs" "wr_previous d = Some p" for c d p
    using prev [OF that(2,3)] rng [OF that(1)] by simp
  have fresh: "os_cleanup_fences s' ! wr_current c = None" if "c \<in> set cs" for c
  proof -
    have "wr_current c - length ?F < length cs" "\<not> wr_current c < length ?F" using rng [OF that] by linarith+
    then show ?thesis by (simp add: F' nth_append)
  qed
  have new: "task_ok (os_cleanup_fences s') ?SF ?I' t"
    unfolding task_ok_def
  proof (intro conjI ballI allI impI)
    fix c assume c: "c \<in> set (ck_publish t)"
    then show "os_cleanup_fences s' ! wr_current c = None" using fresh assms(7) by simp
    show "\<exists>st. (c, st) \<in> ?I' \<and> (ck_outcome t = Inr () \<longrightarrow>
         (\<forall>p. wr_previous c = Some p \<longrightarrow> WPrev p \<in> set (ck_waits t) \<or> resolved_ok (os_cleanup_fences s') p)
       \<and> (\<forall>x \<in> set st. WStart x \<in> set (ck_waits t) \<or> resolved_ok ?SF x))"
      using c by (intro exI [of _ sts]) (auto simp: assms(7) WPrev_waits)
  next
    fix p assume "WPrev p \<in> set (ck_waits t)"
    then obtain d where d: "d \<in> set cs" "wr_previous d = Some p" by (auto simp: assms(7) WPrev_waits)
    then show "p < length (os_cleanup_fences s')" using prev by (simp add: F' trans_less_add1)
    fix c assume "c \<in> set (ck_publish t)"
    then show "p < wr_current c" using lt d assms(7) by simp
  next
    fix x assume "WStart x \<in> set (ck_waits t)"
    then show "x < length ?SF" using sts by (auto simp: assms(7) WStart_waits)
  qed (simp_all add: assms(7) cur)
  have apart: "pubs u \<inter> pubs t = {}" if "u \<in> set (sy_tasks S)" for u
  proof -
    have "wr_current c < length ?F" if "c \<in> set (ck_publish u)" for c
      using assms(1) \<open>u \<in> _\<close> that issued_bound [OF inv] unfolding sys_inv_def task_ok_def by blast
    moreover have "length ?F \<le> wr_current c" if "c \<in> set (ck_publish t)" for c using rng that assms(7) by simp
    ultimately show ?thesis by (fastforce simp: pubs_def)
  qed
  have disj: "pubs ((sy_tasks S @ [t]) ! i) \<inter> pubs ((sy_tasks S @ [t]) ! j) = {}"
    if ij: "i < length (sy_tasks S @ [t])" "j < length (sy_tasks S @ [t])" "i \<noteq> j" for i j
  proof -
    consider "i < length (sy_tasks S)" "j < length (sy_tasks S)" | "i < length (sy_tasks S)" "j = length (sy_tasks S)"
      | "i = length (sy_tasks S)" "j < length (sy_tasks S)" using ij by fastforce
    then show ?thesis
    proof cases
      case 1
      then show ?thesis using assms(1) ij(3) by (simp add: sys_inv_def nth_append)
    next
      case 2
      then show ?thesis using apart [of "sy_tasks S ! i"] by (simp add: nth_append)
    next
      case 3
      then show ?thesis using apart [of "sy_tasks S ! j"] by (simp add: nth_append Int_commute)
    qed
  qed
  have cover: "\<exists>u \<in> set (sy_tasks S @ [t]). i \<in> pubs u"
    if "i < length (os_cleanup_fences s')" "os_cleanup_fences s' ! i = None" for i
  proof (cases "i < length ?F")
    case True
    then have "?F ! i = None" using that(2) by (simp add: F' nth_append)
    then show ?thesis using sys_cover [OF assms(1) True] by auto
  next
    case False
    then have "i \<in> set (map wr_current cs)" unfolding cur using that(1) by (simp add: F')
    then show ?thesis by (simp add: pubs_def assms(7))
  qed
  have st: "start_inv s'" using start_inv_same [OF assms(3-5)] sys_starts [OF assms(1)] by simp
  have new_sys: "set (sy_issued (sys_issue s' t sts S)) = ?I'" by (simp add: sys_issue_def assms(7))
  have proj: "sy_tasks (sys_issue s' t sts S) = sy_tasks S @ [t]" "sy_state (sys_issue s' t sts S) = s'"
    by (simp_all add: sys_issue_def)
  show ?thesis
    by (rule sys_invI; unfold new_sys proj assms(5)) (use issued old new disj cover st in auto)
qed


lemma task_ok_pass:
  assumes "task_ok (os_cleanup_fences s) (os_start_fences s) I t" "ck_waits t = w # ws" "wait_poll s w = Ready r"
  shows "task_ok (os_cleanup_fences s) (os_start_fences s) I (t\<lparr>ck_waits := ws, ck_outcome := first_error (ck_outcome t) r\<rparr>)"
    (is "task_ok ?F ?SF I ?t")
  unfolding task_ok_def
proof (intro conjI ballI allI impI)
  fix c assume "c \<in> set (ck_publish ?t)"
  then have c: "c \<in> set (ck_publish t)" by simp
  show "?F ! wr_current c = None" using assms(1) c by (simp add: task_ok_def)
  obtain st where st: "(c, st) \<in> I" "ck_outcome t = Inr () \<longrightarrow>
       (\<forall>p. wr_previous c = Some p \<longrightarrow> WPrev p \<in> set (ck_waits t) \<or> resolved_ok ?F p)
     \<and> (\<forall>x \<in> set st. WStart x \<in> set (ck_waits t) \<or> resolved_ok ?SF x)"
    using assms(1) c unfolding task_ok_def by blast
  have "ck_outcome t = Inr () \<and> r = Inr ()" if "ck_outcome ?t = Inr ()"
    using that by (auto simp: first_error_def split: sum.splits)
  moreover have "resolved_ok ?F p" if "r = Inr ()" "w = WPrev p" for p using assms(3) that by (simp add: fence_poll_ok)
  moreover have "resolved_ok ?SF x" if "r = Inr ()" "w = WStart x" for x using assms(3) that by (simp add: fence_poll_ok)
  ultimately show "\<exists>st. (c, st) \<in> I \<and> (ck_outcome ?t = Inr () \<longrightarrow>
       (\<forall>p. wr_previous c = Some p \<longrightarrow> WPrev p \<in> set (ck_waits ?t) \<or> resolved_ok ?F p)
     \<and> (\<forall>x \<in> set st. WStart x \<in> set (ck_waits ?t) \<or> resolved_ok ?SF x))"
    using st assms(2) by (intro exI [of _ st]) auto
qed (use assms(1,2) in \<open>simp_all add: task_ok_def\<close>)

lemma sys_inv_update:
  assumes "sys_inv S" "i < length (sy_tasks S)" "pubs t' \<subseteq> pubs (sy_tasks S ! i)"
    and "issued_inv (os_cleanup_fences s') (os_start_fences s') (cleanups_of s') (set (sy_issued S))" and "start_inv s'"
    and "task_ok (os_cleanup_fences s') (os_start_fences s') (set (sy_issued S)) t'"
    and "\<And>j. j < length (sy_tasks S) \<Longrightarrow> j \<noteq> i \<Longrightarrow> task_ok (os_cleanup_fences s') (os_start_fences s') (set (sy_issued S)) (sy_tasks S ! j)"
    and "length (os_cleanup_fences s') = length (os_cleanup_fences (sy_state S))"
    and "\<And>j. j < length (os_cleanup_fences s') \<Longrightarrow> os_cleanup_fences s' ! j = None \<Longrightarrow>
        os_cleanup_fences (sy_state S) ! j = None \<and> (j \<in> pubs (sy_tasks S ! i) \<longrightarrow> j \<in> pubs t')"
  shows "sys_inv (S\<lparr>sy_state := s', sy_tasks := (sy_tasks S)[i := t']\<rparr>)"
proof (rule sys_invI, goal_cases)
  case 1
  then show ?case using assms(4) by simp
next
  case 2
  then show ?case using assms(5) by simp
next
  case (3 u)
  then obtain j where "j < length (sy_tasks S)" "u = (sy_tasks S)[i := t'] ! j" by (auto simp: in_set_conv_nth)
  then show ?case using assms(2,6,7) by (cases "j = i") simp_all
next
  case (4 j k)
  then have jk: "j < length (sy_tasks S)" "k < length (sy_tasks S)" "j \<noteq> k" by simp_all
  have "pubs ((sy_tasks S)[i := t'] ! j) \<subseteq> pubs (sy_tasks S ! j)" "pubs ((sy_tasks S)[i := t'] ! k) \<subseteq> pubs (sy_tasks S ! k)"
    using assms(2,3) by (auto simp: nth_list_update)
  then show ?case using sys_disj [OF assms(1) jk] by auto
next
  case (5 j)
  then have j: "j < length (os_cleanup_fences s')" "os_cleanup_fences s' ! j = None" by simp_all
  then obtain k where k: "k < length (sy_tasks S)" "j \<in> pubs (sy_tasks S ! k)"
    using sys_cover [OF assms(1), of j] assms(8,9) by (metis in_set_conv_nth)
  then have "j \<in> pubs ((sy_tasks S)[i := t'] ! k)" using assms(2) assms(9) [OF j] by (cases "k = i") simp_all
  moreover have "(sy_tasks S)[i := t'] ! k \<in> set ((sy_tasks S)[i := t'])" using k(1) by simp
  ultimately show ?case by auto
qed

lemma task_step_cases:
  assumes "task_step t s = Some (t', s')"
  obtains (pass) w ws r where "ck_waits t = w # ws" "wait_poll s w = Ready r" "s' = s"
      "t' = t\<lparr>ck_waits := ws, ck_outcome := first_error (ck_outcome t) r\<rparr>"
    | (retract) c where "ck_waits t = []" "ck_retract t = Some c" "s' = cleanup_retract c s" "t' = t\<lparr>ck_retract := None\<rparr>"
    | (publish) c cs where "ck_waits t = []" "ck_publish t = c # cs" "s' = cleanup_finish (wr_current c) (ck_outcome t) s"
      "t' = t\<lparr>ck_publish := cs, ck_retract := (case ck_outcome t of Inr _ \<Rightarrow> Some c | Inl _ \<Rightarrow> None)\<rparr>"
proof (cases "ck_waits t")
  case (Cons w ws)
  obtain r where r: "wait_poll s w = Ready r" using assms Cons by (cases "wait_poll s w") (simp_all add: task_step_def)
  show ?thesis by (rule pass [OF Cons r]) (use assms Cons r in \<open>simp_all add: task_step_def\<close>)
next
  case Nil
  show ?thesis
  proof (cases "ck_retract t")
    case None
    obtain c cs where c: "ck_publish t = c # cs" using assms Nil None by (cases "ck_publish t") (simp_all add: task_step_def)
    show ?thesis by (rule publish [OF Nil c]) (use assms Nil None c in \<open>simp_all add: task_step_def\<close>)
  next
    case (Some c)
    show ?thesis by (rule retract [OF Nil Some]) (use assms Nil Some in \<open>simp_all add: task_step_def\<close>)
  qed
qed

lemma rt_starts_completions:
  "retire_endpoint e s = Some (r, s') \<Longrightarrow> set (rt_starts r) \<subseteq> completions s"
  "webview_transition a w s = Some (r, s') \<Longrightarrow> set (rt_starts r) \<subseteq> completions s"
  "retire_all s = Some (r, s') \<Longrightarrow> set (rt_starts r) \<subseteq> completions s"
  by (erule retire_endpoint_cases webview_transition_cases retire_all_cases, force simp: completions_def)+

lemma retire_starts_frame:
  "retire_endpoint e s = Some (r, s') \<or> webview_transition a w s = Some (r, s') \<or> retire_all s = Some (r, s') \<Longrightarrow>
    os_starts s' = os_starts s \<and> os_next_start s' = os_next_start s \<and> os_start_fences s' = os_start_fences s"
  by (auto elim: retire_endpoint_cases webview_transition_cases retire_all_cases)

lemma sys_inv_task:
  assumes "sys_inv S" "i < length (sy_tasks S)" "task_step (sy_tasks S ! i) (sy_state S) = Some (t', s')"
  shows "sys_inv (S\<lparr>sy_state := s', sy_tasks := (sy_tasks S)[i := t']\<rparr>)"
proof -
  let ?t = "sy_tasks S ! i" and ?s = "sy_state S"
  let ?F = "os_cleanup_fences ?s" and ?SF = "os_start_fences ?s" and ?I = "set (sy_issued S)"
  have tok: "task_ok ?F ?SF ?I (sy_tasks S ! j)" if "j < length (sy_tasks S)" for j using sys_task_ok [OF assms(1)] that by simp
  note inv = sys_issued_inv [OF assms(1)]
  from assms(3) show ?thesis
  proof (cases rule: task_step_cases)
    case (pass w ws r)
    show ?thesis
      by (rule sys_inv_update [OF assms(1,2)])
        (use pass inv sys_starts [OF assms(1)] tok task_ok_pass [OF tok [OF assms(2)] pass(1,2)] in \<open>simp_all add: pubs_def\<close>)
  next
    case (retract c)
    have "resolved_ok ?F (wr_current c)" using tok [OF assms(2)] retract(2) by (simp add: task_ok_def)
    then have "issued_inv ?F ?SF (cleanups_of s') ?I"
      using inv issued_inv_retract retract(3) by (auto simp: cleanup_retract_def map_of_al_del_fun simp del: map_of_al_del)
    moreover have "task_ok ?F ?SF ?I t'" using tok [OF assms(2)] retract(4) by (simp add: task_ok_def)
    moreover have "start_inv s'"
      using start_inv_same [of s' ?s] sys_starts [OF assms(1)] retract(3) by simp
    moreover have "pubs t' = pubs ?t" using retract(4) by (simp add: pubs_def)
    moreover have "os_cleanup_fences s' = ?F" "os_start_fences s' = ?SF" using retract(3) by simp_all
    ultimately show ?thesis using tok by (intro sys_inv_update [OF assms(1,2)]) simp_all
  next
    case (publish c cs)
    let ?r = "ck_outcome ?t" and ?F' = "fence_finish (wr_current c) (ck_outcome ?t) ?F"
    have t: "?F ! wr_current c = None" "wr_current c \<notin> wr_current ` set cs" "distinct (map wr_current cs)"
      using tok [OF assms(2)] publish(2) by (simp_all add: task_ok_def)
    obtain st where st: "(c, st) \<in> ?I" "?r = Inr () \<longrightarrow> (\<forall>p. wr_previous c = Some p \<longrightarrow> resolved_ok ?F p) \<and> (\<forall>x \<in> set st. resolved_ok ?SF x)"
      using tok [OF assms(2)] publish(1,2) by (auto simp: task_ok_def)
    have lt: "wr_current c < length ?F" using issued_bound [OF inv st(1)] .
    have F': "os_cleanup_fences s' = ?F'" using publish(3) by (simp add: cleanup_finish_def)
    have upd: "?F' = ?F[wr_current c := Some ?r]" using lt t(1) by (simp add: fence_finish_def)
    have issued: "issued_inv ?F' ?SF (cleanups_of ?s) ?I" by (rule issued_inv_publish [OF inv st(1) t(1)]) (use st(2) in blast)
    have other: "task_ok ?F' ?SF ?I (sy_tasks S ! j)" if "j < length (sy_tasks S)" "j \<noteq> i" for j
    proof (rule task_ok_mono [OF tok [OF that(1)]])
      fix d assume "d \<in> set (ck_publish (sy_tasks S ! j))"
      then have "wr_current d \<in> pubs (sy_tasks S ! j)" "wr_current c \<in> pubs ?t" using publish(2) by (simp_all add: pubs_def)
      then have "wr_current d \<noteq> wr_current c" using sys_disj [OF assms(1) that(1) assms(2) that(2)] by auto
      then show "?F' ! wr_current d = ?F ! wr_current d" by (simp add: upd)
    qed simp_all
    have "task_ok ?F' ?SF ?I (?t\<lparr>ck_publish := cs\<rparr>)"
    proof (rule task_ok_mono)
      show "task_ok ?F ?SF ?I (?t\<lparr>ck_publish := cs\<rparr>)" using tok [OF assms(2)] publish(2) by (simp add: task_ok_def)
      fix d assume "d \<in> set (ck_publish (?t\<lparr>ck_publish := cs\<rparr>))"
      then have "wr_current d \<in> wr_current ` set cs" by simp
      then have "wr_current d \<noteq> wr_current c" using t(2) by auto
      then show "?F' ! wr_current d = ?F ! wr_current d" by (simp add: upd)
    qed simp_all
    moreover have "resolved_ok ?F' (wr_current c)" if "?r = Inr ()" unfolding upd using lt that by (simp add: resolved_ok_def)
    ultimately have own: "task_ok ?F' ?SF ?I t'" using publish(1,4) by (auto simp: task_ok_def split: sum.splits)
    show ?thesis
    proof (rule sys_inv_update [OF assms(1,2)])
      show "issued_inv (os_cleanup_fences s') (os_start_fences s') (cleanups_of s') ?I"
        unfolding F' using issued publish(3) by simp
      show "start_inv s'" using start_inv_same [of s' ?s] publish(3) sys_starts [OF assms(1)] by simp
      fix j assume "j < length (os_cleanup_fences s')" "os_cleanup_fences s' ! j = None"
      then show "?F ! j = None \<and> (j \<in> pubs ?t \<longrightarrow> j \<in> pubs t')"
        unfolding F' upd using publish(2,4) lt by (auto simp: pubs_def nth_list_update split: if_splits)
    qed (use publish other own F' in \<open>auto simp: pubs_def upd\<close>)
  qed
qed

lemma sys_inv_step:
  assumes "sys_inv S" "sys_step S S'"
  shows "sys_inv S'"
  using assms(2)
proof cases
  case (sy_plain s')
  then show ?thesis using sys_inv_plain assms(1) by simp
next
  case (sy_endpoint e r s' ns)
  note f = retire_starts_frame [OF disjI1, OF sy_endpoint(2)] retire_endpoint_issues [OF sy_endpoint(2)] rt_starts_completions(1) [OF sy_endpoint(2)]
  show ?thesis
    unfolding sy_endpoint(1)
    by (rule sys_inv_issue [OF assms(1), where cs = "rt_owner_cleanups r" and ns = ns]) (use f in \<open>simp_all add: retirement_task_def Let_def\<close>)
next
  case (sy_webview a w r s' ns)
  note f = retire_starts_frame [OF disjI2, OF disjI1, OF sy_webview(2)] rt_starts_completions(2) [OF sy_webview(2)]
  obtain c where "rt_webview_cleanup r = Some c"
    "issues (os_cleanup_fences (sy_state S)) (cleanups_of (sy_state S)) [c] (os_cleanup_fences s') (cleanups_of s')"
    using webview_transition_issues [OF sy_webview(2)] by blast
  with f show ?thesis
    unfolding sy_webview(1)
    by (intro sys_inv_issue [OF assms(1), where cs = "[c]" and ns = ns]) (simp_all add: retirement_task_def Let_def)
next
  case (sy_all r s' ns)
  note f = retire_starts_frame [OF disjI2, OF disjI2, OF sy_all(2)] retire_all_issues [OF sy_all(2)] rt_starts_completions(3) [OF sy_all(2)]
  show ?thesis
    unfolding sy_all(1)
    by (rule sys_inv_issue [OF assms(1), where cs = "rt_owner_cleanups r" and ns = ns]) (use f in \<open>simp_all add: retirement_task_def Let_def\<close>)
next
  case (sy_session k h c s' r')
  note f = session_cleanup_issues [OF sy_session(2)]
  show ?thesis
    unfolding sy_session(1)
    by (rule sys_inv_issue [OF assms(1), where cs = "[c]" and ns = "[r']"]) (use f in \<open>simp_all add: session_task_def\<close>)
next
  case (sy_task i t' s')
  then show ?thesis using sys_inv_task assms(1) by blast
qed

lemma sys_inv_init: "sys_inv sys_init"
  by (simp add: sys_inv_def sys_init_def ownership_default_def issued_inv_def iv_defs start_inv_def completions_def)

lemma sys_inv_steps: "sys_steps S S' \<Longrightarrow> sys_inv S \<Longrightarrow> sys_inv S'"
  unfolding sys_steps_def by (induction rule: rtranclp_induct) (auto intro: sys_inv_step)

lemma sys_inv_reachable: "sys_reachable S \<Longrightarrow> sys_inv S"
  using sys_inv_steps sys_inv_init by (simp add: sys_reachable_def)


section \<open>Starts and clean-ups\<close>

lemma sys_step_mono:
  assumes "sys_step S S'"
  shows "fences_le (os_cleanup_fences (sy_state S)) (os_cleanup_fences (sy_state S'))
    \<and> fences_le (os_start_fences (sy_state S)) (os_start_fences (sy_state S')) \<and> set (sy_issued S) \<subseteq> set (sy_issued S')"
  using assms
proof cases
  case (sy_plain s')
  then show ?thesis using plain_fences by simp
next
  case (sy_endpoint e r s' ns)
  then show ?thesis
    using retire_endpoint_issues [OF sy_endpoint(2)] retire_starts_frame [OF disjI1, OF sy_endpoint(2)]
    by (auto simp: issues_def sys_issue_def)
next
  case (sy_webview a w r s' ns)
  then show ?thesis
    using webview_transition_issues [OF sy_webview(2)] retire_starts_frame [OF disjI2, OF disjI1, OF sy_webview(2)]
    by (auto simp: issues_def sys_issue_def)
next
  case (sy_all r s' ns)
  then show ?thesis
    using retire_all_issues [OF sy_all(2)] retire_starts_frame [OF disjI2, OF disjI2, OF sy_all(2)]
    by (auto simp: issues_def sys_issue_def)
next
  case (sy_session k h c s' r')
  then show ?thesis using session_cleanup_issues [OF sy_session(2)] by (auto simp: issues_def sys_issue_def)
next
  case (sy_task i t' s')
  from sy_task(3) show ?thesis
    by (cases rule: task_step_cases) (simp_all add: sy_task(1) cleanup_finish_def)
qed

lemma sys_steps_mono:
  assumes "sys_steps S S'"
  shows "fences_le (os_cleanup_fences (sy_state S)) (os_cleanup_fences (sy_state S'))
    \<and> fences_le (os_start_fences (sy_state S)) (os_start_fences (sy_state S')) \<and> set (sy_issued S) \<subseteq> set (sy_issued S')"
  using assms unfolding sys_steps_def
  by (induction rule: rtranclp_induct) (auto dest: sys_step_mono intro: fences_le_trans)

lemma begin_start_prior:
  assumes "begin_peer_start e w s = Some (Some l, s') \<or> begin_webview_start w s = Some (Some l, s')"
  shows "ls_prior_cleanup l = cleanups_of s w"
proof -
  obtain x s1 where x: "seen_webview w s = (x, s1)" by fastforce
  show ?thesis
    using assms seen_webview_frame(5) [OF x]
    by (auto simp: begin_peer_start_def begin_webview_start_def x split: option.splits if_splits dest: insert_start_frame(10))
qed

text \<open>A new start waits for everything before it: when a start on a page has been begun and its wait
  for clean-up returns success, at whatever later time and whatever happened in between, then every
  clean-up installed for that page before the start has succeeded, and so has every start that such a
  clean-up had to wait for.  A clean-up that failed keeps blocking.\<close>

theorem start_waits_for_all_cleanups:
  assumes "sys_reachable S" and "begin_peer_start e w (sy_state S) = Some (Some l, s1) \<or> begin_webview_start w (sy_state S) = Some (Some l, s1)"
    and "sys_steps (S\<lparr>sy_state := s1\<rparr>) S'" and "fst (wait_for_cleanup l () (sy_state S')) = Ready (Inr ())"
    and "(c, sts) \<in> set (sy_issued S)" and "wr_label c = w"
  shows "resolved_ok (os_cleanup_fences (sy_state S')) (wr_current c) \<and> (\<forall>x \<in> set sts. resolved_ok (os_start_fences (sy_state S')) x)"
proof -
  have st: "plain_step (sy_state S) s1" using assms(2) by (auto intro: pl_peer_start pl_webview_start)
  have "sys_step S (S\<lparr>sy_state := s1\<rparr>)" by (rule sy_plain [OF st])
  then have steps: "sys_steps S S'" using assms(3) unfolding sys_steps_def by (rule converse_rtranclp_into_rtranclp)
  note mono = sys_steps_mono [OF steps] and inv = sys_issued_inv [OF sys_inv_reachable [OF assms(1)]]
  note inv' = sys_issued_inv [OF sys_inv_steps [OF steps sys_inv_reachable [OF assms(1)]]]
  note prior = begin_start_prior [OF assms(2)]
  have c': "(c, sts) \<in> set (sy_issued S')" using assms(5) mono by blast
  have "resolved_ok (os_cleanup_fences (sy_state S')) (wr_current c)"
  proof (cases "cleanups_of (sy_state S) w")
    case None
    then have "resolved_ok (os_cleanup_fences (sy_state S)) (wr_current c)"
      using issued_clear [OF inv _ assms(5)] assms(6) by simp
    then show ?thesis using resolved_ok_mono mono by blast
  next
    case (Some i)
    obtain d st' where d: "(d, st') \<in> set (sy_issued S)" "wr_label d = w" "wr_current d = i" using issued_entry [OF inv Some] by blast
    have "resolved_ok (os_cleanup_fences (sy_state S')) i"
      using assms(4) prior Some by (simp add: wait_for_cleanup_def cleanup_wait_def fence_poll_ok)
    moreover have "wr_current c \<le> i" using issued_newest [OF inv Some assms(5,6)] .
    ultimately show ?thesis using issued_earlier [OF inv' _ _ c', of d st'] d mono assms(6) by auto
  qed
  then show ?thesis using issued_starts [OF inv' c'] by blast
qed

text \<open>A page that was navigated once, its clean-up still to be finished.\<close>

definition demo_page :: ownership_state where
  "demo_page = ownership_default\<lparr>os_webviews := [(''main'', \<lparr>og_generation = 1, og_active = True\<rparr>)],
     os_webview_cleanups := [(''main'', 0)], os_cleanup_fences := [None]\<rparr>"

definition demo_fence :: webview_cleanup_retirement where
  "demo_fence = \<lparr>wr_label = ''main'', wr_current = 0, wr_previous = None\<rparr>"

definition demo_sys :: own_sys where
  "demo_sys = \<lparr>sy_state = demo_page, sy_tasks = [\<lparr>ck_waits = [], ck_outcome = Inr (), ck_publish = [demo_fence], ck_retract = None\<rparr>],
     sy_issued = [(demo_fence, [])]\<rparr>"

lemma demo_sys_reachable: "sys_reachable demo_sys"
proof -
  obtain r where r: "webview_transition True ''main'' (sy_state sys_init) = Some (r, demo_page)"
    "rt_starts r = []" "rt_webview_cleanup r = Some demo_fence"
    by (simp add: webview_transition_def install_cleanup_eq sys_init_def ownership_default_def bump_def next_generation_def
        take_retirement_def take_matching_def demo_page_def demo_fence_def al_put_def)
  have "sys_issue demo_page (retirement_task r []) (rt_starts r) sys_init = demo_sys"
    using r(2,3) by (simp add: sys_issue_def retirement_task_def prev_waits_def demo_sys_def demo_fence_def sys_init_def)
  then have "sys_step sys_init demo_sys" using sy_webview [OF r(1), of "[]"] by simp
  then show ?thesis unfolding sys_reachable_def sys_steps_def by (rule r_into_rtranclp)
qed

theorem start_waits_for_all_cleanups_witness:
  "\<exists>l s1 S'. sys_reachable demo_sys \<and> begin_webview_start ''main'' demo_page = Some (Some l, s1)
     \<and> fst (wait_for_cleanup l () s1) = Pending \<and> sys_steps (demo_sys\<lparr>sy_state := s1\<rparr>) S'
     \<and> fst (wait_for_cleanup l () (sy_state S')) = Ready (Inr ()) \<and> resolved_ok (os_cleanup_fences (sy_state S')) 0"
proof -
  obtain l s1 where b: "begin_webview_start ''main'' demo_page = Some (Some l, s1)" "os_cleanup_fences s1 = [None]"
    "ls_prior_cleanup l = Some 0"
    by (simp add: begin_webview_start_def seen_webview_def demo_page_def insert_start_def next_start_def next_generation_def
        ownership_default_def Let_def)
  have p: "fst (wait_for_cleanup l () s1) = Pending" using b by (simp add: wait_for_cleanup_def cleanup_wait_def fence_poll_def)
  define S1 where "S1 = demo_sys\<lparr>sy_state := s1\<rparr>"
  obtain t' where t: "task_step (sy_tasks S1 ! 0) (sy_state S1) = Some (t', cleanup_finish 0 (Inr ()) s1)"
    by (simp add: S1_def demo_sys_def task_step_def demo_fence_def)
  define S2 where "S2 = S1\<lparr>sy_state := cleanup_finish 0 (Inr ()) s1, sy_tasks := (sy_tasks S1)[0 := t']\<rparr>"
  have "sys_step S1 S2" unfolding S2_def by (rule sy_task [OF _ t]) (simp add: S1_def demo_sys_def)
  then have st: "sys_steps (demo_sys\<lparr>sy_state := s1\<rparr>) S2" unfolding sys_steps_def S1_def by (rule r_into_rtranclp)
  have w: "fst (wait_for_cleanup l () (sy_state S2)) = Ready (Inr ())"
    using b by (simp add: S2_def wait_for_cleanup_def cleanup_wait_def cleanup_finish_def fence_finish_def fence_poll_def)
  have d: "sy_state demo_sys = demo_page" "(demo_fence, []) \<in> set (sy_issued demo_sys)" "wr_label demo_fence = ''main''"
    "wr_current demo_fence = 0" by (simp_all add: demo_sys_def demo_fence_def)
  have "begin_webview_start ''main'' (sy_state demo_sys) = Some (Some l, s1)" using b(1) d(1) by simp
  from start_waits_for_all_cleanups [OF demo_sys_reachable disjI2 [OF this] st w d(2,3)] d(4)
  show ?thesis using b(1) p st w demo_sys_reachable by auto
qed

text \<open>Property C18.  Clean-up never deadlocks: in every reachable state in which no start is running, if some
  clean-up task is unfinished then some task can make a step.  Tasks wait only for fences installed before
  their own.\<close>

theorem cleanup_never_deadlocks:
  assumes "sys_reachable S" and "os_starts (sy_state S) = []"
    and "t \<in> set (sy_tasks S)" and "ck_waits t \<noteq> [] \<or> ck_publish t \<noteq> [] \<or> ck_retract t \<noteq> None"
  shows "\<exists>u \<in> set (sy_tasks S). task_step u (sy_state S) \<noteq> None"
proof -
  let ?s = "sy_state S" and ?F = "os_cleanup_fences (sy_state S)"
  note inv = sys_inv_reachable [OF assms(1)]
  have blocked: "\<exists>p. p < length ?F \<and> ?F ! p = None \<and> (\<forall>c \<in> set (ck_publish u). p < wr_current c)"
    if u: "u \<in> set (sy_tasks S)" "task_step u ?s = None" "ck_waits u \<noteq> [] \<or> ck_publish u \<noteq> [] \<or> ck_retract u \<noteq> None" for u
  proof -
    obtain w ws where w: "ck_waits u = w # ws" "wait_poll ?s w = Pending"
      using u(2,3) by (auto simp: task_step_def split: list.splits option.splits poll.splits)
    show ?thesis
    proof (cases w)
      case (WPrev p)
      then have "WPrev p \<in> set (ck_waits u)" using w by simp
      then have p: "p < length ?F" "\<forall>c \<in> set (ck_publish u). p < wr_current c"
        using sys_task_ok [OF inv u(1)] unfolding task_ok_def by blast+
      then show ?thesis using w(2) WPrev fence_poll_pending [OF p(1)] by auto
    next
      case (WStart x)
      then have "x < length (os_start_fences ?s)" using sys_task_ok [OF inv u(1)] w(1) by (simp add: task_ok_def)
      moreover have "completions ?s = {}" using assms(2) by (simp add: completions_def)
      ultimately show ?thesis using w(2) WStart sys_starts [OF inv] by (auto simp: start_inv_def fence_poll_def split: option.splits)
    qed (use w in simp)
  qed
  show ?thesis
  proof (rule ccontr)
    assume none: "\<not> ?thesis"
    have "False" if "p < length ?F" "?F ! p = None" for p
      using that
    proof (induction p rule: less_induct)
      case (less p)
      obtain u where u: "u \<in> set (sy_tasks S)" "p \<in> pubs u" using sys_cover [OF inv less.prems] by blast
      then obtain c where c: "c \<in> set (ck_publish u)" "wr_current c = p" by (auto simp: pubs_def)
      then have "ck_publish u \<noteq> []" by auto
      moreover have "task_step u ?s = None" using none u(1) by blast
      ultimately obtain q where "q < length ?F" "?F ! q = None" "q < p" using blocked [OF u(1)] c by blast
      then show ?case using less.IH by blast
    qed
    moreover have "task_step t ?s = None" using none assms(3) by blast
    ultimately show False using blocked [OF assms(3) _ assms(4)] by blast
  qed
qed


theorem cleanup_never_deadlocks_witness:
  "\<exists>u. u \<in> set (sy_tasks demo_sys) \<and> ck_publish u \<noteq> [] \<and> task_step u (sy_state demo_sys) \<noteq> None"
proof -
  have t: "hd (sy_tasks demo_sys) \<in> set (sy_tasks demo_sys)" "ck_publish (hd (sy_tasks demo_sys)) \<noteq> []"
    "os_starts (sy_state demo_sys) = []"
    by (simp_all add: demo_sys_def demo_page_def ownership_default_def)
  from cleanup_never_deadlocks [OF demo_sys_reachable t(3,1)] t(2)
  obtain u where "u \<in> set (sy_tasks demo_sys)" "task_step u (sy_state demo_sys) \<noteq> None" by blast
  then show ?thesis by (intro exI [of _ u]) (simp add: demo_sys_def)
qed

end
