(* ===== verification/Peer_Discovery.thy ===== *)
theory Peer_Discovery
  imports Node_Addr Scoped_Lookup
begin

text \<open>
  \<^verbatim>\<open>src/crates/iroh-http-discovery/src/engine/types.rs\<close> and the pure part of
  \<^verbatim>\<open>src/crates/iroh-http-discovery/src/lib.rs\<close>: DNS-SD records, the interpretation of a record as a peer, the
  selection of dialable addresses, and the advertisement built from an endpoint.

  The rendering of socket addresses and base32 are those of \<open>addr_lib\<close>; the debug rendering of a string is
  a parameter.  The addresses the transport reports are the record \<open>ep_addr\<close>.
\<close>

section \<open>Records and events\<close>

datatype protocol = Udp | Tcp

record service_config =
  sc_service_name :: string
  sc_instance_name :: string
  sc_port :: u16
  sc_addrs :: "ip_addr list"
  sc_txt :: "(string \<times> string) list"
  sc_protocol :: protocol

record browse_config =
  bc_service_name :: string
  bc_protocol :: protocol

definition browse_config_udp :: "string \<Rightarrow> browse_config" where
  "browse_config_udp n = \<lparr>bc_service_name = n, bc_protocol = Udp\<rparr>"

fun protocol_label :: "protocol \<Rightarrow> string" where
  "protocol_label Udp = ''_udp''"
| "protocol_label Tcp = ''_tcp''"

definition is_ascii_alphanumeric :: "char \<Rightarrow> bool" where
  "is_ascii_alphanumeric c \<longleftrightarrow> (let n = of_char c :: nat in 48 \<le> n \<and> n \<le> 57 \<or> 65 \<le> n \<and> n \<le> 90 \<or> 97 \<le> n \<and> n \<le> 122)"

definition service_type :: "(string \<Rightarrow> string) \<Rightarrow> string \<Rightarrow> protocol \<Rightarrow> string + string" where
  "service_type dbg n p =
     (if n = [] then Inl ''service name must not be empty''
      else if \<not> list_all (\<lambda>c. is_ascii_alphanumeric c \<or> c = CHR ''-'') n
      then Inl (dbg n @ '' must contain only ASCII letters, digits, and '' @ [CHR 0x27, CHR ''-'', CHR 0x27])
      else Inr (CHR ''_'' # n @ ''.'' @ protocol_label p @ ''.local.''))"

record service_record =
  sr_is_active :: bool
  sr_service_type :: string
  sr_instance_name :: string
  sr_host :: "string option"
  sr_port :: u16
  sr_addrs :: "sock_addr list"
  sr_txt :: "(string \<times> string) list"

datatype raw_event = RawUpsert service_record | RawRemove string string

fun raw_identity :: "raw_event \<Rightarrow> string \<times> string" where
  "raw_identity (RawUpsert r) = (sr_service_type r, sr_instance_name r)"
| "raw_identity (RawRemove t n) = (t, n)"

fun record_of_event :: "raw_event \<Rightarrow> service_record" where
  "record_of_event (RawUpsert r) = r\<lparr>sr_is_active := True\<rparr>"
| "record_of_event (RawRemove t n) = \<lparr>sr_is_active = False, sr_service_type = t, sr_instance_name = n, sr_host = None,
     sr_port = 0, sr_addrs = [], sr_txt = []\<rparr>"

datatype discovery_error = Setup string | InvalidServiceName string

fun discovery_error_text :: "discovery_error \<Rightarrow> string" where
  "discovery_error_text (Setup m) = ''mDNS setup failed: '' @ m"
| "discovery_error_text (InvalidServiceName m) = ''invalid mDNS service name: '' @ m"

record peer_event =
  pe_is_active :: bool
  pe_node_id :: string
  pe_addrs :: "string list"

definition TXT_PK :: string where "TXT_PK = ''pk''"
definition TXT_RELAY :: string where "TXT_RELAY = ''relay''"
definition TXT_ADDRESS :: string where "TXT_ADDRESS = ''address''"
definition DNS_SD_TXT_ENTRY_MAX_BYTES :: nat where "DNS_SD_TXT_ENTRY_MAX_BYTES = 255"

section \<open>One TXT entry\<close>

fun fit_loop :: "nat \<Rightarrow> string \<Rightarrow> string list \<Rightarrow> string" where
  "fit_loop budget joined [] = joined"
| "fit_loop budget joined (v # vs) =
     (let sep = (if joined = [] then 0 else 1) in
      if budget < length joined + sep + length v then fit_loop budget joined vs
      else fit_loop budget (joined @ (if sep = 0 then [] else '','') @ v) vs)"

definition fit_txt_values :: "string \<Rightarrow> string list \<Rightarrow> string option" where
  "fit_txt_values key values =
     (if DNS_SD_TXT_ENTRY_MAX_BYTES < length key + 1 then None
      else (let joined = fit_loop (DNS_SD_TXT_ENTRY_MAX_BYTES - (length key + 1)) [] (filter (\<lambda>v. v \<noteq> []) values)
            in if joined = [] then None else Some joined))"

section \<open>From a record to a peer\<close>

fun split_on :: "char \<Rightarrow> string \<Rightarrow> string list" where
  "split_on c [] = [[]]"
| "split_on c (x # xs) = (if x = c then [] # split_on c xs
     else (case split_on c xs of [] \<Rightarrow> [[x]] | p # ps \<Rightarrow> (x # p) # ps))"

definition same_scoped_host :: "sock_addr \<Rightarrow> sock_addr \<Rightarrow> bool" where
  "same_scoped_host l r = (case (sa_ip l, sa_ip r) of
       (IpV4 a b c d, IpV4 a' b' c' d') \<Rightarrow> sa_ip l = sa_ip r
     | (IpV6 g, IpV6 g') \<Rightarrow> g = g' \<and> (and (segment0 g) 0xffc0 \<noteq> 0xfe80 \<or> sa_scope l = sa_scope r)
     | _ \<Rightarrow> False)"

definition unscoped_link_local :: "sock_addr \<Rightarrow> bool" where
  "unscoped_link_local a = (case sa_ip a of
       IpV4 _ _ _ _ \<Rightarrow> False
     | IpV6 g \<Rightarrow> and (segment0 g) 0xffc0 = 0xfe80 \<and> sa_scope a = 0)"

definition push_new :: "'a \<Rightarrow> 'a list \<Rightarrow> 'a list" where
  "push_new x xs = (if x \<in> set xs then xs else xs @ [x])"

fun txt_addresses :: "string list \<Rightarrow> sock_addr list \<Rightarrow> sock_addr list" where
  "txt_addresses [] out = out"
| "txt_addresses (s # rest) out = (case parse_sock_addr (trim_str s) of
       None \<Rightarrow> txt_addresses rest out
     | Some a \<Rightarrow> if sa_port a \<le> 1 \<or> unscoped_link_local a then txt_addresses rest out
         else txt_addresses rest (push_new a out))"

definition peer_event_from_record :: "addr_lib \<Rightarrow> service_record \<Rightarrow> peer_event option" where
  "peer_event_from_record L r =
     (let pk = (case map_of (sr_txt r) TXT_PK of Some v \<Rightarrow> if v \<noteq> [] then Some v else None | None \<Rightarrow> None);
          node = (case pk of Some v \<Rightarrow> Some v | None \<Rightarrow> if sr_instance_name r = [] then None else Some (sr_instance_name r))
      in case node of
           None \<Rightarrow> None
         | Some n \<Rightarrow>
            if \<not> sr_is_active r then Some \<lparr>pe_is_active = False, pe_node_id = n, pe_addrs = []\<rparr>
            else (let txt = (case map_of (sr_txt r) TXT_ADDRESS of None \<Rightarrow> [] | Some s \<Rightarrow> txt_addresses (split_on (CHR '','') s) []);
                      srv = map (sock_show L) (filter (\<lambda>a. 1 < sa_port a
                              \<and> \<not> list_ex (\<lambda>t. same_scoped_host t a \<and> sa_port t \<noteq> sa_port a) txt) (sr_addrs r));
                      both = fold (\<lambda>a out. push_new (sock_show L a) out) txt srv
                  in Some \<lparr>pe_is_active = True, pe_node_id = n,
                       pe_addrs = both @ (case map_of (sr_txt r) TXT_RELAY of None \<Rightarrow> [] | Some u \<Rightarrow> [u])\<rparr>))"

section \<open>Dialable addresses\<close>

text \<open>The crate's own copies of two predicates of the core.\<close>

definition disc_is_placeholder_port :: "u16 \<Rightarrow> bool" where
  "disc_is_placeholder_port p \<longleftrightarrow> p = 0 \<or> p = 1"

definition disc_is_routable_ip :: "ip_addr \<Rightarrow> bool" where
  "disc_is_routable_ip ip = (if is_loopback ip \<or> is_unspecified ip then False
     else (case ip of IpV4 a b _ _ \<Rightarrow> \<not> v4_is_link_local a b | IpV6 g \<Rightarrow> and (segment0 g) 0xffc0 \<noteq> 0xfe80))"

definition ip_is_v6 :: "ip_addr \<Rightarrow> bool" where
  "ip_is_v6 ip = (case ip of IpV4 _ _ _ _ \<Rightarrow> False | IpV6 _ \<Rightarrow> True)"

definition accepts_ip :: "sock_addr \<Rightarrow> ip_addr \<Rightarrow> bool" where
  "accepts_ip bound ip \<longleftrightarrow> is_unspecified (sa_ip bound) \<or> sa_ip bound = ip"

definition compatible_bound :: "sock_addr list \<Rightarrow> ip_addr \<Rightarrow> sock_addr option" where
  "compatible_bound bound ip = find (\<lambda>b. is_ipv6 b = ip_is_v6 ip \<and> \<not> disc_is_placeholder_port (sa_port b) \<and> accepts_ip b ip) bound"

fun select_endpoint :: "sock_addr list \<Rightarrow> sock_addr list \<Rightarrow> sock_addr list \<Rightarrow> sock_addr list" where
  "select_endpoint bound [] out = out"
| "select_endpoint bound (a # rest) out =
     (if \<not> disc_is_routable_ip (sa_ip a) then select_endpoint bound rest out
      else if disc_is_placeholder_port (sa_port a)
      then (case compatible_bound bound (sa_ip a) of
          None \<Rightarrow> select_endpoint bound rest out
        | Some b \<Rightarrow> select_endpoint bound rest (push_new (sock (sa_ip a) (sa_port b)) out))
      else select_endpoint bound rest (push_new a out))"

fun select_interfaces :: "sock_addr list \<Rightarrow> ip_addr list \<Rightarrow> sock_addr list \<Rightarrow> sock_addr list" where
  "select_interfaces bound [] out = out"
| "select_interfaces bound (ip # rest) out =
     (if \<not> disc_is_routable_ip ip then select_interfaces bound rest out
      else (case compatible_bound bound ip of
          None \<Rightarrow> select_interfaces bound rest out
        | Some b \<Rightarrow> select_interfaces bound rest (push_new (sock ip (sa_port b)) out)))"

definition peer_direct_addresses :: "sock_addr list \<Rightarrow> sock_addr list \<Rightarrow> ip_addr list \<Rightarrow> sock_addr list" where
  "peer_direct_addresses ips bound ifs = select_interfaces bound ifs (select_endpoint bound ips [])"

definition starts_with_str :: "string \<Rightarrow> string \<Rightarrow> bool" where
  "starts_with_str p s \<longleftrightarrow> take (length p) s = p"

definition mdns_interface_is_usable :: "string \<Rightarrow> bool \<Rightarrow> bool \<Rightarrow> bool" where
  "mdns_interface_is_usable name is_oper_up is_p2p \<longleftrightarrow>
     is_oper_up \<and> \<not> is_p2p \<and> \<not> starts_with_str ''awdl'' name \<and> \<not> starts_with_str ''llw'' name"

definition operational_interface_ips :: "(ip_addr \<times> bool) list \<Rightarrow> ip_addr list" where
  "operational_interface_ips ifs = map fst (filter snd ifs)"

definition desktop_interface_ips :: "string + (string \<times> bool \<times> bool \<times> ip_addr) list \<Rightarrow> discovery_error + ip_addr list" where
  "desktop_interface_ips r = (case r of
       Inl e \<Rightarrow> Inl (Setup (''cannot enumerate network interfaces: '' @ e))
     | Inr ifs \<Rightarrow> Inr (operational_interface_ips (map (\<lambda>(n, up, p2p, ip). (ip, mdns_interface_is_usable n up p2p)) ifs)))"

section \<open>The advertisement\<close>

definition interface_is_eligible :: "sock_addr list \<Rightarrow> ip_addr \<Rightarrow> sock_addr \<Rightarrow> bool" where
  "interface_is_eligible direct ip bound \<longleftrightarrow> disc_is_routable_ip ip \<and> is_ipv6 bound = ip_is_v6 ip \<and> accepts_ip bound ip
     \<and> \<not> list_ex (\<lambda>c. sa_ip c = ip \<and> sa_port c \<noteq> sa_port bound) direct"

definition backs_candidate :: "sock_addr \<Rightarrow> sock_addr \<Rightarrow> bool" where
  "backs_candidate bound c \<longleftrightarrow> sa_port c = sa_port bound \<and> is_ipv6 c = is_ipv6 bound \<and> accepts_ip bound (sa_ip c)"

text \<open>The three choices of the SRV port, in order.\<close>

definition srv_port :: "sock_addr list \<Rightarrow> sock_addr list \<Rightarrow> ip_addr list \<Rightarrow> u16 option" where
  "srv_port bound direct ifs =
     (let real = filter (\<lambda>b. \<not> disc_is_placeholder_port (sa_port b)) bound in
      case find (\<lambda>b. list_ex (\<lambda>ip. interface_is_eligible direct ip b) ifs) real of
        Some b \<Rightarrow> Some (sa_port b)
      | None \<Rightarrow> (case find (\<lambda>b. list_ex (backs_candidate b) direct) real of
          Some b \<Rightarrow> Some (sa_port b)
        | None \<Rightarrow> (case real of [] \<Rightarrow> None | b # _ \<Rightarrow> Some (sa_port b))))"

definition srv_addrs :: "sock_addr list \<Rightarrow> sock_addr list \<Rightarrow> ip_addr list \<Rightarrow> u16 \<Rightarrow> ip_addr list" where
  "srv_addrs bound direct ifs port =
     (let live = fold push_new (filter (\<lambda>ip. list_ex (\<lambda>b. sa_port b = port \<and> interface_is_eligible direct ip b) bound) ifs) []
      in if live \<noteq> [] then live
         else fold (\<lambda>a. push_new (sa_ip a)) (filter (\<lambda>a. sa_port a = port \<and> list_ex (\<lambda>b. backs_candidate b a) bound) direct) [])"

definition peer_service_config_from_reconciled_snapshot :: "addr_lib \<Rightarrow> string \<Rightarrow> string \<Rightarrow> sock_addr list \<Rightarrow> ep_addr
    \<Rightarrow> ip_addr list \<Rightarrow> ip_addr list \<Rightarrow> discovery_error + service_config" where
  "peer_service_config_from_reconciled_snapshot L service inst bound node ifs known =
     (let ips = filter (\<lambda>a. sa_ip a \<notin> set known \<or> sa_ip a \<in> set ifs) (ep_ip_addrs node);
          direct = peer_direct_addresses ips bound ifs
      in case srv_port bound direct ifs of
           None \<Rightarrow> Inl (Setup ''endpoint has no dialable bound socket'')
         | Some port \<Rightarrow> Inr \<lparr>sc_service_name = service, sc_instance_name = inst, sc_port = port,
             sc_addrs = srv_addrs bound direct ifs port,
             sc_txt = (TXT_PK, inst)
               # (case ep_relays node of [] \<Rightarrow> [] | u # _ \<Rightarrow> [(TXT_RELAY, u)])
               @ (case fit_txt_values TXT_ADDRESS (map (sock_show L) direct) of None \<Rightarrow> [] | Some d \<Rightarrow> [(TXT_ADDRESS, d)]),
             sc_protocol = Udp\<rparr>)"

definition peer_service_config_from_snapshot :: "addr_lib \<Rightarrow> string \<Rightarrow> string \<Rightarrow> sock_addr list \<Rightarrow> ep_addr \<Rightarrow> ip_addr list
    \<Rightarrow> discovery_error + service_config" where
  "peer_service_config_from_snapshot L service inst bound node ifs =
     peer_service_config_from_reconciled_snapshot L service inst bound node ifs ifs"

definition peer_service_config_with_ips :: "addr_lib \<Rightarrow> (string \<Rightarrow> string) \<Rightarrow> bytes \<Rightarrow> ep_addr \<Rightarrow> string \<Rightarrow> ip_addr list
    \<Rightarrow> discovery_error + service_config" where
  "peer_service_config_with_ips L dbg key ep service ifs = (case service_type dbg service Udp of
       Inl e \<Rightarrow> Inl (InvalidServiceName e)
     | Inr _ \<Rightarrow> if ep_is_closed ep then Inl (Setup ''endpoint is closed'')
         else peer_service_config_from_snapshot L service (b32_encode L key) (ep_bound ep) ep ifs)"

section \<open>Applying a record\<close>

definition from_removal :: "lookup_removal \<Rightarrow> peer_event" where
  "from_removal r = \<lparr>pe_is_active = has_remaining_contributions r, pe_node_id = rm_node_id r, pe_addrs = remaining_addrs r\<rparr>"

definition apply_peer_record :: "addr_lib \<Rightarrow> lookup_lib \<Rightarrow> u64 \<Rightarrow> service_record \<Rightarrow> lookup_state \<Rightarrow> peer_event list \<times> lookup_state" where
  "apply_peer_record L K sid r st = (case peer_event_from_record L r of
       None \<Rightarrow> ([], st)
     | Some ev \<Rightarrow>
        if pe_is_active ev
        then (case upsert K sid (sr_instance_name r) (pe_node_id ev) (pe_addrs ev) st of
            (Inr u, st') \<Rightarrow> ((case up_replaced u of None \<Rightarrow> [] | Some x \<Rightarrow> [from_removal x])
               @ [ev\<lparr>pe_node_id := up_node_id u, pe_addrs := up_effective_addrs u\<rparr>], st')
          | (Inl e, st') \<Rightarrow> ((case ue_removal e of None \<Rightarrow> [] | Some x \<Rightarrow> [from_removal x]), st'))
        else (case remove_with_snapshot K sid (sr_instance_name r) st of
            (x, st') \<Rightarrow> ((case x of None \<Rightarrow> [] | Some y \<Rightarrow> [from_removal y]), st')))"

end
