(* ===== verification/Discovery_Props.thy ===== *)
theory Discovery_Props
  imports Peer_Discovery
begin

text \<open>Properties of peer discovery: the size of TXT entries, the round trip from an advertisement to the peer a
  browser sees, the agreement with the core's address selection, and the reachability of what is
  advertised.\<close>

section \<open>TXT entries\<close>

definition join_comma :: "string list \<Rightarrow> string" where
  "join_comma xs = (case xs of [] \<Rightarrow> [] | y # ys \<Rightarrow> y @ concat (map (\<lambda>z. CHR '','' # z) ys))"

lemma join_comma_snoc: "pre \<noteq> [] \<Longrightarrow> join_comma (pre @ [v]) = join_comma pre @ '','' @ v"
  by (cases pre) (simp_all add: join_comma_def)

lemma join_comma_Nil [simp]: "[] \<notin> set xs \<Longrightarrow> join_comma xs = [] \<longleftrightarrow> xs = []"
  by (cases xs) (auto simp: join_comma_def)

lemma length_join_mono: "length (join_comma (pre @ [v])) \<le> length (join_comma (pre @ v # vs))"
  by (cases pre) (auto simp: join_comma_def)

text \<open>The loop selects a subsequence of the values, joins it within the budget, and selects everything when
  everything fits.\<close>

lemma fit_loop_selects:
  assumes "[] \<notin> set pre" "[] \<notin> set vs" "length (join_comma pre) \<le> budget"
  shows "\<exists>sel. subseq sel vs \<and> fit_loop budget (join_comma pre) vs = join_comma (pre @ sel)
    \<and> length (join_comma (pre @ sel)) \<le> budget \<and> (length (join_comma (pre @ vs)) \<le> budget \<longrightarrow> sel = vs)"
  using assms
proof (induction vs arbitrary: pre)
  case Nil
  then show ?case by auto
next
  case (Cons v vs)
  have step: "join_comma (pre @ [v]) = join_comma pre @ (if pre = [] then [] else '','') @ v"
    using join_comma_snoc [of pre v] by (cases "pre = []") (simp_all add: join_comma_def)
  show ?case
  proof (cases "budget < length (join_comma (pre @ [v]))")
    case True
    then have "fit_loop budget (join_comma pre) (v # vs) = fit_loop budget (join_comma pre) vs"
      using Cons.prems(1) step by (cases "pre = []") (simp_all add: Let_def)
    moreover have "\<not> length (join_comma (pre @ v # vs)) \<le> budget" using True length_join_mono [of pre v vs] by linarith
    moreover obtain sel where "subseq sel vs" "fit_loop budget (join_comma pre) vs = join_comma (pre @ sel)"
      "length (join_comma (pre @ sel)) \<le> budget" using Cons.IH [of pre] Cons.prems by auto
    ultimately show ?thesis by (metis list_emb_Cons)
  next
    case False
    then have "fit_loop budget (join_comma pre) (v # vs) = fit_loop budget (join_comma (pre @ [v])) vs"
      using Cons.prems(1) step by (cases "pre = []") (simp_all add: Let_def)
    moreover obtain sel where "subseq sel vs" "fit_loop budget (join_comma (pre @ [v])) vs = join_comma ((pre @ [v]) @ sel)"
      "length (join_comma ((pre @ [v]) @ sel)) \<le> budget" "length (join_comma ((pre @ [v]) @ vs)) \<le> budget \<longrightarrow> sel = vs"
      using Cons.IH [of "pre @ [v]"] Cons.prems False by auto
    ultimately show ?thesis by (intro exI [of _ "v # sel"]) auto
  qed
qed

lemma fit_loop_empty:
  "[] \<notin> set vs \<Longrightarrow> fit_loop b j vs = [] \<Longrightarrow> j = [] \<and> (\<forall>v \<in> set vs. b < length v)"
proof (induction vs arbitrary: j)
  case Nil
  then show ?case by simp
next
  case (Cons v vs)
  show ?case
  proof (cases "b < length j + (if j = [] then 0 else 1) + length v")
    case True
    then have "fit_loop b j vs = []" using Cons.prems(2) by (simp add: Let_def split: if_splits)
    then have "j = []" "\<forall>v \<in> set vs. b < length v" using Cons.IH [of j] Cons.prems(1) by auto
    then show ?thesis using True by simp
  next
    case False
    then have "fit_loop b (j @ (if j = [] then [] else '','') @ v) vs = []"
      using Cons.prems(2) by (cases "j = []") (simp_all add: Let_def)
    then have "j @ (if j = [] then [] else '','') @ v = []"
      using Cons.IH [of "j @ (if j = [] then [] else '','') @ v"] Cons.prems(1) by simp
    then have "v = []" by (simp split: if_splits)
    then show ?thesis using Cons.prems(1) by simp
  qed
qed

lemma fit_txt_selects:
  assumes "fit_txt_values key values = Some s"
  shows "\<exists>sel. subseq sel (filter (\<lambda>v. v \<noteq> []) values) \<and> sel \<noteq> [] \<and> s = join_comma sel \<and> length key + 1 + length s \<le> 255
    \<and> (length key + 1 + length (join_comma (filter (\<lambda>v. v \<noteq> []) values)) \<le> 255 \<longrightarrow> sel = filter (\<lambda>v. v \<noteq> []) values)"
proof -
  let ?vs = "filter (\<lambda>v. v \<noteq> []) values" and ?b = "255 - (length key + 1)"
  have k: "length key + 1 \<le> 255" and s: "s = fit_loop ?b [] ?vs" "s \<noteq> []"
    using assms by (auto simp: fit_txt_values_def DNS_SD_TXT_ENTRY_MAX_BYTES_def Let_def split: if_splits)
  have "[] \<notin> set ?vs" by auto
  then obtain sel where sel: "subseq sel ?vs" "fit_loop ?b (join_comma []) ?vs = join_comma sel"
    "length (join_comma sel) \<le> ?b" "length (join_comma ?vs) \<le> ?b \<longrightarrow> sel = ?vs"
    using fit_loop_selects [of "[]" ?vs ?b] by (auto simp: join_comma_def)
  have "s = join_comma sel" using s(1) sel(2) by (simp add: join_comma_def)
  moreover have "sel \<noteq> []" using s(2) calculation by (auto simp: join_comma_def)
  ultimately show ?thesis using sel k by (intro exI [of _ sel]) auto
qed

lemma fit_txt_none:
  assumes "fit_txt_values key vals = None"
  shows "\<forall>v \<in> set vals. v \<noteq> [] \<longrightarrow> 255 < length key + 1 + length v"
proof -
  let ?b = "255 - (length key + 1)" and ?vs = "filter (\<lambda>v. v \<noteq> []) vals"
  have "\<forall>v \<in> set ?vs. 255 < length key + 1 + length v"
  proof (cases "255 < length key + 1")
    case True
    then show ?thesis by simp
  next
    case False
    then have "fit_loop ?b [] ?vs = []"
      using assms by (simp add: fit_txt_values_def DNS_SD_TXT_ENTRY_MAX_BYTES_def Let_def split: if_splits)
    then have "\<forall>v \<in> set ?vs. ?b < length v" using fit_loop_empty [of ?vs ?b "[]"] by simp
    then show ?thesis by auto
  qed
  then show ?thesis by simp
qed

text \<open>A TXT entry fits: the entry \<open>key=value\<close> built from a list of values has at most 255 bytes, the
  value is a comma-separated list of whole, non-empty input values in their order, and no value is left out
  when all of them fit; there is no entry only if no value fits.\<close>

theorem txt_entry_fits:
  "(case fit_txt_values key vals of
      Some s \<Rightarrow> length key + 1 + length s \<le> 255
        \<and> (\<exists>sel. sel \<noteq> [] \<and> subseq sel (filter (\<lambda>v. v \<noteq> []) vals) \<and> s = join_comma sel
             \<and> (length key + 1 + length (join_comma (filter (\<lambda>v. v \<noteq> []) vals)) \<le> 255 \<longrightarrow> sel = filter (\<lambda>v. v \<noteq> []) vals))
    | None \<Rightarrow> \<forall>v \<in> set vals. v \<noteq> [] \<longrightarrow> 255 < length key + 1 + length v)"
proof (cases "fit_txt_values key vals")
  case (Some s)
  then show ?thesis using fit_txt_selects [OF Some] by fastforce
next
  case None
  then show ?thesis using fit_txt_none [OF None] by simp
qed

theorem txt_entry_fits_witness:
  "fit_txt_values ''address'' [''10.0.0.7:443'', '''', ''10.0.0.8:443''] = Some ''10.0.0.7:443,10.0.0.8:443''
   \<and> length ''address'' + 1 + length ''10.0.0.7:443,10.0.0.8:443'' \<le> 255"
proof -
  have "fit_txt_values ''address'' [''10.0.0.7:443'', '''', ''10.0.0.8:443''] = Some ''10.0.0.7:443,10.0.0.8:443''"
    by (simp add: fit_txt_values_def DNS_SD_TXT_ENTRY_MAX_BYTES_def)
  then show ?thesis using txt_entry_fits [where key = "''address''" and vals = "[''10.0.0.7:443'', '''', ''10.0.0.8:443'']"] by simp
qed

section \<open>Selection\<close>

lemma disc_predicates_mirror:
  "disc_is_placeholder_port = is_placeholder_port" "disc_is_routable_ip = is_routable_ip"
  by (simp_all add: fun_eq_iff disc_is_placeholder_port_def is_placeholder_port_def disc_is_routable_ip_def is_routable_ip_def)

lemma set_push_new [simp]: "set (push_new x xs) = insert x (set xs)"
  by (auto simp: push_new_def)

lemma distinct_push_new: "distinct xs \<Longrightarrow> distinct (push_new x xs)"
  by (simp add: push_new_def)

lemma compatible_wildcard:
  assumes "\<forall>b \<in> set bound. is_unspecified (sa_ip b)"
  shows "map_option sa_port (compatible_bound bound (sa_ip a)) = borrow_port bound (is_ipv6 a)"
  using assms
  by (induction bound) (auto simp: compatible_bound_def borrow_port_def accepts_ip_def disc_predicates_mirror is_ipv6_def ip_is_v6_def)

lemma reconciled_routable: "disc_is_routable_ip = is_routable_ip" by (rule disc_predicates_mirror)

lemma select_agrees:
  assumes "\<forall>b \<in> set bound. is_unspecified (sa_ip b)" "\<forall>a \<in> set ips. sa_scope a = 0"
    and "inj_on (sock_show L) (set out \<union> set (reconcile_direct_addr_ports ips bound))"
  shows "select_dialable_directs_from L (map (sock_show L) out) (reconcile_direct_addr_ports ips bound)
     = map (sock_show L) (select_endpoint bound ips out)"
  using assms(2,3)
proof (induction ips arbitrary: out)
  case Nil
  then show ?case by simp
next
  case (Cons a ips)
  have push: "select_dialable_directs_from L (map (sock_show L) out) (x # reconcile_direct_addr_ports ips bound)
      = map (sock_show L) (if is_routable_ip (sa_ip x) then select_endpoint bound ips (push_new x out) else select_endpoint bound ips out)"
    if x: "\<not> is_placeholder_port (sa_port x)" "inj_on (sock_show L) (set out \<union> insert x (set (reconcile_direct_addr_ports ips bound)))" for x
  proof -
    have "sock_show L x \<in> set (map (sock_show L) out) \<longleftrightarrow> x \<in> set out" using x(2) by (auto simp: inj_on_def)
    moreover have "inj_on (sock_show L) (set out \<union> set (reconcile_direct_addr_ports ips bound))"
      "inj_on (sock_show L) (set (push_new x out) \<union> set (reconcile_direct_addr_ports ips bound))"
      using x(2) by (auto simp: inj_on_def)
    ultimately show ?thesis
      using Cons.IH [of out] Cons.IH [of "push_new x out"] Cons.prems(1) x(1) by (auto simp: push_new_def)
  qed
  have skip: "select_dialable_directs_from L (map (sock_show L) out) (reconcile_direct_addr_ports ips bound)
      = map (sock_show L) (select_endpoint bound ips out)"
    using Cons.IH [of out] Cons.prems by (auto simp: inj_on_def split: if_splits option.splits)
  show ?case
  proof (cases "is_placeholder_port (sa_port a)")
    case False
    then show ?thesis using push [of a] Cons.prems(2) by (simp add: disc_predicates_mirror)
  next
    case True
    show ?thesis
    proof (cases "compatible_bound bound (sa_ip a)")
      case None
      then have "borrow_port bound (is_ipv6 a) = None" using compatible_wildcard [OF assms(1), of a] by simp
      then show ?thesis using True None skip by (simp add: disc_predicates_mirror)
    next
      case (Some b)
      then have bp: "borrow_port bound (is_ipv6 a) = Some (sa_port b)" using compatible_wildcard [OF assms(1), of a] by simp
      have "\<not> is_placeholder_port (sa_port b)" using Some by (auto simp: compatible_bound_def find_Some_iff disc_predicates_mirror)
      moreover obtain x where x: "x = sock (sa_ip a) (sa_port b)" "sa_ip x = sa_ip a" "sa_port x = sa_port b"
        by (simp add: sock_def)
      moreover have "set_port (sa_port b) a = x" using Cons.prems(1) by (simp add: set_port_def sock_def x(1))
      ultimately show ?thesis
        using True Some bp push [of x] Cons.prems(2)
        by (simp add: disc_predicates_mirror del: select_dialable_directs_from.simps)
    qed
  qed
qed

text \<open>The discovery crate and the core advertise the same addresses: for an endpoint whose sockets
  are bound to wildcard addresses, the crate's own selection (with no extra interfaces) gives exactly the
  core's dialable direct addresses, in the same order, although one removes duplicates before and the
  other after rendering.\<close>

theorem selections_agree:
  assumes "\<forall>b \<in> set (ep_bound e). is_unspecified (sa_ip b)" and "\<forall>a \<in> set (ep_ip_addrs e). sa_scope a = 0"
    and "inj_on (sock_show L) (set (direct_socket_addrs e))"
  shows "map (sock_show L) (peer_direct_addresses (ep_ip_addrs e) (ep_bound e) []) = dialable_direct_addresses L e"
  using select_agrees [of "ep_bound e" "ep_ip_addrs e" L "[]"] assms
  by (simp add: peer_direct_addresses_def dialable_direct_addresses_def select_dialable_directs_def direct_socket_addrs_def)

definition demo_disc_lib :: addr_lib where
  "demo_disc_lib = \<lparr>b32_encode = \<lambda>_. ''k'', b32_decode = \<lambda>_. None, key_from_bytes = Inr, json_to_info = \<lambda>_. None,
     json_of_info = \<lambda>_. Inr ''t'', relay_parse = Some, sock_show = \<lambda>_. ''10.0.0.7:443''\<rparr>"

definition demo_ep :: ep_addr where
  "demo_ep = \<lparr>ep_relays = [], ep_ip_addrs = [sock (IpV4 10 0 0 7) 0, sock (IpV4 10 0 0 7) 443],
     ep_bound = [sock (IpV4 0 0 0 0) 443], ep_is_closed = False\<rparr>"

theorem selections_agree_witness:
  "map (sock_show demo_disc_lib) (peer_direct_addresses (ep_ip_addrs demo_ep) (ep_bound demo_ep) []) = [''10.0.0.7:443'']
   \<and> dialable_direct_addresses demo_disc_lib demo_ep = [''10.0.0.7:443'']"
proof -
  have d: "direct_socket_addrs demo_ep = [sock (IpV4 10 0 0 7) 443, sock (IpV4 10 0 0 7) 443]"
    by (simp add: direct_socket_addrs_def demo_ep_def sock_def is_placeholder_port_def borrow_port_def is_ipv6_def set_port_def)
  have "map (sock_show demo_disc_lib) (peer_direct_addresses (ep_ip_addrs demo_ep) (ep_bound demo_ep) [])
      = dialable_direct_addresses demo_disc_lib demo_ep"
    by (rule selections_agree) (simp_all add: d, simp_all add: demo_ep_def sock_def is_unspecified_def)
  moreover have "dialable_direct_addresses demo_disc_lib demo_ep = [''10.0.0.7:443'']"
    by (simp add: dialable_direct_addresses_def select_dialable_directs_def d)
       (simp add: sock_def is_routable_ip_def is_loopback_def is_unspecified_def v4_is_link_local_def is_placeholder_port_def demo_disc_lib_def)
  ultimately show ?thesis by simp
qed

section \<open>What is advertised\<close>

text \<open>The selected addresses are routable with a real port, and each comes from a reported address or from an
  interface with a compatible socket.\<close>

definition direct_ok :: "sock_addr \<Rightarrow> bool" where
  "direct_ok a \<longleftrightarrow> disc_is_routable_ip (sa_ip a) \<and> \<not> disc_is_placeholder_port (sa_port a)"

lemma compatible_boundD:
  "compatible_bound bound ip = Some b \<Longrightarrow> b \<in> set bound \<and> is_ipv6 b = ip_is_v6 ip \<and> \<not> disc_is_placeholder_port (sa_port b) \<and> accepts_ip b ip"
  by (auto simp: compatible_bound_def find_Some_iff)

lemma sock_sel [simp]: "sa_ip (sock ip p) = ip" "sa_port (sock ip p) = p" "sa_scope (sock ip p) = 0"
  by (simp_all add: sock_def)

lemma select_endpoint_all:
  assumes "\<And>a. a \<in> set ips \<Longrightarrow> direct_ok a \<Longrightarrow> Q a"
    and "\<And>a b. a \<in> set ips \<Longrightarrow> disc_is_routable_ip (sa_ip a) \<Longrightarrow> compatible_bound bound (sa_ip a) = Some b \<Longrightarrow> Q (sock (sa_ip a) (sa_port b))"
  shows "\<forall>a \<in> set out. Q a \<Longrightarrow> \<forall>a \<in> set (select_endpoint bound ips out). Q a"
  using assms
proof (induction ips arbitrary: out)
  case Nil
  then show ?case by simp
next
  case (Cons a ips)
  have "\<exists>x. select_endpoint bound (a # ips) out = select_endpoint bound ips x \<and> (\<forall>a \<in> set x. Q a)"
  proof (cases "disc_is_routable_ip (sa_ip a) \<and> (disc_is_placeholder_port (sa_port a) \<longrightarrow> compatible_bound bound (sa_ip a) \<noteq> None)")
    case False
    then show ?thesis using Cons.prems(1) by (intro exI [of _ out]) auto
  next
    case r: True
    show ?thesis
    proof (cases "disc_is_placeholder_port (sa_port a)")
      case False
      have "Q a" using r False by (intro Cons.prems(2)) (simp_all add: direct_ok_def)
      then show ?thesis using r False Cons.prems(1) by (intro exI [of _ "push_new a out"]) simp
    next
      case True
      then obtain b where b: "compatible_bound bound (sa_ip a) = Some b" using r by blast
      have "Q (sock (sa_ip a) (sa_port b))" using r b by (intro Cons.prems(3)) simp_all
      then show ?thesis using r True b Cons.prems(1) by (intro exI [of _ "push_new (sock (sa_ip a) (sa_port b)) out"]) simp
    qed
  qed
  then obtain x where x: "select_endpoint bound (a # ips) out = select_endpoint bound ips x" "\<forall>a \<in> set x. Q a"
    by blast
  show ?case unfolding x(1) by (rule Cons.IH [OF x(2)]) (use Cons.prems(2,3) in simp_all)
qed

lemma select_interfaces_mono: "set out \<subseteq> set (select_interfaces bound ifs out)"
proof (induction ifs arbitrary: out)
  case (Cons ip ifs)
  show ?case
    using Cons [of out] Cons [of "push_new x out" for x] by (auto split: option.split)
qed simp

lemma select_interfaces_all:
  assumes "\<And>ip b. ip \<in> set ifs \<Longrightarrow> disc_is_routable_ip ip \<Longrightarrow> compatible_bound bound ip = Some b \<Longrightarrow> Q (sock ip (sa_port b))"
  shows "\<forall>a \<in> set out. Q a \<Longrightarrow> \<forall>a \<in> set (select_interfaces bound ifs out). Q a"
  using assms
proof (induction ifs arbitrary: out)
  case (Cons ip ifs)
  show ?case
  proof (cases "disc_is_routable_ip ip \<and> compatible_bound bound ip \<noteq> None")
    case False
    then have "select_interfaces bound (ip # ifs) out = select_interfaces bound ifs out" by auto
    then show ?thesis using Cons.IH [OF Cons.prems(1)] Cons.prems(2) by simp
  next
    case True
    then obtain b where b: "disc_is_routable_ip ip" "compatible_bound bound ip = Some b" by blast
    define x where "x = push_new (sock ip (sa_port b)) out"
    have "Q (sock ip (sa_port b))" using b by (intro Cons.prems(2)) simp_all
    then have x: "\<forall>a \<in> set x. Q a" using Cons.prems(1) by (simp add: x_def)
    have e: "select_interfaces bound (ip # ifs) out = select_interfaces bound ifs x" using b by (simp add: x_def)
    show ?thesis unfolding e by (rule Cons.IH [OF x]) (use Cons.prems(2) in simp)
  qed
qed simp

lemma select_interfaces_has:
  "ip \<in> set ifs \<Longrightarrow> disc_is_routable_ip ip \<Longrightarrow> compatible_bound bound ip = Some b
     \<Longrightarrow> sock ip (sa_port b) \<in> set (select_interfaces bound ifs out)"
proof (induction ifs arbitrary: out)
  case (Cons jp ifs)
  show ?case
  proof (cases "jp = ip")
    case True
    then show ?thesis
      using Cons.prems select_interfaces_mono [of "push_new (sock ip (sa_port b)) out" bound ifs] by auto
  next
    case False
    then show ?thesis using Cons by (auto split: option.split)
  qed
qed simp

lemma peer_direct_all:
  assumes "a \<in> set (peer_direct_addresses ips bound ifs)"
    and "\<And>a. a \<in> set ips \<Longrightarrow> direct_ok a \<Longrightarrow> Q a"
    and "\<And>ip b. ip \<in> sa_ip ` set ips \<union> set ifs \<Longrightarrow> disc_is_routable_ip ip \<Longrightarrow> compatible_bound bound ip = Some b \<Longrightarrow> Q (sock ip (sa_port b))"
  shows "Q a"
proof -
  have "\<forall>a \<in> set (select_endpoint bound ips []). Q a"
    by (rule select_endpoint_all) (use assms(2,3) in auto)
  then have "\<forall>a \<in> set (select_interfaces bound ifs (select_endpoint bound ips [])). Q a"
    by (intro select_interfaces_all) (use assms(3) in auto)
  then show ?thesis using assms(1) by (simp add: peer_direct_addresses_def)
qed

lemma peer_direct_ok:
  assumes "a \<in> set (peer_direct_addresses ips bound ifs)"
  shows "direct_ok a \<and> sa_ip a \<in> sa_ip ` set ips \<union> set ifs"
  by (rule peer_direct_all [OF assms]) (auto simp: direct_ok_def dest: compatible_boundD)

lemma peer_direct_scope:
  assumes "a \<in> set (peer_direct_addresses ips bound ifs)" "\<forall>a \<in> set ips. sa_scope a = 0"
  shows "sa_scope a = 0"
  by (rule peer_direct_all [OF assms(1)]) (use assms(2) in auto)

lemma compatible_exists:
  assumes "b \<in> set bound" "is_ipv6 b = ip_is_v6 ip" "\<not> disc_is_placeholder_port (sa_port b)" "accepts_ip b ip"
  shows "\<exists>b'. compatible_bound bound ip = Some b'"
  using assms by (cases "compatible_bound bound ip") (auto simp: compatible_bound_def find_None_iff)

text \<open>An eligible interface has its SRV address among the selected ones.\<close>

lemma eligible_is_direct:
  assumes "ip \<in> set ifs" "b \<in> set bound" "\<not> disc_is_placeholder_port (sa_port b)"
    and "interface_is_eligible (peer_direct_addresses ips bound ifs) ip b"
  shows "sock ip (sa_port b) \<in> set (peer_direct_addresses ips bound ifs)"
proof -
  have e: "disc_is_routable_ip ip" "is_ipv6 b = ip_is_v6 ip" "accepts_ip b ip"
    and no: "\<forall>c \<in> set (peer_direct_addresses ips bound ifs). sa_ip c = ip \<longrightarrow> sa_port c = sa_port b"
    using assms(4) by (auto simp: interface_is_eligible_def list_ex_iff)
  obtain b' where b': "compatible_bound bound ip = Some b'" using compatible_exists [OF assms(2) e(2) assms(3) e(3)] by blast
  then have "sock ip (sa_port b') \<in> set (peer_direct_addresses ips bound ifs)"
    using select_interfaces_has [OF assms(1) e(1)] by (simp add: peer_direct_addresses_def)
  then show ?thesis using no by force
qed

lemma set_fold_push: "set (fold (\<lambda>a. push_new (f a)) as out) = f ` set as \<union> set out"
  by (induction as arbitrary: out) auto

lemma srv_portD:
  assumes "srv_port bound direct ifs = Some p"
  shows "\<exists>b \<in> set bound. sa_port b = p \<and> \<not> disc_is_placeholder_port p"
proof -
  have r: "set (filter (\<lambda>b. \<not> disc_is_placeholder_port (sa_port b)) bound) = {b \<in> set bound. \<not> disc_is_placeholder_port (sa_port b)}"
    by simp
  show ?thesis
  proof -
    have "\<exists>b \<in> set (filter (\<lambda>b. \<not> disc_is_placeholder_port (sa_port b)) bound). sa_port b = p"
      using assms find_Some_iff [THEN iffD1]
      by (fastforce simp: srv_port_def Let_def find_Some_iff simp del: set_filter split: option.splits list.splits)
    then show ?thesis by auto
  qed
qed

lemma srv_addrsD:
  assumes "ip \<in> set (srv_addrs bound (peer_direct_addresses ips bound ifs) ifs p)" "\<not> disc_is_placeholder_port p"
  shows "\<exists>a \<in> set (peer_direct_addresses ips bound ifs). sa_ip a = ip \<and> sa_port a = p"
    and "\<exists>b \<in> set bound. sa_port b = p \<and> is_ipv6 b = ip_is_v6 ip \<and> accepts_ip b ip"
proof -
  let ?d = "peer_direct_addresses ips bound ifs"
  consider (live) b where "ip \<in> set ifs" "b \<in> set bound" "sa_port b = p" "interface_is_eligible ?d ip b"
    | (fallback) a b where "a \<in> set ?d" "sa_port a = p" "sa_ip a = ip" "b \<in> set bound" "backs_candidate b a"
    using assms(1) by (auto simp: srv_addrs_def Let_def set_fold_push set_fold_push [of id, simplified] list_ex_iff split: if_splits)
  then have "(\<exists>a \<in> set ?d. sa_ip a = ip \<and> sa_port a = p) \<and> (\<exists>b \<in> set bound. sa_port b = p \<and> is_ipv6 b = ip_is_v6 ip \<and> accepts_ip b ip)"
  proof cases
    case live
    then have "sock ip p \<in> set ?d" using eligible_is_direct [of ip ifs b bound ips] assms(2) by simp
    then have "\<exists>a \<in> set ?d. sa_ip a = ip \<and> sa_port a = p" using sock_sel by blast
    then show ?thesis using live by (auto simp: interface_is_eligible_def)
  next
    case fallback
    then show ?thesis by (auto simp: backs_candidate_def is_ipv6_def ip_is_v6_def)
  qed
  then show "\<exists>a \<in> set ?d. sa_ip a = ip \<and> sa_port a = p" "\<exists>b \<in> set bound. sa_port b = p \<and> is_ipv6 b = ip_is_v6 ip \<and> accepts_ip b ip"
    by blast+
qed

text \<open>Advertised hosts are served: every address record of an advertisement is routable, a bound socket of
  its family accepts it on the advertised port, and it is not the address of an interface that has gone away;
  without a dialable socket there is no advertisement.\<close>

theorem advertised_hosts_are_served:
  "case peer_service_config_from_reconciled_snapshot L service inst bound node ifs known of
     Inl e \<Rightarrow> \<forall>b \<in> set bound. disc_is_placeholder_port (sa_port b)
   | Inr cfg \<Rightarrow> \<not> disc_is_placeholder_port (sc_port cfg)
       \<and> (\<forall>ip \<in> set (sc_addrs cfg). disc_is_routable_ip ip \<and> (ip \<in> set known \<longrightarrow> ip \<in> set ifs)
            \<and> (\<exists>b \<in> set bound. sa_port b = sc_port cfg \<and> is_ipv6 b = ip_is_v6 ip \<and> accepts_ip b ip))"
proof -
  let ?ips = "filter (\<lambda>a. sa_ip a \<notin> set known \<or> sa_ip a \<in> set ifs) (ep_ip_addrs node)"
  let ?d = "peer_direct_addresses ?ips bound ifs"
  show ?thesis
  proof (cases "srv_port bound ?d ifs")
    case None
    then have "filter (\<lambda>b. \<not> disc_is_placeholder_port (sa_port b)) bound = []"
      by (auto simp: srv_port_def Let_def split: option.splits list.splits)
    then show ?thesis using None by (simp add: peer_service_config_from_reconciled_snapshot_def Let_def filter_empty_conv)
  next
    case (Some p)
    have p: "\<not> disc_is_placeholder_port p" using srv_portD [OF Some] by blast
    have "disc_is_routable_ip ip \<and> (ip \<in> set known \<longrightarrow> ip \<in> set ifs)
        \<and> (\<exists>b \<in> set bound. sa_port b = p \<and> is_ipv6 b = ip_is_v6 ip \<and> accepts_ip b ip)"
      if ip: "ip \<in> set (srv_addrs bound ?d ifs p)" for ip
    proof -
      obtain a where a: "a \<in> set ?d" "sa_ip a = ip" using srv_addrsD(1) [OF ip p] by blast
      show ?thesis using peer_direct_ok [OF a(1)] a(2) srv_addrsD(2) [OF ip p] by (auto simp: direct_ok_def)
    qed
    then have all: "\<forall>ip \<in> set (srv_addrs bound ?d ifs p). disc_is_routable_ip ip \<and> (ip \<in> set known \<longrightarrow> ip \<in> set ifs)
        \<and> (\<exists>b \<in> set bound. sa_port b = p \<and> is_ipv6 b = ip_is_v6 ip \<and> accepts_ip b ip)"
      by blast
    obtain cfg where cfg: "peer_service_config_from_reconciled_snapshot L service inst bound node ifs known = Inr cfg"
      "sc_port cfg = p" "sc_addrs cfg = srv_addrs bound ?d ifs p"
      using Some by (simp add: peer_service_config_from_reconciled_snapshot_def Let_def)
    show ?thesis unfolding cfg(1) sum.case cfg(2,3) using p all by blast
  qed
qed

text \<open>A machine with one live interface, and one that has gone away but is still reported.\<close>

definition demo_node :: ep_addr where
  "demo_node = \<lparr>ep_relays = [''https://r''], ep_ip_addrs = [sock (IpV4 10 0 0 7) 443, sock (IpV4 10 0 0 9) 443],
     ep_bound = [sock (IpV4 0 0 0 0) 443], ep_is_closed = False\<rparr>"

lemmas demo_eval = sock_def disc_is_routable_ip_def is_loopback_def is_unspecified_def v4_is_link_local_def disc_is_placeholder_port_def
  compatible_bound_def is_ipv6_def ip_is_v6_def accepts_ip_def push_new_def interface_is_eligible_def

lemma demo_direct:
  "peer_direct_addresses [sock (IpV4 10 0 0 7) 443] [sock (IpV4 0 0 0 0) 443] [IpV4 10 0 0 7] = [sock (IpV4 10 0 0 7) 443]"
  by (simp add: peer_direct_addresses_def demo_eval)

lemma demo_srv:
  "srv_port [sock (IpV4 0 0 0 0) 443] [sock (IpV4 10 0 0 7) 443] [IpV4 10 0 0 7] = Some 443"
  "srv_addrs [sock (IpV4 0 0 0 0) 443] [sock (IpV4 10 0 0 7) 443] [IpV4 10 0 0 7] 443 = [IpV4 10 0 0 7]"
  by (simp_all add: srv_port_def srv_addrs_def demo_eval)

theorem advertised_hosts_are_served_witness:
  "\<exists>cfg. peer_service_config_from_reconciled_snapshot demo_disc_lib ''app'' ''k'' (ep_bound demo_node) demo_node
       [IpV4 10 0 0 7] [IpV4 10 0 0 7, IpV4 10 0 0 9] = Inr cfg
     \<and> sc_addrs cfg = [IpV4 10 0 0 7] \<and> IpV4 10 0 0 9 \<notin> set (sc_addrs cfg) \<and> \<not> disc_is_placeholder_port (sc_port cfg)"
proof -
  have f: "filter (\<lambda>a. sa_ip a \<notin> set [IpV4 10 0 0 7, IpV4 10 0 0 9] \<or> sa_ip a \<in> set [IpV4 10 0 0 7]) (ep_ip_addrs demo_node)
      = [sock (IpV4 10 0 0 7) 443]" "ep_bound demo_node = [sock (IpV4 0 0 0 0) 443]"
    by (simp_all add: demo_node_def)
  obtain cfg where cfg: "peer_service_config_from_reconciled_snapshot demo_disc_lib ''app'' ''k'' (ep_bound demo_node) demo_node
       [IpV4 10 0 0 7] [IpV4 10 0 0 7, IpV4 10 0 0 9] = Inr cfg" "sc_addrs cfg = [IpV4 10 0 0 7]"
    unfolding peer_service_config_from_reconciled_snapshot_def f Let_def demo_direct demo_srv option.case by force
  then show ?thesis
    using advertised_hosts_are_served [where L = demo_disc_lib and service = "''app''" and inst = "''k''" and bound = "ep_bound demo_node"
      and node = demo_node and ifs = "[IpV4 10 0 0 7]" and known = "[IpV4 10 0 0 7, IpV4 10 0 0 9]"]
    by auto
qed

section \<open>From an advertisement to a peer\<close>

text \<open>What the documentation of the socket address rendering promises, for some addresses.\<close>

definition show_law :: "addr_lib \<Rightarrow> sock_addr list \<Rightarrow> bool" where
  "show_law L as \<longleftrightarrow> (\<forall>a \<in> set as. parse_sock_addr (sock_show L a) = Some a
     \<and> list_all (\<lambda>c. c \<noteq> CHR '','' \<and> \<not> is_space c) (sock_show L a) \<and> sock_show L a \<noteq> [])"

lemma show_lawD:
  assumes "show_law L as" "a \<in> set as"
  shows "parse_sock_addr (sock_show L a) = Some a" "\<forall>c \<in> set (sock_show L a). \<not> is_space c"
    "CHR '','' \<notin> set (sock_show L a)" "sock_show L a \<noteq> []"
  using assms by (auto simp: show_law_def list_all_iff)

lemma split_on_plain: "c \<notin> set s \<Longrightarrow> split_on c s = [s]"
  by (induction s) auto

lemma split_on_append: "c \<notin> set s \<Longrightarrow> split_on c (s @ c # t) = s # split_on c t"
  by (induction s) auto

lemma split_join: "xs \<noteq> [] \<Longrightarrow> \<forall>x \<in> set xs. CHR '','' \<notin> set x \<Longrightarrow> split_on (CHR '','') (join_comma xs) = xs"
proof (induction xs)
  case (Cons x xs)
  show ?case
  proof (cases xs)
    case Nil
    then show ?thesis using Cons.prems by (simp add: join_comma_def split_on_plain)
  next
    case (Cons y ys)
    then have "join_comma (x # xs) = x @ CHR '','' # join_comma xs" by (simp add: join_comma_def)
    then show ?thesis using Cons.prems Cons.IH Cons by (simp add: split_on_append)
  qed
qed simp

lemma dropWhile_no_space: "\<forall>c \<in> set s. \<not> is_space c \<Longrightarrow> dropWhile is_space s = s"
  by (cases s) simp_all

lemma trim_plain: "list_all (\<lambda>c. \<not> is_space c) s \<Longrightarrow> trim_str s = s"
  by (simp add: trim_str_def list_all_iff dropWhile_no_space)

lemma set_txt_addresses:
  assumes "\<forall>s \<in> set ss. \<exists>a. s = sock_show L a \<and> parse_sock_addr (trim_str s) = Some a \<and> 1 < sa_port a \<and> \<not> unscoped_link_local a"
  shows "sock_show L ` set (txt_addresses ss out) = sock_show L ` set out \<union> set ss"
  using assms
proof (induction ss arbitrary: out)
  case Nil
  then show ?case by simp
next
  case (Cons s ss)
  obtain a where a: "s = sock_show L a" "parse_sock_addr (trim_str s) = Some a" "1 < sa_port a" "\<not> unscoped_link_local a"
    using Cons.prems by auto
  have "txt_addresses (s # ss) out = txt_addresses ss (push_new a out)" using a(2,4) a(3) [unfolded not_le [symmetric]] by simp
  then show ?case using Cons.IH [of "push_new a out"] Cons.prems a(1) by auto
qed

lemma word_gt_1: "p \<noteq> 0 \<Longrightarrow> p \<noteq> 1 \<Longrightarrow> 1 < p" for p :: u16
  by (metis linorder_neqE_linordered_idom word_less_1 not_less_iff_gr_or_eq)

lemma direct_ok_plain: "direct_ok a \<Longrightarrow> 1 < sa_port a \<and> \<not> unscoped_link_local a"
  by (auto simp: direct_ok_def disc_is_placeholder_port_def disc_is_routable_ip_def unscoped_link_local_def intro!: word_gt_1
      split: ip_addr.splits if_splits)

lemma txt_keys: "TXT_RELAY \<noteq> TXT_PK" "TXT_ADDRESS \<noteq> TXT_PK" "TXT_RELAY \<noteq> TXT_ADDRESS"
  by (simp_all add: TXT_PK_def TXT_RELAY_def TXT_ADDRESS_def)

lemma map_of_peer_txt:
  fixes fit :: "string option" and relays :: "string list" and inst :: string
  defines "txt \<equiv> (TXT_PK, inst) # (case relays of [] \<Rightarrow> [] | u # _ \<Rightarrow> [(TXT_RELAY, u)])
     @ (case fit of None \<Rightarrow> [] | Some d \<Rightarrow> [(TXT_ADDRESS, d)])"
  shows "map_of txt TXT_PK = Some inst" "map_of txt TXT_RELAY = (case relays of [] \<Rightarrow> None | u # _ \<Rightarrow> Some u)"
    "map_of txt TXT_ADDRESS = fit"
  using txt_keys by (auto simp: txt_def split: list.splits option.splits)

lemma subseq_members: "subseq xs ys \<Longrightarrow> set xs \<subseteq> set ys"
  by (induction rule: list_emb.induct) auto

text \<open>The TXT entry gives back the values it was built from.\<close>

lemma txt_entry_decodes:
  assumes "show_law L direct" "\<forall>a \<in> set direct. direct_ok a \<and> sa_scope a = 0"
    and "txt = (case fit_txt_values TXT_ADDRESS (map (sock_show L) direct) of None \<Rightarrow> [] | Some s \<Rightarrow> txt_addresses (split_on (CHR '','') s) [])"
  shows "sock_show L ` set txt \<subseteq> sock_show L ` set direct"
    and "length TXT_ADDRESS + 1 + length (join_comma (map (sock_show L) direct)) \<le> 255 \<Longrightarrow> sock_show L ` set txt = sock_show L ` set direct"
proof -
  let ?vs = "map (sock_show L) direct"
  have ne: "filter (\<lambda>v. v \<noteq> []) ?vs = ?vs" using assms(1,2) by (auto simp: show_law_def filter_id_conv)
  have dec: "sock_show L ` set txt = set sel"
    if s: "fit_txt_values TXT_ADDRESS ?vs = Some s" "subseq sel ?vs" "sel \<noteq> []" "s = join_comma sel" for s sel
  proof -
    have in_d: "\<forall>v \<in> set sel. \<exists>a \<in> set direct. v = sock_show L a" using subseq_members [OF s(2)] by auto
    then have "\<forall>v \<in> set sel. CHR '','' \<notin> set v" using assms(1,2) by (fastforce simp: show_law_def list_all_iff)
    then have t: "txt = txt_addresses sel []" using assms(3) s(1,4) split_join [OF s(3)] by simp
    have "\<forall>v \<in> set sel. \<exists>a. v = sock_show L a \<and> parse_sock_addr (trim_str v) = Some a \<and> 1 < sa_port a \<and> \<not> unscoped_link_local a"
    proof
      fix v assume "v \<in> set sel"
      then obtain a where a: "a \<in> set direct" "v = sock_show L a" using in_d by blast
      then have "list_all (\<lambda>c. \<not> is_space c) v" and "parse_sock_addr v = Some a"
        using show_lawD [OF assms(1), of a] assms(2) by (simp_all add: list_all_iff)
      then show "\<exists>a. v = sock_show L a \<and> parse_sock_addr (trim_str v) = Some a \<and> 1 < sa_port a \<and> \<not> unscoped_link_local a"
        using a direct_ok_plain assms(2) trim_plain [of v] by auto
    qed
    from set_txt_addresses [OF this, of "[]"] show ?thesis unfolding t by simp
  qed
  show "sock_show L ` set txt \<subseteq> sock_show L ` set direct"
  proof (cases "fit_txt_values TXT_ADDRESS ?vs")
    case (Some s)
    obtain sel where sel: "subseq sel ?vs" "sel \<noteq> []" "s = join_comma sel" using fit_txt_selects [OF Some] ne by auto
    show ?thesis using dec [OF Some sel] subseq_members [OF sel(1)] by simp
  qed (simp add: assms(3))
  show "sock_show L ` set txt = sock_show L ` set direct" if fits: "length TXT_ADDRESS + 1 + length (join_comma ?vs) \<le> 255"
  proof (cases "fit_txt_values TXT_ADDRESS ?vs")
    case (Some s)
    then show ?thesis using fit_txt_selects [OF Some] ne dec [OF Some, of ?vs] fits by auto
  next
    case None
    have "\<forall>v \<in> set ?vs. v \<noteq> []" using ne by (auto simp: filter_id_conv)
    moreover have "direct = [] \<or> length (sock_show L (hd direct)) \<le> length (join_comma ?vs)" by (cases direct) (simp_all add: join_comma_def)
    ultimately have "direct = []" using fit_txt_none [OF None] fits by (cases direct) auto
    then show ?thesis using assms(3) None by simp
  qed
qed

lemma set_fold_show: "set (fold (\<lambda>a out. push_new (f a) out) as out) = f ` set as \<union> set out"
  by (rule set_fold_push)

text \<open>The TXT entries of an advertisement: one per key, and the address entry within one entry's size.\<close>

lemma peer_config_shape:
  assumes "peer_service_config_from_snapshot L service inst bound node ifs = Inr cfg"
  defines "direct \<equiv> peer_direct_addresses (ep_ip_addrs node) bound ifs"
  defines "fit \<equiv> fit_txt_values TXT_ADDRESS (map (sock_show L) direct)"
  shows "sc_service_name cfg = service \<and> sc_protocol cfg = Udp \<and> sc_instance_name cfg = inst
     \<and> srv_port bound direct ifs = Some (sc_port cfg)
     \<and> sc_addrs cfg = srv_addrs bound direct ifs (sc_port cfg)
     \<and> sc_txt cfg = (TXT_PK, inst) # (case ep_relays node of [] \<Rightarrow> [] | u # _ \<Rightarrow> [(TXT_RELAY, u)])
         @ (case fit of None \<Rightarrow> [] | Some d \<Rightarrow> [(TXT_ADDRESS, d)])"
proof -
  have all: "filter (\<lambda>a. sa_ip a \<notin> set ifs \<or> sa_ip a \<in> set ifs) (ep_ip_addrs node) = ep_ip_addrs node" by simp
  have "srv_port bound direct ifs \<noteq> None"
    using assms(1)
    by (auto simp: peer_service_config_from_snapshot_def peer_service_config_from_reconciled_snapshot_def Let_def direct_def split: option.splits)
  then obtain p where p: "srv_port bound direct ifs = Some p" by blast
  then show ?thesis
    using assms(1)
    unfolding peer_service_config_from_snapshot_def peer_service_config_from_reconciled_snapshot_def all Let_def
      direct_def [symmetric] fit_def [symmetric] by auto
qed

text \<open>A record that carries an advertisement, as a browser builds it: any order of the addresses, and the same TXT
  entries under the three keys.\<close>

definition carries :: "service_config \<Rightarrow> service_record \<Rightarrow> bool" where
  "carries cfg r \<longleftrightarrow> sr_is_active r \<and> sr_instance_name r = sc_instance_name cfg
     \<and> set (sr_addrs r) = (\<lambda>ip. sock ip (sc_port cfg)) ` set (sc_addrs cfg) \<and> map_of (sr_txt r) = map_of (sc_txt cfg)"

lemma carried_record_decodes:
  assumes "peer_service_config_from_snapshot L service inst bound node ifs = Inr cfg"
    and "show_law L (peer_direct_addresses (ep_ip_addrs node) bound ifs)" "inst \<noteq> []" "\<forall>a \<in> set (ep_ip_addrs node). sa_scope a = 0"
    and r: "carries cfg r"
  shows "\<exists>ev. peer_event_from_record L r = Some ev \<and> pe_is_active ev \<and> pe_node_id ev = inst
     \<and> (let direct = peer_direct_addresses (ep_ip_addrs node) bound ifs;
            expected = sock_show L ` set direct \<union> set (take 1 (ep_relays node)) in
        set (pe_addrs ev) \<subseteq> expected
        \<and> (length TXT_ADDRESS + 1 + length (join_comma (map (sock_show L) direct)) \<le> 255 \<longrightarrow> set (pe_addrs ev) = expected))"
proof -
  define direct where "direct = peer_direct_addresses (ep_ip_addrs node) bound ifs"
  define fit where "fit = fit_txt_values TXT_ADDRESS (map (sock_show L) direct)"
  define ta where "ta = (case fit of None \<Rightarrow> [] | Some s \<Rightarrow> txt_addresses (split_on (CHR '','') s) [])"
  define p where "p = sc_port cfg"
  note shape = peer_config_shape [OF assms(1), folded direct_def, folded fit_def p_def]
  have entries: "map_of (sr_txt r) TXT_PK = Some inst" "map_of (sr_txt r) TXT_ADDRESS = fit"
    "map_of (sr_txt r) TXT_RELAY = (case ep_relays node of [] \<Rightarrow> None | u # _ \<Rightarrow> Some u)"
    using r shape map_of_peer_txt [of inst "ep_relays node" fit] by (simp_all add: carries_def)
  define srv where "srv = filter (\<lambda>a. 1 < sa_port a \<and> \<not> list_ex (\<lambda>t. same_scoped_host t a \<and> sa_port t \<noteq> sa_port a) ta) (sr_addrs r)"
  define relay where "relay = (case ep_relays node of [] \<Rightarrow> [] | u # _ \<Rightarrow> [u])"
  have rl: "relay = take 1 (ep_relays node)" by (simp add: relay_def split: list.split)
  have ok: "\<forall>a \<in> set direct. direct_ok a \<and> sa_scope a = 0"
    using peer_direct_ok peer_direct_scope assms(4) by (auto simp: direct_def)
  have sub: "set srv \<subseteq> set direct"
  proof
    fix x assume "x \<in> set srv"
    then obtain ip where ip: "ip \<in> set (srv_addrs bound direct ifs p)" "x = sock ip p"
      using r shape by (auto simp: srv_def carries_def p_def)
    have "\<not> disc_is_placeholder_port p" using srv_portD shape by blast
    then obtain a where "a \<in> set direct" "sa_ip a = ip" "sa_port a = p"
      using srv_addrsD(1) [OF ip(1) [unfolded direct_def]] by (auto simp: direct_def)
    then have "x = a" using ok ip(2) by (simp add: sock_def)
    then show "x \<in> set direct" using \<open>a \<in> set direct\<close> by simp
  qed
  define ev where "ev = \<lparr>pe_is_active = True, pe_node_id = inst,
     pe_addrs = fold (\<lambda>a out. push_new (sock_show L a) out) ta (map (sock_show L) srv) @ relay\<rparr>"
  have "peer_event_from_record L r = Some ev"
    using assms(3) entries r
    by (simp add: peer_event_from_record_def carries_def ev_def ta_def srv_def relay_def Let_def split: list.split)
  moreover have "set (pe_addrs ev) = sock_show L ` set ta \<union> sock_show L ` set srv \<union> set relay"
    by (simp add: ev_def set_fold_show)
  moreover have "sock_show L ` set ta \<subseteq> sock_show L ` set direct"
    "length TXT_ADDRESS + 1 + length (join_comma (map (sock_show L) direct)) \<le> 255 \<longrightarrow> sock_show L ` set ta = sock_show L ` set direct"
    using txt_entry_decodes [OF assms(2) [folded direct_def] ok ta_def [unfolded fit_def]] by blast+
  moreover have "pe_is_active ev" "pe_node_id ev = inst" by (simp_all add: ev_def)
  ultimately show ?thesis
    using sub unfolding Let_def direct_def [symmetric] rl [symmetric] by (intro exI [of _ ev]) auto
qed

section \<open>Events and the lookup\<close>

text \<open>Contributions are stored under the canonical node id.\<close>

definition canonical :: "lookup_lib \<Rightarrow> lookup_state \<Rightarrow> bool" where
  "canonical K st \<longleftrightarrow> (\<forall>k c. (k, c) \<in> set (contributions st) \<longrightarrow> ct_node_id c = id_base32 K (ct_endpoint c))"

lemma canonical_subset: "canonical K st \<Longrightarrow> set (contributions st') \<subseteq> set (contributions st) \<Longrightarrow> canonical K st'"
  unfolding canonical_def by blast

lemma remove_contribution_subset: "set (contributions (snd (remove_contribution K key st))) \<subseteq> set (contributions st)"
  by (auto simp: remove_contribution_def Let_def set_al_del split: option.splits)

lemma upsert_ok_contributions:
  assumes "upsert K sid inst node addrs st = (Inr u, st')"
  shows "\<exists>e. parse_endpoint_id K node = Inr e \<and> contributions st'
     = al_put (sid, inst) \<lparr>ct_endpoint = e, ct_node_id = id_base32 K e, ct_data = endpoint_data K addrs\<rparr> (contributions st)"
  using assms by (auto simp: upsert_def Let_def split: if_splits sum.splits option.splits prod.splits)

lemma upsert_canonical:
  assumes "canonical K st"
  shows "canonical K (snd (upsert K sid inst node addrs st))"
proof (cases "upsert K sid inst node addrs st")
  case (Pair r st')
  show ?thesis
  proof (cases r)
    case (Inl e)
    then have "set (contributions st') \<subseteq> set (contributions st)"
      using Pair remove_contribution_subset [of K "(sid, inst)" st]
      by (auto simp: upsert_def Let_def split: if_splits sum.splits prod.splits)
    then show ?thesis using canonical_subset [OF assms] Pair by simp
  next
    case (Inr u)
    then obtain e where "contributions st'
       = al_put (sid, inst) \<lparr>ct_endpoint = e, ct_node_id = id_base32 K e, ct_data = endpoint_data K addrs\<rparr> (contributions st)"
      using upsert_ok_contributions Pair by blast
    then show ?thesis using assms Pair by (auto simp: canonical_def al_put_def set_al_del)
  qed
qed

lemma reachable_canonical: "lookup_reachable K st \<Longrightarrow> canonical K st"
proof (induction rule: lookup_reachable.induct)
  case lk_start
  show ?case by (simp add: canonical_def lookup_new_def)
next
  case (lk_next st st')
  from lk_next(2) show ?case
  proof cases
    case (lk_upsert sid inst node addrs)
    then show ?thesis using upsert_canonical [OF lk_next.IH] by simp
  next
    case (lk_remove sid inst)
    then show ?thesis
      using canonical_subset [OF lk_next.IH] lk_next.IH remove_contribution_subset [of K "(sid, inst)" st]
      by (auto simp: lookup_remove_def remove_with_snapshot_def split: prod.splits)
  next
    case (lk_clean sid)
    then show ?thesis by (intro canonical_subset [OF lk_next.IH]) (auto simp: retire_clean_def Let_def)
  qed (intro canonical_subset [OF lk_next.IH], auto simp: new_source_def retire_flag_def split: if_splits)+
qed

text \<open>An event tells the truth about an endpoint in a state of the lookup.\<close>

definition event_truthful :: "lookup_lib \<Rightarrow> u64 \<Rightarrow> lookup_state \<Rightarrow> peer_event \<Rightarrow> bool" where
  "event_truthful K sid st ev \<longleftrightarrow> (\<exists>e. pe_node_id ev = id_base32 K e
     \<and> (pe_is_active ev \<longleftrightarrow> (\<exists>i c. ((sid, i), c) \<in> set (contributions st) \<and> ct_endpoint c = e))
     \<and> set (pe_addrs ev) = show_taddr K ` (\<Union>c \<in> {c. \<exists>i. ((sid, i), c) \<in> set (contributions st) \<and> ct_endpoint c = e}. set (ct_data c)))"

lemma source_addrs_set:
  assumes "norm_law K"
  shows "set (source_effective_addrs K sid e st)
     = show_taddr K ` (\<Union>c \<in> {c. \<exists>i. ((sid, i), c) \<in> set (contributions st) \<and> ct_endpoint c = e}. set (ct_data c))"
  using assms by (force simp: source_effective_addrs_def norm_law_def addrs_where_def)

lemma source_has_endpoint:
  "list_ex (\<lambda>(k, c). fst k = sid \<and> ct_endpoint c = e) xs \<longleftrightarrow> (\<exists>i c. ((sid, i), c) \<in> set xs \<and> ct_endpoint c = e)"
  unfolding list_ex_iff by force

lemma removal_truthful:
  assumes "norm_law K" "n = id_base32 K e"
  shows "event_truthful K sid st (from_removal (removal_snapshot K sid e n st))"
  unfolding event_truthful_def
  by (rule exI [of _ e]) (use assms in \<open>auto simp: from_removal_def removal_snapshot_def source_addrs_set source_has_endpoint\<close>)

lemma remove_truthful:
  assumes "norm_law K" "canonical K st" "remove_contribution K (sid, inst) st = (Some x, st')"
  shows "event_truthful K sid st' (from_removal x)"
proof -
  obtain c where c: "map_of (contributions st) (sid, inst) = Some c"
    and x: "x = removal_snapshot K sid (ct_endpoint c) (ct_node_id c) st'"
    using assms(3) by (auto simp: remove_contribution_def Let_def split: option.splits)
  have "ct_node_id c = id_base32 K (ct_endpoint c)" using map_of_SomeD [OF c] assms(2) by (auto simp: canonical_def)
  then show ?thesis unfolding x by (rule removal_truthful [OF assms(1)])
qed

lemma upsert_truthful:
  assumes "norm_law K" "canonical K st" "upsert K sid inst node addrs st = (Inr u, st')"
  shows "event_truthful K sid st' \<lparr>pe_is_active = True, pe_node_id = up_node_id u, pe_addrs = up_effective_addrs u\<rparr>"
    and "up_replaced u = Some x \<Longrightarrow> event_truthful K sid st' (from_removal x)"
proof -
  obtain e where e: "parse_endpoint_id K node = Inr e" and st': "contributions st'
     = al_put (sid, inst) \<lparr>ct_endpoint = e, ct_node_id = id_base32 K e, ct_data = endpoint_data K addrs\<rparr> (contributions st)"
    using upsert_ok_contributions [OF assms(3)] by blast
  have u: "up_node_id u = id_base32 K e" "up_effective_addrs u = source_effective_addrs K sid e st'"
    "up_replaced u = (case map_of (contributions st) (sid, inst) of None \<Rightarrow> None
       | Some p \<Rightarrow> if ct_endpoint p \<noteq> e then Some (removal_snapshot K sid (ct_endpoint p) (ct_node_id p) st') else None)"
    using assms(3) e by (auto simp: upsert_def Let_def split: if_splits)
  have "\<exists>c. ((sid, inst), c) \<in> set (contributions st') \<and> ct_endpoint c = e"
    unfolding st' by (intro exI [of _ "\<lparr>ct_endpoint = e, ct_node_id = id_base32 K e, ct_data = endpoint_data K addrs\<rparr>"]) (simp add: al_put_def)
  then show "event_truthful K sid st' \<lparr>pe_is_active = True, pe_node_id = up_node_id u, pe_addrs = up_effective_addrs u\<rparr>"
    unfolding event_truthful_def
    by (intro exI [of _ e]) (use u(1,2) in \<open>auto simp: source_addrs_set [OF assms(1)]\<close>)
  show "event_truthful K sid st' (from_removal x)" if x: "up_replaced u = Some x"
  proof -
    obtain p where p: "map_of (contributions st) (sid, inst) = Some p" "x = removal_snapshot K sid (ct_endpoint p) (ct_node_id p) st'"
      using x u(3) by (auto split: option.splits if_splits)
    have "ct_node_id p = id_base32 K (ct_endpoint p)" using map_of_SomeD [OF p(1)] assms(2) by (auto simp: canonical_def)
    then show ?thesis unfolding p(2) by (rule removal_truthful [OF assms(1)])
  qed
qed

text \<open>Property C17.  Peer events agree with the lookup: whatever record arrives in a reachable state, every event it causes names
  an endpoint by its canonical id, is active exactly if this browse session still contributes addresses for
  that endpoint, and carries exactly the addresses the session then contributes; the resulting lookup
  state is again reachable, and a removal leaves nothing of the instance behind.\<close>

theorem peer_events_agree_with_lookup:
  assumes "lookup_reachable K st" "norm_law K" "apply_peer_record L K sid r st = (evs, st')"
  shows "list_all (event_truthful K sid st') evs \<and> lookup_reachable K st'
     \<and> (\<not> sr_is_active r \<and> sid \<notin> set (retired st) \<and> sr_instance_name r \<noteq> []
          \<longrightarrow> map_of (contributions st') (sid, sr_instance_name r) = None)"
proof (cases "peer_event_from_record L r")
  case None
  then show ?thesis using assms by (auto simp: apply_peer_record_def peer_event_from_record_def Let_def split: option.splits if_splits)
next
  case (Some ev)
  note can = reachable_canonical [OF assms(1)]
  have act: "pe_is_active ev = sr_is_active r"
    using Some by (auto simp: peer_event_from_record_def Let_def split: option.splits if_splits)
  show ?thesis
  proof (cases "pe_is_active ev")
    case True
    obtain res st2 where up: "upsert K sid (sr_instance_name r) (pe_node_id ev) (pe_addrs ev) st = (res, st2)" by fastforce
    have st': "st' = st2" using assms(3) Some True up by (auto simp: apply_peer_record_def split: sum.splits)
    have reach: "lookup_reachable K st'"
      using lk_next [OF assms(1) lk_upsert [of K st sid "sr_instance_name r" "pe_node_id ev" "pe_addrs ev"]] up st' by simp
    have "list_all (event_truthful K sid st') evs"
    proof (cases res)
      case (Inr u)
      then have "evs = (case up_replaced u of None \<Rightarrow> [] | Some x \<Rightarrow> [from_removal x])
          @ [\<lparr>pe_is_active = True, pe_node_id = up_node_id u, pe_addrs = up_effective_addrs u\<rparr>]"
        using assms(3) Some True up by (auto simp: apply_peer_record_def)
      then show ?thesis
        using upsert_truthful [OF assms(2) can up [unfolded Inr]] st' by (auto split: option.splits)
    next
      case (Inl e)
      then have evs: "evs = (case ue_removal e of None \<Rightarrow> [] | Some x \<Rightarrow> [from_removal x])"
        using assms(3) Some True up by (auto simp: apply_peer_record_def)
      have "event_truthful K sid st2 (from_removal x)" if "ue_removal e = Some x" for x
        using that up [unfolded Inl] remove_truthful [OF assms(2) can]
        by (auto simp: upsert_def Let_def split: if_splits sum.splits prod.splits)
      then show ?thesis using evs st' by (auto split: option.splits)
    qed
    then show ?thesis using reach act True by simp
  next
    case False
    obtain x st2 where rm: "remove_with_snapshot K sid (sr_instance_name r) st = (x, st2)" by fastforce
    have st': "st' = st2" "evs = (case x of None \<Rightarrow> [] | Some y \<Rightarrow> [from_removal y])"
      using assms(3) Some False rm by (auto simp: apply_peer_record_def)
    have "lookup_reachable K st'"
      using lk_next [OF assms(1) lk_remove [of K st sid "sr_instance_name r"]] rm st' by (simp add: lookup_remove_def)
    moreover have "list_all (event_truthful K sid st') evs"
      using rm st' remove_truthful [OF assms(2) can, of sid "sr_instance_name r"]
      by (auto simp: remove_with_snapshot_def split: if_splits option.splits)
    moreover have "map_of (contributions st') (sid, sr_instance_name r) = None" if "sid \<notin> set (retired st)"
      using rm that st'(1) by (auto simp: remove_with_snapshot_def remove_contribution_def Let_def split: option.splits)
    ultimately show ?thesis by blast
  qed
qed


theorem peer_events_agree_with_lookup_witness:
  "\<exists>evs st'. apply_peer_record demo_disc_lib example_lookup_lib 1
       \<lparr>sr_is_active = True, sr_service_type = ''t'', sr_instance_name = ''abc'', sr_host = None, sr_port = 0, sr_addrs = [],
          sr_txt = [(TXT_RELAY, ''https://r'')]\<rparr> lookup_new = (evs, st')
     \<and> length evs = 1 \<and> list_all (event_truthful example_lookup_lib 1 st') evs"
proof -
  let ?r = "\<lparr>sr_is_active = True, sr_service_type = ''t'', sr_instance_name = ''abc'', sr_host = None, sr_port = 0, sr_addrs = [],
     sr_txt = [(TXT_RELAY, ''https://r'')]\<rparr>"
  obtain evs st' where a: "apply_peer_record demo_disc_lib example_lookup_lib 1 ?r lookup_new = (evs, st')" by fastforce
  have "peer_event_from_record demo_disc_lib ?r = Some \<lparr>pe_is_active = True, pe_node_id = ''abc'', pe_addrs = [''https://r'']\<rparr>"
    by (simp add: peer_event_from_record_def TXT_PK_def TXT_RELAY_def TXT_ADDRESS_def)
  then have "length evs = 1"
    using a by (auto simp: apply_peer_record_def upsert_def lookup_new_def example_lookup_lib_def Let_def)
  then show ?thesis using peer_events_agree_with_lookup [OF lk_start example_norm_law a] a by blast
qed

end
