(* ===== verification/Disc_Session.thy ===== *)
theory Disc_Session
  imports Peer_Discovery
begin

text \<open>
  \<^verbatim>\<open>src/crates/iroh-http-discovery/src/engine/session.rs\<close>: serialized access to a started browse handle and to
  a published advertisement.

  A call of \<open>next\<close> or \<open>update\<close> runs the transport operation in a task of its own and waits for the result in
  an \<open>InFlight\<close> cell, so that a cancelled caller loses nothing.  At most one caller holds the gate of a
  session; the program counter of that caller is part of the state, and any other caller waits for the
  gate.  The handle of the transport is not given a definition: it answers with any outcome at any time.
  A state also records what the transport was asked and what callers received.
\<close>

type_synonym transport_error = string

section \<open>The in-flight cell\<close>

text \<open>\<open>complete\<close> stores the result and then notifies; both steps belong to the task that runs the operation.\<close>

datatype flight_task = Running | Stored | Finished

record 'r in_flight =
  if_result :: "'r option"
  if_permit :: bool
  if_task :: flight_task

definition flight_new :: "'r in_flight" where
  "flight_new = \<lparr>if_result = None, if_permit = False, if_task = Running\<rparr>"

definition complete_store :: "'r \<Rightarrow> 'r in_flight \<Rightarrow> 'r in_flight" where
  "complete_store r f = f\<lparr>if_result := Some r, if_task := Stored\<rparr>"

definition complete_notify :: "'r in_flight \<Rightarrow> 'r in_flight" where
  "complete_notify f = f\<lparr>if_permit := True, if_task := Finished\<rparr>"

text \<open>One poll of \<open>wait\<close>; \<open>asleep\<close> is whether an earlier poll left it at the notification.  A permit is consumed
  and the loop then reads the result again.\<close>

definition flight_wait :: "bool \<Rightarrow> 'r in_flight \<Rightarrow> 'r poll \<times> 'r in_flight" where
  "flight_wait asleep f =
     (let f' = (if if_permit f \<and> (asleep \<or> if_result f = None) then f\<lparr>if_permit := False\<rparr> else f) in
      if asleep \<and> \<not> if_permit f then (Pending, f)
      else (case if_result f of Some r \<Rightarrow> Ready r | None \<Rightarrow> Pending, f'))"

definition clear_operation :: "nat \<Rightarrow> nat option \<Rightarrow> nat option" where
  "clear_operation completed slot = (if slot = Some completed then None else slot)"

section \<open>Browse sessions\<close>

type_synonym browse_outcome = "transport_error + raw_event option"

text \<open>The holder of the gate: in \<open>next\<close>, before the operation is chosen, waiting, with the result taken, with the
  result decided, and inside \<open>close\<close>; in \<open>wait_closed\<close>, before and while waiting, and at \<open>closed\<close>.\<close>

datatype browse_pc = NStart | NWait nat bool | NTook browse_outcome | NFinish browse_outcome | NClosing
  | WStart | WWait nat bool | WClosed

text \<open>The caller that closes: after setting the flag and after asking the transport.\<close>

datatype close_pc = AfterSwap | AfterRequest

record browse_session =
  bs_gate :: "browse_pc option"
  bs_slot :: "nat option"
  bs_ops :: "browse_outcome in_flight list"
  bs_terminal :: bool
  bs_callbacks :: "nat list"
  bs_closing :: "close_pc option"
  bs_requests :: nat \<comment> \<open>calls of \<open>request_close\<close>\<close>
  bs_registered :: "nat list" \<comment> \<open>callbacks given to \<open>on_close\<close>\<close>
  bs_ran :: "nat list" \<comment> \<open>callbacks run\<close>
  bs_delivered :: "browse_outcome list" \<comment> \<open>transport results that \<open>next\<close> decided to return\<close>

definition browse_new :: browse_session where
  "browse_new = \<lparr>bs_gate = None, bs_slot = None, bs_ops = [], bs_terminal = False, bs_callbacks = [], bs_closing = None,
     bs_requests = 0, bs_registered = [], bs_ran = [], bs_delivered = []\<rparr>"

text \<open>\<open>next\<close> with the gate: a terminal session answers at once.\<close>

definition next_enter :: "browse_session \<Rightarrow> browse_session option" where
  "next_enter s = (if bs_gate s \<noteq> None then None
     else if bs_terminal s then Some s else Some (s\<lparr>bs_gate := Some NStart\<rparr>))"

definition next_operation :: "browse_session \<Rightarrow> browse_session" where
  "next_operation s = (case bs_slot s of
       Some i \<Rightarrow> s\<lparr>bs_gate := Some (NWait i False)\<rparr>
     | None \<Rightarrow> (let i = length (bs_ops s) in
         s\<lparr>bs_slot := Some i, bs_ops := bs_ops s @ [flight_new], bs_gate := Some (NWait i False)\<rparr>))"

definition browse_close_swap :: "browse_session \<Rightarrow> browse_session" where
  "browse_close_swap s = (if bs_terminal s then s else s\<lparr>bs_terminal := True, bs_closing := Some AfterSwap\<rparr>)"

text \<open>The rest of \<open>close\<close> for the caller that set the flag.\<close>

definition browse_close_step :: "browse_session \<Rightarrow> browse_session option" where
  "browse_close_step s = (case bs_closing s of
       None \<Rightarrow> None
     | Some AfterSwap \<Rightarrow> Some (s\<lparr>bs_requests := Suc (bs_requests s), bs_closing := Some AfterRequest\<rparr>)
     | Some AfterRequest \<Rightarrow> Some (s\<lparr>bs_callbacks := [], bs_ran := bs_ran s @ bs_callbacks s, bs_closing := None\<rparr>))"

definition next_step :: "browse_session \<Rightarrow> browse_session option" where
  "next_step s = (case bs_gate s of
       Some NStart \<Rightarrow> Some (next_operation s)
     | Some (NWait i asleep) \<Rightarrow> (case flight_wait asleep (bs_ops s ! i) of
           (Pending, f) \<Rightarrow> Some (s\<lparr>bs_ops := (bs_ops s)[i := f], bs_gate := Some (NWait i True)\<rparr>)
         | (Ready r, f) \<Rightarrow> Some (s\<lparr>bs_ops := (bs_ops s)[i := f], bs_slot := clear_operation i (bs_slot s), bs_gate := Some (NTook r)\<rparr>))
     | Some (NTook r) \<Rightarrow> if bs_terminal s then Some (s\<lparr>bs_gate := None\<rparr>)
         else Some (s\<lparr>bs_gate := Some (NFinish r), bs_delivered := bs_delivered s @ [r]\<rparr>)
     | Some (NFinish (Inr (Some _))) \<Rightarrow> Some (s\<lparr>bs_gate := None\<rparr>)
     | Some (NFinish _) \<Rightarrow> if bs_terminal s then Some (s\<lparr>bs_gate := None\<rparr>)
         else Some ((browse_close_swap s)\<lparr>bs_gate := Some NClosing\<rparr>)
     | Some NClosing \<Rightarrow> if bs_closing s = None then Some (s\<lparr>bs_gate := None\<rparr>) else None
     | _ \<Rightarrow> None)"

definition on_close :: "nat \<Rightarrow> browse_session \<Rightarrow> browse_session" where
  "on_close c s = (let s1 = s\<lparr>bs_registered := bs_registered s @ [c]\<rparr> in
     if bs_terminal s then s1\<lparr>bs_ran := bs_ran s @ [c]\<rparr> else s1\<lparr>bs_callbacks := bs_callbacks s @ [c]\<rparr>)"

text \<open>\<open>wait_closed\<close> after its own \<open>close\<close>.\<close>

definition wait_closed_enter :: "browse_session \<Rightarrow> browse_session option" where
  "wait_closed_enter s = (if bs_gate s = None \<and> bs_terminal s then Some (s\<lparr>bs_gate := Some WStart\<rparr>) else None)"

definition wait_closed_step :: "browse_session \<Rightarrow> browse_session option" where
  "wait_closed_step s = (case bs_gate s of
       Some WStart \<Rightarrow> Some (s\<lparr>bs_gate := Some (case bs_slot s of Some i \<Rightarrow> WWait i False | None \<Rightarrow> WClosed)\<rparr>)
     | Some (WWait i asleep) \<Rightarrow> (case flight_wait asleep (bs_ops s ! i) of
           (Pending, f) \<Rightarrow> Some (s\<lparr>bs_ops := (bs_ops s)[i := f], bs_gate := Some (WWait i True)\<rparr>)
         | (Ready _, f) \<Rightarrow> Some (s\<lparr>bs_ops := (bs_ops s)[i := f], bs_slot := clear_operation i (bs_slot s), bs_gate := Some WClosed\<rparr>))
     | Some WClosed \<Rightarrow> Some (s\<lparr>bs_gate := None\<rparr>)
     | _ \<Rightarrow> None)"

text \<open>A caller can be dropped where it awaits.\<close>

definition browse_cancel :: "browse_session \<Rightarrow> browse_session option" where
  "browse_cancel s = (case bs_gate s of
       Some (NWait _ True) \<Rightarrow> Some (s\<lparr>bs_gate := None\<rparr>)
     | Some (WWait _ True) \<Rightarrow> Some (s\<lparr>bs_gate := None\<rparr>)
     | Some WClosed \<Rightarrow> Some (s\<lparr>bs_gate := None\<rparr>)
     | _ \<Rightarrow> None)"

section \<open>Advertisement sessions\<close>

record advertisement_update =
  au_port :: u16
  au_addrs :: "ip_addr list"
  au_txt :: "(string \<times> string) list"

type_synonym update_outcome = "advertisement_update \<times> (transport_error + unit)"

text \<open>The task of one update: at the transport, with its answer, after setting the closed flag itself, and about
  to complete.\<close>

datatype update_task = TCall | TAnswered "transport_error + unit" | TClosing transport_error | TComplete "transport_error + unit" | TDone

record update_op =
  uo_update :: advertisement_update
  uo_task :: update_task
  uo_flight :: "update_outcome in_flight"

datatype update_pc = UStart advertisement_update | UPrev nat bool advertisement_update | UCheck advertisement_update
  | USpawn advertisement_update | UWait nat bool | UFail transport_error | UClosing transport_error
  | VStart | VWait nat bool | VClosed

record adv_session =
  av_gate :: "update_pc option"
  av_slot :: "nat option"
  av_ops :: "update_op list"
  av_current :: "advertisement_update option"
  av_closed :: bool
  av_closing :: bool \<comment> \<open>a caller has set the flag and not yet asked the transport\<close>
  av_requests :: nat \<comment> \<open>calls of \<open>request_close\<close>\<close>
  av_published :: "advertisement_update list" \<comment> \<open>updates the transport accepted\<close>
  av_returned :: "(transport_error + bool) list" \<comment> \<open>results of \<open>update\<close>\<close>

definition adv_from_parts :: "advertisement_update option \<Rightarrow> adv_session" where
  "adv_from_parts initial = \<lparr>av_gate = None, av_slot = None, av_ops = [], av_current = initial, av_closed = False, av_closing = False,
     av_requests = 0, av_published = (case initial of None \<Rightarrow> [] | Some u \<Rightarrow> [u]), av_returned = []\<rparr>"

definition update_op_new :: "advertisement_update \<Rightarrow> update_op" where
  "update_op_new u = \<lparr>uo_update = u, uo_task = TCall, uo_flight = flight_new\<rparr>"

definition update_return :: "transport_error + bool \<Rightarrow> adv_session \<Rightarrow> adv_session" where
  "update_return r s = s\<lparr>av_gate := None, av_returned := av_returned s @ [r]\<rparr>"

definition adv_close_swap :: "adv_session \<Rightarrow> adv_session" where
  "adv_close_swap s = (if av_closed s then s else s\<lparr>av_closed := True, av_closing := True\<rparr>)"

definition adv_close_request :: "adv_session \<Rightarrow> adv_session option" where
  "adv_close_request s = (if av_closing s then Some (s\<lparr>av_requests := Suc (av_requests s), av_closing := False\<rparr>) else None)"

definition update_enter :: "advertisement_update \<Rightarrow> adv_session \<Rightarrow> adv_session option" where
  "update_enter u s = (if av_gate s = None then Some (s\<lparr>av_gate := Some (UStart u)\<rparr>) else None)"

definition put_flight :: "nat \<Rightarrow> update_outcome in_flight \<Rightarrow> adv_session \<Rightarrow> adv_session" where
  "put_flight i f s = s\<lparr>av_ops := (av_ops s)[i := (av_ops s ! i)\<lparr>uo_flight := f\<rparr>]\<rparr>"

definition update_step :: "adv_session \<Rightarrow> adv_session option" where
  "update_step s = (case av_gate s of
       Some (UStart u) \<Rightarrow> Some (s\<lparr>av_gate := Some (case av_slot s of Some i \<Rightarrow> UPrev i False u | None \<Rightarrow> UCheck u)\<rparr>)
     | Some (UPrev i asleep u) \<Rightarrow> (case flight_wait asleep (uo_flight (av_ops s ! i)) of
           (Pending, f) \<Rightarrow> Some ((put_flight i f s)\<lparr>av_gate := Some (UPrev i True u)\<rparr>)
         | (Ready (cu, r), f) \<Rightarrow> (let s1 = (put_flight i f s)\<lparr>av_slot := clear_operation i (av_slot s)\<rparr> in
             case r of Inl e \<Rightarrow> Some (s1\<lparr>av_gate := Some (UFail e)\<rparr>)
                     | Inr _ \<Rightarrow> Some (s1\<lparr>av_current := Some cu, av_gate := Some (UCheck u)\<rparr>)))
     | Some (UCheck u) \<Rightarrow> if av_closed s then Some (update_return (Inl ''advertisement is closed'') s)
         else Some (s\<lparr>av_gate := Some (USpawn u)\<rparr>)
     | Some (USpawn u) \<Rightarrow> if av_current s = Some u then Some (update_return (Inr False) s)
         else (let i = length (av_ops s) in
           Some (s\<lparr>av_slot := Some i, av_ops := av_ops s @ [update_op_new u], av_gate := Some (UWait i False)\<rparr>))
     | Some (UWait i asleep) \<Rightarrow> (case flight_wait asleep (uo_flight (av_ops s ! i)) of
           (Pending, f) \<Rightarrow> Some ((put_flight i f s)\<lparr>av_gate := Some (UWait i True)\<rparr>)
         | (Ready (cu, r), f) \<Rightarrow> (let s1 = (put_flight i f s)\<lparr>av_slot := clear_operation i (av_slot s)\<rparr> in
             case r of Inl e \<Rightarrow> Some (s1\<lparr>av_gate := Some (UFail e)\<rparr>)
                     | Inr _ \<Rightarrow> Some (update_return (Inr True) (s1\<lparr>av_current := Some cu\<rparr>))))
     | Some (UFail e) \<Rightarrow> if av_closed s then Some (update_return (Inl e) s)
         else Some ((adv_close_swap s)\<lparr>av_gate := Some (UClosing e)\<rparr>)
     | Some (UClosing e) \<Rightarrow> if av_closing s then None else Some (update_return (Inl e) s)
     | _ \<Rightarrow> None)"

text \<open>The task spawned for an update.  The answer of the transport comes from outside.\<close>

definition task_answer :: "nat \<Rightarrow> transport_error + unit \<Rightarrow> adv_session \<Rightarrow> adv_session option" where
  "task_answer i r s = (if i < length (av_ops s) \<and> uo_task (av_ops s ! i) = TCall
     then Some (s\<lparr>av_ops := (av_ops s)[i := (av_ops s ! i)\<lparr>uo_task := TAnswered r\<rparr>],
        av_published := av_published s @ (case r of Inr _ \<Rightarrow> [uo_update (av_ops s ! i)] | Inl _ \<Rightarrow> [])\<rparr>)
     else None)"

definition update_task_step :: "nat \<Rightarrow> adv_session \<Rightarrow> adv_session option" where
  "update_task_step i s =
     (let op = av_ops s ! i; go = (\<lambda>op' s'. Some (s'\<lparr>av_ops := (av_ops s')[i := op']\<rparr>)) in
      if length (av_ops s) \<le> i then None
      else (case uo_task op of
          TAnswered (Inl e) \<Rightarrow> if av_closed s then go (op\<lparr>uo_task := TComplete (Inl e)\<rparr>) s
            else go (op\<lparr>uo_task := TClosing e\<rparr>) (s\<lparr>av_closed := True\<rparr>)
        | TAnswered (Inr _) \<Rightarrow> go (op\<lparr>uo_task := TComplete (Inr ())\<rparr>) s
        | TClosing e \<Rightarrow> go (op\<lparr>uo_task := TComplete (Inl e)\<rparr>) (s\<lparr>av_requests := Suc (av_requests s)\<rparr>)
        | TComplete r \<Rightarrow> (case if_task (uo_flight op) of
              Running \<Rightarrow> go (op\<lparr>uo_flight := complete_store (uo_update op, r) (uo_flight op)\<rparr>) s
            | _ \<Rightarrow> go (op\<lparr>uo_task := TDone, uo_flight := complete_notify (uo_flight op)\<rparr>) s)
        | _ \<Rightarrow> None))"

definition adv_wait_enter :: "adv_session \<Rightarrow> adv_session option" where
  "adv_wait_enter s = (if av_gate s = None \<and> av_closed s then Some (s\<lparr>av_gate := Some VStart\<rparr>) else None)"

definition adv_wait_step :: "adv_session \<Rightarrow> adv_session option" where
  "adv_wait_step s = (case av_gate s of
       Some VStart \<Rightarrow> Some (s\<lparr>av_gate := Some (case av_slot s of Some i \<Rightarrow> VWait i False | None \<Rightarrow> VClosed)\<rparr>)
     | Some (VWait i asleep) \<Rightarrow> (case flight_wait asleep (uo_flight (av_ops s ! i)) of
           (Pending, f) \<Rightarrow> Some ((put_flight i f s)\<lparr>av_gate := Some (VWait i True)\<rparr>)
         | (Ready _, f) \<Rightarrow> Some ((put_flight i f s)\<lparr>av_slot := clear_operation i (av_slot s), av_gate := Some VClosed\<rparr>))
     | Some VClosed \<Rightarrow> Some (s\<lparr>av_gate := None\<rparr>)
     | _ \<Rightarrow> None)"

definition adv_cancel :: "adv_session \<Rightarrow> adv_session option" where
  "adv_cancel s = (case av_gate s of
       Some (UPrev _ True _) \<Rightarrow> Some (s\<lparr>av_gate := None\<rparr>)
     | Some (UWait _ True) \<Rightarrow> Some (s\<lparr>av_gate := None\<rparr>)
     | Some (VWait _ True) \<Rightarrow> Some (s\<lparr>av_gate := None\<rparr>)
     | Some VClosed \<Rightarrow> Some (s\<lparr>av_gate := None\<rparr>)
     | _ \<Rightarrow> None)"

end
