(* ===== verification/Session_Props.thy ===== *)
theory Session_Props
  imports Disc_Session "HOL-Library.Multiset" "HOL-Library.Sublist"
begin

text \<open>Properties of discovery sessions over all interleavings of their callers, the transport's answers, closing
  and cancellation.\<close>

section \<open>A gated operation slot\<close>

text \<open>Both sessions use the same pattern: a slot that names the operation in flight and a list of result cells.\<close>

inductive slot_step :: "nat option \<times> 'r option list \<Rightarrow> nat option \<times> 'r option list \<Rightarrow> bool" where
  sl_same: "slot_step x x"
| sl_start: "slot_step (None, R) (Some (length R), R @ [None])"
| sl_store: "i < length R \<Longrightarrow> R ! i = None \<Longrightarrow> slot_step (sl, R) (sl, R[i := Some r])"
| sl_clear: "i < length R \<Longrightarrow> R ! i \<noteq> None \<Longrightarrow> slot_step (Some i, R) (None, R)"

inductive_cases slot_stepE: "slot_step (sl, R) (sl', R')"

definition flight_slot_ok :: "nat option \<times> 'r option list \<Rightarrow> bool" where
  "flight_slot_ok x \<longleftrightarrow> (\<forall>i < length (snd x). snd x ! i = None \<longrightarrow> fst x = Some i) \<and> (\<forall>i. fst x = Some i \<longrightarrow> Suc i = length (snd x))"

lemma flight_slot_okD:
  assumes "flight_slot_ok (sl, R)"
  shows "i < length R \<Longrightarrow> R ! i = None \<Longrightarrow> sl = Some i" "sl = Some i \<Longrightarrow> Suc i = length R"
  using assms by (auto simp: flight_slot_ok_def)

lemma flight_slot_ok_step: "slot_step x y \<Longrightarrow> flight_slot_ok x \<Longrightarrow> flight_slot_ok y"
  by (induction rule: slot_step.induct) (auto simp: flight_slot_ok_def nth_append nth_list_update less_Suc_eq)

locale gated_slot =
  fixes slot :: "'s \<Rightarrow> nat option" and results :: "'s \<Rightarrow> 'r option list" and step :: "'s \<Rightarrow> 's \<Rightarrow> bool"
    and good :: "'s \<Rightarrow> bool" and init :: "'s \<Rightarrow> bool"
  assumes init_empty: "init s \<Longrightarrow> slot s = None \<and> results s = [] \<and> good s"
    and step_good: "good s \<Longrightarrow> flight_slot_ok (slot s, results s) \<Longrightarrow> step s s' \<Longrightarrow> good s' \<and> slot_step (slot s, results s) (slot s', results s')"
begin

definition reach :: "'s \<Rightarrow> bool" where
  "reach s \<longleftrightarrow> (\<exists>s0. init s0 \<and> step\<^sup>*\<^sup>* s0 s)"

lemma steps_ok: "step\<^sup>*\<^sup>* s0 s \<Longrightarrow> init s0 \<Longrightarrow> good s \<and> flight_slot_ok (slot s, results s)"
proof (induction rule: rtranclp_induct)
  case base
  then show ?case using init_empty by (simp add: flight_slot_ok_def)
next
  case (step y z)
  then show ?case using step_good flight_slot_ok_step by blast
qed

lemma reach_ok: "reach s \<Longrightarrow> good s \<and> flight_slot_ok (slot s, results s)"
  using steps_ok by (auto simp: reach_def)

text \<open>The transport is never asked twice at the same time.\<close>

lemma one_in_flight:
  assumes "reach s" "i < length (results s)" "results s ! i = None" "j < length (results s)" "results s ! j = None"
  shows "i = j"
  using flight_slot_okD(1) [OF conjunct2 [OF reach_ok [OF assms(1)]]] assms(2-5) by (metis option.inject)

text \<open>An invariant that uses these facts.\<close>

lemma reach_induct:
  assumes "reach s" "\<And>s. init s \<Longrightarrow> P s"
    and "\<And>s s'. good s \<Longrightarrow> flight_slot_ok (slot s, results s) \<Longrightarrow> P s \<Longrightarrow> step s s' \<Longrightarrow> P s'"
  shows "P s"
proof -
  obtain s0 where i: "init s0" and "step\<^sup>*\<^sup>* s0 s" using assms(1) by (auto simp: reach_def)
  from this(2) show ?thesis
  proof (induction rule: rtranclp_induct)
    case base
    then show ?case using assms(2) i by blast
  next
    case (step y z)
    then show ?case using steps_ok [OF step(1) i] assms(3) by blast
  qed
qed

end

section \<open>Browse sessions\<close>

definition put_op :: "nat \<Rightarrow> browse_outcome in_flight \<Rightarrow> browse_session \<Rightarrow> browse_session" where
  "put_op i f s = s\<lparr>bs_ops := (bs_ops s)[i := f]\<rparr>"

inductive browse_step :: "browse_session \<Rightarrow> browse_session \<Rightarrow> bool" where
  br_enter: "next_enter s = Some s' \<Longrightarrow> browse_step s s'"
| br_next: "next_step s = Some s' \<Longrightarrow> browse_step s s'"
| br_swap: "browse_step s (browse_close_swap s)"
| br_close: "browse_close_step s = Some s' \<Longrightarrow> browse_step s s'"
| br_on_close: "browse_step s (on_close c s)"
| br_wait: "wait_closed_enter s = Some s' \<Longrightarrow> browse_step s s'"
| br_wait_step: "wait_closed_step s = Some s' \<Longrightarrow> browse_step s s'"
| br_cancel: "browse_cancel s = Some s' \<Longrightarrow> browse_step s s'"
| br_store: "i < length (bs_ops s) \<Longrightarrow> if_task (bs_ops s ! i) = Running \<Longrightarrow> browse_step s (put_op i (complete_store r (bs_ops s ! i)) s)"
| br_notify: "i < length (bs_ops s) \<Longrightarrow> if_task (bs_ops s ! i) = Stored \<Longrightarrow> browse_step s (put_op i (complete_notify (bs_ops s ! i)) s)"

definition browse_results :: "browse_session \<Rightarrow> browse_outcome option list" where
  "browse_results s = map if_result (bs_ops s)"

text \<open>A waiting holder waits for the operation in the slot; \<open>wait_closed\<close> comes after closing; a cell has a result
  once its task has stored it; a sleeping waiter of a finished task has its permit.\<close>

fun waits_on :: "browse_pc \<Rightarrow> (nat \<times> bool) option" where
  "waits_on (NWait i a) = Some (i, a)"
| "waits_on (WWait i a) = Some (i, a)"
| "waits_on _ = None"

fun in_wait_closed :: "browse_pc \<Rightarrow> bool" where
  "in_wait_closed WStart = True"
| "in_wait_closed (WWait _ _) = True"
| "in_wait_closed WClosed = True"
| "in_wait_closed _ = False"

definition cell_ok :: "'r in_flight \<Rightarrow> bool" where
  "cell_ok f \<longleftrightarrow> (if_result f = None \<longleftrightarrow> if_task f = Running) \<and> (if_permit f \<longrightarrow> if_task f = Finished)"

definition browse_good :: "browse_session \<Rightarrow> bool" where
  "browse_good s \<longleftrightarrow> list_all cell_ok (bs_ops s)
     \<and> (\<forall>pc. bs_gate s = Some pc \<longrightarrow> (in_wait_closed pc \<longrightarrow> bs_terminal s)
          \<and> (\<forall>i a. waits_on pc = Some (i, a) \<longrightarrow> bs_slot s = Some i \<and> i < length (bs_ops s)
               \<and> (a \<and> if_task (bs_ops s ! i) = Finished \<longrightarrow> if_permit (bs_ops s ! i))))
     \<and> (\<forall>i. bs_slot s = Some i \<longrightarrow> i < length (bs_ops s))"

definition ready_now :: "bool \<Rightarrow> 'r in_flight \<Rightarrow> 'r option" where
  "ready_now a f = (if a \<and> \<not> if_permit f then None else if_result f)"

definition after_wait :: "bool \<Rightarrow> 'r in_flight \<Rightarrow> 'r in_flight" where
  "after_wait a f = (if a then f\<lparr>if_permit := False\<rparr> else f)"

lemma flight_wait_eq:
  assumes "cell_ok f"
  shows "flight_wait a f = (case ready_now a f of None \<Rightarrow> (Pending, f) | Some r \<Rightarrow> (Ready r, after_wait a f))"
proof (cases "if_result f")
  case None
  then have "\<not> if_permit f" using assms by (auto simp: cell_ok_def)
  then show ?thesis using None by (simp add: flight_wait_def ready_now_def)
next
  case (Some r)
  then show ?thesis by (simp add: flight_wait_def ready_now_def after_wait_def)
qed

lemma after_wait_simps [simp]:
  "if_result (after_wait a f) = if_result f" "if_task (after_wait a f) = if_task f" "cell_ok f \<Longrightarrow> cell_ok (after_wait a f)"
  by (simp_all add: after_wait_def cell_ok_def)

lemma complete_simps [simp]:
  "if_result (complete_store r f) = Some r" "if_result (complete_notify f) = if_result f"
  "if_task (complete_store r f) = Stored" "if_task (complete_notify f) = Finished"
  "if_permit (complete_notify f)" "if_permit (complete_store r f) = if_permit f"
  "if_result flight_new = None" "if_task flight_new = Running" "cell_ok flight_new"
  "cell_ok f \<Longrightarrow> if_task f = Running \<Longrightarrow> cell_ok (complete_store r f)"
  "cell_ok f \<Longrightarrow> if_task f = Stored \<Longrightarrow> cell_ok (complete_notify f)"
  by (auto simp: complete_store_def complete_notify_def flight_new_def cell_ok_def)

lemma ready_result: "ready_now a f = Some r \<Longrightarrow> if_result f = Some r"
  by (simp add: ready_now_def split: if_splits)

lemma not_ready: "cell_ok f \<Longrightarrow> ready_now a f = None \<Longrightarrow> if_task f = Finished \<Longrightarrow> a \<and> \<not> if_permit f"
  by (auto simp: ready_now_def cell_ok_def split: if_splits)


lemma browse_goodD:
  assumes "browse_good s"
  shows "i < length (bs_ops s) \<Longrightarrow> cell_ok (bs_ops s ! i)" "bs_gate s = Some pc \<Longrightarrow> in_wait_closed pc \<Longrightarrow> bs_terminal s"
    "bs_gate s = Some pc \<Longrightarrow> waits_on pc = Some (i, a) \<Longrightarrow> bs_slot s = Some i \<and> i < length (bs_ops s)"
    "bs_gate s = Some pc \<Longrightarrow> waits_on pc = Some (i, True) \<Longrightarrow> if_task (bs_ops s ! i) = Finished \<Longrightarrow> if_permit (bs_ops s ! i)"
    "bs_slot s = Some i \<Longrightarrow> i < length (bs_ops s)"
  using assms by (auto simp: browse_good_def list_all_length)

lemma browse_goodI:
  assumes "\<And>i. i < length (bs_ops s) \<Longrightarrow> cell_ok (bs_ops s ! i)" "\<And>pc. bs_gate s = Some pc \<Longrightarrow> in_wait_closed pc \<Longrightarrow> bs_terminal s"
    and "\<And>pc i a. bs_gate s = Some pc \<Longrightarrow> waits_on pc = Some (i, a) \<Longrightarrow> bs_slot s = Some i \<and> i < length (bs_ops s)"
    and "\<And>pc i. bs_gate s = Some pc \<Longrightarrow> waits_on pc = Some (i, True) \<Longrightarrow> if_task (bs_ops s ! i) = Finished \<Longrightarrow> if_permit (bs_ops s ! i)"
    and "\<And>i. bs_slot s = Some i \<Longrightarrow> i < length (bs_ops s)"
  shows "browse_good s"
  unfolding browse_good_def using assms by (auto simp: list_all_length)

text \<open>A step that keeps the cells and the slot and does not start to wait.\<close>

lemma browse_good_frame:
  assumes "browse_good s" "bs_ops s' = bs_ops s" "bs_slot s' = bs_slot s" "bs_terminal s \<Longrightarrow> bs_terminal s'"
    and "\<And>pc. bs_gate s' = Some pc \<Longrightarrow> bs_gate s = Some pc \<or> waits_on pc = None \<and> (in_wait_closed pc \<longrightarrow> bs_terminal s')
      \<or> (\<exists>i. waits_on pc = Some (i, False) \<and> bs_slot s = Some i \<and> (in_wait_closed pc \<longrightarrow> bs_terminal s'))"
  shows "browse_good s'"
proof (rule browse_goodI)
  show "cell_ok (bs_ops s' ! i)" if "i < length (bs_ops s')" for i using browse_goodD(1) [OF assms(1)] that assms(2) by simp
  show "bs_terminal s'" if "bs_gate s' = Some pc" "in_wait_closed pc" for pc
    using assms(4) assms(5) [OF that(1)] that(2) browse_goodD(2) [OF assms(1)] by blast
  show "bs_slot s' = Some i \<and> i < length (bs_ops s')" if "bs_gate s' = Some pc" "waits_on pc = Some (i, a)" for pc i a
    using assms(2,3) assms(5) [OF that(1)] that(2) browse_goodD(3,5) [OF assms(1)] by auto
  show "if_permit (bs_ops s' ! i)" if "bs_gate s' = Some pc" "waits_on pc = Some (i, True)" "if_task (bs_ops s' ! i) = Finished" for pc i
    using assms(2) assms(5) [OF that(1)] that(2,3) browse_goodD(4) [OF assms(1)] by auto
qed (use browse_goodD(5) [OF assms(1)] assms(2,3) in simp)

text \<open>One poll of a waiting holder.\<close>

lemma browse_good_wait:
  assumes "browse_good s" "bs_gate s = Some pc" "waits_on pc = Some (i, a)"
  shows "ready_now a (bs_ops s ! i) = None \<Longrightarrow> waits_on pc' = Some (i, True) \<Longrightarrow> (in_wait_closed pc' \<Longrightarrow> in_wait_closed pc)
      \<Longrightarrow> browse_good (s\<lparr>bs_gate := Some pc'\<rparr>)"
    and "waits_on pc' = None \<Longrightarrow> (in_wait_closed pc' \<Longrightarrow> in_wait_closed pc)
      \<Longrightarrow> browse_good (s\<lparr>bs_ops := (bs_ops s)[i := after_wait a (bs_ops s ! i)], bs_slot := None, bs_gate := Some pc'\<rparr>)"
proof -
  note w = browse_goodD(3) [OF assms]
  note cell = browse_goodD(1) [OF assms(1)]
  show "browse_good (s\<lparr>bs_gate := Some pc'\<rparr>)"
    if "ready_now a (bs_ops s ! i) = None" "waits_on pc' = Some (i, True)" "in_wait_closed pc' \<Longrightarrow> in_wait_closed pc"
  proof (rule browse_goodI)
    show "if_permit (bs_ops (s\<lparr>bs_gate := Some pc'\<rparr>) ! j)"
      if j: "bs_gate (s\<lparr>bs_gate := Some pc'\<rparr>) = Some q" "waits_on q = Some (j, True)" "if_task (bs_ops (s\<lparr>bs_gate := Some pc'\<rparr>) ! j) = Finished" for q j
    proof -
      have "j = i" and fin: "if_task (bs_ops s ! i) = Finished"
        using j \<open>waits_on pc' = Some (i, True)\<close> by auto
      have "a \<and> \<not> if_permit (bs_ops s ! i)"
        using not_ready [OF cell _ fin] w \<open>ready_now a (bs_ops s ! i) = None\<close> by blast
      then show ?thesis using browse_goodD(4) [OF assms(1,2), of i] assms(3) fin by simp
    qed
  qed (use that w cell browse_goodD(2,5) [OF assms(1)] assms(2) in auto)
  show "browse_good (s\<lparr>bs_ops := (bs_ops s)[i := after_wait a (bs_ops s ! i)], bs_slot := None, bs_gate := Some pc'\<rparr>)"
    if "waits_on pc' = None" "in_wait_closed pc' \<Longrightarrow> in_wait_closed pc"
    by (rule browse_goodI) (use that w cell browse_goodD(2) [OF assms(1,2)] in \<open>auto simp: nth_list_update\<close>)
qed


lemma next_stepE:
  assumes "browse_good s" "next_step s = Some s'"
  obtains (join) i where "bs_gate s = Some NStart" "bs_slot s = Some i" "s' = s\<lparr>bs_gate := Some (NWait i False)\<rparr>"
  | (start) "bs_gate s = Some NStart" "bs_slot s = None"
      "s' = s\<lparr>bs_slot := Some (length (bs_ops s)), bs_ops := bs_ops s @ [flight_new], bs_gate := Some (NWait (length (bs_ops s)) False)\<rparr>"
  | (pending) i a where "bs_gate s = Some (NWait i a)" "ready_now a (bs_ops s ! i) = None" "s' = s\<lparr>bs_gate := Some (NWait i True)\<rparr>"
  | (ready) i a r where "bs_gate s = Some (NWait i a)" "ready_now a (bs_ops s ! i) = Some r"
      "s' = s\<lparr>bs_ops := (bs_ops s)[i := after_wait a (bs_ops s ! i)], bs_slot := None, bs_gate := Some (NTook r)\<rparr>"
  | (dropped) r where "bs_gate s = Some (NTook r)" "bs_terminal s" "s' = s\<lparr>bs_gate := None\<rparr>"
  | (decided) r where "bs_gate s = Some (NTook r)" "\<not> bs_terminal s" "s' = s\<lparr>bs_gate := Some (NFinish r), bs_delivered := bs_delivered s @ [r]\<rparr>"
  | (returned) pc where "bs_gate s = Some pc" "\<forall>r. pc \<noteq> NTook r" "s' = s\<lparr>bs_gate := None\<rparr>"
  | (closing) r where "bs_gate s = Some (NFinish r)" "\<not> bs_terminal s"
      "s' = s\<lparr>bs_terminal := True, bs_closing := Some AfterSwap, bs_gate := Some NClosing\<rparr>"
proof -
  obtain pc where pc: "bs_gate s = Some pc" using assms(2) by (cases "bs_gate s") (auto simp: next_step_def)
  show thesis
  proof (cases pc)
    case NStart
    show thesis
    proof (cases "bs_slot s")
      case None
      then show thesis using start NStart assms(2) pc by (simp add: next_step_def next_operation_def Let_def)
    next
      case (Some i)
      then show thesis using join [of i] NStart assms(2) pc by (simp add: next_step_def next_operation_def Let_def)
    qed
  next
    case (NWait i a)
    have w: "bs_slot s = Some i" "i < length (bs_ops s)" using browse_goodD(3) [OF assms(1) pc] NWait by simp_all
    note wait = flight_wait_eq [OF browse_goodD(1) [OF assms(1) w(2)], of a]
    show thesis
    proof (cases "ready_now a (bs_ops s ! i)")
      case None
      then show thesis using pending [of i a] NWait assms(2) pc wait by (simp add: next_step_def)
    next
      case (Some r)
      then show thesis using ready [of i a r] NWait assms(2) pc wait w(1) by (simp add: next_step_def clear_operation_def)
    qed
  next
    case (NTook r)
    then show thesis using dropped [of r] decided [of r] assms(2) pc by (cases "bs_terminal s") (simp_all add: next_step_def)
  next
    case (NFinish r)
    show thesis
    proof (cases "bs_terminal s \<or> (\<exists>e. r = Inr (Some e))")
      case True
      then show thesis using returned [of pc] NFinish assms(2) pc by (auto simp: next_step_def split: sum.splits option.splits)
    next
      case False
      then show thesis
        using closing [of r] NFinish assms(2) pc by (auto simp: next_step_def browse_close_swap_def split: sum.splits option.splits)
    qed
  next
    case NClosing
    then show thesis using returned [of pc] assms(2) pc by (auto simp: next_step_def split: if_splits)
  qed (use assms(2) pc in \<open>simp_all add: next_step_def\<close>)
qed

lemma wait_closed_stepE:
  assumes "browse_good s" "wait_closed_step s = Some s'"
  obtains (join) i where "bs_gate s = Some WStart" "bs_slot s = Some i" "s' = s\<lparr>bs_gate := Some (WWait i False)\<rparr>"
  | (none) "bs_gate s = Some WStart" "s' = s\<lparr>bs_gate := Some WClosed\<rparr>"
  | (pending) i a where "bs_gate s = Some (WWait i a)" "ready_now a (bs_ops s ! i) = None" "s' = s\<lparr>bs_gate := Some (WWait i True)\<rparr>"
  | (ready) i a r where "bs_gate s = Some (WWait i a)" "ready_now a (bs_ops s ! i) = Some r"
      "s' = s\<lparr>bs_ops := (bs_ops s)[i := after_wait a (bs_ops s ! i)], bs_slot := None, bs_gate := Some WClosed\<rparr>"
  | (returned) "bs_gate s = Some WClosed" "s' = s\<lparr>bs_gate := None\<rparr>"
proof -
  obtain pc where pc: "bs_gate s = Some pc" using assms(2) by (cases "bs_gate s") (auto simp: wait_closed_step_def)
  show thesis
  proof (cases pc)
    case WStart
    then show thesis using join none assms(2) pc by (cases "bs_slot s") (auto simp: wait_closed_step_def)
  next
    case (WWait i a)
    have w: "bs_slot s = Some i" "i < length (bs_ops s)" using browse_goodD(3) [OF assms(1) pc] WWait by simp_all
    note wait = flight_wait_eq [OF browse_goodD(1) [OF assms(1) w(2)], of a]
    show thesis
    proof (cases "ready_now a (bs_ops s ! i)")
      case None
      then show thesis using pending [of i a] WWait assms(2) pc wait by (simp add: wait_closed_step_def)
    next
      case (Some r)
      then show thesis using ready [of i a r] WWait assms(2) pc wait w(1) by (simp add: wait_closed_step_def clear_operation_def)
    qed
  next
    case WClosed
    then show thesis using returned assms(2) pc by (simp add: wait_closed_step_def)
  qed (use assms(2) pc in \<open>simp_all add: wait_closed_step_def\<close>)
qed

lemma browse_cancelE:
  assumes "browse_cancel s = Some s'"
  obtains pc where "bs_gate s = Some pc" "\<forall>r. pc \<noteq> NTook r" "s' = s\<lparr>bs_gate := None\<rparr>"
  using assms by (auto simp: browse_cancel_def split: option.splits browse_pc.splits bool.splits)

lemma next_enterE:
  assumes "next_enter s = Some s'"
  obtains "bs_gate s = None" "s' = s" | "bs_gate s = None" "\<not> bs_terminal s" "s' = s\<lparr>bs_gate := Some NStart\<rparr>"
  using assms by (auto simp: next_enter_def split: if_splits)

lemma map_update_same: "(map f xs)[i := f (xs ! i)] = map f xs"
  by (metis list_update_id map_update)

lemma browse_results_wait [simp]:
  "browse_results (s\<lparr>bs_ops := (bs_ops s)[i := after_wait a (bs_ops s ! i)], bs_slot := sl, bs_gate := g\<rparr>) = browse_results s"
  by (simp add: browse_results_def map_update map_update_same)

lemma browse_results_frame: "bs_ops s' = bs_ops s \<Longrightarrow> browse_results s' = browse_results s"
  by (simp add: browse_results_def)


lemma browse_step_good:
  assumes "browse_good s" "flight_slot_ok (bs_slot s, browse_results s)" "browse_step s s'"
  shows "browse_good s' \<and> slot_step (bs_slot s, browse_results s) (bs_slot s', browse_results s')"
proof -
  have frame: "browse_good s' \<and> slot_step (bs_slot s, browse_results s) (bs_slot s', browse_results s')"
    if "bs_ops s' = bs_ops s" "bs_slot s' = bs_slot s" "bs_terminal s \<Longrightarrow> bs_terminal s'"
      "\<And>pc. bs_gate s' = Some pc \<Longrightarrow> bs_gate s = Some pc \<or> waits_on pc = None \<and> (in_wait_closed pc \<longrightarrow> bs_terminal s')
      \<or> (\<exists>i. waits_on pc = Some (i, False) \<and> bs_slot s = Some i \<and> (in_wait_closed pc \<longrightarrow> bs_terminal s'))"
    using browse_good_frame [OF assms(1) that] browse_results_frame [OF that(1)] that(2) by (simp add: sl_same)
  have clear: "slot_step (bs_slot s, browse_results s) (None, browse_results s)"
    if "bs_gate s = Some pc" "waits_on pc = Some (i, a)" "ready_now a (bs_ops s ! i) = Some r" for pc i a r
  proof -
    have i: "bs_slot s = Some i" "i < length (bs_ops s)" using browse_goodD(3) [OF assms(1) that(1,2)] by simp_all
    then have "browse_results s ! i \<noteq> None" using ready_result [OF that(3)] by (simp add: browse_results_def)
    then show ?thesis using i sl_clear [of i "browse_results s"] by (simp add: browse_results_def)
  qed
  note cell = browse_goodD(1) [OF assms(1)]
  from assms(3) show ?thesis
  proof cases
    case br_enter
    then show ?thesis by (cases rule: next_enterE) (rule frame; simp)+
  next
    case br_next
    from assms(1) this show ?thesis
    proof (cases rule: next_stepE)
      case (start)
      have "browse_good s'"
        unfolding start(3) by (rule browse_goodI) (use cell in \<open>auto simp: nth_append less_Suc_eq\<close>)
      moreover have "slot_step (bs_slot s, browse_results s) (bs_slot s', browse_results s')"
        using sl_start [of "browse_results s"] start(2,3) by (simp add: browse_results_def)
      ultimately show ?thesis by blast
    next
      case (pending i a)
      then show ?thesis
        using browse_good_wait(1) [OF assms(1) pending(1) _ pending(2), of "NWait i True"] by (simp add: browse_results_def sl_same)
    next
      case (ready i a r)
      then show ?thesis
        using browse_good_wait(2) [OF assms(1) ready(1), of i a "NTook r"] clear [OF ready(1) _ ready(2)] by simp
    qed (rule frame; auto)+
  next
    case br_swap
    then show ?thesis by (intro frame) (auto simp: browse_close_swap_def split: if_splits)
  next
    case br_close
    then show ?thesis by (intro frame) (auto simp: browse_close_step_def split: option.splits close_pc.splits)
  next
    case (br_on_close c)
    then show ?thesis by (intro frame) (auto simp: on_close_def Let_def split: if_splits)
  next
    case br_wait
    then show ?thesis by (intro frame) (auto simp: wait_closed_enter_def split: if_splits)
  next
    case br_wait_step
    have tm: "bs_terminal s" if "bs_gate s = Some pc" "in_wait_closed pc" for pc using browse_goodD(2) [OF assms(1) that] .
    from assms(1) br_wait_step show ?thesis
    proof (cases rule: wait_closed_stepE)
      case (pending i a)
      then show ?thesis
        using browse_good_wait(1) [OF assms(1) pending(1) _ pending(2), of "WWait i True"] by (simp add: browse_results_def sl_same)
    next
      case (ready i a r)
      then show ?thesis
        using browse_good_wait(2) [OF assms(1) ready(1), of i a "WClosed"] clear [OF ready(1) _ ready(2)] by simp
    qed (rule frame; use tm in auto)+
  next
    case br_cancel
    then show ?thesis by (cases rule: browse_cancelE) (rule frame; simp)
  next
    case (br_store i r)
    then have res: "browse_results s' = (browse_results s)[i := Some r]" "browse_results s ! i = None" "i < length (browse_results s)"
      using cell [of i] by (simp_all add: browse_results_def put_op_def map_update cell_ok_def)
    have "browse_good s'"
      unfolding br_store(1)
      by (rule browse_goodI) (use br_store(2,3) cell browse_goodD(2-5) [OF assms(1)] in \<open>auto simp: put_op_def nth_list_update split: if_splits\<close>)
    then show ?thesis using sl_store [OF res(3,2)] res(1) br_store(1) by (simp add: put_op_def)
  next
    case (br_notify i)
    then have res: "browse_results s' = browse_results s"
      by (simp add: browse_results_def put_op_def map_update map_update_same)
    have "browse_good s'"
      unfolding br_notify(1)
      by (rule browse_goodI) (use br_notify(2,3) cell browse_goodD(2-5) [OF assms(1)] in \<open>auto simp: put_op_def nth_list_update\<close>)
    then show ?thesis unfolding res using br_notify(1) by (simp add: put_op_def sl_same)
  qed
qed

interpretation browse_slot: gated_slot bs_slot browse_results browse_step browse_good "\<lambda>s. s = browse_new"
proof
  show "bs_slot s = None \<and> browse_results s = [] \<and> browse_good s" if "s = browse_new" for s
    using that by (simp add: browse_new_def browse_results_def browse_good_def)
qed (rule browse_step_good)


text \<open>What has left the slot, and a result on its way to the decision.\<close>

definition settled :: "browse_session \<Rightarrow> browse_outcome option list" where
  "settled s = (if bs_slot s = None then browse_results s else butlast (browse_results s))"

definition transit :: "browse_session \<Rightarrow> browse_outcome list" where
  "transit s = (case bs_gate s of Some (NTook r) \<Rightarrow> [r] | _ \<Rightarrow> [])"

definition seq_inv :: "browse_session \<Rightarrow> bool" where
  "seq_inv s \<longleftrightarrow> prefix (map Some (bs_delivered s)) (browse_results s)
     \<and> (\<not> bs_terminal s \<longrightarrow> settled s = map Some (bs_delivered s @ transit s))"

lemma seq_inv_frame:
  assumes "seq_inv s" "browse_results s' = browse_results s" "bs_slot s' = bs_slot s" "bs_delivered s' = bs_delivered s"
    and "bs_terminal s \<Longrightarrow> bs_terminal s'" "\<not> bs_terminal s' \<Longrightarrow> transit s' = transit s"
  shows "seq_inv s'"
  using assms by (auto simp: seq_inv_def settled_def)

lemma prefix_store:
  assumes "prefix (map Some xs) R" "R ! i = None" "i < length R"
  shows "prefix (map Some xs) (R[i := v])"
proof -
  obtain zs where R: "R = map Some xs @ zs" using assms(1) by (auto elim: prefixE)
  have "length xs \<le> i" using assms(2) R by (metis leI length_map nth_append nth_map option.discI)
  then show ?thesis using R by (simp add: list_update_append)
qed

lemma seq_inv_step:
  assumes good: "browse_good s" and ok: "flight_slot_ok (bs_slot s, browse_results s)" and inv: "seq_inv s" and step: "browse_step s s'"
  shows "seq_inv s'"
proof -
  note frame = seq_inv_frame [OF inv]
  have last: "settled s @ [if_result (bs_ops s ! i)] = browse_results s" if "bs_slot s = Some i" for i
  proof -
    have i: "Suc i = length (browse_results s)" using flight_slot_okD(2) [OF ok that] .
    then have ne: "browse_results s \<noteq> []" and "i = length (browse_results s) - 1" by auto
    then have "last (browse_results s) = browse_results s ! i" using last_conv_nth [OF ne] by simp
    moreover have "browse_results s ! i = if_result (bs_ops s ! i)" using i by (simp add: browse_results_def)
    ultimately show ?thesis using that append_butlast_last_id [OF ne] by (simp add: settled_def)
  qed
  from step show ?thesis
  proof cases
    case br_enter
    then show ?thesis by (cases rule: next_enterE) (rule frame; simp add: browse_results_def transit_def)+
  next
    case br_next
    from good this show ?thesis
    proof (cases rule: next_stepE)
      case start
      have "prefix (map Some (bs_delivered s)) (browse_results s @ [None])" using inv by (simp add: seq_inv_def)
      then show ?thesis using inv start by (auto simp: seq_inv_def settled_def browse_results_def transit_def)
    next
      case (ready i a r)
      have i: "bs_slot s = Some i" using browse_goodD(3) [OF good ready(1)] by simp
      have res: "browse_results s' = browse_results s" unfolding ready(3) by simp
      show ?thesis
        using inv last [OF i] ready_result [OF ready(2)] res ready(1,3)
        by (auto simp: seq_inv_def settled_def transit_def)
    next
      case (decided r)
      have "settled s = map Some (bs_delivered s @ [r])" using inv decided(1,2) by (simp add: seq_inv_def transit_def)
      moreover have "prefix (settled s) (browse_results s)" by (simp add: settled_def prefixeq_butlast)
      ultimately show ?thesis using inv decided by (auto simp: seq_inv_def settled_def browse_results_def transit_def)
    qed (rule frame; auto simp: browse_results_def transit_def split: browse_pc.splits)+
  next
    case br_swap
    then show ?thesis by (intro frame) (auto simp: browse_close_swap_def browse_results_def transit_def)
  next
    case br_close
    then show ?thesis by (intro frame) (auto simp: browse_close_step_def browse_results_def transit_def split: option.splits close_pc.splits)
  next
    case (br_on_close c)
    then show ?thesis by (intro frame) (auto simp: on_close_def Let_def browse_results_def transit_def)
  next
    case br_wait
    then show ?thesis by (intro frame) (auto simp: wait_closed_enter_def browse_results_def transit_def split: if_splits)
  next
    case br_wait_step
    then have t: "bs_terminal s" using browse_goodD(2) [OF good] by (auto simp: wait_closed_step_def split: option.splits browse_pc.splits)
    from good br_wait_step have "browse_results s' = browse_results s \<and> bs_delivered s' = bs_delivered s \<and> bs_terminal s'"
      by (cases rule: wait_closed_stepE) (use t in \<open>auto simp: browse_results_def map_update map_update_same\<close>)
    then show ?thesis using inv by (simp add: seq_inv_def)
  next
    case br_cancel
    then show ?thesis by (cases rule: browse_cancelE) (rule frame; auto simp: browse_results_def transit_def split: browse_pc.splits)
  next
    case (br_store i r)
    have cell: "browse_results s ! i = None" "i < length (browse_results s)"
      using browse_goodD(1) [OF good br_store(2)] br_store(2,3) by (simp_all add: browse_results_def cell_ok_def)
    have sl: "bs_slot s = Some i" using flight_slot_okD(1) [OF ok cell(2,1)] .
    have res: "browse_results s' = (browse_results s)[i := Some r]" "bs_slot s' = bs_slot s" "bs_delivered s' = bs_delivered s"
      "bs_terminal s' = bs_terminal s" "transit s' = transit s"
      using br_store(1) by (simp_all add: browse_results_def put_op_def map_update transit_def)
    have "butlast ((browse_results s)[i := Some r]) = butlast (browse_results s)"
      using flight_slot_okD(2) [OF ok sl] by (auto simp: butlast_list_update)
    then show ?thesis using inv sl prefix_store [OF _ cell] by (simp add: seq_inv_def settled_def res)
  next
    case (br_notify i)
    then show ?thesis by (intro frame) (auto simp: browse_results_def put_op_def map_update map_update_same transit_def)
  qed
qed


text \<open>Closing.\<close>

definition close_inv :: "browse_session \<Rightarrow> bool" where
  "close_inv s \<longleftrightarrow> bs_requests s + (if bs_closing s = Some AfterSwap then 1 else 0) = (if bs_terminal s then 1 else 0)
     \<and> (bs_closing s \<noteq> None \<longrightarrow> bs_terminal s) \<and> (bs_terminal s \<and> bs_closing s = None \<longrightarrow> bs_callbacks s = [])
     \<and> (\<not> bs_terminal s \<longrightarrow> bs_ran s = []) \<and> mset (bs_registered s) = mset (bs_ran s) + mset (bs_callbacks s)"

lemma close_inv_frame:
  assumes "close_inv s" "bs_requests s' = bs_requests s" "bs_closing s' = bs_closing s" "bs_terminal s' = bs_terminal s"
    "bs_callbacks s' = bs_callbacks s" "bs_ran s' = bs_ran s" "bs_registered s' = bs_registered s"
  shows "close_inv s'"
  using assms by (simp add: close_inv_def)

lemma close_inv_step:
  assumes "browse_good s" "close_inv s" "browse_step s s'"
  shows "close_inv s'"
  using assms(3)
proof cases
  case br_enter
  then show ?thesis by (cases rule: next_enterE) (rule close_inv_frame [OF assms(2)]; simp)+
next
  case br_next
  from assms(1) this show ?thesis
  proof (cases rule: next_stepE)
    case (closing r)
    then show ?thesis using assms(2) by (auto simp: close_inv_def)
  qed (rule close_inv_frame [OF assms(2)]; simp)+
next
  case br_swap
  then show ?thesis using assms(2) by (auto simp: close_inv_def browse_close_swap_def)
next
  case br_close
  then show ?thesis using assms(2) by (auto simp: close_inv_def browse_close_step_def split: option.splits close_pc.splits)
next
  case (br_on_close c)
  then show ?thesis using assms(2) by (auto simp: close_inv_def on_close_def Let_def)
next
  case br_wait
  then show ?thesis by (intro close_inv_frame [OF assms(2)]) (auto simp: wait_closed_enter_def split: if_splits)
next
  case br_wait_step
  from assms(1) this show ?thesis by (cases rule: wait_closed_stepE) (rule close_inv_frame [OF assms(2)]; simp)+
next
  case br_cancel
  then show ?thesis by (cases rule: browse_cancelE) (rule close_inv_frame [OF assms(2)]; simp)
qed (rule close_inv_frame [OF assms(2)]; simp add: put_op_def)+

definition browse_reachable :: "browse_session \<Rightarrow> bool" where
  "browse_reachable s \<longleftrightarrow> browse_step\<^sup>*\<^sup>* browse_new s"

lemma browse_reach: "browse_reachable s \<Longrightarrow> browse_slot.reach s"
  by (auto simp: browse_reachable_def browse_slot.reach_def)

lemma reach_seq: "browse_slot.reach s \<Longrightarrow> seq_inv s"
proof (erule browse_slot.reach_induct)
  show "seq_inv s" if "s = browse_new" for s
    using that by (simp add: seq_inv_def browse_new_def settled_def browse_results_def transit_def)
qed (rule seq_inv_step)

lemma reach_close: "browse_slot.reach s \<Longrightarrow> close_inv s"
proof (erule browse_slot.reach_induct)
  show "close_inv s" if "s = browse_new" for s using that by (simp add: close_inv_def browse_new_def)
qed (rule close_inv_step)

text \<open>Discovery results are delivered in order and not lost: whatever callers wait, are cancelled or close, the
  transport is never asked for two results at once; until the session is closed, the results that callers
  were given are exactly the finished operations in order, up to one result on its way and the operation
  in the slot, so that a cancelled caller loses nothing; a result is never given twice, and after closing
  none is given.\<close>

theorem browse_results_in_order:
  assumes "browse_reachable s"
  shows "(\<forall>i j. i < length (bs_ops s) \<and> if_result (bs_ops s ! i) = None \<and> j < length (bs_ops s) \<and> if_result (bs_ops s ! j) = None \<longrightarrow> i = j)
     \<and> (\<not> bs_terminal s \<longrightarrow> settled s = map Some (bs_delivered s @ transit s))
     \<and> prefix (map Some (bs_delivered s)) (map if_result (bs_ops s))
     \<and> (\<forall>s'. browse_step s s' \<and> bs_terminal s \<longrightarrow> bs_terminal s' \<and> bs_delivered s' = bs_delivered s)"
proof -
  note r = browse_reach [OF assms] and good = conjunct1 [OF browse_slot.reach_ok [OF browse_reach [OF assms]]]
  have "bs_terminal s' \<and> bs_delivered s' = bs_delivered s" if st: "browse_step s s'" and t: "bs_terminal s" for s'
    using st
  proof cases
    case br_next
    from good this show ?thesis using t by (cases rule: next_stepE) auto
  next
    case br_wait_step
    from good this show ?thesis using t by (cases rule: wait_closed_stepE) auto
  next
    case br_cancel
    then show ?thesis using t by (cases rule: browse_cancelE) auto
  next
    case br_enter
    then show ?thesis using t by (cases rule: next_enterE) auto
  qed (use t in \<open>auto simp: browse_close_swap_def browse_close_step_def on_close_def Let_def wait_closed_enter_def put_op_def
      split: option.splits close_pc.splits if_splits\<close>)
  moreover have "i = j" if "i < length (bs_ops s)" "if_result (bs_ops s ! i) = None" "j < length (bs_ops s)" "if_result (bs_ops s ! j) = None" for i j
    using browse_slot.one_in_flight [OF r, of i j] that by (simp add: browse_results_def)
  ultimately show ?thesis using reach_seq [OF r] by (auto simp: seq_inv_def browse_results_def)
qed

text \<open>A session closes once: the transport is asked to close at most once, and once the closing call has ended it has
  been asked and every callback registered before or after has run exactly once; before closing, none
  has.\<close>

theorem browse_closes_once:
  assumes "browse_reachable s"
  shows "bs_requests s \<le> 1 \<and> (\<not> bs_terminal s \<longrightarrow> bs_requests s = 0 \<and> bs_ran s = [])
     \<and> (bs_terminal s \<and> bs_closing s = None \<longrightarrow> bs_requests s = 1 \<and> mset (bs_ran s) = mset (bs_registered s))"
  using reach_close [OF browse_reach [OF assms]] by (auto simp: close_inv_def split: if_splits)

text \<open>No wake-up is lost: a caller of \<open>next\<close> or \<open>wait_closed\<close> that waits for an operation whose task has finished, also if
  an earlier caller waited for it and was cancelled, gets the result at its next poll.\<close>

theorem finished_operation_wakes_waiter:
  assumes "browse_reachable s" "bs_gate s = Some pc" "waits_on pc = Some (i, a)" "if_task (bs_ops s ! i) = Finished"
  shows "\<exists>r s'. if_result (bs_ops s ! i) = Some r \<and> bs_slot s' = None
     \<and> (next_step s = Some s' \<and> bs_gate s' = Some (NTook r) \<or> wait_closed_step s = Some s' \<and> bs_gate s' = Some WClosed)"
proof -
  have good: "browse_good s" using browse_slot.reach_ok [OF browse_reach [OF assms(1)]] by blast
  have w: "bs_slot s = Some i" "i < length (bs_ops s)" using browse_goodD(3) [OF good assms(2,3)] by simp_all
  note cell = browse_goodD(1) [OF good w(2)]
  obtain r where r: "if_result (bs_ops s ! i) = Some r" using cell assms(4) by (cases "if_result (bs_ops s ! i)") (auto simp: cell_ok_def)
  have "ready_now a (bs_ops s ! i) = Some r"
    using r browse_goodD(4) [OF good assms(2) _ assms(4)] assms(3) by (auto simp: ready_now_def)
  then have wait: "flight_wait a (bs_ops s ! i) = (Ready r, after_wait a (bs_ops s ! i))" using flight_wait_eq [OF cell] by simp
  show ?thesis
    using assms(2,3) r w(1) wait by (cases pc) (auto simp: next_step_def wait_closed_step_def clear_operation_def)
qed


text \<open>A caller is cancelled while it waits; the result arrives; the next caller gets it, and the session is closed.\<close>

definition demo_event :: browse_outcome where
  "demo_event = Inr (Some (RawRemove ''_t._udp.local.'' ''a''))"

definition demo_flight :: "flight_task \<Rightarrow> browse_outcome in_flight" where
  "demo_flight t = \<lparr>if_result = if t = Running then None else Some demo_event, if_permit = t = Finished, if_task = t\<rparr>"

definition demo_browse :: "browse_pc option \<Rightarrow> flight_task \<Rightarrow> browse_session" where
  "demo_browse g t = browse_new\<lparr>bs_gate := g, bs_slot := Some 0, bs_ops := [demo_flight t], bs_registered := [7], bs_callbacks := [7]\<rparr>"

definition demo_taken :: browse_session where
  "demo_taken = (demo_browse (Some (NTook demo_event)) Finished)\<lparr>bs_slot := None\<rparr>"

lemma demo_browse_steps:
  "browse_step\<^sup>*\<^sup>* browse_new (demo_browse (Some (NWait 0 False)) Finished)"
  "browse_step (demo_browse (Some (NWait 0 False)) Finished) demo_taken"
proof -
  have "browse_step browse_new (on_close 7 browse_new)" by (rule br_on_close)
  moreover have "browse_step (on_close 7 browse_new) ((on_close 7 browse_new)\<lparr>bs_gate := Some NStart\<rparr>)"
    by (rule br_enter) (simp add: next_enter_def on_close_def browse_new_def)
  moreover have "browse_step ((on_close 7 browse_new)\<lparr>bs_gate := Some NStart\<rparr>) (demo_browse (Some (NWait 0 False)) Running)"
    by (rule br_next) (simp add: next_step_def next_operation_def on_close_def browse_new_def demo_browse_def demo_flight_def flight_new_def)
  moreover have "browse_step (demo_browse (Some (NWait 0 False)) Running) (demo_browse (Some (NWait 0 True)) Running)"
    by (rule br_next) (simp add: next_step_def demo_browse_def demo_flight_def flight_wait_def Let_def)
  moreover have "browse_step (demo_browse (Some (NWait 0 True)) Running) (demo_browse None Running)"
    by (rule br_cancel) (simp add: browse_cancel_def demo_browse_def)
  moreover have "browse_step (demo_browse None Running) (demo_browse None Stored)"
    using br_store [of 0 "demo_browse None Running" demo_event] by (simp add: put_op_def demo_browse_def demo_flight_def complete_store_def browse_new_def)
  moreover have "browse_step (demo_browse None Stored) (demo_browse None Finished)"
    using br_notify [of 0 "demo_browse None Stored"] by (simp add: put_op_def demo_browse_def demo_flight_def complete_notify_def browse_new_def)
  moreover have "browse_step (demo_browse None Finished) (demo_browse (Some NStart) Finished)"
    by (rule br_enter) (simp add: next_enter_def demo_browse_def browse_new_def)
  moreover have "browse_step (demo_browse (Some NStart) Finished) (demo_browse (Some (NWait 0 False)) Finished)"
    by (rule br_next) (simp add: next_step_def next_operation_def demo_browse_def)
  ultimately show "browse_step\<^sup>*\<^sup>* browse_new (demo_browse (Some (NWait 0 False)) Finished)"
    by (meson rtranclp.rtrancl_into_rtrancl rtranclp.rtrancl_refl)
  show "browse_step (demo_browse (Some (NWait 0 False)) Finished) demo_taken"
    by (rule br_next) (simp add: next_step_def demo_browse_def demo_taken_def demo_flight_def flight_wait_def clear_operation_def Let_def)
qed

lemma demo_waiting_reachable: "browse_reachable (demo_browse (Some (NWait 0 False)) Finished)"
  using demo_browse_steps(1) by (simp add: browse_reachable_def)

definition demo_delivered :: browse_session where
  "demo_delivered = demo_taken\<lparr>bs_gate := Some (NFinish demo_event), bs_delivered := [demo_event]\<rparr>"

lemma demo_delivered_reachable: "browse_reachable demo_delivered"
proof -
  have "browse_step demo_taken demo_delivered"
    by (rule br_next) (simp add: next_step_def demo_taken_def demo_browse_def demo_delivered_def browse_new_def)
  then show ?thesis
    using demo_browse_steps unfolding browse_reachable_def by (meson rtranclp.rtrancl_into_rtrancl)
qed

theorem browse_results_in_order_witness:
  "browse_reachable demo_delivered \<and> bs_delivered demo_delivered = [demo_event] \<and> settled demo_delivered = [Some demo_event]"
proof -
  have "\<not> bs_terminal demo_delivered" "bs_delivered demo_delivered = [demo_event]" "transit demo_delivered = []"
    by (simp_all add: demo_delivered_def demo_taken_def demo_browse_def browse_new_def transit_def)
  then show ?thesis using browse_results_in_order [OF demo_delivered_reachable] demo_delivered_reachable by simp
qed

theorem finished_operation_wakes_waiter_witness:
  "\<exists>s r. browse_reachable s \<and> bs_gate s = Some (NWait 0 False) \<and> if_result (bs_ops s ! 0) = Some r"
proof -
  let ?s = "demo_browse (Some (NWait 0 False)) Finished"
  have g: "bs_gate ?s = Some (NWait 0 False)" "if_task (bs_ops ?s ! 0) = Finished" by (simp_all add: demo_browse_def demo_flight_def)
  show ?thesis
    using finished_operation_wakes_waiter [OF demo_waiting_reachable g(1) _ g(2), of False] demo_waiting_reachable g(1) by auto
qed

definition demo_closed :: browse_session where
  "demo_closed = (demo_browse (Some (NWait 0 False)) Finished)\<lparr>bs_terminal := True, bs_requests := 1, bs_callbacks := [], bs_ran := [7]\<rparr>"

lemma demo_closed_reachable: "browse_reachable demo_closed"
proof -
  let ?s = "demo_browse (Some (NWait 0 False)) Finished"
  have "browse_step ?s (browse_close_swap ?s)" by (rule br_swap)
  moreover have "browse_step (browse_close_swap ?s) ((browse_close_swap ?s)\<lparr>bs_requests := 1, bs_closing := Some AfterRequest\<rparr>)"
    by (rule br_close) (simp add: browse_close_step_def browse_close_swap_def demo_browse_def browse_new_def)
  moreover have "browse_step ((browse_close_swap ?s)\<lparr>bs_requests := 1, bs_closing := Some AfterRequest\<rparr>) demo_closed"
    by (rule br_close) (simp add: browse_close_step_def browse_close_swap_def demo_browse_def browse_new_def demo_closed_def)
  ultimately show ?thesis
    using demo_waiting_reachable unfolding browse_reachable_def by (meson rtranclp.rtrancl_into_rtrancl)
qed

theorem browse_closes_once_witness:
  "browse_reachable demo_closed \<and> bs_requests demo_closed = 1 \<and> mset (bs_ran demo_closed) = mset [7]"
proof -
  have "bs_terminal demo_closed" "bs_closing demo_closed = None" "bs_registered demo_closed = [7]"
    by (simp_all add: demo_closed_def demo_browse_def browse_new_def)
  then show ?thesis using browse_closes_once [OF demo_closed_reachable] demo_closed_reachable by simp
qed

end
