(* ===== verification/Advert_Props.thy ===== *)
theory Advert_Props
  imports Session_Props
begin

text \<open>Properties of advertisement sessions: what \<open>update\<close> reports agrees with what the transport has published, a
  failed update ends the session, and the transport is asked to close once.\<close>

section \<open>Steps\<close>

inductive adv_step :: "adv_session \<Rightarrow> adv_session \<Rightarrow> bool" where
  ad_enter: "update_enter u s = Some s' \<Longrightarrow> adv_step s s'"
| ad_update: "update_step s = Some s' \<Longrightarrow> adv_step s s'"
| ad_swap: "adv_step s (adv_close_swap s)"
| ad_request: "adv_close_request s = Some s' \<Longrightarrow> adv_step s s'"
| ad_wait: "adv_wait_enter s = Some s' \<Longrightarrow> adv_step s s'"
| ad_wait_step: "adv_wait_step s = Some s' \<Longrightarrow> adv_step s s'"
| ad_cancel: "adv_cancel s = Some s' \<Longrightarrow> adv_step s s'"
| ad_answer: "task_answer i r s = Some s' \<Longrightarrow> adv_step s s'"
| ad_task: "update_task_step i s = Some s' \<Longrightarrow> adv_step s s'"

definition adv_reachable :: "advertisement_update option \<Rightarrow> adv_session \<Rightarrow> bool" where
  "adv_reachable initial s \<longleftrightarrow> adv_step\<^sup>*\<^sup>* (adv_from_parts initial) s"

definition adv_results :: "adv_session \<Rightarrow> update_outcome option list" where
  "adv_results s = map (\<lambda>op. if_result (uo_flight op)) (av_ops s)"

section \<open>Well-formed operations\<close>

text \<open>What the transport answered, and a failure after which the session has been closed.\<close>

definition answer :: "update_op \<Rightarrow> (transport_error + unit) option" where
  "answer op = (case uo_task op of
       TCall \<Rightarrow> None | TAnswered r \<Rightarrow> Some r | TClosing e \<Rightarrow> Some (Inl e) | TComplete r \<Rightarrow> Some r
     | TDone \<Rightarrow> map_option snd (if_result (uo_flight op)))"

definition published_op :: "update_op \<Rightarrow> bool" where
  "published_op op \<longleftrightarrow> answer op = Some (Inr ())"

definition op_wf :: "update_op \<Rightarrow> bool" where
  "op_wf op \<longleftrightarrow> cell_ok (uo_flight op) \<and> (case uo_task op of
       TComplete r \<Rightarrow> if_task (uo_flight op) \<noteq> Finished \<and> (\<forall>x. if_result (uo_flight op) = Some x \<longrightarrow> x = (uo_update op, r))
     | TDone \<Rightarrow> if_task (uo_flight op) = Finished \<and> (\<exists>r. if_result (uo_flight op) = Some (uo_update op, r))
     | _ \<Rightarrow> if_task (uo_flight op) = Running)"

text \<open>A failure that the task has acted on.\<close>

definition failed_op :: "update_op \<Rightarrow> bool" where
  "failed_op op \<longleftrightarrow> (\<exists>e. answer op = Some (Inl e)) \<and> (\<forall>r. uo_task op \<noteq> TAnswered r)"

lemma op_result:
  assumes "op_wf op" "if_result (uo_flight op) = Some x"
  shows "answer op = Some (snd x) \<and> fst x = uo_update op \<and> (\<forall>r. uo_task op \<noteq> TAnswered r)"
  using assms by (cases "uo_task op") (auto simp: op_wf_def answer_def cell_ok_def)

lemma op_new [simp]: "op_wf (update_op_new u)" "\<not> published_op (update_op_new u)" "\<not> failed_op (update_op_new u)"
  "uo_flight (update_op_new u) = flight_new" "uo_update (update_op_new u) = u" "uo_task (update_op_new u) = TCall"
  by (simp_all add: update_op_new_def op_wf_def published_op_def failed_op_def answer_def)

text \<open>Polling a cell does not change what the operation says.\<close>

lemma op_waited [simp]:
  "answer (op\<lparr>uo_flight := after_wait a (uo_flight op)\<rparr>) = answer op"
  "op_wf op \<Longrightarrow> op_wf (op\<lparr>uo_flight := after_wait a (uo_flight op)\<rparr>)"
  "published_op (op\<lparr>uo_flight := after_wait a (uo_flight op)\<rparr>) = published_op op"
  "failed_op (op\<lparr>uo_flight := after_wait a (uo_flight op)\<rparr>) = failed_op op"
  by (auto simp: answer_def op_wf_def published_op_def failed_op_def split: update_task.splits)

section \<open>The gate\<close>

fun update_waits :: "update_pc \<Rightarrow> (nat \<times> bool) option" where
  "update_waits (UPrev i a _) = Some (i, a)"
| "update_waits (UWait i a) = Some (i, a)"
| "update_waits (VWait i a) = Some (i, a)"
| "update_waits _ = None"

fun needs_closed :: "update_pc \<Rightarrow> bool" where
  "needs_closed VStart = True"
| "needs_closed (VWait _ _) = True"
| "needs_closed VClosed = True"
| "needs_closed _ = False"

fun slot_free :: "update_pc \<Rightarrow> bool" where
  "slot_free (UCheck _) = True"
| "slot_free (USpawn _) = True"
| "slot_free _ = False"

fun spawning :: "update_pc \<Rightarrow> bool" where
  "spawning (USpawn _) = True"
| "spawning _ = False"

definition gate_ok :: "adv_session \<Rightarrow> update_pc \<Rightarrow> bool" where
  "gate_ok s pc \<longleftrightarrow> (needs_closed pc \<longrightarrow> av_closed s) \<and> (slot_free pc \<longrightarrow> av_slot s = None)
     \<and> (spawning pc \<longrightarrow> list_all published_op (av_ops s))
     \<and> (\<forall>i a. update_waits pc = Some (i, a) \<longrightarrow> av_slot s = Some i \<and> i < length (av_ops s)
          \<and> (a \<and> if_task (uo_flight (av_ops s ! i)) = Finished \<longrightarrow> if_permit (uo_flight (av_ops s ! i))))"

definition adv_good :: "adv_session \<Rightarrow> bool" where
  "adv_good s \<longleftrightarrow> list_all (\<lambda>op. op_wf op \<and> (failed_op op \<longrightarrow> av_closed s)) (av_ops s)
     \<and> list_all published_op (butlast (av_ops s)) \<and> (\<forall>pc. av_gate s = Some pc \<longrightarrow> gate_ok s pc)
     \<and> (\<forall>i. av_slot s = Some i \<longrightarrow> i < length (av_ops s))"

lemma adv_goodD:
  assumes "adv_good s"
  shows "i < length (av_ops s) \<Longrightarrow> op_wf (av_ops s ! i)" "i < length (av_ops s) \<Longrightarrow> failed_op (av_ops s ! i) \<Longrightarrow> av_closed s"
    "list_all published_op (butlast (av_ops s))" "av_gate s = Some pc \<Longrightarrow> gate_ok s pc"
    "av_slot s = Some i \<Longrightarrow> i < length (av_ops s)"
  using assms by (auto simp: adv_good_def list_all_length)

lemma adv_goodI:
  assumes "\<And>i. i < length (av_ops s) \<Longrightarrow> op_wf (av_ops s ! i)" "\<And>i. i < length (av_ops s) \<Longrightarrow> failed_op (av_ops s ! i) \<Longrightarrow> av_closed s"
    and "list_all published_op (butlast (av_ops s))" "\<And>pc. av_gate s = Some pc \<Longrightarrow> gate_ok s pc"
    and "\<And>i. av_slot s = Some i \<Longrightarrow> i < length (av_ops s)"
  shows "adv_good s"
  using assms by (auto simp: adv_good_def list_all_length)

lemma gate_okD:
  assumes "gate_ok s pc" "update_waits pc = Some (i, a)"
  shows "av_slot s = Some i" "i < length (av_ops s)"
    "a \<Longrightarrow> if_task (uo_flight (av_ops s ! i)) = Finished \<Longrightarrow> if_permit (uo_flight (av_ops s ! i))"
  using assms by (auto simp: gate_ok_def)

text \<open>A step that leaves operations and slot alone.\<close>

lemma adv_good_frame:
  assumes "adv_good s" "av_ops s' = av_ops s" "av_slot s' = av_slot s" "av_closed s \<Longrightarrow> av_closed s'"
    and "\<And>pc. av_gate s' = Some pc \<Longrightarrow> av_gate s = Some pc \<or> gate_ok s' pc"
  shows "adv_good s'"
proof (rule adv_goodI)
  show "gate_ok s' pc" if "av_gate s' = Some pc" for pc
  proof (cases "av_gate s = Some pc")
    case True
    then show ?thesis using adv_goodD(4) [OF assms(1) True] assms(2-4) by (auto simp: gate_ok_def)
  qed (use assms(5) [OF that] in blast)
qed (use assms(2-4) adv_goodD [OF assms(1)] in auto)

text \<open>Replacing one operation by one that says at least as much.\<close>

lemma adv_good_update:
  assumes "adv_good s" "i < length (av_ops s)" "av_ops s' = (av_ops s)[i := op']" "av_slot s' = av_slot s \<or> av_slot s' = None"
    and "op_wf op'" "failed_op op' \<Longrightarrow> av_closed s'" "published_op (av_ops s ! i) \<Longrightarrow> published_op op'" "av_closed s \<Longrightarrow> av_closed s'"
    and "\<And>pc. av_gate s' = Some pc \<Longrightarrow> gate_ok s' pc"
  shows "adv_good s'"
proof (rule adv_goodI)
  show "list_all published_op (butlast (av_ops s'))"
    using adv_goodD(3) [OF assms(1)] assms(2,7) unfolding assms(3)
    by (auto simp: list_all_length butlast_list_update nth_list_update nth_butlast)
  show "av_closed s'" if "j < length (av_ops s')" "failed_op (av_ops s' ! j)" for j
    using that assms(2,3,6,8) adv_goodD(2) [OF assms(1), of j] by (auto simp: nth_list_update split: if_splits)
  show "op_wf (av_ops s' ! j)" if "j < length (av_ops s')" for j
    using that assms(2,3,5) adv_goodD(1) [OF assms(1), of j] by (auto simp: nth_list_update)
qed (use assms(3,4,9) adv_goodD(5) [OF assms(1)] in auto)


section \<open>The steps of the gate holder\<close>

text \<open>Polling the operation a holder waits for.\<close>

definition cell_of :: "adv_session \<Rightarrow> nat \<Rightarrow> update_outcome in_flight" where
  "cell_of s i = uo_flight (av_ops s ! i)"

definition taken :: "nat \<Rightarrow> bool \<Rightarrow> adv_session \<Rightarrow> adv_session" where
  "taken i a s = (put_flight i (after_wait a (cell_of s i)) s)\<lparr>av_slot := None\<rparr>"

lemma put_flight_same [simp]: "put_flight i (uo_flight (av_ops s ! i)) s = s"
  by (simp add: put_flight_def)

lemma outcome_cases:
  fixes x :: "update_outcome option"
  obtains "x = None" | cu e where "x = Some (cu, Inl e)" | cu where "x = Some (cu, Inr ())"
proof (cases x)
  case (Some y)
  obtain cu r where "y = (cu, r)" by (cases y) blast
  then show thesis using Some that(2,3) by (cases r) auto
qed (use that(1) in blast)

lemma update_stepE:
  assumes "adv_good s" "update_step s = Some s'"
  obtains (start) u where "av_gate s = Some (UStart u)" "s' = s\<lparr>av_gate := Some (case av_slot s of Some i \<Rightarrow> UPrev i False u | None \<Rightarrow> UCheck u)\<rparr>"
  | (pending) pc i a pc' where "av_gate s = Some pc" "update_waits pc = Some (i, a)" "ready_now a (cell_of s i) = None"
      "s' = s\<lparr>av_gate := Some pc'\<rparr>" "update_waits pc' = Some (i, True)" "\<not> needs_closed pc'" "\<not> slot_free pc'" "\<not> spawning pc'"
  | (failed) pc i a cu e where "av_gate s = Some pc" "update_waits pc = Some (i, a)" "ready_now a (cell_of s i) = Some (cu, Inl e)"
      "s' = (taken i a s)\<lparr>av_gate := Some (UFail e)\<rparr>"
  | (reconciled) i a u cu where "av_gate s = Some (UPrev i a u)" "ready_now a (cell_of s i) = Some (cu, Inr ())"
      "s' = (taken i a s)\<lparr>av_current := Some cu, av_gate := Some (UCheck u)\<rparr>"
  | (closed) u where "av_gate s = Some (UCheck u)" "av_closed s" "s' = update_return (Inl ''advertisement is closed'') s"
  | (checked) u where "av_gate s = Some (UCheck u)" "\<not> av_closed s" "s' = s\<lparr>av_gate := Some (USpawn u)\<rparr>"
  | (unchanged) u where "av_gate s = Some (USpawn u)" "av_current s = Some u" "s' = update_return (Inr False) s"
  | (spawned) u where "av_gate s = Some (USpawn u)" "av_current s \<noteq> Some u"
      "s' = s\<lparr>av_slot := Some (length (av_ops s)), av_ops := av_ops s @ [update_op_new u], av_gate := Some (UWait (length (av_ops s)) False)\<rparr>"
  | (published) i a cu where "av_gate s = Some (UWait i a)" "ready_now a (cell_of s i) = Some (cu, Inr ())"
      "s' = update_return (Inr True) ((taken i a s)\<lparr>av_current := Some cu\<rparr>)"
  | (swap) e where "av_gate s = Some (UFail e)" "\<not> av_closed s" "s' = s\<lparr>av_closed := True, av_closing := True, av_gate := Some (UClosing e)\<rparr>"
  | (error) e where "av_gate s = Some (UFail e) \<or> av_gate s = Some (UClosing e)" "s' = update_return (Inl e) s"
proof -
  obtain pc where pc: "av_gate s = Some pc" using assms(2) by (cases "av_gate s") (auto simp: update_step_def)
  have wait: "flight_wait a (uo_flight (av_ops s ! i)) = (case ready_now a (cell_of s i) of None \<Rightarrow> (Pending, uo_flight (av_ops s ! i))
      | Some r \<Rightarrow> (Ready r, after_wait a (cell_of s i)))" "clear_operation i (av_slot s) = None"
    if "update_waits pc = Some (i, a)" for i a
  proof -
    note g = gate_okD [OF adv_goodD(4) [OF assms(1) pc] that]
    show "clear_operation i (av_slot s) = None" using g(1) by (simp add: clear_operation_def)
    have "cell_ok (uo_flight (av_ops s ! i))" using adv_goodD(1) [OF assms(1) g(2)] by (simp add: op_wf_def)
    then show "flight_wait a (uo_flight (av_ops s ! i)) = (case ready_now a (cell_of s i) of None \<Rightarrow> (Pending, uo_flight (av_ops s ! i))
      | Some r \<Rightarrow> (Ready r, after_wait a (cell_of s i)))" unfolding cell_of_def by (rule flight_wait_eq)
  qed
  show thesis
  proof (cases pc)
    case (UStart u)
    then show thesis using start [of u] assms(2) pc by (simp add: update_step_def)
  next
    case (UPrev i a u)
    have w: "update_waits pc = Some (i, a)" using UPrev by simp
    note w = wait [OF w]
    show thesis
    proof (cases "ready_now a (cell_of s i)" rule: outcome_cases)
      case 1
      then show thesis using pending [OF pc, of i a "UPrev i True u"] UPrev assms(2) pc w by (simp add: update_step_def)
    next
      case (2 cu e)
      then show thesis using failed [OF pc, of i a cu e] UPrev assms(2) pc w by (simp add: update_step_def taken_def)
    next
      case (3 cu)
      then show thesis using reconciled [of i a u cu] UPrev assms(2) pc w by (simp add: update_step_def taken_def)
    qed
  next
    case (UCheck u)
    then show thesis using closed [of u] checked [of u] assms(2) pc by (simp add: update_step_def split: if_splits)
  next
    case (USpawn u)
    then show thesis using unchanged [of u] spawned [of u] assms(2) pc by (simp add: update_step_def Let_def split: if_splits)
  next
    case (UWait i a)
    have w: "update_waits pc = Some (i, a)" using UWait by simp
    note w = wait [OF w]
    show thesis
    proof (cases "ready_now a (cell_of s i)" rule: outcome_cases)
      case 1
      then show thesis using pending [OF pc, of i a "UWait i True"] UWait assms(2) pc w by (simp add: update_step_def)
    next
      case (2 cu e)
      then show thesis using failed [OF pc, of i a cu e] UWait assms(2) pc w by (simp add: update_step_def taken_def)
    next
      case (3 cu)
      then show thesis using published [of i a cu] UWait assms(2) pc w by (simp add: update_step_def taken_def)
    qed
  next
    case (UFail e)
    then show thesis using swap [of e] error [of e] assms(2) pc by (simp add: update_step_def adv_close_swap_def split: if_splits)
  next
    case (UClosing e)
    then show thesis using error [of e] assms(2) pc by (simp add: update_step_def split: if_splits)
  qed (use assms(2) pc in \<open>simp_all add: update_step_def\<close>)
qed


lemma adv_wait_stepE:
  assumes "adv_good s" "adv_wait_step s = Some s'"
  obtains (start) "av_gate s = Some VStart" "s' = s\<lparr>av_gate := Some (case av_slot s of Some i \<Rightarrow> VWait i False | None \<Rightarrow> VClosed)\<rparr>"
  | (pending) i a where "av_gate s = Some (VWait i a)" "ready_now a (cell_of s i) = None" "s' = s\<lparr>av_gate := Some (VWait i True)\<rparr>"
  | (ready) i a r where "av_gate s = Some (VWait i a)" "ready_now a (cell_of s i) = Some r" "s' = (taken i a s)\<lparr>av_gate := Some VClosed\<rparr>"
  | (returned) "av_gate s = Some VClosed" "s' = s\<lparr>av_gate := None\<rparr>"
proof -
  obtain pc where pc: "av_gate s = Some pc" using assms(2) by (cases "av_gate s") (auto simp: adv_wait_step_def)
  show thesis
  proof (cases pc)
    case VStart
    then show thesis using start assms(2) pc by (simp add: adv_wait_step_def)
  next
    case (VWait i a)
    note g = gate_okD [OF adv_goodD(4) [OF assms(1) pc], of i a]
    have cell: "cell_ok (cell_of s i)" using adv_goodD(1) [OF assms(1) g(2)] VWait by (simp add: op_wf_def cell_of_def)
    note w = flight_wait_eq [OF cell, of a]
    show thesis
    proof (cases "ready_now a (cell_of s i)")
      case None
      then show thesis using pending [of i a] VWait assms(2) pc w by (simp add: adv_wait_step_def cell_of_def)
    next
      case (Some r)
      then show thesis
        using ready [of i a r] VWait assms(2) pc w g(1) by (simp add: adv_wait_step_def taken_def clear_operation_def cell_of_def)
    qed
  next
    case VClosed
    then show thesis using returned assms(2) pc by (simp add: adv_wait_step_def)
  qed (use assms(2) pc in \<open>simp_all add: adv_wait_step_def\<close>)
qed

lemma adv_cancelE: "adv_cancel s = Some s' \<Longrightarrow> s' = s\<lparr>av_gate := None\<rparr>"
  by (auto simp: adv_cancel_def split: option.splits update_pc.splits bool.splits)

text \<open>One step of the task of an operation.\<close>

lemma update_task_stepE:
  assumes "update_task_step i s = Some s'"
  obtains (complete) r where "uo_task (av_ops s ! i) = TAnswered r" "s' = s\<lparr>av_ops := (av_ops s)[i := (av_ops s ! i)\<lparr>uo_task := TComplete r\<rparr>]\<rparr>"
      "\<forall>e. r = Inl e \<longrightarrow> av_closed s"
  | (swap) e where "uo_task (av_ops s ! i) = TAnswered (Inl e)" "\<not> av_closed s"
      "s' = s\<lparr>av_closed := True, av_ops := (av_ops s)[i := (av_ops s ! i)\<lparr>uo_task := TClosing e\<rparr>]\<rparr>"
  | (request) e where "uo_task (av_ops s ! i) = TClosing e"
      "s' = s\<lparr>av_requests := Suc (av_requests s), av_ops := (av_ops s)[i := (av_ops s ! i)\<lparr>uo_task := TComplete (Inl e)\<rparr>]\<rparr>"
  | (store) r where "uo_task (av_ops s ! i) = TComplete r" "if_task (uo_flight (av_ops s ! i)) = Running"
      "s' = s\<lparr>av_ops := (av_ops s)[i := (av_ops s ! i)\<lparr>uo_flight := complete_store (uo_update (av_ops s ! i), r) (uo_flight (av_ops s ! i))\<rparr>]\<rparr>"
  | (notify) r where "uo_task (av_ops s ! i) = TComplete r" "if_task (uo_flight (av_ops s ! i)) \<noteq> Running"
      "s' = s\<lparr>av_ops := (av_ops s)[i := (av_ops s ! i)\<lparr>uo_task := TDone, uo_flight := complete_notify (uo_flight (av_ops s ! i))\<rparr>]\<rparr>"
proof -
  have "i < length (av_ops s)" using assms by (auto simp: update_task_step_def Let_def split: if_splits)
  note a = assms [unfolded update_task_step_def Let_def] this
  show thesis
  proof (cases "uo_task (av_ops s ! i)")
    case (TAnswered r)
    then show thesis
      using a complete [of r] swap by (cases r) (auto split: if_splits)
  next
    case (TClosing e)
    then show thesis using a request [of e] by simp
  next
    case (TComplete r)
    then show thesis using a store [of r] notify [of r] by (cases "if_task (uo_flight (av_ops s ! i))") auto
  qed (use a in simp_all)
qed

lemma task_step_index: "update_task_step i s = Some s' \<Longrightarrow> i < length (av_ops s)"
  by (auto simp: update_task_step_def Let_def split: if_splits)

lemma task_answerE:
  assumes "task_answer i r s = Some s'"
  obtains "i < length (av_ops s)" "uo_task (av_ops s ! i) = TCall"
    "s' = s\<lparr>av_ops := (av_ops s)[i := (av_ops s ! i)\<lparr>uo_task := TAnswered r\<rparr>],
        av_published := av_published s @ (case r of Inr _ \<Rightarrow> [uo_update (av_ops s ! i)] | Inl _ \<Rightarrow> [])\<rparr>"
  using assms by (auto simp: task_answer_def split: if_splits)

text \<open>How one operation changes when its task moves.\<close>

lemma op_moves:
  assumes "op_wf op"
  shows "uo_task op = TCall \<Longrightarrow> op_wf (op\<lparr>uo_task := TAnswered r\<rparr>) \<and> \<not> published_op op \<and> \<not> failed_op (op\<lparr>uo_task := TAnswered r\<rparr>)"
    and "uo_task op = TAnswered r \<Longrightarrow> op_wf (op\<lparr>uo_task := TComplete r\<rparr>) \<and> answer (op\<lparr>uo_task := TComplete r\<rparr>) = answer op"
    and "uo_task op = TAnswered (Inl e) \<Longrightarrow> op_wf (op\<lparr>uo_task := TClosing e\<rparr>) \<and> answer (op\<lparr>uo_task := TClosing e\<rparr>) = answer op"
    and "uo_task op = TClosing e \<Longrightarrow> op_wf (op\<lparr>uo_task := TComplete (Inl e)\<rparr>) \<and> answer (op\<lparr>uo_task := TComplete (Inl e)\<rparr>) = answer op"
    and "uo_task op = TComplete r \<Longrightarrow> if_task (uo_flight op) = Running
      \<Longrightarrow> op_wf (op\<lparr>uo_flight := complete_store (uo_update op, r) (uo_flight op)\<rparr>)
        \<and> answer (op\<lparr>uo_flight := complete_store (uo_update op, r) (uo_flight op)\<rparr>) = answer op"
    and "uo_task op = TComplete r \<Longrightarrow> if_task (uo_flight op) \<noteq> Running
      \<Longrightarrow> op_wf (op\<lparr>uo_task := TDone, uo_flight := complete_notify (uo_flight op)\<rparr>)
        \<and> answer (op\<lparr>uo_task := TDone, uo_flight := complete_notify (uo_flight op)\<rparr>) = answer op"
proof -
  have "if_task (uo_flight op) = Stored" if "uo_task op = TComplete r" "if_task (uo_flight op) \<noteq> Running"
    using assms that by (cases "if_task (uo_flight op)") (auto simp: op_wf_def)
  moreover have "\<exists>x. if_result (uo_flight op) = Some x" if "if_task (uo_flight op) = Stored"
    using assms that by (auto simp: op_wf_def cell_ok_def)
  ultimately show "uo_task op = TComplete r \<Longrightarrow> if_task (uo_flight op) \<noteq> Running
      \<Longrightarrow> op_wf (op\<lparr>uo_task := TDone, uo_flight := complete_notify (uo_flight op)\<rparr>)
        \<and> answer (op\<lparr>uo_task := TDone, uo_flight := complete_notify (uo_flight op)\<rparr>) = answer op"
    using assms by (auto simp: op_wf_def answer_def)
qed (use assms in \<open>auto simp: op_wf_def answer_def published_op_def failed_op_def cell_ok_def\<close>)


section \<open>The slot\<close>

lemma taken_simps [simp]:
  "av_slot (taken i a s) = None" "av_closed (taken i a s) = av_closed s" "av_gate (taken i a s) = av_gate s"
  "av_current (taken i a s) = av_current s" "av_closing (taken i a s) = av_closing s" "av_requests (taken i a s) = av_requests s"
  "av_published (taken i a s) = av_published s" "av_returned (taken i a s) = av_returned s"
  "av_ops (taken i a s) = (av_ops s)[i := (av_ops s ! i)\<lparr>uo_flight := after_wait a (cell_of s i)\<rparr>]"
  by (simp_all add: taken_def put_flight_def)

lemma update_return_simps [simp]:
  "av_slot (update_return r s) = av_slot s" "av_closed (update_return r s) = av_closed s" "av_gate (update_return r s) = None"
  "av_current (update_return r s) = av_current s" "av_closing (update_return r s) = av_closing s" "av_requests (update_return r s) = av_requests s"
  "av_published (update_return r s) = av_published s" "av_returned (update_return r s) = av_returned s @ [r]"
  "av_ops (update_return r s) = av_ops s"
  by (simp_all add: update_return_def)

lemma taken_results:
  assumes "av_ops s' = av_ops (taken i a s)"
  shows "adv_results s' = adv_results s"
  using assms map_update_same [of "\<lambda>op. if_result (uo_flight op)" "av_ops s" i]
  by (simp add: adv_results_def map_update cell_of_def)

lemma adv_good_taken:
  assumes "adv_good s" "av_gate s = Some pc" "update_waits pc = Some (i, a)"
    and "av_ops s' = av_ops (taken i a s)" "av_slot s' = None" "av_closed s' = av_closed s"
    and "\<And>pc'. av_gate s' = Some pc' \<Longrightarrow> update_waits pc' = None \<and> \<not> spawning pc' \<and> (needs_closed pc' \<longrightarrow> av_closed s)"
  shows "adv_good s'"
proof -
  note g = gate_okD [OF adv_goodD(4) [OF assms(1,2)] assms(3)]
  show ?thesis
  proof (rule adv_good_update [OF assms(1) g(2)])
    show "av_ops s' = (av_ops s)[i := (av_ops s ! i)\<lparr>uo_flight := after_wait a (uo_flight (av_ops s ! i))\<rparr>]"
      using assms(4) by (simp add: cell_of_def)
    show "gate_ok s' pc'" if "av_gate s' = Some pc'" for pc'
      using assms(7) [OF that] assms(5,6) by (auto simp: gate_ok_def)
  qed (use assms(5,6) adv_goodD(1,2) [OF assms(1) g(2)] in auto)
qed

lemma adv_clear:
  assumes "adv_good s" "av_gate s = Some pc" "update_waits pc = Some (i, a)" "ready_now a (cell_of s i) = Some r"
  shows "slot_step (av_slot s, adv_results s) (None, adv_results s)"
proof -
  note g = gate_okD [OF adv_goodD(4) [OF assms(1,2)] assms(3)]
  have "adv_results s ! i \<noteq> None" using ready_result [OF assms(4)] g(2) by (simp add: adv_results_def cell_of_def)
  then show ?thesis using sl_clear [of i "adv_results s"] g(1,2) by (simp add: adv_results_def)
qed

text \<open>With the slot free and the session open, every operation has been published.\<close>

lemma all_published:
  assumes "adv_good s" "flight_slot_ok (av_slot s, adv_results s)" "av_slot s = None" "\<not> av_closed s"
  shows "list_all published_op (av_ops s)"
  unfolding list_all_length
proof (intro allI impI)
  fix i assume i: "i < length (av_ops s)"
  have "adv_results s ! i \<noteq> None"
  proof
    assume "adv_results s ! i = None"
    then have "av_slot s = Some i" using flight_slot_okD(1) [OF assms(2)] i by (simp add: adv_results_def)
    then show False using assms(3) by simp
  qed
  then obtain x where x: "if_result (uo_flight (av_ops s ! i)) = Some x" using i by (auto simp: adv_results_def)
  note op = op_result [OF adv_goodD(1) [OF assms(1) i] x]
  show "published_op (av_ops s ! i)"
    using op adv_goodD(2) [OF assms(1) i] assms(4) by (cases "snd x") (auto simp: failed_op_def published_op_def)
qed

text \<open>Steps of a task keep the invariant.\<close>

lemma adv_good_task:
  assumes "adv_good s" "i < length (av_ops s)" "av_ops s' = (av_ops s)[i := op']" "av_slot s' = av_slot s" "av_gate s' = av_gate s"
    and "av_closed s \<Longrightarrow> av_closed s'" "op_wf op'" "failed_op op' \<Longrightarrow> av_closed s'" "published_op (av_ops s ! i) \<Longrightarrow> published_op op'"
    and "if_task (uo_flight op') = Finished \<Longrightarrow> if_permit (uo_flight op') \<or> uo_flight op' = uo_flight (av_ops s ! i)"
  shows "adv_good s'"
proof (rule adv_good_update [OF assms(1-3)])
  show "gate_ok s' pc" if "av_gate s' = Some pc" for pc
  proof -
    have ok: "gate_ok s pc" using adv_goodD(4) [OF assms(1)] that assms(5) by simp
    have "list_all published_op (av_ops s')" if "list_all published_op (av_ops s)"
      using that assms(2,9) unfolding assms(3) by (auto simp: list_all_length nth_list_update)
    then show ?thesis using ok assms(2-4,6,10) by (auto simp: gate_ok_def nth_list_update)
  qed
qed (use assms(4-9) in auto)

lemma adv_good_same_answer:
  assumes "adv_good s" "i < length (av_ops s)" "av_ops s' = (av_ops s)[i := op']" "av_slot s' = av_slot s \<and> av_gate s' = av_gate s"
    and "av_closed s \<Longrightarrow> av_closed s'" "op_wf op' \<and> answer op' = answer (av_ops s ! i)" "\<And>e. answer (av_ops s ! i) = Some (Inl e) \<Longrightarrow> av_closed s'"
    and "if_task (uo_flight op') = Finished \<Longrightarrow> if_permit (uo_flight op') \<or> uo_flight op' = uo_flight (av_ops s ! i)"
  shows "adv_good s'"
proof (rule adv_good_task [OF assms(1-3)])
  show "av_closed s'" if "failed_op op'" using that assms(6,7) by (auto simp: failed_op_def)
qed (use assms(4-6,8) in \<open>auto simp: published_op_def\<close>)

lemma failed_answer_closed:
  assumes "adv_good s" "i < length (av_ops s)" "answer (av_ops s ! i) = Some (Inl e)" "\<And>r. uo_task (av_ops s ! i) \<noteq> TAnswered r"
  shows "av_closed s"
  using adv_goodD(2) [OF assms(1,2)] assms(3,4) by (auto simp: failed_op_def)

lemma task_step_good:
  assumes "adv_good s" "update_task_step i s = Some s'"
  shows "adv_good s' \<and> slot_step (av_slot s, adv_results s) (av_slot s', adv_results s')"
proof -
  note i = task_step_index [OF assms(2)]
  note wf = adv_goodD(1) [OF assms(1) i]
  note good = adv_good_same_answer [OF assms(1) i] and closed = failed_answer_closed [OF assms(1) i]
  have same: "adv_results s' = adv_results s"
    if "av_ops s' = (av_ops s)[i := op']" "if_result (uo_flight op') = if_result (uo_flight (av_ops s ! i))" for op'
    using that map_update_same [of "\<lambda>op. if_result (uo_flight op)" "av_ops s" i] by (simp add: adv_results_def map_update)
  from assms(2) show ?thesis
  proof (cases rule: update_task_stepE)
    case (complete r)
    have "adv_good s'"
      by (rule good [OF _ _ _ op_moves(2) [OF wf complete(1)]]) (use complete in \<open>auto simp: answer_def\<close>)
    then show ?thesis using complete(2) same by (simp add: sl_same)
  next
    case (swap e)
    have "adv_good s'"
      by (rule good [OF _ _ _ op_moves(3) [OF wf swap(1)]]) (use swap in auto)
    then show ?thesis using swap(3) same by (simp add: sl_same)
  next
    case (request e)
    have "adv_good s'"
      by (rule good [OF _ _ _ op_moves(4) [OF wf request(1)]]) (use request closed in auto)
    then show ?thesis using request(2) same by (simp add: sl_same)
  next
    case (store r)
    have "adv_good s'"
      by (rule good [OF _ _ _ op_moves(5) [OF wf store(1,2)]]) (use store closed in auto)
    moreover have "adv_results s ! i = None" "i < length (adv_results s)"
      using i wf store(2) by (simp_all add: adv_results_def op_wf_def cell_ok_def)
    ultimately show ?thesis using sl_store [of i "adv_results s"] store(3) by (simp add: adv_results_def map_update)
  next
    case (notify r)
    have "adv_good s'"
      by (rule good [OF _ _ _ op_moves(6) [OF wf notify(1,2)]]) (use notify closed in auto)
    then show ?thesis using notify(3) same by (simp add: sl_same)
  qed
qed


lemma adv_keep:
  assumes "adv_good s" "av_ops s' = av_ops s" "av_slot s' = av_slot s" "av_closed s \<Longrightarrow> av_closed s'"
    and "\<And>pc. av_gate s' = Some pc \<Longrightarrow> av_gate s = Some pc \<or> gate_ok s' pc"
  shows "adv_good s' \<and> slot_step (av_slot s, adv_results s) (av_slot s', adv_results s')"
  using adv_good_frame [OF assms] assms(2,3) by (simp add: adv_results_def sl_same)

lemma gate_pending:
  assumes "adv_good s" "av_gate s = Some pc" "update_waits pc = Some (i, a)" "ready_now a (cell_of s i) = None"
    and "update_waits pc' = Some (i, True)" "needs_closed pc' \<longrightarrow> needs_closed pc" "\<not> slot_free pc'" "\<not> spawning pc'"
  shows "gate_ok (s\<lparr>av_gate := Some pc'\<rparr>) pc'"
proof -
  note ok = adv_goodD(4) [OF assms(1,2)]
  note g = gate_okD [OF ok assms(3)]
  have "cell_ok (cell_of s i)" using adv_goodD(1) [OF assms(1) g(2)] by (simp add: op_wf_def cell_of_def)
  then have "if_task (cell_of s i) \<noteq> Finished" using not_ready [OF _ assms(4)] g(3) by (auto simp: cell_of_def)
  then show ?thesis using assms(5-8) g(1,2) ok by (auto simp: gate_ok_def cell_of_def)
qed

lemma update_step_good:
  assumes "adv_good s" "flight_slot_ok (av_slot s, adv_results s)" "update_step s = Some s'"
  shows "adv_good s' \<and> slot_step (av_slot s, adv_results s) (av_slot s', adv_results s')"
proof -
  note keep = adv_keep [OF assms(1)]
  have take: "adv_good s' \<and> slot_step (av_slot s, adv_results s) (av_slot s', adv_results s')"
    if "av_gate s = Some pc" "update_waits pc = Some (i, a)" "ready_now a (cell_of s i) = Some r" "av_ops s' = av_ops (taken i a s)"
      "av_slot s' = None" "av_closed s' = av_closed s"
      "\<And>pc'. av_gate s' = Some pc' \<Longrightarrow> update_waits pc' = None \<and> \<not> spawning pc' \<and> (needs_closed pc' \<longrightarrow> av_closed s)" for pc i a r
    using adv_good_taken [OF assms(1) that(1,2,4-7)] adv_clear [OF assms(1) that(1-3)] taken_results [OF that(4)] that(5) by simp
  from assms(1,3) show ?thesis
  proof (cases rule: update_stepE)
    case (start u)
    show ?thesis by (rule keep) (use start adv_goodD(5) [OF assms(1)] in \<open>auto simp: gate_ok_def split: option.splits\<close>)
  next
    case (pending pc i a pc')
    show ?thesis
      by (rule keep) (use pending gate_pending [OF assms(1) pending(1-3,5)] in auto)
  next
    case (failed pc i a cu e)
    show ?thesis by (rule take [OF failed(1-3)]) (use failed(4) in auto)
  next
    case (reconciled i a u cu)
    show ?thesis by (rule take [OF reconciled(1) _ reconciled(2)]) (use reconciled(3) in auto)
  next
    case (checked u)
    have "av_slot s = None" using adv_goodD(4) [OF assms(1) checked(1)] by (simp add: gate_ok_def)
    then show ?thesis
      using all_published [OF assms(1,2) _ checked(2)] checked(3) by (intro keep) (auto simp: gate_ok_def)
  next
    case (spawned u)
    have ok: "av_slot s = None" "list_all published_op (av_ops s)" using adv_goodD(4) [OF assms(1) spawned(1)] by (simp_all add: gate_ok_def)
    have "adv_good s'"
      unfolding spawned(3)
      by (rule adv_goodI) (use ok(2) adv_goodD(1,2) [OF assms(1)] in \<open>auto simp: nth_append gate_ok_def less_Suc_eq\<close>)
    moreover have "slot_step (av_slot s, adv_results s) (av_slot s', adv_results s')"
      using sl_start [of "adv_results s"] ok(1) spawned(3) by (simp add: adv_results_def)
    ultimately show ?thesis by blast
  next
    case (published i a cu)
    show ?thesis by (rule take [OF published(1) _ published(2)]) (use published(3) in auto)
  next
    case (closed u)
    show ?thesis by (rule keep) (use closed in simp_all)
  next
    case (unchanged u)
    show ?thesis by (rule keep) (use unchanged in simp_all)
  next
    case (swap e)
    show ?thesis by (rule keep) (use swap in \<open>simp_all add: gate_ok_def\<close>)
  next
    case (error e)
    show ?thesis by (rule keep) (use error in simp_all)
  qed
qed

lemma adv_step_good:
  assumes "adv_good s" "flight_slot_ok (av_slot s, adv_results s)" "adv_step s s'"
  shows "adv_good s' \<and> slot_step (av_slot s, adv_results s) (av_slot s', adv_results s')"
proof -
  note keep = adv_keep [OF assms(1)]
  from assms(3) show ?thesis
  proof cases
    case (ad_enter u)
    show ?thesis by (rule keep) (use ad_enter in \<open>auto simp: update_enter_def gate_ok_def split: if_splits\<close>)
  next
    case ad_update
    then show ?thesis by (rule update_step_good [OF assms(1,2)])
  next
    case ad_swap
    show ?thesis by (rule keep) (use ad_swap in \<open>auto simp: adv_close_swap_def split: if_splits\<close>)
  next
    case ad_request
    show ?thesis by (rule keep) (use ad_request in \<open>auto simp: adv_close_request_def split: if_splits\<close>)
  next
    case ad_wait
    show ?thesis by (rule keep) (use ad_wait in \<open>auto simp: adv_wait_enter_def gate_ok_def split: if_splits\<close>)
  next
    case ad_wait_step
    note cl = adv_goodD(4) [OF assms(1)]
    from assms(1) ad_wait_step show ?thesis
    proof (cases rule: adv_wait_stepE)
      case start
      show ?thesis by (rule keep) (use start cl adv_goodD(5) [OF assms(1)] in \<open>auto simp: gate_ok_def split: option.splits\<close>)
    next
      case (pending i a)
      show ?thesis by (rule keep) (use pending gate_pending [OF assms(1) pending(1) _ pending(2), of "VWait i True"] in auto)
    next
      case (ready i a r)
      have "av_closed s" using cl [OF ready(1)] by (simp add: gate_ok_def)
      then have "adv_good s'" using ready(3) by (intro adv_good_taken [OF assms(1) ready(1)]) auto
      moreover have "slot_step (av_slot s, adv_results s) (None, adv_results s)" by (rule adv_clear [OF assms(1) ready(1) _ ready(2)]) simp
      moreover have "adv_results s' = adv_results s" by (rule taken_results) (simp add: ready(3))
      ultimately show ?thesis using ready(3) by simp
    next
      case returned
      show ?thesis by (rule keep) (use returned in simp_all)
    qed
  next
    case ad_cancel
    show ?thesis by (rule keep) (use adv_cancelE [OF ad_cancel] in simp_all)
  next
    case (ad_answer i r)
    then show ?thesis
    proof (cases rule: task_answerE)
      case 1
      note m = op_moves(1) [OF adv_goodD(1) [OF assms(1) 1(1)] 1(2), of r]
      have "adv_good s'" by (rule adv_good_task [OF assms(1) 1(1)]) (use 1 m in auto)
      moreover have "adv_results s' = adv_results s"
        using 1(3) map_update_same [of "\<lambda>op. if_result (uo_flight op)" "av_ops s" i] by (simp add: adv_results_def map_update)
      ultimately show ?thesis using 1(3) by (simp add: sl_same)
    qed
  next
    case (ad_task i)
    then show ?thesis by (rule task_step_good [OF assms(1)])
  qed
qed

interpretation adv_slot: gated_slot av_slot adv_results adv_step adv_good "\<lambda>s. \<exists>initial. s = adv_from_parts initial"
proof
  show "av_slot s = None \<and> adv_results s = [] \<and> adv_good s" if "\<exists>initial. s = adv_from_parts initial" for s
    using that by (auto simp: adv_from_parts_def adv_results_def adv_good_def)
qed (rule adv_step_good)

lemma adv_reach: "adv_reachable initial s \<Longrightarrow> adv_slot.reach s"
  by (auto simp: adv_reachable_def adv_slot.reach_def)


lemma adv_induct [consumes 1, case_names init step]:
  assumes "adv_reachable initial s" "P (adv_from_parts initial)"
    and "\<And>s s'. adv_good s \<Longrightarrow> flight_slot_ok (av_slot s, adv_results s) \<Longrightarrow> P s \<Longrightarrow> adv_step s s' \<Longrightarrow> P s'"
  shows "P s"
  using assms(1) [unfolded adv_reachable_def]
proof (induction rule: rtranclp_induct)
  case (step y z)
  then show ?case using adv_slot.steps_ok [OF step(1)] assms(3) by blast
qed (rule assms(2))

section \<open>Publication\<close>

definition initial_list :: "advertisement_update option \<Rightarrow> advertisement_update list" where
  "initial_list initial = (case initial of None \<Rightarrow> [] | Some u \<Rightarrow> [u])"

definition last_opt :: "'a list \<Rightarrow> 'a option" where
  "last_opt xs = (if xs = [] then None else Some (last xs))"

definition settled_ops :: "adv_session \<Rightarrow> update_op list" where
  "settled_ops s = (if av_slot s = None then av_ops s else butlast (av_ops s))"

definition pub_inv :: "advertisement_update list \<Rightarrow> adv_session \<Rightarrow> bool" where
  "pub_inv base s \<longleftrightarrow> av_published s = base @ map uo_update (filter published_op (av_ops s))"

definition cur_inv :: "advertisement_update list \<Rightarrow> adv_session \<Rightarrow> bool" where
  "cur_inv base s \<longleftrightarrow> (\<not> av_closed s \<or> (\<exists>u. av_gate s = Some (USpawn u)) \<longrightarrow> av_current s = last_opt (base @ map uo_update (settled_ops s)))"

lemma map_filter_update:
  assumes "i < length xs" "f y = f (xs ! i)" "P y = P (xs ! i)"
  shows "map f (filter P (xs[i := y])) = map f (filter P xs)"
  using assms
proof (induction xs arbitrary: i)
  case (Cons x xs)
  then show ?case by (cases i) auto
qed simp

lemma map_uo_taken [simp]:
  "map uo_update ((av_ops s)[i := (av_ops s ! i)\<lparr>uo_flight := f\<rparr>]) = map uo_update (av_ops s)"
  "map uo_update ((av_ops s)[i := (av_ops s ! i)\<lparr>uo_task := t\<rparr>]) = map uo_update (av_ops s)"
  "map uo_update ((av_ops s)[i := (av_ops s ! i)\<lparr>uo_task := t, uo_flight := f\<rparr>]) = map uo_update (av_ops s)"
  using map_update_same [of uo_update "av_ops s" i] by (simp_all add: map_update)

lemma pub_taken [simp]:
  assumes "i < length (av_ops s)"
  shows "map uo_update (filter published_op ((av_ops s)[i := (av_ops s ! i)\<lparr>uo_flight := after_wait a (cell_of s i)\<rparr>]))
    = map uo_update (filter published_op (av_ops s))"
  using assms by (intro map_filter_update) (simp_all add: cell_of_def)

text \<open>The operation in flight is the last one.\<close>

lemma running_last:
  assumes "adv_good s" "flight_slot_ok (av_slot s, adv_results s)" "i < length (av_ops s)" "if_task (uo_flight (av_ops s ! i)) = Running"
  shows "av_slot s = Some i" "Suc i = length (av_ops s)"
proof -
  have "adv_results s ! i = None" using adv_goodD(1) [OF assms(1,3)] assms(3,4) by (simp add: adv_results_def op_wf_def cell_ok_def)
  then show "av_slot s = Some i" using flight_slot_okD(1) [OF assms(2)] assms(3) by (simp add: adv_results_def)
  then show "Suc i = length (av_ops s)" using flight_slot_okD(2) [OF assms(2)] by (simp add: adv_results_def)
qed

lemma wait_index:
  assumes "adv_good s" "flight_slot_ok (av_slot s, adv_results s)" "av_gate s = Some pc" "update_waits pc = Some (i, a)"
  shows "i < length (av_ops s)" "Suc i = length (av_ops s)" "av_ops s \<noteq> []" "last (av_ops s) = av_ops s ! i"
proof -
  note g = gate_okD [OF adv_goodD(4) [OF assms(1,3)] assms(4)]
  show "i < length (av_ops s)" by (rule g(2))
  show l: "Suc i = length (av_ops s)" using flight_slot_okD(2) [OF assms(2) g(1)] by (simp add: adv_results_def)
  show ne: "av_ops s \<noteq> []" using g(2) by auto
  have "i = length (av_ops s) - 1" using l by simp
  then show "last (av_ops s) = av_ops s ! i" using last_conv_nth [OF ne] by simp
qed

lemma pub_inv_step:
  assumes "adv_good s" "flight_slot_ok (av_slot s, adv_results s)" "pub_inv base s" "adv_step s s'"
  shows "pub_inv base s'"
proof -
  have keep: "pub_inv base s'" if "av_ops s' = av_ops s" "av_published s' = av_published s"
    using that assms(3) by (simp add: pub_inv_def)
  have upd: "pub_inv base s'"
    if "i < length (av_ops s)" "av_ops s' = (av_ops s)[i := op']" "uo_update op' = uo_update (av_ops s ! i)"
      "answer op' = answer (av_ops s ! i)" "av_published s' = av_published s" for i op'
    using that assms(3) map_filter_update [of i "av_ops s" uo_update op' published_op] by (simp add: pub_inv_def published_op_def)
  have take: "pub_inv base s'"
    if "av_gate s = Some pc" "update_waits pc = Some (i, a)" "av_ops s' = av_ops (taken i a s)" "av_published s' = av_published s" for pc i a
    using upd [OF wait_index(1) [OF assms(1,2) that(1,2)], of "(av_ops s ! i)\<lparr>uo_flight := after_wait a (cell_of s i)\<rparr>"] that(3,4)
    by (simp add: cell_of_def)
  from assms(4) show ?thesis
  proof cases
    case ad_update
    from assms(1) this show ?thesis
    proof (cases rule: update_stepE)
      case (failed pc i a cu e)
      then show ?thesis by (intro take [OF failed(1,2)]) simp_all
    next
      case (reconciled i a u cu)
      then show ?thesis by (intro take [OF reconciled(1)]) simp_all
    next
      case (published i a cu)
      then show ?thesis by (intro take [OF published(1)]) simp_all
    next
      case (spawned u)
      then show ?thesis using assms(3) by (simp add: pub_inv_def)
    qed (rule keep; simp)+
  next
    case ad_wait_step
    from assms(1) this show ?thesis
    proof (cases rule: adv_wait_stepE)
      case (ready i a r)
      then show ?thesis by (intro take [OF ready(1)]) simp_all
    qed (rule keep; simp)+
  next
    case (ad_answer i r)
    then show ?thesis
    proof (cases rule: task_answerE)
      case 1
      have l: "Suc i = length (av_ops s)"
        using running_last(2) [OF assms(1,2) 1(1)] adv_goodD(1) [OF assms(1) 1(1)] 1(2) by (simp add: op_wf_def)
      have ops: "av_ops s = butlast (av_ops s) @ [av_ops s ! i]"
      proof -
        have ne: "av_ops s \<noteq> []" and "i = length (av_ops s) - 1" using l by auto
        then show ?thesis using append_butlast_last_id [OF ne] last_conv_nth [OF ne] by simp
      qed
      define B op where "B = butlast (av_ops s)" and "op = av_ops s ! i"
      have e: "av_ops s = B @ [op]" "i = length B" using ops l by (simp_all add: B_def op_def)
      have "av_ops s' = B @ [op\<lparr>uo_task := TAnswered r\<rparr>]" "av_published s' = av_published s @ (case r of Inr _ \<Rightarrow> [uo_update op] | Inl _ \<Rightarrow> [])"
        using 1(3) e by (simp_all split: sum.split)
      moreover have "\<not> published_op op" using 1(2) e by (simp add: published_op_def answer_def)
      moreover have "published_op (op\<lparr>uo_task := TAnswered r\<rparr>) = (r = Inr ())" by (simp add: published_op_def answer_def)
      ultimately show ?thesis using assms(3) e(1) by (cases r) (simp_all add: pub_inv_def)
    qed
  next
    case (ad_task i)
    note i = task_step_index [OF ad_task]
    note m = op_moves [OF adv_goodD(1) [OF assms(1) i]]
    from ad_task show ?thesis
    proof (cases rule: update_task_stepE)
      case (complete r)
      show ?thesis using upd [OF i, of "(av_ops s ! i)\<lparr>uo_task := TComplete r\<rparr>"] m(2) [OF complete(1)] complete(2) by simp
    next
      case (swap e)
      show ?thesis using upd [OF i, of "(av_ops s ! i)\<lparr>uo_task := TClosing e\<rparr>"] m(3) [OF swap(1)] swap(3) by simp
    next
      case (request e)
      show ?thesis using upd [OF i, of "(av_ops s ! i)\<lparr>uo_task := TComplete (Inl e)\<rparr>"] m(4) [OF request(1)] request(2) by simp
    next
      case (store r)
      show ?thesis
        using upd [OF i, of "(av_ops s ! i)\<lparr>uo_flight := complete_store (uo_update (av_ops s ! i), r) (uo_flight (av_ops s ! i))\<rparr>"]
          m(5) [OF store(1,2)] store(3) by simp
    next
      case (notify r)
      show ?thesis
        using upd [OF i, of "(av_ops s ! i)\<lparr>uo_task := TDone, uo_flight := complete_notify (uo_flight (av_ops s ! i))\<rparr>"]
          m(6) [OF notify(1,2)] notify(3) by simp
    qed
  next
    case ad_cancel
    then show ?thesis by (intro keep) (auto dest: adv_cancelE)
  qed (rule keep; auto simp: update_enter_def adv_close_swap_def adv_close_request_def adv_wait_enter_def split: if_splits)+
qed


lemma cur_inv_keep:
  assumes "cur_inv base s" "map uo_update (settled_ops s') = map uo_update (settled_ops s)" "av_current s' = av_current s"
    and "\<not> av_closed s' \<or> (\<exists>u. av_gate s' = Some (USpawn u)) \<Longrightarrow> \<not> av_closed s \<or> (\<exists>u. av_gate s = Some (USpawn u))"
  shows "cur_inv base s'"
  using assms by (auto simp: cur_inv_def)

lemma settled_map:
  assumes "map uo_update (av_ops s') = map uo_update (av_ops s)" "av_slot s' = av_slot s"
  shows "map uo_update (settled_ops s') = map uo_update (settled_ops s)"
  using assms by (simp add: settled_ops_def map_butlast)

text \<open>A result that is there tells what its operation published.\<close>

lemma ready_op:
  assumes "adv_good s" "i < length (av_ops s)" "ready_now a (cell_of s i) = Some (cu, r)"
  shows "cu = uo_update (av_ops s ! i)" "answer (av_ops s ! i) = Some r" "r = Inl e \<Longrightarrow> av_closed s"
proof -
  have "if_result (uo_flight (av_ops s ! i)) = Some (cu, r)" using ready_result [OF assms(3)] by (simp add: cell_of_def)
  note op = op_result [OF adv_goodD(1) [OF assms(1,2)] this]
  show "cu = uo_update (av_ops s ! i)" "answer (av_ops s ! i) = Some r" using op by simp_all
  show "av_closed s" if "r = Inl e" by (rule failed_answer_closed [OF assms(1,2)]) (use op that in auto)
qed

lemma cur_inv_step:
  assumes "adv_good s" "flight_slot_ok (av_slot s, adv_results s)" "cur_inv base s" "adv_step s s'"
  shows "cur_inv base s'"
proof -
  have keep: "cur_inv base s'"
    if "map uo_update (av_ops s') = map uo_update (av_ops s)" "av_slot s' = av_slot s" "av_current s' = av_current s"
      "\<not> av_closed s' \<or> (\<exists>u. av_gate s' = Some (USpawn u)) \<Longrightarrow> \<not> av_closed s \<or> (\<exists>u. av_gate s = Some (USpawn u))"
    by (rule cur_inv_keep [OF assms(3) settled_map [OF that(1,2)] that(3,4)])
  have success: "cur_inv base s'"
    if "av_gate s = Some pc" "update_waits pc = Some (i, a)" "ready_now a (cell_of s i) = Some (cu, Inr ())" "av_current s' = Some cu"
      "av_slot s' = None" "av_ops s' = av_ops (taken i a s)" for pc i a cu
  proof -
    note w = wait_index [OF assms(1,2) that(1,2)]
    have "map uo_update (settled_ops s') = map uo_update (av_ops s)" using that(5,6) by (simp add: settled_ops_def)
    then have "last_opt (base @ map uo_update (settled_ops s')) = Some (uo_update (av_ops s ! i))"
      using w(3,4) by (simp add: last_opt_def last_map)
    then show ?thesis using that(4) ready_op(1) [OF assms(1) w(1) that(3)] by (simp add: cur_inv_def)
  qed
  from assms(4) show ?thesis
  proof cases
    case ad_update
    from assms(1) this show ?thesis
    proof (cases rule: update_stepE)
      case (failed pc i a cu e)
      have "av_closed s" using ready_op(3) [OF assms(1) wait_index(1) [OF assms(1,2) failed(1,2)] failed(3)] by simp
      then show ?thesis using failed(4) by (simp add: cur_inv_def)
    next
      case (reconciled i a u cu)
      then show ?thesis by (intro success [OF reconciled(1) _ reconciled(2)]) simp_all
    next
      case (published i a cu)
      then show ?thesis by (intro success [OF published(1) _ published(2)]) simp_all
    next
      case (spawned u)
      have "av_slot s = None" using adv_goodD(4) [OF assms(1) spawned(1)] by (simp add: gate_ok_def)
      then have "settled_ops s' = settled_ops s" using spawned(3) by (simp add: settled_ops_def)
      then show ?thesis using spawned assms(3) by (auto simp: cur_inv_def)
    qed (rule keep; auto split: option.splits)+
  next
    case ad_wait_step
    have "av_closed s \<and> av_closed s' \<and> (\<forall>u. av_gate s' \<noteq> Some (USpawn u))"
      using assms(1) ad_wait_step
    proof (cases rule: adv_wait_stepE)
      case start
      then show ?thesis using adv_goodD(4) [OF assms(1) start(1)] by (auto simp: gate_ok_def split: option.splits)
    next
      case (pending i a)
      then show ?thesis using adv_goodD(4) [OF assms(1) pending(1)] by (simp add: gate_ok_def)
    next
      case (ready i a r)
      then show ?thesis using adv_goodD(4) [OF assms(1) ready(1)] by (simp add: gate_ok_def)
    next
      case returned
      then show ?thesis using adv_goodD(4) [OF assms(1) returned(1)] by (simp add: gate_ok_def)
    qed
    then show ?thesis by (simp add: cur_inv_def)
  next
    case (ad_answer i r)
    then show ?thesis by (cases rule: task_answerE) (rule keep; auto)
  next
    case (ad_task i)
    then show ?thesis by (cases rule: update_task_stepE) (rule keep; auto)+
  next
    case ad_cancel
    show ?thesis by (rule keep) (use adv_cancelE [OF ad_cancel] in simp_all)
  qed (rule keep; auto simp: update_enter_def adv_close_swap_def adv_close_request_def adv_wait_enter_def split: if_splits)+
qed

lemma reachable_published: "adv_reachable initial s \<Longrightarrow> pub_inv (initial_list initial) s"
proof (induction rule: adv_induct)
  case init
  show ?case by (simp add: pub_inv_def adv_from_parts_def initial_list_def)
qed (rule pub_inv_step)

lemma reachable_current: "adv_reachable initial s \<Longrightarrow> cur_inv (initial_list initial) s"
proof (induction rule: adv_induct)
  case init
  show ?case by (simp add: cur_inv_def adv_from_parts_def initial_list_def settled_ops_def last_opt_def split: option.split)
qed (rule cur_inv_step)


section \<open>Closing\<close>

definition closing_op :: "update_op \<Rightarrow> bool" where
  "closing_op op \<longleftrightarrow> (\<exists>e. uo_task op = TClosing e)"

definition adv_close_inv :: "adv_session \<Rightarrow> bool" where
  "adv_close_inv s \<longleftrightarrow> av_requests s + (if av_closing s then 1 else 0) + length (filter closing_op (av_ops s)) = (if av_closed s then 1 else 0)"

lemma length_filter_update:
  "i < length xs \<Longrightarrow> length (filter P (xs[i := y])) + (if P (xs ! i) then 1 else 0) = length (filter P xs) + (if P y then 1 else 0)"
proof (induction xs arbitrary: i)
  case (Cons x xs)
  then show ?case by (cases i) auto
qed simp

lemma adv_close_keep:
  assumes "adv_close_inv s" "av_requests s' = av_requests s" "av_closing s' = av_closing s" "av_closed s' = av_closed s"
    and "av_ops s' = av_ops s \<or> (\<exists>i op'. i < length (av_ops s) \<and> av_ops s' = (av_ops s)[i := op'] \<and> closing_op op' = closing_op (av_ops s ! i))
      \<or> (\<exists>op. av_ops s' = av_ops s @ [op] \<and> \<not> closing_op op)"
  shows "adv_close_inv s'"
proof -
  have "length (filter closing_op (av_ops s')) = length (filter closing_op (av_ops s))"
    using assms(5)
  proof (elim disjE exE conjE)
    show ?thesis if "i < length (av_ops s)" "av_ops s' = (av_ops s)[i := op']" "closing_op op' = closing_op (av_ops s ! i)" for i op'
      using length_filter_update [OF that(1), of closing_op op'] that(2,3) by (simp split: if_splits)
  qed simp_all
  then show ?thesis using assms(1-4) by (simp add: adv_close_inv_def)
qed

lemma adv_close_step:
  assumes "adv_good s" "flight_slot_ok (av_slot s, adv_results s)" "adv_close_inv s" "adv_step s s'"
  shows "adv_close_inv s'"
proof -
  note keep = adv_close_keep [OF assms(3)]
  have upd: "adv_close_inv s'"
    if "i < length (av_ops s)" "av_ops s' = (av_ops s)[i := op']" "closing_op op' = closing_op (av_ops s ! i)"
      "av_requests s' = av_requests s" "av_closing s' = av_closing s" "av_closed s' = av_closed s" for i op'
    using that by (intro keep) blast+
  have take: "\<exists>j op'. j < length (av_ops s) \<and> av_ops (taken i a s) = (av_ops s)[j := op'] \<and> closing_op op' = closing_op (av_ops s ! j)"
    if "av_gate s = Some pc" "update_waits pc = Some (i, a)" for pc i a
    using wait_index(1) [OF assms(1,2) that]
    by (intro exI [of _ i] exI [of _ "(av_ops s ! i)\<lparr>uo_flight := after_wait a (cell_of s i)\<rparr>"]) (simp add: closing_op_def)
  from assms(4) show ?thesis
  proof cases
    case ad_update
    from assms(1) this show ?thesis
    proof (cases rule: update_stepE)
      case (failed pc i a cu e)
      then show ?thesis using take [OF failed(1,2)] by (intro keep) simp_all
    next
      case (reconciled i a u cu)
      then show ?thesis using take [OF reconciled(1)] by (intro keep) simp_all
    next
      case (published i a cu)
      then show ?thesis using take [OF published(1)] by (intro keep) simp_all
    next
      case (spawned u)
      then show ?thesis by (intro keep) (auto simp: closing_op_def)
    next
      case (swap e)
      then show ?thesis using assms(3) by (simp add: adv_close_inv_def split: if_splits)
    qed (rule keep; simp)+
  next
    case ad_wait_step
    from assms(1) this show ?thesis
    proof (cases rule: adv_wait_stepE)
      case (ready i a r)
      then show ?thesis using take [OF ready(1)] by (intro keep) simp_all
    qed (rule keep; simp)+
  next
    case (ad_answer i r)
    then show ?thesis
    proof (cases rule: task_answerE)
      case 1
      then show ?thesis using upd [OF 1(1), of "(av_ops s ! i)\<lparr>uo_task := TAnswered r\<rparr>"] by (simp add: closing_op_def)
    qed
  next
    case (ad_task i)
    note i = task_step_index [OF ad_task]
    from ad_task show ?thesis
    proof (cases rule: update_task_stepE)
      case (complete r)
      then show ?thesis using upd [OF i, of "(av_ops s ! i)\<lparr>uo_task := TComplete r\<rparr>"] by (simp add: closing_op_def)
    next
      case (store r)
      then show ?thesis
        using upd [OF i, of "(av_ops s ! i)\<lparr>uo_flight := complete_store (uo_update (av_ops s ! i), r) (uo_flight (av_ops s ! i))\<rparr>"]
        by (simp add: closing_op_def)
    next
      case (notify r)
      then show ?thesis
        using upd [OF i, of "(av_ops s ! i)\<lparr>uo_task := TDone, uo_flight := complete_notify (uo_flight (av_ops s ! i))\<rparr>"]
        by (simp add: closing_op_def)
    next
      case (swap e)
      then show ?thesis
        using assms(3) length_filter_update [OF i, of closing_op "(av_ops s ! i)\<lparr>uo_task := TClosing e\<rparr>"]
        by (simp add: adv_close_inv_def closing_op_def split: if_splits)
    next
      case (request e)
      then show ?thesis
        using assms(3) length_filter_update [OF i, of closing_op "(av_ops s ! i)\<lparr>uo_task := TComplete (Inl e)\<rparr>"]
        by (simp add: adv_close_inv_def closing_op_def split: if_splits)
    qed
  next
    case ad_swap
    then show ?thesis using assms(3) by (auto simp: adv_close_inv_def adv_close_swap_def)
  next
    case ad_request
    then show ?thesis using assms(3) by (auto simp: adv_close_inv_def adv_close_request_def split: if_splits)
  next
    case ad_cancel
    show ?thesis by (rule keep) (use adv_cancelE [OF ad_cancel] in simp_all)
  qed (rule keep; auto simp: update_enter_def adv_wait_enter_def split: if_splits)+
qed

lemma reachable_close: "adv_reachable initial s \<Longrightarrow> adv_close_inv s"
proof (induction rule: adv_induct)
  case init
  show ?case by (simp add: adv_close_inv_def adv_from_parts_def)
qed (rule adv_close_step)

section \<open>Properties\<close>

text \<open>Property C25.  \<open>update\<close> tells the truth: when a call reports that it published its update, or that nothing had to be
  published, then that update is the last one the transport has accepted, whatever callers were cancelled
  before; in the second case the transport is not asked again.\<close>

theorem update_reports_publication:
  assumes "adv_reachable initial s" "update_step s = Some s'" "av_returned s' = av_returned s @ [Inr b]"
  shows "\<exists>u. av_published s' \<noteq> [] \<and> last (av_published s') = u
     \<and> (if b then \<exists>i a. av_gate s = Some (UWait i a) \<and> uo_update (av_ops s ! i) = u else av_gate s = Some (USpawn u) \<and> av_ops s' = av_ops s)"
proof -
  have good: "adv_good s" "flight_slot_ok (av_slot s, adv_results s)" using adv_slot.reach_ok [OF adv_reach [OF assms(1)]] by simp_all
  note pub = reachable_published [OF assms(1), unfolded pub_inv_def] and cur = reachable_current [OF assms(1), unfolded cur_inv_def]
  from good(1) assms(2) show ?thesis
  proof (cases rule: update_stepE)
    case (unchanged u)
    have ok: "av_slot s = None" "list_all published_op (av_ops s)" using adv_goodD(4) [OF good(1) unchanged(1)] by (simp_all add: gate_ok_def)
    then have "filter published_op (av_ops s) = av_ops s" by (simp add: list_all_iff)
    then have "last_opt (av_published s) = Some u" using cur unchanged(1,2) ok(1) pub by (simp add: settled_ops_def)
    then show ?thesis using unchanged assms(3) by (auto simp: last_opt_def split: if_splits)
  next
    case (published i a cu)
    note w = wait_index [OF good published(1), of i a, simplified]
    have "published_op (av_ops s ! i)" using ready_op(2) [OF good(1) w(1) published(2)] by (simp add: published_op_def)
    then have "filter published_op (av_ops s) = filter published_op (butlast (av_ops s)) @ [av_ops s ! i]"
      using append_butlast_last_id [OF w(3)] w(4) by (metis filter.simps filter_append)
    then show ?thesis using pub published assms(3) by simp
  qed (use assms(3) in auto)
qed

text \<open>A failed update ends the session: the transport is given no update after one it refused, at most one update is
  with it at a time, once the task of a failed update has acted the session is closed, and the transport is
  asked to close at most once, and exactly once when closing is over.\<close>

theorem failed_update_closes_once:
  assumes "adv_reachable initial s"
  shows "(\<forall>i < length (av_ops s). answer (av_ops s ! i) \<noteq> Some (Inr ()) \<longrightarrow> Suc i = length (av_ops s))
     \<and> (\<forall>i < length (av_ops s). failed_op (av_ops s ! i) \<longrightarrow> av_closed s)
     \<and> av_requests s \<le> 1 \<and> (\<not> av_closed s \<longrightarrow> av_requests s = 0)
     \<and> (av_closed s \<and> \<not> av_closing s \<and> \<not> list_ex closing_op (av_ops s) \<longrightarrow> av_requests s = 1)"
proof -
  have good: "adv_good s" using adv_slot.reach_ok [OF adv_reach [OF assms]] by simp
  have "Suc i = length (av_ops s)" if "i < length (av_ops s)" "answer (av_ops s ! i) \<noteq> Some (Inr ())" for i
  proof (rule ccontr)
    assume "Suc i \<noteq> length (av_ops s)"
    then have "i < length (butlast (av_ops s))" using that(1) by simp
    then have "published_op (av_ops s ! i)" using adv_goodD(3) [OF good] by (auto simp: list_all_length nth_butlast)
    then show False using that(2) by (simp add: published_op_def)
  qed
  moreover have "filter closing_op (av_ops s) = []" if "\<not> list_ex closing_op (av_ops s)" using that by (auto simp: filter_empty_conv list_ex_iff)
  ultimately show ?thesis
    using adv_goodD(2) [OF good] reachable_close [OF assms] by (auto simp: adv_close_inv_def split: if_splits)
qed


definition demo_update :: advertisement_update where
  "demo_update = \<lparr>au_port = 443, au_addrs = [IpV4 10 0 0 7], au_txt = []\<rparr>"

definition demo_adv :: "update_pc \<Rightarrow> adv_session" where
  "demo_adv pc = (adv_from_parts (Some demo_update))\<lparr>av_gate := Some pc\<rparr>"

lemma demo_adv_reachable: "adv_reachable (Some demo_update) (demo_adv (USpawn demo_update))"
proof -
  have "adv_step (adv_from_parts (Some demo_update)) (demo_adv (UStart demo_update))"
    by (rule ad_enter) (simp add: update_enter_def demo_adv_def adv_from_parts_def)
  moreover have "adv_step (demo_adv (UStart demo_update)) (demo_adv (UCheck demo_update))"
    by (rule ad_update) (simp add: update_step_def demo_adv_def adv_from_parts_def)
  moreover have "adv_step (demo_adv (UCheck demo_update)) (demo_adv (USpawn demo_update))"
    by (rule ad_update) (simp add: update_step_def demo_adv_def adv_from_parts_def)
  ultimately show ?thesis unfolding adv_reachable_def by (meson rtranclp.rtrancl_into_rtrancl rtranclp.rtrancl_refl)
qed

theorem update_reports_publication_witness:
  "\<exists>s'. update_step (demo_adv (USpawn demo_update)) = Some s' \<and> av_returned s' = [Inr False] \<and> last (av_published s') = demo_update"
proof -
  let ?s = "demo_adv (USpawn demo_update)"
  have st: "update_step ?s = Some (update_return (Inr False) ?s)" by (simp add: update_step_def demo_adv_def adv_from_parts_def)
  have "av_returned ?s = []" "av_gate ?s = Some (USpawn demo_update)" by (simp_all add: demo_adv_def adv_from_parts_def)
  then show ?thesis using update_reports_publication [OF demo_adv_reachable st, of False] st by auto
qed

text \<open>An update that the transport refuses.\<close>

definition demo_refused :: "update_task \<Rightarrow> adv_session" where
  "demo_refused t = (adv_from_parts None)\<lparr>av_gate := Some (UWait 0 False), av_slot := Some 0,
     av_ops := [(update_op_new demo_update)\<lparr>uo_task := t\<rparr>]\<rparr>"

lemma demo_refused_reachable:
  "adv_reachable None ((demo_refused (TComplete (Inl ''down'')))\<lparr>av_closed := True, av_requests := 1\<rparr>)"
proof -
  let ?b = "adv_from_parts None"
  have "adv_step ?b (?b\<lparr>av_gate := Some (UStart demo_update)\<rparr>)" by (rule ad_enter) (simp add: update_enter_def adv_from_parts_def)
  moreover have "adv_step (?b\<lparr>av_gate := Some (UStart demo_update)\<rparr>) (?b\<lparr>av_gate := Some (UCheck demo_update)\<rparr>)"
    by (rule ad_update) (simp add: update_step_def adv_from_parts_def)
  moreover have "adv_step (?b\<lparr>av_gate := Some (UCheck demo_update)\<rparr>) (?b\<lparr>av_gate := Some (USpawn demo_update)\<rparr>)"
    by (rule ad_update) (simp add: update_step_def adv_from_parts_def)
  moreover have "adv_step (?b\<lparr>av_gate := Some (USpawn demo_update)\<rparr>) (demo_refused TCall)"
    by (rule ad_update) (simp add: update_step_def adv_from_parts_def demo_refused_def update_op_new_def)
  moreover have "adv_step (demo_refused TCall) (demo_refused (TAnswered (Inl ''down'')))"
    by (rule ad_answer [of 0 "Inl ''down''"]) (simp add: task_answer_def demo_refused_def update_op_new_def adv_from_parts_def)
  moreover have "adv_step (demo_refused (TAnswered (Inl ''down''))) ((demo_refused (TClosing ''down''))\<lparr>av_closed := True\<rparr>)"
    by (rule ad_task [of 0]) (simp add: update_task_step_def demo_refused_def update_op_new_def adv_from_parts_def)
  moreover have "adv_step ((demo_refused (TClosing ''down''))\<lparr>av_closed := True\<rparr>)
      ((demo_refused (TComplete (Inl ''down'')))\<lparr>av_closed := True, av_requests := 1\<rparr>)"
    by (rule ad_task [of 0]) (simp add: update_task_step_def demo_refused_def update_op_new_def adv_from_parts_def)
  ultimately show ?thesis unfolding adv_reachable_def by (meson rtranclp.rtrancl_into_rtrancl rtranclp.rtrancl_refl)
qed

theorem failed_update_closes_once_witness:
  "\<exists>s. adv_reachable None s \<and> list_ex failed_op (av_ops s) \<and> av_closed s \<and> av_requests s = 1"
proof -
  let ?s = "(demo_refused (TComplete (Inl ''down'')))\<lparr>av_closed := True, av_requests := 1\<rparr>"
  have f: "0 < length (av_ops ?s)" "failed_op (av_ops ?s ! 0)" "list_ex failed_op (av_ops ?s)" "\<not> list_ex closing_op (av_ops ?s)" "\<not> av_closing ?s"
    by (simp_all add: demo_refused_def failed_op_def answer_def closing_op_def adv_from_parts_def)
  note cl = failed_update_closes_once [OF demo_refused_reachable]
  have "av_closed ?s" using cl f(1,2) by blast
  then show ?thesis using cl f(3-5) demo_refused_reachable by blast
qed

end
