(* ===== verification/Adapter_Input.thy ===== *)
theory Adapter_Input
  imports Ffi_Dispatch Scoped_Lookup Node_Bind Complex_Main
begin

text \<open>
  \<^verbatim>\<open>src/crates/iroh-http-adapter/src/lib.rs\<close>: the checks every language adapter applies to its callers' input, the
  error envelope, and the delivery of a request to the foreign handler.

  A number from JavaScript is a finite rational, an infinity or not a number; every finite \<open>f64\<close> is a rational, and
  the limits compared with are below \<open>2 ^ 53\<close> and therefore exact.  The rendering of such a number and of a
  string as JSON are parameters (\<open>adapter_lib\<close>), as is the transport of a runtime.
\<close>

section \<open>Limits\<close>

definition MAX_HEADER_COUNT :: nat where "MAX_HEADER_COUNT = 100"
definition MAX_HEADER_NAME_LEN :: nat where "MAX_HEADER_NAME_LEN = 256"
definition MAX_HEADER_VALUE_LEN :: nat where "MAX_HEADER_VALUE_LEN = 8192"
definition MAX_TIMEOUT_MS :: nat where "MAX_TIMEOUT_MS = 300000"
definition MAX_SERVE_TIMEOUT_MS :: nat where "MAX_SERVE_TIMEOUT_MS = 86400000"
definition MAX_BODY_BYTES :: nat where "MAX_BODY_BYTES = DEFAULT_MAX_RESPONSE_BODY_BYTES"
definition MAX_RESPONSE_BODY_BYTES :: nat where "MAX_RESPONSE_BODY_BYTES = DEFAULT_MAX_RESPONSE_BODY_BYTES"
definition MAX_TOTAL_CONNECTIONS :: nat where "MAX_TOTAL_CONNECTIONS = 100000"
definition MAX_HEADER_BYTES :: nat where "MAX_HEADER_BYTES = 1048576"
definition MAX_NODE_ID_LEN :: nat where "MAX_NODE_ID_LEN = 128"
definition MAX_URL_LEN :: nat where "MAX_URL_LEN = 8192"
definition MAX_METHOD_LEN :: nat where "MAX_METHOD_LEN = 32"
definition MAX_DIRECT_ADDRS :: nat where "MAX_DIRECT_ADDRS = 32"
definition MAX_DIRECT_ADDR_LEN :: nat where "MAX_DIRECT_ADDR_LEN = 256"

lemmas adapter_limits = MAX_HEADER_COUNT_def MAX_HEADER_NAME_LEN_def MAX_HEADER_VALUE_LEN_def MAX_TIMEOUT_MS_def
  MAX_SERVE_TIMEOUT_MS_def DEFAULT_MAX_RESPONSE_BODY_BYTES_def MAX_BODY_BYTES_def MAX_RESPONSE_BODY_BYTES_def
  MAX_TOTAL_CONNECTIONS_def MAX_HEADER_BYTES_def MAX_NODE_ID_LEN_def MAX_URL_LEN_def MAX_METHOD_LEN_def
  MAX_DIRECT_ADDRS_def MAX_DIRECT_ADDR_LEN_def

section \<open>Errors\<close>

datatype js_number = NaN | Infinite bool | Finite rat

record adapter_lib =
  show_f64 :: "js_number \<Rightarrow> string"
  json_string :: "string \<Rightarrow> string"

datatype adapter_input_error = InvalidNodeId | InvalidUrl
  | InputTooLarge string nat nat \<comment> \<open>field, max, got\<close>
  | InvalidEncoding string
  | InvalidArgument string string

fun error_code_of :: "adapter_input_error \<Rightarrow> string" where
  "error_code_of InvalidNodeId = ''INVALID_NODE_ID''"
| "error_code_of InvalidUrl = ''INVALID_URL''"
| "error_code_of (InputTooLarge _ _ _) = ''INPUT_TOO_LARGE''"
| "error_code_of (InvalidEncoding _) = ''INVALID_ENCODING''"
| "error_code_of (InvalidArgument _ _) = ''INVALID_ARGUMENT''"

fun error_message_of :: "adapter_input_error \<Rightarrow> string" where
  "error_message_of InvalidNodeId = ''invalid node id''"
| "error_message_of InvalidUrl = ''invalid url''"
| "error_message_of (InputTooLarge field mx got) = field @ '' exceeds max size '' @ show_nat mx @ '' (got '' @ show_nat got @ '')''"
| "error_message_of (InvalidEncoding field) = field @ '' contains invalid encoding''"
| "error_message_of (InvalidArgument field reason) = field @ '': '' @ reason"

definition format_error_json :: "adapter_lib \<Rightarrow> string \<Rightarrow> string \<Rightarrow> string" where
  "format_error_json A c msg = CHR ''{'' # CHR 0x22 # ''code'' @ [CHR 0x22, CHR '':'', CHR 0x22] @ c @ [CHR 0x22, CHR '','', CHR 0x22]
     @ ''message'' @ [CHR 0x22, CHR '':''] @ json_string A msg @ ''}''"

definition error_to_json :: "adapter_lib \<Rightarrow> adapter_input_error \<Rightarrow> string" where
  "error_to_json A e = format_error_json A (error_code_of e) (error_message_of e)"

fun core_code_name :: "error_code \<Rightarrow> string" where
  "core_code_name InvalidInput = ''INVALID_INPUT''"
| "core_code_name ConnectionFailed = ''REFUSED''"
| "core_code_name Timeout = ''TIMEOUT''"
| "core_code_name BodyTooLarge = ''BODY_TOO_LARGE''"
| "core_code_name HeaderTooLarge = ''HEADER_TOO_LARGE''"
| "core_code_name PeerRejected = ''PEER_REJECTED''"
| "core_code_name Cancelled = ''CANCELLED''"
| "core_code_name Internal = ''INTERNAL''"

definition core_error_to_json :: "adapter_lib \<Rightarrow> core_error \<Rightarrow> string" where
  "core_error_to_json A e = format_error_json A (core_code_name (code e)) (message e)"

section \<open>Checks\<close>

definition validate_bounded_string :: "string \<Rightarrow> string \<Rightarrow> nat \<Rightarrow> adapter_input_error + unit" where
  "validate_bounded_string field value mx =
     (if value = [] then Inl (InvalidArgument field ''must not be empty'')
      else if mx < length value then Inl (InputTooLarge field mx (length value))
      else if CHR 0x00 \<in> set value then Inl (InvalidEncoding field)
      else Inr ())"

fun header_pairs :: "string list list \<Rightarrow> adapter_input_error + (string \<times> string) list" where
  "header_pairs [] = Inr []"
| "header_pairs (row # rows) = (case row of
       [name, value] \<Rightarrow>
         (case validate_bounded_string ''headerName'' name MAX_HEADER_NAME_LEN of
            Inl e \<Rightarrow> Inl e
          | Inr _ \<Rightarrow> (case validate_bounded_string ''headerValue'' value MAX_HEADER_VALUE_LEN of
               Inl e \<Rightarrow> Inl e
             | Inr _ \<Rightarrow> (case header_pairs rows of Inl e \<Rightarrow> Inl e | Inr ps \<Rightarrow> Inr ((name, value) # ps))))
     | _ \<Rightarrow> Inl (InvalidArgument ''headers'' ''each header must be [name, value]''))"

definition validate_header_rows :: "string list list \<Rightarrow> adapter_input_error + (string \<times> string) list" where
  "validate_header_rows rows = (if MAX_HEADER_COUNT < length rows then Inl (InputTooLarge ''headers'' MAX_HEADER_COUNT (length rows))
     else header_pairs rows)"

definition is_base32_char :: "char \<Rightarrow> bool" where
  "is_base32_char c \<longleftrightarrow> (let n = of_char c :: nat in 97 \<le> n \<and> n \<le> 122 \<or> 50 \<le> n \<and> n \<le> 55)"

text \<open>\<open>str::trim_start\<close> on UTF-8: the encodings of the characters with the property White\_Space.\<close>

definition white_space_bytes :: "nat list list" where
  "white_space_bytes = [[9], [10], [11], [12], [13], [32], [0xC2, 0x85], [0xC2, 0xA0], [0xE1, 0x9A, 0x80]]
     @ map (\<lambda>n. [0xE2, 0x80, 0x80 + n]) [0..<11]
     @ [[0xE2, 0x80, 0xA8], [0xE2, 0x80, 0xA9], [0xE2, 0x80, 0xAF], [0xE2, 0x81, 0x9F], [0xE3, 0x80, 0x80]]"

definition leading_space :: "string \<Rightarrow> nat list option" where
  "leading_space s = find (\<lambda>p. map of_char (take (length p) s) = p) white_space_bytes"

lemma leading_space_positive:
  assumes "leading_space s = Some p"
  shows "0 < length p \<and> length p \<le> length s"
proof -
  have p: "p \<in> set white_space_bytes" "map of_char (take (length p) s) = p"
    using assms by (auto simp: leading_space_def find_Some_iff)
  have "list_all (\<lambda>p. p \<noteq> []) white_space_bytes" by (simp add: white_space_bytes_def list_all_iff)
  moreover have "length (take (length p) s) = length p" using p(2) by (metis length_map)
  ultimately show ?thesis using p(1) by (auto simp: list_all_iff)
qed

function trim_start :: "string \<Rightarrow> string" where
  "trim_start s = (case leading_space s of None \<Rightarrow> s | Some p \<Rightarrow> trim_start (drop (length p) s))"
  by pat_completeness auto
termination
proof (relation "measure length")
  fix s p assume "leading_space s = Some p"
  then show "(drop (length p) s, s) \<in> measure length" 
    using leading_space_positive [of s p] by (simp del: length_greater_0_conv)
qed simp

declare trim_start.simps [simp del]

definition is_ticket :: "string \<Rightarrow> bool" where
  "is_ticket s = (case trim_start s of c # _ \<Rightarrow> c = CHR ''{'' | [] \<Rightarrow> False)"

definition validate_node_id :: "string \<Rightarrow> adapter_input_error + unit" where
  "validate_node_id n = (case validate_bounded_string ''nodeId'' n MAX_NODE_ID_LEN of
       Inl e \<Rightarrow> Inl e
     | Inr _ \<Rightarrow> if is_ticket n then Inr () else if \<not> list_all is_base32_char n then Inl InvalidNodeId else Inr ())"

definition validate_url :: "string \<Rightarrow> adapter_input_error + unit" where
  "validate_url u = validate_bounded_string ''url'' u MAX_URL_LEN"

definition validate_method :: "string \<Rightarrow> adapter_input_error + unit" where
  "validate_method m = validate_bounded_string ''method'' m MAX_METHOD_LEN"

fun check_addrs :: "string list \<Rightarrow> adapter_input_error + unit" where
  "check_addrs [] = Inr ()"
| "check_addrs (a # as) = (case validate_bounded_string ''directAddr'' a MAX_DIRECT_ADDR_LEN of Inl e \<Rightarrow> Inl e | Inr _ \<Rightarrow> check_addrs as)"

definition validate_direct_addrs :: "string list option \<Rightarrow> adapter_input_error + unit" where
  "validate_direct_addrs d = (case d of None \<Rightarrow> Inr ()
     | Some as \<Rightarrow> if MAX_DIRECT_ADDRS < length as then Inl (InputTooLarge ''directAddrs'' MAX_DIRECT_ADDRS (length as)) else check_addrs as)"

text \<open>\<open>safe_f64_to_u64\<close> and \<open>safe_f64_to_usize\<close>, which have the same body.\<close>

definition safe_f64 :: "adapter_lib \<Rightarrow> js_number \<Rightarrow> string \<Rightarrow> nat \<Rightarrow> adapter_input_error + nat" where
  "safe_f64 A v field mx =
     (let negative = Inl (InvalidArgument field (''expected a non-negative finite number, got '' @ show_f64 A v)) in
      case v of
        NaN \<Rightarrow> negative
      | Infinite _ \<Rightarrow> negative
      | Finite q \<Rightarrow> if q < 0 then negative
          else if of_int \<lfloor>q\<rfloor> \<noteq> q then Inl (InvalidArgument field ''must be an integer'')
          else if of_nat mx < q then Inl (InvalidArgument field (''must be <= '' @ show_nat mx))
          else Inr (nat \<lfloor>q\<rfloor>))"

definition safe_f64_to_u64 :: "adapter_lib \<Rightarrow> js_number \<Rightarrow> string \<Rightarrow> nat \<Rightarrow> adapter_input_error + nat" where
  "safe_f64_to_u64 A v field mx = safe_f64 A v field mx"

definition safe_f64_to_usize :: "adapter_lib \<Rightarrow> js_number \<Rightarrow> string \<Rightarrow> nat \<Rightarrow> adapter_input_error + nat" where
  "safe_f64_to_usize A v field mx = safe_f64 A v field mx"

definition show_int :: "int \<Rightarrow> string" where
  "show_int i = (if i < 0 then CHR ''-'' # show_nat (nat (- i)) else show_nat (nat i))"

definition validate_compression_level :: "32 word \<Rightarrow> adapter_input_error + u32" where
  "validate_compression_level level =
     (if sint level < 0 then Inl (InvalidArgument ''compressionLevel'' (''must be non-negative, got '' @ show_int (sint level)))
      else Inr level)"

text \<open>\<open>Option::map(f).transpose()\<close>.\<close>

definition check_opt :: "('a \<Rightarrow> 'e + 'b) \<Rightarrow> 'a option \<Rightarrow> 'e + 'b option" where
  "check_opt f x = (case x of None \<Rightarrow> Inr None | Some v \<Rightarrow> (case f v of Inl e \<Rightarrow> Inl e | Inr w \<Rightarrow> Inr (Some w)))"

text \<open>The question mark operator.\<close>

definition try_then :: "'e + 'a \<Rightarrow> ('a \<Rightarrow> 'e + 'b) \<Rightarrow> 'e + 'b" where
  "try_then r k = (case r of Inl e \<Rightarrow> Inl e | Inr v \<Rightarrow> k v)"

section \<open>Options\<close>

record raw_fetch_options =
  rf_node_id :: string
  rf_url :: string
  rf_method :: string
  rf_direct_addrs :: "string list option"
  rf_headers :: "string list list"
  rf_timeout_ms :: "js_number option"
  rf_max_response_body_bytes :: "js_number option"

record fetch_options =
  fo_node_id :: string
  fo_url :: string
  fo_method :: string
  fo_direct_addrs :: "string list option"
  fo_headers :: "(string \<times> string) list"
  fo_timeout_ms :: "nat option"
  fo_max_response_body_bytes :: "nat option"

definition coerce_fetch_options :: "adapter_lib \<Rightarrow> raw_fetch_options \<Rightarrow> adapter_input_error + fetch_options" where
  "coerce_fetch_options A raw =
     try_then (validate_node_id (rf_node_id raw)) (\<lambda>_.
     try_then (validate_url (rf_url raw)) (\<lambda>_.
     try_then (validate_method (rf_method raw)) (\<lambda>_.
     try_then (validate_direct_addrs (rf_direct_addrs raw)) (\<lambda>_.
     try_then (validate_header_rows (rf_headers raw)) (\<lambda>headers.
     try_then (check_opt (\<lambda>v. safe_f64_to_u64 A v ''timeoutMs'' MAX_TIMEOUT_MS) (rf_timeout_ms raw)) (\<lambda>timeout.
     try_then (check_opt (\<lambda>v. safe_f64_to_usize A v ''maxResponseBodyBytes'' MAX_RESPONSE_BODY_BYTES) (rf_max_response_body_bytes raw)) (\<lambda>body.
       Inr \<lparr>fo_node_id = rf_node_id raw, fo_url = rf_url raw, fo_method = rf_method raw, fo_direct_addrs = rf_direct_addrs raw,
          fo_headers = headers, fo_timeout_ms = timeout, fo_max_response_body_bytes = body\<rparr>)))))))"

record raw_endpoint_options =
  re_idle_timeout_ms :: "js_number option"
  re_pool_idle_timeout_ms :: "js_number option"
  re_handle_ttl_ms :: "js_number option"
  re_sweep_interval_ms :: "js_number option"
  re_max_header_bytes :: "js_number option"
  re_compression_level :: "32 word option"

record endpoint_options =
  eo_idle_timeout_ms :: "nat option"
  eo_pool_idle_timeout_ms :: "nat option"
  eo_handle_ttl_ms :: "nat option"
  eo_sweep_interval_ms :: "nat option"
  eo_max_header_bytes :: "nat option"
  eo_compression_level :: "u32 option"

definition coerce_endpoint_options :: "adapter_lib \<Rightarrow> raw_endpoint_options \<Rightarrow> adapter_input_error + endpoint_options" where
  "coerce_endpoint_options A raw =
     try_then (check_opt (\<lambda>v. safe_f64_to_u64 A v ''idleTimeout'' MAX_TIMEOUT_MS) (re_idle_timeout_ms raw)) (\<lambda>idle.
     try_then (check_opt (\<lambda>v. safe_f64_to_u64 A v ''poolIdleTimeoutMs'' MAX_TIMEOUT_MS) (re_pool_idle_timeout_ms raw)) (\<lambda>pool.
     try_then (check_opt (\<lambda>v. safe_f64_to_u64 A v ''handleTtl'' MAX_TIMEOUT_MS) (re_handle_ttl_ms raw)) (\<lambda>ttl.
     try_then (check_opt (\<lambda>v. safe_f64_to_u64 A v ''sweepInterval'' MAX_TIMEOUT_MS) (re_sweep_interval_ms raw)) (\<lambda>sweep.
     try_then (check_opt (\<lambda>v. safe_f64_to_usize A v ''maxHeaderBytes'' MAX_HEADER_BYTES) (re_max_header_bytes raw)) (\<lambda>header.
     try_then (check_opt validate_compression_level (re_compression_level raw)) (\<lambda>level.
       Inr \<lparr>eo_idle_timeout_ms = idle, eo_pool_idle_timeout_ms = pool, eo_handle_ttl_ms = ttl, eo_sweep_interval_ms = sweep,
          eo_max_header_bytes = header, eo_compression_level = level\<rparr>))))))"

record raw_serve_options =
  rs_request_timeout_ms :: "js_number option"
  rs_request_head_timeout_ms :: "js_number option"
  rs_body_idle_timeout_ms :: "js_number option"
  rs_max_request_body_wire_bytes :: "js_number option"
  rs_max_request_body_decoded_bytes :: "js_number option"
  rs_max_total_connections :: "js_number option"
  rs_drain_timeout_ms :: "js_number option"

record adapter_serve_options =
  ao_request_timeout_ms :: "nat option"
  ao_request_head_timeout_ms :: "nat option"
  ao_body_idle_timeout_ms :: "nat option"
  ao_max_request_body_wire_bytes :: "nat option"
  ao_max_request_body_decoded_bytes :: "nat option"
  ao_max_total_connections :: "nat option"
  ao_drain_timeout_ms :: "nat option"

definition coerce_serve_options :: "adapter_lib \<Rightarrow> raw_serve_options \<Rightarrow> adapter_input_error + adapter_serve_options" where
  "coerce_serve_options A raw =
     try_then (check_opt (\<lambda>v. safe_f64_to_u64 A v ''requestTimeout'' MAX_SERVE_TIMEOUT_MS) (rs_request_timeout_ms raw)) (\<lambda>req.
     try_then (check_opt (\<lambda>v. safe_f64_to_u64 A v ''requestHeadTimeout'' MAX_SERVE_TIMEOUT_MS) (rs_request_head_timeout_ms raw)) (\<lambda>head.
     try_then (check_opt (\<lambda>v. safe_f64_to_u64 A v ''bodyIdleTimeout'' MAX_SERVE_TIMEOUT_MS) (rs_body_idle_timeout_ms raw)) (\<lambda>idle.
     try_then (check_opt (\<lambda>v. safe_f64_to_usize A v ''maxRequestBodyWireBytes'' MAX_BODY_BYTES) (rs_max_request_body_wire_bytes raw)) (\<lambda>wire.
     try_then (check_opt (\<lambda>v. safe_f64_to_usize A v ''maxRequestBodyDecodedBytes'' MAX_BODY_BYTES) (rs_max_request_body_decoded_bytes raw)) (\<lambda>decoded.
     try_then (check_opt (\<lambda>v. safe_f64_to_usize A v ''maxTotalConnections'' MAX_TOTAL_CONNECTIONS) (rs_max_total_connections raw)) (\<lambda>total.
     try_then (check_opt (\<lambda>v. safe_f64_to_u64 A v ''drainTimeout'' MAX_TIMEOUT_MS) (rs_drain_timeout_ms raw)) (\<lambda>drain.
       Inr \<lparr>ao_request_timeout_ms = req, ao_request_head_timeout_ms = head, ao_body_idle_timeout_ms = idle,
          ao_max_request_body_wire_bytes = wire, ao_max_request_body_decoded_bytes = decoded, ao_max_total_connections = total,
          ao_drain_timeout_ms = drain\<rparr>)))))))"

section \<open>Delivering a request\<close>

definition UNDELIVERABLE_STATUS :: u16 where "UNDELIVERABLE_STATUS = 503"
definition UNDELIVERABLE_HEADERS :: "(string \<times> string) list" where "UNDELIVERABLE_HEADERS = [(''content-length'', ''0'')]"

definition reject_undeliverable :: "string \<Rightarrow> response_head" where
  "reject_undeliverable reason = \<lparr>rh_status = UNDELIVERABLE_STATUS, rh_headers = UNDELIVERABLE_HEADERS\<rparr>"

definition send_undeliverable_rejection :: "http_lib \<Rightarrow> u64 \<Rightarrow> string \<Rightarrow> 'c disp_sys \<Rightarrow> (core_error + unit) \<times> 'c disp_sys" where
  "send_undeliverable_rejection lib h reason d =
     respond lib h (rh_status (reject_undeliverable reason)) (rh_headers (reject_undeliverable reason)) d"

record deliverable_request =
  dq_req_handle :: u64
  dq_req_body_handle :: u64
  dq_res_body_handle :: u64
  dq_is_bidi :: bool
  dq_method :: string
  dq_url :: string
  dq_headers :: "string list list"
  dq_remote_node_id :: string

definition from_payload :: "request_payload \<Rightarrow> deliverable_request" where
  "from_payload p = \<lparr>dq_req_handle = rp_req_handle p, dq_req_body_handle = rp_req_body_handle p, dq_res_body_handle = rp_res_body_handle p,
     dq_is_bidi = rp_is_bidi p, dq_method = rp_method p, dq_url = rp_url p,
     dq_headers = map (\<lambda>(k, v). [k, v]) (rp_headers p), dq_remote_node_id = rp_remote_node_id p\<rparr>"

text \<open>The transport of a runtime returns the reason of a failure.\<close>

definition deliver_request :: "http_lib \<Rightarrow> 'c mpsc_ops \<Rightarrow> (deliverable_request \<Rightarrow> string + unit) \<Rightarrow> request_payload \<Rightarrow> 'c disp_sys \<Rightarrow> 'c disp_sys" where
  "deliver_request lib ops transport p d = (let req = from_payload p in
     case transport req of
       Inr _ \<Rightarrow> d
     | Inl reason \<Rightarrow> on_store (\<lambda>s. snd (finish_body ops (dq_res_body_handle req) s))
         (snd (send_undeliverable_rejection lib (dq_req_handle req) reason d)))"

end
