(* ===== verification/Adapter_Props.thy ===== *)
theory Adapter_Props
  imports Adapter_Input Dispatch_Props
begin

text \<open>
  What the adapters guarantee to the core: accepted options are exactly the encodings of well-formed ones, and a
  request that cannot be delivered is answered.
\<close>

section \<open>Accepted input\<close>

definition ok_string :: "nat \<Rightarrow> string \<Rightarrow> bool" where
  "ok_string mx s \<longleftrightarrow> s \<noteq> [] \<and> length s \<le> mx \<and> CHR 0x00 \<notin> set s"

definition ok_node_id :: "string \<Rightarrow> bool" where
  "ok_node_id s \<longleftrightarrow> ok_string MAX_NODE_ID_LEN s \<and> (is_ticket s \<or> list_all is_base32_char s)"

definition ok_header :: "string \<times> string \<Rightarrow> bool" where
  "ok_header kv \<longleftrightarrow> ok_string MAX_HEADER_NAME_LEN (fst kv) \<and> ok_string MAX_HEADER_VALUE_LEN (snd kv)"

definition js_nat :: "nat \<Rightarrow> js_number" where "js_nat n = Finite (of_nat n)"

definition header_row :: "string \<times> string \<Rightarrow> string list" where "header_row kv = [fst kv, snd kv]"

named_theorems accepts

lemma bounded_string_accepts [accepts]: "validate_bounded_string field s mx = Inr u \<longleftrightarrow> ok_string mx s"
  by (auto simp: validate_bounded_string_def ok_string_def)

lemma try_then_accepts [accepts]: "try_then r k = Inr y \<longleftrightarrow> (\<exists>v. r = Inr v \<and> k v = Inr y)"
  by (cases r) (auto simp: try_then_def)

lemma header_row_inj [simp]: "map header_row xs = map header_row ys \<longleftrightarrow> xs = ys"
  by (rule inj_map_eq_map) (auto simp: inj_def header_row_def prod_eq_iff)

lemma header_row_eq: "[n, v] = header_row kv \<longleftrightarrow> kv = (n, v)"
  by (cases kv) (auto simp: header_row_def)

lemma header_pairs_accepts: "header_pairs rows = Inr ps \<longleftrightarrow> rows = map header_row ps \<and> list_all ok_header ps"
proof (induction rows arbitrary: ps)
  case (Cons row rows)
  show ?case
  proof (cases "\<exists>n v. row = [n, v]")
    case True
    then obtain n v where "row = [n, v]" by blast
    then show ?thesis
      using Cons.IH bounded_string_accepts [of "''headerName''" n MAX_HEADER_NAME_LEN "()"]
        bounded_string_accepts [of "''headerValue''" v MAX_HEADER_VALUE_LEN "()"]
      by (cases ps) (auto simp: header_row_eq ok_header_def split: sum.splits)
  next
    case False
    then have "header_pairs (row # rows) = Inl (InvalidArgument ''headers'' ''each header must be [name, value]'')"
      by (auto split: list.splits)
    then show ?thesis using False by (cases ps) (auto simp: header_row_def)
  qed
qed auto

lemma header_rows_accepts [accepts]:
  "validate_header_rows rows = Inr ps \<longleftrightarrow> rows = map header_row ps \<and> list_all ok_header ps \<and> length ps \<le> MAX_HEADER_COUNT"
  by (auto simp: validate_header_rows_def header_pairs_accepts)

lemma node_id_accepts [accepts]: "validate_node_id s = Inr u \<longleftrightarrow> ok_node_id s"
  using bounded_string_accepts [of "''nodeId''" s MAX_NODE_ID_LEN "()"]
  by (auto simp: validate_node_id_def ok_node_id_def split: sum.splits)

lemma check_addrs_accepts: "check_addrs as = Inr u \<longleftrightarrow> list_all (ok_string MAX_DIRECT_ADDR_LEN) as"
proof (induction as)
  case (Cons a as)
  then show ?case
    using bounded_string_accepts [of "''directAddr''" a MAX_DIRECT_ADDR_LEN "()"] by (auto split: sum.splits)
qed simp

lemma direct_addrs_accepts [accepts]:
  "validate_direct_addrs d = Inr u
     \<longleftrightarrow> pred_option (\<lambda>as. length as \<le> MAX_DIRECT_ADDRS \<and> list_all (ok_string MAX_DIRECT_ADDR_LEN) as) d"
  by (auto simp: validate_direct_addrs_def check_addrs_accepts split: option.splits)

lemma safe_f64_accepts: "safe_f64 A v field mx = Inr n \<longleftrightarrow> v = js_nat n \<and> n \<le> mx"
proof (cases v)
  case (Finite q)
  have "of_int \<lfloor>q\<rfloor> = q \<and> 0 \<le> q \<and> q \<le> of_nat mx \<and> n = nat \<lfloor>q\<rfloor> \<longleftrightarrow> q = of_nat n \<and> n \<le> mx"
  proof
    assume a: "of_int \<lfloor>q\<rfloor> = q \<and> 0 \<le> q \<and> q \<le> of_nat mx \<and> n = nat \<lfloor>q\<rfloor>"
    then have "q = of_nat n" by (metis floor_of_nat int_nat_eq of_int_of_nat_eq zero_le_floor)
    moreover from this have "n \<le> mx" using a by (metis of_nat_le_iff)
    ultimately show "q = of_nat n \<and> n \<le> mx" by simp
  qed auto
  then show ?thesis using Finite by (auto simp: safe_f64_def js_nat_def Let_def)
qed (auto simp: safe_f64_def js_nat_def Let_def)

lemma check_opt_accepts: "check_opt f x = Inr y \<longleftrightarrow> rel_option (\<lambda>v w. f v = Inr w) x y"
  by (cases x; cases y) (simp_all add: check_opt_def split: sum.splits)

lemma opt_number_accepts [accepts]:
  "check_opt (\<lambda>v. safe_f64_to_u64 A v field mx) x = Inr y \<longleftrightarrow> x = map_option js_nat y \<and> pred_option (\<lambda>n. n \<le> mx) y"
  "check_opt (\<lambda>v. safe_f64_to_usize A v field mx) x = Inr y \<longleftrightarrow> x = map_option js_nat y \<and> pred_option (\<lambda>n. n \<le> mx) y"
  by (cases x; cases y; simp add: check_opt_accepts safe_f64_to_u64_def safe_f64_to_usize_def safe_f64_accepts)+

lemma opt_level_accepts [accepts]:
  "check_opt validate_compression_level x = Inr y \<longleftrightarrow> x = y \<and> pred_option (\<lambda>l. 0 \<le> sint l) y"
  by (cases x; cases y) (auto simp: check_opt_accepts validate_compression_level_def)

definition ok_fetch_options :: "fetch_options \<Rightarrow> bool" where
  "ok_fetch_options opt \<longleftrightarrow> ok_node_id (fo_node_id opt) \<and> ok_string MAX_URL_LEN (fo_url opt)
     \<and> ok_string MAX_METHOD_LEN (fo_method opt)
     \<and> pred_option (\<lambda>as. length as \<le> MAX_DIRECT_ADDRS \<and> list_all (ok_string MAX_DIRECT_ADDR_LEN) as) (fo_direct_addrs opt)
     \<and> list_all ok_header (fo_headers opt) \<and> length (fo_headers opt) \<le> MAX_HEADER_COUNT
     \<and> pred_option (\<lambda>n. n \<le> MAX_TIMEOUT_MS) (fo_timeout_ms opt)
     \<and> pred_option (\<lambda>n. n \<le> MAX_RESPONSE_BODY_BYTES) (fo_max_response_body_bytes opt)"

definition raw_of_fetch :: "fetch_options \<Rightarrow> raw_fetch_options" where
  "raw_of_fetch opt = \<lparr>rf_node_id = fo_node_id opt, rf_url = fo_url opt, rf_method = fo_method opt,
     rf_direct_addrs = fo_direct_addrs opt, rf_headers = map header_row (fo_headers opt),
     rf_timeout_ms = map_option js_nat (fo_timeout_ms opt),
     rf_max_response_body_bytes = map_option js_nat (fo_max_response_body_bytes opt)\<rparr>"

definition ok_endpoint_options :: "endpoint_options \<Rightarrow> bool" where
  "ok_endpoint_options opt \<longleftrightarrow> (\<forall>x \<in> {eo_idle_timeout_ms opt, eo_pool_idle_timeout_ms opt, eo_handle_ttl_ms opt,
       eo_sweep_interval_ms opt}. pred_option (\<lambda>n. n \<le> MAX_TIMEOUT_MS) x)
     \<and> pred_option (\<lambda>n. n \<le> MAX_HEADER_BYTES) (eo_max_header_bytes opt)
     \<and> pred_option (\<lambda>l. 0 \<le> sint l) (eo_compression_level opt)"

definition raw_of_endpoint :: "endpoint_options \<Rightarrow> raw_endpoint_options" where
  "raw_of_endpoint opt = \<lparr>re_idle_timeout_ms = map_option js_nat (eo_idle_timeout_ms opt),
     re_pool_idle_timeout_ms = map_option js_nat (eo_pool_idle_timeout_ms opt),
     re_handle_ttl_ms = map_option js_nat (eo_handle_ttl_ms opt),
     re_sweep_interval_ms = map_option js_nat (eo_sweep_interval_ms opt),
     re_max_header_bytes = map_option js_nat (eo_max_header_bytes opt), re_compression_level = eo_compression_level opt\<rparr>"

definition ok_serve_options :: "adapter_serve_options \<Rightarrow> bool" where
  "ok_serve_options opt \<longleftrightarrow> (\<forall>x \<in> {ao_request_timeout_ms opt, ao_request_head_timeout_ms opt, ao_body_idle_timeout_ms opt}.
       pred_option (\<lambda>n. n \<le> MAX_SERVE_TIMEOUT_MS) x)
     \<and> (\<forall>x \<in> {ao_max_request_body_wire_bytes opt, ao_max_request_body_decoded_bytes opt}. pred_option (\<lambda>n. n \<le> MAX_BODY_BYTES) x)
     \<and> pred_option (\<lambda>n. n \<le> MAX_TOTAL_CONNECTIONS) (ao_max_total_connections opt)
     \<and> pred_option (\<lambda>n. n \<le> MAX_TIMEOUT_MS) (ao_drain_timeout_ms opt)"

definition raw_of_serve :: "adapter_serve_options \<Rightarrow> raw_serve_options" where
  "raw_of_serve opt = \<lparr>rs_request_timeout_ms = map_option js_nat (ao_request_timeout_ms opt),
     rs_request_head_timeout_ms = map_option js_nat (ao_request_head_timeout_ms opt),
     rs_body_idle_timeout_ms = map_option js_nat (ao_body_idle_timeout_ms opt),
     rs_max_request_body_wire_bytes = map_option js_nat (ao_max_request_body_wire_bytes opt),
     rs_max_request_body_decoded_bytes = map_option js_nat (ao_max_request_body_decoded_bytes opt),
     rs_max_total_connections = map_option js_nat (ao_max_total_connections opt),
     rs_drain_timeout_ms = map_option js_nat (ao_drain_timeout_ms opt)\<rparr>"

text \<open>Property C26.  The adapters' types: the options of a fetch, an endpoint and a server are accepted exactly when
  they are the JavaScript encoding of a well-formed options record, and that record is then the result.  Well-formed
  means: strings are not empty, within their limit and free of NUL; a node id is a ticket or lower-case base32; there
  are at most 100 headers and 32 addresses; every number is an integer within its limit.  Nothing out of range,
  fractional, negative or not a number reaches the core, and nothing well-formed is refused.\<close>

theorem accepted_options_are_well_formed:
  "(coerce_fetch_options A rf = Inr fo \<longleftrightarrow> ok_fetch_options fo \<and> rf = raw_of_fetch fo)
   \<and> (coerce_endpoint_options A re = Inr eo \<longleftrightarrow> ok_endpoint_options eo \<and> re = raw_of_endpoint eo)
   \<and> (coerce_serve_options A rs = Inr so \<longleftrightarrow> ok_serve_options so \<and> rs = raw_of_serve so)"
proof (intro conjI)
  show "coerce_fetch_options A rf = Inr fo \<longleftrightarrow> ok_fetch_options fo \<and> rf = raw_of_fetch fo"
    by (cases rf; cases fo)
      (auto simp: coerce_fetch_options_def validate_url_def validate_method_def accepts ok_fetch_options_def raw_of_fetch_def)
  show "coerce_endpoint_options A re = Inr eo \<longleftrightarrow> ok_endpoint_options eo \<and> re = raw_of_endpoint eo"
    by (cases re; cases eo) (auto simp: coerce_endpoint_options_def accepts ok_endpoint_options_def raw_of_endpoint_def)
  show "coerce_serve_options A rs = Inr so \<longleftrightarrow> ok_serve_options so \<and> rs = raw_of_serve so"
    by (cases rs; cases so) (auto simp: coerce_serve_options_def accepts ok_serve_options_def raw_of_serve_def)
qed

section \<open>Undeliverable requests\<close>

text \<open>The response channel of a registered request is fresh, and the announced payload carries its handles.\<close>

lemma register_fresh_response:
  assumes "register_request L ops head s = Some (Inr (hq, hr, hh, qw, rr), s')"
  shows "\<exists>ch. mp_channel ops (channel_capacity (config s)) = Some ch \<and> rd_pending rr = None
     \<and> cells (mem s') (rd_cell rr) = \<lparr>chan = ch, rx_refs = 1, rx_locked = False, terminal_error = None, cancel_calls = 0\<rparr>"
  using assms
  by (auto simp: register_request_def guard_drop_def guard_commit_def store_make_body_channel_def
      make_body_channel_with_def guard_insert_reader_def insert_reader_def guard_insert_writer_def insert_writer_def
      guard_allocate_req_handle_def allocate_req_handle_def insert_checked_cases Let_def
      split: option.splits prod.splits sum.splits if_splits)

definition response_channel :: "'c mpsc_ops \<Rightarrow> ('c \<Rightarrow> fifo) \<Rightarrow> u64 \<Rightarrow> waiting \<Rightarrow> 'c store \<Rightarrow> bool" where
  "response_channel ops view h w s \<longleftrightarrow> (\<exists>e. slot_get h (writers s) = Some e \<and> wr_cell (timed_value e) = rd_cell (wt_reader w)
       \<and> wr_sending (timed_value e) = None)
     \<and> rd_pending (wt_reader w) = None \<and> \<not> rx_locked (cells (mem s) (rd_cell (wt_reader w)))
     \<and> queue (view (chan (cells (mem s) (rd_cell (wt_reader w))))) = []
     \<and> senders (view (chan (cells (mem s) (rd_cell (wt_reader w))))) = 1"

lemma begin_announces:
  assumes "mpsc ops view" "0 < channel_capacity (config (dsp_store d))"
    "dispatch_begin lib L ops fd req remote d = Some (Inr w, d1)"
  shows "rp_req_handle (last (dsp_callbacks d1)) = wt_req w"
    "response_channel ops view (rp_res_body_handle (last (dsp_callbacks d1))) w (dsp_store d1)"
proof -
  obtain hs hq hr hh qw rr s where r: "register_request L ops (dsp_next d) (dsp_store d) = Some (Inr (hq, hr, hh, qw, rr), s)"
    and d1: "dsp_store d1 = s" "w = \<lparr>wt_req = hh, wt_head = dsp_next d, wt_reader = rr\<rparr>"
      "rp_req_handle (last (dsp_callbacks d1)) = hh" "rp_res_body_handle (last (dsp_callbacks d1)) = hr"
    using assms(3) by (auto simp: dispatch_begin_def Let_def split: option.splits sum.splits)
  show "rp_req_handle (last (dsp_callbacks d1)) = wt_req w" using d1 by simp
  obtain ch where ch: "mp_channel ops (channel_capacity (config (dsp_store d))) = Some ch"
    and c: "rd_pending rr = None" "cells (mem s) (rd_cell rr)
      = \<lparr>chan = ch, rx_refs = 1, rx_locked = False, terminal_error = None, cancel_calls = 0\<rparr>"
    using register_fresh_response [OF r] by blast
  have "view ch = fifo_new (channel_capacity (config (dsp_store d)))"
    using mpsc.channel_law [OF assms(1,2)] ch by auto
  then show "response_channel ops view (rp_res_body_handle (last (dsp_callbacks d1))) w (dsp_store d1)"
    using c register_ok(2) [OF r] d1 by (auto simp: response_channel_def fifo_new_def timed_new_def)
qed

lemma finish_response_channel:
  assumes "mpsc ops view" "response_channel ops view h w s"
  shows "slot_get h (writers (snd (finish_body ops h s))) = None"
    "request_heads (snd (finish_body ops h s)) = request_heads s"
    "fst (poll_frame ops (wt_reader w) (mem (snd (finish_body ops h s)))) = Ready None"
proof -
  let ?i = "rd_cell (wt_reader w)"
  obtain e where e: "slot_get h (writers s) = Some e" "wr_cell (timed_value e) = ?i" "wr_sending (timed_value e) = None"
    and p: "rd_pending (wt_reader w) = None" "\<not> rx_locked (cells (mem s) ?i)"
    and q: "queue (view (chan (cells (mem s) ?i))) = []" "senders (view (chan (cells (mem s) ?i))) = 1"
    using assms(2) by (auto simp: response_channel_def)
  let ?c = "mp_drop_tx ops (chan (cells (mem s) ?i))"
  have m: "mem (snd (finish_body ops h s)) = upd_cell ?i (\<lambda>c. c\<lparr>chan := mp_drop_tx ops (chan c)\<rparr>) (mem s)"
    using e by (simp add: finish_body_def slot_remove_def writer_drop_def tx_drop_def)
  have "fst (mp_try_recv ops ?c) = RecvDisconnected"
    using mpsc.try_recv_law(1) [OF assms(1), of ?c] mpsc.drop_tx_law [OF assms(1)] q by (simp add: fifo_try_recv_def)
  then show "fst (poll_frame ops (wt_reader w) (mem (snd (finish_body ops h s)))) = Ready None"
    using p m by (auto simp: poll_frame_def Let_def split: prod.splits try_recv_result.splits)
  show "slot_get h (writers (snd (finish_body ops h s))) = None"
    using e slot_get_remove [of h h "writers s"]
    by (auto simp: finish_body_def slot_remove_def)
  show "request_heads (snd (finish_body ops h s)) = request_heads s"
    using e by (simp add: finish_body_def slot_remove_def)
qed

text \<open>A request that cannot be handed to the foreign handler is not left hanging: in every reachable
  state, when the transport of the runtime refuses the announced request, the waiting dispatch call returns 503 with a
  content length of zero, the body of that response ends at its first poll, and both the request's handle and
  its response-body handle are gone, so that nothing of it remains to be answered or swept.\<close>

theorem undeliverable_request_is_answered:
  assumes "mpsc ops view" and "0 < channel_capacity (config (dsp_store d))" and "disp_reachable lib L ops d"
    and "dispatch_begin lib L ops fd req remote d = Some (Inr w, d1)" and "p = last (dsp_callbacks d1)"
    and "transport (from_payload p) = Inl reason"
    and "status_valid lib 503" and "name_valid lib ''content-length''" and "value_valid lib ''0''"
  shows "\<exists>d2. dispatch lib L ops fd req [deliver_request lib ops transport p] remote d
       = Some (Some \<lparr>rs_status = 503, rs_headers = [(''content-length'', ''0'')], rs_body = ReaderBody (wt_reader w)\<rparr>, d2)
     \<and> fst (poll_frame ops (wt_reader w) (mem (dsp_store d2))) = Ready None
     \<and> slot_get (rp_req_handle p) (request_heads (dsp_store d2)) = None
     \<and> slot_get (rp_res_body_handle p) (writers (dsp_store d2)) = None"
proof -
  have a: "awaiting w d1" by (rule begin_awaiting [OF disp_reachable_ok [OF assms(3)] assms(4)])
  have rc: "response_channel ops view (rp_res_body_handle p) w (snd (take_req_sender (wt_req w) (dsp_store d1)))"
    and rq: "rp_req_handle p = wt_req w"
    using begin_announces [OF assms(1,2,4)] assms(5)
    by (auto simp: response_channel_def take_req_sender_def split: prod.splits option.splits)
  note re = awaiting_respond [OF a assms(7), of "[(''content-length'', ''0'')]"]
  let ?h = "\<lparr>rh_status = 503, rh_headers = [(''content-length'', ''0'')]\<rparr>"
  let ?s = "snd (finish_body ops (rp_res_body_handle p) (snd (take_req_sender (wt_req w) (dsp_store d1))))"
  have d: "deliver_request lib ops transport p d1 = d1\<lparr>dsp_store := ?s, dsp_heads := (wt_head w, ?h) # dsp_heads d1\<rparr>"
    using re assms(6,8,9) rq
    by (simp add: deliver_request_def send_undeliverable_rejection_def reject_undeliverable_def UNDELIVERABLE_STATUS_def
        UNDELIVERABLE_HEADERS_def from_payload_def on_store_def)
  have "head_builds lib ?h" using assms(7-9) by (simp add: head_builds_def)
  then have "dispatch lib L ops fd req [deliver_request lib ops transport p] remote d
       = Some (Some \<lparr>rs_status = 503, rs_headers = [(''content-length'', ''0'')], rs_body = ReaderBody (wt_reader w)\<rparr>,
          req_head_guard_drop w (d1\<lparr>dsp_store := ?s, dsp_heads := (wt_head w, ?h) # dsp_heads d1\<rparr>))"
    using assms(4) by (simp add: dispatch_def awaiting_alive [OF a] d head_poll_def [of _ _ "_\<lparr>dsp_store := _, dsp_heads := _\<rparr>"]
        dispatch_finish_def)
  moreover have "writers (snd (take_req_sender h s)) = writers s" "mem (snd (take_req_sender h s)) = mem s" for h and s :: "'a store"
    by (auto simp: take_req_sender_def split: prod.splits option.splits)
  ultimately show ?thesis
    using finish_response_channel [OF assms(1) rc] rq by (simp add: req_head_guard_drop_def take_req_gone)
qed

theorem undeliverable_request_is_answered_witness:
  "\<exists>w d1 d2. dispatch_begin demo_http counting_lib fifo_ops (dispatcher_of ''me'' 0 None) demo_incoming ''alice'' (demo_dispatch 4)
       = Some (Inr w, d1)
     \<and> dispatch demo_http counting_lib fifo_ops (dispatcher_of ''me'' 0 None) demo_incoming
         [deliver_request demo_http fifo_ops (\<lambda>_. Inl ''queue full'') (last (dsp_callbacks d1))] ''alice'' (demo_dispatch 4)
       = Some (Some \<lparr>rs_status = 503, rs_headers = [(''content-length'', ''0'')], rs_body = ReaderBody (wt_reader w)\<rparr>, d2)
     \<and> fst (poll_frame fifo_ops (wt_reader w) (mem (dsp_store d2))) = Ready None"
proof -
  obtain w d1 where r: "dispatch_begin demo_http counting_lib fifo_ops (dispatcher_of ''me'' 0 None) demo_incoming ''alice''
      (demo_dispatch 4) = Some (Inr w, d1)"
    by (simp add: demo_dispatch_defs)
  have "disp_reachable demo_http counting_lib fifo_ops (demo_dispatch 4)"
    unfolding demo_dispatch_def by (rule dr_start) (simp add: store_new_def)
  moreover have "0 < channel_capacity (config (dsp_store (demo_dispatch 4)))" by (simp add: demo_dispatch_defs)
  moreover have "status_valid demo_http 503" "name_valid demo_http ''content-length''" "value_valid demo_http ''0''"
    by (simp_all add: demo_http_def)
  ultimately show ?thesis
    using undeliverable_request_is_answered [OF fifo.mpsc_axioms _ _ r refl, of "\<lambda>_. Inl ''queue full''"] r by blast
qed

end
