(* ===== verification/Ffi_Session.thy ===== *)
theory Ffi_Session
  imports Ffi_Fetch Node_Bind
begin

text \<open>
  \<^verbatim>\<open>src/crates/iroh-http-core/src/ffi/session.rs\<close>: raw sessions.  A session is a handle of the endpoint's store that
  names a transport connection; its streams are body channels with a pump at the transport's side.

  Connections and streams of the transport are named by numbers.  What the transport answers is an argument of
  each operation, as is \<open>env\<close>, what other tasks do to the system while the operation waits for that answer.  The
  state records the closes asked of the transport and the spawned pumps.
\<close>

section \<open>Transport\<close>

datatype connection_error = CeVersionMismatch | CeTransportError string | CeConnectionClosed string
  | CeApplicationClosed u64 bytes | CeReset | CeTimedOut | CeLocallyClosed | CeCidsExhausted

record sess_lib =
  conn_error_text :: "connection_error \<Rightarrow> string"
  from_utf8_lossy :: "bytes \<Rightarrow> string"
  debug_bytes :: "bytes \<Rightarrow> string"

datatype datagram_error = DgTooLarge | DgOther string

fun is_connection_closed :: "connection_error \<Rightarrow> bool" where
  "is_connection_closed (CeApplicationClosed _ _) = True"
| "is_connection_closed (CeConnectionClosed _) = True"
| "is_connection_closed CeReset = True"
| "is_connection_closed CeTimedOut = True"
| "is_connection_closed CeLocallyClosed = True"
| "is_connection_closed _ = False"

record close_info =
  close_code :: u64
  close_reason :: string

definition parse_connection_error :: "sess_lib \<Rightarrow> connection_error \<Rightarrow> u64 \<times> string" where
  "parse_connection_error lib e = (case e of
       CeApplicationClosed c r \<Rightarrow> (c, from_utf8_lossy lib r)
     | _ \<Rightarrow> (0, conn_error_text lib e))"

record 'c sess_sys =
  sy_store :: "'c store"
  sy_closes :: "(nat \<times> u64 \<times> bytes) list"
  sy_recv_pumps :: "(nat \<times> body_writer) list"
  sy_send_pumps :: "(nat \<times> body_reader) list"

section \<open>Opening\<close>

definition session_addr :: "parsed_node_addr \<Rightarrow> sock_addr list option \<Rightarrow> endpoint_addr" where
  "session_addr p direct = \<lparr>ea_id = pna_node_id p, ea_relays = pna_relay_urls p,
     ea_ips = pna_direct_addrs p @ (case direct of None \<Rightarrow> [] | Some ds \<Rightarrow> ds)\<rparr>"

definition keep_session :: "slot_lib \<Rightarrow> nat \<Rightarrow> 'c sess_sys \<Rightarrow> (core_error + u64) \<times> 'c sess_sys" where
  "keep_session L conn y = (case insert_session L conn (sy_store y) of (r, s) \<Rightarrow> (r, y\<lparr>sy_store := s\<rparr>))"

definition session_connect :: "addr_lib \<Rightarrow> slot_lib \<Rightarrow> string \<Rightarrow> sock_addr list option
    \<Rightarrow> (endpoint_addr \<Rightarrow> bytes \<Rightarrow> string + nat) \<Rightarrow> ('c sess_sys \<Rightarrow> 'c sess_sys) \<Rightarrow> 'c sess_sys
    \<Rightarrow> (core_error + u64) \<times> 'c sess_sys" where
  "session_connect A L remote direct dial env y = (case parse_node_addr A remote of
       Inl e \<Rightarrow> (Inl e, y)
     | Inr p \<Rightarrow> (case dial (session_addr p direct) ALPN_DUPLEX of
          Inl e \<Rightarrow> (Inl (connection_failed (''connect session: '' @ e)), env y)
        | Inr conn \<Rightarrow> keep_session L conn (env y)))"

text \<open>The incoming connection, \<open>None\<close> when the endpoint shuts down: its handshake fails or gives a connection with the
  negotiated protocol.\<close>

definition session_accept :: "sess_lib \<Rightarrow> slot_lib \<Rightarrow> (string + nat \<times> bytes) option \<Rightarrow> ('c sess_sys \<Rightarrow> 'c sess_sys)
    \<Rightarrow> 'c sess_sys \<Rightarrow> (core_error + u64 option) \<times> 'c sess_sys" where
  "session_accept lib L incoming env y = (case incoming of
       None \<Rightarrow> (Inr None, env y)
     | Some (Inl e) \<Rightarrow> (Inl (connection_failed (''accept session: '' @ e)), env y)
     | Some (Inr (conn, alpn)) \<Rightarrow>
         if alpn \<noteq> ALPN_DUPLEX
         then (Inl (connection_failed (''accept session: unexpected ALPN '' @ debug_bytes lib alpn)),
               (env y)\<lparr>sy_closes := sy_closes (env y) @ [(conn, 0, str_to_bytes ''unexpected ALPN'')]\<rparr>)
         else (case keep_session L conn (env y) of (r, y') \<Rightarrow> (map_sum id Some r, y')))"

definition session_conn :: "u64 \<Rightarrow> 'c sess_sys \<Rightarrow> core_error + nat" where
  "session_conn h y = (case lookup_session h (sy_store y) of None \<Rightarrow> Inl (invalid_handle h) | Some c \<Rightarrow> Inr c)"

definition session_remote_id :: "(nat \<Rightarrow> bytes) \<Rightarrow> u64 \<Rightarrow> 'c sess_sys \<Rightarrow> core_error + bytes" where
  "session_remote_id remote_id h y = map_sum id remote_id (session_conn h y)"

section \<open>Streams\<close>

text \<open>\<open>None\<close> is the panic of the channel constructor.\<close>

definition wrap_bidi_stream :: "slot_lib \<Rightarrow> 'c mpsc_ops \<Rightarrow> nat \<Rightarrow> nat \<Rightarrow> 'c sess_sys
    \<Rightarrow> ((core_error + ffi_duplex_stream) \<times> 'c sess_sys) option" where
  "wrap_bidi_stream L ops send recv y =
     (case store_make_body_channel ops (sy_store y) of None \<Rightarrow> None | Some (recv_w, recv_r, s1) \<Rightarrow>
       (case guard_insert_reader L ops recv_r (guard_new, s1) of
          (Inl e, g, s2) \<Rightarrow> Some (Inl e, y\<lparr>sy_store := guard_drop ops g (on_mem (writer_drop ops recv_w) s2)\<rparr>)
        | (Inr hr, g, s2) \<Rightarrow>
          (let y2 = y\<lparr>sy_store := s2, sy_recv_pumps := sy_recv_pumps y @ [(recv, recv_w)]\<rparr> in
           case store_make_body_channel ops s2 of None \<Rightarrow> None | Some (send_w, send_r, s3) \<Rightarrow>
            (case guard_insert_writer L ops send_w (g, s3) of
               (Inl e, g, s4) \<Rightarrow> Some (Inl e, y2\<lparr>sy_store := guard_drop ops g (on_mem (reader_drop ops send_r) s4)\<rparr>)
             | (Inr hw, g, s4) \<Rightarrow> Some (Inr \<lparr>read_handle = hr, write_handle = hw\<rparr>,
                  y2\<lparr>sy_store := guard_drop ops (guard_commit g) s4, sy_send_pumps := sy_send_pumps y @ [(send, send_r)]\<rparr>)))))"

definition create_bidi_stream :: "slot_lib \<Rightarrow> 'c mpsc_ops \<Rightarrow> u64 \<Rightarrow> (nat \<Rightarrow> string + nat \<times> nat)
    \<Rightarrow> ('c sess_sys \<Rightarrow> 'c sess_sys) \<Rightarrow> 'c sess_sys \<Rightarrow> ((core_error + ffi_duplex_stream) \<times> 'c sess_sys) option" where
  "create_bidi_stream L ops h open_bi env y = (case session_conn h y of
       Inl e \<Rightarrow> Some (Inl e, y)
     | Inr conn \<Rightarrow> (case open_bi conn of
          Inl e \<Rightarrow> Some (Inl (connection_failed (''open_bi: '' @ e)), env y)
        | Inr (send, recv) \<Rightarrow> wrap_bidi_stream L ops send recv (env y)))"

definition next_bidi_stream :: "sess_lib \<Rightarrow> slot_lib \<Rightarrow> 'c mpsc_ops \<Rightarrow> u64 \<Rightarrow> (nat \<Rightarrow> connection_error + nat \<times> nat)
    \<Rightarrow> ('c sess_sys \<Rightarrow> 'c sess_sys) \<Rightarrow> 'c sess_sys \<Rightarrow> ((core_error + ffi_duplex_stream option) \<times> 'c sess_sys) option" where
  "next_bidi_stream lib L ops h accept_bi env y = (case session_conn h y of
       Inl e \<Rightarrow> Some (Inl e, y)
     | Inr conn \<Rightarrow> (case accept_bi conn of
          Inr (send, recv) \<Rightarrow> map_option (\<lambda>(r, y'). (map_sum id Some r, y')) (wrap_bidi_stream L ops send recv (env y))
        | Inl e \<Rightarrow> Some (if is_connection_closed e then Inr None
             else Inl (connection_failed (''accept_bi: '' @ conn_error_text lib e)), env y)))"

definition create_uni_stream :: "slot_lib \<Rightarrow> 'c mpsc_ops \<Rightarrow> u64 \<Rightarrow> (nat \<Rightarrow> string + nat)
    \<Rightarrow> ('c sess_sys \<Rightarrow> 'c sess_sys) \<Rightarrow> 'c sess_sys \<Rightarrow> ((core_error + u64) \<times> 'c sess_sys) option" where
  "create_uni_stream L ops h open_uni env y = (case session_conn h y of
       Inl e \<Rightarrow> Some (Inl e, y)
     | Inr conn \<Rightarrow> (case open_uni conn of
          Inl e \<Rightarrow> Some (Inl (connection_failed (''open_uni: '' @ e)), env y)
        | Inr send \<Rightarrow> (let y1 = env y in
            case store_make_body_channel ops (sy_store y1) of None \<Rightarrow> None | Some (w, r, s1) \<Rightarrow>
              (case insert_writer L ops w s1 of
                 (Inl e, s2) \<Rightarrow> Some (Inl e, y1\<lparr>sy_store := on_mem (reader_drop ops r) s2\<rparr>)
               | (Inr hw, s2) \<Rightarrow> Some (Inr hw, y1\<lparr>sy_store := s2, sy_send_pumps := sy_send_pumps y1 @ [(send, r)]\<rparr>)))))"

definition next_uni_stream :: "sess_lib \<Rightarrow> slot_lib \<Rightarrow> 'c mpsc_ops \<Rightarrow> u64 \<Rightarrow> (nat \<Rightarrow> connection_error + nat)
    \<Rightarrow> ('c sess_sys \<Rightarrow> 'c sess_sys) \<Rightarrow> 'c sess_sys \<Rightarrow> ((core_error + u64 option) \<times> 'c sess_sys) option" where
  "next_uni_stream lib L ops h accept_uni env y = (case session_conn h y of
       Inl e \<Rightarrow> Some (Inl e, y)
     | Inr conn \<Rightarrow> (case accept_uni conn of
          Inr recv \<Rightarrow> (let y1 = env y in
            case store_make_body_channel ops (sy_store y1) of None \<Rightarrow> None | Some (w, r, s1) \<Rightarrow>
              (case insert_reader L ops r s1 of
                 (Inl e, s2) \<Rightarrow> Some (Inl e, y1\<lparr>sy_store := on_mem (writer_drop ops w) s2\<rparr>)
               | (Inr hr, s2) \<Rightarrow> Some (Inr (Some hr), y1\<lparr>sy_store := s2, sy_recv_pumps := sy_recv_pumps y1 @ [(recv, w)]\<rparr>)))
        | Inl e \<Rightarrow> Some (if is_connection_closed e then Inr None
             else Inl (connection_failed (''accept_uni: '' @ conn_error_text lib e)), env y)))"

section \<open>Closing\<close>

definition VARINT_MAX :: nat where "VARINT_MAX = 2 ^ 62 - 1"

definition session_close :: "u64 \<Rightarrow> u64 \<Rightarrow> string \<Rightarrow> 'c sess_sys \<Rightarrow> (core_error + unit) \<times> 'c sess_sys" where
  "session_close h c reason y = (case session_conn h y of
       Inl e \<Rightarrow> (Inl e, y)
     | Inr conn \<Rightarrow>
         if VARINT_MAX < unat c
         then (Inl (invalid_input (''close_code '' @ show_nat (unat c) @ '' exceeds QUIC VarInt max (2^62 - 1)'')), y)
         else (Inr (), y\<lparr>sy_closes := sy_closes y @ [(conn, c, str_to_bytes reason)]\<rparr>))"

definition session_ready :: "u64 \<Rightarrow> 'c sess_sys \<Rightarrow> core_error + unit" where
  "session_ready h y = map_sum id (\<lambda>_. ()) (session_conn h y)"

definition session_closed :: "sess_lib \<Rightarrow> u64 \<Rightarrow> (nat \<Rightarrow> connection_error) \<Rightarrow> ('c sess_sys \<Rightarrow> 'c sess_sys) \<Rightarrow> 'c sess_sys
    \<Rightarrow> (core_error + close_info) \<times> 'c sess_sys" where
  "session_closed lib h closed env y = (case session_conn h y of
       Inl _ \<Rightarrow> (Inr \<lparr>close_code = 0, close_reason = []\<rparr>, y)
     | Inr conn \<Rightarrow> (let y1 = env y; (c, r) = parse_connection_error lib (closed conn) in
         (Inr \<lparr>close_code = c, close_reason = r\<rparr>, y1\<lparr>sy_store := snd (remove_session h (sy_store y1))\<rparr>)))"

section \<open>Datagrams\<close>

definition session_send_datagram :: "u64 \<Rightarrow> (nat \<Rightarrow> bytes \<Rightarrow> datagram_error + unit) \<Rightarrow> bytes \<Rightarrow> 'c sess_sys \<Rightarrow> core_error + unit" where
  "session_send_datagram h send d y = (case session_conn h y of
       Inl e \<Rightarrow> Inl e
     | Inr conn \<Rightarrow> (case send conn d of
          Inr _ \<Rightarrow> Inr ()
        | Inl DgTooLarge \<Rightarrow> Inl (body_too_large ''datagram exceeds path MTU; check Session::max_datagram_size()'')
        | Inl (DgOther t) \<Rightarrow> Inl (internal (''send_datagram: '' @ t))))"

definition session_recv_datagram :: "sess_lib \<Rightarrow> u64 \<Rightarrow> (nat \<Rightarrow> connection_error + bytes) \<Rightarrow> 'c sess_sys
    \<Rightarrow> core_error + bytes option" where
  "session_recv_datagram lib h read y = (case session_conn h y of
       Inl e \<Rightarrow> Inl e
     | Inr conn \<Rightarrow> (case read conn of
          Inr d \<Rightarrow> Inr (Some d)
        | Inl e \<Rightarrow> if is_connection_closed e then Inr None
            else Inl (connection_failed (''recv_datagram: '' @ conn_error_text lib e))))"

definition session_max_datagram_size :: "u64 \<Rightarrow> (nat \<Rightarrow> nat option) \<Rightarrow> 'c sess_sys \<Rightarrow> core_error + nat option" where
  "session_max_datagram_size h max_size y = map_sum id max_size (session_conn h y)"

end
