(* ===== verification/Raw_Session_Props.thy ===== *)
theory Raw_Session_Props
  imports Ffi_Session Ffi_Dispatch Handle_Props
begin

text \<open>
  Raw sessions: a session's handle names its connection until the session has ended, and a byte stream written at
  one end of a stream is read at the other.
\<close>

section \<open>Handles of sessions\<close>

text \<open>What can happen to the sessions of a store, apart from the sweep of idle ones: a session is kept, one is removed
  at the end of \<open>closed\<close>, anything else leaves them alone.  The removed handles are listed.\<close>

inductive ses_run :: "slot_lib \<Rightarrow> 'c sess_sys \<Rightarrow> u64 list \<Rightarrow> 'c sess_sys \<Rightarrow> bool" for L where
  ses_start: "ses_run L y [] y"
| ses_keep: "ses_run L y hs y1 \<Longrightarrow> ses_run L y hs (snd (keep_session L conn y1))"
| ses_remove: "ses_run L y hs y1 \<Longrightarrow> ses_run L y (h # hs) (y1\<lparr>sy_store := snd (remove_session h (sy_store y1))\<rparr>)"
| ses_other: "ses_run L y hs y1 \<Longrightarrow> sessions (sy_store y2) = sessions (sy_store y1) \<Longrightarrow> ses_run L y hs y2"

definition session_at :: "slot_lib \<Rightarrow> u64 \<Rightarrow> nat option \<Rightarrow> 'c sess_sys \<Rightarrow> bool" where
  "session_at L h c y \<longleftrightarrow> slot_inv L (sessions (sy_store y)) \<and> h \<in> set (issued L (history (sessions (sy_store y))))
     \<and> lookup_session h (sy_store y) = c"

lemma session_conn_at: "session_at L h c y \<Longrightarrow> session_conn h y = (case c of None \<Rightarrow> Inl (invalid_handle h) | Some n \<Rightarrow> Inr n)"
  by (simp add: session_at_def session_conn_def)

lemma keep_session_sessions:
  "sessions (sy_store (snd (keep_session L conn y))) = sessions (sy_store y)
   \<or> (\<exists>e. timed_value e = conn \<and> sessions (sy_store (snd (keep_session L conn y))) = snd (slot_insert L e (sessions (sy_store y)))
        \<and> fst (keep_session L conn y) = Inr (next_key L (history (sessions (sy_store y)))))"
  by (auto simp: keep_session_def insert_session_def insert_checked_def timed_new_def slot_insert_def Let_def
      split: prod.splits if_splits)

lemma keep_session_history:
  "length (history (sessions (sy_store y))) \<le> length (history (sessions (sy_store (snd (keep_session L conn y)))))"
  using keep_session_sessions [of L conn y] by (auto simp: slot_insert_def Let_def)

lemma session_at_keep:
  assumes "session_at L h c y" "slot_room (sessions (sy_store y))"
  shows "session_at L h c (snd (keep_session L conn y))"
  using keep_session_sessions [of L conn y]
proof (elim disjE exE conjE)
  fix e assume k: "sessions (sy_store (snd (keep_session L conn y))) = snd (slot_insert L e (sessions (sy_store y)))"
  have "h \<noteq> next_key L (history (sessions (sy_store y)))"
    using assms by (auto simp: session_at_def slot_inv_def slot_lib_ok_def slot_room_def)
  then show ?thesis
    using assms k slot_inv_insert [of L "sessions (sy_store y)" e]
    by (simp add: session_at_def lookup_session_def slot_get_insert) (simp add: slot_insert_def Let_def)
qed (use assms in \<open>simp add: session_at_def lookup_session_def\<close>)

lemma session_at_remove:
  assumes "session_at L h c y"
  shows "session_at L h (if k = h then None else c) (y\<lparr>sy_store := snd (remove_session k (sy_store y))\<rparr>)"
  using assms slot_inv_remove [of L "sessions (sy_store y)" k] slot_get_remove [of h k "sessions (sy_store y)"]
  by (auto simp: session_at_def remove_session_def lookup_session_def slot_remove_def split: prod.splits option.splits)

lemma remove_session_history:
  "length (history (sessions s)) \<le> length (history (sessions (snd (remove_session h s))))"
  by (auto simp: remove_session_def slot_remove_def split: option.splits)

lemma ses_run_at:
  assumes "ses_run L y hs y'" "session_at L h c y" "length (history (sessions (sy_store y'))) \<le> slot_version_limit"
  shows "session_at L h (if h \<in> set hs then None else c) y'"
  using assms
proof (induction rule: ses_run.induct)
  case (ses_start y)
  then show ?case by simp
next
  case (ses_keep y hs y1 conn)
  show ?case
    using keep_session_sessions [of L conn y1]
  proof (elim disjE exE conjE)
    assume same: "sessions (sy_store (snd (keep_session L conn y1))) = sessions (sy_store y1)"
    then show ?thesis using ses_keep by (simp add: session_at_def lookup_session_def)
  next
    fix e assume "sessions (sy_store (snd (keep_session L conn y1))) = snd (slot_insert L e (sessions (sy_store y1)))"
    then have room: "slot_room (sessions (sy_store y1))"
      using ses_keep.prems(2) by (simp add: slot_room_def slot_insert_def Let_def)
    then show ?thesis using session_at_keep [OF ses_keep.IH room] ses_keep.prems by (simp add: slot_room_def)
  qed
next
  case (ses_remove y hs y1 k)
  have "length (history (sessions (sy_store y1))) \<le> slot_version_limit"
    using remove_session_history [of "sy_store y1" k] ses_remove.prems(2) by simp
  then show ?case using session_at_remove [OF ses_remove.IH, of k] ses_remove.prems by (auto split: if_splits)
next
  case (ses_other y hs y1 y2)
  then show ?case by (simp add: session_at_def lookup_session_def)
qed

lemma keep_session_at:
  assumes "keep_session L conn y = (Inr h, y')" "slot_inv L (sessions (sy_store y))" "slot_room (sessions (sy_store y))"
  shows "session_at L h (Some conn) y'"
  using assms slot_inv_insert [of L "sessions (sy_store y)"]
  by (auto simp: keep_session_def insert_session_def insert_checked_def timed_new_def session_at_def lookup_session_def
      slot_insert_def slot_get_def Let_def split: prod.splits if_splits)

text \<open>A session handle names one connection: after \<open>connect\<close> has returned a handle, every later operation on
  it reaches the connection that was dialled, whatever sessions are opened and ended in between, until a \<open>closed\<close> on
  this handle completes; from then on the handle is refused for ever, \<open>close\<close> closes nothing, and
  \<open>closed\<close> returns the default information at once.  (Sweeping idle sessions is outside the runs considered.)\<close>

theorem session_handle_names_one_connection:
  assumes "session_connect A L remote direct dial env y = (Inr h, y1)"
    and "slot_inv L (sessions (sy_store (env y)))" and "slot_room (sessions (sy_store (env y)))"
    and "ses_run L y1 hs y2" and "length (history (sessions (sy_store y2))) \<le> slot_version_limit"
  shows "\<exists>p conn. parse_node_addr A remote = Inr p \<and> dial (session_addr p direct) ALPN_DUPLEX = Inr conn
     \<and> session_conn h y2 = (if h \<in> set hs then Inl (invalid_handle h) else Inr conn)
     \<and> (h \<in> set hs \<longrightarrow> session_close h c reason y2 = (Inl (invalid_handle h), y2)
          \<and> session_closed lib h why env' y2 = (Inr \<lparr>close_code = 0, close_reason = []\<rparr>, y2))"
proof -
  obtain p conn where p: "parse_node_addr A remote = Inr p" "dial (session_addr p direct) ALPN_DUPLEX = Inr conn"
    and k: "keep_session L conn (env y) = (Inr h, y1)"
    using assms(1) by (auto simp: session_connect_def split: sum.splits)
  have "session_at L h (if h \<in> set hs then None else Some conn) y2"
    by (rule ses_run_at [OF assms(4) keep_session_at [OF k assms(2,3)] assms(5)])
  from session_conn_at [OF this] show ?thesis
    using p by (intro exI [of _ p] exI [of _ conn]) (auto simp: session_close_def session_closed_def split: if_splits)
qed

definition demo_sess :: "fifo sess_sys" where
  "demo_sess = \<lparr>sy_store = demo_store, sy_closes = [], sy_recv_pumps = [], sy_send_pumps = []\<rparr>"

definition demo_key_lib :: addr_lib where
  "demo_key_lib = \<lparr>b32_encode = \<lambda>_. ''k'', b32_decode = \<lambda>_. Some (replicate 32 (5 :: u8)), key_from_bytes = Inr,
     json_to_info = \<lambda>_. None, json_of_info = \<lambda>_. Inl [], relay_parse = Some, sock_show = \<lambda>_. []\<rparr>"

theorem session_handle_names_one_connection_witness:
  "\<exists>y1 y2. session_connect demo_key_lib counting_lib ''k'' None (\<lambda>_ _. Inr 7) (\<lambda>y. y) demo_sess = (Inr 1, y1)
     \<and> session_conn 1 y1 = Inr 7
     \<and> y2 = y1\<lparr>sy_store := snd (remove_session 1 (sy_store y1))\<rparr> \<and> session_close 1 0 ''bye'' y2 = (Inl (invalid_handle 1), y2)"
proof -
  obtain y1 where c: "session_connect demo_key_lib counting_lib ''k'' None (\<lambda>_ _. Inr 7) (\<lambda>y. y) demo_sess = (Inr 1, y1)"
    and s: "sessions (sy_store y1) = \<lparr>slots = [(1, timed_new 0 7)], history = [SlotInsert]\<rparr>"
    by (simp add: session_connect_def parse_node_addr_def parse_node_id_def base32_decode_def demo_key_lib_def keep_session_def
        insert_session_def insert_checked_def slot_insert_def demo_sess_def demo_defs slot_len_def)
  have i: "slot_inv counting_lib (sessions (sy_store demo_sess))" "slot_room (sessions (sy_store demo_sess))"
    using slot_inv_new [OF counting_lib_ok] by (simp_all add: demo_sess_def demo_defs slot_room_def slot_version_limit_def)
  define y2 where "y2 = y1\<lparr>sy_store := snd (remove_session 1 (sy_store y1))\<rparr>"
  have r: "ses_run counting_lib y1 [] y1" "ses_run counting_lib y1 [1] y2"
    unfolding y2_def by (rule ses_start, rule ses_remove [OF ses_start])
  have l: "length (history (sessions (sy_store y1))) \<le> slot_version_limit" "length (history (sessions (sy_store y2))) \<le> slot_version_limit"
    using s by (simp_all add: y2_def remove_session_def slot_remove_def slot_get_def slot_version_limit_def)
  show ?thesis
    using session_handle_names_one_connection [OF c i r(1) l(1)] session_handle_names_one_connection [OF c i r(2) l(2), of 0 "''bye''"]
      c y2_def by auto
qed

section \<open>Streams\<close>

context mpsc
begin

text \<open>The sending pump writes what is queued, in order, and ends after the writer is gone.\<close>

lemma reader_next_queued:
  assumes "view (chan (cells H i)) = \<lparr>queue = x # xs, capacity = cap, senders = n, receiver = True\<rparr>"
    "\<not> rx_locked (cells H i)" "rx_refs (cells H i) = 1" "rd_cell r = i"
  shows "\<exists>H'. reader_next_chunk ops r env H = (Some (Some x), H') \<and> \<not> rx_locked (cells H' i) \<and> rx_refs (cells H' i) = 1
     \<and> view (chan (cells H' i)) = \<lparr>queue = xs, capacity = cap, senders = n, receiver = True\<rparr>"
  using recv_chunk [of "rx_clone i H" i x xs env] assms
  by (auto simp: reader_next_chunk_def rx_drop_def)

lemma reader_next_end:
  assumes "view (chan (cells H i)) = \<lparr>queue = [], capacity = cap, senders = 0, receiver = True\<rparr>"
    "\<not> rx_locked (cells H i)" "rd_cell r = i"
  shows "\<exists>H'. reader_next_chunk ops r env H = (Some None, H')"
  using recv_eof [of "rx_clone i H" i env] assms by (auto simp: reader_next_chunk_def)

lemma send_pump_drains:
  assumes "view (chan (cells H i)) = \<lparr>queue = q, capacity = cap, senders = 0, receiver = True\<rparr>"
    "\<not> rx_locked (cells H i)" "rx_refs (cells H i) = 1" "rd_cell r = i" "length q < length rounds" "list_all snd rounds"
  shows "\<exists>H'. pump_body_to_quic_send ops r rounds written H = (True, written @ q, H')"
  using assms
proof (induction q arbitrary: rounds written H)
  case Nil
  obtain env wr rest where "rounds = (env, wr) # rest" using Nil.prems(5) by (cases rounds) auto
  then show ?case using reader_next_end [OF Nil.prems(1,2,4), of env] by auto
next
  case (Cons x q)
  obtain env rest where r: "rounds = (env, True) # rest" using Cons.prems(5,6) by (cases rounds) auto
  obtain H1 where h: "reader_next_chunk ops r env H = (Some (Some x), H1)" "\<not> rx_locked (cells H1 i)" "rx_refs (cells H1 i) = 1"
      "view (chan (cells H1 i)) = \<lparr>queue = q, capacity = cap, senders = 0, receiver = True\<rparr>"
    using reader_next_queued [OF Cons.prems(1-4), of env] by blast
  have "\<exists>H'. pump_body_to_quic_send ops r rest (written @ [x]) H1 = (True, (written @ [x]) @ q, H')"
    using Cons.IH [OF h(4,2,3) Cons.prems(4), of rest "written @ [x]"] Cons.prems(5,6) r by simp
  then show ?case using r h(1) by simp
qed

text \<open>The receiving pump queues what it reads, in order, and drops its writer at the end of the stream.\<close>

lemma writer_send_room:
  assumes "view (chan (cells H i)) = \<lparr>queue = q, capacity = cap, senders = n, receiver = True\<rparr>" "length q < cap" "wr_cell w = i"
  shows "\<exists>ch. writer_send_chunk ops w b env H = (Some (Inr ()), upd_cell i (\<lambda>c. c\<lparr>chan := ch\<rparr>) H)
     \<and> view ch = \<lparr>queue = q @ [b], capacity = cap, senders = n, receiver = True\<rparr>"
proof -
  obtain r ch where rc: "mp_try_send ops (chan (cells H i)) b = (r, ch)" by fastforce
  have "r = SendOk" "view ch = \<lparr>queue = q @ [b], capacity = cap, senders = n, receiver = True\<rparr>"
    using try_send_law [of "chan (cells H i)" b] assms(1,2) rc by (simp_all add: fifo_try_send_def)
  then show ?thesis using rc assms(3) by (auto simp: writer_send_chunk_def Let_def)
qed

lemma recv_pump_fills:
  assumes "view (chan (cells H i)) = \<lparr>queue = q, capacity = cap, senders = Suc n, receiver = True\<rparr>"
    "length q + length rs \<le> cap" "wr_cell w = i" "wr_sending w = None"
  shows "\<exists>ch. pump_quic_recv_to_body ops w (map (\<lambda>c. ([], Inr (Some c), env)) rs @ [([], Inr None, [])]) sent H
        = (True, sent @ rs, upd_cell i (\<lambda>c. c\<lparr>chan := ch\<rparr>) H)
     \<and> view ch = \<lparr>queue = q @ rs, capacity = cap, senders = n, receiver = True\<rparr>"
  using assms
proof (induction rs arbitrary: q sent H)
  case Nil
  then show ?case by (auto simp: writer_drop_def tx_drop_def upd_cell_def drop_tx_law
      intro!: exI [of _ "mp_drop_tx ops (chan (cells H i))"])
next
  case (Cons x rs)
  obtain ch where s: "writer_send_chunk ops w x env H = (Some (Inr ()), upd_cell i (\<lambda>c. c\<lparr>chan := ch\<rparr>) H)"
    and v: "view ch = \<lparr>queue = q @ [x], capacity = cap, senders = Suc n, receiver = True\<rparr>"
    using writer_send_room [OF Cons.prems(1) _ Cons.prems(3), of x env] Cons.prems(2) by auto
  let ?H = "upd_cell i (\<lambda>c. c\<lparr>chan := ch\<rparr>) H"
  obtain ch' where "pump_quic_recv_to_body ops w (map (\<lambda>c. ([], Inr (Some c), env)) rs @ [([], Inr None, [])]) (sent @ [x]) ?H
        = (True, (sent @ [x]) @ rs, upd_cell i (\<lambda>c. c\<lparr>chan := ch'\<rparr>) ?H)"
      "view ch' = \<lparr>queue = (q @ [x]) @ rs, capacity = cap, senders = n, receiver = True\<rparr>"
    using Cons.IH [of ?H "q @ [x]" "sent @ [x]"] v Cons.prems by auto
  then show ?case using s by (auto simp: comp_def)
qed

end

text \<open>What a wrapped stream consists of: the reading side on one cell, the writing side on another, and a pump for each.\<close>

definition duplex_at :: "('c \<Rightarrow> fifo) \<Rightarrow> nat \<Rightarrow> nat \<Rightarrow> ffi_duplex_stream \<Rightarrow> 'c sess_sys \<Rightarrow> nat \<Rightarrow> nat \<Rightarrow> bool" where
  "duplex_at view send recv d y i j \<longleftrightarrow> (let cap = channel_capacity (config (sy_store y)); cs = cells (mem (sy_store y)) in
     i \<noteq> j \<and> stream_at view (read_handle d) i cap 1 None [] (sy_store y)
     \<and> (\<exists>w. sy_recv_pumps y \<noteq> [] \<and> last (sy_recv_pumps y) = (recv, w) \<and> wr_cell w = i \<and> wr_sending w = None)
     \<and> (\<exists>e. slot_get (write_handle d) (writers (sy_store y)) = Some e \<and> wr_cell (timed_value e) = j
          \<and> wr_sending (timed_value e) = None)
     \<and> (\<exists>r. sy_send_pumps y \<noteq> [] \<and> last (sy_send_pumps y) = (send, r) \<and> rd_cell r = j)
     \<and> \<not> rx_locked (cs j) \<and> rx_refs (cs j) = 1
     \<and> view (chan (cs j)) = \<lparr>queue = [], capacity = cap, senders = 1, receiver = True\<rparr>)"

lemma make_channel_fresh:
  assumes "mpsc ops view" "0 < channel_capacity (config s)" "store_make_body_channel ops s = Some (w, r, s')"
  shows "\<exists>c. s' = s\<lparr>mem := (mem s)\<lparr>cells := (cells (mem s))(next_cell (mem s) :=
       \<lparr>chan = c, rx_refs = 1, rx_locked = False, terminal_error = None, cancel_calls = 0\<rparr>),
       next_cell := Suc (next_cell (mem s))\<rparr>\<rparr>
     \<and> view c = \<lparr>queue = [], capacity = channel_capacity (config s), senders = 1, receiver = True\<rparr>
     \<and> w = \<lparr>wr_cell = next_cell (mem s), drain_timeout = cfg_drain_timeout (config s), wr_sending = None\<rparr>
     \<and> r = \<lparr>rd_cell = next_cell (mem s), rd_pending = None\<rparr>"
  using assms(3) mpsc.channel_law [OF assms(1,2)]
  by (auto simp: store_make_body_channel_def make_body_channel_with_def fifo_new_def Let_def split: option.splits)

lemma guard_insert_reader_ok:
  assumes "guard_insert_reader L ops r (g, s) = (Inr h, g', s')"
  shows "\<exists>reg. s' = s\<lparr>readers := reg\<rparr> \<and> slot_get h reg = Some (timed_new (now s) r) \<and> g' = g\<lparr>tracked := tracked g @ [TrackedReader h]\<rparr>"
  using assms
  by (auto simp: guard_insert_reader_def insert_reader_def insert_checked_cases slot_get_insert
      split: prod.splits sum.splits if_splits)

lemma guard_insert_writer_ok:
  assumes "guard_insert_writer L ops w (g, s) = (Inr h, g', s')"
  shows "\<exists>reg. s' = s\<lparr>writers := reg\<rparr> \<and> slot_get h reg = Some (timed_new (now s) w) \<and> g' = g\<lparr>tracked := tracked g @ [TrackedWriter h]\<rparr>"
  using assms
  by (auto simp: guard_insert_writer_def insert_writer_def insert_checked_cases slot_get_insert
      split: prod.splits sum.splits if_splits)

lemma wrapped_duplex:
  assumes m: "mpsc ops view" and cap: "0 < channel_capacity (config (sy_store y))"
    and w: "wrap_bidi_stream L ops send recv y = Some (Inr d, y')"
  shows "\<exists>i j. duplex_at view send recv d y' i j" "config (sy_store y') = config (sy_store y)"
proof -
  obtain rw rr s1 where c1: "store_make_body_channel ops (sy_store y) = Some (rw, rr, s1)"
    using w by (auto simp: wrap_bidi_stream_def split: option.splits)
  obtain hr g s2 where i1: "guard_insert_reader L ops rr (guard_new, s1) = (Inr hr, g, s2)"
    using w c1 by (auto simp: wrap_bidi_stream_def split: prod.splits sum.splits)
  obtain sw sr s3 where c2: "store_make_body_channel ops s2 = Some (sw, sr, s3)"
    using w c1 i1 by (auto simp: wrap_bidi_stream_def Let_def split: option.splits)
  obtain hw g' s4 where i2: "guard_insert_writer L ops sw (g, s3) = (Inr hw, g', s4)"
    and d: "d = \<lparr>read_handle = hr, write_handle = hw\<rparr>" "sy_store y' = s4"
      "sy_recv_pumps y' = sy_recv_pumps y @ [(recv, rw)]" "sy_send_pumps y' = sy_send_pumps y @ [(send, sr)]"
    using w c1 i1 c2
    by (auto simp: wrap_bidi_stream_def Let_def guard_drop_def guard_commit_def split: prod.splits sum.splits)
  note f1 = make_channel_fresh [OF m cap c1] and f2 = guard_insert_reader_ok [OF i1]
  have "0 < channel_capacity (config s2)" using cap f1 f2 by auto
  note f3 = make_channel_fresh [OF m this c2] and f4 = guard_insert_writer_ok [OF i2]
  have "duplex_at view send recv d y' (next_cell (mem (sy_store y))) (Suc (next_cell (mem (sy_store y))))"
    using f1 f2 f3 f4 d by (auto simp: duplex_at_def stream_at_def timed_new_def Let_def)
  then show "\<exists>i j. duplex_at view send recv d y' i j" by blast
  show "config (sy_store y') = config (sy_store y)" using f1 f2 f3 f4 d by auto
qed

lemma written_chunk_leaves:
  assumes "mpsc ops view" and "0 < channel_capacity (config (sy_store a))" and "0 < max_chunk_size (config (sy_store a))"
    and "wrap_bidi_stream L ops send recv a = Some (Inr da, a')" and "length chunk \<le> usize_max"
    and "length (sent_pieces (max_chunk_size (config (sy_store a))) chunk) \<le> channel_capacity (config (sy_store a))"
    and "length (sent_pieces (max_chunk_size (config (sy_store a))) chunk) < length rounds" and "list_all snd rounds"
  shows "\<exists>s1 s2 written H. send_chunk ops envs (write_handle da) chunk (sy_store a') = Some (Inr (), s1)
     \<and> finish_body ops (write_handle da) s1 = (Inr (), s2)
     \<and> pump_body_to_quic_send ops (snd (last (sy_send_pumps a'))) rounds [] (mem s2) = (True, written, H)
     \<and> concat written = chunk"
proof -
  obtain i j where "duplex_at view send recv da a' i j" and ca: "config (sy_store a') = config (sy_store a)"
    using wrapped_duplex [OF assms(1,2,4)] by blast
  then obtain e r where e: "slot_get (write_handle da) (writers (sy_store a')) = Some e" "wr_cell (timed_value e) = j"
      "wr_sending (timed_value e) = None"
    and r: "snd (last (sy_send_pumps a')) = r" "rd_cell r = j"
    and j: "\<not> rx_locked (cells (mem (sy_store a')) j)" "rx_refs (cells (mem (sy_store a')) j) = 1"
      "view (chan (cells (mem (sy_store a')) j)) = \<lparr>queue = [], capacity = channel_capacity (config (sy_store a)), senders = 1, receiver = True\<rparr>"
    by (auto simp: duplex_at_def Let_def)
  let ?P = "sent_pieces (max_chunk_size (config (sy_store a))) chunk"
  obtain ch where sc: "send_chunk ops envs (write_handle da) chunk (sy_store a')
      = Some (Inr (), on_mem (upd_cell j (\<lambda>c. c\<lparr>chan := ch\<rparr>))
          ((sy_store a')\<lparr>writers := slot_upd (write_handle da) (touch (now (sy_store a'))) (writers (sy_store a'))\<rparr>))"
    and v: "view ch = \<lparr>queue = ?P, capacity = channel_capacity (config (sy_store a)), senders = 1, receiver = True\<rparr>"
    using mpsc.send_chunk_fit [OF assms(1) e(1,2), of chunk "[]" "channel_capacity (config (sy_store a))" 1 envs] j(3) assms(3,5,6) ca
    by auto
  define s1 where "s1 = on_mem (upd_cell j (\<lambda>c. c\<lparr>chan := ch\<rparr>))
          ((sy_store a')\<lparr>writers := slot_upd (write_handle da) (touch (now (sy_store a'))) (writers (sy_store a'))\<rparr>)"
  obtain s2 where f: "finish_body ops (write_handle da) s1 = (Inr (), s2)"
    and m2: "mem s2 = upd_cell j (\<lambda>c. c\<lparr>chan := mp_drop_tx ops (chan c)\<rparr>) (mem s1)"
    using e by (simp add: finish_body_def s1_def slot_remove_def writer_drop_def tx_drop_def touch_def)
  have c2: "view (chan (cells (mem s2) j)) = \<lparr>queue = ?P, capacity = channel_capacity (config (sy_store a)), senders = 0, receiver = True\<rparr>"
    "\<not> rx_locked (cells (mem s2) j)" "rx_refs (cells (mem s2) j) = 1"
    using j v mpsc.drop_tx_law [OF assms(1), of ch] by (simp_all add: m2 s1_def)
  obtain H where "pump_body_to_quic_send ops r rounds [] (mem s2) = (True, [] @ ?P, H)"
    using mpsc.send_pump_drains [OF assms(1) c2 r(2) assms(7,8), of "[]"] by blast
  then show ?thesis
    using sc f r(1) concat_sent_pieces [OF assms(3)] unfolding s1_def by auto
qed

lemma segments_are_read:
  assumes "mpsc ops view" and "0 < channel_capacity (config (sy_store b))"
    and "wrap_bidi_stream L ops send' recv' b = Some (Inr db, b')" and "length segments \<le> channel_capacity (config (sy_store b))"
  shows "\<exists>H s3 s4. pump_quic_recv_to_body ops (snd (last (sy_recv_pumps b')))
          (map (\<lambda>c. ([], Inr (Some c), env)) segments @ [([], Inr None, [])]) [] (mem (sy_store b')) = (True, segments, H)
     \<and> read_n ops (length segments) (read_handle db) ((sy_store b')\<lparr>mem := H\<rparr>) = Some (segments, s3)
     \<and> next_chunk ops [] [] (read_handle db) s3 = Some (Inr None, s4) \<and> slot_get (read_handle db) (readers s4) = None"
proof -
  obtain i' j' where "duplex_at view send' recv' db b' i' j'" and cb: "config (sy_store b') = config (sy_store b)"
    using wrapped_duplex [OF assms(1,2,3)] by blast
  then obtain w where st: "stream_at view (read_handle db) i' (channel_capacity (config (sy_store b))) 1 None [] (sy_store b')"
    and w: "snd (last (sy_recv_pumps b')) = w" "wr_cell w = i'" "wr_sending w = None"
    by (auto simp: duplex_at_def Let_def)
  obtain ch' where p: "pump_quic_recv_to_body ops w (map (\<lambda>c. ([], Inr (Some c), env)) segments @ [([], Inr None, [])]) [] (mem (sy_store b'))
        = (True, [] @ segments, upd_cell i' (\<lambda>c. c\<lparr>chan := ch'\<rparr>) (mem (sy_store b')))"
    and v': "view ch' = \<lparr>queue = [] @ segments, capacity = channel_capacity (config (sy_store b)), senders = 0, receiver = True\<rparr>"
    using mpsc.recv_pump_fills [OF assms(1) _ _ w(2,3), of "mem (sy_store b')" "[]" "channel_capacity (config (sy_store b))" 0 segments env "[]"]
      st assms(4) by (auto simp: stream_at_def)
  have st': "stream_at view (read_handle db) i' (channel_capacity (config (sy_store b))) 0 None segments
      ((sy_store b')\<lparr>mem := upd_cell i' (\<lambda>c. c\<lparr>chan := ch'\<rparr>) (mem (sy_store b'))\<rparr>)"
    using st v' by (simp add: stream_at_def)
  obtain s3 where rd: "read_n ops (length segments) (read_handle db)
      ((sy_store b')\<lparr>mem := upd_cell i' (\<lambda>c. c\<lparr>chan := ch'\<rparr>) (mem (sy_store b'))\<rparr>) = Some (segments, s3)"
    and st3: "stream_at view (read_handle db) i' (channel_capacity (config (sy_store b))) 0 None [] s3"
    using mpsc.read_all [OF assms(1) st'] by blast
  obtain s4 where "next_chunk ops [] [] (read_handle db) s3 = Some (Inr None, s4)" "slot_get (read_handle db) (readers s4) = None"
    using mpsc.next_chunk_eof [OF assms(1) st3, of "[]"] by auto
  then show ?thesis
    using p rd w(1) by auto
qed

text \<open>Bytes cross a stream unchanged when no channel fills up: a chunk written to the write handle at one end and finished is written to
  the transport by that end's pump, completely and in order, and the stream is then finished; and when the transport
  delivers these bytes to the other end in any segments, that end's pump hands over exactly those
  segments, whose concatenation is the chunk, followed by a clean end that releases the read handle.  The chunk's
  pieces fit in the sender's channel and the segments in the receiver's.\<close>

theorem stream_bytes_arrive:
  assumes "mpsc ops view" and "0 < channel_capacity (config (sy_store a))" and "0 < channel_capacity (config (sy_store b))"
    and "0 < max_chunk_size (config (sy_store a))"
    and "wrap_bidi_stream L ops send recv a = Some (Inr da, a')" and "wrap_bidi_stream L ops send' recv' b = Some (Inr db, b')"
    and "length chunk \<le> usize_max"
    and "length (sent_pieces (max_chunk_size (config (sy_store a))) chunk) \<le> channel_capacity (config (sy_store a))"
    and "length (sent_pieces (max_chunk_size (config (sy_store a))) chunk) < length rounds" and "list_all snd rounds"
  shows "\<exists>s1 s2 written H. send_chunk ops envs (write_handle da) chunk (sy_store a') = Some (Inr (), s1)
     \<and> finish_body ops (write_handle da) s1 = (Inr (), s2)
     \<and> pump_body_to_quic_send ops (snd (last (sy_send_pumps a'))) rounds [] (mem s2) = (True, written, H)
     \<and> (\<forall>segments. concat segments = concat written \<longrightarrow> length segments \<le> channel_capacity (config (sy_store b)) \<longrightarrow>
         (\<exists>H s3 s4. pump_quic_recv_to_body ops (snd (last (sy_recv_pumps b')))
              (map (\<lambda>c. ([], Inr (Some c), env)) segments @ [([], Inr None, [])]) [] (mem (sy_store b')) = (True, segments, H)
          \<and> read_n ops (length segments) (read_handle db) ((sy_store b')\<lparr>mem := H\<rparr>) = Some (segments, s3) \<and> concat segments = chunk
          \<and> next_chunk ops [] [] (read_handle db) s3 = Some (Inr None, s4) \<and> slot_get (read_handle db) (readers s4) = None))"
proof -
  obtain s1 s2 written H where "send_chunk ops envs (write_handle da) chunk (sy_store a') = Some (Inr (), s1)"
      "finish_body ops (write_handle da) s1 = (Inr (), s2)" "concat written = chunk"
      "pump_body_to_quic_send ops (snd (last (sy_send_pumps a'))) rounds [] (mem s2) = (True, written, H)"
    using written_chunk_leaves [OF assms(1,2,4,5,7-10), of envs] by blast
  moreover note segments_are_read [OF assms(1,3,6)]
  ultimately show ?thesis by blast
qed

theorem stream_bytes_arrive_witness:
  "\<exists>y da s1 s2 written H s3. wrap_bidi_stream counting_lib fifo_ops 3 4 demo_sess = Some (Inr da, y)
     \<and> send_chunk fifo_ops [] (write_handle da) [1, 2, 3] (sy_store y) = Some (Inr (), s1)
     \<and> finish_body fifo_ops (write_handle da) s1 = (Inr (), s2)
     \<and> pump_body_to_quic_send fifo_ops (snd (last (sy_send_pumps y))) (replicate 3 ([], True)) [] (mem s2) = (True, written, H)
     \<and> concat written = [1, 2, 3]"
proof -
  obtain da y where w: "wrap_bidi_stream counting_lib fifo_ops 3 4 demo_sess = Some (Inr da, y)"
    by (simp add: wrap_bidi_stream_def demo_sess_def demo_defs store_make_body_channel_def make_body_channel_with_def
        guard_insert_reader_def insert_reader_def guard_insert_writer_def insert_writer_def insert_checked_cases guard_new_def Let_def)
  have c: "config (sy_store demo_sess) = demo_config" by (simp add: demo_sess_def demo_defs)
  have p: "sent_pieces 2 [1, 2, 3] = [[1, 2], [3 :: u8]]" by (simp add: sent_pieces_def chunks_of.simps)
  have h: "0 < channel_capacity (config (sy_store demo_sess))" "0 < max_chunk_size (config (sy_store demo_sess))"
    "length ([1, 2, 3] :: bytes) \<le> usize_max"
    "length (sent_pieces (max_chunk_size (config (sy_store demo_sess))) [1, 2, 3]) \<le> channel_capacity (config (sy_store demo_sess))"
    "length (sent_pieces (max_chunk_size (config (sy_store demo_sess))) [1, 2, 3])
       < length (replicate 3 ([], True) :: ((fifo heap \<Rightarrow> fifo heap) list \<times> bool) list)"
    "list_all snd (replicate 3 ([], True) :: ((fifo heap \<Rightarrow> fifo heap) list \<times> bool) list)"
    by (simp_all add: c p demo_config_def usize_max_def numeral_3_eq_3)
  obtain s1 s2 written H where r: "send_chunk fifo_ops [] (write_handle da) [1, 2, 3] (sy_store y) = Some (Inr (), s1)"
     "finish_body fifo_ops (write_handle da) s1 = (Inr (), s2)"
     "pump_body_to_quic_send fifo_ops (snd (last (sy_send_pumps y))) (replicate 3 ([], True)) [] (mem s2) = (True, written, H)"
     and s: "\<And>segments. concat segments = concat written \<Longrightarrow> length segments \<le> 4 \<Longrightarrow> concat segments = [1, 2, 3]"
    using stream_bytes_arrive [OF fifo.mpsc_axioms h(1,1,2) w w h(3-6), of "[]" "[]"]
    unfolding c by (elim exE conjE) (force simp: demo_config_def)
  have "concat [concat written] = [1, 2, 3]" by (rule s) simp_all
  then show ?thesis using w r by auto
qed

section \<open>Refused streams\<close>

lemma guard_insert_writer_refused:
  assumes "guard_insert_writer L ops w (g, s) = (Inl e, g', s')"
  shows "g' = g \<and> s' = on_mem (writer_drop ops w) s"
  using assms by (auto simp: guard_insert_writer_def insert_writer_def split: prod.splits sum.splits)

lemma guard_insert_reader_refused:
  assumes "guard_insert_reader L ops r (g, s) = (Inl e, g', s')"
  shows "g' = g \<and> s' = on_mem (reader_drop ops r) s"
  using assms by (auto simp: guard_insert_reader_def insert_reader_def split: prod.splits sum.splits)

lemma send_to_gone:
  assumes "mpsc ops view" "\<not> receiver (view (chan (cells H (wr_cell w))))"
  shows "fst (writer_send_chunk ops w b env H) = Some (Inl ''body reader dropped'')"
proof -
  obtain r ch where rc: "mp_try_send ops (chan (cells H (wr_cell w))) b = (r, ch)" by fastforce
  have "r = SendClosed"
    using mpsc.try_send_law(1) [OF assms(1), of "chan (cells H (wr_cell w))" b] assms(2) rc by (simp add: fifo_try_send_def)
  then show ?thesis using rc by (simp add: writer_send_chunk_def Let_def)
qed

text \<open>The second refusal: the reader just registered is cancelled, so that its pump finds it gone.\<close>

lemma refused_after_reader:
  assumes m: "mpsc ops view" and cap: "0 < channel_capacity (config s)"
    and c1: "store_make_body_channel ops s = Some (rw, rr, s1)"
    and i1: "guard_insert_reader L ops rr (guard_new, s1) = (Inr hr, g, s2)"
    and c2: "store_make_body_channel ops s2 = Some (sw, sr, s3)"
    and i2: "guard_insert_writer L ops sw (g, s3) = (Inl e, g', s4)"
  shows "\<not> receiver (view (chan (cells (mem (guard_drop ops g' (on_mem (reader_drop ops sr) s4))) (wr_cell rw))))"
    "sessions (guard_drop ops g' (on_mem (reader_drop ops sr) s4)) = sessions s"
proof -
  note f1 = make_channel_fresh [OF m cap c1] and f2 = guard_insert_reader_ok [OF i1]
  have "0 < channel_capacity (config s2)" using cap f1 f2 by auto
  note f3 = make_channel_fresh [OF m this c2] and f4 = guard_insert_writer_refused [OF i2]
  show "\<not> receiver (view (chan (cells (mem (guard_drop ops g' (on_mem (reader_drop ops sr) s4))) (wr_cell rw))))"
    "sessions (guard_drop ops g' (on_mem (reader_drop ops sr) s4)) = sessions s"
    using f1 f2 f3 f4 mpsc.drop_rx_law [OF m]
    by (auto simp: guard_drop_def guard_new_def cancel_reader_def slot_remove_def reader_drop_def rx_drop_def
        notify_cancel_def writer_drop_def tx_drop_def timed_new_def on_mem_def)
qed

text \<open>Property C27.  A stream that cannot be registered leaves nothing behind.  On a store with a positive channel capacity whose
  registries are well formed and have not used up the versions of a slot: when the handle store refuses either side of a
  new bidirectional stream, every handle of the store resolves as before, the sessions are unchanged, no sending pump is
  started, and the receiving pump, if it was already started, finds its reader gone whenever it sends a chunk, which is how it ends.\<close>

theorem refused_stream_leaves_no_handle:
  assumes "mpsc ops view" and "0 < channel_capacity (config (sy_store y))" and "guard_room L 2 (sy_store y)"
    and "wrap_bidi_stream L ops send recv y = Some (Inl e, y')"
  shows "handle_view (sy_store y') = handle_view (sy_store y) \<and> sessions (sy_store y') = sessions (sy_store y)
     \<and> sy_send_pumps y' = sy_send_pumps y
     \<and> (sy_recv_pumps y' = sy_recv_pumps y
        \<or> (\<exists>w. sy_recv_pumps y' = sy_recv_pumps y @ [(recv, w)]
             \<and> (\<forall>b env. fst (writer_send_chunk ops w b env (mem (sy_store y'))) = Some (Inl ''body reader dropped''))))"
proof -
  obtain rw rr s1 where c1: "store_make_body_channel ops (sy_store y) = Some (rw, rr, s1)"
    using assms(4) by (auto simp: wrap_bidi_stream_def split: option.splits)
  note v1 = make_channel_view [OF c1]
  have r1: "guard_room L (Suc 1) s1" using assms(3) v1(2) by (simp add: numeral_2_eq_2)
  obtain x g s2 where i1: "guard_insert_reader L ops rr (guard_new, s1) = (x, g, s2)" by (metis prod_cases3)
  note v2 = guard_step_view [OF r1, of ops "GuardReader rr" guard_new x g s2]
  have g: "masked_view (set (tracked g)) s2 = masked_view {} (sy_store y)" "\<not> committed g" "guard_room L 1 s2"
    using v2 v1(1) i1 by (simp_all add: guard_new_def)
  show ?thesis
  proof (cases x)
    case (Inl e')
    then have y': "y' = y\<lparr>sy_store := guard_drop ops g (on_mem (writer_drop ops rw) s2)\<rparr>"
      using assms(4) c1 i1 by (simp add: wrap_bidi_stream_def)
    have "g = guard_new" "sessions s2 = sessions (sy_store y)"
      using guard_insert_reader_refused [of L ops rr guard_new s1 e' g s2] i1 Inl make_channel_fresh [OF assms(1,2) c1] by auto
    then show ?thesis
      using y' g guard_drop_uncommitted [where s = "sy_store y" and g = g and s' = "on_mem (writer_drop ops rw) s2" and ops = ops]
      by (simp add: guard_drop_def guard_new_def)
  next
    case (Inr hr)
    obtain sw sr s3 where c2: "store_make_body_channel ops s2 = Some (sw, sr, s3)"
      using assms(4) c1 i1 Inr by (auto simp: wrap_bidi_stream_def Let_def split: option.splits)
    obtain g' s4 where i2: "guard_insert_writer L ops sw (g, s3) = (Inl e, g', s4)"
      and y': "y' = y\<lparr>sy_store := guard_drop ops g' (on_mem (reader_drop ops sr) s4), sy_recv_pumps := sy_recv_pumps y @ [(recv, rw)]\<rparr>"
      using assms(4) c1 i1 Inr c2 by (auto simp: wrap_bidi_stream_def Let_def split: prod.splits sum.splits)
    note v3 = make_channel_view [OF c2] and f = guard_insert_writer_refused [OF i2]
    have "masked_view (set (tracked g')) (on_mem (reader_drop ops sr) s4) = masked_view {} (sy_store y)" "\<not> committed g'"
      using f v3(1) g by simp_all
    note h = guard_drop_uncommitted [OF this, of ops]
    note d = refused_after_reader [OF assms(1,2) c1 _ c2 i2] i1 Inr
    then show ?thesis using y' h send_to_gone [OF assms(1)] by auto
  qed
qed

theorem refused_stream_leaves_no_handle_witness:
  "\<exists>y e y'. wrap_bidi_stream counting_lib fifo_ops 3 4 y = Some (Inl e, y') \<and> handle_view (sy_store y') = handle_view (sy_store y)
     \<and> sy_send_pumps y' = []"
proof -
  define y where "y = demo_sess\<lparr>sy_store := demo_store\<lparr>config := demo_config\<lparr>max_handles := 0\<rparr>\<rparr>\<rparr>"
  obtain e y' where w: "wrap_bidi_stream counting_lib fifo_ops 3 4 y = Some (Inl e, y')"
    by (simp add: y_def wrap_bidi_stream_def demo_sess_def demo_defs store_make_body_channel_def make_body_channel_with_def
        guard_insert_reader_def insert_reader_def insert_checked_cases guard_new_def Let_def)
  have "0 < channel_capacity (config (sy_store y))" "guard_room counting_lib 2 (sy_store y)"
    by (simp_all add: y_def demo_defs guard_room_def slot_version_limit_def slot_inv_new [OF counting_lib_ok])
  then show ?thesis
    using refused_stream_leaves_no_handle [OF fifo.mpsc_axioms _ _ w] w
    by (intro exI [of _ y] exI [of _ e] exI [of _ y']) (simp add: y_def demo_sess_def)
qed

end
