(* ===== verification/Deno_Serve.thy ===== *)
theory Deno_Serve
  imports Adapter_Input
begin

text \<open>
  \<^verbatim>\<open>src/packages/iroh-http-deno/src/serve_registry.rs\<close>, the request transport, the serve calls of \<^verbatim>\<open>dispatch.rs\<close> that use it
  and the polling symbols of \<^verbatim>\<open>lib.rs\<close>: requests wait in a bounded queue per endpoint, and a callback wakes the
  JavaScript loop that drains it.

  Queues are shared references, named by their position; the registry maps endpoint handles to them.  A queue
  holds the requests as the transport received them; their JSON encoding is a parameter where a length matters.
  The callbacks made are recorded with their tokens.  \<open>deno_step\<close> is one step of a task between two points where
  other tasks may act; the whole operations are their composition.
\<close>

section \<open>Queues\<close>

definition QUEUE_CAPACITY :: nat where "QUEUE_CAPACITY = 256"

record serve_queue =
  sq_items :: "deliverable_request list"
  sq_conn_items :: "(string \<times> bool) list"
  sq_shutdown :: bool
  sq_waker :: "u64 option"
  sq_locked :: bool \<comment> \<open>the receiver's mutex\<close>

record serve_registry =
  sr_map :: "(u64 \<times> nat) list"
  sr_queues :: "serve_queue list"
  sr_wakes :: "u64 list"

definition queue_new :: serve_queue where
  "queue_new = \<lparr>sq_items = [], sq_conn_items = [], sq_shutdown = False, sq_waker = None, sq_locked = False\<rparr>"

definition queue_at :: "nat \<Rightarrow> serve_registry \<Rightarrow> serve_queue" where
  "queue_at q reg = sr_queues reg ! q"

definition upd_queue :: "nat \<Rightarrow> (serve_queue \<Rightarrow> serve_queue) \<Rightarrow> serve_registry \<Rightarrow> serve_registry" where
  "upd_queue q f reg = reg\<lparr>sr_queues := (sr_queues reg)[q := f (sr_queues reg ! q)]\<rparr>"

definition sr_register :: "u64 \<Rightarrow> serve_registry \<Rightarrow> nat \<times> serve_registry" where
  "sr_register h reg = (let q = length (sr_queues reg) in
     (q, reg\<lparr>sr_map := al_put h q (sr_map reg), sr_queues := sr_queues reg @ [queue_new]\<rparr>))"

definition sr_get :: "u64 \<Rightarrow> serve_registry \<Rightarrow> nat option" where
  "sr_get h reg = map_of (sr_map reg) h"

definition waker_wake :: "u64 \<Rightarrow> serve_registry \<Rightarrow> serve_registry" where
  "waker_wake t reg = reg\<lparr>sr_wakes := sr_wakes reg @ [t]\<rparr>"

definition wake_request_loop :: "nat \<Rightarrow> serve_registry \<Rightarrow> serve_registry" where
  "wake_request_loop q reg = (case sq_waker (queue_at q reg) of None \<Rightarrow> reg | Some t \<Rightarrow> waker_wake t reg)"

definition install_waker :: "nat \<Rightarrow> u64 \<Rightarrow> serve_registry \<Rightarrow> serve_registry" where
  "install_waker q t reg = upd_queue q (\<lambda>x. x\<lparr>sq_waker := Some t\<rparr>) reg"

definition request_waiting :: "serve_queue \<Rightarrow> bool" where
  "request_waiting x \<longleftrightarrow> (if sq_locked x then True else sq_items x \<noteq> [])"

definition waker_check :: "nat \<Rightarrow> u64 \<Rightarrow> serve_registry \<Rightarrow> serve_registry" where
  "waker_check q t reg = (if sq_shutdown (queue_at q reg) \<or> request_waiting (queue_at q reg) then waker_wake t reg else reg)"

definition set_request_ready_waker :: "nat \<Rightarrow> u64 \<Rightarrow> serve_registry \<Rightarrow> serve_registry" where
  "set_request_ready_waker q t reg = waker_check q t (install_waker q t reg)"

definition send_shutdown :: "nat \<Rightarrow> serve_registry \<Rightarrow> serve_registry" where
  "send_shutdown q reg = upd_queue q (\<lambda>x. x\<lparr>sq_shutdown := True\<rparr>) reg"

definition sr_remove :: "u64 \<Rightarrow> serve_registry \<Rightarrow> serve_registry" where
  "sr_remove h reg = (let reg1 = reg\<lparr>sr_map := al_del h (sr_map reg)\<rparr> in
     case sr_get h reg of None \<Rightarrow> reg1 | Some q \<Rightarrow> wake_request_loop q (send_shutdown q reg1))"

definition signal_shutdown :: "u64 \<Rightarrow> serve_registry \<Rightarrow> serve_registry" where
  "signal_shutdown h reg = (case sr_get h reg of None \<Rightarrow> reg | Some q \<Rightarrow> wake_request_loop q (send_shutdown q reg))"

definition shutdown_all :: "serve_registry \<Rightarrow> serve_registry" where
  "shutdown_all reg = fold (\<lambda>(_, q) r. wake_request_loop q (send_shutdown q r)) (sr_map reg) (reg\<lparr>sr_map := []\<rparr>)"

section \<open>Delivering\<close>

text \<open>\<open>try_send\<close> on a queue whose receiver lives as long as the queue: it fails exactly when the queue is full.\<close>

definition queue_try_send :: "nat \<Rightarrow> deliverable_request \<Rightarrow> serve_registry \<Rightarrow> serve_registry option" where
  "queue_try_send q r reg = (if length (sq_items (queue_at q reg)) < QUEUE_CAPACITY
     then Some (upd_queue q (\<lambda>x. x\<lparr>sq_items := sq_items x @ [r]\<rparr>) reg) else None)"

definition deno_deliver :: "u64 \<Rightarrow> deliverable_request \<Rightarrow> serve_registry \<Rightarrow> (string + unit) \<times> serve_registry" where
  "deno_deliver h r reg = (case sr_get h reg of
       None \<Rightarrow> (Inl ''deno registry miss'', reg)
     | Some q \<Rightarrow>
         if sq_shutdown (queue_at q reg) then (Inl ''deno serve shutdown'', reg)
         else (case queue_try_send q r reg of
            None \<Rightarrow> (Inl ''deno serve queue full'', reg)
          | Some reg1 \<Rightarrow> (Inr (), wake_request_loop q reg1)))"

definition deliver_request_to_queue :: "http_lib \<Rightarrow> 'c mpsc_ops \<Rightarrow> u64 \<Rightarrow> request_payload \<Rightarrow> serve_registry \<Rightarrow> 'c disp_sys
    \<Rightarrow> serve_registry \<times> 'c disp_sys" where
  "deliver_request_to_queue lib ops h p reg d =
     (snd (deno_deliver h (from_payload p) reg), deliver_request lib ops (\<lambda>r. fst (deno_deliver h r reg)) p d)"

definition push_conn_event :: "nat \<Rightarrow> string \<times> bool \<Rightarrow> serve_registry \<Rightarrow> serve_registry" where
  "push_conn_event q ev reg = (if length (sq_conn_items (queue_at q reg)) < QUEUE_CAPACITY
     then upd_queue q (\<lambda>x. x\<lparr>sq_conn_items := sq_conn_items x @ [ev]\<rparr>) reg else reg)"

section \<open>Polling\<close>

text \<open>An output buffer of the caller.  A length is returned as \<open>i32\<close>, a required length negated.\<close>

record out_buf =
  ob_null :: bool
  ob_cap :: nat

definition neg_len :: "nat \<Rightarrow> int" where
  "neg_len n = (if n \<le> 2 ^ 31 - 1 then - int n else - (2 ^ 31))"

definition len_as_i32 :: "nat \<Rightarrow> int" where
  "len_as_i32 n = sint (of_nat n :: 32 word)"

definition bad_out :: "out_buf \<Rightarrow> bool" where
  "bad_out out \<longleftrightarrow> 0 < ob_cap out \<and> ob_null out"

definition copy_out :: "out_buf \<Rightarrow> bytes \<Rightarrow> int \<times> bytes" where
  "copy_out out b = (if ob_cap out < length b then (neg_len (length b), []) else (len_as_i32 (length b), b))"

definition iroh_http_set_request_ready_callback :: "u64 \<Rightarrow> u64 \<Rightarrow> serve_registry \<Rightarrow> int \<times> serve_registry" where
  "iroh_http_set_request_ready_callback h t reg = (case sr_get h reg of
       None \<Rightarrow> (- 1, reg)
     | Some q \<Rightarrow> (0, set_request_ready_waker q t reg))"

text \<open>\<open>enc\<close> encodes the JSON event of a request.\<close>

definition iroh_http_try_next_request :: "(deliverable_request \<Rightarrow> bytes) \<Rightarrow> u64 \<Rightarrow> out_buf \<Rightarrow> serve_registry
    \<Rightarrow> (int \<times> bytes) \<times> serve_registry" where
  "iroh_http_try_next_request enc h out reg =
     (if bad_out out then ((- 1, []), reg)
      else (case sr_get h reg of
          None \<Rightarrow> ((- 1, []), reg)
        | Some q \<Rightarrow>
            if sq_shutdown (queue_at q reg) then ((- 1, []), reg)
            else if sq_locked (queue_at q reg) then ((0, []), reg)
            else (case sq_items (queue_at q reg) of
                [] \<Rightarrow> ((0, []), reg)
              | r # rs \<Rightarrow> (copy_out out (enc r), upd_queue q (\<lambda>x. x\<lparr>sq_items := rs\<rparr>) reg))))"

text \<open>One poll of the select in \<open>nextRequest\<close> and \<open>nextConnectionEvent\<close>: the shutdown branch first.\<close>

definition next_request_poll :: "nat \<Rightarrow> serve_registry \<Rightarrow> deliverable_request option poll \<times> serve_registry" where
  "next_request_poll q reg =
     (if sq_shutdown (queue_at q reg) then (Ready None, reg)
      else (case sq_items (queue_at q reg) of
          [] \<Rightarrow> (Pending, reg)
        | r # rs \<Rightarrow> (Ready (Some r), upd_queue q (\<lambda>x. x\<lparr>sq_items := rs\<rparr>) reg)))"

definition next_connection_event_poll :: "nat \<Rightarrow> serve_registry \<Rightarrow> (string \<times> bool) option poll \<times> serve_registry" where
  "next_connection_event_poll q reg =
     (if sq_shutdown (queue_at q reg) then (Ready None, reg)
      else (case sq_conn_items (queue_at q reg) of
          [] \<Rightarrow> (Pending, reg)
        | e # es \<Rightarrow> (Ready (Some e), upd_queue q (\<lambda>x. x\<lparr>sq_conn_items := es\<rparr>) reg)))"

section \<open>Stopping\<close>

text \<open>The part of \<open>stopServe\<close> after the endpoint was told to stop and before it is awaited: signal, then answer what is queued.\<close>

definition stop_serve_drain :: "http_lib \<Rightarrow> u64 \<Rightarrow> serve_registry \<Rightarrow> 'c disp_sys \<Rightarrow> serve_registry \<times> 'c disp_sys" where
  "stop_serve_drain lib h reg d = (let reg1 = signal_shutdown h reg in
     case sr_get h reg1 of
       None \<Rightarrow> (reg1, d)
     | Some q \<Rightarrow> if sq_locked (queue_at q reg1) then (reg1, d)
         else (upd_queue q (\<lambda>x. x\<lparr>sq_items := []\<rparr>) reg1,
           fold (\<lambda>r d. snd (send_undeliverable_rejection lib (dq_req_handle r) ''deno stopServe drain'' d))
             (sq_items (queue_at q reg1)) d))"

section \<open>Tasks\<close>

datatype deno_task = DeliverCheck nat deliverable_request | DeliverSend nat deliverable_request | WakeRead nat | WakeCall nat u64
  | WakerCheck nat u64 | PollTake nat nat | Draining nat

text \<open>The system: the registry, the tasks under way, the loops that found nothing (with the number of callbacks made when
  their poll began), and the requests queued and removed so far with their queue.\<close>

record deno_serve =
  ds_reg :: serve_registry
  ds_tasks :: "deno_task list"
  ds_parked :: "(nat \<times> nat) list"
  ds_accepted :: "(nat \<times> deliverable_request) list"
  ds_removed :: "(nat \<times> deliverable_request) list"

definition deno_step :: "deno_task \<Rightarrow> deno_serve \<Rightarrow> deno_task list \<times> deno_serve" where
  "deno_step t s = (let reg = ds_reg s in case t of
       DeliverCheck q r \<Rightarrow> ((if sq_shutdown (queue_at q reg) then [] else [DeliverSend q r]), s)
     | DeliverSend q r \<Rightarrow> (case queue_try_send q r reg of
          None \<Rightarrow> ([], s)
        | Some reg1 \<Rightarrow> ([WakeRead q], s\<lparr>ds_reg := reg1, ds_accepted := ds_accepted s @ [(q, r)]\<rparr>))
     | WakeRead q \<Rightarrow> ((case sq_waker (queue_at q reg) of None \<Rightarrow> [] | Some w \<Rightarrow> [WakeCall q w]), s)
     | WakeCall q w \<Rightarrow> ([], s\<lparr>ds_reg := waker_wake w reg\<rparr>)
     | WakerCheck q w \<Rightarrow> ([], s\<lparr>ds_reg := waker_check q w reg\<rparr>)
     | PollTake q k \<Rightarrow> ([], if sq_locked (queue_at q reg) then s\<lparr>ds_parked := al_put q k (ds_parked s)\<rparr>
          else (case sq_items (queue_at q reg) of
              [] \<Rightarrow> s\<lparr>ds_parked := al_put q k (ds_parked s)\<rparr>
            | r # rs \<Rightarrow> s\<lparr>ds_reg := upd_queue q (\<lambda>x. x\<lparr>sq_items := rs\<rparr>) reg, ds_removed := ds_removed s @ [(q, r)]\<rparr>))
     | Draining q \<Rightarrow> (case sq_items (queue_at q reg) of
          [] \<Rightarrow> ([], s\<lparr>ds_reg := upd_queue q (\<lambda>x. x\<lparr>sq_locked := False\<rparr>) reg\<rparr>)
        | r # rs \<Rightarrow> ([Draining q], s\<lparr>ds_reg := upd_queue q (\<lambda>x. x\<lparr>sq_items := rs\<rparr>) reg, ds_removed := ds_removed s @ [(q, r)]\<rparr>)))"

definition start_task :: "deno_task \<Rightarrow> deno_serve \<Rightarrow> deno_serve" where
  "start_task t s = s\<lparr>ds_tasks := ds_tasks s @ [t]\<rparr>"

definition run_task :: "deno_task \<Rightarrow> deno_serve \<Rightarrow> deno_serve" where
  "run_task t s = (case deno_step t s of (ts, s') \<Rightarrow> s'\<lparr>ds_tasks := remove1 t (ds_tasks s) @ ts\<rparr>)"

text \<open>Every interleaving of deliveries, callback installations, polls of the request loop, shutdowns and drains.  A drain
  follows the shutdown of its queue: \<open>stopServe\<close> and \<open>serveStart\<close> on one endpoint do not overlap.\<close>

inductive serve_step :: "deno_serve \<Rightarrow> deno_serve \<Rightarrow> bool" where
  sv_register: "serve_step s (s\<lparr>ds_reg := snd (sr_register h (ds_reg s))\<rparr>)"
| sv_unregister: "sr_get h (ds_reg s) = Some q \<Longrightarrow> serve_step s (start_task (WakeRead q)
     (s\<lparr>ds_reg := send_shutdown q ((ds_reg s)\<lparr>sr_map := al_del h (sr_map (ds_reg s))\<rparr>)\<rparr>))"
| sv_shutdown: "sr_get h (ds_reg s) = Some q \<Longrightarrow> serve_step s (start_task (WakeRead q) (s\<lparr>ds_reg := send_shutdown q (ds_reg s)\<rparr>))"
| sv_deliver: "sr_get h (ds_reg s) = Some q \<Longrightarrow> serve_step s (start_task (DeliverCheck q r) s)"
| sv_install: "sr_get h (ds_reg s) = Some q \<Longrightarrow> serve_step s (start_task (WakerCheck q t) (s\<lparr>ds_reg := install_waker q t (ds_reg s)\<rparr>))"
| sv_poll: "sr_get h (ds_reg s) = Some q \<Longrightarrow> \<not> sq_shutdown (queue_at q (ds_reg s)) \<Longrightarrow>
     serve_step s (start_task (PollTake q (length (sr_wakes (ds_reg s)))) (s\<lparr>ds_parked := al_del q (ds_parked s)\<rparr>))"
| sv_drain: "sr_get h (ds_reg s) = Some q \<Longrightarrow> sq_shutdown (queue_at q (ds_reg s)) \<Longrightarrow> \<not> sq_locked (queue_at q (ds_reg s)) \<Longrightarrow>
     serve_step s (start_task (Draining q) (s\<lparr>ds_reg := upd_queue q (\<lambda>x. x\<lparr>sq_locked := True\<rparr>) (ds_reg s)\<rparr>))"
| sv_run: "t \<in> set (ds_tasks s) \<Longrightarrow> serve_step s (run_task t s)"

definition serve_start_state :: deno_serve where
  "serve_start_state = \<lparr>ds_reg = \<lparr>sr_map = [], sr_queues = [], sr_wakes = []\<rparr>, ds_tasks = [], ds_parked = [],
     ds_accepted = [], ds_removed = []\<rparr>"

abbreviation serve_reachable :: "deno_serve \<Rightarrow> bool" where
  "serve_reachable s \<equiv> serve_step\<^sup>*\<^sup>* serve_start_state s"

end
