(* ===== verification/Deno_Serve_Props.thy ===== *)
theory Deno_Serve_Props
  imports Deno_Serve Adapter_Props
begin

text \<open>
  The request queues of the Deno package: a loop that waits is woken, requests leave a queue in the order they entered
  it, and what happens to the requests of a stopped cycle.
\<close>

section \<open>Frame facts\<close>

lemma queue_upd [simp]:
  "length (sr_queues (upd_queue q f reg)) = length (sr_queues reg)"
  "p < length (sr_queues reg) \<Longrightarrow> queue_at p (upd_queue q f reg) = (if p = q then f (queue_at q reg) else queue_at p reg)"
  "sr_map (upd_queue q f reg) = sr_map reg" "sr_wakes (upd_queue q f reg) = sr_wakes reg"
  by (auto simp: upd_queue_def queue_at_def nth_list_update)

lemma queue_wake [simp]:
  "queue_at p (waker_wake t reg) = queue_at p reg" "sr_queues (waker_wake t reg) = sr_queues reg"
  "sr_map (waker_wake t reg) = sr_map reg" "sr_wakes (waker_wake t reg) = sr_wakes reg @ [t]"
  by (simp_all add: waker_wake_def queue_at_def)

lemma queue_map [simp]: "queue_at p (reg\<lparr>sr_map := m\<rparr>) = queue_at p reg"
  by (simp add: queue_at_def)

section \<open>The invariant\<close>

definition task_queue :: "deno_task \<Rightarrow> nat" where
  "task_queue t = (case t of DeliverCheck q _ \<Rightarrow> q | DeliverSend q _ \<Rightarrow> q | WakeRead q \<Rightarrow> q | WakeCall q _ \<Rightarrow> q
     | WakerCheck q _ \<Rightarrow> q | PollTake q _ \<Rightarrow> q | Draining q \<Rightarrow> q)"

lemma task_queue_simps [simp]:
  "task_queue (DeliverCheck q r) = q" "task_queue (DeliverSend q r) = q" "task_queue (WakeRead q) = q"
  "task_queue (WakeCall q t) = q" "task_queue (WakerCheck q t) = q" "task_queue (PollTake q k) = q" "task_queue (Draining q) = q"
  by (simp_all add: task_queue_def)

text \<open>The loop of token \<open>t\<close> has been called back since the first \<open>k\<close> callbacks, or a task is about to do it.\<close>

definition alerted :: "deno_serve \<Rightarrow> nat \<Rightarrow> u64 \<Rightarrow> nat \<Rightarrow> bool" where
  "alerted s q t k \<longleftrightarrow> t \<in> set (drop k (sr_wakes (ds_reg s))) \<or> WakeRead q \<in> set (ds_tasks s)
     \<or> WakerCheck q t \<in> set (ds_tasks s) \<or> WakeCall q t \<in> set (ds_tasks s)"

definition queue_ok :: "deno_serve \<Rightarrow> nat \<Rightarrow> bool" where
  "queue_ok s q \<longleftrightarrow> (let x = queue_at q (ds_reg s) in
     (sq_locked x \<longrightarrow> sq_shutdown x) \<and> length (sq_items x) \<le> QUEUE_CAPACITY
     \<and> (\<forall>t k. sq_waker x = Some t \<longrightarrow> map_of (ds_parked s) q = Some k \<longrightarrow> sq_items x \<noteq> [] \<or> sq_shutdown x \<longrightarrow> alerted s q t k)
     \<and> (\<forall>t k. sq_waker x = Some t \<longrightarrow> PollTake q k \<in> set (ds_tasks s) \<longrightarrow> sq_shutdown x \<longrightarrow> alerted s q t k)
     \<and> map snd (filter (\<lambda>(p, r). p = q) (ds_accepted s)) = map snd (filter (\<lambda>(p, r). p = q) (ds_removed s)) @ sq_items x)"

definition serve_ok :: "deno_serve \<Rightarrow> bool" where
  "serve_ok s \<longleftrightarrow> (\<forall>q < length (sr_queues (ds_reg s)). queue_ok s q)
     \<and> snd ` set (sr_map (ds_reg s)) \<subseteq> {..<length (sr_queues (ds_reg s))}
     \<and> task_queue ` set (ds_tasks s) \<subseteq> {..<length (sr_queues (ds_reg s))}
     \<and> fst ` set (ds_accepted s) \<subseteq> {..<length (sr_queues (ds_reg s))} \<and> fst ` set (ds_removed s) \<subseteq> {..<length (sr_queues (ds_reg s))}
     \<and> (\<forall>q k. map_of (ds_parked s) q = Some k \<longrightarrow> q < length (sr_queues (ds_reg s)) \<and> k \<le> length (sr_wakes (ds_reg s)))
     \<and> (\<forall>q k. PollTake q k \<in> set (ds_tasks s) \<longrightarrow> k \<le> length (sr_wakes (ds_reg s)))"

lemma serve_ok_start: "serve_ok serve_start_state"
  by (simp add: serve_ok_def serve_start_state_def)

lemma serve_okD:
  assumes "serve_ok s"
  shows "q < length (sr_queues (ds_reg s)) \<Longrightarrow> queue_ok s q"
    "sr_get h (ds_reg s) = Some q \<Longrightarrow> q < length (sr_queues (ds_reg s))"
    "t \<in> set (ds_tasks s) \<Longrightarrow> task_queue t < length (sr_queues (ds_reg s))"
    "map_of (ds_parked s) q = Some k \<Longrightarrow> k \<le> length (sr_wakes (ds_reg s))"
    "PollTake q k \<in> set (ds_tasks s) \<Longrightarrow> k \<le> length (sr_wakes (ds_reg s))"
  using assms by (auto simp: serve_ok_def sr_get_def image_subset_iff dest!: map_of_SomeD)

text \<open>Another state in which one queue may have changed: what has to be checked.\<close>

lemma queue_okI:
  assumes "sq_locked (queue_at q (ds_reg s)) \<Longrightarrow> sq_shutdown (queue_at q (ds_reg s))"
    "length (sq_items (queue_at q (ds_reg s))) \<le> QUEUE_CAPACITY"
    "\<And>t k. sq_waker (queue_at q (ds_reg s)) = Some t \<Longrightarrow> map_of (ds_parked s) q = Some k
       \<Longrightarrow> sq_items (queue_at q (ds_reg s)) \<noteq> [] \<or> sq_shutdown (queue_at q (ds_reg s)) \<Longrightarrow> alerted s q t k"
    "\<And>t k. sq_waker (queue_at q (ds_reg s)) = Some t \<Longrightarrow> PollTake q k \<in> set (ds_tasks s)
       \<Longrightarrow> sq_shutdown (queue_at q (ds_reg s)) \<Longrightarrow> alerted s q t k"
    "map snd (filter (\<lambda>(p, r). p = q) (ds_accepted s))
       = map snd (filter (\<lambda>(p, r). p = q) (ds_removed s)) @ sq_items (queue_at q (ds_reg s))"
  shows "queue_ok s q"
  using assms by (auto simp: queue_ok_def Let_def)

lemma queue_okD:
  assumes "queue_ok s q"
  shows "sq_locked (queue_at q (ds_reg s)) \<Longrightarrow> sq_shutdown (queue_at q (ds_reg s))"
    "length (sq_items (queue_at q (ds_reg s))) \<le> QUEUE_CAPACITY"
    "sq_waker (queue_at q (ds_reg s)) = Some t \<Longrightarrow> map_of (ds_parked s) q = Some k
       \<Longrightarrow> sq_items (queue_at q (ds_reg s)) \<noteq> [] \<or> sq_shutdown (queue_at q (ds_reg s)) \<Longrightarrow> alerted s q t k"
    "sq_waker (queue_at q (ds_reg s)) = Some t \<Longrightarrow> PollTake q k \<in> set (ds_tasks s)
       \<Longrightarrow> sq_shutdown (queue_at q (ds_reg s)) \<Longrightarrow> alerted s q t k"
    "map snd (filter (\<lambda>(p, r). p = q) (ds_accepted s))
       = map snd (filter (\<lambda>(p, r). p = q) (ds_removed s)) @ sq_items (queue_at q (ds_reg s))"
  using assms by (auto simp: queue_ok_def Let_def)

text \<open>A step that keeps a queue as it is, loses no alert, and adds no parked loop, no poll and no record for it.\<close>

definition quiet_for :: "nat \<Rightarrow> deno_serve \<Rightarrow> deno_serve \<Rightarrow> bool" where
  "quiet_for q s s' \<longleftrightarrow> queue_at q (ds_reg s') = queue_at q (ds_reg s)
     \<and> (\<forall>t k. sq_waker (queue_at q (ds_reg s)) = Some t \<longrightarrow> k \<le> length (sr_wakes (ds_reg s)) \<longrightarrow> alerted s q t k \<longrightarrow> alerted s' q t k)
     \<and> (\<forall>k. map_of (ds_parked s') q = Some k \<longrightarrow> map_of (ds_parked s) q = Some k)
     \<and> (\<forall>k. PollTake q k \<in> set (ds_tasks s') \<longrightarrow> PollTake q k \<in> set (ds_tasks s) \<or> \<not> sq_shutdown (queue_at q (ds_reg s)))
     \<and> filter (\<lambda>(p, r). p = q) (ds_accepted s') = filter (\<lambda>(p, r). p = q) (ds_accepted s)
     \<and> filter (\<lambda>(p, r). p = q) (ds_removed s') = filter (\<lambda>(p, r). p = q) (ds_removed s)"

lemma quiet_queue_ok:
  assumes "quiet_for q s s'" "serve_ok s" "q < length (sr_queues (ds_reg s))"
  shows "queue_ok s' q"
proof -
  note ok = queue_okD [OF serve_okD(1) [OF assms(2,3)]] and k = serve_okD(4,5) [OF assms(2)]
  have e: "queue_at q (ds_reg s') = queue_at q (ds_reg s)" using assms(1) by (simp add: quiet_for_def)
  show ?thesis
  proof (rule queue_okI)
    fix t k assume a: "sq_waker (queue_at q (ds_reg s')) = Some t" "map_of (ds_parked s') q = Some k"
      "sq_items (queue_at q (ds_reg s')) \<noteq> [] \<or> sq_shutdown (queue_at q (ds_reg s'))"
    then have "map_of (ds_parked s) q = Some k" using assms(1) by (auto simp: quiet_for_def)
    then show "alerted s' q t k"
      using a(1,3) assms(1) ok(3) [of t k] k(1) [of q k] unfolding e by (auto simp: quiet_for_def)
  next
    fix t k assume a: "sq_waker (queue_at q (ds_reg s')) = Some t" "PollTake q k \<in> set (ds_tasks s')" "sq_shutdown (queue_at q (ds_reg s'))"
    then have "PollTake q k \<in> set (ds_tasks s)" using assms(1) by (auto simp: quiet_for_def)
    then show "alerted s' q t k"
      using a(1,3) assms(1) ok(4) [of t k] k(2) [of q k] unfolding e by (auto simp: quiet_for_def)
  qed (use ok(1,2,5) assms(1) in \<open>simp_all add: e quiet_for_def\<close>)
qed

lemma alerted_mono:
  assumes "alerted s q t k" "sr_wakes (ds_reg s') = sr_wakes (ds_reg s) @ ws"
    "\<And>x. x \<in> set (ds_tasks s) \<Longrightarrow> task_queue x = q \<Longrightarrow> x \<in> set (ds_tasks s')"
  shows "alerted s' q t k"
  using assms by (auto simp: alerted_def)

lemma serve_ok_frame:
  assumes "serve_ok s" "length (sr_queues (ds_reg s')) = length (sr_queues (ds_reg s))" "q0 < length (sr_queues (ds_reg s))"
    and "set (sr_map (ds_reg s')) \<subseteq> set (sr_map (ds_reg s))"
    and "\<And>x. x \<in> set (ds_tasks s') \<Longrightarrow> x \<in> set (ds_tasks s) \<or> task_queue x = q0"
    and "\<And>x. x \<in> set (ds_accepted s') \<Longrightarrow> x \<in> set (ds_accepted s) \<or> fst x = q0"
    and "\<And>x. x \<in> set (ds_removed s') \<Longrightarrow> x \<in> set (ds_removed s) \<or> fst x = q0"
    and "\<And>q k. map_of (ds_parked s') q = Some k \<Longrightarrow> map_of (ds_parked s) q = Some k \<or> q = q0 \<and> k \<le> length (sr_wakes (ds_reg s))"
    and "\<And>q k. PollTake q k \<in> set (ds_tasks s') \<Longrightarrow> PollTake q k \<in> set (ds_tasks s) \<or> k \<le> length (sr_wakes (ds_reg s))"
    and "length (sr_wakes (ds_reg s)) \<le> length (sr_wakes (ds_reg s'))"
    and "\<And>q. q < length (sr_queues (ds_reg s)) \<Longrightarrow> q \<noteq> q0 \<Longrightarrow> quiet_for q s s'" and "queue_ok s' q0"
  shows "serve_ok s'"
proof -
  have "queue_ok s' q" if "q < length (sr_queues (ds_reg s'))" for q
    using that assms(2,12) quiet_queue_ok [OF assms(11) assms(1), of q] by (cases "q = q0") auto
  moreover have "map_of (ds_parked s') q = Some k \<Longrightarrow> q < length (sr_queues (ds_reg s)) \<and> k \<le> length (sr_wakes (ds_reg s'))" for q k
    using assms(1,3,8,10) by (auto simp: serve_ok_def dest!: assms(8)) (meson le_trans)+
  moreover have "PollTake q k \<in> set (ds_tasks s') \<Longrightarrow> k \<le> length (sr_wakes (ds_reg s'))" for q k
    using serve_okD(5) [OF assms(1)] assms(9,10) le_trans by blast
  ultimately show ?thesis
    using assms(1-7) by (fastforce simp: serve_ok_def image_subset_iff)
qed

text \<open>Starting a task on a queue that the registry knows.\<close>

lemma start_frame:
  assumes "serve_ok s" "q0 < length (sr_queues (ds_reg s))" "task_queue t = q0"
    and "s' = start_task t (s\<lparr>ds_reg := reg, ds_parked := pk\<rparr>)"
    and "length (sr_queues reg) = length (sr_queues (ds_reg s))" "\<And>q. q < length (sr_queues reg) \<Longrightarrow> q \<noteq> q0 \<Longrightarrow> queue_at q reg = queue_at q (ds_reg s)"
    and "sr_wakes reg = sr_wakes (ds_reg s)" "set (sr_map reg) \<subseteq> set (sr_map (ds_reg s))"
    and "\<And>q k. map_of pk q = Some k \<Longrightarrow> map_of (ds_parked s) q = Some k"
    and "\<And>k. t = PollTake q0 k \<Longrightarrow> k \<le> length (sr_wakes (ds_reg s))"
    and "queue_ok s' q0"
  shows "serve_ok s'"
proof (rule serve_ok_frame [OF assms(1) _ assms(2) _ _ _ _ _ _ _ _ assms(11)])
  fix q assume "q < length (sr_queues (ds_reg s))" "q \<noteq> q0"
  then show "quiet_for q s s'"
    using assms(3-7,9) by (auto simp: quiet_for_def start_task_def elim!: alerted_mono [where ws = "[]"])
qed (use assms(3-10) in \<open>auto simp: start_task_def\<close>)

lemma shutdown_queue_ok:
  assumes "serve_ok s" "q < length (sr_queues (ds_reg s))" "sr_queues reg = sr_queues (ds_reg s)" "sr_wakes reg = sr_wakes (ds_reg s)"
  shows "queue_ok (start_task (WakeRead q) (s\<lparr>ds_reg := send_shutdown q reg\<rparr>)) q"
proof -
  have e: "queue_at q reg = queue_at q (ds_reg s)" "q < length (sr_queues reg)" using assms(2,3) by (simp_all add: queue_at_def)
  show ?thesis
    by (rule queue_okI)
      (use queue_okD [OF serve_okD(1) [OF assms(1,2)]] e in \<open>auto simp: start_task_def send_shutdown_def alerted_def\<close>)
qed

lemma serve_ok_starts:
  assumes "serve_ok s" "sr_get h (ds_reg s) = Some q"
  shows "serve_ok (start_task (WakeRead q) (s\<lparr>ds_reg := send_shutdown q ((ds_reg s)\<lparr>sr_map := al_del h (sr_map (ds_reg s))\<rparr>)\<rparr>))"
    "serve_ok (start_task (WakeRead q) (s\<lparr>ds_reg := send_shutdown q (ds_reg s)\<rparr>))"
    "serve_ok (start_task (DeliverCheck q r) s)"
    "serve_ok (start_task (WakerCheck q t) (s\<lparr>ds_reg := install_waker q t (ds_reg s)\<rparr>))"
proof -
  note q = serve_okD(2) [OF assms] and ok = queue_okD [OF serve_okD(1) [OF assms(1) serve_okD(2) [OF assms]]]
  show "serve_ok (start_task (WakeRead q) (s\<lparr>ds_reg := send_shutdown q ((ds_reg s)\<lparr>sr_map := al_del h (sr_map (ds_reg s))\<rparr>)\<rparr>))"
    by (rule start_frame [OF assms(1) q _ _ _ _ _ _ _ _ shutdown_queue_ok [OF assms(1) q],
        where pk = "ds_parked s" and t = "WakeRead q" and reg = "send_shutdown q ((ds_reg s)\<lparr>sr_map := al_del h (sr_map (ds_reg s))\<rparr>)"])
      (auto simp: send_shutdown_def al_del_def)
  show "serve_ok (start_task (WakeRead q) (s\<lparr>ds_reg := send_shutdown q (ds_reg s)\<rparr>))"
    by (rule start_frame [OF assms(1) q _ _ _ _ _ _ _ _ shutdown_queue_ok [OF assms(1) q],
        where pk = "ds_parked s" and t = "WakeRead q" and reg = "send_shutdown q (ds_reg s)"])
      (auto simp: send_shutdown_def)
  have d: "queue_ok (start_task (DeliverCheck q r) s) q"
    by (rule queue_okI) (use ok in \<open>auto simp: start_task_def alerted_def\<close>)
  show "serve_ok (start_task (DeliverCheck q r) s)"
    by (rule start_frame [OF assms(1) q _ _ _ _ _ _ _ _ d, where pk = "ds_parked s" and reg = "ds_reg s" and t = "DeliverCheck q r"]) simp_all
  have w: "queue_ok (start_task (WakerCheck q t) (s\<lparr>ds_reg := install_waker q t (ds_reg s)\<rparr>)) q"
    by (rule queue_okI) (use ok q in \<open>auto simp: start_task_def install_waker_def alerted_def\<close>)
  show "serve_ok (start_task (WakerCheck q t) (s\<lparr>ds_reg := install_waker q t (ds_reg s)\<rparr>))"
    by (rule start_frame [OF assms(1) q _ _ _ _ _ _ _ _ w, where pk = "ds_parked s" and t = "WakerCheck q t"
        and reg = "install_waker q t (ds_reg s)"]) (auto simp: install_waker_def)
qed

lemma serve_ok_poll:
  assumes "serve_ok s" "sr_get h (ds_reg s) = Some q" "\<not> sq_shutdown (queue_at q (ds_reg s))"
  shows "serve_ok (start_task (PollTake q (length (sr_wakes (ds_reg s)))) (s\<lparr>ds_parked := al_del q (ds_parked s)\<rparr>))"
proof -
  note q = serve_okD(2) [OF assms(1,2)] and ok = queue_okD [OF serve_okD(1) [OF assms(1) serve_okD(2) [OF assms(1,2)]]]
  have p: "queue_ok (start_task (PollTake q (length (sr_wakes (ds_reg s)))) (s\<lparr>ds_parked := al_del q (ds_parked s)\<rparr>)) q"
    by (rule queue_okI) (use ok assms(3) in \<open>auto simp: start_task_def\<close>)
  show ?thesis
    by (rule start_frame [OF assms(1) q _ _ _ _ _ _ _ _ p, where pk = "al_del q (ds_parked s)" and reg = "ds_reg s"
        and t = "PollTake q (length (sr_wakes (ds_reg s)))"]) (simp_all split: if_splits)
qed

lemma serve_ok_drain:
  assumes "serve_ok s" "sr_get h (ds_reg s) = Some q" "sq_shutdown (queue_at q (ds_reg s))"
  shows "serve_ok (start_task (Draining q) (s\<lparr>ds_reg := upd_queue q (\<lambda>x. x\<lparr>sq_locked := True\<rparr>) (ds_reg s)\<rparr>))"
proof -
  note q = serve_okD(2) [OF assms(1,2)] and ok = queue_okD [OF serve_okD(1) [OF assms(1) serve_okD(2) [OF assms(1,2)]]]
  have d: "queue_ok (start_task (Draining q) (s\<lparr>ds_reg := upd_queue q (\<lambda>x. x\<lparr>sq_locked := True\<rparr>) (ds_reg s)\<rparr>)) q"
    by (rule queue_okI) (use ok q assms(3) in \<open>auto simp: start_task_def alerted_def\<close>)
  show ?thesis by (rule start_frame [OF assms(1) q _ _ _ _ _ _ _ _ d, where pk = "ds_parked s" and t = "Draining q"
        and reg = "upd_queue q (\<lambda>x. x\<lparr>sq_locked := True\<rparr>) (ds_reg s)"]) auto
qed

lemma serve_ok_register:
  assumes "serve_ok s"
  shows "serve_ok (s\<lparr>ds_reg := snd (sr_register h (ds_reg s))\<rparr>)"
proof -
  let ?n = "length (sr_queues (ds_reg s))" and ?s = "s\<lparr>ds_reg := snd (sr_register h (ds_reg s))\<rparr>"
  have e: "queue_at q (ds_reg ?s) = (if q < ?n then queue_at q (ds_reg s) else queue_new)" if "q < Suc ?n" for q
    using that by (auto simp: sr_register_def queue_at_def nth_append Let_def less_Suc_eq)
  have "queue_ok ?s q" if "q < Suc ?n" for q
  proof (cases "q < ?n")
    case True
    then have "quiet_for q s ?s" using e [OF that] by (simp add: quiet_for_def alerted_def sr_register_def Let_def)
    from quiet_queue_ok [OF this assms True] show ?thesis .
  next
    case False
    have "filter (\<lambda>(p, r). p = q) (ds_accepted s) = []" "filter (\<lambda>(p, r). p = q) (ds_removed s) = []"
      using assms False by (auto simp: serve_ok_def filter_empty_conv image_subset_iff)
    then show ?thesis
      by (intro queue_okI) (use e [OF that] False in \<open>auto simp: queue_new_def QUEUE_CAPACITY_def\<close>)
  qed
  then show ?thesis
    using assms
    by (auto simp: serve_ok_def sr_register_def al_put_def al_del_def Let_def image_subset_iff less_Suc_eq split: prod.splits)
qed

section \<open>Running tasks\<close>

lemma run_tasks:
  "ds_tasks (run_task t s) = remove1 t (ds_tasks s) @ fst (deno_step t s)"
  "ds_reg (run_task t s) = ds_reg (snd (deno_step t s))" "ds_parked (run_task t s) = ds_parked (snd (deno_step t s))"
  "ds_accepted (run_task t s) = ds_accepted (snd (deno_step t s))" "ds_removed (run_task t s) = ds_removed (snd (deno_step t s))"
  by (auto simp: run_task_def split: prod.splits)

text \<open>What a step does outside its own queue.\<close>

lemma step_frame:
  assumes "deno_step t s = (ts, s')"
  shows "length (sr_queues (ds_reg s')) = length (sr_queues (ds_reg s))" "sr_map (ds_reg s') = sr_map (ds_reg s)"
    "\<And>x. x \<in> set ts \<Longrightarrow> task_queue x = task_queue t \<and> (\<forall>q k. x \<noteq> PollTake q k)"
    "\<exists>ws. sr_wakes (ds_reg s') = sr_wakes (ds_reg s) @ ws"
    "\<And>p. p < length (sr_queues (ds_reg s)) \<Longrightarrow> p \<noteq> task_queue t \<Longrightarrow> queue_at p (ds_reg s') = queue_at p (ds_reg s)"
    "\<And>p. p \<noteq> task_queue t \<Longrightarrow> map_of (ds_parked s') p = map_of (ds_parked s) p"
    "\<And>k. map_of (ds_parked s') (task_queue t) = Some k \<Longrightarrow> map_of (ds_parked s) (task_queue t) = Some k \<or> t = PollTake (task_queue t) k"
    "\<exists>xs. ds_accepted s' = ds_accepted s @ xs \<and> fst ` set xs \<subseteq> {task_queue t}"
    "\<exists>xs. ds_removed s' = ds_removed s @ xs \<and> fst ` set xs \<subseteq> {task_queue t}"
  using assms
  by (auto simp: deno_step_def Let_def queue_try_send_def waker_check_def split: deno_task.splits option.splits list.splits if_splits)

lemma filter_other: "fst ` set xs \<subseteq> {p} \<Longrightarrow> q \<noteq> p \<Longrightarrow> filter (\<lambda>(x, r). x = q) xs = []"
  by (auto simp: filter_empty_conv)

lemma run_quiet:
  assumes "q < length (sr_queues (ds_reg s))" "q \<noteq> task_queue t"
  shows "quiet_for q s (run_task t s)"
proof -
  obtain ts s' where st: "deno_step t s = (ts, s')" by (metis prod.exhaust)
  note f = step_frame [OF st]
  have al: "alerted (run_task t s) q w k" if "alerted s q w k" for w k
  proof -
    obtain ws where "sr_wakes (ds_reg (run_task t s)) = sr_wakes (ds_reg s) @ ws" using f(4) st by (auto simp: run_tasks)
    moreover have "x \<in> set (ds_tasks (run_task t s))" if "x \<in> set (ds_tasks s)" "task_queue x = q" for x
      using that assms(2) by (cases "x = t") (auto simp: run_tasks)
    ultimately show ?thesis using alerted_mono [OF that] by blast
  qed
  obtain xs ys where "ds_accepted s' = ds_accepted s @ xs" "fst ` set xs \<subseteq> {task_queue t}"
      "ds_removed s' = ds_removed s @ ys" "fst ` set ys \<subseteq> {task_queue t}" using f(8,9) by blast
  then show ?thesis
    using al f(5) [OF assms] f(6) [OF assms(2)] f(3) [of "PollTake q _"] st filter_other [OF _ assms(2)]
    by (auto simp: quiet_for_def run_tasks dest: notin_set_remove1 set_remove1_subset [THEN subsetD])
qed

lemma alerted_run:
  assumes "alerted s q w k" "sq_waker (queue_at q (ds_reg s)) = Some w" "k \<le> length (sr_wakes (ds_reg s))"
    and "\<And>x. t = WakerCheck q x \<Longrightarrow> sq_shutdown (queue_at q (ds_reg s)) \<or> request_waiting (queue_at q (ds_reg s))"
  shows "alerted (run_task t s) q w k"
proof -
  obtain ts s' where st: "deno_step t s = (ts, s')" by (metis prod.exhaust)
  obtain ws where ws: "sr_wakes (ds_reg s') = sr_wakes (ds_reg s) @ ws" using step_frame(4) [OF st] by blast
  have keep: "x \<noteq> t \<Longrightarrow> x \<in> set (ds_tasks s) \<Longrightarrow> x \<in> set (ds_tasks (run_task t s))" for x by (auto simp: run_tasks)
  consider "w \<in> set (drop k (sr_wakes (ds_reg s)))" | "WakeRead q \<in> set (ds_tasks s)" | "WakerCheck q w \<in> set (ds_tasks s)"
    | "WakeCall q w \<in> set (ds_tasks s)"
    using assms(1) by (auto simp: alerted_def)
  then show ?thesis
  proof cases
    case 1
    then show ?thesis using ws st by (auto simp: alerted_def run_tasks)
  next
    case 2
    then show ?thesis
      using keep [of "WakeRead q"] assms(2) by (cases "t = WakeRead q") (auto simp: alerted_def run_tasks deno_step_def Let_def)
  next
    case 3
    then show ?thesis
      using keep [of "WakerCheck q w"] assms(3,4)
      by (cases "t = WakerCheck q w") (auto simp: alerted_def run_tasks deno_step_def waker_check_def Let_def)
  next
    case 4
    then show ?thesis
      using keep [of "WakeCall q w"] assms(3) by (cases "t = WakeCall q w") (auto simp: alerted_def run_tasks deno_step_def Let_def)
  qed
qed

text \<open>The queue a step works on.\<close>

lemma run_queue_ok:
  assumes s: "serve_ok s" and t: "t \<in> set (ds_tasks s)"
  shows "queue_ok (run_task t s) (task_queue t)"
proof -
  let ?q = "task_queue t" and ?x = "queue_at (task_queue t) (ds_reg s)"
  have q: "?q < length (sr_queues (ds_reg s))" by (rule serve_okD(3) [OF s t])
  note ok = queue_okD [OF serve_okD(1) [OF s q]] and bd = serve_okD(4,5) [OF s]
  note fr = step_frame [of t s "fst (deno_step t s)" "snd (deno_step t s)", simplified]
  let ?x' = "queue_at ?q (ds_reg (snd (deno_step t s)))"
  have w: "sq_waker ?x' = sq_waker ?x" "sq_shutdown ?x' = sq_shutdown ?x"
    using q by (auto simp: deno_step_def Let_def queue_try_send_def waker_check_def split: deno_task.splits option.splits list.splits)
  have grow: "alerted (run_task t s) ?q w k" if "sq_items ?x' \<noteq> []" "sq_items ?x = []" for w k
    using that q
    by (auto simp: alerted_def run_tasks deno_step_def Let_def queue_try_send_def waker_check_def
        split: deno_task.splits option.splits list.splits if_splits)
  show ?thesis
  proof (rule queue_okI)
    show "length (sq_items (queue_at ?q (ds_reg (run_task t s)))) \<le> QUEUE_CAPACITY"
      using q ok(2)
      by (auto simp: run_tasks deno_step_def Let_def queue_try_send_def waker_check_def split: deno_task.splits option.splits list.splits)
    show "map snd (filter (\<lambda>(p, r). p = ?q) (ds_accepted (run_task t s)))
       = map snd (filter (\<lambda>(p, r). p = ?q) (ds_removed (run_task t s))) @ sq_items (queue_at ?q (ds_reg (run_task t s)))"
      using q ok(5)
      by (auto simp: run_tasks deno_step_def Let_def queue_try_send_def waker_check_def split: deno_task.splits option.splits list.splits)
    show "sq_locked (queue_at ?q (ds_reg (run_task t s))) \<Longrightarrow> sq_shutdown (queue_at ?q (ds_reg (run_task t s)))"
      using q ok(1)
      by (auto simp: run_tasks deno_step_def Let_def queue_try_send_def waker_check_def
          split: deno_task.splits option.splits list.splits if_splits)
  next
    fix v k assume a: "sq_waker (queue_at ?q (ds_reg (run_task t s))) = Some v" "PollTake ?q k \<in> set (ds_tasks (run_task t s))"
      "sq_shutdown (queue_at ?q (ds_reg (run_task t s)))"
    have p: "PollTake ?q k \<in> set (ds_tasks s)"
      using a(2) fr(3) [of "PollTake ?q k"] set_remove1_subset by (fastforce simp: run_tasks)
    then have "alerted s ?q v k" using a w ok(4) [of v k] by (simp add: run_tasks)
    then show "alerted (run_task t s) ?q v k"
      by (rule alerted_run) (use a w bd(2) [OF p] in \<open>auto simp: run_tasks\<close>)
  next
    fix v k assume a: "sq_waker (queue_at ?q (ds_reg (run_task t s))) = Some v" "map_of (ds_parked (run_task t s)) ?q = Some k"
      "sq_items (queue_at ?q (ds_reg (run_task t s))) \<noteq> [] \<or> sq_shutdown (queue_at ?q (ds_reg (run_task t s)))"
    consider (parked) "map_of (ds_parked s) ?q = Some k" | (poll) "t = PollTake ?q k" "map_of (ds_parked s) ?q \<noteq> Some k"
      using a(2) fr(7) [of k] by (auto simp: run_tasks)
    then show "alerted (run_task t s) ?q v k"
    proof cases
      case parked
      show ?thesis
      proof (cases "sq_items ?x \<noteq> [] \<or> sq_shutdown ?x")
        case True
        then have "alerted s ?q v k" using a(1) w ok(3) [OF _ parked, of v] by (simp add: run_tasks)
        then show ?thesis
          by (rule alerted_run) (use a w bd(1) [OF parked] True in \<open>auto simp: run_tasks request_waiting_def\<close>)
      next
        case False
        then show ?thesis using a(3) w grow by (simp add: run_tasks)
      qed
    next
      case poll
      have d: "deno_step t s = deno_step (PollTake ?q k) s" using poll(1) by simp
      have e: "?x' = ?x \<and> (sq_locked ?x \<or> sq_items ?x = [])"
        using a(2) poll(2) q unfolding run_tasks d by (auto simp: deno_step_def Let_def split: if_splits list.splits)
      then have sh: "sq_shutdown ?x" using a(3) ok(1) by (auto simp: run_tasks)
      have "alerted s ?q v k" using ok(4) [of v k] a(1) w sh t poll(1) by (simp add: run_tasks)
      then show ?thesis
        by (rule alerted_run) (use a w sh bd(2) [of ?q k] t poll(1) in \<open>auto simp: run_tasks\<close>)
    qed
  qed
qed

lemma serve_ok_run:
  assumes s: "serve_ok s" and t: "t \<in> set (ds_tasks s)"
  shows "serve_ok (run_task t s)"
proof -
  obtain ts s' where st: "deno_step t s = (ts, s')" by (metis prod.exhaust)
  note f = step_frame [OF st] and q = serve_okD(3) [OF s t]
  show ?thesis
  proof (rule serve_ok_frame [OF s _ q _ _ _ _ _ _ _ run_quiet run_queue_ok [OF s t]])
    fix p k assume "map_of (ds_parked (run_task t s)) p = Some k"
    then show "map_of (ds_parked s) p = Some k \<or> p = task_queue t \<and> k \<le> length (sr_wakes (ds_reg s))"
      using f(6) [of p] f(7) [of k] st serve_okD(5) [OF s, of p k] t by (cases "p = task_queue t") (auto simp: run_tasks)
  next
    fix p k assume "PollTake p k \<in> set (ds_tasks (run_task t s))"
    then show "PollTake p k \<in> set (ds_tasks s) \<or> k \<le> length (sr_wakes (ds_reg s))"
      using f(3) [of "PollTake p k"] st by (auto simp: run_tasks dest: set_remove1_subset [THEN subsetD])
  qed (use f st in \<open>auto simp: run_tasks image_subset_iff dest: set_remove1_subset [THEN subsetD]\<close>)
qed

lemma serve_ok_step: "serve_step s s' \<Longrightarrow> serve_ok s \<Longrightarrow> serve_ok s'"
  by (induction rule: serve_step.induct)
    (simp_all add: serve_ok_register serve_ok_starts serve_ok_poll serve_ok_drain serve_ok_run)

lemma serve_reachable_ok: "serve_reachable s \<Longrightarrow> serve_ok s"
  by (induction rule: rtranclp_induct) (auto intro: serve_ok_start serve_ok_step)

section \<open>Waking and order\<close>

text \<open>No wake-up is lost: in every interleaving of deliveries, callback installations, polls, shutdowns and drains, a
  request loop that found nothing and waits has been called back since its poll began whenever its queue holds a
  request or has been shut down, unless a task is still on its way to call it; so it never sleeps on waiting work.\<close>

theorem waiting_loop_is_called_back:
  assumes "serve_reachable s" and "sq_waker (queue_at q (ds_reg s)) = Some t" and "map_of (ds_parked s) q = Some k"
    and "sq_items (queue_at q (ds_reg s)) \<noteq> [] \<or> sq_shutdown (queue_at q (ds_reg s))"
    and "WakeRead q \<notin> set (ds_tasks s)" and "WakeCall q t \<notin> set (ds_tasks s)" and "WakerCheck q t \<notin> set (ds_tasks s)"
  shows "t \<in> set (drop k (sr_wakes (ds_reg s)))"
proof -
  have ok: "serve_ok s" by (rule serve_reachable_ok [OF assms(1)])
  have "q < length (sr_queues (ds_reg s))" using ok assms(3) by (auto simp: serve_ok_def)
  from queue_okD(3) [OF serve_okD(1) [OF ok this] assms(2-4)] show ?thesis
    using assms(5-7) by (simp add: alerted_def)
qed

text \<open>Requests leave a queue exactly in the order they were accepted: in every interleaving the requests accepted for a
  queue are those removed from it, by polls or by the drain of a stopped cycle, followed by those still in it; none is
  duplicated or reordered, and a queue never holds more than 256.\<close>

theorem queue_keeps_order:
  assumes "serve_reachable s" and "q < length (sr_queues (ds_reg s))"
  shows "map snd (filter (\<lambda>(p, r). p = q) (ds_accepted s))
       = map snd (filter (\<lambda>(p, r). p = q) (ds_removed s)) @ sq_items (queue_at q (ds_reg s))
     \<and> length (sq_items (queue_at q (ds_reg s))) \<le> 256"
  using queue_okD(2,5) [OF serve_okD(1) [OF serve_reachable_ok [OF assms(1)] assms(2)]] by (simp add: QUEUE_CAPACITY_def)

text \<open>A run: a queue is registered for handle 7 with a callback, and the steps given are taken.\<close>

definition demo_queue_state :: "serve_queue \<Rightarrow> u64 list \<Rightarrow> deno_task list \<Rightarrow> (nat \<times> nat) list \<Rightarrow> (nat \<times> deliverable_request) list
    \<Rightarrow> (nat \<times> deliverable_request) list \<Rightarrow> deno_serve" where
  "demo_queue_state x ws ts pk ac rm = \<lparr>ds_reg = \<lparr>sr_map = [(7, 0)], sr_queues = [x], sr_wakes = ws\<rparr>, ds_tasks = ts, ds_parked = pk,
     ds_accepted = ac, ds_removed = rm\<rparr>"

lemmas demo_queue_defs = demo_queue_state_def start_task_def run_task_def deno_step_def queue_at_def upd_queue_def sr_register_def
  sr_get_def queue_new_def install_waker_def waker_check_def request_waiting_def send_shutdown_def queue_try_send_def waker_wake_def
  QUEUE_CAPACITY_def serve_start_state_def al_put_def al_del_def Let_def

abbreviation demo_queue :: "deliverable_request list \<Rightarrow> bool \<Rightarrow> bool \<Rightarrow> serve_queue" where
  "demo_queue items down locked \<equiv> \<lparr>sq_items = items, sq_conn_items = [], sq_shutdown = down, sq_waker = Some 9, sq_locked = locked\<rparr>"

lemma demo_queue_steps:
  "serve_step serve_start_state (demo_queue_state (queue_new) [] [] [] [] [])"
  "serve_step (demo_queue_state (queue_new) [] [] [] [] []) (demo_queue_state (demo_queue [] False False) [] [WakerCheck 0 9] [] [] [])"
  "serve_step (demo_queue_state (demo_queue [] False False) [] [WakerCheck 0 9] [] [] []) (demo_queue_state (demo_queue [] False False) [] [] [] [] [])"
  using sv_register [of serve_start_state 7] sv_install [of 7 "demo_queue_state (queue_new) [] [] [] [] []" 0 9]
    sv_run [of "WakerCheck 0 9" "demo_queue_state (demo_queue [] False False) [] [WakerCheck 0 9] [] [] []"]
  by (simp_all add: demo_queue_defs)

lemma demo_installed: "serve_reachable (demo_queue_state (demo_queue [] False False) [] [] [] [] [])"
  using demo_queue_steps by (meson rtranclp.rtrancl_refl rtranclp.rtrancl_into_rtrancl)

definition demo_deliverable :: deliverable_request where
  "demo_deliverable = \<lparr>dq_req_handle = 1, dq_req_body_handle = 1, dq_res_body_handle = 1, dq_is_bidi = False, dq_method = ''GET'',
     dq_url = ''/'', dq_headers = [], dq_remote_node_id = []\<rparr>"

text \<open>The loop polls an empty queue and waits; a request is delivered and the callback made.\<close>

lemma demo_request_delivered:
  "serve_reachable (demo_queue_state (demo_queue [demo_deliverable] False False) [9] [] [(0, 0)] [(0, demo_deliverable)] [])"
proof -
  let ?r = demo_deliverable and ?s = "\<lambda>it ws ts pk ac. demo_queue_state (demo_queue it False False) ws ts pk ac []"
  have "serve_step (?s [] [] [] [] []) (?s [] [] [PollTake 0 0] [] [])"
    "serve_step (?s [] [] [PollTake 0 0] [] []) (?s [] [] [] [(0, 0)] [])"
    "serve_step (?s [] [] [] [(0, 0)] []) (?s [] [] [DeliverCheck 0 ?r] [(0, 0)] [])"
    "serve_step (?s [] [] [DeliverCheck 0 ?r] [(0, 0)] []) (?s [] [] [DeliverSend 0 ?r] [(0, 0)] [])"
    "serve_step (?s [] [] [DeliverSend 0 ?r] [(0, 0)] []) (?s [?r] [] [WakeRead 0] [(0, 0)] [(0, ?r)])"
    "serve_step (?s [?r] [] [WakeRead 0] [(0, 0)] [(0, ?r)]) (?s [?r] [] [WakeCall 0 9] [(0, 0)] [(0, ?r)])"
    "serve_step (?s [?r] [] [WakeCall 0 9] [(0, 0)] [(0, ?r)]) (?s [?r] [9] [] [(0, 0)] [(0, ?r)])"
    using sv_poll [of 7 "?s [] [] [] [] []" 0] sv_run [of "PollTake 0 0" "?s [] [] [PollTake 0 0] [] []"]
      sv_deliver [of 7 "?s [] [] [] [(0, 0)] []" 0 ?r] sv_run [of "DeliverCheck 0 ?r" "?s [] [] [DeliverCheck 0 ?r] [(0, 0)] []"]
      sv_run [of "DeliverSend 0 ?r" "?s [] [] [DeliverSend 0 ?r] [(0, 0)] []"] sv_run [of "WakeRead 0" "?s [?r] [] [WakeRead 0] [(0, 0)] [(0, ?r)]"]
      sv_run [of "WakeCall 0 9" "?s [?r] [] [WakeCall 0 9] [(0, 0)] [(0, ?r)]"]
    by (simp_all add: demo_queue_defs)
  with demo_installed show ?thesis by (meson rtranclp.rtrancl_into_rtrancl)
qed

theorem waiting_loop_is_called_back_witness:
  "\<exists>s. serve_reachable s \<and> map_of (ds_parked s) 0 = Some 0 \<and> sq_items (queue_at 0 (ds_reg s)) \<noteq> [] \<and> 9 \<in> set (drop 0 (sr_wakes (ds_reg s)))"
proof (intro exI conjI)
  let ?s = "demo_queue_state (demo_queue [demo_deliverable] False False) [9] [] [(0, 0)] [(0, demo_deliverable)] []"
  show "9 \<in> set (drop 0 (sr_wakes (ds_reg ?s)))"
    by (rule waiting_loop_is_called_back [OF demo_request_delivered, of 0]) (simp_all add: demo_queue_defs)
  show "map_of (ds_parked ?s) 0 = Some 0" "sq_items (queue_at 0 (ds_reg ?s)) \<noteq> []" by (simp_all add: demo_queue_defs)
qed (rule demo_request_delivered)

theorem queue_keeps_order_witness:
  "\<exists>s. serve_reachable s \<and> map snd (filter (\<lambda>(p, r). p = 0) (ds_accepted s))
       = map snd (filter (\<lambda>(p, r). p = 0) (ds_removed s)) @ sq_items (queue_at 0 (ds_reg s)) \<and> ds_accepted s \<noteq> []"
  using queue_keeps_order [OF demo_request_delivered, of 0] demo_request_delivered
  by (intro exI [of _ "demo_queue_state (demo_queue [demo_deliverable] False False) [9] [] [(0, 0)] [(0, demo_deliverable)] []"])
    (simp add: demo_queue_defs)

section \<open>Stopping\<close>

text \<open>A delivery that passed the shutdown check before the cycle was stopped and queues its request after the drain leaves it in
  the queue: nothing is under way, the cycle is shut down, every poll of the loop is told to exit, and the request is
  neither handed over nor answered.\<close>

theorem late_delivery_is_stranded:
  "\<exists>s. serve_reachable s \<and> ds_tasks s = [] \<and> sr_get 7 (ds_reg s) = Some 0 \<and> sq_shutdown (queue_at 0 (ds_reg s))
     \<and> sq_items (queue_at 0 (ds_reg s)) = [r] \<and> ds_removed s = []
     \<and> (\<forall>enc out. iroh_http_try_next_request enc 7 out (ds_reg s) = ((- 1, []), ds_reg s))"
proof -
  let ?s = "\<lambda>it dn lk ws ts ac. demo_queue_state (demo_queue it dn lk) ws ts [] ac []"
  have "serve_step (?s [] False False [] [] []) (?s [] False False [] [DeliverCheck 0 r] [])"
    "serve_step (?s [] False False [] [DeliverCheck 0 r] []) (?s [] False False [] [DeliverSend 0 r] [])"
    "serve_step (?s [] False False [] [DeliverSend 0 r] []) (?s [] True False [] [DeliverSend 0 r, WakeRead 0] [])"
    "serve_step (?s [] True False [] [DeliverSend 0 r, WakeRead 0] []) (?s [] True False [] [DeliverSend 0 r, WakeCall 0 9] [])"
    "serve_step (?s [] True False [] [DeliverSend 0 r, WakeCall 0 9] []) (?s [] True False [9] [DeliverSend 0 r] [])"
    "serve_step (?s [] True False [9] [DeliverSend 0 r] []) (?s [] True True [9] [DeliverSend 0 r, Draining 0] [])"
    "serve_step (?s [] True True [9] [DeliverSend 0 r, Draining 0] []) (?s [] True False [9] [DeliverSend 0 r] [])"
    "serve_step (?s [] True False [9] [DeliverSend 0 r] []) (?s [r] True False [9] [WakeRead 0] [(0, r)])"
    "serve_step (?s [r] True False [9] [WakeRead 0] [(0, r)]) (?s [r] True False [9] [WakeCall 0 9] [(0, r)])"
    "serve_step (?s [r] True False [9] [WakeCall 0 9] [(0, r)]) (?s [r] True False [9, 9] [] [(0, r)])"
    using sv_deliver [of 7 "?s [] False False [] [] []" 0 r] sv_run [of "DeliverCheck 0 r" "?s [] False False [] [DeliverCheck 0 r] []"]
      sv_shutdown [of 7 "?s [] False False [] [DeliverSend 0 r] []" 0] sv_run [of "WakeRead 0" "?s [] True False [] [DeliverSend 0 r, WakeRead 0] []"]
      sv_run [of "WakeCall 0 9" "?s [] True False [] [DeliverSend 0 r, WakeCall 0 9] []"] sv_drain [of 7 "?s [] True False [9] [DeliverSend 0 r] []" 0]
      sv_run [of "Draining 0" "?s [] True True [9] [DeliverSend 0 r, Draining 0] []"] sv_run [of "DeliverSend 0 r" "?s [] True False [9] [DeliverSend 0 r] []"]
      sv_run [of "WakeRead 0" "?s [r] True False [9] [WakeRead 0] [(0, r)]"] sv_run [of "WakeCall 0 9" "?s [r] True False [9] [WakeCall 0 9] [(0, r)]"]
    by (simp_all add: demo_queue_defs)
  with demo_installed have "serve_reachable (?s [r] True False [9, 9] [] [(0, r)])" by (meson rtranclp.rtrancl_into_rtrancl)
  then show ?thesis
    by (intro exI [of _ "?s [r] True False [9, 9] [] [(0, r)]"]) (simp add: demo_queue_defs iroh_http_try_next_request_def)
qed

text \<open>A request that does not fit the caller's buffer is lost: the poll returns the required size, as documented for a retry, but it
  has already removed the request from the queue, so that a retry with any buffer gets the next request or none at all.\<close>

theorem oversized_request_is_lost:
  assumes "sr_get h reg = Some q" and "q < length (sr_queues reg)" and "sq_items (queue_at q reg) = r # rs"
    and "\<not> sq_shutdown (queue_at q reg)" and "\<not> sq_locked (queue_at q reg)"
    and "ob_cap out < length (enc r)" and "length (enc r) \<le> 2 ^ 31 - 1" and "\<not> bad_out out"
  shows "\<exists>reg'. iroh_http_try_next_request enc h out reg = ((- int (length (enc r)), []), reg')
     \<and> sq_items (queue_at q reg') = rs
     \<and> (\<forall>out'. \<not> bad_out out' \<longrightarrow> fst (iroh_http_try_next_request enc h out' reg')
          = (case rs of [] \<Rightarrow> (0, []) | r' # _ \<Rightarrow> copy_out out' (enc r')))"
proof (intro exI conjI allI impI)
  let ?reg = "upd_queue q (\<lambda>x. x\<lparr>sq_items := rs\<rparr>) reg"
  show "iroh_http_try_next_request enc h out reg = ((- int (length (enc r)), []), ?reg)"
    using assms by (simp add: iroh_http_try_next_request_def copy_out_def neg_len_def)
  show "sq_items (queue_at q ?reg) = rs" using assms(2) by simp
  fix out' assume "\<not> bad_out out'"
  then show "fst (iroh_http_try_next_request enc h out' ?reg) = (case rs of [] \<Rightarrow> (0, []) | r' # _ \<Rightarrow> copy_out out' (enc r'))"
    using assms(1-5) by (auto simp: iroh_http_try_next_request_def sr_get_def split: list.splits)
qed

theorem oversized_request_is_lost_witness:
  "\<exists>reg'. iroh_http_try_next_request (\<lambda>_. replicate 5 0) 7 \<lparr>ob_null = False, ob_cap = 4\<rparr>
        \<lparr>sr_map = [(7, 0)], sr_queues = [demo_queue [demo_deliverable] False False], sr_wakes = [9]\<rparr> = ((- 5, []), reg')
     \<and> fst (iroh_http_try_next_request (\<lambda>_. replicate 5 0) 7 \<lparr>ob_null = False, ob_cap = 5\<rparr> reg') = (0, [])"
proof -
  let ?reg = "\<lparr>sr_map = [(7, 0)], sr_queues = [demo_queue [demo_deliverable] False False], sr_wakes = [9]\<rparr>"
  have b: "\<not> bad_out \<lparr>ob_null = False, ob_cap = 5\<rparr>" "\<not> bad_out \<lparr>ob_null = False, ob_cap = 4\<rparr>" by (simp_all add: bad_out_def)
  have h: "sr_get 7 ?reg = Some 0" "0 < length (sr_queues ?reg)" "sq_items (queue_at 0 ?reg) = demo_deliverable # []"
    "\<not> sq_shutdown (queue_at 0 ?reg)" "\<not> sq_locked (queue_at 0 ?reg)"
    by (simp_all add: sr_get_def queue_at_def)
  show ?thesis
    using oversized_request_is_lost [OF h, of "\<lparr>ob_null = False, ob_cap = 4\<rparr>" "\<lambda>_. replicate 5 0"] b by auto
qed

section \<open>Requests of a stopped cycle\<close>

text \<open>Answering another request does not disturb a waiting one or one that was answered.\<close>

definition answered_with :: "response_head \<Rightarrow> nat \<Rightarrow> 'c disp_sys \<Rightarrow> bool" where
  "answered_with head n d \<longleftrightarrow> map_of (dsp_heads d) n = Some head \<and> n \<notin> head_ids (dsp_store d)"

lemma respond_store:
  "writers (dsp_store (snd (respond lib h st hs d))) = writers (dsp_store d)" "mem (dsp_store (snd (respond lib h st hs d))) = mem (dsp_store d)"
  by (auto simp: respond_def take_req_sender_def split: option.splits prod.splits)

lemma respond_effect:
  "snd (respond lib h st hs d) = d
   \<or> (\<exists>e. slot_get h (request_heads (dsp_store d)) = Some e \<and> dsp_store (snd (respond lib h st hs d)) = snd (take_req_sender h (dsp_store d))
        \<and> (dsp_heads (snd (respond lib h st hs d)) = dsp_heads d
           \<or> dsp_heads (snd (respond lib h st hs d)) = (timed_value e, \<lparr>rh_status = st, rh_headers = hs\<rparr>) # dsp_heads d)
        \<and> dsp_dead_rx (snd (respond lib h st hs d)) = dsp_dead_rx d)"
  by (auto simp: respond_def take_req_sender_def slot_remove_def split: option.splits)

lemma answered_respond:
  assumes "answered_with head n d"
  shows "answered_with head n (snd (respond lib h st hs d))"
  using respond_effect [of lib h st hs d]
proof (elim disjE exE conjE)
  fix e assume e: "slot_get h (request_heads (dsp_store d)) = Some e"
    "dsp_store (snd (respond lib h st hs d)) = snd (take_req_sender h (dsp_store d))"
  have "timed_value e \<noteq> n" using head_id_registered [OF e(1)] assms by (auto simp: answered_with_def)
  moreover have "n \<notin> head_ids (snd (take_req_sender h (dsp_store d)))"
    using assms take_req_no_new [of "dsp_store d" h] by (auto simp: answered_with_def no_new_heads_def)
  moreover assume "dsp_heads (snd (respond lib h st hs d)) = (timed_value e, \<lparr>rh_status = st, rh_headers = hs\<rparr>) # dsp_heads d"
  ultimately show ?thesis using assms e(2) by (simp add: answered_with_def)
qed (use assms take_req_no_new [of "dsp_store d" h] in \<open>auto simp: answered_with_def no_new_heads_def\<close>)

lemma awaiting_other_respond:
  assumes "awaiting w d" "h \<noteq> wt_req w"
  shows "awaiting w (snd (respond lib h st hs d))"
  using respond_effect [of lib h st hs d]
proof (elim disjE exE conjE)
  fix e assume e: "slot_get h (request_heads (dsp_store d)) = Some e"
    "dsp_store (snd (respond lib h st hs d)) = snd (take_req_sender h (dsp_store d))"
    "dsp_dead_rx (snd (respond lib h st hs d)) = dsp_dead_rx d"
    "dsp_heads (snd (respond lib h st hs d)) = (timed_value e, \<lparr>rh_status = st, rh_headers = hs\<rparr>) # dsp_heads d"
  have "timed_value e \<noteq> wt_head w"
    using assms e(1) by (fastforce simp: awaiting_def slot_get_def dest: map_of_SomeD)
  then show ?thesis
    using assms e by (auto simp: awaiting_def take_req_sender_def slot_remove_def al_del_def slot_get_def map_of_filter_in split: option.splits)
next
  fix e assume e: "slot_get h (request_heads (dsp_store d)) = Some e"
    "dsp_store (snd (respond lib h st hs d)) = snd (take_req_sender h (dsp_store d))"
    "dsp_dead_rx (snd (respond lib h st hs d)) = dsp_dead_rx d" "dsp_heads (snd (respond lib h st hs d)) = dsp_heads d"
  then show ?thesis
    using assms by (auto simp: awaiting_def take_req_sender_def slot_remove_def al_del_def slot_get_def map_of_filter_in split: option.splits)
qed (use assms in simp)

definition drain_one :: "http_lib \<Rightarrow> deliverable_request \<Rightarrow> 'c disp_sys \<Rightarrow> 'c disp_sys" where
  "drain_one lib r d = snd (send_undeliverable_rejection lib (dq_req_handle r) ''deno stopServe drain'' d)"

definition unavailable_head :: response_head where
  "unavailable_head = \<lparr>rh_status = 503, rh_headers = [(''content-length'', ''0'')]\<rparr>"

lemma drain_one_respond: "drain_one lib r d = snd (respond lib (dq_req_handle r) 503 [(''content-length'', ''0'')] d)"
  by (simp add: drain_one_def send_undeliverable_rejection_def reject_undeliverable_def UNDELIVERABLE_STATUS_def UNDELIVERABLE_HEADERS_def)

lemma drain_store:
  "writers (dsp_store (fold (drain_one lib) rs d)) = writers (dsp_store d)" "mem (dsp_store (fold (drain_one lib) rs d)) = mem (dsp_store d)"
  by (induction rs arbitrary: d) (simp_all add: drain_one_respond respond_store)

lemma drain_answered: "answered_with h n d \<Longrightarrow> answered_with h n (fold (drain_one lib) rs d)"
  by (induction rs arbitrary: d) (simp_all add: drain_one_respond answered_respond)

lemma drain_answers:
  assumes "awaiting w d" "status_valid lib 503" "name_valid lib ''content-length''" "value_valid lib ''0''"
    "wt_req w \<in> dq_req_handle ` set rs"
  shows "answered_with unavailable_head (wt_head w) (fold (drain_one lib) rs d)"
  using assms(1,5)
proof (induction rs arbitrary: d)
  case (Cons r rs)
  show ?case
  proof (cases "dq_req_handle r = wt_req w")
    case True
    have "drain_one lib r d = d\<lparr>dsp_store := snd (take_req_sender (wt_req w) (dsp_store d)),
        dsp_heads := (wt_head w, unavailable_head) # dsp_heads d\<rparr>"
      using awaiting_respond [OF Cons.prems(1) assms(2), of "[(''content-length'', ''0'')]"] assms(3,4) True
      by (simp add: drain_one_respond unavailable_head_def)
    moreover have "wt_head w \<notin> head_ids (snd (take_req_sender (wt_req w) (dsp_store d)))"
      using Cons.prems(1)
      by (auto simp: awaiting_def head_ids_def take_req_sender_def slot_remove_def al_del_def split: option.splits)
    ultimately have "answered_with unavailable_head (wt_head w) (drain_one lib r d)" by (simp add: answered_with_def)
    then show ?thesis by (simp add: drain_answered)
  next
    case False
    have "awaiting w (drain_one lib r d)"
      unfolding drain_one_respond by (rule awaiting_other_respond [OF Cons.prems(1) False])
    from Cons.IH [OF this] show ?thesis using Cons.prems(2) False by auto
  qed
qed simp

lemma stop_serve_drain_eq:
  assumes "sr_get h reg = Some q" "q < length (sr_queues reg)" "\<not> sq_locked (queue_at q reg)"
  shows "snd (stop_serve_drain lib h reg d) = fold (drain_one lib) (sq_items (queue_at q reg)) d"
    "sr_get h (fst (stop_serve_drain lib h reg d)) = Some q"
    "sq_items (queue_at q (fst (stop_serve_drain lib h reg d))) = []" "sq_shutdown (queue_at q (fst (stop_serve_drain lib h reg d)))"
  using assms
  by (auto simp: stop_serve_drain_def signal_shutdown_def wake_request_loop_def send_shutdown_def sr_get_def drain_one_def [abs_def] Let_def
      split: option.splits)

lemma fresh_body_pending:
  assumes "mpsc ops view" "response_channel ops view h w s"
  shows "fst (poll_frame ops (wt_reader w) (mem s)) = Pending"
proof -
  let ?i = "rd_cell (wt_reader w)" and ?c = "chan (cells (mem s) (rd_cell (wt_reader w)))"
  have q: "queue (view ?c) = []" "senders (view ?c) = 1" "rd_pending (wt_reader w) = None" "\<not> rx_locked (cells (mem s) ?i)"
    using assms(2) by (auto simp: response_channel_def)
  obtain r ch where r: "mp_try_recv ops ?c = (r, ch)" by fastforce
  have e: "r = RecvEmpty" and v: "view ch = view ?c"
    using mpsc.try_recv_law [OF assms(1), of ?c] q r by (simp_all add: fifo_try_recv_def)
  let ?H = "rx_clone ?i (upd_cell ?i (\<lambda>c. c\<lparr>chan := ch\<rparr>) (mem s))"
  obtain ch' where "recv_poll ops ?i (None, False) ?H
      = (Pending, (Some (cancel_calls (cells ?H ?i)), True), upd_cell ?i (\<lambda>c. c\<lparr>chan := ch', rx_locked := True\<rparr>) ?H)"
    using mpsc.recv_poll_empty [OF assms(1), of ?H ?i] q v by auto
  then show ?thesis using q r e by (simp add: poll_frame_def Let_def)
qed

text \<open>Stopping answers what is queued: when a cycle is stopped while a dispatched request is in its queue, the waiting dispatch
  call returns 503 with content length zero, the queue is empty and shut down, and a later delivery is refused.  But
  the drain does not finish the response body, as \<open>deliver_request\<close> does for a refused request: the body's writer stays
  registered and the body of that response is still pending.\<close>

theorem stopped_queue_is_answered:
  assumes "mpsc ops view" and "0 < channel_capacity (config (dsp_store d))" and "disp_reachable lib L ops d"
    and "dispatch_begin lib L ops fd req remote d = Some (Inr w, d1)" and "p = last (dsp_callbacks d1)"
    and "status_valid lib 503" and "name_valid lib ''content-length''" and "value_valid lib ''0''"
    and "sr_get h reg = Some q" and "q < length (sr_queues reg)" and "\<not> sq_locked (queue_at q reg)"
    and "from_payload p \<in> set (sq_items (queue_at q reg))"
  shows "(\<exists>d2. dispatch lib L ops fd req [\<lambda>x. snd (stop_serve_drain lib h reg x)] remote d
       = Some (Some \<lparr>rs_status = 503, rs_headers = [(''content-length'', ''0'')], rs_body = ReaderBody (wt_reader w)\<rparr>, d2)
     \<and> slot_get (rp_res_body_handle p) (writers (dsp_store d2)) \<noteq> None
     \<and> fst (poll_frame ops (wt_reader w) (mem (dsp_store d2))) = Pending)
     \<and> sq_items (queue_at q (fst (stop_serve_drain lib h reg d))) = []
     \<and> (\<forall>r. deno_deliver h r (fst (stop_serve_drain lib h reg d)) = (Inl ''deno serve shutdown'', fst (stop_serve_drain lib h reg d)))"
proof -
  have a: "awaiting w d1" by (rule begin_awaiting [OF disp_reachable_ok [OF assms(3)] assms(4)])
  have rc: "response_channel ops view (rp_res_body_handle p) w (dsp_store d1)" and rq: "rp_req_handle p = wt_req w"
    using begin_announces [OF assms(1,2,4)] assms(5) by simp_all
  let ?d = "fold (drain_one lib) (sq_items (queue_at q reg)) d1"
  have "wt_req w \<in> dq_req_handle ` set (sq_items (queue_at q reg))"
    using assms(12) rq by (force simp: from_payload_def)
  from drain_answers [OF a assms(6-8) this]
  have hp: "head_poll (wt_head w) () ?d = (Ready (Some unavailable_head), (), ?d)"
    by (simp add: answered_with_def head_poll_def)
  have "dispatch lib L ops fd req [\<lambda>x. snd (stop_serve_drain lib h reg x)] remote d
       = Some (Some \<lparr>rs_status = 503, rs_headers = [(''content-length'', ''0'')], rs_body = ReaderBody (wt_reader w)\<rparr>, req_head_guard_drop w ?d)"
    using assms(4,6-8)
    by (simp add: dispatch_def awaiting_alive [OF a] stop_serve_drain_eq(1) [OF assms(9-11)] hp dispatch_finish_def unavailable_head_def head_builds_def)
  moreover have m: "writers (dsp_store (req_head_guard_drop w ?d)) = writers (dsp_store d1)"
      "mem (dsp_store (req_head_guard_drop w ?d)) = mem (dsp_store d1)"
    using drain_store [of lib "sq_items (queue_at q reg)" d1]
    by (auto simp: req_head_guard_drop_def take_req_sender_def split: prod.splits option.splits)
  moreover have "fst (poll_frame ops (wt_reader w) (mem (dsp_store d1))) = Pending"
    by (rule fresh_body_pending [OF assms(1) rc])
  ultimately have "\<exists>d2. dispatch lib L ops fd req [\<lambda>x. snd (stop_serve_drain lib h reg x)] remote d
       = Some (Some \<lparr>rs_status = 503, rs_headers = [(''content-length'', ''0'')], rs_body = ReaderBody (wt_reader w)\<rparr>, d2)
     \<and> slot_get (rp_res_body_handle p) (writers (dsp_store d2)) \<noteq> None
     \<and> fst (poll_frame ops (wt_reader w) (mem (dsp_store d2))) = Pending"
    using rc by (auto simp: response_channel_def)
  moreover note e = stop_serve_drain_eq(2-4) [OF assms(9-11), of lib d]
  have "\<forall>r. deno_deliver h r (fst (stop_serve_drain lib h reg d)) = (Inl ''deno serve shutdown'', fst (stop_serve_drain lib h reg d))"
    by (simp add: deno_deliver_def e)
  ultimately show ?thesis using e(2) by blast
qed

theorem stopped_queue_is_answered_witness:
  "\<exists>w d1 d2 reg. dispatch_begin demo_http counting_lib fifo_ops (dispatcher_of ''me'' 0 None) demo_incoming ''alice'' (demo_dispatch 4)
       = Some (Inr w, d1)
     \<and> reg = \<lparr>sr_map = [(7, 0)], sr_queues = [demo_queue [from_payload (last (dsp_callbacks d1))] False False], sr_wakes = []\<rparr>
     \<and> dispatch demo_http counting_lib fifo_ops (dispatcher_of ''me'' 0 None) demo_incoming
         [\<lambda>x. snd (stop_serve_drain demo_http 7 reg x)] ''alice'' (demo_dispatch 4)
       = Some (Some \<lparr>rs_status = 503, rs_headers = [(''content-length'', ''0'')], rs_body = ReaderBody (wt_reader w)\<rparr>, d2)
     \<and> fst (poll_frame fifo_ops (wt_reader w) (mem (dsp_store d2))) = Pending"
proof -
  obtain w d1 where r: "dispatch_begin demo_http counting_lib fifo_ops (dispatcher_of ''me'' 0 None) demo_incoming ''alice''
      (demo_dispatch 4) = Some (Inr w, d1)"
    by (simp add: demo_dispatch_defs)
  define reg where "reg = \<lparr>sr_map = [(7, 0)], sr_queues = [demo_queue [from_payload (last (dsp_callbacks d1))] False False], sr_wakes = []\<rparr>"
  have d: "disp_reachable demo_http counting_lib fifo_ops (demo_dispatch 4)"
    unfolding demo_dispatch_def by (rule dr_start) (simp add: store_new_def)
  have c: "0 < channel_capacity (config (dsp_store (demo_dispatch 4)))" by (simp add: demo_dispatch_defs)
  have v: "status_valid demo_http 503" "name_valid demo_http ''content-length''" "value_valid demo_http ''0''"
    by (simp_all add: demo_http_def)
  have q: "sr_get 7 reg = Some 0" "0 < length (sr_queues reg)" "\<not> sq_locked (queue_at 0 reg)"
    "from_payload (last (dsp_callbacks d1)) \<in> set (sq_items (queue_at 0 reg))"
    by (simp_all add: reg_def sr_get_def queue_at_def)
  from stopped_queue_is_answered [OF fifo.mpsc_axioms c d r refl v q] show ?thesis using r reg_def by blast
qed

end
