(* ===== verification/Deno_Ffi.thy ===== *)
theory Deno_Ffi
  imports Deno_Serve Ffi_Fetch Endpoint_Registry
begin

text \<open>
  \<^verbatim>\<open>src/packages/iroh-http-deno/src/lib.rs\<close>: the C entry points of the Deno package.  Each takes the caller's buffers and
  returns an \<open>i32\<close>; the bytes written to the output buffer are part of the result.  A null pointer is a flag of the
  slice or buffer it belongs to.

  The state holds the endpoint registry, the cached responses that did not fit, the recorded stream errors and the
  fetch tasks with their results.  The response of a dispatched method, the parsing of JSON and UTF-8 and whether the
  thread pool could be started are arguments.
\<close>

section \<open>State\<close>

record ffi_slice =
  sl_null :: bool
  sl_data :: bytes

definition bad_slice :: "ffi_slice \<Rightarrow> bool" where
  "bad_slice s \<longleftrightarrow> sl_data s \<noteq> [] \<and> sl_null s"

record overflow_entry =
  oe_data :: bytes
  oe_created :: millis

datatype fetch_task = FetchRunning | FetchDone "bytes + bytes" | FetchPanicked

record 'c deno_sys =
  dn_endpoints :: "'c disp_sys registry"
  dn_stream_errors :: "((u64 \<times> u64) \<times> bytes) list"
  dn_overflow :: "(u64 \<times> overflow_entry) list"
  dn_overflow_counter :: u64
  dn_fetches :: "(u64 \<times> fetch_task) list"
  dn_fetch_results :: "(u64 \<times> (bytes + bytes)) list"
  dn_fetch_counter :: u64
  dn_called :: "u64 list"
  dn_clock :: millis

definition OVERFLOW_MAX_ENTRIES :: nat where "OVERFLOW_MAX_ENTRIES = 256"
definition OVERFLOW_MAX_BYTES :: nat where "OVERFLOW_MAX_BYTES = 64 * 1024 * 1024"
definition OVERFLOW_TTL :: millis where "OVERFLOW_TTL = 30000"

definition record_stream_error :: "adapter_lib \<Rightarrow> u64 \<Rightarrow> u64 \<Rightarrow> core_error \<Rightarrow> 'c deno_sys \<Rightarrow> 'c deno_sys" where
  "record_stream_error A ep h e y =
     y\<lparr>dn_stream_errors := al_put (ep, h) (str_to_bytes (core_error_to_json A e)) (dn_stream_errors y)\<rparr>"

definition put_endpoint :: "u64 \<Rightarrow> 'c disp_sys \<Rightarrow> 'c deno_sys \<Rightarrow> 'c deno_sys" where
  "put_endpoint ep d y = y\<lparr>dn_endpoints := slot_upd ep (\<lambda>_. d) (dn_endpoints y)\<rparr>"

section \<open>Responses that do not fit\<close>

definition cache_bytes :: "(u64 \<times> overflow_entry) list \<Rightarrow> nat" where
  "cache_bytes c = sum_list (map (\<lambda>(_, e). length (oe_data e)) c)"

definition over_budget :: "(u64 \<times> overflow_entry) list \<Rightarrow> bool" where
  "over_budget c \<longleftrightarrow> OVERFLOW_MAX_ENTRIES < length c \<or> OVERFLOW_MAX_BYTES < cache_bytes c"

text \<open>\<open>min_by_key\<close>: the first entry, in iteration order, with the smallest creation time.\<close>

definition oldest_key :: "(u64 \<times> overflow_entry) list \<Rightarrow> u64 option" where
  "oldest_key c = map_option fst (find (\<lambda>(_, e). \<forall>(_, e') \<in> set c. oe_created e \<le> oe_created e') c)"

lemma find_in_set: "find P xs = Some x \<Longrightarrow> x \<in> set xs"
  by (induction xs) (auto split: if_splits)

lemma oldest_key_in: "oldest_key c = Some k \<Longrightarrow> k \<in> fst ` set c"
  unfolding oldest_key_def using find_in_set by fastforce

function evict_oldest :: "(u64 \<times> overflow_entry) list \<Rightarrow> (u64 \<times> overflow_entry) list" where
  "evict_oldest c = (if over_budget c then (case oldest_key c of None \<Rightarrow> c | Some k \<Rightarrow> evict_oldest (al_del k c)) else c)"
  by pat_completeness auto
termination
proof (relation "measure length")
  fix c :: "(u64 \<times> overflow_entry) list" and k
  assume "oldest_key c = Some k"
  then obtain e where "(k, e) \<in> set c" using oldest_key_in by fastforce
  then show "(al_del k c, c) \<in> measure length"
    using length_filter_less [of "(k, e)" c "\<lambda>(k', _). k' \<noteq> k"] by (simp add: al_del_def)
qed simp

declare evict_oldest.simps [simp del]

definition evict_overflow :: "millis \<Rightarrow> (u64 \<times> overflow_entry) list \<Rightarrow> (u64 \<times> overflow_entry) list" where
  "evict_overflow tm c = evict_oldest (filter (\<lambda>(_, e). tm - oe_created e < OVERFLOW_TTL) c)"

text \<open>\<open>u64::to_le_bytes\<close> and \<open>from_le_bytes\<close>.\<close>

fun nat_to_le :: "nat \<Rightarrow> nat \<Rightarrow> bytes" where
  "nat_to_le 0 n = []"
| "nat_to_le (Suc k) n = of_nat (n mod 256) # nat_to_le k (n div 256)"

fun nat_of_le :: "bytes \<Rightarrow> nat" where
  "nat_of_le [] = 0"
| "nat_of_le (b # bs) = unat b + 256 * nat_of_le bs"

definition to_le_bytes :: "u64 \<Rightarrow> bytes" where "to_le_bytes t = nat_to_le 8 (unat t)"
definition from_le_bytes :: "bytes \<Rightarrow> u64" where "from_le_bytes bs = of_nat (nat_of_le bs)"

definition CACHED_METHOD :: string where "CACHED_METHOD = ''__cached''"

definition take_cached :: "bytes \<Rightarrow> out_buf \<Rightarrow> 'c deno_sys \<Rightarrow> (int \<times> bytes) \<times> 'c deno_sys" where
  "take_cached payload out y =
     (if length payload < 8 then ((- 1, []), y)
      else (let token = from_le_bytes (take 8 payload) in case map_of (dn_overflow y) token of
          None \<Rightarrow> ((- 1, []), y)
        | Some e \<Rightarrow> (copy_out out (oe_data e),
             if length (oe_data e) \<le> ob_cap out then y\<lparr>dn_overflow := al_del token (dn_overflow y)\<rparr>
             else y\<lparr>dn_overflow := al_put token e (dn_overflow y)\<rparr>)))"

definition RUNTIME_INIT_FAILED :: bytes where
  "RUNTIME_INIT_FAILED = str_to_bytes (CHR ''{'' # CHR 0x22 # ''err'' @ [CHR 0x22, CHR '':'', CHR 0x22]
     @ ''RUNTIME_INIT_FAILED: OS refused to create threads for Tokio runtime'' @ [CHR 0x22, CHR ''}''])"

text \<open>\<open>utf8\<close> decodes the method name; \<open>run\<close> dispatches a method on a payload and encodes its response.\<close>

definition iroh_http_call :: "(bytes \<Rightarrow> string option) \<Rightarrow> bool \<Rightarrow> (string \<Rightarrow> bytes \<Rightarrow> 'c deno_sys \<Rightarrow> bytes \<times> 'c deno_sys)
    \<Rightarrow> ffi_slice \<Rightarrow> ffi_slice \<Rightarrow> out_buf \<Rightarrow> 'c deno_sys \<Rightarrow> (int \<times> bytes) \<times> 'c deno_sys" where
  "iroh_http_call utf8 rt run meth payload out y =
     (if bad_slice meth \<or> bad_slice payload \<or> bad_out out then ((- 1, []), y)
      else (let m = (case utf8 (sl_data meth) of None \<Rightarrow> ''__invalid_utf8__'' | Some s \<Rightarrow> s) in
        if m = CACHED_METHOD then take_cached (sl_data payload) out y
        else if \<not> rt then (copy_out out RUNTIME_INIT_FAILED, y)
        else (case run m (sl_data payload) y of (encoded, y1) \<Rightarrow>
          if ob_cap out < length encoded
          then (let token = dn_overflow_counter y1 in
            ((neg_len (length encoded), if 8 \<le> ob_cap out then to_le_bytes token else []),
             y1\<lparr>dn_overflow_counter := token + 1,
                dn_overflow := al_put token \<lparr>oe_data = encoded, oe_created = dn_clock y1\<rparr> (evict_overflow (dn_clock y1) (dn_overflow y1))\<rparr>))
          else ((len_as_i32 (length encoded), encoded), y1))))"

section \<open>Chunks\<close>

text \<open>\<open>None\<close>: the call still waits.\<close>

definition iroh_http_next_chunk :: "adapter_lib \<Rightarrow> 'c mpsc_ops \<Rightarrow> bool \<Rightarrow> ('c store \<Rightarrow> 'c store) list \<Rightarrow> ('c store \<Rightarrow> 'c store) list
    \<Rightarrow> u64 \<Rightarrow> u64 \<Rightarrow> out_buf \<Rightarrow> 'c deno_sys \<Rightarrow> ((int \<times> bytes) \<times> 'c deno_sys) option" where
  "iroh_http_next_chunk A ops rt pre env ep h out y =
     (if bad_out out then Some ((- 1, []), y)
      else (case get_endpoint ep (dn_endpoints y) of
          None \<Rightarrow> Some ((- 1, []), y)
        | Some d \<Rightarrow> if \<not> rt then Some ((- 1, []), y)
            else (case next_chunk ops pre env h (dsp_store d) of
                None \<Rightarrow> None
              | Some (r, s) \<Rightarrow> (let y1 = put_endpoint ep (d\<lparr>dsp_store := s\<rparr>) y in
                  Some (case r of
                      Inl e \<Rightarrow> ((- 1, []), record_stream_error A ep h e y1)
                    | Inr None \<Rightarrow> ((0, []), y1)
                    | Inr (Some b) \<Rightarrow> (copy_out out b, y1))))))"

definition TRY_NEXT_CHUNK_PREFIX :: string where "TRY_NEXT_CHUNK_PREFIX = ''try_next_chunk:''"

definition iroh_http_try_next_chunk :: "adapter_lib \<Rightarrow> 'c mpsc_ops \<Rightarrow> u64 \<Rightarrow> u64 \<Rightarrow> out_buf \<Rightarrow> 'c deno_sys
    \<Rightarrow> (int \<times> bytes) \<times> 'c deno_sys" where
  "iroh_http_try_next_chunk A ops ep h out y =
     (if bad_out out then ((- 1, []), y)
      else (case get_endpoint ep (dn_endpoints y) of
          None \<Rightarrow> ((- 1, []), y)
        | Some d \<Rightarrow> (case try_next_chunk ops h (dsp_store d) of (r, s) \<Rightarrow>
            (let y1 = put_endpoint ep (d\<lparr>dsp_store := s\<rparr>) y in
             case r of
               Inr None \<Rightarrow> ((0, []), y1)
             | Inr (Some b) \<Rightarrow> (copy_out out b, y1)
             | Inl e \<Rightarrow> if starts_with TRY_NEXT_CHUNK_PREFIX (message e) then ((- 2, []), y1)
                 else ((- 1, []), record_stream_error A ep h e y1)))))"

definition iroh_http_take_last_stream_error :: "u64 \<Rightarrow> u64 \<Rightarrow> out_buf \<Rightarrow> 'c deno_sys \<Rightarrow> (int \<times> bytes) \<times> 'c deno_sys" where
  "iroh_http_take_last_stream_error ep h out y =
     (if bad_out out then ((- 1, []), y)
      else (case map_of (dn_stream_errors y) (ep, h) of
          None \<Rightarrow> ((0, []), y)
        | Some b \<Rightarrow> (copy_out out b, if ob_cap out < length b then y
             else y\<lparr>dn_stream_errors := al_del (ep, h) (dn_stream_errors y)\<rparr>)))"

definition iroh_http_send_chunk :: "'c mpsc_ops \<Rightarrow> bool \<Rightarrow> ('c heap \<Rightarrow> 'c heap) list list \<Rightarrow> u64 \<Rightarrow> u64 \<Rightarrow> ffi_slice \<Rightarrow> 'c deno_sys
    \<Rightarrow> (int \<times> 'c deno_sys) option" where
  "iroh_http_send_chunk ops rt envs ep h chunk y =
     (if bad_slice chunk then Some (- 1, y)
      else (case get_endpoint ep (dn_endpoints y) of
          None \<Rightarrow> Some (- 1, y)
        | Some d \<Rightarrow> if \<not> rt then Some (- 1, y)
            else (case send_chunk ops envs h (sl_data chunk) (dsp_store d) of
                None \<Rightarrow> None
              | Some (r, s) \<Rightarrow> Some (case r of Inl _ \<Rightarrow> - 1 | Inr _ \<Rightarrow> 0, put_endpoint ep (d\<lparr>dsp_store := s\<rparr>) y))))"

section \<open>Answers\<close>

text \<open>Rows that are not pairs are dropped, and the status is truncated to 16 bits.  \<open>parse_rows\<close> is the JSON parser.\<close>

definition respond_rows :: "string list list \<Rightarrow> (string \<times> string) list" where
  "respond_rows rows = List.map_filter (\<lambda>p. case p of [n, v] \<Rightarrow> Some (n, v) | _ \<Rightarrow> None) rows"

definition iroh_http_respond :: "http_lib \<Rightarrow> (bytes \<Rightarrow> string list list option) \<Rightarrow> u64 \<Rightarrow> u64 \<Rightarrow> u32 \<Rightarrow> ffi_slice \<Rightarrow> 'c deno_sys
    \<Rightarrow> int \<times> 'c deno_sys" where
  "iroh_http_respond lib parse_rows ep req status headers y = (case get_endpoint ep (dn_endpoints y) of
       None \<Rightarrow> (- 1, y)
     | Some d \<Rightarrow>
         (let go = (\<lambda>hs. case respond lib req (ucast status) hs d of
               (Inl _, d1) \<Rightarrow> (- 1, put_endpoint ep d1 y) | (Inr _, d1) \<Rightarrow> (0, put_endpoint ep d1 y)) in
          if sl_data headers = [] then go []
          else if sl_null headers then (- 1, y)
          else (case parse_rows (sl_data headers) of None \<Rightarrow> (- 1, y) | Some rows \<Rightarrow> go (respond_rows rows))))"

definition iroh_http_finish_body :: "'c mpsc_ops \<Rightarrow> u64 \<Rightarrow> u64 \<Rightarrow> 'c deno_sys \<Rightarrow> int \<times> 'c deno_sys" where
  "iroh_http_finish_body ops ep h y = (case get_endpoint ep (dn_endpoints y) of
       None \<Rightarrow> (- 1, y)
     | Some d \<Rightarrow> (case finish_body ops h (dsp_store d) of (r, s) \<Rightarrow>
         (case r of Inl _ \<Rightarrow> - 1 | Inr _ \<Rightarrow> 0, put_endpoint ep (d\<lparr>dsp_store := s\<rparr>) y)))"

definition iroh_http_cancel_reader :: "'c mpsc_ops \<Rightarrow> u64 \<Rightarrow> u64 \<Rightarrow> 'c deno_sys \<Rightarrow> int \<times> 'c deno_sys" where
  "iroh_http_cancel_reader ops ep h y = (case get_endpoint ep (dn_endpoints y) of
       None \<Rightarrow> (- 1, y)
     | Some d \<Rightarrow> (0, put_endpoint ep (on_store (cancel_reader ops h) d) y))"

definition iroh_http_close_all :: "'c deno_sys \<Rightarrow> serve_registry \<Rightarrow> 'c disp_sys list \<times> 'c deno_sys \<times> serve_registry" where
  "iroh_http_close_all y reg = (case close_all_endpoints (dn_endpoints y) of (gone, r) \<Rightarrow>
     (gone, y\<lparr>dn_endpoints := r\<rparr>, shutdown_all reg))"

section \<open>Fetches\<close>

text \<open>Both ways to start: polled through a task handle, or announced by a callback.\<close>

definition iroh_http_start_fetch :: "bool \<Rightarrow> ffi_slice \<Rightarrow> 'c deno_sys \<Rightarrow> u64 \<times> 'c deno_sys" where
  "iroh_http_start_fetch rt req y = (if bad_slice req \<or> \<not> rt then (0, y)
     else (let token = dn_fetch_counter y in
       (token, y\<lparr>dn_fetch_counter := token + 1, dn_fetches := al_put token FetchRunning (dn_fetches y)\<rparr>)))"

definition iroh_http_start_fetch_cb :: "bool \<Rightarrow> (bytes \<Rightarrow> bool) \<Rightarrow> ffi_slice \<Rightarrow> 'c deno_sys \<Rightarrow> u64 \<times> 'c deno_sys" where
  "iroh_http_start_fetch_cb rt json_ok req y = (if bad_slice req \<or> \<not> rt \<or> \<not> json_ok (sl_data req) then (0, y)
     else (dn_fetch_counter y, y\<lparr>dn_fetch_counter := dn_fetch_counter y + 1\<rparr>))"

text \<open>The spawned tasks when they end.\<close>

definition fetch_task_ends :: "u64 \<Rightarrow> fetch_task \<Rightarrow> 'c deno_sys \<Rightarrow> 'c deno_sys" where
  "fetch_task_ends token r y = y\<lparr>dn_fetches := al_upd token (\<lambda>_. r) (dn_fetches y)\<rparr>"

definition fetch_cb_task_ends :: "u64 \<Rightarrow> bytes \<Rightarrow> 'c deno_sys \<Rightarrow> 'c deno_sys" where
  "fetch_cb_task_ends token encoded y =
     y\<lparr>dn_fetch_results := al_put token (Inr encoded) (dn_fetch_results y), dn_called := dn_called y @ [token]\<rparr>"

definition either_bytes :: "bytes + bytes \<Rightarrow> bytes" where
  "either_bytes r = (case r of Inl b \<Rightarrow> b | Inr b \<Rightarrow> b)"

definition iroh_http_poll_fetch :: "bool \<Rightarrow> u64 \<Rightarrow> out_buf \<Rightarrow> 'c deno_sys \<Rightarrow> (int \<times> bytes) \<times> 'c deno_sys" where
  "iroh_http_poll_fetch rt token out y =
     (if bad_out out then ((- 1, []), y)
      else (case map_of (dn_fetch_results y) token of
          Some r \<Rightarrow> (let b = either_bytes r in (copy_out out b,
             if ob_cap out < length b then y\<lparr>dn_fetch_results := al_put token (Inr b) (dn_fetch_results y)\<rparr>
             else y\<lparr>dn_fetch_results := al_del token (dn_fetch_results y)\<rparr>))
        | None \<Rightarrow> (case map_of (dn_fetches y) token of
             None \<Rightarrow> ((- 1, []), y)
           | Some FetchRunning \<Rightarrow> ((0, []), y)
           | Some FetchPanicked \<Rightarrow> ((- 1, []), y\<lparr>dn_fetches := al_del token (dn_fetches y)\<rparr>)
           | Some (FetchDone r) \<Rightarrow> (let y1 = y\<lparr>dn_fetches := al_del token (dn_fetches y)\<rparr>; b = either_bytes r in
               if \<not> rt then ((- 1, []), y1)
               else (copy_out out b,
                 if ob_cap out < length b then y1\<lparr>dn_fetch_results := al_put token (Inr b) (dn_fetch_results y1)\<rparr> else y1)))))"

end
