(* ===== verification/Deno_Ffi_Props.thy ===== *)
theory Deno_Ffi_Props
  imports Deno_Ffi Handle_Props
begin

text \<open>
  The C entry points of the Deno package: a response that does not fit is recovered by its token, the cache behind it is
  bounded, a fetch result is handed over exactly once, and a chunk that does not fit is lost.
\<close>

section \<open>Tokens\<close>

lemma nat_of_to_le: "nat_of_le (nat_to_le k n) = n mod 256 ^ k"
proof (induction k arbitrary: n)
  case (Suc k)
  have "unat (of_nat (n mod 256) :: u8) = n mod 256" by (simp add: unat_of_nat take_bit_nat_eq_self)
  then show ?case using Suc by (simp add: mod_mult2_eq)
qed simp

lemma length_nat_to_le [simp]: "length (nat_to_le k n) = k"
  by (induction k arbitrary: n) auto

lemma from_to_le [simp]: "from_le_bytes (to_le_bytes t) = t"
proof -
  have "unat t < 256 ^ 8" using unsigned_less [of t] by simp
  then show ?thesis by (simp add: from_le_bytes_def to_le_bytes_def nat_of_to_le)
qed

lemma length_to_le [simp]: "length (to_le_bytes t) = 8"
  by (simp add: to_le_bytes_def)

section \<open>The cache\<close>

lemma evict_oldest_budget: "\<not> over_budget (evict_oldest c)"
proof (induction c rule: evict_oldest.induct)
  case (1 c)
  have "oldest_key c \<noteq> None" if "c \<noteq> []"
  proof -
    let ?m = "Min ((\<lambda>(_, e). oe_created e) ` set c)"
    have "?m \<in> (\<lambda>(_, e). oe_created e) ` set c" using that by (intro Min_in) auto
    then obtain k e where e: "(k, e) \<in> set c" "oe_created e = ?m" by force
    have "oe_created e \<le> oe_created e'" if "(k', e') \<in> set c" for k' e'
      unfolding e(2) by (rule Min_le) (use that in force)+
    then have "\<not> \<not> (case (k, e) of (_, e) \<Rightarrow> \<forall>(_, e') \<in> set c. oe_created e \<le> oe_created e')" by auto
    then show ?thesis using e(1) unfolding oldest_key_def by (simp add: find_None_iff) blast
  qed
  moreover have "\<not> over_budget []" by (simp add: over_budget_def cache_bytes_def)
  ultimately have "over_budget c \<Longrightarrow> \<exists>k. oldest_key c = Some k" by (cases "c = []") auto
  then show ?case using 1 by (subst evict_oldest.simps) (auto split: option.splits)
qed

lemma evict_oldest_subset: "set (evict_oldest c) \<subseteq> set c"
proof (induction c rule: evict_oldest.induct)
  case (1 c)
  then show ?case by (subst evict_oldest.simps) (auto simp: al_del_def split: option.splits)
qed

lemma cache_bytes_del: "cache_bytes (al_del k c) \<le> cache_bytes c"
  by (induction c) (auto simp: cache_bytes_def)

text \<open>The cache of responses that did not fit stays bounded: after every call it holds at most one entry more than its
  limit of 256 and, besides the new response, at most 64 MB, and every older entry is younger than 30 seconds.
  (The limit is enforced before the new entry is inserted, so that 257 entries and more bytes are possible.)\<close>

theorem overflow_cache_is_bounded:
  assumes "iroh_http_call utf8 True run meth payload out y = ((n, w), y1)" and "utf8 (sl_data meth) \<noteq> Some CACHED_METHOD"
    and "run m (sl_data payload) y = (encoded, y0)" and "m = (case utf8 (sl_data meth) of None \<Rightarrow> ''__invalid_utf8__'' | Some s \<Rightarrow> s)"
    and "\<not> bad_slice meth" and "\<not> bad_slice payload" and "\<not> bad_out out" and "ob_cap out < length encoded"
  shows "length (dn_overflow y1) \<le> 257 \<and> cache_bytes (dn_overflow y1) \<le> 64 * 1024 * 1024 + length encoded
     \<and> (\<forall>(k, e) \<in> set (dn_overflow y1). k \<noteq> dn_overflow_counter y0 \<longrightarrow> dn_clock y0 - oe_created e < 30000)"
proof -
  have m: "m \<noteq> CACHED_METHOD" using assms(2,4) by (auto simp: CACHED_METHOD_def split: option.splits)
  let ?t = "dn_overflow_counter y0" and ?c = "evict_overflow (dn_clock y0) (dn_overflow y0)"
  have y1: "dn_overflow y1 = al_put ?t \<lparr>oe_data = encoded, oe_created = dn_clock y0\<rparr> ?c"
    using assms m by (auto simp: iroh_http_call_def Let_def split: option.splits)
  have b: "length ?c \<le> 256" "cache_bytes ?c \<le> 64 * 1024 * 1024"
    using evict_oldest_budget by (auto simp: evict_overflow_def over_budget_def OVERFLOW_MAX_ENTRIES_def OVERFLOW_MAX_BYTES_def not_less)
  have "length (al_del ?t ?c) \<le> length ?c" by (simp add: al_del_def)
  then have "length (dn_overflow y1) \<le> 257" using b(1) y1 by (simp add: al_put_def)
  moreover have "cache_bytes (dn_overflow y1) \<le> 64 * 1024 * 1024 + length encoded"
    using b(2) cache_bytes_del [of ?t ?c] y1 by (simp add: al_put_def cache_bytes_def)
  moreover have "dn_clock y0 - oe_created e < 30000" if "(k, e) \<in> set (dn_overflow y1)" "k \<noteq> ?t" for k e
    using that evict_oldest_subset y1 by (fastforce simp: al_put_def al_del_def evict_overflow_def OVERFLOW_TTL_def)
  ultimately show ?thesis by auto
qed

lemma over_budget_filter: "over_budget (filter P c) \<Longrightarrow> over_budget c"
proof -
  have "cache_bytes (filter P c) \<le> cache_bytes c" by (induction c) (auto simp: cache_bytes_def)
  moreover have "length (filter P c) \<le> length c" by simp
  ultimately show "over_budget (filter P c) \<Longrightarrow> over_budget c"
    unfolding over_budget_def by linarith
qed

lemma evict_keeps_young:
  assumes "tm - oe_created e < OVERFLOW_TTL" "\<not> over_budget ((k, e) # c)"
  shows "map_of (evict_overflow tm ((k, e) # c)) k = Some e"
proof -
  have "\<not> over_budget (filter (\<lambda>(_, e). tm - oe_created e < OVERFLOW_TTL) ((k, e) # c))"
    using assms(2) over_budget_filter by blast
  then show ?thesis using assms(1) by (simp add: evict_overflow_def evict_oldest.simps)
qed

text \<open>Property C28.  A response that does not fit the caller's buffer, and has at most 2147483647 bytes.  The call returns the
  negated length, and an eight-byte token if the buffer has room for one (at least eight bytes).  Let the caller come back
  with that token in any later state in which the token's entry has either been kept or been evicted.  If it was kept, a call of
  \<open>__cached\<close> with a buffer of the returned length gets exactly the encoded response, without running the method, changes
  nothing but the cache, and the token works once; if it was evicted, the call returns -1 and changes nothing.  A caller that
  got no token gets -1 as well.  The next response that does not fit evicts no entry that is younger than 30 seconds while the cache is
  within its limits of 256 entries and 64 MB.\<close>

theorem overflow_response_is_recovered:
  assumes "iroh_http_call utf8 True run meth payload out y = ((n, w), y1)" and "utf8 (sl_data meth) \<noteq> Some CACHED_METHOD"
    and "run m (sl_data payload) y = (encoded, y0)" and "m = (case utf8 (sl_data meth) of None \<Rightarrow> ''__invalid_utf8__'' | Some s \<Rightarrow> s)"
    and "\<not> bad_slice meth" and "\<not> bad_slice payload" and "\<not> bad_out out" and "ob_cap out < length encoded"
    and "length encoded \<le> 2 ^ 31 - 1"
    and "utf8 (sl_data cached) = Some CACHED_METHOD" and "\<not> sl_null cached"
    and "map_of (dn_overflow y2) (dn_overflow_counter y0) \<in> {map_of (dn_overflow y1) (dn_overflow_counter y0), None}"
  shows "let again = iroh_http_call utf8 rt run cached \<lparr>sl_null = False, sl_data = w\<rparr>;
             large = \<lparr>ob_null = False, ob_cap = nat (- n)\<rparr>;
             token = dn_overflow_counter y0
      in n = - int (length encoded) \<and> w = (if 8 \<le> ob_cap out then to_le_bytes token else [])
       \<and> (if 8 \<le> ob_cap out \<and> map_of (dn_overflow y2) token \<noteq> None
          then (let y3 = y2\<lparr>dn_overflow := al_del token (dn_overflow y2)\<rparr>
                in again large y2 = ((int (length encoded), encoded), y3) \<and> again large y3 = ((- 1, []), y3))
          else again large y2 = ((- 1, []), y2))
       \<and> (\<forall>tm. tm - dn_clock y0 < 30000 \<and> \<not> over_budget (dn_overflow y1)
            \<longrightarrow> map_of (evict_overflow tm (dn_overflow y1)) token = map_of (dn_overflow y1) token)"
proof -
  let ?e = "\<lparr>oe_data = encoded, oe_created = dn_clock y0\<rparr>" and ?t = "dn_overflow_counter y0"
  have m: "m \<noteq> CACHED_METHOD" using assms(2,4) by (auto simp: CACHED_METHOD_def split: option.splits)
  have r: "n = - int (length encoded)" "w = (if 8 \<le> ob_cap out then to_le_bytes ?t else [])"
      "dn_overflow y1 = (?t, ?e) # al_del ?t (evict_overflow (dn_clock y0) (dn_overflow y0))"
    using assms(1,3-9) m by (auto simp: iroh_http_call_def Let_def neg_len_def al_put_def split: option.splits)
  have l: "len_as_i32 (length encoded) = int (length encoded)"
    using assms(9) by (simp add: len_as_i32_def signed_of_nat signed_take_bit_int_eq_self)
  have "map_of (evict_overflow tm (dn_overflow y1)) ?t = map_of (dn_overflow y1) ?t"
    if "tm - dn_clock y0 < 30000" "\<not> over_budget (dn_overflow y1)" for tm
    using evict_keeps_young [of tm ?e ?t] that r(3) by (simp add: OVERFLOW_TTL_def)
  then show ?thesis
    using r assms(10-12) l
    by (auto simp: iroh_http_call_def take_cached_def bad_slice_def bad_out_def copy_out_def Let_def)
qed

definition demo_deno :: "fifo deno_sys" where
  "demo_deno = \<lparr>dn_endpoints = slot_new, dn_stream_errors = [], dn_overflow = [], dn_overflow_counter = 1, dn_fetches = [],
     dn_fetch_results = [], dn_fetch_counter = 1, dn_called = [], dn_clock = 0\<rparr>"

definition demo_utf8 :: "bytes \<Rightarrow> string option" where
  "demo_utf8 b = (if b = str_to_bytes CACHED_METHOD then Some CACHED_METHOD else None)"

definition demo_run :: "string \<Rightarrow> bytes \<Rightarrow> fifo deno_sys \<Rightarrow> bytes \<times> fifo deno_sys" where
  "demo_run m p y = (replicate 9 7, y)"

lemma demo_overflow:
  "iroh_http_call demo_utf8 True demo_run \<lparr>sl_null = False, sl_data = []\<rparr> \<lparr>sl_null = False, sl_data = []\<rparr> \<lparr>ob_null = False, ob_cap = 8\<rparr> demo_deno
     = ((- 9, to_le_bytes 1), demo_deno\<lparr>dn_overflow_counter := 2, dn_overflow := [(1, \<lparr>oe_data = replicate 9 7, oe_created = 0\<rparr>)]\<rparr>)"
  by (simp add: iroh_http_call_def bad_slice_def bad_out_def demo_utf8_def demo_run_def CACHED_METHOD_def str_to_bytes_def neg_len_def Let_def
      evict_overflow_def evict_oldest.simps over_budget_def cache_bytes_def al_put_def demo_deno_def)

lemma demo_overflow_premises:
  "demo_utf8 (sl_data \<lparr>sl_null = False, sl_data = []\<rparr>) \<noteq> Some CACHED_METHOD"
  "demo_run ''__invalid_utf8__'' (sl_data \<lparr>sl_null = False, sl_data = []\<rparr>) demo_deno = (replicate 9 7, demo_deno)"
  "''__invalid_utf8__'' = (case demo_utf8 (sl_data \<lparr>sl_null = False, sl_data = []\<rparr>) of None \<Rightarrow> ''__invalid_utf8__'' | Some s \<Rightarrow> s)"
  "\<not> bad_slice \<lparr>sl_null = False, sl_data = []\<rparr>" "\<not> bad_out \<lparr>ob_null = False, ob_cap = 8\<rparr>"
  "ob_cap \<lparr>ob_null = False, ob_cap = 8\<rparr> < length (replicate 9 (7 :: u8))"
  by (simp_all add: demo_utf8_def demo_run_def CACHED_METHOD_def str_to_bytes_def bad_slice_def bad_out_def)

theorem overflow_cache_is_bounded_witness:
  "\<exists>n w y1. iroh_http_call demo_utf8 True demo_run \<lparr>sl_null = False, sl_data = []\<rparr> \<lparr>sl_null = False, sl_data = []\<rparr> \<lparr>ob_null = False, ob_cap = 8\<rparr>
        demo_deno = ((n, w), y1) \<and> length (dn_overflow y1) \<le> 257"
  using overflow_cache_is_bounded [OF demo_overflow demo_overflow_premises(1-4) demo_overflow_premises(4-6)] demo_overflow by blast

theorem overflow_response_is_recovered_witness:
  "\<exists>w y1 y3. iroh_http_call demo_utf8 True demo_run \<lparr>sl_null = False, sl_data = []\<rparr> \<lparr>sl_null = False, sl_data = []\<rparr>
        \<lparr>ob_null = False, ob_cap = 8\<rparr> demo_deno = ((- 9, w), y1)
     \<and> iroh_http_call demo_utf8 True demo_run \<lparr>sl_null = False, sl_data = str_to_bytes CACHED_METHOD\<rparr> \<lparr>sl_null = False, sl_data = w\<rparr>
        \<lparr>ob_null = False, ob_cap = 9\<rparr> y1 = ((9, replicate 9 7), y3)"
proof -
  have c: "demo_utf8 (sl_data \<lparr>sl_null = False, sl_data = str_to_bytes CACHED_METHOD\<rparr>) = Some CACHED_METHOD" by (simp add: demo_utf8_def)
  show ?thesis
    using overflow_response_is_recovered [OF demo_overflow demo_overflow_premises(1-4) demo_overflow_premises(4-6) _ c,
        where rt = True and ?y2.0 = "demo_deno\<lparr>dn_overflow_counter := 2, dn_overflow := [(1, \<lparr>oe_data = replicate 9 7, oe_created = 0\<rparr>)]\<rparr>"]
      demo_overflow
    by (auto simp: demo_deno_def Let_def)
qed

section \<open>Fetch results\<close>

text \<open>The result of a fetch is there, in one of the two tables.\<close>

definition fetch_ready :: "u64 \<Rightarrow> bytes \<Rightarrow> 'c deno_sys \<Rightarrow> bool" where
  "fetch_ready token b y \<longleftrightarrow> (\<exists>r. either_bytes r = b \<and> (map_of (dn_fetch_results y) token = Some r \<and> map_of (dn_fetches y) token = None
     \<or> map_of (dn_fetch_results y) token = None \<and> map_of (dn_fetches y) token = Some (FetchDone r)))"

lemma fetch_poll_short:
  assumes "fetch_ready token b y" "\<not> bad_out out" "ob_cap out < length b" "length b \<le> 2 ^ 31 - 1"
  shows "fst (iroh_http_poll_fetch True token out y) = (- int (length b), []) \<and> fetch_ready token b (snd (iroh_http_poll_fetch True token out y))"
proof -
  have e: "either_bytes (Inr b) = b" by (simp add: either_bytes_def)
  obtain r where r: "either_bytes r = b" and c: "map_of (dn_fetch_results y) token = Some r \<and> map_of (dn_fetches y) token = None
     \<or> map_of (dn_fetch_results y) token = None \<and> map_of (dn_fetches y) token = Some (FetchDone r)"
    using assms(1) by (auto simp: fetch_ready_def)
  from c show ?thesis
    using assms(2-4) r e
    by (elim disjE conjE) (auto simp: iroh_http_poll_fetch_def copy_out_def neg_len_def fetch_ready_def intro!: exI [of _ "Inr b"])
qed

fun poll_all :: "u64 \<Rightarrow> out_buf list \<Rightarrow> 'c deno_sys \<Rightarrow> (int \<times> bytes) list \<times> 'c deno_sys" where
  "poll_all token [] y = ([], y)"
| "poll_all token (out # outs) y = (case iroh_http_poll_fetch True token out y of (r, y1) \<Rightarrow>
     (case poll_all token outs y1 of (rs, y2) \<Rightarrow> (r # rs, y2)))"

lemma fetch_polls_short:
  assumes "fetch_ready token b y" "length b \<le> 2 ^ 31 - 1" "\<forall>out \<in> set outs. \<not> bad_out out \<and> ob_cap out < length b"
  shows "fst (poll_all token outs y) = replicate (length outs) (- int (length b), []) \<and> fetch_ready token b (snd (poll_all token outs y))"
  using assms(1,3)
proof (induction outs arbitrary: y)
  case (Cons out outs)
  have "fst (iroh_http_poll_fetch True token out y) = (- int (length b), [])" "fetch_ready token b (snd (iroh_http_poll_fetch True token out y))"
    using fetch_poll_short [OF Cons.prems(1) _ _ assms(2)] Cons.prems(2) by simp_all
  then show ?case
    using Cons.IH [of "snd (iroh_http_poll_fetch True token out y)"] Cons.prems(2) by (simp add: case_prod_beta)
qed simp

text \<open>The result of a finished fetch is handed over completely and once: whether its task is still in the registry or its
  result is already stored, any number of polls with buffers that are too small report the required size and keep it,
  the first poll with a large enough buffer gets exactly the encoded result, and then the token is unknown.\<close>

theorem fetch_result_is_delivered_once:
  assumes "fetch_ready token b y" and "length b \<le> 2 ^ 31 - 1" and "\<forall>out \<in> set outs. \<not> bad_out out \<and> ob_cap out < length b"
    and "\<not> bad_out large" and "length b \<le> ob_cap large" and "poll_all token outs y = (rs, y1)"
  shows "rs = replicate (length outs) (- int (length b), [])
     \<and> (\<exists>y2. iroh_http_poll_fetch True token large y1 = ((int (length b), b), y2)
          \<and> fst (iroh_http_poll_fetch True token large y2) = (- 1, []))"
proof -
  have r: "rs = replicate (length outs) (- int (length b), [])" "fetch_ready token b y1"
    using fetch_polls_short [OF assms(1-3)] assms(6) by simp_all
  have "len_as_i32 (length b) = int (length b)"
    using assms(2) by (simp add: len_as_i32_def signed_of_nat signed_take_bit_int_eq_self)
  then show ?thesis
    using r assms(4,5) by (auto simp: fetch_ready_def iroh_http_poll_fetch_def copy_out_def Let_def)
qed

theorem fetch_result_is_delivered_once_witness:
  "\<exists>y1 y2. poll_all 1 [\<lparr>ob_null = False, ob_cap = 2\<rparr>] (fetch_task_ends 1 (FetchDone (Inr [1, 2, 3])) (snd (iroh_http_start_fetch True
        \<lparr>sl_null = False, sl_data = [5]\<rparr> demo_deno))) = ([(- 3, [])], y1)
     \<and> iroh_http_poll_fetch True 1 \<lparr>ob_null = False, ob_cap = 3\<rparr> y1 = ((3, [1, 2, 3]), y2)"
proof -
  define y where "y = fetch_task_ends 1 (FetchDone (Inr [1, 2, 3])) (snd (iroh_http_start_fetch True \<lparr>sl_null = False, sl_data = [5]\<rparr> demo_deno))"
  have f: "fetch_ready 1 [1, 2, 3] y"
    by (simp add: y_def fetch_ready_def fetch_task_ends_def iroh_http_start_fetch_def bad_slice_def demo_deno_def al_put_def al_upd_def
        either_bytes_def Let_def)
  obtain rs y1 where p: "poll_all 1 [\<lparr>ob_null = False, ob_cap = 2\<rparr>] y = (rs, y1)" by (metis prod.exhaust)
  have "rs = replicate (length [\<lparr>ob_null = False, ob_cap = 2\<rparr>]) (- int (length [1, 2, 3 :: u8]), [])
     \<and> (\<exists>y2. iroh_http_poll_fetch True 1 \<lparr>ob_null = False, ob_cap = 3\<rparr> y1 = ((int (length [1, 2, 3 :: u8]), [1, 2, 3]), y2)
          \<and> fst (iroh_http_poll_fetch True 1 \<lparr>ob_null = False, ob_cap = 3\<rparr> y2) = (- 1, []))"
    by (rule fetch_result_is_delivered_once [OF f _ _ _ _ p]) (simp_all add: bad_out_def)
  then show ?thesis using p unfolding y_def by auto
qed

section \<open>Chunks that do not fit\<close>

text \<open>A chunk that does not fit the caller's buffer is lost: \<open>iroh_http_next_chunk\<close> reports the required size, as documented for a
  retry with a larger buffer, but the chunk has been taken from the stream; every retry continues with the chunk after
  it, so that the body arrives with a hole.\<close>

theorem oversized_chunk_is_lost:
  assumes "mpsc ops view" and "get_endpoint ep (dn_endpoints y) = Some d" and "stream_at view h i cap n te (x # z # zs) (dsp_store d)"
    and "\<not> bad_out out" and "ob_cap out < length x" and "length x \<le> 2 ^ 31 - 1"
    and "\<not> bad_out large" and "length z \<le> ob_cap large" and "length z \<le> 2 ^ 31 - 1"
  shows "\<exists>y1 y2. iroh_http_next_chunk A ops True [] env ep h out y = Some ((- int (length x), []), y1)
     \<and> iroh_http_next_chunk A ops True [] env ep h large y1 = Some ((int (length z), z), y2)"
proof -
  obtain s1 where n1: "next_chunk ops [] env h (dsp_store d) = Some (Inr (Some x), s1)"
    and st1: "stream_at view h i cap n te (z # zs) s1"
    using mpsc.next_chunk_deliver [OF assms(1,3), of env] by blast
  obtain s2 where n2: "next_chunk ops [] env h s1 = Some (Inr (Some z), s2)"
    using mpsc.next_chunk_deliver [OF assms(1) st1, of env] by blast
  have g: "get_endpoint ep (dn_endpoints (put_endpoint ep (d\<lparr>dsp_store := s1\<rparr>) y)) = Some (d\<lparr>dsp_store := s1\<rparr>)"
    using assms(2) by (simp add: get_endpoint_def put_endpoint_def)
  have "len_as_i32 (length z) = int (length z)"
    using assms(9) by (simp add: len_as_i32_def signed_of_nat signed_take_bit_int_eq_self)
  then show ?thesis
    using assms(2,4-8) n1 n2 g by (simp add: iroh_http_next_chunk_def copy_out_def neg_len_def)
qed

definition demo_two_chunks :: "fifo disp_sys" where
  "demo_two_chunks = \<lparr>dsp_store = on_mem (upd_cell 0 (\<lambda>c. c\<lparr>chan := (fifo_new 4)\<lparr>queue := [[1, 2], [3]]\<rparr>\<rparr>)) (demo_stream 1 None),
     dsp_heads = [], dsp_dead_rx = [], dsp_next = 0, dsp_callbacks = [], dsp_pumps = []\<rparr>"

definition demo_adapter :: adapter_lib where
  "demo_adapter = \<lparr>show_f64 = \<lambda>_. [], json_string = \<lambda>s. s\<rparr>"

theorem oversized_chunk_is_lost_witness:
  "\<exists>y1 y2. iroh_http_next_chunk demo_adapter fifo_ops True [] [] 1 1 \<lparr>ob_null = False, ob_cap = 1\<rparr>
       (demo_deno\<lparr>dn_endpoints := snd (insert_endpoint counting_lib demo_two_chunks slot_new)\<rparr>) = Some ((- 2, []), y1)
     \<and> iroh_http_next_chunk demo_adapter fifo_ops True [] [] 1 1 \<lparr>ob_null = False, ob_cap = 2\<rparr> y1 = Some ((1, [3]), y2)"
proof -
  let ?y = "demo_deno\<lparr>dn_endpoints := snd (insert_endpoint counting_lib demo_two_chunks slot_new)\<rparr>"
  have g: "get_endpoint 1 (dn_endpoints ?y) = Some demo_two_chunks"
    by (simp add: get_endpoint_def insert_endpoint_def slot_get_insert)
  have s: "stream_at (\<lambda>f. f) 1 0 4 1 None ([1, 2] # [3] # []) (dsp_store demo_two_chunks)"
    by (simp add: stream_at_def demo_two_chunks_def demo_stream_def demo_defs slot_get_def fifo_new_def)
  show ?thesis
    using oversized_chunk_is_lost [OF fifo.mpsc_axioms g s, of "\<lparr>ob_null = False, ob_cap = 1\<rparr>" "\<lparr>ob_null = False, ob_cap = 2\<rparr>" demo_adapter "[]"]
    by (simp add: bad_out_def)
qed

end
