(* ===== verification/Tauri_State.thy ===== *)
theory Tauri_State
  imports Endpoint_Registry
begin

text \<open>
  \<^verbatim>\<open>src/packages/iroh-http-tauri/src/state.rs\<close> and \<^verbatim>\<open>discovery_handles.rs\<close>: which endpoint owns a node identity, which
  endpoint answers \<open>httpi://\<close> requests of the webview, and the handles of discovery resources.

  A call is a sequence of lock regions and atomic operations; \<open>tauri_step\<close> performs one of them, so that the calls of
  several webviews interleave.  The whole calls are compositions of the same parts.
\<close>

section \<open>Discovery handles\<close>

record 't discovery_handle_map =
  dh_next :: u64
  dh_entries :: "(u64 \<times> 't) list"

definition handle_map_default :: "'t discovery_handle_map" where
  "handle_map_default = \<lparr>dh_next = 1, dh_entries = []\<rparr>"

definition HANDLES_EXHAUSTED :: string where "HANDLES_EXHAUSTED = ''discovery handle space exhausted''"

definition dh_insert :: "'t \<Rightarrow> 't discovery_handle_map \<Rightarrow> (string + u64) \<times> 't discovery_handle_map" where
  "dh_insert v m = (let handle = dh_next m in
     if handle = - 1 then (Inl HANDLES_EXHAUSTED, m)
     else (Inr handle, m\<lparr>dh_next := handle + 1, dh_entries := al_put handle v (dh_entries m)\<rparr>))"

definition dh_get :: "u64 \<Rightarrow> 't discovery_handle_map \<Rightarrow> 't option" where
  "dh_get h m = map_of (dh_entries m) h"

definition dh_remove :: "u64 \<Rightarrow> 't discovery_handle_map \<Rightarrow> 't option \<times> 't discovery_handle_map" where
  "dh_remove h m = (dh_get h m, m\<lparr>dh_entries := al_del h (dh_entries m)\<rparr>)"

definition dh_remove_if :: "u64 \<Rightarrow> ('t \<Rightarrow> bool) \<Rightarrow> 't discovery_handle_map \<Rightarrow> 't option \<times> 't discovery_handle_map" where
  "dh_remove_if h P m = (case dh_get h m of
       None \<Rightarrow> (None, m)
     | Some v \<Rightarrow> if P v then dh_remove h m else (None, m))"

datatype 't handle_op = DhInsert 't | DhRemove u64 | DhRemoveIf u64 "'t \<Rightarrow> bool"

fun dh_run :: "'t handle_op list \<Rightarrow> 't discovery_handle_map \<Rightarrow> 't discovery_handle_map" where
  "dh_run [] m = m"
| "dh_run (DhInsert v # os) m = dh_run os (snd (dh_insert v m))"
| "dh_run (DhRemove h # os) m = dh_run os (snd (dh_remove h m))"
| "dh_run (DhRemoveIf h P # os) m = dh_run os (snd (dh_remove_if h P m))"

text \<open>Entries have distinct handles below the next one, and the next one has not wrapped.\<close>

definition dh_inv :: "'t discovery_handle_map \<Rightarrow> bool" where
  "dh_inv m \<longleftrightarrow> distinct (keys (dh_entries m)) \<and> (\<forall>h \<in> set (keys (dh_entries m)). h < dh_next m) \<and> 0 < dh_next m"

definition dh_room :: "'t discovery_handle_map \<Rightarrow> bool" where
  "dh_room m \<longleftrightarrow> dh_next m \<noteq> - 1"

definition dh_put :: "'t \<Rightarrow> 't discovery_handle_map \<Rightarrow> u64 \<times> 't discovery_handle_map" where
  "dh_put v m = (dh_next m, m\<lparr>dh_next := dh_next m + 1, dh_entries := al_put (dh_next m) v (dh_entries m)\<rparr>)"

lemma dh_insert_room: "dh_room m \<Longrightarrow> dh_insert v m = (Inr (fst (dh_put v m)), snd (dh_put v m))"
  by (simp add: dh_insert_def dh_room_def dh_put_def Let_def)

lemma dh_insert_full: "\<not> dh_room m \<Longrightarrow> dh_insert v m = (Inl HANDLES_EXHAUSTED, m)"
  by (simp add: dh_insert_def dh_room_def Let_def)

lemma dh_next_fresh: "dh_inv m \<Longrightarrow> dh_next m \<notin> set (keys (dh_entries m))"
  by (auto simp: dh_inv_def)

lemma dh_inv_put:
  assumes "dh_inv m" "dh_room m"
  shows "dh_inv (snd (dh_put v m))"
proof -
  have lt: "dh_next m < dh_next m + 1" using assms(2) by (simp add: dh_room_def word_less_succ_iff)
  moreover have "0 < dh_next m + 1" using lt assms(1) by (auto simp: dh_inv_def)
  ultimately show ?thesis
    using assms(1) dh_next_fresh [OF assms(1)] by (auto simp: dh_inv_def dh_put_def al_put_def)
qed

interpretation handle_map: retiring_registry dh_put dh_get dh_remove "\<lambda>m. length (dh_entries m)" dh_inv dh_room
    "\<lambda>m. {h. h < dh_next m}"
proof (unfold_locales, goal_cases)
  case (1 m v)
  then show ?case using dh_next_fresh by (simp add: dh_get_def dh_put_def map_of_None_keys)
next
  case (3 m v)
  then show ?case by (rule dh_inv_put)
next
  case (4 m v)
  then show ?case using dh_next_fresh [of m] by (simp add: dh_put_def al_put_def)
next
  case (7 m k)
  then show ?case by (auto simp: dh_inv_def dh_remove_def)
next
  case (8 m k v)
  then have "k \<in> set (keys (dh_entries m))" by (metis map_of_None_keys option.distinct(1) dh_get_def)
  then show ?case using 8(1) by (simp add: dh_inv_def dh_remove_def length_al_del_mem)
next
  case (9 m v)
  then show ?case using word_less_succ_iff [of "dh_next m"] by (auto simp: dh_put_def dh_room_def)
qed (auto simp: dh_get_def dh_put_def dh_remove_def)

section \<open>Endpoints and their node identities\<close>

text \<open>\<open>nid\<close> is the node identity of an endpoint.\<close>

type_synonym endpoint_owners = "(string \<times> u64) list"

definition remove_endpoint_owner :: "u64 \<Rightarrow> endpoint_owners \<Rightarrow> endpoint_owners" where
  "remove_endpoint_owner h ow = filter (\<lambda>(_, owned). owned \<noteq> h) ow"

definition swap_owner :: "string \<Rightarrow> u64 \<Rightarrow> endpoint_owners \<Rightarrow> u64 option \<times> endpoint_owners" where
  "swap_owner n h ow = (map_of ow n, al_put n h ow)"

definition evicted_handle :: "u64 option \<Rightarrow> u64 \<Rightarrow> u64 option" where
  "evicted_handle old h = (case old of Some o1 \<Rightarrow> if o1 \<noteq> h then Some o1 else None | None \<Rightarrow> None)"

definition replace_endpoint_for_node_id :: "slot_lib \<Rightarrow> string \<Rightarrow> 'e \<Rightarrow> 'e registry \<Rightarrow> endpoint_owners
    \<Rightarrow> (u64 \<times> (u64 \<times> 'e) option) \<times> 'e registry \<times> endpoint_owners" where
  "replace_endpoint_for_node_id L n ep r ow = (case insert_endpoint L ep r of (h, r1) \<Rightarrow>
     (case swap_owner n h ow of (old_handle, ow1) \<Rightarrow>
       (case evicted_handle old_handle h of
          None \<Rightarrow> ((h, None), r1, ow1)
        | Some old \<Rightarrow> (case remove_endpoint old r1 of (e, r2) \<Rightarrow> ((h, map_option (Pair old) e), r2, ow1)))))"

definition tauri_remove_endpoint :: "u64 \<Rightarrow> 'e registry \<Rightarrow> endpoint_owners \<Rightarrow> 'e option \<times> 'e registry \<times> endpoint_owners" where
  "tauri_remove_endpoint h r ow = (case remove_endpoint h r of (e, r1) \<Rightarrow> (e, r1, remove_endpoint_owner h ow))"

definition clear_endpoint_owners :: "endpoint_owners \<Rightarrow> endpoint_owners" where
  "clear_endpoint_owners ow = []"

section \<open>The endpoint of the scheme handler\<close>

text \<open>Zero is unbound.\<close>

definition compare_exchange :: "u64 \<Rightarrow> u64 \<Rightarrow> u64 \<Rightarrow> bool \<times> u64" where
  "compare_exchange current new a = (if a = current then (True, new) else (False, a))"

definition is_stale :: "u64 \<Rightarrow> 'e registry \<Rightarrow> bool" where
  "is_stale c r \<longleftrightarrow> c \<noteq> 0 \<and> get_endpoint c r = None"

definition bind_if_unbound :: "'e registry \<Rightarrow> u64 \<Rightarrow> u64 \<Rightarrow> bool \<times> u64" where
  "bind_if_unbound r h a = (let a1 = (if is_stale a r then snd (compare_exchange a 0 a) else a) in compare_exchange 0 h a1)"

definition scheme_bind :: "u64 \<Rightarrow> u64 \<Rightarrow> u64" where
  "scheme_bind h a = h"

definition active_handle :: "u64 \<Rightarrow> u64 option" where
  "active_handle a = (if a = 0 then None else Some a)"

section \<open>Interleavings\<close>

datatype tauri_task = Inserted string u64 | Evict u64 | Unregister u64 | CloseAll
  | BindLoad u64 | BindCheck u64 u64 | BindClear u64 u64 | BindSet u64

record 'e tauri_state =
  ts_registry :: "'e registry"
  ts_owners :: endpoint_owners
  ts_active :: u64
  ts_tasks :: "tauri_task list"

definition tauri_new :: "'e tauri_state" where
  "tauri_new = \<lparr>ts_registry = slot_new, ts_owners = [], ts_active = 0, ts_tasks = []\<rparr>"

text \<open>One step of a task: the steps it continues with and the new state.\<close>

definition task_run :: "tauri_task \<Rightarrow> 'e tauri_state \<Rightarrow> tauri_task list \<times> 'e tauri_state" where
  "task_run t s = (case t of
       Inserted n h \<Rightarrow> (case swap_owner n h (ts_owners s) of (old, ow) \<Rightarrow>
         (case evicted_handle old h of None \<Rightarrow> [] | Some o1 \<Rightarrow> [Evict o1], s\<lparr>ts_owners := ow\<rparr>))
     | Evict h \<Rightarrow> ([], s\<lparr>ts_registry := snd (remove_endpoint h (ts_registry s))\<rparr>)
     | Unregister h \<Rightarrow> ([], s\<lparr>ts_registry := snd (remove_endpoint h (ts_registry s))\<rparr>)
     | CloseAll \<Rightarrow> ([], s\<lparr>ts_registry := snd (close_all_endpoints (ts_registry s))\<rparr>)
     | BindLoad h \<Rightarrow> ([BindCheck h (ts_active s)], s)
     | BindCheck h c \<Rightarrow> ([if is_stale c (ts_registry s) then BindClear h c else BindSet h], s)
     | BindClear h c \<Rightarrow> ([BindSet h], s\<lparr>ts_active := snd (compare_exchange c 0 (ts_active s))\<rparr>)
     | BindSet h \<Rightarrow> ([], s\<lparr>ts_active := snd (compare_exchange 0 h (ts_active s))\<rparr>))"

definition spawn :: "tauri_task \<Rightarrow> 'e tauri_state \<Rightarrow> 'e tauri_state" where
  "spawn t s = s\<lparr>ts_tasks := ts_tasks s @ [t]\<rparr>"

definition run_tauri_task :: "tauri_task \<Rightarrow> 'e tauri_state \<Rightarrow> 'e tauri_state" where
  "run_tauri_task t s = (case task_run t s of (ts, s1) \<Rightarrow> s1\<lparr>ts_tasks := remove1 t (ts_tasks s) @ ts\<rparr>)"

text \<open>A call begins with its first lock region: an endpoint is registered, an owner entry is dropped, the owner entries
  are cleared, or the binding of the scheme handler to an endpoint created before is attempted.\<close>

inductive tauri_step :: "slot_lib \<Rightarrow> ('e \<Rightarrow> string) \<Rightarrow> 'e tauri_state \<Rightarrow> 'e tauri_state \<Rightarrow> bool" for L nid where
  tr_create: "slot_room (ts_registry s) \<Longrightarrow> insert_endpoint L e (ts_registry s) = (h, r) \<Longrightarrow>
     tauri_step L nid s (spawn (Inserted (nid e) h) (s\<lparr>ts_registry := r\<rparr>))"
| tr_remove: "tauri_step L nid s (spawn (Unregister h) (s\<lparr>ts_owners := remove_endpoint_owner h (ts_owners s)\<rparr>))"
| tr_teardown: "tauri_step L nid s (spawn CloseAll (s\<lparr>ts_owners := clear_endpoint_owners (ts_owners s)\<rparr>))"
| tr_bind: "h \<in> set (issued L (history (ts_registry s))) \<Longrightarrow> tauri_step L nid s (spawn (BindLoad h) s)"
| tr_run: "t \<in> set (ts_tasks s) \<Longrightarrow> tauri_step L nid s (run_tauri_task t s)"

abbreviation tauri_reachable :: "slot_lib \<Rightarrow> ('e \<Rightarrow> string) \<Rightarrow> 'e tauri_state \<Rightarrow> bool" where
  "tauri_reachable L nid s \<equiv> (tauri_step L nid)\<^sup>*\<^sup>* tauri_new s"

end
