(* ===== verification/Tauri_Props.thy ===== *)
theory Tauri_Props
  imports Tauri_State
begin

text \<open>
  The endpoints of the Tauri package: one endpoint per node identity, a scheme handler that keeps a live endpoint, and
  discovery handles that are never reused.
\<close>

section \<open>Endpoints have an owner\<close>

text \<open>A live endpoint is the one its node identity maps to, or a call under way will settle it.\<close>

definition endpoints_owned :: "('e \<Rightarrow> string) \<Rightarrow> 'e tauri_state \<Rightarrow> bool" where
  "endpoints_owned nid s \<longleftrightarrow> (\<forall>h e. get_endpoint h (ts_registry s) = Some e \<longrightarrow>
     map_of (ts_owners s) (nid e) = Some h \<or> Inserted (nid e) h \<in> set (ts_tasks s) \<or> Evict h \<in> set (ts_tasks s)
     \<or> Unregister h \<in> set (ts_tasks s) \<or> CloseAll \<in> set (ts_tasks s))"

lemma get_remove_each: "slot_get k (snd (remove_each ks r)) = (if k \<in> set ks then None else slot_get k r)"
proof (induction ks arbitrary: r)
  case (Cons j ks)
  obtain v r1 where v: "slot_remove j r = (v, r1)" by fastforce
  then have "slot_get k r1 = (if k = j then None else slot_get k r)" using slot_get_remove [of k j r] by simp
  then show ?case using Cons.IH [of r1] by (auto simp: v split: prod.splits option.splits)
qed simp

lemma get_close_all [simp]: "get_endpoint h (snd (close_all_endpoints r)) = None"
  by (simp add: get_endpoint_def close_all_endpoints_def get_remove_each) (simp add: slot_get_def map_of_None_keys)

lemma get_remove_endpoint [simp]:
  "get_endpoint k (snd (remove_endpoint h r)) = (if k = h then None else get_endpoint k r)"
  by (simp add: get_endpoint_def remove_endpoint_def)

lemma map_of_remove_owner:
  "map_of ow n = Some k \<Longrightarrow> k \<noteq> h \<Longrightarrow> map_of (remove_endpoint_owner h ow) n = Some k"
  by (induction ow) (auto simp: remove_endpoint_owner_def split: if_splits)

lemma tasks_run: "set (ts_tasks (run_tauri_task t s)) \<subseteq> set (ts_tasks s) \<union> set (fst (task_run t s))"
  by (auto simp: run_tauri_task_def split: prod.splits dest: in_set_remove1 [THEN iffD1, rotated] notin_set_remove1 set_remove1_subset [THEN subsetD])

lemma tasks_kept: "u \<in> set (ts_tasks s) \<Longrightarrow> u \<noteq> t \<Longrightarrow> u \<in> set (ts_tasks (run_tauri_task t s))"
  by (simp add: run_tauri_task_def split: prod.splits)

lemma run_fields [simp]:
  "ts_registry (run_tauri_task t s) = ts_registry (snd (task_run t s))"
  "ts_owners (run_tauri_task t s) = ts_owners (snd (task_run t s))"
  "ts_active (run_tauri_task t s) = ts_active (snd (task_run t s))"
  by (simp_all add: run_tauri_task_def split: prod.splits)

lemma new_tasks: "u \<in> set (fst (task_run t s)) \<Longrightarrow> u \<in> set (ts_tasks (run_tauri_task t s))"
  by (auto simp: run_tauri_task_def split: prod.splits)

lemma get_insert_endpoint:
  "insert_endpoint L e r = (h, r') \<Longrightarrow> get_endpoint k r' = (if k = h then Some e else get_endpoint k r)"
  by (auto simp: get_endpoint_def insert_endpoint_def slot_insert_def slot_get_def Let_def)

lemma owned_run:
  assumes "endpoints_owned nid s" "t \<in> set (ts_tasks s)"
  shows "endpoints_owned nid (run_tauri_task t s)"
  unfolding endpoints_owned_def
proof (intro allI impI)
  fix h e
  assume live: "get_endpoint h (ts_registry (run_tauri_task t s)) = Some e"
  have old: "get_endpoint h (ts_registry s) = Some e"
    using live by (cases t) (auto simp: task_run_def swap_owner_def split: if_splits)
  have gone: "t \<noteq> Evict h" "t \<noteq> Unregister h" "t \<noteq> CloseAll"
    using live by (auto simp: task_run_def)
  have keep: "map_of (ts_owners (run_tauri_task t s)) (nid e) = Some h \<or> Evict h \<in> set (ts_tasks (run_tauri_task t s))"
    if "map_of (ts_owners s) (nid e) = Some h"
  proof (cases "\<exists>n k. t = Inserted n k")
    case True
    then obtain n k where t: "t = Inserted n k" by blast
    have "Evict h \<in> set (fst (task_run t s))" if "n = nid e" "k \<noteq> h"
      using that \<open>map_of (ts_owners s) (nid e) = Some h\<close> by (simp add: t task_run_def swap_owner_def evicted_handle_def)
    then show ?thesis
      using that new_tasks [of "Evict h" t s] by (cases "n = nid e"; cases "k = h") (auto simp: t task_run_def swap_owner_def)
  next
    case False
    then have "ts_owners (snd (task_run t s)) = ts_owners s" by (cases t) (auto simp: task_run_def)
    then show ?thesis using that by simp
  qed
  have ins: "map_of (ts_owners (run_tauri_task t s)) (nid e) = Some h" if "t = Inserted (nid e) h"
    using that by (simp add: task_run_def swap_owner_def)
  note kept = tasks_kept [of _ s t]
  consider "map_of (ts_owners s) (nid e) = Some h" | "Inserted (nid e) h \<in> set (ts_tasks s)" | "Evict h \<in> set (ts_tasks s)"
    | "Unregister h \<in> set (ts_tasks s)" | "CloseAll \<in> set (ts_tasks s)"
    using assms(1) old unfolding endpoints_owned_def by blast
  then show "map_of (ts_owners (run_tauri_task t s)) (nid e) = Some h
      \<or> Inserted (nid e) h \<in> set (ts_tasks (run_tauri_task t s)) \<or> Evict h \<in> set (ts_tasks (run_tauri_task t s))
      \<or> Unregister h \<in> set (ts_tasks (run_tauri_task t s)) \<or> CloseAll \<in> set (ts_tasks (run_tauri_task t s))"
  proof cases
    case 1
    then show ?thesis using keep by blast
  next
    case 2
    then show ?thesis using ins kept [of "Inserted (nid e) h"] by blast
  qed (use gone kept in blast)+
qed

lemma owned_step:
  assumes "tauri_step L nid s s'" "endpoints_owned nid s"
  shows "endpoints_owned nid s'"
  using assms
proof cases
  case (tr_create e h r)
  then show ?thesis
    using assms(2) get_insert_endpoint [OF tr_create(3)] by (auto simp: endpoints_owned_def spawn_def)
next
  case (tr_remove h)
  then show ?thesis
    using assms(2) map_of_remove_owner [of "ts_owners s" _ _ h] by (fastforce simp: endpoints_owned_def spawn_def)
next
  case (tr_teardown)
  then show ?thesis by (simp add: endpoints_owned_def spawn_def)
next
  case (tr_bind h)
  then show ?thesis using assms(2) by (auto simp: endpoints_owned_def spawn_def)
next
  case (tr_run t)
  then show ?thesis using owned_run assms(2) by blast
qed

lemma reachable_owned: "tauri_reachable L nid s \<Longrightarrow> endpoints_owned nid s"
proof (induction rule: rtranclp_induct)
  case base
  show ?case by (simp add: endpoints_owned_def tauri_new_def get_endpoint_def)
qed (rule owned_step)

section \<open>The binding of the scheme handler\<close>

lemma get_remove_each_none: "slot_get k r = None \<Longrightarrow> slot_get k (snd (remove_each ks r)) = None"
  by (simp add: get_remove_each)

lemma slot_inv_run:
  assumes "slot_inv L (ts_registry s)"
  shows "slot_inv L (ts_registry (run_tauri_task t s))"
  using assms remove_each_frame [OF assms, of "keys (slots (ts_registry s))"]
  by (cases t) (auto simp: task_run_def swap_owner_def remove_endpoint_def close_all_endpoints_def slot_inv_remove)

lemma registry_dead_run:
  "get_endpoint c (ts_registry s) = None \<Longrightarrow> get_endpoint c (ts_registry (run_tauri_task t s)) = None"
  by (cases t) (auto simp: task_run_def swap_owner_def)

lemma new_clear: "BindClear h c \<in> set (fst (task_run t s)) \<Longrightarrow> t = BindCheck h c \<and> is_stale c (ts_registry s)"
  by (cases t) (auto simp: task_run_def swap_owner_def split: option.splits if_splits)

fun task_handles :: "tauri_task \<Rightarrow> u64 set" where
  "task_handles (BindLoad h) = {h}"
| "task_handles (BindCheck h c) = {h, c}"
| "task_handles (BindClear h c) = {h, c}"
| "task_handles (BindSet h) = {h}"
| "task_handles _ = {}"

text \<open>Bindings name issued handles, and the handle a bind is about to clear is dead for good.\<close>

definition binds_ok :: "slot_lib \<Rightarrow> 'e tauri_state \<Rightarrow> bool" where
  "binds_ok L s \<longleftrightarrow> slot_inv L (ts_registry s)
     \<and> ts_active s \<in> insert 0 (set (issued L (history (ts_registry s))))
     \<and> (\<forall>t \<in> set (ts_tasks s). task_handles t \<subseteq> insert 0 (set (issued L (history (ts_registry s)))))
     \<and> (\<forall>h c. BindClear h c \<in> set (ts_tasks s) \<longrightarrow> is_stale c (ts_registry s))"

lemma issued_run:
  "set (issued L (history (ts_registry s))) \<subseteq> set (issued L (history (ts_registry (run_tauri_task t s))))"
proof (cases t)
  case CloseAll
  have "set (issued L (history r)) \<subseteq> set (issued L (history (snd (remove_each ks r))))" for ks and r :: "'a registry"
  proof (induction ks arbitrary: r)
    case (Cons k ks)
    show ?case using Cons.IH [of "snd (slot_remove k r)"] issued_mono(1) [of L r k] by (auto split: prod.splits)
  qed simp
  then show ?thesis by (simp add: CloseAll task_run_def close_all_endpoints_def)
qed (use issued_mono(1) in \<open>auto simp: task_run_def swap_owner_def remove_endpoint_def\<close>)

lemma handles_run:
  "u \<in> set (fst (task_run t s)) \<Longrightarrow> task_handles u \<subseteq> insert (ts_active s) (task_handles t)"
  by (cases t) (auto simp: task_run_def swap_owner_def split: option.splits if_splits)

lemma active_run: "ts_active (snd (task_run t s)) \<in> insert 0 (insert (ts_active s) (task_handles t))"
  by (cases t) (auto simp: task_run_def swap_owner_def compare_exchange_def)

lemma binds_run:
  assumes "binds_ok L s" "t \<in> set (ts_tasks s)"
  shows "binds_ok L (run_tauri_task t s)"
proof -
  let ?I = "insert 0 (set (issued L (history (ts_registry s))))"
  let ?J = "insert 0 (set (issued L (history (ts_registry (run_tauri_task t s)))))"
  have inv: "slot_inv L (ts_registry s)" "ts_active s \<in> ?I" "\<And>u. u \<in> set (ts_tasks s) \<Longrightarrow> task_handles u \<subseteq> ?I"
    "\<And>h c. BindClear h c \<in> set (ts_tasks s) \<Longrightarrow> is_stale c (ts_registry s)"
    using assms(1) by (auto simp: binds_ok_def)
  have IJ: "?I \<subseteq> ?J" using issued_run [of L s t] by blast
  have "task_handles u \<subseteq> ?I" if "u \<in> set (ts_tasks (run_tauri_task t s))" for u
    using that tasks_run [of t s] handles_run [of u t s] inv(2,3) assms(2) by blast
  moreover have "ts_active (run_tauri_task t s) \<in> ?I" using active_run [of t s] inv(2,3) assms(2) by auto
  moreover have "is_stale c (ts_registry (run_tauri_task t s))" if "BindClear h c \<in> set (ts_tasks (run_tauri_task t s))" for h c
  proof -
    have "is_stale c (ts_registry s)" using that tasks_run [of t s] inv(4) new_clear [of h c t s] by blast
    then show ?thesis using registry_dead_run [of c s t] by (simp add: is_stale_def)
  qed
  ultimately show ?thesis using slot_inv_run [OF inv(1)] IJ unfolding binds_ok_def by blast
qed

lemma binds_create:
  assumes "binds_ok L s" "slot_room (ts_registry s)" "insert_endpoint L e (ts_registry s) = (h, r)"
  shows "binds_ok L (spawn (Inserted n h) (s\<lparr>ts_registry := r\<rparr>))"
proof -
  have inv: "slot_inv L (ts_registry s)" using assms(1) by (simp add: binds_ok_def)
  have r: "slot_inv L r" "set (issued L (history r)) = insert h (set (issued L (history (ts_registry s))))"
    "h \<notin> set (issued L (history (ts_registry s)))"
    using slotmap.ins_invar [OF inv assms(2), of e] slotmap.ins_spent [OF inv assms(2), of e]
      slotmap.ins_unspent [OF inv assms(2), of e] assms(3)
    by (simp_all add: insert_endpoint_def)
  have "is_stale c r" if "BindClear k c \<in> set (ts_tasks s)" for k c
  proof -
    have c: "is_stale c (ts_registry s)" "c \<in> insert 0 (set (issued L (history (ts_registry s))))"
      using that assms(1) by (fastforce simp: binds_ok_def)+
    then have "c \<noteq> h" using r(3) by (auto simp: is_stale_def)
    then show ?thesis using c(1) get_insert_endpoint [OF assms(3), of c] by (simp add: is_stale_def)
  qed
  then show ?thesis using assms(1) r(1,2) by (auto simp: binds_ok_def spawn_def)
qed

lemma binds_step:
  assumes "tauri_step L nid s s'" "binds_ok L s"
  shows "binds_ok L s'"
  using assms
proof cases
  case (tr_create e h r)
  show ?thesis unfolding tr_create(1) by (rule binds_create [OF assms(2) tr_create(2,3)])
next
  case (tr_run t)
  then show ?thesis using binds_run assms(2) by blast
qed (use assms(2) in \<open>auto simp: binds_ok_def spawn_def\<close>)

lemma reachable_binds:
  assumes "slot_lib_ok L"
  shows "tauri_reachable L nid s \<Longrightarrow> binds_ok L s"
proof (induction rule: rtranclp_induct)
  case base
  show ?case using slot_inv_new [OF assms] by (simp add: binds_ok_def tauri_new_def)
qed (rule binds_step)

section \<open>Properties\<close>

text \<open>Property C29.  One endpoint per node identity: once no call of the plugin is under way, an endpoint in the registry
  is the one its node identity maps to, so that two live handles never belong to one identity, whatever
  creations (a reloaded webview binds the same key again), removals and teardowns interleaved.\<close>

theorem one_endpoint_per_identity:
  assumes "tauri_reachable L nid s" "ts_tasks s = []" "get_endpoint h (ts_registry s) = Some e"
  shows "map_of (ts_owners s) (nid e) = Some h
    \<and> (\<forall>h' e'. get_endpoint h' (ts_registry s) = Some e' \<longrightarrow> nid e' = nid e \<longrightarrow> h' = h)"
proof -
  have own: "map_of (ts_owners s) (nid e') = Some h'" if "get_endpoint h' (ts_registry s) = Some e'" for h' e'
    using reachable_owned [OF assms(1)] that assms(2) by (simp add: endpoints_owned_def)
  have "h' = h" if "get_endpoint h' (ts_registry s) = Some e'" "nid e' = nid e" for h' e'
    using own [OF that(1)] own [OF assms(3)] that(2) by simp
  then show ?thesis using own [OF assms(3)] by blast
qed

text \<open>A webview creates an endpoint and is reloaded: it creates one with the same key, which replaces the first.\<close>

definition demo_tauri :: "nat \<Rightarrow> string tauri_state" where
  "demo_tauri n = (let
     s1 = spawn (Inserted ''a'' 1) (tauri_new\<lparr>ts_registry := snd (insert_endpoint counting_lib ''a'' slot_new)\<rparr>);
     s2 = run_tauri_task (Inserted ''a'' 1) s1;
     s3 = spawn (Inserted ''a'' 2) (s2\<lparr>ts_registry := snd (insert_endpoint counting_lib ''a'' (ts_registry s2))\<rparr>);
     s4 = run_tauri_task (Inserted ''a'' 2) s3
   in [tauri_new, s1, s2, s3, s4, run_tauri_task (Evict 1) s4] ! n)"

lemmas demo_tauri_eval = demo_tauri_def Let_def spawn_def run_tauri_task_def task_run_def tauri_new_def insert_endpoint_def
  slot_insert_def slot_new_def swap_owner_def evicted_handle_def al_put_def remove_endpoint_def slot_remove_def slot_get_def
  get_endpoint_def slot_room_def slot_version_limit_def

lemma demo_tauri_steps:
  "tauri_step counting_lib id (demo_tauri 0) (demo_tauri 1)" "tauri_step counting_lib id (demo_tauri 1) (demo_tauri 2)"
  "tauri_step counting_lib id (demo_tauri 2) (demo_tauri 3)" "tauri_step counting_lib id (demo_tauri 3) (demo_tauri 4)"
  "tauri_step counting_lib id (demo_tauri 4) (demo_tauri 5)"
proof -
  have 1: "tauri_step counting_lib id (tauri_new :: string tauri_state)
      (spawn (Inserted (id ''a'') 1) (tauri_new\<lparr>ts_registry := snd (insert_endpoint counting_lib ''a'' (ts_registry tauri_new))\<rparr>))"
    by (rule tr_create) (simp_all add: demo_tauri_eval)
  then show "tauri_step counting_lib id (demo_tauri 0) (demo_tauri 1)" by (simp add: demo_tauri_def Let_def tauri_new_def)
  have "tauri_step counting_lib id (demo_tauri 2)
      (spawn (Inserted (id ''a'') 2) ((demo_tauri 2)\<lparr>ts_registry := snd (insert_endpoint counting_lib ''a'' (ts_registry (demo_tauri 2)))\<rparr>))"
    by (rule tr_create) (simp_all add: demo_tauri_eval)
  then show "tauri_step counting_lib id (demo_tauri 2) (demo_tauri 3)" by (simp add: demo_tauri_def Let_def)
  have r: "t \<in> set (ts_tasks (demo_tauri n)) \<Longrightarrow> run_tauri_task t (demo_tauri n) = demo_tauri (Suc n)
      \<Longrightarrow> tauri_step counting_lib id (demo_tauri n) (demo_tauri (Suc n))" for t n
    using tr_run [of t "demo_tauri n" counting_lib id] by simp
  show "tauri_step counting_lib id (demo_tauri 1) (demo_tauri 2)"
    using r [of "Inserted ''a'' 1" 1] by (simp add: demo_tauri_eval numeral_2_eq_2)
  show "tauri_step counting_lib id (demo_tauri 3) (demo_tauri 4)"
    using r [of "Inserted ''a'' 2" 3] by (simp add: demo_tauri_eval)
  show "tauri_step counting_lib id (demo_tauri 4) (demo_tauri 5)"
    using r [of "Evict 1" 4] by (simp add: demo_tauri_eval)
qed

lemma demo_tauri_reachable: "tauri_reachable counting_lib id (demo_tauri 2)" "tauri_reachable counting_lib id (demo_tauri 5)"
proof -
  have z: "demo_tauri 0 = tauri_new" by (simp add: demo_tauri_def)
  show r: "tauri_reachable counting_lib id (demo_tauri 2)"
    using demo_tauri_steps(1,2) unfolding z by (meson rtranclp.simps)
  show "tauri_reachable counting_lib id (demo_tauri 5)"
    using r demo_tauri_steps(3-5) by (meson rtranclp.rtrancl_into_rtrancl)
qed

theorem one_endpoint_per_identity_witness:
  "tauri_reachable counting_lib id (demo_tauri 5) \<and> get_endpoint 2 (ts_registry (demo_tauri 5)) = Some ''a''
     \<and> map_of (ts_owners (demo_tauri 5)) ''a'' = Some 2 \<and> get_endpoint 1 (ts_registry (demo_tauri 5)) = None"
proof -
  have f: "ts_tasks (demo_tauri 5) = []" "get_endpoint 2 (ts_registry (demo_tauri 5)) = Some ''a''"
    by (simp_all add: demo_tauri_eval)
  have g: "get_endpoint 1 (ts_registry (demo_tauri 5)) = None" by (simp add: demo_tauri_eval)
  have "map_of (ts_owners (demo_tauri 5)) (id ''a'') = Some 2"
    by (rule conjunct1 [OF one_endpoint_per_identity [OF demo_tauri_reachable(2) f]])
  then show ?thesis using f(2) g demo_tauri_reachable(2) unfolding id_apply by (intro conjI)
qed

text \<open>The scheme handler keeps its endpoint: in no interleaving does a step change the endpoint that
  \<open>httpi://\<close> requests resolve through while that endpoint is live, also not the clearing of a stale handle that
  another call has decided on before; and a bind that runs alone binds its endpoint exactly when none or a closed one
  is bound.\<close>

theorem live_scheme_binding_is_kept:
  assumes "slot_lib_ok L" "tauri_reachable L nid s"
  shows "(active_handle (ts_active s) = Some a \<longrightarrow> get_endpoint a (ts_registry s) \<noteq> None \<longrightarrow> tauri_step L nid s s'
       \<longrightarrow> active_handle (ts_active s') = Some a)
    \<and> bind_if_unbound (ts_registry s) h (ts_active s) =
        (if ts_active s \<noteq> 0 \<and> get_endpoint (ts_active s) (ts_registry s) \<noteq> None then (False, ts_active s) else (True, h))"
proof (intro conjI impI)
  have ok: "binds_ok L s" by (rule reachable_binds [OF assms])
  assume a: "active_handle (ts_active s) = Some a" "get_endpoint a (ts_registry s) \<noteq> None" and st: "tauri_step L nid s s'"
  have a': "ts_active s = a" "a \<noteq> 0" using a(1) by (auto simp: active_handle_def split: if_splits)
  from st have "ts_active s' = a"
  proof cases
    case (tr_run t)
    have "c \<noteq> a" if "t = BindClear k c" for k c
      using that tr_run ok a(2) by (auto simp: binds_ok_def is_stale_def)
    then show ?thesis
      using tr_run a' by (cases t) (auto simp: task_run_def swap_owner_def compare_exchange_def)
  qed (auto simp: spawn_def a')
  then show "active_handle (ts_active s') = Some a" using a'(2) by (simp add: active_handle_def)
qed (simp add: bind_if_unbound_def compare_exchange_def is_stale_def)

theorem live_scheme_binding_is_kept_witness:
  "tauri_reachable counting_lib id (demo_tauri 2) \<and> bind_if_unbound (ts_registry (demo_tauri 2)) 1 (ts_active (demo_tauri 2)) = (True, 1)"
  using live_scheme_binding_is_kept [OF counting_lib_ok demo_tauri_reachable(1), of 1 "demo_tauri 2" 1] demo_tauri_reachable(1)
  by (simp add: demo_tauri_eval)

lemma dh_insert_cases:
  obtains "dh_room m" "dh_insert v m = (Inr (dh_next m), snd (dh_put v m))" | "dh_insert v m = (Inl HANDLES_EXHAUSTED, m)"
  using dh_insert_room [of m v] dh_insert_full [of m v] by (cases "dh_room m") (simp_all add: dh_put_def)

lemma dh_stale_step:
  assumes "dh_inv m" "h < dh_next m" "dh_get h m = None" "m' = snd (dh_insert v m) \<or> m' = snd (dh_remove k m) \<or> m' = snd (dh_remove_if k P m)"
  shows "dh_inv m' \<and> h < dh_next m' \<and> dh_get h m' = None"
proof -
  have "dh_inv (snd (dh_remove k m)) \<and> dh_next (snd (dh_remove k m)) = dh_next m \<and> dh_get h (snd (dh_remove k m)) = None"
    using handle_map.del_invar [OF assms(1)] assms(3) by (simp add: handle_map.del_get) (simp add: dh_remove_def)
  moreover have "dh_inv (snd (dh_insert v m)) \<and> h < dh_next (snd (dh_insert v m)) \<and> dh_get h (snd (dh_insert v m)) = None"
  proof (cases rule: dh_insert_cases [of m v])
    case 1
    then have "dh_get h (reg_run dh_put dh_remove [RegIns v] m) = None"
      using assms by (intro handle_map.stale_stays_dead) simp_all
    then show ?thesis
      using 1 assms(1,2) dh_inv_put [OF assms(1) 1(1)] handle_map.ins_spent [OF assms(1) 1(1), of v] by auto
  qed (use assms in simp)
  ultimately show ?thesis
    using assms by (auto simp: dh_remove_if_def split: option.splits if_splits)
qed

text \<open>Discovery handles are never reused: a handle below the next one that does not resolve stays
  unresolved through every later sequence of insertions, removals and conditional removals; an insertion either
  returns a handle that was never returned before or, when the 64-bit handles are exhausted, changes nothing.\<close>

theorem discovery_handle_never_reused:
  assumes "dh_inv m" "h < dh_next m" "dh_get h m = None"
  shows "dh_get h (dh_run os m) = None
    \<and> (case dh_insert v (dh_run os m) of
          (Inr k, m') \<Rightarrow> k \<noteq> h \<and> dh_get k (dh_run os m) = None \<and> dh_get k m' = Some v
        | (Inl _, m') \<Rightarrow> m' = dh_run os m)"
proof -
  have run: "dh_inv (dh_run os m) \<and> h < dh_next (dh_run os m) \<and> dh_get h (dh_run os m) = None"
    using assms
  proof (induction os m rule: dh_run.induct)
    case (2 v os m)
    then show ?case using dh_stale_step [of m h "snd (dh_insert v m)" v] by simp
  next
    case (3 k os m)
    then show ?case using dh_stale_step [of m h "snd (dh_remove k m)" undefined k] by simp
  next
    case (4 k P os m)
    then show ?case using dh_stale_step [of m h "snd (dh_remove_if k P m)" undefined k P] by simp
  qed simp
  show ?thesis
  proof (cases rule: dh_insert_cases [of "dh_run os m" v])
    case 1
    have i: "dh_inv (dh_run os m)" using run by simp
    have "dh_get (dh_next (dh_run os m)) (snd (dh_put v (dh_run os m))) = Some v"
      using handle_map.ins_then_get [OF i 1(1), of v] by (simp add: dh_put_def)
    moreover have "dh_get (dh_next (dh_run os m)) (dh_run os m) = None"
      using handle_map.ins_fresh [OF i 1(1), of v] by (simp add: dh_put_def)
    ultimately show ?thesis using run 1(2) by auto
  qed (use run in simp)
qed

theorem discovery_handle_never_reused_witness:
  "dh_get 1 (dh_run [DhInsert ''b'', DhRemoveIf 2 (\<lambda>v. v = ''c'')] (snd (dh_remove 1 (snd (dh_insert ''a'' handle_map_default))))) = None"
proof -
  define m where "m = snd (dh_remove 1 (snd (dh_insert ''a'' handle_map_default)))"
  have "dh_inv m" "1 < dh_next m" "dh_get 1 m = None"
    by (simp_all add: m_def dh_inv_def dh_remove_def dh_insert_def handle_map_default_def al_put_def dh_get_def Let_def)
  from discovery_handle_never_reused [OF this] show ?thesis unfolding m_def by blast
qed

end
