(* ===== verification/Tauri_Scheme.thy ===== *)
theory Tauri_Scheme
  imports Tauri_State Ffi_Fetch Handle_Props
begin

text \<open>
  The \<open>httpi://\<close> scheme handler of \<^verbatim>\<open>src/packages/iroh-http-tauri/src/lib.rs\<close>: a request of the webview engine is fetched
  through the bound endpoint and its body is collected up to a limit.

  A request is given by its parsed parts.  The answer of the network, as for \<open>ffi_fetch\<close>, and what other tasks do while
  a read waits are arguments; among the latter is the pump that fills the body.  \<open>None\<close>: the call still waits.
\<close>

section \<open>Requests\<close>

record scheme_request =
  sr_method :: string
  sr_uri :: string
  sr_host :: "string option"
  sr_path_and_query :: "string option"
  sr_headers :: "(string \<times> bytes) list"

record scheme_response =
  sp_status :: u16
  sp_headers :: "(string \<times> string) list"
  sp_body :: bytes

definition DEFAULT_SCHEME_MAX_RESPONSE_BYTES :: nat where
  "DEFAULT_SCHEME_MAX_RESPONSE_BYTES = 64 * 1024 * 1024"

record plugin_builder =
  pb_scheme :: bool
  pb_scheme_max_response_bytes :: nat

definition builder_new :: plugin_builder where
  "builder_new = \<lparr>pb_scheme = False, pb_scheme_max_response_bytes = DEFAULT_SCHEME_MAX_RESPONSE_BYTES\<rparr>"

definition with_scheme :: "plugin_builder \<Rightarrow> plugin_builder" where
  "with_scheme b = b\<lparr>pb_scheme := True\<rparr>"

definition max_response_bytes :: "nat \<Rightarrow> plugin_builder \<Rightarrow> plugin_builder" where
  "max_response_bytes n b = b\<lparr>pb_scheme_max_response_bytes := n\<rparr>"

text \<open>\<open>trim_end_matches\<close> removes the suffix as often as it is there.\<close>

definition ends_with :: "string \<Rightarrow> string \<Rightarrow> bool" where
  "ends_with p s \<longleftrightarrow> length p \<le> length s \<and> drop (length s - length p) s = p"

function trim_end_matches :: "string \<Rightarrow> string \<Rightarrow> string" where
  "trim_end_matches p s = (if p \<noteq> [] \<and> ends_with p s then trim_end_matches p (take (length s - length p) s) else s)"
  by pat_completeness auto
termination
proof (relation "measure (\<lambda>(p, s). length s)")
  fix p s :: string
  assume a: "p \<noteq> [] \<and> ends_with p s"
  then have "length s - length p < length s" by (cases p) (auto simp: ends_with_def)
  then show "((p, take (length s - length p) s), p, s) \<in> measure (\<lambda>(p, s). length s)" by simp
qed simp

declare trim_end_matches.simps [simp del]

definition scheme_node_id :: "string \<Rightarrow> string" where
  "scheme_node_id host = trim_end_matches ''.localhost'' host"

definition forwarded_header :: "string \<Rightarrow> bool" where
  "forwarded_header n \<longleftrightarrow> n \<in> {''range'', ''accept'', ''accept-encoding'', ''if-none-match'', ''if-modified-since''}"

definition scheme_headers :: "http_lib \<Rightarrow> (string \<times> bytes) list \<Rightarrow> (string \<times> string) list" where
  "scheme_headers lib hs = List.map_filter (\<lambda>(k, v). let n = to_ascii_lowercase k in
     if forwarded_header n then map_option (Pair n) (header_to_str lib v) else None) hs"

definition scheme_fetch_args :: "http_lib \<Rightarrow> nat \<Rightarrow> string \<Rightarrow> scheme_request \<Rightarrow> fetch_args" where
  "scheme_fetch_args lib limit host rq = (let n = scheme_node_id host in
     \<lparr>fa_remote = n, fa_url = ''httpi://'' @ n @ (case sr_path_and_query rq of None \<Rightarrow> ''/'' | Some pq \<Rightarrow> pq),
      fa_method = ''GET'', fa_headers = scheme_headers lib (sr_headers rq), fa_body = None, fa_token = None,
      fa_direct_addrs = None, fa_timeout = None, fa_decompress = True, fa_max_response_body_bytes = Some limit\<rparr>)"

section \<open>Bodies\<close>

fun error_code_debug :: "error_code \<Rightarrow> string" where
  "error_code_debug InvalidInput = ''InvalidInput''"
| "error_code_debug ConnectionFailed = ''ConnectionFailed''"
| "error_code_debug Timeout = ''Timeout''"
| "error_code_debug BodyTooLarge = ''BodyTooLarge''"
| "error_code_debug HeaderTooLarge = ''HeaderTooLarge''"
| "error_code_debug PeerRejected = ''PeerRejected''"
| "error_code_debug Cancelled = ''Cancelled''"
| "error_code_debug Internal = ''Internal''"

definition display_core_error :: "core_error \<Rightarrow> string" where
  "display_core_error e = error_code_debug (code e) @ '': '' @ message e"

type_synonym 'c read_schedule = "('c store \<Rightarrow> 'c store) list \<times> ('c store \<Rightarrow> 'c store) list"

fun scheme_drain :: "'c mpsc_ops \<Rightarrow> nat \<Rightarrow> u64 \<Rightarrow> 'c read_schedule list \<Rightarrow> bytes \<Rightarrow> 'c store
    \<Rightarrow> ((string + bytes) \<times> 'c store) option" where
  "scheme_drain ops limit h [] buf s = None"
| "scheme_drain ops limit h ((pre, env) # rest) buf s = (case next_chunk ops pre env h s of
       None \<Rightarrow> None
     | Some (Inr (Some chunk), s1) \<Rightarrow>
         if limit < sat_add (length buf) (length chunk)
         then Some (Inl (''httpi:// response exceeds '' @ show_nat limit @ '' byte cap''), cancel_reader ops h s1)
         else scheme_drain ops limit h rest (buf @ chunk) s1
     | Some (Inr None, s1) \<Rightarrow> Some (Inr buf, s1)
     | Some (Inl e, s1) \<Rightarrow> Some (Inl (display_core_error e), cancel_reader ops h s1))"

section \<open>Responses\<close>

definition valid_header :: "http_lib \<Rightarrow> string \<times> string \<Rightarrow> bool" where
  "valid_header lib kv \<longleftrightarrow> name_valid lib (fst kv) \<and> value_valid lib (snd kv)"

text \<open>\<open>bad\<close> renders the library's error for a header that cannot be sent.\<close>

definition scheme_build :: "http_lib \<Rightarrow> (string \<times> string \<Rightarrow> string) \<Rightarrow> ffi_response \<Rightarrow> bytes \<Rightarrow> string + scheme_response" where
  "scheme_build lib bad res body =
     (let status = (if status_valid lib (fr_status res) then fr_status res else 500);
          has_accept_ranges = list_ex (\<lambda>(k, _). eq_ignore_ascii_case k ''accept-ranges'') (fr_headers res);
          hs = fr_headers res @ (if \<not> has_accept_ranges \<and> status \<noteq> 206 then [(''accept-ranges'', ''bytes'')] else [])
      in case find (\<lambda>kv. \<not> valid_header lib kv) hs of
           Some kv \<Rightarrow> Inl (bad kv)
         | None \<Rightarrow> Inr \<lparr>sp_status = status, sp_headers = hs, sp_body = body\<rparr>)"

definition METHOD_NOT_ALLOWED :: scheme_response where
  "METHOD_NOT_ALLOWED = \<lparr>sp_status = 405, sp_headers = [(''allow'', ''GET''), (''content-type'', ''text/plain'')],
     sp_body = str_to_bytes ''httpi:// scheme handler is GET-only; use node.fetch() for other methods''\<rparr>"

definition error_response :: "u16 \<Rightarrow> string \<Rightarrow> scheme_response" where
  "error_response status msg = \<lparr>sp_status = status, sp_headers = [(''content-type'', ''text/plain'')], sp_body = str_to_bytes msg\<rparr>"

section \<open>The handler\<close>

text \<open>The endpoint the handler uses; \<open>configured\<close> holds when the plugin was built with the scheme.\<close>

definition scheme_endpoint :: "bool \<Rightarrow> u64 \<Rightarrow> 'e registry \<Rightarrow> string + u64 \<times> 'e" where
  "scheme_endpoint configured active r =
     (if \<not> configured then Inl ''httpi:// scheme handler is not configured''
      else (case active_handle active of
          None \<Rightarrow> Inl ''httpi:// scheme handler: no endpoint bound yet''
        | Some h \<Rightarrow> (case get_endpoint h r of
             None \<Rightarrow> Inl ''httpi:// scheme handler: active endpoint was closed''
           | Some e \<Rightarrow> Inr (h, e))))"

definition scheme_fetch :: "http_lib \<Rightarrow> addr_lib \<Rightarrow> (string \<Rightarrow> string option) \<Rightarrow> slot_lib \<Rightarrow> 'c mpsc_ops \<Rightarrow> (string \<times> string \<Rightarrow> string)
    \<Rightarrow> (routed \<Rightarrow> 'l \<Rightarrow> 'c store \<Rightarrow> (core_error + wire_response) poll \<times> 'l \<times> 'c store)
    \<Rightarrow> (bool \<times> ('c store \<Rightarrow> 'c store)) list \<Rightarrow> 'l \<Rightarrow> 'c read_schedule list
    \<Rightarrow> nat \<Rightarrow> bool \<Rightarrow> u64 \<Rightarrow> scheme_request \<Rightarrow> (fetch_endpoint \<times> 'c store) registry
    \<Rightarrow> ((string + scheme_response) \<times> (fetch_endpoint \<times> 'c store) registry) option" where
  "scheme_fetch lib A target_err L ops bad fut env l reads limit configured active rq r =
     (if sr_method rq \<noteq> ''GET'' then Some (Inr METHOD_NOT_ALLOWED, r)
      else (case scheme_endpoint configured active r of
          Inl e \<Rightarrow> Some (Inl e, r)
        | Inr (eh, ep, s) \<Rightarrow> (case sr_host rq of
             None \<Rightarrow> Some (Inl (''httpi:// scheme handler: missing host in URI: '' @ sr_uri rq), r)
           | Some host \<Rightarrow> (case ffi_fetch lib A target_err L ops ep (scheme_fetch_args lib limit host rq) fut env l s of
                None \<Rightarrow> None
              | Some (None, _, s1) \<Rightarrow> None
              | Some (Some (Inl e), _, s1) \<Rightarrow> Some (Inl (display_core_error e), slot_upd eh (\<lambda>_. (ep, s1)) r)
              | Some (Some (Inr res), _, s1) \<Rightarrow>
                  if fr_body_handle res = 0 then Some (scheme_build lib bad res [], slot_upd eh (\<lambda>_. (ep, s1)) r)
                  else (case scheme_drain ops limit (fr_body_handle res) reads [] s1 of
                      None \<Rightarrow> None
                    | Some (Inl e, s2) \<Rightarrow> Some (Inl e, slot_upd eh (\<lambda>_. (ep, s2)) r)
                    | Some (Inr body, s2) \<Rightarrow> Some (scheme_build lib bad res body, slot_upd eh (\<lambda>_. (ep, s2)) r))))))"

definition scheme_handle :: "string + scheme_response \<Rightarrow> scheme_response" where
  "scheme_handle x = (case x of Inr r \<Rightarrow> r | Inl msg \<Rightarrow> error_response 502 msg)"

section \<open>Reading a body to its end\<close>

text \<open>The reference: every chunk up to the end, whatever their size.\<close>

fun read_all :: "'c mpsc_ops \<Rightarrow> u64 \<Rightarrow> 'c read_schedule list \<Rightarrow> 'c store \<Rightarrow> (bytes list \<times> (core_error + unit) \<times> 'c store) option" where
  "read_all ops h [] s = None"
| "read_all ops h ((pre, env) # rest) s = (case next_chunk ops pre env h s of
       None \<Rightarrow> None
     | Some (Inr (Some chunk), s1) \<Rightarrow> map_option (\<lambda>(cs, x). (chunk # cs, x)) (read_all ops h rest s1)
     | Some (Inr None, s1) \<Rightarrow> Some ([], Inr (), s1)
     | Some (Inl e, s1) \<Rightarrow> Some ([], Inl e, s1))"

lemma cancel_reader_gone [simp]: "slot_get h (readers (cancel_reader ops h s)) = None"
proof -
  obtain e reg where e: "slot_remove h (readers s) = (e, reg)" by fastforce
  have "slot_get h reg = None" using slot_get_remove [of h h "readers s"] e by simp
  moreover have "e = None \<Longrightarrow> slot_get h (readers s) = None" using fst_slot_remove [of h "readers s"] e by simp
  ultimately show ?thesis by (cases e) (simp_all add: cancel_reader_def e on_mem_def)
qed

lemma release_reader_gone: "slot_get h (readers (release_reader ops h s)) = None"
proof -
  obtain e reg where e: "slot_remove h (readers s) = (e, reg)" by fastforce
  have "slot_get h reg = None" using slot_get_remove [of h h "readers s"] e by simp
  moreover have "e = None \<Longrightarrow> slot_get h (readers s) = None" using fst_slot_remove [of h "readers s"] e by simp
  ultimately show ?thesis by (cases e) (simp_all add: release_reader_def e on_mem_def)
qed

lemma next_chunk_end_gone:
  assumes "next_chunk ops pre env h s = Some (Inr None, s1)"
  shows "slot_get h (readers s1) = None"
proof -
  obtain i s2 where b: "next_chunk_begin h s = Some (i, s2)"
    using assms by (cases "next_chunk_begin h s") (auto simp: next_chunk_def)
  then obtain s3 where "eof_cleanup ops h i s3 = (Inr None, s1)"
    using assms by (auto simp: next_chunk_def b split: option.splits prod.splits)
  then have "s1 = snd (take_terminal_error i (release_reader ops h s3))"
    by (auto simp: eof_cleanup_def split: option.splits prod.splits)
  then show ?thesis using release_reader_gone [of h ops s3] by (simp add: take_terminal_error_def on_mem_def)
qed

lemma scheme_drain_spec:
  assumes "read_all ops h sched s = Some (cs, e, s')" "limit < usize_max"
  shows "\<exists>x s''. scheme_drain ops limit h sched buf s = Some (x, s'') \<and> slot_get h (readers s'') = None
    \<and> (\<forall>b. x = Inr b \<longleftrightarrow> e = Inr () \<and> (length (buf @ concat cs) \<le> limit \<or> cs = []) \<and> b = buf @ concat cs)"
  using assms
proof (induction ops h sched s arbitrary: buf cs rule: read_all.induct)
  case (1 ops h s)
  then show ?case by simp
next
  case (2 ops h pre env rest s)
  obtain y s1 where y: "next_chunk ops pre env h s = Some (y, s1)"
    using 2(2) by (auto split: option.splits)
  consider (err) er where "y = Inl er" | (eof) "y = Inr None" | (chunk) c where "y = Inr (Some c)"
    by (metis sum.exhaust option.exhaust)
  then show ?case
  proof cases
    case err
    then show ?thesis using 2(2) y by auto
  next
    case eof
    then show ?thesis using 2(2) y next_chunk_end_gone [of ops pre env h s s1] by auto
  next
    case chunk
    then obtain cs1 where r: "read_all ops h rest s1 = Some (cs1, e, s')" "cs = c # cs1"
      using 2(2) y by auto
    show ?thesis
    proof (cases "limit < sat_add (length buf) (length c)")
      case True
      then have "\<not> length (buf @ concat cs) \<le> limit"
        using sat_add_le [of "length buf" "length c"] r(2) by simp
      then show ?thesis using True y chunk r(2) by auto
    next
      case False
      then have len: "length (buf @ c) \<le> limit" using 2(3) by (simp add: sat_add_def min_def split: if_splits)
      show ?thesis
        using 2(1) [OF y refl chunk refl r(1) 2(3), of "buf @ c"] len False y chunk r(2) by auto
    qed
  qed
qed

section \<open>Properties\<close>

text \<open>Property C30.  A webview gets the whole body or an error: for every way the chunks of a response arrive, when reading
  all of them ends, the handler has ended too; it returns a body exactly when the stream ended cleanly within the
  limit, this body is the concatenation of the chunks, so it is never cut short nor larger than the limit, and in every
  case the body's handle is released.\<close>

theorem scheme_body_is_complete:
  assumes "read_all ops h sched s = Some (cs, e, s')" "limit < usize_max"
  shows "\<exists>x s''. scheme_drain ops limit h sched [] s = Some (x, s'') \<and> slot_get h (readers s'') = None
    \<and> (\<forall>b. x = Inr b \<longleftrightarrow> e = Inr () \<and> length (concat cs) \<le> limit \<and> b = concat cs)"
proof -
  have z: "length (concat cs) \<le> limit \<or> cs = [] \<longleftrightarrow> length (concat cs) \<le> limit" by auto
  show ?thesis using scheme_drain_spec [OF assms, of "[]"] unfolding append_Nil z .
qed

text \<open>A finished body of two chunks.\<close>

definition demo_finished_body :: "fifo store" where
  "demo_finished_body = on_mem (upd_cell 0 (\<lambda>c. c\<lparr>chan := (fifo_new 4)\<lparr>queue := [[1, 2], [3]], senders := 0\<rparr>\<rparr>)) (demo_stream 0 None)"

theorem scheme_body_is_complete_witness:
  "\<exists>s''. scheme_drain fifo_ops 16 1 [([], []), ([], []), ([], [])] [] demo_finished_body = Some (Inr [1, 2, 3], s'')"
proof -
  have "stream_at (\<lambda>f. f) 1 0 4 0 None [[1, 2], [3]] demo_finished_body"
    by (simp add: stream_at_def demo_finished_body_def demo_stream_def demo_defs slot_get_def fifo_new_def)
  then obtain s1 where 1: "next_chunk fifo_ops [] [] 1 demo_finished_body = Some (Inr (Some [1, 2]), s1)"
      "stream_at (\<lambda>f. f) 1 0 4 0 None [[3]] s1"
    using fifo.next_chunk_deliver by blast
  obtain s2 where 2: "next_chunk fifo_ops [] [] 1 s1 = Some (Inr (Some [3]), s2)" "stream_at (\<lambda>f. f) 1 0 4 0 None [] s2"
    using fifo.next_chunk_deliver [OF 1(2)] by blast
  obtain s3 where 3: "next_chunk fifo_ops [] [] 1 s2 = Some (Inr None, s3)"
    using fifo.next_chunk_eof [OF 2(2), of "[]"] by auto
  have r: "read_all fifo_ops 1 [([], []), ([], []), ([], [])] demo_finished_body = Some ([[1, 2], [3]], Inr (), s3)"
    using 1(1) 2(1) 3 by simp
  have "(16 :: nat) < usize_max" by (simp add: usize_max_def)
  from scheme_body_is_complete [OF r this] show ?thesis by auto
qed

text \<open>The host that the source's comment gives for Windows and Android does not carry a node identity: what is left of it
  is the name of the scheme.\<close>

lemma localhost_rewrite_loses_node_id: "scheme_node_id ''httpi.localhost'' = ''httpi''"
  by (simp add: scheme_node_id_def trim_end_matches.simps ends_with_def)

end
