(* ===== verification/Deno_Discovery.thy ===== *)
theory Deno_Discovery
  imports Iroh_Prelude
begin

text \<open>
  The discovery resources of \<^verbatim>\<open>src/packages/iroh-http-deno/src/dispatch.rs\<close>: browse and advertisement sessions of
  endpoints, generic DNS-SD sessions, their 32-bit handles, and the retirement of an endpoint's sessions when it closes.

  A session is a shared reference, named by the order in which sessions were started; closing or dropping it is
  recorded.  A call is cut at its lock regions: \<open>disc_step\<close> performs one of them, and calls interleave.
\<close>

section \<open>Handles\<close>

definition DISCOVERY_EXHAUSTED :: string where "DISCOVERY_EXHAUSTED = ''discovery handle space exhausted''"

text \<open>\<open>fetch_update\<close> with \<open>checked_add\<close> returns the value before, and fails without a change at the largest one.\<close>

definition alloc_discovery_handle :: "u32 \<Rightarrow> (string + u32) \<times> u32" where
  "alloc_discovery_handle c = (if c = - 1 then (Inl DISCOVERY_EXHAUSTED, c) else (Inr c, c + 1))"

definition parse_discovery_handle :: "string \<Rightarrow> u64 option \<Rightarrow> string + u32" where
  "parse_discovery_handle field raw = (case raw of
       None \<Rightarrow> Inl (''missing '' @ field)
     | Some n \<Rightarrow> if unat n < 2 ^ 32 then Inr (ucast n) else Inl (''invalid '' @ field @ '': '' @ show_nat (unat n)))"

section \<open>Resources\<close>

record endpoint_owned =
  eo_endpoint :: u64
  eo_resource :: nat

record discovery_state =
  active_endpoints :: "u64 list"
  peer_browses :: "(u32 \<times> endpoint_owned) list"
  peer_advertisements :: "(u32 \<times> endpoint_owned) list"
  generic_browses :: "(u32 \<times> nat) list"
  generic_advertisements :: "(u32 \<times> nat) list"

definition discovery_default :: discovery_state where
  "discovery_default = \<lparr>active_endpoints = [], peer_browses = [], peer_advertisements = [], generic_browses = [],
     generic_advertisements = []\<rparr>"

definition drain_endpoint_owned :: "u64 \<Rightarrow> (u32 \<times> endpoint_owned) list \<Rightarrow> nat list \<times> (u32 \<times> endpoint_owned) list" where
  "drain_endpoint_owned ep m =
     (map (\<lambda>(_, owned). eo_resource owned) (filter (\<lambda>(_, owned). eo_endpoint owned = ep) m),
      filter (\<lambda>(_, owned). eo_endpoint owned \<noteq> ep) m)"

definition activate_endpoint_discovery :: "u64 \<Rightarrow> discovery_state \<Rightarrow> discovery_state" where
  "activate_endpoint_discovery ep st = st\<lparr>active_endpoints := List.insert ep (active_endpoints st)\<rparr>"

text \<open>The lock region of \<open>retire_endpoint_discovery\<close>: the sessions it takes are closed afterwards.\<close>

definition retire_region :: "u64 \<Rightarrow> discovery_state \<Rightarrow> nat list \<times> discovery_state" where
  "retire_region ep st =
     (case drain_endpoint_owned ep (peer_browses st) of (bs, pb) \<Rightarrow>
      (case drain_endpoint_owned ep (peer_advertisements st) of (as, pa) \<Rightarrow>
        (bs @ as, st\<lparr>active_endpoints := removeAll ep (active_endpoints st), peer_browses := pb, peer_advertisements := pa\<rparr>)))"

text \<open>The lock region of a start: \<open>Inr h\<close> publishes the session under a new handle, \<open>Inl\<close> refuses it.\<close>

datatype start_refusal = ClosedDuringStart | HandleExhausted string

definition publish_region :: "bool \<Rightarrow> u64 \<Rightarrow> nat \<Rightarrow> discovery_state \<Rightarrow> u32 \<Rightarrow> (start_refusal + u32) \<times> discovery_state \<times> u32" where
  "publish_region browse ep sid st c =
     (if ep \<notin> set (active_endpoints st) then (Inl ClosedDuringStart, st, c)
      else (case alloc_discovery_handle c of
          (Inl e, c1) \<Rightarrow> (Inl (HandleExhausted e), st, c1)
        | (Inr h, c1) \<Rightarrow> (let owned = \<lparr>eo_endpoint = ep, eo_resource = sid\<rparr> in
            (Inr h, if browse then st\<lparr>peer_browses := al_put h owned (peer_browses st)\<rparr>
                    else st\<lparr>peer_advertisements := al_put h owned (peer_advertisements st)\<rparr>, c1))))"

text \<open>The end of \<open>browsePeersNext\<close> and \<open>browsePeersClose\<close>: remove the entry if it is still this session.\<close>

definition remove_peer_if_same :: "u32 \<Rightarrow> nat \<Rightarrow> discovery_state \<Rightarrow> discovery_state" where
  "remove_peer_if_same h sid st = (case map_of (peer_browses st) h of
       None \<Rightarrow> st
     | Some owned \<Rightarrow> if eo_resource owned = sid then st\<lparr>peer_browses := al_del h (peer_browses st)\<rparr> else st)"

definition remove_generic_if_same :: "u32 \<Rightarrow> nat \<Rightarrow> discovery_state \<Rightarrow> discovery_state" where
  "remove_generic_if_same h sid st = (if map_of (generic_browses st) h = Some sid
     then st\<lparr>generic_browses := al_del h (generic_browses st)\<rparr> else st)"

section \<open>Calls\<close>

text \<open>Each constructor is what a call does next.  \<open>HoldPeer\<close>: a started session, not yet published; \<open>CloseSessions\<close>: sessions to
  close; \<open>CloseThenRemove\<close>: close, then remove the entry; \<open>RemoveEnded\<close>: the session has ended, remove the entry;
  \<open>HoldGeneric\<close> and \<open>PutGeneric\<close>: a generic start before and after its handle.\<close>

datatype disc_task = HoldPeer bool u64 nat | CloseSessions "nat list" | CloseThenRemove bool u32 nat | RemoveEnded bool u32 nat
  | HoldGeneric bool nat | PutGeneric bool nat u32

record deno_discovery =
  dy_state :: discovery_state
  dy_counter :: u32
  dy_started :: nat
  dy_closed :: "nat list"
  dy_tasks :: "disc_task list"
  dy_handles :: "u32 list" \<comment> \<open>every handle given out\<close>
  dy_peers :: "(nat \<times> u64) list" \<comment> \<open>the sessions started for an endpoint\<close>

definition deno_discovery_new :: deno_discovery where
  "deno_discovery_new = \<lparr>dy_state = discovery_default, dy_counter = 1, dy_started = 0, dy_closed = [], dy_tasks = [], dy_handles = [], dy_peers = []\<rparr>"

definition close_session :: "nat \<Rightarrow> deno_discovery \<Rightarrow> deno_discovery" where
  "close_session sid y = y\<lparr>dy_closed := sid # dy_closed y\<rparr>"

text \<open>What follows a task and the new state.\<close>

definition disc_run :: "disc_task \<Rightarrow> deno_discovery \<Rightarrow> disc_task list \<times> deno_discovery" where
  "disc_run t y = (case t of
       HoldPeer browse ep sid \<Rightarrow> (case publish_region browse ep sid (dy_state y) (dy_counter y) of
          (Inl _, st, c) \<Rightarrow> ([CloseSessions [sid]], y\<lparr>dy_state := st, dy_counter := c\<rparr>)
        | (Inr h, st, c) \<Rightarrow> ([], y\<lparr>dy_state := st, dy_counter := c, dy_handles := h # dy_handles y\<rparr>))
     | CloseSessions sids \<Rightarrow> (case sids of [] \<Rightarrow> ([], y) | sid # rest \<Rightarrow> ([CloseSessions rest], close_session sid y))
     | CloseThenRemove peer h sid \<Rightarrow> ([RemoveEnded peer h sid], close_session sid y)
     | RemoveEnded peer h sid \<Rightarrow> ([], y\<lparr>dy_state := (if peer then remove_peer_if_same h sid else remove_generic_if_same h sid) (dy_state y)\<rparr>)
     | HoldGeneric browse sid \<Rightarrow> (case alloc_discovery_handle (dy_counter y) of
          (Inl _, c) \<Rightarrow> ([CloseSessions [sid]], y\<lparr>dy_counter := c\<rparr>)
        | (Inr h, c) \<Rightarrow> ([PutGeneric browse sid h], y\<lparr>dy_counter := c, dy_handles := h # dy_handles y\<rparr>))
     | PutGeneric browse sid h \<Rightarrow> ([], y\<lparr>dy_state := (let st = dy_state y in
          if browse then st\<lparr>generic_browses := al_put h sid (generic_browses st)\<rparr>
          else st\<lparr>generic_advertisements := al_put h sid (generic_advertisements st)\<rparr>)\<rparr>))"

definition disc_spawn :: "disc_task \<Rightarrow> deno_discovery \<Rightarrow> deno_discovery" where
  "disc_spawn t y = y\<lparr>dy_tasks := t # dy_tasks y\<rparr>"

definition disc_run_task :: "disc_task \<Rightarrow> deno_discovery \<Rightarrow> deno_discovery" where
  "disc_run_task t y = (case disc_run t y of (ts, y1) \<Rightarrow> y1\<lparr>dy_tasks := ts @ remove1 t (dy_tasks y)\<rparr>)"

definition start_session :: "deno_discovery \<Rightarrow> nat \<times> deno_discovery" where
  "start_session y = (dy_started y, y\<lparr>dy_started := Suc (dy_started y)\<rparr>)"

definition disc_retire :: "u64 \<Rightarrow> deno_discovery \<Rightarrow> deno_discovery" where
  "disc_retire ep y = (case retire_region ep (dy_state y) of (sids, st) \<Rightarrow> disc_spawn (CloseSessions sids) (y\<lparr>dy_state := st\<rparr>))"

text \<open>The first region of every call.  A browse call that finds its session waits for an event; when there is none left
  (\<open>dc_peer_ended\<close>, \<open>dc_generic_ended\<close>) the session has ended by itself or by being closed, and counts as closed.\<close>

inductive disc_step :: "deno_discovery \<Rightarrow> deno_discovery \<Rightarrow> bool" where
  dc_activate: "disc_step y (y\<lparr>dy_state := activate_endpoint_discovery ep (dy_state y)\<rparr>)"
| dc_retire: "disc_step y (disc_retire ep y)"
| dc_start_peer: "start_session y = (sid, y1) \<Longrightarrow> disc_step y (disc_spawn (HoldPeer browse ep sid) (y1\<lparr>dy_peers := (sid, ep) # dy_peers y1\<rparr>))"
| dc_peer_ended: "map_of (peer_browses (dy_state y)) h = Some owned \<Longrightarrow>
     disc_step y (disc_spawn (RemoveEnded True h (eo_resource owned)) (close_session (eo_resource owned) y))"
| dc_peer_close: "map_of (peer_browses (dy_state y)) h = Some owned \<Longrightarrow>
     disc_step y (disc_spawn (CloseThenRemove True h (eo_resource owned)) y)"
| dc_peer_unadvertise: "map_of (peer_advertisements (dy_state y)) h = Some owned \<Longrightarrow> st = dy_state y \<Longrightarrow>
     disc_step y (disc_spawn (CloseSessions [eo_resource owned])
       (y\<lparr>dy_state := st\<lparr>peer_advertisements := al_del h (peer_advertisements st)\<rparr>\<rparr>))"
| dc_start_generic: "start_session y = (sid, y1) \<Longrightarrow> disc_step y (disc_spawn (HoldGeneric browse sid) y1)"
| dc_generic_ended: "map_of (generic_browses (dy_state y)) h = Some sid \<Longrightarrow>
     disc_step y (disc_spawn (RemoveEnded False h sid) (close_session sid y))"
| dc_generic_close: "map_of (generic_browses (dy_state y)) h = Some sid \<Longrightarrow> disc_step y (disc_spawn (CloseThenRemove False h sid) y)"
| dc_generic_unadvertise: "map_of (generic_advertisements (dy_state y)) h = Some sid \<Longrightarrow> st = dy_state y \<Longrightarrow>
     disc_step y (disc_spawn (CloseSessions [sid])
       (y\<lparr>dy_state := st\<lparr>generic_advertisements := al_del h (generic_advertisements st)\<rparr>\<rparr>))"
| dc_run: "t \<in> set (dy_tasks y) \<Longrightarrow> disc_step y (disc_run_task t y)"

abbreviation disc_reachable :: "deno_discovery \<Rightarrow> bool" where
  "disc_reachable y \<equiv> disc_step\<^sup>*\<^sup>* deno_discovery_new y"

end
