(* ===== verification/Deno_Disco_Props.thy ===== *)
theory Deno_Disco_Props
  imports Deno_Discovery "HOL-Library.Multiset"
begin

text \<open>
  Discovery in the Deno package: a handle identifies one resource of one kind and is never given out again, and no
  session outlives its endpoint or is forgotten.
\<close>

section \<open>Handles\<close>

fun put_handle :: "disc_task \<Rightarrow> u32 multiset" where
  "put_handle (PutGeneric browse sid h) = {#h#}"
| "put_handle _ = {#}"

text \<open>The handles in use, with multiplicity: keys of the four maps and handles about to become keys.\<close>

definition map_handles :: "discovery_state \<Rightarrow> u32 multiset" where
  "map_handles st = mset (keys (peer_browses st)) + mset (keys (peer_advertisements st)) + mset (keys (generic_browses st))
     + mset (keys (generic_advertisements st))"

definition used_handles :: "deno_discovery \<Rightarrow> u32 multiset" where
  "used_handles y = map_handles (dy_state y) + sum_mset (image_mset put_handle (mset (dy_tasks y)))"

lemma keys_al_del_sub: "mset (keys (al_del k m)) \<subseteq># mset (keys m)"
  by (simp add: keys_al_del mset_filter)

lemma keys_al_put_sub: "mset (keys (al_put k v m)) \<subseteq># add_mset k (mset (keys m))"
  using keys_al_del_sub [of k m] by (simp add: al_put_def)

lemma keys_filter_sub: "mset (keys (filter P m)) \<subseteq># mset (keys m)"
  by (simp add: keys_def mset_filter image_mset_subseteq_mono)

lemma map_handles_mono:
  assumes "mset (keys (peer_browses st)) \<subseteq># mset (keys (peer_browses st'))"
    "mset (keys (peer_advertisements st)) \<subseteq># mset (keys (peer_advertisements st'))"
    "mset (keys (generic_browses st)) \<subseteq># mset (keys (generic_browses st'))"
    "mset (keys (generic_advertisements st)) \<subseteq># mset (keys (generic_advertisements st'))"
  shows "map_handles st \<subseteq># map_handles st'"
  unfolding map_handles_def by (intro subset_mset.add_mono assms)

lemma used_run:
  assumes "t \<in> set (dy_tasks y)" "disc_run t y = (ts, y1)"
  shows "used_handles (disc_run_task t y) + put_handle t
     = map_handles (dy_state y1) + sum_mset (image_mset put_handle (mset ts)) + sum_mset (image_mset put_handle (mset (dy_tasks y)))"
proof -
  have "mset (dy_tasks y) = add_mset t (mset (remove1 t (dy_tasks y)))" using assms(1) by simp
  then have "sum_mset (image_mset put_handle (mset (dy_tasks y)))
      = put_handle t + sum_mset (image_mset put_handle (mset (remove1 t (dy_tasks y))))"
    by (metis image_mset_add_mset sum_mset.insert)
  then show ?thesis by (simp add: disc_run_task_def assms(2) used_handles_def ac_simps)
qed

text \<open>A step gives out no handle and uses at most the ones used before, or it gives out the next one.\<close>

definition handles_kept :: "deno_discovery \<Rightarrow> deno_discovery \<Rightarrow> bool" where
  "handles_kept y y' \<longleftrightarrow> dy_handles y' = dy_handles y \<and> dy_counter y' = dy_counter y \<and> used_handles y' \<subseteq># used_handles y"

definition handle_given :: "deno_discovery \<Rightarrow> deno_discovery \<Rightarrow> bool" where
  "handle_given y y' \<longleftrightarrow> dy_counter y \<noteq> - 1 \<and> dy_handles y' = dy_counter y # dy_handles y \<and> dy_counter y' = dy_counter y + 1
     \<and> used_handles y' \<subseteq># add_mset (dy_counter y) (used_handles y)"

lemma run_fields_discovery [simp]:
  "dy_state (disc_run_task t y) = dy_state (snd (disc_run t y))"
  "dy_counter (disc_run_task t y) = dy_counter (snd (disc_run t y))"
  "dy_handles (disc_run_task t y) = dy_handles (snd (disc_run t y))"
  "dy_started (disc_run_task t y) = dy_started (snd (disc_run t y))"
  "dy_closed (disc_run_task t y) = dy_closed (snd (disc_run t y))"
  "dy_peers (disc_run_task t y) = dy_peers (snd (disc_run t y))"
  "dy_tasks (disc_run_task t y) = fst (disc_run t y) @ remove1 t (dy_tasks y)"
  by (simp_all add: disc_run_task_def split: prod.splits)

lemma remove_if_same_handles:
  "map_handles (remove_peer_if_same h sid st) \<subseteq># map_handles st"
  "map_handles (remove_generic_if_same h sid st) \<subseteq># map_handles st"
  by (auto simp: remove_peer_if_same_def remove_generic_if_same_def intro!: map_handles_mono keys_al_del_sub
      split: option.splits)

lemma put_map_handles:
  "map_handles (st\<lparr>peer_browses := al_put h o1 (peer_browses st)\<rparr>) \<subseteq># add_mset h (map_handles st)"
  "map_handles (st\<lparr>peer_advertisements := al_put h o1 (peer_advertisements st)\<rparr>) \<subseteq># add_mset h (map_handles st)"
  "map_handles (st\<lparr>generic_browses := al_put h n (generic_browses st)\<rparr>) \<subseteq># add_mset h (map_handles st)"
  "map_handles (st\<lparr>generic_advertisements := al_put h n (generic_advertisements st)\<rparr>) \<subseteq># add_mset h (map_handles st)"
  by (simp_all add: map_handles_def keys_al_put_sub)

lemma used_run_sub:
  assumes "t \<in> set (dy_tasks y)" "disc_run t y = (ts, y1)"
    and "map_handles (dy_state y1) + sum_mset (image_mset put_handle (mset ts)) \<subseteq># N + map_handles (dy_state y) + put_handle t"
  shows "used_handles (disc_run_task t y) \<subseteq># N + used_handles y"
proof -
  have "used_handles (disc_run_task t y) + put_handle t \<subseteq># N + map_handles (dy_state y) + put_handle t
      + sum_mset (image_mset put_handle (mset (dy_tasks y)))"
    unfolding used_run [OF assms(1,2)] by (rule subset_mset.add_mono [OF assms(3) subset_mset.order_refl])
  also have "\<dots> = N + used_handles y + put_handle t" by (simp add: used_handles_def ac_simps)
  finally show ?thesis by simp
qed

lemma run_handles:
  assumes "t \<in> set (dy_tasks y)"
  shows "handles_kept y (disc_run_task t y) \<or> handle_given y (disc_run_task t y)"
proof -
  obtain ts y1 where r: "disc_run t y = (ts, y1)" by fastforce
  note sub = used_run_sub [OF assms r]
  have kept: "handles_kept y (disc_run_task t y)"
    if "dy_handles y1 = dy_handles y" "dy_counter y1 = dy_counter y"
      "map_handles (dy_state y1) + sum_mset (image_mset put_handle (mset ts)) \<subseteq># map_handles (dy_state y) + put_handle t"
    using that sub [of "{#}"] r by (simp add: handles_kept_def)
  have given: "handle_given y (disc_run_task t y)"
    if "dy_counter y \<noteq> - 1" "dy_handles y1 = dy_counter y # dy_handles y" "dy_counter y1 = dy_counter y + 1"
      "map_handles (dy_state y1) + sum_mset (image_mset put_handle (mset ts))
         \<subseteq># add_mset (dy_counter y) (map_handles (dy_state y)) + put_handle t"
    using that sub [of "{#dy_counter y#}"] r by (simp add: handle_given_def)
  show ?thesis
  proof (cases t)
    case (HoldPeer browse ep sid)
    show ?thesis
    proof (cases "ep \<in> set (active_endpoints (dy_state y)) \<and> dy_counter y \<noteq> - 1")
      case True
      then have "ts = []" "dy_handles y1 = dy_counter y # dy_handles y" "dy_counter y1 = dy_counter y + 1"
        "map_handles (dy_state y1) \<subseteq># add_mset (dy_counter y) (map_handles (dy_state y))"
        using r by (auto simp: HoldPeer disc_run_def publish_region_def alloc_discovery_handle_def Let_def put_map_handles)
      then show ?thesis using given True by (simp add: HoldPeer)
    next
      case False
      then have "ts = [CloseSessions [sid]]" "y1 = y"
        using r by (auto simp: HoldPeer disc_run_def publish_region_def alloc_discovery_handle_def split: if_splits)
      then show ?thesis using kept by (simp add: HoldPeer)
    qed
  next
    case (CloseSessions sids)
    then show ?thesis using kept r by (cases sids) (auto simp: disc_run_def close_session_def)
  next
    case (CloseThenRemove peer h sid)
    then show ?thesis using kept r by (auto simp: disc_run_def close_session_def)
  next
    case (RemoveEnded peer h sid)
    then show ?thesis using kept r by (auto simp: disc_run_def remove_if_same_handles)
  next
    case (HoldGeneric browse sid)
    then show ?thesis
      using kept given r by (cases "dy_counter y = - 1") (auto simp: disc_run_def alloc_discovery_handle_def)
  next
    case (PutGeneric browse sid h)
    then have "ts = []" "dy_handles y1 = dy_handles y" "dy_counter y1 = dy_counter y"
      "map_handles (dy_state y1) \<subseteq># add_mset h (map_handles (dy_state y))"
      using r by (auto simp: disc_run_def Let_def put_map_handles)
    then show ?thesis using kept by (simp add: PutGeneric)
  qed
qed

lemma used_spawn [simp]: "used_handles (disc_spawn t y) = put_handle t + used_handles y"
  by (simp add: used_handles_def disc_spawn_def ac_simps)

lemma used_start [simp]: "start_session y = (sid, y1) \<Longrightarrow> used_handles y1 = used_handles y"
  by (auto simp: used_handles_def start_session_def)

lemma step_handles:
  assumes "disc_step y y'"
  shows "handles_kept y y' \<or> handle_given y y'"
  using assms
proof cases
  case (dc_run t)
  then show ?thesis using run_handles by blast
next
  case (dc_retire ep)
  obtain sids st where r: "retire_region ep (dy_state y) = (sids, st)" by fastforce
  then have "map_handles st \<subseteq># map_handles (dy_state y)"
    by (auto simp: retire_region_def drain_endpoint_owned_def intro!: map_handles_mono keys_filter_sub)
  then show ?thesis
    by (simp add: dc_retire disc_retire_def r handles_kept_def disc_spawn_def used_handles_def)
next
  case (dc_peer_unadvertise h owned st)
  then have "map_handles (st\<lparr>peer_advertisements := al_del h (peer_advertisements st)\<rparr>) \<subseteq># map_handles (dy_state y)"
    by (auto intro!: map_handles_mono keys_al_del_sub)
  then show ?thesis by (simp add: dc_peer_unadvertise(1) handles_kept_def disc_spawn_def used_handles_def)
next
  case (dc_generic_unadvertise h sid st)
  then have "map_handles (st\<lparr>generic_advertisements := al_del h (generic_advertisements st)\<rparr>) \<subseteq># map_handles (dy_state y)"
    by (auto intro!: map_handles_mono keys_al_del_sub)
  then show ?thesis by (simp add: dc_generic_unadvertise(1) handles_kept_def disc_spawn_def used_handles_def)
qed (auto simp: handles_kept_def disc_spawn_def used_handles_def activate_endpoint_discovery_def map_handles_def start_session_def
      close_session_def)

definition handles_ok :: "deno_discovery \<Rightarrow> bool" where
  "handles_ok y \<longleftrightarrow> distinct (dy_handles y) \<and> (\<forall>h \<in> set (dy_handles y). h < dy_counter y)
     \<and> (\<forall>h. count (used_handles y) h \<le> 1) \<and> set_mset (used_handles y) \<subseteq> set (dy_handles y)"

lemma step_handles_ok:
  assumes "disc_step y y'" "handles_ok y"
  shows "handles_ok y' \<and> set (dy_handles y) \<subseteq> set (dy_handles y')
    \<and> (\<forall>h. h \<in> set (dy_handles y) \<longrightarrow> h \<notin># used_handles y \<longrightarrow> h \<notin># used_handles y')"
  using step_handles [OF assms(1)]
proof
  assume k: "handles_kept y y'"
  then have "count (used_handles y') h \<le> count (used_handles y) h" for h
    by (simp add: handles_kept_def mset_subset_eq_count)
  moreover have "set_mset (used_handles y') \<subseteq> set_mset (used_handles y)"
    using k by (auto simp: handles_kept_def dest: mset_subset_eqD)
  moreover have "count (used_handles y) h \<le> 1" for h using assms(2) by (simp add: handles_ok_def)
  ultimately have "count (used_handles y') h \<le> 1" "set_mset (used_handles y') \<subseteq> set_mset (used_handles y)" for h
    using le_trans by blast+
  then show ?thesis using k assms(2) unfolding handles_ok_def handles_kept_def by auto
next
  assume g: "handle_given y y'"
  let ?c = "dy_counter y"
  have new: "?c \<notin> set (dy_handles y)" using assms(2) by (auto simp: handles_ok_def)
  then have z: "count (used_handles y) ?c = 0" using assms(2) by (auto simp: handles_ok_def count_eq_zero_iff)
  have cnt: "count (used_handles y') h \<le> (if h = ?c then 1 else count (used_handles y) h)" for h
    using g mset_subset_eq_count [of "used_handles y'" "add_mset ?c (used_handles y)" h] z
    by (simp add: handle_given_def split: if_splits)
  have "set_mset (used_handles y') \<subseteq> insert ?c (set_mset (used_handles y))"
    using g by (auto simp: handle_given_def dest: mset_subset_eqD)
  moreover have "h < ?c + 1" if "h \<in> insert ?c (set (dy_handles y))" for h
    using that g assms(2) word_less_succ_iff [of ?c h] by (auto simp: handle_given_def handles_ok_def)
  moreover have "count (used_handles y') h \<le> 1" for h
    using cnt [of h] assms(2) le_trans [of "count (used_handles y') h" "count (used_handles y) h" 1]
    by (cases "h = ?c") (auto simp: handles_ok_def)
  ultimately show ?thesis
    using g assms(2) new unfolding handles_ok_def handle_given_def by auto
qed

lemma reachable_handles_ok: "disc_reachable y \<Longrightarrow> handles_ok y"
proof (induction rule: rtranclp_induct)
  case base
  show ?case
    by (simp add: handles_ok_def deno_discovery_new_def used_handles_def map_handles_def discovery_default_def)
qed (use step_handles_ok in blast)

lemma stale_handle_steps:
  assumes "disc_step\<^sup>*\<^sup>* y y'" "handles_ok y" "h \<in> set (dy_handles y)" "h \<notin># used_handles y"
  shows "handles_ok y' \<and> h \<in> set (dy_handles y') \<and> h \<notin># used_handles y'"
  using assms by (induction rule: rtranclp_induct) (use step_handles_ok in blast)+

section \<open>Sessions\<close>

text \<open>A session is registered, closed, or in the hands of a call that will publish or close it.\<close>

fun held :: "disc_task \<Rightarrow> nat set" where
  "held (HoldPeer browse ep sid) = {sid}"
| "held (CloseSessions sids) = set sids"
| "held (CloseThenRemove peer h sid) = {sid}"
| "held (RemoveEnded peer h sid) = {}"
| "held (HoldGeneric browse sid) = {sid}"
| "held (PutGeneric browse sid h) = {sid}"

definition vals :: "('k \<times> 'v) list \<Rightarrow> 'v set" where
  "vals m = snd ` set m"

definition peer_entries :: "discovery_state \<Rightarrow> endpoint_owned set" where
  "peer_entries st = vals (peer_browses st) \<union> vals (peer_advertisements st)"

definition generic_entries :: "discovery_state \<Rightarrow> nat set" where
  "generic_entries st = vals (generic_browses st) \<union> vals (generic_advertisements st)"

definition registered :: "discovery_state \<Rightarrow> nat set" where
  "registered st = eo_resource ` peer_entries st \<union> generic_entries st"

definition sessions_ok :: "deno_discovery \<Rightarrow> bool" where
  "sessions_ok y \<longleftrightarrow> {..<dy_started y} \<subseteq> registered (dy_state y) \<union> set (dy_closed y) \<union> \<Union> (held ` set (dy_tasks y))"

definition ended_closed :: "deno_discovery \<Rightarrow> bool" where
  "ended_closed y \<longleftrightarrow> (\<forall>peer h sid. RemoveEnded peer h sid \<in> set (dy_tasks y) \<longrightarrow> sid \<in> set (dy_closed y))"

definition entries_active :: "deno_discovery \<Rightarrow> bool" where
  "entries_active y \<longleftrightarrow> (\<forall>o1 \<in> peer_entries (dy_state y). eo_endpoint o1 \<in> set (active_endpoints (dy_state y)))"

text \<open>Registered sessions of endpoints are those started for them; generic ones were started for none.\<close>

fun task_peers :: "disc_task \<Rightarrow> (nat \<times> u64) set" where
  "task_peers (HoldPeer browse ep sid) = {(sid, ep)}"
| "task_peers _ = {}"

fun task_generics :: "disc_task \<Rightarrow> nat set" where
  "task_generics (HoldGeneric browse sid) = {sid}"
| "task_generics (PutGeneric browse sid h) = {sid}"
| "task_generics _ = {}"

definition generic_ids :: "deno_discovery \<Rightarrow> nat set" where
  "generic_ids y = {..<dy_started y} - fst ` set (dy_peers y)"

definition owners_ok :: "deno_discovery \<Rightarrow> bool" where
  "owners_ok y \<longleftrightarrow> distinct (map fst (dy_peers y)) \<and> fst ` set (dy_peers y) \<subseteq> {..<dy_started y}
     \<and> (\<forall>o1 \<in> peer_entries (dy_state y). (eo_resource o1, eo_endpoint o1) \<in> set (dy_peers y))
     \<and> (\<forall>t \<in> set (dy_tasks y). task_peers t \<subseteq> set (dy_peers y) \<and> task_generics t \<subseteq> generic_ids y)
     \<and> generic_entries (dy_state y) \<subseteq> generic_ids y"

lemma vals_del_sub: "vals (al_del h m) \<subseteq> vals m"
  by (auto simp: vals_def al_del_def)

lemma vals_put_sub: "vals (al_put h v m) \<subseteq> insert v (vals m)"
  by (auto simp: vals_def al_put_def al_del_def)

lemma vals_filter: "vals (filter P m) = snd ` {p \<in> set m. P p}"
  by (auto simp: vals_def)

lemma vals_put: "h \<notin> set (keys m) \<Longrightarrow> vals (al_put h v m) = insert v (vals m)"
  by (simp add: vals_def al_put_def)

lemma vals_lookup: "map_of m h = Some v \<Longrightarrow> v \<in> vals m"
  by (metis map_of_SomeD snd_conv vals_def image_eqI)

lemma vals_del:
  assumes "distinct (keys m)" "map_of m h = Some v"
  shows "vals m \<subseteq> insert v (vals (al_del h m))"
proof
  fix x
  assume "x \<in> vals m"
  then obtain k where k: "(k, x) \<in> set m" by (auto simp: vals_def)
  then have "map_of m k = Some x" using assms(1) by (simp add: keys_def)
  then show "x \<in> insert v (vals (al_del h m))"
    using assms(2) k by (cases "k = h") (auto simp: vals_def al_del_def image_iff)
qed

lemma distinct_of_count: "(\<And>h. count (mset xs) h \<le> 1) \<Longrightarrow> distinct xs"
  by (simp add: distinct_count_atmost_1) (metis count_eq_zero_iff le_Suc_eq le_zero_eq set_mset_mset One_nat_def)

text \<open>What the handle invariant gives: the keys of each map are distinct, a fresh handle is no key, and neither is a handle
  that is about to become one.\<close>

lemma handles_ok_maps:
  assumes "handles_ok y"
  shows "distinct (keys (peer_browses (dy_state y)))" "distinct (keys (peer_advertisements (dy_state y)))"
    "distinct (keys (generic_browses (dy_state y)))" "distinct (keys (generic_advertisements (dy_state y)))"
proof -
  have c: "count (map_handles (dy_state y)) h \<le> 1" for h
  proof -
    have "count (map_handles (dy_state y)) h \<le> count (used_handles y) h" by (simp add: used_handles_def)
    also have "\<dots> \<le> 1" using assms by (simp add: handles_ok_def)
    finally show ?thesis .
  qed
  show "distinct (keys (peer_browses (dy_state y)))" "distinct (keys (peer_advertisements (dy_state y)))"
    "distinct (keys (generic_browses (dy_state y)))" "distinct (keys (generic_advertisements (dy_state y)))"
    by (rule distinct_of_count; use c in \<open>simp add: map_handles_def\<close>; meson add_leD1 add_leD2)+
qed

lemma fresh_keys:
  assumes "count (map_handles st) h = 0"
  shows "h \<notin> set (keys (peer_browses st))" "h \<notin> set (keys (peer_advertisements st))"
    "h \<notin> set (keys (generic_browses st))" "h \<notin> set (keys (generic_advertisements st))"
  using assms by (auto simp: map_handles_def count_eq_zero_iff)

lemma counter_fresh:
  assumes "handles_ok y"
  shows "count (map_handles (dy_state y)) (dy_counter y) = 0"
proof -
  have "dy_counter y \<notin> set (dy_handles y)" using assms by (auto simp: handles_ok_def)
  then have "dy_counter y \<notin># used_handles y" using assms by (auto simp: handles_ok_def)
  then show ?thesis by (simp add: used_handles_def count_eq_zero_iff)
qed

lemma put_fresh:
  assumes "handles_ok y" "PutGeneric browse sid h \<in> set (dy_tasks y)"
  shows "count (map_handles (dy_state y)) h = 0"
proof -
  have "mset (dy_tasks y) = add_mset (PutGeneric browse sid h) (mset (remove1 (PutGeneric browse sid h) (dy_tasks y)))"
    using assms(2) by simp
  then have "sum_mset (image_mset put_handle (mset (dy_tasks y)))
      = {#h#} + sum_mset (image_mset put_handle (mset (remove1 (PutGeneric browse sid h) (dy_tasks y))))"
    by (metis image_mset_add_mset sum_mset.insert put_handle.simps(1))
  then have "Suc (count (map_handles (dy_state y)) h) \<le> count (used_handles y) h" by (simp add: used_handles_def)
  also have "\<dots> \<le> 1" using assms(1) by (simp add: handles_ok_def)
  finally show ?thesis by simp
qed

lemma tasks_after: "set (dy_tasks (disc_run_task t y)) \<subseteq> set (fst (disc_run t y)) \<union> set (dy_tasks y)"
  using set_remove1_subset [of t "dy_tasks y"] by auto

lemma tasks_before: "set (dy_tasks y) \<subseteq> insert t (set (dy_tasks (disc_run_task t y)))"
  by auto

lemma registered_remove_peer:
  assumes "distinct (keys (peer_browses st))"
  shows "registered st \<subseteq> insert sid (registered (remove_peer_if_same h sid st))"
proof (cases "map_of (peer_browses st) h")
  case None
  then show ?thesis by (auto simp: remove_peer_if_same_def)
next
  case (Some o1)
  have "eo_resource ` vals (peer_browses st) \<subseteq> insert (eo_resource o1) (eo_resource ` vals (al_del h (peer_browses st)))"
    using vals_del [OF assms Some] by blast
  then show ?thesis
    using Some by (cases "eo_resource o1 = sid") (auto simp: remove_peer_if_same_def registered_def peer_entries_def generic_entries_def)
qed

text \<open>Sessions that a task held stay accounted for.\<close>

lemma held_run:
  assumes "handles_ok y" "ended_closed y" "t \<in> set (dy_tasks y)" "disc_run t y = (ts, y1)"
  shows "held t \<subseteq> registered (dy_state y1) \<union> set (dy_closed y1) \<union> \<Union> (held ` set ts)
    \<and> registered (dy_state y) \<subseteq> registered (dy_state y1) \<union> set (dy_closed y1)
    \<and> set (dy_closed y) \<subseteq> set (dy_closed y1) \<and> dy_started y1 = dy_started y"
proof (cases t)
  case (HoldPeer browse ep sid)
  note f = fresh_keys [OF counter_fresh [OF assms(1)]]
  show ?thesis
    using assms(4) f
    by (auto simp: HoldPeer disc_run_def publish_region_def alloc_discovery_handle_def Let_def registered_def peer_entries_def
        generic_entries_def vals_put split: if_splits)
next
  case (CloseSessions sids)
  then show ?thesis using assms(4) by (cases sids) (auto simp: disc_run_def close_session_def)
next
  case (CloseThenRemove peer h sid)
  then show ?thesis using assms(4) by (auto simp: disc_run_def close_session_def)
next
  case (RemoveEnded peer h sid)
  have "sid \<in> set (dy_closed y)" using assms(2,3) RemoveEnded by (auto simp: ended_closed_def)
  moreover have "registered (dy_state y) \<subseteq> insert sid (registered (remove_peer_if_same h sid (dy_state y)))"
    by (rule registered_remove_peer [OF handles_ok_maps(1) [OF assms(1)]])
  moreover have "registered (dy_state y) \<subseteq> insert sid (registered (remove_generic_if_same h sid (dy_state y)))"
    using vals_del [OF handles_ok_maps(3) [OF assms(1)], of h sid]
    by (auto simp: remove_generic_if_same_def registered_def peer_entries_def generic_entries_def)
  ultimately show ?thesis using assms(4) by (auto simp: RemoveEnded disc_run_def split: if_splits)
next
  case (HoldGeneric browse sid)
  then show ?thesis using assms(4) by (auto simp: disc_run_def alloc_discovery_handle_def split: if_splits)
next
  case (PutGeneric browse sid h)
  have f: "h \<notin> set (keys (generic_browses (dy_state y)))" "h \<notin> set (keys (generic_advertisements (dy_state y)))"
    using fresh_keys [OF put_fresh [OF assms(1)]] assms(3) PutGeneric by blast+
  then show ?thesis
    using assms(4)
    by (auto simp: PutGeneric disc_run_def Let_def registered_def peer_entries_def generic_entries_def vals_put split: if_splits)
qed

lemma retire_registered:
  assumes "retire_region ep st = (sids, st')"
  shows "registered st \<subseteq> registered st' \<union> set sids" "peer_entries st' = {o1 \<in> peer_entries st. eo_endpoint o1 \<noteq> ep}"
    "generic_entries st' = generic_entries st" "active_endpoints st' = removeAll ep (active_endpoints st)"
proof -
  have st': "peer_browses st' = filter (\<lambda>(_, owned). eo_endpoint owned \<noteq> ep) (peer_browses st)"
    "peer_advertisements st' = filter (\<lambda>(_, owned). eo_endpoint owned \<noteq> ep) (peer_advertisements st)"
    "generic_browses st' = generic_browses st" "generic_advertisements st' = generic_advertisements st"
    "active_endpoints st' = removeAll ep (active_endpoints st)"
    and sids: "set sids = eo_resource ` {o1 \<in> peer_entries st. eo_endpoint o1 = ep}"
    using assms by (auto simp: retire_region_def drain_endpoint_owned_def peer_entries_def vals_def image_iff) force+
  show p: "peer_entries st' = {o1 \<in> peer_entries st. eo_endpoint o1 \<noteq> ep}"
    by (auto simp: peer_entries_def st' vals_filter vals_def)
  show g: "generic_entries st' = generic_entries st" by (simp add: generic_entries_def st')
  show "registered st \<subseteq> registered st' \<union> set sids" unfolding registered_def p g sids by auto
  show "active_endpoints st' = removeAll ep (active_endpoints st)" by (rule st'(5))
qed

lemma cover_step:
  "A \<subseteq> R \<union> C \<union> H \<Longrightarrow> R \<subseteq> R' \<union> C' \<Longrightarrow> C \<subseteq> C' \<Longrightarrow> H \<subseteq> T \<union> H' \<Longrightarrow> T \<subseteq> R' \<union> C' \<union> S \<Longrightarrow> S \<subseteq> H'
     \<Longrightarrow> A \<subseteq> R' \<union> C' \<union> H'"
  by blast

text \<open>Sessions that leave the maps into the hands of a new task.\<close>

lemma sessions_moved:
  assumes "sessions_ok y" "dy_started y1 = dy_started y" "registered (dy_state y) \<subseteq> registered (dy_state y1) \<union> held t"
    "dy_closed y1 = dy_closed y" "dy_tasks y1 = dy_tasks y"
  shows "sessions_ok (disc_spawn t y1)"
proof -
  have "{..<dy_started y} \<subseteq> (registered (dy_state y1) \<union> held t) \<union> set (dy_closed y) \<union> \<Union> (held ` set (dy_tasks y))"
    using assms(1,3) unfolding sessions_ok_def by blast
  then show ?thesis using assms(2,4,5) by (simp add: sessions_ok_def disc_spawn_def Un_ac)
qed

lemma sessions_step:
  assumes "disc_step y y'" "handles_ok y" "ended_closed y" "sessions_ok y"
  shows "sessions_ok y'"
  using assms(1)
proof cases
  case (dc_run t)
  obtain ts y1 where r: "disc_run t y = (ts, y1)" by fastforce
  note h = held_run [OF assms(2,3) dc_run(2) r]
  have before: "\<Union> (held ` set (dy_tasks y)) \<subseteq> held t \<union> \<Union> (held ` set (dy_tasks y'))"
    using tasks_before [of y t] dc_run(1) by blast
  have new: "\<Union> (held ` set ts) \<subseteq> \<Union> (held ` set (dy_tasks y'))" using r by (auto simp: dc_run(1))
  have y': "dy_started y' = dy_started y" "dy_state y' = dy_state y1" "dy_closed y' = dy_closed y1"
    using h r by (simp_all add: dc_run(1))
  show ?thesis
    unfolding sessions_ok_def y'
    by (rule cover_step [OF assms(4) [unfolded sessions_ok_def] _ _ before _ new]) (use h in simp_all)
next
  case (dc_retire ep)
  obtain sids st where r: "retire_region ep (dy_state y) = (sids, st)" by fastforce
  show ?thesis
    unfolding dc_retire disc_retire_def r prod.case
    using retire_registered(1) [OF r] by (intro sessions_moved [OF assms(4)]) simp_all
next
  case (dc_peer_unadvertise h owned st)
  have "vals (peer_advertisements st) \<subseteq> insert owned (vals (al_del h (peer_advertisements st)))"
    unfolding dc_peer_unadvertise(3) by (rule vals_del [OF handles_ok_maps(2) [OF assms(2)] dc_peer_unadvertise(2)])
  then have "registered st \<subseteq> insert (eo_resource owned) (registered (st\<lparr>peer_advertisements := al_del h (peer_advertisements st)\<rparr>))"
    by (auto simp: registered_def peer_entries_def generic_entries_def)
  then show ?thesis
    unfolding dc_peer_unadvertise(1)
    by (intro sessions_moved [OF assms(4)]) (simp_all add: dc_peer_unadvertise(3))
next
  case (dc_generic_unadvertise h sid st)
  have "vals (generic_advertisements st) \<subseteq> insert sid (vals (al_del h (generic_advertisements st)))"
    unfolding dc_generic_unadvertise(3) by (rule vals_del [OF handles_ok_maps(4) [OF assms(2)] dc_generic_unadvertise(2)])
  then have "registered st \<subseteq> insert sid (registered (st\<lparr>generic_advertisements := al_del h (generic_advertisements st)\<rparr>))"
    by (auto simp: registered_def peer_entries_def generic_entries_def)
  then show ?thesis
    unfolding dc_generic_unadvertise(1)
    by (intro sessions_moved [OF assms(4)]) (simp_all add: dc_generic_unadvertise(3))
qed (use assms(4) in \<open>auto simp: sessions_ok_def disc_spawn_def start_session_def close_session_def activate_endpoint_discovery_def
      registered_def peer_entries_def generic_entries_def less_Suc_eq\<close>)

lemma ended_run: "RemoveEnded peer h sid \<in> set (fst (disc_run t y)) \<Longrightarrow> sid \<in> set (dy_closed (snd (disc_run t y)))"
  by (cases t) (auto simp: disc_run_def publish_region_def alloc_discovery_handle_def Let_def close_session_def
      split: if_splits list.splits)

lemma closed_run: "set (dy_closed y) \<subseteq> set (dy_closed (snd (disc_run t y)))"
  by (cases t) (auto simp: disc_run_def publish_region_def alloc_discovery_handle_def Let_def close_session_def
      split: if_splits list.splits)

lemma ended_step:
  assumes "disc_step y y'" "ended_closed y"
  shows "ended_closed y'"
  using assms(1)
proof cases
  case (dc_run t)
  show ?thesis
    unfolding ended_closed_def
  proof (intro allI impI)
    fix peer h sid
    assume "RemoveEnded peer h sid \<in> set (dy_tasks y')"
    then have "RemoveEnded peer h sid \<in> set (fst (disc_run t y)) \<or> RemoveEnded peer h sid \<in> set (dy_tasks y)"
      using tasks_after [of t y] dc_run(1) by blast
    then show "sid \<in> set (dy_closed y')"
      using ended_run [of peer h sid t y] closed_run [of y t] assms(2) unfolding dc_run(1) ended_closed_def by auto
  qed
qed (use assms(2) in \<open>auto simp: ended_closed_def disc_spawn_def start_session_def close_session_def disc_retire_def
      split: prod.splits\<close>)

lemma peer_entries_remove: "peer_entries (remove_peer_if_same h sid st) \<subseteq> peer_entries st"
  "active_endpoints (remove_peer_if_same h sid st) = active_endpoints st"
  "generic_entries (remove_peer_if_same h sid st) = generic_entries st"
  using vals_del_sub [of h "peer_browses st"]
  by (auto simp: remove_peer_if_same_def peer_entries_def generic_entries_def split: option.splits)

lemma generic_entries_remove: "generic_entries (remove_generic_if_same h sid st) \<subseteq> generic_entries st"
  "active_endpoints (remove_generic_if_same h sid st) = active_endpoints st"
  "peer_entries (remove_generic_if_same h sid st) = peer_entries st"
  using vals_del_sub [of h "generic_browses st"]
  by (auto simp: remove_generic_if_same_def peer_entries_def generic_entries_def)

text \<open>What a task adds to the maps.\<close>

lemma entries_run:
  assumes "disc_run t y = (ts, y1)"
  shows "active_endpoints (dy_state y1) = active_endpoints (dy_state y)"
    "\<And>o1. o1 \<in> peer_entries (dy_state y1) \<Longrightarrow> o1 \<in> peer_entries (dy_state y)
       \<or> (eo_resource o1, eo_endpoint o1) \<in> task_peers t \<and> eo_endpoint o1 \<in> set (active_endpoints (dy_state y))"
    "generic_entries (dy_state y1) \<subseteq> generic_entries (dy_state y) \<union> task_generics t"
    "\<And>u. u \<in> set ts \<Longrightarrow> task_peers u = {} \<and> task_generics u \<subseteq> task_generics t" "dy_started y1 = dy_started y" "dy_peers y1 = dy_peers y"
proof -
  have "active_endpoints (dy_state y1) = active_endpoints (dy_state y)
    \<and> (\<forall>o1. o1 \<in> peer_entries (dy_state y1) \<longrightarrow> o1 \<in> peer_entries (dy_state y)
       \<or> (eo_resource o1, eo_endpoint o1) \<in> task_peers t \<and> eo_endpoint o1 \<in> set (active_endpoints (dy_state y)))
    \<and> generic_entries (dy_state y1) \<subseteq> generic_entries (dy_state y) \<union> task_generics t
    \<and> (\<forall>u \<in> set ts. task_peers u = {} \<and> task_generics u \<subseteq> task_generics t) \<and> dy_started y1 = dy_started y \<and> dy_peers y1 = dy_peers y"
  proof (cases t)
    case (HoldPeer browse ep sid)
    show ?thesis
      using assms by (auto simp: HoldPeer disc_run_def publish_region_def alloc_discovery_handle_def Let_def peer_entries_def
          generic_entries_def dest!: subsetD [OF vals_put_sub] split: if_splits)
  next
    case (CloseSessions sids)
    then show ?thesis using assms by (cases sids) (auto simp: disc_run_def close_session_def)
  next
    case (CloseThenRemove peer h sid)
    then show ?thesis using assms by (auto simp: disc_run_def close_session_def)
  next
    case (RemoveEnded peer h sid)
    then show ?thesis
      using assms peer_entries_remove [of h sid "dy_state y"] generic_entries_remove [of h sid "dy_state y"]
      by (auto simp: disc_run_def split: if_splits)
  next
    case (HoldGeneric browse sid)
    then show ?thesis using assms by (auto simp: disc_run_def alloc_discovery_handle_def split: if_splits)
  next
    case (PutGeneric browse sid h)
    show ?thesis
      using assms by (auto simp: PutGeneric disc_run_def Let_def peer_entries_def generic_entries_def
          dest!: subsetD [OF vals_put_sub] split: if_splits)
  qed
  then show "active_endpoints (dy_state y1) = active_endpoints (dy_state y)"
    "\<And>o1. o1 \<in> peer_entries (dy_state y1) \<Longrightarrow> o1 \<in> peer_entries (dy_state y)
       \<or> (eo_resource o1, eo_endpoint o1) \<in> task_peers t \<and> eo_endpoint o1 \<in> set (active_endpoints (dy_state y))"
    "generic_entries (dy_state y1) \<subseteq> generic_entries (dy_state y) \<union> task_generics t"
    "\<And>u. u \<in> set ts \<Longrightarrow> task_peers u = {} \<and> task_generics u \<subseteq> task_generics t" "dy_started y1 = dy_started y" "dy_peers y1 = dy_peers y"
    by blast+
qed

lemma active_step:
  assumes "disc_step y y'" "entries_active y"
  shows "entries_active y'"
  using assms(1)
proof cases
  case (dc_run t)
  obtain ts y1 where r: "disc_run t y = (ts, y1)" by fastforce
  show ?thesis
    using assms(2) entries_run(1,2) [OF r] r by (auto simp: entries_active_def dc_run(1))
next
  case (dc_retire ep)
  obtain sids st where r: "retire_region ep (dy_state y) = (sids, st)" by fastforce
  show ?thesis
    using assms(2) retire_registered(2,4) [OF r] by (auto simp: entries_active_def dc_retire disc_retire_def r disc_spawn_def)
next
  case (dc_peer_unadvertise h owned st)
  then show ?thesis
    using assms(2) by (auto simp: entries_active_def disc_spawn_def peer_entries_def dest!: subsetD [OF vals_del_sub])
qed (use assms(2) in \<open>auto simp: entries_active_def disc_spawn_def start_session_def close_session_def peer_entries_def
      activate_endpoint_discovery_def\<close>)

lemma owners_run:
  assumes "owners_ok y" "t \<in> set (dy_tasks y)"
  shows "owners_ok (disc_run_task t y)"
proof -
  obtain ts y1 where r: "disc_run t y = (ts, y1)" by fastforce
  note e = entries_run [OF r]
  have f: "dy_peers (disc_run_task t y) = dy_peers y" "dy_started (disc_run_task t y) = dy_started y"
    "dy_state (disc_run_task t y) = dy_state y1" using e(5,6) r by simp_all
  have g: "generic_ids (disc_run_task t y) = generic_ids y" by (simp add: generic_ids_def e(5,6) r)
  have tp: "task_peers t \<subseteq> set (dy_peers y)" "task_generics t \<subseteq> generic_ids y"
    using assms by (simp_all add: owners_ok_def)
  have "task_peers u \<subseteq> set (dy_peers y) \<and> task_generics u \<subseteq> generic_ids y"
    if "u \<in> set (dy_tasks (disc_run_task t y))" for u
  proof (cases "u \<in> set ts")
    case True
    then show ?thesis using e(4) [of u] tp(2) by auto
  next
    case False
    then have "u \<in> set (dy_tasks y)" using that tasks_after [of t y] r by auto
    then show ?thesis using assms(1) by (simp add: owners_ok_def)
  qed
  moreover have "(eo_resource o1, eo_endpoint o1) \<in> set (dy_peers y)" if "o1 \<in> peer_entries (dy_state y1)" for o1
    using e(2) [OF that] tp(1) assms(1) by (auto simp: owners_ok_def)
  moreover have "generic_entries (dy_state y1) \<subseteq> generic_ids y"
    using e(3) tp(2) assms(1) by (auto simp: owners_ok_def)
  ultimately show ?thesis using assms(1) unfolding owners_ok_def f g by simp
qed

lemma owners_frame:
  assumes "owners_ok y" "dy_peers y' = dy_peers y" "dy_started y' = dy_started y"
    "peer_entries (dy_state y') \<subseteq> peer_entries (dy_state y)" "generic_entries (dy_state y') \<subseteq> generic_entries (dy_state y)"
    "\<And>u. u \<in> set (dy_tasks y') \<Longrightarrow> u \<in> set (dy_tasks y) \<or> task_peers u = {} \<and> task_generics u = {}"
  shows "owners_ok y'"
proof -
  have "generic_ids y' = generic_ids y" by (simp add: generic_ids_def assms(2,3))
  moreover have "task_peers u \<subseteq> set (dy_peers y) \<and> task_generics u \<subseteq> generic_ids y" if "u \<in> set (dy_tasks y')" for u
    using assms(6) [OF that] assms(1) by (auto simp: owners_ok_def)
  ultimately show ?thesis using assms(1-5) by (auto simp: owners_ok_def)
qed

lemma owners_start:
  assumes "owners_ok y"
  shows "owners_ok (disc_spawn (HoldPeer browse ep (dy_started y))
      (y\<lparr>dy_started := Suc (dy_started y), dy_peers := (dy_started y, ep) # dy_peers y\<rparr>))"
    "owners_ok (disc_spawn (HoldGeneric browse (dy_started y)) (y\<lparr>dy_started := Suc (dy_started y)\<rparr>))"
proof -
  let ?y = "disc_spawn (HoldPeer browse ep (dy_started y)) (y\<lparr>dy_started := Suc (dy_started y), dy_peers := (dy_started y, ep) # dy_peers y\<rparr>)"
  let ?z = "disc_spawn (HoldGeneric browse (dy_started y)) (y\<lparr>dy_started := Suc (dy_started y)\<rparr>)"
  have n: "dy_started y \<notin> fst ` set (dy_peers y)" using assms by (auto simp: owners_ok_def)
  have "generic_ids y \<subseteq> generic_ids ?y" "generic_ids y \<subseteq> generic_ids ?z"
    by (auto simp: generic_ids_def disc_spawn_def)
  moreover have "dy_started y \<in> generic_ids ?z" using n by (simp add: generic_ids_def disc_spawn_def)
  ultimately show "owners_ok ?y" "owners_ok ?z"
    using assms n unfolding owners_ok_def disc_spawn_def by (auto simp: subset_iff less_Suc_eq)
qed

lemma owners_step:
  assumes "disc_step y y'" "owners_ok y"
  shows "owners_ok y'"
  using assms(1)
proof cases
  case (dc_run t)
  then show ?thesis using owners_run assms(2) by blast
next
  case (dc_retire ep)
  obtain sids st where r: "retire_region ep (dy_state y) = (sids, st)" by fastforce
  show ?thesis
    unfolding dc_retire disc_retire_def r prod.case
    by (rule owners_frame [OF assms(2)]) (use retire_registered(2,3) [OF r] in \<open>auto simp: disc_spawn_def\<close>)
next
  case (dc_start_peer sid y1 browse ep)
  then show ?thesis using owners_start(1) [OF assms(2)] by (auto simp: start_session_def)
next
  case (dc_start_generic sid y1 browse)
  then show ?thesis using owners_start(2) [OF assms(2)] by (auto simp: start_session_def)
next
  case (dc_peer_unadvertise h owned st)
  show ?thesis
    unfolding dc_peer_unadvertise(1)
    by (rule owners_frame [OF assms(2)])
      (use vals_del_sub in \<open>auto simp: disc_spawn_def dc_peer_unadvertise(3) peer_entries_def generic_entries_def dest!: subsetD [OF vals_del_sub]\<close>)
next
  case (dc_generic_unadvertise h sid st)
  show ?thesis
    unfolding dc_generic_unadvertise(1)
    by (rule owners_frame [OF assms(2)])
      (auto simp: disc_spawn_def dc_generic_unadvertise(3) peer_entries_def generic_entries_def dest!: subsetD [OF vals_del_sub])
qed (rule owners_frame [OF assms(2)];
    auto simp: disc_spawn_def close_session_def activate_endpoint_discovery_def peer_entries_def generic_entries_def)+

lemma reachable_sessions:
  assumes "disc_reachable y"
  shows "sessions_ok y \<and> ended_closed y \<and> entries_active y \<and> owners_ok y"
  using assms
proof (induction rule: rtranclp_induct)
  case base
  show ?case
    by (simp add: sessions_ok_def ended_closed_def entries_active_def owners_ok_def deno_discovery_new_def discovery_default_def
        peer_entries_def generic_entries_def vals_def)
next
  case (step y z)
  have "handles_ok y" by (rule reachable_handles_ok [OF step(1)])
  then show ?case
    using step sessions_step [OF step(2)] ended_step [OF step(2)] active_step [OF step(2)] owners_step [OF step(2)] by blast
qed

section \<open>Properties\<close>

text \<open>Property C31.  No session outlives its endpoint: whatever starts, closes and retirements interleave, once no call is
  under way every session ever started has been closed or can be reached by a handle, and every session that was started
  for an endpoint which is retired by now has been closed, also when its start overlapped the retirement.\<close>

theorem closed_endpoint_keeps_no_session:
  assumes "disc_reachable y" "dy_tasks y = []"
  shows "{..<dy_started y} \<subseteq> registered (dy_state y) \<union> set (dy_closed y)
    \<and> (\<forall>(sid, ep) \<in> set (dy_peers y). ep \<notin> set (active_endpoints (dy_state y)) \<longrightarrow> sid \<in> set (dy_closed y))"
proof -
  note inv = reachable_sessions [OF assms(1)]
  have all: "{..<dy_started y} \<subseteq> registered (dy_state y) \<union> set (dy_closed y)"
    using inv assms(2) by (simp add: sessions_ok_def)
  have "sid \<in> set (dy_closed y)" if p: "(sid, ep) \<in> set (dy_peers y)" "ep \<notin> set (active_endpoints (dy_state y))" for sid ep
  proof (rule ccontr)
    assume no: "sid \<notin> set (dy_closed y)"
    have s: "sid \<in> fst ` set (dy_peers y)" using p(1) by force
    have d: "distinct (map fst (dy_peers y))" "sid < dy_started y" "sid \<in> fst ` set (dy_peers y)"
      using inv s by (auto simp: owners_ok_def)
    have "sid \<notin> generic_entries (dy_state y)" using inv d(3) by (auto simp: owners_ok_def generic_ids_def)
    then obtain o1 where o1: "o1 \<in> peer_entries (dy_state y)" "eo_resource o1 = sid"
      using all no d(2) by (auto simp: registered_def)
    then have "(sid, eo_endpoint o1) \<in> set (dy_peers y)" using inv by (auto simp: owners_ok_def)
    then have "eo_endpoint o1 = ep" using p(1) d(1) eq_key_imp_eq_value by metis
    then show False using inv o1(1) p(2) by (auto simp: entries_active_def)
  qed
  then show ?thesis using all by auto
qed

text \<open>An endpoint is retired while a browse for it is being started.\<close>

definition demo_disco :: "nat \<Rightarrow> deno_discovery" where
  "demo_disco n = (let
     y1 = deno_discovery_new\<lparr>dy_state := activate_endpoint_discovery 7 discovery_default\<rparr>;
     y2 = disc_spawn (HoldPeer True 7 0) (y1\<lparr>dy_started := 1, dy_peers := [(0, 7)]\<rparr>);
     y3 = disc_retire 7 y2;
     y4 = disc_run_task (HoldPeer True 7 0) y3;
     y5 = disc_run_task (CloseSessions [0]) y4;
     y6 = disc_run_task (CloseSessions []) y5
   in [deno_discovery_new, y1, y2, y3, y4, y5, y6, disc_run_task (CloseSessions []) y6] ! n)"

lemmas demo_disco_eval = demo_disco_def Let_def deno_discovery_new_def activate_endpoint_discovery_def discovery_default_def
  disc_spawn_def disc_retire_def retire_region_def drain_endpoint_owned_def disc_run_task_def disc_run_def publish_region_def
  close_session_def start_session_def

lemma demo_disco_reachable: "disc_reachable (demo_disco 7)"
proof -
  have run: "t \<in> set (dy_tasks (demo_disco n)) \<Longrightarrow> disc_run_task t (demo_disco n) = demo_disco (Suc n)
      \<Longrightarrow> disc_step (demo_disco n) (demo_disco (Suc n))" for t n
    using dc_run [of t "demo_disco n"] by simp
  have "disc_step (demo_disco 0) (demo_disco 1)"
    using dc_activate [of deno_discovery_new 7] by (simp add: demo_disco_def Let_def deno_discovery_new_def)
  moreover have "disc_step (demo_disco 1) (demo_disco 2)"
    using dc_start_peer [of "demo_disco 1" 0 "(demo_disco 1)\<lparr>dy_started := 1\<rparr>" True 7] by (simp add: demo_disco_eval)
  moreover have "disc_step (demo_disco 2) (demo_disco 3)"
    using dc_retire [of "demo_disco 2" 7] by (simp add: demo_disco_def Let_def)
  moreover have "disc_step (demo_disco 3) (demo_disco 4)"
    using run [of "HoldPeer True 7 0" 3] by (simp add: demo_disco_eval)
  moreover have "disc_step (demo_disco 4) (demo_disco 5)" using run [of "CloseSessions [0]" 4] by (simp add: demo_disco_eval)
  moreover have "disc_step (demo_disco 5) (demo_disco 6)" using run [of "CloseSessions []" 5] by (simp add: demo_disco_eval)
  moreover have "disc_step (demo_disco 6) (demo_disco 7)" using run [of "CloseSessions []" 6] by (simp add: demo_disco_eval)
  moreover have "demo_disco 0 = deno_discovery_new" by (simp add: demo_disco_def)
  ultimately show ?thesis by (metis (no_types, lifting) rtranclp.rtrancl_refl rtranclp.rtrancl_into_rtrancl)
qed

theorem closed_endpoint_keeps_no_session_witness:
  "disc_reachable (demo_disco 7) \<and> (0, 7) \<in> set (dy_peers (demo_disco 7)) \<and> 0 \<in> set (dy_closed (demo_disco 7))"
proof -
  have t: "dy_tasks (demo_disco 7) = []" "(0, 7) \<in> set (dy_peers (demo_disco 7))"
    "7 \<notin> set (active_endpoints (dy_state (demo_disco 7)))" by (simp_all add: demo_disco_eval)
  have "\<forall>(sid, ep) \<in> set (dy_peers (demo_disco 7)). ep \<notin> set (active_endpoints (dy_state (demo_disco 7)))
      \<longrightarrow> sid \<in> set (dy_closed (demo_disco 7))"
    by (rule conjunct2 [OF closed_endpoint_keeps_no_session [OF demo_disco_reachable t(1)]])
  then have "0 \<in> set (dy_closed (demo_disco 7))" using t(2,3) by blast
  then show ?thesis using t(2) demo_disco_reachable by blast
qed

text \<open>A discovery handle names one resource: in every reachable state a handle is the key of at most one
  entry among the four kinds of resources, and a handle that was given out and no longer resolves never resolves again,
  since the 32-bit counter fails instead of wrapping.\<close>

theorem discovery_handle_names_one_resource:
  assumes "disc_reachable y" "disc_step\<^sup>*\<^sup>* y y'"
  shows "count (map_handles (dy_state y)) h \<le> 1
    \<and> (h \<in> set (dy_handles y) \<and> h \<notin># used_handles y \<longrightarrow> h \<notin># map_handles (dy_state y'))"
proof -
  have ok: "handles_ok y" by (rule reachable_handles_ok [OF assms(1)])
  have "count (map_handles (dy_state y)) h \<le> count (used_handles y) h" by (simp add: used_handles_def)
  also have "\<dots> \<le> 1" using ok by (simp add: handles_ok_def)
  finally have "count (map_handles (dy_state y)) h \<le> 1" .
  then show ?thesis using stale_handle_steps [OF assms(2) ok, of h] by (auto simp: used_handles_def)
qed

text \<open>An advertisement is published under handle 1 and closed.\<close>

definition demo_unadvertised :: "nat \<Rightarrow> deno_discovery" where
  "demo_unadvertised n = (let
     y1 = demo_disco 1;
     y2 = disc_spawn (HoldPeer False 7 0) (y1\<lparr>dy_started := 1, dy_peers := [(0, 7)]\<rparr>);
     y3 = disc_run_task (HoldPeer False 7 0) y2
   in [y1, y2, y3, disc_spawn (CloseSessions [0]) (y3\<lparr>dy_state := (dy_state y3)\<lparr>peer_advertisements := []\<rparr>\<rparr>)] ! n)"

lemmas demo_unadvertised_eval = demo_unadvertised_def demo_disco_eval alloc_discovery_handle_def al_put_def used_handles_def map_handles_def

lemma demo_unadvertised_reachable: "disc_reachable (demo_unadvertised 3)"
proof -
  have "disc_step deno_discovery_new (demo_unadvertised 0)"
    using dc_activate [of deno_discovery_new 7] by (simp add: demo_unadvertised_def demo_disco_def Let_def deno_discovery_new_def)
  moreover have "disc_step (demo_unadvertised 0) (demo_unadvertised 1)"
    using dc_start_peer [of "demo_unadvertised 0" 0 "(demo_unadvertised 0)\<lparr>dy_started := 1\<rparr>" False 7] by (simp add: demo_unadvertised_eval)
  moreover have "disc_step (demo_unadvertised 1) (demo_unadvertised 2)"
    using dc_run [of "HoldPeer False 7 0" "demo_unadvertised 1"] by (simp add: demo_unadvertised_def Let_def disc_spawn_def)
  moreover have "disc_step (demo_unadvertised 2) (demo_unadvertised 3)"
    using dc_peer_unadvertise [of "demo_unadvertised 2" 1 "\<lparr>eo_endpoint = 7, eo_resource = 0\<rparr>" "dy_state (demo_unadvertised 2)"]
    by (simp add: demo_unadvertised_eval)
  ultimately show ?thesis by (meson rtranclp.rtrancl_refl rtranclp.rtrancl_into_rtrancl)
qed

theorem discovery_handle_names_one_resource_witness:
  "disc_reachable (demo_unadvertised 3) \<and> 1 \<in> set (dy_handles (demo_unadvertised 3)) \<and> 1 \<notin># map_handles (dy_state (demo_unadvertised 3))"
proof -
  have h: "1 \<in> set (dy_handles (demo_unadvertised 3)) \<and> 1 \<notin># used_handles (demo_unadvertised 3)"
    by (simp add: demo_unadvertised_eval)
  then show ?thesis
    using discovery_handle_names_one_resource [OF demo_unadvertised_reachable rtranclp.rtrancl_refl, of 1] demo_unadvertised_reachable by blast
qed

end
