(* ===== verification/Dns_Sd.thy ===== *)
theory Dns_Sd
  imports Disc_Session
begin

text \<open>
  \<^verbatim>\<open>src/crates/iroh-http-discovery/src/dns_sd.rs\<close>: the advertise and browse handles on top of the \<^verbatim>\<open>mdns-sd\<close>
  daemon.

  The daemon is another crate: its answers are arguments of the definitions, and what it builds from a
  service configuration is the record \<open>mdns_lib\<close>.  A command may answer \<open>Again\<close> when the daemon's queue is full
  and is then repeated.  The daemon belongs to one session, and every loop of repetitions runs under the
  operation mutex, so such a loop is one step; the closing flag, the mutex and the published close result are
  shared, and updates, close requests and waiters interleave between any two steps.
\<close>

section \<open>Names and addresses\<close>

definition dns_service_type :: "(string \<Rightarrow> string) \<Rightarrow> string \<Rightarrow> protocol \<Rightarrow> discovery_error + string" where
  "dns_service_type dbg n p = (case service_type dbg n p of Inl e \<Rightarrow> Inl (InvalidServiceName e) | Inr t \<Rightarrow> Inr t)"

definition strip_suffix :: "string \<Rightarrow> string \<Rightarrow> string option" where
  "strip_suffix suf s = (if length suf \<le> length s \<and> drop (length s - length suf) s = suf
     then Some (take (length s - length suf) s) else None)"

definition instance_from_fullname :: "string \<Rightarrow> string \<Rightarrow> string option" where
  "instance_from_fullname fullname ty_domain = (case strip_suffix (CHR ''.'' # ty_domain) fullname of
       None \<Rightarrow> None
     | Some inst \<Rightarrow> if inst = [] then None else Some inst)"

definition socket_addr_with_scope :: "ip_addr \<Rightarrow> u16 \<Rightarrow> u32 \<Rightarrow> sock_addr" where
  "socket_addr_with_scope ip port scope = (case ip of
       IpV4 _ _ _ _ \<Rightarrow> sock ip port
     | IpV6 _ \<Rightarrow> \<lparr>sa_ip = ip, sa_port = port, sa_scope = scope\<rparr>)"

definition applicable_ipv6_scope :: "u16 list \<Rightarrow> u32 \<Rightarrow> u32" where
  "applicable_ipv6_scope segs scope = (if and (segment0 segs) 0xffc0 = 0xfe80 then scope else 0)"

text \<open>\<open>mdns_sd::ScopedIp\<close>: an address and, for IPv6, the index of the interface it was seen on.\<close>

type_synonym scoped_ip = "ip_addr \<times> u32"

definition socket_addr_from_scoped :: "u16 \<Rightarrow> scoped_ip \<Rightarrow> sock_addr" where
  "socket_addr_from_scoped port ip = socket_addr_with_scope (fst ip) port
     (case fst ip of IpV6 segs \<Rightarrow> applicable_ipv6_scope segs (snd ip) | _ \<Rightarrow> 0)"

record resolved_service =
  rs_fullname :: string
  rs_ty_domain :: string
  rs_host :: string
  rs_port :: u16
  rs_addresses :: "scoped_ip list"
  rs_txt :: "(string \<times> string) list"

definition record_from_resolved :: "resolved_service \<Rightarrow> service_record option" where
  "record_from_resolved rs = map_option (\<lambda>inst.
     \<lparr>sr_is_active = True, sr_service_type = rs_ty_domain rs, sr_instance_name = inst, sr_host = Some (rs_host rs),
      sr_port = rs_port rs, sr_addrs = map (socket_addr_from_scoped (rs_port rs)) (rs_addresses rs), sr_txt = rs_txt rs\<rparr>)
     (instance_from_fullname (rs_fullname rs) (rs_ty_domain rs))"

definition raw_event_from_removed :: "string \<Rightarrow> string \<Rightarrow> raw_event option" where
  "raw_event_from_removed ty fullname = map_option (RawRemove ty) (instance_from_fullname fullname ty)"

section \<open>Commands to the daemon\<close>

datatype mdns_error = Again | DaemonShutdown | MdnsOther string

definition DAEMON_COMMAND_RETRIES :: nat where
  "DAEMON_COMMAND_RETRIES = 100"

text \<open>The answer of the daemon to the \<open>n\<close>-th call is \<open>cmd n\<close>; the second result counts the calls.\<close>

fun retry_loop :: "(nat \<Rightarrow> mdns_error + 'a) \<Rightarrow> nat \<Rightarrow> nat \<Rightarrow> (mdns_error + 'a) \<times> nat" where
  "retry_loop cmd retries n =
     (if cmd n = Inl Again \<and> retries \<noteq> 0 then retry_loop cmd (retries - 1) (Suc n) else (cmd n, Suc n))"

declare retry_loop.simps [simp del]

definition retry_daemon_command :: "(nat \<Rightarrow> mdns_error + 'a) \<Rightarrow> mdns_error + 'a" where
  "retry_daemon_command cmd = fst (retry_loop cmd DAEMON_COMMAND_RETRIES 0)"

text \<open>The commands the daemon has accepted, newest first.\<close>

datatype 'i daemon_cmd = Register 'i | Unregister | Shutdown

definition answered_shutdown :: "mdns_error + 'a \<Rightarrow> bool" where
  "answered_shutdown r \<longleftrightarrow> (case r of Inl DaemonShutdown \<Rightarrow> True | _ \<Rightarrow> False)"

definition accepted :: "'i daemon_cmd \<Rightarrow> mdns_error + unit \<Rightarrow> 'i daemon_cmd list" where
  "accepted c r = (case r of Inl _ \<Rightarrow> [] | Inr _ \<Rightarrow> [c])"

text \<open>\<open>stop_after_unregister\<close>: the result and the commands that were accepted.\<close>

definition stop_after_unregister ::
  "(nat \<Rightarrow> mdns_error + unit) \<Rightarrow> (nat \<Rightarrow> mdns_error + unit) \<Rightarrow> (mdns_error + unit) \<times> 'i daemon_cmd list" where
  "stop_after_unregister unregister shutdown =
     (let unregistered = retry_daemon_command unregister;
          asked = \<not> answered_shutdown unregistered;
          answer = retry_daemon_command shutdown;
          stopped = (if \<not> asked \<or> answered_shutdown answer then Inr () else answer)
      in (case unregistered of
            Inr _ \<Rightarrow> stopped
          | Inl DaemonShutdown \<Rightarrow> stopped
          | Inl e \<Rightarrow> Inl e,
          (if asked then accepted Shutdown answer else []) @ accepted Unregister unregistered))"

section \<open>Service information\<close>

record 'i mdns_lib =
  ml_service_info :: "string \<Rightarrow> string \<Rightarrow> string \<Rightarrow> ip_addr list \<Rightarrow> u16 \<Rightarrow> (string \<times> string) list \<Rightarrow> mdns_error + 'i"
  ml_addr_auto :: "'i \<Rightarrow> 'i"
  ml_fullname :: "'i \<Rightarrow> string"
  ml_text :: "mdns_error \<Rightarrow> string"
  ml_debug :: "string \<Rightarrow> string"

definition service_info :: "'i mdns_lib \<Rightarrow> service_config \<Rightarrow> bool \<Rightarrow> discovery_error + 'i" where
  "service_info L cfg enable_addr_auto = (case dns_service_type (ml_debug L) (sc_service_name cfg) (sc_protocol cfg) of
       Inl e \<Rightarrow> Inl e
     | Inr ty \<Rightarrow> (case ml_service_info L ty (sc_instance_name cfg) (sc_instance_name cfg @ ''.local.'')
                        (sc_addrs cfg) (sc_port cfg) (sc_txt cfg) of
           Inl e \<Rightarrow> Inl (Setup (ml_text L e))
         | Inr info \<Rightarrow> Inr (if enable_addr_auto then ml_addr_auto L info else info)))"

definition advertisement_update_of :: "service_config \<Rightarrow> advertisement_update" where
  "advertisement_update_of cfg = \<lparr>au_port = sc_port cfg, au_addrs = sc_addrs cfg, au_txt = sc_txt cfg\<rparr>"

section \<open>The wait between goodbye and announcement\<close>

definition MDNS_REANNOUNCE_DELAY :: millis where "MDNS_REANNOUNCE_DELAY = 1000"
definition MDNS_CLOSE_POLL_INTERVAL :: millis where "MDNS_CLOSE_POLL_INTERVAL = 10"

text \<open>One test of the loop: it ends when the flag is set or no time remains.\<close>

definition wait_is_over :: "bool \<Rightarrow> millis \<Rightarrow> bool" where
  "wait_is_over closing elapsed \<longleftrightarrow> closing \<or> MDNS_REANNOUNCE_DELAY - elapsed = 0"

text \<open>The loop, with the time it returns at: \<open>closing t\<close> is the flag at time \<open>t\<close>, and a sleep that starts at \<open>t\<close>
  oversleeps by \<open>late t\<close>.\<close>

function wait_for_reannounce_or_close :: "(millis \<Rightarrow> bool) \<Rightarrow> (millis \<Rightarrow> millis) \<Rightarrow> millis \<Rightarrow> millis" where
  "wait_for_reannounce_or_close closing late t =
     (if wait_is_over (closing t) t then t
      else wait_for_reannounce_or_close closing late
             (t + min (MDNS_REANNOUNCE_DELAY - t) MDNS_CLOSE_POLL_INTERVAL + late t))"
  by pat_completeness auto
termination
  by (relation "measure (\<lambda>(_, _, t). MDNS_REANNOUNCE_DELAY - t)")
    (auto simp: wait_is_over_def MDNS_REANNOUNCE_DELAY_def MDNS_CLOSE_POLL_INTERVAL_def)

declare wait_for_reannounce_or_close.simps [simp del]

section \<open>The shared state of an advertisement\<close>

text \<open>An update: before the first test of the flag, in front of the mutex, and with the mutex at the second test,
  the goodbye, the wait, the third test and the announcement.\<close>

datatype 'i mdns_update = MEnter advertisement_update | MQueued 'i | MLocked 'i | MGoodbye 'i | MWaiting 'i
  | MChecking 'i | MAnnounce 'i | MReturned "transport_error + unit"

text \<open>A call of \<open>closed\<close> is before creating its notification, has created it, or awaits it; a blocking waiter is
  before its test or parked on the condition variable.  The flag says that the waiter was notified.\<close>

datatype mdns_waiter = KStart | KCreated bool | KAwait bool | KResult "transport_error + unit"
  | KBlock | KParked bool | KReleased

record 'i mdns_adv =
  ma_closing :: bool
  ma_operation :: "nat option"
  ma_close_result :: "(transport_error + unit) option"
  ma_cleanups :: nat
  ma_log :: "'i daemon_cmd list"
  ma_down :: bool
  ma_updates :: "'i mdns_update list"
  ma_waiters :: "mdns_waiter list"

record mdns_base =
  mb_fullname :: string
  mb_base :: service_config
  mb_addr_auto :: bool

definition closed_error :: transport_error where
  "closed_error = ''advertisement is closed''"

section \<open>Updates\<close>

definition update_call :: "advertisement_update \<Rightarrow> 'i mdns_adv \<Rightarrow> 'i mdns_adv" where
  "update_call u s = s\<lparr>ma_updates := ma_updates s @ [MEnter u]\<rparr>"

definition set_update :: "nat \<Rightarrow> 'i mdns_update \<Rightarrow> 'i mdns_adv \<Rightarrow> 'i mdns_adv" where
  "set_update k u s = s\<lparr>ma_updates := (ma_updates s)[k := u]\<rparr>"

text \<open>The closure returns and its mutex guard is dropped.\<close>

definition update_finish :: "nat \<Rightarrow> transport_error + unit \<Rightarrow> 'i mdns_adv \<Rightarrow> 'i mdns_adv" where
  "update_finish k r s = (set_update k (MReturned r) s)\<lparr>ma_operation := None\<rparr>"

definition update_prepare :: "'i mdns_lib \<Rightarrow> mdns_base \<Rightarrow> advertisement_update \<Rightarrow> transport_error + 'i" where
  "update_prepare L B u =
     (let cfg = (mb_base B)\<lparr>sc_port := au_port u, sc_addrs := au_addrs u, sc_txt := au_txt u\<rparr>
      in case service_info L cfg (mb_addr_auto B) of
           Inl e \<Rightarrow> Inl (discovery_error_text e)
         | Inr info \<Rightarrow> if ml_fullname L info \<noteq> mb_fullname B
             then Inl ''cannot change an active DNS-SD advertisement identity'' else Inr info)"

definition mdns_update_enter :: "'i mdns_lib \<Rightarrow> mdns_base \<Rightarrow> nat \<Rightarrow> 'i mdns_adv \<Rightarrow> 'i mdns_adv option" where
  "mdns_update_enter L B k s = (case ma_updates s ! k of
       MEnter u \<Rightarrow> Some (set_update k
         (if ma_closing s then MReturned (Inl closed_error)
          else case update_prepare L B u of Inl e \<Rightarrow> MReturned (Inl e) | Inr info \<Rightarrow> MQueued info) s)
     | _ \<Rightarrow> None)"

definition mdns_update_lock :: "nat \<Rightarrow> 'i mdns_adv \<Rightarrow> 'i mdns_adv option" where
  "mdns_update_lock k s = (case (ma_updates s ! k, ma_operation s) of
       (MQueued info, None) \<Rightarrow> Some ((set_update k (MLocked info) s)\<lparr>ma_operation := Some k\<rparr>)
     | _ \<Rightarrow> None)"

definition mdns_update_locked :: "nat \<Rightarrow> 'i mdns_adv \<Rightarrow> 'i mdns_adv option" where
  "mdns_update_locked k s = (case ma_updates s ! k of
       MLocked info \<Rightarrow> Some (if ma_closing s then update_finish k (Inl closed_error) s else set_update k (MGoodbye info) s)
     | _ \<Rightarrow> None)"

text \<open>The first closure of \<open>replace_advertisement_transaction\<close>; \<open>goodbye\<close> is what \<open>recv_timeout\<close> returns.\<close>

definition mdns_update_unregister ::
  "'i mdns_lib \<Rightarrow> (nat \<Rightarrow> mdns_error + unit) \<Rightarrow> transport_error + unit \<Rightarrow> nat \<Rightarrow> 'i mdns_adv \<Rightarrow> 'i mdns_adv option" where
  "mdns_update_unregister L cmd goodbye k s = (case ma_updates s ! k of
       MGoodbye info \<Rightarrow>
         (let r = retry_daemon_command cmd;
              s1 = s\<lparr>ma_log := accepted Unregister r @ ma_log s, ma_down := ma_down s \<or> answered_shutdown r\<rparr>
          in Some (case r of
               Inl e \<Rightarrow> update_finish k (Inl (ml_text L e)) s1
             | Inr _ \<Rightarrow> (case goodbye of
                   Inl e \<Rightarrow> update_finish k (Inl e) s1
                 | Inr _ \<Rightarrow> set_update k (MWaiting info) s1)))
     | _ \<Rightarrow> None)"

definition mdns_update_wait :: "millis \<Rightarrow> nat \<Rightarrow> 'i mdns_adv \<Rightarrow> 'i mdns_adv option" where
  "mdns_update_wait elapsed k s = (case ma_updates s ! k of
       MWaiting info \<Rightarrow> if wait_is_over (ma_closing s) elapsed then Some (set_update k (MChecking info) s) else None
     | _ \<Rightarrow> None)"

definition mdns_update_recheck :: "nat \<Rightarrow> 'i mdns_adv \<Rightarrow> 'i mdns_adv option" where
  "mdns_update_recheck k s = (case ma_updates s ! k of
       MChecking info \<Rightarrow> Some (if ma_closing s then update_finish k (Inl closed_error) s else set_update k (MAnnounce info) s)
     | _ \<Rightarrow> None)"

definition mdns_update_register ::
  "'i mdns_lib \<Rightarrow> (nat \<Rightarrow> mdns_error + unit) \<Rightarrow> nat \<Rightarrow> 'i mdns_adv \<Rightarrow> 'i mdns_adv option" where
  "mdns_update_register L cmd k s = (case ma_updates s ! k of
       MAnnounce info \<Rightarrow>
         (let r = retry_daemon_command cmd
          in Some (update_finish k (case r of Inl e \<Rightarrow> Inl (ml_text L e) | Inr _ \<Rightarrow> Inr ())
               (s\<lparr>ma_log := accepted (Register info) r @ ma_log s, ma_down := ma_down s \<or> answered_shutdown r\<rparr>)))
     | _ \<Rightarrow> None)"

text \<open>The update with number \<open>k\<close> goes on; the arguments are what the daemon and the clock say if they are asked.\<close>

definition mdns_update_step :: "'i mdns_lib \<Rightarrow> mdns_base \<Rightarrow> (nat \<Rightarrow> mdns_error + unit) \<Rightarrow> transport_error + unit \<Rightarrow> millis
     \<Rightarrow> nat \<Rightarrow> 'i mdns_adv \<Rightarrow> 'i mdns_adv option" where
  "mdns_update_step L B cmd goodbye elapsed k s =
     (if length (ma_updates s) \<le> k then None
      else case ma_updates s ! k of
          MEnter _ \<Rightarrow> mdns_update_enter L B k s
        | MQueued _ \<Rightarrow> mdns_update_lock k s
        | MLocked _ \<Rightarrow> mdns_update_locked k s
        | MGoodbye _ \<Rightarrow> mdns_update_unregister L cmd goodbye k s
        | MWaiting _ \<Rightarrow> mdns_update_wait elapsed k s
        | MChecking _ \<Rightarrow> mdns_update_recheck k s
        | MAnnounce _ \<Rightarrow> mdns_update_register L cmd k s
        | MReturned _ \<Rightarrow> None)"

section \<open>Closing\<close>

text \<open>\<open>request_close\<close>: the first caller starts the clean-up, on a thread of its own or inline.\<close>

definition mdns_request_close :: "'i mdns_adv \<Rightarrow> 'i mdns_adv" where
  "mdns_request_close s = (if ma_closing s then s else s\<lparr>ma_closing := True, ma_cleanups := Suc (ma_cleanups s)\<rparr>)"

fun notify_waiter :: "mdns_waiter \<Rightarrow> mdns_waiter" where
  "notify_waiter (KCreated _) = KCreated True"
| "notify_waiter (KAwait _) = KAwait True"
| "notify_waiter (KParked _) = KParked True"
| "notify_waiter w = w"

text \<open>\<open>cleanup\<close> runs under the operation mutex and the state mutex to its end.\<close>

definition mdns_cleanup ::
  "'i mdns_lib \<Rightarrow> (nat \<Rightarrow> mdns_error + unit) \<Rightarrow> (nat \<Rightarrow> mdns_error + unit) \<Rightarrow> 'i mdns_adv \<Rightarrow> 'i mdns_adv option" where
  "mdns_cleanup L unregister shutdown s =
     (if ma_cleanups s = 0 \<or> ma_operation s \<noteq> None then None
      else Some (let s1 = s\<lparr>ma_cleanups := ma_cleanups s - 1\<rparr> in
        case ma_close_result s of
          Some _ \<Rightarrow> s1
        | None \<Rightarrow> (case stop_after_unregister unregister shutdown of (r, cmds) \<Rightarrow>
            s1\<lparr>ma_log := cmds @ ma_log s, ma_down := ma_down s \<or> answered_shutdown (retry_daemon_command unregister)
                 \<or> answered_shutdown (retry_daemon_command shutdown),
               ma_close_result := Some (case r of Inl e \<Rightarrow> Inl (ml_text L e) | Inr _ \<Rightarrow> Inr ()),
               ma_waiters := map notify_waiter (ma_waiters s)\<rparr>)))"

definition set_waiter :: "nat \<Rightarrow> mdns_waiter \<Rightarrow> 'i mdns_adv \<Rightarrow> 'i mdns_adv" where
  "set_waiter k w s = s\<lparr>ma_waiters := (ma_waiters s)[k := w]\<rparr>"

definition closed_call :: "'i mdns_adv \<Rightarrow> 'i mdns_adv" where
  "closed_call s = s\<lparr>ma_waiters := ma_waiters s @ [KStart]\<rparr>"

definition wait_closed_blocking_call :: "'i mdns_adv \<Rightarrow> 'i mdns_adv" where
  "wait_closed_blocking_call s = s\<lparr>ma_waiters := ma_waiters s @ [KBlock]\<rparr>"

definition mdns_waiter_step :: "nat \<Rightarrow> 'i mdns_adv \<Rightarrow> 'i mdns_adv option" where
  "mdns_waiter_step k s = (case ma_waiters s ! k of
       KStart \<Rightarrow> Some (set_waiter k (KCreated False) s)
     | KCreated b \<Rightarrow> Some (set_waiter k (case ma_close_result s of Some r \<Rightarrow> KResult r | None \<Rightarrow> KAwait b) s)
     | KAwait True \<Rightarrow> Some (set_waiter k KStart s)
     | KBlock \<Rightarrow> Some (set_waiter k (if ma_close_result s = None then KParked False else KReleased) s)
     | KParked True \<Rightarrow> Some (set_waiter k KBlock s)
     | _ \<Rightarrow> None)"

section \<open>Interleavings\<close>

text \<open>The steps that the advertisement takes by itself, and the calls from outside; a condition variable may also
  wake a waiter for no reason.\<close>

inductive mdns_internal :: "'i mdns_lib \<Rightarrow> mdns_base \<Rightarrow> 'i mdns_adv \<Rightarrow> 'i mdns_adv \<Rightarrow> bool" for L B where
  mi_update: "mdns_update_step L B cmd goodbye elapsed k s = Some s' \<Longrightarrow> mdns_internal L B s s'"
| mi_cleanup: "mdns_cleanup L unregister shutdown s = Some s' \<Longrightarrow> mdns_internal L B s s'"
| mi_waiter: "k < length (ma_waiters s) \<Longrightarrow> mdns_waiter_step k s = Some s' \<Longrightarrow> mdns_internal L B s s'"

inductive mdns_step :: "'i mdns_lib \<Rightarrow> mdns_base \<Rightarrow> 'i mdns_adv \<Rightarrow> 'i mdns_adv \<Rightarrow> bool" for L B where
  ms_internal: "mdns_internal L B s s' \<Longrightarrow> mdns_step L B s s'"
| ms_update: "mdns_step L B s (update_call u s)"
| ms_close: "mdns_step L B s (mdns_request_close s)"
| ms_closed: "mdns_step L B s (closed_call s)"
| ms_block: "mdns_step L B s (wait_closed_blocking_call s)"
| ms_spurious: "k < length (ma_waiters s) \<Longrightarrow> ma_waiters s ! k = KParked False \<Longrightarrow> mdns_step L B s (set_waiter k KBlock s)"

section \<open>Starting to advertise\<close>

text \<open>\<open>advertise_inner\<close>: \<open>daemon\<close> is the result of creating the daemon and \<open>register\<close> its answer to the first
  announcement.  A failed announcement shuts the daemon down, whatever that command answers.\<close>

definition advertise_inner ::
  "'i mdns_lib \<Rightarrow> string + unit \<Rightarrow> mdns_error + unit \<Rightarrow> service_config \<Rightarrow> bool
     \<Rightarrow> discovery_error + (mdns_base \<times> 'i mdns_adv \<times> adv_session)" where
  "advertise_inner L daemon register cfg auto = (case service_info L cfg auto of
       Inl e \<Rightarrow> Inl e
     | Inr info \<Rightarrow> (case daemon of
         Inl e \<Rightarrow> Inl (Setup e)
       | Inr _ \<Rightarrow> (case register of
           Inl e \<Rightarrow> Inl (Setup (ml_text L e))
         | Inr _ \<Rightarrow> Inr (\<lparr>mb_fullname = ml_fullname L info, mb_base = cfg, mb_addr_auto = auto\<rparr>,
             \<lparr>ma_closing = False, ma_operation = None, ma_close_result = None, ma_cleanups = 0, ma_log = [Register info],
              ma_down = False, ma_updates = [], ma_waiters = []\<rparr>,
             adv_from_parts (Some (advertisement_update_of cfg))))))"

inductive mdns_reachable :: "'i mdns_lib \<Rightarrow> mdns_base \<Rightarrow> 'i mdns_adv \<Rightarrow> bool" for L B where
  mr_start: "advertise_inner L daemon register cfg auto = Inr (B, s, a) \<Longrightarrow> mdns_reachable L B s"
| mr_step: "mdns_reachable L B s \<Longrightarrow> mdns_step L B s s' \<Longrightarrow> mdns_reachable L B s'"

section \<open>Browsing\<close>

datatype service_event = ServiceResolved resolved_service | ServiceRemoved string string | OtherServiceEvent

fun browse_event :: "service_event \<Rightarrow> raw_event option" where
  "browse_event (ServiceResolved rs) = map_option RawUpsert (record_from_resolved rs)"
| "browse_event (ServiceRemoved ty fullname) = raw_event_from_removed ty fullname"
| "browse_event OtherServiceEvent = None"

text \<open>The loop of \<open>next\<close>: what the receiver delivers, where \<open>None\<close> is a disconnected channel, with the closed flag as it is
  read after the delivery.\<close>

fun mdns_next_loop :: "(service_event option \<times> bool) list \<Rightarrow> raw_event option poll" where
  "mdns_next_loop [] = Pending"
| "mdns_next_loop ((None, _) # ds) = Ready None"
| "mdns_next_loop ((Some e, is_closed) # ds) =
     (if is_closed then Ready None
      else case browse_event e of Some ev \<Rightarrow> Ready (Some ev) | None \<Rightarrow> mdns_next_loop ds)"

definition mdns_browse_next :: "bool \<Rightarrow> (service_event option \<times> bool) list \<Rightarrow> raw_event option poll" where
  "mdns_browse_next is_closed ds = (if is_closed then Ready None else mdns_next_loop ds)"

text \<open>\<open>request_close\<close> of a browse: the flag afterwards and the results of stopping the browse and the daemon, which
  are only logged.\<close>

definition mdns_browse_request_close ::
  "(nat \<Rightarrow> mdns_error + unit) \<Rightarrow> (nat \<Rightarrow> mdns_error + unit) \<Rightarrow> bool \<Rightarrow> bool \<times> (mdns_error + unit) list" where
  "mdns_browse_request_close stop_browse shutdown is_closed =
     (True, if is_closed then [] else [retry_daemon_command stop_browse, retry_daemon_command shutdown])"

definition next_record :: "transport_error + raw_event option \<Rightarrow> service_record option" where
  "next_record r = (case r of Inr (Some e) \<Rightarrow> Some (record_of_event e) | _ \<Rightarrow> None)"

definition dns_browse :: "'i mdns_lib \<Rightarrow> string + unit \<Rightarrow> mdns_error + unit \<Rightarrow> browse_config \<Rightarrow> discovery_error + (string \<times> browse_session)" where
  "dns_browse L daemon answer cfg = (case dns_service_type (ml_debug L) (bc_service_name cfg) (bc_protocol cfg) of
       Inl e \<Rightarrow> Inl e
     | Inr ty \<Rightarrow> (case daemon of
         Inl e \<Rightarrow> Inl (Setup e)
       | Inr _ \<Rightarrow> (case answer of Inl e \<Rightarrow> Inl (Setup (ml_text L e)) | Inr _ \<Rightarrow> Inr (ty, browse_new))))"

end
