(* ===== verification/Dns_Sd_Props.thy ===== *)
theory Dns_Sd_Props
  imports Dns_Sd
begin

text \<open>
  The properties of the DNS-SD handles: instance names, the retry loop, the wait between goodbye and
  announcement, and the interleavings of updates, close requests and waiters of one advertisement.
\<close>

section \<open>Names\<close>

lemma strip_suffix_append [simp]: "strip_suffix suf (s @ suf) = Some s"
  by (simp add: strip_suffix_def)

lemma strip_suffix_Some: "strip_suffix suf s = Some p \<longleftrightarrow> s = p @ suf"
proof
  assume "strip_suffix suf s = Some p"
  then have "drop (length s - length suf) s = suf" "p = take (length s - length suf) s"
    by (auto simp: strip_suffix_def split: if_splits)
  then show "s = p @ suf" by (metis append_take_drop_id)
qed simp

lemma instance_from_fullname_Some:
  "instance_from_fullname f ty = Some i \<longleftrightarrow> i \<noteq> [] \<and> f = i @ CHR ''.'' # ty"
  using strip_suffix_Some [of "CHR ''.'' # ty" f]
  by (cases "strip_suffix (CHR ''.'' # ty) f") (auto simp: instance_from_fullname_def)

section \<open>Retries and waits\<close>

lemma retry_loop_calls: "snd (retry_loop cmd r n) \<le> n + r + 1"
  by (induction cmd r n rule: retry_loop.induct) (subst retry_loop.simps, auto)

lemma retry_loop_Again:
  "fst (retry_loop cmd r n) = Inl Again \<longleftrightarrow> (\<forall>i < Suc r. cmd (n + i) = Inl Again)"
proof (induction cmd r n rule: retry_loop.induct)
  case (1 cmd r n)
  show ?case
  proof (cases "cmd n = Inl Again \<and> r \<noteq> 0")
    case True
    then obtain r' where r: "r = Suc r'" by (cases r) auto
    show ?thesis using 1 [OF True] True r
      by (subst retry_loop.simps) (simp add: All_less_Suc2 [of "Suc r'"])
  next
    case False
    then show ?thesis by (subst retry_loop.simps) (auto simp: All_less_Suc2)
  qed
qed

text \<open>The wait ends only on the flag or after the whole delay, and promptly once the flag is set.\<close>

lemma wait_returns:
  "t' = wait_for_reannounce_or_close closing late t \<Longrightarrow> closing t' \<or> MDNS_REANNOUNCE_DELAY \<le> t'"
proof (induction closing late t arbitrary: t' rule: wait_for_reannounce_or_close.induct)
  case (1 closing late t)
  show ?case
  proof (cases "wait_is_over (closing t) t")
    case True
    then have "t' = t" using 1(2) by (subst (asm) wait_for_reannounce_or_close.simps) simp
    then show ?thesis using True by (auto simp: wait_is_over_def)
  next
    case False
    show ?thesis by (rule 1(1) [OF False]) (use 1(2) False in \<open>subst (asm) wait_for_reannounce_or_close.simps, simp\<close>)
  qed
qed

lemma wait_is_prompt:
  assumes "\<And>u. c \<le> u \<Longrightarrow> closing u" and "\<And>u. late u \<le> d" and "t \<le> c"
  shows "wait_for_reannounce_or_close closing late t \<le> c + MDNS_CLOSE_POLL_INTERVAL + d"
  using assms
proof (induction closing late t rule: wait_for_reannounce_or_close.induct)
  case (1 closing late t)
  define u where "u = t + min (MDNS_REANNOUNCE_DELAY - t) MDNS_CLOSE_POLL_INTERVAL + late t"
  have u: "u \<le> c + MDNS_CLOSE_POLL_INTERVAL + d" using 1(3) [of t] 1(4) unfolding u_def by linarith
  show ?case
  proof (cases "wait_is_over (closing t) t")
    case True
    then show ?thesis using 1(4) by (subst wait_for_reannounce_or_close.simps) simp
  next
    case False
    have "wait_for_reannounce_or_close closing late u \<le> c + MDNS_CLOSE_POLL_INTERVAL + d"
    proof (cases "u \<le> c")
      case True
      then show ?thesis using 1(1) [OF False 1(2,3)] unfolding u_def by simp
    next
      case False
      then have "wait_is_over (closing u) u" using 1(2) [of u] by (simp add: wait_is_over_def)
      then show ?thesis using u by (subst wait_for_reannounce_or_close.simps) simp
    qed
    then show ?thesis using False by (subst wait_for_reannounce_or_close.simps) (simp add: u_def)
  qed
qed

section \<open>The invariant of an advertisement\<close>

fun holds_operation :: "'i mdns_update \<Rightarrow> bool" where
  "holds_operation (MEnter _) = False"
| "holds_operation (MQueued _) = False"
| "holds_operation (MReturned _) = False"
| "holds_operation _ = True"

fun past_check :: "'i mdns_update \<Rightarrow> bool" where
  "past_check (MLocked _) = False"
| "past_check u = holds_operation u"

text \<open>Whether the newest announcement or goodbye the daemon accepted is an announcement.\<close>

fun advertised :: "'i daemon_cmd list \<Rightarrow> bool" where
  "advertised [] = False"
| "advertised (Register _ # _) = True"
| "advertised (Unregister # _) = False"
| "advertised (Shutdown # l) = advertised l"

fun waiter_ok :: "(transport_error + unit) option \<Rightarrow> mdns_waiter \<Rightarrow> bool" where
  "waiter_ok res (KCreated b) = (b \<longrightarrow> res \<noteq> None)"
| "waiter_ok res (KAwait b) = (b = (res \<noteq> None))"
| "waiter_ok res (KParked b) = (b = (res \<noteq> None))"
| "waiter_ok res (KResult r) = (res = Some r)"
| "waiter_ok res KReleased = (res \<noteq> None)"
| "waiter_ok res _ = True"

definition lock_ok :: "'i mdns_adv \<Rightarrow> bool" where
  "lock_ok s \<longleftrightarrow> (\<forall>k < length (ma_updates s). holds_operation (ma_updates s ! k) \<longleftrightarrow> ma_operation s = Some k)"

definition close_ok :: "'i mdns_adv \<Rightarrow> bool" where
  "close_ok s \<longleftrightarrow> ma_cleanups s = (if ma_closing s \<and> ma_close_result s = None then 1 else 0)
     \<and> (ma_close_result s \<noteq> None \<longrightarrow> ma_closing s \<and> (\<forall>u \<in> set (ma_updates s). \<not> past_check u))
     \<and> (ma_close_result s = Some (Inr ()) \<longrightarrow> \<not> advertised (ma_log s) \<or> ma_down s)
     \<and> (\<forall>w \<in> set (ma_waiters s). waiter_ok (ma_close_result s) w)
     \<and> (ma_operation s \<noteq> None \<longrightarrow> the (ma_operation s) < length (ma_updates s))"

lemmas mdns_update_defs = mdns_update_enter_def mdns_update_lock_def mdns_update_locked_def mdns_update_unregister_def
  mdns_update_wait_def mdns_update_recheck_def mdns_update_register_def update_finish_def set_update_def

lemma update_step_bound: "mdns_update_step L B cmd g t k s = Some s' \<Longrightarrow> k < length (ma_updates s)"
  by (auto simp: mdns_update_step_def split: if_splits)

text \<open>What a step of an update does, whichever it is.\<close>

lemma update_step_frame:
  assumes "mdns_update_step L B cmd g t k s = Some s'"
  obtains u where "ma_updates s' = (ma_updates s)[k := u]" "ma_closing s' = ma_closing s"
    "ma_close_result s' = ma_close_result s" "ma_cleanups s' = ma_cleanups s" "ma_waiters s' = ma_waiters s"
    "ma_down s \<longrightarrow> ma_down s'"
    "holds_operation u \<longrightarrow> ma_operation s' = (if holds_operation (ma_updates s ! k) then ma_operation s else Some k)
       \<and> (holds_operation (ma_updates s ! k) \<or> ma_operation s = None)"
    "\<not> holds_operation u \<longrightarrow> ma_operation s' = (if holds_operation (ma_updates s ! k) then None else ma_operation s)"
    "past_check u \<longrightarrow> past_check (ma_updates s ! k) \<or> \<not> ma_closing s"
    "past_check (ma_updates s ! k) \<or> ma_log s' = ma_log s"
    "u = MReturned (Inr ()) \<longrightarrow> past_check (ma_updates s ! k)"
proof -
  have "\<exists>u. ma_updates s' = (ma_updates s)[k := u] \<and> ma_closing s' = ma_closing s
    \<and> ma_close_result s' = ma_close_result s \<and> ma_cleanups s' = ma_cleanups s \<and> ma_waiters s' = ma_waiters s
    \<and> (ma_down s \<longrightarrow> ma_down s')
    \<and> (holds_operation u \<longrightarrow> ma_operation s' = (if holds_operation (ma_updates s ! k) then ma_operation s else Some k)
       \<and> (holds_operation (ma_updates s ! k) \<or> ma_operation s = None))
    \<and> (\<not> holds_operation u \<longrightarrow> ma_operation s' = (if holds_operation (ma_updates s ! k) then None else ma_operation s))
    \<and> (past_check u \<longrightarrow> past_check (ma_updates s ! k) \<or> \<not> ma_closing s)
    \<and> (past_check (ma_updates s ! k) \<or> ma_log s' = ma_log s)
    \<and> (u = MReturned (Inr ()) \<longrightarrow> past_check (ma_updates s ! k))"
    using assms update_step_bound [OF assms]
    by (intro exI [of _ "ma_updates s' ! k"], cases "ma_updates s ! k")
      (auto simp: mdns_update_step_def mdns_update_defs Let_def split: if_splits option.splits sum.splits)
  then show ?thesis using that by blast
qed

lemma update_step_lock:
  assumes st: "mdns_update_step L B cmd g t k s = Some s'" and ok: "lock_ok s"
  shows "lock_ok s'"
proof -
  note k = update_step_bound [OF st]
  have own: "holds_operation (ma_updates s ! k) \<longleftrightarrow> ma_operation s = Some k" using ok k by (simp add: lock_ok_def)
  show ?thesis
  proof (rule update_step_frame [OF st])
    fix u
    assume u: "ma_updates s' = (ma_updates s)[k := u]"
      and op: "holds_operation u \<longrightarrow> ma_operation s' = (if holds_operation (ma_updates s ! k) then ma_operation s else Some k)
         \<and> (holds_operation (ma_updates s ! k) \<or> ma_operation s = None)"
        "\<not> holds_operation u \<longrightarrow> ma_operation s' = (if holds_operation (ma_updates s ! k) then None else ma_operation s)"
    have "holds_operation (ma_updates s' ! j) \<longleftrightarrow> ma_operation s' = Some j" if "j < length (ma_updates s)" for j
    proof -
      have "holds_operation (ma_updates s ! j) \<longleftrightarrow> ma_operation s = Some j" using ok that by (simp add: lock_ok_def)
      then show ?thesis using own op u k by (cases "j = k"; cases "holds_operation u") (auto split: if_splits)
    qed
    then show "lock_ok s'" using u by (simp add: lock_ok_def)
  qed
qed

lemma update_step_close:
  assumes st: "mdns_update_step L B cmd g t k s = Some s'" and ok: "close_ok s" and lock: "lock_ok s"
  shows "close_ok s'"
proof (rule update_step_frame [OF st])
  note k = update_step_bound [OF st]
  fix u
  assume u: "ma_updates s' = (ma_updates s)[k := u]" and same: "ma_closing s' = ma_closing s"
    "ma_close_result s' = ma_close_result s" "ma_cleanups s' = ma_cleanups s" "ma_waiters s' = ma_waiters s"
    and down: "ma_down s \<longrightarrow> ma_down s'"
    and op: "holds_operation u \<longrightarrow> ma_operation s' = (if holds_operation (ma_updates s ! k) then ma_operation s else Some k)
         \<and> (holds_operation (ma_updates s ! k) \<or> ma_operation s = None)"
        "\<not> holds_operation u \<longrightarrow> ma_operation s' = (if holds_operation (ma_updates s ! k) then None else ma_operation s)"
    and past: "past_check u \<longrightarrow> past_check (ma_updates s ! k) \<or> \<not> ma_closing s"
    and log: "past_check (ma_updates s ! k) \<or> ma_log s' = ma_log s"
  have old: "\<not> past_check (ma_updates s ! k) \<and> ma_closing s" if "ma_close_result s \<noteq> None"
    using ok that k by (auto simp: close_ok_def)
  then have "\<forall>v \<in> set (ma_updates s'). \<not> past_check v" if "ma_close_result s \<noteq> None"
    using ok that past u set_update_subset_insert [of "ma_updates s" k u] by (auto simp: close_ok_def)
  moreover have "ma_operation s' \<noteq> None \<longrightarrow> the (ma_operation s') < length (ma_updates s')"
    using ok op u k by (cases "holds_operation u") (auto simp: close_ok_def split: if_splits)
  ultimately show "close_ok s'" using ok old down log unfolding close_ok_def same by auto
qed

lemma mdns_cleanup_frame:
  assumes "mdns_cleanup L unreg shut s = Some s'" and "close_ok s"
  shows "ma_operation s = None \<and> ma_closing s \<and> ma_close_result s = None \<and> ma_cleanups s' = 0 \<and> ma_operation s' = None
    \<and> ma_updates s' = ma_updates s \<and> ma_closing s' \<and> ma_waiters s' = map notify_waiter (ma_waiters s)
    \<and> (\<exists>r. ma_close_result s' = Some r \<and> (r = Inr () \<longrightarrow> \<not> advertised (ma_log s') \<or> ma_down s'))"
  using assms
  by (auto simp: mdns_cleanup_def close_ok_def stop_after_unregister_def accepted_def answered_shutdown_def Let_def
      split: if_splits option.splits sum.splits mdns_error.splits)

lemma notify_waiter_ok: "waiter_ok None w \<Longrightarrow> waiter_ok (Some r) (notify_waiter w)"
  by (cases w) auto

lemma holder_past: "past_check u \<Longrightarrow> holds_operation u"
  by (cases u) auto

lemma cleanup_close:
  assumes st: "mdns_cleanup L unreg shut s = Some s'" and ok: "close_ok s" and lock: "lock_ok s"
  shows "close_ok s'"
proof -
  have "\<not> past_check v" if "v \<in> set (ma_updates s)" for v
    using that lock mdns_cleanup_frame [OF st ok] holder_past [of v] by (auto simp: lock_ok_def in_set_conv_nth)
  moreover have "\<forall>w \<in> set (ma_waiters s). waiter_ok None w" using ok mdns_cleanup_frame [OF st ok] by (auto simp: close_ok_def)
  ultimately show ?thesis using mdns_cleanup_frame [OF st ok] by (auto simp: close_ok_def notify_waiter_ok)
qed

lemma waiter_frame:
  assumes "mdns_waiter_step k s = Some s'"
  obtains w where "s' = set_waiter k w s" "waiter_ok (ma_close_result s) (ma_waiters s ! k) \<longrightarrow> waiter_ok (ma_close_result s) w"
proof -
  have "\<exists>w. s' = set_waiter k w s \<and> (waiter_ok (ma_close_result s) (ma_waiters s ! k) \<longrightarrow> waiter_ok (ma_close_result s) w)"
    using assms by (cases "ma_waiters s ! k") (auto simp: mdns_waiter_step_def split: bool.splits option.splits)
  then show ?thesis using that by blast
qed

lemma set_waiter_close:
  "close_ok s \<Longrightarrow> waiter_ok (ma_close_result s) w \<Longrightarrow> close_ok (set_waiter k w s)"
  using set_update_subset_insert [of "ma_waiters s" k w] by (auto simp: close_ok_def set_waiter_def)

lemma set_waiter_lock [simp]: "lock_ok (set_waiter k w s) = lock_ok s"
  by (simp add: lock_ok_def set_waiter_def)

definition mdns_ok :: "'i mdns_adv \<Rightarrow> bool" where
  "mdns_ok s \<longleftrightarrow> lock_ok s \<and> close_ok s"

lemma set_waiter_ok:
  "mdns_ok s \<Longrightarrow> waiter_ok (ma_close_result s) w \<Longrightarrow> mdns_ok (set_waiter k w s)"
  by (simp add: mdns_ok_def set_waiter_close)

lemma waiter_step_ok:
  assumes "mdns_waiter_step k s = Some s'" and "mdns_ok s" and "k < length (ma_waiters s)"
  shows "mdns_ok s'"
proof -
  have w: "waiter_ok (ma_close_result s) (ma_waiters s ! k)"
    using assms(2,3) unfolding mdns_ok_def close_ok_def by simp
  show ?thesis
    by (rule waiter_frame [OF assms(1)]) (use w assms(2) in \<open>simp add: set_waiter_ok\<close>)
qed

lemma cleanup_ok: "mdns_cleanup L unreg shut s = Some s' \<Longrightarrow> mdns_ok s \<Longrightarrow> mdns_ok s'"
  using mdns_cleanup_frame [of L unreg shut s s'] cleanup_close [of L unreg shut s s'] by (simp add: mdns_ok_def lock_ok_def)

lemma update_step_ok: "mdns_update_step L B cmd g t k s = Some s' \<Longrightarrow> mdns_ok s \<Longrightarrow> mdns_ok s'"
  unfolding mdns_ok_def using update_step_lock update_step_close by blast

lemma internal_ok: "mdns_internal L B s s' \<Longrightarrow> mdns_ok s \<Longrightarrow> mdns_ok s'"
  by (erule mdns_internal.cases) (simp_all add: update_step_ok cleanup_ok waiter_step_ok)

lemma update_call_ok: "mdns_ok s \<Longrightarrow> mdns_ok (update_call u s)"
proof -
  assume ok: "mdns_ok s"
  then have "ma_operation s \<noteq> Some (length (ma_updates s))" by (auto simp: mdns_ok_def close_ok_def)
  then have "lock_ok (update_call u s)"
    using ok by (auto simp: mdns_ok_def lock_ok_def update_call_def nth_append less_Suc_eq)
  moreover have "close_ok (update_call u s)" using ok by (auto simp: mdns_ok_def close_ok_def update_call_def)
  ultimately show ?thesis by (simp add: mdns_ok_def)
qed

lemma request_close_ok: "mdns_ok s \<Longrightarrow> mdns_ok (mdns_request_close s)"
  by (auto simp: mdns_ok_def lock_ok_def close_ok_def mdns_request_close_def)

lemma waiter_call_ok: "mdns_ok s \<Longrightarrow> mdns_ok (closed_call s) \<and> mdns_ok (wait_closed_blocking_call s)"
  by (simp add: mdns_ok_def lock_ok_def close_ok_def closed_call_def wait_closed_blocking_call_def)

lemma mdns_step_ok: "mdns_step L B s s' \<Longrightarrow> mdns_ok s \<Longrightarrow> mdns_ok s'"
  by (erule mdns_step.cases) (simp_all add: internal_ok update_call_ok request_close_ok waiter_call_ok set_waiter_ok)

lemma advertise_start_ok: "advertise_inner L daemon register cfg auto = Inr (B, s, a) \<Longrightarrow> mdns_ok s"
  by (auto simp: advertise_inner_def mdns_ok_def lock_ok_def close_ok_def split: sum.splits)

lemma mdns_reachable_ok: "mdns_reachable L B s \<Longrightarrow> mdns_ok s"
  by (induction rule: mdns_reachable.induct) (simp_all add: advertise_start_ok mdns_step_ok)

section \<open>After the close result\<close>

definition succeeded :: "'i mdns_adv \<Rightarrow> nat set" where
  "succeeded s = {k. k < length (ma_updates s) \<and> ma_updates s ! k = MReturned (Inr ())}"

text \<open>What a step keeps once the close result is published.\<close>

definition frozen :: "'i mdns_adv \<Rightarrow> 'i mdns_adv \<Rightarrow> bool" where
  "frozen s s' \<longleftrightarrow> ma_close_result s' = ma_close_result s \<and> ma_log s' = ma_log s \<and> succeeded s' \<subseteq> succeeded s"

lemma frozen_refl: "frozen s s"
  by (simp add: frozen_def)

lemma frozen_trans: "frozen s s1 \<Longrightarrow> frozen s1 s2 \<Longrightarrow> frozen s s2"
  by (auto simp: frozen_def)

lemma update_step_frozen:
  assumes st: "mdns_update_step L B cmd g t k s = Some s'" and ok: "mdns_ok s" and res: "ma_close_result s \<noteq> None"
  shows "frozen s s'"
proof (rule update_step_frame [OF st])
  fix u
  assume u: "ma_updates s' = (ma_updates s)[k := u]" and same: "ma_close_result s' = ma_close_result s"
    and log: "past_check (ma_updates s ! k) \<or> ma_log s' = ma_log s"
    and new: "u = MReturned (Inr ()) \<longrightarrow> past_check (ma_updates s ! k)"
  have "\<not> past_check (ma_updates s ! k)"
    using ok res update_step_bound [OF st] by (simp add: mdns_ok_def close_ok_def)
  then have keep: "ma_close_result s' = ma_close_result s" "ma_log s' = ma_log s" "u \<noteq> MReturned (Inr ())"
    using same log new by auto
  have "j \<in> succeeded s" if "j \<in> succeeded s'" for j
    using that keep(3) u by (cases "j = k") (auto simp: succeeded_def)
  then show "frozen s s'" using keep(1,2) by (auto simp: frozen_def)
qed

lemma waiter_step_frozen: "mdns_waiter_step k s = Some s' \<Longrightarrow> frozen s s'"
  by (erule waiter_frame) (simp add: frozen_def succeeded_def set_waiter_def)

lemma mdns_step_frozen:
  assumes "mdns_step L B s s'" and ok: "mdns_ok s" and res: "ma_close_result s \<noteq> None"
  shows "frozen s s'"
  using assms(1)
proof (cases rule: mdns_step.cases)
  case ms_internal
  then show ?thesis
  proof (cases rule: mdns_internal.cases)
    case (mi_cleanup unreg shut)
    then show ?thesis using mdns_cleanup_frame [OF mi_cleanup] ok res by (simp add: mdns_ok_def)
  qed (simp_all add: update_step_frozen [OF _ ok res] waiter_step_frozen)
qed (auto simp: frozen_def succeeded_def update_call_def mdns_request_close_def closed_call_def wait_closed_blocking_call_def
    set_waiter_def nth_append)

lemma mdns_run_frozen:
  assumes "(mdns_step L B)\<^sup>*\<^sup>* s s'" and "mdns_ok s" and "ma_close_result s \<noteq> None"
  shows "frozen s s' \<and> mdns_ok s'"
  using assms
proof (induction rule: rtranclp_induct)
  case base
  then show ?case by (simp add: frozen_refl)
next
  case (step s1 s2)
  then have "ma_close_result s1 \<noteq> None" by (auto simp: frozen_def)
  then show ?case using step mdns_step_frozen [OF step(2)] mdns_step_ok [OF step(2)] frozen_trans by blast
qed

section \<open>Progress of a close request\<close>

fun update_rank :: "'i mdns_update \<Rightarrow> nat" where
  "update_rank (MEnter _) = 7"
| "update_rank (MQueued _) = 6"
| "update_rank (MLocked _) = 5"
| "update_rank (MGoodbye _) = 4"
| "update_rank (MWaiting _) = 3"
| "update_rank (MChecking _) = 2"
| "update_rank (MAnnounce _) = 1"
| "update_rank (MReturned _) = 0"

fun waiter_rank :: "mdns_waiter \<Rightarrow> nat" where
  "waiter_rank (KCreated b) = (if b then 5 else 2)"
| "waiter_rank (KAwait b) = (if b then 4 else 0)"
| "waiter_rank KStart = 3"
| "waiter_rank (KParked b) = (if b then 2 else 0)"
| "waiter_rank KBlock = 1"
| "waiter_rank _ = 0"

text \<open>An upper bound of the steps the advertisement can still take by itself.\<close>

definition mdns_budget :: "'i mdns_adv \<Rightarrow> nat" where
  "mdns_budget s = ma_cleanups s * (1 + 5 * length (ma_waiters s))
     + sum_list (map update_rank (ma_updates s)) + sum_list (map waiter_rank (ma_waiters s))"

lemma sum_list_update_less:
  assumes "k < length xs" and "f y < f (xs ! k)"
  shows "sum_list (map f (xs[k := y])) < (sum_list (map f xs) :: nat)"
  using assms
proof (induction xs arbitrary: k)
  case (Cons x xs)
  then show ?case by (cases k) auto
qed simp

lemma notified_rank: "sum_list (map waiter_rank (map notify_waiter ws)) \<le> 5 * length ws"
proof (induction ws)
  case (Cons w ws)
  have "waiter_rank (notify_waiter w) \<le> 5" by (cases w) auto
  then show ?case using Cons by simp
qed simp

lemma update_step_rank:
  assumes "mdns_update_step L B cmd g t k s = Some s'"
  shows "update_rank (ma_updates s' ! k) < update_rank (ma_updates s ! k)"
proof -
  note k = update_step_bound [OF assms]
  show ?thesis
  proof (cases "ma_updates s ! k")
    case (MGoodbye i)
    then have "ma_updates s' ! k = MWaiting i \<or> (\<exists>r. ma_updates s' ! k = MReturned r)"
      using assms k by (auto simp: mdns_update_step_def mdns_update_defs Let_def split: sum.splits)
    then show ?thesis using MGoodbye by auto
  qed (use assms k in \<open>auto simp: mdns_update_step_def mdns_update_defs Let_def split: if_splits option.splits sum.splits\<close>)
qed

lemma waiter_step_rank:
  assumes "mdns_waiter_step k s = Some s'" and "k < length (ma_waiters s)"
  shows "waiter_rank (ma_waiters s' ! k) < waiter_rank (ma_waiters s ! k)"
  using assms by (cases "ma_waiters s ! k") (auto simp: mdns_waiter_step_def set_waiter_def split: bool.splits option.splits)

lemma cleanup_budget:
  assumes "mdns_cleanup L unreg shut s = Some s'" and "mdns_ok s"
  shows "mdns_budget s' < mdns_budget s"
proof -
  have "close_ok s" using assms(2) by (simp add: mdns_ok_def)
  note f = mdns_cleanup_frame [OF assms(1) this]
  have "ma_cleanups s = 1" using f \<open>close_ok s\<close> unfolding close_ok_def by presburger
  moreover have "ma_updates s' = ma_updates s" "ma_waiters s' = map notify_waiter (ma_waiters s)" "ma_cleanups s' = 0"
    using f by blast+
  ultimately show ?thesis using notified_rank [of "ma_waiters s"] by (simp add: mdns_budget_def)
qed

lemma internal_budget:
  assumes "mdns_internal L B s s'" and "mdns_ok s"
  shows "mdns_budget s' < mdns_budget s"
  using assms(1)
proof (cases rule: mdns_internal.cases)
  case (mi_update cmd goodbye elapsed k)
  note k = update_step_bound [OF mi_update]
  show ?thesis
  proof (rule update_step_frame [OF mi_update])
    fix u
    assume u: "ma_updates s' = (ma_updates s)[k := u]"
      and same: "ma_cleanups s' = ma_cleanups s" "ma_waiters s' = ma_waiters s"
    have "update_rank u < update_rank (ma_updates s ! k)" using update_step_rank [OF mi_update] u k by simp
    from sum_list_update_less [OF k this] show ?thesis by (simp add: mdns_budget_def u same)
  qed
next
  case (mi_cleanup unreg shut)
  then show ?thesis using cleanup_budget assms(2) by blast
next
  case (mi_waiter k)
  show ?thesis
  proof (rule waiter_frame [OF mi_waiter(2)])
    fix w
    assume w: "s' = set_waiter k w s"
    have "waiter_rank w < waiter_rank (ma_waiters s ! k)"
      using waiter_step_rank [OF mi_waiter(2,1)] w mi_waiter(1) by (simp add: set_waiter_def)
    from sum_list_update_less [OF mi_waiter(1) this] show ?thesis by (simp add: mdns_budget_def w set_waiter_def)
  qed
qed

lemma internal_run_budget:
  "(mdns_internal L B ^^ n) s s' \<Longrightarrow> mdns_ok s \<Longrightarrow> n + mdns_budget s' \<le> mdns_budget s \<and> mdns_ok s'"
proof (induction n arbitrary: s')
  case (Suc n)
  then obtain s1 where s1: "(mdns_internal L B ^^ n) s s1" "mdns_internal L B s1 s'" by auto
  then show ?case using Suc.IH [OF s1(1) Suc.prems(2)] internal_budget [OF s1(2)] internal_ok [OF s1(2)] by auto
qed simp

lemma internal_keeps_closing:
  assumes "mdns_internal L B s s'" and "ma_closing s"
  shows "ma_closing s'"
  using assms(1)
proof (cases rule: mdns_internal.cases)
  case (mi_update cmd goodbye elapsed k)
  show ?thesis by (rule update_step_frame [OF mi_update]) (simp add: assms(2))
next
  case (mi_cleanup unreg shut)
  then show ?thesis using assms(2) by (auto simp: mdns_cleanup_def Let_def split: if_splits option.splits prod.splits)
next
  case (mi_waiter k)
  show ?thesis by (rule waiter_frame [OF mi_waiter(2)]) (simp add: assms(2) set_waiter_def)
qed

lemma internal_run_closing: "(mdns_internal L B ^^ n) s s' \<Longrightarrow> ma_closing s \<Longrightarrow> ma_closing s'"
  by (induction n arbitrary: s') (auto dest: internal_keeps_closing)

text \<open>An update that has not returned can go on unless it waits for the mutex.\<close>

lemma update_enabled:
  assumes "k < length (ma_updates s)" and "\<And>r. ma_updates s ! k \<noteq> MReturned r"
    and "\<And>i. ma_updates s ! k = MQueued i \<Longrightarrow> ma_operation s = None"
  shows "\<exists>s'. mdns_internal L B s s'"
proof -
  have "\<exists>s'. mdns_update_step L B (\<lambda>_. Inr ()) (Inr ()) MDNS_REANNOUNCE_DELAY k s = Some s'"
    using assms by (cases "ma_updates s ! k") (auto simp: mdns_update_step_def mdns_update_defs wait_is_over_def Let_def)
  then show ?thesis using mi_update by blast
qed

lemma stuck_operation_free:
  assumes "mdns_ok s" and "\<nexists>s'. mdns_internal L B s s'"
  shows "ma_operation s = None"
proof (rule ccontr)
  assume "ma_operation s \<noteq> None"
  then obtain k where k: "ma_operation s = Some k" "k < length (ma_updates s)" using assms(1) by (auto simp: mdns_ok_def close_ok_def)
  then have "holds_operation (ma_updates s ! k)" using assms(1) by (simp add: mdns_ok_def lock_ok_def)
  then have "\<exists>s'. mdns_internal L B s s'" using update_enabled [OF k(2)] by (metis holds_operation.simps(2,3))
  then show False using assms(2) by blast
qed

lemma stuck_closed:
  assumes "mdns_ok s" and "\<nexists>s'. mdns_internal L B s s'" and "ma_closing s"
  shows "\<exists>r. ma_close_result s = Some r"
proof (rule ccontr)
  assume none: "\<nexists>r. ma_close_result s = Some r"
  then have "ma_cleanups s = 1" using assms(1,3) by (auto simp: mdns_ok_def close_ok_def)
  then have "\<exists>s'. mdns_cleanup L (\<lambda>_. Inr ()) (\<lambda>_. Inr ()) s = Some s'"
    using stuck_operation_free [OF assms(1,2)] by (simp add: mdns_cleanup_def)
  then show False using assms(2) mi_cleanup by blast
qed

lemma stuck_waiter:
  assumes "mdns_ok s" and "\<nexists>s'. mdns_internal L B s s'" and "ma_close_result s = Some r" and "w \<in> set (ma_waiters s)"
  shows "w = KResult r \<or> w = KReleased"
proof -
  obtain k where k: "k < length (ma_waiters s)" "w = ma_waiters s ! k" using assms(4) by (auto simp: in_set_conv_nth)
  have "mdns_waiter_step k s = None" using assms(2) mi_waiter [OF k(1)] by (cases "mdns_waiter_step k s") auto
  moreover have "waiter_ok (Some r) w" using assms(1,3,4) by (simp add: mdns_ok_def close_ok_def)
  ultimately show ?thesis using k(2) [symmetric] by (cases w) (auto simp: mdns_waiter_step_def split: bool.splits)
qed

lemma stuck_update:
  assumes "mdns_ok s" and "\<nexists>s'. mdns_internal L B s s'" and "u \<in> set (ma_updates s)"
  shows "\<exists>x. u = MReturned x"
proof (rule ccontr)
  assume "\<nexists>x. u = MReturned x"
  moreover obtain k where k: "k < length (ma_updates s)" "u = ma_updates s ! k" using assms(3) by (auto simp: in_set_conv_nth)
  ultimately show False using update_enabled [OF k(1), of L B] stuck_operation_free [OF assms(1,2)] assms(2) by blast
qed

section \<open>Properties\<close>

text \<open>A library for examples: the information is the full name, the port and the addresses.\<close>

definition example_mdns :: "(string \<times> u16 \<times> ip_addr list) mdns_lib" where
  "example_mdns = \<lparr>ml_service_info = \<lambda>ty inst host addrs port txt. Inr (inst @ CHR ''.'' # ty, port, addrs),
     ml_addr_auto = id, ml_fullname = fst, ml_text = (\<lambda>e. ''daemon''), ml_debug = id\<rparr>"

definition example_service :: service_config where
  "example_service = \<lparr>sc_service_name = ''app'', sc_instance_name = ''peer'', sc_port = 4433, sc_addrs = [], sc_txt = [],
     sc_protocol = Udp\<rparr>"

definition example_mdns_base :: mdns_base where
  "example_mdns_base = \<lparr>mb_fullname = ''peer._app._udp.local.'', mb_base = example_service, mb_addr_auto = False\<rparr>"

definition example_adv :: "(string \<times> u16 \<times> ip_addr list) mdns_adv" where
  "example_adv = \<lparr>ma_closing = False, ma_operation = None, ma_close_result = None, ma_cleanups = 0,
     ma_log = [Register (''peer._app._udp.local.'', 4433, [])], ma_down = False, ma_updates = [], ma_waiters = []\<rparr>"

lemma example_adv_reachable: "mdns_reachable example_mdns example_mdns_base example_adv"
proof (rule mr_start)
  show "advertise_inner example_mdns (Inr ()) (Inr ()) example_service False
      = Inr (example_mdns_base, example_adv, adv_from_parts (Some (advertisement_update_of example_service)))"
    by (simp add: advertise_inner_def service_info_def dns_service_type_def service_type_def example_mdns_def
        example_service_def is_ascii_alphanumeric_def example_mdns_base_def example_adv_def)
qed

lemma retry_ok [simp]: "retry_daemon_command (\<lambda>_. Inr x) = Inr x"
  by (simp add: retry_daemon_command_def retry_loop.simps)

definition example_closed :: "(string \<times> u16 \<times> ip_addr list) mdns_adv" where
  "example_closed = the (mdns_cleanup example_mdns (\<lambda>_. Inr ()) (\<lambda>_. Inr ()) (mdns_request_close example_adv))"

lemma example_closed_eval:
  "example_closed = example_adv\<lparr>ma_closing := True, ma_close_result := Some (Inr ()),
     ma_log := [Shutdown, Unregister, Register (''peer._app._udp.local.'', 4433, [])]\<rparr>"
  by (simp add: example_closed_def mdns_cleanup_def mdns_request_close_def example_adv_def stop_after_unregister_def
      accepted_def answered_shutdown_def Let_def)

lemma example_cleanup: "mdns_internal example_mdns example_mdns_base (mdns_request_close example_adv) example_closed"
  by (rule mi_cleanup [of _ "\<lambda>_. Inr ()" "\<lambda>_. Inr ()"])
    (simp add: example_closed_def mdns_cleanup_def mdns_request_close_def example_adv_def)

lemma example_closed_reachable: "mdns_reachable example_mdns example_mdns_base example_closed"
  by (rule mr_step [OF mr_step [OF example_adv_reachable ms_close] ms_internal [OF example_cleanup]])

text \<open>Property C32.  A closed advertisement stays withdrawn.  Updates, close requests and waiters interleave in any
  way and the daemon may answer anything.  Once the close result is published it never changes, no later
  step sends the daemon another command that it accepts, no update that was still running or starts
  later succeeds, and if the result is a success the last announcement has been withdrawn, unless the daemon said that it
  was already shut down.\<close>

theorem closed_advertisement_stays_withdrawn:
  assumes "mdns_reachable L B s" and "ma_close_result s = Some r" and "(mdns_step L B)\<^sup>*\<^sup>* s s'"
  shows "ma_close_result s' = Some r \<and> ma_log s' = ma_log s \<and> succeeded s' \<subseteq> succeeded s
    \<and> (r = Inr () \<longrightarrow> \<not> advertised (ma_log s') \<or> ma_down s')"
proof -
  have "frozen s s'" "mdns_ok s'" using mdns_run_frozen [OF assms(3) mdns_reachable_ok [OF assms(1)]] assms(2) by simp_all
  then show ?thesis using assms(2) by (auto simp: frozen_def mdns_ok_def close_ok_def)
qed

theorem closed_advertisement_stays_withdrawn_witness:
  "mdns_reachable example_mdns example_mdns_base example_closed
   \<and> ma_log (update_call (advertisement_update_of example_service) example_closed)
       = [Shutdown, Unregister, Register (''peer._app._udp.local.'', 4433, [])]"
proof -
  have st: "(mdns_step example_mdns example_mdns_base)\<^sup>*\<^sup>* example_closed
      (update_call (advertisement_update_of example_service) example_closed)"
    by (rule r_into_rtranclp [of "mdns_step example_mdns example_mdns_base", OF ms_update])
  have "ma_log (update_call (advertisement_update_of example_service) example_closed) = ma_log example_closed"
    using closed_advertisement_stays_withdrawn [OF example_closed_reachable _ st, of "Inr ()"]
    by (simp add: example_closed_eval)
  then show ?thesis using example_closed_reachable by (simp add: example_closed_eval)
qed

text \<open>Property C33.  A close request completes.  From any reachable state in which closing was requested, the
  advertisement can take only boundedly many steps by itself, with the bound read off the state, and when no
  step is left the close result is published, every call of \<open>closed\<close> has returned that result, every
  blocked waiter is released and every update has returned; no wake-up is lost and no mutex is held forever.\<close>

theorem close_request_completes:
  assumes "mdns_reachable L B s" and "ma_closing s" and "(mdns_internal L B ^^ n) s s'"
  shows "n \<le> mdns_budget s
    \<and> ((\<nexists>s''. mdns_internal L B s' s'') \<longrightarrow>
         (\<exists>r. ma_close_result s' = Some r \<and> (\<forall>w \<in> set (ma_waiters s'). w = KResult r \<or> w = KReleased)
            \<and> (\<forall>u \<in> set (ma_updates s'). \<exists>x. u = MReturned x)))"
proof -
  have ok: "n \<le> mdns_budget s" "mdns_ok s'"
    using internal_run_budget [OF assms(3) mdns_reachable_ok [OF assms(1)]] by simp_all
  have cl: "ma_closing s'" by (rule internal_run_closing [OF assms(3,2)])
  have "\<exists>r. ma_close_result s' = Some r \<and> (\<forall>w \<in> set (ma_waiters s'). w = KResult r \<or> w = KReleased)
      \<and> (\<forall>u \<in> set (ma_updates s'). \<exists>x. u = MReturned x)" if stuck: "\<nexists>s''. mdns_internal L B s' s''"
  proof -
    obtain r where r: "ma_close_result s' = Some r" using stuck_closed [OF ok(2) stuck cl] by blast
    show ?thesis using r stuck_waiter [OF ok(2) stuck r] stuck_update [OF ok(2) stuck] by simp
  qed
  then show ?thesis using ok(1) by simp
qed

theorem close_request_completes_witness:
  "\<exists>s'. (mdns_internal example_mdns example_mdns_base ^^ 1) (mdns_request_close example_adv) s'
      \<and> 1 \<le> mdns_budget (mdns_request_close example_adv)"
proof -
  have r: "mdns_reachable example_mdns example_mdns_base (mdns_request_close example_adv)"
    by (rule mr_step [OF example_adv_reachable ms_close])
  have st: "(mdns_internal example_mdns example_mdns_base ^^ 1) (mdns_request_close example_adv) example_closed"
    using example_cleanup by (simp add: eq_OO)
  have "ma_closing (mdns_request_close example_adv)" by (simp add: mdns_request_close_def)
  from close_request_completes [OF r this st] st show ?thesis by blast
qed

text \<open>Instance names survive the full name: whatever characters an instance name has, dots and
  underscores included, it is recovered from the full name that is built from it, for resolved and for removed
  services, and only the full names of that form yield an instance at all.\<close>

theorem instance_name_roundtrip:
  "(\<forall>i. i \<noteq> [] \<longrightarrow> instance_from_fullname (i @ CHR ''.'' # ty) ty = Some i)
   \<and> (\<forall>f i. instance_from_fullname f ty = Some i \<longrightarrow> f = i @ CHR ''.'' # ty)
   \<and> (\<forall>rs r. rs_ty_domain rs = ty \<and> record_from_resolved rs = Some r
        \<longrightarrow> raw_event_from_removed ty (rs_fullname rs) = Some (RawRemove (sr_service_type r) (sr_instance_name r)))"
  by (auto simp: instance_from_fullname_Some record_from_resolved_def raw_event_from_removed_def)

theorem instance_name_roundtrip_witness:
  "instance_from_fullname ''a._b._app._udp.local.'' ''_app._udp.local.'' = Some ''a._b''"
  using conjunct1 [OF instance_name_roundtrip [of "''_app._udp.local.''"], rule_format, of "''a._b''"] by simp

end
