(* ===== verification/Peer_Browse.thy ===== *)
theory Peer_Browse
  imports Discovery_Props Dns_Sd
begin

text \<open>
  The stateful part of \<^verbatim>\<open>src/crates/iroh-http-discovery/src/lib.rs\<close>: the registry of lookup providers, the peer
  browse that feeds an endpoint's lookup, and the worker that refreshes a peer advertisement.

  What the engine session delivers, what the endpoint reports and the interface inventory are arguments.  A
  browse is shared between the caller of \<open>next_event\<close>, the task that waits for the endpoint to close and the
  callback of the engine session; they interleave at every lock and every access of the closed flag.
\<close>

section \<open>Lookup providers per endpoint\<close>

text \<open>Providers are numbered; the live ones are those some endpoint still holds.\<close>

record lookup_registry =
  lr_entries :: "(nat \<times> nat) list"
  lr_live :: "nat list"
  lr_next :: nat

definition endpoint_lookup_for_key :: "nat \<Rightarrow> lookup_registry \<Rightarrow> nat \<times> lookup_registry" where
  "endpoint_lookup_for_key key reg =
     (let entries = filter (\<lambda>(_, p). p \<in> set (lr_live reg)) (lr_entries reg) in
      case map_of entries key of
        Some p \<Rightarrow> (p, reg\<lparr>lr_entries := entries\<rparr>)
      | None \<Rightarrow> (lr_next reg, \<lparr>lr_entries = al_put key (lr_next reg) entries, lr_live = lr_next reg # lr_live reg,
           lr_next = Suc (lr_next reg)\<rparr>))"

text \<open>The endpoint that holds a provider goes away.\<close>

definition endpoint_dropped :: "nat \<Rightarrow> lookup_registry \<Rightarrow> lookup_registry" where
  "endpoint_dropped p reg = reg\<lparr>lr_live := removeAll p (lr_live reg)\<rparr>"

section \<open>A peer browse\<close>

datatype close_phase = PClear | PRetire | PClean | PInner | PAbort | PDone

datatype next_phase = QTop | QPop | QPopped peer_event | QRecv | QApply service_record
  | QFirst peer_event "peer_event list" | QFailed | QDrain bool

datatype endpoint_task = TaskMissing | TaskInstalled | TaskAborted

record peer_browse =
  pb_source :: u64
  pb_closed :: bool
  pb_pending :: "peer_event list"
  pb_lookup :: lookup_state
  pb_inner_closed :: bool
  pb_task :: endpoint_task
  pb_close :: "close_phase option"
  pb_next :: "next_phase option"
  pb_delivered :: "peer_event list"
  pb_finished :: nat \<comment> \<open>calls that returned \<open>None\<close>\<close>
  pb_applied :: "peer_event list" \<comment> \<open>all events that records have caused\<close>

definition peer_browse_new :: "u64 \<Rightarrow> lookup_state \<Rightarrow> peer_browse" where
  "peer_browse_new sid st = \<lparr>pb_source = sid, pb_closed = False, pb_pending = [], pb_lookup = st, pb_inner_closed = False,
     pb_task = TaskMissing, pb_close = None, pb_next = None, pb_delivered = [], pb_finished = 0, pb_applied = []\<rparr>"

definition install_endpoint_task :: "peer_browse \<Rightarrow> peer_browse" where
  "install_endpoint_task s = s\<lparr>pb_task := (if pb_closed s then TaskAborted else TaskInstalled)\<rparr>"

subsection \<open>Closing\<close>

text \<open>\<open>close\<close>: only the first caller passes the swap and goes through the phases.\<close>

definition close_swap :: "peer_browse \<Rightarrow> peer_browse" where
  "close_swap s = (if pb_closed s then s else s\<lparr>pb_closed := True, pb_close := Some PClear\<rparr>)"

definition close_phase_step :: "lookup_lib \<Rightarrow> peer_browse \<Rightarrow> peer_browse option" where
  "close_phase_step K s = (case pb_close s of
       Some PClear \<Rightarrow> Some (s\<lparr>pb_pending := [], pb_close := Some PRetire\<rparr>)
     | Some PRetire \<Rightarrow> Some (s\<lparr>pb_lookup := retire_flag (pb_source s) (pb_lookup s), pb_close := Some PClean\<rparr>)
     | Some PClean \<Rightarrow> Some (s\<lparr>pb_lookup := retire_clean K (pb_source s) (pb_lookup s), pb_close := Some PInner\<rparr>)
     | Some PInner \<Rightarrow> Some (s\<lparr>pb_inner_closed := True, pb_close := Some PAbort\<rparr>)
     | Some PAbort \<Rightarrow> Some (s\<lparr>pb_task := (if pb_task s = TaskInstalled then TaskAborted else pb_task s), pb_close := Some PDone\<rparr>)
     | _ \<Rightarrow> None)"

text \<open>The whole call, when nobody else acts in between.\<close>

definition peer_browse_close :: "lookup_lib \<Rightarrow> peer_browse \<Rightarrow> peer_browse" where
  "peer_browse_close K s = (if pb_closed s then s
     else s\<lparr>pb_closed := True, pb_pending := [], pb_inner_closed := True, pb_close := Some PDone,
            pb_lookup := retire_clean K (pb_source s) (retire_flag (pb_source s) (pb_lookup s)),
            pb_task := (if pb_task s = TaskInstalled then TaskAborted else pb_task s)\<rparr>)"

subsection \<open>The next event\<close>

definition next_return :: "peer_event option \<Rightarrow> peer_browse \<Rightarrow> peer_browse" where
  "next_return r s = (case r of
       Some ev \<Rightarrow> s\<lparr>pb_next := None, pb_delivered := pb_delivered s @ [ev]\<rparr>
     | None \<Rightarrow> s\<lparr>pb_next := None, pb_finished := Suc (pb_finished s)\<rparr>)"

text \<open>The caller has taken the asynchronous mutex.\<close>

definition next_event_enter :: "peer_browse \<Rightarrow> peer_browse option" where
  "next_event_enter s = (if pb_next s = None then Some (s\<lparr>pb_next := Some QTop\<rparr>) else None)"

text \<open>One step of \<open>next_event\<close>; \<open>received\<close> is what the engine session returns if it is awaited.\<close>

definition next_event_step ::
  "addr_lib \<Rightarrow> lookup_lib \<Rightarrow> transport_error + raw_event option \<Rightarrow> peer_browse \<Rightarrow> peer_browse option" where
  "next_event_step L K received s = (case pb_next s of
       None \<Rightarrow> None
     | Some QTop \<Rightarrow> Some (if pb_closed s then next_return None s else s\<lparr>pb_next := Some QPop\<rparr>)
     | Some QPop \<Rightarrow> Some (case pb_pending s of
           [] \<Rightarrow> s\<lparr>pb_next := Some QRecv\<rparr>
         | ev # rest \<Rightarrow> s\<lparr>pb_pending := rest, pb_next := Some (QPopped ev)\<rparr>)
     | Some (QPopped ev) \<Rightarrow> Some (next_return (if pb_closed s then None else Some ev) s)
     | Some QRecv \<Rightarrow> Some (case received of
           Inr (Some e) \<Rightarrow> s\<lparr>pb_next := Some (QApply (record_of_event e))\<rparr>
         | _ \<Rightarrow> s\<lparr>pb_next := Some QFailed\<rparr>)
     | Some (QApply r) \<Rightarrow> Some (case apply_peer_record L K (pb_source s) r (pb_lookup s) of
           ([], st) \<Rightarrow> s\<lparr>pb_lookup := st, pb_next := Some QTop\<rparr>
         | (ev # rest, st) \<Rightarrow> s\<lparr>pb_lookup := st, pb_next := Some (QFirst ev rest), pb_applied := pb_applied s @ ev # rest\<rparr>)
     | Some (QFirst ev rest) \<Rightarrow> Some (if pb_closed s then next_return None s
           else next_return (Some ev) (s\<lparr>pb_pending := pb_pending s @ rest\<rparr>))
     | Some QFailed \<Rightarrow> Some ((close_swap s)\<lparr>pb_next := Some (QDrain (\<not> pb_closed s))\<rparr>)
     | Some (QDrain won) \<Rightarrow> if won \<and> pb_close s \<noteq> Some PDone then None else Some (next_return None s))"

text \<open>The future of a caller is dropped where it is suspended.\<close>

definition next_event_cancel :: "peer_browse \<Rightarrow> peer_browse option" where
  "next_event_cancel s = (if pb_next s = Some QRecv then Some (s\<lparr>pb_next := None\<rparr>) else None)"

subsection \<open>Starting a browse\<close>

text \<open>\<open>browse_peers_with_engine\<close>: whether the endpoint is closed at the start, its lookup services, and whether it is closed at
  the end.  The result is the error or success with the browse, if one was made; the last component says
  that the engine session was closed.  \<open>None\<close> is the panic on exhausted source ids.\<close>

definition browse_peers_with_engine ::
  "lookup_lib \<Rightarrow> bool \<Rightarrow> string + lookup_state \<Rightarrow> bool \<Rightarrow> ((discovery_error + unit) \<times> peer_browse option \<times> bool) option" where
  "browse_peers_with_engine K closed_before services closed_after =
     (if closed_before then Some (Inl (Setup ''endpoint is closed''), None, True)
      else case services of
          Inl e \<Rightarrow> Some (Inl (Setup e), None, True)
        | Inr st \<Rightarrow> (case new_source st of
            None \<Rightarrow> None
          | Some (sid, st') \<Rightarrow>
              (let s = install_endpoint_task (peer_browse_new sid st') in
               if closed_after
               then (let s' = peer_browse_close K s in Some (Inl (Setup ''endpoint is closed''), Some s', pb_inner_closed s'))
               else Some (Inr (), Some s, pb_inner_closed s))))"

section \<open>Interleavings of a browse\<close>

text \<open>Other browse sessions use the same lookup under their own source.\<close>

inductive other_lookup_step :: "lookup_lib \<Rightarrow> u64 \<Rightarrow> lookup_state \<Rightarrow> lookup_state \<Rightarrow> bool" for K sid where
  ol_source: "new_source st = Some (i, st') \<Longrightarrow> other_lookup_step K sid st st'"
| ol_upsert: "i \<noteq> sid \<Longrightarrow> other_lookup_step K sid st (snd (upsert K i inst node addrs st))"
| ol_remove: "i \<noteq> sid \<Longrightarrow> other_lookup_step K sid st (snd (lookup_remove K i inst st))"
| ol_flag: "i \<noteq> sid \<Longrightarrow> other_lookup_step K sid st (retire_flag i st)"
| ol_clean: "i \<noteq> sid \<Longrightarrow> i \<in> set (cleaning st) \<Longrightarrow> other_lookup_step K sid st (retire_clean K i st)"

inductive browse_peer_step :: "addr_lib \<Rightarrow> lookup_lib \<Rightarrow> peer_browse \<Rightarrow> peer_browse \<Rightarrow> bool" for L K where
  bp_install: "pb_task s = TaskMissing \<Longrightarrow> browse_peer_step L K s (install_endpoint_task s)"
| bp_close: "browse_peer_step L K s (close_swap s)"
| bp_phase: "close_phase_step K s = Some s' \<Longrightarrow> browse_peer_step L K s s'"
| bp_enter: "next_event_enter s = Some s' \<Longrightarrow> browse_peer_step L K s s'"
| bp_next: "next_event_step L K received s = Some s' \<Longrightarrow> browse_peer_step L K s s'"
| bp_cancel: "next_event_cancel s = Some s' \<Longrightarrow> browse_peer_step L K s s'"
| bp_other: "other_lookup_step K (pb_source s) (pb_lookup s) st \<Longrightarrow> browse_peer_step L K s (s\<lparr>pb_lookup := st\<rparr>)"

inductive browse_peer_reachable :: "addr_lib \<Rightarrow> lookup_lib \<Rightarrow> peer_browse \<Rightarrow> bool" for L K where
  bp_start: "lookup_reachable K st \<Longrightarrow> new_source st = Some (sid, st') \<Longrightarrow> browse_peer_reachable L K (peer_browse_new sid st')"
| bp_more: "browse_peer_reachable L K s \<Longrightarrow> browse_peer_step L K s s' \<Longrightarrow> browse_peer_reachable L K s'"

section \<open>The refresh worker\<close>

datatype refresh_wake = WakeCancel | WakeClosed | WakeUpdated "ep_addr option" | WakeTick

datatype refresh_update = UpdateCancelled | UpdateClosed | UpdateCompleted "discovery_error + bool"

record refresh_state =
  rf_node :: ep_addr
  rf_known :: "ip_addr list"
  rf_closed :: bool
  rf_log :: "(service_config \<times> ip_addr list \<times> refresh_update) list" \<comment> \<open>what was handed to \<open>update_advertisement\<close>, newest last\<close>

text \<open>One round of the loop after its select: the inventory it reads and how the update ends, if they are asked for.  A
  result means that the function returns.\<close>

definition refresh_publish :: "service_config \<Rightarrow> ip_addr list \<Rightarrow> refresh_update \<Rightarrow> refresh_state \<Rightarrow> bool option \<times> refresh_state" where
  "refresh_publish cfg ifs u s =
     (let s1 = s\<lparr>rf_log := rf_log s @ [(cfg, ifs, u)]\<rparr> in case u of
        UpdateCancelled \<Rightarrow> (Some False, s1\<lparr>rf_closed := True\<rparr>)
      | UpdateClosed \<Rightarrow> (Some True, s1\<lparr>rf_closed := True\<rparr>)
      | UpdateCompleted (Inl _) \<Rightarrow> (Some True, s1)
      | UpdateCompleted (Inr _) \<Rightarrow> (None, s1))"

definition refresh_round :: "addr_lib \<Rightarrow> string \<Rightarrow> string \<Rightarrow> sock_addr list \<Rightarrow> discovery_error + ip_addr list \<Rightarrow> refresh_update
     \<Rightarrow> refresh_state \<Rightarrow> bool option \<times> refresh_state" where
  "refresh_round L service inst bound inventory u s = (case inventory of
       Inl _ \<Rightarrow> (None, s)
     | Inr ifs \<Rightarrow>
        (let s1 = s\<lparr>rf_known := fold push_new ifs (rf_known s)\<rparr> in
         case peer_service_config_from_reconciled_snapshot L service inst bound (rf_node s1) ifs (rf_known s1) of
           Inl _ \<Rightarrow> (None, s1)
         | Inr cfg \<Rightarrow> refresh_publish cfg ifs u s1))"

fun run_peer_advertisement_refresh :: "addr_lib \<Rightarrow> string \<Rightarrow> string \<Rightarrow> sock_addr list
     \<Rightarrow> (refresh_wake \<times> (discovery_error + ip_addr list) \<times> refresh_update) list \<Rightarrow> refresh_state \<Rightarrow> bool option \<times> refresh_state" where
  "run_peer_advertisement_refresh L service inst bound [] s = (None, s)"
| "run_peer_advertisement_refresh L service inst bound ((wake, inventory, u) # rounds) s =
     (case wake of
        WakeCancel \<Rightarrow> (Some False, s)
      | WakeClosed \<Rightarrow> (Some True, s)
      | WakeUpdated None \<Rightarrow> (Some True, s)
      | _ \<Rightarrow> (case refresh_round L service inst bound inventory u
                  (case wake of WakeUpdated (Some node) \<Rightarrow> s\<lparr>rf_node := node\<rparr> | _ \<Rightarrow> s) of
                (Some r, s1) \<Rightarrow> (Some r, s1)
              | (None, s1) \<Rightarrow> run_peer_advertisement_refresh L service inst bound rounds s1))"

text \<open>\<open>spawn_refresh_worker\<close> with the finalizer of \<open>advertise_peer\<close>: a terminal end closes the engine session.\<close>

definition refresh_worker :: "bool option \<times> refresh_state \<Rightarrow> refresh_state" where
  "refresh_worker rs = (case rs of (r, s) \<Rightarrow> if r = Some True then s\<lparr>rf_closed := True\<rparr> else s)"

text \<open>\<open>advertise_peer\<close>: the configuration that is registered first and the state the worker starts with.  The inventory is empty
  if it cannot be read; \<open>registered\<close> is the result of registering and of starting the worker, and a last
  test of the endpoint drops the new session again.\<close>

definition advertise_peer :: "addr_lib \<Rightarrow> bytes \<Rightarrow> ep_addr \<Rightarrow> string \<Rightarrow> discovery_error + ip_addr list \<Rightarrow> (service_config \<Rightarrow> discovery_error + unit)
     \<Rightarrow> bool \<Rightarrow> discovery_error + service_config \<times> refresh_state" where
  "advertise_peer L key ep service inventory registered closed_after =
     (if ep_is_closed ep then Inl (Setup ''endpoint is closed'')
      else let ifs = (case inventory of Inl _ \<Rightarrow> [] | Inr ifs \<Rightarrow> ifs) in
        case peer_service_config_from_reconciled_snapshot L service (b32_encode L key) (ep_bound ep) ep ifs ifs of
          Inl e \<Rightarrow> Inl e
        | Inr cfg \<Rightarrow> (case registered cfg of
            Inl e \<Rightarrow> Inl e
          | Inr _ \<Rightarrow> if closed_after then Inl (Setup ''endpoint is closed'')
              else Inr (cfg, \<lparr>rf_node = ep, rf_known = ifs, rf_closed = False, rf_log = []\<rparr>)))"

end
