(* ===== verification/Peer_Browse_Props.thy ===== *)
theory Peer_Browse_Props
  imports Peer_Browse
begin

text \<open>
  The properties of peer browsing and of the refresh worker: nothing of a closed browse is left, events come in the
  order of the records, providers are shared per live endpoint, and a refreshed advertisement names no
  interface that has gone away.
\<close>

section \<open>Providers\<close>

definition registry_ok :: "lookup_registry \<Rightarrow> bool" where
  "registry_ok reg \<longleftrightarrow> distinct (keys (lr_entries reg)) \<and> inj_on snd (set (lr_entries reg))
     \<and> (\<forall>(k, p) \<in> set (lr_entries reg). p < lr_next reg) \<and> (\<forall>p \<in> set (lr_live reg). p < lr_next reg)"

lemma registry_ok_filter: "registry_ok reg \<Longrightarrow> registry_ok (reg\<lparr>lr_entries := filter P (lr_entries reg)\<rparr>)"
  by (auto simp: registry_ok_def distinct_keys_filter intro: inj_on_subset)

lemma for_key_ok:
  assumes "registry_ok reg" and "endpoint_lookup_for_key key reg = (p, reg')"
  shows "registry_ok reg'"
proof -
  let ?f = "filter (\<lambda>(_, p). p \<in> set (lr_live reg)) (lr_entries reg)"
  have ok: "registry_ok (reg\<lparr>lr_entries := ?f\<rparr>)" by (rule registry_ok_filter [OF assms(1)])
  show ?thesis
  proof (cases "map_of ?f key")
    case (Some q)
    then show ?thesis using assms(2) ok by (auto simp: endpoint_lookup_for_key_def Let_def)
  next
    case None
    then have reg': "reg' = \<lparr>lr_entries = al_put key (lr_next reg) ?f, lr_live = lr_next reg # lr_live reg, lr_next = Suc (lr_next reg)\<rparr>"
      using assms(2) by (auto simp: endpoint_lookup_for_key_def Let_def)
    have "distinct (keys (al_put key (lr_next reg) ?f))" using ok by (simp add: registry_ok_def al_put_def)
    moreover have "inj_on snd (set (al_put key (lr_next reg) ?f))"
      using ok by (auto simp: registry_ok_def al_put_def set_al_del inj_on_def)
    ultimately show ?thesis using ok unfolding reg' by (auto simp: registry_ok_def al_put_def set_al_del less_SucI)
  qed
qed

text \<open>A live endpoint keeps its provider, a key whose endpoint is gone gets a new one.\<close>

lemma for_key_shared:
  assumes "registry_ok reg" and "endpoint_lookup_for_key key reg = (p, reg')"
  shows "p \<in> set (lr_live reg') \<and> (key, p) \<in> set (lr_entries reg')
    \<and> fst (endpoint_lookup_for_key key reg') = p
    \<and> (\<forall>q. (key, q) \<in> set (lr_entries reg) \<longrightarrow> (q = p \<longleftrightarrow> q \<in> set (lr_live reg)))"
proof (cases "map_of (filter (\<lambda>(_, p). p \<in> set (lr_live reg)) (lr_entries reg)) key")
  case (Some q)
  then have q: "(key, q) \<in> set (lr_entries reg)" "q \<in> set (lr_live reg)" using map_of_SomeD [OF Some] by auto
  have reg': "p = q" "reg' = reg\<lparr>lr_entries := filter (\<lambda>(_, p). p \<in> set (lr_live reg)) (lr_entries reg)\<rparr>"
    using Some assms(2) by (auto simp: endpoint_lookup_for_key_def Let_def)
  have "\<forall>q'. (key, q') \<in> set (lr_entries reg) \<longrightarrow> (q' = p \<longleftrightarrow> q' \<in> set (lr_live reg))"
    using q reg'(1) assms(1) by (metis map_of_eq_Some_iff registry_ok_def keys_def option.inject)
  moreover have "endpoint_lookup_for_key key reg' = (q, reg')"
    unfolding reg'(2) using Some by (simp add: endpoint_lookup_for_key_def Let_def)
  moreover have "p \<in> set (lr_live reg')" "(key, p) \<in> set (lr_entries reg')" using q by (simp_all add: reg')
  ultimately show ?thesis using reg'(1) by simp
next
  case None
  then have no: "(key, q) \<in> set (lr_entries reg) \<Longrightarrow> q \<notin> set (lr_live reg)" for q
    by (auto simp: map_of_eq_None_iff image_iff)
  have "(key, q) \<in> set (lr_entries reg) \<Longrightarrow> q \<noteq> lr_next reg" for q using assms(1) by (fastforce simp: registry_ok_def)
  then show ?thesis using None no assms(2) by (auto simp: endpoint_lookup_for_key_def Let_def al_put_def)
qed

section \<open>The lookup under a browse\<close>

lemma upsert_frame [simp]:
  "retired (snd (upsert K i inst node addrs st)) = retired st" "cleaning (snd (upsert K i inst node addrs st)) = cleaning st"
  by (auto simp: upsert_def remove_contribution_def Let_def split: sum.splits option.splits prod.splits)

lemma remove_frame [simp]:
  "retired (snd (remove_with_snapshot K i inst st)) = retired st" "cleaning (snd (remove_with_snapshot K i inst st)) = cleaning st"
  by (auto simp: remove_with_snapshot_def remove_contribution_def Let_def split: option.splits)

lemma retire_clean_frame [simp]:
  "retired (retire_clean K i st) = retired st" "cleaning (retire_clean K i st) = removeAll i (cleaning st)"
  by (simp_all add: retire_clean_def Let_def)

lemma apply_record_state:
  "snd (apply_peer_record L K sid r st) \<in> {st, snd (upsert K sid (sr_instance_name r)
     (pe_node_id (the (peer_event_from_record L r))) (pe_addrs (the (peer_event_from_record L r))) st),
     snd (lookup_remove K sid (sr_instance_name r) st)}"
  by (auto simp: apply_peer_record_def lookup_remove_def split: option.splits prod.splits sum.splits)

lemma apply_record_frame:
  "retired (snd (apply_peer_record L K sid r st)) = retired st" "cleaning (snd (apply_peer_record L K sid r st)) = cleaning st"
  using apply_record_state [of L K sid r st] by (auto simp: lookup_remove_def split: prod.splits)
    (metis remove_frame snd_conv)+

lemma apply_record_inv:
  assumes "lookup_inv K st"
  shows "lookup_inv K (snd (apply_peer_record L K sid r st))"
  using apply_record_state [of L K sid r st] assms lookup_step_inv [OF lk_upsert assms] lookup_step_inv [OF lk_remove assms] by auto

lemma other_step_lookup: "other_lookup_step K sid st st' \<Longrightarrow> lookup_step K st st'"
  by (erule other_lookup_step.cases) (auto intro: lookup_step.intros)

lemma other_step_frame:
  assumes "other_lookup_step K sid st st'"
  shows "(sid \<in> set (retired st') \<longleftrightarrow> sid \<in> set (retired st)) \<and> (sid \<in> set (cleaning st') \<longleftrightarrow> sid \<in> set (cleaning st))"
  using assms
proof (cases rule: other_lookup_step.cases)
  case (ol_remove i inst)
  then show ?thesis by (simp add: lookup_remove_def split: prod.splits) (metis remove_frame snd_conv)
qed (auto simp: new_source_def retire_flag_def split: if_splits)

section \<open>Invariants of a browse\<close>

fun phase_no :: "close_phase \<Rightarrow> nat" where
  "phase_no PClear = 0"
| "phase_no PRetire = 1"
| "phase_no PClean = 2"
| "phase_no PInner = 3"
| "phase_no PAbort = 4"
| "phase_no PDone = 5"

text \<open>The closing caller has reached the phase with this number.\<close>

definition past :: "nat \<Rightarrow> peer_browse \<Rightarrow> bool" where
  "past n s \<longleftrightarrow> (\<exists>p. pb_close s = Some p \<and> n \<le> phase_no p)"

definition closing_ok :: "lookup_lib \<Rightarrow> peer_browse \<Rightarrow> bool" where
  "closing_ok K s \<longleftrightarrow> lookup_inv K (pb_lookup s) \<and> (pb_closed s \<longleftrightarrow> pb_close s \<noteq> None)
     \<and> (past 1 s \<longrightarrow> pb_pending s = [])
     \<and> (past 2 s \<longrightarrow> pb_source s \<in> set (retired (pb_lookup s)))
     \<and> (past 3 s \<longrightarrow> pb_source s \<notin> set (cleaning (pb_lookup s)))
     \<and> (past 4 s \<longrightarrow> pb_inner_closed s) \<and> (past 5 s \<longrightarrow> pb_task s \<noteq> TaskInstalled)"

text \<open>The events a running call has taken and not yet returned.\<close>

fun in_hand :: "next_phase option \<Rightarrow> peer_event list" where
  "in_hand (Some (QPopped ev)) = [ev]"
| "in_hand (Some (QFirst ev rest)) = ev # rest"
| "in_hand _ = []"

fun found_empty :: "next_phase option \<Rightarrow> bool" where
  "found_empty (Some QRecv) = True"
| "found_empty (Some (QApply _)) = True"
| "found_empty (Some (QFirst _ _)) = True"
| "found_empty _ = False"

definition order_ok :: "peer_browse \<Rightarrow> bool" where
  "order_ok s \<longleftrightarrow> prefix (pb_delivered s) (pb_applied s)
     \<and> (\<not> pb_closed s \<longrightarrow> pb_delivered s @ in_hand (pb_next s) @ pb_pending s = pb_applied s)
     \<and> (found_empty (pb_next s) \<longrightarrow> pb_pending s = [])"

lemma past_None [simp]: "pb_close s = None \<Longrightarrow> \<not> past n s"
  by (simp add: past_def)

lemma past_Some [simp]: "pb_close s = Some p \<Longrightarrow> past n s = (n \<le> phase_no p)"
  by (simp add: past_def)

text \<open>A step that leaves the close phase alone and only shrinks what closing has removed.\<close>

lemma closing_frame:
  assumes "closing_ok K s" and "pb_close s' = pb_close s" "pb_closed s' = pb_closed s" "pb_source s' = pb_source s"
    "pb_inner_closed s' = pb_inner_closed s" "lookup_inv K (pb_lookup s')"
    and "pb_source s \<in> set (retired (pb_lookup s)) \<longrightarrow> pb_source s \<in> set (retired (pb_lookup s'))"
    and "pb_source s \<in> set (cleaning (pb_lookup s')) \<longrightarrow> pb_source s \<in> set (cleaning (pb_lookup s))"
    and "pb_closed s \<longrightarrow> pb_pending s = [] \<longrightarrow> pb_pending s' = []"
    and "pb_closed s \<longrightarrow> pb_task s' = TaskInstalled \<longrightarrow> pb_task s = TaskInstalled"
  shows "closing_ok K s'"
proof -
  have p: "past n s' = past n s" for n using assms(2) by (simp add: past_def)
  have c: "past n s \<Longrightarrow> pb_closed s" for n using assms(1) by (auto simp: closing_ok_def past_def)
  show ?thesis using assms(1) c assms(6-10) unfolding closing_ok_def p assms(2-5) by blast
qed

lemma apply_record_Pair:
  assumes "apply_peer_record L K sid r st = (evs, st')" and "lookup_inv K st"
  shows "retired st' = retired st \<and> cleaning st' = cleaning st \<and> lookup_inv K st'"
  using apply_record_frame [of L K sid r st] apply_record_inv [OF assms(2), of L sid r] assms(1) by simp

lemma close_swap_ok:
  assumes "closing_ok K s"
  shows "closing_ok K (close_swap s)"
  using assms by (auto simp: close_swap_def closing_ok_def past_def)

lemma next_return_frame [simp]:
  "pb_close (next_return r s) = pb_close s" "pb_closed (next_return r s) = pb_closed s"
  "pb_source (next_return r s) = pb_source s" "pb_inner_closed (next_return r s) = pb_inner_closed s"
  "pb_lookup (next_return r s) = pb_lookup s" "pb_pending (next_return r s) = pb_pending s"
  "pb_task (next_return r s) = pb_task s" "pb_next (next_return r s) = None" "pb_applied (next_return r s) = pb_applied s"
  "pb_delivered (next_return r s) = pb_delivered s @ (case r of None \<Rightarrow> [] | Some ev \<Rightarrow> [ev])"
  by (auto simp: next_return_def split: option.splits)

lemma set_next_ok: "closing_ok K s \<Longrightarrow> closing_ok K (s\<lparr>pb_next := q\<rparr>)"
  by (frule closing_frame [where s' = "s\<lparr>pb_next := q\<rparr>"]) (auto simp: closing_ok_def)

lemma next_return_ok: "closing_ok K s \<Longrightarrow> closing_ok K (next_return r s)"
  by (frule closing_frame [where s' = "next_return r s"]) (auto simp: closing_ok_def)

lemma next_step_closing:
  assumes st: "next_event_step L K received s = Some s'" and ok: "closing_ok K s"
  shows "closing_ok K s'"
proof -
  obtain q where q: "pb_next s = Some q" using st by (cases "pb_next s") (auto simp: next_event_step_def)
  have lk: "lookup_inv K (pb_lookup s)" using ok by (simp add: closing_ok_def)
  show ?thesis
  proof (cases q)
    case QPop
    then show ?thesis using st q set_next_ok [OF ok] closing_frame [OF ok, of s'] lk
      by (cases "pb_pending s") (auto simp: next_event_step_def)
  next
    case (QApply r)
    obtain evs lst where a: "apply_peer_record L K (pb_source s) r (pb_lookup s) = (evs, lst)" by fastforce
    show ?thesis
      by (rule closing_frame [OF ok]) (use st q QApply a apply_record_Pair [OF a lk] in \<open>auto simp: next_event_step_def split: list.splits\<close>)
  next
    case (QFirst ev rest)
    show ?thesis
      by (rule closing_frame [OF ok]) (use st q QFirst lk in \<open>auto simp: next_event_step_def split: if_splits\<close>)
  qed (use st q ok close_swap_ok [OF ok] in \<open>auto simp: next_event_step_def set_next_ok next_return_ok split: if_splits sum.splits option.splits\<close>)
qed

lemma phase_step_closing:
  assumes st: "close_phase_step K s = Some s'" and ok: "closing_ok K s"
  shows "closing_ok K s'"
proof -
  obtain p where p: "pb_close s = Some p" using st by (cases "pb_close s") (auto simp: close_phase_step_def)
  have lk: "lookup_inv K (pb_lookup s)" using ok by (simp add: closing_ok_def)
  have flag: "lookup_inv K (retire_flag (pb_source s) (pb_lookup s))" by (rule lookup_step_inv [OF lk_flag lk])
  have clean: "lookup_inv K (retire_clean K (pb_source s) (pb_lookup s))" by (rule retire_clean_inv [OF lk])
  show ?thesis using st p ok flag clean
    by (cases p) (auto simp: close_phase_step_def closing_ok_def retire_flag_def split: if_splits)
qed

lemma browse_step_closing:
  assumes "browse_peer_step L K s s'" and ok: "closing_ok K s"
  shows "closing_ok K s'"
  using assms(1)
proof (cases rule: browse_peer_step.cases)
  case bp_install
  show ?thesis unfolding bp_install
    by (rule closing_frame [OF ok]) (use ok in \<open>auto simp: install_endpoint_task_def closing_ok_def\<close>)
next
  case (bp_other st)
  have "lookup_inv K st" using ok lookup_step_inv [OF other_step_lookup [OF bp_other(2)]] by (simp add: closing_ok_def)
  then show ?thesis unfolding bp_other(1)
    by (intro closing_frame [OF ok]) (use other_step_frame [OF bp_other(2)] in simp_all)
next
  case bp_enter
  then show ?thesis using set_next_ok [OF ok] by (auto simp: next_event_enter_def split: if_splits)
next
  case bp_cancel
  then show ?thesis using set_next_ok [OF ok] by (auto simp: next_event_cancel_def split: if_splits)
qed (use ok in \<open>simp_all add: close_swap_ok phase_step_closing next_step_closing\<close>)

lemma prefix_snocI: "d @ x # r = a \<Longrightarrow> prefix (d @ [x]) a"
  by (rule prefixI [of _ _ r]) simp

lemma order_next:
  assumes st: "next_event_step L K received s = Some s'" and ok: "order_ok s"
  shows "order_ok s'"
proof -
  obtain q where q: "pb_next s = Some q" using st by (cases "pb_next s") (auto simp: next_event_step_def)
  show ?thesis
    using st q ok
    by (cases q) (auto simp: next_event_step_def order_ok_def close_swap_def prefix_snocI
        split: if_splits sum.splits option.splits list.splits prod.splits)
qed

lemma browse_step_order:
  assumes "browse_peer_step L K s s'" and ok: "order_ok s" and cl: "closing_ok K s"
  shows "order_ok s'"
  using assms(1)
proof (cases rule: browse_peer_step.cases)
  case bp_phase
  have "pb_closed s" if "pb_close s \<noteq> None" using cl that by (simp add: closing_ok_def)
  then show ?thesis using ok bp_phase
    by (cases "pb_close s") (auto simp: close_phase_step_def order_ok_def split: close_phase.splits)
next
  case (bp_next received)
  then show ?thesis using order_next [OF _ ok] by simp
qed (use ok in \<open>auto simp: order_ok_def install_endpoint_task_def close_swap_def next_event_enter_def next_event_cancel_def
    split: if_splits\<close>)

lemma new_browse_ok:
  assumes "lookup_reachable K st" and "norm_law K" and "new_source st = Some (sid, st')"
  shows "closing_ok K (peer_browse_new sid st') \<and> order_ok (peer_browse_new sid st')"
  using lookup_reachable_inv [OF lk_next [OF assms(1) lk_source [OF assms(3)]] assms(2)]
  by (simp add: closing_ok_def order_ok_def peer_browse_new_def)

lemma browse_reachable_ok:
  "browse_peer_reachable L K s \<Longrightarrow> norm_law K \<Longrightarrow> closing_ok K s \<and> order_ok s"
proof (induction rule: browse_peer_reachable.induct)
  case (bp_start st sid st')
  then show ?case by (intro new_browse_ok)
next
  case (bp_more s s')
  then show ?case using browse_step_closing browse_step_order by blast
qed

text \<open>The sequential close is a run of the phases, and a failed start has closed everything it made.\<close>

lemma close_is_run: "(browse_peer_step L K)\<^sup>*\<^sup>* s (peer_browse_close K s)"
proof (cases "pb_closed s")
  case True
  then show ?thesis by (simp add: peer_browse_close_def)
next
  case False
  define f where "f = (\<lambda>s. the (close_phase_step K s))"
  have ph: "browse_peer_step L K t (f t)" if "pb_close t \<noteq> None" "pb_close t \<noteq> Some PDone" for t
    by (rule bp_phase) (use that in \<open>auto simp: f_def close_phase_step_def split: close_phase.splits\<close>)
  have e: "peer_browse_close K s = f (f (f (f (f (close_swap s)))))"
    using False by (simp add: f_def close_phase_step_def close_swap_def peer_browse_close_def)
  have more: "(browse_peer_step L K)\<^sup>*\<^sup>* s (f t)"
    if "(browse_peer_step L K)\<^sup>*\<^sup>* s t" "pb_close t = Some p" "p \<noteq> PDone" for t p
    by (rule rtranclp.rtrancl_into_rtrancl [OF that(1) ph]) (use that(2,3) in auto)
  have c: "pb_close (close_swap s) = Some PClear" using False by (simp add: close_swap_def)
  then have ps: "pb_close (f (close_swap s)) = Some PRetire" "pb_close (f (f (close_swap s))) = Some PClean"
    "pb_close (f (f (f (close_swap s)))) = Some PInner" "pb_close (f (f (f (f (close_swap s))))) = Some PAbort"
    by (simp_all add: f_def close_phase_step_def)
  have "(browse_peer_step L K)\<^sup>*\<^sup>* s (close_swap s)" by (rule r_into_rtranclp [of "browse_peer_step L K", OF bp_close])
  from more [OF more [OF more [OF more [OF more [OF this c] ps(1)] ps(2)] ps(3)] ps(4)] show ?thesis by (simp add: e)
qed

lemma browse_run_reachable: "(browse_peer_step L K)\<^sup>*\<^sup>* s s' \<Longrightarrow> browse_peer_reachable L K s \<Longrightarrow> browse_peer_reachable L K s'"
  by (induction rule: rtranclp_induct) (auto intro: bp_more)

lemma started_browse_reachable:
  assumes "browse_peers_with_engine K closed_before services closed_after = Some (r, Some s, ic)"
    and "\<And>st. services = Inr st \<Longrightarrow> lookup_reachable K st"
  shows "browse_peer_reachable L K s \<and> (isl r \<longrightarrow> pb_close s = Some PDone \<and> ic)"
proof -
  obtain st sid st' where st: "services = Inr st" "new_source st = Some (sid, st')"
    and s: "s = (if closed_after then peer_browse_close K (install_endpoint_task (peer_browse_new sid st'))
      else install_endpoint_task (peer_browse_new sid st'))" "isl r \<longrightarrow> closed_after \<and> ic"
    using assms(1)
    by (auto simp: browse_peers_with_engine_def Let_def install_endpoint_task_def peer_browse_new_def peer_browse_close_def
        split: if_splits sum.splits option.splits)
  define i where "i = install_endpoint_task (peer_browse_new sid st')"
  have i: "browse_peer_reachable L K i"
    unfolding i_def by (rule bp_more [OF bp_start [OF assms(2) [OF st(1)] st(2)] bp_install]) (simp add: peer_browse_new_def)
  have "\<not> pb_closed i" by (simp add: i_def install_endpoint_task_def peer_browse_new_def)
  then have "pb_close (peer_browse_close K i) = Some PDone" by (simp add: peer_browse_close_def)
  then show ?thesis using s i browse_run_reachable [OF close_is_run i] unfolding i_def by auto
qed

lemma failed_start_closes_engine:
  "browse_peers_with_engine K closed_before services closed_after = Some (Inl e, b, ic) \<Longrightarrow> ic"
  by (auto simp: browse_peers_with_engine_def Let_def install_endpoint_task_def peer_browse_new_def peer_browse_close_def
      split: if_splits sum.splits option.splits)

section \<open>Properties of a browse\<close>

text \<open>Property C34.  A closed browse leaves nothing behind.  Whatever the caller of \<open>next_event\<close>, the callback of the
  engine, the endpoint's close task and other browses do in between, once the close call has gone
  through, no event is queued, the engine session is closed, no task waits for the endpoint, and the lookup
  holds no contribution of this browse: an endpoint resolves only to addresses that other browses contribute.\<close>

theorem closed_browse_leaves_nothing:
  assumes "browse_peer_reachable L K s" and "norm_law K" and "pb_close s = Some PDone"
  shows "pb_pending s = [] \<and> pb_inner_closed s \<and> pb_task s \<noteq> TaskInstalled
    \<and> (\<forall>k c. (k, c) \<in> set (contributions (pb_lookup s)) \<longrightarrow> fst k \<noteq> pb_source s)
    \<and> (\<forall>e d a. lookup_resolve e (pb_lookup s) = Some d \<longrightarrow> a \<in> set d \<longrightarrow>
         (\<exists>k c. (k, c) \<in> set (contributions (pb_lookup s)) \<and> fst k \<noteq> pb_source s \<and> ct_endpoint c = e \<and> a \<in> set (ct_data c)))"
proof -
  have ok: "lookup_inv K (pb_lookup s)" "pb_source s \<in> set (retired (pb_lookup s))" "pb_source s \<notin> set (cleaning (pb_lookup s))"
    "pb_pending s = []" "pb_inner_closed s" "pb_task s \<noteq> TaskInstalled"
    using browse_reachable_ok [OF assms(1,2)] assms(3) by (simp_all add: closing_ok_def)
  have none: "fst k \<noteq> pb_source s" if "(k, c) \<in> set (contributions (pb_lookup s))" for k c
    using lookup_invD(3) [OF ok(1) that] ok(2,3) by metis
  have "\<exists>k c. (k, c) \<in> set (contributions (pb_lookup s)) \<and> fst k \<noteq> pb_source s \<and> ct_endpoint c = e \<and> a \<in> set (ct_data c)"
    if "lookup_resolve e (pb_lookup s) = Some d" "a \<in> set d" for e d a
  proof -
    have "a \<in> set (addrs_where (\<lambda>_ c. ct_endpoint c = e) (pb_lookup s))"
      using that lookup_invD(1) [OF ok(1), of e] assms(2)
      by (auto simp: lookup_resolve_def entry_ok_def Let_def norm_law_def split: if_splits)
    then obtain k c where "(k, c) \<in> set (contributions (pb_lookup s))" "ct_endpoint c = e" "a \<in> set (ct_data c)"
      by (auto simp: addrs_where_def)
    then show ?thesis using none by blast
  qed
  then show ?thesis using ok none by blast
qed

definition demo_peer_browse :: peer_browse where
  "demo_peer_browse = peer_browse_close example_lookup_lib (peer_browse_new 1 (lookup_new\<lparr>next_source_id := 2\<rparr>))"

lemma demo_peer_start: "browse_peer_reachable demo_disc_lib example_lookup_lib (peer_browse_new 1 (lookup_new\<lparr>next_source_id := 2\<rparr>))"
  by (rule bp_start [OF lk_start]) (simp add: new_source_def lookup_new_def)

theorem closed_browse_leaves_nothing_witness:
  "browse_peer_reachable demo_disc_lib example_lookup_lib demo_peer_browse \<and> pb_close demo_peer_browse = Some PDone
   \<and> pb_pending demo_peer_browse = []"
proof -
  have r: "browse_peer_reachable demo_disc_lib example_lookup_lib demo_peer_browse"
    unfolding demo_peer_browse_def by (rule browse_run_reachable [OF close_is_run demo_peer_start])
  have "pb_close demo_peer_browse = Some PDone" by (simp add: demo_peer_browse_def peer_browse_close_def peer_browse_new_def)
  then show ?thesis using closed_browse_leaves_nothing [OF r example_norm_law] r by simp
qed

text \<open>Property C35.  Peer events come in order and none is lost.  The events returned by \<open>next_event\<close> are at every moment
  an initial part of the events the arriving records have caused, in the same order and without repetition, even when
  callers give up waiting; and while the browse is open and no call is running, the returned events
  followed by the queued ones are all of them.\<close>

theorem peer_events_in_order:
  assumes "browse_peer_reachable L K s" and "norm_law K"
  shows "prefix (pb_delivered s) (pb_applied s)
    \<and> (\<not> pb_closed s \<and> pb_next s = None \<longrightarrow> pb_delivered s @ pb_pending s = pb_applied s)"
  using browse_reachable_ok [OF assms] by (auto simp: order_ok_def)

definition demo_peer_event :: raw_event where
  "demo_peer_event = RawUpsert \<lparr>sr_is_active = True, sr_service_type = ''t'', sr_instance_name = ''abc'', sr_host = None, sr_port = 0,
     sr_addrs = [], sr_txt = [(TXT_RELAY, ''https://r'')]\<rparr>"

lemma demo_record_events:
  "\<exists>ev rest st. apply_peer_record demo_disc_lib example_lookup_lib 1 (record_of_event demo_peer_event) st0 = (ev # rest, st)"
  if "1 \<notin> set (retired st0)"
proof -
  have "peer_event_from_record demo_disc_lib (record_of_event demo_peer_event) = Some \<lparr>pe_is_active = True, pe_node_id = ''abc'', pe_addrs = [''https://r'']\<rparr>"
    by (simp add: peer_event_from_record_def TXT_PK_def TXT_RELAY_def TXT_ADDRESS_def demo_peer_event_def)
  then show ?thesis using that
    by (auto simp: apply_peer_record_def upsert_def Let_def demo_peer_event_def example_lookup_lib_def split: prod.splits option.splits)
qed

theorem peer_events_in_order_witness:
  "\<exists>s ev. browse_peer_reachable demo_disc_lib example_lookup_lib s \<and> pb_delivered s = [ev] \<and> prefix [ev] (pb_applied s)"
proof -
  define f where "f = (\<lambda>s. the (next_event_step demo_disc_lib example_lookup_lib (Inr (Some demo_peer_event)) s))"
  have step: "browse_peer_reachable demo_disc_lib example_lookup_lib (f s)"
    if "browse_peer_reachable demo_disc_lib example_lookup_lib s"
      "pb_next s = Some q" "\<And>b. q \<noteq> QDrain b" for s q
    by (rule bp_more [OF that(1) bp_next [where received = "Inr (Some demo_peer_event)"]]) (use that(2,3) in \<open>cases q; auto simp: f_def next_event_step_def\<close>)
  define s0 where "s0 = (peer_browse_new 1 (lookup_new\<lparr>next_source_id := 2\<rparr>))\<lparr>pb_next := Some QTop\<rparr>"
  have s0: "browse_peer_reachable demo_disc_lib example_lookup_lib s0"
    by (rule bp_more [OF demo_peer_start bp_enter]) (simp add: next_event_enter_def s0_def peer_browse_new_def)
  obtain ev rest st where a: "apply_peer_record demo_disc_lib example_lookup_lib 1 (record_of_event demo_peer_event)
      (lookup_new\<lparr>next_source_id := 2\<rparr>) = (ev # rest, st)"
    using demo_record_events [of "lookup_new\<lparr>next_source_id := 2\<rparr>"] by (auto simp: lookup_new_def)
  note ev = f_def next_event_step_def s0_def peer_browse_new_def next_return_def
  have 1: "f s0 = s0\<lparr>pb_next := Some QPop\<rparr>" by (simp add: ev)
  have 2: "f (f s0) = s0\<lparr>pb_next := Some QRecv\<rparr>" unfolding 1 by (simp add: ev)
  have 3: "f (f (f s0)) = s0\<lparr>pb_next := Some (QApply (record_of_event demo_peer_event))\<rparr>" unfolding 2 by (simp add: ev)
  have 4: "f (f (f (f s0))) = s0\<lparr>pb_lookup := st, pb_next := Some (QFirst ev rest), pb_applied := ev # rest\<rparr>"
    unfolding 3 by (simp add: ev a)
  have 5: "pb_delivered (f (f (f (f (f s0))))) = [ev]" unfolding 4 by (simp add: ev)
  have r: "browse_peer_reachable demo_disc_lib example_lookup_lib (f (f (f (f (f s0)))))"
  proof -
    have n: "pb_next s0 = Some QTop" "pb_next (f s0) = Some QPop" "pb_next (f (f s0)) = Some QRecv"
      "pb_next (f (f (f s0))) = Some (QApply (record_of_event demo_peer_event))" "pb_next (f (f (f (f s0)))) = Some (QFirst ev rest)"
      by (simp add: s0_def, subst 1, simp, subst 2, simp, subst 3, simp, subst 4, simp)
    show ?thesis by (rule step [OF step [OF step [OF step [OF step [OF s0 n(1)] n(2)] n(3)] n(4)] n(5)]) simp_all
  qed
  show ?thesis using peer_events_in_order [OF r example_norm_law] r 5 by metis
qed

section \<open>The refresh worker\<close>

lemma set_fold_push_new: "set (fold push_new xs ys) = set xs \<union> set ys"
  by (induction xs arbitrary: ys) auto

definition update_succeeded :: "refresh_update \<Rightarrow> bool" where
  "update_succeeded u \<longleftrightarrow> (\<exists>b. u = UpdateCompleted (Inr b))"

text \<open>The local addresses the worker has seen: those of the first inventory and of every later one that could be read,
  whether a configuration was published with it or not.\<close>

definition seen_locally :: "ip_addr list \<Rightarrow> (refresh_wake \<times> (discovery_error + ip_addr list) \<times> refresh_update) list \<Rightarrow> ip_addr set" where
  "seen_locally start rounds = set start \<union> (\<Union>(_, inventory, _) \<in> set rounds. case inventory of Inl _ \<Rightarrow> {} | Inr ifs \<Rightarrow> set ifs)"

text \<open>Neither the address records nor the TXT address entry of a configuration name an address that was seen and is gone.\<close>

definition names_no_stale :: "addr_lib \<Rightarrow> ip_addr set \<Rightarrow> ip_addr list \<Rightarrow> service_config \<Rightarrow> bool" where
  "names_no_stale L seen ifs cfg \<longleftrightarrow> (\<forall>ip \<in> set (sc_addrs cfg). ip \<in> seen \<longrightarrow> ip \<in> set ifs)
     \<and> (\<forall>entry. map_of (sc_txt cfg) TXT_ADDRESS = Some entry \<longrightarrow>
          (\<exists>sel. entry = join_comma (map (sock_show L) sel) \<and> (\<forall>a \<in> set sel. sa_ip a \<in> seen \<longrightarrow> sa_ip a \<in> set ifs)))"

lemma subseq_map_split: "subseq xs (map f ys) \<Longrightarrow> \<exists>zs. subseq zs ys \<and> xs = map f zs"
proof (induction ys arbitrary: xs)
  case (Cons y ys)
  show ?case
  proof (cases "subseq xs (map f ys)")
    case True
    then show ?thesis using Cons.IH by (meson list_emb_Cons)
  next
    case False
    then obtain xs' where "xs = f y # xs'" "subseq xs' (map f ys)"
      using Cons.prems by (cases xs) (auto split: if_splits)
    moreover obtain zs where "subseq zs ys" "xs' = map f zs" using Cons.IH calculation(2) by blast
    ultimately have "subseq (y # zs) (y # ys) \<and> xs = map f (y # zs)" by simp
    then show ?thesis by blast
  qed
qed auto

lemma reconciled_names_no_stale:
  assumes "peer_service_config_from_reconciled_snapshot L service inst bound node ifs known = Inr cfg" "seen \<subseteq> set known"
  shows "names_no_stale L seen ifs cfg"
proof -
  define direct where "direct = peer_direct_addresses (filter (\<lambda>a. sa_ip a \<notin> set known \<or> sa_ip a \<in> set ifs) (ep_ip_addrs node)) bound ifs"
  define fit where "fit = fit_txt_values TXT_ADDRESS (map (sock_show L) direct)"
  have entries: "map_of (sc_txt cfg) TXT_ADDRESS = fit"
    using assms(1) map_of_peer_txt(3) [of inst "ep_relays node" fit]
    unfolding peer_service_config_from_reconciled_snapshot_def Let_def direct_def [symmetric] fit_def [symmetric]
    by (auto split: option.splits)
  have live: "sa_ip a \<in> set ifs" if "a \<in> set direct" "sa_ip a \<in> seen" for a
    using peer_direct_ok [OF that(1) [unfolded direct_def]] that(2) assms(2) by auto
  have "\<exists>sel. entry = join_comma (map (sock_show L) sel) \<and> (\<forall>a \<in> set sel. sa_ip a \<in> seen \<longrightarrow> sa_ip a \<in> set ifs)"
    if s: "fit = Some entry" for entry
  proof -
    obtain vs where vs: "subseq vs (filter (\<lambda>v. v \<noteq> []) (map (sock_show L) direct))" "entry = join_comma vs"
      using fit_txt_selects [OF s [unfolded fit_def]] by blast
    obtain sel where sel: "subseq sel (filter ((\<lambda>v. v \<noteq> []) \<circ> sock_show L) direct)" "vs = map (sock_show L) sel"
      using subseq_map_split [OF vs(1) [unfolded filter_map]] by blast
    show ?thesis using subseq_members [OF sel(1)] live vs(2) sel(2) by (intro exI [of _ sel]) auto
  qed
  moreover have "\<forall>ip \<in> set (sc_addrs cfg). ip \<in> seen \<longrightarrow> ip \<in> set ifs"
    using advertised_hosts_are_served [where L = L and service = service and inst = inst and bound = bound and node = node
        and ifs = ifs and known = known] assms by auto
  ultimately show ?thesis by (simp add: names_no_stale_def entries)
qed

lemma publish_frame [simp]:
  "rf_log (snd (refresh_publish cfg ifs u s)) = rf_log s @ [(cfg, ifs, u)]"
  "rf_known (snd (refresh_publish cfg ifs u s)) = rf_known s"
  by (simp_all add: refresh_publish_def Let_def split: refresh_update.splits sum.splits)

lemma publish_continues: "fst (refresh_publish cfg ifs u s) = None \<longleftrightarrow> update_succeeded u"
  by (auto simp: refresh_publish_def update_succeeded_def Let_def split: refresh_update.splits sum.splits)

text \<open>One round publishes nothing, or a configuration without stale addresses.\<close>

lemma round_publishes:
  assumes "refresh_round L service inst bound inventory u s = (r, s')"
  shows "rf_log s' = rf_log s \<or> (\<exists>ifs cfg. inventory = Inr ifs \<and> rf_log s' = rf_log s @ [(cfg, ifs, u)]
       \<and> names_no_stale L (set (rf_known s)) ifs cfg)"
    and "set (rf_known s') = seen_locally (rf_known s) [(wake, inventory, u)]"
proof -
  have "(rf_log s' = rf_log s \<or> (\<exists>ifs cfg. inventory = Inr ifs \<and> rf_log s' = rf_log s @ [(cfg, ifs, u)]
       \<and> names_no_stale L (set (rf_known s)) ifs cfg))
     \<and> set (rf_known s') = seen_locally (rf_known s) [(wake, inventory, u)]"
  proof (cases inventory)
    case (Inl e)
    then show ?thesis using assms by (simp add: refresh_round_def seen_locally_def)
  next
    case (Inr ifs)
    define s1 where "s1 = s\<lparr>rf_known := fold push_new ifs (rf_known s)\<rparr>"
    have known: "set (rf_known s1) = seen_locally (rf_known s) [(wake, inventory, u)]" "rf_log s1 = rf_log s"
      by (auto simp: s1_def set_fold_push_new seen_locally_def Inr)
    show ?thesis
    proof (cases "peer_service_config_from_reconciled_snapshot L service inst bound (rf_node s1) ifs (rf_known s1)")
      case (Inl e)
      then have "s' = s1" using assms Inr by (simp add: refresh_round_def Let_def s1_def)
      then show ?thesis using known by simp
    next
      case (Inr cfg)
      then have "s' = snd (refresh_publish cfg ifs u s1)"
        using assms \<open>inventory = Inr ifs\<close> by (simp add: refresh_round_def Let_def s1_def)
      moreover have "set (rf_known s) \<subseteq> set (rf_known s1)" by (simp add: s1_def set_fold_push_new)
      ultimately show ?thesis
        using known reconciled_names_no_stale [OF Inr] \<open>inventory = Inr ifs\<close> by simp
    qed
  qed
  then show "rf_log s' = rf_log s \<or> (\<exists>ifs cfg. inventory = Inr ifs \<and> rf_log s' = rf_log s @ [(cfg, ifs, u)]
       \<and> names_no_stale L (set (rf_known s)) ifs cfg)"
    and "set (rf_known s') = seen_locally (rf_known s) [(wake, inventory, u)]" by blast+
qed

text \<open>The loop goes on only while updates succeed, and a failed update closes the session.\<close>

definition all_succeeded :: "refresh_state \<Rightarrow> bool" where
  "all_succeeded s \<longleftrightarrow> (\<forall>(_, _, v) \<in> set (rf_log s). update_succeeded v)"

definition live_is_fresh :: "bool option \<times> refresh_state \<Rightarrow> bool" where
  "live_is_fresh rs \<longleftrightarrow> (fst rs = None \<or> \<not> rf_closed (refresh_worker rs) \<longrightarrow> all_succeeded (snd rs))"

lemma publish_fresh: "all_succeeded s \<Longrightarrow> live_is_fresh (refresh_publish cfg ifs u s)"
  by (auto simp: live_is_fresh_def all_succeeded_def refresh_publish_def refresh_worker_def update_succeeded_def Let_def
      split: refresh_update.splits sum.splits)

lemma round_fresh:
  assumes "all_succeeded s"
  shows "live_is_fresh (refresh_round L service inst bound inventory u s)"
proof -
  have "all_succeeded (s\<lparr>rf_known := k\<rparr>)" for k using assms by (simp add: all_succeeded_def)
  then show ?thesis using assms publish_fresh
    by (auto simp: refresh_round_def Let_def live_is_fresh_def split: sum.splits)
qed

text \<open>The round that follows a wake-up.\<close>

lemma run_Cons:
  "run_peer_advertisement_refresh L service inst bound ((wake, inventory, u) # rounds) s =
     (if wake = WakeCancel then (Some False, s) else if wake = WakeClosed \<or> wake = WakeUpdated None then (Some True, s)
      else (case refresh_round L service inst bound inventory u
                  (case wake of WakeUpdated (Some node) \<Rightarrow> s\<lparr>rf_node := node\<rparr> | _ \<Rightarrow> s) of
              (Some r, s1) \<Rightarrow> (Some r, s1)
            | (None, s1) \<Rightarrow> run_peer_advertisement_refresh L service inst bound rounds s1))"
  by (auto split: refresh_wake.splits option.splits)

lemma run_append:
  "run_peer_advertisement_refresh L service inst bound (xs @ ys) s = (case run_peer_advertisement_refresh L service inst bound xs s of
       (Some r, s1) \<Rightarrow> (Some r, s1) | (None, s1) \<Rightarrow> run_peer_advertisement_refresh L service inst bound ys s1)"
proof (induction xs arbitrary: s)
  case (Cons x xs)
  obtain wake inventory u where x: "x = (wake, inventory, u)" by (rule prod_cases3)
  show ?case unfolding x append_Cons run_Cons using Cons.IH by (auto split: prod.splits option.splits)
qed simp

lemma run_known:
  assumes "run_peer_advertisement_refresh L service inst bound rounds s = (None, s')"
  shows "set (rf_known s') = seen_locally (rf_known s) rounds"
  using assms
proof (induction rounds arbitrary: s)
  case Nil
  then show ?case by (simp add: seen_locally_def)
next
  case (Cons x rounds)
  obtain wake inventory u where x: "x = (wake, inventory, u)" by (rule prod_cases3)
  define s0 where "s0 = (case wake of WakeUpdated (Some node) \<Rightarrow> s\<lparr>rf_node := node\<rparr> | _ \<Rightarrow> s)"
  obtain s1 where r: "refresh_round L service inst bound inventory u s0 = (None, s1)"
    and rest: "run_peer_advertisement_refresh L service inst bound rounds s1 = (None, s')"
    using Cons.prems unfolding x run_Cons s0_def [symmetric] by (auto split: if_splits prod.splits option.splits)
  have "rf_known s0 = rf_known s" by (simp add: s0_def split: refresh_wake.splits option.splits)
  then show ?case
    using Cons.IH [OF rest] round_publishes(2) [OF r, of wake] x by (auto simp: seen_locally_def)
qed

lemma run_fresh:
  assumes "all_succeeded s"
  shows "live_is_fresh (run_peer_advertisement_refresh L service inst bound rounds s)"
  using assms
proof (induction rounds arbitrary: s)
  case Nil
  then show ?case by (simp add: live_is_fresh_def)
next
  case (Cons x rounds)
  obtain wake inventory u where x: "x = (wake, inventory, u)" by (rule prod_cases3)
  define s0 where "s0 = (case wake of WakeUpdated (Some node) \<Rightarrow> s\<lparr>rf_node := node\<rparr> | _ \<Rightarrow> s)"
  have s0: "all_succeeded s0" using Cons.prems by (simp add: s0_def all_succeeded_def split: refresh_wake.splits option.splits)
  obtain r s1 where r: "refresh_round L service inst bound inventory u s0 = (r, s1)" by fastforce
  have "live_is_fresh (r, s1)" using round_fresh [OF s0, of L service inst bound inventory u] r by simp
  then show ?case
    using Cons.prems Cons.IH [of s1] unfolding x run_Cons s0_def [symmetric] r
    by (cases r) (auto simp: live_is_fresh_def)
qed

text \<open>Property C36.  A refreshed advertisement follows the machine's interfaces and is never silently stale.  Let the
  worker of a peer advertisement run through any rounds of endpoint changes, timer ticks, failed inventories and
  updates, and let it make one more round.  That round publishes nothing, or it publishes a configuration in which neither the
  address records nor the address entry of the TXT record name an address that was on an interface at the start or in
  any inventory read so far (published or not) and is not on one in the inventory of this round; and as long as the worker runs
  or the session is open afterwards, every configuration it handed to the transport was accepted.\<close>

theorem refresh_retracts_lost_interfaces:
  assumes "advertise_peer A key ep service inventory registered False = Inr (cfg0, s0)"
    and "run_peer_advertisement_refresh A service (b32_encode A key) (ep_bound ep) rounds s0 = (None, s)"
    and "run_peer_advertisement_refresh A service (b32_encode A key) (ep_bound ep) (rounds @ [(wake, inventory', u)]) s0 = (r, s')"
  shows "(rf_log s' = rf_log s \<or> (\<exists>ifs cfg. inventory' = Inr ifs \<and> rf_log s' = rf_log s @ [(cfg, ifs, u)]
           \<and> names_no_stale A (seen_locally (rf_known s0) rounds) ifs cfg))
    \<and> (r = None \<or> \<not> rf_closed (refresh_worker (r, s')) \<longrightarrow> (\<forall>(_, _, v) \<in> set (rf_log s'). update_succeeded v))"
proof -
  let ?s1 = "case wake of WakeUpdated (Some node) \<Rightarrow> s\<lparr>rf_node := node\<rparr> | _ \<Rightarrow> s"
  have "rf_log s0 = []"
    using assms(1) by (auto simp: advertise_peer_def Let_def split: if_splits sum.splits)
  then have "all_succeeded s0" by (simp add: all_succeeded_def)
  then have "live_is_fresh (r, s')" using run_fresh assms(3) by metis
  moreover have "rf_log s' = rf_log s \<or> (\<exists>ifs cfg. inventory' = Inr ifs \<and> rf_log s' = rf_log s @ [(cfg, ifs, u)]
      \<and> names_no_stale A (set (rf_known s)) ifs cfg)"
  proof (cases "wake = WakeCancel \<or> wake = WakeClosed \<or> wake = WakeUpdated None")
    case True
    then show ?thesis using assms(2,3) by (auto simp: run_append)
  next
    case False
    then have "refresh_round A service (b32_encode A key) (ep_bound ep) inventory' u ?s1 = (r, s')"
      using assms(2,3) unfolding run_append run_Cons by (auto split: prod.splits option.splits if_splits)
    from round_publishes(1) [OF this] show ?thesis by (simp split: refresh_wake.splits option.splits)
  qed
  ultimately show ?thesis using run_known [OF assms(2)] by (simp add: live_is_fresh_def all_succeeded_def)
qed

lemma demo_config_exists:
  "\<exists>cfg. peer_service_config_from_reconciled_snapshot demo_disc_lib ''app'' ''k'' (ep_bound demo_node) demo_node ifs known = Inr cfg"
  using advertised_hosts_are_served [where L = demo_disc_lib and service = "''app''" and inst = "''k''" and bound = "ep_bound demo_node"
      and node = demo_node and ifs = ifs and known = known]
  by (auto simp: demo_node_def disc_is_placeholder_port_def sock_def split: sum.splits)

theorem refresh_retracts_lost_interfaces_witness:
  "\<exists>cfg0 s0 s cfg. advertise_peer demo_disc_lib [] demo_node ''app'' (Inr [IpV4 10 0 0 7, IpV4 10 0 0 9]) (\<lambda>_. Inr ()) False = Inr (cfg0, s0)
     \<and> run_peer_advertisement_refresh demo_disc_lib ''app'' ''k'' (ep_bound demo_node)
         [(WakeTick, Inr [IpV4 10 0 0 7], UpdateCompleted (Inr True))] s0 = (None, s)
     \<and> rf_log s = [(cfg, [IpV4 10 0 0 7], UpdateCompleted (Inr True))] \<and> IpV4 10 0 0 9 \<notin> set (sc_addrs cfg)
     \<and> names_no_stale demo_disc_lib {IpV4 10 0 0 7, IpV4 10 0 0 9} [IpV4 10 0 0 7] cfg"
proof -
  let ?i = "[IpV4 10 0 0 7, IpV4 10 0 0 9]"
  obtain cfg0 where c0: "peer_service_config_from_reconciled_snapshot demo_disc_lib ''app'' ''k'' (ep_bound demo_node) demo_node ?i ?i = Inr cfg0"
    using demo_config_exists by blast
  obtain cfg where c: "peer_service_config_from_reconciled_snapshot demo_disc_lib ''app'' ''k'' (ep_bound demo_node) demo_node
      [IpV4 10 0 0 7] ?i = Inr cfg" using demo_config_exists by blast
  define s0 where "s0 = \<lparr>rf_node = demo_node, rf_known = ?i, rf_closed = False, rf_log = []\<rparr>"
  have a: "advertise_peer demo_disc_lib [] demo_node ''app'' (Inr ?i) (\<lambda>_. Inr ()) False = Inr (cfg0, s0)"
    using c0 by (simp add: advertise_peer_def s0_def demo_disc_lib_def demo_node_def)
  have k: "b32_encode demo_disc_lib [] = ''k''" by (simp add: demo_disc_lib_def)
  have r0: "run_peer_advertisement_refresh demo_disc_lib ''app'' ''k'' (ep_bound demo_node) [] s0 = (None, s0)" by simp
  have r: "run_peer_advertisement_refresh demo_disc_lib ''app'' ''k'' (ep_bound demo_node)
      ([] @ [(WakeTick, Inr [IpV4 10 0 0 7], UpdateCompleted (Inr True))]) s0
      = (None, s0\<lparr>rf_log := [(cfg, [IpV4 10 0 0 7], UpdateCompleted (Inr True))]\<rparr>)"
    using c by (simp add: refresh_round_def refresh_publish_def s0_def push_new_def)
  have n: "names_no_stale demo_disc_lib {IpV4 10 0 0 7, IpV4 10 0 0 9} [IpV4 10 0 0 7] cfg"
    using refresh_retracts_lost_interfaces [OF a r0 [folded k] r [folded k]] by (auto simp: s0_def seen_locally_def)
  then have "IpV4 10 0 0 9 \<notin> set (sc_addrs cfg)" by (auto simp: names_no_stale_def)
  then show ?thesis using a r n by auto
qed

end
