(* ===== verification/Package_Calls.thy ===== *)
theory Package_Calls
  imports Adapter_Input Ffi_Fetch Endpoint_Registry
begin

text \<open>
  The calls that the three language packages make into the core: \<^verbatim>\<open>src/packages/iroh-http-deno/src/dispatch.rs\<close>,
  \<^verbatim>\<open>src/packages/iroh-http-tauri/src/commands.rs\<close> and \<^verbatim>\<open>src/packages/iroh-http-node/src/lib.rs\<close>.  Each package has
  its own code for creating an endpoint, starting to serve, fetching and answering a request, and the Node
  package has handles of its own.

  Decoding base64 and the number conversions that the bindings do before the code runs are parameters or
  part of the argument types: sizes are unbounded for Deno and Tauri and 32-bit words for Node, whose keys are bytes.
\<close>

section \<open>Errors\<close>

datatype package_error = PlainError string | InputError adapter_input_error | CoreFailure core_error
  | NoEndpoint | AddrError direct_addr_error | PlatformRefused string

section \<open>Creating an endpoint\<close>

record ('k, 'n) endpoint_args =
  ea_key :: "'k option"
  ea_idle_timeout :: "js_number option"
  ea_relay_mode :: "string option"
  ea_relays :: "string list option"
  ea_bind_addrs :: "string list option"
  ea_dns_discovery :: "string option"
  ea_dns_discovery_enabled :: "bool option"
  ea_channel_capacity :: "'n option"
  ea_max_chunk_size_bytes :: "'n option"
  ea_handle_ttl :: "js_number option"
  ea_sweep_interval :: "js_number option"
  ea_max_pooled_connections :: "'n option"
  ea_pool_idle_timeout_ms :: "js_number option"
  ea_disable_networking :: "bool option"
  ea_proxy_url :: "string option"
  ea_proxy_from_env :: "bool option"
  ea_keylog :: "bool option"
  ea_compression_level :: "32 word option"
  ea_compression_min_body_bytes :: "'n option"
  ea_max_header_bytes :: "js_number option"

definition DEFAULT_MIN_BODY_BYTES :: nat where "DEFAULT_MIN_BODY_BYTES = 1024"

definition default_node_options :: node_options where
  "default_node_options = \<lparr>nd_key = None,
     nd_networking = \<lparr>no_relay_mode = None, no_relays = [], no_bind_addrs = [], no_idle_timeout_ms = None, no_proxy_url = None,
       no_proxy_from_env = False, no_disabled = False\<rparr>,
     nd_discovery = default_discovery_options, nd_pool = \<lparr>po_max_connections = None, po_idle_timeout_ms = None\<rparr>,
     nd_streaming = \<lparr>st_channel_capacity = None, st_max_chunk_size_bytes = None, st_drain_timeout_ms = None,
       st_handle_ttl_ms = None, st_sweep_interval_ms = None\<rparr>,
     nd_capabilities = [], nd_keylog = False, nd_max_header_size = None, nd_max_response_body_bytes = None, nd_compression = None\<rparr>"

definition key_32 :: "bytes \<Rightarrow> package_error + bytes" where
  "key_32 k = (if length k = 32 then Inr k
     else Inl (PlainError (''secret key must be exactly 32 bytes, got '' @ show_nat (length k))))"

definition key_base64 :: "(string \<Rightarrow> bytes option) \<Rightarrow> string \<Rightarrow> package_error + bytes" where
  "key_base64 b64 k = (case b64 k of None \<Rightarrow> Inl (PlainError ''secret key: invalid base64'') | Some d \<Rightarrow> key_32 d)"

definition deno_create_endpoint :: "adapter_lib \<Rightarrow> (string \<Rightarrow> bytes option) \<Rightarrow> (string, nat) endpoint_args \<Rightarrow> package_error + node_options" where
  "deno_create_endpoint A b64 a =
     (case check_opt (key_base64 b64) (ea_key a) of
        Inl e \<Rightarrow> Inl e
      | Inr key \<Rightarrow> (case coerce_endpoint_options A \<lparr>re_idle_timeout_ms = ea_idle_timeout a, re_pool_idle_timeout_ms = ea_pool_idle_timeout_ms a,
            re_handle_ttl_ms = ea_handle_ttl a, re_sweep_interval_ms = ea_sweep_interval a, re_max_header_bytes = ea_max_header_bytes a,
            re_compression_level = ea_compression_level a\<rparr> of
          Inl e \<Rightarrow> Inl (InputError e)
        | Inr ep \<Rightarrow> Inr \<lparr>nd_key = key,
            nd_networking = \<lparr>no_relay_mode = ea_relay_mode a, no_relays = unwrap_or (ea_relays a) [],
              no_bind_addrs = unwrap_or (ea_bind_addrs a) [], no_idle_timeout_ms = eo_idle_timeout_ms ep, no_proxy_url = ea_proxy_url a,
              no_proxy_from_env = unwrap_or (ea_proxy_from_env a) False, no_disabled = unwrap_or (ea_disable_networking a) False\<rparr>,
            nd_discovery = discovery_options_new (ea_dns_discovery a) (unwrap_or (ea_dns_discovery_enabled a) True),
            nd_pool = \<lparr>po_max_connections = ea_max_pooled_connections a, po_idle_timeout_ms = eo_pool_idle_timeout_ms ep\<rparr>,
            nd_streaming = \<lparr>st_channel_capacity = ea_channel_capacity a, st_max_chunk_size_bytes = ea_max_chunk_size_bytes a,
              st_drain_timeout_ms = None, st_handle_ttl_ms = eo_handle_ttl_ms ep, st_sweep_interval_ms = eo_sweep_interval_ms ep\<rparr>,
            nd_capabilities = [], nd_keylog = unwrap_or (ea_keylog a) False, nd_max_header_size = eo_max_header_bytes ep,
            nd_max_response_body_bytes = None,
            nd_compression = (if ea_compression_min_body_bytes a \<noteq> None \<or> ea_compression_level a \<noteq> None
              then Some \<lparr>min_body_bytes = unwrap_or (ea_compression_min_body_bytes a) DEFAULT_MIN_BODY_BYTES,
                comp_level = eo_compression_level ep\<rparr> else None)\<rparr>))"

definition tauri_endpoint_options :: "adapter_lib \<Rightarrow> (string \<Rightarrow> bytes option) \<Rightarrow> (string, nat) endpoint_args option \<Rightarrow> package_error + node_options" where
  "tauri_endpoint_options A b64 args = (case args of
       None \<Rightarrow> Inr default_node_options
     | Some a \<Rightarrow> (case coerce_endpoint_options A \<lparr>re_idle_timeout_ms = ea_idle_timeout a, re_pool_idle_timeout_ms = ea_pool_idle_timeout_ms a,
            re_handle_ttl_ms = ea_handle_ttl a, re_sweep_interval_ms = ea_sweep_interval a, re_max_header_bytes = ea_max_header_bytes a,
            re_compression_level = ea_compression_level a\<rparr> of
          Inl e \<Rightarrow> Inl (InputError e)
        | Inr ep \<Rightarrow> (case check_opt (key_base64 b64) (ea_key a) of
            Inl e \<Rightarrow> Inl e
          | Inr key \<Rightarrow> Inr \<lparr>nd_key = key,
              nd_networking = \<lparr>no_relay_mode = ea_relay_mode a, no_relays = unwrap_or (ea_relays a) [],
                no_bind_addrs = unwrap_or (ea_bind_addrs a) [], no_idle_timeout_ms = eo_idle_timeout_ms ep, no_proxy_url = ea_proxy_url a,
                no_proxy_from_env = unwrap_or (ea_proxy_from_env a) False, no_disabled = unwrap_or (ea_disable_networking a) False\<rparr>,
              nd_discovery = discovery_options_new (ea_dns_discovery a) (unwrap_or (ea_dns_discovery_enabled a) True),
              nd_pool = \<lparr>po_max_connections = ea_max_pooled_connections a, po_idle_timeout_ms = eo_pool_idle_timeout_ms ep\<rparr>,
              nd_streaming = \<lparr>st_channel_capacity = ea_channel_capacity a, st_max_chunk_size_bytes = ea_max_chunk_size_bytes a,
                st_drain_timeout_ms = None, st_handle_ttl_ms = eo_handle_ttl_ms ep, st_sweep_interval_ms = eo_sweep_interval_ms ep\<rparr>,
              nd_capabilities = [], nd_keylog = unwrap_or (ea_keylog a) False, nd_max_header_size = eo_max_header_bytes ep,
              nd_max_response_body_bytes = None,
              nd_compression = (if ea_compression_min_body_bytes a \<noteq> None \<or> ea_compression_level a \<noteq> None
                then Some \<lparr>min_body_bytes = unwrap_or (ea_compression_min_body_bytes a) DEFAULT_MIN_BODY_BYTES,
                  comp_level = eo_compression_level ep\<rparr> else None)\<rparr>)))"

text \<open>On mobile platforms the nameservers are asked for, unless networking is disabled.  \<open>dns\<close> is the answer of the platform's
  bridge, an error text or the servers; it is \<open>None\<close> in a desktop build and when no bridge is registered.\<close>

definition should_query_mobile_dns :: "node_options \<Rightarrow> bool" where
  "should_query_mobile_dns opts \<longleftrightarrow> \<not> no_disabled (nd_networking opts)"

definition tauri_create_endpoint :: "adapter_lib \<Rightarrow> (string \<Rightarrow> bytes option) \<Rightarrow> (string + string list) option
    \<Rightarrow> (string, nat) endpoint_args option \<Rightarrow> package_error + node_options" where
  "tauri_create_endpoint A b64 dns args = (case tauri_endpoint_options A b64 args of
       Inl e \<Rightarrow> Inl e
     | Inr opts \<Rightarrow> if should_query_mobile_dns opts
         then (case dns of
             None \<Rightarrow> Inr opts
           | Some (Inl e) \<Rightarrow> Inl (PlatformRefused (''failed to query platform DNS: '' @ e))
           | Some (Inr servers) \<Rightarrow> Inr (if servers = [] then opts
               else opts\<lparr>nd_discovery := (nd_discovery opts)\<lparr>do_dns_nameservers := servers\<rparr>\<rparr>))
         else Inr opts)"

definition node_create_endpoint :: "adapter_lib \<Rightarrow> (bytes, u32) endpoint_args option \<Rightarrow> package_error + node_options" where
  "node_create_endpoint A options = (case options of
       None \<Rightarrow> Inr default_node_options
     | Some a \<Rightarrow> (case coerce_endpoint_options A \<lparr>re_idle_timeout_ms = ea_idle_timeout a, re_pool_idle_timeout_ms = ea_pool_idle_timeout_ms a,
            re_handle_ttl_ms = ea_handle_ttl a, re_sweep_interval_ms = ea_sweep_interval a, re_max_header_bytes = ea_max_header_bytes a,
            re_compression_level = ea_compression_level a\<rparr> of
          Inl e \<Rightarrow> Inl (InputError e)
        | Inr ep \<Rightarrow> (case check_opt key_32 (ea_key a) of
            Inl e \<Rightarrow> Inl e
          | Inr key \<Rightarrow> Inr \<lparr>nd_key = key,
              nd_networking = \<lparr>no_relay_mode = ea_relay_mode a, no_relays = unwrap_or (ea_relays a) [],
                no_bind_addrs = unwrap_or (ea_bind_addrs a) [], no_idle_timeout_ms = eo_idle_timeout_ms ep, no_proxy_url = ea_proxy_url a,
                no_proxy_from_env = unwrap_or (ea_proxy_from_env a) False, no_disabled = unwrap_or (ea_disable_networking a) False\<rparr>,
              nd_discovery = discovery_options_new (ea_dns_discovery a) (unwrap_or (ea_dns_discovery_enabled a) True),
              nd_pool = \<lparr>po_max_connections = map_option unat (ea_max_pooled_connections a), po_idle_timeout_ms = eo_pool_idle_timeout_ms ep\<rparr>,
              nd_streaming = \<lparr>st_channel_capacity = map_option unat (ea_channel_capacity a),
                st_max_chunk_size_bytes = map_option unat (ea_max_chunk_size_bytes a),
                st_drain_timeout_ms = None, st_handle_ttl_ms = eo_handle_ttl_ms ep, st_sweep_interval_ms = eo_sweep_interval_ms ep\<rparr>,
              nd_capabilities = [], nd_keylog = unwrap_or (ea_keylog a) False, nd_max_header_size = eo_max_header_bytes ep,
              nd_max_response_body_bytes = None,
              nd_compression = (if ea_compression_min_body_bytes a \<noteq> None \<or> ea_compression_level a \<noteq> None
                then Some \<lparr>min_body_bytes = unwrap_or (map_option unat (ea_compression_min_body_bytes a)) DEFAULT_MIN_BODY_BYTES,
                  comp_level = eo_compression_level ep\<rparr> else None)\<rparr>)))"

section \<open>Starting to serve\<close>

record 'n serve_args =
  va_max_concurrency :: "'n option"
  va_max_connections_per_peer :: "'n option"
  va_request_timeout :: "js_number option"
  va_request_head_timeout :: "js_number option"
  va_body_idle_timeout :: "js_number option"
  va_max_request_body_wire_bytes :: "js_number option"
  va_max_request_body_decoded_bytes :: "js_number option"
  va_max_total_connections :: "js_number option"
  va_drain_timeout :: "js_number option"
  va_load_shed :: "bool option"
  va_decompress :: "bool option"

text \<open>\<open>Value::as_u64\<close> of a number in a JSON payload.\<close>

definition as_u64 :: "js_number \<Rightarrow> nat option" where
  "as_u64 v = (case v of Finite q \<Rightarrow> if 0 \<le> q \<and> of_int \<lfloor>q\<rfloor> = q \<and> q < 2 ^ 64 then Some (nat \<lfloor>q\<rfloor>) else None | _ \<Rightarrow> None)"

definition raw_serve_of :: "'n serve_args \<Rightarrow> raw_serve_options" where
  "raw_serve_of a = \<lparr>rs_request_timeout_ms = va_request_timeout a, rs_request_head_timeout_ms = va_request_head_timeout a,
     rs_body_idle_timeout_ms = va_body_idle_timeout a, rs_max_request_body_wire_bytes = va_max_request_body_wire_bytes a,
     rs_max_request_body_decoded_bytes = va_max_request_body_decoded_bytes a, rs_max_total_connections = va_max_total_connections a,
     rs_drain_timeout_ms = va_drain_timeout a\<rparr>"

text \<open>Deno reads each field of the payload by itself; a field that is not an unsigned integer counts as absent.\<close>

definition deno_serve_start :: "adapter_lib \<Rightarrow> js_number serve_args \<Rightarrow> package_error + serve_options" where
  "deno_serve_start A a = (case coerce_serve_options A (raw_serve_of a) of
       Inl e \<Rightarrow> Inl (InputError e)
     | Inr s \<Rightarrow> Inr \<lparr>so_max_concurrency = Option.bind (va_max_concurrency a) as_u64, so_request_timeout_ms = ao_request_timeout_ms s,
         so_request_head_timeout_ms = ao_request_head_timeout_ms s, so_body_idle_timeout_ms = ao_body_idle_timeout_ms s,
         so_connection_idle_timeout_ms = None, so_max_connections_per_peer = Option.bind (va_max_connections_per_peer a) as_u64,
         so_max_request_body_wire_bytes = ao_max_request_body_wire_bytes s,
         so_max_request_body_decoded_bytes = ao_max_request_body_decoded_bytes s, so_drain_timeout_ms = ao_drain_timeout_ms s,
         so_max_total_connections = ao_max_total_connections s, so_load_shed = va_load_shed a, so_decompression = va_decompress a\<rparr>)"

definition tauri_serve :: "adapter_lib \<Rightarrow> nat serve_args \<Rightarrow> package_error + serve_options" where
  "tauri_serve A a = (case coerce_serve_options A (raw_serve_of a) of
       Inl e \<Rightarrow> Inl (InputError e)
     | Inr s \<Rightarrow> Inr \<lparr>so_max_concurrency = va_max_concurrency a, so_request_timeout_ms = ao_request_timeout_ms s,
         so_request_head_timeout_ms = ao_request_head_timeout_ms s, so_body_idle_timeout_ms = ao_body_idle_timeout_ms s,
         so_connection_idle_timeout_ms = None, so_max_connections_per_peer = va_max_connections_per_peer a,
         so_max_request_body_wire_bytes = ao_max_request_body_wire_bytes s,
         so_max_request_body_decoded_bytes = ao_max_request_body_decoded_bytes s, so_drain_timeout_ms = ao_drain_timeout_ms s,
         so_max_total_connections = ao_max_total_connections s, so_load_shed = va_load_shed a, so_decompression = va_decompress a\<rparr>)"

definition no_serve_args :: "'n serve_args" where
  "no_serve_args = \<lparr>va_max_concurrency = None, va_max_connections_per_peer = None, va_request_timeout = None, va_request_head_timeout = None,
     va_body_idle_timeout = None, va_max_request_body_wire_bytes = None, va_max_request_body_decoded_bytes = None,
     va_max_total_connections = None, va_drain_timeout = None, va_load_shed = None, va_decompress = None\<rparr>"

definition node_raw_serve :: "adapter_lib \<Rightarrow> u32 serve_args option \<Rightarrow> package_error + serve_options" where
  "node_raw_serve A options = (let a = unwrap_or options no_serve_args in
     case coerce_serve_options A (raw_serve_of a) of
       Inl e \<Rightarrow> Inl (InputError e)
     | Inr s \<Rightarrow> Inr \<lparr>so_max_concurrency = map_option unat (va_max_concurrency a), so_request_timeout_ms = ao_request_timeout_ms s,
         so_request_head_timeout_ms = ao_request_head_timeout_ms s, so_body_idle_timeout_ms = ao_body_idle_timeout_ms s,
         so_connection_idle_timeout_ms = None, so_max_connections_per_peer = map_option unat (va_max_connections_per_peer a),
         so_max_request_body_wire_bytes = ao_max_request_body_wire_bytes s,
         so_max_request_body_decoded_bytes = ao_max_request_body_decoded_bytes s, so_drain_timeout_ms = ao_drain_timeout_ms s,
         so_max_total_connections = ao_max_total_connections s, so_load_shed = va_load_shed a, so_decompression = va_decompress a\<rparr>)"

section \<open>Fetching\<close>

record raw_fetch_args =
  fq_node_id :: string
  fq_url :: string
  fq_method :: string
  fq_headers :: "string list list"
  fq_req_body_handle :: "u64 option"
  fq_fetch_token :: "u64 option"
  fq_direct_addrs :: "string list option"
  fq_timeout_ms :: "js_number option"
  fq_decompress :: "bool option"
  fq_max_response_body_bytes :: "js_number option"

definition raw_fetch_of :: "raw_fetch_args \<Rightarrow> raw_fetch_options" where
  "raw_fetch_of q = \<lparr>rf_node_id = fq_node_id q, rf_url = fq_url q, rf_method = fq_method q, rf_direct_addrs = fq_direct_addrs q,
     rf_headers = fq_headers q, rf_timeout_ms = fq_timeout_ms q, rf_max_response_body_bytes = fq_max_response_body_bytes q\<rparr>"

text \<open>What is handed to the core's \<open>fetch\<close>.\<close>

record core_fetch =
  cf_options :: fetch_options
  cf_reader :: "body_reader option"
  cf_token :: "u64 option"
  cf_addrs :: "sock_addr list option"
  cf_decompress :: bool

text \<open>\<open>req_body_handle.and_then(|h| claim_pending_reader(h))\<close>.\<close>

definition claim_body :: "u64 option \<Rightarrow> 'c store \<Rightarrow> body_reader option \<times> 'c store" where
  "claim_body h s = (case h of None \<Rightarrow> (None, s) | Some k \<Rightarrow> claim_pending_reader k s)"

text \<open>An early return drops a reader that was claimed.\<close>

definition drop_claimed :: "'c mpsc_ops \<Rightarrow> body_reader option \<Rightarrow> 'c store \<Rightarrow> 'c store" where
  "drop_claimed ops r s = (case r of None \<Rightarrow> s | Some rd \<Rightarrow> on_mem (reader_drop ops rd) s)"

text \<open>The store is that of the endpoint the handle resolves to.\<close>

definition deno_raw_fetch :: "adapter_lib \<Rightarrow> slot_lib \<Rightarrow> 'c mpsc_ops \<Rightarrow> raw_fetch_args \<Rightarrow> 'c store \<Rightarrow> (package_error + core_fetch) \<times> 'c store" where
  "deno_raw_fetch A L ops q s = (case coerce_fetch_options A (raw_fetch_of q) of
       Inl e \<Rightarrow> (Inl (InputError e), s)
     | Inr fo \<Rightarrow> (case claim_body (fq_req_body_handle q) s of (reader, s1) \<Rightarrow>
         (case parse_direct_addrs (fo_direct_addrs fo) of
            Inl e \<Rightarrow> (Inl (AddrError e), drop_claimed ops reader s1)
          | Inr addrs \<Rightarrow>
             (case (case fq_fetch_token q of Some t \<Rightarrow> (Some t, s1)
                   | None \<Rightarrow> (case alloc_fetch_token L s1 of (r, s2) \<Rightarrow> (case r of Inl _ \<Rightarrow> None | Inr t \<Rightarrow> Some t, s2))) of
                (token, s2) \<Rightarrow> (Inr \<lparr>cf_options = fo, cf_reader = reader, cf_token = token, cf_addrs = addrs,
                   cf_decompress = unwrap_or (fq_decompress q) True\<rparr>, s2)))))"

definition tauri_fetch :: "adapter_lib \<Rightarrow> 'c mpsc_ops \<Rightarrow> raw_fetch_args \<Rightarrow> 'c store \<Rightarrow> (package_error + core_fetch) \<times> 'c store" where
  "tauri_fetch A ops q s = (case coerce_fetch_options A (raw_fetch_of q) of
       Inl e \<Rightarrow> (Inl (InputError e), s)
     | Inr fo \<Rightarrow> (case claim_body (fq_req_body_handle q) s of (reader, s1) \<Rightarrow>
         (case parse_direct_addrs (fo_direct_addrs fo) of
            Inl e \<Rightarrow> (Inl (AddrError e), drop_claimed ops reader s1)
          | Inr addrs \<Rightarrow> (Inr \<lparr>cf_options = fo, cf_reader = reader, cf_token = fq_fetch_token q, cf_addrs = addrs,
              cf_decompress = unwrap_or (fq_decompress q) True\<rparr>, s1))))"

text \<open>A \<open>BigInt\<close> as the binding library presents it: sign, value of the first word, and whether that is all of it.\<close>

type_synonym big_int = "bool \<times> u64 \<times> bool"

definition node_get_handle :: "big_int \<Rightarrow> package_error + u64" where
  "node_get_handle b = (case b of (sign_bit, v, lossless) \<Rightarrow>
     if \<not> lossless then Inl (PlainError ''handle value is out of u64 range'') else Inr v)"

text \<open>Node takes the body handle and the token as big integers; the token is converted last.\<close>

definition node_raw_fetch :: "adapter_lib \<Rightarrow> 'c mpsc_ops \<Rightarrow> raw_fetch_args \<Rightarrow> big_int option \<Rightarrow> big_int \<Rightarrow> 'c store
     \<Rightarrow> (package_error + core_fetch) \<times> 'c store" where
  "node_raw_fetch A ops q body token s = (case coerce_fetch_options A (raw_fetch_of q) of
       Inl e \<Rightarrow> (Inl (InputError e), s)
     | Inr fo \<Rightarrow> (case check_opt node_get_handle body of
         Inl e \<Rightarrow> (Inl e, s)
       | Inr h \<Rightarrow> (case claim_body h s of (reader, s1) \<Rightarrow>
           (case parse_direct_addrs (fo_direct_addrs fo) of
              Inl e \<Rightarrow> (Inl (AddrError e), drop_claimed ops reader s1)
            | Inr addrs \<Rightarrow> (case node_get_handle token of
                Inl e \<Rightarrow> (Inl e, drop_claimed ops reader s1)
              | Inr t \<Rightarrow> (Inr \<lparr>cf_options = fo, cf_reader = reader, cf_token = Some t, cf_addrs = addrs,
                  cf_decompress = unwrap_or (fq_decompress q) True\<rparr>, s1))))))"

text \<open>\<open>allocBodyWriter\<close> of all packages.  \<open>None\<close> is the panic on a zero capacity.\<close>

definition package_alloc_body_writer :: "slot_lib \<Rightarrow> 'c mpsc_ops \<Rightarrow> 'c store \<Rightarrow> ((package_error + u64) \<times> 'c store) option" where
  "package_alloc_body_writer L ops s = (case alloc_body_writer L ops s of
       None \<Rightarrow> None
     | Some (Inl e, s1) \<Rightarrow> Some (Inl (CoreFailure e), s1)
     | Some (Inr (h, r), s1) \<Rightarrow> Some (Inr h, store_pending_reader ops h r s1))"

section \<open>Answering a request\<close>

definition tauri_respond_to_request :: "http_lib \<Rightarrow> u64 \<Rightarrow> u16 \<Rightarrow> string list list \<Rightarrow> 'c disp_sys \<Rightarrow> (package_error + unit) \<times> 'c disp_sys" where
  "tauri_respond_to_request lib h status rows d = (case validate_header_rows rows of
       Inl e \<Rightarrow> (Inl (InputError e), d)
     | Inr hs \<Rightarrow> (case respond lib h status hs d of
         (Inl e, d1) \<Rightarrow> (Inl (CoreFailure e), d1)
       | (Inr _, d1) \<Rightarrow> (Inr (), d1)))"

definition node_raw_respond :: "http_lib \<Rightarrow> big_int \<Rightarrow> u32 \<Rightarrow> string list list \<Rightarrow> 'c disp_sys \<Rightarrow> (package_error + unit) \<times> 'c disp_sys" where
  "node_raw_respond lib b status rows d = (case validate_header_rows rows of
       Inl e \<Rightarrow> (Inl (InputError e), d)
     | Inr hs \<Rightarrow> (case node_get_handle b of
         Inl e \<Rightarrow> (Inl e, d)
       | Inr h \<Rightarrow> (case respond lib h (ucast status) hs d of
           (Inl e, d1) \<Rightarrow> (Inl (CoreFailure e), d1)
         | (Inr _, d1) \<Rightarrow> (Inr (), d1))))"

section \<open>Handles of the Node package\<close>

record local_handles =
  lh_next :: u32
  lh_map :: "(u32 \<times> u64) list"

definition local_handles_new :: local_handles where
  "local_handles_new = \<lparr>lh_next = 1, lh_map = []\<rparr>"

definition alloc_local_handle :: "u64 \<Rightarrow> local_handles \<Rightarrow> u32 \<times> local_handles" where
  "alloc_local_handle h m = (lh_next m, m\<lparr>lh_next := lh_next m + 1, lh_map := al_put (lh_next m) h (lh_map m)\<rparr>)"

definition remove_local_handle :: "u32 \<Rightarrow> local_handles \<Rightarrow> u64 option \<times> local_handles" where
  "remove_local_handle l m = (map_of (lh_map m) l, m\<lparr>lh_map := al_del l (lh_map m)\<rparr>)"

definition local_handle :: "u32 \<Rightarrow> local_handles \<Rightarrow> u64 option" where
  "local_handle l m = map_of (lh_map m) l"

definition node_get_endpoint :: "u32 \<Rightarrow> local_handles \<Rightarrow> 'e registry \<Rightarrow> package_error + 'e" where
  "node_get_endpoint l m r = (case local_handle l m of
       None \<Rightarrow> Inl NoEndpoint
     | Some h \<Rightarrow> (case get_endpoint h r of None \<Rightarrow> Inl NoEndpoint | Some ep \<Rightarrow> Inr ep))"

text \<open>The end of \<open>create_endpoint\<close> and of \<open>close_endpoint\<close>.\<close>

definition node_register :: "slot_lib \<Rightarrow> 'e \<Rightarrow> local_handles \<times> 'e registry \<Rightarrow> u32 \<times> local_handles \<times> 'e registry" where
  "node_register L ep mr = (case insert_endpoint L ep (snd mr) of (h, r) \<Rightarrow>
     (case alloc_local_handle h (fst mr) of (l, m) \<Rightarrow> (l, m, r)))"

definition node_unregister :: "u32 \<Rightarrow> local_handles \<times> 'e registry \<Rightarrow> local_handles \<times> 'e registry" where
  "node_unregister l mr = (case remove_local_handle l (fst mr) of
       (None, m) \<Rightarrow> (m, snd mr)
     | (Some h, m) \<Rightarrow> (m, snd (remove_endpoint h (snd mr))))"

end
