(* ===== verification/Package_Props.thy ===== *)
theory Package_Props
  imports Package_Calls
begin

text \<open>
  The three language packages agree on what they hand to the core, a request body is attached once, and the handles
  of the Node package refine a map from handles to endpoints.  The last section shows where the packages differ from each
  other or from their comments.
\<close>

section \<open>The handle map of the Node package\<close>

definition lh_inv :: "local_handles \<Rightarrow> bool" where
  "lh_inv m \<longleftrightarrow> distinct (keys (lh_map m)) \<and> (\<forall>l \<in> set (keys (lh_map m)). l < lh_next m)"

text \<open>The counter has not reached its last value.\<close>

definition lh_room :: "local_handles \<Rightarrow> bool" where
  "lh_room m \<longleftrightarrow> lh_next m \<noteq> - 1"

lemma lh_fresh: "lh_inv m \<Longrightarrow> lh_next m \<notin> set (keys (lh_map m))"
  by (auto simp: lh_inv_def)

interpretation local_map: retiring_registry alloc_local_handle local_handle remove_local_handle "\<lambda>m. length (lh_map m)" lh_inv lh_room
    "\<lambda>m. {l. l < lh_next m}"
proof (unfold_locales, goal_cases)
  case (1 m v)
  then show ?case using lh_fresh by (simp add: local_handle_def alloc_local_handle_def map_of_None_keys)
next
  case (3 m v)
  then show ?case using lh_fresh [of m] word_less_succ_iff [of "lh_next m"]
    by (auto simp: lh_inv_def lh_room_def alloc_local_handle_def al_put_def)
next
  case (4 m v)
  then show ?case using lh_fresh [of m] by (simp add: alloc_local_handle_def al_put_def)
next
  case (7 m k)
  then show ?case by (auto simp: lh_inv_def remove_local_handle_def)
next
  case (8 m k v)
  then have "k \<in> set (keys (lh_map m))" by (metis map_of_None_keys option.distinct(1) local_handle_def)
  then show ?case using 8(1) by (simp add: lh_inv_def remove_local_handle_def length_al_del_mem)
next
  case (9 m v)
  then show ?case using word_less_succ_iff [of "lh_next m"] by (auto simp: alloc_local_handle_def lh_room_def)
qed (auto simp: local_handle_def alloc_local_handle_def remove_local_handle_def)

text \<open>The endpoint behind a handle, and what ties the two maps together.\<close>

definition node_view :: "local_handles \<times> 'e registry \<Rightarrow> u32 \<Rightarrow> 'e option" where
  "node_view mr l = (case node_get_endpoint l (fst mr) (snd mr) of Inl _ \<Rightarrow> None | Inr ep \<Rightarrow> Some ep)"

definition node_handles_ok :: "slot_lib \<Rightarrow> local_handles \<times> 'e registry \<Rightarrow> bool" where
  "node_handles_ok L mr \<longleftrightarrow> lh_inv (fst mr) \<and> slot_inv L (snd mr)
     \<and> (\<forall>l h. local_handle l (fst mr) = Some h \<longrightarrow> h \<in> set (issued L (history (snd mr))))
     \<and> (\<forall>l l' h. local_handle l (fst mr) = Some h \<and> local_handle l' (fst mr) = Some h \<longrightarrow> l = l')"

lemma node_view_eq: "node_view mr l = (case local_handle l (fst mr) of None \<Rightarrow> None | Some h \<Rightarrow> get_endpoint h (snd mr))"
  by (auto simp: node_view_def node_get_endpoint_def split: option.splits)

lemma node_register_eq:
  "node_register L ep mr = (fst (alloc_local_handle (fst (insert_endpoint L ep (snd mr))) (fst mr)),
     snd (alloc_local_handle (fst (insert_endpoint L ep (snd mr))) (fst mr)), snd (insert_endpoint L ep (snd mr)))"
  by (simp add: node_register_def split: prod.splits)

lemma node_register_refines:
  assumes ok: "node_handles_ok L mr" and room: "lh_room (fst mr)" "slot_room (snd mr)"
    and reg: "node_register L ep mr = (l, mr')"
  shows "node_view mr l = None \<and> node_view mr' = (node_view mr)(l \<mapsto> ep) \<and> node_handles_ok L mr'"
proof -
  let ?m = "fst mr" and ?r = "snd mr"
  define h where "h = fst (insert_endpoint L ep ?r)"
  have inv: "lh_inv ?m" "slot_inv L ?r" using ok by (simp_all add: node_handles_ok_def)
  have l: "l = fst (alloc_local_handle h ?m)" and mr': "mr' = (snd (alloc_local_handle h ?m), snd (insert_endpoint L ep ?r))"
    using reg unfolding node_register_eq h_def by auto
  have m': "local_handle k (fst mr') = (if k = l then Some h else local_handle k ?m)" for k
    using local_map.ins_get [OF inv(1) room(1)] by (simp add: mr' l)
  have r': "get_endpoint k (snd mr') = (if k = h then Some ep else get_endpoint k ?r)" for k
    using slotmap.ins_get [OF inv(2) room(2)] by (simp add: mr' h_def insert_endpoint_def get_endpoint_def)
  have new: "h \<notin> set (issued L (history ?r))"
    using slotmap.ins_unspent [OF inv(2) room(2)] by (simp add: h_def insert_endpoint_def)
  have none: "local_handle l ?m = None" using local_map.ins_fresh [OF inv(1) room(1)] by (simp add: l)
  have old: "k \<noteq> h" if "local_handle j ?m = Some k" for j k using ok that new by (auto simp: node_handles_ok_def)
  have sp: "set (issued L (history (snd mr'))) = insert h (set (issued L (history ?r)))"
    using slotmap.ins_spent [OF inv(2) room(2)] by (simp add: mr' h_def insert_endpoint_def)
  have "node_view mr' j = ((node_view mr)(l \<mapsto> ep)) j" for j
    using m' r' old by (auto simp: node_view_eq split: option.splits)
  moreover have "node_handles_ok L mr'"
  proof -
    have "lh_inv (fst mr')" "slot_inv L (snd mr')"
      using local_map.ins_invar [OF inv(1) room(1)] slotmap.ins_invar [OF inv(2) room(2)] by (simp_all add: mr' insert_endpoint_def)
    then show ?thesis using ok m' sp old unfolding node_handles_ok_def by (auto split: if_splits)
  qed
  ultimately show ?thesis using none by (auto simp: node_view_eq fun_eq_iff)
qed

lemma node_unregister_refines:
  assumes ok: "node_handles_ok L mr"
  shows "node_view (node_unregister l mr) = (node_view mr)(l := None) \<and> node_handles_ok L (node_unregister l mr)"
proof (cases "local_handle l (fst mr)")
  case None
  have u: "node_unregister l mr = (snd (remove_local_handle l (fst mr)), snd mr)"
    using None by (simp add: node_unregister_def remove_local_handle_def local_handle_def)
  have m': "local_handle k (snd (remove_local_handle l (fst mr))) = local_handle k (fst mr)" for k
    using None local_map.del_get [of k l "fst mr"] by auto
  have "lh_inv (snd (remove_local_handle l (fst mr)))" using ok by (simp add: local_map.del_invar node_handles_ok_def)
  then show ?thesis using ok None unfolding u by (auto simp: node_view_eq node_handles_ok_def m' fun_eq_iff split: option.splits)
next
  case (Some h)
  define mr' where "mr' = node_unregister l mr"
  have mr': "mr' = (snd (remove_local_handle l (fst mr)), snd (remove_endpoint h (snd mr)))"
    using Some by (simp add: mr'_def node_unregister_def remove_local_handle_def local_handle_def)
  have m': "local_handle k (fst mr') = (if k = l then None else local_handle k (fst mr))" for k
    using local_map.del_get [of k l "fst mr"] by (simp add: mr')
  have r': "get_endpoint k (snd mr') = (if k = h then None else get_endpoint k (snd mr))" for k
    using slotmap.del_get [of k h "snd mr"] by (simp add: mr' remove_endpoint_def get_endpoint_def)
  have inj: "k = l" if "local_handle k (fst mr) = Some h" for k using ok that Some by (auto simp: node_handles_ok_def)
  have sp: "set (issued L (history (snd mr'))) = set (issued L (history (snd mr)))"
    using slotmap.del_spent [of L h "snd mr"] by (simp add: mr' remove_endpoint_def)
  have "node_view mr' j = ((node_view mr)(l := None)) j" for j
    using m' r' inj by (auto simp: node_view_eq split: option.splits)
  moreover have "node_handles_ok L mr'"
  proof -
    have "lh_inv (fst mr')" "slot_inv L (snd mr')"
      using ok local_map.del_invar slotmap.del_invar by (auto simp: mr' node_handles_ok_def remove_endpoint_def)
    then show ?thesis using ok m' sp unfolding node_handles_ok_def by (auto split: if_splits)
  qed
  ultimately show ?thesis unfolding mr'_def by auto
qed

text \<open>A sequence of creations and removals, and the map it stands for.\<close>

datatype 'e node_op = NodeCreate 'e | NodeClose u32

fun node_run :: "slot_lib \<Rightarrow> 'e node_op list \<Rightarrow> local_handles \<times> 'e registry \<Rightarrow> u32 list \<times> local_handles \<times> 'e registry" where
  "node_run L [] mr = ([], mr)"
| "node_run L (NodeCreate ep # ops) mr = (case node_register L ep mr of (l, mr1) \<Rightarrow>
     (case node_run L ops mr1 of (ls, mr2) \<Rightarrow> (l # ls, mr2)))"
| "node_run L (NodeClose l # ops) mr = node_run L ops (node_unregister l mr)"

fun map_run :: "'e node_op list \<Rightarrow> u32 list \<Rightarrow> (u32 \<rightharpoonup> 'e) \<Rightarrow> (u32 \<rightharpoonup> 'e)" where
  "map_run [] ls f = f"
| "map_run (NodeCreate ep # ops) ls f = (case ls of [] \<Rightarrow> f | l # ls' \<Rightarrow> map_run ops ls' (f(l \<mapsto> ep)))"
| "map_run (NodeClose l # ops) ls f = map_run ops ls (f(l := None))"

fun node_room :: "slot_lib \<Rightarrow> 'e node_op list \<Rightarrow> local_handles \<times> 'e registry \<Rightarrow> bool" where
  "node_room L [] mr = True"
| "node_room L (NodeCreate ep # ops) mr = (lh_room (fst mr) \<and> slot_room (snd mr) \<and> node_room L ops (snd (node_register L ep mr)))"
| "node_room L (NodeClose l # ops) mr = node_room L ops (node_unregister l mr)"

lemma node_register_next: "lh_next (fst (snd (node_register L ep mr))) = lh_next (fst mr) + 1" "fst (node_register L ep mr) = lh_next (fst mr)"
  by (simp_all add: node_register_eq alloc_local_handle_def)

lemma node_unregister_next [simp]: "lh_next (fst (node_unregister l mr)) = lh_next (fst mr)"
  by (simp add: node_unregister_def remove_local_handle_def split: option.splits prod.splits)

lemma node_run_refines:
  assumes "node_handles_ok L mr" and "node_room L ops mr"
  shows "node_view (snd (node_run L ops mr)) = map_run ops (fst (node_run L ops mr)) (node_view mr)
    \<and> (\<forall>l \<in> set (fst (node_run L ops mr)). lh_next (fst mr) \<le> l) \<and> distinct (fst (node_run L ops mr))"
  using assms
proof (induction ops arbitrary: mr)
  case Nil
  then show ?case by simp
next
  case (Cons c ops)
  show ?case
  proof (cases c)
    case (NodeClose l)
    have "node_handles_ok L (node_unregister l mr)" "node_view (node_unregister l mr) = (node_view mr)(l := None)"
      using node_unregister_refines [OF Cons.prems(1)] by simp_all
    then show ?thesis using Cons.IH [of "node_unregister l mr"] Cons.prems(2) NodeClose by (simp del: fun_upd_apply)
  next
    case (NodeCreate ep)
    obtain l mr1 where r: "node_register L ep mr = (l, mr1)" by (metis surj_pair)
    obtain ls mr2 where n: "node_run L ops mr1 = (ls, mr2)" by (metis surj_pair)
    have room: "lh_room (fst mr)" "slot_room (snd mr)" "node_room L ops mr1" using Cons.prems(2) NodeCreate r by simp_all
    have s: "node_view mr1 = (node_view mr)(l \<mapsto> ep)" "node_handles_ok L mr1"
      using node_register_refines [OF Cons.prems(1) room(1,2) r] by simp_all
    have l: "l = lh_next (fst mr)" "lh_next (fst mr1) = lh_next (fst mr) + 1" using node_register_next [of L ep mr] r by simp_all
    have lt: "l < lh_next (fst mr1)" using room(1) by (simp add: l lh_room_def word_less_succ_iff)
    have ih: "node_view mr2 = map_run ops ls (node_view mr1)" "\<forall>k \<in> set ls. lh_next (fst mr1) \<le> k" "distinct ls"
      using Cons.IH [OF s(2) room(3)] n by simp_all
    have "\<forall>k \<in> set ls. l < k" using ih(2) lt by (meson less_le_trans)
    then show ?thesis using ih s(1) NodeCreate r n l(1) by (auto intro: less_imp_le)
  qed
qed

lemma node_room_if:
  assumes "unat (lh_next (fst mr)) + length ops < 2 ^ 32 - 1" and "length (history (snd mr)) + length ops < slot_version_limit"
  shows "node_room L ops mr"
  using assms
proof (induction ops arbitrary: mr)
  case Nil
  then show ?case by simp
next
  case (Cons c ops)
  show ?case
  proof (cases c)
    case (NodeClose l)
    have "length (history (snd (node_unregister l mr))) \<le> Suc (length (history (snd mr)))"
      by (auto simp: node_unregister_def remove_endpoint_def slot_remove_def split: option.splits prod.splits)
    then show ?thesis using Cons NodeClose by simp
  next
    case (NodeCreate ep)
    have "lh_next (fst mr) \<noteq> - 1"
    proof
      assume "lh_next (fst mr) = - 1"
      then have "unat (lh_next (fst mr)) = 2 ^ 32 - 1" by (simp add: unsigned_minus_1_eq_mask mask_eq_exp_minus_1)
      then show False using Cons.prems(1) by linarith
    qed
    moreover have "unat (lh_next (fst mr) + 1) \<le> Suc (unat (lh_next (fst mr)))"
      by (simp add: unat_word_ariths)
    moreover have "length (history (snd (snd (node_register L ep mr)))) = Suc (length (history (snd mr)))"
      by (simp add: node_register_eq insert_endpoint_def slot_insert_def Let_def)
    ultimately show ?thesis using Cons NodeCreate by (simp add: lh_room_def slot_room_def node_register_next)
  qed
qed

text \<open>Property C38.  Below the documented limit of the slot map the endpoint handles of the Node package behave as the
  keys of a map: after any sequence of creations and closings, in any order and with arbitrary (also stale) handles, a handle
  resolves to the endpoint that a plain map with the same updates has for it, and no handle is issued twice.\<close>

theorem node_handles_refine_map:
  fixes ops :: "'e node_op list"
  assumes lib: "slot_lib_ok L" and len: "length ops < slot_version_limit"
  shows "node_view (snd (node_run L ops (local_handles_new, slot_new))) = map_run ops (fst (node_run L ops (local_handles_new, slot_new))) Map.empty
    \<and> distinct (fst (node_run L ops (local_handles_new, slot_new)))"
proof -
  let ?mr = "(local_handles_new, slot_new) :: local_handles \<times> 'e registry"
  have ok: "node_handles_ok L ?mr"
    using slot_inv_new [OF lib] by (simp add: node_handles_ok_def lh_inv_def local_handles_new_def local_handle_def)
  have room: "node_room L ops ?mr"
    using len by (intro node_room_if) (simp_all add: local_handles_new_def slot_version_limit_def)
  have "node_view ?mr = Map.empty"
    by (rule ext) (simp add: node_view_eq local_handles_new_def local_handle_def)
  then show ?thesis using node_run_refines [OF ok room] by simp
qed

theorem node_handles_refine_map_witness:
  "node_view (snd (node_run counting_lib [NodeCreate ''a'', NodeCreate ''b'', NodeClose 1, NodeClose 1, NodeCreate ''c''] (local_handles_new, slot_new)))
     = [2 \<mapsto> ''b'', 3 \<mapsto> ''c'']"
proof -
  let ?ops = "[NodeCreate ''a'', NodeCreate ''b'', NodeClose 1, NodeClose 1, NodeCreate ''c'']"
  have "fst (node_run counting_lib ?ops (local_handles_new, slot_new)) = [1, 2, 3]" by code_simp
  then show ?thesis
    using conjunct1 [OF node_handles_refine_map [OF counting_lib_ok, of ?ops]]
    by (simp add: slot_version_limit_def fun_eq_iff)
qed

section \<open>The packages agree\<close>

text \<open>Arguments of the Node package as the other packages spell them: the key in base64 and the sizes unbounded.\<close>

definition widen :: "(bytes \<Rightarrow> string) \<Rightarrow> (bytes, u32) endpoint_args \<Rightarrow> (string, nat) endpoint_args" where
  "widen enc a = \<lparr>ea_key = map_option enc (ea_key a), ea_idle_timeout = ea_idle_timeout a, ea_relay_mode = ea_relay_mode a,
     ea_relays = ea_relays a, ea_bind_addrs = ea_bind_addrs a, ea_dns_discovery = ea_dns_discovery a,
     ea_dns_discovery_enabled = ea_dns_discovery_enabled a, ea_channel_capacity = map_option unat (ea_channel_capacity a),
     ea_max_chunk_size_bytes = map_option unat (ea_max_chunk_size_bytes a), ea_handle_ttl = ea_handle_ttl a,
     ea_sweep_interval = ea_sweep_interval a, ea_max_pooled_connections = map_option unat (ea_max_pooled_connections a),
     ea_pool_idle_timeout_ms = ea_pool_idle_timeout_ms a, ea_disable_networking = ea_disable_networking a, ea_proxy_url = ea_proxy_url a,
     ea_proxy_from_env = ea_proxy_from_env a, ea_keylog = ea_keylog a, ea_compression_level = ea_compression_level a,
     ea_compression_min_body_bytes = map_option unat (ea_compression_min_body_bytes a), ea_max_header_bytes = ea_max_header_bytes a\<rparr>"

definition map_serve :: "('a \<Rightarrow> 'b) \<Rightarrow> 'a serve_args \<Rightarrow> 'b serve_args" where
  "map_serve f a = \<lparr>va_max_concurrency = map_option f (va_max_concurrency a), va_max_connections_per_peer = map_option f (va_max_connections_per_peer a),
     va_request_timeout = va_request_timeout a, va_request_head_timeout = va_request_head_timeout a,
     va_body_idle_timeout = va_body_idle_timeout a, va_max_request_body_wire_bytes = va_max_request_body_wire_bytes a,
     va_max_request_body_decoded_bytes = va_max_request_body_decoded_bytes a, va_max_total_connections = va_max_total_connections a,
     va_drain_timeout = va_drain_timeout a, va_load_shed = va_load_shed a, va_decompress = va_decompress a\<rparr>"

definition no_endpoint_args :: "('k, 'n) endpoint_args" where
  "no_endpoint_args = \<lparr>ea_key = None, ea_idle_timeout = None, ea_relay_mode = None, ea_relays = None, ea_bind_addrs = None,
     ea_dns_discovery = None, ea_dns_discovery_enabled = None, ea_channel_capacity = None, ea_max_chunk_size_bytes = None,
     ea_handle_ttl = None, ea_sweep_interval = None, ea_max_pooled_connections = None, ea_pool_idle_timeout_ms = None,
     ea_disable_networking = None, ea_proxy_url = None, ea_proxy_from_env = None, ea_keylog = None, ea_compression_level = None,
     ea_compression_min_body_bytes = None, ea_max_header_bytes = None\<rparr>"

lemma raw_serve_of_map [simp]: "raw_serve_of (map_serve f a) = raw_serve_of a"
  by (simp add: raw_serve_of_def map_serve_def)

lemma as_u64_of_nat [simp]: "n < 2 ^ 64 \<Longrightarrow> as_u64 (Finite (of_nat n)) = Some n"
  by (simp add: as_u64_def)

lemma tauri_desktop: "tauri_create_endpoint A b64 None args = tauri_endpoint_options A b64 args"
  by (simp add: tauri_create_endpoint_def split: sum.splits)

lemma deno_tauri_create: "deno_create_endpoint A b64 a = Inr opts \<longleftrightarrow> tauri_create_endpoint A b64 None (Some a) = Inr opts"
  by (simp add: deno_create_endpoint_def tauri_desktop tauri_endpoint_options_def split: sum.splits)

lemma deno_tauri_errors:
  "check_opt (key_base64 b64) (ea_key a) = Inr k \<Longrightarrow> deno_create_endpoint A b64 a = tauri_create_endpoint A b64 None (Some a)"
  "check_opt (key_base64 b64) (ea_key a) = Inl e \<Longrightarrow> deno_create_endpoint A b64 a = Inl e"
  by (simp_all add: deno_create_endpoint_def tauri_desktop tauri_endpoint_options_def split: sum.splits)

lemma mobile_changes_nameservers:
  assumes "tauri_create_endpoint A b64 dns args = Inr opts"
  shows "\<exists>o'. tauri_create_endpoint A b64 None args = Inr o'
     \<and> opts = o'\<lparr>nd_discovery := (nd_discovery o')\<lparr>do_dns_nameservers := do_dns_nameservers (nd_discovery opts)\<rparr>\<rparr>
     \<and> (no_disabled (nd_networking o') \<longrightarrow> opts = o')"
  using assms by (auto simp: tauri_create_endpoint_def should_query_mobile_dns_def split: sum.splits option.splits if_splits)

lemma key_widen: "\<forall>k. b64 (enc k) = Some k \<Longrightarrow> check_opt (key_base64 b64) (map_option enc x) = check_opt key_32 x"
  by (cases x) (simp_all add: check_opt_def key_base64_def)

lemma node_tauri_create:
  assumes "\<forall>k. b64 (enc k) = Some k"
  shows "node_create_endpoint A (Some a) = tauri_create_endpoint A b64 None (Some (widen enc a))"
  using key_widen [OF assms, of "ea_key a"]
  by (auto simp: node_create_endpoint_def tauri_desktop tauri_endpoint_options_def widen_def split: sum.splits)

lemma deno_default: "deno_create_endpoint A b64 no_endpoint_args = Inr default_node_options"
  by (simp add: deno_create_endpoint_def no_endpoint_args_def check_opt_def coerce_endpoint_options_def try_then_def
      default_node_options_def discovery_options_new_def default_discovery_options_def unwrap_or_def)

lemma node_tauri_serve: "node_raw_serve A (Some v) = tauri_serve A (map_serve unat v)"
  by (simp add: node_raw_serve_def tauri_serve_def Let_def unwrap_or_def split: sum.splits) (simp add: map_serve_def)

text \<open>The limits of a Deno payload as the package reads them: a number that is no unsigned 64-bit integer is as good as absent.\<close>

definition u64_limits :: "js_number serve_args \<Rightarrow> nat serve_args" where
  "u64_limits a = \<lparr>va_max_concurrency = Option.bind (va_max_concurrency a) as_u64,
     va_max_connections_per_peer = Option.bind (va_max_connections_per_peer a) as_u64,
     va_request_timeout = va_request_timeout a, va_request_head_timeout = va_request_head_timeout a,
     va_body_idle_timeout = va_body_idle_timeout a, va_max_request_body_wire_bytes = va_max_request_body_wire_bytes a,
     va_max_request_body_decoded_bytes = va_max_request_body_decoded_bytes a, va_max_total_connections = va_max_total_connections a,
     va_drain_timeout = va_drain_timeout a, va_load_shed = va_load_shed a, va_decompress = va_decompress a\<rparr>"

lemma deno_tauri_serve: "deno_serve_start A v = tauri_serve A (u64_limits v)"
proof -
  have "raw_serve_of (u64_limits v) = raw_serve_of v" by (simp add: raw_serve_of_def u64_limits_def)
  then show ?thesis by (simp add: deno_serve_start_def tauri_serve_def split: sum.splits) (simp add: u64_limits_def)
qed

lemma u64_limits_exact:
  assumes "\<forall>n. va_max_concurrency v = Some n \<or> va_max_connections_per_peer v = Some n \<longrightarrow> n < 2 ^ 64"
  shows "u64_limits (map_serve (\<lambda>n. Finite (of_nat n)) v) = v"
proof -
  have "Option.bind (map_option (\<lambda>n. Finite (of_nat n)) x) as_u64 = x" if "\<forall>n. x = Some n \<longrightarrow> n < 2 ^ 64" for x :: "nat option"
    using that by (cases x) (simp_all add: as_u64_of_nat)
  then show ?thesis using assms by (simp add: u64_limits_def map_serve_def)
qed

text \<open>Property C37.  What the three packages make of the same options.
  Creating an endpoint: Deno accepts an argument object exactly when Tauri on a desktop does, and both then build the same configuration;
  they also report the same error if the key is acceptable, while for an unacceptable key Deno reports that first, whatever else is wrong.  Node, which
  takes the key as bytes and sizes as 32-bit integers, behaves as Tauri does on the base64 key and the same sizes, errors included.  With no
  arguments all of them use the core's defaults.  On a mobile platform a successful creation differs from the desktop one in the
  nameservers only, and not at all when networking is disabled.
  Serving: Node's options are Tauri's, errors included; Deno's are Tauri's with the limits that are unsigned 64-bit integers, while any other
  number in one of the two limits is ignored.\<close>

theorem packages_agree_on_options:
  assumes b64: "\<forall>k. b64 (enc k) = Some k"
  shows "(deno_create_endpoint A b64 a = Inr opts \<longleftrightarrow> tauri_create_endpoint A b64 None (Some a) = Inr opts)
    \<and> (case check_opt (key_base64 b64) (ea_key a) of
         Inr _ \<Rightarrow> deno_create_endpoint A b64 a = tauri_create_endpoint A b64 None (Some a)
       | Inl e \<Rightarrow> deno_create_endpoint A b64 a = Inl e)
    \<and> node_create_endpoint A (Some na) = tauri_create_endpoint A b64 None (Some (widen enc na))
    \<and> deno_create_endpoint A b64 no_endpoint_args = Inr default_node_options
    \<and> tauri_create_endpoint A b64 None None = Inr default_node_options \<and> node_create_endpoint A None = Inr default_node_options
    \<and> (tauri_create_endpoint A b64 dns args = Inr mobile \<longrightarrow>
         (\<exists>desktop. tauri_create_endpoint A b64 None args = Inr desktop
            \<and> mobile = desktop\<lparr>nd_discovery := (nd_discovery desktop)\<lparr>do_dns_nameservers := do_dns_nameservers (nd_discovery mobile)\<rparr>\<rparr>
            \<and> (no_disabled (nd_networking desktop) \<longrightarrow> mobile = desktop)))
    \<and> node_raw_serve A (Some nv) = tauri_serve A (map_serve unat nv)
    \<and> deno_serve_start A dv = tauri_serve A (u64_limits dv)
    \<and> ((\<forall>n. va_max_concurrency v = Some n \<or> va_max_connections_per_peer v = Some n \<longrightarrow> n < 2 ^ 64)
         \<longrightarrow> u64_limits (map_serve (\<lambda>n. Finite (of_nat n)) v) = v)"
proof -
  have "case check_opt (key_base64 b64) (ea_key a) of
         Inr _ \<Rightarrow> deno_create_endpoint A b64 a = tauri_create_endpoint A b64 None (Some a)
       | Inl e \<Rightarrow> deno_create_endpoint A b64 a = Inl e"
    using deno_tauri_errors by (auto split: sum.splits)
  moreover have "tauri_create_endpoint A b64 None None = Inr default_node_options" "node_create_endpoint A None = Inr default_node_options"
    by (simp_all add: tauri_desktop tauri_endpoint_options_def node_create_endpoint_def)
  ultimately show ?thesis
    using deno_tauri_create node_tauri_create [OF b64] deno_default mobile_changes_nameservers deno_tauri_serve node_tauri_serve
      u64_limits_exact by blast
qed

theorem packages_agree_on_options_witness:
  "node_create_endpoint \<lparr>show_f64 = \<lambda>_. [], json_string = \<lambda>s. s\<rparr> (Some (no_endpoint_args\<lparr>ea_key := Some (replicate 32 7), ea_channel_capacity := Some 8\<rparr>))
     = tauri_create_endpoint \<lparr>show_f64 = \<lambda>_. [], json_string = \<lambda>s. s\<rparr> (\<lambda>t. Some (map (\<lambda>c. of_nat (of_char c)) t)) None
         (Some (widen (map (\<lambda>b. char_of (unat b))) (no_endpoint_args\<lparr>ea_key := Some (replicate 32 7), ea_channel_capacity := Some 8\<rparr>)))
   \<and> deno_serve_start \<lparr>show_f64 = \<lambda>_. [], json_string = \<lambda>s. s\<rparr> (map_serve (\<lambda>n. Finite (of_nat n)) (no_serve_args\<lparr>va_max_concurrency := Some 4\<rparr>))
     = tauri_serve \<lparr>show_f64 = \<lambda>_. [], json_string = \<lambda>s. s\<rparr> (no_serve_args\<lparr>va_max_concurrency := Some 4\<rparr>)"
proof -
  have "of_nat (of_char (char_of (unat b))) = b" for b :: u8
    using unsigned_less [where w = b and 'a = nat] by simp
  then have b64: "\<forall>k. (\<lambda>t. Some (map (\<lambda>c. of_nat (of_char c) :: u8) t)) (map (\<lambda>b. char_of (unat b)) k) = Some k"
    by (simp add: comp_def)
  have fits: "\<forall>n. va_max_concurrency (no_serve_args\<lparr>va_max_concurrency := Some (4 :: nat)\<rparr>) = Some n
      \<or> va_max_connections_per_peer (no_serve_args\<lparr>va_max_concurrency := Some 4\<rparr>) = Some n \<longrightarrow> n < 2 ^ 64"
    by (simp add: no_serve_args_def)
  show ?thesis using packages_agree_on_options [OF b64] fits by metis
qed

section \<open>A request body is attached once\<close>

lemma claim_body_claims: "claim_body (Some h) s = (r, s1) \<Longrightarrow> map_of (pending_readers s1) h = None"
  by (auto simp: claim_body_def claim_pending_reader_def)

lemma pending_drop_claimed [simp]: "pending_readers (drop_claimed ops r s) = pending_readers s"
  by (simp add: drop_claimed_def on_mem_def split: option.splits)

lemma pending_alloc_fetch_token [simp]: "pending_readers (snd (alloc_fetch_token L s)) = pending_readers s"
  by (simp add: alloc_fetch_token_def split: prod.splits)

text \<open>What the three packages do up to and including the parsing of the addresses.\<close>

lemma fetch_claims:
  assumes "coerce_fetch_options A (raw_fetch_of q) = Inr fo"
  shows "fq_req_body_handle q = Some h \<Longrightarrow> map_of (pending_readers (snd (tauri_fetch A ops q s))) h = None"
    and "fq_req_body_handle q = Some h \<Longrightarrow> map_of (pending_readers (snd (deno_raw_fetch A L ops q s))) h = None"
    and "lossless \<Longrightarrow> map_of (pending_readers (snd (node_raw_fetch A ops q (Some (sign, h, lossless)) token s))) h = None"
proof -
  obtain r s1 where c: "claim_body (Some h) s = (r, s1)" by (metis surj_pair)
  have n: "map_of (pending_readers s1) h = None" by (rule claim_body_claims [OF c])
  show "map_of (pending_readers (snd (tauri_fetch A ops q s))) h = None" if "fq_req_body_handle q = Some h"
    using that assms c n by (simp add: tauri_fetch_def split: sum.splits)
  show "map_of (pending_readers (snd (deno_raw_fetch A L ops q s))) h = None" if "fq_req_body_handle q = Some h"
    using that assms c n pending_alloc_fetch_token [of L s1]
    by (cases "alloc_fetch_token L s1") (auto simp: deno_raw_fetch_def split: sum.splits option.splits)
  show "map_of (pending_readers (snd (node_raw_fetch A ops q (Some (sign, h, lossless)) token s))) h = None" if lossless
    using that assms c n by (simp add: node_raw_fetch_def check_opt_def node_get_handle_def split: sum.splits prod.splits)
qed

lemma no_reader_no_body:
  assumes "map_of (pending_readers s) h = None"
  shows "fq_req_body_handle q = Some h \<Longrightarrow> fst (tauri_fetch A ops q s) = Inr cf \<Longrightarrow> cf_reader cf = None"
    and "fq_req_body_handle q = Some h \<Longrightarrow> fst (deno_raw_fetch A L ops q s) = Inr cf \<Longrightarrow> cf_reader cf = None"
    and "lossless \<Longrightarrow> fst (node_raw_fetch A ops q (Some (sign, h, lossless)) token s) = Inr cf \<Longrightarrow> cf_reader cf = None"
proof -
  have c: "fst (claim_body (Some h) s) = None" using assms by (simp add: claim_body_def claim_pending_reader_def)
  then obtain s1 where c': "claim_body (Some h) s = (None, s1)" by (metis prod.collapse)
  show "cf_reader cf = None" if "fq_req_body_handle q = Some h" "fst (tauri_fetch A ops q s) = Inr cf"
    using that c' by (auto simp: tauri_fetch_def split: sum.splits)
  show "cf_reader cf = None" if "fq_req_body_handle q = Some h" "fst (deno_raw_fetch A L ops q s) = Inr cf"
    using that c' by (auto simp: deno_raw_fetch_def split: sum.splits option.splits prod.splits)
  show "cf_reader cf = None" if lossless "fst (node_raw_fetch A ops q (Some (sign, h, lossless)) token s) = Inr cf"
    using that c' by (auto simp: node_raw_fetch_def check_opt_def node_get_handle_def split: sum.splits prod.splits if_splits)
qed

text \<open>In every package a body handle serves one call of fetch whose options are well formed: a later call with the same handle goes to
  the core without a body.  The first call may have failed, because the addresses are parsed after the body is claimed: repeating a
  fetch with a corrected address sends the request without its body and reports no error.\<close>

theorem body_handle_serves_one_fetch:
  assumes "coerce_fetch_options A (raw_fetch_of q) = Inr fo"
  shows "(fq_req_body_handle q = Some h \<and> fq_req_body_handle q' = Some h
      \<and> fst (tauri_fetch A ops q' (snd (tauri_fetch A ops q s))) = Inr cf \<longrightarrow> cf_reader cf = None)
    \<and> (fq_req_body_handle q = Some h \<and> fq_req_body_handle q' = Some h
      \<and> fst (deno_raw_fetch A L ops q' (snd (deno_raw_fetch A L ops q s))) = Inr cf \<longrightarrow> cf_reader cf = None)
    \<and> (fst (node_raw_fetch A ops q' (Some (False, h, True)) token' (snd (node_raw_fetch A ops q (Some (False, h, True)) token s))) = Inr cf
      \<longrightarrow> cf_reader cf = None)"
proof (intro conjI impI; (elim conjE)?)
  assume q: "fq_req_body_handle q = Some h" "fq_req_body_handle q' = Some h"
    "fst (tauri_fetch A ops q' (snd (tauri_fetch A ops q s))) = Inr cf"
  show "cf_reader cf = None" by (rule no_reader_no_body(1) [OF fetch_claims(1) [OF assms q(1)] q(2,3)])
next
  assume q: "fq_req_body_handle q = Some h" "fq_req_body_handle q' = Some h"
    "fst (deno_raw_fetch A L ops q' (snd (deno_raw_fetch A L ops q s))) = Inr cf"
  show "cf_reader cf = None" by (rule no_reader_no_body(2) [OF fetch_claims(2) [OF assms q(1)] q(2,3)])
next
  assume q: "fst (node_raw_fetch A ops q' (Some (False, h, True)) token' (snd (node_raw_fetch A ops q (Some (False, h, True)) token s))) = Inr cf"
  show "cf_reader cf = None" by (rule no_reader_no_body(3) [OF fetch_claims(3) [OF assms TrueI] TrueI q])
qed

section \<open>Numbers\<close>

text \<open>The Node package narrows a status to 16 bits before the core validates it, so a status out of range can be sent as another one.\<close>

theorem node_respond_wraps_status:
  "node_raw_respond lib b 65736 rows d = node_raw_respond lib b 200 rows d"
proof -
  have "(ucast (65736 :: u32) :: u16) = ucast (200 :: u32)" by simp
  then show ?thesis unfolding node_raw_respond_def by (simp only:)
qed

text \<open>The sign of a handle is not looked at.\<close>

theorem node_handle_ignores_sign: "node_get_handle (True, v, lossless) = node_get_handle (False, v, lossless)"
  by (simp add: node_get_handle_def)

text \<open>A concurrency limit that is no unsigned integer is the same as none for Deno.\<close>

theorem deno_ignores_invalid_limit:
  assumes "as_u64 n = None"
  shows "deno_serve_start A (a\<lparr>va_max_concurrency := Some n\<rparr>) = deno_serve_start A (a\<lparr>va_max_concurrency := None\<rparr>)"
  using assms by (simp add: deno_serve_start_def raw_serve_of_def split: sum.splits)

end
