(* ===== verification/Native_Actor.thy ===== *)
theory Native_Actor
  imports Dns_Sd_Props Tauri_Scheme "HOL-Library.Char_ord" "HOL-Library.List_Lexorder"
begin

text \<open>
  \<^verbatim>\<open>src/packages/iroh-http-tauri/src/mobile_discovery_transport.rs\<close>: browse and advertisement handles on top of the native
  DNS-SD of a mobile platform.  Each handle sends commands to an actor, which alone talks to the platform.

  The platform's answers are arguments.  The two handles have the same command queue, close protocol and end of the
  actor, written once here over the type of requests, of replies, of the actor's work and of its local data.  The
  queue, the closing flag under its lock, the actor between two awaits and each waiter for the close result
  interleave freely.
\<close>

section \<open>Records of the platform\<close>

datatype mobile_session_status = MobileActive | MobileClosed | MobileFailed

record mobile_service_record =
  ms_is_active :: bool
  ms_service_type :: string
  ms_instance_name :: string
  ms_host :: "string option"
  ms_port :: u16
  ms_addrs :: "string list"
  ms_txt :: "(string \<times> string) list" \<comment> \<open>a hash map\<close>

record dns_sd_browse_poll_response =
  bp_status :: mobile_session_status
  bp_records :: "mobile_service_record list"
  bp_error :: "string option"

definition short_type :: "string \<Rightarrow> string" where
  "short_type v = (case strip_suffix ''.local'' (trim_end_matches ''.'' v) of
     Some t \<Rightarrow> t | None \<Rightarrow> trim_end_matches ''.'' v)"

definition equivalent_service_type :: "string \<Rightarrow> string \<Rightarrow> bool" where
  "equivalent_service_type native configured \<longleftrightarrow> eq_ignore_ascii_case (short_type native) (short_type configured)"

fun parse_mobile_addrs :: "string list \<Rightarrow> transport_error + sock_addr list" where
  "parse_mobile_addrs [] = Inr []"
| "parse_mobile_addrs (a # as) = (case parse_sock_addr a of
     None \<Rightarrow> Inl (''native DNS-SD returned an invalid socket address: '' @ a)
   | Some sa \<Rightarrow> (case parse_mobile_addrs as of Inl e \<Rightarrow> Inl e | Inr sas \<Rightarrow> Inr (sa # sas)))"

text \<open>\<open>dbg\<close> is the debug form of a string.\<close>

definition raw_event_from_mobile :: "(string \<Rightarrow> string) \<Rightarrow> mobile_service_record \<Rightarrow> string \<Rightarrow> transport_error + raw_event" where
  "raw_event_from_mobile dbg r ty =
     (if \<not> equivalent_service_type (ms_service_type r) ty
      then Inl (''native DNS-SD returned service type '' @ dbg (ms_service_type r) @ '' for '' @ dbg ty)
      else if \<not> ms_is_active r then Inr (RawRemove ty (ms_instance_name r))
      else (case parse_mobile_addrs (ms_addrs r) of
          Inl e \<Rightarrow> Inl e
        | Inr addrs \<Rightarrow> Inr (RawUpsert \<lparr>sr_is_active = True, sr_service_type = ty, sr_instance_name = ms_instance_name r,
            sr_host = ms_host r, sr_port = ms_port r, sr_addrs = addrs, sr_txt = sort_key fst (ms_txt r)\<rparr>)))"

section \<open>The close result\<close>

text \<open>A call of \<open>wait\<close>: about to look at the result, waiting, or returned.  The flag says whether its \<open>Notified\<close> has been
  woken since it was created, which is before the look.\<close>

datatype close_waiter = WaitCheck bool | WaitPark bool | WaitGot "transport_error + unit"

record close_outcome =
  co_result :: "(transport_error + unit) option"
  co_waiters :: "close_waiter list"

definition close_outcome_new :: close_outcome where
  "close_outcome_new = \<lparr>co_result = None, co_waiters = []\<rparr>"

fun wake_waiter :: "close_waiter \<Rightarrow> close_waiter" where
  "wake_waiter (WaitCheck _) = WaitCheck True"
| "wake_waiter (WaitPark _) = WaitPark True"
| "wake_waiter (WaitGot r) = WaitGot r"

definition outcome_complete :: "transport_error + unit \<Rightarrow> close_outcome \<Rightarrow> close_outcome" where
  "outcome_complete r c = (case co_result c of
     None \<Rightarrow> \<lparr>co_result = Some r, co_waiters = map wake_waiter (co_waiters c)\<rparr> | Some _ \<Rightarrow> c)"

definition outcome_wait :: "close_outcome \<Rightarrow> close_outcome" where
  "outcome_wait c = c\<lparr>co_waiters := co_waiters c @ [WaitCheck False]\<rparr>"

text \<open>One poll of a waiter; \<open>None\<close> when it cannot move.\<close>

fun waiter_poll :: "(transport_error + unit) option \<Rightarrow> close_waiter \<Rightarrow> close_waiter option" where
  "waiter_poll res (WaitCheck n) = Some (case res of Some r \<Rightarrow> WaitGot r | None \<Rightarrow> WaitPark n)"
| "waiter_poll res (WaitPark n) = (if n then Some (WaitCheck False) else None)"
| "waiter_poll res (WaitGot r) = None"

section \<open>Handles and actors\<close>

datatype 'q native_command = NativeCall nat 'q | NativeClose

datatype ('p, 'r) native_phase = Receiving | Working nat 'p | Stopping "(nat \<times> 'r) option" | Ended

text \<open>Calls are numbered in the order in which they reach the handle; \<open>nh_replies\<close> has the answers that were sent to the
  calls, in the order in which they are given, and \<open>nh_aborted\<close> the calls whose future was dropped before they had taken
  their answer: the sender ignores that nobody receives it, and the answer is lost.  \<open>nh_open\<close>: the handle, which owns
  the sending side, has not been dropped.\<close>

record ('q, 'p, 'r, 'd) native_handle =
  nh_closing :: bool
  nh_open :: bool
  nh_queue :: "'q native_command list"
  nh_phase :: "('p, 'r) native_phase"
  nh_calls :: nat
  nh_replies :: "(nat \<times> 'r) list"
  nh_aborted :: "nat list"
  nh_outcome :: close_outcome
  nh_stops :: nat
  nh_data :: 'd

definition native_new :: "'d \<Rightarrow> ('q, 'p, 'r, 'd) native_handle" where
  "native_new d = \<lparr>nh_closing = False, nh_open = True, nh_queue = [], nh_phase = Receiving, nh_calls = 0, nh_replies = [],
     nh_aborted = [], nh_outcome = close_outcome_new, nh_stops = 0, nh_data = d\<rparr>"

definition native_reply :: "nat \<Rightarrow> 'r \<Rightarrow> ('q, 'p, 'r, 'd) native_handle \<Rightarrow> ('q, 'p, 'r, 'd) native_handle" where
  "native_reply i r s = s\<lparr>nh_replies := nh_replies s @ [(i, r)]\<rparr>"

text \<open>A call of the handle: refused when the handle is closing or the actor is gone, with the answer \<open>dead\<close>.\<close>

definition native_call :: "'r \<Rightarrow> 'q \<Rightarrow> ('q, 'p, 'r, 'd) native_handle \<Rightarrow> ('q, 'p, 'r, 'd) native_handle" where
  "native_call dead q s =
     (if nh_closing s \<or> nh_phase s = Ended then native_reply (nh_calls s) dead (s\<lparr>nh_calls := Suc (nh_calls s)\<rparr>)
      else s\<lparr>nh_calls := Suc (nh_calls s), nh_queue := nh_queue s @ [NativeCall (nh_calls s) q]\<rparr>)"

definition native_request_close :: "('q, 'p, 'r, 'd) native_handle \<Rightarrow> ('q, 'p, 'r, 'd) native_handle" where
  "native_request_close s =
     (if nh_closing s then s
      else if nh_phase s = Ended then s\<lparr>nh_closing := True, nh_outcome := outcome_complete (Inr ()) (nh_outcome s)\<rparr>
      else s\<lparr>nh_closing := True, nh_queue := nh_queue s @ [NativeClose]\<rparr>)"

definition native_drop :: "('q, 'p, 'r, 'd) native_handle \<Rightarrow> ('q, 'p, 'r, 'd) native_handle" where
  "native_drop s = s\<lparr>nh_open := False\<rparr>"

text \<open>The caller of a pending call drops its future, and with it the receiving side of the reply channel.\<close>

definition native_abort :: "nat \<Rightarrow> ('q, 'p, 'r, 'd) native_handle \<Rightarrow> ('q, 'p, 'r, 'd) native_handle" where
  "native_abort i s = s\<lparr>nh_aborted := i # nh_aborted s\<rparr>"

text \<open>The actor returns: the receiver goes, and with it the reply channels of the commands still queued, whose callers
  then get the answer \<open>dead\<close>.\<close>

fun queued_calls :: "'q native_command list \<Rightarrow> nat list" where
  "queued_calls [] = []"
| "queued_calls (NativeCall i q # cs) = i # queued_calls cs"
| "queued_calls (NativeClose # cs) = queued_calls cs"

definition native_return :: "'r \<Rightarrow> ('q, 'p, 'r, 'd) native_handle \<Rightarrow> ('q, 'p, 'r, 'd) native_handle" where
  "native_return dead s = s\<lparr>nh_phase := Ended, nh_queue := [], nh_replies := nh_replies s @ map (\<lambda>i. (i, dead)) (queued_calls (nh_queue s))\<rparr>"

text \<open>\<open>close_native_browse\<close> and \<open>close_native_advertisement\<close> once the platform has answered, the reply that was held back and
  the return.\<close>

definition native_stop :: "'r \<Rightarrow> transport_error + unit \<Rightarrow> ('q, 'p, 'r, 'd) native_handle \<Rightarrow> ('q, 'p, 'r, 'd) native_handle" where
  "native_stop dead res s = (case nh_phase s of
     Stopping k \<Rightarrow>
       (let s1 = s\<lparr>nh_outcome := outcome_complete res (nh_outcome s), nh_stops := Suc (nh_stops s)\<rparr> in
        native_return dead (case k of None \<Rightarrow> s1 | Some (i, r) \<Rightarrow> native_reply i r s1))
   | _ \<Rightarrow> s)"

text \<open>The head of the loop; \<open>start\<close> is what the actor does with a call.\<close>

definition native_receive :: "(nat \<Rightarrow> 'q \<Rightarrow> ('q, 'p, 'r, 'd) native_handle \<Rightarrow> ('q, 'p, 'r, 'd) native_handle)
     \<Rightarrow> ('q, 'p, 'r, 'd) native_handle \<Rightarrow> ('q, 'p, 'r, 'd) native_handle" where
  "native_receive start s = (case nh_queue s of
     [] \<Rightarrow> if nh_open s then s else s\<lparr>nh_phase := Stopping None\<rparr>
   | NativeCall i q # cs \<Rightarrow> start i q (s\<lparr>nh_queue := cs\<rparr>)
   | NativeClose # cs \<Rightarrow> s\<lparr>nh_queue := cs, nh_phase := Stopping None\<rparr>)"

section \<open>Browsing\<close>

datatype browse_work = BrowsePolling | BrowsePausing

text \<open>The buffered events; \<open>bd_batches\<close> keeps every batch that the platform has returned, of any status, for reference.\<close>

record browse_data =
  bd_buffered :: "raw_event list"
  bd_batches :: "dns_sd_browse_poll_response list"

type_synonym native_browse = "(unit, browse_work, browse_outcome, browse_data) native_handle"

definition native_browse_new :: native_browse where
  "native_browse_new = native_new \<lparr>bd_buffered = [], bd_batches = []\<rparr>"

definition native_browse_next :: "native_browse \<Rightarrow> native_browse" where
  "native_browse_next s = native_call (Inr None) () s"

definition browse_start :: "nat \<Rightarrow> unit \<Rightarrow> native_browse \<Rightarrow> native_browse" where
  "browse_start i q s = (case bd_buffered (nh_data s) of
     e # es \<Rightarrow> native_reply i (Inr (Some e)) (s\<lparr>nh_data := (nh_data s)\<lparr>bd_buffered := es\<rparr>\<rparr>)
   | [] \<Rightarrow> s\<lparr>nh_phase := Working i BrowsePolling\<rparr>)"

text \<open>Converting a batch: what was converted up to the first record that cannot be.\<close>

fun convert_records :: "(string \<Rightarrow> string) \<Rightarrow> string \<Rightarrow> mobile_service_record list \<Rightarrow> raw_event list \<times> transport_error option" where
  "convert_records dbg ty [] = ([], None)"
| "convert_records dbg ty (r # rs) = (case raw_event_from_mobile dbg r ty of
     Inl e \<Rightarrow> ([], Some e)
   | Inr ev \<Rightarrow> (case convert_records dbg ty rs of (evs, err) \<Rightarrow> (ev # evs, err)))"

definition push_events :: "raw_event list \<Rightarrow> browse_data \<Rightarrow> browse_data" where
  "push_events evs d = d\<lparr>bd_buffered := bd_buffered d @ evs\<rparr>"

definition log_batch :: "dns_sd_browse_poll_response \<Rightarrow> browse_data \<Rightarrow> browse_data" where
  "log_batch b d = d\<lparr>bd_batches := bd_batches d @ [b]\<rparr>"

definition browse_poll :: "(string \<Rightarrow> string) \<Rightarrow> string \<Rightarrow> string + dns_sd_browse_poll_response \<Rightarrow> nat \<Rightarrow> native_browse \<Rightarrow> native_browse" where
  "browse_poll dbg ty answer i s = (case answer of
     Inl e \<Rightarrow> s\<lparr>nh_phase := Stopping (Some (i, Inl e))\<rparr>
   | Inr batch \<Rightarrow> (let s0 = s\<lparr>nh_data := log_batch batch (nh_data s)\<rparr> in case bp_status batch of
       MobileActive \<Rightarrow> (case convert_records dbg ty (bp_records batch) of (evs, err) \<Rightarrow>
         (let s1 = s0\<lparr>nh_data := push_events evs (nh_data s0)\<rparr> in
          case err of
            Some e \<Rightarrow> s1\<lparr>nh_phase := Stopping (Some (i, Inl e))\<rparr>
          | None \<Rightarrow> (case bd_buffered (nh_data s1) of
              e # es \<Rightarrow> native_reply i (Inr (Some e)) (s1\<lparr>nh_data := (nh_data s1)\<lparr>bd_buffered := es\<rparr>, nh_phase := Receiving\<rparr>)
            | [] \<Rightarrow> s1\<lparr>nh_phase := Working i BrowsePausing\<rparr>)))
     | MobileClosed \<Rightarrow> native_return (Inr None)
         ((native_reply i (Inr None) s0)\<lparr>nh_outcome := outcome_complete (Inr ()) (nh_outcome s0)\<rparr>)
     | MobileFailed \<Rightarrow> s0\<lparr>nh_phase := Stopping (Some (i, Inl (unwrap_or (bp_error batch) ''native browse failed'')))\<rparr>))"

definition NEXT_NOT_SERIALIZED :: string where
  "NEXT_NOT_SERIALIZED = ''native browse next calls must be serialized''"

text \<open>The wait of 250 ms for a command: a queued command is taken; an empty queue ends the wait by the timeout, or
  at once when the handle is gone.\<close>

definition browse_pause :: "nat \<Rightarrow> native_browse \<Rightarrow> native_browse" where
  "browse_pause i s = (case nh_queue s of
     [] \<Rightarrow> s\<lparr>nh_phase := Working i BrowsePolling\<rparr>
   | NativeClose # cs \<Rightarrow> (native_reply i (Inr None) s)\<lparr>nh_queue := cs, nh_phase := Stopping None\<rparr>
   | NativeCall j q # cs \<Rightarrow> (native_reply j (Inl NEXT_NOT_SERIALIZED) s)\<lparr>nh_queue := cs, nh_phase := Working i BrowsePolling\<rparr>)"

inductive browse_work_step :: "(string \<Rightarrow> string) \<Rightarrow> string \<Rightarrow> native_browse \<Rightarrow> native_browse \<Rightarrow> bool" for dbg ty where
  bw_poll: "nh_phase s = Working i BrowsePolling \<Longrightarrow> browse_work_step dbg ty s (browse_poll dbg ty answer i s)"
| bw_pause: "nh_phase s = Working i BrowsePausing \<Longrightarrow> browse_work_step dbg ty s (browse_pause i s)"

section \<open>Advertising\<close>

text \<open>The actor's work is the update it has passed to the platform; the data are the updates the platform has accepted.\<close>

type_synonym native_advertisement =
  "(advertisement_update, advertisement_update, transport_error + unit, (nat \<times> advertisement_update) list) native_handle"

definition ADVERTISEMENT_CLOSED :: string where "ADVERTISEMENT_CLOSED = ''advertisement is closed''"

definition native_advertisement_new :: native_advertisement where
  "native_advertisement_new = native_new []"

definition native_advertisement_update :: "advertisement_update \<Rightarrow> native_advertisement \<Rightarrow> native_advertisement" where
  "native_advertisement_update u s = native_call (Inl ADVERTISEMENT_CLOSED) u s"

definition advertisement_start :: "nat \<Rightarrow> advertisement_update \<Rightarrow> native_advertisement \<Rightarrow> native_advertisement" where
  "advertisement_start i u s = s\<lparr>nh_phase := Working i u\<rparr>"

definition advertisement_answer :: "string + unit \<Rightarrow> nat \<Rightarrow> advertisement_update \<Rightarrow> native_advertisement \<Rightarrow> native_advertisement" where
  "advertisement_answer answer i u s = (case answer of
     Inr _ \<Rightarrow> native_reply i (Inr ()) (s\<lparr>nh_data := nh_data s @ [(i, u)], nh_phase := Receiving\<rparr>)
   | Inl e \<Rightarrow> s\<lparr>nh_phase := Stopping (Some (i, Inl e))\<rparr>)"

inductive advertisement_work_step :: "native_advertisement \<Rightarrow> native_advertisement \<Rightarrow> bool" where
  aw_answer: "nh_phase s = Working i u \<Longrightarrow> advertisement_work_step s (advertisement_answer answer i u s)"

section \<open>Interleavings\<close>

text \<open>Steps of the actor and of the waiters, and the steps that users of the handle can add to them.\<close>

inductive native_internal :: "(nat \<Rightarrow> 'q \<Rightarrow> ('q, 'p, 'r, 'd) native_handle \<Rightarrow> ('q, 'p, 'r, 'd) native_handle)
    \<Rightarrow> (('q, 'p, 'r, 'd) native_handle \<Rightarrow> ('q, 'p, 'r, 'd) native_handle \<Rightarrow> bool) \<Rightarrow> 'r
    \<Rightarrow> ('q, 'p, 'r, 'd) native_handle \<Rightarrow> ('q, 'p, 'r, 'd) native_handle \<Rightarrow> bool" for start work dead where
  ni_receive: "nh_phase s = Receiving \<Longrightarrow> nh_queue s \<noteq> [] \<or> \<not> nh_open s \<Longrightarrow> native_internal start work dead s (native_receive start s)"
| ni_work: "work s s' \<Longrightarrow> native_internal start work dead s s'"
| ni_stop: "nh_phase s = Stopping k \<Longrightarrow> native_internal start work dead s (native_stop dead res s)"
| ni_wait: "k < length (co_waiters (nh_outcome s)) \<Longrightarrow> waiter_poll (co_result (nh_outcome s)) (co_waiters (nh_outcome s) ! k) = Some w
    \<Longrightarrow> native_internal start work dead s (s\<lparr>nh_outcome := (nh_outcome s)\<lparr>co_waiters := (co_waiters (nh_outcome s))[k := w]\<rparr>\<rparr>)"

inductive native_step :: "(nat \<Rightarrow> 'q \<Rightarrow> ('q, 'p, 'r, 'd) native_handle \<Rightarrow> ('q, 'p, 'r, 'd) native_handle)
    \<Rightarrow> (('q, 'p, 'r, 'd) native_handle \<Rightarrow> ('q, 'p, 'r, 'd) native_handle \<Rightarrow> bool) \<Rightarrow> 'r
    \<Rightarrow> ('q, 'p, 'r, 'd) native_handle \<Rightarrow> ('q, 'p, 'r, 'd) native_handle \<Rightarrow> bool" for start work dead where
  ns_internal: "native_internal start work dead s s' \<Longrightarrow> native_step start work dead s s'"
| ns_call: "nh_open s \<Longrightarrow> native_step start work dead s (native_call dead q s)"
| ns_close: "nh_open s \<Longrightarrow> native_step start work dead s (native_request_close s)"
| ns_closed: "nh_open s \<Longrightarrow> native_step start work dead s (s\<lparr>nh_outcome := outcome_wait (nh_outcome s)\<rparr>)"
| ns_abort: "i < nh_calls s \<Longrightarrow> native_step start work dead s (native_abort i s)"
| ns_drop: "native_step start work dead s (native_drop s)"

inductive native_reachable :: "(nat \<Rightarrow> 'q \<Rightarrow> ('q, 'p, 'r, 'd) native_handle \<Rightarrow> ('q, 'p, 'r, 'd) native_handle)
    \<Rightarrow> (('q, 'p, 'r, 'd) native_handle \<Rightarrow> ('q, 'p, 'r, 'd) native_handle \<Rightarrow> bool) \<Rightarrow> 'r \<Rightarrow> 'd
    \<Rightarrow> ('q, 'p, 'r, 'd) native_handle \<Rightarrow> bool" for start work dead d where
  nr_new: "native_reachable start work dead d (native_new d)"
| nr_step: "native_reachable start work dead d s \<Longrightarrow> native_step start work dead s s' \<Longrightarrow> native_reachable start work dead d s'"

end
