(* ===== verification/Native_Props.thy ===== *)
theory Native_Props
  imports Native_Actor "HOL-Library.Multiset" "HOL-Library.Sublist"
begin

text \<open>
  The contract of a native actor as the locale \<open>native_actor\<close>: whatever the actor does with a call, it answers it once, and
  a close request ends it.  The locale is interpreted on the browse and on the advertisement actor, which then only
  add what is special to them: the order of events and of updates.
\<close>

named_theorems native_eval

lemmas native_ops_eval [native_eval] = native_reply_def native_return_def native_new_def native_call_def native_request_close_def native_drop_def native_abort_def
  outcome_complete_def outcome_wait_def close_outcome_new_def

section \<open>What an actor may do\<close>

text \<open>With a call it has received, and in one step of its work on call \<open>i\<close>.  \<open>ev\<close> says which replies carry a result; the others are
  refusals, failures and ends.\<close>

inductive start_result :: "nat \<Rightarrow> ('q, 'p, 'r, 'd) native_handle \<Rightarrow> ('q, 'p, 'r, 'd) native_handle \<Rightarrow> bool" for i s where
  sr_work: "start_result i s (s\<lparr>nh_phase := Working i p\<rparr>)"
| sr_reply: "start_result i s (native_reply i r (s\<lparr>nh_data := d\<rparr>))"

inductive work_result :: "('r \<Rightarrow> bool) \<Rightarrow> 'r \<Rightarrow> ('p \<Rightarrow> nat) \<Rightarrow> nat \<Rightarrow> 'p \<Rightarrow> ('q, 'p, 'r, 'd) native_handle
    \<Rightarrow> ('q, 'p, 'r, 'd) native_handle \<Rightarrow> bool" for ev dead prank i p s where
  wr_stay: "prank p' < prank p \<or> nh_queue s = [] \<Longrightarrow> work_result ev dead prank i p s (s\<lparr>nh_phase := Working i p', nh_data := d\<rparr>)"
| wr_reply: "work_result ev dead prank i p s (native_reply i r (s\<lparr>nh_phase := Receiving, nh_data := d\<rparr>))"
| wr_stop: "\<not> ev r \<Longrightarrow> work_result ev dead prank i p s (s\<lparr>nh_phase := Stopping (Some (i, r)), nh_data := d\<rparr>)"
| wr_closed: "\<not> ev r \<Longrightarrow> work_result ev dead prank i p s
    (native_return dead ((native_reply i r (s\<lparr>nh_data := d\<rparr>))\<lparr>nh_outcome := outcome_complete (Inr ()) (nh_outcome s)\<rparr>))"
| wr_close: "nh_queue s = NativeClose # cs \<Longrightarrow> \<not> ev r \<Longrightarrow>
    work_result ev dead prank i p s ((native_reply i r s)\<lparr>nh_queue := cs, nh_phase := Stopping None\<rparr>)"
| wr_other: "nh_queue s = NativeCall j q # cs \<Longrightarrow> \<not> ev r \<Longrightarrow>
    work_result ev dead prank i p s ((native_reply j r s)\<lparr>nh_queue := cs, nh_phase := Working i p'\<rparr>)"

section \<open>Invariants\<close>

fun phase_call :: "('p, 'r) native_phase \<Rightarrow> nat list" where
  "phase_call (Working i p) = [i]"
| "phase_call (Stopping (Some (i, r))) = [i]"
| "phase_call _ = []"

text \<open>Every call is answered, queued or being worked on, and only one of these.\<close>

definition call_ids :: "('q, 'p, 'r, 'd) native_handle \<Rightarrow> nat multiset" where
  "call_ids s = mset (map fst (nh_replies s)) + mset (queued_calls (nh_queue s)) + mset (phase_call (nh_phase s))"

definition calls_ok :: "('q, 'p, 'r, 'd) native_handle \<Rightarrow> bool" where
  "calls_ok s \<longleftrightarrow> call_ids s = mset [0..<nh_calls s]"

fun close_waiter_ok :: "(transport_error + unit) option \<Rightarrow> close_waiter \<Rightarrow> bool" where
  "close_waiter_ok res (WaitCheck n) = True"
| "close_waiter_ok res (WaitPark n) = (n \<or> res = None)"
| "close_waiter_ok res (WaitGot r) = (res = Some r)"

definition end_ok :: "('q, 'p, 'r, 'd) native_handle \<Rightarrow> bool" where
  "end_ok s \<longleftrightarrow> (nh_phase s = Ended \<longleftrightarrow> co_result (nh_outcome s) \<noteq> None) \<and> (nh_phase s = Ended \<longrightarrow> nh_queue s = [] \<and> nh_stops s \<le> 1)
     \<and> (nh_phase s \<noteq> Ended \<longrightarrow> nh_stops s = 0)
     \<and> (nh_closing s \<and> nh_phase s = Receiving \<longrightarrow> NativeClose \<in> set (nh_queue s))
     \<and> (\<forall>i p. nh_closing s \<and> nh_phase s = Working i p \<longrightarrow> NativeClose \<in> set (nh_queue s))
     \<and> (\<forall>w \<in> set (co_waiters (nh_outcome s)). close_waiter_ok (co_result (nh_outcome s)) w)"

definition native_ok :: "('q, 'p, 'r, 'd) native_handle \<Rightarrow> bool" where
  "native_ok s \<longleftrightarrow> calls_ok s \<and> end_ok s"

lemma queued_calls_append [simp]: "queued_calls (xs @ ys) = queued_calls xs @ queued_calls ys"
  by (induction xs rule: queued_calls.induct) simp_all

lemma wake_ok: "close_waiter_ok None w \<Longrightarrow> close_waiter_ok (Some r) (wake_waiter w)"
  by (cases w) simp_all

lemma waiter_poll_ok: "close_waiter_ok res w \<Longrightarrow> waiter_poll res w = Some w' \<Longrightarrow> close_waiter_ok res w'"
  by (cases w) (auto split: option.splits if_splits)

lemma native_new_ok: "native_ok (native_new d)"
  by (simp add: native_ok_def calls_ok_def call_ids_def end_ok_def native_eval)

lemma calls_okI: "call_ids s' = call_ids s \<Longrightarrow> nh_calls s' = nh_calls s \<Longrightarrow> calls_ok s \<Longrightarrow> calls_ok s'"
  by (simp add: calls_ok_def)

lemma native_call_ids:
  "call_ids (native_call dead q s) = add_mset (nh_calls s) (call_ids s)" "nh_calls (native_call dead q s) = Suc (nh_calls s)"
  by (simp_all add: call_ids_def native_eval)

lemma native_call_ok: "native_ok s \<Longrightarrow> native_ok (native_call dead q s)"
  unfolding native_ok_def calls_ok_def native_call_ids by (auto simp: end_ok_def native_eval)

lemma native_close_ok:
  assumes "native_ok s"
  shows "native_ok (native_request_close s)"
proof -
  have "call_ids (native_request_close s) = call_ids s" "nh_calls (native_request_close s) = nh_calls s"
    by (simp_all add: call_ids_def native_eval)
  moreover have "end_ok (native_request_close s)" using assms by (auto simp: native_ok_def end_ok_def native_eval)
  ultimately show ?thesis using assms calls_okI unfolding native_ok_def by blast
qed

lemma wait_ok:
  assumes "native_ok s"
  shows "native_ok (s\<lparr>nh_outcome := outcome_wait (nh_outcome s)\<rparr>)"
  using assms by (simp add: native_ok_def calls_ok_def call_ids_def end_ok_def native_eval)

lemma drop_ok_native: "native_ok s \<Longrightarrow> native_ok (native_drop s)"
  by (simp add: native_ok_def calls_ok_def call_ids_def end_ok_def native_eval)

lemma abort_ok_native: "native_ok s \<Longrightarrow> native_ok (native_abort i s)"
  by (simp add: native_ok_def calls_ok_def call_ids_def end_ok_def native_eval)

lemma native_stop_eq:
  "nh_phase s = Stopping k \<Longrightarrow> native_stop dead res s = native_return dead
     ((case k of None \<Rightarrow> s | Some (i, r) \<Rightarrow> native_reply i r s)\<lparr>nh_outcome := outcome_complete res (nh_outcome s), nh_stops := Suc (nh_stops s)\<rparr>)"
  by (cases s) (simp add: native_stop_def Let_def native_reply_def split: option.splits prod.splits)

lemma return_end_ok:
  assumes "end_ok s" and "nh_phase s \<noteq> Ended"
  shows "end_ok (native_return dead (s\<lparr>nh_replies := rs, nh_outcome := outcome_complete res (nh_outcome s), nh_stops := Suc (nh_stops s)\<rparr>))"
    and "end_ok (native_return dead (s\<lparr>nh_replies := rs, nh_outcome := outcome_complete res (nh_outcome s)\<rparr>))"
proof -
  have n: "co_result (nh_outcome s) = None" "nh_stops s = 0" "\<forall>w \<in> set (co_waiters (nh_outcome s)). close_waiter_ok None w"
    using assms by (auto simp: end_ok_def)
  then show "end_ok (native_return dead (s\<lparr>nh_replies := rs, nh_outcome := outcome_complete res (nh_outcome s), nh_stops := Suc (nh_stops s)\<rparr>))"
    by (auto simp: end_ok_def native_return_def outcome_complete_def wake_ok)
  show "end_ok (native_return dead (s\<lparr>nh_replies := rs, nh_outcome := outcome_complete res (nh_outcome s)\<rparr>))"
    using n by (auto simp: end_ok_def native_return_def outcome_complete_def wake_ok)
qed

lemma native_stop_ok:
  assumes "native_ok s" and "nh_phase s = Stopping k"
  shows "native_ok (native_stop dead res s)"
proof -
  have "call_ids (native_stop dead res s) = call_ids s" "nh_calls (native_stop dead res s) = nh_calls s"
    using assms(2) by (simp_all add: call_ids_def native_stop_eq native_reply_def native_return_def comp_def split: option.splits)
  moreover have "end_ok (native_stop dead res s)"
  proof (cases k)
    case None
    then show ?thesis using assms return_end_ok(1) [of s dead _ "nh_replies s"] by (simp add: native_ok_def native_stop_eq)
  next
    case (Some ir)
    then show ?thesis using assms return_end_ok(1) [of s dead _ "nh_replies s @ [ir]"]
      by (simp add: native_ok_def native_stop_eq native_reply_def split: prod.splits)
  qed
  ultimately show ?thesis using assms(1) calls_okI unfolding native_ok_def by blast
qed

lemma start_ok:
  assumes "start_result i (s\<lparr>nh_queue := cs\<rparr>) s'" and "native_ok s" and "nh_phase s = Receiving" and "nh_queue s = NativeCall i q # cs"
  shows "native_ok s'"
proof -
  have "call_ids s' = call_ids s \<and> nh_calls s' = nh_calls s \<and> end_ok s'"
    using assms by (cases rule: start_result.cases) (auto simp: call_ids_def native_ok_def end_ok_def native_reply_def)
  then show ?thesis using assms(2) calls_okI unfolding native_ok_def by blast
qed

lemma work_ok:
  assumes "work_result ev dead prank i p s s'" and "native_ok s" and "nh_phase s = Working i p"
  shows "native_ok s'"
proof -
  have e: "end_ok s" using assms(2) by (simp add: native_ok_def)
  have "call_ids s' = call_ids s \<and> nh_calls s' = nh_calls s"
    using assms(1,3) by (cases rule: work_result.cases) (simp_all add: call_ids_def native_reply_def native_return_def comp_def)
  moreover have "end_ok s'"
    using assms(1)
  proof (cases rule: work_result.cases)
    case (wr_closed r d)
    have "end_ok (s\<lparr>nh_data := d\<rparr>)" using e by (simp add: end_ok_def)
    then show ?thesis using return_end_ok(2) [of "s\<lparr>nh_data := d\<rparr>"] assms(3) wr_closed by (simp add: native_reply_def)
  qed (use e assms(3) in \<open>auto simp: end_ok_def native_reply_def\<close>)
  ultimately show ?thesis using assms(2) calls_okI unfolding native_ok_def by blast
qed

section \<open>Order\<close>

text \<open>The calls that got a result, in the order of the replies, then the one worked on and those queued are in the order in
  which they were made.\<close>

definition result_replies :: "('r \<Rightarrow> bool) \<Rightarrow> ('q, 'p, 'r, 'd) native_handle \<Rightarrow> (nat \<times> 'r) list" where
  "result_replies ev s = filter (\<lambda>ir. ev (snd ir)) (nh_replies s)"

definition call_order_ok :: "('r \<Rightarrow> bool) \<Rightarrow> ('q, 'p, 'r, 'd) native_handle \<Rightarrow> bool" where
  "call_order_ok ev s \<longleftrightarrow>
     sorted_wrt (<) (map fst (result_replies ev s) @ phase_call (nh_phase s) @ queued_calls (nh_queue s) @ [nh_calls s])
     \<and> (\<forall>i r. nh_phase s = Stopping (Some (i, r)) \<longrightarrow> \<not> ev r)"

lemma filter_dead [simp]: "\<not> ev dead \<Longrightarrow> filter (\<lambda>ir. ev (snd ir)) (map (\<lambda>i. (i, dead)) xs) = []"
  by (induction xs) simp_all

lemmas order_simps = call_order_ok_def result_replies_def sorted_wrt_append native_reply_def

lemma order_call: "\<not> ev dead \<Longrightarrow> call_order_ok ev s \<Longrightarrow> call_order_ok ev (native_call dead q s)"
  by (auto simp: order_simps native_call_def)

lemma order_close: "call_order_ok ev s \<Longrightarrow> call_order_ok ev (native_request_close s)"
  by (auto simp: order_simps native_request_close_def)

lemma order_start:
  assumes "start_result i (s\<lparr>nh_queue := cs\<rparr>) s'" and "call_order_ok ev s" and "nh_phase s = Receiving" and "nh_queue s = NativeCall i q # cs"
  shows "call_order_ok ev s'"
  using assms by (cases rule: start_result.cases) (auto simp: order_simps)

lemma order_stop:
  assumes "nh_phase s = Stopping k" and "call_order_ok ev s" and "\<not> ev dead"
  shows "call_order_ok ev (native_stop dead res s)"
  using assms by (auto simp: native_stop_eq order_simps native_return_def split: option.splits)

lemma order_work:
  assumes "work_result ev dead prank i p s s'" and "call_order_ok ev s" and "nh_phase s = Working i p" and "\<not> ev dead"
  shows "call_order_ok ev s'"
  using assms by (cases rule: work_result.cases) (auto simp: order_simps native_return_def)

section \<open>How many steps are left\<close>

fun close_waiter_rank :: "(transport_error + unit) option \<Rightarrow> close_waiter \<Rightarrow> nat" where
  "close_waiter_rank (Some r) (WaitCheck n) = 1"
| "close_waiter_rank (Some r) (WaitPark n) = 2"
| "close_waiter_rank None (WaitCheck n) = (if n then 6 else 4)"
| "close_waiter_rank None (WaitPark n) = (if n then 5 else 3)"
| "close_waiter_rank _ (WaitGot r) = 0"

fun phase_rank :: "('p \<Rightarrow> nat) \<Rightarrow> ('p, 'r) native_phase \<Rightarrow> nat" where
  "phase_rank prank Ended = 0"
| "phase_rank prank (Stopping k) = 1"
| "phase_rank prank Receiving = 2"
| "phase_rank prank (Working i p) = 3 + prank p"

definition outcome_rank :: "close_outcome \<Rightarrow> nat" where
  "outcome_rank c = sum_list (map (close_waiter_rank (co_result c)) (co_waiters c))"

definition native_budget :: "('p \<Rightarrow> nat) \<Rightarrow> ('q, 'p, 'r, 'd) native_handle \<Rightarrow> nat" where
  "native_budget prank s = 4 * length (nh_queue s) + phase_rank prank (nh_phase s) + outcome_rank (nh_outcome s)"

lemma wake_rank: "close_waiter_rank (Some r) (wake_waiter w) \<le> close_waiter_rank None w"
  by (cases w) simp_all

lemma complete_rank: "outcome_rank (outcome_complete r c) \<le> outcome_rank c"
  by (cases "co_result c")
    (simp_all add: outcome_rank_def outcome_complete_def comp_def sum_list_mono wake_rank)

lemma waiter_poll_rank: "waiter_poll res w = Some w' \<Longrightarrow> close_waiter_rank res w' < close_waiter_rank res w"
  by (cases res; cases w) (auto split: if_splits)

text \<open>A step of the actor, given that a close command is queued whenever the actor is not about to stop.\<close>

lemma work_budget:
  assumes "work_result ev dead prank i p s s'" and "nh_phase s = Working i p" and "nh_queue s \<noteq> []" and "\<And>x. prank x \<le> 1"
  shows "native_budget prank s' < native_budget prank s"
  using assms(1)
proof (cases rule: work_result.cases)
  case (wr_closed r d)
  then show ?thesis using assms(2) complete_rank [of "Inr ()" "nh_outcome s"]
    by (simp add: native_budget_def native_reply_def native_return_def)
next
  case (wr_other j q cs r p')
  then show ?thesis using assms(2) assms(4) [of p'] by (simp add: native_budget_def native_reply_def)
qed (use assms in \<open>auto simp: native_budget_def native_reply_def\<close>)

lemma stop_budget:
  assumes "nh_phase s = Stopping k"
  shows "native_budget prank (native_stop dead res s) < native_budget prank s"
  using assms complete_rank [of res "nh_outcome s"]
  by (simp add: native_budget_def native_stop_eq native_reply_def native_return_def split: option.splits)

lemma start_closing: "start_result i s s' \<Longrightarrow> nh_closing s' = nh_closing s"
  by (auto simp: native_reply_def elim: start_result.cases)

lemma work_closing: "work_result ev dead prank i p s s' \<Longrightarrow> nh_closing s' = nh_closing s"
  by (auto simp: native_reply_def native_return_def elim: work_result.cases)

lemma start_budget:
  assumes "start_result i (s\<lparr>nh_queue := cs\<rparr>) s'" and "nh_phase s = Receiving" and "nh_queue s = NativeCall i q # cs" and "\<And>x. prank x \<le> 1"
  shows "native_budget prank s' < native_budget prank s"
  using assms(1)
proof (cases rule: start_result.cases)
  case (sr_work p)
  then show ?thesis using assms(2,3) assms(4) [of p] by (simp add: native_budget_def)
qed (use assms in \<open>simp add: native_budget_def native_reply_def\<close>)

section \<open>The contract of an actor\<close>

locale native_actor =
  fixes start :: "nat \<Rightarrow> 'q \<Rightarrow> ('q, 'p, 'r, 'd) native_handle \<Rightarrow> ('q, 'p, 'r, 'd) native_handle"
    and work :: "('q, 'p, 'r, 'd) native_handle \<Rightarrow> ('q, 'p, 'r, 'd) native_handle \<Rightarrow> bool"
    and dead :: 'r
    and prank :: "'p \<Rightarrow> nat"
    and ev :: "'r \<Rightarrow> bool"
  assumes start_law: "nh_phase s = Receiving \<Longrightarrow> start_result i s (start i q s)"
    and work_law: "work s s' \<Longrightarrow> \<exists>i p. nh_phase s = Working i p \<and> work_result ev dead prank i p s s'"
    and work_live: "nh_phase s = Working i p \<Longrightarrow> \<exists>s'. work s s'"
    and prank_le: "prank p \<le> 1"
    and dead_quiet: "\<not> ev dead"
begin

lemma receive_ok:
  assumes "native_ok s" and "nh_phase s = Receiving"
  shows "native_ok (native_receive start s)"
proof (cases "nh_queue s")
  case Nil
  then show ?thesis using assms by (auto simp: native_receive_def native_ok_def calls_ok_def call_ids_def end_ok_def)
next
  case (Cons c cs)
  show ?thesis
  proof (cases c)
    case (NativeCall i q)
    then show ?thesis
      using start_ok [OF start_law assms, of cs i q q] Cons assms(2) by (simp add: native_receive_def)
  next
    case NativeClose
    have "call_ids (native_receive start s) = call_ids s" "nh_calls (native_receive start s) = nh_calls s" "end_ok (native_receive start s)"
      using assms Cons NativeClose by (auto simp: native_receive_def call_ids_def native_ok_def end_ok_def)
    then show ?thesis using assms(1) calls_okI unfolding native_ok_def by blast
  qed
qed

lemma native_internal_ok:
  assumes "native_internal start work dead s s'" and "native_ok s"
  shows "native_ok s'"
  using assms(1)
proof (cases rule: native_internal.cases)
  case ni_receive
  then show ?thesis using receive_ok assms(2) by simp
next
  case ni_work
  then obtain i p where "nh_phase s = Working i p" "work_result ev dead prank i p s s'" using work_law by blast
  then show ?thesis using work_ok assms(2) by metis
next
  case (ni_stop k res)
  then show ?thesis using native_stop_ok assms(2) by simp
next
  case (ni_wait k w)
  have all: "\<forall>x \<in> set (co_waiters (nh_outcome s)). close_waiter_ok (co_result (nh_outcome s)) x"
    using assms(2) unfolding native_ok_def end_ok_def by blast
  then have "close_waiter_ok (co_result (nh_outcome s)) w" using waiter_poll_ok [OF _ ni_wait(3)] nth_mem [OF ni_wait(2)] by blast
  then have "\<forall>x \<in> set ((co_waiters (nh_outcome s))[k := w]). close_waiter_ok (co_result (nh_outcome s)) x"
    using all set_update_subset_insert [of "co_waiters (nh_outcome s)" k w] by blast
  moreover have "calls_ok s'" using assms(2) ni_wait(1) by (simp add: native_ok_def calls_ok_def call_ids_def)
  ultimately show ?thesis using ni_wait(1) assms(2) by (simp add: native_ok_def end_ok_def)
qed

lemma reachable_ok: "native_reachable start work dead d s \<Longrightarrow> native_ok s"
proof (induction rule: native_reachable.induct)
  case nr_new
  show ?case by (rule native_new_ok)
next
  case (nr_step s s')
  from nr_step(2,3) show ?case
    by (cases rule: native_step.cases) (auto intro: native_internal_ok native_call_ok native_close_ok wait_ok drop_ok_native abort_ok_native)
qed

lemma calls_answered:
  assumes "native_reachable start work dead d s"
  shows "distinct (map fst (nh_replies s)) \<and> set (map fst (nh_replies s)) \<subseteq> {..<nh_calls s}
    \<and> (nh_phase s = Ended \<longrightarrow> set (map fst (nh_replies s)) = {..<nh_calls s} \<and> co_result (nh_outcome s) \<noteq> None)"
proof -
  have ok: "native_ok s" by (rule reachable_ok [OF assms])
  then have m: "mset (map fst (nh_replies s)) + (mset (queued_calls (nh_queue s)) + mset (phase_call (nh_phase s))) = mset [0..<nh_calls s]"
    by (simp add: native_ok_def calls_ok_def call_ids_def add.assoc)
  have "distinct (map fst (nh_replies s))"
  proof -
    have "mset (map fst (nh_replies s) @ queued_calls (nh_queue s) @ phase_call (nh_phase s)) = mset [0..<nh_calls s]" using m by simp
    then have "distinct (map fst (nh_replies s) @ queued_calls (nh_queue s) @ phase_call (nh_phase s))"
      using distinct_upt mset_eq_imp_distinct_iff by blast
    then show ?thesis by simp
  qed
  moreover have "set (map fst (nh_replies s)) \<subseteq> {..<nh_calls s}"
    using arg_cong [OF m, of set_mset] by (fastforce simp: atLeast0LessThan)
  moreover have "set (map fst (nh_replies s)) = {..<nh_calls s} \<and> co_result (nh_outcome s) \<noteq> None" if "nh_phase s = Ended"
    using arg_cong [OF m, of set_mset] ok that by (auto simp: native_ok_def end_ok_def atLeast0LessThan)
  ultimately show ?thesis by blast
qed

lemma internal_order:
  assumes "native_internal start work dead s s'" and "call_order_ok ev s"
  shows "call_order_ok ev s'"
  using assms(1)
proof (cases rule: native_internal.cases)
  case ni_receive
  have "call_order_ok ev (start i q (s\<lparr>nh_queue := cs\<rparr>))" if "nh_queue s = NativeCall i q # cs" for i q cs
    using order_start [OF start_law assms(2) ni_receive(2) that] ni_receive(2) by simp
  then show ?thesis using ni_receive assms(2) by (auto simp: native_receive_def order_simps split: list.splits native_command.splits)
next
  case ni_work
  then obtain i p where "nh_phase s = Working i p" "work_result ev dead prank i p s s'" using work_law by blast
  then show ?thesis using order_work assms(2) dead_quiet by metis
next
  case (ni_stop k res)
  then show ?thesis using order_stop assms(2) dead_quiet by simp
next
  case (ni_wait k w)
  then show ?thesis using assms(2) by (simp add: order_simps)
qed

lemma results_in_order: "native_reachable start work dead d s \<Longrightarrow> sorted_wrt (<) (map fst (result_replies ev s))"
proof -
  assume "native_reachable start work dead d s"
  then have "call_order_ok ev s"
  proof (induction rule: native_reachable.induct)
    case nr_new
    show ?case by (simp add: order_simps native_new_def)
  next
    case (nr_step s s')
    from nr_step(2,3) show ?case
      by (cases rule: native_step.cases)
        (simp_all add: internal_order order_call order_close dead_quiet, simp_all add: order_simps native_drop_def native_abort_def)
  qed
  then show ?thesis by (simp add: call_order_ok_def sorted_wrt_append)
qed

lemma native_internal_budget:
  assumes "native_internal start work dead s s'" and "native_ok s" and "nh_closing s"
  shows "native_budget prank s' < native_budget prank s"
  using assms(1)
proof (cases rule: native_internal.cases)
  case ni_receive
  show ?thesis
  proof (cases "nh_queue s")
    case Nil
    then show ?thesis using ni_receive assms(2,3) by (simp add: native_ok_def end_ok_def)
  next
    case (Cons c cs)
    show ?thesis
    proof (cases c)
      case (NativeCall i q)
      have "start_result i (s\<lparr>nh_queue := cs\<rparr>) (start i q (s\<lparr>nh_queue := cs\<rparr>))" using start_law ni_receive(2) by simp
      then show ?thesis using start_budget [where prank = prank] ni_receive Cons NativeCall prank_le by (simp add: native_receive_def)
    next
      case NativeClose
      then show ?thesis using ni_receive Cons by (simp add: native_receive_def native_budget_def)
    qed
  qed
next
  case ni_work
  then obtain i p where w: "nh_phase s = Working i p" "work_result ev dead prank i p s s'" using work_law by blast
  then have "nh_queue s \<noteq> []" using assms(2,3) by (auto simp: native_ok_def end_ok_def)
  then show ?thesis using work_budget [OF w(2,1)] prank_le by blast
next
  case (ni_stop k res)
  then show ?thesis using stop_budget by simp
next
  case (ni_wait k w)
  then show ?thesis
    using sum_list_update_less [OF ni_wait(2) waiter_poll_rank [OF ni_wait(3)]] by (simp add: native_budget_def outcome_rank_def)
qed

lemma internal_closing:
  assumes "native_internal start work dead s s'" and "nh_closing s"
  shows "nh_closing s'"
  using assms(1)
proof (cases rule: native_internal.cases)
  case ni_receive
  have "nh_closing (start i q (s\<lparr>nh_queue := cs\<rparr>))" for i q cs
    using start_closing [OF start_law, of "s\<lparr>nh_queue := cs\<rparr>"] ni_receive(2) assms(2) by simp
  then show ?thesis using ni_receive assms(2) by (simp add: native_receive_def split: list.splits native_command.splits)
next
  case ni_work
  then show ?thesis using work_law work_closing assms(2) by metis
next
  case (ni_stop k res)
  then show ?thesis using assms(2) by (simp add: native_stop_eq native_reply_def native_return_def split: option.splits)
next
  case (ni_wait k w)
  then show ?thesis using assms(2) by simp
qed

lemma internal_run:
  assumes "(native_internal start work dead ^^ n) s t" and "native_ok s" and "nh_closing s"
  shows "n + native_budget prank t \<le> native_budget prank s \<and> native_ok t \<and> nh_closing t"
  using assms(1)
proof (induction n arbitrary: t)
  case 0
  then show ?case using assms by simp
next
  case (Suc n)
  then obtain u where u: "(native_internal start work dead ^^ n) s u" "native_internal start work dead u t" by auto
  have ih: "n + native_budget prank u \<le> native_budget prank s" "native_ok u" "nh_closing u" using Suc.IH [OF u(1)] by simp_all
  then show ?case using native_internal_budget [OF u(2)] native_internal_ok [OF u(2)] internal_closing [OF u(2)] by fastforce
qed

lemma stuck_ended:
  assumes stuck: "\<nexists>t'. native_internal start work dead t t'" and ok: "native_ok t" and cl: "nh_closing t"
  shows "nh_phase t = Ended"
proof (cases "nh_phase t")
  case Receiving
  then have "nh_queue t \<noteq> []" using ok cl by (auto simp: native_ok_def end_ok_def)
  then show ?thesis using stuck ni_receive [OF Receiving] by blast
next
  case (Working i p)
  then show ?thesis using stuck work_live ni_work by metis
next
  case (Stopping k)
  then show ?thesis using stuck ni_stop by metis
qed

lemma stuck_waiters:
  assumes stuck: "\<nexists>t'. native_internal start work dead t t'" and ok: "native_ok t"
    and res: "co_result (nh_outcome t) = Some r" and w: "w \<in> set (co_waiters (nh_outcome t))"
  shows "w = WaitGot r"
proof -
  obtain k where k: "k < length (co_waiters (nh_outcome t))" "co_waiters (nh_outcome t) ! k = w" using w by (metis in_set_conv_nth)
  have "waiter_poll (co_result (nh_outcome t)) w = None" using stuck ni_wait [OF k(1), of _ start work dead] k(2) by fastforce
  moreover have "close_waiter_ok (Some r) w" using ok w res by (auto simp: native_ok_def end_ok_def)
  ultimately show ?thesis using res by (cases w) (auto split: if_splits)
qed

lemma close_completes:
  assumes "native_reachable start work dead d s" and "nh_closing s" and "(native_internal start work dead ^^ n) s t"
  shows "n \<le> native_budget prank s
    \<and> ((\<nexists>t'. native_internal start work dead t t') \<longrightarrow> nh_phase t = Ended \<and> set (map fst (nh_replies t)) = {..<nh_calls t}
        \<and> (\<exists>r. co_result (nh_outcome t) = Some r \<and> (\<forall>w \<in> set (co_waiters (nh_outcome t)). w = WaitGot r)))"
proof -
  have run: "n + native_budget prank t \<le> native_budget prank s" "native_ok t" "nh_closing t"
    using internal_run [OF assms(3) reachable_ok [OF assms(1)] assms(2)] by simp_all
  have reach: "native_reachable start work dead d t"
    using assms(3)
  proof (induction n arbitrary: t)
    case 0
    then show ?case using assms(1) by simp
  next
    case (Suc n)
    then show ?case by (auto intro: nr_step ns_internal)
  qed
  have "set (map fst (nh_replies t)) = {..<nh_calls t} \<and> (\<exists>r. co_result (nh_outcome t) = Some r \<and> (\<forall>w \<in> set (co_waiters (nh_outcome t)). w = WaitGot r))"
    if stuck: "\<nexists>t'. native_internal start work dead t t'"
  proof -
    obtain r where "co_result (nh_outcome t) = Some r"
      using calls_answered [OF reach] stuck_ended [OF stuck run(2,3)] by blast
    then show ?thesis
      using calls_answered [OF reach] stuck_ended [OF stuck run(2,3)] stuck_waiters [OF stuck run(2)] by blast
  qed
  then show ?thesis using run(1) stuck_ended run(2,3) by auto
qed

end

section \<open>The two actors\<close>

fun is_event :: "browse_outcome \<Rightarrow> bool" where
  "is_event (Inr (Some e)) = True"
| "is_event _ = False"

fun is_accepted :: "transport_error + unit \<Rightarrow> bool" where
  "is_accepted (Inr _) = True"
| "is_accepted (Inl _) = False"

fun browse_rank :: "browse_work \<Rightarrow> nat" where
  "browse_rank BrowsePolling = 1"
| "browse_rank BrowsePausing = 0"

lemma browse_start_result: "nh_phase s = Receiving \<Longrightarrow> start_result i s (browse_start i q s)"
  by (auto simp: browse_start_def split: list.splits intro: start_result.intros)

text \<open>Setting the phase and the data, in the order in which the contract writes them.\<close>

lemma data_phase: "s\<lparr>nh_data := d, nh_phase := ph\<rparr> = (s\<lparr>nh_phase := ph, nh_data := d\<rparr> :: ('q, 'p, 'r, 'd) native_handle)"
  by (cases s) simp

lemma browse_poll_result:
  assumes "nh_phase s = Working i BrowsePolling"
  shows "work_result is_event (Inr None) browse_rank i BrowsePolling s (browse_poll dbg ty answer i s)"
proof -
  have stop: "work_result is_event (Inr None) browse_rank i BrowsePolling s (s\<lparr>nh_phase := Stopping (Some (i, Inl e))\<rparr>)" for e
    using wr_stop [where s = s and d = "nh_data s" and r = "Inl e"] by simp
  show ?thesis
  proof (cases answer)
    case (Inr batch)
    obtain evs err where c: "convert_records dbg ty (bp_records batch) = (evs, err)" by fastforce
    show ?thesis
    proof (cases "bp_status batch")
      case MobileActive
      then show ?thesis using Inr c
        by (auto simp: browse_poll_def Let_def data_phase split: option.splits list.splits intro!: work_result.intros)
    next
      case MobileClosed
      then show ?thesis using Inr wr_closed [where s = s and d = "log_batch batch (nh_data s)" and r = "Inr None"]
        by (simp add: browse_poll_def Let_def)
    next
      case MobileFailed
      then show ?thesis using Inr by (auto simp: browse_poll_def Let_def data_phase intro!: wr_stop)
    qed
  qed (simp add: browse_poll_def stop)
qed

lemma browse_pause_result:
  assumes "nh_phase s = Working i BrowsePausing"
  shows "work_result is_event (Inr None) browse_rank i BrowsePausing s (browse_pause i s)"
proof (cases "nh_queue s")
  case Nil
  then show ?thesis
    using wr_stay [where s = s and d = "nh_data s" and p' = BrowsePolling] by (simp add: browse_pause_def)
next
  case (Cons c cs)
  then show ?thesis by (cases c) (auto simp: browse_pause_def intro: work_result.intros)
qed

interpretation browse_actor: native_actor browse_start "browse_work_step dbg ty" "Inr None" browse_rank is_event for dbg ty
proof (unfold_locales, goal_cases)
  case (2 s s')
  then show ?case by (cases rule: browse_work_step.cases) (auto intro: browse_poll_result browse_pause_result)
next
  case (3 s i p)
  then show ?case by (cases p) (auto intro: browse_work_step.intros)
next
  case (4 p)
  then show ?case by (cases p) simp_all
qed (simp_all add: browse_start_result)

interpretation advertisement_actor: native_actor advertisement_start advertisement_work_step "Inl ADVERTISEMENT_CLOSED" "\<lambda>_. 0" is_accepted
proof (unfold_locales, goal_cases)
  case (1 s i q)
  then show ?case by (simp add: advertisement_start_def sr_work)
next
  case (2 s s')
  then obtain i u answer where u: "nh_phase s = Working i u" "s' = advertisement_answer answer i u s" by (auto elim: advertisement_work_step.cases)
  have stop: "work_result is_accepted (Inl ADVERTISEMENT_CLOSED) (\<lambda>_. 0) i u s (s\<lparr>nh_phase := Stopping (Some (i, Inl e))\<rparr>)" for e
    using wr_stop [where s = s and d = "nh_data s" and r = "Inl e"] by simp
  have "work_result is_accepted (Inl ADVERTISEMENT_CLOSED) (\<lambda>_. 0) i u s s'"
    unfolding u(2) by (cases answer) (simp_all add: advertisement_answer_def data_phase wr_reply stop)
  then show ?case using u(1) by blast
next
  case (3 s i p)
  then show ?case by (auto intro: advertisement_work_step.intros)
qed simp_all

section \<open>Events of a browse\<close>

definition native_browse_reachable :: "(string \<Rightarrow> string) \<Rightarrow> string \<Rightarrow> native_browse \<Rightarrow> bool" where
  "native_browse_reachable dbg ty s \<longleftrightarrow> native_reachable browse_start (browse_work_step dbg ty) (Inr None) (nh_data native_browse_new) s"

fun event_of :: "browse_outcome \<Rightarrow> raw_event list" where
  "event_of (Inr (Some e)) = [e]"
| "event_of _ = []"

text \<open>The events answered to calls of \<open>next\<close>, and those of them that were answered to a caller who still waited.\<close>

definition answered_events :: "native_browse \<Rightarrow> raw_event list" where
  "answered_events s = concat (map (\<lambda>ir. event_of (snd ir)) (nh_replies s))"

definition received_events :: "native_browse \<Rightarrow> raw_event list" where
  "received_events s = concat (map (\<lambda>ir. event_of (snd ir)) (filter (\<lambda>ir. fst ir \<notin> set (nh_aborted s)) (nh_replies s)))"

text \<open>The events of a batch that a browse passes on: none of a batch that reports the end or the failure of the session, and
  those before the first invalid record otherwise.  A batch is whole when nothing of it is discarded.\<close>

definition accepted_events :: "(string \<Rightarrow> string) \<Rightarrow> string \<Rightarrow> dns_sd_browse_poll_response \<Rightarrow> raw_event list" where
  "accepted_events dbg ty b = (if bp_status b = MobileActive then fst (convert_records dbg ty (bp_records b)) else [])"

definition batch_whole :: "(string \<Rightarrow> string) \<Rightarrow> string \<Rightarrow> dns_sd_browse_poll_response \<Rightarrow> bool" where
  "batch_whole dbg ty b \<longleftrightarrow> bp_status b = MobileActive \<and> snd (convert_records dbg ty (bp_records b)) = None"

lemma whole_batch_converts:
  "snd (convert_records dbg ty rs) = None \<Longrightarrow> map (\<lambda>r. raw_event_from_mobile dbg r ty) rs = map Inr (fst (convert_records dbg ty rs))"
  by (induction rs) (auto split: sum.splits prod.splits)

definition events_kept :: "(string \<Rightarrow> string) \<Rightarrow> string \<Rightarrow> native_browse \<Rightarrow> bool" where
  "events_kept dbg ty s \<longleftrightarrow>
     answered_events s @ bd_buffered (nh_data s) = concat (map (accepted_events dbg ty) (bd_batches (nh_data s)))
     \<and> (\<forall>i r. nh_phase s = Stopping (Some (i, r)) \<longrightarrow> event_of r = [])"

lemmas events_simps = events_kept_def answered_events_def native_reply_def

lemma concat_dead [simp]: "concat (map ((\<lambda>ir. event_of (snd ir)) \<circ> (\<lambda>i. (i, Inr None))) xs) = []"
  by (induction xs) simp_all

lemma append_extend: "a @ b = c \<Longrightarrow> b @ x = es \<Longrightarrow> a @ es = c @ x"
  by auto

lemma events_poll: "events_kept dbg ty s \<Longrightarrow> events_kept dbg ty (browse_poll dbg ty answer i s)"
  by (auto simp: events_simps browse_poll_def push_events_def log_batch_def accepted_events_def native_return_def Let_def
      intro: append_extend split: sum.splits mobile_session_status.splits option.splits list.splits prod.splits)

lemma events_pause: "events_kept dbg ty s \<Longrightarrow> events_kept dbg ty (browse_pause i s)"
  by (auto simp: events_simps browse_pause_def split: list.splits native_command.splits)

lemma events_receive: "events_kept dbg ty s \<Longrightarrow> nh_phase s = Receiving \<Longrightarrow> events_kept dbg ty (native_receive browse_start s)"
  by (auto simp: events_simps native_receive_def browse_start_def split: list.splits native_command.splits)

lemma events_stop: "events_kept dbg ty s \<Longrightarrow> nh_phase s = Stopping k \<Longrightarrow> events_kept dbg ty (native_stop (Inr None) res s)"
  by (auto simp: native_stop_eq events_simps native_return_def split: option.splits)

lemma events_internal:
  assumes "native_internal browse_start (browse_work_step dbg ty) (Inr None) s s'" and "events_kept dbg ty s"
  shows "events_kept dbg ty s'"
  using assms(1)
proof (cases rule: native_internal.cases)
  case ni_work
  then show ?thesis using assms(2) by (cases rule: browse_work_step.cases) (simp_all add: events_poll events_pause)
qed (use assms(2) in \<open>simp_all add: events_receive events_stop\<close>, simp add: events_simps)

text \<open>Only the last batch can have something discarded, and then the actor does not poll again.\<close>

fun still_polls :: "('p, 'r) native_phase \<Rightarrow> bool" where
  "still_polls Receiving = True"
| "still_polls (Working i p) = True"
| "still_polls _ = False"

definition batches_ok :: "(string \<Rightarrow> string) \<Rightarrow> string \<Rightarrow> native_browse \<Rightarrow> bool" where
  "batches_ok dbg ty s \<longleftrightarrow> (\<forall>b \<in> set (butlast (bd_batches (nh_data s))). batch_whole dbg ty b)
     \<and> (still_polls (nh_phase s) \<longrightarrow> (\<forall>b \<in> set (bd_batches (nh_data s)). batch_whole dbg ty b))"

lemma batches_poll:
  assumes "batches_ok dbg ty s" and "nh_phase s = Working i BrowsePolling"
  shows "batches_ok dbg ty (browse_poll dbg ty answer i s)"
proof (cases answer)
  case (Inl e)
  then show ?thesis using assms by (simp add: batches_ok_def browse_poll_def)
next
  case (Inr b)
  then show ?thesis using assms
    by (cases "bp_status b")
      (auto simp: batches_ok_def batch_whole_def browse_poll_def push_events_def log_batch_def native_reply_def native_return_def Let_def
        split: option.splits list.splits prod.splits)
qed

lemma batches_mono:
  assumes "batches_ok dbg ty s" and "bd_batches (nh_data s') = bd_batches (nh_data s)"
    and "still_polls (nh_phase s') \<Longrightarrow> still_polls (nh_phase s)"
  shows "batches_ok dbg ty s'"
  using assms by (simp add: batches_ok_def)

lemma batches_internal:
  assumes "native_internal browse_start (browse_work_step dbg ty) (Inr None) s s'" and "batches_ok dbg ty s"
  shows "batches_ok dbg ty s'"
  using assms(1)
proof (cases rule: native_internal.cases)
  case ni_receive
  then show ?thesis
    by (intro batches_mono [OF assms(2)])
      (auto simp: native_receive_def browse_start_def native_reply_def split: list.splits native_command.splits)
next
  case ni_work
  then show ?thesis
  proof (cases rule: browse_work_step.cases)
    case (bw_pause i)
    then show ?thesis
      by (intro batches_mono [OF assms(2)]) (auto simp: browse_pause_def native_reply_def split: list.splits native_command.splits)
  qed (simp add: batches_poll assms(2))
next
  case (ni_stop k res)
  then show ?thesis
    by (intro batches_mono [OF assms(2)]) (auto simp: native_stop_eq native_reply_def native_return_def split: option.splits)
next
  case (ni_wait k w)
  then show ?thesis by (intro batches_mono [OF assms(2)]) simp_all
qed

lemma native_browse_kept:
  assumes "native_browse_reachable dbg ty s"
  shows "events_kept dbg ty s \<and> batches_ok dbg ty s"
  using assms unfolding native_browse_reachable_def
proof (induction rule: native_reachable.induct)
  case nr_new
  show ?case by (simp add: events_simps batches_ok_def native_browse_new_def native_new_def)
next
  case (nr_step s s')
  have "events_kept dbg ty s'" using nr_step(2,3)
    by (cases rule: native_step.cases)
      (simp_all add: events_internal, simp_all add: events_simps native_call_def native_request_close_def native_drop_def native_abort_def)
  moreover have "batches_ok dbg ty s'" using nr_step(2,3)
    by (cases rule: native_step.cases)
      (simp_all add: batches_internal, simp_all add: batches_ok_def native_reply_def native_call_def native_request_close_def
        native_drop_def native_abort_def)
  ultimately show ?case by blast
qed

lemma received_subseq: "subseq (received_events s) (answered_events s)"
proof -
  have "subseq (concat (map f (filter P xs))) (concat (map f xs))" for f :: "nat \<times> browse_outcome \<Rightarrow> raw_event list" and P xs
    by (induction xs) (simp_all add: list_emb_append_mono subseq_drop_many)
  then show ?thesis unfolding received_events_def answered_events_def .
qed

lemma received_all:
  assumes "\<And>i r. (i, r) \<in> set (nh_replies s) \<Longrightarrow> is_event r \<Longrightarrow> i \<notin> set (nh_aborted s)"
  shows "received_events s = answered_events s"
proof -
  have quiet: "\<not> is_event r \<Longrightarrow> event_of r = []" for r by (cases r rule: event_of.cases) simp_all
  have all: "concat (map (\<lambda>ir. event_of (snd ir)) (filter P xs)) = concat (map (\<lambda>ir. event_of (snd ir)) xs)"
    if "\<forall>ir \<in> set xs. is_event (snd ir) \<longrightarrow> P ir" for P :: "nat \<times> browse_outcome \<Rightarrow> bool" and xs
    using that by (induction xs) (auto simp: quiet)
  have "\<forall>ir \<in> set (nh_replies s). is_event (snd ir) \<longrightarrow> fst ir \<notin> set (nh_aborted s)"
    using assms by (metis prod.collapse)
  then show ?thesis unfolding received_events_def answered_events_def by (rule all)
qed

text \<open>Property C39.  The browse handle on a mobile platform passes on the events of the batches that the platform returned, in order
  and without repetition.  In every reachable state the events answered to calls of \<open>next\<close>, followed by the buffered ones, are
  the accepted events of all batches so far: all events of an active batch whose records are valid; of an active batch with an
  invalid record those before it; none of a batch that reports the end or the failure of the session.  A batch of the latter two
  kinds can only be the last, and the actor never polls after it.  What callers receive is a subsequence of these events: an
  event that is answered to a call whose future was dropped is lost, and if no event was, the received and the buffered events
  together are all of them.  Events go to calls in the order of the calls, and no call is answered twice.\<close>

theorem native_browse_events_in_order:
  assumes "native_browse_reachable dbg ty s"
  shows "answered_events s @ bd_buffered (nh_data s) = concat (map (accepted_events dbg ty) (bd_batches (nh_data s)))
    \<and> (\<forall>b \<in> set (butlast (bd_batches (nh_data s))). batch_whole dbg ty b)
    \<and> (still_polls (nh_phase s) \<longrightarrow> (\<forall>b \<in> set (bd_batches (nh_data s)). batch_whole dbg ty b))
    \<and> (\<forall>b. batch_whole dbg ty b \<longrightarrow> map (\<lambda>r. raw_event_from_mobile dbg r ty) (bp_records b) = map Inr (accepted_events dbg ty b))
    \<and> subseq (received_events s @ bd_buffered (nh_data s)) (concat (map (accepted_events dbg ty) (bd_batches (nh_data s))))
    \<and> ((\<forall>(i, r) \<in> set (nh_replies s). is_event r \<longrightarrow> i \<notin> set (nh_aborted s)) \<longrightarrow>
        received_events s @ bd_buffered (nh_data s) = concat (map (accepted_events dbg ty) (bd_batches (nh_data s))))
    \<and> sorted_wrt (<) (map fst (result_replies is_event s)) \<and> distinct (map fst (nh_replies s))"
proof -
  have k: "answered_events s @ bd_buffered (nh_data s) = concat (map (accepted_events dbg ty) (bd_batches (nh_data s)))" "batches_ok dbg ty s"
    using native_browse_kept [OF assms] by (simp_all add: events_kept_def)
  have "subseq (received_events s @ bd_buffered (nh_data s)) (answered_events s @ bd_buffered (nh_data s))"
    by (intro list_emb_append_mono received_subseq) simp
  moreover have "received_events s = answered_events s" if "\<forall>(i, r) \<in> set (nh_replies s). is_event r \<longrightarrow> i \<notin> set (nh_aborted s)"
    using received_all that by fastforce
  moreover have "map (\<lambda>r. raw_event_from_mobile dbg r ty) (bp_records b) = map Inr (accepted_events dbg ty b)" if "batch_whole dbg ty b" for b
    using whole_batch_converts that by (simp add: batch_whole_def accepted_events_def)
  moreover have "sorted_wrt (<) (map fst (result_replies is_event s))" "distinct (map fst (nh_replies s))"
    using browse_actor.results_in_order browse_actor.calls_answered assms unfolding native_browse_reachable_def by blast+
  ultimately show ?thesis using k unfolding batches_ok_def by simp
qed

definition demo_mobile_batch :: dns_sd_browse_poll_response where
  "demo_mobile_batch = \<lparr>bp_status = MobileActive, bp_records = map (\<lambda>n. \<lparr>ms_is_active = False, ms_service_type = ''_a._UDP.local.'',
     ms_instance_name = n, ms_host = None, ms_port = 0, ms_addrs = [], ms_txt = []\<rparr>) [''x'', ''y''], bp_error = None\<rparr>"

definition demo_mobile_start :: native_browse where
  "demo_mobile_start = native_receive browse_start (native_browse_next native_browse_new)"

definition demo_mobile_browse :: native_browse where
  "demo_mobile_browse = native_receive browse_start (native_browse_next (browse_poll (\<lambda>t. t) ''_a._udp'' (Inr demo_mobile_batch) 0 demo_mobile_start))"

text \<open>Two events, the first answered to a call that was dropped; then a terminal batch whose record is discarded.\<close>

definition demo_terminal_batch :: dns_sd_browse_poll_response where
  "demo_terminal_batch = demo_mobile_batch\<lparr>bp_status := MobileClosed\<rparr>"

definition demo_mobile_idle :: native_browse where
  "demo_mobile_idle = native_receive browse_start (native_browse_next (native_abort 0 demo_mobile_browse))"

definition demo_mobile_end :: native_browse where
  "demo_mobile_end = browse_poll (\<lambda>t. t) ''_a._udp'' (Inr demo_terminal_batch) 2 demo_mobile_idle"

lemma native_browse_reach:
  assumes "native_browse_reachable dbg ty s"
  shows "nh_open s \<Longrightarrow> native_browse_reachable dbg ty (native_browse_next s)"
    and "nh_phase s = Receiving \<Longrightarrow> nh_queue s \<noteq> [] \<Longrightarrow> native_browse_reachable dbg ty (native_receive browse_start s)"
    and "nh_phase s = Working i BrowsePolling \<Longrightarrow> native_browse_reachable dbg ty (browse_poll dbg ty answer i s)"
    and "nh_open s \<Longrightarrow> native_browse_reachable dbg ty (native_request_close s)"
    and "j < nh_calls s \<Longrightarrow> native_browse_reachable dbg ty (native_abort j s)"
  using assms unfolding native_browse_reachable_def native_browse_next_def
  by (auto intro: nr_step ns_internal ni_receive ni_work ns_call ns_close ns_abort bw_poll)

lemma native_browse_reach_new: "native_browse_reachable dbg ty native_browse_new"
  using nr_new [of browse_start "browse_work_step dbg ty" "Inr None" "nh_data native_browse_new"]
  by (simp add: native_browse_reachable_def native_browse_new_def native_new_def)

lemma demo_mobile_start_reachable: "native_browse_reachable dbg ty demo_mobile_start"
  unfolding demo_mobile_start_def by (intro native_browse_reach native_browse_reach_new) code_simp+

lemma demo_mobile_reachable: "native_browse_reachable (\<lambda>t. t) ''_a._udp'' demo_mobile_browse"
proof -
  have "nh_phase demo_mobile_start = Working 0 BrowsePolling" by code_simp
  note r = native_browse_reach(3) [OF demo_mobile_start_reachable this]
  show ?thesis unfolding demo_mobile_browse_def by (intro native_browse_reach(1,2) r) code_simp+
qed

lemma demo_mobile_end_reachable: "native_browse_reachable (\<lambda>t. t) ''_a._udp'' demo_mobile_end"
proof -
  have r: "native_browse_reachable (\<lambda>t. t) ''_a._udp'' demo_mobile_idle"
    unfolding demo_mobile_idle_def by (intro native_browse_reach(1,2,5) demo_mobile_reachable) code_simp+
  have "nh_phase demo_mobile_idle = Working 2 BrowsePolling" by code_simp
  then show ?thesis unfolding demo_mobile_end_def by (rule native_browse_reach(3) [OF r])
qed

theorem native_browse_events_in_order_witness:
  "nh_replies demo_mobile_end = [(0, Inr (Some (RawRemove ''_a._udp'' ''x''))), (1, Inr (Some (RawRemove ''_a._udp'' ''y''))), (2, Inr None)]
    \<and> received_events demo_mobile_end = [RawRemove ''_a._udp'' ''y'']
    \<and> bd_batches (nh_data demo_mobile_end) = [demo_mobile_batch, demo_terminal_batch]
    \<and> concat (map (accepted_events (\<lambda>t. t) ''_a._udp'') (bd_batches (nh_data demo_mobile_end))) = [RawRemove ''_a._udp'' ''x'', RawRemove ''_a._udp'' ''y'']"
proof -
  have "nh_replies demo_mobile_end = [(0, Inr (Some (RawRemove ''_a._udp'' ''x''))), (1, Inr (Some (RawRemove ''_a._udp'' ''y''))), (2, Inr None)]"
    "received_events demo_mobile_end = [RawRemove ''_a._udp'' ''y'']" "bd_batches (nh_data demo_mobile_end) = [demo_mobile_batch, demo_terminal_batch]"
    "answered_events demo_mobile_end @ bd_buffered (nh_data demo_mobile_end) = [RawRemove ''_a._udp'' ''x'', RawRemove ''_a._udp'' ''y'']"
    by code_simp+
  then show ?thesis using conjunct1 [OF native_browse_events_in_order [OF demo_mobile_end_reachable]] by simp
qed

section \<open>Updates of an advertisement\<close>

definition native_advertisement_reachable :: "native_advertisement \<Rightarrow> bool" where
  "native_advertisement_reachable s \<longleftrightarrow>
     native_reachable advertisement_start advertisement_work_step (Inl ADVERTISEMENT_CLOSED) (nh_data native_advertisement_new) s"

definition accepted_kept :: "native_advertisement \<Rightarrow> bool" where
  "accepted_kept s \<longleftrightarrow> map fst (nh_data s) = map fst (result_replies is_accepted s)
     \<and> (\<forall>i r. nh_phase s = Stopping (Some (i, r)) \<longrightarrow> \<not> is_accepted r)"

lemmas accepted_simps = accepted_kept_def result_replies_def native_reply_def

lemma accepted_internal:
  assumes "native_internal advertisement_start advertisement_work_step (Inl ADVERTISEMENT_CLOSED) s s'" and "accepted_kept s"
  shows "accepted_kept s'"
  using assms(1)
proof (cases rule: native_internal.cases)
  case ni_receive
  then show ?thesis using assms(2)
    by (auto simp: accepted_simps native_receive_def advertisement_start_def split: list.splits native_command.splits)
next
  case ni_work
  then show ?thesis using assms(2)
    by (cases rule: advertisement_work_step.cases) (auto simp: accepted_simps advertisement_answer_def split: sum.splits)
next
  case (ni_stop k res)
  then show ?thesis using assms(2) by (auto simp: native_stop_eq accepted_simps native_return_def split: option.splits)
next
  case (ni_wait k w)
  then show ?thesis using assms(2) by (simp add: accepted_simps)
qed

text \<open>The platform has accepted exactly the updates that were answered with success, in the order of the calls.\<close>

theorem native_updates_in_order:
  assumes "native_advertisement_reachable s"
  shows "map fst (nh_data s) = map fst (result_replies is_accepted s) \<and> sorted_wrt (<) (map fst (nh_data s))"
proof -
  have r: "native_reachable advertisement_start advertisement_work_step (Inl ADVERTISEMENT_CLOSED) (nh_data native_advertisement_new) s"
    using assms by (simp add: native_advertisement_reachable_def)
  then have "accepted_kept s"
  proof (induction rule: native_reachable.induct)
    case nr_new
    show ?case by (simp add: accepted_simps native_advertisement_new_def native_new_def)
  next
    case (nr_step s s')
    from nr_step(2,3) show ?case
      by (cases rule: native_step.cases)
        (simp_all add: accepted_internal, simp_all add: accepted_simps native_call_def native_request_close_def native_drop_def native_abort_def)
  qed
  then show ?thesis using advertisement_actor.results_in_order [OF r] by (simp add: accepted_kept_def)
qed

section \<open>Closing\<close>

text \<open>The actor has ended, every call has its answer, and the close result is there and known to every waiter.\<close>

definition native_settled :: "('q, 'p, 'r, 'd) native_handle \<Rightarrow> bool" where
  "native_settled t \<longleftrightarrow> nh_phase t = Ended \<and> set (map fst (nh_replies t)) = {..<nh_calls t}
     \<and> (\<exists>r. co_result (nh_outcome t) = Some r \<and> (\<forall>w \<in> set (co_waiters (nh_outcome t)). w = WaitGot r))"

text \<open>Property C40.  A close request of a mobile browse or advertisement handle completes, whatever the platform answers and however
  commands, calls and waiters overlap with it: from then on the actor and the waiters can take only boundedly many steps, and
  when none is left the actor has ended, every call has been answered and every waiter has the close result.\<close>

theorem native_close_completes:
  assumes "native_browse_reachable dbg ty b" and "nh_closing b"
    and "(native_internal browse_start (browse_work_step dbg ty) (Inr None) ^^ n) b b'"
    and "native_advertisement_reachable a" and "nh_closing a"
    and "(native_internal advertisement_start advertisement_work_step (Inl ADVERTISEMENT_CLOSED) ^^ m) a a'"
  shows "n \<le> native_budget browse_rank b
    \<and> ((\<nexists>t. native_internal browse_start (browse_work_step dbg ty) (Inr None) b' t) \<longrightarrow> native_settled b')
    \<and> m \<le> native_budget (\<lambda>_. 0) a
    \<and> ((\<nexists>t. native_internal advertisement_start advertisement_work_step (Inl ADVERTISEMENT_CLOSED) a' t) \<longrightarrow> native_settled a')"
  using browse_actor.close_completes [OF assms(1) [unfolded native_browse_reachable_def] assms(2,3)]
    advertisement_actor.close_completes [OF assms(4) [unfolded native_advertisement_reachable_def] assms(5,6)]
  unfolding native_settled_def by blast

lemma ended_stuck:
  assumes "nh_phase t = Ended" and "co_waiters (nh_outcome t) = []" and "\<And>s s'. work s s' \<Longrightarrow> nh_phase s \<noteq> Ended"
  shows "\<not> native_internal start work dead t t'"
  using assms by (auto elim!: native_internal.cases)

definition demo_platform_closed :: dns_sd_browse_poll_response where
  "demo_platform_closed = \<lparr>bp_status = MobileClosed, bp_records = [], bp_error = None\<rparr>"

definition demo_advertisement_stopping :: native_advertisement where
  "demo_advertisement_stopping = native_receive advertisement_start (native_request_close native_advertisement_new)"

theorem native_close_completes_witness:
  "native_settled (browse_poll (\<lambda>t. t) ''_a._udp'' (Inr demo_platform_closed) 0 (native_request_close demo_mobile_start))
    \<and> native_settled (native_stop (Inl ADVERTISEMENT_CLOSED) (Inr ()) demo_advertisement_stopping)"
proof -
  let ?b = "native_request_close demo_mobile_start" and ?a = "native_request_close native_advertisement_new"
  let ?b' = "browse_poll (\<lambda>t. t) ''_a._udp'' (Inr demo_platform_closed) 0 ?b"
  let ?a' = "native_stop (Inl ADVERTISEMENT_CLOSED) (Inr ()) demo_advertisement_stopping"
  let ?bi = "native_internal browse_start (browse_work_step (\<lambda>t. t) ''_a._udp'') (Inr None)"
  let ?ai = "native_internal advertisement_start advertisement_work_step (Inl ADVERTISEMENT_CLOSED)"
  have b: "native_browse_reachable (\<lambda>t. t) ''_a._udp'' ?b"
    by (rule native_browse_reach(4) [OF demo_mobile_start_reachable]) code_simp
  have "nh_phase ?b = Working 0 BrowsePolling" by code_simp
  then have bs: "(?bi ^^ 1) ?b ?b'" by (simp add: eq_OO ni_work bw_poll)
  have a: "native_advertisement_reachable ?a"
    using nr_step [OF nr_new ns_close, of "nh_data native_advertisement_new"]
    by (simp add: native_advertisement_reachable_def native_advertisement_new_def native_new_def)
  have "?ai ?a demo_advertisement_stopping" unfolding demo_advertisement_stopping_def by (rule ni_receive) code_simp+
  moreover have "nh_phase demo_advertisement_stopping = Stopping None" by code_simp
  ultimately have as: "(?ai ^^ 2) ?a ?a'" by (auto simp: numeral_2_eq_2 intro: ni_stop)
  have e: "nh_phase ?b' = Ended" "co_waiters (nh_outcome ?b') = []" "nh_phase ?a' = Ended" "co_waiters (nh_outcome ?a') = []"
    by code_simp+
  have "\<not> ?bi ?b' t" for t by (rule ended_stuck [OF e(1,2)]) (auto elim: browse_work_step.cases)
  moreover have "\<not> ?ai ?a' t" for t by (rule ended_stuck [OF e(3,4)]) (auto elim: advertisement_work_step.cases)
  moreover have "nh_closing ?b" "nh_closing ?a" by code_simp+
  ultimately show ?thesis using native_close_completes [OF b _ bs a _ as] by blast
qed

end
