(* ===== verification/Advert_Roundtrip.thy ===== *)
theory Advert_Roundtrip
  imports Discovery_Props Dns_Sd_Props
begin

text \<open>
  From an endpoint to a peer event through DNS-SD: the configuration of a peer advertisement, the service information
  that is registered with the daemon, the record a browser builds from what it resolved, and the peer it sees.
  The \<^verbatim>\<open>mdns-sd\<close> crate carries the service from one side to the other: \<open>resolve info\<close> is what a browser of the service
  type has resolved once it has all records of \<open>info\<close>, and \<open>mdns_law\<close> is what the crate documents about it.
\<close>

section \<open>What the library carries\<close>

text \<open>For an instance name that is one DNS label of letters and digits and for TXT entries that have distinct keys and fit
  255 bytes each: the full name is the instance name in front of the service type, and port, addresses (in any order,
  each with the interface it was seen on) and TXT entries are those of the service.\<close>

definition plain_label :: "string \<Rightarrow> bool" where
  "plain_label s \<longleftrightarrow> s \<noteq> [] \<and> length s \<le> 63 \<and> list_all is_ascii_alphanumeric s"

definition txt_fits :: "(string \<times> string) list \<Rightarrow> bool" where
  "txt_fits txt \<longleftrightarrow> distinct (map fst txt) \<and> list_all (\<lambda>(k, v). length k + 1 + length v \<le> DNS_SD_TXT_ENTRY_MAX_BYTES) txt"

definition mdns_law :: "'i mdns_lib \<Rightarrow> ('i \<Rightarrow> resolved_service) \<Rightarrow> bool" where
  "mdns_law M resolve \<longleftrightarrow> (\<forall>ty inst host addrs port txt info.
     ml_service_info M ty inst host addrs port txt = Inr info \<and> plain_label inst \<and> txt_fits txt
     \<longrightarrow> rs_fullname (resolve info) = inst @ CHR ''.'' # ty \<and> rs_ty_domain (resolve info) = ty
       \<and> rs_port (resolve info) = port \<and> fst ` set (rs_addresses (resolve info)) = set addrs
       \<and> map_of (rs_txt (resolve info)) = map_of txt)"

lemma mdns_lawD:
  assumes "mdns_law M resolve" "ml_service_info M ty inst host addrs port txt = Inr info" "plain_label inst" "txt_fits txt"
  shows "rs_fullname (resolve info) = inst @ CHR ''.'' # ty" "rs_ty_domain (resolve info) = ty"
    "rs_port (resolve info) = port" "fst ` set (rs_addresses (resolve info)) = set addrs"
    "map_of (rs_txt (resolve info)) = map_of txt"
  using assms unfolding mdns_law_def by blast+

section \<open>The record a browser builds\<close>

text \<open>A routable address gets no scope, whatever interface it was seen on.\<close>

lemma routable_unscoped: "disc_is_routable_ip (fst x) \<Longrightarrow> socket_addr_from_scoped port x = sock (fst x) port"
  by (auto simp: socket_addr_from_scoped_def socket_addr_with_scope_def applicable_ipv6_scope_def disc_is_routable_ip_def
      sock_def split: ip_addr.splits if_splits)

lemma resolved_record_carries:
  assumes law: "mdns_law M resolve" and info: "service_info M cfg False = Inr info"
    and inst: "plain_label (sc_instance_name cfg)" and fits: "txt_fits (sc_txt cfg)"
    and ips: "\<forall>ip \<in> set (sc_addrs cfg). disc_is_routable_ip ip"
  shows "\<exists>r. record_from_resolved (resolve info) = Some r \<and> carries cfg r
     \<and> dns_service_type (ml_debug M) (sc_service_name cfg) (sc_protocol cfg) = Inr (sr_service_type r)"
proof -
  obtain ty where ty: "dns_service_type (ml_debug M) (sc_service_name cfg) (sc_protocol cfg) = Inr ty"
    and mk: "ml_service_info M ty (sc_instance_name cfg) (sc_instance_name cfg @ ''.local.'') (sc_addrs cfg) (sc_port cfg)
      (sc_txt cfg) = Inr info"
    using info by (auto simp: service_info_def split: sum.splits)
  note rs = mdns_lawD [OF law mk inst fits]
  have "sc_instance_name cfg \<noteq> []" using inst by (simp add: plain_label_def)
  then have i: "instance_from_fullname (rs_fullname (resolve info)) (rs_ty_domain (resolve info)) = Some (sc_instance_name cfg)"
    using rs(1,2) by (simp add: instance_from_fullname_Some)
  have "\<forall>x \<in> set (rs_addresses (resolve info)). disc_is_routable_ip (fst x)" using ips rs(4) by blast
  then have "socket_addr_from_scoped (sc_port cfg) ` set (rs_addresses (resolve info))
      = (\<lambda>x. sock (fst x) (sc_port cfg)) ` set (rs_addresses (resolve info))"
    by (intro image_cong) (simp_all add: routable_unscoped)
  also have "\<dots> = (\<lambda>ip. sock ip (sc_port cfg)) ` set (sc_addrs cfg)"
    unfolding rs(4) [symmetric] by (simp add: image_image)
  finally show ?thesis using i ty rs by (simp add: record_from_resolved_def carries_def)
qed

section \<open>The round trip\<close>

lemma peer_txt_fits:
  assumes cfg: "peer_service_config_from_snapshot L service inst bound node ifs = Inr cfg" and inst: "plain_label inst"
    and relay: "\<forall>u \<in> set (take 1 (ep_relays node)). length TXT_RELAY + 1 + length u \<le> DNS_SD_TXT_ENTRY_MAX_BYTES"
  shows "txt_fits (sc_txt cfg)"
proof -
  have "length TXT_ADDRESS + 1 + length s \<le> DNS_SD_TXT_ENTRY_MAX_BYTES"
    if "fit_txt_values TXT_ADDRESS vs = Some s" for vs s
    using fit_txt_selects [OF that] by (auto simp: DNS_SD_TXT_ENTRY_MAX_BYTES_def)
  then show ?thesis
    using peer_config_shape [OF cfg] inst relay txt_keys
    by (auto simp: txt_fits_def plain_label_def TXT_PK_def DNS_SD_TXT_ENTRY_MAX_BYTES_def split: list.splits option.splits)
qed

lemma peer_srv_routable:
  assumes cfg: "peer_service_config_from_snapshot L service inst bound node ifs = Inr cfg"
  shows "\<forall>ip \<in> set (sc_addrs cfg). disc_is_routable_ip ip"
proof
  fix ip assume ip: "ip \<in> set (sc_addrs cfg)"
  note shape = peer_config_shape [OF cfg]
  have "\<not> disc_is_placeholder_port (sc_port cfg)" using srv_portD shape by blast
  then obtain a where "a \<in> set (peer_direct_addresses (ep_ip_addrs node) bound ifs)" "sa_ip a = ip"
    using srv_addrsD(1) ip shape by metis
  then show "disc_is_routable_ip ip" using peer_direct_ok by (auto simp: direct_ok_def)
qed

text \<open>Property C16.  An advertisement read back.  Take the configuration of an endpoint whose transport addresses carry no
  scope id, whose identity is a plain label and whose relay URL fits one TXT entry, register it with the daemon, and let a
  browser build its record from what the library resolved for the registered service.  For every library that meets
  \<open>mdns_law\<close> and every rendering of addresses that the parser reads back, the record is recognised as an active peer with the
  endpoint's identity, all whose addresses are dialable direct addresses of the endpoint or its first relay; and it has
  every one of them when the direct addresses fit into one TXT entry of 255 bytes.\<close>

theorem advertisement_round_trip:
  assumes "peer_service_config_from_snapshot L service inst bound node ifs = Inr cfg"
    and "advertise_inner M daemon register cfg False = Inr (base, adv, session)" and "mdns_law M resolve"
    and "show_law L (peer_direct_addresses (ep_ip_addrs node) bound ifs)" and "plain_label inst"
    and "\<forall>a \<in> set (ep_ip_addrs node). sa_scope a = 0"
    and "\<forall>u \<in> set (take 1 (ep_relays node)). length TXT_RELAY + 1 + length u \<le> DNS_SD_TXT_ENTRY_MAX_BYTES"
  shows "\<exists>info r ev. ma_log adv = [Register info] \<and> record_from_resolved (resolve info) = Some r
     \<and> dns_service_type (ml_debug M) service Udp = Inr (sr_service_type r) \<and> sr_instance_name r = inst
     \<and> peer_event_from_record L r = Some ev \<and> pe_is_active ev \<and> pe_node_id ev = inst
     \<and> (let direct = peer_direct_addresses (ep_ip_addrs node) bound ifs;
            expected = sock_show L ` set direct \<union> set (take 1 (ep_relays node)) in
        set (pe_addrs ev) \<subseteq> expected
        \<and> (length TXT_ADDRESS + 1 + length (join_comma (map (sock_show L) direct)) \<le> 255 \<longrightarrow> set (pe_addrs ev) = expected))"
proof -
  note shape = peer_config_shape [OF assms(1)]
  obtain info where info: "service_info M cfg False = Inr info" and lg: "ma_log adv = [Register info]"
    using assms(2) by (auto simp: advertise_inner_def split: sum.splits)
  obtain r where r: "record_from_resolved (resolve info) = Some r" "carries cfg r"
    "dns_service_type (ml_debug M) (sc_service_name cfg) (sc_protocol cfg) = Inr (sr_service_type r)"
    using resolved_record_carries [OF assms(3) info _ peer_txt_fits [OF assms(1,5,7)] peer_srv_routable [OF assms(1)]]
      shape assms(5) by auto
  have "inst \<noteq> []" using assms(5) by (simp add: plain_label_def)
  from carried_record_decodes [OF assms(1,4) this assms(6) r(2)] lg r shape show ?thesis
    by (auto simp: carries_def)
qed

definition demo_mdns :: "resolved_service mdns_lib" where
  "demo_mdns = \<lparr>ml_service_info = (\<lambda>ty inst host addrs port entries. Inr
       \<lparr>rs_fullname = inst @ CHR ''.'' # ty, rs_ty_domain = ty, rs_host = host, rs_port = port,
        rs_addresses = map (\<lambda>ip. (ip, 4)) (rev addrs), rs_txt = entries\<rparr>),
     ml_addr_auto = id, ml_fullname = rs_fullname, ml_text = (\<lambda>e. ''daemon''), ml_debug = id\<rparr>"

lemma demo_mdns_law: "mdns_law demo_mdns (\<lambda>rs. rs)"
  by (auto simp: mdns_law_def demo_mdns_def image_image)

theorem advertisement_round_trip_witness:
  "\<exists>cfg base adv session info r ev.
     peer_service_config_from_snapshot demo_disc_lib ''app'' ''k'' (ep_bound demo_node)
       (demo_node\<lparr>ep_ip_addrs := [sock (IpV4 10 0 0 7) 443]\<rparr>) [IpV4 10 0 0 7] = Inr cfg
     \<and> advertise_inner demo_mdns (Inr ()) (Inr ()) cfg False = Inr (base, adv, session) \<and> ma_log adv = [Register info]
     \<and> record_from_resolved info = Some r \<and> peer_event_from_record demo_disc_lib r = Some ev
     \<and> pe_node_id ev = ''k'' \<and> set (pe_addrs ev) = {''10.0.0.7:443'', ''https://r''}"
proof -
  let ?n = "demo_node\<lparr>ep_ip_addrs := [sock (IpV4 10 0 0 7) 443]\<rparr>"
  have b: "ep_bound demo_node = [sock (IpV4 0 0 0 0) 443]" by (simp add: demo_node_def)
  have f: "filter (\<lambda>a. sa_ip a \<notin> set [IpV4 10 0 0 7] \<or> sa_ip a \<in> set [IpV4 10 0 0 7]) (ep_ip_addrs ?n) = [sock (IpV4 10 0 0 7) 443]"
    by simp
  obtain cfg where cfg: "peer_service_config_from_snapshot demo_disc_lib ''app'' ''k'' (ep_bound demo_node) ?n [IpV4 10 0 0 7] = Inr cfg"
    unfolding peer_service_config_from_snapshot_def peer_service_config_from_reconciled_snapshot_def f b Let_def demo_direct demo_srv option.case
    by force
  have "dns_service_type id ''app'' Udp = Inr ''_app._udp.local.''"
    by (simp add: dns_service_type_def service_type_def is_ascii_alphanumeric_def)
  then obtain base adv session where adv: "advertise_inner demo_mdns (Inr ()) (Inr ()) cfg False = Inr (base, adv, session)"
    using peer_config_shape [OF cfg] by (auto simp: advertise_inner_def service_info_def demo_mdns_def)
  have d: "peer_direct_addresses (ep_ip_addrs ?n) (ep_bound demo_node) [IpV4 10 0 0 7] = [sock (IpV4 10 0 0 7) 443]"
    using demo_direct by (simp add: b)
  have sh: "sock_show demo_disc_lib = (\<lambda>_. ''10.0.0.7:443'')" by (simp add: demo_disc_lib_def)
  have "parse_sock_addr ''10.0.0.7:443'' = Some (sock (IpV4 10 0 0 7) 443)" by code_simp
  then have law: "show_law demo_disc_lib [sock (IpV4 10 0 0 7) 443]" by (simp add: show_law_def sh is_space_def)
  have pl: "plain_label ''k''" by (simp add: plain_label_def is_ascii_alphanumeric_def)
  show ?thesis
    using advertisement_round_trip [OF cfg adv demo_mdns_law _ pl] law cfg adv d
    by (auto simp: sh TXT_ADDRESS_def TXT_RELAY_def DNS_SD_TXT_ENTRY_MAX_BYTES_def join_comma_def demo_node_def Let_def)
qed

end
