(* ===== verification/Spec2Isabelle.thy ===== *)
theory Spec2Isabelle
  imports Handle_Props Stream_Pressure Serve_Props Cycle_Props Pool_Props Bind_Props Scoped_Lookup Path_Watch Endpoint_Registry Http_Client
    Body_Pump Dispatch_Props Fetch_Props Disc_Retirement Discovery_Props Advert_Props Adapter_Props
    Raw_Session_Props Deno_Serve_Props Deno_Ffi_Props Tauri_Props Tauri_Scheme Deno_Disco_Props Dns_Sd_Props Peer_Browse_Props Package_Props
    Native_Props Advert_Roundtrip
begin

text \<open>
  \<^bold>\<open>iroh-http: a verification library.\<close>

  iroh-http carries HTTP/1.1 over QUIC connections between nodes that are addressed by public keys.  The
  Rust crate \<^verbatim>\<open>src/crates/iroh-http-core\<close> holds the logic: an endpoint is bound to the network, serves
  incoming connections, fetches from peers over pooled connections, and exposes bodies, requests,
  sessions and cancellations to foreign languages (Node, Deno, Tauri) as 64-bit handles.  The crate
  \<^verbatim>\<open>iroh-http-discovery\<close> finds peers on the local network, \<^verbatim>\<open>iroh-http-adapter\<close> checks what the language
  packages pass in, and the packages under \<^verbatim>\<open>src/packages\<close> keep queues and handles of their own.  This
  library models that logic as executable definitions and proves what its parts promise each other.

  \<^bold>\<open>How the parts interact.\<close>  Binding (\<^verbatim>\<open>endpoint/bind.rs\<close>) validates the options and creates the handle
  store, the connection pool, the session runtime and the sweep task of one endpoint.  Serving
  (\<^verbatim>\<open>http/server\<close>) installs a serve cycle in the endpoint's slot; its accept loop admits connections
  through the connection admission and hands each to a connection task, which admits streams through the
  serving runtime.  Request and response bodies cross the foreign boundary through body channels that are
  registered in the handle store; a guard rolls a partial registration back.  Outgoing requests obtain a
  connection from the pool, which dials once per key and cleans up by dial number.  Peers are named by
  node ids, tickets and direct addresses; browse sessions contribute addresses to a source-scoped lookup;
  path subscriptions watch the transport's chosen path.  The adapters find endpoints in a process-wide
  registry.  An admitted request goes through the dispatcher, which allocates its handles, starts the
  pumps between the HTTP body and the body channel, hands it to the language package and waits for the
  response head; a fetch does the same in the other direction, on top of the HTTP client and the pool.
  Raw sessions expose a connection and its streams through the same store.  Discovery sessions publish an
  advertisement or browse for others; the Tauri package owns them per endpoint and generation, and its
  clean-up tasks retire them before a new one may start.  The Deno package queues requests per endpoint
  for a polling loop, returns results through caller-supplied buffers and keeps discovery sessions under handles of its own.
  An advertisement talks to the DNS-SD daemon and is refreshed when interfaces come and go; a peer browse feeds the
  endpoint's lookup until either is closed.

  \<^bold>\<open>Theories and the code they model\<close> (paths relative to \<^verbatim>\<open>src/crates/iroh-http-core/src\<close>).
  \<^item> \<open>Iroh_Prelude\<close>: machine integers, results, association lists for hash maps, saturating and atomic
    counters, decimal rendering, polling of futures.  \<open>Core_Error\<close>: \<^verbatim>\<open>error.rs\<close>.
  \<^item> \<open>Slot_Map\<close>: the interface of the slot-map crate with the locale \<open>keyed_registry\<close>, interpreted on the
    operations the registries call, and its extension \<open>retiring_registry\<close>, whose keys are never issued again;
    it is interpreted on slot maps, on the discovery handles of Tauri and on the endpoint handles of Node.
  \<^item> \<open>Body_Channel\<close>: \<open>BodyReader\<close> and \<open>BodyWriter\<close> of \<^verbatim>\<open>ffi/handles.rs\<close> over the locale \<open>mpsc\<close>, a bounded
    channel in agreement with a FIFO; every method of the direct, body and sink surfaces.
  \<^item> \<open>Handle_Store\<close>: \<open>HandleStore\<close> and \<open>InsertGuard\<close> of \<^verbatim>\<open>ffi/handles.rs\<close>, one definition per method.
    \<open>Handle_Streams\<close>, \<open>Handle_Invariants\<close>, \<open>Handle_Guard\<close> hold its lemmas, \<open>Handle_Props\<close> its properties.
    \<open>Stream_Pressure\<close> follows one chunk through a channel that may be full, with the reader draining it meanwhile;
    its locale \<open>mpsc_logged\<close> extends \<open>mpsc\<close> by the record of what went through.
  \<^item> \<open>Endpoint_Registry\<close>: \<^verbatim>\<open>ffi/registry.rs\<close>.
  \<^item> \<open>Conn_Admission\<close>: \<^verbatim>\<open>http/server/lifecycle.rs\<close>.  \<open>Serve_Runtime\<close>: \<^verbatim>\<open>http/server/options.rs\<close>,
    \<^verbatim>\<open>http/server/connection.rs\<close>, the option mapping of \<^verbatim>\<open>http/server/mod.rs\<close> and \<open>BodyIdleTimeout\<close> of
    \<^verbatim>\<open>http/server/stack.rs\<close>; \<open>Serve_Props\<close> has the shutdown, connection-task and idle-timeout results.
  \<^item> \<open>Serve_Cycle\<close>: \<^verbatim>\<open>http/server/handle.rs\<close>, \<^verbatim>\<open>http/server/accept.rs\<close>, \<open>serve_with_events\<close> of
    \<^verbatim>\<open>http/server/mod.rs\<close>, \<^verbatim>\<open>endpoint/lifecycle.rs\<close>, \<^verbatim>\<open>endpoint/session_runtime.rs\<close> and the local-service slot of
    \<^verbatim>\<open>endpoint/mod.rs\<close>, as a step relation over all interleavings; \<open>Cycle_Props\<close> has its invariants.
  \<^item> \<open>Conn_Pool\<close>, \<open>Pool_Props\<close>: \<^verbatim>\<open>http/transport/pool.rs\<close> and \<^verbatim>\<open>http/events.rs\<close> over the locale
    \<open>entry_cache\<close>.
  \<^item> \<open>Std_Net\<close>: the standard library's address parser and predicates.  \<open>Node_Addr\<close>: \<^verbatim>\<open>encoding.rs\<close>,
    \<^verbatim>\<open>addr.rs\<close>, the direct addresses of \<^verbatim>\<open>endpoint/bind.rs\<close> and the selection of \<^verbatim>\<open>endpoint/observe.rs\<close>.
  \<^item> \<open>Node_Bind\<close>, \<open>Bind_Props\<close>: \<^verbatim>\<open>endpoint/config.rs\<close>, \<open>IrohEndpoint::bind\<close>, \<^verbatim>\<open>endpoint/dns_nameservers.rs\<close>,
    \<^verbatim>\<open>endpoint/scoped_dns_compat.rs\<close>, \<^verbatim>\<open>endpoint/stats.rs\<close>.
  \<^item> \<open>Scoped_Lookup\<close>: \<^verbatim>\<open>endpoint/source_scoped_lookup.rs\<close>.  \<open>Path_Watch\<close>: the path subscriptions of
    \<^verbatim>\<open>endpoint/observe.rs\<close>.
  \<^item> \<open>Http_Client\<close>: \<^verbatim>\<open>http/client.rs\<close> on top of the pool, with the replay rule and the response checks.
  \<^item> \<open>Body_Pump\<close>: \<^verbatim>\<open>ffi/pumps.rs\<close>.  \<open>Ffi_Types\<close>: \<^verbatim>\<open>ffi/types.rs\<close>.  \<open>Ffi_Dispatch\<close>, \<open>Dispatch_Props\<close>:
    \<^verbatim>\<open>ffi/dispatcher.rs\<close>.  \<open>Ffi_Fetch\<close>, \<open>Fetch_Props\<close>: \<^verbatim>\<open>ffi/fetch.rs\<close>.  \<open>Ffi_Session\<close>, \<open>Raw_Session_Props\<close>:
    \<^verbatim>\<open>ffi/session.rs\<close>.
  \<^item> \<open>Peer_Discovery\<close>, \<open>Discovery_Props\<close>: the records, the TXT encoding and the peer selection of
    \<^verbatim>\<open>iroh-http-discovery/src/lib.rs\<close> and \<^verbatim>\<open>engine/types.rs\<close>.  \<open>Disc_Session\<close>, \<open>Session_Props\<close>, \<open>Advert_Props\<close>:
    the browse and advertise sessions of \<^verbatim>\<open>engine/session.rs\<close>.
  \<^item> \<open>Dns_Sd\<close>, \<open>Dns_Sd_Props\<close>: the handles of \<^verbatim>\<open>iroh-http-discovery/src/dns_sd.rs\<close>.  \<open>Peer_Browse\<close>, \<open>Peer_Browse_Props\<close>: the
    stateful part of \<^verbatim>\<open>iroh-http-discovery/src/lib.rs\<close>, peer browsing and the refresh of an advertisement.
    \<open>Advert_Roundtrip\<close> takes an advertisement through the daemon's service description and the resolved record to the browser.
  \<^item> \<open>Disc_Ownership\<close>, \<open>Disc_Owner_Props\<close>: \<^verbatim>\<open>discovery_ownership.rs\<close> of the Tauri package;
    \<open>Disc_Retirement\<close>: the clean-up tasks of its \<^verbatim>\<open>commands.rs\<close>.  \<open>Tauri_State\<close>, \<open>Tauri_Props\<close>: its \<^verbatim>\<open>state.rs\<close> and
    \<^verbatim>\<open>discovery_handles.rs\<close>.  \<open>Tauri_Scheme\<close>: the \<open>httpi://\<close> handler of its \<^verbatim>\<open>lib.rs\<close>.
    \<open>Native_Actor\<close>, \<open>Native_Props\<close>: its \<^verbatim>\<open>mobile_discovery_transport.rs\<close>, two actors over the locale \<open>native_actor\<close>.
  \<^item> \<open>Adapter_Input\<close>, \<open>Adapter_Props\<close>: \<^verbatim>\<open>iroh-http-adapter/src/lib.rs\<close>.
  \<^item> \<open>Deno_Serve\<close>, \<open>Deno_Serve_Props\<close>: \<^verbatim>\<open>serve_registry.rs\<close> of the Deno package, its transport and the drain
    of \<open>stopServe\<close> in \<^verbatim>\<open>dispatch.rs\<close>.  \<open>Deno_Ffi\<close>, \<open>Deno_Ffi_Props\<close>: the entry points of its \<^verbatim>\<open>lib.rs\<close>.
    \<open>Deno_Discovery\<close>, \<open>Deno_Disco_Props\<close>: the discovery resources of \<^verbatim>\<open>dispatch.rs\<close>.
  \<^item> \<open>Package_Calls\<close>, \<open>Package_Props\<close>: how the Deno, Tauri and Node packages create endpoints, serve, fetch and answer,
    and the endpoint handles of \<^verbatim>\<open>iroh-http-node/src/lib.rs\<close>.

  \<^bold>\<open>How the model corresponds to the code.\<close>  A struct is a record and an enum a datatype; a hash map is an
  association list, an atomic counter wraps at 64 bits, \<open>u16\<close>, \<open>u32\<close> and \<open>u64\<close> values are words, lengths and
  milliseconds are naturals.  A fallible method returns a sum with the code's own error on the left.  Code
  under one lock is one state transformer.  Concurrent code is split at lock regions and awaits: the serve
  cycles, the pool, the lookup retirement, the admission events, the path watchers, the discovery
  sessions with their owners and clean-up tasks, the Deno queues, the Tauri endpoint state, the discovery
  resources of Deno, the DNS-SD advertisement, the peer browse and the actors of the mobile platforms are step relations in which every party may act between any two steps; \<open>next_chunk\<close>, \<open>send_chunk\<close> and the drain wait
  take the list of what other tasks do at each suspension.  Running out of that list is reported as
  \<open>None\<close>, that is, still pending.

  \<^bold>\<open>What is shown.\<close>
  \<^item> Bodies: a chunk sent through handles arrives in order in bounded pieces followed by one end of stream, also when the
    channel is smaller than the chunk, as long as the reader keeps up with the drain timeout;
    queued data precede a terminal error; cancelling wakes a waiting read; a dropped guard leaves the store
    as it was; registries stay within their bounds; a sweep removes exactly what has expired.
  \<^item> Serving: connection limits hold in every reachable state; every connection task releases its slot;
    after a finished shutdown nothing is running; the drain wait returns; at most one cycle is live; a
    stop or an abort is never lost, even when it overtakes the start; a body is cut only after a stall.
  \<^item> Pool: returned connections are open; clean-up of a stale connection never removes a healthy one;
    eviction is scoped to one dial; \<open>get_or_connect\<close> ends when its dial ends.
  \<^item> Addresses and binding: a node's own ticket is accepted and yields its addresses; advertised
    addresses are routable and have real ports; a bound endpoint is usable; nameserver scopes survive;
    the lookup is the union of the live contributions; subscriptions are watched and not lost.
  \<^item> Requests and fetches: a response comes from the peer that was asked and a request carries the identity
    of the connection; every accepted request gets one answer; a refused request or an opened stream that
    fails leaves no handle; only safe requests are replayed, and at most once; a request returns within a bound of its own
    steps that grows only with what other tasks do to the pool entry of its peer; a cancelled fetch ends, and an accepted
    one leaves no token; a pump delivers no more than its limit and reports how it ended; a raw stream that
    is refused leaves no handle.
  \<^item> Discovery: an advertisement survives its TXT encoding and the daemon's record; the two selections of a peer's record agree;
    peer events agree with the lookup; browse results come in order; an update reports what was
    published; a late start never attaches to a newer owner, and clean-up never deadlocks.  A closed
    advertisement stays withdrawn, and every close request completes; a closed browse leaves nothing behind,
    its events come in the order of the records, and a refreshed advertisement names no lost interface, neither in its
    address records nor in its TXT entry.
  \<^item> Adapters: accepted options are well formed; a request that cannot be delivered is answered; a waiting
    Deno loop is called back and its queue keeps the order; a response larger than the caller's buffer is
    recovered through the overflow cache unless it was evicted or the buffer cannot hold the token, and a finished fetch is
    delivered once.
  \<^item> Packages: one endpoint per node identity, a scheme handler that keeps a live endpoint and gives the
    webview the whole body or an error; no discovery session of Deno outlives its endpoint; the three
    packages build the same configuration from arguments that they accept, and it is stated where they differ in errors
    and in the treatment of invalid limits; Node's handles behave as a map.  On mobile platforms the events of the polled batches and
    the updates keep their order, a batch is cut only when it ends the session, an event is lost only to a dropped call,
    every call is answered once and a close completes.
  \<^item> Deviations from comments or documentation, each shown on the model, most by a theorem: handles
    re-issued after compaction, a cancellation lost before the first poll, reordered connection events,
    the reuse flag of raced pool hits, a zero sweep interval; a slow reader that sees a clean end, a drain
    timeout that replaces the overflow error, the cancel token kept by a rejected fetch; Deno requests and
    chunks lost when the buffer is too small, the response body left open by the stop drain, a request
    delivered after the drain and never answered, and an overflow cache one entry above its limit; the node
    identity lost for the host \<open>httpi.localhost\<close>; a request body consumed by a fetch that is refused, a status
    narrowed before it is checked, the ignored sign of a Node handle and an invalid Deno limit taken as none.

  \<^bold>\<open>Recursion and bounds.\<close>  Definitions are total except \<open>send_pieces\<close>, a partial function because the
  loop does not advance for chunk size zero; it is shown to return for every positive size, and binding
  only produces positive sizes.  There is no fuel: the loops over polls consume the given schedule, and
  loops such as \<open>evict_oldest\<close>, \<open>trim_start\<close> and \<open>trim_end_matches\<close> end because their list gets shorter, \<open>retry_loop\<close>
  after the code's hundred retries and \<open>wait_for_reannounce_or_close\<close> with its deadline.  The bound \<open>2 ^ 64\<close> on the
  number of serve cycles excludes a wrapped token, and the bound of the slot-map keys excludes a wrapped
  version; both are the widths of the code's counters.

  \<^bold>\<open>Parameters.\<close>  Code of other crates is not given definitions: the slot map's key allocation (\<open>slot_lib\<close>),
  the bounded channel (\<open>mpsc_ops\<close>), the cache (\<open>cache_ops\<close>), base32, keys, JSON and URLs (\<open>addr_lib\<close>,
  \<open>bind_lib\<close>, \<open>lookup_lib\<close>, \<open>http_lib\<close>, \<open>adapter_lib\<close>, \<open>sess_lib\<close>), the permit limit of semaphores, the outcome of
  each \<open>select!\<close>, the answers of the DNS-SD transport and daemon (\<open>mdns_lib\<close>), base64 in the packages, the parts of a
  JavaScript big integer as the Node binding presents it and, for the Deno call entry point, the method that is
  dispatched.  What is used of them is a locale or a named hypothesis, and each has a concrete instance.

  \<^bold>\<open>Not modelled.\<close>  Hyper's and tower's protocol work, QUIC, sockets and DNS traffic; the body and stream
  adaptors (\<^verbatim>\<open>http/body.rs\<close>, \<^verbatim>\<open>http/transport/io.rs\<close>) and signatures (\<^verbatim>\<open>crypto.rs\<close>), which only forward to other
  crates; the \<^verbatim>\<open>mdns-sd\<close> daemon itself; the functions of the three packages that look up an endpoint and forward one
  call, and the mobile plug-in calls of the Tauri package; the TypeScript packages;
  the texts of the standard library's parse errors.  Two messages are written in ASCII: an en dash as a
  hyphen and an ellipsis as three dots.  \<open>trim_str\<close> of \<open>Scoped_Lookup\<close> strips ASCII white space only.

  \<^bold>\<open>Where the model is coarser than the code.\<close>
  \<^item> The law \<open>channel_law\<close> of \<open>mpsc\<close> gives a channel for every positive capacity; tokio also panics above its permit limit
    (more than \<open>2 ^ 60\<close>), and a freed permit goes to a waiting sender before a later \<open>try_send\<close>.
  \<^item> \<open>slot_get\<close> compares whole keys; the crate sets the lowest bit of the version of a foreign key first, which matters for
    handles that were never issued.
  \<^item> \<open>adm_init\<close> and the connection limits speak about one admission with its own total.  \<^verbatim>\<open>accept.rs\<close> passes the counter of the
    endpoint, so that after a replacement the total also has the connections that the old cycle still drains.
  \<^item> \<open>serve_spawn\<close> runs the first segment of the spawned task, up to its first wait, at the point of the spawn.
  \<^item> The message of a refused \<open>upsert\<close> shows the node id without the quotes of its debug form.
  \<^item> Dial numbers are counted per pool from zero; the code has one counter per process.  Only their order within a pool matters.
  \<^item> \<open>fetch_request\<close> with a timeout cuts off a run that is still pending at the end of its trace; the result on termination
    therefore shows that the run ends before that, and with the same result for every timeout.
  \<^item> The answer of the mobile platform to a close is an input of the step that uses it, not awaited in steps of its own.
  \<^item> The endpoint handles of Node wrap at 32 bits in the model as in the code; their refinement is stated below the wrap.
\<close>

section \<open>Properties across components\<close>

text \<open>Body channels of a bound endpoint: whatever the options, every store reachable on an
  endpoint that \<open>bind\<close> accepted can create a body channel, so that the constructor's panic on a zero
  capacity is unreachable.\<close>

theorem bound_endpoint_makes_body_channels:
  assumes "bind_endpoint B join_reasons opt = Inr b" and "mpsc ops view"
    and "store_reachable L ops (be_store_config b) s"
  shows "\<exists>w r s'. store_make_body_channel ops s = Some (w, r, s')"
proof -
  have "config s = store_config_of (nd_streaming opt)"
    using store_reachable_ok [OF assms(3)] bound_store_config [OF assms(1)] by (simp add: store_ok_def)
  then have "0 < channel_capacity (config s)" by (simp add: store_config_of_def)
  then obtain c where "mp_channel ops (channel_capacity (config s)) = Some c"
    using mpsc.channel_law [OF assms(2)] by blast
  then show ?thesis by (simp add: store_make_body_channel_def make_body_channel_with_def Let_def)
qed

theorem bound_endpoint_makes_body_channels_witness:
  "\<exists>b w r s'. bind_endpoint example_bind_lib (\<lambda>_. []) example_options = Inr b
     \<and> store_make_body_channel fifo_ops (store_new (be_store_config b) demo_heap) = Some (w, r, s')"
proof -
  obtain b where b: "bind_endpoint example_bind_lib (\<lambda>_. []) example_options = Inr b" using example_binds by blast
  have "\<exists>w r s'. store_make_body_channel fifo_ops (store_new (be_store_config b) demo_heap) = Some (w, r, s')"
    by (rule bound_endpoint_makes_body_channels [OF b fifo.mpsc_axioms]) (rule reach_new)
  then show ?thesis using b by blast
qed

text \<open>The limits that the runtime accepts, read off the caller's options with the server's defaults.  The
  timeouts need no check: the endpoint API turns zero into ``disabled''.\<close>

definition usable_limits :: "nat \<Rightarrow> serve_options \<Rightarrow> bool" where
  "usable_limits max_permits opt \<longleftrightarrow>
     (\<forall>n \<in> {unwrap_or (so_max_connections_per_peer opt) DEFAULT_MAX_CONNECTIONS_PER_PEER,
            unwrap_or (so_max_total_connections opt) DEFAULT_MAX_TOTAL_CONNECTIONS,
            unwrap_or (so_max_concurrency opt) DEFAULT_CONCURRENCY}. 0 < n \<and> n \<le> max_permits)
     \<and> 0 < unwrap_or (so_connection_idle_timeout_ms opt) DEFAULT_CONNECTION_IDLE_TIMEOUT_MS"

lemma zero_disables_nonzero: "d \<noteq> Some 0 \<Longrightarrow> zero_disables x d \<noteq> Some 0"
  by (auto simp: zero_disables_def split: option.splits)

lemma usable_limits_accepted:
  "validate_options max_permits (accept_config opt hdr cmp) = Inr () \<longleftrightarrow> usable_limits max_permits opt"
  unfolding options_accepted_iff usable_limits_def accept_config_def
  by (auto simp: zero_disables_nonzero DEFAULT_REQUEST_HEAD_TIMEOUT_MS_def DEFAULT_BODY_IDLE_TIMEOUT_MS_def)

definition example_serve_options :: serve_options where
  "example_serve_options = \<lparr>so_max_concurrency = None, so_request_timeout_ms = None, so_request_head_timeout_ms = Some 0,
     so_body_idle_timeout_ms = None, so_connection_idle_timeout_ms = None, so_max_connections_per_peer = Some 4,
     so_max_request_body_wire_bytes = None, so_max_request_body_decoded_bytes = None, so_drain_timeout_ms = None,
     so_max_total_connections = None, so_load_shed = None, so_decompression = None\<rparr>"

text \<open>Property C12.  Starting to serve: on a reachable endpoint state and with any header limit and compression
  of the endpoint, a call of \<open>serve_with_events\<close> installs the new cycle in the slot, tells the cycle it
  replaces to stop and close its connections, and leaves the accept task listening exactly when the
  numeric limits of the options are usable; otherwise the task has ended and its completion is
  published, so that nobody waits for it.\<close>

theorem serve_starts_on_usable_limits:
  assumes "cyc_reachable s" and "Suc (length (cycles s)) < 2 ^ 64"
    and "serve_with_events max_permits opt hdr cmp s = (h, s')"
  shows "serve_slot s' = Some h \<and> local_service s' = None
    \<and> (usable_limits max_permits opt \<longrightarrow> cyc_task (cycles s' ! h) = Selecting \<and> \<not> done_observed (cycles s' ! h)
         \<and> cyc_join (cycles s' ! h) = JoinHeld)
    \<and> (\<not> usable_limits max_permits opt \<longrightarrow> cyc_task (cycles s' ! h) = Exited \<and> done_observed (cycles s' ! h))
    \<and> (\<forall>p. serve_slot s = Some p \<longrightarrow> shutdown_requested (cycles s' ! p) \<and> cyc_close_flag (cycles s' ! p))"
proof -
  define s1 where "s1 = snd (serve_begin (serve_drain_timeout (accept_config opt hdr cmp)) s)"
  have inv: "cells_ok s" "slot_ok s" using cyc_reachable_inv [OF assms(1)] assms(2) by simp_all
  have st: "cyc_step s s1" unfolding s1_def by (rule st_begin)
  have s1: "cells_ok s1" "slot_ok s1" using step_cells [OF st inv(1)] step_slot [OF st inv(2,1)] assms(2) by simp_all
  have c: "length (cycles s1) = Suc h" "h = length (cycles s)" "serve_slot s1 = serve_slot s"
    "cyc_pc (cycles s1 ! h) = Minted" "\<not> abort_requested (cycles s1 ! h)"
    "\<not> cyc_done (cycles s1 ! h)"
    and s': "s' = serve_attach h (serve_spawn (usable_limits max_permits opt) h (serve_register h s1))"
    using assms(3) unfolding s1_def usable_limits_accepted [of max_permits opt hdr cmp, symmetric]
    by (auto simp: serve_with_events_def serve_begin_def next_serve_token_def pending_cycle_def Let_def)
  note reg = register_other [OF s1(2,1) _ _ c(4), unfolded c(1)]
  have own: "cycles (serve_register h s1) ! h = (cycles s1 ! h)\<lparr>cyc_pc := Registered\<rparr>"
    using register_self [OF s1(2,1) _ _ c(4)] c(1,2) assms(2) by simp
  have "p < h" if "serve_slot s = Some p" for p using inv(2) that c(2) by (simp add: slot_ok_def)
  then show ?thesis
    unfolding s' using reg own c assms(2)
    by (auto simp: serve_attach_def serve_spawn_def upd_cycle_def attach_join_def done_observed_def task_ended_def
        task_abort_def shutdown_and_close_def)
qed

theorem serve_starts_on_usable_limits_witness:
  "\<exists>s s'. cyc_reachable s \<and> serve_slot s = Some 0 \<and> serve_with_events 1024 example_serve_options 8192 None s = (1, s')
     \<and> serve_slot s' = Some 1 \<and> cyc_task (cycles s' ! 1) = Selecting \<and> cyc_close_flag (cycles s' ! 0)"
proof -
  define s where "s = serve_register 0 (snd (serve_begin 5 session_new))"
  have r: "cyc_reachable s"
    unfolding s_def
    by (rule cyc_next [OF cyc_next [OF cyc_start st_begin] st_register]) (simp_all add: cycle_eval)
  have l: "length (cycles s) = 1" "serve_slot s = Some 0" unfolding s_def by (simp_all add: cycle_eval)
  obtain h s' where e: "serve_with_events 1024 example_serve_options 8192 None s = (h, s')" by (rule prod.exhaust)
  have "h = 1" using e l by (auto simp: serve_with_events_def serve_begin_def next_serve_token_def Let_def)
  moreover have "usable_limits 1024 example_serve_options"
    by (simp add: usable_limits_def example_serve_options_def DEFAULT_MAX_TOTAL_CONNECTIONS_def DEFAULT_CONCURRENCY_def
        DEFAULT_CONNECTION_IDLE_TIMEOUT_MS_def unwrap_or_def)
  moreover note serve_starts_on_usable_limits [OF r _ e]
  ultimately show ?thesis
    using r l e by (intro exI [of _ s] exI [of _ s']) simp
qed

end
